(* ===== verification/Prelude.thy ===== *)
theory Prelude
  imports Main "HOL-Library.Word"
begin

text \<open>
  Shared vocabulary of the development.

  A Go \<open>byte\<close> is an 8-bit word and a Go \<open>[]byte\<close> or \<open>string\<close> is a list of bytes (Go strings
  are byte sequences). String constants of the source are written \<open>ascii ''...''\<close>. A Go
  \<open>int\<close> that holds a length or an index is a \<open>nat\<close> or an \<open>int\<close>; where the code does
  arithmetic that can leave the 64-bit range the wrap-around is written out with \<open>wrap64\<close>.
\<close>

type_synonym byte = "8 word"
type_synonym gobytes = "byte list"
type_synonym u32 = "32 word"
type_synonym u64 = "64 word"

named_theorems byte_simps \<open>arithmetic of ASCII ranges on bytes\<close>
named_theorems inv_intros \<open>operations that keep a component's invariant\<close>
named_theorems frame_simps \<open>fields an operation leaves unchanged\<close>

section \<open>Bytes and ASCII\<close>

definition ascii :: "string \<Rightarrow> gobytes" where
  "ascii s = map of_char s"

lemma ascii_simps [simp]:
  "ascii [] = []"
  "ascii (c # cs) = of_char c # ascii cs"
  by (simp_all add: ascii_def)

lemma ascii_append [simp]: "ascii (s @ t) = ascii s @ ascii t"
  by (simp add: ascii_def)

lemma length_ascii [simp]: "length (ascii s) = length s"
  by (simp add: ascii_def)

definition is_upper :: "byte \<Rightarrow> bool" where
  "is_upper c \<longleftrightarrow> 65 \<le> c \<and> c \<le> 90"

text \<open>\<open>if c >= 'A' && c <= 'Z' { c += 'a' - 'A' }\<close>, the ASCII folding the source repeats.\<close>

definition ascii_lower :: "byte \<Rightarrow> byte" where
  "ascii_lower c = (if 65 \<le> c \<and> c \<le> 90 then c + 32 else c)"

lemma unat_byte_less: "unat (c :: byte) < 256"
proof -
  have "unat c < 2 ^ LENGTH(8)" by (rule unsigned_less)
  then show ?thesis by simp
qed

lemma byte_le_unat [byte_simps]: "(a :: byte) \<le> b \<longleftrightarrow> unat a \<le> unat b"
  by (rule word_le_nat_alt)

lemma byte_less_unat [byte_simps]: "(a :: byte) < b \<longleftrightarrow> unat a < unat b"
  by (rule word_less_nat_alt)

lemma unat_ascii_lower:
  "unat (ascii_lower c) = (if 65 \<le> unat c \<and> unat c \<le> 90 then unat c + 32 else unat c)"
  by (simp add: ascii_lower_def byte_simps unat_word_ariths)

lemma ascii_lower_idem [simp]: "ascii_lower (ascii_lower c) = ascii_lower c"
  by (simp add: word_unat_eq_iff unat_ascii_lower)

lemma ascii_lower_not_upper [simp]: "\<not> is_upper (ascii_lower c)"
  by (simp add: is_upper_def byte_simps unat_ascii_lower)

lemma ascii_lower_id: "\<not> is_upper c \<Longrightarrow> ascii_lower c = c"
  by (auto simp: ascii_lower_def is_upper_def)

lemma ascii_lower_eq_iff: "ascii_lower c = c \<longleftrightarrow> \<not> is_upper c"
  by (metis ascii_lower_id ascii_lower_not_upper)

lemma map_ascii_lower_idem [simp]: "map ascii_lower (map ascii_lower xs) = map ascii_lower xs"
  by simp

section \<open>Signed 64-bit arithmetic\<close>

definition wrap64 :: "int \<Rightarrow> int" where
  "wrap64 x = (x + 2 ^ 63) mod 2 ^ 64 - 2 ^ 63"

lemma wrap64_id: "- (2 ^ 63) \<le> x \<Longrightarrow> x < 2 ^ 63 \<Longrightarrow> wrap64 x = x"
  by (simp add: wrap64_def)

lemma wrap64_range: "- (2 ^ 63) \<le> wrap64 x \<and> wrap64 x < 2 ^ 63"
  by (simp add: wrap64_def)

section \<open>Lists\<close>

lemma take_Suc_snoc: "i < length xs \<Longrightarrow> take (Suc i) xs = take i xs @ [xs ! i]"
  by (rule take_Suc_conv_app_nth)

lemma nth_update_if: "xs[k := x] ! s = (if s = k \<and> k < length xs then x else xs ! s)"
  by (cases "k < length xs"; cases "s = k") (simp_all add: list_update_beyond)

text \<open>
  A loop over a list whose body may stop it: the Go loops with \<open>return\<close> or \<open>break\<close>, and the
  callbacks \<open>func(v) bool\<close> that answer \<open>false\<close> to stop. The second component says whether the
  loop ran to its end.
\<close>

fun iter_while :: "('a \<Rightarrow> 's \<Rightarrow> 's \<times> bool) \<Rightarrow> 'a list \<Rightarrow> 's \<Rightarrow> 's \<times> bool" where
  "iter_while f [] s = (s, True)"
| "iter_while f (x # xs) s =
     (case f x s of (s', go) \<Rightarrow> if go then iter_while f xs s' else (s', False))"

lemma iter_while_append:
  "iter_while f (xs @ ys) s =
     (case iter_while f xs s of (s', go) \<Rightarrow> if go then iter_while f ys s' else (s', False))"
  by (induction xs arbitrary: s) (auto split: prod.splits)

lemma iter_while_map: "iter_while f (map g xs) s = iter_while (\<lambda>x. f (g x)) xs s"
  by (induction xs arbitrary: s) (auto split: prod.splits)

lemma iter_while_total:
  "(\<And>x s. x \<in> set xs \<Longrightarrow> snd (f x s)) \<Longrightarrow>
   iter_while f xs s = (fold (\<lambda>x s. fst (f x s)) xs s, True)"
proof (induction xs arbitrary: s)
  case (Cons x xs)
  then have "snd (f x s)" by simp
  with Cons show ?case by (simp add: case_prod_beta)
qed simp

lemma iter_while_cong:
  "(\<And>x s. x \<in> set xs \<Longrightarrow> f x s = g x s) \<Longrightarrow> iter_while f xs s = iter_while g xs s"
  by (induction xs arbitrary: s) (auto split: prod.splits)

lemma iter_while_preserves:
  assumes "\<And>x s. x \<in> set xs \<Longrightarrow> P s \<Longrightarrow> P (fst (f x s))" and "P s"
  shows "P (fst (iter_while f xs s))"
  using assms
proof (induction xs arbitrary: s)
  case (Cons x xs)
  then have "P (fst (f x s))" by simp
  with Cons show ?case by (auto simp: case_prod_beta)
qed simp

lemma fold_preserves:
  assumes "\<And>x s. x \<in> set xs \<Longrightarrow> P s \<Longrightarrow> P (f x s)" and "P s"
  shows "P (fold f xs s)"
  using assms by (induction xs arbitrary: s) auto

text \<open>The same loop when the body may fail to end (\<open>None\<close>).\<close>

fun iter_opt :: "('a \<Rightarrow> 's \<Rightarrow> ('s \<times> bool) option) \<Rightarrow> 'a list \<Rightarrow> 's \<Rightarrow> ('s \<times> bool) option" where
  "iter_opt f [] s = Some (s, True)"
| "iter_opt f (x # xs) s =
     (case f x s of None \<Rightarrow> None
      | Some (s', go) \<Rightarrow> if go then iter_opt f xs s' else Some (s', False))"

section \<open>The Go standard library\<close>

text \<open>\<open>bytes.IndexByte\<close> of the Go standard library; \<open>None\<close> is -1.\<close>

fun IndexByte :: "gobytes \<Rightarrow> byte \<Rightarrow> nat option" where
  "IndexByte [] c = None"
| "IndexByte (b # bs) c = (if b = c then Some 0 else map_option Suc (IndexByte bs c))"

lemma IndexByte_None: "IndexByte s c = None \<longleftrightarrow> c \<notin> set s"
  by (induction s) auto

lemma IndexByte_Some:
  "IndexByte s c = Some i \<Longrightarrow> i < length s \<and> s ! i = c \<and> (\<forall>j < i. s ! j \<noteq> c)"
proof (induction s arbitrary: i)
  case (Cons b bs)
  then show ?case by (auto simp: nth_Cons less_Suc_eq_0_disj split: if_splits nat.splits)
qed simp

end
