(* ===== verification/Types.thy ===== *)
theory Types
  imports Prelude
begin

text \<open>
  The public vocabulary of package \<open>types\<close>: confidence tiers, severities, phases, rule
  identifiers and their namespaces, byte spans, and target kinds with their key matching.

  Every Go enumeration here is a \<open>uint8\<close> (rule identifiers a \<open>uint32\<close>) whose methods
  have a default branch for values that are no constant of the enumeration, so the model keeps the
  machine word and names the constants. Constants are abbreviations.
\<close>

section \<open>Confidence (types/confidence.go)\<close>

type_synonym confidence = "8 word"

abbreviation Heuristic :: confidence where "Heuristic \<equiv> 0"
abbreviation Low :: confidence where "Low \<equiv> 1"
abbreviation Medium :: confidence where "Medium \<equiv> 2"
abbreviation High :: confidence where "High \<equiv> 3"
abbreviation Certain :: confidence where "Certain \<equiv> 4"

definition confidence_Valid :: "confidence \<Rightarrow> bool" where
  "confidence_Valid c \<longleftrightarrow> unat c < 5"

definition confidence_String :: "confidence \<Rightarrow> string" where
  "confidence_String c =
     (case map_of [(Heuristic, ''heuristic''), (Low, ''low''), (Medium, ''medium''),
        (High, ''high''), (Certain, ''certain'')] c of
        Some s \<Rightarrow> s | None \<Rightarrow> ''invalid'')"

definition confidence_AtLeast :: "confidence \<Rightarrow> confidence \<Rightarrow> bool" where
  "confidence_AtLeast c m \<longleftrightarrow> m \<le> c"

definition ParseConfidence :: "string \<Rightarrow> confidence \<times> bool" where
  "ParseConfidence s =
     (case map_of [(''heuristic'', Heuristic), (''low'', Low), (''medium'', Medium),
        (''high'', High), (''certain'', Certain)] s of
        Some c \<Rightarrow> (c, True) | None \<Rightarrow> (0, False))"

definition ConfidenceFromParanoiaLevel :: "int \<Rightarrow> confidence" where
  "ConfidenceFromParanoiaLevel pl =
     (if pl \<le> 1 then High else if pl = 2 then Medium else if pl = 3 then Low else Heuristic)"

lemma confidence_cases:
  "confidence_Valid c \<longleftrightarrow> c = Heuristic \<or> c = Low \<or> c = Medium \<or> c = High \<or> c = Certain"
proof -
  have "unat c < 5 \<longleftrightarrow> unat c = 0 \<or> unat c = 1 \<or> unat c = 2 \<or> unat c = 3 \<or> unat c = 4" by arith
  then show ?thesis by (simp add: confidence_Valid_def word_unat_eq_iff)
qed

lemma ParseConfidence_String:
  "confidence_Valid c \<Longrightarrow> ParseConfidence (confidence_String c) = (c, True)"
  by (auto simp: confidence_cases ParseConfidence_def confidence_String_def)

lemma ParseConfidence_accepts:
  "ParseConfidence s = (c, True) \<Longrightarrow> confidence_Valid c \<and> confidence_String c = s"
  by (auto simp: ParseConfidence_def confidence_String_def confidence_cases
      split: if_splits option.splits)

section \<open>Severity (types/severity.go)\<close>

type_synonym severity = "8 word"

abbreviation SeverityNotice :: severity where "SeverityNotice \<equiv> 0"
abbreviation SeverityWarning :: severity where "SeverityWarning \<equiv> 1"
abbreviation SeverityError :: severity where "SeverityError \<equiv> 2"
abbreviation SeverityCritical :: severity where "SeverityCritical \<equiv> 3"

definition severity_Valid :: "severity \<Rightarrow> bool" where
  "severity_Valid s \<longleftrightarrow> s \<le> SeverityCritical"

definition severity_String :: "severity \<Rightarrow> string" where
  "severity_String s =
     (case map_of [(SeverityNotice, ''notice''), (SeverityWarning, ''warning''),
        (SeverityError, ''error''), (SeverityCritical, ''critical'')] s of
        Some t \<Rightarrow> t | None \<Rightarrow> ''invalid'')"

definition severity_Score :: "severity \<Rightarrow> int" where
  "severity_Score s =
     (if s = SeverityCritical then 5 else if s = SeverityError then 4
      else if s = SeverityWarning then 3 else 2)"

definition ParseSeverity :: "string \<Rightarrow> severity \<times> bool" where
  "ParseSeverity s =
     (case map_of [(''notice'', SeverityNotice), (''warning'', SeverityWarning),
        (''error'', SeverityError), (''critical'', SeverityCritical)] s of
        Some v \<Rightarrow> (v, True) | None \<Rightarrow> (0, False))"

lemma severity_cases:
  "severity_Valid s \<longleftrightarrow>
     s = SeverityNotice \<or> s = SeverityWarning \<or> s = SeverityError \<or> s = SeverityCritical"
proof -
  have "unat s \<le> 3 \<longleftrightarrow> unat s = 0 \<or> unat s = 1 \<or> unat s = 2 \<or> unat s = 3" by arith
  then show ?thesis by (simp add: severity_Valid_def byte_simps word_unat_eq_iff)
qed

lemma ParseSeverity_String:
  "severity_Valid s \<Longrightarrow> ParseSeverity (severity_String s) = (s, True)"
  by (auto simp: severity_cases ParseSeverity_def severity_String_def)

lemma severity_Score_pos: "2 \<le> severity_Score s \<and> severity_Score s \<le> 5"
  by (simp add: severity_Score_def)

lemma severity_Score_mono:
  "severity_Valid s \<Longrightarrow> severity_Valid t \<Longrightarrow> s \<le> t \<Longrightarrow> severity_Score s \<le> severity_Score t"
  by (auto simp: severity_cases severity_Score_def byte_simps)

section \<open>Phases (types/phase.go)\<close>

type_synonym phase = "8 word"

abbreviation PhaseRequestHeaders :: phase where "PhaseRequestHeaders \<equiv> 1"
abbreviation PhaseRequestBody :: phase where "PhaseRequestBody \<equiv> 2"
abbreviation PhaseResponseHeaders :: phase where "PhaseResponseHeaders \<equiv> 3"
abbreviation PhaseResponseBody :: phase where "PhaseResponseBody \<equiv> 4"
abbreviation PhaseLogging :: phase where "PhaseLogging \<equiv> 5"

definition phase_Valid :: "phase \<Rightarrow> bool" where
  "phase_Valid p \<longleftrightarrow> PhaseRequestHeaders \<le> p \<and> p \<le> PhaseLogging"

definition phase_String :: "phase \<Rightarrow> string" where
  "phase_String p =
     (case map_of [(PhaseRequestHeaders, ''request_headers''), (PhaseRequestBody, ''request_body''),
        (PhaseResponseHeaders, ''response_headers''), (PhaseResponseBody, ''response_body''),
        (PhaseLogging, ''logging'')] p of
        Some s \<Rightarrow> s | None \<Rightarrow> ''invalid'')"

definition phase_IsRequest :: "phase \<Rightarrow> bool" where
  "phase_IsRequest p \<longleftrightarrow> p = PhaseRequestHeaders \<or> p = PhaseRequestBody"

lemma phase_cases:
  "phase_Valid p \<longleftrightarrow> p = 1 \<or> p = 2 \<or> p = 3 \<or> p = 4 \<or> p = (5 :: phase)"
proof -
  have "1 \<le> unat p \<and> unat p \<le> 5 \<longleftrightarrow>
      unat p = 1 \<or> unat p = 2 \<or> unat p = 3 \<or> unat p = 4 \<or> unat p = 5" by arith
  then show ?thesis by (simp add: phase_Valid_def byte_simps word_unat_eq_iff)
qed

section \<open>Rule identifiers (types/ruleid.go)\<close>

type_synonym rule_id = "32 word"

datatype namespace = NamespaceInvalid | NamespaceCore | NamespaceBundle | NamespaceCRS | NamespaceUser

abbreviation CoreMax :: rule_id where "CoreMax \<equiv> 99999"
abbreviation BundleMax :: rule_id where "BundleMax \<equiv> 899999"
abbreviation CRSMax :: rule_id where "CRSMax \<equiv> 999999"
abbreviation UserMin :: rule_id where "UserMin \<equiv> 1000000"

definition rule_id_Namespace :: "rule_id \<Rightarrow> namespace" where
  "rule_id_Namespace i =
     (if i = 0 then NamespaceInvalid
      else if i \<le> CoreMax then NamespaceCore
      else if i \<le> BundleMax then NamespaceBundle
      else if i \<le> CRSMax then NamespaceCRS
      else NamespaceUser)"

definition rule_id_IsUser :: "rule_id \<Rightarrow> bool" where
  "rule_id_IsUser i \<longleftrightarrow> rule_id_Namespace i = NamespaceUser"

lemma rule_id_IsUser_iff: "rule_id_IsUser i \<longleftrightarrow> UserMin \<le> i"
  by (auto simp: rule_id_IsUser_def rule_id_Namespace_def word_le_nat_alt word_unat_eq_iff)

section \<open>Spans (types/span.go)\<close>

record span =
  Off :: u32
  Len :: u32

text \<open>\<open>uint32(off)\<close> and \<open>uint32(length)\<close> truncate; \<open>End\<close> adds in 32 bits and wraps, while
  \<open>Bytes\<close> adds in 64 bits and returns \<open>nil\<close> past the end of the buffer.\<close>

definition SpanOf :: "nat \<Rightarrow> nat \<Rightarrow> span" where
  "SpanOf off len = \<lparr>Off = of_nat off, Len = of_nat len\<rparr>"

definition span_End :: "span \<Rightarrow> u32" where
  "span_End s = Off s + Len s"

definition span_Empty :: "span \<Rightarrow> bool" where
  "span_Empty s \<longleftrightarrow> Len s = 0"

definition span_Bytes :: "span \<Rightarrow> gobytes \<Rightarrow> gobytes" where
  "span_Bytes s buf =
     (let e = unat (Off s) + unat (Len s)
      in if length buf < e then [] else take (unat (Len s)) (drop (unat (Off s)) buf))"

lemma unat_of_nat_u32: "n < 2 ^ 32 \<Longrightarrow> unat (of_nat n :: u32) = n"
  by (simp add: unat_of_nat)

lemma span_Bytes_SpanOf:
  assumes "off + len \<le> length buf" and "off < 2 ^ 32" and "len < 2 ^ 32"
  shows "span_Bytes (SpanOf off len) buf = take len (drop off buf)"
  using assms by (simp add: span_Bytes_def SpanOf_def unat_of_nat_u32)

lemma length_span_Bytes: "length (span_Bytes s buf) \<le> unat (Len s)"
  by (simp add: span_Bytes_def Let_def)

lemma span_Bytes_append:
  "unat (Off s) + unat (Len s) \<le> length buf \<Longrightarrow> span_Bytes s (buf @ rest) = span_Bytes s buf"
  by (simp add: span_Bytes_def Let_def)

section \<open>Targets (types/target.go)\<close>

type_synonym target_kind = "8 word"

abbreviation TargetInvalid :: target_kind where "TargetInvalid \<equiv> 0"
abbreviation TargetRequestMethod :: target_kind where "TargetRequestMethod \<equiv> 1"
abbreviation TargetRequestURI :: target_kind where "TargetRequestURI \<equiv> 2"
abbreviation TargetRequestPath :: target_kind where "TargetRequestPath \<equiv> 3"
abbreviation TargetRequestProtocol :: target_kind where "TargetRequestProtocol \<equiv> 4"
abbreviation TargetRequestLine :: target_kind where "TargetRequestLine \<equiv> 5"
abbreviation TargetRequestHeaders :: target_kind where "TargetRequestHeaders \<equiv> 6"
abbreviation TargetRequestHeaderNames :: target_kind where "TargetRequestHeaderNames \<equiv> 7"
abbreviation TargetArgs :: target_kind where "TargetArgs \<equiv> 8"
abbreviation TargetArgNames :: target_kind where "TargetArgNames \<equiv> 9"
abbreviation TargetArgsGet :: target_kind where "TargetArgsGet \<equiv> 10"
abbreviation TargetArgsPost :: target_kind where "TargetArgsPost \<equiv> 11"
abbreviation TargetRequestBody :: target_kind where "TargetRequestBody \<equiv> 12"
abbreviation TargetRequestCookies :: target_kind where "TargetRequestCookies \<equiv> 13"
abbreviation TargetRequestCookieNames :: target_kind where "TargetRequestCookieNames \<equiv> 14"
abbreviation TargetRemoteAddr :: target_kind where "TargetRemoteAddr \<equiv> 15"
abbreviation TargetResponseStatus :: target_kind where "TargetResponseStatus \<equiv> 16"
abbreviation TargetResponseHeaders :: target_kind where "TargetResponseHeaders \<equiv> 17"
abbreviation TargetResponseHeaderNames :: target_kind where "TargetResponseHeaderNames \<equiv> 18"
abbreviation TargetResponseBody :: target_kind where "TargetResponseBody \<equiv> 19"
abbreviation TargetArgsJoined :: target_kind where "TargetArgsJoined \<equiv> 20"
abbreviation TargetResolved :: target_kind where "TargetResolved \<equiv> 21"
abbreviation TargetFileNames :: target_kind where "TargetFileNames \<equiv> 22"
abbreviation targetKindCount :: target_kind where "targetKindCount \<equiv> 23"

definition target_kind_Valid :: "target_kind \<Rightarrow> bool" where
  "target_kind_Valid k \<longleftrightarrow> TargetInvalid < k \<and> k < targetKindCount"

definition target_kind_String :: "target_kind \<Rightarrow> string" where
  "target_kind_String k =
     (case map_of
       [(TargetRequestMethod, ''REQUEST_METHOD''), (TargetRequestURI, ''REQUEST_URI''),
        (TargetRequestPath, ''REQUEST_PATH''), (TargetRequestProtocol, ''REQUEST_PROTOCOL''),
        (TargetRequestLine, ''REQUEST_LINE''), (TargetRequestHeaders, ''REQUEST_HEADERS''),
        (TargetRequestHeaderNames, ''REQUEST_HEADER_NAMES''), (TargetArgs, ''ARGS''),
        (TargetArgNames, ''ARGS_NAMES''), (TargetFileNames, ''FILES_NAMES''),
        (TargetArgsGet, ''ARGS_GET''), (TargetArgsPost, ''ARGS_POST''),
        (TargetRequestBody, ''REQUEST_BODY''), (TargetRequestCookies, ''REQUEST_COOKIES''),
        (TargetRequestCookieNames, ''REQUEST_COOKIE_NAMES''), (TargetRemoteAddr, ''REMOTE_ADDR''),
        (TargetResponseStatus, ''RESPONSE_STATUS''), (TargetResponseHeaders, ''RESPONSE_HEADERS''),
        (TargetResponseHeaderNames, ''RESPONSE_HEADER_NAMES''),
        (TargetResponseBody, ''RESPONSE_BODY''), (TargetArgsJoined, ''ARGS_JOINED''),
        (TargetResolved, ''RESOLVED'')] k of
        Some s \<Rightarrow> s | None \<Rightarrow> ''INVALID'')"

definition target_kind_ConstName :: "target_kind \<Rightarrow> string" where
  "target_kind_ConstName k =
     (case map_of
       [(TargetRequestMethod, ''TargetRequestMethod''), (TargetRequestURI, ''TargetRequestURI''),
        (TargetRequestPath, ''TargetRequestPath''),
        (TargetRequestProtocol, ''TargetRequestProtocol''),
        (TargetRequestLine, ''TargetRequestLine''),
        (TargetRequestHeaders, ''TargetRequestHeaders''),
        (TargetRequestHeaderNames, ''TargetRequestHeaderNames''), (TargetArgs, ''TargetArgs''),
        (TargetArgNames, ''TargetArgNames''), (TargetFileNames, ''TargetFileNames''),
        (TargetArgsGet, ''TargetArgsGet''), (TargetArgsPost, ''TargetArgsPost''),
        (TargetArgsJoined, ''TargetArgsJoined''), (TargetResolved, ''TargetResolved''),
        (TargetRequestBody, ''TargetRequestBody''),
        (TargetRequestCookies, ''TargetRequestCookies''),
        (TargetRequestCookieNames, ''TargetRequestCookieNames''),
        (TargetRemoteAddr, ''TargetRemoteAddr''), (TargetResponseStatus, ''TargetResponseStatus''),
        (TargetResponseHeaders, ''TargetResponseHeaders''),
        (TargetResponseHeaderNames, ''TargetResponseHeaderNames''),
        (TargetResponseBody, ''TargetResponseBody'')] k of
        Some s \<Rightarrow> s | None \<Rightarrow> ''TargetInvalid'')"

definition target_kind_Phase :: "target_kind \<Rightarrow> phase" where
  "target_kind_Phase k =
     (if k = TargetArgsPost \<or> k = TargetRequestBody \<or> k = TargetFileNames then PhaseRequestBody
      else if k = TargetArgsJoined then PhaseRequestBody
      else if k = TargetResponseStatus \<or> k = TargetResponseHeaders \<or>
              k = TargetResponseHeaderNames then PhaseResponseHeaders
      else if k = TargetResponseBody then PhaseResponseBody
      else PhaseRequestHeaders)"

definition caseInsensitiveKeys :: "target_kind \<Rightarrow> bool" where
  "caseInsensitiveKeys k \<longleftrightarrow>
     k \<in> set [TargetRequestHeaders, TargetRequestHeaderNames, TargetResponseHeaders,
              TargetResponseHeaderNames, TargetRequestCookies, TargetRequestCookieNames]"

record target =
  Kind :: target_kind
  Name :: gobytes

text \<open>\<open>equalFoldBytes\<close>: the loop over \<open>i\<close> folds both sides and compares.\<close>

fun equalFold_loop :: "gobytes \<Rightarrow> gobytes \<Rightarrow> bool" where
  "equalFold_loop (x # xs) (y # ys) =
     (if ascii_lower x \<noteq> ascii_lower y then False else equalFold_loop xs ys)"
| "equalFold_loop _ _ = True"

definition equalFoldBytes :: "gobytes \<Rightarrow> gobytes \<Rightarrow> bool" where
  "equalFoldBytes a b = (if length a \<noteq> length b then False else equalFold_loop a b)"

text \<open>The byte \<open>'.'\<close> is 46.\<close>

definition matchesResolvedBytes :: "gobytes \<Rightarrow> gobytes \<Rightarrow> bool" where
  "matchesResolvedBytes name key =
     (if length name = length key \<and> name = key then True
      else length name < length key \<and> key ! length name = 46 \<and> name = take (length name) key)"

definition MatchesBytes :: "target \<Rightarrow> gobytes \<Rightarrow> bool" where
  "MatchesBytes t key =
     (if Name t = [] then True
      else if Kind t = TargetResolved then matchesResolvedBytes (Name t) key
      else if caseInsensitiveKeys (Kind t) then equalFoldBytes (Name t) key
      else length (Name t) = length key \<and> Name t = key)"

lemma equalFold_loop_iff:
  "length a = length b \<Longrightarrow> equalFold_loop a b \<longleftrightarrow> map ascii_lower a = map ascii_lower b"
  by (induction a b rule: list_induct2) auto

lemma equalFoldBytes_iff: "equalFoldBytes a b \<longleftrightarrow> map ascii_lower a = map ascii_lower b"
  by (auto simp: equalFoldBytes_def equalFold_loop_iff dest: map_eq_imp_length_eq)

lemma matchesResolvedBytes_iff:
  "matchesResolvedBytes name key \<longleftrightarrow> key = name \<or> (\<exists>rest. key = name @ ascii ''.'' @ rest)"
proof
  assume m: "matchesResolvedBytes name key"
  show "key = name \<or> (\<exists>rest. key = name @ ascii ''.'' @ rest)"
  proof (cases "name = key")
    case False
    with m have lt: "length name < length key" and dot: "key ! length name = 46"
      and pre: "name = take (length name) key"
      by (auto simp: matchesResolvedBytes_def split: if_splits)
    from lt have "key = take (length name) key @ key ! length name # drop (Suc (length name)) key"
      by (rule id_take_nth_drop)
    with dot pre have "key = name @ 46 # drop (Suc (length name)) key" by metis
    then show ?thesis by (intro disjI2 exI) simp
  qed simp
qed (auto simp: matchesResolvedBytes_def)

lemma MatchesBytes_iff:
  "MatchesBytes t key \<longleftrightarrow>
     Name t = [] \<or>
     Kind t = TargetResolved \<and> (key = Name t \<or> (\<exists>rest. key = Name t @ ascii ''.'' @ rest)) \<or>
     caseInsensitiveKeys (Kind t) \<and> map ascii_lower (Name t) = map ascii_lower key \<or>
     Kind t \<noteq> TargetResolved \<and> \<not> caseInsensitiveKeys (Kind t) \<and> key = Name t"
  by (auto simp: MatchesBytes_def matchesResolvedBytes_iff equalFoldBytes_iff caseInsensitiveKeys_def)

definition target_String :: "target \<Rightarrow> gobytes" where
  "target_String t =
     (if Name t = [] then ascii (target_kind_String (Kind t))
      else ascii (target_kind_String (Kind t)) @ ascii '':'' @ Name t)"

section \<open>Properties\<close>

text \<open>
  What a target selects. An unnamed target selects every key of its collection; a resolver
  target selects its resolver's values on a segment boundary only; header and cookie names match
  up to ASCII case; every other name matches exactly. So a rule's target never selects a key whose
  folded form differs from its name, except below a resolver's own segment.
\<close>

theorem MatchesBytes_selects:
  "MatchesBytes t key \<longleftrightarrow>
     (if Name t = [] then True
      else if Kind t = TargetResolved then key = Name t \<or> (\<exists>rest. key = Name t @ ascii ''.'' @ rest)
      else if Kind t \<in> {TargetRequestHeaders, TargetRequestHeaderNames, TargetResponseHeaders,
          TargetResponseHeaderNames, TargetRequestCookies, TargetRequestCookieNames}
      then map ascii_lower (Name t) = map ascii_lower key
      else key = Name t)"
  by (auto simp: MatchesBytes_iff caseInsensitiveKeys_def)

end
