(* ===== verification/Budget.thy ===== *)
theory Budget
  imports Prelude
begin

text \<open>
  The fuel meter (internal/budget/fuel.go) and the cost constants (types/fuel.go). Fuel is an
  \<open>int64\<close>: the subtraction in \<open>Spend\<close> is written with its wrap-around.
\<close>

type_synonym fuel = int

abbreviation CostPerByteScanned :: fuel where "CostPerByteScanned \<equiv> 1"
abbreviation CostPerByteTransformed :: fuel where "CostPerByteTransformed \<equiv> 2"
abbreviation CostRuleDispatch :: fuel where "CostRuleDispatch \<equiv> 8"
abbreviation CostLiteralMatch :: fuel where "CostLiteralMatch \<equiv> 4"
abbreviation CostCustomOperator :: fuel where "CostCustomOperator \<equiv> 64"
abbreviation DefaultFuelLimit :: fuel where "DefaultFuelLimit \<equiv> 32000000"

record meter =
  remaining :: fuel
  limit :: fuel
  exhausted :: bool

definition meter_Reset :: "fuel \<Rightarrow> meter \<Rightarrow> meter" where
  "meter_Reset l m = m\<lparr>limit := l, remaining := l, exhausted := False\<rparr>"

definition Unmetered :: "meter \<Rightarrow> bool" where
  "Unmetered m \<longleftrightarrow> limit m \<le> 0"

definition Spend :: "fuel \<Rightarrow> meter \<Rightarrow> meter \<times> bool" where
  "Spend n m =
     (if exhausted m then (m, False)
      else if limit m \<le> 0 then (m, True)
      else let m' = m\<lparr>remaining := wrap64 (remaining m - n)\<rparr>
           in if remaining m' < 0 then (m'\<lparr>remaining := 0, exhausted := True\<rparr>, False)
              else (m', True))"

definition Remaining :: "meter \<Rightarrow> fuel" where
  "Remaining m = (if limit m \<le> 0 then limit m else remaining m)"

definition Spent :: "meter \<Rightarrow> fuel" where
  "Spent m = (if limit m \<le> 0 then 0 else wrap64 (limit m - remaining m))"

text \<open>A sequence of charges, stopped at the first one refused, as every caller does.\<close>

definition Spend_all :: "fuel list \<Rightarrow> meter \<Rightarrow> meter \<times> bool" where
  "Spend_all ns m = iter_while Spend ns m"

section \<open>The meter's contract\<close>

text \<open>
  What the engine relies on: a refused charge leaves the meter refusing, an unmetered meter never
  refuses, and a charge that is granted is really deducted.
\<close>

locale fuel_meter =
  fixes spend :: "int \<Rightarrow> 'm \<Rightarrow> 'm \<times> bool"
    and refusing :: "'m \<Rightarrow> bool"
    and unmetered :: "'m \<Rightarrow> bool"
  assumes refusing_spend: "refusing m \<Longrightarrow> spend n m = (m, False)"
    and spend_refusing: "spend n m = (m', False) \<Longrightarrow> refusing m'"
    and spend_granted: "spend n m = (m', True) \<Longrightarrow> \<not> refusing m'"
    and unmetered_spend: "unmetered m \<Longrightarrow> \<not> refusing m \<Longrightarrow> spend n m = (m, True)"
begin

lemma spend_all_unmetered:
  "unmetered m \<Longrightarrow> \<not> refusing m \<Longrightarrow> iter_while spend ns m = (m, True)"
  by (induction ns) (auto simp: unmetered_spend)

lemma spend_all_refusing_iff:
  "\<not> refusing m \<Longrightarrow> refusing (fst (iter_while spend ns m)) \<longleftrightarrow> \<not> snd (iter_while spend ns m)"
proof (induction ns arbitrary: m)
  case (Cons n ns)
  obtain m' go where sp: "spend n m = (m', go)" by fastforce
  with Cons show ?case by (cases go) (auto dest: spend_refusing spend_granted)
qed simp

lemma refusing_sticky: "refusing m \<Longrightarrow> iter_while spend ns m = (m, ns = [])"
  by (cases ns) (auto simp: refusing_spend)

end

lemma Spend_exhausted: "exhausted m \<Longrightarrow> Spend n m = (m, False)"
  by (simp add: Spend_def)

lemma Spend_False: "Spend n m = (m', False) \<Longrightarrow> exhausted m'"
  by (auto simp: Spend_def Let_def split: if_splits)

lemma Spend_True: "Spend n m = (m', True) \<Longrightarrow> \<not> exhausted m'"
  by (auto simp: Spend_def Let_def split: if_splits)

lemma Spend_unmetered: "Unmetered m \<Longrightarrow> \<not> exhausted m \<Longrightarrow> Spend n m = (m, True)"
  by (simp add: Spend_def Unmetered_def)

interpretation fm: fuel_meter Spend exhausted Unmetered
  by unfold_locales (auto simp: Spend_exhausted Spend_unmetered dest: Spend_False Spend_True)

lemma Spend_limit [frame_simps]: "limit (fst (Spend n m)) = limit m"
  by (simp add: Spend_def Let_def)

section \<open>The work bound\<close>

definition meter_ok :: "meter \<Rightarrow> bool" where
  "meter_ok m \<longleftrightarrow> limit m < 2 ^ 63 \<and> (0 < limit m \<longrightarrow> 0 \<le> remaining m \<and> remaining m \<le> limit m)"

lemma meter_ok_Reset [inv_intros]: "l < 2 ^ 63 \<Longrightarrow> meter_ok (meter_Reset l m)"
  by (simp add: meter_ok_def meter_Reset_def)

lemma Spend_eq:
  assumes "meter_ok m" and "0 \<le> n" and "n < 2 ^ 63"
  shows "Spend n m =
     (if exhausted m then (m, False) else if limit m \<le> 0 then (m, True)
      else if n \<le> remaining m then (m\<lparr>remaining := remaining m - n\<rparr>, True)
      else (m\<lparr>remaining := 0, exhausted := True\<rparr>, False))"
  using assms by (auto simp: Spend_def meter_ok_def wrap64_id Let_def)

lemma meter_ok_Spend [inv_intros]:
  "meter_ok m \<Longrightarrow> 0 \<le> n \<Longrightarrow> n < 2 ^ 63 \<Longrightarrow> meter_ok (fst (Spend n m))"
  by (auto simp: Spend_eq) (auto simp: meter_ok_def)

lemma Spent_eq: "meter_ok m \<Longrightarrow> 0 < limit m \<Longrightarrow> Spent m = limit m - remaining m"
  by (simp add: Spent_def meter_ok_def wrap64_id)

lemma Spend_all_granted:
  assumes "meter_ok m" and "0 < limit m" and "\<not> exhausted m"
    and "\<forall>n \<in> set ns. 0 \<le> n \<and> n < 2 ^ 63"
  shows "snd (Spend_all ns m) \<longleftrightarrow> sum_list ns \<le> remaining m"
    and "sum_list ns \<le> remaining m \<Longrightarrow>
      fst (Spend_all ns m) = m\<lparr>remaining := remaining m - sum_list ns\<rparr>"
    and "\<not> sum_list ns \<le> remaining m \<Longrightarrow>
      fst (Spend_all ns m) = m\<lparr>remaining := 0, exhausted := True\<rparr>"
  using assms unfolding Spend_all_def
proof (induction ns arbitrary: m)
  case Nil
  case 1 then show ?case by (simp add: meter_ok_def)
next
  case Nil
  case 2 then show ?case by simp
next
  case Nil
  case 3 then show ?case by (simp add: meter_ok_def)
next
  case (Cons n ns)
  note IH = Cons.IH
  have nonneg: "0 \<le> sum_list ns" if "\<forall>k \<in> set ns. 0 \<le> k" for ns :: "int list"
    using that by (induction ns) auto
  {
    case 1
    let ?m = "m\<lparr>remaining := remaining m - n\<rparr>"
    have "n \<le> remaining m \<Longrightarrow> meter_ok ?m" using 1 by (simp add: meter_ok_def)
    with 1 IH(1) [of ?m] nonneg [of ns] show ?case by (auto simp: Spend_eq)
  next
    case 2
    let ?m = "m\<lparr>remaining := remaining m - n\<rparr>"
    have "n \<le> remaining m" using 2 nonneg [of ns] by simp
    moreover from this have "meter_ok ?m" using 2 by (simp add: meter_ok_def)
    ultimately show ?case using 2 IH(2) [of ?m] by (simp add: Spend_eq algebra_simps)
  next
    case 3
    let ?m = "m\<lparr>remaining := remaining m - n\<rparr>"
    have "n \<le> remaining m \<Longrightarrow> meter_ok ?m" using 3 by (simp add: meter_ok_def)
    with 3 IH(3) [of ?m] show ?case by (auto simp: Spend_eq)
  }
qed

section \<open>Properties\<close>

text \<open>
  C22. The work bound. A fresh meter with a positive limit grants a run of charges exactly when their
  sum stays within the limit, and then what remains is the limit less the sum; otherwise it ends
  exhausted with nothing remaining, and every later charge is refused.
\<close>

theorem meter_bounds_work:
  assumes "0 < l" "l < 2 ^ 63" "\<forall>n \<in> set ns. 0 \<le> n \<and> n < 2 ^ 63"
  shows "case Spend_all ns (meter_Reset l m) of (m', granted) \<Rightarrow>
    (granted \<longleftrightarrow> sum_list ns \<le> l) \<and>
    (if sum_list ns \<le> l then Remaining m' = l - sum_list ns \<and> Spent m' = sum_list ns
     else Remaining m' = 0 \<and> Spent m' = l \<and> (\<forall>n. Spend n m' = (m', False)))"
proof -
  let ?m = "meter_Reset l m"
  have m: "meter_ok ?m" "0 < limit ?m" "\<not> exhausted ?m" "remaining ?m = l" "limit ?m = l"
    using assms(1,2) by (simp_all add: meter_ok_def meter_Reset_def)
  note S = Spend_all_granted [OF m(1-3) assms(3), unfolded m(4)]
  have pos: "0 \<le> sum_list ns" using assms(3) by (intro sum_list_nonneg) auto
  obtain m' g where r: "Spend_all ns ?m = (m', g)" by force
  show ?thesis
  proof (cases "sum_list ns \<le> l")
    case True
    with S(1,2) r have "g" "m' = ?m\<lparr>remaining := l - sum_list ns\<rparr>" by auto
    with True m(5) assms(1,2) pos show ?thesis
      by (simp add: r Remaining_def Spent_def wrap64_id)
  next
    case False
    with S(1,3) r have "\<not> g" "m' = ?m\<lparr>remaining := 0, exhausted := True\<rparr>" by auto
    with False m(5) assms(1,2) show ?thesis
      by (simp add: r Remaining_def Spent_def wrap64_id Spend_exhausted)
  qed
qed

theorem meter_bounds_work_witness:
  "(0 :: int) < 10 \<and> (case Spend_all [4, 5, 6] (meter_Reset 10 (meter_Reset 0 undefined)) of
     (m', granted) \<Rightarrow> \<not> granted \<and> Remaining m' = 0 \<and> Spend 0 m' = (m', False))"
  using meter_bounds_work [of 10 "[4, 5, 6]" "meter_Reset 0 undefined"] by (simp split: prod.splits)

end
