(* ===== verification/Bitset.thy ===== *)
theory Bitset
  imports Prelude
begin

text \<open>
  The candidate set (internal/bitset/bitset.go): 64-bit words with the range of words touched since
  the last reset. \<open>Bitset_elems\<close> is the set of naturals a bitset stands for; the lemmas show that
  every operation computes the set operation it is named after, that the touched range always
  covers the non-zero words, and that iteration visits the elements in ascending order.
\<close>

unbundle bit_operations_syntax

record bitset =
  bs_words :: "u64 list"
  loWord :: int
  hiWord :: int

definition Bitset_zero :: bitset where
  "Bitset_zero = \<lparr>bs_words = [], loWord = 0, hiWord = 0\<rparr>"

definition Bitset_Empty :: "bitset \<Rightarrow> bool" where
  "Bitset_Empty s \<longleftrightarrow> length (bs_words s) = 0 \<or> hiWord s < loWord s"

definition resetBounds :: "bitset \<Rightarrow> bitset" where
  "resetBounds s = s\<lparr>loWord := int (length (bs_words s)), hiWord := -1\<rparr>"

definition Bitset_Grow :: "int \<Rightarrow> bitset \<Rightarrow> bitset" where
  "Bitset_Grow capacity s =
     (if capacity \<le> 0 then s
      else let need = nat ((capacity + 64 - 1) div 64) in
        if need \<le> length (bs_words s) then s
        else let wasEmpty = Bitset_Empty s;
                 s' = s\<lparr>bs_words := bs_words s @ replicate (need - length (bs_words s)) 0\<rparr>
             in if wasEmpty then resetBounds s' else s')"

definition Bitset_New :: "int \<Rightarrow> bitset" where
  "Bitset_New capacity = Bitset_Grow capacity Bitset_zero"

definition Bitset_Cap :: "bitset \<Rightarrow> nat" where
  "Bitset_Cap s = length (bs_words s) * 64"

text \<open>\<open>touch w v\<close> is \<open>s.words[w] |= v\<close> with the two bound updates that follow it in \<open>Add\<close> and in
  \<open>Union\<close>.\<close>

definition touch :: "nat \<Rightarrow> u64 \<Rightarrow> bitset \<Rightarrow> bitset" where
  "touch w v s = s\<lparr>bs_words := (bs_words s)[w := bs_words s ! w OR v],
     loWord := (if int w < loWord s then int w else loWord s),
     hiWord := (if int w > hiWord s then int w else hiWord s)\<rparr>"

definition Bitset_Add :: "int \<Rightarrow> bitset \<Rightarrow> bitset" where
  "Bitset_Add v s =
     (if v < 0 \<or> int (length (bs_words s)) \<le> v div 64 then s
      else touch (nat (v div 64)) (push_bit (nat (v mod 64)) 1) s)"

definition Bitset_Union :: "u64 list \<Rightarrow> bitset \<Rightarrow> bitset" where
  "Bitset_Union other s =
     fold (\<lambda>w s. if other ! w = 0 then s else touch w (other ! w) s)
       [0..<min (length other) (length (bs_words s))] s"

definition Bitset_Has :: "bitset \<Rightarrow> int \<Rightarrow> bool" where
  "Bitset_Has s v =
     (if v < 0 \<or> int (length (bs_words s)) \<le> v div 64 then False
      else (bs_words s ! nat (v div 64)) AND push_bit (nat (v mod 64)) 1 \<noteq> 0)"

text \<open>\<open>bits.OnesCount64\<close> and \<open>bits.TrailingZeros64\<close> of the Go standard library.\<close>

definition word_bits :: "u64 \<Rightarrow> nat list" where
  "word_bits w = filter (bit w) [0..<64]"

definition OnesCount64 :: "u64 \<Rightarrow> nat" where
  "OnesCount64 w = length (word_bits w)"

definition TrailingZeros64 :: "u64 \<Rightarrow> nat" where
  "TrailingZeros64 w = (case word_bits w of [] \<Rightarrow> 64 | b # _ \<Rightarrow> b)"

text \<open>The words the loops \<open>for w := s.loWord; w <= s.hiWord; w++\<close> visit.\<close>

definition touched :: "bitset \<Rightarrow> nat list" where
  "touched s = [nat (loWord s)..<nat (hiWord s + 1)]"

definition Bitset_Len :: "bitset \<Rightarrow> nat" where
  "Bitset_Len s =
     (if Bitset_Empty s then 0
      else fold (\<lambda>w n. n + OnesCount64 (bs_words s ! w)) (touched s) 0)"

definition Bitset_Reset :: "bitset \<Rightarrow> bitset" where
  "Bitset_Reset s =
     (if Bitset_Empty s then s
      else resetBounds (s\<lparr>bs_words := fold (\<lambda>w ws. ws[w := 0]) (touched s) (bs_words s)\<rparr>))"

text \<open>The inner loop of \<open>All\<close>: report the lowest set bit, then clear it with
  \<open>word &= word - 1\<close>.\<close>

function word_loop :: "(nat \<Rightarrow> 's \<Rightarrow> 's \<times> bool) \<Rightarrow> nat \<Rightarrow> u64 \<Rightarrow> 's \<Rightarrow> 's \<times> bool" where
  "word_loop fn w word st =
     (if word = 0 then (st, True)
      else case fn (w * 64 + TrailingZeros64 word) st of
        (st', go) \<Rightarrow> if go then word_loop fn w (word AND (word - 1)) st' else (st', False))"
  by pat_completeness auto
termination
proof (relation "measure (\<lambda>(fn, w, word, st). unat word)")
  fix word :: u64
  assume "word \<noteq> 0"
  then have "unat (word - 1) < unat word" by (simp add: unat_minus_one unat_gt_0)
  moreover have "unat (word AND (word - 1)) \<le> unat (word - 1)"
    by (rule word_and_le1 [THEN word_le_nat_alt [THEN iffD1]])
  ultimately have "unat (word AND (word - 1)) < unat word" by simp
  then show "((fn, w, word AND (word - 1), st'), fn, w, word, st)
      \<in> measure (\<lambda>(fn, w, word, st). unat word)" for fn :: "nat \<Rightarrow> 's \<Rightarrow> 's \<times> bool" and w st st'
    by simp
qed simp

declare word_loop.simps [simp del]

definition Bitset_All :: "(nat \<Rightarrow> 's \<Rightarrow> 's \<times> bool) \<Rightarrow> bitset \<Rightarrow> 's \<Rightarrow> 's \<times> bool" where
  "Bitset_All fn s st =
     (if Bitset_Empty s then (st, True)
      else iter_while (\<lambda>w. word_loop fn w (bs_words s ! w)) (touched s) st)"

section \<open>The set a bitset stands for\<close>

definition Bitset_elems :: "bitset \<Rightarrow> nat set" where
  "Bitset_elems s = {v. v div 64 < length (bs_words s) \<and> bit (bs_words s ! (v div 64)) (v mod 64)}"

definition bitset_inv :: "bitset \<Rightarrow> bool" where
  "bitset_inv s \<longleftrightarrow>
     (bs_words s = [] \<and> loWord s = 0 \<and> hiWord s = 0) \<or>
     (bs_words s \<noteq> [] \<and> loWord s = int (length (bs_words s)) \<and> hiWord s = -1 \<and>
        (\<forall>w < length (bs_words s). bs_words s ! w = 0)) \<or>
     (0 \<le> loWord s \<and> loWord s \<le> hiWord s \<and> hiWord s < int (length (bs_words s)) \<and>
        bs_words s ! nat (loWord s) \<noteq> 0 \<and>
        (\<forall>w < length (bs_words s). bs_words s ! w \<noteq> 0 \<longrightarrow> loWord s \<le> int w \<and> int w \<le> hiWord s))"

lemma bitset_inv_zero [inv_intros]: "bitset_inv Bitset_zero"
  by (simp add: bitset_inv_def Bitset_zero_def)

lemma Bitset_elems_zero [simp]: "Bitset_elems Bitset_zero = {}"
  by (simp add: Bitset_elems_def Bitset_zero_def)

lemma Bitset_elems_bound: "v \<in> Bitset_elems s \<Longrightarrow> v < Bitset_Cap s"
  by (auto simp: Bitset_elems_def Bitset_Cap_def div_less_iff_less_mult)

lemma finite_Bitset_elems [simp]: "finite (Bitset_elems s)"
  by (rule finite_subset [of _ "{..<Bitset_Cap s}"]) (auto dest: Bitset_elems_bound)

lemma bit_word_64: "bit (x :: u64) n \<Longrightarrow> n < 64"
  using bit_imp_le_length [of x n] by simp

lemma word_eq_0_iff_bits: "(x :: u64) = 0 \<longleftrightarrow> (\<forall>n < 64. \<not> bit x n)"
  by (auto simp: bit_eq_iff dest: bit_word_64)

section \<open>Adding values\<close>

lemma touch_words [simp]:
  "length (bs_words (touch w v s)) = length (bs_words s)"
  "Bitset_Cap (touch w v s) = Bitset_Cap s"
  by (simp_all add: touch_def Bitset_Cap_def)

lemma elems_touch:
  assumes "w < length (bs_words s)"
  shows "Bitset_elems (touch w v s) = Bitset_elems s \<union> {w * 64 + b |b. bit v b}"
proof (rule set_eqI)
  fix x
  show "x \<in> Bitset_elems (touch w v s) \<longleftrightarrow> x \<in> Bitset_elems s \<union> {w * 64 + b |b. bit v b}"
  proof (cases "x div 64 = w")
    case True
    have x: "x = w * 64 + x mod 64" using True by (simp add: mult.commute flip: True)
    have "x \<in> {w * 64 + b |b. bit v b} \<longleftrightarrow> bit v (x mod 64)"
    proof
      assume "x \<in> {w * 64 + b |b. bit v b}"
      then obtain b where b: "x = w * 64 + b" "bit v b" by auto
      with bit_word_64 have "x mod 64 = b" by simp
      with b show "bit v (x mod 64)" by simp
    qed (use x in auto)
    then show ?thesis using True assms
      by (auto simp: Bitset_elems_def touch_def bit_or_iff)
  next
    case False
    then have "\<not> (\<exists>b. bit v b \<and> x = w * 64 + b)" by (auto dest!: bit_word_64)
    with False show ?thesis by (auto simp: Bitset_elems_def touch_def)
  qed
qed

lemma or_nonzero_u64: "(v :: u64) \<noteq> 0 \<Longrightarrow> x OR v \<noteq> 0"
  by (metis or_eq_0_iff)

lemma bitset_inv_touch [inv_intros]:
  assumes inv: "bitset_inv s" and w: "w < length (bs_words s)" and v: "v \<noteq> 0"
  shows "bitset_inv (touch w v s)"
proof -
  have ne: "bs_words s \<noteq> []" using w by auto
  let ?ws = "(bs_words s)[w := bs_words s ! w OR v]"
  from inv ne consider
      (empty) "loWord s = int (length (bs_words s))" "hiWord s = -1"
        "\<forall>w < length (bs_words s). bs_words s ! w = 0"
    | (range) "0 \<le> loWord s" "loWord s \<le> hiWord s" "hiWord s < int (length (bs_words s))"
        "bs_words s ! nat (loWord s) \<noteq> 0"
        "\<forall>w < length (bs_words s). bs_words s ! w \<noteq> 0 \<longrightarrow> loWord s \<le> int w \<and> int w \<le> hiWord s"
    by (auto simp: bitset_inv_def)
  then show ?thesis
  proof cases
    case empty
    with w v show ?thesis
      by (auto simp: bitset_inv_def touch_def nth_list_update or_nonzero_u64)
  next
    case range
    have "?ws ! (if int w < loWord s then w else nat (loWord s)) \<noteq> 0"
      using range w v by (auto simp: nth_list_update or_nonzero_u64)
    moreover have "loWord (touch w v s) \<le> int x \<and> int x \<le> hiWord (touch w v s)"
      if "x < length (bs_words s)" "?ws ! x \<noteq> 0" for x
      using that range(5) w by (cases "x = w") (fastforce simp: touch_def)+
    ultimately show ?thesis
      using range w by (auto simp: bitset_inv_def touch_def)
  qed
qed

lemma Add_touch:
  "\<not> (v < 0 \<or> int (length (bs_words s)) \<le> v div 64) \<Longrightarrow>
   nat (v div 64) < length (bs_words s) \<and> nat (v div 64) * 64 + nat (v mod 64) = nat v"
  by (auto simp: nat_div_distrib nat_mod_distrib nat_less_iff)

lemma bit_exp_u64: "k < 64 \<Longrightarrow> bit (2 ^ k :: u64) b \<longleftrightarrow> b = k"
  by (auto simp: bit_exp_iff)

lemma Cap_Add [simp, frame_simps]: "Bitset_Cap (Bitset_Add v s) = Bitset_Cap s"
  by (simp add: Bitset_Add_def)

lemma bitset_inv_Add [inv_intros]: "bitset_inv s \<Longrightarrow> bitset_inv (Bitset_Add v s)"
proof -
  assume inv: "bitset_inv s"
  have "push_bit (nat (v mod 64)) (1 :: u64) \<noteq> 0"
    using bit_exp_u64 [of "nat (v mod 64)" "nat (v mod 64)"] by (auto simp: nat_less_iff)
  with inv show ?thesis by (auto simp: Bitset_Add_def intro!: bitset_inv_touch)
qed

lemma elems_Add:
  "Bitset_elems (Bitset_Add v s) =
     (if 0 \<le> v \<and> v < int (Bitset_Cap s) then insert (nat v) (Bitset_elems s) else Bitset_elems s)"
proof (cases "v < 0 \<or> int (length (bs_words s)) \<le> v div 64")
  case True
  then have "\<not> (0 \<le> v \<and> v < int (Bitset_Cap s))" by (auto simp: Bitset_Cap_def)
  with True show ?thesis by (auto simp: Bitset_Add_def)
next
  case False
  then have "0 \<le> v \<and> v < int (Bitset_Cap s)" by (auto simp: Bitset_Cap_def)
  with False Add_touch [OF False] show ?thesis
    by (auto simp: Bitset_Add_def elems_touch bit_exp_u64 nat_less_iff)
qed

lemma Has_iff: "Bitset_Has s v \<longleftrightarrow> 0 \<le> v \<and> nat v \<in> Bitset_elems s"
proof (cases "v < 0 \<or> int (length (bs_words s)) \<le> v div 64")
  case True
  then show ?thesis by (auto simp: Bitset_Has_def Bitset_elems_def nat_div_distrib)
next
  case False
  let ?k = "nat (v mod 64)"
  have "?k < 64" by (simp add: nat_less_iff)
  then have "(x AND push_bit ?k 1 \<noteq> 0) \<longleftrightarrow> bit x ?k" for x :: u64
    by (auto simp: word_eq_0_iff_bits bit_and_iff bit_exp_u64)
  with False show ?thesis
    by (auto simp: Bitset_Has_def Bitset_elems_def nat_div_distrib nat_mod_distrib nat_less_iff)
qed

section \<open>Union, reset and growth\<close>

lemma Union_upto:
  assumes "bitset_inv s" and "n \<le> length other" and "n \<le> length (bs_words s)"
  defines "r \<equiv> fold (\<lambda>w s. if other ! w = 0 then s else touch w (other ! w) s) [0..<n] s"
  shows "bitset_inv r \<and> length (bs_words r) = length (bs_words s) \<and>
    Bitset_elems r = Bitset_elems s \<union> {w * 64 + b |w b. w < n \<and> bit (other ! w) b}"
  using assms(2,3) unfolding r_def
proof (induction n)
  case 0
  then show ?case using assms(1) by simp
next
  case (Suc n)
  let ?r = "fold (\<lambda>w s. if other ! w = 0 then s else touch w (other ! w) s) [0..<n] s"
  have split: "{w * 64 + b |w b. w < Suc n \<and> bit (other ! w) b} =
      {w * 64 + b |w b. w < n \<and> bit (other ! w) b} \<union> {n * 64 + b |b. bit (other ! n) b}"
    by (auto simp: less_Suc_eq)
  from Suc have IH: "bitset_inv ?r" "length (bs_words ?r) = length (bs_words s)"
    "Bitset_elems ?r = Bitset_elems s \<union> {w * 64 + b |w b. w < n \<and> bit (other ! w) b}"
    by simp_all
  show ?case
  proof (cases "other ! n = 0")
    case True
    with IH split show ?thesis by auto
  next
    case False
    with IH Suc.prems split show ?thesis by (simp add: elems_touch bitset_inv_touch Un_assoc)
  qed
qed

lemma elems_Union:
  assumes "bitset_inv s"
  shows "Bitset_elems (Bitset_Union other s) = Bitset_elems s \<union>
    {w * 64 + b |w b. w < length other \<and> w < length (bs_words s) \<and> bit (other ! w) b}"
    and "bitset_inv (Bitset_Union other s)"
  using Union_upto [OF assms, of "min (length other) (length (bs_words s))" other]
  by (simp_all add: Bitset_Union_def conj_assoc)

lemma Empty_iff: "bitset_inv s \<Longrightarrow> Bitset_Empty s \<longleftrightarrow> Bitset_elems s = {}"
proof
  assume inv: "bitset_inv s" and "Bitset_Empty s"
  then show "Bitset_elems s = {}"
    by (auto simp: bitset_inv_def Bitset_Empty_def Bitset_elems_def)
next
  assume inv: "bitset_inv s" and none: "Bitset_elems s = {}"
  show "Bitset_Empty s"
  proof (rule ccontr)
    assume ne: "\<not> Bitset_Empty s"
    let ?w = "nat (loWord s)"
    from inv ne have w: "?w < length (bs_words s)" "bs_words s ! ?w \<noteq> 0"
      by (auto simp: bitset_inv_def Bitset_Empty_def)
    then obtain b where "b < 64" "bit (bs_words s ! ?w) b" by (auto simp: word_eq_0_iff_bits)
    with w have "?w * 64 + b \<in> Bitset_elems s" by (simp add: Bitset_elems_def)
    with none show False by simp
  qed
qed

lemma clear_words:
  "length (fold (\<lambda>w ws. ws[w := 0]) is ws) = length ws"
  "x < length ws \<Longrightarrow>
     fold (\<lambda>w ws. ws[w := (0 :: u64)]) is ws ! x = (if x \<in> set is then 0 else ws ! x)"
  by (induction "is" arbitrary: ws) (auto simp: nth_list_update)

lemma untouched_zero:
  assumes "bitset_inv s" and "x < length (bs_words s)" and "x \<notin> set (touched s)"
  shows "bs_words s ! x = 0"
  using assms unfolding bitset_inv_def touched_def
  by (auto simp: nat_le_iff nat_less_iff zless_nat_eq_int_zless)

lemma Bitset_Reset_spec:
  assumes "bitset_inv s"
  shows "bitset_inv (Bitset_Reset s)" and "Bitset_elems (Bitset_Reset s) = {}"
    and "Bitset_Cap (Bitset_Reset s) = Bitset_Cap s"
proof -
  let ?ws = "fold (\<lambda>w ws. ws[w := 0]) (touched s) (bs_words s)"
  have zero: "?ws ! x = 0" if "x < length (bs_words s)" for x
    using that untouched_zero [OF assms that] by (simp add: clear_words)
  have ne: "?ws = [] \<longleftrightarrow> bs_words s = []"
    by (metis clear_words(1) length_0_conv)
  show "bitset_inv (Bitset_Reset s)"
    using assms zero ne by (auto simp: Bitset_Reset_def Bitset_Empty_def resetBounds_def clear_words
        bitset_inv_def [of "s\<lparr>bs_words := ?ws, loWord := l, hiWord := h\<rparr>" for l h])
  show "Bitset_elems (Bitset_Reset s) = {}"
    using Empty_iff [OF assms] zero
    by (auto simp: Bitset_Reset_def resetBounds_def Bitset_elems_def clear_words)
  show "Bitset_Cap (Bitset_Reset s) = Bitset_Cap s"
    by (simp add: Bitset_Reset_def resetBounds_def Bitset_Cap_def clear_words)
qed

lemmas bitset_inv_Reset [inv_intros] = Bitset_Reset_spec(1)

lemma bit_append_zeros:
  "d < length ws + n \<and> bit ((ws @ replicate n (0 :: u64)) ! d) b \<longleftrightarrow> d < length ws \<and> bit (ws ! d) b"
proof (cases "d < length ws")
  case False
  then have "d < length ws + n \<Longrightarrow> (ws @ replicate n (0 :: u64)) ! d = 0"
    by (subst nth_append) simp
  with False show ?thesis by auto
qed (simp add: nth_append)

lemma elems_grow_words:
  "Bitset_elems (s\<lparr>bs_words := bs_words s @ replicate n 0, loWord := l, hiWord := h\<rparr>) = Bitset_elems s"
  "Bitset_elems (s\<lparr>bs_words := bs_words s @ replicate n 0\<rparr>) = Bitset_elems s"
  by (simp_all add: Bitset_elems_def bit_append_zeros)

lemma bitset_inv_extend:
  assumes "bitset_inv s" and "\<not> Bitset_Empty s"
  shows "bitset_inv (s\<lparr>bs_words := bs_words s @ replicate n 0\<rparr>)"
proof -
  let ?ws = "bs_words s @ replicate n 0"
  from assms have lo: "0 \<le> loWord s" "loWord s \<le> hiWord s"
      "hiWord s < int (length (bs_words s))" "bs_words s ! nat (loWord s) \<noteq> 0"
    and rng: "\<And>w. w < length (bs_words s) \<Longrightarrow> bs_words s ! w \<noteq> 0 \<Longrightarrow>
      loWord s \<le> int w \<and> int w \<le> hiWord s"
    by (auto simp: bitset_inv_def Bitset_Empty_def)
  have "?ws ! w = (if w < length (bs_words s) then bs_words s ! w else 0)" if "w < length ?ws" for w
    using that by (simp add: nth_append)
  with lo rng show ?thesis unfolding bitset_inv_def by (simp add: nat_less_iff)
qed

lemma bitset_inv_resetBounds:
  "bs_words s \<noteq> [] \<Longrightarrow> \<forall>w < length (bs_words s). bs_words s ! w = 0 \<Longrightarrow>
   bitset_inv (resetBounds s)"
  by (simp add: bitset_inv_def resetBounds_def)

lemma words_needed_le: "nat ((c + 64 - 1) div 64) \<le> n \<Longrightarrow> c \<le> int (n * 64)"
proof -
  assume "nat ((c + 64 - 1) div 64) \<le> n"
  then have "(c + 64 - 1) div 64 \<le> int n" by (simp only: nat_le_iff)
  then have "(c + 64 - 1) div 64 * 64 \<le> int (n * 64)" by simp
  moreover have "c \<le> (c + 64 - 1) div 64 * 64" by presburger
  ultimately show ?thesis by (rule order_trans [rotated])
qed

lemma Bitset_Grow_cases:
  obtains (keep) "Bitset_Grow c s = s" "c \<le> int (Bitset_Cap s)"
  | (grow) n where "0 < n" "c \<le> int ((length (bs_words s) + n) * 64)"
      "Bitset_Grow c s = (let s' = s\<lparr>bs_words := bs_words s @ replicate n 0\<rparr>
         in if Bitset_Empty s then resetBounds s' else s')"
proof (cases "c \<le> 0 \<or> nat ((c + 64 - 1) div 64) \<le> length (bs_words s)")
  case True
  then have "c \<le> int (length (bs_words s) * 64)"
    using words_needed_le [of c "length (bs_words s)"] by (elim disjE) auto
  moreover from True have "Bitset_Grow c s = s"
    unfolding Bitset_Grow_def Let_def by (elim disjE) (simp_all only: if_True if_cancel split: if_split)
  ultimately show ?thesis using keep unfolding Bitset_Cap_def by blast
next
  case False
  obtain need where need: "need = nat ((c + 64 - 1) div 64)" by simp
  have "c \<le> int (need * 64)" using words_needed_le [of c need] need by blast
  then have "c \<le> int ((length (bs_words s) + (need - length (bs_words s))) * 64)"
    and "0 < need - length (bs_words s)"
    using False unfolding need [symmetric] de_Morgan_disj by simp_all
  moreover have "Bitset_Grow c s =
      (let s' = s\<lparr>bs_words := bs_words s @ replicate (need - length (bs_words s)) 0\<rparr>
       in if Bitset_Empty s then resetBounds s' else s')"
    using False unfolding Bitset_Grow_def Let_def need [symmetric] de_Morgan_disj
    by (simp only: if_False simp_thms)
  ultimately show ?thesis using grow by blast
qed

lemma Bitset_Grow_spec:
  assumes "bitset_inv s"
  shows "bitset_inv (Bitset_Grow c s)" and "Bitset_elems (Bitset_Grow c s) = Bitset_elems s"
    and "c \<le> int (Bitset_Cap (Bitset_Grow c s))" and "Bitset_Cap s \<le> Bitset_Cap (Bitset_Grow c s)"
proof -
  have "bitset_inv (Bitset_Grow c s) \<and> Bitset_elems (Bitset_Grow c s) = Bitset_elems s \<and>
    c \<le> int (Bitset_Cap (Bitset_Grow c s)) \<and> Bitset_Cap s \<le> Bitset_Cap (Bitset_Grow c s)"
  proof (cases rule: Bitset_Grow_cases [of c s])
    case keep
    with assms show ?thesis by simp
  next
    case (grow n)
    let ?s = "s\<lparr>bs_words := bs_words s @ replicate n 0\<rparr>"
    show ?thesis
    proof (cases "Bitset_Empty s")
      case True
      then have "\<forall>w < length (bs_words s). bs_words s ! w = 0"
        using assms by (auto simp: bitset_inv_def Bitset_Empty_def)
      then have "bitset_inv (resetBounds ?s)"
        using grow(1) by (intro bitset_inv_resetBounds) (auto simp: nth_append)
      with True grow show ?thesis
        by (simp add: resetBounds_def elems_grow_words Bitset_Cap_def)
    next
      case False
      with grow bitset_inv_extend [OF assms False, of n] show ?thesis
        by (simp add: elems_grow_words Bitset_Cap_def)
    qed
  qed
  then show "bitset_inv (Bitset_Grow c s)" "Bitset_elems (Bitset_Grow c s) = Bitset_elems s"
    "c \<le> int (Bitset_Cap (Bitset_Grow c s))" "Bitset_Cap s \<le> Bitset_Cap (Bitset_Grow c s)"
    by blast+
qed

lemmas bitset_inv_Grow [inv_intros] = Bitset_Grow_spec(1)

lemma bitset_inv_New [inv_intros]: "bitset_inv (Bitset_New c)"
  by (simp add: Bitset_New_def bitset_inv_Grow bitset_inv_zero)

section \<open>Iteration\<close>

lemma filter_upt_first:
  assumes "filter P [0..<n] = b # bs"
  shows "P b" and "b < n" and "\<forall>k < b. \<not> P k" and "bs = filter P [Suc b..<n]"
proof -
  have "b \<in> set (filter P [0..<n])" using assms by simp
  then show b: "P b" "b < n" by auto
  have srt: "sorted_wrt (<) (filter P [0..<n])" by (simp add: sorted_wrt_filter)
  show low: "\<forall>k < b. \<not> P k"
  proof (intro allI impI notI)
    fix k
    assume "k < b" and "P k"
    with b have "k \<in> set (filter P [0..<n])" by simp
    with assms \<open>k < b\<close> srt show False by auto
  qed
  have "[0..<n] = [0..<b] @ b # [Suc b..<n]"
    using b upt_add_eq_append [of 0 b "n - b"] by (simp add: upt_conv_Cons)
  then have "filter P [0..<n] = filter P [0..<b] @ b # filter P [Suc b..<n]"
    using b by simp
  moreover have "filter P [0..<b] = []" using low by (simp add: filter_empty_conv)
  ultimately show "bs = filter P [Suc b..<n]" using assms by simp
qed

lemma filter_upt_remove:
  assumes first: "filter P [0..<n] = b # bs" and Q: "\<And>k. Q k \<longleftrightarrow> P k \<and> k \<noteq> b"
  shows "filter Q [0..<n] = bs"
proof -
  note f = filter_upt_first [OF first]
  have "[0..<n] = [0..<b] @ b # [Suc b..<n]"
    using f(2) upt_add_eq_append [of 0 b "n - b"] by (simp add: upt_conv_Cons)
  moreover have "filter Q [0..<b] = []" using f(3) by (simp add: filter_empty_conv Q)
  moreover have "filter Q [Suc b..<n] = filter P [Suc b..<n]"
    by (rule filter_cong) (auto simp: Q)
  ultimately show ?thesis using f(4) by (simp add: Q)
qed

lemma set_word_bits [simp]: "set (word_bits w) = {b. bit w b}"
  by (auto simp del: upt_rec_numeral simp: word_bits_def dest: bit_word_64)

lemma word_bits_Nil: "word_bits w = [] \<longleftrightarrow> w = 0"
proof -
  have "word_bits w = [] \<longleftrightarrow> {b. bit w b} = {}" by (simp flip: set_word_bits)
  then show ?thesis by (auto simp: word_eq_0_iff_bits dest: bit_word_64)
qed

lemma word_bits_0 [simp]: "word_bits 0 = []"
  by (simp add: word_bits_Nil)

lemma sorted_word_bits: "sorted_wrt (<) (word_bits w)"
  unfolding word_bits_def by (intro sorted_wrt_filter) (rule sorted_wrt_upt)

text \<open>\<open>word &= word - 1\<close> clears the lowest set bit and no other.\<close>

lemma clear_lowest_bit:
  fixes w :: u64
  assumes b: "bit w b" and low: "\<forall>n < b. \<not> bit w n"
  shows "bit (w AND (w - 1)) n \<longleftrightarrow> bit w n \<and> n \<noteq> b"
proof -
  let ?u = "unset_bit b w"
  have b64: "b < 64" using b by (rule bit_word_64)
  have "?u AND 2 ^ b = 0" by (rule bit_word_eqI) (auto simp: bit_simps)
  then have "?u + 2 ^ b = ?u OR 2 ^ b" by (rule disjunctive_add_eq_or)
  also have "\<dots> = w" using b by (intro bit_word_eqI) (auto simp: bit_simps)
  finally have "w - 1 = ?u + mask b" by (simp add: mask_eq_exp_minus_1 algebra_simps)
  also have "?u AND mask b = 0"
    using low by (intro bit_word_eqI) (auto simp: bit_simps)
  then have "?u + mask b = ?u OR mask b" by (rule disjunctive_add_eq_or)
  finally have "w - 1 = ?u OR mask b" .
  then show ?thesis using low b64
    by (auto simp: bit_simps dest: bit_word_64)
qed

lemma word_bits_clear_lowest:
  assumes "word_bits w = b # bs"
  shows "word_bits (w AND (w - 1)) = bs"
proof -
  have first: "filter (bit w) [0..<64] = b # bs" using assms by (simp only: word_bits_def)
  show ?thesis unfolding word_bits_def
    by (rule filter_upt_remove [OF first], rule clear_lowest_bit)
      (rule filter_upt_first [OF first])+
qed

lemma word_loop_iter:
  "word_loop fn w word st = iter_while (\<lambda>b. fn (w * 64 + b)) (word_bits word) st"
proof (induction fn w word st rule: word_loop.induct)
  case (1 fn w word st)
  show ?case
  proof (cases "word_bits word")
    case Nil
    then have "word = 0" by (simp add: word_bits_Nil)
    with Nil show ?thesis by (simp add: word_loop.simps)
  next
    case (Cons b bs)
    then have ne: "word \<noteq> 0" and tz: "TrailingZeros64 word = b"
      by (auto simp: TrailingZeros64_def simp flip: word_bits_Nil)
    obtain st' go where fn: "fn (w * 64 + b) st = (st', go)" by fastforce
    show ?thesis
    proof (cases go)
      case True
      with 1 ne tz fn have "word_loop fn w (word AND (word - 1)) st' =
          iter_while (\<lambda>b. fn (w * 64 + b)) (word_bits (word AND (word - 1))) st'" by simp
      with True ne tz fn Cons word_bits_clear_lowest [OF Cons]
      show ?thesis by (simp only: word_loop.simps [of fn w word] iter_while.simps) simp
    next
      case False
      with ne tz fn Cons show ?thesis by (simp add: word_loop.simps [of fn w word])
    qed
  qed
qed

definition Bitset_list :: "bitset \<Rightarrow> nat list" where
  "Bitset_list s =
     concat (map (\<lambda>w. map (\<lambda>b. w * 64 + b) (word_bits (bs_words s ! w)))
       [0..<length (bs_words s)])"

lemma set_Bitset_list: "set (Bitset_list s) = Bitset_elems s"
proof (rule set_eqI)
  fix x
  have "x \<in> set (Bitset_list s) \<longleftrightarrow>
      (\<exists>w b. w < length (bs_words s) \<and> b < 64 \<and> bit (bs_words s ! w) b \<and> x = w * 64 + b)"
    by (auto simp: Bitset_list_def) (metis bit_word_64)
  also have "\<dots> \<longleftrightarrow> x div 64 < length (bs_words s) \<and> bit (bs_words s ! (x div 64)) (x mod 64)"
  proof
    assume "x div 64 < length (bs_words s) \<and> bit (bs_words s ! (x div 64)) (x mod 64)"
    then show "\<exists>w b. w < length (bs_words s) \<and> b < 64 \<and> bit (bs_words s ! w) b \<and> x = w * 64 + b"
      by (intro exI [of _ "x div 64"] exI [of _ "x mod 64"]) simp
  qed auto
  finally show "x \<in> set (Bitset_list s) \<longleftrightarrow> x \<in> Bitset_elems s" by (simp add: Bitset_elems_def)
qed

lemma sorted_Bitset_list: "sorted_wrt (<) (Bitset_list s)"
proof -
  have "sorted_wrt (<) (concat (map (\<lambda>w. map (\<lambda>b. w * 64 + b) (word_bits (ws ! w))) [0..<n])) \<and>
      (\<forall>x \<in> set (concat (map (\<lambda>w. map (\<lambda>b. w * 64 + b) (word_bits (ws ! w))) [0..<n])).
         x < n * 64)" for ws :: "u64 list" and n
  proof (induction n)
    case (Suc n)
    have "sorted_wrt (<) (map (\<lambda>b. n * 64 + b) (word_bits (ws ! n)))"
      using sorted_word_bits [of "ws ! n"] by (simp add: sorted_wrt_map)
    with Suc show ?case by (fastforce simp: sorted_wrt_append dest: bit_word_64)
  qed simp
  then show ?thesis by (simp add: Bitset_list_def)
qed

lemma Bitset_list_sorted_list: "Bitset_list s = sorted_list_of_set (Bitset_elems s)"
  using sorted_Bitset_list [of s] set_Bitset_list [of s]
  by (metis sorted_list_of_set.idem_if_sorted_distinct strict_sorted_iff)

lemma iter_while_concat:
  "iter_while (\<lambda>xs. iter_while f xs) xss st = iter_while f (concat xss) st"
  by (induction xss arbitrary: st) (auto simp: iter_while_append split: prod.splits)

lemma iter_while_filter_skip:
  "(\<And>x. x \<in> set xs \<Longrightarrow> \<not> P x \<Longrightarrow> f x = (\<lambda>s. (s, True))) \<Longrightarrow>
   iter_while f xs st = iter_while f (filter P xs) st"
  by (induction xs arbitrary: st) (auto split: prod.splits)

lemma touched_filter:
  assumes "bitset_inv s" and "\<not> Bitset_Empty s"
  shows "filter (\<lambda>w. w \<in> set (touched s)) [0..<length (bs_words s)] = touched s"
proof -
  from assms have lo: "nat (loWord s) \<le> nat (hiWord s + 1)"
    and hi: "nat (hiWord s + 1) \<le> length (bs_words s)"
    by (auto simp: bitset_inv_def Bitset_Empty_def)
  let ?l = "nat (loWord s)" and ?h = "nat (hiWord s + 1)" and ?n = "length (bs_words s)"
  have "[0..<?n] = [0..<?l] @ [?l..<?h] @ [?h..<?n]"
    using lo hi by (metis le0 le_Suc_ex upt_add_eq_append le_trans)
  then show ?thesis by (simp add: touched_def filter_empty_conv)
qed

lemma Bitset_All_iter:
  assumes "bitset_inv s"
  shows "Bitset_All fn s st = iter_while fn (sorted_list_of_set (Bitset_elems s)) st"
proof (cases "Bitset_Empty s")
  case True
  with Empty_iff [OF assms] show ?thesis by (simp add: Bitset_All_def)
next
  case False
  let ?row = "\<lambda>w. map (\<lambda>b. w * 64 + b) (word_bits (bs_words s ! w))"
  let ?f = "\<lambda>w. word_loop fn w (bs_words s ! w)"
  have "Bitset_All fn s st = iter_while ?f (touched s) st"
    using False by (simp add: Bitset_All_def)
  also have "\<dots> = iter_while ?f (filter (\<lambda>w. w \<in> set (touched s)) [0..<length (bs_words s)]) st"
    by (simp add: touched_filter [OF assms False])
  also have "\<dots> = iter_while ?f [0..<length (bs_words s)] st"
    by (rule iter_while_filter_skip [symmetric])
      (simp add: untouched_zero [OF assms] word_loop.simps fun_eq_iff)
  also have "\<dots> = iter_while (\<lambda>w. iter_while fn (?row w)) [0..<length (bs_words s)] st"
    by (rule iter_while_cong) (simp add: word_loop_iter iter_while_map)
  also have "\<dots> = iter_while (\<lambda>xs. iter_while fn xs) (map ?row [0..<length (bs_words s)]) st"
    by (simp only: iter_while_map)
  also have "\<dots> = iter_while fn (Bitset_list s) st"
    unfolding Bitset_list_def by (rule iter_while_concat)
  finally show ?thesis by (simp add: Bitset_list_sorted_list)
qed

lemma Bitset_Len_card:
  assumes "bitset_inv s"
  shows "Bitset_Len s = card (Bitset_elems s)"
proof (cases "Bitset_Empty s")
  case True
  with Empty_iff [OF assms] show ?thesis by (simp add: Bitset_Len_def)
next
  case False
  let ?c = "\<lambda>w. OnesCount64 (bs_words s ! w)"
  have fold_sum: "fold (\<lambda>w n. n + g w) xs k = k + sum_list (map g xs)" for g :: "nat \<Rightarrow> nat" and xs k
    by (induction xs arbitrary: k) simp_all
  have skip: "(\<And>x. x \<in> set xs \<Longrightarrow> \<not> P x \<Longrightarrow> g x = 0) \<Longrightarrow>
      sum_list (map g xs) = sum_list (map g (filter P xs))" for g :: "nat \<Rightarrow> nat" and P xs
    by (induction xs) auto
  have "Bitset_Len s = sum_list (map ?c (touched s))"
    using False by (simp add: Bitset_Len_def fold_sum)
  also have "\<dots> = sum_list (map ?c (filter (\<lambda>w. w \<in> set (touched s)) [0..<length (bs_words s)]))"
    by (simp add: touched_filter [OF assms False])
  also have "\<dots> = sum_list (map ?c [0..<length (bs_words s)])"
    by (rule skip [symmetric]) (simp add: untouched_zero [OF assms] OnesCount64_def word_bits_def)
  also have "\<dots> = length (Bitset_list s)"
    by (simp add: Bitset_list_def length_concat OnesCount64_def comp_def)
  also have "\<dots> = card (Bitset_elems s)"
    using sorted_Bitset_list [of s] by (metis distinct_card set_Bitset_list strict_sorted_iff)
  finally show ?thesis .
qed

section \<open>The interface the prefilter and the evaluator use\<close>

text \<open>
  The prefilter only adds, the evaluator resets before each scan and then iterates. Both see the
  bitset through these laws.
\<close>

locale candidate_set =
  fixes add :: "int \<Rightarrow> 's \<Rightarrow> 's"
    and reset :: "'s \<Rightarrow> 's"
    and elems :: "'s \<Rightarrow> nat set"
    and cap :: "'s \<Rightarrow> nat"
    and inv :: "'s \<Rightarrow> bool"
  assumes elems_add: "elems (add v s) =
      (if 0 \<le> v \<and> v < int (cap s) then insert (nat v) (elems s) else elems s)"
    and cap_add: "cap (add v s) = cap s"
    and inv_add: "inv s \<Longrightarrow> inv (add v s)"
    and reset_spec: "inv s \<Longrightarrow> inv (reset s) \<and> elems (reset s) = {} \<and> cap (reset s) = cap s"
begin

lemma cap_fold_add: "cap (fold (\<lambda>x. add (int x)) xs s) = cap s"
  by (induction xs arbitrary: s) (simp_all add: cap_add)

lemma inv_fold_add: "inv s \<Longrightarrow> inv (fold (\<lambda>x. add (int x)) xs s)"
  by (induction xs arbitrary: s) (simp_all add: inv_add)

lemma elems_fold_add:
  "elems (fold (\<lambda>x. add (int x)) xs s) = elems s \<union> {x \<in> set xs. x < cap s}"
  by (induction xs arbitrary: s) (auto simp: elems_add cap_add)

lemma reset_then_add:
  "inv s \<Longrightarrow> elems (fold (\<lambda>x. add (int x)) xs (reset s)) = {x \<in> set xs. x < cap s}"
  by (simp add: elems_fold_add reset_spec)

end

interpretation cs: candidate_set Bitset_Add Bitset_Reset Bitset_elems Bitset_Cap bitset_inv
  by unfold_locales (auto simp: elems_Add Bitset_Reset_spec intro: bitset_inv_Add)

section \<open>Properties\<close>

text \<open>
  Iterating the candidate set visits its members in ascending order, each once, and stops where
  the callback answers false: the word-at-a-time loop with \<open>TrailingZeros64\<close> between the touched
  bounds computes the same as the plain loop over the sorted members.
\<close>

theorem Bitset_All_ascending:
  assumes "bitset_inv s"
  shows "Bitset_All fn s st = iter_while fn (sorted_list_of_set (Bitset_elems s)) st"
  by (rule Bitset_All_iter [OF assms])

theorem Bitset_All_ascending_witness:
  "bitset_inv (Bitset_Add 5 (Bitset_Add 70 (Bitset_New 128))) \<and>
   Bitset_All (\<lambda>v vs. (vs @ [v], True)) (Bitset_Add 5 (Bitset_Add 70 (Bitset_New 128))) [] = ([5, 70], True)"
proof -
  let ?s = "Bitset_Add 5 (Bitset_Add 70 (Bitset_New 128))"
  have inv: "bitset_inv ?s" by (intro inv_intros)
  have "Bitset_elems (Bitset_New 128) = {}" "128 \<le> Bitset_Cap (Bitset_New 128)"
    using Bitset_Grow_spec(2,3) [OF bitset_inv_zero, of 128] by (simp_all add: Bitset_New_def)
  then have "Bitset_elems ?s = {5, 70}" by (simp add: elems_Add cs.cap_add)
  with inv Bitset_All_ascending [OF inv, of "\<lambda>v vs. (vs @ [v], True)" "[]"]
  show ?thesis by simp
qed

text \<open>
  A pooled candidate set carries nothing over: after \<open>Reset\<close>, whatever the set held, adding
  rules leaves exactly those of them that are below the capacity, and \<open>Has\<close> answers accordingly.
\<close>

theorem Bitset_Reset_then_Add:
  assumes "bitset_inv s"
  shows "Bitset_Has (fold (\<lambda>x. Bitset_Add (int x)) xs (Bitset_Reset s)) (int v) \<longleftrightarrow>
    v \<in> set xs \<and> v < Bitset_Cap s"
  by (simp add: Has_iff cs.reset_then_add [OF assms])

theorem Bitset_Reset_then_Add_witness:
  "bitset_inv (Bitset_Add 7 (Bitset_New 64)) \<and>
   \<not> Bitset_Has (fold (\<lambda>x. Bitset_Add (int x)) [3] (Bitset_Reset (Bitset_Add 7 (Bitset_New 64)))) (int 7)"
proof -
  have inv: "bitset_inv (Bitset_Add 7 (Bitset_New 64))" by (intro inv_intros)
  from inv Bitset_Reset_then_Add [OF inv, of "[3]" 7] show ?thesis by simp
qed

end
