(* ===== verification/Arena.thy ===== *)
theory Arena
  imports Types
begin

text \<open>
  The per-transaction bump allocator (internal/memz/arena.go). \<open>a_store\<close> is the whole backing
  array (its length is the slice's capacity), \<open>a_len\<close> the slice's length: bytes past \<open>a_len\<close> are
  what an earlier transaction left there, as \<open>Alloc\<close> does not clear them. \<open>make\<close> gives zeroes.
  Values are addressed by spans, which stay valid when the array is reallocated.
\<close>

abbreviation DefaultArenaSize :: nat where "DefaultArenaSize \<equiv> 8192"
abbreviation maxRetainedSize :: nat where "maxRetainedSize \<equiv> 262144"

record arena =
  a_store :: gobytes
  a_len :: nat
  a_limit :: int

definition NewArena :: "int \<Rightarrow> int \<Rightarrow> arena" where
  "NewArena sz lim =
     \<lparr>a_store = replicate (if sz \<le> 0 then DefaultArenaSize else nat sz) 0, a_len = 0, a_limit = lim\<rparr>"

definition arena_SetLimit :: "int \<Rightarrow> arena \<Rightarrow> arena" where
  "arena_SetLimit lim a = a\<lparr>a_limit := lim\<rparr>"

definition arena_Cap :: "arena \<Rightarrow> nat" where
  "arena_Cap a = length (a_store a)"

definition arena_Bytes :: "arena \<Rightarrow> gobytes" where
  "arena_Bytes a = take (a_len a) (a_store a)"

text \<open>\<open>grown := make([]byte, len, newCap); copy(grown, a.buf)\<close>.\<close>

definition arena_realloc :: "nat \<Rightarrow> arena \<Rightarrow> arena" where
  "arena_realloc newCap a =
     a\<lparr>a_store := take (a_len a) (a_store a) @ replicate (newCap - a_len a) 0\<rparr>"

text \<open>\<open>for newCap < need { newCap *= 2 }\<close>; \<open>newCap\<close> starts positive.\<close>

function double_until :: "nat \<Rightarrow> nat \<Rightarrow> nat" where
  "double_until need newCap =
     (if 0 < newCap \<and> newCap < need then double_until need (newCap * 2) else newCap)"
  by pat_completeness auto
termination
  by (relation "measure (\<lambda>(need, newCap). need - newCap)") auto

declare double_until.simps [simp del]

definition arena_reserve :: "nat \<Rightarrow> arena \<Rightarrow> arena \<times> bool" where
  "arena_reserve n a =
     (let need = a_len a + n in
      if 0 < a_limit a \<and> a_limit a < int need then (a, False)
      else if need \<le> arena_Cap a then (a, True)
      else let newCap = double_until need (max (arena_Cap a * 2) DefaultArenaSize);
               newCap = (if 0 < a_limit a \<and> a_limit a < int newCap then nat (a_limit a) else newCap)
           in (arena_realloc newCap a, True))"

definition arena_Alloc :: "int \<Rightarrow> arena \<Rightarrow> arena \<times> span \<times> bool" where
  "arena_Alloc n a =
     (if n < 0 then (a, SpanOf 0 0, False)
      else let off = a_len a in
        case arena_reserve (nat n) a of (a', ok) \<Rightarrow>
          if \<not> ok then (a', SpanOf 0 0, False)
          else (a'\<lparr>a_len := off + nat n\<rparr>, SpanOf off (nat n), True))"

text \<open>\<open>copy(a.buf[off:off+n], src)\<close> for \<open>n = len(src)\<close>.\<close>

definition arena_write :: "nat \<Rightarrow> gobytes \<Rightarrow> arena \<Rightarrow> arena" where
  "arena_write off src a =
     a\<lparr>a_store := take off (a_store a) @ src @ drop (off + length src) (a_store a)\<rparr>"

definition arena_Append :: "gobytes \<Rightarrow> arena \<Rightarrow> arena \<times> span \<times> bool" where
  "arena_Append src a =
     (case arena_Alloc (int (length src)) a of (a', sp, ok) \<Rightarrow>
        if \<not> ok then (a', SpanOf 0 0, False)
        else (arena_write (a_len a) src a', sp, True))"

definition arena_Resolve :: "arena \<Rightarrow> span \<Rightarrow> gobytes" where
  "arena_Resolve a sp = span_Bytes sp (arena_Bytes a)"

definition arena_Grow :: "int \<Rightarrow> arena \<Rightarrow> arena \<times> bool" where
  "arena_Grow n a =
     (if n < 0 then (a, False)
      else let need = a_len a + nat n in
        if 0 < a_limit a \<and> a_limit a < int need then (a, False)
        else if need \<le> arena_Cap a then (a, True)
        else (arena_realloc need a, True))"

definition arena_Reset :: "arena \<Rightarrow> arena" where
  "arena_Reset a =
     (if maxRetainedSize < arena_Cap a
      then a\<lparr>a_store := replicate DefaultArenaSize 0, a_len := 0\<rparr>
      else a\<lparr>a_len := 0\<rparr>)"

section \<open>Invariant and effect of each operation\<close>

definition arena_inv :: "arena \<Rightarrow> bool" where
  "arena_inv a \<longleftrightarrow> a_len a \<le> arena_Cap a"

lemma double_until_ge: "0 < c \<Longrightarrow> need \<le> double_until need c"
  by (induction need c rule: double_until.induct) (subst double_until.simps, auto)

lemma double_until_least:
  "0 < c \<Longrightarrow> c < need \<Longrightarrow> double_until need c < 2 * need"
proof (induction need c rule: double_until.induct)
  case (1 need c)
  show ?case
  proof (cases "c * 2 < need")
    case True
    with 1 show ?thesis by (subst double_until.simps) auto
  next
    case False
    with 1(2,3) show ?thesis by (simp add: double_until.simps)
  qed
qed

lemma arena_Bytes_length: "arena_inv a \<Longrightarrow> length (arena_Bytes a) = a_len a"
  by (simp add: arena_Bytes_def arena_inv_def arena_Cap_def)

lemma realloc_spec:
  assumes "arena_inv a" and "a_len a \<le> c"
  shows "arena_inv (arena_realloc c a)" and "arena_Bytes (arena_realloc c a) = arena_Bytes a"
    and "arena_Cap (arena_realloc c a) = c" and "a_len (arena_realloc c a) = a_len a"
    and "a_limit (arena_realloc c a) = a_limit a"
  using assms by (auto simp: arena_inv_def arena_realloc_def arena_Bytes_def arena_Cap_def)

lemma reserve_cases:
  assumes inv: "arena_inv a"
  obtains (refused) "arena_reserve n a = (a, False)" "0 < a_limit a" "a_limit a < int (a_len a + n)"
  | (fits) "arena_reserve n a = (a, True)" "a_len a + n \<le> arena_Cap a"
      "0 < a_limit a \<longrightarrow> int (a_len a + n) \<le> a_limit a"
  | (grown) c where "arena_reserve n a = (arena_realloc c a, True)" "a_len a + n \<le> c"
      "arena_Cap a < a_len a + n" "0 < a_limit a \<longrightarrow> int c \<le> a_limit a"
proof (cases "0 < a_limit a \<and> a_limit a < int (a_len a + n)")
  case True
  with refused show ?thesis by (simp add: arena_reserve_def)
next
  case lim: False
  show ?thesis
  proof (cases "a_len a + n \<le> arena_Cap a")
    case True
    with lim fits show ?thesis by (auto simp: arena_reserve_def)
  next
    case False
    let ?d = "double_until (a_len a + n) (max (arena_Cap a * 2) DefaultArenaSize)"
    let ?c = "if 0 < a_limit a \<and> a_limit a < int ?d then nat (a_limit a) else ?d"
    have "a_len a + n \<le> ?d" by (rule double_until_ge) simp
    with lim have "a_len a + n \<le> ?c" by auto
    moreover have "arena_reserve n a = (arena_realloc ?c a, True)"
      using lim False by (simp add: arena_reserve_def Let_def)
    moreover have "0 < a_limit a \<longrightarrow> int ?c \<le> a_limit a" by auto
    ultimately show ?thesis using False grown [of ?c] by linarith
  qed
qed

lemma reserve_spec:
  assumes "arena_inv a" and "arena_reserve n a = (a', ok)"
  shows "arena_inv a'" and "arena_Bytes a' = arena_Bytes a" and "a_len a' = a_len a"
    and "a_limit a' = a_limit a" and "ok \<Longrightarrow> a_len a + n \<le> arena_Cap a'"
    and "ok \<longleftrightarrow> \<not> (0 < a_limit a \<and> a_limit a < int (a_len a + n))"
    and "\<not> ok \<Longrightarrow> a' = a"
proof -
  have "arena_inv a' \<and> arena_Bytes a' = arena_Bytes a \<and> a_len a' = a_len a \<and>
    a_limit a' = a_limit a \<and> (ok \<longrightarrow> a_len a + n \<le> arena_Cap a') \<and>
    (ok \<longleftrightarrow> \<not> (0 < a_limit a \<and> a_limit a < int (a_len a + n))) \<and> (\<not> ok \<longrightarrow> a' = a)"
  using assms(1)
  proof (cases rule: reserve_cases [where n = n])
    case refused
    with assms show ?thesis by auto
  next
    case fits
    with assms show ?thesis by auto
  next
    case (grown c)
    with assms realloc_spec [OF assms(1), of c] show ?thesis by auto
  qed
  then show "arena_inv a'" "arena_Bytes a' = arena_Bytes a" "a_len a' = a_len a"
    "a_limit a' = a_limit a" "ok \<Longrightarrow> a_len a + n \<le> arena_Cap a'"
    "ok \<longleftrightarrow> \<not> (0 < a_limit a \<and> a_limit a < int (a_len a + n))" "\<not> ok \<Longrightarrow> a' = a"
    by blast+
qed

text \<open>\<open>Append\<close>: refused without any effect exactly when the limit would be passed, otherwise the
  buffer is the old one followed by the source.\<close>

lemma Append_spec:
  assumes inv: "arena_inv a" and ap: "arena_Append src a = (a', sp, ok)"
  shows "arena_inv a'" and "a_limit a' = a_limit a"
    and "ok \<longleftrightarrow> \<not> (0 < a_limit a \<and> a_limit a < int (a_len a + length src))"
    and "ok \<Longrightarrow> arena_Bytes a' = arena_Bytes a @ src"
    and "ok \<Longrightarrow> sp = SpanOf (a_len a) (length src)" and "\<not> ok \<Longrightarrow> a' = a"
proof -
  obtain b rok where res: "arena_reserve (length src) a = (b, rok)" by fastforce
  note r = reserve_spec [OF inv res]
  have "arena_inv a' \<and> a_limit a' = a_limit a \<and>
    (ok \<longleftrightarrow> \<not> (0 < a_limit a \<and> a_limit a < int (a_len a + length src))) \<and>
    (ok \<longrightarrow> arena_Bytes a' = arena_Bytes a @ src \<and> sp = SpanOf (a_len a) (length src)) \<and>
    (\<not> ok \<longrightarrow> a' = a)"
  proof (cases rok)
    case True
    from r(5) [OF True] have cap: "a_len a + length src \<le> length (a_store b)"
      by (simp add: arena_Cap_def)
    have a': "a' = arena_write (a_len a) src (b\<lparr>a_len := a_len a + length src\<rparr>)"
      and "ok" "sp = SpanOf (a_len a) (length src)"
      using ap res True by (auto simp: arena_Append_def arena_Alloc_def Let_def)
    moreover have "arena_Bytes a' = arena_Bytes a @ src"
      using r(2,3) cap inv
      by (simp add: a' arena_Bytes_def arena_write_def arena_inv_def arena_Cap_def)
    moreover have "arena_inv a'" using cap
      by (simp add: a' arena_inv_def arena_write_def arena_Cap_def)
    moreover have "a_limit a' = a_limit a" using r(4) by (simp add: a' arena_write_def)
    ultimately show ?thesis using r(6) True by blast
  next
    case False
    with ap res r show ?thesis by (auto simp: arena_Append_def arena_Alloc_def Let_def)
  qed
  then show "arena_inv a'" "a_limit a' = a_limit a"
    "ok \<longleftrightarrow> \<not> (0 < a_limit a \<and> a_limit a < int (a_len a + length src))"
    "ok \<Longrightarrow> arena_Bytes a' = arena_Bytes a @ src" "ok \<Longrightarrow> sp = SpanOf (a_len a) (length src)"
    "\<not> ok \<Longrightarrow> a' = a"
    by blast+
qed

lemma Reset_spec:
  "arena_inv (arena_Reset a)" "arena_Bytes (arena_Reset a) = []"
  "arena_Cap (arena_Reset a) \<le> max maxRetainedSize DefaultArenaSize"
  by (auto simp: arena_Reset_def arena_inv_def arena_Bytes_def arena_Cap_def)

lemma Grow_spec:
  assumes "arena_inv a" and "arena_Grow n a = (a', ok)"
  shows "arena_inv a'" and "arena_Bytes a' = arena_Bytes a" and "a_len a' = a_len a"
    and "ok \<Longrightarrow> int (a_len a) + n \<le> int (arena_Cap a')" and "\<not> ok \<Longrightarrow> a' = a"
  using assms realloc_spec [OF assms(1), of "a_len a + nat n"]
  by (auto simp: arena_Grow_def Let_def split: if_splits)

section \<open>The allocator interface\<close>

text \<open>
  What the transaction relies on: an append either refuses and changes nothing, or extends the
  bytes at the end, so that every span handed out earlier still resolves to the same bytes.
\<close>

locale bump_arena =
  fixes append :: "gobytes \<Rightarrow> 'a \<Rightarrow> 'a \<times> span \<times> bool"
    and contents :: "'a \<Rightarrow> gobytes"
    and inv :: "'a \<Rightarrow> bool"
  assumes append_inv: "inv a \<Longrightarrow> append src a = (a', sp, ok) \<Longrightarrow> inv a'"
    and append_ok: "inv a \<Longrightarrow> append src a = (a', sp, True) \<Longrightarrow>
      contents a' = contents a @ src \<and> sp = SpanOf (length (contents a)) (length src)"
    and append_refused: "inv a \<Longrightarrow> append src a = (a', sp, False) \<Longrightarrow> a' = a"
begin

definition valid_span :: "'a \<Rightarrow> span \<Rightarrow> bool" where
  "valid_span a s \<longleftrightarrow> unat (Off s) + unat (Len s) \<le> length (contents a)"

lemma span_stable:
  assumes "inv a" and "append src a = (a', sp, ok)" and "valid_span a s"
  shows "span_Bytes s (contents a') = span_Bytes s (contents a)" and "valid_span a' s"
  using assms append_ok [of a src a' sp] append_refused [of a src a' sp]
  by (cases ok; auto simp: valid_span_def span_Bytes_append)+

lemma appended_resolves:
  assumes "inv a" and "append src a = (a', sp, True)"
    and "length (contents a) + length src < 2 ^ 32"
  shows "span_Bytes sp (contents a') = src" and "valid_span a' sp"
proof -
  have c: "contents a' = contents a @ src" and sp: "sp = SpanOf (length (contents a)) (length src)"
    using append_ok [OF assms(1,2)] by auto
  show "span_Bytes sp (contents a') = src"
    using assms(3) by (simp add: c sp span_Bytes_SpanOf)
  show "valid_span a' sp"
    using assms(3) by (simp add: valid_span_def c sp SpanOf_def unat_of_nat_u32)
qed

text \<open>A run of appends, stopped at the first refusal; the spans are returned in order.\<close>

fun append_all :: "gobytes list \<Rightarrow> 'a \<Rightarrow> 'a \<times> span list \<times> bool" where
  "append_all [] a = (a, [], True)"
| "append_all (x # xs) a =
     (case append x a of (a', sp, ok) \<Rightarrow>
        if \<not> ok then (a', [], False)
        else case append_all xs a' of (b, sps, ok') \<Rightarrow> (b, sp # sps, ok'))"

lemma append_all_stable:
  assumes "inv a" and "append_all xs a = (b, sps, ok)" and "valid_span a s"
  shows "inv b \<and> span_Bytes s (contents b) = span_Bytes s (contents a) \<and> valid_span b s"
  using assms
proof (induction xs arbitrary: a b sps ok)
  case (Cons x xs)
  obtain a' sp ok' where ap: "append x a = (a', sp, ok')" by (metis prod_cases3)
  have step: "inv a'" "span_Bytes s (contents a') = span_Bytes s (contents a)" "valid_span a' s"
    using append_inv [OF Cons.prems(1) ap] span_stable [OF Cons.prems(1) ap Cons.prems(3)] by auto
  obtain b' sps' ok'' where rest: "append_all xs a' = (b', sps', ok'')" by (metis prod_cases3)
  show ?case
  proof (cases ok')
    case True
    with Cons.prems(2) ap rest have "b = b'" by simp
    with Cons.IH [OF step(1) rest step(3)] step show ?thesis by simp
  next
    case False
    with Cons.prems(2) ap step show ?thesis by auto
  qed
qed auto

end

interpretation ba: bump_arena arena_Append arena_Bytes arena_inv
  by unfold_locales (auto dest: Append_spec simp: arena_Bytes_length)

section \<open>Properties\<close>

text \<open>
  C21. Spans stay valid for the life of a transaction. Whatever is appended later, and however often
  the backing array is reallocated, a span inside the arena still resolves to the same bytes; a
  granted append's own span resolves to exactly what was appended; an append is refused exactly
  when it would pass the limit, and a refusal changes nothing.
\<close>

theorem arena_Append_spans:
  assumes "arena_inv a" "arena_Append src a = (a', sp, ok)"
  shows "(ok \<longleftrightarrow> \<not> (0 < a_limit a \<and> a_limit a < int (a_len a + length src))) \<and>
    (\<not> ok \<longrightarrow> a' = a) \<and>
    (ok \<and> a_len a + length src < 2 ^ 32 \<longrightarrow> arena_Resolve a' sp = src) \<and>
    (\<forall>s. unat (Off s) + unat (Len s) \<le> a_len a \<longrightarrow> arena_Resolve a' s = arena_Resolve a s)"
proof (intro conjI allI impI)
  have len: "length (arena_Bytes a) = a_len a" by (rule arena_Bytes_length [OF assms(1)])
  show "ok \<longleftrightarrow> \<not> (0 < a_limit a \<and> a_limit a < int (a_len a + length src))"
    by (rule Append_spec(3) [OF assms])
  show "a' = a" if "\<not> ok" using Append_spec(6) [OF assms that] .
  show "arena_Resolve a' sp = src" if "ok \<and> a_len a + length src < 2 ^ 32"
    using ba.appended_resolves(1) [OF assms(1), of src a' sp] assms(2) that
    by (simp add: arena_Resolve_def len)
  show "arena_Resolve a' s = arena_Resolve a s" if "unat (Off s) + unat (Len s) \<le> a_len a" for s
    using ba.span_stable(1) [OF assms, of s] that
    by (simp add: arena_Resolve_def ba.valid_span_def len)
qed

theorem arena_Append_spans_witness:
  "arena_inv (NewArena 2 100) \<and>
   (case arena_Append [1, 2, 3] (NewArena 2 100) of (a', sp, ok) \<Rightarrow> ok \<and> arena_Resolve a' sp = [1, 2, 3])"
proof -
  let ?a = "NewArena 2 100"
  have inv: "arena_inv ?a" by (simp add: NewArena_def arena_inv_def)
  obtain a' sp ok where ap: "arena_Append [1, 2, 3] ?a = (a', sp, ok)" by (metis prod_cases3)
  from arena_Append_spans [OF inv ap] have "ok" "arena_Resolve a' sp = [1, 2, 3]"
    by (simp_all add: NewArena_def)
  with inv ap show ?thesis by simp
qed

text \<open>
  Retained memory is bounded: a reset arena resolves nothing of the previous transaction, its
  length is 0, and it holds on to at most 256 KiB.
\<close>

theorem arena_Reset_bounded:
  "arena_inv (arena_Reset a) \<and> arena_Bytes (arena_Reset a) = [] \<and> arena_Resolve (arena_Reset a) sp = [] \<and>
   arena_Cap (arena_Reset a) \<le> 262144"
  using Reset_spec [of a] by (simp add: arena_Resolve_def span_Bytes_def)

end
