(* ===== verification/Windows.thy ===== *)
theory Windows
  imports Types
begin

text \<open>
  Overlapping windows over a value (internal/scan/window.go). The callback is a state
  transformer \<open>fn off w s = (continue, s')\<close>; \<open>Windows\<close> threads its state and stops when it answers
  false. The main lemma is the guarantee the file's comment makes: a run of at most
  \<open>overlapFor window\<close> bytes lies intact in some visited window.
\<close>

abbreviation minOverlap :: int where "minOverlap \<equiv> 1024"
abbreviation maxOverlap :: int where "maxOverlap \<equiv> 4096"

definition overlapFor :: "int \<Rightarrow> int" where
  "overlapFor window =
     (if window \<le> 1 then 0
      else let w8 = window div 8;
               w8 = (if w8 < minOverlap then minOverlap else w8);
               w8 = (if maxOverlap < w8 then maxOverlap else w8);
               half = window div 2
           in if half < w8 then half else w8)"

definition window_step :: "int \<Rightarrow> int" where
  "window_step window =
     (let step = window - overlapFor window;
          step = (if step \<le> 0 then window div 2 else step)
      in if step \<le> 0 then 1 else step)"

text \<open>The loop of \<open>Windows\<close>; \<open>step\<close> is positive there, which the guard keeps visible.\<close>

function windows_loop ::
  "gobytes \<Rightarrow> nat \<Rightarrow> nat \<Rightarrow> nat \<Rightarrow> (nat \<Rightarrow> gobytes \<Rightarrow> 's \<Rightarrow> bool \<times> 's) \<Rightarrow> 's \<Rightarrow> 's"
where
  "windows_loop src window step off fn s =
     (if length src \<le> off \<or> step = 0 then s
      else let fin = (if length src < off + window then length src else off + window) in
        case fn off (take (fin - off) (drop off src)) s of (go, s') \<Rightarrow>
          if \<not> go then s'
          else if fin = length src then s'
          else windows_loop src window step (off + step) fn s')"
  by pat_completeness auto
termination
  by (relation "measure (\<lambda>(src, window, step, off, fn, s). length src - off)") auto

declare windows_loop.simps [simp del]

definition Windows :: "gobytes \<Rightarrow> int \<Rightarrow> (nat \<Rightarrow> gobytes \<Rightarrow> 's \<Rightarrow> bool \<times> 's) \<Rightarrow> 's \<Rightarrow> 's" where
  "Windows src window fn s =
     (if window \<le> 0 \<or> int (length src) \<le> window then snd (fn 0 src s)
      else windows_loop src (nat window) (nat (window_step window)) 0 fn s)"

section \<open>The overlap and the step\<close>

lemma overlapFor_bounds:
  "0 \<le> overlapFor w" "1 < w \<Longrightarrow> overlapFor w < w" "overlapFor w \<le> maxOverlap"
  "1 < w \<Longrightarrow> 2 * overlapFor w \<le> w"
  by (auto simp: overlapFor_def Let_def)

lemma window_step_pos: "0 < window_step w"
  by (simp add: window_step_def Let_def)

lemma window_step_eq: "1 < w \<Longrightarrow> window_step w = w - overlapFor w"
  using overlapFor_bounds(2) [of w] by (simp add: window_step_def Let_def)

lemma window_step_le: "0 < w \<Longrightarrow> window_step w + overlapFor w \<le> w"
proof (cases "w = 1")
  case True
  then show ?thesis by (simp add: window_step_def overlapFor_def)
next
  case False
  assume "0 < w"
  with False show ?thesis by (simp add: window_step_eq)
qed

section \<open>The visited windows\<close>

text \<open>The windows a callback that never stops is called with, in order.\<close>

definition visit :: "nat \<Rightarrow> gobytes \<Rightarrow> (nat \<times> gobytes) list \<Rightarrow> bool \<times> (nat \<times> gobytes) list" where
  "visit off w acc = (True, acc @ [(off, w)])"

definition window_list :: "gobytes \<Rightarrow> int \<Rightarrow> (nat \<times> gobytes) list" where
  "window_list src window = Windows src window visit []"

lemma windows_loop_visit:
  "windows_loop src w step off visit acc = acc @ windows_loop src w step off visit []"
proof (induction "length src - off" arbitrary: off acc rule: less_induct)
  case less
  show ?case
  proof (cases "length src \<le> off \<or> step = 0")
    case False
    then have lt: "length src - (off + step) < length src - off" by auto
    show ?thesis
      apply (subst (1 2) windows_loop.simps)
      using False less [OF lt, of "acc @ x" for x] less [OF lt, of "[x]" for x]
      by (simp add: visit_def Let_def)
  qed (simp add: windows_loop.simps)
qed

text \<open>Any callback is called along a prefix of that list: exactly as far as it answers true.\<close>

fun run_until :: "(nat \<Rightarrow> gobytes \<Rightarrow> 's \<Rightarrow> bool \<times> 's) \<Rightarrow> (nat \<times> gobytes) list \<Rightarrow> 's \<Rightarrow> 's" where
  "run_until fn [] s = s"
| "run_until fn ((off, w) # ws) s =
     (case fn off w s of (go, s') \<Rightarrow> if go then run_until fn ws s' else s')"

lemma windows_loop_run:
  "windows_loop src w step off fn s = run_until fn (windows_loop src w step off visit []) s"
proof (induction "length src - off" arbitrary: off s rule: less_induct)
  case less
  show ?case
  proof (cases "length src \<le> off \<or> step = 0")
    case False
    then have lt: "length src - (off + step) < length src - off" by auto
    show ?thesis
      apply (subst (1 2) windows_loop.simps)
      using False less [OF lt] windows_loop_visit [where acc = "[x]" for x]
      by (simp add: visit_def Let_def split: prod.split)
  qed (simp add: windows_loop.simps)
qed

lemma Windows_run: "Windows src window fn s = run_until fn (window_list src window) s"
  by (simp add: Windows_def window_list_def windows_loop_run [of _ _ _ _ fn] visit_def
      split: prod.split)

lemma windows_loop_covers:
  assumes "off \<le> i" "i + n \<le> length src" "off < length src" "0 < step" "step + n \<le> w"
  shows "\<exists>(o', v) \<in> set (windows_loop src w step off visit []).
    o' \<le> i \<and> i + n \<le> o' + length v \<and> v = take (length v) (drop o' src) \<and> length v \<le> w"
  using assms(1-3)
proof (induction "length src - off" arbitrary: off rule: less_induct)
  case less
  let ?fin = "if length src < off + w then length src else off + w"
  let ?v = "take (?fin - off) (drop off src)"
  let ?rest = "if ?fin = length src then [] else windows_loop src w step (off + step) visit []"
  have unf: "windows_loop src w step off visit [] = (off, ?v) # ?rest"
    using less.prems assms(4)
    by (subst windows_loop.simps)
      (simp add: visit_def Let_def windows_loop_visit [where acc = "[x]" for x])
  have lv: "length ?v = ?fin - off" using less.prems by auto
  show ?case
  proof (cases "i + n \<le> ?fin")
    case True
    then show ?thesis using less.prems lv by (auto simp: unf intro!: bexI [of _ "(off, ?v)"])
  next
    case False
    then have fin: "?fin = off + w" "?fin \<noteq> length src" "off + w < i + n"
      using less.prems by (auto split: if_splits)
    have "off + step \<le> i" using fin(3) assms(5) by linarith
    moreover have "off + step < length src" using fin assms(5) less.prems by (auto split: if_splits)
    ultimately have "\<exists>(o', v) \<in> set (windows_loop src w step (off + step) visit []).
        o' \<le> i \<and> i + n \<le> o' + length v \<and> v = take (length v) (drop o' src) \<and> length v \<le> w"
      using less.hyps [of "off + step"] less.prems assms(4) by simp
    then show ?thesis using fin(2) by (auto simp: unf)
  qed
qed

lemma window_list_covers:
  assumes "i + n \<le> length src" "int n \<le> overlapFor window" "0 < window"
  obtains off v where "(off, v) \<in> set (window_list src window)"
    "off \<le> i" "i + n \<le> off + length v" "v = take (length v) (drop off src)"
    "take n (drop (i - off) v) = take n (drop i src)"
proof -
  have ex: "\<exists>(o', v) \<in> set (window_list src window).
    o' \<le> i \<and> i + n \<le> o' + length v \<and> v = take (length v) (drop o' src)"
  proof (cases "int (length src) \<le> window")
    case True
    with assms show ?thesis by (simp add: window_list_def Windows_def visit_def)
  next
    case False
    have "nat (window_step window) + n \<le> nat window"
      using window_step_le [OF assms(3)] assms(2) window_step_pos [of window] by linarith
    moreover have "0 < nat (window_step window)" using window_step_pos [of window] by simp
    moreover have "0 < length src" using False assms(3) by (cases src) auto
    ultimately show ?thesis
      using windows_loop_covers [of 0 i n src "nat (window_step window)" "nat window"] assms(1,3) False
      by (fastforce simp: window_list_def Windows_def)
  qed
  then obtain off v where v: "(off, v) \<in> set (window_list src window)" "off \<le> i"
      "i + n \<le> off + length v" "v = take (length v) (drop off src)" by auto
  have "take n (drop (i - off) v) = take n (drop i src)"
    using v(2,3) by (subst v(4)) (simp add: drop_take min_def)
  with v that show thesis by blast
qed

section \<open>Properties\<close>

text \<open>
  C20. Windowed scanning loses nothing. For every callback, \<open>Windows\<close> runs it over a fixed list of
  windows of the value, stopping at the first refusal, and every run of at most
  \<open>overlapFor window\<close> bytes of the value, wherever it sits, appears intact at the reported offset
  of one of them.
\<close>

theorem Windows_lossless:
  assumes "i + n \<le> length src" "int n \<le> overlapFor window" "0 < window"
  shows "\<exists>ws. (\<forall>fn s. Windows src window fn (s :: 's) = run_until fn ws s) \<and>
    (\<exists>(off, v) \<in> set ws. off \<le> i \<and> v = take (length v) (drop off src) \<and>
       take n (drop (i - off) v) = take n (drop i src) \<and> i + n \<le> off + length v)"
proof -
  obtain off v where "(off, v) \<in> set (window_list src window)"
    "off \<le> i" "i + n \<le> off + length v" "v = take (length v) (drop off src)"
    "take n (drop (i - off) v) = take n (drop i src)"
    by (rule window_list_covers [OF assms])
  then show ?thesis
    by (intro exI [of _ "window_list src window"] conjI allI Windows_run bexI [of _ "(off, v)"]) auto
qed

theorem Windows_lossless_witness:
  "overlapFor 4 = 2 \<and> (\<exists>ws. (\<forall>fn s. Windows [1, 2, 3, 4, 5, 6, 7] 4 fn (s :: nat) = run_until fn ws s) \<and>
     (\<exists>(off, v) \<in> set ws. take 2 (drop (3 - off) v) = [4, 5]))"
proof -
  have o: "overlapFor 4 = 2" by (simp add: overlapFor_def Let_def)
  from Windows_lossless [where 's = nat, of 3 2 "[1, 2, 3, 4, 5, 6, 7]" 4] o show ?thesis by fastforce
qed

end
