(* ===== verification/Prefilter.thy ===== *)
theory Prefilter
  imports Bitset
begin

text \<open>
  The multi-pattern automaton (internal/prefilter/automaton.go): the builder's trie, its
  flattening into arrays, the failure and dictionary links computed breadth first, and the two
  scans. State numbers and array offsets (\<open>int32\<close> in the source) are \<open>nat\<close>. A Go map from bytes
  to states is an association list with distinct keys; \<open>ord\<close> stands for the iteration order the
  runtime picks for the map of a state. The walks along failure links and the breadth-first loop
  are \<open>partial_function (option)\<close>: \<open>None\<close> is a loop that never ends. That they end on every
  automaton \<open>Build\<close> returns is part of the correctness proof (theory PrefilterCorrect).
\<close>

definition fold_byte :: "byte \<Rightarrow> byte" where
  "fold_byte c = (if 65 \<le> c \<and> c \<le> 90 then c + 32 else c)"

record ac_node =
  childStart :: nat
  childCount :: nat
  fail_link :: nat
  dictLink :: nat
  outStart :: nat
  outCount :: nat

record automaton =
  ac_nodes :: "ac_node list"
  childBytes :: "byte list"
  childNext :: "nat list"
  ac_outputs :: "u32 list"
  rootNext :: "nat list"
  ac_patterns :: nat

definition Automaton_Patterns :: "automaton \<Rightarrow> nat" where
  "Automaton_Patterns a = ac_patterns a"

definition Automaton_States :: "automaton \<Rightarrow> nat" where
  "Automaton_States a = length (ac_nodes a)"

text \<open>The receiver may be a nil pointer, \<open>None\<close> here.\<close>

definition Automaton_Empty :: "automaton option \<Rightarrow> bool" where
  "Automaton_Empty a = (case a of None \<Rightarrow> True | Some m \<Rightarrow> ac_patterns m = 0)"

fun child_loop :: "byte list \<Rightarrow> nat list \<Rightarrow> byte \<Rightarrow> nat \<Rightarrow> nat \<Rightarrow> nat option" where
  "child_loop bs ns c i 0 = None"
| "child_loop bs ns c i (Suc k) =
     (if bs ! i = c then Some (ns ! i)
      else if c < bs ! i then None
      else child_loop bs ns c (Suc i) k)"

definition child :: "automaton \<Rightarrow> nat \<Rightarrow> byte \<Rightarrow> nat option" where
  "child a state c =
     (let nd = ac_nodes a ! state
      in child_loop (childBytes a) (childNext a) c (childStart nd) (childCount nd))"

section \<open>Scanning\<close>

text \<open>The inner loop of \<open>Scan\<close> away from the root, the same in \<open>MatchAny\<close>.\<close>

partial_function (option) goto_loop :: "automaton \<Rightarrow> nat \<Rightarrow> byte \<Rightarrow> nat option" where
  "goto_loop a state c =
     (case child a state c of
        Some next \<Rightarrow> Some next
      | None \<Rightarrow>
          let state' = fail_link (ac_nodes a ! state) in
          if state' = 0 then Some (rootNext a ! unat c) else goto_loop a state' c)"

definition node_outputs :: "automaton \<Rightarrow> nat \<Rightarrow> u32 list" where
  "node_outputs a s =
     (let nd = ac_nodes a ! s in take (outCount nd) (drop (outStart nd) (ac_outputs a)))"

text \<open>\<open>for s := state; s > 0; { ... s = nd.dictLink }\<close>.\<close>

partial_function (option) emit_loop :: "automaton \<Rightarrow> nat \<Rightarrow> bitset \<Rightarrow> bitset option" where
  "emit_loop a s dst =
     (if s = 0 then Some dst
      else emit_loop a (dictLink (ac_nodes a ! s))
        (fold (\<lambda>r. Bitset_Add (int (unat r))) (node_outputs a s) dst))"

text \<open>The spin at the root: the state it leaves for (0 when the input runs out) and the input
  that remains.\<close>

fun root_spin :: "automaton \<Rightarrow> gobytes \<Rightarrow> nat \<times> gobytes" where
  "root_spin a [] = (0, [])"
| "root_spin a (x # xs) =
     (let s = rootNext a ! unat (fold_byte x)
      in if s \<noteq> 0 then (s, xs) else root_spin a xs)"

lemma root_spin_shorter: "root_spin a xs = (s, rest) \<Longrightarrow> s \<noteq> 0 \<Longrightarrow> length rest < length xs"
  by (induction xs) (auto simp: Let_def split: if_splits)

function scan_loop :: "automaton \<Rightarrow> gobytes \<Rightarrow> nat \<Rightarrow> bitset \<Rightarrow> bitset option" where
  "scan_loop a [] state dst = Some dst"
| "scan_loop a (x # xs) state dst =
     (if state = 0 then
        case root_spin a (x # xs) of (s, rest) \<Rightarrow>
          if s = 0 then Some dst
          else (case emit_loop a s dst of None \<Rightarrow> None | Some dst' \<Rightarrow> scan_loop a rest s dst')
      else
        case goto_loop a state (fold_byte x) of
          None \<Rightarrow> None
        | Some s \<Rightarrow>
            if s = 0 then scan_loop a xs 0 dst
            else (case emit_loop a s dst of None \<Rightarrow> None | Some dst' \<Rightarrow> scan_loop a xs s dst'))"
  by pat_completeness auto
termination
  by (relation "measure (\<lambda>(a, xs, state, dst). length xs)")
    (auto dest!: root_spin_shorter [OF sym] simp del: root_spin.simps)

declare scan_loop.simps [simp del]

definition Scan :: "automaton option \<Rightarrow> gobytes \<Rightarrow> bitset \<Rightarrow> (bitset \<times> nat) option" where
  "Scan a input dst =
     (if Automaton_Empty a \<or> length input = 0 then Some (dst, length input)
      else map_option (\<lambda>d. (d, length input)) (scan_loop (the a) input 0 dst))"

fun match_loop :: "automaton \<Rightarrow> gobytes \<Rightarrow> nat \<Rightarrow> bool option" where
  "match_loop a [] state = Some False"
| "match_loop a (x # xs) state =
     (let c = fold_byte x in
      case (if state = 0 then Some (rootNext a ! unat c) else goto_loop a state c) of
        None \<Rightarrow> None
      | Some s \<Rightarrow>
          if s = 0 then match_loop a xs s
          else if 0 < outCount (ac_nodes a ! s) \<or> 0 < dictLink (ac_nodes a ! s) then Some True
          else match_loop a xs s)"

definition MatchAny :: "automaton option \<Rightarrow> gobytes \<Rightarrow> bool option" where
  "MatchAny a input =
     (if Automaton_Empty a \<or> length input = 0 then Some False
      else match_loop (the a) input 0)"

section \<open>Building\<close>

type_synonym kids = "(byte \<times> nat) list"

record builder =
  b_children :: "kids list"
  b_outputs :: "u32 list list"
  b_patterns :: "gobytes list"

definition builder_newNode :: "builder \<Rightarrow> builder \<times> nat" where
  "builder_newNode b =
     (b\<lparr>b_children := b_children b @ [[]], b_outputs := b_outputs b @ [[]]\<rparr>,
      length (b_children b))"

definition NewBuilder :: builder where
  "NewBuilder = fst (builder_newNode \<lparr>b_children = [], b_outputs = [], b_patterns = []\<rparr>)"

fun add_walk :: "gobytes \<Rightarrow> nat \<Rightarrow> builder \<Rightarrow> builder \<times> nat" where
  "add_walk [] state b = (b, state)"
| "add_walk (x # xs) state b =
     (let c = fold_byte x in
      case map_of (b_children b ! state) c of
        Some next \<Rightarrow> add_walk xs next b
      | None \<Rightarrow>
          case builder_newNode b of (b', next) \<Rightarrow>
            add_walk xs next
              (b'\<lparr>b_children := (b_children b')[state := (c, next) # b_children b' ! state]\<rparr>))"

definition Builder_Add :: "gobytes \<Rightarrow> u32 \<Rightarrow> builder \<Rightarrow> builder" where
  "Builder_Add literal ruleIdx b =
     (if literal = [] then b
      else case add_walk literal 0 (b\<lparr>b_patterns := List.insert literal (b_patterns b)\<rparr>) of
        (b', state) \<Rightarrow>
          if ruleIdx \<in> set (b_outputs b' ! state) then b'
          else b'\<lparr>b_outputs := (b_outputs b')[state := b_outputs b' ! state @ [ruleIdx]]\<rparr>)"

type_synonym map_order = "nat \<Rightarrow> kids \<Rightarrow> kids"

text \<open>\<open>kids[c]\<close> on a Go map: 0 for a missing key.\<close>

definition kid_get :: "kids \<Rightarrow> byte \<Rightarrow> nat" where
  "kid_get ks c = (case map_of ks c of None \<Rightarrow> 0 | Some t \<Rightarrow> t)"

definition flatten_kids :: "map_order \<Rightarrow> builder \<Rightarrow> nat \<Rightarrow> automaton \<Rightarrow> automaton" where
  "flatten_kids ord b state a =
     (let ks = b_children b ! state;
          nd = (ac_nodes a ! state)\<lparr>childStart := length (childBytes a), childCount := length ks\<rparr>;
          a = a\<lparr>ac_nodes := (ac_nodes a)[state := nd]\<rparr>
      in if length ks = 0 then a
         else let labels = sort (map fst (ord state ks))
              in a\<lparr>childBytes := childBytes a @ labels,
                   childNext := childNext a @ map (kid_get ks) labels\<rparr>)"

definition flatten_outputs :: "builder \<Rightarrow> nat \<Rightarrow> automaton \<Rightarrow> automaton" where
  "flatten_outputs b state a =
     (let outs = b_outputs b ! state;
          nd = (ac_nodes a ! state)\<lparr>outStart := length (ac_outputs a), outCount := length outs\<rparr>
      in a\<lparr>ac_nodes := (ac_nodes a)[state := nd], ac_outputs := ac_outputs a @ outs\<rparr>)"

definition set_fail :: "nat \<Rightarrow> nat \<Rightarrow> automaton \<Rightarrow> automaton" where
  "set_fail v f a = a\<lparr>ac_nodes := (ac_nodes a)[v := (ac_nodes a ! v)\<lparr>fail_link := f\<rparr>]\<rparr>"

definition set_dict :: "nat \<Rightarrow> nat \<Rightarrow> automaton \<Rightarrow> automaton" where
  "set_dict v d a = a\<lparr>ac_nodes := (ac_nodes a)[v := (ac_nodes a ! v)\<lparr>dictLink := d\<rparr>]\<rparr>"

text \<open>The walk of \<open>u\<close>'s failure chain for a state that can consume \<open>c\<close>: the value it assigns to
  \<open>nodes[v].fail\<close>.\<close>

partial_function (option) link_walk :: "automaton \<Rightarrow> nat \<Rightarrow> byte \<Rightarrow> nat \<Rightarrow> nat option" where
  "link_walk a f c v =
     (case child a f c of
        Some next \<Rightarrow>
          if next \<noteq> v then Some next
          else if f = 0 then Some 0 else link_walk a (fail_link (ac_nodes a ! f)) c v
      | None \<Rightarrow> if f = 0 then Some 0 else link_walk a (fail_link (ac_nodes a ! f)) c v)"

definition link_dict :: "nat \<Rightarrow> automaton \<Rightarrow> automaton" where
  "link_dict v a =
     (let fv = fail_link (ac_nodes a ! v) in
      if 0 < outCount (ac_nodes a ! fv) then set_dict v fv a
      else set_dict v (dictLink (ac_nodes a ! fv)) a)"

text \<open>The body of \<open>for c, v := range b.children[u]\<close>; the result is the automaton and the queue.\<close>

fun link_kids :: "nat \<Rightarrow> kids \<Rightarrow> automaton \<Rightarrow> nat list \<Rightarrow> (automaton \<times> nat list) option" where
  "link_kids u [] a queue = Some (a, queue)"
| "link_kids u ((c, v) # ks) a queue =
     (case link_walk a (fail_link (ac_nodes a ! u)) c v of
        None \<Rightarrow> None
      | Some f \<Rightarrow> link_kids u ks (link_dict v (set_fail v f a)) (queue @ [v]))"

text \<open>The queue from \<open>head\<close> on.\<close>

partial_function (option) bfs_loop ::
  "map_order \<Rightarrow> builder \<Rightarrow> nat list \<Rightarrow> automaton \<Rightarrow> automaton option"
where
  "bfs_loop ord b queue a =
     (case queue of
        [] \<Rightarrow> Some a
      | u # rest \<Rightarrow>
          (case link_kids u (ord u (b_children b ! u)) a rest of
             None \<Rightarrow> None
           | Some r \<Rightarrow> bfs_loop ord b (snd r) (fst r)))"

fun link_root :: "kids \<Rightarrow> automaton \<Rightarrow> nat list \<Rightarrow> automaton \<times> nat list" where
  "link_root [] a queue = (a, queue)"
| "link_root ((c, next) # ks) a queue =
     link_root ks ((set_fail next 0 a)\<lparr>rootNext := (rootNext a)[unat c := next]\<rparr>) (queue @ [next])"

definition buildLinks :: "map_order \<Rightarrow> builder \<Rightarrow> automaton \<Rightarrow> automaton option" where
  "buildLinks ord b a =
     (case link_root (ord 0 (b_children b ! 0)) a [] of (a', queue) \<Rightarrow> bfs_loop ord b queue a')"

definition ac_node_zero :: ac_node where
  "ac_node_zero = \<lparr>childStart = 0, childCount = 0, fail_link = 0, dictLink = 0,
                   outStart = 0, outCount = 0\<rparr>"

definition Builder_Build :: "map_order \<Rightarrow> builder \<Rightarrow> automaton option" where
  "Builder_Build ord b =
     (let n = length (b_children b);
          a = \<lparr>ac_nodes = replicate n ac_node_zero, childBytes = [], childNext = [],
               ac_outputs = [], rootNext = replicate 256 0, ac_patterns = length (b_patterns b)\<rparr>;
          a = fold (flatten_kids ord b) [0..<n] a;
          a = fold (flatten_outputs b) [0..<length (b_outputs b)] a
      in buildLinks ord b a)"

definition add_literals :: "(gobytes \<times> u32) list \<Rightarrow> builder \<Rightarrow> builder" where
  "add_literals lits b = fold (\<lambda>(l, r). Builder_Add l r) lits b"

end
