(* ===== verification/SuffixWords.thy ===== *)
theory SuffixWords
  imports Prelude "HOL-Library.Sublist"
begin

text \<open>
  The words behind a multi-pattern automaton: a prefix-closed set \<open>P\<close> of words (the trie), and
  the longest suffix of a text that is in it. An automaton state stands for a word of \<open>P\<close>, a
  failure link for the longest suffix in \<open>P\<close> of that word's tail. The locale holds the laws that
  make one pass over the text enough; PrefilterCorrect interprets it on the words of the builder's
  trie.
\<close>

fun lsuf :: "'a list set \<Rightarrow> 'a list \<Rightarrow> 'a list" where
  "lsuf P [] = []"
| "lsuf P (x # xs) = (if x # xs \<in> P then x # xs else lsuf P xs)"

lemma suffix_lsuf: "suffix (lsuf P w) w"
  by (induction w) (auto simp: suffix_Cons)

lemma lsuf_id: "w \<in> P \<Longrightarrow> lsuf P w = w"
  by (cases w) auto

lemma lsuf_in: "[] \<in> P \<Longrightarrow> lsuf P w \<in> P"
  by (induction w) auto

lemma lsuf_longest: "v \<in> P \<Longrightarrow> suffix v w \<Longrightarrow> suffix v (lsuf P w)"
  by (induction w) (auto simp: suffix_Cons)

lemma lsuf_unique:
  assumes "[] \<in> P" "u \<in> P" "suffix u w" "\<And>v. v \<in> P \<Longrightarrow> suffix v w \<Longrightarrow> suffix v u"
  shows "lsuf P w = u"
  using assms(4) [OF lsuf_in [OF assms(1)] suffix_lsuf] lsuf_longest [OF assms(2,3)]
  by (rule suffix_order.antisym)

lemma length_lsuf: "length (lsuf P w) \<le> length w"
  by (rule suffix_length_le [OF suffix_lsuf])

lemma lsuf_tl: "w \<notin> P \<Longrightarrow> lsuf P w = lsuf P (tl w)"
  by (cases w) auto

lemma suffix_tl_iff: "suffix v w \<Longrightarrow> v = w \<or> suffix v (tl w)"
  by (cases w) (auto simp: suffix_Cons)

text \<open>A coarser set of words can be looked up from the finer one's answer.\<close>

lemma lsuf_refine:
  assumes "Q \<subseteq> P" "[] \<in> Q"
  shows "lsuf Q (lsuf P w) = lsuf Q w"
proof (rule lsuf_unique [symmetric, OF assms(2)])
  show "lsuf Q (lsuf P w) \<in> Q" by (rule lsuf_in [OF assms(2)])
  show "suffix (lsuf Q (lsuf P w)) w"
    using suffix_lsuf suffix_lsuf by (rule suffix_order.trans)
  show "suffix v (lsuf Q (lsuf P w))" if "v \<in> Q" "suffix v w" for v
    using that assms(1) by (intro lsuf_longest) auto
qed

locale prefix_closed =
  fixes P :: "'a list set"
  assumes nil_in: "[] \<in> P"
    and closed: "w @ [c] \<in> P \<Longrightarrow> w \<in> P"
begin

lemma lsuf_step: "lsuf P (lsuf P w @ [c]) = lsuf P (w @ [c])"
proof (rule lsuf_unique [symmetric, OF nil_in])
  let ?u = "lsuf P (lsuf P w @ [c])"
  show "?u \<in> P" by (rule lsuf_in [OF nil_in])
  have "suffix (lsuf P w @ [c]) (w @ [c])" by (simp add: suffix_lsuf)
  with suffix_lsuf show "suffix ?u (w @ [c])" by (rule suffix_order.trans)
  show "suffix v ?u" if v: "v \<in> P" "suffix v (w @ [c])" for v
  proof (rule lsuf_longest [OF v(1)])
    show "suffix v (lsuf P w @ [c])"
    proof (cases v rule: rev_cases)
      case (snoc v' d)
      with v closed [of v' d] show ?thesis by (auto simp: lsuf_longest)
    qed simp
  qed
qed

text \<open>One step of the walk along failure links.\<close>

lemma lsuf_goto:
  assumes "v \<in> P"
  shows "lsuf P (v @ [c]) =
    (if v @ [c] \<in> P then v @ [c] else if v = [] then [] else lsuf P (lsuf P (tl v) @ [c]))"
proof (cases "v @ [c] \<in> P")
  case False
  then have "lsuf P (v @ [c]) = lsuf P (tl (v @ [c]))" by (rule lsuf_tl)
  with False show ?thesis by (cases v) (simp_all add: lsuf_step)
qed (simp add: lsuf_id)

text \<open>The failure link of a child, computed from its parent's.\<close>

lemma lsuf_child: "v \<noteq> [] \<Longrightarrow> lsuf P (tl (v @ [c])) = lsuf P (lsuf P (tl v) @ [c])"
  by (cases v) (simp_all add: lsuf_step)

lemma lsuf_run: "lsuf P (x @ y) = lsuf P (lsuf P x @ y)"
proof (induction y rule: rev_induct)
  case Nil
  show ?case using lsuf_in [OF nil_in] by (simp add: lsuf_id)
next
  case (snoc c y)
  have "lsuf P (x @ y @ [c]) = lsuf P (lsuf P (x @ y) @ [c])"
    using lsuf_step [of "x @ y" c] by simp
  also have "\<dots> = lsuf P (lsuf P (lsuf P x @ y) @ [c])" by (simp add: snoc)
  also have "\<dots> = lsuf P (lsuf P x @ y @ [c])"
    using lsuf_step [of "lsuf P x @ y" c] by simp
  finally show ?case .
qed

end

text \<open>An occurrence of a word ends at some prefix of the text.\<close>

lemma sublist_iff_suffix_take: "sublist l t \<longleftrightarrow> (\<exists>i \<le> length t. suffix l (take i t))"
proof
  assume "sublist l t"
  then obtain p s where t: "t = p @ l @ s" by (auto simp: sublist_def)
  then have "take (length p + length l) t = p @ l" by simp
  then have "suffix l (take (length p + length l) t)" by (simp add: suffix_def)
  moreover have "length p + length l \<le> length t" by (simp add: t)
  ultimately show "\<exists>i \<le> length t. suffix l (take i t)" by blast
next
  assume "\<exists>i \<le> length t. suffix l (take i t)"
  then obtain i p where "take i t = p @ l" by (auto simp: suffix_def)
  then have "t = p @ l @ drop i t" by (metis append_assoc append_take_drop_id)
  then show "sublist l t" unfolding sublist_def by blast
qed

end
