(* ===== verification/PrefilterTrie.thy ===== *)
theory PrefilterTrie
  imports Prefilter SuffixWords
begin

text \<open>
  The builder's trie represents the set of folded prefixes of the literals added so far. \<open>trie b W\<close>
  says that state \<open>s\<close> of the builder stands for the word \<open>W ! s\<close>; the words are a proof device,
  the code has only state numbers.
\<close>

type_synonym lits = "(gobytes \<times> u32) list"

definition trie_words :: "lits \<Rightarrow> gobytes set" where
  "trie_words lits = insert [] {p. \<exists>(l, r) \<in> set lits. prefix p (map fold_byte l)}"

interpretation tw: prefix_closed "trie_words lits" for lits
  by unfold_locales (fastforce simp: trie_words_def dest: append_prefixD)+

definition trie :: "builder \<Rightarrow> gobytes list \<Rightarrow> bool" where
  "trie b W \<longleftrightarrow>
     length (b_children b) = length W \<and> length (b_outputs b) = length W \<and>
     W \<noteq> [] \<and> W ! 0 = [] \<and> distinct W \<and>
     (\<forall>s < length W. distinct (map fst (b_children b ! s))) \<and>
     (\<forall>s < length W. \<forall>c t. (c, t) \<in> set (b_children b ! s) \<longleftrightarrow> t < length W \<and> W ! t = W ! s @ [c]) \<and>
     (\<forall>w c. w @ [c] \<in> set W \<longrightarrow> w \<in> set W)"

lemma trieD:
  assumes "trie b W"
  shows "length (b_children b) = length W" "length (b_outputs b) = length W" "0 < length W"
    "W ! 0 = []" "distinct W" "s < length W \<Longrightarrow> distinct (map fst (b_children b ! s))"
    "s < length W \<Longrightarrow> (c, t) \<in> set (b_children b ! s) \<longleftrightarrow> t < length W \<and> W ! t = W ! s @ [c]"
    "w @ [c] \<in> set W \<Longrightarrow> w \<in> set W"
  using assms by (auto simp: trie_def)

lemma trie_map_of:
  assumes "trie b W" "s < length W"
  shows "map_of (b_children b ! s) c = Some t \<longleftrightarrow> t < length W \<and> W ! t = W ! s @ [c]"
  using trieD(6,7) [OF assms(1)] assms(2) by (metis map_of_is_SomeI map_of_SomeD)

lemma trie_map_of_None:
  assumes "trie b W" "s < length W"
  shows "map_of (b_children b ! s) c = None \<longleftrightarrow> W ! s @ [c] \<notin> set W"
proof
  assume "map_of (b_children b ! s) c = None"
  then show "W ! s @ [c] \<notin> set W"
    using trie_map_of [OF assms, of c] by (auto simp: in_set_conv_nth)
next
  assume "W ! s @ [c] \<notin> set W"
  then have "map_of (b_children b ! s) c \<noteq> Some t" for t
    using trie_map_of [OF assms, of c t] nth_mem [of t W] by metis
  then show "map_of (b_children b ! s) c = None" by (cases "map_of (b_children b ! s) c") auto
qed

lemma trie_NewBuilder: "trie NewBuilder [[]]"
  by (auto simp: trie_def NewBuilder_def builder_newNode_def)

text \<open>A new child state: the word list grows by the parent's word and the byte.\<close>

lemma trie_new_child:
  assumes t: "trie b W" and s: "s < length W" and none: "map_of (b_children b ! s) c = None"
    and nn: "builder_newNode b = (b1, next)"
  defines "b' \<equiv> b1\<lparr>b_children := (b_children b1)[s := (c, next) # b_children b1 ! s]\<rparr>"
  shows "trie b' (W @ [W ! s @ [c]])" and "next = length W"
    and "b_outputs b' = b_outputs b @ [[]]" and "b_patterns b' = b_patterns b"
proof -
  let ?W = "W @ [W ! s @ [c]]"
  note T = trieD [OF t]
  have fresh: "W ! s @ [c] \<notin> set W" using none trie_map_of_None [OF t s] by simp
  show next_eq: "next = length W" and "b_outputs b' = b_outputs b @ [[]]"
    and "b_patterns b' = b_patterns b"
    using nn T(1) by (auto simp: builder_newNode_def b'_def)
  have ch: "b_children b' = (b_children b @ [[]])[s := (c, length W) # b_children b ! s]"
    using nn s T(1) next_eq by (auto simp: builder_newNode_def b'_def nth_append)
  have kid: "b_children b' ! x =
      (if x = s then (c, length W) # b_children b ! s else if x = length W then [] else b_children b ! x)"
    if "x < length ?W" for x
    using that s T(1) by (auto simp: ch nth_append nth_list_update)
  have leaf: "?W ! x \<noteq> W ! s @ [c, d]" if "x < length ?W" for x d
  proof
    assume eq: "?W ! x = W ! s @ [c, d]"
    then have "?W ! x = (W ! s @ [c]) @ [d]" by simp
    moreover have "?W ! x \<in> set ?W" using that by (rule nth_mem)
    ultimately have "(W ! s @ [c]) @ [d] \<in> set W" by auto
    then have "W ! s @ [c] \<in> set W" by (rule T(8))
    with fresh show False by simp
  qed
  have D: "distinct (map fst (b_children b' ! x))" if "x < length ?W" for x
  proof -
    have "c \<notin> fst ` set (b_children b ! s)" using none by (simp add: map_of_eq_None_iff)
    with that T(6) [of x] T(6) [OF s] show ?thesis by (auto simp: kid)
  qed
  have K: "(d, u) \<in> set (b_children b' ! x) \<longleftrightarrow> u < length ?W \<and> ?W ! u = ?W ! x @ [d]"
    if x: "x < length ?W" for x d u
  proof (cases "x = length W")
    case True
    then have "?W ! u \<noteq> ?W ! x @ [d]" if "u < length ?W" using leaf [OF that, of d] by simp
    with True s x show ?thesis by (auto simp: kid)
  next
    case False
    with x have xl: "x < length W" by simp
    have "W ! x @ [d] = W ! s @ [c] \<longleftrightarrow> x = s \<and> d = c"
      using T(5) xl s by (auto simp: nth_eq_iff_index_eq)
    then show ?thesis
      using T(7) [OF xl, of d u] xl s by (auto simp: kid nth_append)
  qed
  have "w \<in> set ?W" if "w @ [d] \<in> set ?W" for w d
    using that T(8) s by auto
  with D K fresh T show "trie b' ?W"
    by (auto simp: trie_def b'_def ch nth_append) (use nn in \<open>auto simp: builder_newNode_def b'_def\<close>)
qed

text \<open>Walking a literal down from state \<open>s\<close> adds the words on its path and ends at the last one.\<close>

lemma add_walk_spec:
  assumes "trie b W" and "s < length W" and "add_walk l s b = (b', s')"
  shows "\<exists>V. trie b' (W @ V) \<and> s' < length (W @ V) \<and> (W @ V) ! s' = W ! s @ map fold_byte l \<and>
    set (W @ V) = set W \<union> {W ! s @ p |p. prefix p (map fold_byte l)} \<and>
    b_outputs b' = b_outputs b @ replicate (length V) [] \<and> b_patterns b' = b_patterns b"
  using assms
proof (induction l arbitrary: b W s)
  case Nil
  then show ?case by (intro exI [of _ "[]"]) (auto simp: insert_absorb)
next
  case (Cons x xs)
  let ?c = "fold_byte x"
  have paths: "{w @ p |p. prefix p (?c # m)} = insert w {(w @ [?c]) @ p |p. prefix p m}"
    for w m
    by (auto simp: prefix_Cons)
  have ws: "insert (W ! s) (set W) = set W" using Cons.prems(2) by (simp add: insert_absorb)
  show ?case
  proof (cases "map_of (b_children b ! s) ?c")
    case (Some t)
    then have t: "t < length W" "W ! t = W ! s @ [?c]"
      using trie_map_of [OF Cons.prems(1,2)] by auto
    have "add_walk xs t b = (b', s')" using Cons.prems(3) Some by (simp add: Let_def)
    from Cons.IH [OF Cons.prems(1) t(1) this] obtain V where
      V: "trie b' (W @ V)" "s' < length (W @ V)" "(W @ V) ! s' = W ! t @ map fold_byte xs"
        "set (W @ V) = set W \<union> {W ! t @ p |p. prefix p (map fold_byte xs)}"
        "b_outputs b' = b_outputs b @ replicate (length V) []" "b_patterns b' = b_patterns b"
      by blast
    have "set (W @ V) = set W \<union> {W ! s @ p |p. prefix p (map fold_byte (x # xs))}"
      using V(4) ws by (simp only: list.map paths t(2)) auto
    with V t(2) show ?thesis by (intro exI [of _ V]) simp
  next
    case None
    obtain b1 next' where nn: "builder_newNode b = (b1, next')" by fastforce
    let ?b = "b1\<lparr>b_children := (b_children b1)[s := (?c, next') # b_children b1 ! s]\<rparr>"
    let ?W = "W @ [W ! s @ [?c]]"
    note N = trie_new_child [OF Cons.prems(1,2) None nn]
    have aw: "add_walk xs next' ?b = (b', s')" using Cons.prems(3) None nn by (simp add: Let_def)
    have lt: "next' < length ?W" and at: "?W ! next' = W ! s @ [?c]" using N(2) by simp_all
    from Cons.IH [OF N(1) lt aw, unfolded at] obtain V where
      V: "trie b' (?W @ V)" "s' < length (?W @ V)"
        "(?W @ V) ! s' = (W ! s @ [?c]) @ map fold_byte xs"
        "set (?W @ V) = set ?W \<union> {(W ! s @ [?c]) @ p |p. prefix p (map fold_byte xs)}"
        "b_outputs b' = b_outputs ?b @ replicate (length V) []" "b_patterns b' = b_patterns ?b"
      by blast
    have "W ! s @ [?c] \<in> {(W ! s @ [?c]) @ p |p. prefix p (map fold_byte xs)}" by force
    then have "set (?W @ V) = set W \<union> {W ! s @ p |p. prefix p (map fold_byte (x # xs))}"
      using V(4) ws by (simp only: list.map paths) auto
    moreover have "?W @ V = W @ (W ! s @ [?c]) # V" by simp
    ultimately have "trie b' (W @ (W ! s @ [?c]) # V)" "s' < length (W @ (W ! s @ [?c]) # V)"
      "(W @ (W ! s @ [?c]) # V) ! s' = W ! s @ map fold_byte (x # xs)"
      "set (W @ (W ! s @ [?c]) # V) = set W \<union> {W ! s @ p |p. prefix p (map fold_byte (x # xs))}"
      using V(1-3) by (simp_all only:) simp_all
    moreover have "b_outputs b' = b_outputs b @ replicate (length ((W ! s @ [?c]) # V)) []"
      "b_patterns b' = b_patterns b"
      using V(5,6) N(3,4) by simp_all
    ultimately show ?thesis by (intro exI [of _ "(W ! s @ [?c]) # V"] conjI)
  qed
qed

section \<open>The builder represents the literals\<close>

definition repr :: "builder \<Rightarrow> gobytes list \<Rightarrow> lits \<Rightarrow> bool" where
  "repr b W lits \<longleftrightarrow> trie b W \<and> set W = trie_words lits \<and>
     (\<forall>s < length W. set (b_outputs b ! s) =
        {r. \<exists>l. (l, r) \<in> set lits \<and> l \<noteq> [] \<and> map fold_byte l = W ! s}) \<and>
     set (b_patterns b) = {l. l \<noteq> [] \<and> (\<exists>r. (l, r) \<in> set lits)}"

lemma repr_NewBuilder: "repr NewBuilder [[]] []"
  using trie_NewBuilder by (simp add: repr_def trie_words_def NewBuilder_def builder_newNode_def)

lemma trie_words_snoc:
  "trie_words (lits @ [(l, r)]) = trie_words lits \<union> {p. prefix p (map fold_byte l)}"
  by (auto simp: trie_words_def)

lemma trie_cong_outputs:
  "trie b W \<Longrightarrow> length outs = length W \<Longrightarrow> trie (b\<lparr>b_outputs := outs\<rparr>) W"
  "trie (b\<lparr>b_patterns := ps\<rparr>) W = trie b W"
  by (simp_all add: trie_def)

lemma repr_Add:
  assumes R: "repr b W lits"
  shows "\<exists>W'. repr (Builder_Add l r b) W' (lits @ [(l, r)])"
proof (cases "l = []")
  case True
  with R show ?thesis
    by (intro exI [of _ W]) (auto simp: Builder_Add_def repr_def trie_words_snoc trie_words_def)
next
  case l: False
  let ?b = "b\<lparr>b_patterns := List.insert l (b_patterns b)\<rparr>"
  from R have t: "trie ?b W" and words: "set W = trie_words lits"
    and outs: "\<And>s. s < length W \<Longrightarrow> set (b_outputs b ! s) =
        {r. \<exists>l. (l, r) \<in> set lits \<and> l \<noteq> [] \<and> map fold_byte l = W ! s}"
    and pats: "set (b_patterns b) = {l. l \<noteq> [] \<and> (\<exists>r. (l, r) \<in> set lits)}"
    by (auto simp: repr_def trie_cong_outputs)
  note T = trieD [OF t]
  obtain b' s' where aw: "add_walk l 0 ?b = (b', s')" by fastforce
  from add_walk_spec [OF t T(3) aw] obtain V where
    V: "trie b' (W @ V)" "s' < length (W @ V)" "(W @ V) ! s' = map fold_byte l"
      "set (W @ V) = set W \<union> {p. prefix p (map fold_byte l)}"
      "b_outputs b' = b_outputs b @ replicate (length V) []" "b_patterns b' = b_patterns ?b"
    using T(4) by auto
  let ?W = "W @ V"
  have old: "set (b_outputs b' ! s) =
      {r. \<exists>l. (l, r) \<in> set lits \<and> l \<noteq> [] \<and> map fold_byte l = ?W ! s}" if s: "s < length ?W" for s
  proof (cases "s < length W")
    case True
    with T(2) show ?thesis using outs [OF True] by (simp add: V(5) nth_append)
  next
    case False
    then have "?W ! s \<notin> set W"
      using s trieD(5) [OF V(1)] by (auto simp: nth_append)
    then have "?W ! s \<notin> trie_words lits" using words by simp
    then have "{r. \<exists>l. (l, r) \<in> set lits \<and> l \<noteq> [] \<and> map fold_byte l = ?W ! s} = {}"
      by (fastforce simp: trie_words_def)
    moreover have "b_outputs b' ! s = []" using False s T(2) by (simp add: V(5) nth_append)
    ultimately show ?thesis by simp
  qed
  let ?o = "if r \<in> set (b_outputs b' ! s') then b_outputs b'
            else (b_outputs b')[s' := b_outputs b' ! s' @ [r]]"
  have eq: "Builder_Add l r b = b'\<lparr>b_outputs := ?o\<rparr>"
    using l aw by (simp add: Builder_Add_def)
  have lo: "length ?o = length ?W" using trieD(2) [OF V(1)] by auto
  have new: "set (?o ! s) = {r'. \<exists>l'. (l', r') \<in> set (lits @ [(l, r)]) \<and> l' \<noteq> [] \<and>
      map fold_byte l' = ?W ! s}" if s: "s < length ?W" for s
  proof -
    have "?W ! s = map fold_byte l \<longleftrightarrow> s = s'"
      using V(2,3) s trieD(5) [OF V(1)] by (metis nth_eq_iff_index_eq)
    then have "{r'. \<exists>l'. (l', r') \<in> set (lits @ [(l, r)]) \<and> l' \<noteq> [] \<and> map fold_byte l' = ?W ! s} =
        set (b_outputs b' ! s) \<union> (if s = s' then {r} else {})"
      using old [OF s] l by auto
    then show ?thesis using V(2) trieD(2) [OF V(1)] by (auto simp: nth_list_update)
  qed
  have "repr (Builder_Add l r b) ?W (lits @ [(l, r)])"
    unfolding repr_def
  proof (intro conjI allI impI)
    show "trie (Builder_Add l r b) ?W" unfolding eq by (rule trie_cong_outputs(1) [OF V(1) lo])
    show "set ?W = trie_words (lits @ [(l, r)])" using V(4) words by (simp add: trie_words_snoc)
    show "set (b_outputs (Builder_Add l r b) ! s) =
        {r'. \<exists>l'. (l', r') \<in> set (lits @ [(l, r)]) \<and> l' \<noteq> [] \<and> map fold_byte l' = ?W ! s}"
      if "s < length ?W" for s
      using new [OF that] by (simp add: eq)
    show "set (b_patterns (Builder_Add l r b)) =
        {l'. l' \<noteq> [] \<and> (\<exists>r'. (l', r') \<in> set (lits @ [(l, r)]))}"
      using pats l by (auto simp: eq V(6))
  qed
  then show ?thesis by blast
qed

lemma repr_add_literals:
  "repr b W lits0 \<Longrightarrow> \<exists>W'. repr (add_literals lits b) W' (lits0 @ lits)"
proof (induction lits arbitrary: b W lits0)
  case (Cons x lits)
  obtain l r where x: "x = (l, r)" by force
  from repr_Add [OF Cons.prems, of l r] obtain W' where
    "repr (Builder_Add l r b) W' (lits0 @ [(l, r)])" by blast
  from Cons.IH [OF this] show ?case by (simp add: x add_literals_def)
qed (auto simp: add_literals_def)

lemma repr_lits: "\<exists>W. repr (add_literals lits NewBuilder) W lits"
  using repr_add_literals [OF repr_NewBuilder, of lits] by simp

end
