(* ===== verification/PrefilterLinks.thy ===== *)
theory PrefilterLinks
  imports PrefilterTrie "HOL-Library.Multiset"
begin

text \<open>
  \<open>Build\<close> on a trie: the flattened arrays answer \<open>child\<close> as the builder's maps do, and the
  breadth-first pass ends with every failure and dictionary link pointing to the longest suffix
  its comment promises.
\<close>

definition map_order_ok :: "map_order \<Rightarrow> bool" where
  "map_order_ok ord \<longleftrightarrow> (\<forall>s ks. mset (ord s ks) = mset ks)"

lemma map_order_perm:
  assumes "map_order_ok ord"
  shows "set (ord s ks) = set ks" "length (ord s ks) = length ks"
    "distinct (map fst (ord s ks)) = distinct (map fst ks)"
    "distinct (map snd (ord s ks)) = distinct (map snd ks)"
proof -
  have m: "mset (ord s ks) = mset ks" using assms by (simp add: map_order_ok_def)
  show "set (ord s ks) = set ks" using m by (rule mset_eq_setD)
  show "length (ord s ks) = length ks" using m by (rule mset_eq_length)
  from m show "distinct (map fst (ord s ks)) = distinct (map fst ks)"
    "distinct (map snd (ord s ks)) = distinct (map snd ks)"
    by (auto intro!: mset_eq_imp_distinct_iff)
qed

section \<open>Flattening\<close>

lemma child_loop_slice:
  assumes "i + k \<le> length bs" "length ns = length bs" "sorted (take k (drop i bs))"
  shows "child_loop bs ns c i k = map_of (zip (take k (drop i bs)) (take k (drop i ns))) c"
  using assms
proof (induction k arbitrary: i)
  case (Suc k)
  then have i: "i < length bs" by simp
  then have d: "drop i bs = bs ! i # drop (Suc i) bs" "drop i ns = ns ! i # drop (Suc i) ns"
    using Suc.prems(2) by (simp_all add: Cons_nth_drop_Suc)
  have srt: "sorted (take k (drop (Suc i) bs))" "\<forall>b \<in> set (take k (drop (Suc i) bs)). bs ! i \<le> b"
    using Suc.prems(3) by (simp_all add: d(1))
  have none: "map_of (zip (take k (drop (Suc i) bs)) (take k (drop (Suc i) ns))) c = None"
    if c: "c < bs ! i"
  proof -
    from srt(2) c have "c \<notin> set (take k (drop (Suc i) bs))" by (meson leD)
    then show ?thesis by (metis map_of_SomeD not_None_eq set_zip_leftD)
  qed
  have "child_loop bs ns c (Suc i) k =
      map_of (zip (take k (drop (Suc i) bs)) (take k (drop (Suc i) ns))) c"
    using Suc.prems srt by (intro Suc.IH) auto
  then show ?case by (simp add: d none)
qed simp

definition flat_node :: "map_order \<Rightarrow> builder \<Rightarrow> automaton \<Rightarrow> nat \<Rightarrow> bool" where
  "flat_node ord b a s \<longleftrightarrow>
     childCount (ac_nodes a ! s) = length (b_children b ! s) \<and>
     childStart (ac_nodes a ! s) + length (b_children b ! s) \<le> length (childBytes a) \<and>
     take (length (b_children b ! s)) (drop (childStart (ac_nodes a ! s)) (childBytes a)) =
       sort (map fst (ord s (b_children b ! s))) \<and>
     take (length (b_children b ! s)) (drop (childStart (ac_nodes a ! s)) (childNext a)) =
       map (kid_get (b_children b ! s)) (sort (map fst (ord s (b_children b ! s))))"

definition flat :: "map_order \<Rightarrow> builder \<Rightarrow> nat \<Rightarrow> automaton \<Rightarrow> bool" where
  "flat ord b k a \<longleftrightarrow>
     length (ac_nodes a) = length (b_children b) \<and> length (childNext a) = length (childBytes a) \<and>
     (\<forall>s < k. flat_node ord b a s)"

lemma flat_Suc:
  assumes ord: "map_order_ok ord" and f: "flat ord b k a" and k: "k < length (b_children b)"
  shows "flat ord b (Suc k) (flatten_kids ord b k a)"
proof -
  let ?a = "flatten_kids ord b k a"
  let ?ks = "b_children b ! k"
  let ?labels = "sort (map fst (ord k ?ks))"
  have len: "length ?labels = length ?ks" using map_order_perm(2) [OF ord] by simp
  have emp: "?labels = []" if "?ks = []" using len that by (metis length_0_conv)
  have nodes: "ac_nodes ?a = (ac_nodes a)[k := (ac_nodes a ! k)
      \<lparr>childStart := length (childBytes a), childCount := length ?ks\<rparr>]"
    by (simp add: flatten_kids_def Let_def)
  have bytes: "childBytes ?a = childBytes a @ ?labels"
    and nexts: "childNext ?a = childNext a @ map (kid_get ?ks) ?labels"
    using emp by (simp_all add: flatten_kids_def Let_def)
  from f have L: "length (ac_nodes a) = length (b_children b)"
    "length (childNext a) = length (childBytes a)"
    by (simp_all add: flat_def)
  have "flat_node ord b ?a s" if s: "s < Suc k" for s
  proof (cases "s = k")
    case True
    with k L len show ?thesis by (simp add: flat_node_def nodes bytes nexts)
  next
    case False
    with s f have "flat_node ord b a s" by (simp add: flat_def)
    with False L show ?thesis by (auto simp: flat_node_def nodes bytes nexts)
  qed
  then show ?thesis by (simp add: flat_def nodes bytes nexts L)
qed

lemma flat_fold:
  assumes "map_order_ok ord" "flat ord b 0 a" "k \<le> length (b_children b)"
  shows "flat ord b k (fold (flatten_kids ord b) [0..<k] a)"
  using assms(3) by (induction k) (simp_all add: assms(2) flat_Suc [OF assms(1)])

text \<open>Arrays and builder agree: what the scans need of the automaton besides its links.\<close>

definition static :: "builder \<Rightarrow> automaton \<Rightarrow> bool" where
  "static b a \<longleftrightarrow>
     length (ac_nodes a) = length (b_children b) \<and> length (rootNext a) = 256 \<and>
     (\<forall>s < length (b_children b). (\<forall>c. child a s c = map_of (b_children b ! s) c) \<and>
        node_outputs a s = b_outputs b ! s \<and>
        outCount (ac_nodes a ! s) = length (b_outputs b ! s))"

lemma staticD:
  assumes "static b a"
  shows "length (ac_nodes a) = length (b_children b)" "length (rootNext a) = 256"
    "s < length (b_children b) \<Longrightarrow> child a s c = map_of (b_children b ! s) c"
    "s < length (b_children b) \<Longrightarrow> node_outputs a s = b_outputs b ! s"
    "s < length (b_children b) \<Longrightarrow> outCount (ac_nodes a ! s) = length (b_outputs b ! s)"
  using assms by (auto simp: static_def)

lemma map_of_labels:
  assumes "distinct (map fst ks)" "set labels = fst ` set ks"
  shows "map_of (zip labels (map (kid_get ks) labels)) c = map_of ks c"
proof (cases "c \<in> set labels")
  case True
  then have "map_of (zip labels (map (kid_get ks) labels)) c = Some (kid_get ks c)"
    by (simp add: map_of_zip_map)
  moreover obtain t where "map_of ks c = Some t"
    using True assms(2) by (metis map_of_eq_None_iff not_None_eq)
  ultimately show ?thesis by (simp add: kid_get_def)
next
  case False
  then have "map_of ks c = None" using assms(2) by (simp add: map_of_eq_None_iff)
  with False show ?thesis by (simp add: map_of_zip_map)
qed

lemma flat_child:
  assumes ord: "map_order_ok ord" and f: "flat ord b n a" and s: "s < n"
    and d: "distinct (map fst (b_children b ! s))"
  shows "child a s c = map_of (b_children b ! s) c"
proof -
  let ?nd = "ac_nodes a ! s"
  let ?ks = "b_children b ! s"
  let ?labels = "sort (map fst (ord s ?ks))"
  from f s have "flat_node ord b a s" and F4: "length (childNext a) = length (childBytes a)"
    by (simp_all add: flat_def)
  then have F: "childStart ?nd + childCount ?nd \<le> length (childBytes a)"
    "take (childCount ?nd) (drop (childStart ?nd) (childBytes a)) = ?labels"
    "take (childCount ?nd) (drop (childStart ?nd) (childNext a)) = map (kid_get ?ks) ?labels"
    by (simp_all add: flat_node_def)
  have "set ?labels = fst ` set ?ks" using map_order_perm(1) [OF ord] by simp
  then have "map_of (zip ?labels (map (kid_get ?ks) ?labels)) c = map_of ?ks c"
    by (rule map_of_labels [OF d])
  then show ?thesis
    using child_loop_slice [OF F(1) F4, of c] by (simp add: child_def Let_def F(2,3))
qed

definition oflat :: "builder \<Rightarrow> nat \<Rightarrow> automaton \<Rightarrow> bool" where
  "oflat b k a \<longleftrightarrow> length (ac_nodes a) = length (b_outputs b) \<and>
     (\<forall>s < k. outCount (ac_nodes a ! s) = length (b_outputs b ! s) \<and>
        outStart (ac_nodes a ! s) + length (b_outputs b ! s) \<le> length (ac_outputs a) \<and>
        take (length (b_outputs b ! s)) (drop (outStart (ac_nodes a ! s)) (ac_outputs a)) =
          b_outputs b ! s)"

lemma oflat_Suc:
  assumes "oflat b k a" and "k < length (b_outputs b)"
  shows "oflat b (Suc k) (flatten_outputs b k a)"
  using assms unfolding oflat_def
  by (auto simp: flatten_outputs_def Let_def less_Suc_eq nth_list_update)

lemma oflat_fold:
  assumes "oflat b 0 a" "k \<le> length (b_outputs b)"
  shows "oflat b k (fold (flatten_outputs b) [0..<k] a)"
  using assms(2) by (induction k) (simp_all add: assms(1) oflat_Suc)

lemma node_update_frame:
  assumes "length (ac_nodes a') = length (ac_nodes a)"
    and "\<And>s. s < length (ac_nodes a) \<Longrightarrow> childStart (ac_nodes a' ! s) = childStart (ac_nodes a ! s) \<and>
      childCount (ac_nodes a' ! s) = childCount (ac_nodes a ! s)"
    and "childBytes a' = childBytes a" "childNext a' = childNext a" "s < length (ac_nodes a)"
  shows "child a' s c = child a s c"
  using assms by (simp add: child_def Let_def)

lemma flatten_outputs_frame [frame_simps]:
  "length (ac_nodes (flatten_outputs b k a)) = length (ac_nodes a)"
  "s < length (ac_nodes a) \<Longrightarrow> child (flatten_outputs b k a) s c = child a s c"
  "s < length (ac_nodes a) \<Longrightarrow> fail_link (ac_nodes (flatten_outputs b k a) ! s) = fail_link (ac_nodes a ! s)"
  "s < length (ac_nodes a) \<Longrightarrow> dictLink (ac_nodes (flatten_outputs b k a) ! s) = dictLink (ac_nodes a ! s)"
  "rootNext (flatten_outputs b k a) = rootNext a"
  "ac_patterns (flatten_outputs b k a) = ac_patterns a"
  by (auto simp: flatten_outputs_def Let_def nth_update_if intro!: node_update_frame)

lemma flatten_kids_frame [frame_simps]:
  "length (ac_nodes (flatten_kids ord b k a)) = length (ac_nodes a)"
  "s < length (ac_nodes a) \<Longrightarrow> fail_link (ac_nodes (flatten_kids ord b k a) ! s) = fail_link (ac_nodes a ! s)"
  "s < length (ac_nodes a) \<Longrightarrow> dictLink (ac_nodes (flatten_kids ord b k a) ! s) = dictLink (ac_nodes a ! s)"
  "rootNext (flatten_kids ord b k a) = rootNext a"
  "ac_patterns (flatten_kids ord b k a) = ac_patterns a"
  by (auto simp: flatten_kids_def Let_def nth_update_if)

lemma fold_flatten_outputs_frame [frame_simps]:
  "length (ac_nodes (fold (flatten_outputs b) ks a)) = length (ac_nodes a)"
  "s < length (ac_nodes a) \<Longrightarrow> child (fold (flatten_outputs b) ks a) s c = child a s c"
  "s < length (ac_nodes a) \<Longrightarrow>
     fail_link (ac_nodes (fold (flatten_outputs b) ks a) ! s) = fail_link (ac_nodes a ! s)"
  "s < length (ac_nodes a) \<Longrightarrow>
     dictLink (ac_nodes (fold (flatten_outputs b) ks a) ! s) = dictLink (ac_nodes a ! s)"
  "rootNext (fold (flatten_outputs b) ks a) = rootNext a"
  "ac_patterns (fold (flatten_outputs b) ks a) = ac_patterns a"
  by (induction ks arbitrary: a) (simp_all add: frame_simps)

lemma fold_flatten_kids_frame [frame_simps]:
  "length (ac_nodes (fold (flatten_kids ord b) ks a)) = length (ac_nodes a)"
  "s < length (ac_nodes a) \<Longrightarrow>
     fail_link (ac_nodes (fold (flatten_kids ord b) ks a) ! s) = fail_link (ac_nodes a ! s)"
  "s < length (ac_nodes a) \<Longrightarrow>
     dictLink (ac_nodes (fold (flatten_kids ord b) ks a) ! s) = dictLink (ac_nodes a ! s)"
  "rootNext (fold (flatten_kids ord b) ks a) = rootNext a"
  "ac_patterns (fold (flatten_kids ord b) ks a) = ac_patterns a"
  by (induction ks arbitrary: a) (simp_all add: frame_simps)

text \<open>\<open>Build\<close> before \<open>buildLinks\<close>.\<close>

definition flattened :: "map_order \<Rightarrow> builder \<Rightarrow> automaton" where
  "flattened ord b =
     fold (flatten_outputs b) [0..<length (b_outputs b)]
       (fold (flatten_kids ord b) [0..<length (b_children b)]
         \<lparr>ac_nodes = replicate (length (b_children b)) ac_node_zero, childBytes = [],
          childNext = [], ac_outputs = [], rootNext = replicate 256 0,
          ac_patterns = length (b_patterns b)\<rparr>)"

lemma Build_eq: "Builder_Build ord b = buildLinks ord b (flattened ord b)"
  by (simp add: Builder_Build_def flattened_def Let_def)

lemma flattened_spec:
  assumes ord: "map_order_ok ord" and t: "trie b W"
  shows "static b (flattened ord b)"
    and "s < length W \<Longrightarrow> fail_link (ac_nodes (flattened ord b) ! s) = 0"
    and "s < length W \<Longrightarrow> dictLink (ac_nodes (flattened ord b) ! s) = 0"
    and "rootNext (flattened ord b) = replicate 256 0"
    and "ac_patterns (flattened ord b) = length (b_patterns b)"
proof -
  let ?n = "length (b_children b)"
  let ?z = "\<lparr>ac_nodes = replicate ?n ac_node_zero, childBytes = [], childNext = [],
             ac_outputs = [], rootNext = replicate 256 0, ac_patterns = length (b_patterns b)\<rparr>"
  let ?k = "fold (flatten_kids ord b) [0..<?n] ?z"
  note T = trieD [OF t]
  have fk: "flat ord b ?n ?k" by (rule flat_fold [OF ord]) (simp_all add: flat_def)
  have ck: "child ?k s c = map_of (b_children b ! s) c" if "s < ?n" for s c
    using flat_child [OF ord fk that] T(1,6) that by simp
  have of: "oflat b (length (b_outputs b)) (flattened ord b)"
    unfolding flattened_def by (rule oflat_fold) (simp_all add: oflat_def frame_simps T)
  show "static b (flattened ord b)"
    unfolding static_def
  proof (intro conjI allI impI)
    show "length (ac_nodes (flattened ord b)) = ?n" "length (rootNext (flattened ord b)) = 256"
      by (simp_all add: flattened_def frame_simps)
    fix s assume s: "s < ?n"
    show "child (flattened ord b) s c = map_of (b_children b ! s) c" for c
      using s ck by (simp add: flattened_def frame_simps)
    show "node_outputs (flattened ord b) s = b_outputs b ! s"
      "outCount (ac_nodes (flattened ord b) ! s) = length (b_outputs b ! s)"
      using of s T by (auto simp: oflat_def node_outputs_def Let_def)
  qed
  show "fail_link (ac_nodes (flattened ord b) ! s) = 0"
    "dictLink (ac_nodes (flattened ord b) ! s) = 0" if "s < length W"
    using that T(1) by (simp_all add: flattened_def frame_simps ac_node_zero_def)
  show "rootNext (flattened ord b) = replicate 256 0"
    "ac_patterns (flattened ord b) = length (b_patterns b)"
    by (simp_all add: flattened_def frame_simps)
qed

end
