(* ===== verification/PrefilterCorrect.thy ===== *)
theory PrefilterCorrect
  imports PrefilterLinks
begin

text \<open>
  Correctness of the automaton. \<open>linked\<close> is what the comments on \<open>fail\<close> and \<open>dictLink\<close> say; the
  breadth-first loop establishes it for every state (\<open>Build_links\<close>), and with it one pass over
  the input ends, at each position, in the state of the longest suffix that is in the trie, and
  emits the outputs of every literal ending there (\<open>Scan_exact\<close>, \<open>MatchAny_exact\<close>).
\<close>

text \<open>The literals with an output, and the empty word.\<close>

definition out_words :: "lits \<Rightarrow> gobytes set" where
  "out_words lits = insert [] {map fold_byte l |l r. (l, r) \<in> set lits \<and> l \<noteq> []}"

lemma out_words_sub: "out_words lits \<subseteq> trie_words lits"
  by (auto simp: out_words_def trie_words_def)

definition linked :: "lits \<Rightarrow> gobytes list \<Rightarrow> automaton \<Rightarrow> nat \<Rightarrow> bool" where
  "linked lits W a s \<longleftrightarrow>
     fail_link (ac_nodes a ! s) < length W \<and> dictLink (ac_nodes a ! s) < length W \<and>
     W ! fail_link (ac_nodes a ! s) = lsuf (trie_words lits) (tl (W ! s)) \<and>
     W ! dictLink (ac_nodes a ! s) = lsuf (out_words lits) (tl (W ! s))"

definition root_ok :: "lits \<Rightarrow> gobytes list \<Rightarrow> automaton \<Rightarrow> bool" where
  "root_ok lits W a \<longleftrightarrow>
     (\<forall>c. rootNext a ! unat c < length W \<and> W ! (rootNext a ! unat c) = lsuf (trie_words lits) [c])"

text \<open>The facts about a represented builder that the proofs below share.\<close>

lemma reprD:
  assumes "repr b W lits"
  shows "trie b W" "set W = trie_words lits" "length (b_children b) = length W"
    "0 < length W" "W ! 0 = []" "distinct W" "s < length W \<Longrightarrow> W ! s \<in> trie_words lits"
    "s < length W \<Longrightarrow> set (b_outputs b ! s) =
       {r. \<exists>l. (l, r) \<in> set lits \<and> l \<noteq> [] \<and> map fold_byte l = W ! s}"
    "set (b_patterns b) = {l. l \<noteq> [] \<and> (\<exists>r. (l, r) \<in> set lits)}"
  using assms trieD [of b W] nth_mem [of s W] by (auto simp: repr_def)

lemma repr_zero:
  assumes "repr b W lits" "s < length W"
  shows "W ! s = [] \<longleftrightarrow> s = 0"
  using reprD(4-6) [OF assms(1)] assms(2) by (metis nth_eq_iff_index_eq)

lemma repr_child:
  assumes "repr b W lits" "static b a" "s < length W"
  shows "child a s c = Some t \<longleftrightarrow> t < length W \<and> W ! t = W ! s @ [c]"
    and "child a s c = None \<longleftrightarrow> W ! s @ [c] \<notin> trie_words lits"
  using trie_map_of [OF reprD(1) [OF assms(1)] assms(3)]
    trie_map_of_None [OF reprD(1) [OF assms(1)] assms(3)]
    staticD(3) [OF assms(2)] reprD(2,3) [OF assms(1)] assms(3)
  by simp_all

lemma repr_state:
  assumes "repr b W lits" "w \<in> trie_words lits"
  obtains s where "s < length W" "W ! s = w"
  using assms reprD(2) [OF assms(1)] by (metis in_set_conv_nth)

lemma lsuf_trie: "lsuf (trie_words lits) w \<in> trie_words lits"
  by (rule lsuf_in [OF tw.nil_in])

section \<open>The walks along failure links\<close>

lemma link_walk_spec:
  assumes R: "repr b W lits" and st: "static b a" and v: "v < length W"
    and link: "\<And>s. s < length W \<Longrightarrow> length (W ! s) \<le> d \<Longrightarrow> linked lits W a s"
    and f: "f < length W" "length (W ! f) \<le> d" "length (W ! f) + 1 < length (W ! v)"
  shows "\<exists>t. link_walk a f c v = Some t \<and> t < length W \<and>
    W ! t = lsuf (trie_words lits) (W ! f @ [c])"
  using f
proof (induction "length (W ! f)" arbitrary: f rule: less_induct)
  case less
  note ch = repr_child [OF R st less.prems(1), of c]
  have inP: "W ! f \<in> trie_words lits" using reprD(7) [OF R less.prems(1)] .
  show ?case
  proof (cases "child a f c")
    case (Some t)
    with ch(1) have t: "t < length W" "W ! t = W ! f @ [c]" by auto
    then have "t \<noteq> v" using less.prems(3) by auto
    moreover have "W ! t \<in> trie_words lits" using reprD(7) [OF R t(1)] .
    ultimately show ?thesis using Some t
      by (subst link_walk.simps) (simp add: tw.lsuf_goto [OF inP])
  next
    case None
    with ch(2) have no: "W ! f @ [c] \<notin> trie_words lits" by simp
    show ?thesis
    proof (cases "f = 0")
      case True
      with None no reprD(4,5) [OF R] show ?thesis
        by (subst link_walk.simps) (simp add: tw.lsuf_goto [OF inP])
    next
      case False
      let ?g = "fail_link (ac_nodes a ! f)"
      have ne: "W ! f \<noteq> []" using False repr_zero [OF R less.prems(1)] by simp
      have lk: "linked lits W a f" using link less.prems by simp
      then have g: "?g < length W" "W ! ?g = lsuf (trie_words lits) (tl (W ! f))"
        by (simp_all add: linked_def)
      have lt: "length (W ! ?g) < length (W ! f)"
        using length_lsuf [of "trie_words lits" "tl (W ! f)"] ne g(2) by (cases "W ! f") auto
      obtain t where "link_walk a ?g c v = Some t" "t < length W"
        "W ! t = lsuf (trie_words lits) (W ! ?g @ [c])"
        using less.hyps [OF lt g(1)] lt less.prems by auto
      then show ?thesis using None False no ne g(2)
        by (subst link_walk.simps) (simp add: tw.lsuf_goto [OF inP])
    qed
  qed
qed

lemma goto_loop_spec:
  assumes R: "repr b W lits" and st: "static b a" and rt: "root_ok lits W a"
    and link: "\<And>s. s < length W \<Longrightarrow> linked lits W a s" and s: "s < length W"
  shows "\<exists>t. goto_loop a s c = Some t \<and> t < length W \<and>
    W ! t = lsuf (trie_words lits) (W ! s @ [c])"
  using s
proof (induction "length (W ! s)" arbitrary: s rule: less_induct)
  case less
  note ch = repr_child [OF R st less.prems, of c]
  have inP: "W ! s \<in> trie_words lits" using reprD(7) [OF R less.prems] .
  let ?g = "fail_link (ac_nodes a ! s)"
  from link [OF less.prems] have g: "?g < length W" "W ! ?g = lsuf (trie_words lits) (tl (W ! s))"
    by (simp_all add: linked_def)
  show ?case
  proof (cases "child a s c")
    case (Some t)
    with ch(1) have t: "t < length W" "W ! t = W ! s @ [c]" by auto
    moreover have "W ! t \<in> trie_words lits" using reprD(7) [OF R t(1)] .
    ultimately show ?thesis using Some
      by (subst goto_loop.simps) (simp add: tw.lsuf_goto [OF inP])
  next
    case None
    with ch(2) have no: "W ! s @ [c] \<notin> trie_words lits" by simp
    show ?thesis
    proof (cases "?g = 0")
      case True
      then have "lsuf (trie_words lits) (tl (W ! s)) = []" using g reprD(5) [OF R] by simp
      then have "lsuf (trie_words lits) (W ! s @ [c]) = lsuf (trie_words lits) [c]"
        using tw.lsuf_goto [OF inP, of c] no by (auto simp: tw.lsuf_goto [OF inP])
      with None True rt show ?thesis by (subst goto_loop.simps) (simp add: root_ok_def Let_def)
    next
      case False
      have "W ! ?g \<noteq> []" using False repr_zero [OF R g(1)] by simp
      then have ne: "W ! s \<noteq> []" using g(2) by (cases "W ! s") auto
      have lt: "length (W ! ?g) < length (W ! s)"
        using length_lsuf [of "trie_words lits" "tl (W ! s)"] ne g(2) by (cases "W ! s") auto
      from less.hyps [OF lt g(1)] obtain t where "goto_loop a ?g c = Some t" "t < length W"
        "W ! t = lsuf (trie_words lits) (W ! ?g @ [c])" by auto
      then show ?thesis using None False no ne g(2)
        by (subst goto_loop.simps) (simp add: tw.lsuf_goto [OF inP] Let_def)
    qed
  qed
qed

section \<open>The breadth-first pass\<close>

lemma set_link_frame [frame_simps]:
  "length (ac_nodes (set_fail v f a)) = length (ac_nodes a)"
  "length (ac_nodes (set_dict v f a)) = length (ac_nodes a)"
  "rootNext (set_fail v f a) = rootNext a" "rootNext (set_dict v f a) = rootNext a"
  "ac_patterns (set_fail v f a) = ac_patterns a" "ac_patterns (set_dict v f a) = ac_patterns a"
  by (simp_all add: set_fail_def set_dict_def)

lemma static_set_link:
  "static b a \<Longrightarrow> static b (set_fail v f a)" "static b a \<Longrightarrow> static b (set_dict v f a)"
  by (auto simp: static_def child_def node_outputs_def set_fail_def set_dict_def Let_def nth_update_if)

lemma link_dict_eq:
  "link_dict v a = set_dict v (if 0 < outCount (ac_nodes a ! fail_link (ac_nodes a ! v))
     then fail_link (ac_nodes a ! v) else dictLink (ac_nodes a ! fail_link (ac_nodes a ! v))) a"
  by (simp add: link_dict_def Let_def)

lemma link_state_nodes:
  assumes "v < length (ac_nodes a)" "f \<noteq> v"
  shows "fail_link (ac_nodes (link_dict v (set_fail v f a)) ! s) =
      (if s = v then f else fail_link (ac_nodes a ! s))"
    and "dictLink (ac_nodes (link_dict v (set_fail v f a)) ! s) =
      (if s = v then if 0 < outCount (ac_nodes a ! f) then f else dictLink (ac_nodes a ! f)
       else dictLink (ac_nodes a ! s))"
  using assms by (auto simp: link_dict_eq set_dict_def set_fail_def nth_update_if)

text \<open>A state carries outputs exactly when its word is a literal.\<close>

lemma repr_outs:
  assumes "repr b W lits" "s < length W"
  shows "b_outputs b ! s \<noteq> [] \<longleftrightarrow> W ! s \<in> out_words lits - {[]}"
proof -
  have "b_outputs b ! s \<noteq> [] \<longleftrightarrow> (\<exists>r. r \<in> set (b_outputs b ! s))" by (cases "b_outputs b ! s") auto
  also have "\<dots> \<longleftrightarrow> (\<exists>r l. (l, r) \<in> set lits \<and> l \<noteq> [] \<and> map fold_byte l = W ! s)"
    by (simp add: reprD(8) [OF assms])
  also have "\<dots> \<longleftrightarrow> W ! s \<in> {map fold_byte l |l r. (l, r) \<in> set lits \<and> l \<noteq> []}"
    by (simp, metis)
  also have "\<dots> \<longleftrightarrow> W ! s \<in> out_words lits - {[]}" by (auto simp: out_words_def)
  finally show ?thesis .
qed

lemma dict_step:
  assumes R: "repr b W lits" and st: "static b a" and f: "f < length W"
    and lk: "linked lits W a f" and wf: "W ! f = lsuf (trie_words lits) u"
  shows "let d = (if 0 < outCount (ac_nodes a ! f) then f else dictLink (ac_nodes a ! f)) in
    d < length W \<and> W ! d = lsuf (out_words lits) u"
proof -
  have oc: "0 < outCount (ac_nodes a ! f) \<longleftrightarrow> W ! f \<in> out_words lits - {[]}"
    using staticD(5) [OF st, of f] reprD(3) [OF R] f repr_outs [OF R f] by simp
  have nilQ: "[] \<in> out_words lits" by (simp add: out_words_def)
  have u: "lsuf (out_words lits) u = lsuf (out_words lits) (W ! f)"
    unfolding wf by (rule lsuf_refine [OF out_words_sub nilQ, symmetric])
  show ?thesis
  proof (cases "0 < outCount (ac_nodes a ! f)")
    case True
    with oc f u show ?thesis by (simp add: lsuf_id)
  next
    case False
    from lk have d: "dictLink (ac_nodes a ! f) < length W"
      "W ! dictLink (ac_nodes a ! f) = lsuf (out_words lits) (tl (W ! f))"
      by (simp_all add: linked_def)
    have "lsuf (out_words lits) (W ! f) = lsuf (out_words lits) (tl (W ! f))"
      using False oc by (cases "W ! f") auto
    with False d u show ?thesis by simp
  qed
qed

lemma link_kids_spec:
  assumes R: "repr b W lits" and "static b a" and u: "u < length W" "u \<noteq> 0"
    and "\<And>s. s < length W \<Longrightarrow> length (W ! s) \<le> length (W ! u) \<Longrightarrow> linked lits W a s"
    and "\<And>c v. (c, v) \<in> set ks \<Longrightarrow> v < length W \<and> W ! v = W ! u @ [c]"
  shows "\<exists>a'. link_kids u ks a q = Some (a', q @ map snd ks) \<and> static b a' \<and>
    rootNext a' = rootNext a \<and> ac_patterns a' = ac_patterns a \<and>
    (\<forall>s < length W. linked lits W a s \<or> s \<in> snd ` set ks \<longrightarrow> linked lits W a' s)"
  using assms(2,5,6)
proof (induction ks arbitrary: a q)
  case (Cons k ks)
  obtain c v where k: "k = (c, v)" by force
  have v: "v < length W" "W ! v = W ! u @ [c]" using Cons.prems(3) by (auto simp: k)
  have ne: "W ! u \<noteq> []" using repr_zero [OF R u(1)] u(2) by simp
  let ?f0 = "fail_link (ac_nodes a ! u)"
  have "linked lits W a u" using Cons.prems(2) [OF u(1)] by simp
  then have f0: "?f0 < length W" "W ! ?f0 = lsuf (trie_words lits) (tl (W ! u))"
    by (simp_all add: linked_def)
  have "length (W ! ?f0) < length (W ! u)"
    using length_lsuf [of "trie_words lits" "tl (W ! u)"] f0(2) ne by (cases "W ! u") auto
  then obtain f where lw: "link_walk a ?f0 c v = Some f" and f: "f < length W"
    "W ! f = lsuf (trie_words lits) (W ! ?f0 @ [c])"
    using link_walk_spec [OF R Cons.prems(1) v(1) Cons.prems(2) f0(1), of "length (W ! u)" c] v(2)
    by auto
  have wf: "W ! f = lsuf (trie_words lits) (tl (W ! v))"
    using f(2) f0(2) v(2) tw.lsuf_child [OF ne] by simp
  have lf: "length (W ! f) \<le> length (W ! u)"
    using length_lsuf [of "trie_words lits" "tl (W ! v)"] wf v(2) by simp
  then have fv: "f \<noteq> v" using v(2) by auto
  have vn: "v < length (ac_nodes a)" using v(1) staticD(1) [OF Cons.prems(1)] reprD(3) [OF R] by simp
  let ?a = "link_dict v (set_fail v f a)"
  have st: "static b ?a" unfolding link_dict_eq
    by (intro static_set_link Cons.prems(1))
  have fr: "rootNext ?a = rootNext a" "ac_patterns ?a = ac_patterns a"
    by (simp_all add: link_dict_eq frame_simps)
  have "linked lits W a f" by (rule Cons.prems(2) [OF f(1) lf])
  from dict_step [OF R Cons.prems(1) f(1) this wf]
  have lv: "linked lits W ?a v"
    using f(1) wf by (simp add: linked_def link_state_nodes [OF vn fv] Let_def)
  have keep: "linked lits W ?a s" if "linked lits W a s" "s < length W" for s
    using that lv by (cases "s = v") (simp_all add: linked_def link_state_nodes [OF vn fv])
  have IH2: "linked lits W ?a s" if "s < length W" "length (W ! s) \<le> length (W ! u)" for s
    using Cons.prems(2) [OF that] that(1) by (rule keep)
  have IH3: "v < length W \<and> W ! v = W ! u @ [c]" if "(c, v) \<in> set ks" for c v
    using Cons.prems(3) [of c v] that by simp
  have "link_kids u (k # ks) a q = link_kids u ks ?a (q @ [v])" by (simp add: k lw)
  moreover obtain a' where "link_kids u ks ?a (q @ [v]) = Some (a', (q @ [v]) @ map snd ks)"
      "static b a'" "rootNext a' = rootNext ?a" "ac_patterns a' = ac_patterns ?a"
      "\<forall>s < length W. linked lits W ?a s \<or> s \<in> snd ` set ks \<longrightarrow> linked lits W a' s"
    using Cons.IH [OF st IH2 IH3, of "q @ [v]"] by blast
  ultimately show ?case using keep lv fr by (auto simp: k)
qed simp

text \<open>The loop's invariant: \<open>D\<close> is the set of processed states, \<open>q\<close> the queue from \<open>head\<close> on.\<close>

definition bfs_inv :: "lits \<Rightarrow> builder \<Rightarrow> gobytes list \<Rightarrow> nat set \<Rightarrow> nat list \<Rightarrow> automaton \<Rightarrow> bool" where
  "bfs_inv lits b W D q a \<longleftrightarrow>
     static b a \<and> root_ok lits W a \<and> D \<union> set q \<subseteq> {0<..<length W} \<and> distinct q \<and> D \<inter> set q = {} \<and>
     (\<forall>s < length W. length (W ! s) = 1 \<longrightarrow> s \<in> D \<union> set q) \<and>
     (\<forall>s < length W. \<forall>t < length W. \<forall>c. W ! t = W ! s @ [c] \<and> s \<noteq> 0 \<longrightarrow> (s \<in> D \<longleftrightarrow> t \<in> D \<union> set q)) \<and>
     sorted (map (\<lambda>s. length (W ! s)) q) \<and>
     (\<forall>s \<in> set q. length (W ! s) \<le> length (W ! hd q) + 1) \<and>
     (\<forall>s \<in> insert 0 (D \<union> set q). linked lits W a s)"

lemma bfs_reach:
  assumes R: "repr b W lits" and I: "bfs_inv lits b W D q a"
    and s: "s < length W" "s \<noteq> 0" and q: "\<And>t. t \<in> set q \<Longrightarrow> length (W ! s) \<le> length (W ! t)"
  shows "s \<in> D \<union> set q"
  using s q
proof (induction "length (W ! s)" arbitrary: s rule: less_induct)
  case less
  have ne: "W ! s \<noteq> []" using repr_zero [OF R less.prems(1)] less.prems(2) by simp
  then obtain w c where wc: "W ! s = w @ [c]" by (metis append_butlast_last_id)
  have "w \<in> trie_words lits"
    using reprD(7) [OF R less.prems(1)] tw.closed wc by metis
  then obtain p where p: "p < length W" "W ! p = w" by (rule repr_state [OF R])
  show ?case
  proof (cases "p = 0")
    case True
    then have "length (W ! s) = 1" using p wc reprD(5) [OF R] by simp
    with I less.prems show ?thesis by (simp add: bfs_inv_def)
  next
    case False
    have lt: "length (W ! p) < length (W ! s)" using p wc by simp
    have "p \<in> D \<union> set q"
    proof (rule less.hyps [OF lt p(1) False])
      fix t assume "t \<in> set q"
      from less.prems(3) [OF this] lt show "length (W ! p) \<le> length (W ! t)" by simp
    qed
    moreover have "p \<notin> set q" using less.prems(3) [of p] lt by auto
    ultimately have "p \<in> D" by blast
    with I p wc False less.prems(1) show ?thesis unfolding bfs_inv_def by metis
  qed
qed

lemma sorted_snoc_level:
  assumes "sorted (map f (u # rest))" "\<forall>s \<in> set (u # rest). f s \<le> (f u :: nat) + 1"
    and "\<forall>v \<in> set vs. f v = f u + 1"
  shows "sorted (map f (rest @ vs)) \<and> (\<forall>s \<in> set (rest @ vs). f s \<le> f (hd (rest @ vs)) + 1)"
proof
  have "sorted (map f vs)" using assms(3) by (induction vs) auto
  with assms show "sorted (map f (rest @ vs))" by (auto simp: sorted_append)
  show "\<forall>s \<in> set (rest @ vs). f s \<le> f (hd (rest @ vs)) + 1"
  proof
    fix s assume s: "s \<in> set (rest @ vs)"
    have h: "hd (rest @ vs) \<in> set (rest @ vs)" using s by (intro hd_in_set) auto
    have "f u \<le> f v" if "v \<in> set (rest @ vs)" for v using that assms(1,3) by auto
    from this [OF h] have "f u \<le> f (hd (rest @ vs))" .
    moreover have "f s \<le> f u + 1" using s assms(2,3) by auto
    ultimately show "f s \<le> f (hd (rest @ vs)) + 1" by linarith
  qed
qed

lemma bfs_step:
  assumes ord: "map_order_ok ord" and R: "repr b W lits" and I: "bfs_inv lits b W D (u # rest) a"
  shows "\<exists>a' q'. link_kids u (ord u (b_children b ! u)) a rest = Some (a', q') \<and>
    bfs_inv lits b W (insert u D) q' a' \<and> ac_patterns a' = ac_patterns a"
proof -
  let ?ks = "ord u (b_children b ! u)"
  have u: "u < length W" "u \<noteq> 0" using I by (auto simp: bfs_inv_def)
  note t = reprD(1) [OF R]
  have st: "static b a" using I by (simp add: bfs_inv_def)
  have kid: "(c, v) \<in> set ?ks \<longleftrightarrow> v < length W \<and> W ! v = W ! u @ [c]" for c v
    using trieD(7) [OF t u(1)] map_order_perm(1) [OF ord] by simp
  have srt: "sorted (map (\<lambda>s. length (W ! s)) (u # rest))"
    "\<forall>s \<in> set (u # rest). length (W ! s) \<le> length (W ! u) + 1"
    using I by (simp_all add: bfs_inv_def)
  have lk0: "\<forall>s \<in> insert 0 (D \<union> set (u # rest)). linked lits W a s"
    using I unfolding bfs_inv_def by blast
  have low: "linked lits W a s" if "s < length W" "length (W ! s) \<le> length (W ! u)" for s
  proof (cases "s = 0")
    case False
    have "length (W ! s) \<le> length (W ! t)" if "t \<in> set (u # rest)" for t
      using srt(1) that \<open>length (W ! s) \<le> length (W ! u)\<close> by auto
    from bfs_reach [OF R I that(1) False this] lk0 show ?thesis by blast
  qed (use lk0 in blast)
  from link_kids_spec [OF R st u low, of ?ks rest] kid obtain a' where
    lk: "link_kids u ?ks a rest = Some (a', rest @ map snd ?ks)" and st': "static b a'"
    and rt: "rootNext a' = rootNext a" and ps: "ac_patterns a' = ac_patterns a"
    and lnk: "\<And>s. s < length W \<Longrightarrow> linked lits W a s \<or> s \<in> snd ` set ?ks \<Longrightarrow> linked lits W a' s"
    by blast
  define vs where "vs = map snd ?ks"
  have vs: "v \<in> set vs \<longleftrightarrow> v < length W \<and> (\<exists>c. W ! v = W ! u @ [c])" for v
    using kid by (force simp: vs_def image_iff)
  have lnk': "linked lits W a' s" if "s < length W" "linked lits W a s \<or> s \<in> set vs" for s
    using lnk that by (simp add: vs_def)
  have uD: "u \<notin> D" using I by (auto simp: bfs_inv_def)
  have par: "s \<in> D \<longleftrightarrow> t \<in> D \<union> set (u # rest)"
    if "s < length W" "t < length W" "W ! t = W ! s @ [c]" "s \<noteq> 0" for s t c
    using I that unfolding bfs_inv_def by blast
  have new: "v \<notin> D \<union> set (u # rest)" if "v \<in> set vs" for v
    using that vs par [OF u(1)] u(2) uD by blast
  have dist: "distinct vs"
    unfolding vs_def distinct_map
  proof
    show "distinct ?ks"
      using map_order_perm(3) [OF ord] trieD(6) [OF t u(1)] by (metis distinct_map)
    show "inj_on snd (set ?ks)" by (rule inj_onI) (use kid in auto)
  qed
  have I1: "D \<union> set (u # rest) \<subseteq> {0<..<length W}" and I2: "distinct (u # rest)"
    and I3: "D \<inter> set (u # rest) = {}"
    and I4: "\<forall>s < length W. length (W ! s) = 1 \<longrightarrow> s \<in> D \<union> set (u # rest)"
    using I unfolding bfs_inv_def by blast+
  have pos: "v \<in> {0<..<length W}" if v: "v \<in> set vs" for v
  proof -
    from v vs obtain c where "v < length W" "W ! v = W ! u @ [c]" by blast
    with repr_zero [OF R, of v] show ?thesis by auto
  qed
  have "bfs_inv lits b W (insert u D) (rest @ vs) a'"
    unfolding bfs_inv_def
  proof (intro conjI)
    show "static b a'" by (rule st')
    show "root_ok lits W a'" using I rt by (simp add: bfs_inv_def root_ok_def)
    show "insert u D \<union> set (rest @ vs) \<subseteq> {0<..<length W}"
      using I1 pos by auto
    show "distinct (rest @ vs)" using I2 dist new by auto
    show "insert u D \<inter> set (rest @ vs) = {}" using I2 I3 new by auto
    show "\<forall>s < length W. length (W ! s) = 1 \<longrightarrow> s \<in> insert u D \<union> set (rest @ vs)"
      using I4 by auto
    show "\<forall>s < length W. \<forall>t < length W. \<forall>c. W ! t = W ! s @ [c] \<and> s \<noteq> 0 \<longrightarrow>
        (s \<in> insert u D \<longleftrightarrow> t \<in> insert u D \<union> set (rest @ vs))"
    proof (intro allI impI)
      fix s t c assume s: "s < length W" and t: "t < length W" and e: "W ! t = W ! s @ [c] \<and> s \<noteq> 0"
      have "t \<in> set vs \<longleftrightarrow> s = u"
        using vs [of t] t e s u reprD(6) [OF R] by (auto simp: nth_eq_iff_index_eq)
      with par [OF s t _ , of c] e show "s \<in> insert u D \<longleftrightarrow> t \<in> insert u D \<union> set (rest @ vs)"
        by auto
    qed
    have "\<forall>v \<in> set vs. length (W ! v) = length (W ! u) + 1"
    proof
      fix v assume "v \<in> set vs"
      then obtain c where "W ! v = W ! u @ [c]" using vs by blast
      then show "length (W ! v) = length (W ! u) + 1" by simp
    qed
    from sorted_snoc_level [OF srt this]
    show "sorted (map (\<lambda>s. length (W ! s)) (rest @ vs))"
      "\<forall>s \<in> set (rest @ vs). length (W ! s) \<le> length (W ! hd (rest @ vs)) + 1" by blast+
    show "\<forall>s \<in> insert 0 (insert u D \<union> set (rest @ vs)). linked lits W a' s"
      using lk0 I1 pos lnk' reprD(4) [OF R] by auto
  qed
  with lk ps show ?thesis unfolding vs_def by blast
qed

lemma bfs_loop_spec:
  assumes ord: "map_order_ok ord" and R: "repr b W lits" and I: "bfs_inv lits b W D q a"
  shows "\<exists>a'. bfs_loop ord b q a = Some a' \<and> static b a' \<and> root_ok lits W a' \<and>
    ac_patterns a' = ac_patterns a \<and> (\<forall>s < length W. linked lits W a' s)"
  using I
proof (induction "length W - card D" arbitrary: D q a rule: less_induct)
  case less
  show ?case
  proof (cases q)
    case Nil
    have "s \<in> D" if "s < length W" "s \<noteq> 0" for s
      using bfs_reach [OF R less.prems that] Nil by simp
    then have "linked lits W a s" if "s < length W" for s
      using that less.prems by (cases "s = 0") (auto simp: bfs_inv_def)
    with less.prems Nil show ?thesis by (subst bfs_loop.simps) (simp add: bfs_inv_def)
  next
    case (Cons u rest)
    from bfs_step [OF ord R less.prems [unfolded Cons]] obtain a' q' where
      s: "link_kids u (ord u (b_children b ! u)) a rest = Some (a', q')"
        "bfs_inv lits b W (insert u D) q' a'" "ac_patterns a' = ac_patterns a" by blast
    have fin: "D \<subseteq> {0<..<length W}" "u \<in> {0<..<length W}" "u \<notin> D"
      using less.prems Cons by (auto simp: bfs_inv_def)
    then have "finite D" by (meson finite_greaterThanLessThan finite_subset)
    moreover from this fin have "card (insert u D) \<le> card {0<..<length W}"
      by (intro card_mono) auto
    ultimately have "length W - card (insert u D) < length W - card D" using fin by simp
    from less.hyps [OF this s(2)] s Cons show ?thesis by (subst bfs_loop.simps) simp
  qed
qed

lemma static_rootNext:
  "static b a \<Longrightarrow> static b (a\<lparr>rootNext := (rootNext a)[i := v]\<rparr>)"
  by (auto simp: static_def child_def node_outputs_def Let_def)

lemma link_root_spec:
  assumes "static b a" "distinct (map fst ks)" "\<And>c v. (c, v) \<in> set ks \<Longrightarrow> v < length (b_children b)"
  shows "\<exists>a'. link_root ks a q = (a', q @ map snd ks) \<and> static b a' \<and>
    ac_patterns a' = ac_patterns a \<and>
    (\<forall>s. fail_link (ac_nodes a' ! s) = (if s \<in> snd ` set ks then 0 else fail_link (ac_nodes a ! s)) \<and>
         dictLink (ac_nodes a' ! s) = dictLink (ac_nodes a ! s)) \<and>
    (\<forall>c. rootNext a' ! unat c = (case map_of ks c of None \<Rightarrow> rootNext a ! unat c | Some v \<Rightarrow> v))"
  using assms
proof (induction ks arbitrary: a q)
  case (Cons k ks)
  obtain c v where k: "k = (c, v)" by force
  let ?a = "(set_fail v 0 a)\<lparr>rootNext := (rootNext a)[unat c := v]\<rparr>"
  have "static b ?a"
    using static_rootNext [OF static_set_link(1) [OF Cons.prems(1)], of v 0 "unat c" v]
    by (simp add: frame_simps)
  from Cons.IH [OF this, of "q @ [v]"] Cons.prems(2,3) obtain a' where
    lr: "link_root ks ?a (q @ [v]) = (a', (q @ [v]) @ map snd ks)" "static b a'"
      "ac_patterns a' = ac_patterns ?a"
    and nd: "\<And>s. fail_link (ac_nodes a' ! s) = (if s \<in> snd ` set ks then 0 else fail_link (ac_nodes ?a ! s))"
      "\<And>s. dictLink (ac_nodes a' ! s) = dictLink (ac_nodes ?a ! s)"
    and rn: "\<And>d. rootNext a' ! unat d = (case map_of ks d of None \<Rightarrow> rootNext ?a ! unat d | Some v \<Rightarrow> v)"
    by fastforce
  have v: "v < length (ac_nodes a)" using Cons.prems(3) [of c v] staticD(1) [OF Cons.prems(1)] k by simp
  have "unat c < length (rootNext a)" using staticD(2) [OF Cons.prems(1)] unat_byte_less by simp
  moreover have "map_of ks c = None" using Cons.prems(2) by (simp add: k map_of_eq_None_iff)
  ultimately have "rootNext a' ! unat d = (case map_of (k # ks) d of None \<Rightarrow> rootNext a ! unat d | Some v \<Rightarrow> v)"
    for d
    by (cases "d = c") (auto simp: rn k nth_update_if word_unat_eq_iff split: option.split)
  moreover have "fail_link (ac_nodes a' ! s) =
      (if s \<in> snd ` set (k # ks) then 0 else fail_link (ac_nodes a ! s)) \<and>
      dictLink (ac_nodes a' ! s) = dictLink (ac_nodes a ! s)" for s
    using v by (simp add: nd k set_fail_def nth_update_if)
  ultimately show ?case using lr by (simp add: k set_fail_def)
qed simp

lemma sorted_level: "\<forall>s \<in> set q. f s = (1 :: nat) \<Longrightarrow> sorted (map f q)"
  by (induction q) simp_all

text \<open>\<open>buildLinks\<close> returns, and every link is the one its comment describes.\<close>

lemma Build_links:
  assumes ord: "map_order_ok ord" and R: "repr b W lits"
  shows "\<exists>a. Builder_Build ord b = Some a \<and> static b a \<and> root_ok lits W a \<and>
    ac_patterns a = length (b_patterns b) \<and> (\<forall>s < length W. linked lits W a s)"
proof -
  note t = reprD(1) [OF R]
  note F = flattened_spec [OF ord t]
  note R0 = reprD(4,5) [OF R]
  let ?a = "flattened ord b"
  let ?ks = "ord 0 (b_children b ! 0)"
  have kid: "(c, v) \<in> set ?ks \<longleftrightarrow> v < length W \<and> W ! v = [c]" for c v
    using trieD(7) [OF t R0(1)] R0(2) map_order_perm(1) [OF ord] by simp
  have dst: "distinct (map fst ?ks)" using trieD(6) [OF t R0(1)] map_order_perm(3) [OF ord] by simp
  obtain a' where lr: "link_root ?ks ?a [] = (a', map snd ?ks)" "static b a'"
      "ac_patterns a' = ac_patterns ?a"
    and nd: "\<And>s. fail_link (ac_nodes a' ! s) = (if s \<in> snd ` set ?ks then 0 else fail_link (ac_nodes ?a ! s))"
      "\<And>s. dictLink (ac_nodes a' ! s) = dictLink (ac_nodes ?a ! s)"
    and rn: "\<And>c. rootNext a' ! unat c = (case map_of ?ks c of None \<Rightarrow> rootNext ?a ! unat c | Some v \<Rightarrow> v)"
    using link_root_spec [OF F(1) dst, of "[]"] kid reprD(3) [OF R] by auto
  have root: "root_ok lits W a'"
    unfolding root_ok_def
  proof
    fix c
    show "rootNext a' ! unat c < length W \<and> W ! (rootNext a' ! unat c) = lsuf (trie_words lits) [c]"
    proof (cases "map_of ?ks c")
      case (Some v)
      then have v: "v < length W" "W ! v = [c]" using kid map_of_SomeD by fast+
      with reprD(7) [OF R v(1)] Some show ?thesis by (simp add: rn)
    next
      case None
      have "[c] \<notin> set W"
      proof
        assume "[c] \<in> set W"
        then obtain v where "v < length W" "W ! v = [c]" by (auto simp: in_set_conv_nth)
        with kid have "(c, v) \<in> set ?ks" by blast
        with None show False by (force simp: map_of_eq_None_iff)
      qed
      moreover have "rootNext ?a ! unat c = 0" using unat_byte_less [of c] by (simp add: F(4))
      ultimately show ?thesis using None R0 reprD(2) [OF R] by (simp add: rn)
    qed
  qed
  have zero: "fail_link (ac_nodes a' ! s) = 0" "dictLink (ac_nodes a' ! s) = 0" if "s < length W" for s
    using that F(2,3) by (simp_all add: nd)
  have short: "linked lits W a' s" if "s < length W" "tl (W ! s) = []" for s
    using that zero [OF that(1)] R0 by (simp add: linked_def)
  define q where "q = map snd ?ks"
  have q: "s \<in> set q \<longleftrightarrow> s < length W \<and> length (W ! s) = 1" for s
    using kid by (force simp: q_def image_iff length_Suc_conv)
  have q0: "0 < s" if "s \<in> set q" for s using q [of s] that R0(2) by (cases s) auto
  have "inj_on snd (set ?ks)" by (rule inj_onI) (use kid in auto)
  then have "distinct q" using dst by (simp add: q_def distinct_map)
  moreover have len1: "\<forall>s \<in> set q. length (W ! s) = 1" using q by blast
  moreover have "sorted (map (\<lambda>s. length (W ! s)) q)" by (rule sorted_level [OF len1])
  moreover have lk: "linked lits W a' s" if "s \<in> insert 0 ({} \<union> set q)" for s
  proof (rule short)
    show "s < length W" using that q R0 by blast
    have "length (W ! s) \<le> 1" using that len1 R0 by auto
    then show "tl (W ! s) = []" by (cases "W ! s") auto
  qed
  have no: "W ! t \<noteq> W ! s @ [c]" if "t \<in> set q" "s < length W" "s \<noteq> 0" for s t c
  proof -
    have "W ! s \<noteq> []" using repr_zero [OF R that(2)] that(3) by simp
    moreover have "length (W ! t) = 1" using len1 that(1) by blast
    ultimately show ?thesis by auto
  qed
  have "\<forall>s < length W. \<forall>t < length W. \<forall>c. W ! t = W ! s @ [c] \<and> s \<noteq> 0 \<longrightarrow>
      (s \<in> {} \<longleftrightarrow> t \<in> {} \<union> set q)"
    using no by blast
  moreover have "{} \<union> set q \<subseteq> {0<..<length W}" using q q0 by auto
  moreover have "\<forall>s \<in> set q. length (W ! s) \<le> length (W ! hd q) + 1" using len1 by simp
  moreover have "\<forall>s < length W. length (W ! s) = 1 \<longrightarrow> s \<in> {} \<union> set q" using q by simp
  ultimately have "bfs_inv lits b W {} q a'"
    using lr(2) root lk unfolding bfs_inv_def by blast
  from bfs_loop_spec [OF ord R this] show ?thesis
    using lr(1,3) F(5) by (auto simp: Build_eq buildLinks_def q_def)
qed

section \<open>Scanning\<close>

text \<open>The rules a literal of which ends the text \<open>w\<close>.\<close>

definition ends_with :: "lits \<Rightarrow> gobytes \<Rightarrow> u32 set" where
  "ends_with lits w = {r. \<exists>l. (l, r) \<in> set lits \<and> l \<noteq> [] \<and> suffix (map fold_byte l) w}"

abbreviation add_outputs :: "u32 list \<Rightarrow> bitset \<Rightarrow> bitset" where
  "add_outputs rs dst \<equiv> fold (\<lambda>r. Bitset_Add (int (unat r))) rs dst"

definition ac_ok :: "lits \<Rightarrow> builder \<Rightarrow> gobytes list \<Rightarrow> automaton \<Rightarrow> bool" where
  "ac_ok lits b W a \<longleftrightarrow> repr b W lits \<and> static b a \<and> root_ok lits W a \<and>
     (\<forall>s < length W. linked lits W a s)"

lemma emit_words:
  assumes "m \<in> out_words lits" "m \<noteq> []"
  shows "suffix m (lsuf (out_words lits) w) \<longleftrightarrow> suffix m w"
  using assms suffix_lsuf lsuf_longest suffix_order.trans by metis

lemma ends_with_refine: "ends_with lits (lsuf (out_words lits) w) = ends_with lits w"
  using emit_words by (auto simp: ends_with_def out_words_def; blast)

lemma ends_with_trie: "ends_with lits (lsuf (trie_words lits) w) = ends_with lits w"
proof -
  have "[] \<in> out_words lits" by (simp add: out_words_def)
  then show ?thesis
    using ends_with_refine lsuf_refine [OF out_words_sub, of lits w] by metis
qed

lemma ends_with_Nil [simp]: "ends_with lits [] = {}"
  by (auto simp: ends_with_def)

lemma ends_with_tl:
  assumes "repr b W lits" "s < length W" "s \<noteq> 0"
  shows "ends_with lits (W ! s) = set (b_outputs b ! s) \<union> ends_with lits (tl (W ! s))"
proof -
  obtain x xs where "W ! s = x # xs" using repr_zero [OF assms(1,2)] assms(3) by (cases "W ! s") auto
  then show ?thesis using reprD(8) [OF assms(1,2)] by (auto simp: ends_with_def suffix_Cons)
qed

lemma emit_loop_spec:
  assumes ok: "ac_ok lits b W a" and s: "s < length W"
  shows "\<exists>rs. (\<forall>dst. emit_loop a s dst = Some (add_outputs rs dst)) \<and>
    set rs = ends_with lits (W ! s)"
  using s
proof (induction "length (W ! s)" arbitrary: s rule: less_induct)
  case less
  have R: "repr b W lits" and st: "static b a" and lk: "linked lits W a s"
    using ok less.prems by (simp_all add: ac_ok_def)
  show ?case
  proof (cases "s = 0")
    case True
    with reprD(5) [OF R] show ?thesis
      by (intro exI [of _ "[]"]) (simp add: emit_loop.simps)
  next
    case False
    let ?d = "dictLink (ac_nodes a ! s)"
    have ne: "W ! s \<noteq> []" using False repr_zero [OF R less.prems] by simp
    from lk have d: "?d < length W" "W ! ?d = lsuf (out_words lits) (tl (W ! s))"
      by (simp_all add: linked_def)
    have "length (W ! ?d) < length (W ! s)"
      using d(2) ne length_lsuf [of "out_words lits" "tl (W ! s)"] by (cases "W ! s") auto
    from less.hyps [OF this d(1)] obtain rs where
      rs: "\<And>dst. emit_loop a ?d dst = Some (add_outputs rs dst)"
        "set rs = ends_with lits (W ! ?d)" by blast
    have "set rs = ends_with lits (tl (W ! s))" by (simp add: rs(2) d(2) ends_with_refine)
    then have "set (node_outputs a s @ rs) = ends_with lits (W ! s)"
      using ends_with_tl [OF R less.prems False] staticD(4) [OF st] reprD(3) [OF R] less.prems by simp
    moreover have "emit_loop a s dst = Some (add_outputs (node_outputs a s @ rs) dst)" for dst
      by (subst emit_loop.simps) (simp add: False rs(1))
    ultimately show ?thesis by blast
  qed
qed

lemma emits_iff:
  assumes ok: "ac_ok lits b W a" and s: "s < length W" and that: "s \<noteq> 0"
  shows "0 < outCount (ac_nodes a ! s) \<or> 0 < dictLink (ac_nodes a ! s) \<longleftrightarrow>
    ends_with lits (W ! s) \<noteq> {}"
proof -
  have R: "repr b W lits" and st: "static b a" and lk: "linked lits W a s"
    using ok s by (simp_all add: ac_ok_def)
  let ?d = "dictLink (ac_nodes a ! s)"
  from lk have d: "?d < length W" "W ! ?d = lsuf (out_words lits) (tl (W ! s))"
    by (simp_all add: linked_def)
  have "ends_with lits (W ! ?d) \<noteq> {} \<longleftrightarrow> ?d \<noteq> 0"
  proof (cases "?d = 0")
    case False
    then have "W ! ?d \<noteq> []" using repr_zero [OF R d(1)] by simp
    moreover have "W ! ?d \<in> out_words lits" unfolding d(2) by (rule lsuf_in) (simp add: out_words_def)
    ultimately show ?thesis using False
      by (auto simp: ends_with_def out_words_def) (metis suffix_order.refl)
  qed (simp add: reprD(5) [OF R])
  then have "ends_with lits (tl (W ! s)) \<noteq> {} \<longleftrightarrow> 0 < ?d" by (simp add: d(2) ends_with_refine)
  moreover have "0 < outCount (ac_nodes a ! s) \<longleftrightarrow> set (b_outputs b ! s) \<noteq> {}"
    using staticD(5) [OF st] reprD(3) [OF R] s by simp
  ultimately show ?thesis using ends_with_tl [OF R s that] by simp
qed

text \<open>One step of either scan, at the root or away from it.\<close>

definition ac_step :: "automaton \<Rightarrow> nat \<Rightarrow> byte \<Rightarrow> nat option" where
  "ac_step a s c = (if s = 0 then Some (rootNext a ! unat c) else goto_loop a s c)"

lemma ac_step_spec:
  assumes ok: "ac_ok lits b W a" and s: "s < length W" "W ! s = lsuf (trie_words lits) w"
  obtains t where "ac_step a s c = Some t" "t < length W"
    "W ! t = lsuf (trie_words lits) (w @ [c])"
proof (cases "s = 0")
  case True
  moreover have "repr b W lits" using ok by (simp add: ac_ok_def)
  ultimately have "[] = lsuf (trie_words lits) w" using s(2) reprD(5) by simp
  then have "lsuf (trie_words lits) (w @ [c]) = lsuf (trie_words lits) [c]"
    using tw.lsuf_step [of lits w c] by simp
  with True ok that show thesis by (auto simp: ac_step_def ac_ok_def root_ok_def)
next
  case False
  from ok have "repr b W lits" "static b a" "root_ok lits W a"
    "\<And>s. s < length W \<Longrightarrow> linked lits W a s" by (simp_all add: ac_ok_def)
  from goto_loop_spec [OF this s(1), of c] that False s(2) tw.lsuf_step [of lits w c]
  show thesis by (auto simp: ac_step_def)
qed

lemma scan_loop_Cons:
  "scan_loop a (x # xs) s dst =
     (case ac_step a s (fold_byte x) of None \<Rightarrow> None
      | Some t \<Rightarrow> if t = 0 then scan_loop a xs 0 dst
          else (case emit_loop a t dst of None \<Rightarrow> None | Some d \<Rightarrow> scan_loop a xs t d))"
proof (cases "s = 0")
  case True
  show ?thesis
  proof (cases "rootNext a ! unat (fold_byte x) = 0")
    case spin: True
    show ?thesis
      by (cases xs) (simp_all add: True spin scan_loop.simps ac_step_def)
  qed (simp add: True scan_loop.simps(2) ac_step_def Let_def)
qed (simp add: scan_loop.simps(2) ac_step_def)

text \<open>The literals found in \<open>w\<close> after its first \<open>k\<close> bytes.\<close>

definition found :: "lits \<Rightarrow> gobytes \<Rightarrow> gobytes \<Rightarrow> u32 set" where
  "found lits w xs = (\<Union>i \<in> {1..length xs}. ends_with lits (w @ take i xs))"

lemma found_Cons: "found lits w (x # xs) = ends_with lits (w @ [x]) \<union> found lits (w @ [x]) xs"
proof -
  have "{1..length (x # xs)} = insert 1 (Suc ` {1..length xs})"
    by (simp add: image_Suc_atLeastAtMost) (auto simp del: image_Suc_atLeastAtMost)
  then show ?thesis unfolding found_def length_Cons [symmetric]
    by (simp only: SUP_insert image_image) simp
qed

lemma found_Nil [simp]: "found lits w [] = {}" by (simp add: found_def)

lemma scan_loop_spec:
  assumes ok: "ac_ok lits b W a" and "s < length W" "W ! s = lsuf (trie_words lits) w"
  shows "\<exists>rs. (\<forall>dst. scan_loop a xs s dst = Some (add_outputs rs dst)) \<and>
    set rs = found lits w (map fold_byte xs)"
  using assms(2,3)
proof (induction xs arbitrary: s w)
  case Nil
  then show ?case by (intro exI [of _ "[]"]) (simp add: scan_loop.simps)
next
  case (Cons x xs)
  let ?w = "w @ [fold_byte x]"
  have R: "repr b W lits" using ok by (simp add: ac_ok_def)
  from ac_step_spec [OF ok Cons.prems, of "fold_byte x"] obtain t where
    t: "ac_step a s (fold_byte x) = Some t" "t < length W" "W ! t = lsuf (trie_words lits) ?w" .
  from Cons.IH [OF t(2,3)] obtain rs where
    rs: "\<And>dst. scan_loop a xs t dst = Some (add_outputs rs dst)"
      "set rs = found lits ?w (map fold_byte xs)" by blast
  have here: "ends_with lits (W ! t) = ends_with lits ?w" by (simp add: t(3) ends_with_trie)
  show ?case
  proof (cases "t = 0")
    case True
    then have "ends_with lits ?w = {}" using here reprD(5) [OF R] by simp
    with True t rs show ?thesis
      by (intro exI [of _ rs]) (simp add: scan_loop_Cons found_Cons)
  next
    case False
    from emit_loop_spec [OF ok t(2)] obtain rs' where
      "\<And>dst. emit_loop a t dst = Some (add_outputs rs' dst)" "set rs' = ends_with lits ?w"
      using here by blast
    with False t rs show ?thesis
      by (intro exI [of _ "rs' @ rs"]) (simp add: scan_loop_Cons found_Cons)
  qed
qed

lemma match_loop_spec:
  assumes ok: "ac_ok lits b W a" and "s < length W" "W ! s = lsuf (trie_words lits) w"
  shows "match_loop a xs s = Some (found lits w (map fold_byte xs) \<noteq> {})"
  using assms(2,3)
proof (induction xs arbitrary: s w)
  case (Cons x xs)
  let ?w = "w @ [fold_byte x]"
  have R: "repr b W lits" using ok by (simp add: ac_ok_def)
  from ac_step_spec [OF ok Cons.prems, of "fold_byte x"] obtain t where
    t: "ac_step a s (fold_byte x) = Some t" "t < length W" "W ! t = lsuf (trie_words lits) ?w" .
  have here: "ends_with lits (W ! t) = ends_with lits ?w" by (simp add: t(3) ends_with_trie)
  note step = t(1) [unfolded ac_step_def]
  note IH = Cons.IH [OF t(2,3)]
  show ?case
  proof (cases "t = 0")
    case True
    then have "ends_with lits ?w = {}" using here reprD(5) [OF R] by simp
    with True step IH show ?thesis by (simp add: found_Cons Let_def)
  next
    case False
    from emits_iff [OF ok t(2) False] here step IH False show ?thesis
      by (auto simp: found_Cons Let_def)
  qed
qed simp

section \<open>The automaton a ruleset is compiled to\<close>

definition literal_occurs :: "gobytes \<Rightarrow> gobytes \<Rightarrow> bool" where
  "literal_occurs l input \<longleftrightarrow> l \<noteq> [] \<and> sublist (map fold_byte l) (map fold_byte input)"

lemma found_iff: "r \<in> found lits [] (map fold_byte xs) \<longleftrightarrow>
    (\<exists>l. (l, r) \<in> set lits \<and> literal_occurs l xs)"
proof -
  have occ: "literal_occurs l xs \<longleftrightarrow> l \<noteq> [] \<and>
      (\<exists>i \<in> {1..length xs}. suffix (map fold_byte l) (take i (map fold_byte xs)))" for l
  proof (cases "l = []")
    case False
    then have "\<not> suffix (map fold_byte l) (take 0 (map fold_byte xs))" by simp
    then have "(\<exists>i \<le> length xs. suffix (map fold_byte l) (take i (map fold_byte xs))) \<longleftrightarrow>
        (\<exists>i \<in> {1..length xs}. suffix (map fold_byte l) (take i (map fold_byte xs)))"
      by (metis One_nat_def Suc_leI atLeastAtMost_iff gr0I)
    then show ?thesis
      using sublist_iff_suffix_take [of "map fold_byte l" "map fold_byte xs"] False
      by (simp add: literal_occurs_def)
  qed (simp add: literal_occurs_def)
  show ?thesis by (auto simp: occ found_def ends_with_def)
qed

lemma Build_ok:
  assumes "map_order_ok ord"
  shows "\<exists>a W. Builder_Build ord (add_literals lits NewBuilder) = Some a \<and>
    ac_ok lits (add_literals lits NewBuilder) W a \<and>
    (ac_patterns a = 0 \<longleftrightarrow> (\<forall>(l, r) \<in> set lits. l = []))"
proof -
  let ?b = "add_literals lits NewBuilder"
  obtain W where R: "repr ?b W lits" using repr_lits by blast
  from Build_links [OF assms R] obtain a where
    a: "Builder_Build ord ?b = Some a" "ac_ok lits ?b W a" "ac_patterns a = length (b_patterns ?b)"
    using R by (auto simp: ac_ok_def)
  have "length (b_patterns ?b) = 0 \<longleftrightarrow> set (b_patterns ?b) = {}" by simp
  then have "ac_patterns a = 0 \<longleftrightarrow> (\<forall>(l, r) \<in> set lits. l = [])"
    by (auto simp: a(3) reprD(9) [OF R] simp del: set_empty)
  with a(1,2) show ?thesis by (intro exI conjI)
qed

lemma Scan_spec:
  assumes "map_order_ok ord" "Builder_Build ord (add_literals lits NewBuilder) = Some a"
  shows "\<exists>rs. (\<forall>dst. Scan (Some a) input dst = Some (add_outputs rs dst, length input)) \<and>
    set rs = {r. \<exists>l. (l, r) \<in> set lits \<and> literal_occurs l input}"
proof -
  obtain W where ok: "ac_ok lits (add_literals lits NewBuilder) W a"
    and pats: "ac_patterns a = 0 \<longleftrightarrow> (\<forall>(l, r) \<in> set lits. l = [])"
    using Build_ok [OF assms(1), of lits] assms(2) by (metis option.inject)
  have R: "repr (add_literals lits NewBuilder) W lits" using ok by (simp add: ac_ok_def)
  show ?thesis
  proof (cases "ac_patterns a = 0 \<or> input = []")
    case True
    then have "{r. \<exists>l. (l, r) \<in> set lits \<and> literal_occurs l input} = {}"
      using pats by (auto simp: literal_occurs_def)
    with True show ?thesis
      by (intro exI [of _ "[]"]) (auto simp: Scan_def Automaton_Empty_def)
  next
    case False
    have "W ! 0 = lsuf (trie_words lits) []" using reprD(5) [OF R] by simp
    from scan_loop_spec [OF ok reprD(4) [OF R] this, of input] obtain rs where
      "\<And>dst. scan_loop a input 0 dst = Some (add_outputs rs dst)"
      "set rs = found lits [] (map fold_byte input)" by blast
    with False found_iff show ?thesis
      by (intro exI [of _ rs]) (auto simp: Scan_def Automaton_Empty_def)
  qed
qed

lemma MatchAny_spec:
  assumes "map_order_ok ord" "Builder_Build ord (add_literals lits NewBuilder) = Some a"
  shows "MatchAny (Some a) input = Some (\<exists>(l, r) \<in> set lits. literal_occurs l input)"
proof -
  obtain W where ok: "ac_ok lits (add_literals lits NewBuilder) W a"
    and pats: "ac_patterns a = 0 \<longleftrightarrow> (\<forall>(l, r) \<in> set lits. l = [])"
    using Build_ok [OF assms(1), of lits] assms(2) by (metis option.inject)
  have R: "repr (add_literals lits NewBuilder) W lits" using ok by (simp add: ac_ok_def)
  show ?thesis
  proof (cases "ac_patterns a = 0 \<or> input = []")
    case True
    then have "\<not> (\<exists>(l, r) \<in> set lits. literal_occurs l input)"
      using pats by (auto simp: literal_occurs_def)
    with True show ?thesis by (auto simp: MatchAny_def Automaton_Empty_def)
  next
    case False
    have "W ! 0 = lsuf (trie_words lits) []" using reprD(5) [OF R] by simp
    from match_loop_spec [OF ok reprD(4) [OF R] this, of input] False
    have "MatchAny (Some a) input = Some (found lits [] (map fold_byte input) \<noteq> {})"
      by (simp add: MatchAny_def Automaton_Empty_def)
    moreover have "found lits [] (map fold_byte input) \<noteq> {} \<longleftrightarrow>
        (\<exists>(l, r) \<in> set lits. literal_occurs l input)"
      using found_iff [of _ lits input] by blast
    ultimately show ?thesis by simp
  qed
qed

text \<open>What \<open>Scan\<close> does to the candidate set, through the candidate-set interface.\<close>

lemma Scan_elems:
  assumes "map_order_ok ord" "Builder_Build ord (add_literals lits NewBuilder) = Some a"
  shows "\<exists>d. Scan (Some a) input dst = Some (d, length input) \<and>
    Bitset_elems d = Bitset_elems dst \<union> {unat r |l r. (l, r) \<in> set lits \<and>
      literal_occurs l input \<and> unat r < Bitset_Cap dst} \<and>
    Bitset_Cap d = Bitset_Cap dst \<and> (bitset_inv dst \<longrightarrow> bitset_inv d)"
proof -
  from Scan_spec [OF assms, of input] obtain rs where
    rs: "Scan (Some a) input dst = Some (add_outputs rs dst, length input)"
      "set rs = {r. \<exists>l. (l, r) \<in> set lits \<and> literal_occurs l input}" by blast
  have eq: "add_outputs rs dst = fold (\<lambda>x. Bitset_Add (int x)) (map unat rs) dst"
    by (simp add: fold_map comp_def del: of_nat_unat)
  show ?thesis
    unfolding rs(1) eq
    by (intro exI [of _ "fold (\<lambda>x. Bitset_Add (int x)) (map unat rs) dst"] conjI impI)
      (auto simp: cs.elems_fold_add cs.cap_fold_add rs(2) intro: cs.inv_fold_add)
qed

text \<open>
  C14. The multi-pattern automaton is exact. For any iteration order of Go's maps, compiling a list
  of (literal, rule) pairs returns an automaton (the breadth-first link construction ends), and
  scanning any input with it ends and adds to the candidate set exactly the rules, below the set's
  capacity, one of whose non-empty literals occurs in the input up to ASCII case; the fuel charge
  is the input's length.
\<close>

theorem Scan_exact:
  assumes "map_order_ok ord"
  shows "\<exists>a. Builder_Build ord (add_literals lits NewBuilder) = Some a \<and>
    (\<forall>input dst. \<exists>d. Scan (Some a) input dst = Some (d, length input) \<and>
       Bitset_elems d = Bitset_elems dst \<union> {unat r |l r. (l, r) \<in> set lits \<and> l \<noteq> [] \<and>
         sublist (map fold_byte l) (map fold_byte input) \<and> unat r < Bitset_Cap dst})"
proof -
  obtain a where a: "Builder_Build ord (add_literals lits NewBuilder) = Some a"
    using Build_ok [OF assms] by blast
  from Scan_elems [OF assms a] a show ?thesis by (fastforce simp: literal_occurs_def)
qed

lemma collect_rules:
  "{unat r |l r. (l, r) \<in> set lits \<and> P l r} = set (map (\<lambda>(l, r). unat r) (filter (\<lambda>(l, r). P l r) lits))"
  by force

theorem Scan_exact_witness:
  "map_order_ok (\<lambda>s. rev) \<and>
   (\<exists>a. Builder_Build (\<lambda>s. rev) (add_literals [(ascii ''select'', 3), (ascii ''LECT'', 9), (ascii ''or'', 5)] NewBuilder) = Some a \<and>
     (\<exists>d. Scan (Some a) (ascii ''x=Select'') (Bitset_New 64) = Some (d, 8) \<and>
       Bitset_elems d = {3, 9}))"
proof -
  let ?lits = "[(ascii ''select'', 3), (ascii ''LECT'', 9), (ascii ''or'', 5)] :: lits"
  let ?in = "ascii ''x=Select''"
  have ord: "map_order_ok (\<lambda>s. rev)" by (simp add: map_order_ok_def)
  have new: "Bitset_elems (Bitset_New 64) = {}" "64 \<le> Bitset_Cap (Bitset_New 64)"
    using Bitset_Grow_spec(2,3) [OF bitset_inv_zero, of 64] by (simp_all add: Bitset_New_def)
  have occ: "sublist (map fold_byte (ascii ''select'')) (map fold_byte ?in)"
    "sublist (map fold_byte (ascii ''LECT'')) (map fold_byte ?in)"
    "\<not> sublist (map fold_byte (ascii ''or'')) (map fold_byte ?in)"
    by (simp_all add: fold_byte_def sublist_Cons_right)
  have "{unat r |l r. (l, r) \<in> set ?lits \<and> l \<noteq> [] \<and>
      sublist (map fold_byte l) (map fold_byte ?in) \<and> unat r < Bitset_Cap (Bitset_New 64)} = {3, 9}"
    unfolding collect_rules using occ new(2) by (simp del: ascii_simps) simp
  note rules = this
  from Scan_exact [OF ord, of ?lits] obtain a where
    a: "Builder_Build (\<lambda>s. rev) (add_literals ?lits NewBuilder) = Some a"
    and all: "\<forall>input dst. \<exists>d. Scan (Some a) input dst = Some (d, length input) \<and>
       Bitset_elems d = Bitset_elems dst \<union> {unat r |l r. (l, r) \<in> set ?lits \<and> l \<noteq> [] \<and>
         sublist (map fold_byte l) (map fold_byte input) \<and> unat r < Bitset_Cap dst}"
    by blast
  from all [rule_format, of ?in "Bitset_New 64", unfolded rules new(1)] a ord
  show ?thesis by (auto simp del: ascii_simps)
qed

text \<open>
  \<open>MatchAny\<close>, which stops at the first match, answers exactly whether some non-empty literal
  occurs in the input up to ASCII case, and always answers.
\<close>

theorem MatchAny_exact:
  assumes "map_order_ok ord" "Builder_Build ord (add_literals lits NewBuilder) = Some a"
  shows "MatchAny (Some a) input =
    Some (\<exists>(l, r) \<in> set lits. l \<noteq> [] \<and> sublist (map fold_byte l) (map fold_byte input))"
  using MatchAny_spec [OF assms, of input] by (simp add: literal_occurs_def)

theorem MatchAny_exact_witness:
  "\<exists>a. Builder_Build (\<lambda>s ks. ks) (add_literals [(ascii ''../'', 0)] NewBuilder) = Some a \<and>
    MatchAny (Some a) (ascii ''/etc/../x'') = Some True \<and> MatchAny (Some a) (ascii ''/a/b'') = Some False"
proof -
  let ?lits = "[(ascii ''../'', 0)] :: lits"
  have ord: "map_order_ok (\<lambda>s ks. ks)" by (simp add: map_order_ok_def)
  from Build_ok [OF ord, of ?lits] obtain a where
    a: "Builder_Build (\<lambda>s ks. ks) (add_literals ?lits NewBuilder) = Some a" by blast
  have occ: "sublist (map fold_byte (ascii ''../'')) (map fold_byte (ascii ''/etc/../x''))"
    "\<not> sublist (map fold_byte (ascii ''../'')) (map fold_byte (ascii ''/a/b''))"
    by (simp_all add: fold_byte_def sublist_Cons_right)
  have ne: "ascii ''../'' \<noteq> []" by simp
  from a occ ne MatchAny_exact [OF ord a, of "ascii ''/etc/../x''"] MatchAny_exact [OF ord a, of "ascii ''/a/b''"]
  show ?thesis by (simp del: ascii_simps)
qed

end
