(* ===== verification/Rules.thy ===== *)
theory Rules
  imports Types Budget
begin

text \<open>
  Rules as authored (rules/action.go, operator.go, transform.go, rule.go, except.go).

  \<open>Transform\<close>, \<open>Operator\<close> and \<open>Action\<close> are Go interfaces that third parties implement. Their values
  are elements of the type variables \<open>'t\<close>, \<open>'o\<close> and \<open>'a\<close> (so \<open>==\<close> on interface values is
  equality), and their methods are the fields of an \<open>iface\<close> record, an argument of every
  definition that calls one. \<open>Apply\<close> is pure, as the interface demands; its destination buffer is
  scratch space and left out. A nil interface value in a rule literal is \<open>None\<close>.
\<close>

section \<open>Actions\<close>

type_synonym action_kind = "8 word"
abbreviation ActionScore :: action_kind where "ActionScore \<equiv> 0"
abbreviation ActionBlock :: action_kind where "ActionBlock \<equiv> 1"
abbreviation ActionAllow :: action_kind where "ActionAllow \<equiv> 2"
abbreviation ActionLog :: action_kind where "ActionLog \<equiv> 3"

definition action_kind_String :: "action_kind \<Rightarrow> string" where
  "action_kind_String k =
     (if k = ActionScore then ''score'' else if k = ActionBlock then ''block''
      else if k = ActionAllow then ''allow'' else if k = ActionLog then ''log'' else ''invalid'')"

record outcome =
  out_Kind :: action_kind
  out_Score :: int
  out_Status :: int

definition outcome_zero :: outcome where
  "outcome_zero = \<lparr>out_Kind = 0, out_Score = 0, out_Status = 0\<rparr>"

definition outcome_Terminal :: "outcome \<Rightarrow> bool" where
  "outcome_Terminal out \<longleftrightarrow> out_Kind out = ActionBlock \<or> out_Kind out = ActionAllow"

section \<open>Operators and their context\<close>

record rmatch =
  m_Span :: span

definition WholeValue :: "gobytes \<Rightarrow> rmatch" where
  "WholeValue v = \<lparr>m_Span = SpanOf 0 (length v)\<rparr>"

definition rmatch_zero :: rmatch where
  "rmatch_zero = \<lparr>m_Span = \<lparr>Off = 0, Len = 0\<rparr>\<rparr>"

record args =
  arg_Names :: "gobytes list"
  arg_Values :: "gobytes list"

text \<open>A nil slice is \<open>None\<close> in the three fields whose nilness the engine tests.\<close>

record eval_ctx =
  ctx_Target :: target
  ctx_Key :: gobytes
  ctx_Method :: "gobytes option"
  ctx_RequestURI :: "gobytes option"
  ctx_Host :: "gobytes option"
  ctx_Origins :: "gobytes list"
  ctx_Siblings :: args

fun sibling_loop :: "gobytes list \<Rightarrow> gobytes list \<Rightarrow> gobytes \<Rightarrow> nat \<Rightarrow> gobytes option" where
  "sibling_loop [] vals name i = None"
| "sibling_loop (n # ns) vals name i =
     (if length n \<noteq> length name then sibling_loop ns vals name (Suc i)
      else if n = name \<and> i < length vals then Some (vals ! i)
      else sibling_loop ns vals name (Suc i))"

definition SiblingValue :: "eval_ctx \<Rightarrow> gobytes \<Rightarrow> gobytes option" where
  "SiblingValue c name =
     sibling_loop (arg_Names (ctx_Siblings c)) (arg_Values (ctx_Siblings c)) name 0"

record ('t, 'o, 'a) iface =
  tName :: "'t \<Rightarrow> gobytes"
  tApply :: "'t \<Rightarrow> gobytes \<Rightarrow> gobytes \<times> bool"
  tMaxOutputLen :: "'t \<Rightarrow> nat \<Rightarrow> nat"
  oName :: "'o \<Rightarrow> gobytes"
  oEval :: "'o \<Rightarrow> eval_ctx \<Rightarrow> gobytes \<Rightarrow> rmatch \<times> bool"
  oLiterals :: "'o \<Rightarrow> gobytes list \<times> bool"
  oCost :: "'o \<Rightarrow> fuel"
  aName :: "'a \<Rightarrow> gobytes"
  aRun :: "'a \<Rightarrow> eval_ctx \<Rightarrow> rmatch \<Rightarrow> outcome"

text \<open>\<open>fixedAction\<close> and the built-in values of it.\<close>

record fixed_action =
  fa_name :: gobytes
  fa_out :: outcome

definition fa_Run :: "fixed_action \<Rightarrow> eval_ctx \<Rightarrow> rmatch \<Rightarrow> outcome" where
  "fa_Run a c m = fa_out a"

definition Block_action :: fixed_action where
  "Block_action = \<lparr>fa_name = ascii ''block'', fa_out = outcome_zero\<lparr>out_Kind := ActionBlock\<rparr>\<rparr>"
definition Log_action :: fixed_action where
  "Log_action = \<lparr>fa_name = ascii ''log'', fa_out = outcome_zero\<lparr>out_Kind := ActionLog\<rparr>\<rparr>"
definition Allow_action :: fixed_action where
  "Allow_action = \<lparr>fa_name = ascii ''allow'', fa_out = outcome_zero\<lparr>out_Kind := ActionAllow\<rparr>\<rparr>"
definition Score_action :: fixed_action where
  "Score_action = \<lparr>fa_name = ascii ''score'', fa_out = outcome_zero\<lparr>out_Kind := ActionScore\<rparr>\<rparr>"
definition BlockWithStatus :: "int \<Rightarrow> fixed_action" where
  "BlockWithStatus status = \<lparr>fa_name = ascii ''block'',
     fa_out = outcome_zero\<lparr>out_Kind := ActionBlock, out_Status := status\<rparr>\<rparr>"
definition ScoreBy :: "int \<Rightarrow> fixed_action" where
  "ScoreBy n = \<lparr>fa_name = ascii ''score'',
     fa_out = outcome_zero\<lparr>out_Kind := ActionScore, out_Score := n\<rparr>\<rparr>"

section \<open>Rules\<close>

record ('t, 'o, 'a) rule =
  DerivedFrom :: rule_id
  ID :: rule_id
  Phase :: phase
  Targets :: "target list"
  Transforms :: "'t option list"
  Op :: "'o option"
  Actions :: "'a option list"
  Severity :: severity
  Confidence :: confidence
  Msg :: gobytes
  Tags :: "gobytes list"

definition Concat :: "('t, 'o, 'a) rule list list \<Rightarrow> ('t, 'o, 'a) rule list" where
  "Concat sets = concat sets"

fun tag_loop :: "gobytes list \<Rightarrow> gobytes \<Rightarrow> bool" where
  "tag_loop [] tag = False"
| "tag_loop (t # ts) tag = (if t = tag then True else tag_loop ts tag)"

definition HasTag :: "('t, 'o, 'a) rule \<Rightarrow> gobytes \<Rightarrow> bool" where
  "HasTag r tag = tag_loop (Tags r) tag"

text \<open>\<open>score\<close> stands for the package's \<open>Score\<close> value, the default action.\<close>

definition effectiveActions :: "'a \<Rightarrow> ('t, 'o, 'a) rule \<Rightarrow> 'a option list" where
  "effectiveActions score r = (if length (Actions r) = 0 then [Some score] else Actions r)"

section \<open>Exceptions\<close>

record exception =
  ex_RuleID :: rule_id
  ex_Path :: gobytes
  ex_Target :: target_kind
  ex_Key :: gobytes
  ex_Note :: gobytes

definition matchPath :: "gobytes \<Rightarrow> gobytes \<Rightarrow> bool" where
  "matchPath pattern path =
     (if 0 < length pattern \<and> pattern ! (length pattern - 1) = 42
      then let pre = take (length pattern - 1) pattern
           in length pre \<le> length path \<and> take (length pre) path = pre
      else pattern = path)"

definition exception_Matches ::
  "exception \<Rightarrow> rule_id \<Rightarrow> rule_id \<Rightarrow> gobytes \<Rightarrow> target \<Rightarrow> gobytes \<Rightarrow> bool"
where
  "exception_Matches e rule derivedFrom path target key =
     (if ex_RuleID e \<noteq> 0 \<and> ex_RuleID e \<noteq> rule \<and> ex_RuleID e \<noteq> derivedFrom then False
      else if ex_Target e \<noteq> TargetInvalid \<and> ex_Target e \<noteq> Kind target then False
      else if ex_Key e \<noteq> [] \<and> ex_Key e \<noteq> key then False
      else if ex_Path e \<noteq> [] \<and> \<not> matchPath (ex_Path e) path then False
      else True)"

datatype exception_error = ErrExceptionTooBroad

definition exception_Validate :: "exception \<Rightarrow> exception_error option" where
  "exception_Validate e =
     (if ex_RuleID e = 0 \<and> ex_Path e = [] \<and> ex_Target e = TargetInvalid \<and> ex_Key e = []
      then Some ErrExceptionTooBroad else None)"

fun Suppresses ::
  "exception list \<Rightarrow> rule_id \<Rightarrow> rule_id \<Rightarrow> gobytes \<Rightarrow> target \<Rightarrow> gobytes \<Rightarrow> exception option"
where
  "Suppresses [] rule derivedFrom path target key = None"
| "Suppresses (e # es) rule derivedFrom path target key =
     (if exception_Matches e rule derivedFrom path target key then Some e
      else Suppresses es rule derivedFrom path target key)"

section \<open>Lemmas\<close>

lemma outcome_Terminal_builtin [simp]:
  "outcome_Terminal (fa_out Block_action)" "outcome_Terminal (fa_out Allow_action)"
  "\<not> outcome_Terminal (fa_out Log_action)" "\<not> outcome_Terminal (fa_out Score_action)"
  by (simp_all add: outcome_Terminal_def Block_action_def Allow_action_def Log_action_def
      Score_action_def outcome_zero_def)

lemma HasTag_iff: "HasTag r tag \<longleftrightarrow> tag \<in> set (Tags r)"
proof -
  have "tag_loop ts tag \<longleftrightarrow> tag \<in> set ts" for ts by (induction ts) auto
  then show ?thesis by (simp add: HasTag_def)
qed

lemma sibling_loop_eq:
  "length vals = i + length ns \<Longrightarrow> sibling_loop ns vals name i = map_of (zip ns (drop i vals)) name"
proof (induction ns arbitrary: i)
  case (Cons n ns)
  then have "drop i vals = vals ! i # drop (Suc i) vals" by (simp add: Cons_nth_drop_Suc)
  with Cons show ?case by auto
qed simp

lemma SiblingValue_eq:
  "length (arg_Names (ctx_Siblings c)) = length (arg_Values (ctx_Siblings c)) \<Longrightarrow>
   SiblingValue c name = map_of (zip (arg_Names (ctx_Siblings c)) (arg_Values (ctx_Siblings c))) name"
  by (simp add: SiblingValue_def sibling_loop_eq)

lemma matchPath_iff:
  "matchPath pattern path \<longleftrightarrow>
     (if pattern \<noteq> [] \<and> last pattern = 42 then \<exists>rest. path = butlast pattern @ rest
      else path = pattern)"
proof (cases pattern rule: rev_cases)
  case (snoc p c)
  have "length p \<le> length path \<and> take (length p) path = p \<longleftrightarrow> (\<exists>rest. path = p @ rest)"
    by (metis append_eq_conv_conj append_take_drop_id length_append le_add1)
  with snoc show ?thesis by (auto simp: matchPath_def)
qed (auto simp: matchPath_def)

lemma Suppresses_iff:
  "Suppresses es rule d path tg key \<noteq> None \<longleftrightarrow>
     (\<exists>e \<in> set es. exception_Matches e rule d path tg key)"
  by (induction es) auto

lemma Suppresses_Some:
  "Suppresses es rule d path tg key = Some e \<Longrightarrow>
     e \<in> set es \<and> exception_Matches e rule d path tg key"
  by (induction es) (auto split: if_splits)

end
