(* ===== verification/RuleCompile.thy ===== *)
theory RuleCompile
  imports Rules PrefilterCorrect "HOL-Library.Product_Lexorder" "HOL-Library.List_Lexorder"
begin

text \<open>
  The rule compiler (rules/compile.go): \<open>validate\<close>, \<open>Compile\<close> and the accessors of the compiled
  plan. A rule that \<open>validate\<close> accepts has no nil operator, transform or action, so after it the
  optional values are read with \<open>the\<close>. The Go map from (phase, chain key) to a group is the search
  of the phase's groups for the key; a group under construction carries its key and its prefilter
  builder. \<open>ords\<close> gives the map iteration order of the build of each group. \<open>slices.SortStableFunc\<close>
  is \<open>sort_key\<close>, which is stable; \<open>strings.Compare\<close> on names and the length tie-break of
  \<open>sortGroupsByChain\<close> are the lexicographic order on lists of names.
\<close>

section \<open>Validation\<close>

datatype sentinel = ErrInvalidRule | ErrDuplicateID | ErrReservedID

text \<open>The hints, with the values their texts are formatted from.\<close>

datatype hint =
    HintNonZeroID
  | HintAlsoAt nat
  | HintReserved namespace
  | HintSetPhase
  | HintNoTargets
  | HintUnknownKind target_kind
  | HintNotAvailable target_kind phase phase
  | HintNeedsOperator
  | HintNilTransform nat
  | HintNilAction nat
  | HintSeverity
  | HintConfidence

record rule_error =
  re_ID :: rule_id
  re_Field :: string
  re_Err :: sentinel
  re_Hint :: hint

definition ruleErr :: "rule_id \<Rightarrow> string \<Rightarrow> sentinel \<Rightarrow> hint \<Rightarrow> rule_error" where
  "ruleErr i field err hint = \<lparr>re_ID = i, re_Field = field, re_Err = err, re_Hint = hint\<rparr>"

definition target_errors :: "rule_id \<Rightarrow> phase \<Rightarrow> target \<Rightarrow> rule_error list" where
  "target_errors i ph t =
     (if \<not> target_kind_Valid (Kind t)
      then [ruleErr i ''Targets'' ErrInvalidRule (HintUnknownKind (Kind t))]
      else if phase_Valid ph \<and> ph < target_kind_Phase (Kind t)
      then [ruleErr i ''Targets'' ErrInvalidRule
              (HintNotAvailable (Kind t) (target_kind_Phase (Kind t)) ph)]
      else [])"

fun nil_errors :: "(nat \<Rightarrow> rule_error) \<Rightarrow> nat \<Rightarrow> 'x option list \<Rightarrow> rule_error list" where
  "nil_errors err j [] = []"
| "nil_errors err j (x # xs) = (if x = None then [err j] else []) @ nil_errors err (Suc j) xs"

text \<open>The checks after the two \<open>continue\<close> branches.\<close>

definition field_errors :: "bool \<Rightarrow> ('t, 'o, 'a) rule \<Rightarrow> rule_error list" where
  "field_errors userOnly r =
     (if userOnly \<and> \<not> rule_id_IsUser (ID r)
      then [ruleErr (ID r) ''ID'' ErrReservedID (HintReserved (rule_id_Namespace (ID r)))] else []) @
     (if \<not> phase_Valid (Phase r)
      then [ruleErr (ID r) ''Phase'' ErrInvalidRule HintSetPhase] else []) @
     (if length (Targets r) = 0
      then [ruleErr (ID r) ''Targets'' ErrInvalidRule HintNoTargets] else []) @
     concat (map (target_errors (ID r) (Phase r)) (Targets r)) @
     (if Op r = None then [ruleErr (ID r) ''Op'' ErrInvalidRule HintNeedsOperator] else []) @
     nil_errors (\<lambda>j. ruleErr (ID r) ''Transforms'' ErrInvalidRule (HintNilTransform j)) 0 (Transforms r) @
     nil_errors (\<lambda>j. ruleErr (ID r) ''Actions'' ErrInvalidRule (HintNilAction j)) 0 (Actions r) @
     (if \<not> severity_Valid (Severity r)
      then [ruleErr (ID r) ''Severity'' ErrInvalidRule HintSeverity] else []) @
     (if \<not> confidence_Valid (Confidence r)
      then [ruleErr (ID r) ''Confidence'' ErrInvalidRule HintConfidence] else [])"

fun validate_loop ::
  "bool \<Rightarrow> nat \<Rightarrow> (rule_id \<times> nat) list \<Rightarrow> ('t, 'o, 'a) rule list \<Rightarrow> rule_error list"
where
  "validate_loop userOnly i seen [] = []"
| "validate_loop userOnly i seen (r # rs) =
     (if ID r = 0 then
        ruleErr (ID r) ''ID'' ErrInvalidRule HintNonZeroID # validate_loop userOnly (Suc i) seen rs
      else case map_of seen (ID r) of
        Some prev \<Rightarrow>
          ruleErr (ID r) ''ID'' ErrDuplicateID (HintAlsoAt prev) #
            validate_loop userOnly (Suc i) seen rs
      | None \<Rightarrow> field_errors userOnly r @ validate_loop userOnly (Suc i) ((ID r, i) # seen) rs)"

text \<open>\<open>errors.Join\<close> of no error is nil: the empty list.\<close>

definition validate :: "('t, 'o, 'a) rule list \<Rightarrow> bool \<Rightarrow> rule_error list" where
  "validate rules userOnly = validate_loop userOnly 0 [] rules"

section \<open>The compiled plan\<close>

record ('t, 'o, 'a) compiled_rule =
  cr_Rule :: "('t, 'o, 'a) rule"
  cr_groupIdx :: nat
  cr_unconditional :: bool

definition cr_Unconditional :: "('t, 'o, 'a) compiled_rule \<Rightarrow> bool" where
  "cr_Unconditional c = cr_unconditional c"

definition cr_Actions :: "'a \<Rightarrow> ('t, 'o, 'a) compiled_rule \<Rightarrow> 'a option list" where
  "cr_Actions score c = effectiveActions score (cr_Rule c)"

record ('t, 'o, 'a) chain_group =
  g_Transforms :: "'t list"
  g_Rules :: "('t, 'o, 'a) compiled_rule list"
  g_Automaton :: "automaton option"
  g_Unconditional :: "nat list"
  g_targets :: u64

definition group_Reads :: "('t, 'o, 'a) chain_group \<Rightarrow> target_kind \<Rightarrow> bool" where
  "group_Reads g k \<longleftrightarrow> k < 64 \<and> g_targets g AND push_bit (unat k) 1 \<noteq> 0"

record ('t, 'o, 'a) phase_plan =
  pp_groups :: "('t, 'o, 'a) chain_group list"
  pp_rules :: "('t, 'o, 'a) compiled_rule list"
  pp_maxGroupRules :: nat
  pp_maxChainLen :: nat
  pp_resolved :: "gobytes list"
  pp_mirrorsOnly :: bool

record unconditional_rule =
  ur_ID :: rule_id
  ur_Phase :: phase
  ur_Operator :: gobytes
  ur_Reason :: gobytes

record report =
  rep_Rules :: nat
  rep_Prefiltered :: nat
  rep_Unconditional :: "unconditional_rule list"
  rep_Literals :: nat
  rep_AutomatonStates :: nat
  rep_ChainGroups :: nat

record ('t, 'o, 'a) ruleset =
  rs_phases :: "('t, 'o, 'a) phase_plan list"
  rs_all :: "('t, 'o, 'a) compiled_rule list"
  rs_byID :: "rule_id \<Rightarrow> ('t, 'o, 'a) compiled_rule option"
  rs_report :: report
  rs_targets :: u64

definition rule_chain :: "('t, 'o, 'a) rule \<Rightarrow> 't list" where
  "rule_chain r = map the (Transforms r)"

definition rule_op :: "('t, 'o, 'a) rule \<Rightarrow> 'o" where
  "rule_op r = the (Op r)"

text \<open>\<open>for i, t := range chain { if i > 0 { '|' }; name }\<close>.\<close>

fun chainKey :: "('t, 'o, 'a) iface \<Rightarrow> 't list \<Rightarrow> gobytes" where
  "chainKey I [] = []"
| "chainKey I [t] = tName I t"
| "chainKey I (t # ts) = tName I t @ 124 # chainKey I ts"

definition unconditionalReason :: "bool \<Rightarrow> gobytes" where
  "unconditionalReason required =
     (if \<not> required then ascii ''operator declares no required literals''
      else ascii ''operator declared required literals but supplied none'')"

definition resolverSegment :: "gobytes \<Rightarrow> gobytes" where
  "resolverSegment name = takeWhile (\<lambda>c. c \<noteq> 46) name"

definition maxChainLen :: "('t, 'o, 'a) chain_group list \<Rightarrow> nat" where
  "maxChainLen groups = fold (\<lambda>g n. max n (length (g_Transforms g))) groups 0"

definition sortGroupsByChain ::
  "('t, 'o, 'a) iface \<Rightarrow> ('t, 'o, 'a) chain_group list \<Rightarrow> ('t, 'o, 'a) chain_group list"
where
  "sortGroupsByChain I groups = sort_key (\<lambda>g. map (tName I) (g_Transforms g)) groups"

fun mirrors_loop ::
  "('t, 'o, 'a) iface \<Rightarrow> ('t, 'o, 'a) compiled_rule list \<Rightarrow>
   (rule_id \<Rightarrow> ('t, 'o, 'a) compiled_rule option) \<Rightarrow> phase \<Rightarrow> bool"
where
  "mirrors_loop I [] byID ph = True"
| "mirrors_loop I (cr # crs) byID ph =
     (case byID (DerivedFrom (cr_Rule cr)) of
        None \<Rightarrow> False
      | Some origin \<Rightarrow>
          if DerivedFrom (cr_Rule cr) = 0 then False
          else if ph \<le> Phase (cr_Rule origin) then False
          else if Op (cr_Rule origin) \<noteq> Op (cr_Rule cr) then False
          else if chainKey I (rule_chain (cr_Rule origin)) \<noteq> chainKey I (rule_chain (cr_Rule cr))
          then False
          else mirrors_loop I crs byID ph)"

definition allMirrors ::
  "('t, 'o, 'a) iface \<Rightarrow> ('t, 'o, 'a) compiled_rule list \<Rightarrow>
   (rule_id \<Rightarrow> ('t, 'o, 'a) compiled_rule option) \<Rightarrow> phase \<Rightarrow> bool"
where
  "allMirrors I crs byID ph = (if length crs = 0 then False else mirrors_loop I crs byID ph)"

definition NeedsResolver :: "('t, 'o, 'a) ruleset \<Rightarrow> phase \<Rightarrow> gobytes \<Rightarrow> bool" where
  "NeedsResolver rs p name =
     (if length (rs_phases rs) \<le> unat p then False
      else let m = pp_resolved (rs_phases rs ! unat p) in name \<in> set m \<or> [] \<in> set m)"

definition MirrorsOnly :: "('t, 'o, 'a) ruleset \<Rightarrow> phase \<Rightarrow> bool" where
  "MirrorsOnly rs p =
     (if length (rs_phases rs) \<le> unat p then False else pp_mirrorsOnly (rs_phases rs ! unat p))"

definition ruleset_Reads :: "('t, 'o, 'a) ruleset \<Rightarrow> target_kind \<Rightarrow> bool" where
  "ruleset_Reads rs k \<longleftrightarrow> k < 64 \<and> rs_targets rs AND push_bit (unat k) 1 \<noteq> 0"

definition ruleset_Len :: "('t, 'o, 'a) ruleset \<Rightarrow> nat" where
  "ruleset_Len rs = length (rs_all rs)"

definition ByID :: "('t, 'o, 'a) ruleset \<Rightarrow> rule_id \<Rightarrow> ('t, 'o, 'a) compiled_rule option" where
  "ByID rs i = rs_byID rs i"

definition PhaseRules :: "('t, 'o, 'a) ruleset \<Rightarrow> phase \<Rightarrow> ('t, 'o, 'a) compiled_rule list" where
  "PhaseRules rs p = (if \<not> phase_Valid p then [] else pp_rules (rs_phases rs ! unat p))"

definition MaxChainLen :: "('t, 'o, 'a) ruleset \<Rightarrow> phase \<Rightarrow> nat" where
  "MaxChainLen rs p =
     (if length (rs_phases rs) \<le> unat p then 0 else pp_maxChainLen (rs_phases rs ! unat p))"

definition Groups :: "('t, 'o, 'a) ruleset \<Rightarrow> phase \<Rightarrow> ('t, 'o, 'a) chain_group list" where
  "Groups rs p = (if \<not> phase_Valid p then [] else pp_groups (rs_phases rs ! unat p))"

definition MaxGroupRules :: "('t, 'o, 'a) ruleset \<Rightarrow> phase \<Rightarrow> nat" where
  "MaxGroupRules rs p = (if \<not> phase_Valid p then 0 else pp_maxGroupRules (rs_phases rs ! unat p))"

section \<open>Compilation\<close>

text \<open>A group under construction.\<close>

record ('t, 'o, 'a) open_group =
  og_key :: gobytes
  og_group :: "('t, 'o, 'a) chain_group"
  og_builder :: "builder option"

record ('t, 'o, 'a) open_plan =
  op_groups :: "('t, 'o, 'a) open_group list"
  op_rules :: "('t, 'o, 'a) compiled_rule list"
  op_maxGroupRules :: nat
  op_resolved :: "gobytes list"

record ('t, 'o, 'a) compile_state =
  cs_phases :: "('t, 'o, 'a) open_plan list"
  cs_all :: "('t, 'o, 'a) compiled_rule list"
  cs_byID :: "rule_id \<Rightarrow> ('t, 'o, 'a) compiled_rule option"
  cs_literals :: "gobytes list"
  cs_prefiltered :: nat
  cs_uncond :: "unconditional_rule list"
  cs_targets :: u64

definition target_mask :: "target list \<Rightarrow> u64 \<Rightarrow> u64" where
  "target_mask ts m =
     fold (\<lambda>t m. if Kind t < 64 then m OR push_bit (unat (Kind t)) 1 else m) ts m"

definition resolved_names :: "target list \<Rightarrow> gobytes list \<Rightarrow> gobytes list" where
  "resolved_names ts m =
     fold (\<lambda>t m. if Kind t = TargetResolved then List.insert (resolverSegment (Name t)) m else m) ts m"

fun find_group :: "gobytes \<Rightarrow> nat \<Rightarrow> ('t, 'o, 'a) open_group list \<Rightarrow> nat option" where
  "find_group key i [] = None"
| "find_group key i (g # gs) = (if og_key g = key then Some i else find_group key (Suc i) gs)"

definition new_group :: "gobytes \<Rightarrow> 't list \<Rightarrow> ('t, 'o, 'a) open_group" where
  "new_group key chain =
     \<lparr>og_key = key,
      og_group = \<lparr>g_Transforms = chain, g_Rules = [], g_Automaton = None, g_Unconditional = [],
                  g_targets = 0\<rparr>,
      og_builder = None\<rparr>"

text \<open>The body of the loop over the sorted rules, for one rule in its group.\<close>

definition add_to_group ::
  "('t, 'o, 'a) iface \<Rightarrow> ('t, 'o, 'a) rule \<Rightarrow> ('t, 'o, 'a) open_group \<Rightarrow>
   ('t, 'o, 'a) open_group \<times> ('t, 'o, 'a) compiled_rule"
where
  "add_to_group I r og =
     (let g = og_group og;
          idx = length (g_Rules g)
      in case oLiterals I (rule_op r) of (lits, required) \<Rightarrow>
        let prefiltered = required \<and> 0 < length lits;
            cr = \<lparr>cr_Rule = r, cr_groupIdx = idx, cr_unconditional = \<not> prefiltered\<rparr>;
            b = (if prefiltered
                 then Some (fold (\<lambda>lit b. if lit = [] then b else Builder_Add lit (of_nat idx) b) lits
                        (case og_builder og of None \<Rightarrow> NewBuilder | Some b \<Rightarrow> b))
                 else og_builder og);
            g = g\<lparr>g_Unconditional := (if prefiltered then g_Unconditional g else g_Unconditional g @ [idx]),
                  g_targets := target_mask (Targets r) (g_targets g),
                  g_Rules := g_Rules g @ [cr]\<rparr>
        in (og\<lparr>og_group := g, og_builder := b\<rparr>, cr))"

definition compile_rule ::
  "('t, 'o, 'a) iface \<Rightarrow> ('t, 'o, 'a) rule \<Rightarrow> ('t, 'o, 'a) compile_state \<Rightarrow> ('t, 'o, 'a) compile_state"
where
  "compile_rule I r s =
     (let p = unat (Phase r);
          plan = cs_phases s ! p;
          key = chainKey I (rule_chain r);
          gs = (case find_group key 0 (op_groups plan) of
                  Some i \<Rightarrow> op_groups plan
                | None \<Rightarrow> op_groups plan @ [new_group key (rule_chain r)]);
          gi = (case find_group key 0 (op_groups plan) of
                  Some i \<Rightarrow> i | None \<Rightarrow> length (op_groups plan))
      in case add_to_group I r (gs ! gi) of (og, cr) \<Rightarrow>
      case oLiterals I (rule_op r) of (lits, required) \<Rightarrow>
        let plan = plan\<lparr>op_groups := gs[gi := og],
                        op_rules := op_rules plan @ [cr],
                        op_maxGroupRules := max (op_maxGroupRules plan) (length (g_Rules (og_group og))),
                        op_resolved := resolved_names (Targets r) (op_resolved plan)\<rparr>
        in s\<lparr>cs_phases := (cs_phases s)[p := plan],
             cs_all := cs_all s @ [cr],
             cs_byID := (cs_byID s)(ID r \<mapsto> cr),
             cs_literals := (if cr_unconditional cr then cs_literals s
                             else fold (\<lambda>lit m. if lit = [] then m else List.insert lit m) lits (cs_literals s)),
             cs_prefiltered := (if cr_unconditional cr then cs_prefiltered s else cs_prefiltered s + 1),
             cs_uncond := (if cr_unconditional cr
                           then cs_uncond s @ [\<lparr>ur_ID = ID r, ur_Phase = Phase r,
                                  ur_Operator = oName I (rule_op r),
                                  ur_Reason = unconditionalReason required\<rparr>]
                           else cs_uncond s),
             cs_targets := target_mask (Targets r) (cs_targets s)\<rparr>)"

text \<open>\<open>for g, b := range builders { g.Automaton = b.Build() }\<close>, phase by phase and group by group.\<close>

fun build_groups ::
  "(nat \<Rightarrow> map_order) \<Rightarrow> nat \<Rightarrow> ('t, 'o, 'a) open_group list \<Rightarrow> ('t, 'o, 'a) chain_group list option"
where
  "build_groups ords i [] = Some []"
| "build_groups ords i (og # ogs) =
     (case og_builder og of
        None \<Rightarrow> map_option (\<lambda>gs. og_group og # gs) (build_groups ords (Suc i) ogs)
      | Some b \<Rightarrow>
          (case Builder_Build (ords i) b of
             None \<Rightarrow> None
           | Some a \<Rightarrow> map_option (\<lambda>gs. (og_group og)\<lparr>g_Automaton := Some a\<rparr> # gs)
                         (build_groups ords (Suc i) ogs)))"

definition finish_plan ::
  "('t, 'o, 'a) iface \<Rightarrow> (rule_id \<Rightarrow> ('t, 'o, 'a) compiled_rule option) \<Rightarrow> nat \<Rightarrow>
   ('t, 'o, 'a) open_plan \<Rightarrow> ('t, 'o, 'a) chain_group list \<Rightarrow> ('t, 'o, 'a) phase_plan"
where
  "finish_plan I byID p plan gs =
     (let gs = sortGroupsByChain I gs
      in \<lparr>pp_groups = gs, pp_rules = op_rules plan, pp_maxGroupRules = op_maxGroupRules plan,
          pp_maxChainLen = maxChainLen gs, pp_resolved = op_resolved plan,
          pp_mirrorsOnly = allMirrors I (op_rules plan) byID (of_nat p)\<rparr>)"

fun finish_plans ::
  "('t, 'o, 'a) iface \<Rightarrow> (nat \<Rightarrow> nat \<Rightarrow> map_order) \<Rightarrow>
   (rule_id \<Rightarrow> ('t, 'o, 'a) compiled_rule option) \<Rightarrow> nat \<Rightarrow> ('t, 'o, 'a) open_plan list \<Rightarrow>
   ('t, 'o, 'a) phase_plan list option"
where
  "finish_plans I ords byID p [] = Some []"
| "finish_plans I ords byID p (plan # plans) =
     (case build_groups (ords p) 0 (op_groups plan) of
        None \<Rightarrow> None
      | Some gs \<Rightarrow> map_option (\<lambda>pps. finish_plan I byID p plan gs # pps)
                    (finish_plans I ords byID (Suc p) plans))"

definition maxPhases :: nat where
  "maxPhases = unat PhaseLogging + 1"

definition compile_init :: "('t, 'o, 'a) compile_state" where
  "compile_init =
     \<lparr>cs_phases = replicate maxPhases \<lparr>op_groups = [], op_rules = [], op_maxGroupRules = 0,
        op_resolved = []\<rparr>,
      cs_all = [], cs_byID = (\<lambda>_. None), cs_literals = [], cs_prefiltered = 0, cs_uncond = [],
      cs_targets = 0\<rparr>"

definition group_states :: "('t, 'o, 'a) chain_group \<Rightarrow> nat" where
  "group_states g = (case g_Automaton g of None \<Rightarrow> 0 | Some a \<Rightarrow> Automaton_States a)"

text \<open>The outer option is \<open>None\<close> when a build does not end; the sum is the Go error result.\<close>

definition Compile ::
  "('t, 'o, 'a) iface \<Rightarrow> (nat \<Rightarrow> nat \<Rightarrow> map_order) \<Rightarrow> ('t, 'o, 'a) rule list \<Rightarrow> bool \<Rightarrow>
   (rule_error list + ('t, 'o, 'a) ruleset) option"
where
  "Compile I ords rules userOnly =
     (let errs = validate rules userOnly in
      if errs \<noteq> [] then Some (Inl errs)
      else
        let sorted = sort_key (\<lambda>r. (Phase r, ID r)) rules;
            s = fold (compile_rule I) sorted compile_init
        in case finish_plans I ords (cs_byID s) 0 (cs_phases s) of
          None \<Rightarrow> None
        | Some pps \<Rightarrow>
            Some (Inr \<lparr>rs_phases = pps, rs_all = cs_all s, rs_byID = cs_byID s,
              rs_report = \<lparr>rep_Rules = length (cs_all s), rep_Prefiltered = cs_prefiltered s,
                rep_Unconditional = cs_uncond s, rep_Literals = length (cs_literals s),
                rep_AutomatonStates =
                  sum_list (map (\<lambda>pp. sum_list (map group_states (pp_groups pp))) pps),
                rep_ChainGroups = sum_list (map (\<lambda>pp. length (pp_groups pp)) pps)\<rparr>,
              rs_targets = cs_targets s\<rparr>))"

end
