(* ===== verification/RuleCompileCorrect.thy ===== *)
theory RuleCompileCorrect
  imports RuleCompile
begin

text \<open>
  Compilation is total and loses nothing: every rule that passes validation is in exactly one
  group of its phase, at the index its prefilter entries name, with its literals in that group's
  automaton or its index in the group's unconditional list.
\<close>

section \<open>Masks\<close>

lemma AND_bit_u64: "n < 64 \<Longrightarrow> (w :: u64) AND push_bit n 1 \<noteq> 0 \<longleftrightarrow> bit w n"
  by (auto simp: word_eq_0_iff_bits bit_and_iff bit_exp_u64)

lemma bit_target_mask:
  "n < 64 \<Longrightarrow> bit (target_mask ts m) n \<longleftrightarrow> bit m n \<or> (\<exists>t \<in> set ts. unat (Kind t) = n)"
  unfolding target_mask_def
proof (induction ts arbitrary: m)
  case (Cons t ts)
  have lt: "Kind t < 64 \<longleftrightarrow> unat (Kind t) < 64" by (simp add: byte_simps)
  show ?case using Cons bit_exp_u64 [of "unat (Kind t)" n] by (auto simp: bit_or_iff lt)
qed simp

section \<open>Groups\<close>

definition prefilterable :: "('t, 'o, 'a) iface \<Rightarrow> ('t, 'o, 'a) rule \<Rightarrow> bool" where
  "prefilterable I r \<longleftrightarrow> snd (oLiterals I (rule_op r)) \<and> fst (oLiterals I (rule_op r)) \<noteq> []"

definition rule_lits :: "('t, 'o, 'a) iface \<Rightarrow> ('t, 'o, 'a) compiled_rule \<Rightarrow> lits" where
  "rule_lits I cr =
     (if cr_unconditional cr then []
      else map (\<lambda>l. (l, of_nat (cr_groupIdx cr)))
        (filter (\<lambda>l. l \<noteq> []) (fst (oLiterals I (rule_op (cr_Rule cr))))))"

definition group_lits :: "('t, 'o, 'a) iface \<Rightarrow> ('t, 'o, 'a) compiled_rule list \<Rightarrow> lits" where
  "group_lits I crs = concat (map (rule_lits I) crs)"

definition group_ok :: "('t, 'o, 'a) iface \<Rightarrow> ('t, 'o, 'a) chain_group \<Rightarrow> bool" where
  "group_ok I g \<longleftrightarrow>
     (\<forall>i < length (g_Rules g). cr_groupIdx (g_Rules g ! i) = i) \<and>
     g_Unconditional g = map cr_groupIdx (filter cr_unconditional (g_Rules g)) \<and>
     (\<forall>cr \<in> set (g_Rules g). cr_unconditional cr \<longleftrightarrow> \<not> prefilterable I (cr_Rule cr)) \<and>
     (\<forall>cr \<in> set (g_Rules g). chainKey I (rule_chain (cr_Rule cr)) = chainKey I (g_Transforms g)) \<and>
     (g_Rules g \<noteq> [] \<longrightarrow> g_Transforms g = rule_chain (cr_Rule (hd (g_Rules g)))) \<and>
     (\<forall>n < 64. bit (g_targets g) n \<longleftrightarrow>
        (\<exists>cr \<in> set (g_Rules g). \<exists>t \<in> set (Targets (cr_Rule cr)). unat (Kind t) = n))"

definition og_ok :: "('t, 'o, 'a) iface \<Rightarrow> ('t, 'o, 'a) open_group \<Rightarrow> bool" where
  "og_ok I og \<longleftrightarrow>
     group_ok I (og_group og) \<and> og_key og = chainKey I (g_Transforms (og_group og)) \<and>
     g_Automaton (og_group og) = None \<and>
     og_builder og =
       (if \<forall>cr \<in> set (g_Rules (og_group og)). cr_unconditional cr then None
        else Some (add_literals (group_lits I (g_Rules (og_group og))) NewBuilder))"

lemma group_Reads_iff:
  assumes "group_ok I g"
  shows "group_Reads g k \<longleftrightarrow> k < 64 \<and> (\<exists>cr \<in> set (g_Rules g). \<exists>t \<in> set (Targets (cr_Rule cr)). Kind t = k)"
proof (cases "k < 64")
  case True
  then have k: "unat k < 64" by (simp add: byte_simps)
  have eq: "unat (Kind t) = unat k \<longleftrightarrow> Kind t = k" for t by (simp add: word_unat_eq_iff)
  have "bit (g_targets g) (unat k) \<longleftrightarrow>
      (\<exists>cr \<in> set (g_Rules g). \<exists>t \<in> set (Targets (cr_Rule cr)). unat (Kind t) = unat k)"
    using assms k unfolding group_ok_def by blast
  with True show ?thesis unfolding group_Reads_def AND_bit_u64 [OF k] eq by blast
qed (simp add: group_Reads_def)

lemma group_lits_uncond: "\<forall>cr \<in> set crs. cr_unconditional cr \<Longrightarrow> group_lits I crs = []"
  by (auto simp: group_lits_def rule_lits_def)

lemma og_ok_new: "og_ok I (new_group (chainKey I ch) ch)"
  by (simp add: og_ok_def new_group_def group_ok_def)

lemma add_literals_append: "add_literals (xs @ ys) b = add_literals ys (add_literals xs b)"
  by (simp add: add_literals_def)

lemma fold_add_lits:
  "fold (\<lambda>lit b. if lit = [] then b else Builder_Add lit r b) ls b =
     add_literals (map (\<lambda>l. (l, r)) (filter (\<lambda>l. l \<noteq> []) ls)) b"
  by (induction ls arbitrary: b) (simp_all add: add_literals_def)

lemma og_ok_add:
  assumes ok: "og_ok I og" and key: "og_key og = chainKey I (rule_chain r)"
    and first: "g_Rules (og_group og) = [] \<longrightarrow> g_Transforms (og_group og) = rule_chain r"
    and add: "add_to_group I r og = (og', cr)"
  shows "og_ok I og'" "g_Rules (og_group og') = g_Rules (og_group og) @ [cr]" "cr_Rule cr = r"
    "og_key og' = og_key og" "g_Transforms (og_group og') = g_Transforms (og_group og)"
proof -
  let ?g = "og_group og"
  obtain ls req where lits: "oLiterals I (rule_op r) = (ls, req)" by force
  let ?pre = "req \<and> ls \<noteq> []"
  have cr: "cr = \<lparr>cr_Rule = r, cr_groupIdx = length (g_Rules ?g), cr_unconditional = \<not> ?pre\<rparr>"
    and og': "og_group og' = ?g\<lparr>g_Unconditional := (if ?pre then g_Unconditional ?g
          else g_Unconditional ?g @ [length (g_Rules ?g)]),
        g_targets := target_mask (Targets r) (g_targets ?g), g_Rules := g_Rules ?g @ [cr]\<rparr>"
    and b': "og_builder og' = (if ?pre then Some (add_literals
          (map (\<lambda>l. (l, of_nat (length (g_Rules ?g)))) (filter (\<lambda>l. l \<noteq> []) ls))
          (case og_builder og of None \<Rightarrow> NewBuilder | Some b \<Rightarrow> b)) else og_builder og)"
    and k': "og_key og' = og_key og"
    using add by (auto simp: add_to_group_def lits Let_def fold_add_lits)
  show rules: "g_Rules (og_group og') = g_Rules ?g @ [cr]" and "cr_Rule cr = r"
    and "og_key og' = og_key og" and tr: "g_Transforms (og_group og') = g_Transforms ?g"
    using og' cr k' by auto
  have pre: "prefilterable I r \<longleftrightarrow> ?pre" by (simp add: prefilterable_def lits)
  have G: "group_ok I ?g" using ok by (simp add: og_ok_def)
  have keyg: "chainKey I (rule_chain r) = chainKey I (g_Transforms ?g)"
    using ok key by (simp add: og_ok_def)
  have mask: "bit (g_targets (og_group og')) n \<longleftrightarrow>
      (\<exists>cr \<in> set (g_Rules (og_group og')). \<exists>t \<in> set (Targets (cr_Rule cr)). unat (Kind t) = n)"
    if "n < 64" for n
    using G that by (auto simp: og' cr bit_target_mask group_ok_def)
  have "group_ok I (og_group og')"
    using G keyg mask pre first unfolding group_ok_def
    by (auto simp: og' cr nth_append less_Suc_eq hd_append)
  moreover have "og_builder og' =
      (if \<forall>cr \<in> set (g_Rules (og_group og')). cr_unconditional cr then None
       else Some (add_literals (group_lits I (g_Rules (og_group og'))) NewBuilder))"
  proof (cases "?pre")
    case True
    have b: "(case og_builder og of None \<Rightarrow> NewBuilder | Some b \<Rightarrow> b) =
        add_literals (group_lits I (g_Rules ?g)) NewBuilder"
      using ok by (auto simp: og_ok_def group_lits_uncond add_literals_def)
    have "group_lits I (g_Rules ?g @ [cr]) = group_lits I (g_Rules ?g) @
        map (\<lambda>l. (l, of_nat (length (g_Rules ?g)))) (filter (\<lambda>l. l \<noteq> []) ls)"
      using True by (simp add: group_lits_def rule_lits_def cr lits)
    with True b' b show ?thesis by (simp add: rules add_literals_append) (simp add: cr)
  next
    case False
    have "rule_lits I cr = []" using False by (simp add: rule_lits_def cr)
    with False b' ok show ?thesis by (auto simp: rules og_ok_def group_lits_def) (auto simp: cr)
  qed
  ultimately show "og_ok I og'"
    using ok tr k' by (simp add: og_ok_def og')
qed

section \<open>Phases\<close>

abbreviation og_rules :: "('t, 'o, 'a) open_group \<Rightarrow> ('t, 'o, 'a) compiled_rule list" where
  "og_rules og \<equiv> g_Rules (og_group og)"

definition plan_ok :: "('t, 'o, 'a) iface \<Rightarrow> ('t, 'o, 'a) open_plan \<Rightarrow> bool" where
  "plan_ok I plan \<longleftrightarrow>
     (\<forall>og \<in> set (op_groups plan). og_ok I og \<and> og_rules og \<noteq> [] \<and>
        length (og_rules og) \<le> op_maxGroupRules plan) \<and>
     distinct (map og_key (op_groups plan)) \<and>
     mset (concat (map og_rules (op_groups plan))) = mset (op_rules plan)"

lemma find_group_Some:
  "find_group key i gs = Some k \<Longrightarrow> i \<le> k \<and> k - i < length gs \<and> og_key (gs ! (k - i)) = key"
  by (induction gs arbitrary: i) (fastforce simp: Suc_diff_le split: if_splits)+

lemma find_group_None: "find_group key i gs = None \<Longrightarrow> key \<notin> og_key ` set gs"
  by (induction gs arbitrary: i) (auto split: if_splits)

lemma mset_concat_update:
  assumes "k < length gs" "f g = f (gs ! k) @ [x]"
  shows "mset (concat (map f (gs[k := g]))) = add_mset x (mset (concat (map f gs)))"
proof -
  have eq: "gs = take k gs @ gs ! k # drop (Suc k) gs" by (rule id_take_nth_drop [OF assms(1)])
  have "gs[k := g] = take k gs @ g # drop (Suc k) gs"
    using assms(1) by (simp add: upd_conv_take_nth_drop)
  then have "mset (concat (map f (gs[k := g]))) =
      add_mset x (mset (concat (map f (take k gs @ gs ! k # drop (Suc k) gs))))"
    by (simp add: assms(2))
  then show ?thesis using eq by simp
qed

text \<open>One rule joins its group; \<open>gs\<close> are the groups after a missing one was appended.\<close>

lemma plan_ok_add:
  assumes gs: "\<forall>og \<in> set gs. og_ok I og \<and> length (og_rules og) \<le> n" "distinct (map og_key gs)"
      "mset (concat (map og_rules gs)) = mset (op_rules plan)"
    and gi: "gi < length gs" "og_key (gs ! gi) = chainKey I (rule_chain r)"
    and first: "og_rules (gs ! gi) = [] \<longrightarrow> g_Transforms (og_group (gs ! gi)) = rule_chain r"
    and used: "\<forall>j < length gs. j \<noteq> gi \<longrightarrow> og_rules (gs ! j) \<noteq> []"
    and add: "add_to_group I r (gs ! gi) = (og, cr)"
  shows "plan_ok I (plan\<lparr>op_groups := gs[gi := og], op_rules := op_rules plan @ [cr],
    op_maxGroupRules := max n (length (og_rules og)), op_resolved := ns\<rparr>)"
proof -
  have "og_ok I (gs ! gi)" using gs(1) gi(1) by simp
  note A = og_ok_add [OF this gi(2) first add]
  have "map og_key (gs[gi := og]) = map og_key gs"
    using A(4) gi(1) by (simp add: map_update list_update_same_conv)
  moreover have "\<forall>og' \<in> set (gs[gi := og]). og_ok I og' \<and>
      length (og_rules og') \<le> max n (length (og_rules og))"
    using gs(1) A(1) set_update_subset_insert [of gs gi og] by fastforce
  moreover have "og_rules og' \<noteq> []" if "og' \<in> set (gs[gi := og])" for og'
  proof -
    from that obtain j where j: "j < length gs" "og' = gs[gi := og] ! j" by (auto simp: in_set_conv_nth)
    with used A(2) show ?thesis by (cases "j = gi") auto
  qed
  moreover have "mset (concat (map og_rules (gs[gi := og]))) = mset (op_rules plan @ [cr])"
    using mset_concat_update [OF gi(1) A(2)] gs(3) by simp
  ultimately show ?thesis using gs(2) by (simp add: plan_ok_def)
qed

definition state_ok :: "('t, 'o, 'a) iface \<Rightarrow> ('t, 'o, 'a) rule list \<Rightarrow> ('t, 'o, 'a) compile_state \<Rightarrow> bool"
where
  "state_ok I processed s \<longleftrightarrow>
     length (cs_phases s) = 6 \<and> (\<forall>plan \<in> set (cs_phases s). plan_ok I plan) \<and>
     (\<forall>p < 6. map cr_Rule (op_rules (cs_phases s ! p)) = filter (\<lambda>r. unat (Phase r) = p) processed) \<and>
     map cr_Rule (cs_all s) = processed \<and>
     mset (concat (map op_rules (cs_phases s))) = mset (cs_all s) \<and>
     (\<forall>i. cs_byID s i = map_of (map (\<lambda>cr. (ID (cr_Rule cr), cr)) (rev (cs_all s))) i) \<and>
     cs_prefiltered s = length (filter (\<lambda>cr. \<not> cr_unconditional cr) (cs_all s)) \<and>
     map ur_ID (cs_uncond s) = map (\<lambda>cr. ID (cr_Rule cr)) (filter cr_unconditional (cs_all s)) \<and>
     (\<forall>n < 64. bit (cs_targets s) n \<longleftrightarrow>
        (\<exists>r \<in> set processed. \<exists>t \<in> set (Targets r). unat (Kind t) = n))"

lemma state_ok_init: "state_ok I [] compile_init"
  by (simp add: state_ok_def compile_init_def maxPhases_def plan_ok_def nth_replicate)

lemma state_ok_step:
  assumes ok: "state_ok I processed s" and p: "unat (Phase r) < 6"
  shows "state_ok I (processed @ [r]) (compile_rule I r s)"
proof -
  let ?p = "unat (Phase r)"
  let ?plan = "cs_phases s ! ?p"
  let ?key = "chainKey I (rule_chain r)"
  define gs where "gs = (case find_group ?key 0 (op_groups ?plan) of
      Some i \<Rightarrow> op_groups ?plan | None \<Rightarrow> op_groups ?plan @ [new_group ?key (rule_chain r)])"
  define gi where "gi = (case find_group ?key 0 (op_groups ?plan) of
      Some i \<Rightarrow> i | None \<Rightarrow> length (op_groups ?plan))"
  obtain og cr where add: "add_to_group I r (gs ! gi) = (og, cr)" by force
  obtain ls req where lits: "oLiterals I (rule_op r) = (ls, req)" by force
  have len: "length (cs_phases s) = 6" using ok by (simp add: state_ok_def)
  then have P: "plan_ok I ?plan" using ok p by (simp add: state_ok_def)
  have G: "\<forall>og \<in> set gs. og_ok I og \<and> length (og_rules og) \<le> op_maxGroupRules ?plan"
      "distinct (map og_key gs)" "mset (concat (map og_rules gs)) = mset (op_rules ?plan)"
      "gi < length gs" "og_key (gs ! gi) = ?key"
    using P find_group_Some [of ?key 0 "op_groups ?plan"] find_group_None [of ?key 0 "op_groups ?plan"]
      og_ok_new [of I "rule_chain r"]
    by (auto simp: gs_def gi_def plan_ok_def new_group_def split: option.splits)
  have F: "og_rules (gs ! gi) = [] \<longrightarrow> g_Transforms (og_group (gs ! gi)) = rule_chain r"
    "\<forall>j < length gs. j \<noteq> gi \<longrightarrow> og_rules (gs ! j) \<noteq> []"
    using P find_group_Some [of ?key 0 "op_groups ?plan"]
    by (auto simp: gs_def gi_def plan_ok_def new_group_def nth_append split: option.splits)
  have ogi: "og_ok I (gs ! gi)" using G(1,4) by simp
  have cr: "cr_Rule cr = r" by (rule og_ok_add(3) [OF ogi G(5) F(1) add])
  let ?plan' = "?plan\<lparr>op_groups := gs[gi := og], op_rules := op_rules ?plan @ [cr],
    op_maxGroupRules := max (op_maxGroupRules ?plan) (length (og_rules og)),
    op_resolved := resolved_names (Targets r) (op_resolved ?plan)\<rparr>"
  have P': "plan_ok I ?plan'" by (rule plan_ok_add [OF G F add])
  let ?s = "compile_rule I r s"
  have s': "cs_phases ?s = (cs_phases s)[?p := ?plan']" "cs_all ?s = cs_all s @ [cr]"
    "cs_byID ?s = (cs_byID s)(ID r \<mapsto> cr)" "cs_targets ?s = target_mask (Targets r) (cs_targets s)"
    "cs_prefiltered ?s = (if cr_unconditional cr then cs_prefiltered s else cs_prefiltered s + 1)"
    "map ur_ID (cs_uncond ?s) = (if cr_unconditional cr then map ur_ID (cs_uncond s) @ [ID r]
       else map ur_ID (cs_uncond s))"
    using add lits by (simp_all add: compile_rule_def Let_def gs_def gi_def)
  have "mset (concat (map op_rules (cs_phases ?s))) = add_mset cr (mset (concat (map op_rules (cs_phases s))))"
    unfolding s'(1) by (rule mset_concat_update) (simp_all add: len p)
  moreover have "plan_ok I plan" if "plan \<in> set (cs_phases ?s)" for plan
    using that ok P' set_update_subset_insert [of "cs_phases s" ?p ?plan']
    unfolding s'(1) state_ok_def by blast
  moreover have "map cr_Rule (op_rules (cs_phases ?s ! q)) =
      filter (\<lambda>r. unat (Phase r) = q) (processed @ [r])" if "q < 6" for q
    using that ok p cr len by (cases "q = ?p") (simp_all add: s'(1) state_ok_def)
  ultimately show ?thesis
    using ok cr unfolding state_ok_def s'
    by (auto simp: s' len bit_target_mask)
qed

section \<open>The finished plan\<close>

definition automaton_ok :: "('t, 'o, 'a) iface \<Rightarrow> ('t, 'o, 'a) chain_group \<Rightarrow> bool" where
  "automaton_ok I g \<longleftrightarrow>
     (if \<forall>cr \<in> set (g_Rules g). cr_unconditional cr then g_Automaton g = None
      else \<exists>a ord. g_Automaton g = Some a \<and> map_order_ok ord \<and>
        Builder_Build ord (add_literals (group_lits I (g_Rules g)) NewBuilder) = Some a)"

lemma group_ok_automaton [simp]: "group_ok I (g\<lparr>g_Automaton := a\<rparr>) = group_ok I g"
  by (simp add: group_ok_def)

lemma build_groups_spec:
  assumes ords: "\<forall>j. map_order_ok (ords j)" and "\<forall>og \<in> set ogs. og_ok I og"
  shows "\<exists>gs. build_groups ords i ogs = Some gs \<and>
    list_all2 (\<lambda>og g. g_Rules g = og_rules og \<and> g_Transforms g = g_Transforms (og_group og) \<and>
      group_ok I g \<and> automaton_ok I g) ogs gs"
  using assms(2)
proof (induction ogs arbitrary: i)
  case (Cons og ogs)
  then have ok: "og_ok I og" by simp
  from Cons obtain gs where gs: "build_groups ords (Suc i) ogs = Some gs"
    "list_all2 (\<lambda>og g. g_Rules g = og_rules og \<and> g_Transforms g = g_Transforms (og_group og) \<and>
      group_ok I g \<and> automaton_ok I g) ogs gs" by fastforce
  show ?case
  proof (cases "og_builder og")
    case None
    with ok have "automaton_ok I (og_group og)"
      by (auto simp: og_ok_def automaton_ok_def split: if_splits)
    with None gs ok show ?thesis by (simp add: og_ok_def)
  next
    case (Some b)
    then have b: "b = add_literals (group_lits I (og_rules og)) NewBuilder"
      and cond: "\<not> (\<forall>cr \<in> set (og_rules og). cr_unconditional cr)"
      using ok by (auto simp: og_ok_def split: if_splits)
    from Build_ok [of "ords i" "group_lits I (og_rules og)"] ords obtain a where
      a: "Builder_Build (ords i) b = Some a" unfolding b by blast
    then have "automaton_ok I ((og_group og)\<lparr>g_Automaton := Some a\<rparr>)"
      using cond ords unfolding b automaton_ok_def by auto
    moreover have "group_ok I (og_group og)" using ok by (simp add: og_ok_def)
    ultimately show ?thesis using Some a gs by simp
  qed
qed simp

lemma maxChainLen_ge: "g \<in> set gs \<Longrightarrow> length (g_Transforms g) \<le> maxChainLen gs"
proof -
  have mono: "n \<le> fold (\<lambda>g n. max n (length (g_Transforms g))) gs n" for gs n
  proof (induction gs arbitrary: n)
    case (Cons g gs)
    have "n \<le> max n (length (g_Transforms g))" by simp
    also note Cons [of "max n (length (g_Transforms g))"]
    finally show ?case by simp
  qed simp
  have "g \<in> set gs \<Longrightarrow> length (g_Transforms g) \<le> fold (\<lambda>g n. max n (length (g_Transforms g))) gs n" for gs n
  proof (induction gs arbitrary: n)
    case (Cons h gs)
    show ?case
    proof (cases "g = h")
      case True
      then show ?thesis using mono [of "max n (length (g_Transforms g))" gs] by simp
    qed (use Cons in auto)
  qed simp
  then show "g \<in> set gs \<Longrightarrow> length (g_Transforms g) \<le> maxChainLen gs" by (simp add: maxChainLen_def)
qed

text \<open>What the evaluator relies on, for one phase.\<close>

definition phase_ok :: "('t, 'o, 'a) iface \<Rightarrow> ('t, 'o, 'a) phase_plan \<Rightarrow> bool" where
  "phase_ok I pp \<longleftrightarrow>
     (\<forall>g \<in> set (pp_groups pp). group_ok I g \<and> automaton_ok I g \<and>
        length (g_Rules g) \<le> pp_maxGroupRules pp \<and> length (g_Transforms g) \<le> pp_maxChainLen pp) \<and>
     mset (concat (map g_Rules (pp_groups pp))) = mset (pp_rules pp) \<and>
     distinct (map (\<lambda>g. chainKey I (g_Transforms g)) (pp_groups pp)) \<and>
     sorted (map (\<lambda>g. map (tName I) (g_Transforms g)) (pp_groups pp))"

lemma finish_plan_ok:
  assumes plan: "plan_ok I plan"
    and gs: "list_all2 (\<lambda>og g. g_Rules g = og_rules og \<and> g_Transforms g = g_Transforms (og_group og) \<and>
      group_ok I g \<and> automaton_ok I g) (op_groups plan) gs"
  shows "phase_ok I (finish_plan I byID p plan gs)"
proof -
  have len: "length gs = length (op_groups plan)" using gs by (simp add: list_all2_lengthD)
  have nth: "g_Rules (gs ! j) = og_rules (op_groups plan ! j) \<and>
      g_Transforms (gs ! j) = g_Transforms (og_group (op_groups plan ! j)) \<and>
      group_ok I (gs ! j) \<and> automaton_ok I (gs ! j)" if "j < length gs" for j
    using gs that len by (auto simp: list_all2_conv_all_nth)
  have keys: "map (\<lambda>g. chainKey I (g_Transforms g)) gs = map og_key (op_groups plan)"
    using nth len plan by (intro nth_equalityI) (auto simp: plan_ok_def og_ok_def)
  have rules: "map g_Rules gs = map og_rules (op_groups plan)"
    using nth len by (intro nth_equalityI) auto
  let ?gs = "sortGroupsByChain I gs"
  have perm: "mset ?gs = mset gs" by (simp add: sortGroupsByChain_def)
  have set_gs: "set ?gs = set gs" by (simp add: sortGroupsByChain_def)
  have "group_ok I g \<and> automaton_ok I g \<and> length (g_Rules g) \<le> op_maxGroupRules plan"
    if "g \<in> set gs" for g
  proof -
    from that obtain j where j: "j < length gs" "g = gs ! j" by (auto simp: in_set_conv_nth)
    then have "op_groups plan ! j \<in> set (op_groups plan)" using len by simp
    with nth [OF j(1)] plan j show ?thesis by (auto simp: plan_ok_def)
  qed
  moreover have "mset (concat (map g_Rules ?gs)) = mset (op_rules plan)"
  proof -
    have "mset (concat (map g_Rules ?gs)) = sum_mset (image_mset (mset \<circ> g_Rules) (mset ?gs))"
      by (simp add: mset_concat sum_mset_sum_list comp_def flip: mset_map)
    also have "\<dots> = mset (concat (map g_Rules gs))"
      by (simp add: perm mset_concat sum_mset_sum_list comp_def flip: mset_map)
    also have "\<dots> = mset (op_rules plan)" using plan rules by (simp add: plan_ok_def)
    finally show ?thesis .
  qed
  moreover have "distinct (map (\<lambda>g. chainKey I (g_Transforms g)) ?gs)"
  proof -
    have "mset (map (\<lambda>g. chainKey I (g_Transforms g)) ?gs) = mset (map og_key (op_groups plan))"
      unfolding keys [symmetric] by (simp add: perm)
    then have "distinct (map (\<lambda>g. chainKey I (g_Transforms g)) ?gs) = distinct (map og_key (op_groups plan))"
      by (rule mset_eq_imp_distinct_iff)
    then show ?thesis using plan by (simp add: plan_ok_def)
  qed
  moreover have "sorted (map (\<lambda>g. map (tName I) (g_Transforms g)) ?gs)"
    by (simp add: sortGroupsByChain_def)
  ultimately show ?thesis
    by (auto simp: phase_ok_def finish_plan_def Let_def set_gs maxChainLen_ge)
qed

lemma finish_plans_spec:
  assumes ords: "\<forall>p j. map_order_ok (ords p j)" and "\<forall>plan \<in> set plans. plan_ok I plan"
  shows "\<exists>pps. finish_plans I ords byID p plans = Some pps \<and>
    list_all2 (\<lambda>plan pp. phase_ok I pp \<and> pp_rules pp = op_rules plan) plans pps"
  using assms(2)
proof (induction plans arbitrary: p)
  case (Cons plan plans)
  then have ok: "plan_ok I plan" by simp
  then have "\<forall>og \<in> set (op_groups plan). og_ok I og" by (simp add: plan_ok_def)
  from build_groups_spec [of "ords p", OF _ this] ords obtain gs where
    gs: "build_groups (ords p) 0 (op_groups plan) = Some gs"
      "list_all2 (\<lambda>og g. g_Rules g = og_rules og \<and> g_Transforms g = g_Transforms (og_group og) \<and>
        group_ok I g \<and> automaton_ok I g) (op_groups plan) gs" by blast
  from Cons obtain pps where "finish_plans I ords byID (Suc p) plans = Some pps"
    "list_all2 (\<lambda>plan pp. phase_ok I pp \<and> pp_rules pp = op_rules plan) plans pps" by fastforce
  with gs finish_plan_ok [OF ok gs(2)] show ?case by (simp add: finish_plan_def Let_def)
qed simp

section \<open>Compile\<close>

lemma field_errors_phase: "field_errors uo r = [] \<Longrightarrow> phase_Valid (Phase r)"
  by (auto simp: field_errors_def split: if_splits)

lemma validate_phases: "validate_loop uo i seen rs = [] \<Longrightarrow> \<forall>r \<in> set rs. field_errors uo r = []"
  by (induction rs arbitrary: i seen) (auto split: if_splits option.splits)

lemma phase_Valid_unat: "phase_Valid p \<Longrightarrow> unat p < 6"
  by (simp add: phase_Valid_def byte_simps)

lemma state_ok_fold:
  "state_ok I processed s \<Longrightarrow> \<forall>r \<in> set rs. unat (Phase r) < 6 \<Longrightarrow>
   state_ok I (processed @ rs) (fold (compile_rule I) rs s)"
proof (induction rs arbitrary: processed s)
  case (Cons r rs)
  from state_ok_step [OF Cons.prems(1), of r] Cons.prems(2)
  have "state_ok I (processed @ [r]) (compile_rule I r s)" by simp
  from Cons.IH [OF this] Cons.prems(2) show ?case by simp
qed simp

lemma insort_key_cong:
  "\<forall>y \<in> set xs. f x \<le> f y \<longleftrightarrow> g x \<le> g y \<Longrightarrow> insort_key f x xs = insort_key g x xs"
  by (induction xs) auto

lemma sort_key_same_phase:
  "\<forall>r \<in> set rs. Phase r = p \<Longrightarrow> sort_key (\<lambda>r. (Phase r, ID r)) rs = sort_key ID rs"
proof (induction rs)
  case (Cons r rs)
  then show ?case
    by (simp add: insort_key_cong [of "sort_key ID rs" "\<lambda>r. (Phase r, ID r)" r ID])
qed simp

lemma sorted_phase:
  "filter (\<lambda>r. Phase r = p) (sort_key (\<lambda>r. (Phase r, ID r)) rs) =
     sort_key ID (filter (\<lambda>r. Phase r = p) rs)"
  unfolding filter_sort by (rule sort_key_same_phase [where p = p]) simp

text \<open>\<open>Compile\<close> is total, and what it returns is the plan of exactly the given rules.\<close>

lemma Compile_spec:
  assumes ords: "\<forall>p j. map_order_ok (ords p j)"
  shows "Compile I ords rules uo = Some (Inl (validate rules uo)) \<and> validate rules uo \<noteq> [] \<or>
    (\<exists>rs. Compile I ords rules uo = Some (Inr rs) \<and> validate rules uo = [] \<and>
      length (rs_phases rs) = 6 \<and> (\<forall>pp \<in> set (rs_phases rs). phase_ok I pp) \<and>
      map cr_Rule (rs_all rs) = sort_key (\<lambda>r. (Phase r, ID r)) rules \<and>
      (\<forall>p. phase_Valid p \<longrightarrow> map cr_Rule (PhaseRules rs p) = sort_key ID (filter (\<lambda>r. Phase r = p) rules)) \<and>
      mset (concat (map pp_rules (rs_phases rs))) = mset (rs_all rs) \<and>
      rep_Rules (rs_report rs) = length rules \<and>
      rep_Prefiltered (rs_report rs) + length (rep_Unconditional (rs_report rs)) = length rules \<and>
      (\<forall>k. ruleset_Reads rs k \<longleftrightarrow> k < 64 \<and> (\<exists>r \<in> set rules. \<exists>t \<in> set (Targets r). Kind t = k)))"
proof (cases "validate rules uo = []")
  case True
  let ?sorted = "sort_key (\<lambda>r. (Phase r, ID r)) rules"
  let ?s = "fold (compile_rule I) ?sorted compile_init"
  have v: "\<forall>r \<in> set rules. phase_Valid (Phase r)"
    using validate_phases [of uo 0 "[]" rules] True field_errors_phase by (auto simp: validate_def)
  then have "\<forall>r \<in> set ?sorted. unat (Phase r) < 6" by (simp add: phase_Valid_unat)
  from state_ok_fold [OF state_ok_init this] have S: "state_ok I ?sorted ?s" by simp
  then have "\<forall>plan \<in> set (cs_phases ?s). plan_ok I plan" by (simp add: state_ok_def)
  from finish_plans_spec [OF ords this] obtain pps where
    pps: "finish_plans I ords (cs_byID ?s) 0 (cs_phases ?s) = Some pps"
      "list_all2 (\<lambda>plan pp. phase_ok I pp \<and> pp_rules pp = op_rules plan) (cs_phases ?s) pps" by blast
  then obtain rs where rs: "Compile I ords rules uo = Some (Inr rs)"
    "rs_phases rs = pps" "rs_all rs = cs_all ?s" "rs_targets rs = cs_targets ?s"
    "rep_Rules (rs_report rs) = length (cs_all ?s)"
    "rep_Prefiltered (rs_report rs) = cs_prefiltered ?s"
    "rep_Unconditional (rs_report rs) = cs_uncond ?s"
    using True by (simp add: Compile_def Let_def)
  have len: "length pps = 6" using list_all2_lengthD [OF pps(2)] S by (simp add: state_ok_def)
  have nth: "phase_ok I (pps ! j) \<and> pp_rules (pps ! j) = op_rules (cs_phases ?s ! j)" if "j < 6" for j
    using pps(2) that len by (auto simp: list_all2_conv_all_nth)
  have all_ok: "\<forall>pp \<in> set pps. phase_ok I pp" using nth len by (auto simp: in_set_conv_nth)
  have phases: "map cr_Rule (PhaseRules rs p) = sort_key ID (filter (\<lambda>r. Phase r = p) rules)"
    if p: "phase_Valid p" for p
  proof -
    have "unat p < 6" using p by (rule phase_Valid_unat)
    then have "map cr_Rule (PhaseRules rs p) = filter (\<lambda>r. unat (Phase r) = unat p) ?sorted"
      using p nth S by (simp add: PhaseRules_def rs(2) state_ok_def)
    also have "\<dots> = filter (\<lambda>r. Phase r = p) ?sorted" by (simp add: word_unat_eq_iff)
    finally show ?thesis by (simp only: sorted_phase)
  qed
  from S have S_all: "map cr_Rule (cs_all ?s) = ?sorted"
    and S_unc: "map ur_ID (cs_uncond ?s) = map (\<lambda>cr. ID (cr_Rule cr)) (filter cr_unconditional (cs_all ?s))"
    by (simp_all add: state_ok_def)
  have "map pp_rules pps = map op_rules (cs_phases ?s)"
    using nth len S by (intro nth_equalityI) (auto simp: state_ok_def)
  moreover have "length (cs_all ?s) = length rules"
    using arg_cong [OF S_all, of length] by simp
  moreover have "cs_prefiltered ?s + length (cs_uncond ?s) = length (cs_all ?s)"
  proof -
    have "length (cs_uncond ?s) = length (filter cr_unconditional (cs_all ?s))"
      using arg_cong [OF S_unc, of length] by simp
    then show ?thesis using S sum_length_filter_compl [of cr_unconditional "cs_all ?s"]
      by (simp add: state_ok_def)
  qed
  moreover have "ruleset_Reads rs k \<longleftrightarrow> k < 64 \<and> (\<exists>r \<in> set rules. \<exists>t \<in> set (Targets r). Kind t = k)" for k
  proof (cases "k < 64")
    case k: True
    then have k64: "unat k < 64" by (simp add: byte_simps)
    have "bit (cs_targets ?s) (unat k) \<longleftrightarrow> (\<exists>r \<in> set rules. \<exists>t \<in> set (Targets r). unat (Kind t) = unat k)"
      using S k64 by (simp add: state_ok_def)
    with k show ?thesis
      unfolding ruleset_Reads_def rs(4) AND_bit_u64 [OF k64] by (simp add: word_unat_eq_iff)
  qed (simp add: ruleset_Reads_def)
  ultimately show ?thesis using True rs len all_ok phases S
    by (simp add: state_ok_def)
next
  case False
  then show ?thesis by (simp add: Compile_def Let_def)
qed

end
