(* ===== verification/Interpret.thy ===== *)
theory Interpret
  imports Prelude
begin

unbundle bit_operations_syntax

text \<open>
  The plausible readings of an ambiguous value (internal/interpret/interpret.go): \<open>Detect\<close>, the
  decoders, and \<open>Set.Build\<close>.

  A decoder \<open>f(dst, src)\<close> appends to \<open>dst[:0]\<close>; here it returns what it appends. A loop over an
  index is a recursion over the rest of the input, and a helper that reads at an index,
  \<open>g(src, i)\<close>, is \<open>g\<close> of the input from \<open>i\<close> on, with the positions it returns relative to \<open>i\<close>.
  The two decoders that work in place are written on the array, with list updates.
\<close>

section \<open>Classes\<close>

type_synonym class_set = "16 word"

abbreviation ClassDoubleEncoded :: class_set where "ClassDoubleEncoded \<equiv> 1"
abbreviation ClassSeparator :: class_set where "ClassSeparator \<equiv> 2"
abbreviation ClassNullTruncate :: class_set where "ClassNullTruncate \<equiv> 4"
abbreviation ClassOverlongUTF8 :: class_set where "ClassOverlongUTF8 \<equiv> 8"
abbreviation ClassUTF7 :: class_set where "ClassUTF7 \<equiv> 16"
abbreviation ClassHTMLEntity :: class_set where "ClassHTMLEntity \<equiv> 32"
abbreviation ClassMultiEncoded :: class_set where "ClassMultiEncoded \<equiv> 64"
abbreviation ClassPercentU :: class_set where "ClassPercentU \<equiv> 128"
abbreviation ClassBestFit :: class_set where "ClassBestFit \<equiv> 256"
abbreviation ClassStringConcat :: class_set where "ClassStringConcat \<equiv> 512"
abbreviation ClassUTF16 :: class_set where "ClassUTF16 \<equiv> 1024"

abbreviation MaxReadings :: nat where "MaxReadings \<equiv> 13"
abbreviation maxEntityLen :: nat where "maxEntityLen \<equiv> 32"

definition class_Any :: "class_set \<Rightarrow> bool" where
  "class_Any c \<longleftrightarrow> c \<noteq> 0"

definition class_Has :: "class_set \<Rightarrow> class_set \<Rightarrow> bool" where
  "class_Has c want \<longleftrightarrow> c AND want \<noteq> 0"

definition class_names :: "(class_set \<times> string) list" where
  "class_names =
     [(ClassDoubleEncoded, ''double_encoded''), (ClassSeparator, ''separator''),
      (ClassNullTruncate, ''null_truncate''), (ClassOverlongUTF8, ''overlong_utf8''),
      (ClassUTF7, ''utf7''), (ClassHTMLEntity, ''html_entity''),
      (ClassMultiEncoded, ''multi_encoded''), (ClassPercentU, ''percent_u''),
      (ClassStringConcat, ''string_concat''), (ClassBestFit, ''best_fit''), (ClassUTF16, ''utf16'')]"

definition class_String :: "class_set \<Rightarrow> string" where
  "class_String c =
     (if c = 0 then ''none''
      else fold (\<lambda>(k, name) out.
        if class_Has c k then (if 0 < length out then out @ ''|'' else out) @ name else out)
        class_names '''')"

section \<open>Character classes\<close>

definition isAlpha :: "byte \<Rightarrow> bool" where
  "isAlpha c \<longleftrightarrow> 97 \<le> c \<and> c \<le> 122 \<or> 65 \<le> c \<and> c \<le> 90"

definition isHexDigit :: "byte \<Rightarrow> bool" where
  "isHexDigit c \<longleftrightarrow> 48 \<le> c \<and> c \<le> 57 \<or> 97 \<le> c \<and> c \<le> 102 \<or> 65 \<le> c \<and> c \<le> 70"

definition isASCIIPrint :: "byte \<Rightarrow> bool" where
  "isASCIIPrint b \<longleftrightarrow> 32 \<le> b \<and> b < 127"

definition isUTF7Base64 :: "byte \<Rightarrow> bool" where
  "isUTF7Base64 c \<longleftrightarrow> 65 \<le> c \<and> c \<le> 90 \<or> 97 \<le> c \<and> c \<le> 122 \<or> 48 \<le> c \<and> c \<le> 57 \<or> c = 43 \<or> c = 47"

definition unhex :: "byte \<Rightarrow> byte option" where
  "unhex c =
     (if 48 \<le> c \<and> c \<le> 57 then Some (c - 48)
      else if 97 \<le> c \<and> c \<le> 102 then Some (c - 97 + 10)
      else if 65 \<le> c \<and> c \<le> 70 then Some (c - 65 + 10)
      else None)"

definition digitValue :: "byte \<Rightarrow> nat \<Rightarrow> nat option" where
  "digitValue c base =
     (case (if 48 \<le> c \<and> c \<le> 57 then Some (unat (c - 48))
            else if 97 \<le> c \<and> c \<le> 102 then Some (unat (c - 97) + 10)
            else if 65 \<le> c \<and> c \<le> 70 then Some (unat (c - 65) + 10)
            else None) of
        None \<Rightarrow> None
      | Some v \<Rightarrow> if base \<le> v then None else Some v)"

definition utf7Value :: "byte \<Rightarrow> byte option" where
  "utf7Value c =
     (if 65 \<le> c \<and> c \<le> 90 then Some (c - 65)
      else if 97 \<le> c \<and> c \<le> 122 then Some (c - 97 + 26)
      else if 48 \<le> c \<and> c \<le> 57 then Some (c - 48 + 52)
      else if c = 43 then Some 62
      else if c = 47 then Some 63
      else None)"

definition hexVal :: "byte \<Rightarrow> byte" where
  "hexVal c =
     (if 48 \<le> c \<and> c \<le> 57 then c - 48
      else if 97 \<le> c \<and> c \<le> 102 then c - 97 + 10
      else c - 65 + 10)"

fun hasPercent :: "gobytes \<Rightarrow> bool" where
  "hasPercent [] = False"
| "hasPercent (c # cs) = (if c = 37 then True else hasPercent cs)"

text \<open>\<open>hi<<4 | lo\<close> of two hex digits, when both are.\<close>

definition hex_byte :: "byte \<Rightarrow> byte \<Rightarrow> byte option" where
  "hex_byte h l =
     (case unhex h of None \<Rightarrow> None
      | Some hi \<Rightarrow> (case unhex l of None \<Rightarrow> None | Some lo \<Rightarrow> Some (push_bit 4 hi OR lo)))"

fun hex4_loop :: "nat \<Rightarrow> gobytes \<Rightarrow> 16 word \<Rightarrow> 16 word option" where
  "hex4_loop 0 s v = Some v"
| "hex4_loop (Suc k) s v =
     (case unhex (hd s) of None \<Rightarrow> None
      | Some d \<Rightarrow> hex4_loop k (tl s) (push_bit 4 v OR ucast d))"

definition hex4 :: "gobytes \<Rightarrow> 16 word option" where
  "hex4 src = (if length src < 4 then None else hex4_loop 4 src 0)"

definition bestFitASCII :: "16 word \<Rightarrow> byte option" where
  "bestFitASCII r = map_of
     [(0x2215, 47), (0x2044, 47), (0xFF0F, 47), (0xFF3C, 92), (0xFF0E, 46), (0xFF07, 39),
      (0x2032, 39), (0x02BC, 39), (0xFF1C, 60), (0xFF1E, 62), (0xFF08, 40), (0xFF09, 41),
      (0xFF1D, 61), (0xFF5C, 124), (0xFF1B, 59), (0xFF06, 38), (0xFF04, 36), (0xFF40, 96)] r"

text \<open>The result is the byte and the number of source bytes it occupies, 0 for none.\<close>

definition percentByteAt :: "gobytes \<Rightarrow> byte \<times> nat" where
  "percentByteAt s =
     (if length s = 0 then (0, 0)
      else if s ! 0 = 37 \<and> 2 < length s then
        (case hex_byte (s ! 1) (s ! 2) of Some b \<Rightarrow> (b, 3) | None \<Rightarrow> (0, 0))
      else (s ! 0, 1))"

definition rune3 :: "byte \<Rightarrow> byte \<Rightarrow> byte \<Rightarrow> 16 word" where
  "rune3 b b1 b2 =
     push_bit 12 (ucast (b AND 0x0f)) OR push_bit 6 (ucast (b1 AND 0x3f)) OR ucast (b2 AND 0x3f)"

definition rune2 :: "byte \<Rightarrow> byte \<Rightarrow> 16 word" where
  "rune2 b b1 = push_bit 6 (ucast (b AND 0x1f)) OR ucast (b1 AND 0x3f)"

definition percentRuneAt :: "gobytes \<Rightarrow> 16 word \<times> nat" where
  "percentRuneAt s =
     (case percentByteAt s of (b, n) \<Rightarrow>
        if n = 0 then (0, 0)
        else if b AND 0xf0 = 0xe0 then
          (case percentByteAt (drop n s) of (b1, n1) \<Rightarrow>
           case percentByteAt (drop (n + n1) s) of (b2, n2) \<Rightarrow>
             if n1 = 0 \<or> n2 = 0 \<or> b1 AND 0xc0 \<noteq> 0x80 \<or> b2 AND 0xc0 \<noteq> 0x80 then (0, 0)
             else (rune3 b b1 b2, n + n1 + n2))
        else if b AND 0xe0 = 0xc0 then
          (case percentByteAt (drop n s) of (b1, n1) \<Rightarrow>
             if n1 = 0 \<or> b1 AND 0xc0 \<noteq> 0x80 then (0, 0)
             else (rune2 b b1, n + n1))
        else (0, 0))"

definition decodeRune :: "gobytes \<Rightarrow> 16 word \<times> nat" where
  "decodeRune b =
     (if 3 \<le> length b \<and> b ! 0 AND 0xf0 = 0xe0 \<and> b ! 1 AND 0xc0 = 0x80 \<and> b ! 2 AND 0xc0 = 0x80
      then (rune3 (b ! 0) (b ! 1) (b ! 2), 3)
      else if 2 \<le> length b \<and> b ! 0 AND 0xe0 = 0xc0 \<and> b ! 1 AND 0xc0 = 0x80
      then (rune2 (b ! 0) (b ! 1), 2)
      else (0, 0))"

definition hasUTF16BOM :: "gobytes \<Rightarrow> bool" where
  "hasUTF16BOM src \<longleftrightarrow>
     2 \<le> length src \<and> (src ! 0 = 0xFF \<and> src ! 1 = 0xFE \<or> src ! 0 = 0xFE \<and> src ! 1 = 0xFF)"

definition isUTF16Interleave :: "gobytes \<Rightarrow> nat \<Rightarrow> bool" where
  "isUTF16Interleave src i =
     (if \<not> (0 < i \<and> isASCIIPrint (src ! (i - 1)) \<or> i + 1 < length src \<and> isASCIIPrint (src ! (i + 1)))
      then False
      else 2 \<le> i \<and> src ! (i - 2) = 0 \<or> i + 2 < length src \<and> src ! (i + 2) = 0)"

text \<open>The length of the modified-base64 run, at most \<open>maxEntityLen\<close>: \<open>utf7RunEnd(src, i) - (i + 1)\<close>
  of the input after \<open>i\<close>.\<close>

fun utf7_run :: "nat \<Rightarrow> gobytes \<Rightarrow> nat" where
  "utf7_run k [] = 0"
| "utf7_run k (c # cs) = (if 0 < k \<and> isUTF7Base64 c then Suc (utf7_run (k - 1) cs) else 0)"

section \<open>Detection\<close>

definition ambiguityLead :: "byte \<Rightarrow> bool" where
  "ambiguityLead c \<longleftrightarrow> c \<in> set [37, 92, 0, 0xc0, 0xc1, 43, 38, 0xca, 0xe2, 0xef, 39, 34]"

definition is_blank :: "byte \<Rightarrow> bool" where
  "is_blank c \<longleftrightarrow> c = 32 \<or> c = 9"

definition at :: "gobytes \<Rightarrow> nat \<Rightarrow> byte \<Rightarrow> bool" where
  "at s i c \<longleftrightarrow> i < length s \<and> s ! i = c"

definition detect_quote :: "gobytes \<Rightarrow> class_set" where
  "detect_quote rest =
     (case dropWhile is_blank rest of
        c # more' \<Rightarrow>
          if c = 46 \<or> c = 43 then
            (case dropWhile is_blank more' of
               q # _ \<Rightarrow> if q = 39 \<or> q = 34 then ClassStringConcat else 0
             | [] \<Rightarrow> 0)
          else 0
      | [] \<Rightarrow> 0)"

text \<open>\<open>case '%'\<close>, on the input from the percent sign on.\<close>

definition detect_percent :: "gobytes \<Rightarrow> class_set" where
  "detect_percent s =
     (if at s 1 50 \<and> (at s 2 53 \<or> at s 2 21)
      then ClassDoubleEncoded OR
        (if at s 3 50 \<and> (at s 4 53 \<or> at s 4 21) then ClassMultiEncoded else 0)
      else 0) OR
     (if at s 1 37 then ClassDoubleEncoded else 0) OR
     (if at s 1 48 \<and> at s 2 48 then ClassNullTruncate else 0) OR
     (if 5 < length s \<and> (s ! 1 = 117 \<or> s ! 1 = 85) \<and> hex4 (drop 2 s) \<noteq> None then ClassPercentU else 0) OR
     (case percentRuneAt s of (r, n) \<Rightarrow>
        if 0 < n \<and> bestFitASCII r \<noteq> None then ClassBestFit else 0) OR
     (case percentByteAt s of (b, n) \<Rightarrow>
        if n = 3 \<and> b = 38 then
          (case percentByteAt (drop n s) of (nb, _) \<Rightarrow>
             if nb = 35 \<or> isAlpha nb then ClassHTMLEntity else 0)
        else 0) OR
     (case percentByteAt s of (b, n) \<Rightarrow>
        if n = 3 \<and> b = 43 then
          let j = utf7_run maxEntityLen (drop (n + 1) s) + (n + 1) in
          if n < j \<and> at s j 45 then ClassUTF7 else 0
        else 0) OR
     (case percentByteAt s of (b, n) \<Rightarrow> if n = 3 \<and> b = 92 then ClassSeparator else 0) OR
     (if 2 < length s then
        (case hex_byte (s ! 1) (s ! 2) of
           Some b \<Rightarrow> if b = 0xc0 \<or> b = 0xc1 \<or> b = 0xe0 then ClassOverlongUTF8 else 0
         | None \<Rightarrow> 0)
      else 0)"

definition detect_backslash :: "gobytes \<Rightarrow> class_set" where
  "detect_backslash s =
     ClassSeparator OR
     (if 1 < length s then
        (let n = s ! 1 in
         if (n = 120 \<or> n = 88) \<and> 3 < length s \<and> isHexDigit (s ! 2) \<and> isHexDigit (s ! 3)
         then ClassStringConcat
         else if 48 \<le> n \<and> n \<le> 55 then ClassStringConcat else 0)
      else 0)"

definition detect_at :: "gobytes \<Rightarrow> nat \<Rightarrow> class_set" where
  "detect_at src i =
     (let s = drop i src; c = src ! i in
      if \<not> ambiguityLead c then 0
      else if c = 39 \<or> c = 34 then detect_quote (tl s)
      else if c = 37 then detect_percent s
      else if c = 92 then detect_backslash s
      else if c = 0 then
        ClassNullTruncate OR (if isUTF16Interleave src i then ClassUTF16 else 0)
      else if c = 0xc0 \<or> c = 0xc1 then ClassOverlongUTF8
      else if c = 0xca \<or> c = 0xe2 \<or> c = 0xef then
        (case decodeRune s of (r, n) \<Rightarrow>
           if 0 < n \<and> bestFitASCII r \<noteq> None then ClassBestFit else 0)
      else if c = 43 then
        (let j = utf7_run maxEntityLen (tl s) + 1 in
         if 1 < j \<and> at s j 45 then ClassUTF7 else 0)
      else if c = 38 then
        (if 1 < length s \<and> (s ! 1 = 35 \<or> isAlpha (s ! 1)) then ClassHTMLEntity else 0)
      else 0)"

definition Detect :: "gobytes \<Rightarrow> class_set" where
  "Detect src =
     fold (\<lambda>i c. c OR detect_at src i) [0..<length src]
       (if hasUTF16BOM src then ClassUTF16 else 0)"

section \<open>Percent decoding\<close>

function (sequential) urlDecodeInto :: "gobytes \<Rightarrow> gobytes" where
  "urlDecodeInto [] = []"
| "urlDecodeInto (c # rest) =
     (if c = 43 then 32 # urlDecodeInto rest
      else if c = 37 \<and> 1 < length rest then
        (case hex_byte (rest ! 0) (rest ! 1) of
           Some b \<Rightarrow> b # urlDecodeInto (drop 2 rest)
         | None \<Rightarrow> c # urlDecodeInto rest)
      else c # urlDecodeInto rest)"
  by pat_completeness auto
termination by (relation "measure length") auto

text \<open>In place: \<open>w\<close> is the write cursor, \<open>i\<close> the read cursor.\<close>

function url_inplace :: "gobytes \<Rightarrow> nat \<Rightarrow> nat \<Rightarrow> gobytes \<times> nat" where
  "url_inplace b w i =
     (if i < length b then
        (case (if b ! i = 37 \<and> i + 2 < length b then hex_byte (b ! (i + 1)) (b ! (i + 2)) else None) of
           Some v \<Rightarrow> url_inplace (b[w := v]) (Suc w) (i + 3)
         | None \<Rightarrow> url_inplace (b[w := b ! i]) (Suc w) (Suc i))
      else (b, w))"
  by pat_completeness auto
termination by (relation "measure (\<lambda>(b, w, i). length b - i)") auto

declare url_inplace.simps [simp del]

definition urlDecodeInPlace :: "gobytes \<Rightarrow> gobytes \<times> nat" where
  "urlDecodeInPlace b = url_inplace b 0 0"

fun repeat_decode :: "nat \<Rightarrow> gobytes \<Rightarrow> gobytes" where
  "repeat_decode 0 dst = dst"
| "repeat_decode (Suc k) dst =
     (if \<not> hasPercent dst then dst
      else case urlDecodeInPlace dst of (b, n) \<Rightarrow>
        if n = length dst then b else repeat_decode k (take n b))"

definition urlDecodeRepeatedInto :: "gobytes \<Rightarrow> gobytes" where
  "urlDecodeRepeatedInto src = repeat_decode 3 (urlDecodeInto src)"

section \<open>Best fit, %u, separators, NUL, overlong\<close>

function (sequential) foldBestFitInto :: "gobytes \<Rightarrow> gobytes" where
  "foldBestFitInto [] = []"
| "foldBestFitInto (c # rest) =
     (let s = c # rest; (r, n) = percentRuneAt s in
      case (if 0 < n then bestFitASCII r else None) of
        Some b \<Rightarrow> b # foldBestFitInto (drop n s)
      | None \<Rightarrow>
          (let (r', m) = decodeRune s in
           if 0 < m then
             (case bestFitASCII r' of
                Some b \<Rightarrow> b # foldBestFitInto (drop m s)
              | None \<Rightarrow> take m s @ foldBestFitInto (drop m s))
           else c # foldBestFitInto rest))"
  by pat_completeness auto
termination by (relation "measure length") (auto split: if_splits)

definition FoldBestFit :: "gobytes \<Rightarrow> gobytes \<times> bool" where
  "FoldBestFit src =
     (if \<not> class_Has (Detect src) ClassBestFit then (src, False) else (foldBestFitInto src, True))"

function (sequential) decodePercentUInto :: "gobytes \<Rightarrow> gobytes" where
  "decodePercentUInto [] = []"
| "decodePercentUInto (c # rest) =
     (case (if c = 37 \<and> 4 < length rest \<and> (rest ! 0 = 117 \<or> rest ! 0 = 85)
            then hex4 (drop 1 rest) else None) of
        Some v \<Rightarrow>
          (if v < 0x80 then ucast v
           else case bestFitASCII v of Some b \<Rightarrow> b | None \<Rightarrow> ucast v) # decodePercentUInto (drop 5 rest)
      | None \<Rightarrow> c # decodePercentUInto rest)"
  by pat_completeness auto
termination by (relation "measure length") auto

function (sequential) backslashToSlashInto :: "gobytes \<Rightarrow> gobytes" where
  "backslashToSlashInto [] = []"
| "backslashToSlashInto (c # rest) =
     (case percentByteAt (c # rest) of (b, n) \<Rightarrow>
        if n = 3 \<and> b = 92 then 47 # backslashToSlashInto (drop 2 rest)
        else (if c = 92 then 47 else c) # backslashToSlashInto rest)"
  by pat_completeness auto
termination by (relation "measure length") auto

fun truncateAtNullInto :: "gobytes \<Rightarrow> gobytes" where
  "truncateAtNullInto [] = []"
| "truncateAtNullInto (c # rest) =
     (if c = 0 then []
      else if c = 37 \<and> 1 < length rest \<and> rest ! 0 = 48 \<and> rest ! 1 = 48 then []
      else c # truncateAtNullInto rest)"

function (sequential) overlong_loop :: "gobytes \<Rightarrow> gobytes" where
  "overlong_loop [] = []"
| "overlong_loop (c # rest) =
     (if (c = 0xc0 \<or> c = 0xc1) \<and> 0 < length rest then
        (let cont = rest ! 0 in
         if cont AND 0xc0 = 0x80
         then (push_bit 6 (c AND 0x1f) OR (cont AND 0x3f)) # overlong_loop (drop 1 rest)
         else c # overlong_loop rest)
      else if c = 0xe0 \<and> 1 < length rest then
        (let c1 = rest ! 0; c2 = rest ! 1 in
         if c1 AND 0xc0 = 0x80 \<and> c2 AND 0xc0 = 0x80 \<and> rune3 c c1 c2 < 0x80
         then ucast (rune3 c c1 c2) # overlong_loop (drop 2 rest)
         else c # overlong_loop rest)
      else c # overlong_loop rest)"
  by pat_completeness auto
termination by (relation "measure length") auto

definition decodeOverlongInto :: "gobytes \<Rightarrow> gobytes" where
  "decodeOverlongInto src =
     overlong_loop (if hasPercent src then urlDecodeInto src else src)"

section \<open>UTF-16 and UTF-7\<close>

definition decodeUTF16Into :: "gobytes \<Rightarrow> gobytes" where
  "decodeUTF16Into src =
     filter (\<lambda>b. b \<noteq> 0) (if hasUTF16BOM src then drop 2 src else src)"

text \<open>The units of a run: the accumulator is 32 bits wide, at most \<open>maxEntityLen\<close> units are kept.\<close>

fun utf7_units :: "gobytes \<Rightarrow> u32 \<Rightarrow> nat \<Rightarrow> 16 word list \<Rightarrow> 16 word list" where
  "utf7_units [] acc bits units = units"
| "utf7_units (c # cs) acc bits units =
     (case utf7Value c of
        None \<Rightarrow> units
      | Some v \<Rightarrow>
          let acc = push_bit 6 acc OR ucast v; bits = bits + 6 in
          if 16 \<le> bits then
            utf7_units cs acc (bits - 16)
              (if length units < maxEntityLen then units @ [ucast (drop_bit (bits - 16) acc)] else units)
          else utf7_units cs acc bits units)"

definition decodeUTF7Run :: "gobytes \<Rightarrow> gobytes" where
  "decodeUTF7Run run = map ucast (filter (\<lambda>u. u < 0x80) (utf7_units run 0 0 []))"

function (sequential) utf7Decode :: "gobytes \<Rightarrow> gobytes" where
  "utf7Decode [] = []"
| "utf7Decode (c # rest) =
     (if c \<noteq> 43 then c # utf7Decode rest
      else if 0 < length rest \<and> rest ! 0 = 45 then 43 # utf7Decode (drop 1 rest)
      else let n = utf7_run maxEntityLen rest in
        if n = 0 then 43 # utf7Decode rest
        else decodeUTF7Run (take n rest) @
          utf7Decode (drop (if at rest n 45 then n + 1 else n) rest))"
  by pat_completeness auto
termination by (relation "measure length") auto

definition decodeUTF7Into :: "gobytes \<Rightarrow> gobytes" where
  "decodeUTF7Into src = utf7Decode (if hasPercent src then urlDecodeInto src else src)"

section \<open>Entities\<close>

type_synonym rune = "32 word"

definition namedEntities :: "(gobytes \<times> rune) list" where
  "namedEntities =
     [(ascii ''&quot;'', 34), (ascii ''&apos;'', 39), (ascii ''&amp;'', 38), (ascii ''&lt;'', 60),
      (ascii ''&gt;'', 62), (ascii ''&#39;'', 39), (ascii ''&sol;'', 47), (ascii ''&bsol;'', 92),
      (ascii ''&colon;'', 58), (ascii ''&lpar;'', 40), (ascii ''&rpar;'', 41),
      (ascii ''&period;'', 46), (ascii ''&NewLine;'', 10), (ascii ''&Tab;'', 9)]"

fun named_loop :: "(gobytes \<times> rune) list \<Rightarrow> gobytes \<Rightarrow> (rune \<times> nat) option" where
  "named_loop [] s = None"
| "named_loop ((name, r) # es) s =
     (if length name \<le> length s \<and> take (length name) s = name then Some (r, length name)
      else named_loop es s)"

text \<open>At most \<open>k\<close> more digits; a rune is a signed 32-bit integer and its arithmetic wraps.\<close>

fun entity_digits :: "nat \<Rightarrow> nat \<Rightarrow> gobytes \<Rightarrow> rune \<Rightarrow> nat \<Rightarrow> rune \<times> nat" where
  "entity_digits k base [] v n = (v, n)"
| "entity_digits k base (c # cs) v n =
     (if k = 0 then (v, n)
      else case digitValue c base of
        None \<Rightarrow> (v, n)
      | Some d \<Rightarrow> entity_digits (k - 1) base cs (v * of_nat base + of_nat d) (Suc n))"

definition decodeEntityAt :: "gobytes \<Rightarrow> (rune \<times> nat) option" where
  "decodeEntityAt s =
     (if length s < 3 \<or> s ! 0 \<noteq> 38 then None
      else if s ! 1 = 35 then
        (let hex = (at s 2 120 \<or> at s 2 88);
             start = (if hex then 3 else 2);
             (v, n) = entity_digits 8 (if hex then 16 else 10) (drop start s) 0 0;
             i = start + n
         in if n = 0 then None
            else let i = (if at s i 59 then i + 1 else i) in
              if 0x10FFFF < sint v then None else Some (v, i))
      else named_loop namedEntities s)"

definition appendRune :: "rune \<Rightarrow> gobytes" where
  "appendRune r =
     (if sint r < 0x80 then [ucast r]
      else if sint r < 0x800 then [ucast (0xc0 OR drop_bit 6 r), ucast (0x80 OR (r AND 0x3f))]
      else if sint r < 0x10000 then
        [ucast (0xe0 OR drop_bit 12 r), ucast (0x80 OR (drop_bit 6 r AND 0x3f)),
         ucast (0x80 OR (r AND 0x3f))]
      else [ucast (0xf0 OR drop_bit 18 r), ucast (0x80 OR (drop_bit 12 r AND 0x3f)),
            ucast (0x80 OR (drop_bit 6 r AND 0x3f)), ucast (0x80 OR (r AND 0x3f))])"

lemma named_loop_size:
  "named_loop es s = Some (r, n) \<Longrightarrow> \<forall>(name, r) \<in> set es. name \<noteq> [] \<Longrightarrow> 0 < n"
  by (induction es s rule: named_loop.induct) (auto split: if_splits)

lemma decodeEntityAt_size: "decodeEntityAt s = Some (r, n) \<Longrightarrow> 0 < n"
  by (auto simp: decodeEntityAt_def namedEntities_def Let_def split: if_splits prod.splits
      dest: named_loop_size)

text \<open>The loop when nothing was percent encoded. \<open>byte(r)\<close> for \<open>r < 0x80\<close> is \<open>appendRune\<close> there.\<close>

function (sequential) entities_loop :: "gobytes \<Rightarrow> gobytes" where
  "entities_loop [] = []"
| "entities_loop (c # rest) =
     (if c \<noteq> 38 then c # entities_loop rest
      else case decodeEntityAt (c # rest) of
        Some (r, n) \<Rightarrow>
          (if sint r < 0x80 then [ucast r] else appendRune r) @ entities_loop (drop n (c # rest))
      | None \<Rightarrow> 38 # entities_loop rest)"
  by pat_completeness auto
termination by (relation "measure length") (auto dest: decodeEntityAt_size simp: gr0_conv_Suc)

function entities_inplace :: "gobytes \<Rightarrow> nat \<Rightarrow> nat \<Rightarrow> gobytes \<times> nat" where
  "entities_inplace b w i =
     (if i < length b then
        if b ! i \<noteq> 38 then entities_inplace (b[w := b ! i]) (Suc w) (Suc i)
        else case decodeEntityAt (drop i b) of
          Some (r, n) \<Rightarrow>
            let out = (if sint r < 0x80 then [ucast r] else appendRune r)
            in entities_inplace (take (length b) (take w b @ out @ drop (w + length out) b))
                 (w + length out) (i + n)
        | None \<Rightarrow> entities_inplace (b[w := 38]) (Suc w) (Suc i)
      else (b, w))"
  by pat_completeness auto

termination
  by (relation "measure (\<lambda>(b, w, i). length b - i)") (auto dest!: decodeEntityAt_size)

declare entities_inplace.simps [simp del]

definition decodeEntitiesInPlace :: "gobytes \<Rightarrow> gobytes \<times> nat" where
  "decodeEntitiesInPlace b = entities_inplace b 0 0"

definition decodeEntitiesInto :: "gobytes \<Rightarrow> gobytes" where
  "decodeEntitiesInto src =
     (if hasPercent src then
        (case decodeEntitiesInPlace (urlDecodeInto src) of (b, n) \<Rightarrow> take n b)
      else entities_loop src)"

section \<open>String concatenation\<close>

text \<open>\<open>scanQuoted\<close> from the opening quote on: the index past the run and whether it was closed.\<close>

fun quoted_loop :: "byte \<Rightarrow> gobytes \<Rightarrow> nat \<Rightarrow> nat \<times> bool" where
  "quoted_loop q [] j = (j, False)"
| "quoted_loop q [c] j = (if c = q then (j + 1, True) else (j + 1, False))"
| "quoted_loop q (c # d # ds) j =
     (if c = q then (j + 1, True)
      else if c = 92 then quoted_loop q ds (j + 2)
      else quoted_loop q (d # ds) (j + 1))"

definition scanQuoted :: "gobytes \<Rightarrow> nat \<times> bool" where
  "scanQuoted s = quoted_loop (hd s) (tl s) 1"

definition quotedContent :: "gobytes \<Rightarrow> nat \<Rightarrow> nat \<Rightarrow> bool \<Rightarrow> gobytes" where
  "quotedContent s start fin closed =
     (if closed then take (fin - 1 - start) (drop start s) else take (fin - start) (drop start s))"

definition is_quote :: "byte \<Rightarrow> bool" where
  "is_quote c \<longleftrightarrow> c = 39 \<or> c = 34 \<or> c = 96"

text \<open>The rest of the input from the joined run's quote on, \<open>None\<close> for -1.\<close>

definition joinedLiteralAt :: "gobytes \<Rightarrow> gobytes option" where
  "joinedLiteralAt s =
     (case dropWhile is_blank s of
        [] \<Rightarrow> None
      | c # more' \<Rightarrow>
          if c \<noteq> 46 \<and> c \<noteq> 43 then None
          else (case dropWhile is_blank more' of
                  [] \<Rightarrow> None
                | q # more'' \<Rightarrow> if \<not> is_quote q then None else Some (q # more'')))"

fun octal_run :: "nat \<Rightarrow> gobytes \<Rightarrow> nat \<Rightarrow> nat \<Rightarrow> nat \<times> nat" where
  "octal_run k [] v n = (v, n)"
| "octal_run k (c # cs) v n =
     (if 0 < k \<and> 48 \<le> c \<and> c \<le> 55 then octal_run (k - 1) cs (v * 8 + unat (c - 48)) (Suc n)
      else (v, n))"

definition unescapeAt :: "gobytes \<Rightarrow> gobytes \<times> nat" where
  "unescapeAt s =
     (if length s < 2 \<or> s ! 0 \<noteq> 92 then ([], 0)
      else if s ! 1 = 120 \<or> s ! 1 = 88 then
        (if 4 \<le> length s \<and> isHexDigit (s ! 2) \<and> isHexDigit (s ! 3)
         then ([push_bit 4 (hexVal (s ! 2)) OR hexVal (s ! 3)], 4) else ([], 0))
      else if s ! 1 = 110 then ([10], 2)
      else if s ! 1 = 116 then ([9], 2)
      else if s ! 1 = 114 then ([13], 2)
      else if 48 \<le> s ! 1 \<and> s ! 1 \<le> 55 then
        (case octal_run 3 (drop 1 s) 0 0 of (v, n) \<Rightarrow>
           if 0 < n \<and> v < 256 then ([of_nat v], 1 + n) else ([], 0))
      else ([], 0))"

function (sequential) appendUnescaped :: "gobytes \<Rightarrow> gobytes" where
  "appendUnescaped [] = []"
| "appendUnescaped (c # rest) =
     (case (if c = 92 \<and> 0 < length rest then unescapeAt (c # rest) else ([], 0)) of (out, adv) \<Rightarrow>
        if 0 < adv then out @ appendUnescaped (drop (adv - 1) rest)
        else c # appendUnescaped rest)"
  by pat_completeness auto
termination by (relation "measure length") auto

lemma quoted_loop_pos: "j \<le> fst (quoted_loop q s j)"
  by (induction q s j rule: quoted_loop.induct) auto

lemma scanQuoted_pos: "0 < fst (scanQuoted s)"
  using quoted_loop_pos [of 1 "hd s" "tl s"] by (simp add: scanQuoted_def)

lemma joinedLiteralAt_shorter: "joinedLiteralAt s = Some r \<Longrightarrow> length r < length s"
proof -
  assume "joinedLiteralAt s = Some r"
  then obtain c m q m' where e: "dropWhile is_blank s = c # m" "dropWhile is_blank m = q # m'" "r = q # m'"
    by (auto simp: joinedLiteralAt_def split: list.splits if_splits)
  have "length (c # m) \<le> length s" "length (q # m') \<le> length m"
    using length_dropWhile_le [of is_blank s] length_dropWhile_le [of is_blank m] e by simp_all
  then show ?thesis using e by simp
qed

text \<open>The loop over the pieces of a concatenation: what it emits and where it stops.\<close>

function join_loop :: "gobytes \<Rightarrow> gobytes \<times> gobytes" where
  "join_loop s =
     (if s = [] then ([], [])
      else case scanQuoted s of (fin, cl) \<Rightarrow>
        let out = appendUnescaped (quotedContent s 1 fin cl); rest = drop fin s in
        case joinedLiteralAt rest of
          None \<Rightarrow> (out, rest)
        | Some r \<Rightarrow> (case join_loop r of (out', rest') \<Rightarrow> (out @ out', rest')))"
  by pat_completeness auto
termination
proof (relation "measure length", goal_cases)
  case (2 s fin cl out rest r)
  then have "length r < length rest" by (auto dest: joinedLiteralAt_shorter)
  with 2 show ?case by simp
qed simp

declare join_loop.simps [simp del]

lemma join_loop_le: "length (snd (join_loop s)) \<le> length s"
proof (induction s rule: join_loop.induct)
  case (1 s)
  show ?case
  proof (cases "s = []")
    case False
    obtain fin cl where q: "scanQuoted s = (fin, cl)" by force
    show ?thesis
    proof (cases "joinedLiteralAt (drop fin s)")
      case None
      with False q show ?thesis by (subst join_loop.simps) (simp add: Let_def)
    next
      case (Some r)
      have "length (snd (join_loop r)) \<le> length r" using 1 [OF False q [symmetric] refl refl Some] .
      moreover have "length r \<le> length s" using joinedLiteralAt_shorter [OF Some] by simp
      ultimately show ?thesis using False q Some
        by (subst join_loop.simps) (simp add: Let_def case_prod_beta)
    qed
  qed (simp add: join_loop.simps)
qed

function (sequential) foldStringConcatInto :: "gobytes \<Rightarrow> gobytes" where
  "foldStringConcatInto [] = []"
| "foldStringConcatInto (c # rest) =
     (if \<not> is_quote c then c # foldStringConcatInto rest
      else case scanQuoted (c # rest) of (fin, closed) \<Rightarrow>
        let content = appendUnescaped (quotedContent (c # rest) 1 fin closed) in
        case joinedLiteralAt (drop fin (c # rest)) of
          None \<Rightarrow>
            [c] @ content @ (if closed then [(c # rest) ! (fin - 1)] else []) @
              foldStringConcatInto (drop fin (c # rest))
        | Some r \<Rightarrow>
            (case join_loop r of (out, s') \<Rightarrow> content @ out @ foldStringConcatInto s'))"
  by pat_completeness auto
termination
proof (relation "measure length", goal_cases)
  case (3 c rest fin closed content)
  then have "0 < fin" using scanQuoted_pos [of "c # rest"] by (metis fst_conv)
  then show ?case by simp
next
  case (4 c rest fin closed content r out s')
  have "length r < length (drop fin (c # rest))" using 4 by (auto dest: joinedLiteralAt_shorter)
  moreover have "length s' \<le> length r" using join_loop_le [of r] 4(5) by (metis snd_conv)
  ultimately show ?case by simp
qed auto

section \<open>Readings\<close>

text \<open>\<open>hasRawMarkup\<close>: a tag written literally, read through percent escapes.\<close>

function hasRawMarkup :: "gobytes \<Rightarrow> bool" where
  "hasRawMarkup s =
     (if s = [] then False
      else case percentByteAt s of (b, n) \<Rightarrow>
        if n = 0 then hasRawMarkup (tl s)
        else if b \<noteq> 60 then hasRawMarkup (drop n s)
        else
          (let (c, cn) = percentByteAt (drop n s);
               (c, cn) = (if 0 < cn \<and> c = 47 then percentByteAt (drop (n + cn) s) else (c, cn))
           in if 0 < cn \<and> (97 \<le> c \<and> c \<le> 122 \<or> 65 \<le> c \<and> c \<le> 90) then True
              else hasRawMarkup (drop n s)))"
  by pat_completeness auto
termination by (relation "measure length") auto

declare hasRawMarkup.simps [simp del]

record reading =
  rd_Bytes :: gobytes
  rd_Class :: class_set

text \<open>The readings built so far (\<open>readings[:n]\<close>); the reused buffers are scratch space.\<close>

record reading_set =
  rset_readings :: "reading list"
  rset_truncated :: bool

definition addDecoded ::
  "gobytes \<Rightarrow> class_set \<Rightarrow> (gobytes \<Rightarrow> gobytes) \<Rightarrow> reading_set \<Rightarrow> reading_set"
where
  "addDecoded src class fn s =
     (if MaxReadings \<le> length (rset_readings s) then s\<lparr>rset_truncated := True\<rparr>
      else let out = fn src in
        if out \<in> set (map rd_Bytes (rset_readings s)) then s
        else s\<lparr>rset_readings := rset_readings s @ [\<lparr>rd_Bytes = out, rd_Class = class\<rparr>]\<rparr>)"

definition decoders :: "(class_set \<times> (gobytes \<Rightarrow> gobytes)) list" where
  "decoders =
     [(ClassDoubleEncoded, urlDecodeInto), (ClassMultiEncoded, urlDecodeRepeatedInto),
      (ClassPercentU, decodePercentUInto), (ClassStringConcat, foldStringConcatInto),
      (ClassBestFit, foldBestFitInto), (ClassSeparator, backslashToSlashInto),
      (ClassNullTruncate, truncateAtNullInto), (ClassOverlongUTF8, decodeOverlongInto),
      (ClassUTF7, decodeUTF7Into), (ClassUTF16, decodeUTF16Into),
      (ClassHTMLEntity, decodeEntitiesInto)]"

definition wanted :: "gobytes \<Rightarrow> class_set \<Rightarrow> class_set \<Rightarrow> bool" where
  "wanted src classes k \<longleftrightarrow> class_Has classes k \<and> (k = ClassHTMLEntity \<longrightarrow> \<not> hasRawMarkup src)"

definition Set_Build :: "gobytes \<Rightarrow> class_set \<Rightarrow> reading_set" where
  "Set_Build src classes =
     (let s = \<lparr>rset_readings = [\<lparr>rd_Bytes = src, rd_Class = 0\<rparr>], rset_truncated = False\<rparr> in
      if \<not> class_Any classes then s
      else fold (\<lambda>(k, fn) s. if wanted src classes k then addDecoded src k fn s else s) decoders s)"

end
