(* ===== verification/Readings.thy ===== *)
theory Readings
  imports InterpretCorrect
begin

text \<open>
  The enumeration of readings (internal/interpret/interpret.go, \<open>Set.Build\<close>). What \<open>Build\<close> asks of
  a decoder is the locale \<open>decoder\<close>: it never returns more bytes than it was given. Every decoder
  of the source is an interpretation of it, and the bound on the enumeration follows.
\<close>

section \<open>The contract of a decoder\<close>

locale decoder =
  fixes decode :: "gobytes \<Rightarrow> gobytes"
  assumes shrinks: "length (decode s) \<le> length s"
begin

lemma decode_Nil [simp]: "decode [] = []"
  using shrinks [of "[]"] by simp

lemma addDecoded_bounded:
  assumes "\<forall>r \<in> set (rset_readings s). length (rd_Bytes r) \<le> length src"
  shows "\<forall>r \<in> set (rset_readings (addDecoded src k decode s)). length (rd_Bytes r) \<le> length src"
  using assms shrinks [of src] by (simp add: addDecoded_def Let_def)

lemma then_shrinks: "decoder g \<Longrightarrow> decoder (\<lambda>s. g (decode s))"
  by (unfold_locales) (meson decoder.shrinks shrinks order_trans)

end

lemma urlDecodeInto_length: "length (urlDecodeInto s) \<le> length s"
  by (induction s rule: urlDecodeInto.induct) (auto split: option.splits)

lemma percent_first_length:
  "length (if hasPercent s then urlDecodeInto s else s) \<le> length s"
  using urlDecodeInto_length [of s] by simp

lemma repeat_decode_length: "length (repeat_decode k s) \<le> length s"
proof (induction k arbitrary: s)
  case (Suc k)
  obtain b n where r: "urlDecodeInPlace s = (b, n)" by force
  have "length b = length s" using urlDecodeInPlace_spec [of s] r by simp
  with r Suc [of "take n b"] show ?case by auto
qed simp

interpretation double: decoder urlDecodeInto
  by unfold_locales (rule urlDecodeInto_length)

interpretation multi: decoder urlDecodeRepeatedInto
  using repeat_decode_length [of 3] urlDecodeInto_length
  by unfold_locales (metis urlDecodeRepeatedInto_def order_trans)

interpretation percent_u: decoder decodePercentUInto
proof
  show "length (decodePercentUInto s) \<le> length s" for s
    by (induction s rule: decodePercentUInto.induct) (auto split: option.splits)
qed

interpretation separator: decoder backslashToSlashInto
proof
  show "length (backslashToSlashInto s) \<le> length s" for s
    by (induction s rule: backslashToSlashInto.induct) (auto split: prod.splits)
qed

interpretation null_truncate: decoder truncateAtNullInto
proof
  show "length (truncateAtNullInto s) \<le> length s" for s
    by (induction s rule: truncateAtNullInto.induct) auto
qed

lemma overlong_loop_length: "length (overlong_loop s) \<le> length s"
proof (induction s rule: length_induct)
  case (1 s)
  have ih: "length (overlong_loop (drop k cs)) \<le> length cs" if "s = c # cs" for c cs k
  proof -
    have "length (overlong_loop (drop k cs)) \<le> length (drop k cs)"
      by (rule 1 [rule_format]) (simp add: that)
    then show ?thesis by simp
  qed
  from ih [of _ _ 0] ih [of _ _ 1] ih [of _ _ 2] show ?case
    by (cases s) (force simp: Let_def)+
qed

interpretation overlong: decoder decodeOverlongInto
  by unfold_locales
    (metis decodeOverlongInto_def overlong_loop_length percent_first_length order_trans)

interpretation utf16: decoder decodeUTF16Into
proof
  show "length (decodeUTF16Into s) \<le> length s" for s
  proof -
    have "length (decodeUTF16Into s) \<le> length (if hasUTF16BOM s then drop 2 s else s)"
      unfolding decodeUTF16Into_def by (rule length_filter_le)
    also have "\<dots> \<le> length s" by simp
    finally show ?thesis .
  qed
qed

lemma best_fit_length: "length (foldBestFitInto s) \<le> length s"
proof (induction s rule: length_induct)
  case (1 s)
  show ?case
  proof (cases s)
    case (Cons c rest)
    obtain r n where p: "percentRuneAt s = (r, n)" by force
    obtain r' m where d: "decodeRune s = (r', m)" by force
    have ih: "length (foldBestFitInto (drop k s)) \<le> length s - k" if "0 < k" for k
      using 1 [rule_format, of "drop k s"] Cons that by simp
    have m: "m \<le> length s" using d by (auto simp: decodeRune_def split: if_splits)
    show ?thesis
    proof (cases "if 0 < n then bestFitASCII r else None")
      case (Some b)
      then have "0 < n" by (auto split: if_splits)
      with ih [of n] Some p Cons show ?thesis by simp
    next
      case None
      with ih [of m] ih [of 1] m p d Cons show ?thesis by (auto simp: Let_def split: option.splits)
    qed
  qed simp
qed

interpretation best_fit: decoder foldBestFitInto
  by unfold_locales (rule best_fit_length)

text \<open>A modified-base64 run of \<open>n\<close> characters carries \<open>6 n\<close> bits, so fewer units than characters.\<close>

lemma utf7_units_length:
  "16 * length (utf7_units cs acc bits units) \<le> 16 * length units + bits + 6 * length cs"
proof (induction cs acc bits units rule: utf7_units.induct)
  case (2 c cs acc bits units)
  show ?case
  proof (cases "utf7Value c")
    case None
    then show ?thesis by simp
  next
    case (Some v)
    show ?thesis
    proof (cases "16 \<le> bits + 6")
      case True
      with 2(1) [OF Some refl refl] Some show ?thesis by (auto simp: Let_def)
    next
      case False
      with 2(2) [OF Some refl refl] Some show ?thesis by (simp add: Let_def)
    qed
  qed
qed simp

lemma decodeUTF7Run_length: "length (decodeUTF7Run run) \<le> length run"
proof -
  have "length (decodeUTF7Run run) \<le> length (utf7_units run 0 0 [])"
    by (simp add: decodeUTF7Run_def)
  with utf7_units_length [of run 0 0 "[]"] show ?thesis by simp
qed

lemma utf7_run_le: "utf7_run k s \<le> length s"
  by (induction k s rule: utf7_run.induct) auto

lemma utf7Decode_length: "length (utf7Decode s) \<le> length s"
proof (induction s rule: length_induct)
  case (1 s)
  show ?case
  proof (cases s)
    case (Cons c rest)
    have ih: "length (utf7Decode (drop k rest)) \<le> length rest - k" for k
    proof -
      have "length (utf7Decode (drop k rest)) \<le> length (drop k rest)"
        by (rule 1 [rule_format]) (simp add: Cons)
      then show ?thesis by simp
    qed
    let ?n = "utf7_run maxEntityLen rest"
    have run: "length (decodeUTF7Run (take ?n rest)) \<le> ?n"
      using decodeUTF7Run_length [of "take ?n rest"] by simp
    have "?n \<le> length rest" by (rule utf7_run_le)
    with run ih [of 0] ih [of 1] ih [of ?n] ih [of "?n + 1"] show ?thesis
      by (auto simp: Cons Let_def)
  qed simp
qed

interpretation utf7: decoder decodeUTF7Into
  by unfold_locales (metis decodeUTF7Into_def utf7Decode_length percent_first_length order_trans)

interpretation entity: decoder decodeEntitiesInto
  by unfold_locales (metis decodeEntitiesInto_eq entities_loop_length percent_first_length order_trans)

text \<open>An escape never stands for more bytes than it is written with, and a joined literal drops at
  least the quotes.\<close>

lemma octal_run_le: "octal_run k s v m = (u, n) \<Longrightarrow> m \<le> n \<and> n \<le> m + length s"
  by (induction k s v m rule: octal_run.induct) (fastforce split: if_splits)+

lemma unescapeAt_length:
  "unescapeAt s = (out, n) \<Longrightarrow> n \<le> length s \<and> length out \<le> n"
  by (auto simp: unescapeAt_def split: if_splits prod.splits dest: octal_run_le)

lemma appendUnescaped_length: "length (appendUnescaped s) \<le> length s"
proof (induction s rule: length_induct)
  case (1 s)
  show ?case
  proof (cases s)
    case (Cons c rest)
    have ih: "length (appendUnescaped (drop k rest)) \<le> length rest - k" for k
    proof -
      have "length (appendUnescaped (drop k rest)) \<le> length (drop k rest)"
        by (rule 1 [rule_format]) (simp add: Cons)
      then show ?thesis by simp
    qed
    obtain out n where u: "(if c = 92 \<and> 0 < length rest then unescapeAt (c # rest) else ([], 0)) = (out, n)"
      by force
    then have "n \<le> Suc (length rest)" "length out \<le> n"
      using unescapeAt_length [of "c # rest" out n] by (auto split: if_splits)
    with ih [of 0] ih [of "n - 1"] u show ?thesis by (auto simp: Cons)
  qed simp
qed

lemma quoted_loop_le:
  "quoted_loop q s j = (fin, cl) \<Longrightarrow> fin \<le> j + length s \<and> (cl \<longrightarrow> j < fin)"
  by (induction q s j arbitrary: fin cl rule: quoted_loop.induct) (fastforce split: if_splits)+

lemma scanQuoted_le:
  "scanQuoted s = (fin, cl) \<Longrightarrow> s \<noteq> [] \<Longrightarrow> fin \<le> length s \<and> 1 \<le> fin \<and> (cl \<longrightarrow> 2 \<le> fin)"
  using quoted_loop_le [of "hd s" "tl s" 1 fin cl] quoted_loop_pos [of 1 "hd s" "tl s"]
  by (cases s) (auto simp: scanQuoted_def)

text \<open>The content of a quoted run, with the quotes around it, is at most the run.\<close>

lemma quoted_piece_length:
  assumes "scanQuoted s = (fin, cl)" "s \<noteq> []"
  shows "length (appendUnescaped (quotedContent s 1 fin cl)) + 1 + (if cl then 1 else 0) \<le> fin"
    and "fin \<le> length s"
proof -
  from scanQuoted_le [OF assms] have f: "fin \<le> length s" "1 \<le> fin" "cl \<longrightarrow> 2 \<le> fin" by auto
  have "length (quotedContent s 1 fin cl) + 1 + (if cl then 1 else 0) \<le> fin"
    using f by (auto simp: quotedContent_def)
  with appendUnescaped_length [of "quotedContent s 1 fin cl"]
  show "length (appendUnescaped (quotedContent s 1 fin cl)) + 1 + (if cl then 1 else 0) \<le> fin" by linarith
  show "fin \<le> length s" by (rule f(1))
qed

lemma join_loop_length: "join_loop s = (out, rest) \<Longrightarrow> length out + length rest \<le> length s"
proof (induction s arbitrary: out rest rule: join_loop.induct)
  case (1 s)
  show ?case
  proof (cases "s = []")
    case True
    with 1(2) show ?thesis by (simp add: join_loop.simps)
  next
    case ne: False
    obtain fin cl where q: "scanQuoted s = (fin, cl)" by force
    note piece = quoted_piece_length [OF q ne]
    show ?thesis
    proof (cases "joinedLiteralAt (drop fin s)")
      case None
      with 1(2) ne q piece show ?thesis by (subst (asm) join_loop.simps) (auto simp: Let_def)
    next
      case (Some r)
      obtain out' rest' where j: "join_loop r = (out', rest')" by force
      have "length out' + length rest' \<le> length r" by (rule 1(1) [OF ne q [symmetric] refl refl Some j])
      with 1(2) ne q piece Some j joinedLiteralAt_shorter [OF Some]
      show ?thesis by (subst (asm) join_loop.simps) (auto simp: Let_def)
    qed
  qed
qed

lemma foldStringConcat_length: "length (foldStringConcatInto s) \<le> length s"
proof (induction s rule: length_induct)
  case (1 s)
  show ?case
  proof (cases s)
    case (Cons c rest)
    have ih: "length t < length s \<Longrightarrow> length (foldStringConcatInto t) \<le> length t" for t
      using 1 by blast
    obtain fin cl where q: "scanQuoted s = (fin, cl)" by force
    have ne: "s \<noteq> []" using Cons by simp
    note piece = quoted_piece_length [OF q ne]
    have tail: "length (foldStringConcatInto rest) \<le> length rest" by (rule ih) (simp add: Cons)
    show ?thesis
    proof (cases "joinedLiteralAt (drop fin s)")
      case None
      have "length (foldStringConcatInto (drop fin s)) \<le> length (drop fin s)"
        by (rule ih) (use piece ne in auto)
      with None q piece tail show ?thesis by (auto simp: Cons Let_def)
    next
      case (Some r)
      obtain out t where j: "join_loop r = (out, t)" by force
      note l = join_loop_length [OF j] joinedLiteralAt_shorter [OF Some]
      have "length (foldStringConcatInto t) \<le> length t"
        by (rule ih) (use l piece in auto)
      with Some q piece tail j l show ?thesis by (auto simp: Cons Let_def)
    qed
  qed simp
qed

interpretation concat: decoder foldStringConcatInto
  by unfold_locales (rule foldStringConcat_length)

section \<open>The enumeration\<close>

definition build_step ::
  "gobytes \<Rightarrow> class_set \<Rightarrow> class_set \<times> (gobytes \<Rightarrow> gobytes) \<Rightarrow> reading_set \<Rightarrow> reading_set"
where
  "build_step src classes = (\<lambda>(k, fn) s. if wanted src classes k then addDecoded src k fn s else s)"

definition produced :: "gobytes \<Rightarrow> class_set \<Rightarrow> (class_set \<times> (gobytes \<Rightarrow> gobytes)) list \<Rightarrow> reading \<Rightarrow> bool"
where
  "produced src classes ds r \<longleftrightarrow>
     (\<exists>(k, fn) \<in> set ds. wanted src classes k \<and> rd_Class r = k \<and> rd_Bytes r = fn src)"

lemma build_step_spec:
  assumes "length (rset_readings s) < MaxReadings" "distinct (map rd_Bytes (rset_readings s))"
  obtains extra where
    "rset_readings (build_step src classes (k, fn) s) = rset_readings s @ extra"
    "rset_truncated (build_step src classes (k, fn) s) = rset_truncated s"
    "length extra \<le> 1" "distinct (map rd_Bytes (rset_readings s @ extra))"
    "\<forall>r \<in> set extra. produced src classes [(k, fn)] r"
    "wanted src classes k \<longrightarrow> fn src \<in> set (map rd_Bytes (rset_readings s @ extra))"
proof (cases "wanted src classes k \<and> fn src \<notin> set (map rd_Bytes (rset_readings s))")
  case True
  with assms show ?thesis
    by (intro that [of "[\<lparr>rd_Bytes = fn src, rd_Class = k\<rparr>]"])
      (simp_all add: build_step_def addDecoded_def Let_def produced_def)
next
  case False
  with assms show ?thesis
    by (intro that [of "[]"]) (auto simp: build_step_def addDecoded_def Let_def)
qed

lemma build_fold:
  assumes "length (rset_readings s) + length ds \<le> MaxReadings" "distinct (map rd_Bytes (rset_readings s))"
  obtains extra where
    "rset_readings (fold (build_step src classes) ds s) = rset_readings s @ extra"
    "rset_truncated (fold (build_step src classes) ds s) = rset_truncated s"
    "length extra \<le> length ds" "distinct (map rd_Bytes (rset_readings s @ extra))"
    "\<forall>r \<in> set extra. produced src classes ds r"
    "\<forall>(k, fn) \<in> set ds. wanted src classes k \<longrightarrow> fn src \<in> set (map rd_Bytes (rset_readings s @ extra))"
  using assms
proof (induction ds arbitrary: s thesis)
  case Nil
  then show ?case by (intro Nil(1) [of "[]"]) simp_all
next
  case (Cons d ds)
  obtain k fn where d: "d = (k, fn)" by force
  have room: "length (rset_readings s) < MaxReadings" using Cons.prems(2) by simp
  from build_step_spec [OF room Cons.prems(3), of src classes k fn] obtain e where
    e: "rset_readings (build_step src classes d s) = rset_readings s @ e"
      "rset_truncated (build_step src classes d s) = rset_truncated s"
      "length e \<le> 1" "distinct (map rd_Bytes (rset_readings s @ e))"
      "\<forall>r \<in> set e. produced src classes [d] r"
      "wanted src classes k \<longrightarrow> fn src \<in> set (map rd_Bytes (rset_readings s @ e))"
    unfolding d by metis
  have "length (rset_readings (build_step src classes d s)) + length ds \<le> MaxReadings"
    using Cons.prems(2) e(1,3) by simp
  moreover have "distinct (map rd_Bytes (rset_readings (build_step src classes d s)))"
    using e(1,4) by simp
  ultimately obtain f where
    "rset_readings (fold (build_step src classes) ds (build_step src classes d s)) =
       rset_readings (build_step src classes d s) @ f"
    "rset_truncated (fold (build_step src classes) ds (build_step src classes d s)) =
       rset_truncated (build_step src classes d s)"
    "length f \<le> length ds" "distinct (map rd_Bytes (rset_readings (build_step src classes d s) @ f))"
    "\<forall>r \<in> set f. produced src classes ds r"
    "\<forall>(k, fn) \<in> set ds. wanted src classes k \<longrightarrow>
       fn src \<in> set (map rd_Bytes (rset_readings (build_step src classes d s) @ f))"
    by (rule Cons.IH [rotated])
  note f = this [unfolded e(1) append_assoc]
  have "\<forall>r \<in> set (e @ f). produced src classes (d # ds) r"
    using e(5) f(5) by (auto simp: produced_def)
  moreover have "\<forall>(k, fn) \<in> set (d # ds). wanted src classes k \<longrightarrow>
      fn src \<in> set (map rd_Bytes (rset_readings s @ e @ f))"
    using e(6) f(6) by (auto simp: d)
  moreover have "length (e @ f) \<le> length (d # ds)" using e(3) f(3) by simp
  ultimately show ?case
    using f(1,2,4) e(2) by (intro Cons.prems(1) [of "e @ f"]) simp_all
qed

lemma length_decoders [simp]: "length decoders = 11"
  by (simp add: decoders_def)

lemma no_class: "\<not> class_Any classes \<Longrightarrow> \<not> wanted src classes k"
  by (simp add: class_Any_def wanted_def class_Has_def)

lemma Set_Build_spec:
  obtains extra where
    "rset_readings (Set_Build src classes) = \<lparr>rd_Bytes = src, rd_Class = 0\<rparr> # extra"
    "\<not> rset_truncated (Set_Build src classes)" "length extra \<le> 11"
    "distinct (map rd_Bytes (rset_readings (Set_Build src classes)))"
    "\<forall>r \<in> set extra. produced src classes decoders r"
    "\<forall>(k, fn) \<in> set decoders. wanted src classes k \<longrightarrow>
       fn src \<in> set (map rd_Bytes (rset_readings (Set_Build src classes)))"
proof (cases "class_Any classes")
  case False
  with no_class [OF False] show ?thesis
    by (intro that [of "[]"]) (auto simp: Set_Build_def)
next
  case True
  let ?s = "\<lparr>rset_readings = [\<lparr>rd_Bytes = src, rd_Class = 0\<rparr>], rset_truncated = False\<rparr>"
  have b: "Set_Build src classes = fold (build_step src classes) decoders ?s"
    using True by (simp add: Set_Build_def build_step_def)
  have "length (rset_readings ?s) + length decoders \<le> MaxReadings" "distinct (map rd_Bytes (rset_readings ?s))"
    by simp_all
  from build_fold [OF this, of src classes] obtain extra where
    "rset_readings (Set_Build src classes) = [\<lparr>rd_Bytes = src, rd_Class = 0\<rparr>] @ extra"
    "rset_truncated (Set_Build src classes) = False" "length extra \<le> 11"
    "distinct (map rd_Bytes ([\<lparr>rd_Bytes = src, rd_Class = 0\<rparr>] @ extra))"
    "\<forall>r \<in> set extra. produced src classes decoders r"
    "\<forall>(k, fn) \<in> set decoders. wanted src classes k \<longrightarrow>
       fn src \<in> set (map rd_Bytes ([\<lparr>rd_Bytes = src, rd_Class = 0\<rparr>] @ extra))"
    unfolding b by (metis length_decoders reading_set.select_convs)
  then show ?thesis by (intro that [of extra]) simp_all
qed

text \<open>A reading whose class was not detected is the value itself for these three decoders, so they
  are never missing.\<close>

lemma reading_present:
  assumes "(k, fn) \<in> set decoders" "k \<noteq> ClassHTMLEntity"
    and "\<not> class_Has (Detect src) k \<Longrightarrow> fn src = src"
  shows "fn src \<in> set (map rd_Bytes (rset_readings (Set_Build src (Detect src))))"
proof -
  obtain extra where
    r: "rset_readings (Set_Build src (Detect src)) = \<lparr>rd_Bytes = src, rd_Class = 0\<rparr> # extra"
    and w: "\<forall>(k, fn) \<in> set decoders. wanted src (Detect src) k \<longrightarrow>
       fn src \<in> set (map rd_Bytes (rset_readings (Set_Build src (Detect src))))"
    by (rule Set_Build_spec [of src "Detect src"])
  show ?thesis
  proof (cases "class_Has (Detect src) k")
    case True
    then have "wanted src (Detect src) k" using assms(2) by (simp add: wanted_def)
    with w assms(1) show ?thesis by blast
  next
    case False
    with assms(3) r show ?thesis by simp
  qed
qed

section \<open>Repeated decoding\<close>

lemma pct_decode_same_length: "length (pct_decode s) = length s \<Longrightarrow> pct_decode s = s"
proof (induction s rule: pct_decode.induct)
  case (2 c rest)
  let ?t = "if c = 37 \<and> 1 < length rest then hex_byte (rest ! 0) (rest ! 1) else None"
  show ?case
  proof (cases ?t)
    case None
    with 2 show ?thesis by simp
  next
    case (Some v)
    then have "1 < length rest" by (auto split: if_splits)
    moreover have "length (pct_decode (c # rest)) \<le> Suc (length rest - 2)"
      using Some pct_decode_length [of "drop 2 rest"] by simp
    ultimately show ?thesis using 2(3) by simp
  qed
qed simp

lemma pct_decode_no_percent: "\<not> hasPercent s \<Longrightarrow> pct_decode s = s"
  by (induction s rule: pct_decode.induct) (auto split: if_splits)

lemma pct_decode_stable: "pct_decode s = s \<Longrightarrow> (pct_decode ^^ k) s = s"
  by (induction k) simp_all

lemma repeat_decode_passes: "repeat_decode k s = (pct_decode ^^ k) s"
proof (induction k arbitrary: s)
  case (Suc k)
  obtain b n where r: "urlDecodeInPlace s = (b, n)" by force
  then have b: "length b = length s" "take n b = pct_decode s"
    using urlDecodeInPlace_spec [of s] by auto
  show ?case
  proof (cases "hasPercent s")
    case False
    then show ?thesis
      using pct_decode_stable [OF pct_decode_no_percent [OF False], of "Suc k"] by simp
  next
    case p: True
    show ?thesis
    proof (cases "n = length s")
      case True
      with b have e: "b = pct_decode s" by simp
      with b have f: "pct_decode s = s" by (intro pct_decode_same_length) simp
      show ?thesis using p r True e f pct_decode_stable [OF f, of "Suc k"] by simp
    next
      case False
      have "(pct_decode ^^ Suc k) s = (pct_decode ^^ k) (pct_decode s)"
        by (simp only: funpow_Suc_right o_apply)
      then show ?thesis using p r False b(2) Suc by simp
    qed
  qed
qed simp

section \<open>Properties\<close>

text \<open>C15. Building the readings of a value: the verbatim value comes first, and the decoding of every
  class in the given set is in the list, with one exception, the entity reading, which is left out of a
  value that holds raw markup. No two readings are equal, at most 12 of the 13 places are used so the
  truncation flag is never set, and every reading after the first is what the decoder of its class
  computes.\<close>

theorem Build_complete:
  "\<exists>later. rset_readings (Set_Build src classes) = \<lparr>rd_Bytes = src, rd_Class = 0\<rparr> # later \<and>
     distinct (map rd_Bytes (rset_readings (Set_Build src classes))) \<and>
     length later \<le> 11 \<and> \<not> rset_truncated (Set_Build src classes) \<and>
     (\<forall>(k, fn) \<in> set decoders. wanted src classes k \<longrightarrow>
        fn src \<in> set (map rd_Bytes (rset_readings (Set_Build src classes)))) \<and>
     (\<forall>r \<in> set later. \<exists>(k, fn) \<in> set decoders.
        wanted src classes k \<and> rd_Class r = k \<and> rd_Bytes r = fn src)"
proof -
  obtain later where
    "rset_readings (Set_Build src classes) = \<lparr>rd_Bytes = src, rd_Class = 0\<rparr> # later"
    "\<not> rset_truncated (Set_Build src classes)" "length later \<le> 11"
    "distinct (map rd_Bytes (rset_readings (Set_Build src classes)))"
    "\<forall>r \<in> set later. produced src classes decoders r"
    "\<forall>(k, fn) \<in> set decoders. wanted src classes k \<longrightarrow>
       fn src \<in> set (map rd_Bytes (rset_readings (Set_Build src classes)))"
    by (rule Set_Build_spec)
  then show ?thesis unfolding produced_def by blast
qed

lemma Build_complete_witness:
  "urlDecodeInto (ascii ''%2527'')
     \<in> set (map rd_Bytes (rset_readings (Set_Build (ascii ''%2527'') ClassDoubleEncoded)))"
proof -
  have "wanted (ascii ''%2527'') ClassDoubleEncoded ClassDoubleEncoded"
    by (simp add: wanted_def class_Has_def)
  moreover have "(ClassDoubleEncoded, urlDecodeInto) \<in> set decoders" by (simp add: decoders_def)
  ultimately show ?thesis
    using Build_complete [of "ascii ''%2527''" ClassDoubleEncoded] by blast
qed

text \<open>No detection gap for three of the classes: whatever bytes a value holds, its readings
  contain the value with every backslash (also percent encoded) turned into a slash, the value cut
  at its first NUL (also percent encoded), and the value with its \<open>%u\<close> escapes decoded.\<close>

theorem Detect_gap_free:
  "{backslashToSlashInto src, truncateAtNullInto src, decodePercentUInto src}
     \<subseteq> set (map rd_Bytes (rset_readings (Set_Build src (Detect src))))"
proof -
  have "backslashToSlashInto src \<in> set (map rd_Bytes (rset_readings (Set_Build src (Detect src))))"
    by (rule reading_present [of ClassSeparator]) (simp_all add: decoders_def separator_undetected)
  moreover have "truncateAtNullInto src \<in> set (map rd_Bytes (rset_readings (Set_Build src (Detect src))))"
    by (rule reading_present [of ClassNullTruncate]) (simp_all add: decoders_def null_undetected)
  moreover have "decodePercentUInto src \<in> set (map rd_Bytes (rset_readings (Set_Build src (Detect src))))"
    by (rule reading_present [of ClassPercentU]) (simp_all add: decoders_def percentU_undetected)
  ultimately show ?thesis by simp
qed

text \<open>C18. The enumeration's output is bounded by the value: no reading is longer than the value it
  was decoded from, whatever classes are asked for, so all readings together hold at most twelve
  times its bytes.\<close>

theorem Build_bounded:
  "list_all (\<lambda>r. length (rd_Bytes r) \<le> length src) (rset_readings (Set_Build src classes)) \<and>
   sum_list (map (\<lambda>r. length (rd_Bytes r)) (rset_readings (Set_Build src classes))) \<le> 12 * length src"
proof -
  have short: "length (fn src) \<le> length src" if "(k, fn) \<in> set decoders" for k fn
    using that unfolding decoders_def
    by (auto intro: double.shrinks multi.shrinks percent_u.shrinks concat.shrinks best_fit.shrinks
        separator.shrinks null_truncate.shrinks overlong.shrinks utf7.shrinks utf16.shrinks
        entity.shrinks)
  obtain later where
    r: "rset_readings (Set_Build src classes) = \<lparr>rd_Bytes = src, rd_Class = 0\<rparr> # later"
    and n: "length later \<le> 11" and p: "\<forall>r \<in> set later. produced src classes decoders r"
    by (rule Set_Build_spec)
  have each: "\<forall>r \<in> set (rset_readings (Set_Build src classes)). length (rd_Bytes r) \<le> length src"
    using p short unfolding r by (auto simp: produced_def)
  have "sum_list (map (\<lambda>r. length (rd_Bytes r)) rs) \<le> length rs * length src"
    if "\<forall>r \<in> set rs. length (rd_Bytes r) \<le> length src" for rs
    using that by (induction rs) auto
  from this [OF each] have "sum_list (map (\<lambda>r. length (rd_Bytes r)) (rset_readings (Set_Build src classes)))
      \<le> length (rset_readings (Set_Build src classes)) * length src" .
  also have "\<dots> \<le> 12 * length src" using r n by (intro mult_right_mono) simp_all
  finally show ?thesis using each by (simp add: list_all_iff)
qed


text \<open>Decoding repeatedly, with its early exits and its in-place passes, is one form decoding
  followed by exactly three passes of percent decoding.\<close>

theorem urlDecodeRepeated_passes:
  "urlDecodeRepeatedInto src = pct_decode (pct_decode (pct_decode (urlDecodeInto src)))"
  by (simp add: urlDecodeRepeatedInto_def repeat_decode_passes numeral_3_eq_3)

end
