(* ===== verification/Engine.thy ===== *)
theory Engine
  imports RuleCompileCorrect Readings
begin

text \<open>
  Rule evaluation (internal/engine/stages.go and eval.go). The state of an evaluation is the
  evaluator's scratch state, the fuel meter and the result being accumulated; every early
  \<open>return\<close> of the source ends the loop it stands in, so the loops are \<open>iter_while\<close> and
  \<open>iter_opt\<close> (\<open>None\<close> would be an automaton scan that does not end; it never is). The per-depth
  buffers that back transformed values, the reused buffers of the readings and the backing arrays
  of the sibling view are scratch space: the values they hold are what the model keeps. A byte
  slice whose nilness is tested is an option.
\<close>

section \<open>Staged transform chains\<close>

record 't stages =
  st_src :: gobytes
  st_prev :: "'t list"
  st_step :: "(gobytes \<times> bool) list"

definition stages_zero :: "'t stages" where
  "stages_zero = \<lparr>st_src = [], st_prev = [], st_step = []\<rparr>"

definition stages_grow :: "nat \<Rightarrow> 't stages \<Rightarrow> 't stages" where
  "stages_grow depth s =
     s\<lparr>st_step := st_step s @ replicate (depth - length (st_step s)) ([], False)\<rparr>"

definition stages_reset :: "gobytes \<Rightarrow> 't stages \<Rightarrow> 't stages" where
  "stages_reset src s = s\<lparr>st_src := src, st_prev := []\<rparr>"

fun shared_prefix :: "'t list \<Rightarrow> 't list \<Rightarrow> nat" where
  "shared_prefix (c # cs) (p # ps) = (if c = p then Suc (shared_prefix cs ps) else 0)"
| "shared_prefix cs ps = 0"

text \<open>The loop from depth \<open>i\<close> on; \<open>None\<close> is the refused charge.\<close>

fun stage_loop ::
  "('t, 'o, 'a) iface \<Rightarrow> 't list \<Rightarrow> nat \<Rightarrow> gobytes \<Rightarrow> bool \<Rightarrow> (gobytes \<times> bool) list \<Rightarrow> meter \<Rightarrow>
   (gobytes \<times> bool) list \<times> meter \<times> (gobytes \<times> bool) option"
where
  "stage_loop I [] i cur transformed step m = (step, m, Some (cur, transformed))"
| "stage_loop I (t # ts) i cur transformed step m =
     (case tApply I t cur of (out, changed) \<Rightarrow>
        if changed then
          (case Spend (wrap64 (int (length out) * CostPerByteTransformed)) m of (m, ok) \<Rightarrow>
             if \<not> ok then (step, m, None)
             else stage_loop I ts (Suc i) out True (step[i := (out, True)]) m)
        else stage_loop I ts (Suc i) cur transformed (step[i := (cur, transformed)]) m)"

definition stages_apply ::
  "('t, 'o, 'a) iface \<Rightarrow> 't list \<Rightarrow> meter \<Rightarrow> 't stages \<Rightarrow>
   't stages \<times> meter \<times> (gobytes \<times> bool) option"
where
  "stages_apply I chain m s =
     (if length chain = 0 then (s, m, Some (st_src s, False))
      else
        let s = stages_grow (length chain) s;
            reuse = shared_prefix chain (st_prev s);
            (cur, transformed) =
              (if 0 < reuse then st_step s ! (reuse - 1) else (st_src s, False))
        in case stage_loop I (drop reuse chain) reuse cur transformed (st_step s) m of
             (step, m, None) \<Rightarrow> (s\<lparr>st_step := step\<rparr>, m, None)
           | (step, m, Some r) \<Rightarrow> (s\<lparr>st_step := step, st_prev := chain\<rparr>, m, Some r))"

section \<open>Values, hits and results\<close>

record eval_value =
  v_Target :: target
  v_Key :: gobytes
  v_Data :: "gobytes option"
  v_Inert :: bool

definition v_bytes :: "eval_value \<Rightarrow> gobytes" where
  "v_bytes v = (case v_Data v of None \<Rightarrow> [] | Some b \<Rightarrow> b)"

record ('t, 'o, 'a) hit =
  h_Rule :: "('t, 'o, 'a) compiled_rule"
  h_Outcome :: outcome
  h_Target :: target
  h_Key :: gobytes
  h_Match :: rmatch
  h_Transformed :: bool
  h_Reading :: class_set
  h_Matched :: gobytes

record ('t, 'o, 'a) result =
  r_Hits :: "('t, 'o, 'a) hit list"
  r_Score :: int
  r_Terminal :: bool
  r_TerminalOutcome :: outcome
  r_TerminalRule :: "('t, 'o, 'a) compiled_rule option"
  r_Exhausted :: bool
  r_Undecidable :: bool
  r_UndecidableReason :: gobytes
  r_RulesEvaluated :: nat

definition result_Reset :: "('t, 'o, 'a) result \<Rightarrow> ('t, 'o, 'a) result" where
  "result_Reset r =
     r\<lparr>r_Hits := [], r_Score := 0, r_Terminal := False, r_TerminalOutcome := outcome_zero,
       r_TerminalRule := None, r_Exhausted := False, r_Undecidable := False,
       r_UndecidableReason := [], r_RulesEvaluated := 0\<rparr>"

record 't evaluator =
  ev_candidates :: bitset
  ev_keyMaterialised :: bool
  ev_origins :: "gobytes list"
  ev_ctx :: eval_ctx
  ev_stages :: "'t stages"

definition ctx_zero :: eval_ctx where
  "ctx_zero = \<lparr>ctx_Target = \<lparr>Kind = 0, Name = []\<rparr>, ctx_Key = [], ctx_Method = None,
     ctx_RequestURI = None, ctx_Host = None, ctx_Origins = [],
     ctx_Siblings = \<lparr>arg_Names = [], arg_Values = []\<rparr>\<rparr>"

definition evaluator_zero :: "'t evaluator" where
  "evaluator_zero = \<lparr>ev_candidates = Bitset_zero, ev_keyMaterialised = False, ev_origins = [],
     ev_ctx = ctx_zero, ev_stages = stages_zero\<rparr>"

definition sizeFor :: "('t, 'o, 'a) ruleset \<Rightarrow> 't evaluator \<Rightarrow> 't evaluator" where
  "sizeFor rs e =
     (let maxRules = fold (\<lambda>p m. max m (MaxGroupRules rs p))
            [PhaseRequestHeaders, PhaseRequestBody, PhaseResponseHeaders, PhaseResponseBody,
             PhaseLogging] 0
      in e\<lparr>ev_candidates := Bitset_Grow (int maxRules) (ev_candidates e)\<rparr>)"

definition NewEvaluator :: "('t, 'o, 'a) ruleset \<Rightarrow> 't evaluator" where
  "NewEvaluator rs = sizeFor rs evaluator_zero"

definition SetOrigins :: "gobytes list \<Rightarrow> 't evaluator \<Rightarrow> 't evaluator" where
  "SetOrigins origins e = e\<lparr>ev_origins := origins\<rparr>"

section \<open>The request context\<close>

fun equalFoldASCII_loop :: "gobytes \<Rightarrow> gobytes \<Rightarrow> bool" where
  "equalFoldASCII_loop (c # cs) (d # ds) =
     (let c = (if 65 \<le> c \<and> c \<le> 90 then c + (97 - 65) else c) in
      if c \<noteq> d then False else equalFoldASCII_loop cs ds)"
| "equalFoldASCII_loop xs ys = True"

definition equalFoldASCII :: "gobytes \<Rightarrow> gobytes \<Rightarrow> bool" where
  "equalFoldASCII a b = (if length a \<noteq> length b then False else equalFoldASCII_loop a b)"

definition hostHeader :: gobytes where "hostHeader = ascii ''host''"

definition bind_value :: "eval_value \<Rightarrow> eval_ctx \<times> args \<Rightarrow> eval_ctx \<times> args" where
  "bind_value v = (\<lambda>(c, a).
     ((if Kind (v_Target v) = TargetRequestMethod then
         (if ctx_Method c = None then c\<lparr>ctx_Method := v_Data v\<rparr> else c)
       else if Kind (v_Target v) = TargetRequestURI then
         (if ctx_RequestURI c = None then c\<lparr>ctx_RequestURI := v_Data v\<rparr> else c)
       else if Kind (v_Target v) = TargetRequestHeaders then
         (if ctx_Host c = None \<and> equalFoldASCII (v_Key v) hostHeader
          then c\<lparr>ctx_Host := v_Data v\<rparr> else c)
       else c),
      (if Kind (v_Target v) = TargetArgs \<and> 0 < length (v_Key v)
       then \<lparr>arg_Names = arg_Names a @ [v_Key v], arg_Values = arg_Values a @ [v_bytes v]\<rparr>
       else a)))"

definition bindRequest :: "eval_value list \<Rightarrow> 't evaluator \<Rightarrow> 't evaluator" where
  "bindRequest values e =
     (let c = (ev_ctx e)\<lparr>ctx_Method := None, ctx_RequestURI := None, ctx_Host := None,
            ctx_Siblings := \<lparr>arg_Names = [], arg_Values = []\<rparr>, ctx_Origins := ev_origins e\<rparr>
      in case fold bind_value values (c, \<lparr>arg_Names = [], arg_Values = []\<rparr>) of
           (c, a) \<Rightarrow> e\<lparr>ev_ctx := c\<lparr>ctx_Siblings := a\<rparr>\<rparr>)"

section \<open>One rule on one value\<close>

fun targetMatches :: "target list \<Rightarrow> eval_value \<Rightarrow> bool" where
  "targetMatches [] v = False"
| "targetMatches (t # ts) v =
     (if Kind t \<noteq> Kind (v_Target v) then targetMatches ts v
      else if MatchesBytes t (v_Key v) then True
      else targetMatches ts v)"

definition matchedBytes :: "gobytes \<Rightarrow> rmatch \<Rightarrow> gobytes" where
  "matchedBytes data m =
     (if Len (m_Span m) = 0 then []
      else
        let off = unat (Off (m_Span m));
            fin = unat (Off (m_Span m)) + unat (Len (m_Span m))
        in if length data < off then []
           else let fin = (if length data < fin then length data else fin)
             in take (fin - off) (drop off data))"

record ('t, 'o, 'a) eval_state =
  es_ev :: "'t evaluator"
  es_meter :: meter
  es_out :: "('t, 'o, 'a) result"

text \<open>One action of a rule that matched; \<open>False\<close> ends the loop over the actions.\<close>

definition run_action ::
  "('t, 'o, 'a) iface \<Rightarrow> ('t, 'o, 'a) compiled_rule \<Rightarrow> eval_value \<Rightarrow> gobytes \<Rightarrow> bool \<Rightarrow> class_set \<Rightarrow>
   eval_ctx \<Rightarrow> rmatch \<Rightarrow> 'a option \<Rightarrow> ('t, 'o, 'a) result \<Rightarrow> ('t, 'o, 'a) result \<times> bool"
where
  "run_action I cr v data transformed reading ctx m action out =
     (let outcome = aRun I (the action) ctx m;
          out = out\<lparr>r_Hits := r_Hits out @
            [\<lparr>h_Rule = cr, h_Outcome = outcome, h_Target = v_Target v, h_Key = v_Key v,
              h_Match = m, h_Transformed = transformed, h_Reading = reading,
              h_Matched = matchedBytes data m\<rparr>]\<rparr>;
          out = (if out_Kind outcome = ActionScore then
            (let score = out_Score outcome;
                 score = (if score = 0 then severity_Score (Severity (cr_Rule cr)) else score)
             in out\<lparr>r_Score := wrap64 (r_Score out + score)\<rparr>)
            else out)
      in if outcome_Terminal outcome
         then (out\<lparr>r_Terminal := True, r_TerminalOutcome := outcome, r_TerminalRule := Some cr\<rparr>, False)
         else (out, True))"

text \<open>The context of one value: its target, and its key, converted at most once per value.\<close>

definition materialise :: "eval_value \<Rightarrow> 't evaluator \<Rightarrow> 't evaluator" where
  "materialise v e =
     (let e = e\<lparr>ev_ctx := (ev_ctx e)\<lparr>ctx_Target := v_Target v\<rparr>\<rparr>
      in if \<not> ev_keyMaterialised e
         then e\<lparr>ev_ctx := (ev_ctx e)\<lparr>ctx_Key := v_Key v\<rparr>, ev_keyMaterialised := True\<rparr>
         else e)"

definition evalRule ::
  "('t, 'o, 'a) iface \<Rightarrow> 'a \<Rightarrow> ('t, 'o, 'a) compiled_rule \<Rightarrow> eval_value \<Rightarrow> gobytes \<Rightarrow> bool \<Rightarrow>
   class_set \<Rightarrow> ('t, 'o, 'a) eval_state \<Rightarrow> ('t, 'o, 'a) eval_state \<times> bool"
where
  "evalRule I score cr v data transformed reading s =
     (let r = cr_Rule cr in
      if \<not> targetMatches (Targets r) v then (s, True)
      else case Spend CostRuleDispatch (es_meter s) of (m1, ok1) \<Rightarrow>
        if \<not> ok1 then (s\<lparr>es_meter := m1, es_out := (es_out s)\<lparr>r_Exhausted := True\<rparr>\<rparr>, False)
        else case Spend (oCost I (rule_op r)) m1 of (m2, ok2) \<Rightarrow>
          if \<not> ok2 then (s\<lparr>es_meter := m2, es_out := (es_out s)\<lparr>r_Exhausted := True\<rparr>\<rparr>, False)
          else
            let e = materialise v (es_ev s);
                out = (es_out s)\<lparr>r_RulesEvaluated := r_RulesEvaluated (es_out s) + 1\<rparr>
            in case oEval I (rule_op r) (ev_ctx e) data of (mt, isHit) \<Rightarrow>
              let out = (if \<not> isHit then out
                         else fst (iter_while
                           (run_action I cr v data transformed reading (ev_ctx e) mt)
                           (cr_Actions score cr) out))
              in (\<lparr>es_ev = e, es_meter = m2, es_out = out\<rparr>, True))"

section \<open>One phase\<close>

text \<open>The callback given to \<open>candidates.All\<close>.\<close>

definition candidate_step ::
  "('t, 'o, 'a) iface \<Rightarrow> 'a \<Rightarrow> ('t, 'o, 'a) chain_group \<Rightarrow> eval_value \<Rightarrow> gobytes \<Rightarrow> bool \<Rightarrow>
   class_set \<Rightarrow> nat \<Rightarrow> ('t, 'o, 'a) eval_state \<Rightarrow> ('t, 'o, 'a) eval_state \<times> bool"
where
  "candidate_step I score g v data transformed reading idx s =
     (if length (g_Rules g) \<le> idx then (s, True)
      else let cr = g_Rules g ! idx in
        if cr_Unconditional cr then (s, True)
        else case evalRule I score cr v data transformed reading s of (s, ok) \<Rightarrow>
          if \<not> ok then (s, False)
          else if r_Terminal (es_out s) then (s, False)
          else (s, True))"

definition unconditional_step ::
  "('t, 'o, 'a) iface \<Rightarrow> 'a \<Rightarrow> ('t, 'o, 'a) chain_group \<Rightarrow> eval_value \<Rightarrow> gobytes \<Rightarrow> bool \<Rightarrow>
   class_set \<Rightarrow> nat \<Rightarrow> ('t, 'o, 'a) eval_state \<Rightarrow> ('t, 'o, 'a) eval_state \<times> bool"
where
  "unconditional_step I score g v data transformed reading idx s =
     (case evalRule I score (g_Rules g ! idx) v data transformed reading s of (s, ok) \<Rightarrow>
        if \<not> ok then (s, False) else if r_Terminal (es_out s) then (s, False) else (s, True))"

definition out_of_fuel :: "('t, 'o, 'a) eval_state \<Rightarrow> ('t, 'o, 'a) eval_state" where
  "out_of_fuel s = s\<lparr>es_out := (es_out s)\<lparr>r_Exhausted := True\<rparr>\<rparr>"

text \<open>The prefilter of a group over the transformed bytes: the candidates and the scan's charge.\<close>

definition scan_group ::
  "('t, 'o, 'a) chain_group \<Rightarrow> gobytes \<Rightarrow> bitset \<Rightarrow> meter \<Rightarrow> (bitset \<times> meter \<times> bool) option"
where
  "scan_group g data cands m =
     (if \<not> Automaton_Empty (g_Automaton g)
      then (case Scan (g_Automaton g) data cands of
              None \<Rightarrow> None
            | Some (d, n) \<Rightarrow> Some (d, Spend (wrap64 (int n * CostPerByteScanned)) m))
      else Some (cands, m, True))"

text \<open>The rules of a group: the unconditional ones on the verbatim reading, then the candidates.\<close>

definition run_group ::
  "('t, 'o, 'a) iface \<Rightarrow> 'a \<Rightarrow> eval_value \<Rightarrow> nat \<Rightarrow> class_set \<Rightarrow> ('t, 'o, 'a) chain_group \<Rightarrow>
   gobytes \<Rightarrow> bool \<Rightarrow> bitset \<Rightarrow> ('t, 'o, 'a) eval_state \<Rightarrow> ('t, 'o, 'a) eval_state \<times> bool"
where
  "run_group I score v r k g data transformed cands s =
     (case (if r = 0
            then iter_while (unconditional_step I score g v data transformed k) (g_Unconditional g) s
            else (s, True)) of
        (s, go) \<Rightarrow>
          if \<not> go then (s, False)
          else Bitset_All (candidate_step I score g v data transformed k) cands s)"

text \<open>The body of the loop over the groups, for reading number \<open>r\<close>.\<close>

definition eval_group ::
  "('t, 'o, 'a) iface \<Rightarrow> 'a \<Rightarrow> eval_value \<Rightarrow> nat \<Rightarrow> reading \<Rightarrow> ('t, 'o, 'a) chain_group \<Rightarrow>
   ('t, 'o, 'a) eval_state \<Rightarrow> (('t, 'o, 'a) eval_state \<times> bool) option"
where
  "eval_group I score v r reading g s =
     (if \<not> group_Reads g (Kind (v_Target v)) then Some (s, True)
      else case stages_apply I (g_Transforms g) (es_meter s) (ev_stages (es_ev s)) of
        (st, m, applied) \<Rightarrow>
        let s = s\<lparr>es_ev := (es_ev s)\<lparr>ev_stages := st\<rparr>, es_meter := m\<rparr> in
        case applied of
          None \<Rightarrow> Some (out_of_fuel s, False)
        | Some (data, transformed) \<Rightarrow>
            case scan_group g data (Bitset_Reset (ev_candidates (es_ev s))) (es_meter s) of
              None \<Rightarrow> None
            | Some (cands, m, ok) \<Rightarrow>
                let s = s\<lparr>es_ev := (es_ev s)\<lparr>ev_candidates := cands\<rparr>, es_meter := m\<rparr> in
                if \<not> ok then Some (out_of_fuel s, False)
                else Some (run_group I score v r (rd_Class reading) g data transformed cands s))"

definition eval_reading ::
  "('t, 'o, 'a) iface \<Rightarrow> 'a \<Rightarrow> ('t, 'o, 'a) chain_group list \<Rightarrow> eval_value \<Rightarrow> nat \<times> reading \<Rightarrow>
   ('t, 'o, 'a) eval_state \<Rightarrow> (('t, 'o, 'a) eval_state \<times> bool) option"
where
  "eval_reading I score groups v = (\<lambda>(r, reading) s.
     iter_opt (eval_group I score v r reading) groups
       (s\<lparr>es_ev := (es_ev s)\<lparr>ev_stages := stages_reset (rd_Bytes reading) (ev_stages (es_ev s))\<rparr>\<rparr>))"

definition eval_one_value ::
  "('t, 'o, 'a) iface \<Rightarrow> 'a \<Rightarrow> ('t, 'o, 'a) chain_group list \<Rightarrow> eval_value \<Rightarrow>
   ('t, 'o, 'a) eval_state \<Rightarrow> (('t, 'o, 'a) eval_state \<times> bool) option"
where
  "eval_one_value I score groups v s =
     (if v_Inert v then Some (s, True)
      else
        let s = s\<lparr>es_ev := (es_ev s)\<lparr>ev_keyMaterialised := False\<rparr>\<rparr>;
            classes = Detect (v_bytes v);
            readings = Set_Build (v_bytes v) classes
        in case Spend (wrap64 (int (length (v_bytes v)) * CostPerByteScanned)) (es_meter s) of (m, ok) \<Rightarrow>
          let s = s\<lparr>es_meter := m\<rparr> in
          if \<not> ok then Some (out_of_fuel s, False)
          else if rset_truncated readings
          then Some (s\<lparr>es_out := (es_out s)\<lparr>r_Undecidable := True,
                 r_UndecidableReason := ascii ''ambiguity exceeded the reading limit''\<rparr>\<rparr>, False)
          else iter_opt (eval_reading I score groups v)
                 (enumerate 0 (rset_readings readings)) s)"

definition Eval ::
  "('t, 'o, 'a) iface \<Rightarrow> 'a \<Rightarrow> ('t, 'o, 'a) ruleset \<Rightarrow> phase \<Rightarrow> eval_value list \<Rightarrow>
   ('t, 'o, 'a) eval_state \<Rightarrow> ('t, 'o, 'a) eval_state option"
where
  "Eval I score rs phase values s =
     (let groups = Groups rs phase in
      if length groups = 0 then Some s
      else
        let s = s\<lparr>es_ev := bindRequest values (sizeFor rs (es_ev s))\<rparr>
        in map_option fst (iter_opt (eval_one_value I score groups) values s))"

end
