(* ===== verification/EngineCorrect.thy ===== *)
theory EngineCorrect
  imports Engine
begin

text \<open>
  Evaluation is complete: the prefilter, the shared transform stages, the lazily built context and
  the order of the loops change nothing about which hits a phase yields. The reference is the loop
  over the values that are not inert, their readings, the groups and their rules, each rule on what its
  group's whole chain makes of the reading: a rule without required literals on the verbatim reading
  only, any other where one of its literals occurs.
\<close>

section \<open>Transform chains\<close>

definition chain_step :: "('t, 'o, 'a) iface \<Rightarrow> 't \<Rightarrow> gobytes \<times> bool \<Rightarrow> gobytes \<times> bool" where
  "chain_step I t = (\<lambda>(cur, tr). case tApply I t cur of (out, ch) \<Rightarrow> if ch then (out, True) else (cur, tr))"

text \<open>The chain applied to a value from scratch.\<close>

definition chain_value :: "('t, 'o, 'a) iface \<Rightarrow> 't list \<Rightarrow> gobytes \<Rightarrow> gobytes \<times> bool" where
  "chain_value I chain src = fold (chain_step I) chain (src, False)"

definition stages_ok :: "('t, 'o, 'a) iface \<Rightarrow> 't stages \<Rightarrow> bool" where
  "stages_ok I s \<longleftrightarrow>
     length (st_prev s) \<le> length (st_step s) \<and>
     (\<forall>i < length (st_prev s). st_step s ! i = chain_value I (take (Suc i) (st_prev s)) (st_src s))"

text \<open>A meter that grants everything.\<close>

definition free :: "meter \<Rightarrow> bool" where
  "free m \<longleftrightarrow> Unmetered m \<and> \<not> exhausted m"

lemma Spend_free: "free m \<Longrightarrow> Spend n m = (m, True)"
  by (simp add: free_def Spend_unmetered)

lemma stages_ok_reset [inv_intros]: "stages_ok I (stages_reset src s)"
  by (simp add: stages_ok_def stages_reset_def)

lemma stages_reset_src [simp]: "st_src (stages_reset src s) = src"
  by (simp add: stages_reset_def)

lemma stage_loop_spec:
  assumes "stage_loop I ts i cur tr step m = (step', m', res)" "i + length ts \<le> length step"
  shows "length step' = length step \<and> (\<forall>j < i. step' ! j = step ! j) \<and> (free m \<longrightarrow> m' = m \<and> res \<noteq> None) \<and>
    (\<forall>r. res = Some r \<longrightarrow> r = fold (chain_step I) ts (cur, tr) \<and>
       (\<forall>k < length ts. step' ! (i + k) = fold (chain_step I) (take (Suc k) ts) (cur, tr)))"
  using assms
proof (induction I ts i cur tr step m arbitrary: step' m' res rule: stage_loop.induct)
  case (1 I i cur tr step m)
  then show ?case by auto
next
  case (2 I t ts i cur tr step m)
  obtain out ch where ap: "tApply I t cur = (out, ch)" by force
  let ?n = "wrap64 (int (length out) * CostPerByteTransformed)"
  obtain m1 ok where sp: "Spend ?n m = (m1, ok)" by force
  obtain c2 t2 where nx: "chain_step I t (cur, tr) = (c2, t2)" by force
  show ?case
  proof (cases "ch \<and> \<not> ok")
    case True
    then show ?thesis using 2(3) ap sp Spend_free [of m ?n] by auto
  next
    case False
    let ?step = "step[i := (c2, t2)]" and ?m = "if ch then m1 else m"
    have rec: "stage_loop I ts (Suc i) c2 t2 ?step ?m = (step', m', res)"
      using 2(3) ap sp False nx by (auto simp: chain_step_def split: if_splits)
    have "length step' = length ?step \<and> (\<forall>j < Suc i. step' ! j = ?step ! j) \<and>
      (free ?m \<longrightarrow> m' = ?m \<and> res \<noteq> None) \<and>
      (\<forall>r. res = Some r \<longrightarrow> r = fold (chain_step I) ts (c2, t2) \<and>
        (\<forall>k < length ts. step' ! (Suc i + k) = fold (chain_step I) (take (Suc k) ts) (c2, t2)))"
    proof (cases ch)
      case True
      then have "c2 = out" "t2 = True" using nx ap by (simp_all add: chain_step_def)
      with 2(1) [OF ap [symmetric] True sp [symmetric], of step' m' res] False rec 2(4) True
      show ?thesis by simp
    next
      case no: False
      then have "c2 = cur" "t2 = tr" using nx ap by (simp_all add: chain_step_def)
      with 2(2) [OF ap [symmetric] no, of step' m' res] rec 2(4) no show ?thesis by simp
    qed
    moreover have "free m \<Longrightarrow> free ?m \<and> ?m = m" using sp Spend_free [of m ?n] by auto
    moreover have "step' ! (i + k) = fold (chain_step I) (take (Suc k) (t # ts)) (cur, tr)"
      if "res = Some r" "k < length (t # ts)" and
        S: "\<forall>j < Suc i. step' ! j = ?step ! j"
        "\<forall>k < length ts. step' ! (Suc i + k) = fold (chain_step I) (take (Suc k) ts) (c2, t2)" for r k
    proof (cases k)
      case 0
      with S(1) nx 2(4) show ?thesis by simp
    next
      case (Suc k')
      with S(2) that(2) nx show ?thesis by simp
    qed
    ultimately show ?thesis using nx by auto
  qed
qed

lemma shared_prefix_le: "shared_prefix cs ps \<le> length cs" "shared_prefix cs ps \<le> length ps"
  by (induction cs ps rule: shared_prefix.induct) auto

lemma take_shared_prefix: "take (shared_prefix cs ps) cs = take (shared_prefix cs ps) ps"
  by (induction cs ps rule: shared_prefix.induct) auto

text \<open>Resuming at the prefix shared with the chain before gives what the whole chain gives.\<close>

lemma stages_apply_spec:
  assumes ok: "stages_ok I s" and ap: "stages_apply I chain m s = (s', m', res)"
  shows "st_src s' = st_src s" and "free m \<Longrightarrow> m' = m \<and> res \<noteq> None"
    and "res = Some r \<Longrightarrow> r = chain_value I chain (st_src s) \<and> stages_ok I s'"
proof -
  have "st_src s' = st_src s \<and> (free m \<longrightarrow> m' = m \<and> res \<noteq> None) \<and>
    (\<forall>r. res = Some r \<longrightarrow> r = chain_value I chain (st_src s) \<and> stages_ok I s')"
  proof (cases "chain = []")
    case True
    with ok ap show ?thesis by (auto simp: stages_apply_def chain_value_def)
  next
    case False
    let ?g = "stages_grow (length chain) s"
    let ?k = "shared_prefix chain (st_prev s)"
    have prev: "st_prev ?g = st_prev s" and src: "st_src ?g = st_src s"
      and glen: "length (st_step ?g) = max (length chain) (length (st_step s))"
      by (simp_all add: stages_grow_def)
    have old: "st_step ?g ! i = chain_value I (take (Suc i) (st_prev s)) (st_src s)"
      if "i < length (st_prev s)" for i
      using ok that by (simp add: stages_ok_def stages_grow_def nth_append)
    obtain cur tr where start: "(if 0 < ?k then st_step ?g ! (?k - 1) else (st_src ?g, False)) = (cur, tr)"
      by force
    have start': "(cur, tr) = fold (chain_step I) (take ?k chain) (st_src s, False)"
    proof (cases "?k = 0")
      case False
      then have "?k - 1 < length (st_prev s)" using shared_prefix_le [of chain "st_prev s"] by simp
      with False old [of "?k - 1"] start take_shared_prefix [of chain "st_prev s"] show ?thesis
        by (simp add: chain_value_def)
    qed (use start in \<open>simp add: stages_grow_def\<close>)
    obtain step m2 res2 where
      loop: "stage_loop I (drop ?k chain) ?k cur tr (st_step ?g) m = (step, m2, res2)"
      by (metis prod_cases3)
    have fits: "?k + length (drop ?k chain) \<le> length (st_step ?g)"
      using glen shared_prefix_le(1) [of chain "st_prev s"] by simp
    note L = stage_loop_spec [OF loop fits]
    have whole: "fold (chain_step I) (drop ?k chain) (cur, tr) = chain_value I chain (st_src s)"
      unfolding start' chain_value_def by (metis append_take_drop_id fold_append o_apply)
    have out: "(s', m', res) = (case res2 of None \<Rightarrow> (?g\<lparr>st_step := step\<rparr>, m2, None)
        | Some r \<Rightarrow> (?g\<lparr>st_step := step, st_prev := chain\<rparr>, m2, Some r))"
    proof -
      have "stages_apply I chain m s =
          (case (cur, tr) of (cur, transformed) \<Rightarrow>
             case stage_loop I (drop ?k chain) ?k cur transformed (st_step ?g) m of
               (step, m, None) \<Rightarrow> (?g\<lparr>st_step := step\<rparr>, m, None)
             | (step, m, Some r) \<Rightarrow> (?g\<lparr>st_step := step, st_prev := chain\<rparr>, m, Some r))"
        unfolding start [symmetric] using False by (simp only: stages_apply_def Let_def prev length_0_conv if_False)
      with ap loop show ?thesis by (simp split: option.splits)
    qed
    have new: "step ! i = chain_value I (take (Suc i) chain) (st_src s)"
      if "res2 = Some r" "i < length chain" for r i
    proof (cases "i < ?k")
      case True
      then have "take (Suc i) (st_prev s) = take (Suc i) chain"
        using take_shared_prefix [of chain "st_prev s"] by (metis Suc_leI min.absorb1 take_take)
      with True L old [of i] shared_prefix_le(2) [of chain "st_prev s"] show ?thesis by simp
    next
      case ge: False
      define k where "k = i - ?k"
      have i: "i = ?k + k" using ge by (simp add: k_def)
      have "step ! i = fold (chain_step I) (take (Suc k) (drop ?k chain)) (cur, tr)"
        using L that i by simp
      moreover have "take (Suc i) chain = take ?k chain @ take (Suc k) (drop ?k chain)"
        unfolding i by (simp only: add_Suc_right [symmetric] take_add)
      ultimately show ?thesis unfolding chain_value_def start' by simp
    qed
    show ?thesis
    proof (cases res2)
      case None
      with out L show ?thesis by (auto simp: src)
    next
      case (Some r)
      have "length chain \<le> length step" using L glen by simp
      with Some out L whole new show ?thesis by (auto simp: src stages_ok_def)
    qed
  qed
  then show "st_src s' = st_src s" "free m \<Longrightarrow> m' = m \<and> res \<noteq> None"
    "res = Some r \<Longrightarrow> r = chain_value I chain (st_src s) \<and> stages_ok I s'" by blast+
qed

section \<open>Candidates\<close>

definition declared :: "('t, 'o, 'a) iface \<Rightarrow> ('t, 'o, 'a) compiled_rule \<Rightarrow> gobytes list" where
  "declared I cr = fst (oLiterals I (rule_op (cr_Rule cr)))"

text \<open>The indices of a group's rules that declare a literal the data contains.\<close>

definition nominated :: "('t, 'o, 'a) iface \<Rightarrow> ('t, 'o, 'a) chain_group \<Rightarrow> gobytes \<Rightarrow> nat set" where
  "nominated I g data =
     {i. i < length (g_Rules g) \<and> \<not> cr_unconditional (g_Rules g ! i) \<and>
        (\<exists>l \<in> set (declared I (g_Rules g ! i)). literal_occurs l data)}"

lemma in_group_lits:
  "(l, r) \<in> set (group_lits I crs) \<longleftrightarrow>
     (\<exists>cr \<in> set crs. \<not> cr_unconditional cr \<and> l \<in> set (declared I cr) \<and> l \<noteq> [] \<and> r = of_nat (cr_groupIdx cr))"
  by (auto simp: group_lits_def rule_lits_def declared_def)

lemma nominated_lits:
  assumes "group_ok I g" "length (g_Rules g) \<le> 2 ^ 32"
  shows "{unat r |l r. (l, r) \<in> set (group_lits I (g_Rules g)) \<and> literal_occurs l data} = nominated I g data"
proof -
  have idx: "unat (of_nat (cr_groupIdx (g_Rules g ! i)) :: u32) = i" if "i < length (g_Rules g)" for i
  proof -
    have "cr_groupIdx (g_Rules g ! i) = i" using assms(1) that by (simp add: group_ok_def)
    then show ?thesis using that assms(2) by (simp add: unat_of_nat_u32)
  qed
  show ?thesis
  proof (intro set_eqI iffI)
    fix x assume "x \<in> {unat r |l r. (l, r) \<in> set (group_lits I (g_Rules g)) \<and> literal_occurs l data}"
    then obtain l cr where "x = unat (of_nat (cr_groupIdx cr) :: u32)" "cr \<in> set (g_Rules g)"
      "\<not> cr_unconditional cr" "l \<in> set (declared I cr)" "literal_occurs l data"
      unfolding mem_Collect_eq in_group_lits by blast
    moreover from this obtain i where "i < length (g_Rules g)" "cr = g_Rules g ! i"
      by (auto simp: in_set_conv_nth)
    ultimately have "x = i" "i < length (g_Rules g)" "\<not> cr_unconditional (g_Rules g ! i)"
      "l \<in> set (declared I (g_Rules g ! i))" "literal_occurs l data"
      using idx by simp_all
    then show "x \<in> nominated I g data" unfolding nominated_def by blast
  next
    fix x assume "x \<in> nominated I g data"
    then obtain l where x: "x < length (g_Rules g)" "\<not> cr_unconditional (g_Rules g ! x)"
      "l \<in> set (declared I (g_Rules g ! x))" "literal_occurs l data"
      by (auto simp: nominated_def)
    then have "(l, of_nat (cr_groupIdx (g_Rules g ! x)) :: u32) \<in> set (group_lits I (g_Rules g))"
      unfolding in_group_lits by (auto simp: literal_occurs_def)
    with x idx [OF x(1)]
    show "x \<in> {unat r |l r. (l, r) \<in> set (group_lits I (g_Rules g)) \<and> literal_occurs l data}"
      by (metis (mono_tags, lifting) mem_Collect_eq)
  qed
qed

lemma nominated_bound: "i \<in> nominated I g data \<Longrightarrow> i < length (g_Rules g)"
  by (simp add: nominated_def)

lemma scan_candidates:
  assumes g: "group_ok I g" "automaton_ok I g" "length (g_Rules g) \<le> 2 ^ 32"
    and c: "bitset_inv cands" "Bitset_elems cands = {}" "length (g_Rules g) \<le> Bitset_Cap cands"
  obtains d m' ok where
    "scan_group g data cands m = Some (d, m', ok)"
    "free m \<Longrightarrow> m' = m \<and> ok" "bitset_inv d" "Bitset_Cap d = Bitset_Cap cands"
    "Bitset_elems d = nominated I g data"
proof (cases "Automaton_Empty (g_Automaton g)")
  case True
  have "nominated I g data = {}"
  proof (cases "\<forall>cr \<in> set (g_Rules g). cr_unconditional cr")
    case True
    then show ?thesis by (auto simp: nominated_def)
  next
    case False
    then have "\<exists>a ord. g_Automaton g = Some a \<and> map_order_ok ord \<and>
      Builder_Build ord (add_literals (group_lits I (g_Rules g)) NewBuilder) = Some a"
      using g(2) by (simp only: automaton_ok_def if_False)
    then obtain a ord where a: "g_Automaton g = Some a" "map_order_ok ord"
      "Builder_Build ord (add_literals (group_lits I (g_Rules g)) NewBuilder) = Some a"
      by blast
    then have "\<forall>(l, r) \<in> set (group_lits I (g_Rules g)). l = []"
      using Build_ok [OF a(2), of "group_lits I (g_Rules g)"] \<open>Automaton_Empty (g_Automaton g)\<close>
      by (simp add: Automaton_Empty_def a(1))
    then have "\<not> ((l, r) \<in> set (group_lits I (g_Rules g)) \<and> literal_occurs l data)" for l r
      by (auto simp: literal_occurs_def)
    then show ?thesis unfolding nominated_lits [OF g(1,3), symmetric] by blast
  qed
  with True c show ?thesis by (intro that [of cands m True]) (simp_all add: scan_group_def)
next
  case False
  then obtain a0 where a0: "g_Automaton g = Some a0" by (cases "g_Automaton g") (auto simp: Automaton_Empty_def)
  then have "\<not> (\<forall>cr \<in> set (g_Rules g). cr_unconditional cr)"
    using g(2) unfolding automaton_ok_def by (auto split: if_splits)
  then have "\<exists>a ord. g_Automaton g = Some a \<and> map_order_ok ord \<and>
    Builder_Build ord (add_literals (group_lits I (g_Rules g)) NewBuilder) = Some a"
    using g(2) by (simp only: automaton_ok_def if_False)
  then obtain ord where a: "map_order_ok ord"
    "Builder_Build ord (add_literals (group_lits I (g_Rules g)) NewBuilder) = Some a0"
    using a0 by auto
  from Scan_elems [OF a, of data cands] obtain d where
    d: "Scan (Some a0) data cands = Some (d, length data)"
      "Bitset_elems d = {unat r |l r. (l, r) \<in> set (group_lits I (g_Rules g)) \<and>
         literal_occurs l data \<and> unat r < Bitset_Cap cands}"
      "Bitset_Cap d = Bitset_Cap cands" "bitset_inv d"
    using c by auto
  have "Bitset_elems d = nominated I g data \<inter> {i. i < Bitset_Cap cands}"
    unfolding d(2) nominated_lits [OF g(1,3), symmetric] by blast
  also have "\<dots> = nominated I g data" using c(3) by (auto dest: nominated_bound)
  finally have e: "Bitset_elems d = nominated I g data" .
  obtain m' ok where sp: "Spend (wrap64 (int (length data) * CostPerByteScanned)) m = (m', ok)" by force
  show ?thesis
    using False a0 d e sp Spend_free [of m "wrap64 (int (length data) * CostPerByteScanned)"]
    by (intro that [of d m' ok]) (auto simp: scan_group_def)
qed

section \<open>The reference evaluation\<close>

definition value_ctx :: "eval_ctx \<Rightarrow> eval_value \<Rightarrow> eval_ctx" where
  "value_ctx c v = c\<lparr>ctx_Target := v_Target v, ctx_Key := v_Key v\<rparr>"

text \<open>What one rule yields on one value that its chain turned into \<open>data\<close>: a hit per action.\<close>

definition rule_hits ::
  "('t, 'o, 'a) iface \<Rightarrow> 'a \<Rightarrow> eval_ctx \<Rightarrow> eval_value \<Rightarrow> class_set \<Rightarrow> gobytes \<times> bool \<Rightarrow>
   ('t, 'o, 'a) compiled_rule \<Rightarrow> ('t, 'o, 'a) hit list"
where
  "rule_hits I score c v reading = (\<lambda>(data, transformed) cr.
     if \<not> targetMatches (Targets (cr_Rule cr)) v then []
     else case oEval I (rule_op (cr_Rule cr)) (value_ctx c v) data of (m, isHit) \<Rightarrow>
       if \<not> isHit then []
       else map (\<lambda>a. \<lparr>h_Rule = cr, h_Outcome = aRun I (the a) (value_ctx c v) m, h_Target = v_Target v,
                   h_Key = v_Key v, h_Match = m, h_Transformed = transformed, h_Reading = reading,
                   h_Matched = matchedBytes data m\<rparr>) (cr_Actions score cr))"

definition terminal_hit :: "('t, 'o, 'a) hit \<Rightarrow> bool" where
  "terminal_hit h \<longleftrightarrow> outcome_Terminal (h_Outcome h)"

text \<open>The hits up to the first terminal one, included.\<close>

fun upto_terminal :: "('t, 'o, 'a) hit list \<Rightarrow> ('t, 'o, 'a) hit list" where
  "upto_terminal [] = []"
| "upto_terminal (h # hs) = (if terminal_hit h then [h] else h # upto_terminal hs)"

text \<open>How a hit enters the result.\<close>

definition record_hit :: "('t, 'o, 'a) hit \<Rightarrow> ('t, 'o, 'a) result \<Rightarrow> ('t, 'o, 'a) result" where
  "record_hit h out =
     (let out = out\<lparr>r_Hits := r_Hits out @ [h]\<rparr>;
          out = (if out_Kind (h_Outcome h) = ActionScore
                 then out\<lparr>r_Score := wrap64 (r_Score out +
                   (if out_Score (h_Outcome h) = 0 then severity_Score (Severity (cr_Rule (h_Rule h)))
                    else out_Score (h_Outcome h)))\<rparr>
                 else out)
      in if terminal_hit h
         then out\<lparr>r_Terminal := True, r_TerminalOutcome := h_Outcome h, r_TerminalRule := Some (h_Rule h)\<rparr>
         else out)"

definition record_hits :: "('t, 'o, 'a) hit list \<Rightarrow> ('t, 'o, 'a) result \<Rightarrow> ('t, 'o, 'a) result" where
  "record_hits hs out = fold record_hit (upto_terminal hs) out"

text \<open>Results up to the count of operator calls.\<close>

abbreviation uncounted :: "('t, 'o, 'a) result \<Rightarrow> ('t, 'o, 'a) result" where
  "uncounted r \<equiv> r\<lparr>r_RulesEvaluated := 0\<rparr>"

lemma record_hit_frame [frame_simps]:
  "r_Exhausted (record_hit h out) = r_Exhausted out"
  "r_Undecidable (record_hit h out) = r_Undecidable out"
  "r_RulesEvaluated (record_hit h out) = r_RulesEvaluated out"
  "r_Terminal (record_hit h out) \<longleftrightarrow> r_Terminal out \<or> terminal_hit h"
  "r_Hits (record_hit h out) = r_Hits out @ [h]"
  by (simp_all add: record_hit_def Let_def)

lemma record_hit_uncounted: "record_hit h (out\<lparr>r_RulesEvaluated := n\<rparr>) = (record_hit h out)\<lparr>r_RulesEvaluated := n\<rparr>"
  by (simp add: record_hit_def Let_def)

lemma fold_record_uncounted:
  "fold record_hit hs (out\<lparr>r_RulesEvaluated := n\<rparr>) = (fold record_hit hs out)\<lparr>r_RulesEvaluated := n\<rparr>"
  by (induction hs arbitrary: out) (simp_all add: record_hit_uncounted)

lemma record_hits_uncounted:
  "uncounted out = uncounted out' \<Longrightarrow> uncounted (record_hits hs out) = uncounted (record_hits hs out')"
  unfolding record_hits_def by (metis fold_record_uncounted)

lemma fold_record_frame [frame_simps]:
  "r_Exhausted (fold record_hit hs out) = r_Exhausted out"
  "r_Undecidable (fold record_hit hs out) = r_Undecidable out"
  "r_Hits (fold record_hit hs out) = r_Hits out @ hs"
  "r_Terminal (fold record_hit hs out) \<longleftrightarrow> r_Terminal out \<or> (\<exists>h \<in> set hs. terminal_hit h)"
  by (induction hs arbitrary: out) (auto simp: frame_simps)

lemma upto_terminal_has: "(\<exists>h \<in> set (upto_terminal hs). terminal_hit h) \<longleftrightarrow> (\<exists>h \<in> set hs. terminal_hit h)"
  by (induction hs) auto

lemma upto_terminal_append:
  "upto_terminal (xs @ ys) = (if \<exists>h \<in> set xs. terminal_hit h then upto_terminal xs else xs @ upto_terminal ys)"
  by (induction xs) auto

lemma upto_terminal_none: "\<forall>h \<in> set hs. \<not> terminal_hit h \<Longrightarrow> upto_terminal hs = hs"
  using upto_terminal_append [of hs "[]"] by auto

lemma record_hits_frame [frame_simps]:
  "r_Exhausted (record_hits hs out) = r_Exhausted out"
  "r_Undecidable (record_hits hs out) = r_Undecidable out"
  "r_Terminal (record_hits hs out) \<longleftrightarrow> r_Terminal out \<or> (\<exists>h \<in> set hs. terminal_hit h)"
  "r_Hits (record_hits hs out) = r_Hits out @ upto_terminal hs"
  by (simp_all add: record_hits_def frame_simps upto_terminal_has)

lemma record_hits_append:
  "record_hits (xs @ ys) out =
     (if \<exists>h \<in> set xs. terminal_hit h then record_hits xs out else record_hits ys (record_hits xs out))"
  by (simp add: record_hits_def upto_terminal_append upto_terminal_none)

lemma record_hits_Nil [simp]: "record_hits [] out = out"
  by (simp add: record_hits_def)

section \<open>Loops that follow the reference\<close>

text \<open>
  A step that was to yield the hits \<open>hs\<close> either ran out of fuel and says so (never with a meter
  that grants everything, \<open>um\<close>), or recorded exactly these hits up to the first terminal one, and
  stops iff there is one.
\<close>

definition follows ::
  "(('t, 'o, 'a) eval_state \<Rightarrow> bool) \<Rightarrow> bool \<Rightarrow> ('t, 'o, 'a) hit list \<Rightarrow> ('t, 'o, 'a) eval_state \<Rightarrow>
   ('t, 'o, 'a) eval_state \<times> bool \<Rightarrow> bool"
where
  "follows P um hs s = (\<lambda>(s', go).
     r_Exhausted (es_out s') \<and> \<not> go \<and> \<not> um \<or>
     \<not> r_Exhausted (es_out s') \<and> uncounted (es_out s') = uncounted (record_hits hs (es_out s)) \<and>
     (go \<longleftrightarrow> (\<forall>h \<in> set hs. \<not> terminal_hit h)) \<and> (go \<longrightarrow> P s'))"

lemma follows_stay: "P s \<Longrightarrow> \<not> r_Exhausted (es_out s) \<Longrightarrow> follows P um [] s (s, True)"
  by (simp add: follows_def)

lemma follows_weaken:
  "follows P um hs s r \<Longrightarrow> (\<And>s. P s \<Longrightarrow> Q s) \<Longrightarrow> follows Q um hs s r"
  by (auto simp: follows_def)

lemma follows_same_out:
  "follows P um hs s r \<Longrightarrow> es_out s = es_out t \<Longrightarrow> follows P um hs t r"
  by (simp add: follows_def)

lemma follows_then:
  assumes "follows P um hs s (s', go)"
    and "go \<Longrightarrow> P s' \<Longrightarrow> follows Q um hs' s' r"
    and "\<not> go \<Longrightarrow> r = (s', False)"
  shows "follows Q um (hs @ hs') s r"
proof (cases "go \<and> \<not> r_Exhausted (es_out s')")
  case True
  with assms(1) have same: "uncounted (es_out s') = uncounted (record_hits hs (es_out s))"
    and none: "\<forall>h \<in> set hs. \<not> terminal_hit h" and P: "P s'"
    by (auto simp: follows_def)
  have "uncounted (record_hits hs' (es_out s')) = uncounted (record_hits (hs @ hs') (es_out s))"
    using record_hits_uncounted [OF same, of hs'] none by (auto simp: record_hits_append)
  with assms(2) True P none show ?thesis by (auto simp: follows_def)
next
  case False
  with assms(1) have "\<not> go" by (auto simp: follows_def)
  with assms(1,3) show ?thesis by (auto simp: follows_def record_hits_append)
qed

lemma iter_opt_follows:
  assumes "\<And>x s. x \<in> set xs \<Longrightarrow> P s \<Longrightarrow> \<exists>r. f x s = Some r \<and> follows P um (hits x) s r"
    and "P s" "\<And>s. P s \<Longrightarrow> \<not> r_Exhausted (es_out s)"
  shows "\<exists>r. iter_opt f xs s = Some r \<and> follows P um (concat (map hits xs)) s r"
  using assms(1,2)
proof (induction xs arbitrary: s)
  case Nil
  with assms(3) show ?case by (simp add: follows_stay)
next
  case (Cons x xs)
  obtain s' go where r: "f x s = Some (s', go)" "follows P um (hits x) s (s', go)"
    using Cons.prems(1) [of x s] Cons.prems(2) by fastforce
  show ?case
  proof (cases go)
    case True
    then have "P s'" using r(2) by (simp add: follows_def)
    from Cons.IH [OF _ this] Cons.prems(1) obtain q where
      q: "iter_opt f xs s' = Some q" "follows P um (concat (map hits xs)) s' q" by auto
    have "follows P um (hits x @ concat (map hits xs)) s q"
      by (rule follows_then [OF r(2)]) (use q True in auto)
    with q r True show ?thesis by simp
  next
    case False
    have "follows P um (hits x @ concat (map hits xs)) s (s', False)"
      by (rule follows_then [OF r(2)]) (use False in auto)
    with r False show ?thesis by simp
  qed
qed

lemma iter_opt_Some: "iter_opt (\<lambda>x s. Some (f x s)) xs s = Some (iter_while f xs s)"
  by (induction xs arbitrary: s) (auto split: prod.splits)

lemma iter_while_follows:
  assumes "\<And>x s. x \<in> set xs \<Longrightarrow> P s \<Longrightarrow> follows P um (hits x) s (f x s)"
    and "P s" "\<And>s. P s \<Longrightarrow> \<not> r_Exhausted (es_out s)"
  shows "follows P um (concat (map hits xs)) s (iter_while f xs s)"
  using iter_opt_follows [of xs P "\<lambda>x s. Some (f x s)" um hits s] assms by (simp add: iter_opt_Some)

section \<open>What holds before each step\<close>

definition ready :: "bool \<Rightarrow> eval_ctx \<Rightarrow> nat \<Rightarrow> ('t, 'o, 'a) eval_state \<Rightarrow> bool" where
  "ready um c cap s \<longleftrightarrow>
     \<not> r_Terminal (es_out s) \<and> \<not> r_Exhausted (es_out s) \<and> (um \<longrightarrow> free (es_meter s)) \<and>
     bitset_inv (ev_candidates (es_ev s)) \<and> cap \<le> Bitset_Cap (ev_candidates (es_ev s)) \<and>
     (\<forall>v. value_ctx (ev_ctx (es_ev s)) v = value_ctx c v)"

definition ready_value ::
  "bool \<Rightarrow> eval_ctx \<Rightarrow> nat \<Rightarrow> eval_value \<Rightarrow> ('t, 'o, 'a) eval_state \<Rightarrow> bool"
where
  "ready_value um c cap v s \<longleftrightarrow>
     ready um c cap s \<and> (ev_keyMaterialised (es_ev s) \<longrightarrow> ctx_Key (ev_ctx (es_ev s)) = v_Key v)"

definition ready_reading ::
  "('t, 'o, 'a) iface \<Rightarrow> bool \<Rightarrow> eval_ctx \<Rightarrow> nat \<Rightarrow> eval_value \<Rightarrow> gobytes \<Rightarrow>
   ('t, 'o, 'a) eval_state \<Rightarrow> bool"
where
  "ready_reading I um c cap v src s \<longleftrightarrow>
     ready_value um c cap v s \<and> stages_ok I (ev_stages (es_ev s)) \<and> st_src (ev_stages (es_ev s)) = src"

lemma ready_not_exhausted:
  "ready um c cap s \<Longrightarrow> \<not> r_Exhausted (es_out s)"
  "ready_value um c cap v s \<Longrightarrow> \<not> r_Exhausted (es_out s)"
  "ready_reading I um c cap v src s \<Longrightarrow> \<not> r_Exhausted (es_out s)"
  by (simp_all add: ready_def ready_value_def ready_reading_def)

section \<open>One rule\<close>

lemma run_actions:
  assumes "\<And>a out. f a out = (record_hit (mk a) out, \<not> terminal_hit (mk a))"
  shows "fst (iter_while f as out) = record_hits (map mk as) out"
  by (induction as arbitrary: out) (simp_all add: assms record_hits_def)

definition stop_if_terminal :: "('t, 'o, 'a) eval_state \<times> bool \<Rightarrow> ('t, 'o, 'a) eval_state \<times> bool" where
  "stop_if_terminal = (\<lambda>(s, ok).
     if \<not> ok then (s, False) else if r_Terminal (es_out s) then (s, False) else (s, True))"

lemma evalRule_follows:
  assumes R: "ready_reading I um c cap v src s"
  shows "follows (ready_reading I um c cap v src) um (rule_hits I score c v reading (data, tr) cr) s
    (stop_if_terminal (evalRule I score cr v data tr reading s))"
proof (cases "targetMatches (Targets (cr_Rule cr)) v")
  case False
  with R show ?thesis
    by (simp add: evalRule_def Let_def stop_if_terminal_def rule_hits_def follows_def
        ready_reading_def ready_value_def ready_def)
next
  case tm: True
  obtain m1 ok1 where s1: "Spend CostRuleDispatch (es_meter s) = (m1, ok1)" by force
  obtain m2 ok2 where s2: "Spend (oCost I (rule_op (cr_Rule cr))) m1 = (m2, ok2)" by force
  have free1: "free (es_meter s) \<Longrightarrow> ok1 \<and> m1 = es_meter s"
    using s1 Spend_free [of "es_meter s" CostRuleDispatch] by simp
  have free2: "free m1 \<Longrightarrow> ok2 \<and> m2 = m1"
    using s2 Spend_free [of m1 "oCost I (rule_op (cr_Rule cr))"] by simp
  show ?thesis
  proof (cases "ok1 \<and> ok2")
    case False
    then have "\<not> free (es_meter s)" using free1 free2 by auto
    with R have "\<not> um" by (auto simp: ready_reading_def ready_value_def ready_def)
    with False tm s1 s2 show ?thesis
      by (auto simp: evalRule_def Let_def stop_if_terminal_def follows_def)
  next
    case True
    let ?e = "materialise v (es_ev s)"
    have ctx: "ev_ctx ?e = value_ctx c v"
    proof -
      have "ev_ctx ?e = value_ctx (ev_ctx (es_ev s)) v"
        using R by (intro eval_ctx.equality)
          (auto simp: materialise_def value_ctx_def ready_reading_def ready_value_def Let_def)
      with R show ?thesis by (simp add: ready_reading_def ready_value_def ready_def)
    qed
    have ctx_any: "value_ctx (ev_ctx ?e) w = value_ctx c w" for w
      unfolding ctx by (simp add: value_ctx_def)
    have frame: "ev_candidates ?e = ev_candidates (es_ev s)" "ev_stages ?e = ev_stages (es_ev s)"
      by (simp_all add: materialise_def Let_def)
    obtain mt isHit where ev: "oEval I (rule_op (cr_Rule cr)) (value_ctx c v) data = (mt, isHit)" by force
    let ?out0 = "(es_out s)\<lparr>r_RulesEvaluated := r_RulesEvaluated (es_out s) + 1\<rparr>"
    let ?hs = "rule_hits I score c v reading (data, tr) cr"
    let ?mk = "\<lambda>a. \<lparr>h_Rule = cr, h_Outcome = aRun I (the a) (value_ctx c v) mt, h_Target = v_Target v,
      h_Key = v_Key v, h_Match = mt, h_Transformed = tr, h_Reading = reading,
      h_Matched = matchedBytes data mt\<rparr>"
    have act: "fst (iter_while (run_action I cr v data tr reading (value_ctx c v) mt) as out) =
        record_hits (map ?mk as) out" for as out
      by (rule run_actions) (simp add: run_action_def record_hit_def terminal_hit_def Let_def)
    have "evalRule I score cr v data tr reading s =
        (\<lparr>es_ev = ?e, es_meter = m2, es_out = record_hits ?hs ?out0\<rparr>, True)"
      using tm s1 s2 True ev by (simp add: evalRule_def ctx rule_hits_def Let_def act)
    moreover have "\<not> r_Exhausted (es_out s)" "\<not> r_Terminal (es_out s)"
      using R by (simp_all add: ready_reading_def ready_value_def ready_def)
    moreover have "uncounted (record_hits ?hs ?out0) = uncounted (record_hits ?hs (es_out s))"
      by (rule record_hits_uncounted) simp
    moreover have "ready_reading I um c cap v src \<lparr>es_ev = ?e, es_meter = m2, es_out = record_hits ?hs ?out0\<rparr>"
      if "\<forall>h \<in> set ?hs. \<not> terminal_hit h"
    proof -
      have "um \<longrightarrow> free m2" using R free1 free2 by (auto simp: ready_reading_def ready_value_def ready_def)
      moreover have "ctx_Key (ev_ctx ?e) = v_Key v" unfolding ctx by (simp add: value_ctx_def)
      ultimately show ?thesis
        using R that ctx_any unfolding ready_reading_def ready_value_def ready_def
        by (auto simp: frame frame_simps)
    qed
    ultimately show ?thesis
      by (auto simp: stop_if_terminal_def follows_def frame_simps)
  qed
qed

section \<open>One group\<close>

text \<open>The contract of \<open>Operator.Literals\<close>: an operator that requires literals hits only where one
  of them, not empty, occurs up to ASCII case. The engine is correct without it: a rule whose operator
  breaks it is just not run where none of its literals occurs, which \<open>nominates\<close> says.\<close>

definition literals_required :: "('t, 'o, 'a) iface \<Rightarrow> 'o \<Rightarrow> bool" where
  "literals_required I o1 \<longleftrightarrow>
     (\<forall>ls c d. oLiterals I o1 = (ls, True) \<and> ls \<noteq> [] \<and> snd (oEval I o1 c d) \<longrightarrow>
        (\<exists>l \<in> set ls. literal_occurs l d))"

definition nominates :: "('t, 'o, 'a) iface \<Rightarrow> ('t, 'o, 'a) rule \<Rightarrow> gobytes \<Rightarrow> bool" where
  "nominates I r data \<longleftrightarrow> (\<exists>l \<in> set (fst (oLiterals I (rule_op r))). literal_occurs l data)"

lemma literals_nominate:
  "literals_required I (rule_op r) \<Longrightarrow> prefilterable I r \<Longrightarrow> snd (oEval I (rule_op r) c data) \<Longrightarrow> nominates I r data"
  unfolding literals_required_def prefilterable_def nominates_def by (metis prod.collapse)

text \<open>The hits of one group in one reading: its unconditional rules in the verbatim reading, then the
  rules one of whose literals occurs in what the group's chain makes of the reading.\<close>

definition group_hits ::
  "('t, 'o, 'a) iface \<Rightarrow> 'a \<Rightarrow> eval_ctx \<Rightarrow> eval_value \<Rightarrow> nat \<Rightarrow> reading \<Rightarrow> ('t, 'o, 'a) chain_group \<Rightarrow>
   ('t, 'o, 'a) hit list"
where
  "group_hits I score c v r reading g =
     (let d = chain_value I (g_Transforms g) (rd_Bytes reading) in
      concat (map (rule_hits I score c v (rd_Class reading) d)
        ((if r = 0 then filter cr_unconditional (g_Rules g) else []) @
         filter (\<lambda>cr. \<not> cr_unconditional cr \<and> nominates I (cr_Rule cr) (fst d)) (g_Rules g))))"

text \<open>What the engine needs of a group, beyond what compilation establishes.\<close>

definition group_fit :: "('t, 'o, 'a) iface \<Rightarrow> nat \<Rightarrow> ('t, 'o, 'a) chain_group \<Rightarrow> bool" where
  "group_fit I cap g \<longleftrightarrow>
     group_ok I g \<and> automaton_ok I g \<and> length (g_Rules g) \<le> 2 ^ 32 \<and> length (g_Rules g) \<le> cap \<and>
     (\<forall>cr \<in> set (g_Rules g). \<forall>t \<in> set (Targets (cr_Rule cr)). Kind t < 64)"

lemma targetMatches_kind: "targetMatches ts v \<Longrightarrow> \<exists>t \<in> set ts. Kind t = Kind (v_Target v)"
  by (induction ts) (auto split: if_splits)

lemma rule_hits_other_target:
  "\<forall>t \<in> set (Targets (cr_Rule cr)). Kind t \<noteq> Kind (v_Target v) \<Longrightarrow> rule_hits I score c v k d cr = []"
  using targetMatches_kind [of "Targets (cr_Rule cr)" v]
  by (cases d) (auto simp: rule_hits_def)

lemma unread_group:
  assumes "group_fit I cap g" "\<not> group_Reads g (Kind (v_Target v))"
  shows "group_hits I score c v r reading g = []"
proof -
  have "rule_hits I score c v k d cr = []" if "cr \<in> set (g_Rules g)" for k d cr
  proof (rule rule_hits_other_target, rule ballI, rule notI)
    fix t assume "t \<in> set (Targets (cr_Rule cr))" "Kind t = Kind (v_Target v)"
    moreover from this have "Kind (v_Target v) < 64" using assms(1) that by (metis group_fit_def)
    ultimately show False
      using assms that group_Reads_iff [of I g "Kind (v_Target v)"] by (auto simp: group_fit_def)
  qed
  then show ?thesis by (auto simp: group_hits_def Let_def)
qed

lemma sorted_list_subset:
  assumes "A \<subseteq> {..<n}" "\<And>i. i < n \<Longrightarrow> i \<notin> A \<Longrightarrow> h i = []"
  shows "concat (map h (sorted_list_of_set A)) = concat (map h [0..<n])"
proof -
  have "sorted_list_of_set A = filter (\<lambda>i. i \<in> A) [0..<n]"
  proof (rule sorted_distinct_set_unique)
    show "set (sorted_list_of_set A) = set (filter (\<lambda>i. i \<in> A) [0..<n])"
      using assms(1) finite_subset [OF assms(1)] by auto
  qed (simp_all add: sorted_filter [where f = id, simplified])
  moreover have "concat (map h (filter (\<lambda>i. i \<in> A) xs)) = concat (map h xs)" if "set xs \<subseteq> {..<n}" for xs
    using that assms(2) by (induction xs) auto
  ultimately show ?thesis by (metis atLeast_upt order_refl)
qed

lemma conditional_hits:
  fixes I :: "('t, 'o, 'a) iface" and g :: "('t, 'o, 'a) chain_group" and score c v k data tr
  defines "h \<equiv> \<lambda>i. if length (g_Rules g) \<le> i \<or> cr_unconditional (g_Rules g ! i) then []
      else rule_hits I score c v k (data, tr) (g_Rules g ! i)"
  shows "concat (map h (sorted_list_of_set (nominated I g data))) =
    concat (map (rule_hits I score c v k (data, tr))
      (filter (\<lambda>cr. \<not> cr_unconditional cr \<and> nominates I (cr_Rule cr) data) (g_Rules g)))"
proof -
  let ?P = "\<lambda>cr. \<not> cr_unconditional cr \<and> nominates I (cr_Rule cr) data"
  let ?A = "nominated I g data" and ?f = "rule_hits I score c v k (data, tr)"
  have A: "?A \<subseteq> {..<length (g_Rules g)}" by (auto dest: nominated_bound)
  have "concat (map h (sorted_list_of_set ?A)) = concat (map (\<lambda>i. if i \<in> ?A then h i else []) (sorted_list_of_set ?A))"
    using finite_subset [OF A] by (intro arg_cong [where f = concat] map_cong) simp_all
  also have "\<dots> = concat (map (\<lambda>i. if i \<in> ?A then h i else []) [0..<length (g_Rules g)])"
    by (rule sorted_list_subset [OF A]) simp
  also have "\<dots> = concat (map (\<lambda>cr. if ?P cr then ?f cr else []) (map ((!) (g_Rules g)) [0..<length (g_Rules g)]))"
    unfolding map_map
    by (intro arg_cong [where f = concat] map_cong) (auto simp: h_def nominated_def nominates_def declared_def)
  also have "\<dots> = concat (map ?f (filter ?P (g_Rules g)))"
  proof -
    have "concat (map (\<lambda>cr. if ?P cr then f cr else []) crs) = concat (map f (filter ?P crs))"
      for f and crs :: "('t, 'o, 'a) compiled_rule list"
      by (induction crs) auto
    then show ?thesis by (simp add: map_nth)
  qed
  finally show ?thesis .
qed

lemma unconditional_hits:
  assumes "group_ok I g"
  shows "map (\<lambda>i. f (g_Rules g ! i)) (g_Unconditional g) = map f (filter cr_unconditional (g_Rules g))"
proof -
  have "g_Rules g ! cr_groupIdx cr = cr" if "cr \<in> set (g_Rules g)" for cr
    using that assms by (auto simp: group_ok_def in_set_conv_nth)
  moreover have "g_Unconditional g = map cr_groupIdx (filter cr_unconditional (g_Rules g))"
    using assms by (simp add: group_ok_def)
  ultimately show ?thesis by simp
qed

lemma candidate_step_follows:
  assumes "ready_reading I um c cap v src s"
  shows "follows (ready_reading I um c cap v src) um
    (if length (g_Rules g) \<le> i \<or> cr_unconditional (g_Rules g ! i) then []
     else rule_hits I score c v k (data, tr) (g_Rules g ! i)) s
    (candidate_step I score g v data tr k i s)"
proof (cases "length (g_Rules g) \<le> i \<or> cr_unconditional (g_Rules g ! i)")
  case True
  then have "candidate_step I score g v data tr k i s = (s, True)"
    by (auto simp: candidate_step_def cr_Unconditional_def Let_def)
  with True assms ready_not_exhausted(3) [OF assms] show ?thesis by (simp add: follows_stay)
next
  case False
  then have "candidate_step I score g v data tr k i s =
      stop_if_terminal (evalRule I score (g_Rules g ! i) v data tr k s)"
    by (simp add: candidate_step_def cr_Unconditional_def stop_if_terminal_def Let_def)
  with False evalRule_follows [OF assms] show ?thesis by simp
qed

lemma unconditional_step_follows:
  assumes "ready_reading I um c cap v src s"
  shows "follows (ready_reading I um c cap v src) um (rule_hits I score c v k (data, tr) (g_Rules g ! i)) s
    (unconditional_step I score g v data tr k i s)"
  using evalRule_follows [OF assms, of score k data tr "g_Rules g ! i"]
  by (simp add: unconditional_step_def stop_if_terminal_def)

lemma eval_group_follows:
  assumes g: "group_fit I cap g" and R: "ready_reading I um c cap v (rd_Bytes reading) s"
  shows "\<exists>res. eval_group I score v r reading g s = Some res \<and>
    follows (ready_reading I um c cap v (rd_Bytes reading)) um (group_hits I score c v r reading g) s res"
proof (cases "group_Reads g (Kind (v_Target v))")
  case False
  with R ready_not_exhausted(3) [OF R] unread_group [OF g False] show ?thesis
    by (simp add: eval_group_def follows_stay)
next
  case reads: True
  let ?P = "ready_reading I um c cap v (rd_Bytes reading)"
  let ?k = "rd_Class reading"
  note G = g [unfolded group_fit_def]
  obtain st m1 applied where
    ap: "stages_apply I (g_Transforms g) (es_meter s) (ev_stages (es_ev s)) = (st, m1, applied)"
    by (metis prod_cases3)
  have stok: "stages_ok I (ev_stages (es_ev s))" "st_src (ev_stages (es_ev s)) = rd_Bytes reading"
    and um: "um \<longrightarrow> free (es_meter s)"
    using R by (auto simp: ready_reading_def ready_value_def ready_def)
  note A = stages_apply_spec [OF stok(1) ap]
  show ?thesis
  proof (cases applied)
    case None
    with A(2) um have "\<not> um" by auto
    with reads ap None show ?thesis
      by (simp add: eval_group_def Let_def follows_def out_of_fuel_def)
  next
    case (Some dt)
    obtain data tr where dt: "dt = (data, tr)" by force
    have val: "(data, tr) = chain_value I (g_Transforms g) (rd_Bytes reading)" and st: "stages_ok I st"
      using A(3) [OF Some] dt stok(2) by simp_all
    let ?cands = "Bitset_Reset (ev_candidates (es_ev s))"
    have inv: "bitset_inv (ev_candidates (es_ev s))" and cap: "cap \<le> Bitset_Cap (ev_candidates (es_ev s))"
      using R by (auto simp: ready_reading_def ready_value_def ready_def)
    obtain d m2 ok where
      scan: "scan_group g data ?cands m1 = Some (d, m2, ok)"
      and free: "free m1 \<Longrightarrow> m2 = m1 \<and> ok" and dinv: "bitset_inv d"
      and dcap: "Bitset_Cap d = Bitset_Cap ?cands" and del: "Bitset_elems d = nominated I g data"
    proof (rule scan_candidates [where I = I and g = g and cands = ?cands and data = data and m = m1])
      show "group_ok I g" "automaton_ok I g" "length (g_Rules g) \<le> 2 ^ 32" using G by simp_all
      show "bitset_inv ?cands" "Bitset_elems ?cands = {}" "length (g_Rules g) \<le> Bitset_Cap ?cands"
        using Bitset_Reset_spec [OF inv] G cap by auto
    qed blast
    let ?s = "s\<lparr>es_ev := (es_ev s)\<lparr>ev_stages := st, ev_candidates := d\<rparr>, es_meter := m2\<rparr>"
    have um2: "um \<longrightarrow> m2 = m1 \<and> m1 = es_meter s \<and> ok" using um A(2) free by auto
    have P: "?P ?s"
      using R st A(1) stok(2) dinv dcap cap Bitset_Reset_spec [OF inv] um2 um
      by (auto simp: ready_reading_def ready_value_def ready_def)
    let ?unc = "(if r = 0 then iter_while (unconditional_step I score g v data tr ?k) (g_Unconditional g) ?s
       else (?s, True))"
    let ?uh = "if r = 0 then concat (map (rule_hits I score c v ?k (data, tr)) (filter cr_unconditional (g_Rules g))) else []"
    let ?ch = "concat (map (rule_hits I score c v ?k (data, tr))
      (filter (\<lambda>cr. \<not> cr_unconditional cr \<and> nominates I (cr_Rule cr) data) (g_Rules g)))"
    have hits: "group_hits I score c v r reading g = ?uh @ ?ch"
      unfolding group_hits_def Let_def val [symmetric] by simp
    have unc: "follows ?P um ?uh ?s ?unc"
    proof (cases "r = 0")
      case True
      have "follows ?P um (concat (map (\<lambda>i. rule_hits I score c v ?k (data, tr) (g_Rules g ! i)) (g_Unconditional g))) ?s
          (iter_while (unconditional_step I score g v data tr ?k) (g_Unconditional g) ?s)"
        by (rule iter_while_follows) (use P in \<open>auto intro: unconditional_step_follows dest: ready_not_exhausted(3)\<close>)
      moreover have "group_ok I g" using G by simp
      ultimately show ?thesis using True by (simp add: unconditional_hits)
    qed (use P ready_not_exhausted(3) [OF P] in \<open>simp add: follows_stay\<close>)
    have cand: "follows ?P um ?ch t (Bitset_All (candidate_step I score g v data tr ?k) d t)" if "?P t" for t
    proof -
      have "follows ?P um (concat (map (\<lambda>i. if length (g_Rules g) \<le> i \<or> cr_unconditional (g_Rules g ! i) then []
            else rule_hits I score c v ?k (data, tr) (g_Rules g ! i)) (sorted_list_of_set (Bitset_elems d)))) t
          (iter_while (candidate_step I score g v data tr ?k) (sorted_list_of_set (Bitset_elems d)) t)"
      proof (rule iter_while_follows)
        show "?P t" by (rule that)
        show "follows ?P um (if length (g_Rules g) \<le> i \<or> cr_unconditional (g_Rules g ! i) then []
            else rule_hits I score c v ?k (data, tr) (g_Rules g ! i)) u
          (candidate_step I score g v data tr ?k i u)" if "?P u" for i u
          by (rule candidate_step_follows [OF that])
      qed (rule ready_not_exhausted(3))
      then show ?thesis unfolding Bitset_All_iter [OF dinv] del conditional_hits .
    qed
    let ?res = "if \<not> ok then (out_of_fuel ?s, False) else run_group I score v r ?k g data tr d ?s"
    have "eval_group I score v r reading g s = Some ?res"
      using reads ap Some dt scan by (simp add: eval_group_def Let_def)
    moreover have "follows ?P um (?uh @ ?ch) s ?res"
    proof (cases ok)
      case False
      with um2 show ?thesis by (auto simp: follows_def out_of_fuel_def)
    next
      case True
      obtain s' go where u: "?unc = (s', go)" by force
      have "follows ?P um (?uh @ ?ch) ?s
          (if \<not> go then (s', False) else Bitset_All (candidate_step I score g v data tr ?k) d s')"
        by (rule follows_then [OF unc [unfolded u]]) (use cand in auto)
      then have "follows ?P um (?uh @ ?ch) s
          (if \<not> go then (s', False) else Bitset_All (candidate_step I score g v data tr ?k) d s')"
        by (rule follows_same_out) simp
      then show ?thesis using True u by (simp add: run_group_def)
    qed
    ultimately show ?thesis unfolding hits by blast
  qed
qed

section \<open>Readings, values, the phase\<close>

definition reading_hits ::
  "('t, 'o, 'a) iface \<Rightarrow> 'a \<Rightarrow> eval_ctx \<Rightarrow> ('t, 'o, 'a) chain_group list \<Rightarrow> eval_value \<Rightarrow>
   nat \<times> reading \<Rightarrow> ('t, 'o, 'a) hit list"
where
  "reading_hits I score c groups v =
     (\<lambda>(r, reading). concat (map (group_hits I score c v r reading) groups))"

definition value_hits ::
  "('t, 'o, 'a) iface \<Rightarrow> 'a \<Rightarrow> eval_ctx \<Rightarrow> ('t, 'o, 'a) chain_group list \<Rightarrow> eval_value \<Rightarrow>
   ('t, 'o, 'a) hit list"
where
  "value_hits I score c groups v =
     (if v_Inert v then []
      else concat (map (reading_hits I score c groups v)
        (enumerate 0 (rset_readings (Set_Build (v_bytes v) (Detect (v_bytes v)))))))"

lemma eval_reading_follows:
  assumes g: "\<forall>g \<in> set groups. group_fit I cap g" and R: "ready_value um c cap v s"
  shows "\<exists>res. eval_reading I score groups v rr s = Some res \<and>
    follows (ready_value um c cap v) um (reading_hits I score c groups v rr) s res"
proof -
  obtain r reading where rr: "rr = (r, reading)" by force
  let ?s = "s\<lparr>es_ev := (es_ev s)\<lparr>ev_stages := stages_reset (rd_Bytes reading) (ev_stages (es_ev s))\<rparr>\<rparr>"
  let ?P = "ready_reading I um c cap v (rd_Bytes reading)"
  have P: "?P ?s"
    using R by (auto simp: ready_reading_def ready_value_def ready_def stages_ok_reset)
  obtain res where res: "iter_opt (eval_group I score v r reading) groups ?s = Some res"
    "follows ?P um (concat (map (group_hits I score c v r reading) groups)) ?s res"
    using iter_opt_follows [of groups ?P "eval_group I score v r reading" um
        "group_hits I score c v r reading" ?s] g P
    by (meson eval_group_follows ready_not_exhausted(3))
  have "follows (ready_value um c cap v) um (concat (map (group_hits I score c v r reading) groups)) ?s res"
    by (rule follows_weaken [OF res(2)]) (simp add: ready_reading_def)
  then have "follows (ready_value um c cap v) um (reading_hits I score c groups v rr) s res"
    by (auto simp: reading_hits_def rr elim: follows_same_out)
  with res(1) show ?thesis by (simp add: eval_reading_def rr)
qed

lemma eval_one_value_follows:
  assumes g: "\<forall>g \<in> set groups. group_fit I cap g" and R: "ready um c cap s"
  shows "\<exists>res. eval_one_value I score groups v s = Some res \<and>
    follows (ready um c cap) um (value_hits I score c groups v) s res"
proof (cases "v_Inert v")
  case True
  with R ready_not_exhausted(1) [OF R] show ?thesis
    by (simp add: eval_one_value_def value_hits_def follows_stay)
next
  case False
  let ?b = "v_bytes v"
  let ?rs = "Set_Build ?b (Detect ?b)"
  obtain m ok where sp: "Spend (wrap64 (int (length ?b) * CostPerByteScanned)) (es_meter s) = (m, ok)" by force
  let ?s = "s\<lparr>es_ev := (es_ev s)\<lparr>ev_keyMaterialised := False\<rparr>, es_meter := m\<rparr>"
  have um: "um \<longrightarrow> ok \<and> m = es_meter s"
    using R sp Spend_free [of "es_meter s" "wrap64 (int (length ?b) * CostPerByteScanned)"]
    by (auto simp: ready_def)
  have full: "\<not> rset_truncated ?rs" by (rule Set_Build_spec [of ?b "Detect ?b"])
  show ?thesis
  proof (cases ok)
    case False
    with \<open>\<not> v_Inert v\<close> sp um show ?thesis
      by (auto simp: eval_one_value_def Let_def follows_def out_of_fuel_def)
  next
    case True
    let ?P = "ready_value um c cap v"
    have P: "?P ?s" using R um by (auto simp: ready_value_def ready_def)
    obtain res where res:
      "iter_opt (eval_reading I score groups v) (enumerate 0 (rset_readings ?rs)) ?s = Some res"
      "follows ?P um (concat (map (reading_hits I score c groups v) (enumerate 0 (rset_readings ?rs)))) ?s res"
      using iter_opt_follows [of "enumerate 0 (rset_readings ?rs)" ?P "eval_reading I score groups v" um
          "reading_hits I score c groups v" ?s] P
      by (meson eval_reading_follows [OF g] ready_not_exhausted(2))
    have "follows (ready um c cap) um (value_hits I score c groups v) ?s res"
      using follows_weaken [OF res(2), of "ready um c cap"] False
      by (simp add: value_hits_def ready_value_def)
    then have "follows (ready um c cap) um (value_hits I score c groups v) s res"
      by (auto elim: follows_same_out)
    moreover have "eval_one_value I score groups v s = Some res"
      using False sp True full res(1) by (simp add: eval_one_value_def Let_def)
    ultimately show ?thesis by blast
  qed
qed

text \<open>The request-level context the operators see in a phase.\<close>

definition request_ctx :: "eval_value list \<Rightarrow> 't evaluator \<Rightarrow> eval_ctx" where
  "request_ctx values e = ev_ctx (bindRequest values e)"

lemma bindRequest_frame:
  "ev_candidates (bindRequest values e) = ev_candidates e"
  "ev_stages (bindRequest values e) = ev_stages e"
  by (auto simp: bindRequest_def Let_def split: prod.splits)

lemma Eval_follows:
  assumes fit: "\<forall>g \<in> set (Groups rs phase). group_fit I (Bitset_Cap (ev_candidates (sizeFor rs (es_ev s)))) g"
    and inv: "bitset_inv (ev_candidates (es_ev s))"
    and fresh: "\<not> r_Terminal (es_out s)" "\<not> r_Exhausted (es_out s)"
  shows "\<exists>s'. Eval I score rs phase values s = Some s' \<and>
    (r_Exhausted (es_out s') \<and> \<not> free (es_meter s) \<or>
     uncounted (es_out s') = uncounted (record_hits
       (concat (map (value_hits I score (request_ctx values (sizeFor rs (es_ev s))) (Groups rs phase)) values))
       (es_out s)))"
proof (cases "Groups rs phase = []")
  case True
  have "value_hits I score c [] v = []" for c v
    by (auto simp: value_hits_def reading_hits_def)
  then have "concat (map (value_hits I score c []) values) = []" for c by simp
  with True show ?thesis by (simp add: Eval_def del: concat_eq_Nil_conv)
next
  case False
  let ?e = "sizeFor rs (es_ev s)"
  let ?s = "s\<lparr>es_ev := bindRequest values ?e\<rparr>"
  let ?c = "request_ctx values ?e"
  let ?cap = "Bitset_Cap (ev_candidates ?e)"
  let ?um = "free (es_meter s)"
  have "bitset_inv (ev_candidates ?e)"
    unfolding sizeFor_def Let_def using inv by (simp add: inv_intros)
  then have P: "ready ?um ?c ?cap ?s"
    using fresh by (simp add: ready_def bindRequest_frame request_ctx_def)
  obtain s' go where r: "iter_opt (eval_one_value I score (Groups rs phase)) values ?s = Some (s', go)"
    "follows (ready ?um ?c ?cap) ?um (concat (map (value_hits I score ?c (Groups rs phase)) values)) ?s (s', go)"
    using iter_opt_follows [of "values" "ready ?um ?c ?cap" "eval_one_value I score (Groups rs phase)" ?um
        "value_hits I score ?c (Groups rs phase)" ?s] P
    by (metis eval_one_value_follows [OF fit] ready_not_exhausted(1) surj_pair)
  have "Eval I score rs phase values s = Some s'"
    using False r(1) by (simp add: Eval_def Let_def)
  with r(2) show ?thesis by (auto simp: follows_def)
qed

section \<open>Compiled rulesets\<close>

text \<open>Different transform chains of the ruleset have different keys.\<close>

definition chains_distinct :: "('t, 'o, 'a) iface \<Rightarrow> ('t, 'o, 'a) rule list \<Rightarrow> bool" where
  "chains_distinct I rules \<longleftrightarrow>
     (\<forall>r1 \<in> set rules. \<forall>r2 \<in> set rules.
        chainKey I (rule_chain r1) = chainKey I (rule_chain r2) \<longrightarrow> rule_chain r1 = rule_chain r2)"

lemma validated_kinds:
  "field_errors uo r = [] \<Longrightarrow> t \<in> set (Targets r) \<Longrightarrow> Kind t < 64"
proof -
  assume "field_errors uo r = []" "t \<in> set (Targets r)"
  then have "target_errors (ID r) (Phase r) t = []" by (simp add: field_errors_def)
  then have "target_kind_Valid (Kind t)" by (auto simp: target_errors_def split: if_splits)
  then have "unat (Kind t) < unat targetKindCount" by (simp add: target_kind_Valid_def byte_simps)
  then have "unat (Kind t) < 64" by simp
  then show "Kind t < 64" by (simp add: byte_simps)
qed

lemma fold_max_ge:
  fixes f :: "'b \<Rightarrow> nat"
  shows "m \<le> fold (\<lambda>p m. max m (f p)) xs m" and "x \<in> set xs \<Longrightarrow> f x \<le> fold (\<lambda>p m. max m (f p)) xs m"
proof -
  have mono: "m \<le> fold (\<lambda>p m. max m (f p)) xs m" for xs m
  proof (induction xs arbitrary: m)
    case (Cons w ys)
    have "m \<le> max m (f w)" by simp
    also note Cons [of "max m (f w)"]
    finally show ?case by simp
  qed simp
  then show "m \<le> fold (\<lambda>p m. max m (f p)) xs m" .
  show "x \<in> set xs \<Longrightarrow> f x \<le> fold (\<lambda>p m. max m (f p)) xs m"
  proof (induction xs arbitrary: m)
    case (Cons z xs)
    show ?case
    proof (cases "x \<in> set xs")
      case True
      with Cons.IH [OF True, of "max m (f z)"] show ?thesis by simp
    next
      case False
      then have "f x \<le> max m (f z)" using Cons.prems by simp
      also note mono [of "max m (f z)" xs]
      finally show ?thesis by simp
    qed
  qed simp
qed

lemma sizeFor_covers:
  assumes "phase_Valid p" "bitset_inv (ev_candidates e)"
  shows "MaxGroupRules rs p \<le> Bitset_Cap (ev_candidates (sizeFor rs e))"
    and "bitset_inv (ev_candidates (sizeFor rs e))"
proof -
  let ?m = "fold (\<lambda>p m. max m (MaxGroupRules rs p)) [1, 2, 3, 4, 5 :: phase] 0"
  have "p \<in> set [1, 2, 3, 4, 5]" using assms(1) by (simp add: phase_cases)
  then have "MaxGroupRules rs p \<le> ?m"
    by (rule fold_max_ge(2))
  moreover have "int ?m \<le> int (Bitset_Cap (Bitset_Grow (int ?m) (ev_candidates e)))"
    by (rule Bitset_Grow_spec(3) [OF assms(2)])
  ultimately have "MaxGroupRules rs p \<le> Bitset_Cap (Bitset_Grow (int ?m) (ev_candidates e))"
    by (simp only: of_nat_le_iff)
  then show "MaxGroupRules rs p \<le> Bitset_Cap (ev_candidates (sizeFor rs e))"
    by (simp add: sizeFor_def Let_def)
  show "bitset_inv (ev_candidates (sizeFor rs e))"
    unfolding sizeFor_def Let_def using assms(2) by (simp add: inv_intros)
qed

text \<open>Where the rules of a group come from.\<close>

lemma compiled_group:
  assumes ords: "\<forall>p j. map_order_ok (ords p j)" and comp: "Compile I ords rules uo = Some (Inr rs)"
    and g: "g \<in> set (Groups rs p)"
  shows "phase_Valid p" and "group_ok I g" and "automaton_ok I g"
    and "length (g_Rules g) \<le> MaxGroupRules rs p" and "length (g_Rules g) \<le> length rules"
    and "\<forall>cr \<in> set (g_Rules g). cr_Rule cr \<in> set rules" and "validate rules uo = []"
proof -
  show p: "phase_Valid p" using g by (auto simp: Groups_def split: if_splits)
  have C: "validate rules uo = []" "length (rs_phases rs) = 6" "\<forall>pp \<in> set (rs_phases rs). phase_ok I pp"
    "map cr_Rule (PhaseRules rs p) = sort_key ID (filter (\<lambda>r. Phase r = p) rules)"
    using Compile_spec [OF ords, of I rules uo] comp p by auto
  let ?pp = "rs_phases rs ! unat p"
  have pp: "phase_ok I ?pp" using C(2,3) phase_Valid_unat [OF p] by simp
  have gp: "g \<in> set (pp_groups ?pp)" using g p by (simp add: Groups_def)
  with pp show "group_ok I g" "automaton_ok I g" by (simp_all add: phase_ok_def)
  show "length (g_Rules g) \<le> MaxGroupRules rs p"
    using pp gp p by (simp add: phase_ok_def MaxGroupRules_def)
  have ms: "mset (concat (map g_Rules (pp_groups ?pp))) = mset (pp_rules ?pp)"
    using pp by (simp add: phase_ok_def)
  have rules: "map cr_Rule (pp_rules ?pp) = sort_key ID (filter (\<lambda>r. Phase r = p) rules)"
    using C(4) p by (simp add: PhaseRules_def)
  obtain xs ys where split: "pp_groups ?pp = xs @ g # ys" using split_list [OF gp] by blast
  have "length (g_Rules g) \<le> length (concat (map g_Rules (pp_groups ?pp)))" by (simp add: split)
  also have "\<dots> = length (pp_rules ?pp)" using ms by (metis size_mset)
  also have "\<dots> = length (filter (\<lambda>r. Phase r = p) rules)"
    using arg_cong [OF rules, of length] by simp
  also have "\<dots> \<le> length rules" by simp
  finally show "length (g_Rules g) \<le> length rules" .
  have "set (g_Rules g) \<subseteq> set (pp_rules ?pp)"
    using mset_eq_setD [OF ms] gp by auto
  moreover have "cr_Rule ` set (pp_rules ?pp) \<subseteq> set rules"
    using arg_cong [OF rules, of set] by auto
  ultimately show "\<forall>cr \<in> set (g_Rules g). cr_Rule cr \<in> set rules" by blast
  show "validate rules uo = []" by (rule C(1))
qed

lemma compiled_fit:
  assumes "\<forall>p j. map_order_ok (ords p j)" "Compile I ords rules uo = Some (Inr rs)"
    and "g \<in> set (Groups rs p)" "bitset_inv (ev_candidates e)"
    and "length rules \<le> 2 ^ 32"
  shows "group_fit I (Bitset_Cap (ev_candidates (sizeFor rs e))) g"
proof -
  note G = compiled_group [OF assms(1-3)]
  have "Kind t < 64" if "cr \<in> set (g_Rules g)" "t \<in> set (Targets (cr_Rule cr))" for cr t
  proof -
    have "cr_Rule cr \<in> set rules" using G(6) that(1) by simp
    then have "field_errors uo (cr_Rule cr) = []"
      using validate_phases [of uo 0 "[]" rules] G(7) by (simp add: validate_def)
    then show ?thesis by (rule validated_kinds) (rule that(2))
  qed
  moreover have "length (g_Rules g) \<le> Bitset_Cap (ev_candidates (sizeFor rs e))"
    using G(4) sizeFor_covers(1) [OF G(1) assms(4), of rs] by simp
  moreover have "length (g_Rules g) \<le> 2 ^ 32" using G(5) assms(5) by simp
  ultimately show ?thesis using G(2,3) unfolding group_fit_def by auto
qed

text \<open>A rule sees its own chain unless another chain of the ruleset has its key.\<close>

lemma compiled_chain:
  assumes "\<forall>p j. map_order_ok (ords p j)" "Compile I ords rules uo = Some (Inr rs)"
    and "g \<in> set (Groups rs p)" "cr \<in> set (g_Rules g)"
    and "\<forall>r \<in> set rules. chainKey I (rule_chain r) = chainKey I (rule_chain (cr_Rule cr)) \<longrightarrow>
      rule_chain r = rule_chain (cr_Rule cr)"
  shows "g_Transforms g = rule_chain (cr_Rule cr)"
proof -
  note G = compiled_group [OF assms(1-3)]
  have ne: "g_Rules g \<noteq> []" using assms(4) by auto
  let ?h = "hd (g_Rules g)"
  have h: "g_Transforms g = rule_chain (cr_Rule ?h)" using G(2) ne by (simp add: group_ok_def)
  moreover have "chainKey I (rule_chain (cr_Rule cr)) = chainKey I (g_Transforms g)"
    using G(2) assms(4) by (simp add: group_ok_def)
  moreover have "cr_Rule ?h \<in> set rules" using G(6) ne by auto
  ultimately show ?thesis using assms(5) by simp
qed

lemma distinct_chain:
  assumes "\<forall>p j. map_order_ok (ords p j)" "Compile I ords rules uo = Some (Inr rs)" "chains_distinct I rules"
    and "g \<in> set (Groups rs p)" "cr \<in> set (g_Rules g)"
  shows "g_Transforms g = rule_chain (cr_Rule cr)"
proof (rule compiled_chain [OF assms(1,2,4,5)])
  have "cr_Rule cr \<in> set rules" using compiled_group(6) [OF assms(1,2,4)] assms(5) by blast
  then show "\<forall>r \<in> set rules. chainKey I (rule_chain r) = chainKey I (rule_chain (cr_Rule cr)) \<longrightarrow>
      rule_chain r = rule_chain (cr_Rule cr)"
    using assms(3) by (simp add: chains_distinct_def)
qed

text \<open>Everything a phase's rules yield on a list of values, in the order of the loops.\<close>

definition phase_hits ::
  "('t, 'o, 'a) iface \<Rightarrow> 'a \<Rightarrow> ('t, 'o, 'a) ruleset \<Rightarrow> phase \<Rightarrow> eval_value list \<Rightarrow> 't evaluator \<Rightarrow>
   ('t, 'o, 'a) hit list"
where
  "phase_hits I score rs phase vs e =
     concat (map (value_hits I score (request_ctx vs (sizeFor rs e)) (Groups rs phase)) vs)"

lemma Eval_compiled:
  assumes "\<forall>p j. map_order_ok (ords p j)" "Compile I ords rules uo = Some (Inr rs)"
    and "length rules \<le> 2 ^ 32"
    and "bitset_inv (ev_candidates (es_ev s))" "\<not> r_Terminal (es_out s)" "\<not> r_Exhausted (es_out s)"
  shows "\<exists>s'. Eval I score rs phase vs s = Some s' \<and>
    (r_Exhausted (es_out s') \<and> \<not> free (es_meter s) \<or>
     uncounted (es_out s') = uncounted (record_hits (phase_hits I score rs phase vs (es_ev s)) (es_out s)))"
  unfolding phase_hits_def
  by (rule Eval_follows [OF _ assms(4-6)]) (use compiled_fit [OF assms(1,2) _ assms(4,3)] in blast)

end
