(* ===== verification/Ops.thy ===== *)
theory Ops
  imports EngineCorrect
begin

text \<open>
  The built-in operators (rules/op/op.go) and the contract the engine relies on. A constructor
  returns a pointer to a private struct that is never changed afterwards, so it is a record here;
  a Go interface value is the datatype \<open>builtin_op\<close>. The predicate of \<open>Func\<close> is the embedder's
  code and a parameter.

  The contract is the locale \<open>operator_contract\<close>: an operator that requires literals hits only
  values that contain one of them up to ASCII case, and the span it reports lies in the value.
  Every built-in operator is an interpretation; for \<open>Func\<close> the contract is the caller's promise.
\<close>

section \<open>ASCII folding and search\<close>

definition op_foldByte :: "byte \<Rightarrow> byte" where
  "op_foldByte c = (if 65 \<le> c \<and> c \<le> 90 then c + (97 - 65) else c)"

definition toLower :: "gobytes \<Rightarrow> gobytes" where
  "toLower s =
     (if \<not> list_ex (\<lambda>c. 65 \<le> c \<and> c \<le> 90) s then s
      else map (\<lambda>c. if 65 \<le> c \<and> c \<le> 90 then c + (97 - 65) else c) s)"

fun fold_eq_loop :: "gobytes \<Rightarrow> gobytes \<Rightarrow> bool" where
  "fold_eq_loop (a # as) (b # bs) = (if op_foldByte a \<noteq> b then False else fold_eq_loop as bs)"
| "fold_eq_loop as bs = True"

definition op_equalFold :: "gobytes \<Rightarrow> gobytes \<Rightarrow> bool" where
  "op_equalFold a b = (if length a \<noteq> length b then False else fold_eq_loop a b)"

text \<open>The next position where the first byte of the needle, in either case, occurs.\<close>

definition probe :: "gobytes \<Rightarrow> byte \<Rightarrow> byte \<Rightarrow> nat option" where
  "probe rest first upper =
     (let i = IndexByte rest first in
      if upper \<noteq> first then
        (case IndexByte rest upper of
           Some j \<Rightarrow> (case i of None \<Rightarrow> Some j | Some k \<Rightarrow> if j < k then Some j else Some k)
         | None \<Rightarrow> i)
      else i)"

function index_fold_loop :: "gobytes \<Rightarrow> gobytes \<Rightarrow> byte \<Rightarrow> byte \<Rightarrow> nat \<Rightarrow> nat option" where
  "index_fold_loop haystack needle first upper off =
     (if off + length needle \<le> length haystack then
        (case probe (drop off haystack) first upper of
           None \<Rightarrow> None
         | Some i \<Rightarrow>
             let pos = off + i in
             if length haystack < pos + length needle then None
             else if op_equalFold (take (length needle) (drop pos haystack)) needle then Some pos
             else index_fold_loop haystack needle first upper (pos + 1))
      else None)"
  by pat_completeness auto
termination by (relation "measure (\<lambda>(h, n, f, u, off). length h + 1 - off)") auto

declare index_fold_loop.simps [simp del]

definition indexFold :: "gobytes \<Rightarrow> gobytes \<Rightarrow> nat option" where
  "indexFold haystack needle =
     (if length needle = 0 then Some 0
      else if length haystack < length needle then None
      else
        let first = needle ! 0;
            upper = (if 97 \<le> first \<and> first \<le> 122 then first - (97 - 65) else first)
        in index_fold_loop haystack needle first upper 0)"

section \<open>Operators\<close>

record contains_any =
  ca_name :: gobytes
  ca_needles :: "gobytes list"
  ca_lowered :: "gobytes list"
  ca_literals :: "gobytes list"

definition Contains :: "gobytes \<Rightarrow> contains_any" where
  "Contains needle = \<lparr>ca_name = ascii ''contains'', ca_needles = [needle],
     ca_lowered = [toLower needle], ca_literals = [needle]\<rparr>"

definition ContainsAny :: "gobytes list \<Rightarrow> contains_any" where
  "ContainsAny needles =
     (case fold (\<lambda>n (lowered, lits). if n = [] then (lowered, lits) else (lowered @ [toLower n], lits @ [n]))
        needles ([], []) of
        (lowered, lits) \<Rightarrow> \<lparr>ca_name = ascii ''contains_any'', ca_needles = needles,
          ca_lowered = lowered, ca_literals = lits\<rparr>)"

fun contains_loop :: "gobytes list \<Rightarrow> gobytes \<Rightarrow> rmatch \<times> bool" where
  "contains_loop [] val = (rmatch_zero, False)"
| "contains_loop (n # ns) val =
     (if length n = 0 then contains_loop ns val
      else case indexFold val n of
        Some i \<Rightarrow> (\<lparr>m_Span = SpanOf i (length n)\<rparr>, True)
      | None \<Rightarrow> contains_loop ns val)"

definition containsAny_Eval :: "contains_any \<Rightarrow> eval_ctx \<Rightarrow> gobytes \<Rightarrow> rmatch \<times> bool" where
  "containsAny_Eval op c val = contains_loop (ca_lowered op) val"

definition containsAny_Literals :: "contains_any \<Rightarrow> gobytes list \<times> bool" where
  "containsAny_Literals op = (if length (ca_literals op) = 0 then ([], False) else (ca_literals op, True))"

record equals_op =
  eq_want :: gobytes
  eq_literal :: gobytes

definition Equals :: "gobytes \<Rightarrow> equals_op" where
  "Equals want = \<lparr>eq_want = want, eq_literal = want\<rparr>"

definition equals_Eval :: "equals_op \<Rightarrow> eval_ctx \<Rightarrow> gobytes \<Rightarrow> rmatch \<times> bool" where
  "equals_Eval op c val = (if val = eq_want op then (WholeValue val, True) else (rmatch_zero, False))"

definition equals_Literals :: "equals_op \<Rightarrow> gobytes list \<times> bool" where
  "equals_Literals op = (if eq_literal op = [] then ([], False) else ([eq_literal op], True))"

record prefix_op =
  hp_prefix :: gobytes
  hp_literal :: gobytes

definition HasPrefix :: "gobytes \<Rightarrow> prefix_op" where
  "HasPrefix p = \<lparr>hp_prefix = toLower p, hp_literal = p\<rparr>"

definition hasPrefix_Eval :: "prefix_op \<Rightarrow> eval_ctx \<Rightarrow> gobytes \<Rightarrow> rmatch \<times> bool" where
  "hasPrefix_Eval op c val =
     (if length val < length (hp_prefix op) then (rmatch_zero, False)
      else if op_equalFold (take (length (hp_prefix op)) val) (hp_prefix op)
      then (\<lparr>m_Span = SpanOf 0 (length (hp_prefix op))\<rparr>, True)
      else (rmatch_zero, False))"

definition hasPrefix_Literals :: "prefix_op \<Rightarrow> gobytes list \<times> bool" where
  "hasPrefix_Literals op = (if hp_literal op = [] then ([], False) else ([hp_literal op], True))"

record func_op =
  fo_name :: gobytes
  fo_fn :: "gobytes \<Rightarrow> bool"
  fo_literals :: "gobytes list"

definition Func :: "gobytes \<Rightarrow> (gobytes \<Rightarrow> bool) \<Rightarrow> func_op" where
  "Func name fn = \<lparr>fo_name = name, fo_fn = fn, fo_literals = []\<rparr>"

definition WithLiterals :: "gobytes list \<Rightarrow> func_op \<Rightarrow> func_op" where
  "WithLiterals literals op = op\<lparr>fo_literals := literals\<rparr>"

definition func_Eval :: "func_op \<Rightarrow> eval_ctx \<Rightarrow> gobytes \<Rightarrow> rmatch \<times> bool" where
  "func_Eval op c val = (if fo_fn op val then (WholeValue val, True) else (rmatch_zero, False))"

definition func_Literals :: "func_op \<Rightarrow> gobytes list \<times> bool" where
  "func_Literals op = (if length (fo_literals op) = 0 then ([], False) else (fo_literals op, True))"

section \<open>The interface value\<close>

datatype builtin_op =
    ContainsAnyOp contains_any
  | EqualsOp equals_op
  | HasPrefixOp prefix_op
  | FuncOp func_op

fun op_Name :: "builtin_op \<Rightarrow> gobytes" where
  "op_Name (ContainsAnyOp op) = ca_name op"
| "op_Name (EqualsOp op) = ascii ''equals''"
| "op_Name (HasPrefixOp op) = ascii ''has_prefix''"
| "op_Name (FuncOp op) = ascii ''func:'' @ fo_name op"

fun op_Eval :: "builtin_op \<Rightarrow> eval_ctx \<Rightarrow> gobytes \<Rightarrow> rmatch \<times> bool" where
  "op_Eval (ContainsAnyOp op) = containsAny_Eval op"
| "op_Eval (EqualsOp op) = equals_Eval op"
| "op_Eval (HasPrefixOp op) = hasPrefix_Eval op"
| "op_Eval (FuncOp op) = func_Eval op"

fun op_Literals :: "builtin_op \<Rightarrow> gobytes list \<times> bool" where
  "op_Literals (ContainsAnyOp op) = containsAny_Literals op"
| "op_Literals (EqualsOp op) = equals_Literals op"
| "op_Literals (HasPrefixOp op) = hasPrefix_Literals op"
| "op_Literals (FuncOp op) = func_Literals op"

fun op_Cost :: "builtin_op \<Rightarrow> fuel" where
  "op_Cost (ContainsAnyOp op) = CostLiteralMatch"
| "op_Cost (EqualsOp op) = CostLiteralMatch"
| "op_Cost (HasPrefixOp op) = CostLiteralMatch"
| "op_Cost (FuncOp op) = CostCustomOperator"

section \<open>Search is exact\<close>

lemma op_foldByte_eq: "op_foldByte c = fold_byte c"
  by (simp add: op_foldByte_def fold_byte_def)

lemma fold_byte_lower: "fold_byte c = ascii_lower c"
  by (simp add: fold_byte_def ascii_lower_def)

lemma toLower_eq: "toLower s = map fold_byte s"
proof (cases "list_ex (\<lambda>c. 65 \<le> c \<and> c \<le> 90) s")
  case True
  then show ?thesis by (simp add: toLower_def fold_byte_def cong: map_cong)
next
  case False
  then have "map fold_byte s = s" by (intro map_idI) (auto simp: fold_byte_def list_ex_iff)
  with False show ?thesis by (simp add: toLower_def)
qed

lemma fold_byte_idem [simp]: "fold_byte (fold_byte c) = fold_byte c"
  by (simp add: fold_byte_lower)

lemma map_fold_byte_idem [simp]: "map fold_byte (map fold_byte s) = map fold_byte s"
  by simp

lemma op_equalFold_iff: "op_equalFold a b \<longleftrightarrow> map fold_byte a = b"
proof -
  have "length a = length b \<Longrightarrow> fold_eq_loop a b \<longleftrightarrow> map fold_byte a = b"
    by (induction a b rule: fold_eq_loop.induct) (auto simp: op_foldByte_eq)
  then show ?thesis by (auto simp: op_equalFold_def)
qed

lemma probe_None: "probe s a b = None \<Longrightarrow> a \<notin> set s \<and> b \<notin> set s"
  by (auto simp: probe_def Let_def IndexByte_None split: if_splits option.splits)

lemma probe_Some:
  assumes "probe s a b = Some i"
  shows "i < length s \<and> (\<forall>j < i. s ! j \<noteq> a \<and> s ! j \<noteq> b)"
proof -
  have never: "j < length s \<Longrightarrow> s ! j \<noteq> c" if "IndexByte s c = None" for c j
    using that by (auto simp: IndexByte_None)
  have least: "i < length s \<and> (\<forall>j < i. s ! j \<noteq> c)" if "IndexByte s c = Some i" for c i
    using IndexByte_Some [OF that] by blast
  show ?thesis
  proof (cases "IndexByte s a")
    case None
    with assms have i: "IndexByte s b = Some i"
      by (auto simp: probe_def Let_def split: if_splits option.splits)
    from least [OF i] never [OF None] show ?thesis by auto
  next
    case a: (Some k)
    show ?thesis
    proof (cases "IndexByte s b")
      case None
      with a assms have "i = k" by (auto simp: probe_def Let_def split: if_splits)
      with least [OF a] never [OF None] show ?thesis by auto
    next
      case (Some l)
      with a assms have "i = (if b \<noteq> a then min k l else k)"
        by (auto simp: probe_def Let_def split: if_splits)
      with least [OF a] least [OF Some] a Some show ?thesis by (auto split: if_splits)
    qed
  qed
qed

definition occurs_at :: "gobytes \<Rightarrow> gobytes \<Rightarrow> nat \<Rightarrow> bool" where
  "occurs_at h n p \<longleftrightarrow> map fold_byte (take (length n) (drop p h)) = n"

text \<open>An occurrence of a lower-case needle starts with its first byte or that byte's upper case.\<close>

lemma occurs_at_first:
  assumes "occurs_at h n p" "n \<noteq> []" "p + length n \<le> length h"
  shows "h ! p = n ! 0 \<or> h ! p = (if 97 \<le> n ! 0 \<and> n ! 0 \<le> 122 then n ! 0 - (97 - 65) else n ! 0)"
proof -
  have "map fold_byte (take (length n) (drop p h)) ! 0 = n ! 0" using assms(1) by (simp add: occurs_at_def)
  then have f: "fold_byte (h ! p) = n ! 0" using assms(2,3) by (cases n) auto
  show ?thesis
  proof (cases "65 \<le> h ! p \<and> h ! p \<le> 90")
    case True
    then have u: "65 \<le> unat (h ! p)" "unat (h ! p) \<le> 90" by (simp_all add: byte_simps)
    from True f have e: "n ! 0 = h ! p + 32" by (simp add: fold_byte_def)
    then have "unat (n ! 0) = unat (h ! p) + 32" using u by (simp add: unat_word_ariths)
    with u have "97 \<le> n ! 0 \<and> n ! 0 \<le> 122" by (simp add: byte_simps)
    with e show ?thesis by simp
  next
    case False
    with f show ?thesis by (auto simp: fold_byte_def split: if_splits)
  qed
qed

lemma find_upt_skip:
  assumes "a \<le> b" "\<And>p. a \<le> p \<Longrightarrow> p < b \<Longrightarrow> p < c \<Longrightarrow> \<not> P p"
  shows "find P [a..<c] = find P [b..<c]"
proof (cases "b \<le> c")
  case True
  then have "[a..<c] = [a..<b] @ [b..<c]" using assms(1) by (metis le_add_diff_inverse upt_add_eq_append)
  moreover have "find P xs = None" if "\<forall>p \<in> set xs. \<not> P p" for xs using that by (simp add: find_None_iff)
  moreover have "find P (xs @ ys) = (case find P xs of None \<Rightarrow> find P ys | Some p \<Rightarrow> Some p)" for xs ys
    by (induction xs) auto
  moreover have "\<forall>p \<in> set [a..<b]. \<not> P p" using assms(2) True by simp
  ultimately show ?thesis by simp
next
  case False
  then have "find P [a..<c] = None" using assms by (auto simp: find_None_iff)
  with False show ?thesis by simp
qed

lemma index_fold_loop_find:
  assumes n: "n \<noteq> []" and first: "first = n ! 0"
    and upper: "upper = (if 97 \<le> first \<and> first \<le> 122 then first - (97 - 65) else first)"
  shows "index_fold_loop h n first upper off = find (occurs_at h n) [off..<length h + 1 - length n]"
proof (induction "length h + 1 - off" arbitrary: off rule: less_induct)
  case less
  let ?stop = "length h + 1 - length n"
  show ?case
  proof (cases "off + length n \<le> length h")
    case False
    with n show ?thesis by (subst index_fold_loop.simps) (simp add: length_greater_0_conv [symmetric] del: length_greater_0_conv)
  next
    case fits: True
    have other: "\<not> occurs_at h n p" if "p + length n \<le> length h" "h ! p \<noteq> first" "h ! p \<noteq> upper" for p
      using occurs_at_first [of h n p] that n first upper by auto
    show ?thesis
    proof (cases "probe (drop off h) first upper")
      case None
      have "\<not> occurs_at h n p" if "off \<le> p" "p < ?stop" for p
      proof (rule other)
        show "p + length n \<le> length h" using that(2) fits by simp
        have "p < length h" using that(2) n by (cases n) auto
        then have "h ! p \<in> set (drop off h)" using that(1) by (auto simp: in_set_conv_nth intro!: exI [of _ "p - off"])
        with probe_None [OF None] show "h ! p \<noteq> first" "h ! p \<noteq> upper" by auto
      qed
      then have "find (occurs_at h n) [off..<?stop] = None" by (auto simp: find_None_iff)
      with None fits show ?thesis by (subst index_fold_loop.simps) simp
    next
      case (Some i)
      note P = probe_Some [OF Some]
      have skip: "find (occurs_at h n) [off..<?stop] = find (occurs_at h n) [off + i..<?stop]"
      proof (rule find_upt_skip)
        fix p assume p: "off \<le> p" "p < off + i" "p < ?stop"
        then have "drop off h ! (p - off) = h ! p" using P by simp
        moreover have "p - off < i" using p by simp
        ultimately have "h ! p \<noteq> first" "h ! p \<noteq> upper" using P by metis+
        moreover have "p + length n \<le> length h" using p(3) fits by simp
        ultimately show "\<not> occurs_at h n p" by (intro other)
      qed simp
      show ?thesis
      proof (cases "length h < off + i + length n")
        case True
        then have "find (occurs_at h n) [off + i..<?stop] = None" by simp
        with Some fits True skip show ?thesis by (subst index_fold_loop.simps) simp
      next
        case False
        then have "[off + i..<?stop] = (off + i) # [off + i + 1..<?stop]" by (simp add: upt_conv_Cons)
        moreover have "index_fold_loop h n first upper (off + i + 1) =
            find (occurs_at h n) [off + i + 1..<?stop]" by (rule less) (use False fits in simp)
        moreover have "op_equalFold (take (length n) (drop (off + i) h)) n = occurs_at h n (off + i)"
          by (simp add: op_equalFold_iff occurs_at_def)
        ultimately show ?thesis using Some fits False skip by (subst index_fold_loop.simps) (simp add: Let_def)
      qed
    qed
  qed
qed

lemma indexFold_find:
  "indexFold h n = (if n = [] then Some 0 else find (occurs_at h n) [0..<length h + 1 - length n])"
proof (cases "n = [] \<or> length h < length n")
  case True
  then show ?thesis by (auto simp: indexFold_def)
next
  case False
  then show ?thesis
    using index_fold_loop_find [of n "n ! 0" "if 97 \<le> n ! 0 \<and> n ! 0 \<le> 122 then n ! 0 - (97 - 65) else n ! 0" h 0]
    by (simp add: indexFold_def Let_def)
qed

lemma indexFold_Some:
  "indexFold h n = Some i \<Longrightarrow> n \<noteq> [] \<Longrightarrow> occurs_at h n i \<and> i + length n \<le> length h \<and> (\<forall>j < i. \<not> occurs_at h n j)"
  by (auto simp: indexFold_find find_Some_iff)

section \<open>The contract\<close>

locale operator_contract =
  fixes eval :: "eval_ctx \<Rightarrow> gobytes \<Rightarrow> rmatch \<times> bool"
    and lits :: "gobytes list \<times> bool"
  assumes required: "lits = (ls, True) \<Longrightarrow> eval c v = (m, True) \<Longrightarrow> \<exists>l \<in> set ls. literal_occurs l v"
    and span_inside: "eval c v = (m, True) \<Longrightarrow> length v < 2 ^ 32 \<Longrightarrow>
      unat (Off (m_Span m)) + unat (Len (m_Span m)) \<le> length v"
begin

text \<open>What the prefilter may skip: a value with none of the declared literals.\<close>

lemma skippable:
  assumes "snd lits" "\<forall>l \<in> set (fst lits). \<not> literal_occurs l v"
  shows "\<not> snd (eval c v)"
proof
  assume "snd (eval c v)"
  then have "eval c v = (fst (eval c v), True)" by (simp add: prod_eq_iff)
  moreover have "lits = (fst lits, True)" using assms(1) by (simp add: prod_eq_iff)
  ultimately show False using required assms(2) by blast
qed

text \<open>The bytes copied for the audit record are exactly the ones the operator matched.\<close>

lemma matched_exact:
  assumes "eval c v = (m, True)" "length v < 2 ^ 32"
  shows "matchedBytes v m = take (unat (Len (m_Span m))) (drop (unat (Off (m_Span m))) v)"
proof (cases "Len (m_Span m) = 0")
  case False
  have "unat (Off (m_Span m)) + unat (Len (m_Span m)) \<le> length v" by (rule span_inside [OF assms])
  with False show ?thesis by (simp add: matchedBytes_def Let_def)
qed (simp add: matchedBytes_def)

end

lemma occurs_at_literal:
  assumes "occurs_at h (toLower l) i" "l \<noteq> []"
  shows "literal_occurs l h"
proof -
  have "map fold_byte h = take i (map fold_byte h) @ map fold_byte l @ drop (i + length l) (map fold_byte h)"
  proof -
    have "map fold_byte l = take (length l) (drop i (map fold_byte h))"
      using assms(1) by (simp add: occurs_at_def toLower_eq take_map drop_map)
    moreover have "take (length l) (drop i (map fold_byte h)) @ drop (i + length l) (map fold_byte h) =
        drop i (map fold_byte h)"
      using append_take_drop_id [of "length l" "drop i (map fold_byte h)"] by (simp add: add.commute)
    ultimately show ?thesis by (metis append_take_drop_id)
  qed
  then have "sublist (map fold_byte l) (map fold_byte h)" unfolding sublist_def by blast
  with assms(2) show ?thesis by (simp add: literal_occurs_def)
qed

lemma literal_occurs_at:
  assumes "literal_occurs l h"
  obtains i where "occurs_at h (toLower l) i" "i + length l \<le> length h"
proof -
  from assms obtain xs ys where e: "map fold_byte h = xs @ map fold_byte l @ ys"
    by (auto simp: literal_occurs_def sublist_def)
  have len: "length xs + length l \<le> length h" using arg_cong [OF e, of length] by simp
  have "map fold_byte (take (length l) (drop (length xs) h)) = map fold_byte l"
    using arg_cong [OF e, of "\<lambda>s. take (length l) (drop (length xs) s)"]
    by (simp add: take_map drop_map)
  then show ?thesis using len by (intro that [of "length xs"]) (simp_all add: occurs_at_def toLower_eq)
qed

lemma indexFold_occurs:
  assumes "n \<noteq> []"
  shows "indexFold h (toLower n) \<noteq> None \<longleftrightarrow> literal_occurs n h"
proof
  assume "indexFold h (toLower n) \<noteq> None"
  then obtain i where "indexFold h (toLower n) = Some i" by blast
  then have "occurs_at h (toLower n) i" using indexFold_Some assms by (simp add: toLower_eq)
  then show "literal_occurs n h" by (rule occurs_at_literal) (rule assms)
next
  assume "literal_occurs n h"
  then obtain i where "occurs_at h (toLower n) i" "i + length n \<le> length h" by (rule literal_occurs_at)
  moreover from this have "i \<in> set [0..<length h + 1 - length (toLower n)]" by (simp add: toLower_eq)
  ultimately have "find (occurs_at h (toLower n)) [0..<length h + 1 - length (toLower n)] \<noteq> None"
    unfolding find_None_iff by blast
  with assms show "indexFold h (toLower n) \<noteq> None" by (simp add: indexFold_find toLower_eq)
qed

lemma SpanOf_inside:
  assumes "off + len \<le> length v" "length v < 2 ^ 32"
  shows "unat (Off (SpanOf off len)) + unat (Len (SpanOf off len)) \<le> length v"
  using assms by (simp add: SpanOf_def unat_of_nat_u32)

lemma contains_loop_spec:
  assumes "ls = map toLower ns"
  shows "(snd (contains_loop ls v) \<longleftrightarrow> (\<exists>n \<in> set ns. literal_occurs n v)) \<and>
    (snd (contains_loop ls v) \<longrightarrow> (\<exists>i k. fst (contains_loop ls v) = \<lparr>m_Span = SpanOf i k\<rparr> \<and> i + k \<le> length v))"
  using assms
proof (induction ns arbitrary: ls)
  case (Cons n ns)
  let ?rest = "contains_loop (map toLower ns) v"
  note IH = Cons.IH [OF refl]
  show ?case
  proof (cases "n = []")
    case True
    with IH Cons.prems show ?thesis by (simp add: toLower_eq literal_occurs_def)
  next
    case ne: False
    show ?thesis
    proof (cases "indexFold v (toLower n)")
      case None
      then have "\<not> literal_occurs n v" using indexFold_occurs [OF ne, of v] by simp
      with None IH Cons.prems ne show ?thesis by (simp add: toLower_eq)
    next
      case (Some i)
      then have "literal_occurs n v" using indexFold_occurs [OF ne, of v] by auto
      moreover have "i + length n \<le> length v" using indexFold_Some [OF Some] ne by (simp add: toLower_eq)
      ultimately show ?thesis using Some Cons.prems ne by (auto simp: toLower_eq)
    qed
  qed
qed simp

lemma ContainsAny_fields:
  "ca_lowered (ContainsAny ns) = map toLower (filter (\<lambda>n. n \<noteq> []) ns)"
  "ca_literals (ContainsAny ns) = filter (\<lambda>n. n \<noteq> []) ns"
proof -
  have "fold (\<lambda>n (lo, li). if n = [] then (lo, li) else (lo @ [toLower n], li @ [n])) ns (lo, li) =
      (lo @ map toLower (filter (\<lambda>n. n \<noteq> []) ns), li @ filter (\<lambda>n. n \<noteq> []) ns)" for lo li
    by (induction ns arbitrary: lo li) auto
  then show "ca_lowered (ContainsAny ns) = map toLower (filter (\<lambda>n. n \<noteq> []) ns)"
    "ca_literals (ContainsAny ns) = filter (\<lambda>n. n \<noteq> []) ns"
    by (simp_all add: ContainsAny_def)
qed

lemma containsAny_contract:
  assumes low: "ca_lowered op = map toLower (ca_literals op)"
  shows "operator_contract (containsAny_Eval op) (containsAny_Literals op)"
proof
  fix ls c v m
  assume "containsAny_Literals op = (ls, True)" "containsAny_Eval op c v = (m, True)"
  then have "ls = ca_literals op" "snd (contains_loop (ca_lowered op) v)"
    by (auto simp: containsAny_Literals_def containsAny_Eval_def split: if_splits)
  then show "\<exists>l \<in> set ls. literal_occurs l v" using contains_loop_spec [OF low, of v] by simp
next
  fix c v m
  assume e: "containsAny_Eval op c v = (m, True)" and v: "length (v :: gobytes) < 2 ^ 32"
  then obtain i k where "m = \<lparr>m_Span = SpanOf i k\<rparr>" "i + k \<le> length v"
    using contains_loop_spec [OF low, of v] by (auto simp: containsAny_Eval_def)
  with v show "unat (Off (m_Span m)) + unat (Len (m_Span m)) \<le> length v" by (simp add: SpanOf_inside)
qed

interpretation contains_any: operator_contract
    "containsAny_Eval (ContainsAny ns)" "containsAny_Literals (ContainsAny ns)" for ns
  by (rule containsAny_contract) (simp add: ContainsAny_fields)

interpretation contains: operator_contract
    "containsAny_Eval (Contains n)" "containsAny_Literals (Contains n)" for n
  by (rule containsAny_contract) (simp add: Contains_def)

lemma WholeValue_inside:
  "length v < 2 ^ 32 \<Longrightarrow>
     unat (Off (m_Span (WholeValue v))) + unat (Len (m_Span (WholeValue v))) \<le> length v"
  by (simp add: WholeValue_def SpanOf_inside)

interpretation equals: operator_contract "equals_Eval (Equals w)" "equals_Literals (Equals w)" for w
proof
  fix ls c v m
  assume "equals_Literals (Equals w) = (ls, True)" "equals_Eval (Equals w) c v = (m, True)"
  then have "w \<noteq> []" "ls = [w]" "v = w"
    by (auto simp: equals_Literals_def equals_Eval_def Equals_def split: if_splits)
  then show "\<exists>l \<in> set ls. literal_occurs l v" by (simp add: literal_occurs_def)
next
  fix c v m
  assume "equals_Eval (Equals w) c v = (m, True)" "length (v :: gobytes) < 2 ^ 32"
  then show "unat (Off (m_Span m)) + unat (Len (m_Span m)) \<le> length v"
    using WholeValue_inside [of v] by (auto simp: equals_Eval_def split: if_splits)
qed

interpretation has_prefix: operator_contract "hasPrefix_Eval (HasPrefix p)" "hasPrefix_Literals (HasPrefix p)" for p
proof
  fix ls c v m
  assume "hasPrefix_Literals (HasPrefix p) = (ls, True)" "hasPrefix_Eval (HasPrefix p) c v = (m, True)"
  then have "p \<noteq> []" "ls = [p]" "occurs_at v (toLower p) 0"
    by (auto simp: hasPrefix_Literals_def hasPrefix_Eval_def HasPrefix_def op_equalFold_iff occurs_at_def
        split: if_splits)
  then show "\<exists>l \<in> set ls. literal_occurs l v" using occurs_at_literal by simp
next
  fix c v m
  assume "hasPrefix_Eval (HasPrefix p) c v = (m, True)" "length (v :: gobytes) < 2 ^ 32"
  then show "unat (Off (m_Span m)) + unat (Len (m_Span m)) \<le> length v"
    using SpanOf_inside [of 0 "length (hp_prefix (HasPrefix p))" v]
    by (auto simp: hasPrefix_Eval_def split: if_splits)
qed

text \<open>\<open>Func\<close> keeps the contract as long as the literals given with \<open>WithLiterals\<close> are what its
  predicate requires.\<close>

lemma func_contract:
  assumes "\<And>v. fn v \<Longrightarrow> ls \<noteq> [] \<Longrightarrow> \<exists>l \<in> set ls. literal_occurs l v"
  shows "operator_contract (func_Eval (WithLiterals ls (Func name fn))) (func_Literals (WithLiterals ls (Func name fn)))"
  using assms WholeValue_inside
  by unfold_locales (auto simp: func_Eval_def func_Literals_def WithLiterals_def Func_def split: if_splits)

interpretation func_plain: operator_contract "func_Eval (Func name fn)" "func_Literals (Func name fn)" for name fn
  using func_contract [of fn "[]" name] by (simp add: WithLiterals_def Func_def)

section \<open>Properties\<close>

text \<open>The search anchored on the first byte's two cases finds exactly the leftmost
  case-insensitive occurrence, and none only if there is none.\<close>

theorem indexFold_leftmost:
  "indexFold h (toLower n) =
     (if n = [] then Some 0
      else find (\<lambda>p. map fold_byte (take (length n) (drop p h)) = map fold_byte n)
        [0..<length h + 1 - length n])"
proof -
  have "occurs_at h (map fold_byte n) =
      (\<lambda>p. map fold_byte (take (length n) (drop p h)) = map fold_byte n)"
    by (simp add: fun_eq_iff occurs_at_def)
  then show ?thesis by (simp add: indexFold_find toLower_eq)
qed

text \<open>\<open>Contains\<close> and \<open>ContainsAny\<close> hit exactly the values in which some non-empty needle
  occurs up to ASCII case.\<close>

theorem ContainsAny_hits:
  "snd (op_Eval (ContainsAnyOp (ContainsAny ns)) c v) =
     list_ex (\<lambda>n. n \<noteq> [] \<and> sublist (map fold_byte n) (map fold_byte v)) ns \<and>
   snd (op_Eval (ContainsAnyOp (Contains n)) c v) = (n \<noteq> [] \<and> sublist (map fold_byte n) (map fold_byte v))"
  using contains_loop_spec [OF ContainsAny_fields(1) [of ns], of v] contains_loop_spec [of "[toLower n]" "[n]" v]
  by (auto simp: containsAny_Eval_def Contains_def literal_occurs_def list_ex_iff)

text \<open>C23. No built-in operator is narrower than the literals it declares: one that says its
  literals are required hits no value without at least one of them, so skipping it on such values
  loses nothing. \<open>Func\<close> with literals its user supplies is outside, as those are the user's claim.\<close>

theorem builtin_literals_required:
  assumes "op1 \<in> {ContainsAnyOp (Contains n), ContainsAnyOp (ContainsAny ns), EqualsOp (Equals w),
      HasPrefixOp (HasPrefix p)}"
    and "op_Literals op1 = (ls, True)"
    and "\<forall>l \<in> set ls. \<not> (l \<noteq> [] \<and> sublist (map fold_byte l) (map fold_byte v))"
  shows "\<not> snd (op_Eval op1 c v)"
proof -
  have none: "\<forall>l \<in> set (fst (op_Literals op1)). \<not> literal_occurs l v" "snd (op_Literals op1)"
    using assms(2,3) by (simp_all add: literal_occurs_def)
  from assms(1) consider "op1 = ContainsAnyOp (Contains n)" | "op1 = ContainsAnyOp (ContainsAny ns)"
    | "op1 = EqualsOp (Equals w)" | "op1 = HasPrefixOp (HasPrefix p)" by blast
  then show ?thesis
    using none contains.skippable [of n v c] contains_any.skippable [of ns v c]
      equals.skippable [of w v c] has_prefix.skippable [of p v c]
    by cases simp_all
qed

lemma builtin_literals_required_witness:
  "op_Literals (ContainsAnyOp (ContainsAny [ascii ''select'', ascii ''union''])) =
     ([ascii ''select'', ascii ''union''], True) \<and>
   \<not> snd (op_Eval (ContainsAnyOp (ContainsAny [ascii ''select'', ascii ''union''])) ctx_zero (ascii ''hello''))"
proof -
  let ?ns = "[ascii ''select'', ascii ''union'']"
  have l: "op_Literals (ContainsAnyOp (ContainsAny ?ns)) = (?ns, True)"
    by (simp add: containsAny_Literals_def ContainsAny_fields)
  have n: "\<forall>l \<in> set ?ns. \<not> (l \<noteq> [] \<and> sublist (map fold_byte l) (map fold_byte (ascii ''hello'')))"
    by (simp add: fold_byte_def sublist_Cons_right)
  from l builtin_literals_required [OF _ l n, of "[]" ?ns "[]" "[]" ctx_zero] show ?thesis by simp
qed

end
