(* ===== verification/Transforms.thy ===== *)
theory Transforms
  imports Prelude
begin

unbundle bit_operations_syntax

text \<open>
  The built-in transforms (rules/transform): \<open>Apply\<close> of each as a function from the source bytes to
  the result and whether it changed, and \<open>MaxOutputLen\<close>. The destination buffer is scratch space;
  a loop over an index is a recursion over the rest of the input.
\<close>

definition t_unhex :: "byte \<Rightarrow> byte option" where
  "t_unhex c =
     (if 48 \<le> c \<and> c \<le> 57 then Some (c - 48)
      else if 97 \<le> c \<and> c \<le> 102 then Some (c - 97 + 10)
      else if 65 \<le> c \<and> c \<le> 70 then Some (c - 65 + 10)
      else None)"

section \<open>transform.go\<close>

definition lowercase_Apply :: "gobytes \<Rightarrow> gobytes \<times> bool" where
  "lowercase_Apply src =
     (if \<not> list_ex (\<lambda>c. 65 \<le> c \<and> c \<le> 90) src then (src, False)
      else (map (\<lambda>c. if 65 \<le> c \<and> c \<le> 90 then c + (97 - 65) else c) src, True))"

definition isSpace :: "byte \<Rightarrow> bool" where
  "isSpace c \<longleftrightarrow> c \<in> set [32, 9, 10, 13, 11, 12]"

definition removeWhitespace_Apply :: "gobytes \<Rightarrow> gobytes \<times> bool" where
  "removeWhitespace_Apply src =
     (if \<not> list_ex isSpace src then (src, False) else (filter (\<lambda>c. \<not> isSpace c) src, True))"

function (sequential) url_loop :: "gobytes \<Rightarrow> gobytes" where
  "url_loop [] = []"
| "url_loop (c # rest) =
     (if c = 43 then 32 # url_loop rest
      else if c = 37 \<and> 1 < length rest then
        (case (t_unhex (rest ! 0), t_unhex (rest ! 1)) of
           (Some hi, Some lo) \<Rightarrow> (push_bit 4 hi OR lo) # url_loop (drop 2 rest)
         | _ \<Rightarrow> c # url_loop rest)
      else c # url_loop rest)"
  by pat_completeness auto
termination by (relation "measure length") auto

definition urlDecode_Apply :: "gobytes \<Rightarrow> gobytes \<times> bool" where
  "urlDecode_Apply src =
     (if \<not> list_ex (\<lambda>c. c = 37 \<or> c = 43) src then (src, False) else (url_loop src, True))"

text \<open>Whether any byte is a space to be replaced or follows another one; \<open>p\<close> is the byte before.\<close>

fun compress_needed :: "byte option \<Rightarrow> gobytes \<Rightarrow> bool" where
  "compress_needed p [] = False"
| "compress_needed p (c # cs) =
     (if isSpace c \<and> (c \<noteq> 32 \<or> (case p of None \<Rightarrow> False | Some b \<Rightarrow> isSpace b)) then True
      else compress_needed (Some c) cs)"

fun compress_loop :: "bool \<Rightarrow> gobytes \<Rightarrow> gobytes" where
  "compress_loop prevSpace [] = []"
| "compress_loop prevSpace (c # cs) =
     (if isSpace c then (if \<not> prevSpace then [32] else []) @ compress_loop True cs
      else c # compress_loop False cs)"

definition compressWhitespace_Apply :: "gobytes \<Rightarrow> gobytes \<times> bool" where
  "compressWhitespace_Apply src =
     (if \<not> compress_needed None src then (src, False) else (compress_loop False src, True))"

text \<open>NormalizePath. \<open>pop_loop\<close> is the backward scan for the separator before the last segment.\<close>

fun path_needs :: "byte option \<Rightarrow> gobytes \<Rightarrow> bool" where
  "path_needs p [] = False"
| "path_needs p (c # cs) =
     (if c = 92 \<or> c = 46 \<or> c = 47 \<and> p = Some 47 then True else path_needs (Some c) cs)"

fun pop_loop :: "gobytes \<Rightarrow> nat \<Rightarrow> nat \<Rightarrow> nat" where
  "pop_loop dst base 0 = 0"
| "pop_loop dst base (Suc d) =
     (if base < Suc d \<and> dst ! d \<noteq> 47 then pop_loop dst base d else Suc d)"

definition seg_step :: "bool \<Rightarrow> gobytes \<Rightarrow> gobytes \<times> nat \<Rightarrow> gobytes \<times> nat" where
  "seg_step absolute seg = (\<lambda>(dst, base).
     if length seg = 0 \<or> length seg = 1 \<and> seg ! 0 = 46 then (dst, base)
     else if length seg = 2 \<and> seg ! 0 = 46 \<and> seg ! 1 = 46 then
       (if base < length dst then (take (pop_loop dst base (length dst - 1)) dst, base)
        else if \<not> absolute then (dst @ [46, 46] @ [47], length (dst @ [46, 46] @ [47]))
        else (dst, base))
     else (dst @ seg @ [47], base))"

fun path_loop :: "bool \<Rightarrow> gobytes \<Rightarrow> gobytes \<Rightarrow> gobytes \<times> nat \<Rightarrow> gobytes" where
  "path_loop absolute [] seg st = fst (seg_step absolute seg st)"
| "path_loop absolute (c # cs) seg st =
     (if c \<noteq> 47 \<and> c \<noteq> 92 then path_loop absolute cs (seg @ [c]) st
      else path_loop absolute cs [] (seg_step absolute seg st))"

definition normalizePath_Apply :: "gobytes \<Rightarrow> gobytes \<times> bool" where
  "normalizePath_Apply src =
     (if \<not> path_needs None src then (src, False)
      else
        let absolute = (0 < length src \<and> (src ! 0 = 47 \<or> src ! 0 = 92));
            (dst, base) = (if absolute then ([47], 1) else ([], 0));
            dst = path_loop absolute src [] (dst, base);
            n = length dst
        in if 1 < n \<and> dst ! (n - 1) = 47 then
             (let last = src ! (length src - 1)
              in if last \<noteq> 47 \<and> last \<noteq> 92 then (take (n - 1) dst, True) else (dst, True))
           else (dst, True))"

text \<open>Escapes. \<open>hex_digits width s\<close> reads exactly \<open>width\<close> digits; \<open>hex_escape\<close> is the \<open>\x\<close> and
  \<open>\u\<close> case on the input from the backslash on, the escape's length included.\<close>

type_synonym t_rune = "32 word"

fun hex_digits :: "nat \<Rightarrow> gobytes \<Rightarrow> t_rune \<Rightarrow> t_rune option" where
  "hex_digits 0 s v = Some v"
| "hex_digits (Suc k) s v =
     (case t_unhex (hd s) of None \<Rightarrow> None | Some d \<Rightarrow> hex_digits k (tl s) (push_bit 4 v OR ucast d))"

definition hex_escape :: "gobytes \<Rightarrow> (t_rune \<times> nat) option" where
  "hex_escape s =
     (let width = (if s ! 1 = 117 then 4 else 2) in
      if length s \<le> 1 + width then None
      else map_option (\<lambda>v. (v, 2 + width)) (hex_digits width (drop 2 s) 0))"

definition encodeRune :: "t_rune \<Rightarrow> gobytes" where
  "encodeRune r =
     (if sint r < 0x800 then
        [0xC0 OR ucast (drop_bit 6 r), 0x80 OR (ucast r AND 0x3F)]
      else if sint r < 0x10000 then
        [0xE0 OR ucast (drop_bit 12 r), 0x80 OR (ucast (drop_bit 6 r) AND 0x3F),
         0x80 OR (ucast r AND 0x3F)]
      else
        [0xF0 OR ucast (drop_bit 18 r), 0x80 OR (ucast (drop_bit 12 r) AND 0x3F),
         0x80 OR (ucast (drop_bit 6 r) AND 0x3F), 0x80 OR (ucast r AND 0x3F)])"

definition appendRuneTo :: "t_rune \<Rightarrow> gobytes" where
  "appendRuneTo r = (if sint r < 0x80 then [ucast r] else encodeRune r)"

definition simpleEscape :: "byte \<Rightarrow> byte option" where
  "simpleEscape c = map_of
     [(110, 10), (114, 13), (116, 9), (118, 11), (102, 12), (98, 8), (48, 0)] c"

fun octal_digits :: "nat \<Rightarrow> gobytes \<Rightarrow> nat \<Rightarrow> nat \<Rightarrow> nat \<times> nat" where
  "octal_digits k [] v n = (v, n)"
| "octal_digits k (c # cs) v n =
     (if 0 < k \<and> 48 \<le> c \<and> c \<le> 55 then octal_digits (k - 1) cs (v * 8 + unat (c - 48)) (Suc n)
      else (v, n))"

text \<open>One escape of \<open>EscapeDecode\<close>: what it appends and how many bytes it consumes.\<close>

definition escape_at :: "gobytes \<Rightarrow> gobytes \<times> nat" where
  "escape_at s =
     (let c = s ! 1 in
      if c = 120 \<or> c = 117 then
        (case hex_escape s of None \<Rightarrow> ([s ! 0], 1) | Some (v, n) \<Rightarrow> (appendRuneTo v, n))
      else if 48 \<le> c \<and> c \<le> 55 then
        (case octal_digits 3 (drop 1 s) 0 0 of (v, n) \<Rightarrow>
           ([of_nat (if 0xFF < v then 0xFF else v)], 1 + n))
      else (case simpleEscape c of Some b \<Rightarrow> ([b], 2) | None \<Rightarrow> ([c], 2)))"

lemma escape_at_pos: "0 < snd (escape_at s)"
  by (auto simp: escape_at_def hex_escape_def Let_def split: option.splits prod.splits)

function (sequential) escape_loop :: "gobytes \<Rightarrow> gobytes" where
  "escape_loop [] = []"
| "escape_loop (c # rest) =
     (if c \<noteq> 92 \<or> rest = [] then c # escape_loop rest
      else case escape_at (c # rest) of (out, n) \<Rightarrow> out @ escape_loop (drop n (c # rest)))"
  by pat_completeness auto
termination
proof (relation "measure length", goal_cases)
  case (3 c rest out n)
  then show ?case using escape_at_pos [of "c # rest"] by (simp add: prod_eq_iff)
qed auto

definition escapeDecode_Apply :: "gobytes \<Rightarrow> gobytes \<times> bool" where
  "escapeDecode_Apply src =
     (if IndexByte src 92 = None then (src, False) else (escape_loop src, True))"

section \<open>hexescape.go\<close>

lemma hex_escape_pos: "hex_escape s = Some (v, n) \<Longrightarrow> 0 < n"
  by (auto simp: hex_escape_def Let_def split: if_splits)

text \<open>The decoded bytes and whether any escape was decoded.\<close>

function (sequential) hexescape_loop :: "gobytes \<Rightarrow> gobytes \<times> bool" where
  "hexescape_loop [] = ([], False)"
| "hexescape_loop (c # rest) =
     (case (if c = 92 \<and> rest \<noteq> [] \<and> (rest ! 0 = 120 \<or> rest ! 0 = 117)
            then hex_escape (c # rest) else None) of
        None \<Rightarrow> (case hexescape_loop rest of (out, ch) \<Rightarrow> (c # out, ch))
      | Some (v, n) \<Rightarrow>
          (case hexescape_loop (drop n (c # rest)) of (out, ch) \<Rightarrow> (appendRuneTo v @ out, True)))"
  by pat_completeness auto
termination
  by (relation "measure length") (auto split: if_splits dest: hex_escape_pos)

definition hexEscapeDecode_Apply :: "gobytes \<Rightarrow> gobytes \<times> bool" where
  "hexEscapeDecode_Apply src =
     (if IndexByte src 92 = None then (src, False)
      else case hexescape_loop src of (dst, changed) \<Rightarrow>
        if \<not> changed then (src, False) else (dst, True))"

section \<open>decode.go\<close>

text \<open>At most \<open>k\<close> hex digits, reduced to the low byte: the value and the rest.\<close>

fun css_digits :: "nat \<Rightarrow> gobytes \<Rightarrow> byte \<Rightarrow> byte \<times> gobytes" where
  "css_digits k [] v = (v, [])"
| "css_digits k (c # cs) v =
     (if k = 0 then (v, c # cs)
      else case t_unhex c of None \<Rightarrow> (v, c # cs) | Some h \<Rightarrow> css_digits (k - 1) cs (push_bit 4 v OR h))"

fun css_delim :: "gobytes \<Rightarrow> gobytes" where
  "css_delim [] = []"
| "css_delim (c # cs) =
     (if c = 32 \<or> c = 9 \<or> c = 10 \<or> c = 12 then cs
      else if c = 13 then (case cs of d # ds \<Rightarrow> if d = 10 then ds else cs | [] \<Rightarrow> [])
      else c # cs)"

lemma css_digits_le: "length (snd (css_digits k s v)) \<le> length s"
  by (induction k s v rule: css_digits.induct) (auto split: option.splits)

lemma css_delim_le: "length (css_delim s) \<le> length s"
  by (cases s) (auto split: list.splits)

function (sequential) css_loop :: "gobytes \<Rightarrow> gobytes" where
  "css_loop [] = []"
| "css_loop [c] = [c]"
| "css_loop (c # d # rest) =
     (if c \<noteq> 92 then c # css_loop (d # rest)
      else if d = 10 then css_loop rest
      else if d = 13 then css_loop (case rest of e # es \<Rightarrow> if e = 10 then es else rest | [] \<Rightarrow> [])
      else case t_unhex d of
        None \<Rightarrow> d # css_loop rest
      | Some _ \<Rightarrow>
          (case css_digits 6 (d # rest) 0 of (v, more') \<Rightarrow> v # css_loop (css_delim more')))"
  by pat_completeness auto
termination
proof (relation "measure length", goal_cases)
  case (6 c d rest a v more')
  then have "length more' \<le> length (d # rest)"
    using css_digits_le [of 6 "d # rest" 0] by (metis snd_conv)
  with css_delim_le [of more'] show ?case by simp
qed (auto split: list.splits)

definition cssDecode_Apply :: "gobytes \<Rightarrow> gobytes \<times> bool" where
  "cssDecode_Apply src = (if IndexByte src 92 = None then (src, False) else (css_loop src, True))"

text \<open>CmdLine: one byte, folded and appended to what was written so far.\<close>

definition cmd_append :: "byte \<Rightarrow> gobytes \<Rightarrow> gobytes" where
  "cmd_append c dst =
     (if c = 32 \<and> (length dst = 0 \<or> dst ! (length dst - 1) = 32) then dst
      else
        let dst = (if (c = 47 \<or> c = 40) \<and> 0 < length dst \<and> dst ! (length dst - 1) = 32
                   then take (length dst - 1) dst else dst)
        in dst @ [c])"

definition cmd_step :: "byte \<Rightarrow> gobytes \<Rightarrow> gobytes" where
  "cmd_step c dst =
     (if c = 92 \<or> c = 34 \<or> c = 39 \<or> c = 94 then dst
      else cmd_append
        (if c = 44 \<or> c = 59 then 32
         else if c = 9 \<or> c = 13 \<or> c = 10 \<or> c = 11 \<or> c = 12 then 32
         else if 65 \<le> c \<and> c \<le> 90 then c + (97 - 65) else c) dst)"

definition cmdLine_Apply :: "gobytes \<Rightarrow> gobytes \<times> bool" where
  "cmdLine_Apply src =
     (let dst = fold cmd_step src [];
          dst = (if 0 < length dst \<and> dst ! (length dst - 1) = 32 then take (length dst - 1) dst else dst)
      in if length dst = length src \<and> dst = src then (src, False) else (dst, True))"

fun containsPair :: "gobytes \<Rightarrow> byte \<Rightarrow> byte \<Rightarrow> bool" where
  "containsPair (c # d # rest) a b = (if c = a \<and> d = b then True else containsPair (d # rest) a b)"
| "containsPair s a b = False"

fun skip_comment :: "gobytes \<Rightarrow> gobytes" where
  "skip_comment [] = []"
| "skip_comment [c] = []"
| "skip_comment (c # d # rest) = (if c = 42 \<and> d = 47 then rest else skip_comment (d # rest))"

lemma skip_comment_le: "length (skip_comment s) \<le> length s"
  by (induction s rule: skip_comment.induct) auto

function (sequential) comments_loop :: "gobytes \<Rightarrow> gobytes" where
  "comments_loop [] = []"
| "comments_loop [c] = [c]"
| "comments_loop (c # d # rest) =
     (if c = 47 \<and> d = 42 then 32 # comments_loop (skip_comment rest) else c # comments_loop (d # rest))"
  by pat_completeness auto
termination
  by (relation "measure length") (use skip_comment_le in \<open>auto simp: le_imp_less_Suc le_SucI\<close>)

definition replaceComments_Apply :: "gobytes \<Rightarrow> gobytes \<times> bool" where
  "replaceComments_Apply src =
     (if \<not> containsPair src 47 42 then (src, False) else (comments_loop src, True))"

definition comment_pair :: "byte \<Rightarrow> byte \<Rightarrow> bool" where
  "comment_pair a b \<longleftrightarrow> a = 45 \<and> b = 45 \<or> a = 47 \<and> b = 42 \<or> a = 42 \<and> b = 47"

fun has_comment_char :: "gobytes \<Rightarrow> bool" where
  "has_comment_char [] = False"
| "has_comment_char [c] = (c = 35)"
| "has_comment_char (c # d # rest) = (if c = 35 \<or> comment_pair c d then True else has_comment_char (d # rest))"

fun comment_chars_loop :: "gobytes \<Rightarrow> gobytes" where
  "comment_chars_loop [] = []"
| "comment_chars_loop [c] = (if c = 35 then [] else [c])"
| "comment_chars_loop (c # d # rest) =
     (if c = 35 then comment_chars_loop (d # rest)
      else if comment_pair c d then comment_chars_loop rest
      else c # comment_chars_loop (d # rest))"

definition removeCommentsChar_Apply :: "gobytes \<Rightarrow> gobytes \<times> bool" where
  "removeCommentsChar_Apply src =
     (if \<not> has_comment_char src then (src, False) else (comment_chars_loop src, True))"

definition unbase64 :: "byte \<Rightarrow> byte option" where
  "unbase64 c =
     (if 65 \<le> c \<and> c \<le> 90 then Some (c - 65)
      else if 97 \<le> c \<and> c \<le> 122 then Some (c - 97 + 26)
      else if 48 \<le> c \<and> c \<le> 57 then Some (c - 48 + 52)
      else if c = 43 then Some 62
      else if c = 47 then Some 63
      else None)"

text \<open>The decoded bytes, and \<open>quad[:n]\<close> at the end.\<close>

fun base64_loop :: "gobytes \<Rightarrow> byte list \<Rightarrow> gobytes \<Rightarrow> gobytes \<times> byte list" where
  "base64_loop [] quad dst = (dst, quad)"
| "base64_loop (c # cs) quad dst =
     (case unbase64 c of
        None \<Rightarrow> base64_loop cs quad dst
      | Some v \<Rightarrow>
          let quad = quad @ [v] in
          if length quad = 4 then
            base64_loop cs [] (dst @
              [push_bit 2 (quad ! 0) OR drop_bit 4 (quad ! 1),
               push_bit 4 (quad ! 1) OR drop_bit 2 (quad ! 2),
               push_bit 6 (quad ! 2) OR quad ! 3])
          else base64_loop cs quad dst)"

definition base64Decode_Apply :: "gobytes \<Rightarrow> gobytes \<times> bool" where
  "base64Decode_Apply src =
     (case base64_loop src [] [] of (dst, quad) \<Rightarrow>
        let dst =
          (if length quad = 2 then dst @ [push_bit 2 (quad ! 0) OR drop_bit 4 (quad ! 1)]
           else if length quad = 3 then
             dst @ [push_bit 2 (quad ! 0) OR drop_bit 4 (quad ! 1),
                    push_bit 4 (quad ! 1) OR drop_bit 2 (quad ! 2)]
           else dst)
        in if length dst = length src \<and> dst = src then (src, False) else (dst, True))"

end
