(* ===== verification/PathCorrect.thy ===== *)
theory PathCorrect
  imports Transforms
begin

text \<open>
  NormalizePath against the path algorithm it avoids allocating for: the segments of the path,
  resolved on a stack, with leading \<open>..\<close> of a relative path kept. The output buffer of the code is
  the rendering of that stack, and \<open>base\<close> the length of the part no \<open>..\<close> can pop.
\<close>

section \<open>The reference algorithm\<close>

definition is_sep :: "byte \<Rightarrow> bool" where
  "is_sep c \<longleftrightarrow> c = 47 \<or> c = 92"

text \<open>The segments between the separators; there is one more than there are separators.\<close>

fun segments :: "gobytes \<Rightarrow> gobytes \<Rightarrow> gobytes list" where
  "segments seg [] = [seg]"
| "segments seg (c # cs) = (if is_sep c then seg # segments [] cs else segments (seg @ [c]) cs)"

text \<open>The number of unresolved leading \<open>..\<close> and the stack of segments.\<close>

definition resolve :: "bool \<Rightarrow> gobytes \<Rightarrow> nat \<times> gobytes list \<Rightarrow> nat \<times> gobytes list" where
  "resolve absolute seg = (\<lambda>(ups, stack).
     if seg = [] \<or> seg = [46] then (ups, stack)
     else if seg = [46, 46] then
       (if stack \<noteq> [] then (ups, butlast stack) else if absolute then (ups, stack) else (Suc ups, stack))
     else (ups, stack @ [seg]))"

definition render :: "gobytes list \<Rightarrow> gobytes" where
  "render segs = concat (map (\<lambda>seg. seg @ [47]) segs)"

definition path_prefix :: "bool \<Rightarrow> nat \<Rightarrow> gobytes" where
  "path_prefix absolute ups = (if absolute then [47] else render (replicate ups [46, 46]))"

definition normal_path :: "gobytes \<Rightarrow> gobytes" where
  "normal_path src =
     (let absolute = (src \<noteq> [] \<and> is_sep (hd src));
          (ups, stack) = fold (resolve absolute) (segments [] src) (0, []);
          out = path_prefix absolute ups @ render stack
      in if 1 < length out \<and> \<not> is_sep (last src) then butlast out else out)"

section \<open>The buffer renders the stack\<close>

lemma render_snoc [simp]: "render (ss @ [s]) = render ss @ s @ [47]"
  by (simp add: render_def)

lemma render_Nil [simp]: "render [] = []"
  by (simp add: render_def)

text \<open>The backward scan stops just behind the separator that ends the segment before.\<close>

lemma pop_loop_segment:
  assumes "47 \<notin> set seg" "base \<le> length pre" "base = length pre \<or> pre \<noteq> [] \<and> last pre = 47"
  shows "pop_loop (pre @ seg @ more) base (length (pre @ seg)) = length pre"
  using assms(1)
proof (induction seg arbitrary: more rule: rev_induct)
  case Nil
  show ?case
  proof (cases "base = length pre")
    case True
    then show ?thesis by (cases "length pre") simp_all
  next
    case False
    then obtain d where d: "length pre = Suc d" using assms(2,3) by (cases "length pre") auto
    then have "pre ! d = 47" using assms(3) False by (auto simp: last_conv_nth)
    with d show ?thesis by (simp add: nth_append)
  qed
next
  case (snoc c seg)
  have "pop_loop (pre @ seg @ c # more) base (length (pre @ seg)) = length pre"
    using snoc(1) [of "c # more"] snoc(2) by simp
  moreover have "base < Suc (length (pre @ seg))" using assms(2) by simp
  moreover have "(pre @ seg @ c # more) ! (length (pre @ seg)) \<noteq> 47" using snoc(2) by (simp add: nth_append)
  ultimately show ?case by simp
qed

definition renders :: "bool \<Rightarrow> nat \<times> gobytes list \<Rightarrow> gobytes \<times> nat \<Rightarrow> bool" where
  "renders absolute = (\<lambda>(ups, stack) (dst, base).
     dst = path_prefix absolute ups @ render stack \<and> base = length (path_prefix absolute ups) \<and>
     (\<forall>seg \<in> set stack. 47 \<notin> set seg) \<and> (absolute \<longrightarrow> ups = 0))"

lemma path_prefix_last: "path_prefix a ups = [] \<or> last (path_prefix a ups) = 47"
  by (cases ups rule: nat.exhaust)
    (simp_all add: path_prefix_def replicate_append_same [symmetric] render_def)

lemma render_last: "stack \<noteq> [] \<Longrightarrow> last (render stack) = 47"
  by (cases stack rule: rev_cases) simp_all

lemma seg_step_renders:
  assumes R: "renders a us st" and seg: "47 \<notin> set seg"
  shows "renders a (resolve a seg us) (seg_step a seg st)"
proof -
  obtain ups stack dst base where us: "us = (ups, stack)" and st: "st = (dst, base)" by force
  let ?p = "path_prefix a ups"
  have D: "dst = ?p @ render stack" "base = length ?p" "\<forall>seg \<in> set stack. 47 \<notin> set seg" "a \<longrightarrow> ups = 0"
    using R by (auto simp: renders_def us st)
  have dot: "length seg = 1 \<and> seg ! 0 = 46 \<longleftrightarrow> seg = [46]"
    by (cases seg) auto
  have dots: "length seg = 2 \<and> seg ! 0 = 46 \<and> seg ! 1 = 46 \<longleftrightarrow> seg = [46, 46]"
    by (cases seg; cases "tl seg") auto
  consider "seg = [] \<or> seg = [46]" | (pop) "seg = [46, 46]" "stack \<noteq> []" | (up) "seg = [46, 46]" "stack = []"
    | (push) "seg \<noteq> []" "seg \<noteq> [46]" "seg \<noteq> [46, 46]" by blast
  then show ?thesis
  proof cases
    case 1
    with R show ?thesis by (auto simp: us st seg_step_def resolve_def)
  next
    case pop
    obtain ss s where s: "stack = ss @ [s]" using pop(2) by (cases stack rule: rev_cases) auto
    have "base = length (?p @ render ss) \<or> ?p @ render ss \<noteq> [] \<and> last (?p @ render ss) = 47"
      using D(2) path_prefix_last [of a ups] render_last [of ss] by (cases "ss = []") (auto simp: last_append)
    then have "pop_loop ((?p @ render ss) @ s @ [47]) base (length ((?p @ render ss) @ s)) = length (?p @ render ss)"
      using D(2,3) s by (intro pop_loop_segment) auto
    then have "seg_step a seg st = (?p @ render ss, base)"
      using pop D by (simp add: seg_step_def st s)
    with D pop s show ?thesis by (simp add: renders_def resolve_def us)
  next
    case up
    then have "seg_step a seg st = (if a then (dst, base) else (dst @ [46, 46, 47], length dst + 3))"
      using D by (simp add: seg_step_def st)
    moreover have "path_prefix False (Suc ups) = path_prefix False ups @ [46, 46, 47]"
      by (simp add: path_prefix_def replicate_append_same [symmetric])
    ultimately show ?thesis using D up by (auto simp: renders_def resolve_def us)
  next
    case push
    then have "seg_step a seg st = (dst @ seg @ [47], base)"
      unfolding seg_step_def st prod.case using dot dots by (simp only: length_0_conv if_False simp_thms)
    with D push seg show ?thesis by (simp add: renders_def resolve_def us)
  qed
qed

lemma path_loop_renders:
  assumes "renders a us st" "47 \<notin> set seg"
  shows "\<exists>base. renders a (fold (resolve a) (segments seg s) us) (path_loop a s seg st, base)"
  using assms
proof (induction a s seg st arbitrary: us rule: path_loop.induct)
  case (1 a seg st)
  then show ?case using seg_step_renders [of a us st seg] by (metis fold_simps path_loop.simps(1) prod.collapse segments.simps(1))
next
  case (2 a c cs seg st)
  show ?case
  proof (cases "is_sep c")
    case False
    with 2(1) [of us] 2(3,4) show ?thesis by (simp add: is_sep_def)
  next
    case True
    then have "\<not> (c \<noteq> 47 \<and> c \<noteq> 92)" by (auto simp: is_sep_def)
    moreover from this have "path_loop a (c # cs) seg st = path_loop a cs [] (seg_step a seg st)" by (simp only: path_loop.simps if_False)
    ultimately show ?thesis using 2(2) [OF _ seg_step_renders [OF 2(3,4)]] True by simp
  qed
qed

lemma renders_ends:
  "renders a us (dst, base) \<Longrightarrow> dst = [] \<or> last dst = 47"
  using path_prefix_last [of a "fst us"] render_last [of "snd us"]
  by (cases "snd us = []") (auto simp: renders_def case_prod_beta last_append)

text \<open>The whole transform; \<open>path_needs\<close> is the pre-check.\<close>

lemma path_loop_normal:
  assumes "src \<noteq> []"
  defines "absolute \<equiv> is_sep (hd src)"
  shows "\<exists>us base. fold (resolve absolute) (segments [] src) (0, []) = us \<and>
    renders absolute us (path_loop absolute src [] (if absolute then ([47], 1) else ([], 0)), base)"
proof -
  have "renders absolute (0, []) (if absolute then ([47], 1) else ([], 0))"
    by (simp add: renders_def path_prefix_def)
  from path_loop_renders [OF this, of "[]" src] show ?thesis by simp
qed

lemma normal_path_loop:
  assumes "src \<noteq> []"
  defines "dst \<equiv> path_loop (is_sep (hd src)) src [] (if is_sep (hd src) then ([47], 1) else ([], 0))"
  shows "normal_path src = (if 1 < length dst \<and> \<not> is_sep (last src) then butlast dst else dst)"
    and "dst = [] \<or> last dst = 47"
proof -
  obtain us base where R: "fold (resolve (is_sep (hd src))) (segments [] src) (0, []) = us"
    "renders (is_sep (hd src)) us (dst, base)"
    using path_loop_normal [OF assms(1)] unfolding dst_def by blast
  obtain ups stack where us: "us = (ups, stack)" by force
  have out: "path_prefix (is_sep (hd src)) ups @ render stack = dst" using R(2) by (simp add: renders_def us)
  have "(src \<noteq> [] \<and> is_sep (hd src)) = is_sep (hd src)" using assms(1) by simp
  then show "normal_path src = (if 1 < length dst \<and> \<not> is_sep (last src) then butlast dst else dst)"
    unfolding normal_path_def Let_def by (simp only: R(1) us prod.case out)
  show "dst = [] \<or> last dst = 47" by (rule renders_ends [OF R(2)])
qed

lemma normalizePath_Apply_normal:
  "normalizePath_Apply src = (if path_needs None src then (normal_path src, True) else (src, False))"
proof (cases "path_needs None src")
  case True
  then have ne: "src \<noteq> []" by auto
  let ?a = "is_sep (hd src)"
  let ?dst = "path_loop ?a src [] (if ?a then ([47], 1) else ([], 0))"
  have a: "(0 < length src \<and> (src ! 0 = 47 \<or> src ! 0 = 92)) = ?a"
    using ne by (simp add: is_sep_def hd_conv_nth)
  have code: "normalizePath_Apply src =
      (if 1 < length ?dst \<and> ?dst ! (length ?dst - 1) = 47 \<and> \<not> is_sep (last src)
       then (take (length ?dst - 1) ?dst, True) else (?dst, True))"
    using True ne unfolding normalizePath_Apply_def Let_def a
    by (auto simp: is_sep_def last_conv_nth split: prod.splits)
  have "?dst \<noteq> [] \<Longrightarrow> ?dst ! (length ?dst - 1) = 47"
    using normal_path_loop(2) [OF ne] last_conv_nth [of ?dst] by metis
  then have "1 < length ?dst \<and> ?dst ! (length ?dst - 1) = 47 \<and> \<not> is_sep (last src) \<longleftrightarrow>
      1 < length ?dst \<and> \<not> is_sep (last src)" by (metis list.size(3) not_one_less_zero)
  then have "normalizePath_Apply src =
      (if 1 < length ?dst \<and> \<not> is_sep (last src) then (butlast ?dst, True) else (?dst, True))"
    unfolding code butlast_conv_take by simp
  then show ?thesis using True normal_path_loop(1) [OF ne] by (simp only: if_True) simp
qed (simp add: normalizePath_Apply_def)

text \<open>The path under construction never exceeds what was read, one separator per segment included.\<close>

lemma pop_loop_le: "pop_loop dst base d \<le> d"
  by (induction d) auto

lemma seg_step_le: "length (fst (seg_step a seg st)) \<le> length (fst st) + length seg + 1"
  using pop_loop_le [of "fst st" "snd st" "length (fst st) - 1"]
  by (auto simp: seg_step_def case_prod_beta Let_def)

lemma path_loop_le:
  "length (path_loop a s seg st) \<le> length (fst st) + length seg + length s +
     (if s \<noteq> [] \<and> is_sep (last s) then 0 else 1)"
proof (induction a s seg st rule: path_loop.induct)
  case (1 a seg st)
  show ?case using seg_step_le [of a seg st] by simp
next
  case (2 a c cs seg st)
  show ?case
  proof (cases "c \<noteq> 47 \<and> c \<noteq> 92")
    case True
    then have nosep: "\<not> is_sep c" by (simp add: is_sep_def)
    have "path_loop a (c # cs) seg st = path_loop a cs (seg @ [c]) st"
      using True by (simp only: path_loop.simps simp_thms if_True)
    with 2(1) [OF True] nosep show ?thesis by (cases "cs = []") (simp_all del: path_loop.simps split: if_splits)
  next
    case False
    then have sep: "is_sep c" by (auto simp: is_sep_def)
    have p: "path_loop a (c # cs) seg st = path_loop a cs [] (seg_step a seg st)"
      using False by (simp only: path_loop.simps if_False)
    show ?thesis
    proof (cases "cs = []")
      case True
      have "path_loop a (c # cs) seg st = fst (seg_step a seg st)"
        using p unfolding True by (simp del: path_loop.simps(2) add: seg_step_def [of _ "[]"] case_prod_beta)
      with seg_step_le [of a seg st] sep True show ?thesis by (simp del: path_loop.simps)
    next
      case ne: False
      with 2(2) [OF False] seg_step_le [of a seg st] p show ?thesis by (simp del: path_loop.simps split: if_splits)
    qed
  qed
qed

lemma normal_path_le: "src \<noteq> [] \<Longrightarrow> length (normal_path src) \<le> length src"
proof -
  assume ne: "src \<noteq> []"
  let ?a = "is_sep (hd src)"
  let ?dst = "path_loop ?a src [] (if ?a then ([47], 1) else ([], 0))"
  obtain c cs where src: "src = c # cs" using ne by (cases src) auto
  let ?t = "if is_sep (last src) then 0 else 1"
  have "length ?dst \<le> length src + ?t"
  proof (cases ?a)
    case True
    then have "\<not> (c \<noteq> 47 \<and> c \<noteq> 92)" by (auto simp: is_sep_def src)
    then have "?dst = path_loop ?a cs [] ([47], 1)"
      unfolding src using True src by (simp only: path_loop.simps if_False list.sel if_True) (simp add: seg_step_def)
    moreover have "length (path_loop ?a cs [] ([47], 1)) \<le> length src + ?t"
    proof (cases "cs = []")
      case False
      with path_loop_le [of ?a cs "[]" "([47], 1)"] src show ?thesis by (simp split: if_splits)
    qed (simp add: src seg_step_def)
    ultimately show ?thesis by simp
  next
    case False
    with path_loop_le [of ?a src "[]" "([], 0)"] ne show ?thesis by (simp split: if_splits)
  qed
  with normal_path_loop(1) [OF ne] show ?thesis using src by (simp only: length_butlast split: if_splits) auto
qed

text \<open>A path the pre-check lets through is already normal.\<close>

lemma seg_step_plain:
  assumes "46 \<notin> set seg"
  shows "seg_step a seg st = (if seg = [] then st else (fst st @ seg @ [47], snd st))"
proof (cases "seg = []")
  case False
  then have "seg ! 0 \<in> set seg" by simp
  then have "seg ! 0 \<noteq> 46" using assms by metis
  with False show ?thesis by (simp add: seg_step_def case_prod_beta)
qed (simp add: seg_step_def case_prod_beta)

lemma path_loop_clean:
  assumes "\<not> path_needs p s" "46 \<notin> set seg" "seg = [] \<longrightarrow> p = Some 47 \<or> s = [] \<or> hd s \<noteq> 47"
  shows "path_loop a s seg st = fst st @ seg @ s @ (if seg @ s = [] \<or> is_sep (last (seg @ s)) \<and> s \<noteq> [] then [] else [47])"
  using assms
proof (induction s arbitrary: seg st p)
  case Nil
  with seg_step_plain [OF Nil(2)] show ?case by simp
next
  case (Cons c cs)
  then have c: "c \<noteq> 92" "c \<noteq> 46" "\<not> path_needs (Some c) cs" by (auto split: if_splits)
  show ?case
  proof (cases "c = 47")
    case False
    with c Cons.IH [of "Some c" "seg @ [c]" st] Cons.prems(2)
    show ?thesis by (cases "cs = []") (auto simp: is_sep_def)
  next
    case True
    then have ne: "seg \<noteq> []" using Cons.prems(1,3) by (auto split: if_splits)
    have "seg_step a seg st = (fst st @ seg @ [47], snd st)"
      using ne by (simp add: seg_step_plain [OF Cons.prems(2)])
    with True c Cons.IH [of "Some c" "[]" "seg_step a seg st"]
    show ?thesis by (cases "cs = []") (auto simp: is_sep_def)
  qed
qed

lemma normal_path_clean:
  assumes "\<not> path_needs None src"
  shows "normal_path src = src"
proof (cases src)
  case Nil
  then show ?thesis by (simp add: normal_path_def resolve_def path_prefix_def)
next
  case (Cons c cs)
  with assms have c: "c \<noteq> 92" "c \<noteq> 46" "\<not> path_needs (Some c) cs" by (auto split: if_splits)
  let ?a = "is_sep (hd src)"
  let ?dst = "path_loop ?a src [] (if ?a then ([47], 1) else ([], 0))"
  have "?dst = src @ (if is_sep (last src) then [] else [47])"
  proof (cases "c = 47")
    case False
    then have "\<not> ?a" using c Cons by (simp add: is_sep_def)
    with path_loop_clean [OF assms, of "[]" ?a "([], 0)"] Cons False show ?thesis by (simp del: path_loop.simps)
  next
    case True
    then have "?dst = path_loop True cs [] ([47], 1)" using Cons by (simp add: is_sep_def seg_step_def)
    with path_loop_clean [OF c(3), of "[]" True "([47], 1)"] True Cons
    show ?thesis by (cases "cs = []") (simp_all del: path_loop.simps add: is_sep_def)
  qed
  with normal_path_loop(1) [of src] Cons show ?thesis by (auto simp: is_sep_def)
qed

section \<open>Properties\<close>

text \<open>C25. The normalised path is the one the segment-stack algorithm gives: empty and \<open>.\<close> segments
  dropped, each \<open>..\<close> popping the segment before it, an absolute path never leaving its root, the
  leading \<open>..\<close> of a relative path kept, and a trailing separator kept exactly if the input has
  one; the transform reports no change only for paths that are already normal.\<close>

theorem NormalizePath_resolves:
  "fst (normalizePath_Apply src) = normal_path src \<and>
   (snd (normalizePath_Apply src) \<or> normal_path src = src)"
  by (simp add: normalizePath_Apply_normal normal_path_clean)

end
