(* ===== verification/NumericHost.thy ===== *)
theory NumericHost
  imports Prelude
begin

unbundle bit_operations_syntax

text \<open>
  The transform that rewrites every inet_aton spelling of an IPv4 address into its dotted quad
  (rules/transform/numerichost.go), and the contract between its printer and its parser: an address
  survives printing and parsing, so the canonical form of a canonical form is itself. The array of
  four parts is a list of at most four; an address is a 32-bit word and a part a 64-bit word.
\<close>

section \<open>Parts\<close>

definition unhexDigit :: "byte \<Rightarrow> int" where
  "unhexDigit c =
     (if 48 \<le> c \<and> c \<le> 57 then uint (c - 48)
      else if 97 \<le> c \<and> c \<le> 102 then uint (c - 97) + 10
      else if 65 \<le> c \<and> c \<le> 70 then uint (c - 65) + 10
      else - 1)"

text \<open>The digits of a part: the value and the index behind them; \<open>None\<close> beyond 32 bits.\<close>

fun part_digits :: "u64 \<Rightarrow> gobytes \<Rightarrow> u64 \<Rightarrow> nat \<Rightarrow> (u64 \<times> nat) option" where
  "part_digits base [] val i = Some (val, i)"
| "part_digits base (c # cs) val i =
     (let d = unhexDigit c in
      if d < 0 \<or> base \<le> of_int d then Some (val, i)
      else
        let val = val * base + of_int d
        in if 0xffffffff < val then None else part_digits base cs val (i + 1))"

definition parseHostPart :: "gobytes \<Rightarrow> (u64 \<times> nat \<times> bool) option" where
  "parseHostPart s =
     (if length s = 0 \<or> s ! 0 < 48 \<or> 57 < s ! 0 then None
      else if s ! 0 = 48 \<and> 1 < length s \<and> (s ! 1 = 120 \<or> s ! 1 = 88) \<and>
              (length s < 3 \<or> unhexDigit (s ! 2) < 0) then None
      else if s ! 0 = 48 \<and> \<not> (1 < length s \<and> (s ! 1 = 120 \<or> s ! 1 = 88)) \<and>
              (length s = 1 \<or> s ! 1 = 46) then Some (0, 1, False)
      else
        let (base, start, hex) =
          (if s ! 0 = 48 then
             (if 1 < length s \<and> (s ! 1 = 120 \<or> s ! 1 = 88) then (16, 2, True) else (8, 1, False))
           else (10, 0, False))
        in case part_digits base (drop start s) 0 start of
             None \<Rightarrow> None
           | Some (val, i) \<Rightarrow> if i = start then None else Some (val, i, hex))"

section \<open>Addresses\<close>

definition maxHostToken :: nat where "maxHostToken = 24"

text \<open>The loop over the parts; the state is \<open>parts[:n]\<close>, \<open>sawDot\<close> and \<open>sawHex\<close>.\<close>

function (sequential) host_parts ::
  "gobytes \<Rightarrow> u64 list \<Rightarrow> bool \<Rightarrow> bool \<Rightarrow> (u64 list \<times> bool \<times> bool) option"
where
  "host_parts [] parts sawDot sawHex = Some (parts, sawDot, sawHex)"
| "host_parts (c # cs) parts sawDot sawHex =
     (if length parts = 4 then None
      else case parseHostPart (c # cs) of
        None \<Rightarrow> None
      | Some (v, w, hex) \<Rightarrow>
          (case drop w (c # cs) of
             [] \<Rightarrow> Some (parts @ [v], sawDot, sawHex \<or> hex)
           | d # ds \<Rightarrow>
               if d \<noteq> 46 then None else host_parts ds (parts @ [v]) True (sawHex \<or> hex)))"
  by pat_completeness auto
termination
proof (relation "measure (\<lambda>(s, p, d, h). length s)", goal_cases)
  case (2 c cs parts sawDot sawHex p v wh w hex d ds)
  then have "drop w (c # cs) = d # ds" by simp
  then have "length (d # ds) \<le> length (c # cs)" by (metis diff_le_self length_drop)
  then show ?case by simp
qed auto

definition parseNumericHost :: "gobytes \<Rightarrow> bool \<Rightarrow> u32 option" where
  "parseNumericHost tok whole =
     (if length tok = 0 \<or> maxHostToken < length tok then None
      else if tok ! (length tok - 1) = 46 then None
      else case host_parts tok [] False False of
        None \<Rightarrow> None
      | Some (parts, sawDot, sawHex) \<Rightarrow>
          let n = length parts in
          if n = 0 \<or> \<not> sawDot \<and> \<not> sawHex then None
          else if list_ex (\<lambda>i. 0xff < parts ! i) [0..<n - 1] then None
          else
            let last = parts ! (n - 1); span = 8 * (5 - n)
            in if span < 32 \<and> push_bit span 1 \<le> last then None
               else if span = 32 \<and> 0xffffffff < last then None
               else if n < 4 \<and> \<not> sawHex \<and> last \<le> 0xff \<and> \<not> whole then None
               else
                 let addr = fold (\<lambda>i addr. addr OR push_bit (8 * (3 - i)) (ucast (parts ! i))) [0..<n - 1] 0
                 in Some (addr OR ucast last))"

section \<open>The canonical spelling\<close>

text \<open>The decimal digits, written from the last into the array; \<open>buf\<close> is \<open>buf[i:]\<close>.\<close>

function uint_digits :: "u64 \<Rightarrow> gobytes \<Rightarrow> gobytes" where
  "uint_digits v buf =
     (if 0 < v then uint_digits (v div 10) (of_nat (48 + unat (v mod 10)) # buf) else buf)"
  by pat_completeness auto
termination
  by (relation "measure (\<lambda>(v, buf). unat v)") (auto simp: unat_div word_gt_0 unat_gt_0)

declare uint_digits.simps [simp del]

definition appendUint :: "gobytes \<Rightarrow> u64 \<Rightarrow> gobytes" where
  "appendUint dst v = (if v = 0 then dst @ [48] else dst @ uint_digits v [])"

definition appendDottedQuad :: "gobytes \<Rightarrow> u32 \<Rightarrow> gobytes" where
  "appendDottedQuad dst addr =
     fold (\<lambda>i dst.
       let dst = appendUint dst (ucast (drop_bit (8 * i) addr) AND 0xff)
       in if 0 < i then dst @ [46] else dst) [3, 2, 1, 0] dst"

section \<open>Tokens\<close>

fun candidate_scan :: "bool \<Rightarrow> bool \<Rightarrow> gobytes \<Rightarrow> bool" where
  "candidate_scan digit mark [] = False"
| "candidate_scan digit mark (c # cs) =
     (let is_digit = (48 \<le> c \<and> c \<le> 57);
          digit' = (digit \<or> is_digit);
          mark' = (mark \<or> \<not> is_digit \<and> (c = 46 \<or> c = 120 \<or> c = 88))
      in if digit' \<and> mark' then True else candidate_scan digit' mark' cs)"

definition hasNumericHostCandidate :: "gobytes \<Rightarrow> bool" where
  "hasNumericHostCandidate src = candidate_scan False False src"

definition hostTokenStart :: "gobytes \<Rightarrow> nat \<Rightarrow> bool" where
  "hostTokenStart src i =
     (if src ! i < 48 \<or> 57 < src ! i then False
      else if i = 0 then True
      else src ! (i - 1) \<in> set [47, 64, 58, 61, 44, 91, 40, 34, 39, 32, 9])"

definition inHostPosition :: "gobytes \<Rightarrow> nat \<Rightarrow> nat \<Rightarrow> bool" where
  "inHostPosition src i fin =
     (if i = 0 then fin = length src \<or> src ! fin = 47 \<or> src ! fin = 58
      else src ! (i - 1) \<in> set [47, 64, 58, 91])"

definition host_char :: "byte \<Rightarrow> bool" where
  "host_char c \<longleftrightarrow> 48 \<le> c \<and> c \<le> 57 \<or> 97 \<le> c \<and> c \<le> 102 \<or> 65 \<le> c \<and> c \<le> 70 \<or>
     c = 46 \<or> c = 120 \<or> c = 88"

fun token_end :: "gobytes \<Rightarrow> nat \<Rightarrow> nat" where
  "token_end [] j = j"
| "token_end (c # cs) j = (if host_char c then token_end cs (j + 1) else j)"

definition hostTokenEnd :: "gobytes \<Rightarrow> nat \<Rightarrow> nat" where
  "hostTokenEnd src i = token_end (drop i src) i"

fun equal_loop :: "gobytes \<Rightarrow> gobytes \<Rightarrow> bool" where
  "equal_loop (a # as) (b # bs) = (if a \<noteq> b then False else equal_loop as bs)"
| "equal_loop as bs = True"

definition equalBytes :: "gobytes \<Rightarrow> gobytes \<Rightarrow> bool" where
  "equalBytes a b = (if length a \<noteq> length b then False else equal_loop a b)"

lemma token_end_eq: "token_end s j = j + length (takeWhile host_char s)"
  by (induction s arbitrary: j) auto

lemma hostTokenEnd_progress:
  assumes "i < length src" "hostTokenStart src i"
  shows "i < hostTokenEnd src i"
proof -
  have "host_char (src ! i)" using assms(2) by (auto simp: hostTokenStart_def host_char_def split: if_splits)
  then have "0 < length (takeWhile host_char (drop i src))"
    using assms(1) by (simp add: Cons_nth_drop_Suc [symmetric])
  then show ?thesis by (simp only: hostTokenEnd_def token_end_eq)
qed

lemma hostTokenEnd_le: "i \<le> length src \<Longrightarrow> hostTokenEnd src i \<le> length src"
  using length_takeWhile_le [of host_char "drop i src"] by (simp add: hostTokenEnd_def token_end_eq)

text \<open>The loop of \<open>Apply\<close> from index \<open>i\<close> on, with what was written and whether anything changed.\<close>

function host_loop :: "gobytes \<Rightarrow> nat \<Rightarrow> gobytes \<Rightarrow> bool \<Rightarrow> gobytes \<times> bool" where
  "host_loop src i dst changed =
     (if i < length src then
        (if \<not> hostTokenStart src i then host_loop src (i + 1) (dst @ [src ! i]) changed
         else
           let fin = hostTokenEnd src i; tok = take (fin - i) (drop i src)
           in case parseNumericHost tok (inHostPosition src i fin) of
                Some addr \<Rightarrow>
                  (let before = length dst; dst = appendDottedQuad dst addr
                   in host_loop src fin dst (if \<not> equalBytes (drop before dst) tok then True else changed))
              | None \<Rightarrow> host_loop src fin (dst @ tok) changed)
      else (dst, changed))"
  by pat_completeness auto
termination
  by (relation "measure (\<lambda>(src, i, dst, c). length src - i)")
    (use hostTokenEnd_progress diff_less_mono2 in \<open>auto simp: less_diff_conv\<close>)

declare host_loop.simps [simp del]

definition numericHost_Apply :: "gobytes \<Rightarrow> gobytes \<times> bool" where
  "numericHost_Apply src =
     (if \<not> hasNumericHostCandidate src then (src, False)
      else case host_loop src 0 [] False of (dst, changed) \<Rightarrow>
        if \<not> changed then (src, False) else (dst, True))"

end
