(* ===== verification/HostCorrect.thy ===== *)
theory HostCorrect
  imports NumericHost
begin

unbundle bit_operations_syntax

text \<open>
  NumericHost reads every inet_aton spelling of an address as that address. The reference is the
  set of spellings: one to four parts, each in decimal, octal or hexadecimal, the last one spread
  over the bytes the earlier ones leave.
\<close>

section \<open>Spellings\<close>

definition digit_char :: "nat \<Rightarrow> byte" where
  "digit_char d = (if d < 10 then of_nat (48 + d) else of_nat (87 + d))"

fun digits :: "nat \<Rightarrow> nat \<Rightarrow> gobytes" where
  "digits b n = (if n = 0 \<or> b < 2 then [] else digits b (n div b) @ [digit_char (n mod b)])"

declare digits.simps [simp del]

datatype radix = Dec | Oct | Hex

fun radix_base :: "radix \<Rightarrow> nat" where
  "radix_base Dec = 10" | "radix_base Oct = 8" | "radix_base Hex = 16"

fun spell_part :: "radix \<times> nat \<Rightarrow> gobytes" where
  "spell_part (Dec, n) = (if n = 0 then [48] else digits 10 n)"
| "spell_part (Oct, n) = [48] @ digits 8 n"
| "spell_part (Hex, n) = [48, 120] @ (if n = 0 then [48] else digits 16 n)"

fun spell :: "(radix \<times> nat) list \<Rightarrow> gobytes" where
  "spell [] = []"
| "spell [p] = spell_part p"
| "spell (p # ps) = spell_part p @ [46] @ spell ps"

text \<open>The address: the earlier parts are one byte each, the last part fills the rest.\<close>

fun address_from :: "nat \<Rightarrow> nat list \<Rightarrow> nat" where
  "address_from k [] = 0"
| "address_from k [n] = n"
| "address_from k (n # ns) = n * 256 ^ k + address_from (k - 1) ns"

definition address :: "(radix \<times> nat) list \<Rightarrow> nat" where
  "address ps = address_from 3 (map snd ps)"

definition in_range :: "(radix \<times> nat) list \<Rightarrow> bool" where
  "in_range ps \<longleftrightarrow> ps \<noteq> [] \<and> length ps \<le> 4 \<and> list_all (\<lambda>p. snd p < 256) (butlast ps) \<and>
     snd (last ps) < 256 ^ (5 - length ps)"

section \<open>Digits\<close>

lemma unhexDigit_char: "d < 16 \<Longrightarrow> unhexDigit (digit_char d) = int d"
proof -
  have "\<forall>d \<in> set [0..<16]. unhexDigit (digit_char d) = int d" by code_simp
  then show "d < 16 \<Longrightarrow> unhexDigit (digit_char d) = int d" by simp
qed

lemma part_digits_read:
  assumes "2 \<le> b" "b \<le> 16" "n \<le> 0xffffffff"
  shows "part_digits (of_nat b) (digits b n @ rest) 0 i =
    part_digits (of_nat b) rest (of_nat n) (i + length (digits b n))"
  using assms
proof (induction b n arbitrary: rest i rule: digits.induct)
  case (1 b n)
  show ?case
  proof (cases "n = 0")
    case True
    then show ?thesis by (simp add: digits.simps)
  next
    case False
    let ?d = "n mod b"
    have d: "?d < b" "?d < 16" "n div b \<le> 0xffffffff"
      using 1(2-4) by (auto intro: order_trans [OF div_le_dividend] order_less_le_trans [OF mod_less_divisor])
    have rd: "digits b n = digits b (n div b) @ [digit_char ?d]"
      using False 1(2) by (subst digits.simps) simp
    have u: "unhexDigit (digit_char ?d) = int ?d" by (rule unhexDigit_char [OF d(2)])
    have small: "(of_nat b \<le> (of_int (int ?d) :: u64)) = False"
      using d 1(3) by (simp add: word_le_nat_alt unat_of_nat)
    have val: "of_nat (n div b) * of_nat b + of_int (int ?d) = (of_nat n :: u64)"
      by (metis div_mult_mod_eq of_int_of_nat_eq of_nat_add of_nat_mult)
    have le: "((0xffffffff :: u64) < of_nat n) = False"
      using 1(4) by (simp add: word_less_nat_alt unat_of_nat)
    have "part_digits (of_nat b) (digits b n @ rest) 0 i =
        part_digits (of_nat b) (digits b (n div b) @ digit_char ?d # rest) 0 i" by (simp add: rd)
    also have "\<dots> = part_digits (of_nat b) (digit_char ?d # rest) (of_nat (n div b)) (i + length (digits b (n div b)))"
      using 1(1) False 1(2-4) d(3) by simp
    also have "\<dots> = part_digits (of_nat b) rest (of_nat n) (i + length (digits b (n div b)) + 1)"
      unfolding part_digits.simps Let_def u small val le by simp
    finally show ?thesis by (simp add: rd)
  qed
qed

lemma digits_first:
  assumes "2 \<le> b" "0 < n"
  obtains d ds where "digits b n = digit_char d # ds" "0 < d" "d < b"
proof -
  have "\<exists>d ds. digits b n = digit_char d # ds \<and> 0 < d \<and> d < b"
    using assms
  proof (induction b n rule: digits.induct)
    case (1 b n)
    have rd: "digits b n = digits b (n div b) @ [digit_char (n mod b)]"
      using 1(2,3) by (subst digits.simps) simp
    show ?case
    proof (cases "n div b = 0")
      case True
      then have "n < b" using 1(2) by (simp add: div_eq_0_iff)
      then show ?thesis using rd True 1(3) by (intro exI [of _ n] exI [of _ "[]"]) (simp add: digits.simps)
    next
      case False
      then have "\<exists>d ds. digits b (n div b) = digit_char d # ds \<and> 0 < d \<and> d < b"
        using 1 by simp
      then show ?thesis using rd by auto
    qed
  qed
  then show thesis using that by blast
qed

lemma digit_char_cases:
  assumes "d < 16"
  shows "(digit_char d = 48) = (d = 0)" "digit_char d \<noteq> 46" "digit_char d \<noteq> 120" "digit_char d \<noteq> 88"
    and "d < 10 \<Longrightarrow> 48 \<le> digit_char d \<and> digit_char d \<le> 57"
proof -
  have "\<forall>d \<in> set [0..<16]. (digit_char d = 48) = (d = 0) \<and> digit_char d \<noteq> 46 \<and> digit_char d \<noteq> 120 \<and>
    digit_char d \<noteq> 88 \<and> (d < 10 \<longrightarrow> 48 \<le> digit_char d \<and> digit_char d \<le> 57)" by code_simp
  with assms show "(digit_char d = 48) = (d = 0)" "digit_char d \<noteq> 46" "digit_char d \<noteq> 120" "digit_char d \<noteq> 88"
    and "d < 10 \<Longrightarrow> 48 \<le> digit_char d \<and> digit_char d \<le> 57"
    by simp_all
qed

definition ends_part :: "gobytes \<Rightarrow> bool" where
  "ends_part rest \<longleftrightarrow> rest = [] \<or> hd rest = 46"

lemma part_digits_stop: "ends_part rest \<Longrightarrow> part_digits b rest v i = Some (v, i)"
  by (cases rest) (simp_all add: ends_part_def unhexDigit_def byte_simps)

text \<open>A spelled part is read back, whatever its radix.\<close>

lemma parseHostPart_spell:
  assumes n: "n \<le> 0xffffffff" and rest: "ends_part rest"
  shows "parseHostPart (spell_part (r, n) @ rest) = Some (of_nat n, length (spell_part (r, n)), r = Hex)"
proof -
  have read: "part_digits (of_nat b) (digits b n @ rest) 0 i = Some (of_nat n, i + length (digits b n))"
    if "2 \<le> b" "b \<le> 16" for b i
    using part_digits_read [OF that n] part_digits_stop [OF rest] by simp
  have zero: "parseHostPart (48 # rest) = Some (0, 1, False)"
    using rest by (cases rest) (auto simp: parseHostPart_def ends_part_def byte_simps)
  show ?thesis
  proof (cases r)
    case Dec
    show ?thesis
    proof (cases "n = 0")
      case False
      then obtain d ds where d: "digits 10 n = digit_char d # ds" "0 < d" "d < 10"
        using digits_first [of 10 n] by auto
      have "parseHostPart (digits 10 n @ rest) =
          (case part_digits 10 (digits 10 n @ rest) 0 0 of None \<Rightarrow> None
           | Some (val, i) \<Rightarrow> if i = 0 then None else Some (val, i, False))"
        using d digit_char_cases [of d] by (simp add: parseHostPart_def byte_simps del: part_digits.simps)
      with read [of 10 0] d(1) False Dec show ?thesis by simp
    qed (use zero Dec in simp)
  next
    case Oct
    show ?thesis
    proof (cases "n = 0")
      case False
      then obtain d ds where d: "digits 8 n = digit_char d # ds" "0 < d" "d < 8"
        using digits_first [of 8 n] by auto
      have "parseHostPart (48 # digits 8 n @ rest) =
          (case part_digits 8 (digits 8 n @ rest) 0 (Suc 0) of None \<Rightarrow> None
           | Some (val, i) \<Rightarrow> if i = Suc 0 then None else Some (val, i, False))"
        using d digit_char_cases [of d] by (simp add: parseHostPart_def byte_simps del: part_digits.simps)
      with read [of 8 "Suc 0"] d(1) Oct show ?thesis by simp
    qed (use zero Oct in \<open>simp add: digits.simps\<close>)
  next
    case Hex
    define ds where "ds = (if n = 0 then [48] else digits 16 n)"
    have ds: "part_digits 16 (ds @ rest) 0 2 = Some (of_nat n, 2 + length ds)"
    proof (cases "n = 0")
      case True
      then show ?thesis using part_digits_stop [OF rest] by (simp add: ds_def unhexDigit_def byte_simps)
    next
      case False
      with read [of 16 2] show ?thesis by (simp add: ds_def)
    qed
    have "ds \<noteq> [] \<and> 0 \<le> unhexDigit (hd ds)"
    proof (cases "n = 0")
      case False
      then obtain d ds' where d: "digits 16 n = digit_char d # ds'" "0 < d" "d < 16"
        using digits_first [of 16 n] by auto
      with False show ?thesis using unhexDigit_char [of d] by (simp add: ds_def)
    qed (simp add: ds_def unhexDigit_def byte_simps)
    then obtain e es where e: "ds = e # es" "0 \<le> unhexDigit e" by (cases ds) auto
    have "parseHostPart (48 # 120 # ds @ rest) =
        (case part_digits 16 (ds @ rest) 0 2 of None \<Rightarrow> None
         | Some (val, i) \<Rightarrow> if i = 2 then None else Some (val, i, True))"
      using e by (simp add: parseHostPart_def byte_simps del: part_digits.simps)
    moreover have "spell_part (r, n) = 48 # 120 # ds" using Hex by (simp add: ds_def)
    ultimately show ?thesis using ds e Hex by simp
  qed
qed

section \<open>Tokens\<close>

lemma spell_part_ends: "spell_part p \<noteq> [] \<and> last (spell_part p) \<noteq> 46"
proof -
  have d: "digits b n \<noteq> [] \<and> last (digits b n) \<noteq> 46" if "n \<noteq> 0" "2 \<le> b" "b \<le> 16" for b n
    using that by (subst (1 2) digits.simps) (simp add: digit_char_cases order_less_le_trans [OF mod_less_divisor])
  have z: "digits b 0 = []" for b by (simp add: digits.simps)
  obtain r n where p: "p = (r, n)" by force
  show ?thesis
    using d [of n 10] d [of n 8] d [of n 16] by (cases r; cases "n = 0") (simp_all add: p z)
qed

lemma spell_ends: "ps \<noteq> [] \<Longrightarrow> spell ps \<noteq> [] \<and> last (spell ps) \<noteq> 46"
proof (induction ps rule: spell.induct)
  case (3 p q ps)
  have "last (spell_part p @ [46] @ spell (q # ps)) = last (spell (q # ps))" using 3 by (simp add: last_append)
  with 3 show ?case by simp
qed (simp_all add: spell_part_ends)

lemma host_parts_spell:
  assumes "ps \<noteq> []" "length parts + length ps \<le> 4" "list_all (\<lambda>p. snd p \<le> 0xffffffff) ps"
  shows "host_parts (spell ps) parts sd sh =
    Some (parts @ map (\<lambda>p. of_nat (snd p)) ps, sd \<or> 1 < length ps, sh \<or> list_ex (\<lambda>p. fst p = Hex) ps)"
  using assms
proof (induction ps arbitrary: parts sd sh rule: spell.induct)
  case (2 p)
  obtain r n where p: "p = (r, n)" by force
  obtain c cs where c: "spell_part p = c # cs" using spell_part_ends [of p] by (cases "spell_part p") auto
  have "parseHostPart (spell_part p) = Some (of_nat n, length (spell_part p), r = Hex)"
    using parseHostPart_spell [of n "[]" r] 2 by (simp add: p ends_part_def)
  with 2 c show ?case by (simp add: p)
next
  case (3 p q ps)
  obtain r n where p: "p = (r, n)" by force
  let ?rest = "46 # spell (q # ps)"
  obtain c cs where c: "spell_part p = c # cs" using spell_part_ends [of p] by (cases "spell_part p") auto
  have "parseHostPart (spell_part p @ ?rest) = Some (of_nat n, length (spell_part p), r = Hex)"
    using parseHostPart_spell [of n ?rest r] 3(4) by (simp add: p ends_part_def)
  then have h: "parseHostPart (c # cs @ ?rest) = Some (of_nat n, length (c # cs), r = Hex)" by (simp add: c)
  have "host_parts (c # cs @ ?rest) parts sd sh = host_parts (spell (q # ps)) (parts @ [of_nat n]) True (sh \<or> r = Hex)"
    unfolding host_parts.simps(2) h using 3(3) by simp
  also have "\<dots> = Some ((parts @ [of_nat n]) @ map (\<lambda>p. of_nat (snd p)) (q # ps), True,
      (sh \<or> r = Hex) \<or> list_ex (\<lambda>p. fst p = Hex) (q # ps))"
    using 3(1) [of "parts @ [of_nat n]" True "sh \<or> r = Hex"] 3(3,4) by simp
  finally show ?case using c by (simp add: p)
qed simp

lemma or_shift:
  assumes "y < 2 ^ k"
  shows "push_bit k (of_nat x) OR of_nat y = (of_nat (x * 2 ^ k + y) :: u32)"
proof -
  have "push_bit k x OR y = push_bit k x + y"
  proof (rule disjunctive_add [symmetric])
    fix n show "\<not> bit (push_bit k x) n \<or> \<not> bit y n"
    proof (cases "n < k")
      case False
      have "take_bit k y = y" using assms by (simp add: take_bit_nat_eq_self_iff)
      with False have "\<not> bit y n" by (metis bit_take_bit_iff)
      then show ?thesis by simp
    qed (simp add: bit_push_bit_iff)
  qed
  then have "(of_nat (push_bit k x OR y) :: u32) = of_nat (push_bit k x + y)" by simp
  then show ?thesis by (simp add: of_nat_or_eq of_nat_push_bit push_bit_eq_mult)
qed

lemma ucast_of_nat_u64: "n < 2 ^ 32 \<Longrightarrow> (ucast (of_nat n :: u64) :: u32) = of_nat n"
  by (simp add: unsigned_of_nat take_bit_nat_eq_self)

text \<open>The whole token.\<close>

lemma parts_cases:
  assumes "ps \<noteq> []" "length ps \<le> 4"
  obtains a where "ps = [a]" | a b where "ps = [a, b]" | a b c where "ps = [a, b, c]"
    | a b c d where "ps = [a, b, c, d]"
proof -
  obtain a as where a: "ps = a # as" using assms by (cases ps) auto
  show thesis
  proof (cases as)
    case (Cons b bs)
    show thesis
    proof (cases bs)
      case (Cons c cs)
      show thesis
      proof (cases cs)
        case (Cons d ds)
        then show thesis using that(4) a \<open>as = b # bs\<close> \<open>bs = c # cs\<close> assms(2) by simp
      qed (use that(3) a \<open>as = b # bs\<close> \<open>bs = c # cs\<close> in simp)
    qed (use that(2) a \<open>as = b # bs\<close> in simp)
  qed (use that(1) a in simp)
qed

text \<open>The range checks and the assembly of the address, on parts already read.\<close>

definition assemble :: "u64 list \<Rightarrow> u32" where
  "assemble parts =
     fold (\<lambda>i addr. addr OR push_bit (8 * (3 - i)) (ucast (parts ! i))) [0..<length parts - 1] 0 OR
     ucast (parts ! (length parts - 1))"

lemma assemble_address:
  assumes "in_range ps"
  shows "assemble (map (\<lambda>p. of_nat (snd p)) ps) = of_nat (address ps)"
    and "\<not> list_ex (\<lambda>i. 0xff < map (\<lambda>p. of_nat (snd p) :: u64) ps ! i) [0..<length ps - 1]"
    and "list_all (\<lambda>p. snd p \<le> 0xffffffff) ps"
proof -
  have ps: "ps \<noteq> []" "length ps \<le> 4" using assms by (simp_all add: in_range_def)
  have u: "unat (of_nat n :: u64) = n" if "n < 2 ^ 32" for n using that by (simp add: unat_of_nat)
  have "assemble (map (\<lambda>p. of_nat (snd p)) ps) = of_nat (address ps) \<and>
    \<not> list_ex (\<lambda>i. 0xff < map (\<lambda>p. of_nat (snd p) :: u64) ps ! i) [0..<length ps - 1] \<and>
    list_all (\<lambda>p. snd p \<le> 0xffffffff) ps"
    using ps
  proof (cases rule: parts_cases)
    case (1 a)
    with assms show ?thesis by (simp add: in_range_def assemble_def address_def ucast_of_nat_u64)
  next
    case (2 a b)
    with assms show ?thesis
      by (simp add: in_range_def assemble_def address_def ucast_of_nat_u64 or_shift u word_less_nat_alt upt_rec)
  next
    case (3 a b c)
    with assms have r: "snd a < 256" "snd b < 256" "snd c < 65536" by (simp_all add: in_range_def)
    then have "snd b * 2 ^ 16 + snd c < 2 ^ 24" by simp
    from or_shift [OF this, of "snd a"] or_shift [of "snd c" 16 "snd b"] r 3 show ?thesis
      by (simp add: assemble_def address_def ucast_of_nat_u64 or.assoc u word_less_nat_alt upt_rec)
  next
    case (4 a b c d)
    with assms have r: "snd a < 256" "snd b < 256" "snd c < 256" "snd d < 256" by (simp_all add: in_range_def)
    then have "snd b * 2 ^ 16 + (snd c * 2 ^ 8 + snd d) < 2 ^ 24" "snd c * 2 ^ 8 + snd d < 2 ^ 16" by simp_all
    from or_shift [OF this(1), of "snd a"] or_shift [OF this(2), of "snd b"] or_shift [of "snd d" 8 "snd c"] r 4
    show ?thesis
      by (simp add: assemble_def address_def ucast_of_nat_u64 or.assoc u word_less_nat_alt upt_rec)
  qed
  then show "assemble (map (\<lambda>p. of_nat (snd p)) ps) = of_nat (address ps)"
    "\<not> list_ex (\<lambda>i. 0xff < map (\<lambda>p. of_nat (snd p) :: u64) ps ! i) [0..<length ps - 1]"
    "list_all (\<lambda>p. snd p \<le> 0xffffffff) ps" by blast+
qed

definition has_hex :: "(radix \<times> nat) list \<Rightarrow> bool" where
  "has_hex ps \<longleftrightarrow> list_ex (\<lambda>p. fst p = Hex) ps"

text \<open>Everything that makes a spelled token an address to \<open>parseNumericHost\<close>: it carries a dot or a
  hex marker, and a short decimal form with a small last part is the whole host.\<close>

definition unambiguous :: "bool \<Rightarrow> (radix \<times> nat) list \<Rightarrow> bool" where
  "unambiguous whole ps \<longleftrightarrow>
     (1 < length ps \<or> has_hex ps) \<and> (length ps = 4 \<or> has_hex ps \<or> 255 < snd (last ps) \<or> whole)"

lemma parseNumericHost_spell:
  assumes r: "in_range ps" and len: "length (spell ps) \<le> maxHostToken" and u: "unambiguous whole ps"
  shows "parseNumericHost (spell ps) whole = Some (of_nat (address ps))"
proof -
  have ps: "ps \<noteq> []" "length ps \<le> 4" using r by (simp_all add: in_range_def)
  let ?parts = "map (\<lambda>p. of_nat (snd p) :: u64) ps"
  note A = assemble_address [OF r]
  have parts: "host_parts (spell ps) [] False False = Some (?parts, 1 < length ps, has_hex ps)"
    using host_parts_spell [of ps "[]" False False] ps A(3) by (simp add: has_hex_def)
  have n: "length ?parts = length ps" by simp
  have nonempty: "length (spell ps) \<noteq> 0" "spell ps ! (length (spell ps) - 1) \<noteq> 46"
    using spell_ends [OF ps(1), THEN conjunct1] spell_ends [OF ps(1), THEN conjunct2]
    by (simp_all add: last_conv_nth)
  have last: "?parts ! (length ps - 1) = of_nat (snd (last ps))" using ps by (simp add: last_conv_nth)
  have bound: "snd (last ps) < 256 ^ (5 - length ps)" using r by (simp add: in_range_def)
  have "(256 :: nat) ^ (5 - length ps) \<le> 256 ^ 4" using ps(1) by (intro power_increasing) (cases ps, auto)
  then have b32: "snd (last ps) < 2 ^ 32" using bound by simp
  then have unat_last: "unat (of_nat (snd (last ps)) :: u64) = snd (last ps)" by (simp add: unat_of_nat)
  let ?k = "8 * (5 - length ps)"
  have c1: "(?k < 32 \<and> push_bit ?k 1 \<le> (of_nat (snd (last ps)) :: u64)) = False"
  proof (cases "?k < 32")
    case True
    then have "(2 :: nat) ^ ?k < 2 ^ LENGTH(64)" by (intro power_strict_increasing) auto
    then have "unat (of_nat (2 ^ ?k) :: u64) = 2 ^ ?k"
      by (simp only: unsigned_of_nat take_bit_nat_eq_self of_nat_id)
    then have "unat (push_bit ?k 1 :: u64) = 2 ^ ?k" by (simp add: push_bit_eq_mult)
    moreover have "snd (last ps) < 2 ^ ?k" using bound by (simp add: power_mult)
    ultimately show ?thesis by (simp add: word_le_nat_alt unat_last)
  qed simp
  have c2: "(?k = 32 \<and> 0xffffffff < (of_nat (snd (last ps)) :: u64)) = False"
    using b32 by (simp add: word_less_nat_alt unat_last)
  have c3: "((of_nat (snd (last ps)) :: u64) \<le> 0xff) = (snd (last ps) \<le> 255)"
    by (simp add: word_le_nat_alt unat_last)
  have c4: "(length ps < 4 \<and> \<not> has_hex ps \<and> snd (last ps) \<le> 255 \<and> \<not> whole) = False"
    using u ps by (auto simp: unambiguous_def)
  have c5: "(length ps = 0 \<or> \<not> 1 < length ps \<and> \<not> has_hex ps) = False"
    using u ps by (auto simp: unambiguous_def)
  have c6: "(length (spell ps) = 0 \<or> maxHostToken < length (spell ps)) = False" using len nonempty by simp
  have c7: "list_ex (\<lambda>i. 0xff < ?parts ! i) [0..<length ps - 1] = False" using A(2) by simp
  have "parseNumericHost (spell ps) whole = Some (assemble ?parts)"
    unfolding parseNumericHost_def assemble_def c6 if_False nonempty(2) parts option.case prod.case Let_def n c5
      last c1 c2 c3 c4 c7 using nonempty(2) by simp
  then show ?thesis by (simp only: A(1))
qed

section \<open>The dotted quad\<close>

lemma uint_digits_eq: "uint_digits v buf = digits 10 (unat v) @ buf"
proof (induction "unat v" arbitrary: v buf rule: less_induct)
  case less
  show ?case
  proof (cases "0 < v")
    case False
    then show ?thesis by (subst uint_digits.simps) (simp add: digits.simps word_gt_0)
  next
    case True
    then have pos: "unat v \<noteq> 0" by (simp add: word_gt_0 unat_eq_0)
    have dv: "unat (v div 10) = unat v div 10" "unat (v mod 10) = unat v mod 10"
      by (simp_all add: unat_div unat_mod)
    have "digit_char (unat v mod 10) = of_nat (48 + unat v mod 10)" by (simp add: digit_char_def)
    then have "digits 10 (unat v) @ buf = digits 10 (unat v div 10) @ of_nat (48 + unat v mod 10) # buf"
      using pos by (subst digits.simps) simp
    moreover have "uint_digits v buf = uint_digits (v div 10) (of_nat (48 + unat (v mod 10)) # buf)"
      using True by (subst uint_digits.simps) simp
    ultimately show ?thesis using less [of "v div 10"] pos by (simp add: dv)
  qed
qed

lemma appendUint_eq: "appendUint dst v = dst @ spell_part (Dec, unat v)"
  by (simp add: appendUint_def uint_digits_eq unat_eq_0)

text \<open>The four bytes of an address.\<close>

definition quad_parts :: "u32 \<Rightarrow> (radix \<times> nat) list" where
  "quad_parts addr = map (\<lambda>i. (Dec, unat addr div 256 ^ i mod 256)) [3, 2, 1, 0]"

lemma byte_of_addr: "unat (ucast (drop_bit (8 * i) addr) AND 0xff :: u64) = unat (addr :: u32) div 256 ^ i mod 256"
proof -
  have m: "(0xff :: u64) = mask 8" by (simp add: mask_eq_exp_minus_1)
  have s: "unat (drop_bit (8 * i) addr) = unat addr div 256 ^ i"
    using take_bit_nat_eq_self [OF unsigned_less [of addr]]
    by (subst unsigned_drop_bit_eq) (simp add: drop_bit_eq_div power_mult)
  have "unat addr < 2 ^ LENGTH(32)" by (rule unsigned_less)
  then have "unat addr div 256 ^ i < 2 ^ 64"
    by (intro order_le_less_trans [OF div_le_dividend]) simp
  then have "unat (ucast (drop_bit (8 * i) addr) :: u64) = unat addr div 256 ^ i"
    by (simp add: unsigned_ucast_eq s take_bit_nat_eq_self)
  moreover have "unat (w AND mask 8 :: u64) = unat w mod 256" for w
    by (simp only: take_bit_eq_mask [symmetric] unsigned_take_bit_eq) (simp add: take_bit_eq_mod)
  ultimately show ?thesis by (simp only: m)
qed

lemma appendDottedQuad_eq: "appendDottedQuad dst addr = dst @ spell (quad_parts addr)"
  unfolding appendDottedQuad_def quad_parts_def by (simp add: appendUint_eq byte_of_addr del: spell_part.simps)

lemma quad_in_range: "in_range (quad_parts addr)" "unambiguous whole (quad_parts addr)" "address (quad_parts addr) = unat addr"
proof -
  have lt: "unat addr < 2 ^ LENGTH(32)" by (rule unsigned_less)
  show "in_range (quad_parts addr)" by (simp add: in_range_def quad_parts_def)
  show "unambiguous whole (quad_parts addr)" by (simp add: unambiguous_def quad_parts_def)
  define q1 q2 q3 where "q1 = unat addr div 256" and "q2 = q1 div 256" and "q3 = q2 div 256"
  have q: "unat addr div 65536 = q2" "unat addr div 16777216 = q3"
    unfolding q3_def q2_def q1_def by (simp_all flip: div_mult2_eq)
  have "q3 < 256" using lt unfolding q(2) [symmetric] by (simp add: less_mult_imp_div_less)
  then have "q3 mod 256 * 16777216 + (q2 mod 256 * 65536 + (q1 mod 256 * 256 + unat addr mod 256)) = unat addr"
    using div_mult_mod_eq [of "unat addr" 256] div_mult_mod_eq [of q1 256] div_mult_mod_eq [of q2 256]
    unfolding q1_def [symmetric] q2_def [symmetric] q3_def [symmetric] by simp
  then show "address (quad_parts addr) = unat addr" by (simp add: address_def quad_parts_def q q1_def)
qed

lemma digits_length: "n < b ^ k \<Longrightarrow> length (digits b n) \<le> k"
proof (induction b n arbitrary: k rule: digits.induct)
  case (1 b n)
  show ?case
  proof (cases "n = 0 \<or> b < 2")
    case False
    then obtain j where k: "k = Suc j" using 1(2) by (cases k) auto
    then have "n div b < b ^ j" using 1(2) by (simp add: less_mult_imp_div_less mult.commute)
    from 1(1) [OF False this] False k show ?thesis by (subst digits.simps) simp
  qed (simp add: digits.simps)
qed

lemma quad_length: "length (spell (quad_parts addr)) \<le> 15"
proof -
  have "length (spell_part (Dec, n)) \<le> 3" if "n < 256" for n
    using digits_length [of n 10 3] that by simp
  then have "length (spell_part (Dec, unat addr div 256 ^ i mod 256)) \<le> 3" for i by simp
  from this [of 3] this [of 2] this [of 1] this [of 0] show ?thesis
    by (simp add: quad_parts_def del: spell_part.simps)
qed

section \<open>The transform on a value that is one token\<close>

lemma digit_char_host: "d < 16 \<Longrightarrow> host_char (digit_char d)"
proof -
  have "\<forall>d \<in> set [0..<16]. host_char (digit_char d)" by code_simp
  then show "d < 16 \<Longrightarrow> host_char (digit_char d)" by simp
qed

lemma spell_host: "list_all host_char (spell ps)"
proof -
  have "2 \<le> b \<Longrightarrow> b \<le> 16 \<Longrightarrow> list_all host_char (digits b n)" for b n
  proof (induction b n rule: digits.induct)
    case (1 b n)
    then show ?case
      by (subst digits.simps) (simp add: digit_char_host order_less_le_trans [OF mod_less_divisor])
  qed
  then have "list_all host_char (spell_part p)" for p
    by (cases p rule: spell_part.cases) (simp_all add: host_char_def byte_simps)
  then show ?thesis
    by (induction ps rule: spell.induct) (simp_all add: host_char_def byte_simps)
qed

lemma spell_part_start:
  "48 \<le> hd (spell_part p) \<and> hd (spell_part p) \<le> 57 \<and> spell_part p \<noteq> []"
proof -
  obtain r n where p: "p = (r, n)" by force
  show ?thesis
  proof (cases "r = Dec \<and> n \<noteq> 0")
    case True
    then obtain d ds where "digits 10 n = digit_char d # ds" "0 < d" "d < 10"
      using digits_first [of 10 n] by auto
    with True digit_char_cases(5) [of d] show ?thesis by (simp add: p)
  qed (cases r; auto simp: p byte_simps)
qed

lemma spell_start: "ps \<noteq> [] \<Longrightarrow> 48 \<le> hd (spell ps) \<and> hd (spell ps) \<le> 57"
  using spell_part_start by (cases ps rule: spell.cases) auto

lemma candidate_scan_iff:
  "candidate_scan d m s \<longleftrightarrow> s \<noteq> [] \<and> (d \<or> list_ex (\<lambda>c. 48 \<le> c \<and> c \<le> 57) s) \<and>
     (m \<or> list_ex (\<lambda>c. c = 46 \<or> c = 120 \<or> c = 88) s)"
proof (induction s arbitrary: d m)
  case (Cons c s)
  have "\<not> (48 \<le> c \<and> c \<le> 57)" if "c = 46 \<or> c = 120 \<or> c = 88" using that by (auto simp: byte_simps)
  with Cons show ?case by (cases "48 \<le> c \<and> c \<le> 57"; cases "c = 46 \<or> c = 120 \<or> c = 88") (auto simp: Let_def)
qed simp

lemma spell_mark:
  assumes "ps \<noteq> []" "1 < length ps \<or> has_hex ps"
  shows "list_ex (\<lambda>c. c = 46 \<or> c = 120 \<or> c = 88) (spell ps)"
proof (cases ps rule: spell.cases)
  case (2 p)
  with assms obtain n where "p = (Hex, n)" by (cases p) (auto simp: has_hex_def)
  with 2 show ?thesis by simp
qed (use assms in auto)

lemma equalBytes_iff: "equalBytes a b \<longleftrightarrow> a = b"
proof -
  have "length a = length b \<Longrightarrow> equal_loop a b \<longleftrightarrow> a = b"
    by (induction a b rule: equal_loop.induct) auto
  then show ?thesis by (auto simp: equalBytes_def)
qed

lemma numericHost_Apply_spell:
  assumes r: "in_range ps" and len: "length (spell ps) \<le> maxHostToken" and m: "1 < length ps \<or> has_hex ps"
  shows "numericHost_Apply (spell ps) =
    (spell (quad_parts (of_nat (address ps))), spell (quad_parts (of_nat (address ps))) \<noteq> spell ps)"
proof -
  have ps: "ps \<noteq> []" using r by (simp add: in_range_def)
  let ?s = "spell ps"
  have ne: "?s \<noteq> []" and hd: "48 \<le> ?s ! 0" "?s ! 0 \<le> 57"
    using spell_ends [OF ps] spell_start [OF ps] by (simp_all add: hd_conv_nth)
  have cand: "hasNumericHostCandidate ?s"
    using spell_mark [OF ps m] ne hd by (auto simp: hasNumericHostCandidate_def candidate_scan_iff list_ex_iff intro: nth_mem)
  have start: "hostTokenStart ?s 0" using hd by (simp add: hostTokenStart_def byte_simps)
  have fin: "hostTokenEnd ?s 0 = length ?s"
  proof -
    have "takeWhile host_char ?s = ?s" using spell_host [of ps] by (simp only: takeWhile_eq_all_conv list_all_iff)
    then show ?thesis by (simp only: hostTokenEnd_def token_end_eq drop_0 add_0)
  qed
  have u: "unambiguous True ps" using m by (simp add: unambiguous_def)
  let ?q = "spell (quad_parts (of_nat (address ps)))"
  have "host_loop ?s 0 [] False = host_loop ?s (length ?s) ?q (?q \<noteq> ?s)"
    using ne start fin parseNumericHost_spell [OF r len u]
    by (subst host_loop.simps) (simp add: inHostPosition_def appendDottedQuad_eq equalBytes_iff Let_def)
  also have "\<dots> = (?q, ?q \<noteq> ?s)" by (subst host_loop.simps) simp
  finally show ?thesis using cand by (simp add: numericHost_Apply_def)
qed

section \<open>Properties\<close>

text \<open>C24. A value of at most 24 bytes that spells an address the way inet_aton reads it - one to four
  parts, each in decimal, octal or hexadecimal without redundant leading zeros, the last one filling the
  remaining bytes - and is not a bare decimal or octal number becomes the dotted quad of that address, so
  one literal covers those spellings.\<close>

theorem NumericHost_canonical:
  assumes "in_range ps" and "length (spell ps) \<le> 24" and "1 < length ps \<or> has_hex ps"
  shows "numericHost_Apply (spell ps) =
    (appendDottedQuad [] (of_nat (address ps)), appendDottedQuad [] (of_nat (address ps)) \<noteq> spell ps)"
  using numericHost_Apply_spell [OF assms(1) _ assms(3)] assms(2)
  by (simp add: maxHostToken_def appendDottedQuad_eq)

lemma NumericHost_canonical_witness:
  "numericHost_Apply (spell [(Hex, 169), (Oct, 254), (Dec, 43518)]) =
     (appendDottedQuad [] 2852039166, appendDottedQuad [] 2852039166 \<noteq> spell [(Hex, 169), (Oct, 254), (Dec, 43518)])"
proof -
  let ?ps = "[(Hex, 169), (Oct, 254), (Dec, 43518)]"
  have a: "address ?ps = 2852039166" by (simp add: address_def)
  have r: "in_range ?ps" by (simp add: in_range_def)
  have l: "length (spell ?ps) \<le> 24" by (simp add: digits.simps)
  have "1 < length ?ps \<or> has_hex ?ps" by simp
  from NumericHost_canonical [OF r l this] show ?thesis by (simp only: a of_nat_numeral)
qed

text \<open>Printing an address as a dotted quad and parsing it gives the address back, wherever the
  token stands; the printed form is at most 15 bytes and a fixed point of the transform.\<close>

theorem dotted_quad_roundtrip:
  "parseNumericHost (appendDottedQuad [] addr) whole = Some addr \<and>
   length (appendDottedQuad [] addr) \<le> 15 \<and>
   numericHost_Apply (appendDottedQuad [] addr) = (appendDottedQuad [] addr, False)"
proof -
  have len: "length (spell (quad_parts addr)) \<le> maxHostToken" using quad_length [of addr] by (simp add: maxHostToken_def)
  have m: "1 < length (quad_parts addr) \<or> has_hex (quad_parts addr)" by (simp add: quad_parts_def)
  show ?thesis
    using parseNumericHost_spell [OF quad_in_range(1) len quad_in_range(2), of whole]
      numericHost_Apply_spell [OF quad_in_range(1) len m] quad_length [of addr]
    by (simp add: appendDottedQuad_eq quad_in_range(3))
qed

end
