(* ===== verification/TransformsCorrect.thy ===== *)
theory TransformsCorrect
  imports PathCorrect HostCorrect
begin

unbundle bit_operations_syntax

text \<open>
  The built-in transforms as one interface value, and what they promise. The contract of
  rules.Transform is the locale \<open>transform\<close>: a transform that reports no change hands back its
  input, and its output stays within the bound it declares. A transform that never grows its input
  is a \<open>shrinking\<close> one; every built-in transform but NumericHost is. Beyond the contract:
  the normalising transforms reach a fixed point, the decoders undo the encoders, and NormalizePath
  resolves a path as a stack of segments does.
\<close>

section \<open>The interface value\<close>

datatype builtin_transform =
    Lowercase | RemoveWhitespace | CompressWhitespace | URLDecode | NormalizePath | EscapeDecode
  | CSSDecode | CmdLine | ReplaceComments | RemoveCommentsChar | Base64Decode | HexEscapeDecode
  | NumericHost

fun t_Name :: "builtin_transform \<Rightarrow> gobytes" where
  "t_Name Lowercase = ascii ''lowercase''"
| "t_Name RemoveWhitespace = ascii ''remove_whitespace''"
| "t_Name CompressWhitespace = ascii ''compress_whitespace''"
| "t_Name URLDecode = ascii ''url_decode''"
| "t_Name NormalizePath = ascii ''normalize_path''"
| "t_Name EscapeDecode = ascii ''escape_decode''"
| "t_Name CSSDecode = ascii ''css_decode''"
| "t_Name CmdLine = ascii ''cmd_line''"
| "t_Name ReplaceComments = ascii ''replace_comments''"
| "t_Name RemoveCommentsChar = ascii ''remove_comments_char''"
| "t_Name Base64Decode = ascii ''base64_decode''"
| "t_Name HexEscapeDecode = ascii ''hex_escape_decode''"
| "t_Name NumericHost = ascii ''numeric_host''"

fun t_MaxOutputLen :: "builtin_transform \<Rightarrow> nat \<Rightarrow> nat" where
  "t_MaxOutputLen NormalizePath n = n + 1"
| "t_MaxOutputLen NumericHost n = n * 5 + 16"
| "t_MaxOutputLen _ n = n"

fun t_Apply :: "builtin_transform \<Rightarrow> gobytes \<Rightarrow> gobytes \<times> bool" where
  "t_Apply Lowercase = lowercase_Apply"
| "t_Apply RemoveWhitespace = removeWhitespace_Apply"
| "t_Apply CompressWhitespace = compressWhitespace_Apply"
| "t_Apply URLDecode = urlDecode_Apply"
| "t_Apply NormalizePath = normalizePath_Apply"
| "t_Apply EscapeDecode = escapeDecode_Apply"
| "t_Apply CSSDecode = cssDecode_Apply"
| "t_Apply CmdLine = cmdLine_Apply"
| "t_Apply ReplaceComments = replaceComments_Apply"
| "t_Apply RemoveCommentsChar = removeCommentsChar_Apply"
| "t_Apply Base64Decode = base64Decode_Apply"
| "t_Apply HexEscapeDecode = hexEscapeDecode_Apply"
| "t_Apply NumericHost = numericHost_Apply"

definition All_transforms :: "builtin_transform list" where
  "All_transforms = [Lowercase, RemoveWhitespace, CompressWhitespace, URLDecode, NormalizePath,
     EscapeDecode, CSSDecode, CmdLine, ReplaceComments, RemoveCommentsChar, Base64Decode]"

section \<open>The contract\<close>

locale transform =
  fixes Apply :: "gobytes \<Rightarrow> gobytes \<times> bool" and bound :: "nat \<Rightarrow> nat"
  assumes unchanged: "Apply s = (u, False) \<Longrightarrow> u = s"
    and bounded: "Apply s = (u, True) \<Longrightarrow> length u \<le> bound (length s)"
begin

lemma output_unchanged: "snd (Apply s) \<or> fst (Apply s) = s"
  by (cases "snd (Apply s)") (simp_all add: unchanged prod_eq_iff)

lemma output_bounded:
  assumes "length s \<le> bound (length s)"
  shows "length (fst (Apply s)) \<le> bound (length s)"
proof (cases "snd (Apply s)")
  case True
  then show ?thesis by (intro bounded) (simp add: prod_eq_iff)
next
  case False
  then have "fst (Apply s) = s" using output_unchanged by blast
  with assms show ?thesis by simp
qed

end

locale shrinking = transform Apply "\<lambda>n. n" for Apply :: "gobytes \<Rightarrow> gobytes \<times> bool"
begin

lemma never_grows: "length (fst (Apply s)) \<le> length s"
  by (rule output_bounded) simp_all

end

lemma shrinkingI:
  assumes "\<And>s. snd (f s) \<or> fst (f s) = s" and "\<And>s. snd (f s) \<Longrightarrow> length (fst (f s)) \<le> length s"
  shows "shrinking f"
proof
  fix s u assume "f s = (u, False)"
  with assms(1) [of s] show "u = s" by simp
next
  fix s u assume "f s = (u, True)"
  with assms(2) [of s] show "length u \<le> length s" by simp
qed

lemma compress_loop_le: "length (compress_loop p s) \<le> length s"
  by (induction p s rule: compress_loop.induct) auto

lemma url_loop_le: "length (url_loop s) \<le> length s"
proof (induction s rule: url_loop.induct)
  case (2 c rest)
  show ?case
  proof (cases "c = 37 \<and> 1 < length rest \<and> t_unhex (rest ! 0) \<noteq> None \<and> t_unhex (rest ! 1) \<noteq> None")
    case True
    then obtain hi lo where "t_unhex (rest ! 0) = Some hi" "t_unhex (rest ! 1) = Some lo" by auto
    moreover from this have "length (url_loop (drop 2 rest)) \<le> length (drop 2 rest)" using True 2 by simp
    ultimately show ?thesis using True by simp
  next
    case False
    with 2 show ?thesis by (auto split: option.splits)
  qed
qed simp

lemma sint_small: "unat r < 0x10000 \<Longrightarrow> sint (r :: t_rune) = int (unat r)"
proof -
  assume "unat r < 0x10000"
  then have "- (2 ^ (LENGTH(32) - Suc 0)) \<le> uint r" "uint r < 2 ^ (LENGTH(32) - Suc 0)"
    by (simp_all add: uint_nat del: of_nat_unat)
  then have "signed_take_bit (LENGTH(32) - Suc 0) (uint r) = uint r" by (rule signed_take_bit_int_eq_self)
  then show "sint r = int (unat r)" by (simp only: sint_uint of_nat_unat)
qed

lemma appendRuneTo_le:
  "length (appendRuneTo r) \<le> 4" "unat r < 0x10000 \<Longrightarrow> length (appendRuneTo r) \<le> 3"
  "unat r < 0x800 \<Longrightarrow> length (appendRuneTo r) \<le> 2"
  using sint_small [of r] by (simp_all add: appendRuneTo_def encodeRune_def del: of_nat_unat)

text \<open>The digits of an escape bound its value.\<close>

lemma t_unhex_less: "t_unhex c = Some d \<Longrightarrow> unat d < 16"
  by (auto simp: t_unhex_def byte_simps unat_word_ariths unat_sub_if' split: if_splits)

lemma or_less_2p:
  assumes "unat (a :: 32 word) < 2 ^ n" "unat b < 2 ^ n"
  shows "unat (a OR b) < 2 ^ n"
proof -
  have "take_bit n (unat a) = unat a" "take_bit n (unat b) = unat b"
    using assms by (simp_all add: take_bit_nat_eq_self_iff)
  then have "take_bit n (unat (a OR b)) = unat (a OR b)" by (simp add: unsigned_or_eq)
  then show ?thesis by (simp only: take_bit_nat_eq_self_iff)
qed

lemma hex_digits_less:
  "hex_digits k s v = Some r \<Longrightarrow> unat v < 2 ^ (4 * j) \<Longrightarrow> k + j \<le> 7 \<Longrightarrow> unat r < 2 ^ (4 * (j + k))"
proof (induction k s v arbitrary: j rule: hex_digits.induct)
  case (2 k s v)
  then obtain d where d: "t_unhex (hd s) = Some d" "hex_digits k (tl s) (push_bit 4 v OR ucast d) = Some r"
    by (auto split: option.splits)
  have "(2 :: nat) ^ (4 * j) \<le> 2 ^ 24" using 2(4) by (intro power_increasing) auto
  then have "unat v < 2 ^ 24" using 2(3) by linarith
  then have "unat (push_bit 4 v) = unat v * 16"
    by (simp add: push_bit_eq_mult unat_word_ariths)
  then have "unat (push_bit 4 v) < 2 ^ (4 * Suc j)" using 2(3) by (simp add: power_add)
  moreover have "unat (ucast d :: t_rune) = unat d"
    using unat_byte_less [of d] by (simp add: unsigned_ucast_eq take_bit_nat_eq_self_iff)
  then have "unat (ucast d :: t_rune) < 2 ^ (4 * Suc j)"
    using t_unhex_less [OF d(1)] power_increasing [of 4 "4 * Suc j" "2 :: nat"] by simp
  ultimately have "unat (push_bit 4 v OR ucast d) < 2 ^ (4 * Suc j)" by (rule or_less_2p)
  from 2(1) [OF d(1) d(2) this] 2(4) show ?case by simp
qed simp

lemma hex_escape_le:
  assumes "hex_escape s = Some (v, n)"
  shows "length (appendRuneTo v) \<le> n \<and> n \<le> length s"
proof (cases "s ! 1 = 117")
  case True
  then have "hex_digits 4 (drop 2 s) 0 = Some v" "n = 6" "5 < length s"
    using assms by (auto simp: hex_escape_def split: if_splits)
  with hex_digits_less [of 4 "drop 2 s" 0 v 0] appendRuneTo_le(2) [of v] show ?thesis by simp
next
  case False
  then have "hex_digits 2 (drop 2 s) 0 = Some v" "n = 4" "3 < length s"
    using assms by (auto simp: hex_escape_def split: if_splits)
  with hex_digits_less [of 2 "drop 2 s" 0 v 0] appendRuneTo_le(3) [of v] show ?thesis by simp
qed


lemma octal_digits_le: "snd (octal_digits k s v n) \<le> n + length s"
  by (induction k s v n rule: octal_digits.induct) auto

lemma octal_digits_pos: "0 < k \<Longrightarrow> 48 \<le> c \<Longrightarrow> c \<le> 55 \<Longrightarrow> n < snd (octal_digits k (c # cs) v n)"
proof -
  have "n \<le> snd (octal_digits k s v n)" for k s v n
    by (induction k s v n rule: octal_digits.induct) auto
  then show "0 < k \<Longrightarrow> 48 \<le> c \<Longrightarrow> c \<le> 55 \<Longrightarrow> n < snd (octal_digits k (c # cs) v n)"
    by (simp add: Suc_le_lessD)
qed

lemma escape_at_le:
  assumes "2 \<le> length s" "escape_at s = (out, n)"
  shows "length out \<le> n \<and> n \<le> length s"
proof -
  obtain c d rest where s: "s = c # d # rest"
    using assms(1) by (cases s; cases "tl s") auto
  consider (hex) "d = 120 \<or> d = 117" | (oct) "d \<noteq> 120" "d \<noteq> 117" "48 \<le> d" "d \<le> 55"
    | (other) "d \<noteq> 120" "d \<noteq> 117" "\<not> (48 \<le> d \<and> d \<le> 55)" by blast
  then show ?thesis
  proof cases
    case hex
    then show ?thesis using assms(2) hex_escape_le [of s]
      by (auto simp: escape_at_def s Let_def split: option.splits)
  next
    case oct
    obtain v m where o: "octal_digits 3 (d # rest) 0 0 = (v, m)" by force
    with octal_digits_le [of 3 "d # rest" 0 0] have "m \<le> Suc (length rest)" by simp
    moreover have "out = [of_nat (if 0xFF < v then 0xFF else v)] \<and> n = 1 + m"
      using oct o assms(2) by (simp add: escape_at_def s del: octal_digits.simps)
    ultimately show ?thesis by (simp add: s)
  next
    case other
    then have "length out = 1 \<and> n = 2"
      using assms(2) by (auto simp: escape_at_def s split: option.splits)
    then show ?thesis by (simp add: s)
  qed
qed

lemma escape_loop_le: "length (escape_loop s) \<le> length s"
proof (induction s rule: escape_loop.induct)
  case (2 c rest)
  show ?case
  proof (cases "c \<noteq> 92 \<or> rest = []")
    case True
    with 2(1) show ?thesis by simp
  next
    case False
    obtain out n where e: "escape_at (c # rest) = (out, n)" by force
    have "2 \<le> length (c # rest)" using False by (cases rest) auto
    note E = escape_at_le [OF this e]
    have "length (escape_loop (drop n (c # rest))) \<le> length (drop n (c # rest))"
      using 2(2) [OF False, of out n] e by simp
    moreover have "length out \<le> n \<and> n \<le> length (c # rest)" by (rule E)
    ultimately have "length out + length (escape_loop (drop n (c # rest))) \<le> length (c # rest)"
      unfolding length_drop by linarith
    with False e show ?thesis by simp
  qed
qed simp

lemma hexescape_loop_le: "length (fst (hexescape_loop s)) \<le> length s"
proof (induction s rule: hexescape_loop.induct)
  case (2 c rest)
  let ?e = "if c = 92 \<and> rest \<noteq> [] \<and> (rest ! 0 = 120 \<or> rest ! 0 = 117) then hex_escape (c # rest) else None"
  show ?case
  proof (cases ?e)
    case None
    with 2(1) show ?thesis by (simp add: case_prod_beta)
  next
    case (Some a)
    obtain v n where a: "a = (v, n)" by force
    have "length (fst (hexescape_loop (drop n (c # rest)))) \<le> length (drop n (c # rest))"
      using 2(2) [OF Some a [symmetric]] .
    moreover have "hex_escape (c # rest) = Some (v, n)" using Some a by (auto split: if_splits)
    note hex_escape_le [OF this]
    ultimately have "length (appendRuneTo v) + length (fst (hexescape_loop (drop n (c # rest)))) \<le> length (c # rest)"
      unfolding length_drop by linarith
    with Some a show ?thesis by (simp add: case_prod_beta)
  qed
qed simp

lemma hexescape_loop_unchanged: "\<not> snd (hexescape_loop s) \<Longrightarrow> fst (hexescape_loop s) = s"
  by (induction s rule: hexescape_loop.induct) (auto simp: case_prod_beta split: option.splits)

lemma css_loop_le: "length (css_loop s) \<le> length s"
proof (induction s rule: css_loop.induct)
  case (3 c d rest)
  let ?rest = "case rest of e # es \<Rightarrow> if e = 10 then es else rest | [] \<Rightarrow> []"
  consider "c \<noteq> 92" | "c = 92" "d = 10" | "c = 92" "d = 13" | "c = 92" "d \<noteq> 10" "d \<noteq> 13" "t_unhex d = None"
    | h where "c = 92" "d \<noteq> 10" "d \<noteq> 13" "t_unhex d = Some h" by fastforce
  then show ?case
  proof cases
    case 3
    have "length ?rest \<le> length rest" by (auto split: list.splits)
    moreover have "length (css_loop ?rest) \<le> length ?rest" using "3.IH"(3) 3 by simp
    ultimately show ?thesis using 3 by simp
  next
    case 5
    obtain v more' where m: "css_digits 6 (d # rest) 0 = (v, more')" by force
    have "length more' \<le> length rest"
      using 5(4) m css_digits_le [of 5 rest "push_bit 4 0 OR h"] by (simp add: css_digits.simps(2))
    moreover have "length (css_loop (css_delim more')) \<le> length (css_delim more')"
      using "3.IH"(5) 5 m by simp
    ultimately have "length (css_loop (css_delim more')) \<le> length rest"
      using css_delim_le [of more'] by linarith
    with 5 m show ?thesis by (simp del: css_digits.simps)
  qed (use "3.IH" in simp_all)
qed simp_all

lemma comments_loop_le: "length (comments_loop s) \<le> length s"
proof (induction s rule: comments_loop.induct)
  case (3 c d rest)
  show ?case
  proof (cases "c = 47 \<and> d = 42")
    case True
    with "3.IH"(1) have "length (comments_loop (skip_comment rest)) \<le> length rest"
      using skip_comment_le [of rest] by simp
    with True show ?thesis by simp
  next
    case False
    with "3.IH"(2) show ?thesis by (simp only: comments_loop.simps if_False) simp
  qed
qed simp_all

lemma comment_chars_loop_le: "length (comment_chars_loop s) \<le> length s"
  by (induction s rule: comment_chars_loop.induct) auto

lemma cmd_step_le: "length (cmd_step c dst) \<le> Suc (length dst)"
  by (simp add: cmd_step_def cmd_append_def Let_def)

lemma cmd_fold_le: "length (fold cmd_step s dst) \<le> length dst + length s"
proof (induction s arbitrary: dst)
  case (Cons c s)
  show ?case using Cons [of "cmd_step c dst"] cmd_step_le [of c dst] by simp
qed simp

lemma base64_loop_le:
  "base64_loop s quad dst = (dst', quad') \<Longrightarrow> length quad \<le> 3 \<Longrightarrow>
   length dst' + length quad' \<le> length dst + length quad + length s \<and> length quad' \<le> 3"
proof (induction s quad dst rule: base64_loop.induct)
  case (2 c cs quad dst)
  show ?case
  proof (cases "unbase64 c")
    case None
    with 2 show ?thesis by simp
  next
    case (Some v)
    show ?thesis
    proof (cases "length quad = 3")
      case True
      with Some 2(2) [OF Some refl] 2(4) show ?thesis by (simp add: Let_def)
    next
      case False
      with Some 2(3) [OF Some refl] 2(4,5) show ?thesis by (simp add: Let_def)
    qed
  qed
qed simp

interpretation lowercase: shrinking lowercase_Apply
  by (rule shrinkingI) (simp_all add: lowercase_Apply_def)

interpretation remove_whitespace: shrinking removeWhitespace_Apply
  by (rule shrinkingI) (simp_all add: removeWhitespace_Apply_def)

interpretation compress_whitespace: shrinking compressWhitespace_Apply
  by (rule shrinkingI) (simp_all add: compressWhitespace_Apply_def compress_loop_le)

interpretation url_decode: shrinking urlDecode_Apply
  by (rule shrinkingI) (simp_all add: urlDecode_Apply_def url_loop_le)

interpretation escape_decode: shrinking escapeDecode_Apply
  by (rule shrinkingI) (simp_all add: escapeDecode_Apply_def escape_loop_le)

interpretation hex_escape_decode: shrinking hexEscapeDecode_Apply
  by (rule shrinkingI) (simp_all add: hexEscapeDecode_Apply_def case_prod_beta hexescape_loop_le)

interpretation css_decode: shrinking cssDecode_Apply
  by (rule shrinkingI) (simp_all add: cssDecode_Apply_def css_loop_le)

interpretation replace_comments: shrinking replaceComments_Apply
  by (rule shrinkingI) (simp_all add: replaceComments_Apply_def comments_loop_le)

interpretation remove_comments_char: shrinking removeCommentsChar_Apply
  by (rule shrinkingI) (simp_all add: removeCommentsChar_Apply_def comment_chars_loop_le)

interpretation cmd_line: shrinking cmdLine_Apply
proof (rule shrinkingI)
  show "snd (cmdLine_Apply s) \<or> fst (cmdLine_Apply s) = s" for s by (simp add: cmdLine_Apply_def Let_def)
  show "length (fst (cmdLine_Apply s)) \<le> length s" for s
    using cmd_fold_le [of s "[]"] by (auto simp: cmdLine_Apply_def Let_def)
qed

interpretation base64_decode: shrinking base64Decode_Apply
proof (rule shrinkingI)
  fix s
  obtain dst quad where l: "base64_loop s [] [] = (dst, quad)" by force
  show "snd (base64Decode_Apply s) \<or> fst (base64Decode_Apply s) = s" by (simp add: base64Decode_Apply_def l Let_def)
  show "length (fst (base64Decode_Apply s)) \<le> length s"
    using base64_loop_le [OF l] by (simp add: base64Decode_Apply_def l Let_def)
qed

interpretation normalize_path: shrinking normalizePath_Apply
proof (rule shrinkingI)
  fix s
  show "snd (normalizePath_Apply s) \<or> fst (normalizePath_Apply s) = s"
    by (simp add: normalizePath_Apply_normal)
  show "length (fst (normalizePath_Apply s)) \<le> length s"
    using normal_path_le [of s] by (cases "s = []") (simp_all add: normalizePath_Apply_normal)
qed

section \<open>NumericHost\<close>

lemma part_digits_ge: "part_digits b s v i = Some (v', j) \<Longrightarrow> i \<le> j"
  by (induction b s v i rule: part_digits.induct) (fastforce simp: Let_def split: if_splits)+

lemma parseHostPart_width: "parseHostPart s = Some (v, w, hex) \<Longrightarrow> 0 < w \<and> (hex \<longrightarrow> 3 \<le> length s)"
  by (auto simp: parseHostPart_def Let_def split: if_splits option.splits dest: part_digits_ge)

lemma host_parts_long:
  assumes "host_parts s parts sd sh = Some (parts', sd', sh')" "s \<noteq> []" "last s \<noteq> 46" "\<not> sd" "\<not> sh"
    "sd' \<or> sh'"
  shows "3 \<le> length s"
proof -
  obtain c cs where s: "s = c # cs" using assms(2) by (cases s) auto
  obtain v w hex where p: "parseHostPart s = Some (v, w, hex)" "length parts \<noteq> 4"
    using assms(1) by (auto simp: s split: if_splits option.splits)
  show ?thesis
  proof (cases hex)
    case True
    with parseHostPart_width [OF p(1)] show ?thesis by simp
  next
    case False
    have w: "0 < w" using parseHostPart_width [OF p(1)] by simp
    show ?thesis
    proof (cases "drop w s")
      case Nil
      then show ?thesis using assms p False by (simp add: s)
    next
      case (Cons d ds)
      then have "d = 46" using assms(1) p by (auto simp: s split: if_splits)
      have "ds \<noteq> []"
      proof
        assume "ds = []"
        then have "last s = 46" using Cons \<open>d = 46\<close> by (metis append_take_drop_id last_snoc)
        then show False using assms(3) by simp
      qed
      then have "2 \<le> length (drop w s)" using Cons by (cases ds) auto
      then show ?thesis using w by simp
    qed
  qed
qed

lemma parseNumericHost_long:
  assumes "parseNumericHost tok whole = Some addr"
  shows "3 \<le> length tok"
proof -
  have ne: "tok \<noteq> []" "last tok \<noteq> 46"
    using assms by (auto simp: parseNumericHost_def last_conv_nth split: if_splits)
  obtain parts sd sh where "host_parts tok [] False False = Some (parts, sd, sh)" "sd \<or> sh"
    using assms by (auto simp: parseNumericHost_def Let_def split: if_splits option.splits)
  from host_parts_long [OF this(1) ne _ _ this(2)] show ?thesis by simp
qed

lemma host_loop_bounds:
  assumes "host_loop src i dst changed = (dst', changed')" "i \<le> length src"
  shows "length dst' \<le> length dst + 5 * (length src - i)"
  using assms
proof (induction src i dst changed rule: host_loop.induct)
  case (1 src i dst changed)
  show ?case
  proof (cases "i < length src")
    case False
    with 1(4) show ?thesis by (subst (asm) host_loop.simps) simp
  next
    case lt: True
    show ?thesis
    proof (cases "hostTokenStart src i")
      case False
      have "host_loop src (i + 1) (dst @ [src ! i]) changed = (dst', changed')"
        using 1(4) lt False by (subst (asm) host_loop.simps) simp
      from 1(1) [OF lt False this] lt show ?thesis by simp
    next
      case True
      let ?fin = "hostTokenEnd src i"
      let ?tok = "take (?fin - i) (drop i src)"
      have fin: "i < ?fin" "?fin \<le> length src"
        using hostTokenEnd_progress [OF lt True] hostTokenEnd_le [of i src] lt by simp_all
      then have tok: "length ?tok = ?fin - i" by simp
      show ?thesis
      proof (cases "parseNumericHost ?tok (inHostPosition src i ?fin)")
        case None
        have "host_loop src ?fin (dst @ ?tok) changed = (dst', changed')"
          using 1(4) lt True None by (subst (asm) host_loop.simps) (simp add: Let_def)
        from 1(2) [OF lt _ refl refl None this fin(2)] True have "length dst' \<le> length (dst @ ?tok) + 5 * (length src - ?fin)"
          by simp
        then show ?thesis using tok fin unfolding length_append by linarith
      next
        case (Some addr)
        let ?dst = "appendDottedQuad dst addr"
        let ?c = "if \<not> equalBytes (drop (length dst) ?dst) ?tok then True else changed"
        have "host_loop src ?fin ?dst ?c = (dst', changed')"
          using 1(4) lt True Some by (subst (asm) host_loop.simps) (simp add: Let_def)
        from 1(3) [OF lt _ refl refl Some refl refl this fin(2)] True
        have "length dst' \<le> length ?dst + 5 * (length src - ?fin)" by simp
        moreover have "length ?dst \<le> length dst + 15"
          using quad_length [of addr] by (simp add: appendDottedQuad_eq)
        moreover have "3 \<le> ?fin - i" using parseNumericHost_long [OF Some] tok by simp
        ultimately show ?thesis using fin by linarith
      qed
    qed
  qed
qed

interpretation numeric_host: transform numericHost_Apply "\<lambda>n. n * 5 + 16"
proof
  fix s u
  obtain dst ch where l: "host_loop s 0 [] False = (dst, ch)" by force
  show "numericHost_Apply s = (u, False) \<Longrightarrow> u = s"
    by (auto simp: numericHost_Apply_def l split: if_splits)
  show "numericHost_Apply s = (u, True) \<Longrightarrow> length u \<le> length s * 5 + 16"
    using host_loop_bounds [OF l] by (auto simp: numericHost_Apply_def l split: if_splits)
qed

section \<open>Round trips\<close>

text \<open>Percent-encoding as RFC 3986 has it: \<open>esc\<close> chooses the bytes to escape, which must cover \<open>%\<close>
  and \<open>+\<close>; \<open>form\<close> writes a space as \<open>+\<close>.\<close>

definition hex_upper :: "byte \<Rightarrow> byte" where
  "hex_upper d = (if d < 10 then 48 + d else 55 + d)"

definition pct_byte :: "(byte \<Rightarrow> bool) \<Rightarrow> bool \<Rightarrow> byte \<Rightarrow> gobytes" where
  "pct_byte esc form c =
     (if form \<and> c = 32 then [43]
      else if esc c \<or> c = 37 \<or> c = 43 then [37, hex_upper (drop_bit 4 c), hex_upper (c AND 15)]
      else [c])"

definition pct_encode :: "(byte \<Rightarrow> bool) \<Rightarrow> bool \<Rightarrow> gobytes \<Rightarrow> gobytes" where
  "pct_encode esc form s = concat (map (pct_byte esc form) s)"

lemma byte_all: "(\<forall>c :: byte. P c) \<longleftrightarrow> (\<forall>n \<in> set [0..<256]. P (of_nat n))"
proof
  assume P: "\<forall>n \<in> set [0..<256]. P (of_nat n)"
  show "\<forall>c. P c"
  proof
    fix c :: byte
    have "unat c \<in> set [0..<256]" using unat_byte_less [of c] by simp
    with P have "P (of_nat (unat c))" by blast
    then show "P c" by simp
  qed
qed blast

lemma t_unhex_upper: "d < 16 \<Longrightarrow> t_unhex (hex_upper d) = Some d"
proof -
  have "\<forall>n \<in> set [0..<16]. t_unhex (hex_upper (of_nat n)) = Some (of_nat n)" by code_simp
  moreover assume "d < 16"
  then have "unat d \<in> set [0..<16]" by (simp add: byte_simps)
  ultimately have "t_unhex (hex_upper (of_nat (unat d))) = Some (of_nat (unat d))" by blast
  then show ?thesis by simp
qed

lemma nibbles:
  "(drop_bit 4 c :: byte) < 16" "(c AND 15 :: byte) < 16" "push_bit 4 (drop_bit 4 c) OR (c AND 15) = (c :: byte)"
proof -
  have "\<forall>n \<in> set [0..<256]. (drop_bit 4 (of_nat n) :: byte) < 16 \<and> (of_nat n AND 15 :: byte) < 16 \<and>
    push_bit 4 (drop_bit 4 (of_nat n)) OR (of_nat n AND 15) = (of_nat n :: byte)" by code_simp
  then have "\<forall>c. (drop_bit 4 c :: byte) < 16 \<and> (c AND 15 :: byte) < 16 \<and>
    push_bit 4 (drop_bit 4 c) OR (c AND 15) = (c :: byte)" by (simp only: byte_all)
  then show "(drop_bit 4 c :: byte) < 16" "(c AND 15 :: byte) < 16"
    "push_bit 4 (drop_bit 4 c) OR (c AND 15) = (c :: byte)" by simp_all
qed

lemma url_loop_pct: "url_loop (pct_encode esc form s) = s"
proof (induction s)
  case (Cons c s)
  have "url_loop (pct_byte esc form c @ pct_encode esc form s) = c # url_loop (pct_encode esc form s)"
    using nibbles [of c] by (simp add: pct_byte_def t_unhex_upper)
  with Cons show ?case by (simp add: pct_encode_def)
qed (simp add: pct_encode_def)

text \<open>Base64: the digits of a value, three bytes to four; padding and line breaks are not digits.\<close>

definition b64_char :: "byte \<Rightarrow> byte" where
  "b64_char v =
     (if v < 26 then 65 + v else if v < 52 then 71 + v else if v < 62 then v - 4
      else if v = 62 then 43 else 47)"

fun sextets :: "gobytes \<Rightarrow> byte list" where
  "sextets [] = []"
| "sextets [a] = [drop_bit 2 a, push_bit 4 (take_bit 2 a)]"
| "sextets [a, b] = [drop_bit 2 a, push_bit 4 (take_bit 2 a) OR drop_bit 4 b, push_bit 2 (take_bit 4 b)]"
| "sextets (a # b # c # rest) =
     [drop_bit 2 a, push_bit 4 (take_bit 2 a) OR drop_bit 4 b,
      push_bit 2 (take_bit 4 b) OR drop_bit 6 c, take_bit 6 c] @ sextets rest"

definition b64_digits :: "gobytes \<Rightarrow> gobytes" where
  "b64_digits s = map b64_char (sextets s)"

lemma unbase64_char: "v < 64 \<Longrightarrow> unbase64 (b64_char v) = Some v"
proof -
  have "\<forall>n \<in> set [0..<64]. unbase64 (b64_char (of_nat n)) = Some (of_nat n)" by code_simp
  moreover assume "v < 64"
  then have "unat v \<in> set [0..<64]" by (simp add: byte_simps)
  ultimately have "unbase64 (b64_char (of_nat (unat v))) = Some (of_nat (unat v))" by blast
  then show ?thesis by simp
qed

lemma less8: "n < 8 \<longleftrightarrow> n \<in> {0, 1, 2, 3, 4, 5, 6, 7 :: nat}"
  by auto

lemma byte_eqI: "(\<And>n. n \<in> {0, 1, 2, 3, 4, 5, 6, 7} \<Longrightarrow> bit x n = bit y n) \<Longrightarrow> x = (y :: byte)"
  by (rule bit_word_eqI) (simp add: less8)

lemma byte_top_clear:
  assumes "\<not> bit x 6" "\<not> bit x 7"
  shows "(x :: byte) < 64"
proof -
  have "take_bit 6 x = x" using assms by (intro byte_eqI) (auto simp: bit_take_bit_iff)
  then have "take_bit 6 (unat x) = unat x" by (metis unsigned_take_bit_eq)
  then have "unat x < 2 ^ 6" by (simp only: take_bit_nat_eq_self_iff)
  then show ?thesis by (simp add: byte_simps)
qed

lemma byte_no_bit [simp]: "8 \<le> n \<Longrightarrow> \<not> bit (x :: byte) n"
  using bit_imp_le_length [of x n] by auto

lemma sextets_less: "list_all (\<lambda>v. v < 64) (sextets s)"
  by (induction s rule: sextets.induct) (simp_all add: byte_top_clear bit_simps)

lemma regroup:
  "push_bit 2 (drop_bit 2 a) OR drop_bit 4 (push_bit 4 (take_bit 2 a)) = (a :: byte)"
  "push_bit 2 (drop_bit 2 a) OR drop_bit 4 (push_bit 4 (take_bit 2 a) OR drop_bit 4 b) = (a :: byte)"
  "push_bit 4 (push_bit 4 (take_bit 2 a) OR drop_bit 4 b) OR drop_bit 2 (push_bit 2 (take_bit 4 b)) = (b :: byte)"
  "push_bit 4 (push_bit 4 (take_bit 2 a) OR drop_bit 4 b) OR drop_bit 2 (push_bit 2 (take_bit 4 b) OR drop_bit 6 c) = (b :: byte)"
  "push_bit 4 (drop_bit 4 b) OR drop_bit 2 (push_bit 2 (take_bit 4 b)) = (b :: byte)"
  "push_bit 6 (push_bit 2 (take_bit 4 b) OR drop_bit 6 c) OR take_bit 6 c = (c :: byte)"
  "push_bit 6 (drop_bit 6 c) OR take_bit 6 c = (c :: byte)"
  by (rule byte_eqI, unfold insert_iff empty_iff, elim disjE; simp add: bit_simps)+

lemma base64_loop_skip: "base64_loop s quad dst = base64_loop (filter (\<lambda>c. unbase64 c \<noteq> None) s) quad dst"
  by (induction s quad dst rule: base64_loop.induct) (auto simp: Let_def split: option.splits)

lemma base64_loop_digits:
  "base64_loop (b64_digits s) [] dst = (dst', quad) \<Longrightarrow>
   (if length quad = 2 then dst' @ [push_bit 2 (quad ! 0) OR drop_bit 4 (quad ! 1)]
    else if length quad = 3 then
      dst' @ [push_bit 2 (quad ! 0) OR drop_bit 4 (quad ! 1), push_bit 4 (quad ! 1) OR drop_bit 2 (quad ! 2)]
    else dst') = dst @ s"
proof (induction s arbitrary: dst rule: sextets.induct)
  case (2 a)
  with sextets_less [of "[a]"] show ?case by (auto simp: b64_digits_def unbase64_char regroup)
next
  case (3 a b)
  with sextets_less [of "[a, b]"] show ?case by (auto simp: b64_digits_def unbase64_char regroup)
next
  case (4 a b c rest)
  have "base64_loop (b64_digits (a # b # c # rest)) [] dst = base64_loop (b64_digits rest) [] (dst @ [a, b, c])"
    using sextets_less [of "a # b # c # rest"] by (simp add: b64_digits_def unbase64_char regroup)
  with 4 show ?case by simp
qed (simp add: b64_digits_def)

section \<open>Normal forms\<close>

text \<open>What CmdLine never writes: a byte it drops or folds, a second space in a row, a space before
  \<open>/\<close> or \<open>(\<close>, or a space at the start.\<close>

definition cmd_plain :: "byte \<Rightarrow> bool" where
  "cmd_plain c \<longleftrightarrow> c \<notin> set [92, 34, 39, 94, 44, 59, 9, 13, 10, 11, 12] \<and> \<not> (65 \<le> c \<and> c \<le> 90)"

fun cmd_normal :: "byte \<Rightarrow> gobytes \<Rightarrow> bool" where
  "cmd_normal p [] = True"
| "cmd_normal p (c # cs) \<longleftrightarrow> cmd_plain c \<and> \<not> (p = 32 \<and> c \<in> set [32, 47, 40]) \<and> cmd_normal c cs"

lemma cmd_normal_append:
  "cmd_normal p (xs @ ys) \<longleftrightarrow> cmd_normal p xs \<and> cmd_normal (if xs = [] then p else last xs) ys"
  by (induction p xs rule: cmd_normal.induct) auto

text \<open>The start of the value counts as a space, except that \<open>/\<close> and \<open>(\<close> may stand there.\<close>

definition cmd_clean :: "gobytes \<Rightarrow> bool" where
  "cmd_clean dst \<longleftrightarrow> dst = [] \<or> hd dst \<noteq> 32 \<and> cmd_normal 0 dst"

definition cmd_normal_form :: "gobytes \<Rightarrow> bool" where
  "cmd_normal_form s \<longleftrightarrow> cmd_clean s \<and> (s = [] \<or> last s \<noteq> 32)"

lemma cmd_fold_plain: "cmd_plain (if 65 \<le> c \<and> c \<le> 90 then c + (97 - 65) else c)"
  if "c \<notin> set [92, 34, 39, 94, 44, 59, 9, 13, 10, 11, 12]" for c :: byte
proof (cases "65 \<le> c \<and> c \<le> 90")
  case True
  then have "unat (c + 32) = unat c + 32" by (simp add: byte_simps unat_word_ariths)
  then have "97 \<le> unat (c + 32)" using True by (simp add: byte_simps)
  moreover have "cmd_plain d" if "97 \<le> unat d" for d using that by (auto simp: cmd_plain_def byte_simps)
  ultimately show ?thesis using True by simp
next
  case False
  then have "(if 65 \<le> c \<and> c \<le> 90 then c + (97 - 65) else c) = c" by (simp only: if_False)
  with that False show ?thesis by (simp only: cmd_plain_def) simp
qed

lemma cmd_append_clean:
  assumes d: "cmd_clean dst" and c: "cmd_plain c"
  shows "cmd_clean (cmd_append c dst)"
proof (cases dst rule: rev_cases)
  case Nil
  with c show ?thesis by (simp add: cmd_append_def cmd_clean_def)
next
  case (snoc ds l)
  have n: "cmd_normal 0 (ds @ [l])" "hd (ds @ [l]) \<noteq> 32" using d snoc by (simp_all add: cmd_clean_def)
  consider "c = 32 \<and> l = 32" | (pop) "c = 47 \<or> c = 40" "l = 32" | (push) "\<not> (l = 32 \<and> c \<in> set [32, 47, 40])"
    by auto
  then show ?thesis
  proof cases
    case 1
    with d snoc show ?thesis by (simp add: cmd_append_def)
  next
    case pop
    then have ds: "ds \<noteq> []" "last ds \<noteq> 32"
      using n by (cases ds rule: rev_cases; auto simp: cmd_normal_append)+
    have "cmd_append c dst = ds @ [c]" using pop snoc by (auto simp: cmd_append_def)
    with n ds c pop show ?thesis by (auto simp: cmd_clean_def cmd_normal_append hd_append)
  next
    case push
    then have "cmd_append c dst = dst @ [c]" using snoc by (auto simp: cmd_append_def)
    with n c push snoc show ?thesis by (auto simp: cmd_clean_def cmd_normal_append hd_append)
  qed
qed

lemma cmd_fold_clean: "cmd_clean dst \<Longrightarrow> cmd_clean (fold cmd_step s dst)"
proof (induction s arbitrary: dst)
  case (Cons c s)
  have "cmd_clean (cmd_step c dst)"
  proof (cases "c \<in> set [92, 34, 39, 94]")
    case False
    let ?d = "if c = 44 \<or> c = 59 then 32 else if c = 9 \<or> c = 13 \<or> c = 10 \<or> c = 11 \<or> c = 12 then 32
      else if 65 \<le> c \<and> c \<le> 90 then c + (97 - 65) else c"
    have "cmd_plain 32" by (simp add: cmd_plain_def byte_simps)
    then have "cmd_plain ?d" using cmd_fold_plain [of c] False by (simp del: not_less)
    with cmd_append_clean [OF Cons(2)] False show ?thesis by (auto simp: cmd_step_def)
  qed (use Cons in \<open>auto simp: cmd_step_def\<close>)
  with Cons show ?case by simp
qed simp

lemma cmd_clean_fixed: "cmd_normal p s \<Longrightarrow> s = [] \<or> dst \<noteq> [] \<and> last dst = p \<or> dst = [] \<and> hd s \<noteq> 32 \<Longrightarrow>
  fold cmd_step s dst = dst @ s"
proof (induction s arbitrary: p dst)
  case (Cons c s)
  then have c: "cmd_plain c" "\<not> (p = 32 \<and> c \<in> set [32, 47, 40])" "cmd_normal c s" by auto
  have step: "cmd_step c dst = cmd_append c dst" using c(1) by (auto simp: cmd_step_def cmd_plain_def)
  have "cmd_append c dst = dst @ [c]"
    using c(2) Cons.prems(2) by (auto simp: cmd_append_def last_conv_nth)
  with step Cons.IH [OF c(3), of "dst @ [c]"] show ?case by simp
qed simp

lemmas outputs_unchanged =
  lowercase.output_unchanged remove_whitespace.output_unchanged compress_whitespace.output_unchanged
  url_decode.output_unchanged normalize_path.output_unchanged escape_decode.output_unchanged
  css_decode.output_unchanged cmd_line.output_unchanged replace_comments.output_unchanged
  remove_comments_char.output_unchanged base64_decode.output_unchanged hex_escape_decode.output_unchanged

lemmas outputs_shrink =
  lowercase.never_grows remove_whitespace.never_grows compress_whitespace.never_grows
  url_decode.never_grows normalize_path.never_grows escape_decode.never_grows css_decode.never_grows
  cmd_line.never_grows replace_comments.never_grows remove_comments_char.never_grows
  base64_decode.never_grows hex_escape_decode.never_grows

section \<open>Properties\<close>

text \<open>C26. Every built-in transform keeps the contract of the interface: reporting no change it hands
  back its input, its output is within the bound it declares, and only NumericHost can make a value
  longer.\<close>

theorem builtin_transforms_bounded:
  "(snd (t_Apply t s) \<or> fst (t_Apply t s) = s) \<and>
   length (fst (t_Apply t s)) \<le> t_MaxOutputLen t (length s) \<and>
   (t = NumericHost \<or> length (fst (t_Apply t s)) \<le> length s)"
proof (cases "t = NumericHost")
  case True
  with numeric_host.output_unchanged [of s] numeric_host.output_bounded [of s] show ?thesis by simp
next
  case False
  then have "snd (t_Apply t s) \<or> fst (t_Apply t s) = s"
    using outputs_unchanged [of s] by (cases t) (simp_all only: t_Apply.simps simp_thms)
  moreover have "length (fst (t_Apply t s)) \<le> length s"
    using False outputs_shrink [of s] by (cases t) (simp_all only: t_Apply.simps simp_thms)
  moreover have "length s \<le> t_MaxOutputLen t (length s)" by (cases t) simp_all
  ultimately show ?thesis using le_trans by blast
qed

text \<open>C27. CmdLine reaches a normal form in one pass: applied to its own output it changes nothing, and
  that output holds no quote, caret, backslash, separator, control whitespace or capital, no run of
  spaces, no leading or trailing space and no space before \<open>/\<close> or \<open>(\<close>.\<close>

theorem CmdLine_normal_form:
  "cmdLine_Apply (fst (cmdLine_Apply s)) = (fst (cmdLine_Apply s), False) \<and>
   cmd_normal_form (fst (cmdLine_Apply s))"
proof -
  let ?d = "fold cmd_step s []"
  let ?o = "if 0 < length ?d \<and> ?d ! (length ?d - 1) = 32 then butlast ?d else ?d"
  have d: "cmd_clean ?d" by (rule cmd_fold_clean) (simp add: cmd_clean_def)
  have o: "fst (cmdLine_Apply s) = ?o" by (auto simp: cmdLine_Apply_def Let_def butlast_conv_take)
  have "cmd_clean ?o \<and> (?o = [] \<or> last ?o \<noteq> 32)"
  proof (cases ?d rule: rev_cases)
    case (snoc ds l)
    show ?thesis
    proof (cases "l = 32")
      case True
      with d snoc have "ds = [] \<or> last ds \<noteq> 32" "cmd_clean ds"
        by (auto simp: cmd_clean_def cmd_normal_append hd_append split: if_splits)
      with snoc True show ?thesis by simp
    next
      case False
      with d snoc show ?thesis by simp
    qed
  qed (simp add: cmd_clean_def)
  then have o': "cmd_clean (fst (cmdLine_Apply s))"
    "fst (cmdLine_Apply s) = [] \<or> last (fst (cmdLine_Apply s)) \<noteq> 32" by (simp_all only: o)
  have "fold cmd_step t [] = t" if "cmd_clean t" for t
    using that cmd_clean_fixed [of 0 t "[]"] by (auto simp: cmd_clean_def)
  from this [OF o'(1)] o'(2) have "cmdLine_Apply (fst (cmdLine_Apply s)) = (fst (cmdLine_Apply s), False)"
    unfolding cmdLine_Apply_def [of "fst (cmdLine_Apply s)"] Let_def by (auto simp: last_conv_nth)
  with o' show ?thesis unfolding cmd_normal_form_def by blast
qed

text \<open>C28. Percent-decoding undoes percent-encoding, whichever bytes beyond \<open>%\<close> and \<open>+\<close> the client
  chose to escape and however it writes a space. The encoder writes upper-case hexadecimal digits.\<close>

theorem URLDecode_roundtrip: "fst (urlDecode_Apply (pct_encode esc form s)) = s"
proof (cases "list_ex (\<lambda>c. c = 37 \<or> c = 43) (pct_encode esc form s)")
  case False
  have "url_loop t = t" if "\<not> list_ex (\<lambda>c. c = 37 \<or> c = 43) t" for t
    using that by (induction t rule: url_loop.induct) auto
  with False url_loop_pct [of esc form s] show ?thesis by (simp add: urlDecode_Apply_def)
qed (simp add: urlDecode_Apply_def url_loop_pct)

text \<open>C29. Base64-decoding a text whose base64 digits are the encoding of a value gives the value: with
  or without padding, and with any other bytes, such as line breaks, in between.\<close>

theorem Base64Decode_roundtrip:
  assumes "filter (\<lambda>c. unbase64 c \<noteq> None) t = b64_digits s"
  shows "fst (base64Decode_Apply t) = s"
proof -
  obtain dst quad where l: "base64_loop t [] [] = (dst, quad)" by force
  with base64_loop_skip [of t] assms have "base64_loop (b64_digits s) [] [] = (dst, quad)" by simp
  from base64_loop_digits [OF this] show ?thesis by (simp add: base64Decode_Apply_def l Let_def)
qed

lemma Base64Decode_roundtrip_witness:
  "fst (base64Decode_Apply (ascii ''aGVs'' @ [13, 10] @ ascii ''bG8='')) = ascii ''hello''"
  by (rule Base64Decode_roundtrip) code_simp

end
