(* ===== verification/EvalProps.thy ===== *)
theory EvalProps
  imports EngineCorrect Ops TransformsCorrect
begin

text \<open>
  What an evaluation of a compiled ruleset promises: it finds every match, and nothing else. The
  witnesses use the built-in transforms, operators and actions as one interface record,
  \<open>builtin\<close>; for these the hypotheses on chain keys and literals are theorems. No property asks
  every operator of a ruleset to keep the literals contract: what the prefilter hides of a rule that
  breaks it is part of the reference (\<open>rule_reached\<close>).
\<close>

section \<open>Firing\<close>

text \<open>A rule fires on a value in a reading: it targets the value, and its operator hits what its chain
  makes of the reading.\<close>

definition rule_fires ::
  "('t, 'o, 'a) iface \<Rightarrow> eval_ctx \<Rightarrow> ('t, 'o, 'a) rule \<Rightarrow> eval_value \<Rightarrow> nat \<times> reading \<Rightarrow> bool"
where
  "rule_fires I c r v = (\<lambda>(i, reading).
     targetMatches (Targets r) v \<and>
     snd (oEval I (rule_op r) (value_ctx c v) (fst (chain_value I (rule_chain r) (rd_Bytes reading)))))"

text \<open>The engine runs a rule that declares required literals in every reading in which one of them
  occurs, any other rule in the verbatim reading only.\<close>

definition rule_reached :: "('t, 'o, 'a) iface \<Rightarrow> ('t, 'o, 'a) rule \<Rightarrow> nat \<times> reading \<Rightarrow> bool" where
  "rule_reached I r = (\<lambda>(i, reading).
     if prefilterable I r then nominates I r (fst (chain_value I (rule_chain r) (rd_Bytes reading))) else i = 0)"

lemma required_reached:
  assumes "rule_fires I c r v rd" "if prefilterable I r then literals_required I (rule_op r) else fst rd = 0"
  shows "rule_reached I r rd"
  using assms literals_nominate [of I r] by (cases rd) (auto simp: rule_fires_def rule_reached_def split: if_splits)

definition value_readings :: "eval_value \<Rightarrow> (nat \<times> reading) list" where
  "value_readings v = enumerate 0 (rset_readings (Set_Build (v_bytes v) (Detect (v_bytes v))))"

lemma rule_hits_set:
  "(\<exists>h. h \<in> set (rule_hits I score c v k d cr)) \<longleftrightarrow>
     targetMatches (Targets (cr_Rule cr)) v \<and> snd (oEval I (rule_op (cr_Rule cr)) (value_ctx c v) (fst d))"
proof -
  have "cr_Actions score cr \<noteq> []" by (simp add: cr_Actions_def effectiveActions_def)
  then obtain a as where a: "cr_Actions score cr = a # as" by (cases "cr_Actions score cr") auto
  obtain data tr where d: "d = (data, tr)" by force
  obtain m isHit where e: "oEval I (rule_op (cr_Rule cr)) (value_ctx c v) data = (m, isHit)" by force
  show ?thesis by (cases isHit) (auto simp: rule_hits_def d e a)
qed

lemma rule_hits_fields:
  "h \<in> set (rule_hits I score c v k d cr) \<Longrightarrow>
     h_Rule h = cr \<and> h_Target h = v_Target v \<and> h_Key h = v_Key v \<and> h_Reading h = k"
  by (cases d) (auto simp: rule_hits_def split: prod.splits if_splits)

lemma phase_hits_iff:
  "h \<in> set (phase_hits I score rs phase vs e) \<longleftrightarrow>
     (\<exists>v \<in> set vs. \<not> v_Inert v \<and> (\<exists>(i, rd) \<in> set (value_readings v). \<exists>g \<in> set (Groups rs phase).
        \<exists>cr \<in> set (g_Rules g). let d = chain_value I (g_Transforms g) (rd_Bytes rd) in
          (if cr_unconditional cr then i = 0 else nominates I (cr_Rule cr) (fst d)) \<and>
          h \<in> set (rule_hits I score (request_ctx vs (sizeFor rs e)) v (rd_Class rd) d cr)))"
proof -
  have grp: "h \<in> set (group_hits I score c v i rd g) \<longleftrightarrow>
      (\<exists>cr \<in> set (g_Rules g). let d = chain_value I (g_Transforms g) (rd_Bytes rd) in
         (if cr_unconditional cr then i = 0 else nominates I (cr_Rule cr) (fst d)) \<and>
         h \<in> set (rule_hits I score c v (rd_Class rd) d cr))"
    for c v i rd g
    by (cases "i = 0") (auto simp: group_hits_def Let_def)
  have val: "h \<in> set (value_hits I score c groups v) \<longleftrightarrow>
      \<not> v_Inert v \<and> (\<exists>(i, rd) \<in> set (value_readings v). \<exists>g \<in> set groups. h \<in> set (group_hits I score c v i rd g))"
    for c groups v
    by (auto simp: value_hits_def value_readings_def reading_hits_def)
  have "h \<in> set (phase_hits I score rs phase vs e) \<longleftrightarrow>
      (\<exists>v \<in> set vs. h \<in> set (value_hits I score (request_ctx vs (sizeFor rs e)) (Groups rs phase) v))"
    by (simp add: phase_hits_def)
  then show ?thesis by (simp only: val grp)
qed

text \<open>A rule whose chain is its group's hits in a phase exactly where it fires and is reached.\<close>

lemma reached_hits:
  assumes "g \<in> set (Groups rs phase)" "cr \<in> set (g_Rules g)" "g_Transforms g = rule_chain (cr_Rule cr)"
    and "cr_unconditional cr \<longleftrightarrow> \<not> prefilterable I (cr_Rule cr)" "v \<in> set vs" "\<not> v_Inert v"
    and "rd \<in> set (value_readings v)" "rule_reached I (cr_Rule cr) rd"
    and "rule_fires I (request_ctx vs (sizeFor rs e)) (cr_Rule cr) v rd"
  obtains h where "h \<in> set (phase_hits I score rs phase vs e)" "h_Rule h = cr" "h_Target h = v_Target v" "h_Key h = v_Key v"
proof -
  obtain i b where rd: "rd = (i, b)" by force
  let ?d = "chain_value I (g_Transforms g) (rd_Bytes b)" and ?c = "request_ctx vs (sizeFor rs e)"
  obtain h where h: "h \<in> set (rule_hits I score ?c v (rd_Class b) ?d cr)"
    using rule_hits_set [of I score ?c v "rd_Class b" ?d cr] assms(3,9) by (auto simp: rule_fires_def rd)
  have r: "if cr_unconditional cr then i = 0 else nominates I (cr_Rule cr) (fst ?d)"
    using assms(3,4,8) by (simp add: rule_reached_def rd)
  have "h \<in> set (phase_hits I score rs phase vs e)"
    unfolding phase_hits_iff Let_def using assms(1,2,5-7) r h rd by blast
  with rule_hits_fields [OF h] that show thesis by blast
qed

text \<open>Every rule of a phase is in one of its groups, and no other rule.\<close>

lemma compiled_rules:
  assumes "\<forall>p j. map_order_ok (ords p j)" "Compile I ords rules uo = Some (Inr rs)" "phase_Valid phase"
  shows "(\<exists>g \<in> set (Groups rs phase). \<exists>cr \<in> set (g_Rules g). cr_Rule cr = r) \<longleftrightarrow> r \<in> set rules \<and> Phase r = phase"
proof -
  have C: "length (rs_phases rs) = 6" "\<forall>pp \<in> set (rs_phases rs). phase_ok I pp"
    "map cr_Rule (PhaseRules rs phase) = sort_key ID (filter (\<lambda>r. Phase r = phase) rules)"
    using Compile_spec [OF assms(1), of I rules uo] assms(2,3) by auto
  let ?pp = "rs_phases rs ! unat phase"
  have "phase_ok I ?pp" using C(1,2) phase_Valid_unat [OF assms(3)] by simp
  then have "mset (concat (map g_Rules (pp_groups ?pp))) = mset (pp_rules ?pp)" by (simp add: phase_ok_def)
  then have "set (concat (map g_Rules (pp_groups ?pp))) = set (pp_rules ?pp)" by (rule mset_eq_setD)
  then have "cr_Rule ` set (concat (map g_Rules (Groups rs phase))) = cr_Rule ` set (PhaseRules rs phase)"
    using assms(3) by (simp add: Groups_def PhaseRules_def)
  also have "\<dots> = {r \<in> set rules. Phase r = phase}" using arg_cong [OF C(3), of set] by auto
  finally have "r \<in> cr_Rule ` set (concat (map g_Rules (Groups rs phase))) \<longleftrightarrow> r \<in> set rules \<and> Phase r = phase"
    by simp
  moreover have "r \<in> cr_Rule ` set (concat (map g_Rules (Groups rs phase))) \<longleftrightarrow>
      (\<exists>g \<in> set (Groups rs phase). \<exists>cr \<in> set (g_Rules g). cr_Rule cr = r)"
    by auto
  ultimately show ?thesis by simp
qed

lemma group_unconditional:
  assumes "\<forall>p j. map_order_ok (ords p j)" "Compile I ords rules uo = Some (Inr rs)"
    and "g \<in> set (Groups rs phase)" "cr \<in> set (g_Rules g)"
  shows "cr_unconditional cr \<longleftrightarrow> \<not> prefilterable I (cr_Rule cr)"
  using compiled_group(2) [OF assms(1-3)] assms(4) by (simp add: group_ok_def)

text \<open>The hits an evaluation added.\<close>

definition new_hits ::
  "('t, 'o, 'a) eval_state \<Rightarrow> ('t, 'o, 'a) eval_state \<Rightarrow> ('t, 'o, 'a) hit list"
where
  "new_hits s s' = drop (length (r_Hits (es_out s))) (r_Hits (es_out s'))"

lemma new_hits_recorded:
  assumes "uncounted (es_out s') = uncounted (record_hits hs (es_out s))"
  shows "new_hits s s' = upto_terminal hs" "r_Terminal (es_out s') \<longleftrightarrow> r_Terminal (es_out s) \<or> (\<exists>h \<in> set hs. terminal_hit h)"
proof -
  have "r_Hits (es_out s') = r_Hits (record_hits hs (es_out s))"
    using arg_cong [OF assms, of r_Hits] by simp
  then show "new_hits s s' = upto_terminal hs" by (simp add: new_hits_def frame_simps)
  have "r_Terminal (es_out s') = r_Terminal (record_hits hs (es_out s))"
    using arg_cong [OF assms, of r_Terminal] by simp
  then show "r_Terminal (es_out s') \<longleftrightarrow> r_Terminal (es_out s) \<or> (\<exists>h \<in> set hs. terminal_hit h)"
    by (simp add: frame_simps)
qed

lemma upto_terminal_subset: "set (upto_terminal hs) \<subseteq> set hs"
  by (induction hs) auto

section \<open>The built-in vocabulary\<close>

definition builtin :: "(builtin_transform, builtin_op, fixed_action) iface" where
  "builtin = \<lparr>tName = t_Name, tApply = t_Apply, tMaxOutputLen = t_MaxOutputLen,
     oName = op_Name, oEval = op_Eval, oLiterals = op_Literals, oCost = op_Cost,
     aName = fa_name, aRun = fa_Run\<rparr>"

lemma builtin_simps [simp]:
  "tName builtin = t_Name" "tApply builtin = t_Apply" "oEval builtin = op_Eval"
  "oLiterals builtin = op_Literals" "oName builtin = op_Name" "oCost builtin = op_Cost" "aRun builtin = fa_Run"
  by (simp_all add: builtin_def)

text \<open>Names of built-in transforms hold no separator, so different chains have different keys.\<close>

lemma t_Name_inj: "t_Name a = t_Name b \<longleftrightarrow> a = b"
proof -
  let ?L = "[Lowercase, RemoveWhitespace, CompressWhitespace, URLDecode, NormalizePath, EscapeDecode,
    CSSDecode, CmdLine, ReplaceComments, RemoveCommentsChar, Base64Decode, HexEscapeDecode, NumericHost]"
  have "\<forall>a \<in> set ?L. \<forall>b \<in> set ?L. (t_Name a = t_Name b) = (a = b)" by code_simp
  moreover have "x \<in> set ?L" for x by (cases x) simp_all
  ultimately show ?thesis by blast
qed

lemma t_Name_plain: "124 \<notin> set (t_Name a)" "t_Name a \<noteq> []"
  by (cases a; simp)+

lemma append_sep:
  assumes "xs @ 124 # ys = xs' @ 124 # ys'" "124 \<notin> set xs" "124 \<notin> set xs'"
  shows "xs = xs' \<and> ys = (ys' :: gobytes)"
proof -
  have t: "takeWhile (\<lambda>c. c \<noteq> 124) (zs @ 124 # ws) = zs" if "124 \<notin> set zs" for zs ws :: gobytes
    using that by (induction zs) auto
  from t [OF assms(2), of ys] t [OF assms(3), of ys'] assms(1) have "xs = xs'" by simp
  with assms(1) show ?thesis by simp
qed

lemma chainKey_builtin_cases:
  "chainKey builtin ys = [] \<longleftrightarrow> ys = []"
  "124 \<in> set (chainKey builtin ys) \<longleftrightarrow> 2 \<le> length ys"
  using t_Name_plain by (cases ys rule: remdups_adj.cases; auto)+

lemma builtin_chainKey: "chainKey builtin xs = chainKey builtin ys \<Longrightarrow> xs = ys"
proof (induction xs arbitrary: ys rule: induct_list012)
  case 1
  then have "chainKey builtin ys = []" by (simp only: chainKey.simps)
  then show ?case by (simp only: chainKey_builtin_cases(1))
next
  case (2 x)
  have "124 \<notin> set (chainKey builtin ys)" "chainKey builtin ys \<noteq> []"
    using t_Name_plain [of x] by (simp_all add: 2 [symmetric])
  then obtain y where "ys = [y]"
    unfolding chainKey_builtin_cases by (cases ys; cases "tl ys") auto
  with 2 show ?case by (simp add: t_Name_inj)
next
  case (3 x y zs)
  have "124 \<in> set (chainKey builtin ys)" by (simp add: 3(3) [symmetric])
  then obtain u w ws where ys: "ys = u # w # ws"
    unfolding chainKey_builtin_cases by (cases ys; cases "tl ys") auto
  have "t_Name x @ 124 # chainKey builtin (y # zs) = t_Name u @ 124 # chainKey builtin (w # ws)"
    using 3(3) by (simp add: ys)
  from append_sep [OF this t_Name_plain(1) t_Name_plain(1)]
  have "x = u" "chainKey builtin (y # zs) = chainKey builtin (w # ws)" by (simp_all add: t_Name_inj)
  with 3(2) show ?case by (simp add: ys)
qed

lemma builtin_chains_distinct: "chains_distinct builtin rules"
  by (auto simp: chains_distinct_def dest: builtin_chainKey)

text \<open>The operators the constructors of rules/op build, \<open>Func\<close> without declared literals.\<close>

inductive built_op :: "builtin_op \<Rightarrow> bool" where
  "built_op (ContainsAnyOp (Contains n))"
| "built_op (ContainsAnyOp (ContainsAny ns))"
| "built_op (EqualsOp (Equals w))"
| "built_op (HasPrefixOp (HasPrefix p))"
| "built_op (FuncOp (Func name fn))"

lemma built_literals_required: "built_op o1 \<Longrightarrow> literals_required builtin o1"
proof -
  have c: "literals_required builtin o1" if "operator_contract (op_Eval o1) (op_Literals o1)" for o1
  proof -
    have "\<exists>l \<in> set ls. literal_occurs l d" if "op_Literals o1 = (ls, True)" "snd (op_Eval o1 c d)" for ls c d
      using operator_contract.required [OF \<open>operator_contract (op_Eval o1) (op_Literals o1)\<close> that(1)] that(2)
      by (metis prod.collapse)
    then show ?thesis by (auto simp: literals_required_def)
  qed
  show "built_op o1 \<Longrightarrow> literals_required builtin o1"
    by (rule c, erule built_op.cases)
      (simp_all add: contains.operator_contract_axioms contains_any.operator_contract_axioms
        equals.operator_contract_axioms has_prefix.operator_contract_axioms func_plain.operator_contract_axioms)
qed

section \<open>An example\<close>

text \<open>One rule that looks for \<open>select\<close> in URL-decoded arguments, and a request that sends it escaped.\<close>

definition demo_rule :: "(builtin_transform, builtin_op, fixed_action) rule" where
  "demo_rule = \<lparr>DerivedFrom = 0, ID = 1000001, Phase = PhaseRequestHeaders,
     Targets = [\<lparr>Kind = TargetArgs, Name = []\<rparr>], Transforms = [Some URLDecode],
     Op = Some (ContainsAnyOp (Contains (ascii ''select''))), Actions = [Some Log_action],
     Severity = SeverityCritical, Confidence = 1, Msg = [], Tags = []\<rparr>"

definition demo_value :: eval_value where
  "demo_value = \<lparr>v_Target = \<lparr>Kind = TargetArgs, Name = []\<rparr>, v_Key = ascii ''q'',
     v_Data = Some (ascii ''1+SEL%65CT''), v_Inert = False\<rparr>"

definition demo_state :: "(builtin_transform, builtin_op, fixed_action) eval_state" where
  "demo_state = \<lparr>es_ev = evaluator_zero, es_meter = \<lparr>remaining = 0, limit = 0, exhausted = False\<rparr>,
     es_out = \<lparr>r_Hits = [], r_Score = 0, r_Terminal = False, r_TerminalOutcome = outcome_zero,
       r_TerminalRule = None, r_Exhausted = False, r_Undecidable = False, r_UndecidableReason = [],
       r_RulesEvaluated = 0\<rparr>\<rparr>"

lemma demo_valid: "validate [demo_rule] False = []"
  by (simp add: validate_def demo_rule_def field_errors_def target_errors_def phase_Valid_def
      target_kind_Valid_def target_kind_Phase_def severity_Valid_def confidence_Valid_def byte_simps)

lemma rev_order: "\<forall>p j. map_order_ok ((\<lambda>p j s. rev) p j :: map_order)"
  by (simp add: map_order_ok_def)

lemma demo_compiles: "\<exists>rs. Compile builtin (\<lambda>p j s. rev) [demo_rule] False = Some (Inr rs)"
  using Compile_spec [OF rev_order, of builtin "[demo_rule]" False] demo_valid by auto

lemma demo_hypotheses:
  "length [demo_rule] \<le> 2 ^ 32" "chains_distinct builtin [demo_rule]"
  "\<forall>r \<in> set [demo_rule]. literals_required builtin (rule_op r)"
  "bitset_inv (ev_candidates (es_ev demo_state))" "\<not> r_Terminal (es_out demo_state)"
  "\<not> r_Exhausted (es_out demo_state)" "free (es_meter demo_state)"
  by (simp_all add: builtin_chains_distinct built_literals_required built_op.intros demo_rule_def rule_op_def
      demo_state_def evaluator_zero_def bitset_inv_zero free_def Unmetered_def)

lemma demo_verbatim: "(0, \<lparr>rd_Bytes = ascii ''1+SEL%65CT'', rd_Class = 0\<rparr>) \<in> set (value_readings demo_value)"
proof -
  obtain extra where "rset_readings (Set_Build (v_bytes demo_value) (Detect (v_bytes demo_value))) =
      \<lparr>rd_Bytes = v_bytes demo_value, rd_Class = 0\<rparr> # extra"
    by (rule Set_Build_spec)
  then show ?thesis by (simp add: value_readings_def demo_value_def v_bytes_def)
qed

lemma demo_fires: "rule_fires builtin c demo_rule demo_value (0, \<lparr>rd_Bytes = ascii ''1+SEL%65CT'', rd_Class = 0\<rparr>)"
proof -
  have d: "fst (chain_value builtin [URLDecode] (ascii ''1+SEL%65CT'')) = ascii ''1 SELeCT''"
    by code_simp
  have "snd (contains_loop [toLower (ascii ''select'')] (ascii ''1 SELeCT''))" by code_simp
  then have "snd (op_Eval (ContainsAnyOp (Contains (ascii ''select''))) c' (ascii ''1 SELeCT''))" for c'
    by (simp only: op_Eval.simps containsAny_Eval_def Contains_def contains_any.simps)
  moreover have "targetMatches (Targets demo_rule) demo_value"
    by (simp add: demo_rule_def demo_value_def MatchesBytes_def)
  ultimately show ?thesis
    using d by (simp only: rule_fires_def demo_rule_def rule_chain_def rule_op_def rule.simps list.map
        option.sel prod.case builtin_simps reading.simps simp_thms)
qed

lemma demo_group:
  assumes "Compile builtin (\<lambda>p j s. rev) [demo_rule] False = Some (Inr rs)"
  shows "\<exists>g \<in> set (Groups rs PhaseRequestHeaders). \<exists>cr \<in> set (g_Rules g). cr_Rule cr = demo_rule"
proof -
  have "phase_Valid PhaseRequestHeaders" by (simp add: phase_Valid_def)
  moreover have "Phase demo_rule = PhaseRequestHeaders" by (simp add: demo_rule_def)
  ultimately show ?thesis using compiled_rules [OF rev_order assms] by (metis list.set_intros(1))
qed

lemma demo_reached: "rule_reached builtin demo_rule (0, \<lparr>rd_Bytes = ascii ''1+SEL%65CT'', rd_Class = 0\<rparr>)"
proof (rule required_reached [OF demo_fires])
  show "if prefilterable builtin demo_rule then literals_required builtin (rule_op demo_rule)
      else fst (0 :: nat, \<lparr>rd_Bytes = ascii ''1+SEL%65CT'', rd_Class = 0\<rparr>) = 0"
    using demo_hypotheses(3) by simp
qed

lemma demo_hit:
  assumes "Compile builtin (\<lambda>p j s. rev) [demo_rule] False = Some (Inr rs)"
  shows "phase_hits builtin Score_action rs PhaseRequestHeaders [demo_value] e \<noteq> []"
proof -
  obtain g cr where g: "g \<in> set (Groups rs PhaseRequestHeaders)" "cr \<in> set (g_Rules g)" "cr_Rule cr = demo_rule"
    using demo_group [OF assms] by blast
  have "g_Transforms g = rule_chain (cr_Rule cr)"
    by (rule distinct_chain [OF rev_order assms builtin_chains_distinct g(1,2)])
  moreover note group_unconditional [OF rev_order assms g(1,2)]
  moreover have "demo_value \<in> set [demo_value]" "\<not> v_Inert demo_value" by (simp_all add: demo_value_def)
  ultimately obtain h where "h \<in> set (phase_hits builtin Score_action rs PhaseRequestHeaders [demo_value] e)"
    using reached_hits [OF g(1,2) _ _ _ _ demo_verbatim, of builtin "[demo_value]" e Score_action] demo_reached demo_fires g(3)
    by metis
  then show ?thesis by (cases "phase_hits builtin Score_action rs PhaseRequestHeaders [demo_value] e") simp_all
qed

section \<open>Properties\<close>

text \<open>C1. No missed match. If a rule of the phase fires on a value that is not inert, in one of its
  readings, a hit of that rule is recorded for that value, unless a terminal action (block or allow)
  ended the phase first or the fuel ran out, which is flagged and cannot happen with an unmetered
  meter. Assumed of the rule alone: if it declares required literals, its operator really requires one
  of them, and any of the readings will do; if it declares none it is run unconditionally, and only
  the verbatim reading counts. No other chain of the ruleset may share the rule's chain key (no two
  chains of built-in transforms do), and the ruleset has at most 2^32 rules; the other rules may break
  every contract. The prefilter, the shared transform stages and the reading limit hide nothing.\<close>

theorem Eval_detects:
  assumes ords: "\<forall>p j. map_order_ok (ords p j)" and comp: "Compile I ords rules uo = Some (Inr rs)"
    and size: "length rules \<le> 2 ^ 32"
    and inv: "bitset_inv (ev_candidates (es_ev s))"
    and fresh: "\<not> r_Terminal (es_out s)" "\<not> r_Exhausted (es_out s)"
    and r: "r \<in> set rules" "Phase r = phase" and v: "v \<in> set vs" "\<not> v_Inert v"
    and chain: "\<forall>r' \<in> set rules. chainKey I (rule_chain r') = chainKey I (rule_chain r) \<longrightarrow> rule_chain r' = rule_chain r"
    and reading: "rd \<in> set (value_readings v)"
    and reach: "if prefilterable I r then literals_required I (rule_op r) else fst rd = 0"
    and fires: "rule_fires I (request_ctx vs (sizeFor rs (es_ev s))) r v rd"
  shows "\<exists>s'. Eval I score rs phase vs s = Some s' \<and>
    ((\<exists>h \<in> set (new_hits s s'). cr_Rule (h_Rule h) = r \<and> h_Target h = v_Target v \<and> h_Key h = v_Key v) \<or>
     r_Terminal (es_out s') \<or> r_Exhausted (es_out s') \<and> \<not> free (es_meter s))"
proof -
  have p: "phase_Valid phase"
    using Compile_spec [OF ords, of I rules uo] comp r validate_phases [of uo 0 "[]" rules] field_errors_phase
    by (auto simp: validate_def)
  obtain g cr where g: "g \<in> set (Groups rs phase)" "cr \<in> set (g_Rules g)" "cr_Rule cr = r"
    using compiled_rules [OF ords comp p, of r] r by auto
  have "g_Transforms g = rule_chain (cr_Rule cr)" by (rule compiled_chain [OF ords comp g(1,2)]) (use chain g(3) in simp)
  moreover note group_unconditional [OF ords comp g(1,2)]
  ultimately obtain h where h: "h \<in> set (phase_hits I score rs phase vs (es_ev s))" "h_Rule h = cr"
      "h_Target h = v_Target v" "h_Key h = v_Key v"
    using reached_hits [OF g(1,2) _ _ v reading, of I "es_ev s" score] required_reached [OF fires reach] fires g(3) by blast
  then have found: "new_hits s s' = upto_terminal (phase_hits I score rs phase vs (es_ev s)) \<Longrightarrow>
      h \<in> set (new_hits s s') \<or> (\<exists>h \<in> set (phase_hits I score rs phase vs (es_ev s)). terminal_hit h)" for s'
    using upto_terminal_none by metis
  obtain s' where s': "Eval I score rs phase vs s = Some s'"
    "r_Exhausted (es_out s') \<and> \<not> free (es_meter s) \<or>
     uncounted (es_out s') = uncounted (record_hits (phase_hits I score rs phase vs (es_ev s)) (es_out s))"
    using Eval_compiled [OF ords comp size inv fresh] by blast
  from s'(2) have "h \<in> set (new_hits s s') \<or> r_Terminal (es_out s') \<or>
      r_Exhausted (es_out s') \<and> \<not> free (es_meter s)"
    using found new_hits_recorded by blast
  with s'(1) h(2-4) g(3) show ?thesis by blast
qed

lemma Eval_detects_witness:
  "\<exists>rs s'. Compile builtin (\<lambda>p j s. rev) [demo_rule] False = Some (Inr rs) \<and>
     Eval builtin Score_action rs PhaseRequestHeaders [demo_value] demo_state = Some s' \<and>
     ((\<exists>h \<in> set (new_hits demo_state s'). cr_Rule (h_Rule h) = demo_rule) \<or> r_Terminal (es_out s'))"
proof -
  obtain rs where c: "Compile builtin (\<lambda>p j s. rev) [demo_rule] False = Some (Inr rs)"
    using demo_compiles by blast
  have "demo_rule \<in> set [demo_rule]" "Phase demo_rule = PhaseRequestHeaders" "demo_value \<in> set [demo_value]"
    "\<not> v_Inert demo_value" by (simp_all add: demo_rule_def demo_value_def)
  moreover have "\<forall>r' \<in> set [demo_rule]. chainKey builtin (rule_chain r') = chainKey builtin (rule_chain demo_rule) \<longrightarrow>
      rule_chain r' = rule_chain demo_rule" by simp
  moreover have "if prefilterable builtin demo_rule then literals_required builtin (rule_op demo_rule)
      else fst (0 :: nat, \<lparr>rd_Bytes = ascii ''1+SEL%65CT'', rd_Class = 0\<rparr>) = 0"
    using demo_hypotheses(3) by simp
  ultimately show ?thesis
    using Eval_detects [OF rev_order c demo_hypotheses(1,4-6) _ _ _ _ _ demo_verbatim _ demo_fires]
      demo_hypotheses(7) c by blast
qed

text \<open>C3. No hit without a match: an evaluation that was not cut short keeps the hits it found before
  and adds only hits of rules of the phase, each on a value it fires on: one that is not inert, in a
  reading of it, and, if the rule declares required literals, with one of them present, else in the
  verbatim reading. Assumed is that different chains of the ruleset have different keys, as all chains
  of built-in transforms do, and at most 2^32 rules.\<close>

theorem Eval_sound:
  assumes ords: "\<forall>p j. map_order_ok (ords p j)" and comp: "Compile I ords rules uo = Some (Inr rs)"
    and size: "length rules \<le> 2 ^ 32" and chains: "chains_distinct I rules"
    and inv: "bitset_inv (ev_candidates (es_ev s))"
    and fresh: "\<not> r_Terminal (es_out s)" "\<not> r_Exhausted (es_out s)"
    and run: "Eval I score rs phase vs s = Some s'" "\<not> r_Exhausted (es_out s')"
  shows "r_Hits (es_out s') = r_Hits (es_out s) @ new_hits s s' \<and>
    (\<forall>h \<in> set (new_hits s s'). \<exists>v \<in> set vs. \<not> v_Inert v \<and> h_Target h = v_Target v \<and> h_Key h = v_Key v \<and>
      cr_Rule (h_Rule h) \<in> set rules \<and> Phase (cr_Rule (h_Rule h)) = phase \<and>
      (\<exists>rd \<in> set (value_readings v). h_Reading h = rd_Class (snd rd) \<and> rule_reached I (cr_Rule (h_Rule h)) rd \<and>
         rule_fires I (request_ctx vs (sizeFor rs (es_ev s))) (cr_Rule (h_Rule h)) v rd))"
proof (intro conjI ballI)
  have out: "uncounted (es_out s') = uncounted (record_hits (phase_hits I score rs phase vs (es_ev s)) (es_out s))"
    using Eval_compiled [OF ords comp size inv fresh, of score phase vs] run by auto
  from arg_cong [OF out, of r_Hits] show "r_Hits (es_out s') = r_Hits (es_out s) @ new_hits s s'"
    by (simp add: new_hits_def frame_simps)
  fix h assume "h \<in> set (new_hits s s')"
  then have "h \<in> set (phase_hits I score rs phase vs (es_ev s))"
    using upto_terminal_subset out by (auto simp: new_hits_recorded(1))
  then obtain v i b g cr where w: "v \<in> set vs" "\<not> v_Inert v" "(i, b) \<in> set (value_readings v)"
    "g \<in> set (Groups rs phase)" "cr \<in> set (g_Rules g)"
    "if cr_unconditional cr then i = 0 else nominates I (cr_Rule cr) (fst (chain_value I (g_Transforms g) (rd_Bytes b)))"
    "h \<in> set (rule_hits I score (request_ctx vs (sizeFor rs (es_ev s))) v (rd_Class b)
       (chain_value I (g_Transforms g) (rd_Bytes b)) cr)"
    unfolding phase_hits_iff Let_def by blast
  note F = rule_hits_fields [OF w(7)] and ch = distinct_chain [OF ords comp chains w(4,5)]
  have "phase_Valid phase" by (rule compiled_group(1) [OF ords comp w(4)])
  from compiled_rules [OF ords comp this, of "cr_Rule cr"] w(4,5)
  have "cr_Rule cr \<in> set rules" "Phase (cr_Rule cr) = phase" by blast+
  moreover have "rule_fires I (request_ctx vs (sizeFor rs (es_ev s))) (cr_Rule cr) v (i, b)"
    using rule_hits_set [of I score _ v "rd_Class b" "chain_value I (rule_chain (cr_Rule cr)) (rd_Bytes b)" cr] w(7) ch
    unfolding rule_fires_def by auto
  moreover have "rule_reached I (cr_Rule cr) (i, b)"
    using w(6) ch group_unconditional [OF ords comp w(4,5)] by (simp add: rule_reached_def split: if_splits)
  ultimately show "\<exists>v \<in> set vs. \<not> v_Inert v \<and> h_Target h = v_Target v \<and> h_Key h = v_Key v \<and>
      cr_Rule (h_Rule h) \<in> set rules \<and> Phase (cr_Rule (h_Rule h)) = phase \<and>
      (\<exists>rd \<in> set (value_readings v). h_Reading h = rd_Class (snd rd) \<and> rule_reached I (cr_Rule (h_Rule h)) rd \<and>
         rule_fires I (request_ctx vs (sizeFor rs (es_ev s))) (cr_Rule (h_Rule h)) v rd)"
    using F w(1-3) by (intro bexI [of _ v] conjI bexI [of _ "(i, b)"]) simp_all
qed

lemma Eval_sound_witness:
  "\<exists>rs s' h. Compile builtin (\<lambda>p j s. rev) [demo_rule] False = Some (Inr rs) \<and>
     Eval builtin Score_action rs PhaseRequestHeaders [demo_value] demo_state = Some s' \<and>
     h \<in> set (new_hits demo_state s') \<and> h_Key h = ascii ''q'' \<and> cr_Rule (h_Rule h) = demo_rule"
proof -
  obtain rs where c: "Compile builtin (\<lambda>p j s. rev) [demo_rule] False = Some (Inr rs)"
    using demo_compiles by blast
  obtain s' where e: "Eval builtin Score_action rs PhaseRequestHeaders [demo_value] demo_state = Some s'"
    "uncounted (es_out s') = uncounted (record_hits (phase_hits builtin Score_action rs PhaseRequestHeaders
       [demo_value] (es_ev demo_state)) (es_out demo_state))"
    using Eval_compiled [OF rev_order c demo_hypotheses(1,4-6)] demo_hypotheses(7) by blast
  have "phase_hits builtin Score_action rs PhaseRequestHeaders [demo_value] (es_ev demo_state) \<noteq> []"
    by (rule demo_hit [OF c])
  then have "upto_terminal (phase_hits builtin Score_action rs PhaseRequestHeaders [demo_value] (es_ev demo_state)) \<noteq> []"
    by (cases "phase_hits builtin Score_action rs PhaseRequestHeaders [demo_value] (es_ev demo_state)") simp_all
  then have "hd (new_hits demo_state s') \<in> set (new_hits demo_state s')"
    unfolding new_hits_recorded(1) [OF e(2)] by (rule list.set_sel(1))
  then obtain h where h: "h \<in> set (new_hits demo_state s')" ..
  have x: "\<not> r_Exhausted (es_out s')"
    using arg_cong [OF e(2), of r_Exhausted] demo_hypotheses(6) by (simp add: frame_simps)
  from Eval_sound [OF rev_order c demo_hypotheses(1,2,4-6) e(1) x] h
  obtain v where "v \<in> set [demo_value]" "h_Key h = v_Key v" "cr_Rule (h_Rule h) \<in> set [demo_rule]"
    by blast
  then have "h_Key h = ascii ''q''" "cr_Rule (h_Rule h) = demo_rule"
    by (simp_all add: demo_value_def del: ascii_simps)
  with c e(1) h show ?thesis by blast
qed



end
