(* ===== verification/CompileProps.thy ===== *)
theory CompileProps
  imports EvalProps
begin

text \<open>
  What compiling a ruleset promises: which rules are accepted, that compiling ends and loses no
  rule, what the report counts, and the one shape of rule the plan drops silently. Also the reach of
  a false-positive exception.
\<close>

section \<open>Which rules are accepted\<close>

text \<open>What \<open>validate\<close> demands of one rule and of the ruleset.\<close>

definition rule_wf :: "bool \<Rightarrow> ('t, 'o, 'a) rule \<Rightarrow> bool" where
  "rule_wf userOnly r \<longleftrightarrow>
     ID r \<noteq> 0 \<and> (\<not> userOnly \<or> UserMin \<le> ID r) \<and> phase_Valid (Phase r) \<and> Targets r \<noteq> [] \<and>
     list_all (\<lambda>t. target_kind_Valid (Kind t) \<and> target_kind_Phase (Kind t) \<le> Phase r) (Targets r) \<and>
     Op r \<noteq> None \<and> None \<notin> set (Transforms r) \<and> None \<notin> set (Actions r) \<and>
     severity_Valid (Severity r) \<and> confidence_Valid (Confidence r)"

definition rules_wf :: "bool \<Rightarrow> ('t, 'o, 'a) rule list \<Rightarrow> bool" where
  "rules_wf userOnly rules \<longleftrightarrow> distinct (map ID rules) \<and> list_all (rule_wf userOnly) rules"

lemma nil_errors_empty: "nil_errors err j xs = [] \<longleftrightarrow> None \<notin> set xs"
  by (induction err j xs rule: nil_errors.induct) auto

lemma if_single_Nil: "(if P then [x] else []) = [] \<longleftrightarrow> \<not> P"
  by simp

lemma target_errors_Nil:
  assumes "phase_Valid ph"
  shows "concat (map (target_errors i ph) ts) = [] \<longleftrightarrow>
    list_all (\<lambda>t. target_kind_Valid (Kind t) \<and> target_kind_Phase (Kind t) \<le> ph) ts"
proof (induction ts)
  case (Cons t ts)
  have "target_errors i ph t = [] \<longleftrightarrow> target_kind_Valid (Kind t) \<and> target_kind_Phase (Kind t) \<le> ph"
    using assms not_less [of ph "target_kind_Phase (Kind t)"] by (auto simp: target_errors_def)
  with Cons show ?case by (simp only: list.map concat.simps append_is_Nil_conv list.pred_inject)
qed simp

lemma field_errors_wf: "ID r \<noteq> 0 \<Longrightarrow> field_errors uo r = [] \<longleftrightarrow> rule_wf uo r"
proof -
  assume i: "ID r \<noteq> 0"
  have e: "field_errors uo r = [] \<longleftrightarrow> \<not> (uo \<and> \<not> rule_id_IsUser (ID r)) \<and> \<not> \<not> phase_Valid (Phase r) \<and>
      \<not> length (Targets r) = 0 \<and> concat (map (target_errors (ID r) (Phase r)) (Targets r)) = [] \<and>
      \<not> Op r = None \<and> None \<notin> set (Transforms r) \<and> None \<notin> set (Actions r) \<and>
      \<not> \<not> severity_Valid (Severity r) \<and> \<not> \<not> confidence_Valid (Confidence r)"
    by (simp only: field_errors_def append_is_Nil_conv if_single_Nil nil_errors_empty)
  show ?thesis
  proof (cases "phase_Valid (Phase r)")
    case False
    then show ?thesis by (simp only: e rule_wf_def) blast
  next
    case True
    then show ?thesis
      using i by (simp only: e rule_wf_def target_errors_Nil [OF True] rule_id_IsUser_iff length_0_conv) blast
  qed
qed

lemma map_of_None_ids: "map_of seen k = None \<longleftrightarrow> k \<notin> fst ` set seen"
  by (rule map_of_eq_None_iff)

lemma validate_loop_wf:
  "validate_loop uo i seen rs = [] \<longleftrightarrow>
     list_all (rule_wf uo) rs \<and> distinct (map ID rs) \<and> (\<forall>r \<in> set rs. ID r \<notin> fst ` set seen)"
proof (induction uo i seen rs rule: validate_loop.induct)
  case (2 uo i seen r rs)
  show ?case
  proof (cases "ID r = 0 \<or> map_of seen (ID r) \<noteq> None")
    case True
    then show ?thesis using map_of_None_ids [of seen "ID r"] by (auto simp: rule_wf_def)
  next
    case False
    then have id: "ID r \<noteq> 0" "map_of seen (ID r) = None" by auto
    have "validate_loop uo i seen (r # rs) = [] \<longleftrightarrow>
        rule_wf uo r \<and> validate_loop uo (Suc i) ((ID r, i) # seen) rs = []"
      using id by (simp add: field_errors_wf)
    also have "\<dots> \<longleftrightarrow> rule_wf uo r \<and> list_all (rule_wf uo) rs \<and> distinct (map ID rs) \<and>
        (\<forall>r' \<in> set rs. ID r' \<notin> fst ` set ((ID r, i) # seen))"
      using 2(2) [OF id] by simp
    also have "(\<forall>r' \<in> set rs. ID r' \<notin> fst ` set ((ID r, i) # seen)) \<longleftrightarrow>
        ID r \<notin> ID ` set rs \<and> (\<forall>r' \<in> set rs. ID r' \<notin> fst ` set seen)"
      by (simp add: image_iff ball_conj_distrib) metis
    finally show ?thesis using map_of_None_ids [of seen "ID r"] id(2) by (simp del: validate_loop.simps) blast
  qed
qed simp

section \<open>Rules whose required literals are all empty\<close>

lemma empty_literals_not_nominated:
  assumes "\<forall>l \<in> set (fst (oLiterals I (rule_op (cr_Rule (g_Rules g ! i))))). l = []"
  shows "i \<notin> nominated I g data"
  using assms by (auto simp: nominated_def declared_def literal_occurs_def)

section \<open>Exceptions\<close>

text \<open>What an exception selects; a field that is zero or empty leaves out nothing.\<close>

definition selects :: "exception \<Rightarrow> rule_id \<Rightarrow> rule_id \<Rightarrow> gobytes \<Rightarrow> target \<Rightarrow> gobytes \<Rightarrow> bool" where
  "selects e rule derived path target key \<longleftrightarrow>
     ex_RuleID e \<in> {0, rule, derived} \<and> ex_Target e \<in> {TargetInvalid, Kind target} \<and>
     ex_Key e \<in> {[], key} \<and>
     (ex_Path e \<in> {[], path} \<and> (ex_Path e = [] \<or> last (ex_Path e) \<noteq> 42) \<or>
      (\<exists>stem rest. ex_Path e = stem @ [42] \<and> path = stem @ rest))"

lemma exception_Matches_selects: "exception_Matches e = selects e"
proof -
  have "matchPath p path \<longleftrightarrow> p = path \<and> last p \<noteq> 42 \<or> (\<exists>stem rest. p = stem @ [42] \<and> path = stem @ rest)"
    if "p \<noteq> []" for p path
    using that by (cases p rule: rev_cases) (auto simp: matchPath_iff)
  then show ?thesis
    by (intro ext, cases "ex_Path e = []") (auto simp: exception_Matches_def selects_def)
qed

lemma selects_everything:
  "(\<forall>rule derived path target key. selects e rule derived path target key) \<longleftrightarrow>
     ex_RuleID e = 0 \<and> ex_Target e = TargetInvalid \<and> ex_Key e = [] \<and> ex_Path e \<in> {[], [42]}"
proof (intro iffI allI)
  assume all: "\<forall>rule derived path target key. selects e rule derived path target key"
  let ?k = "ex_Key e @ [0]"
  let ?t = "\<lparr>Kind = ex_Target e + 1, Name = []\<rparr>"
  have "selects e (ex_RuleID e + 1) (ex_RuleID e + 1) path ?t ?k" for path using all by blast
  then have "ex_RuleID e = 0" "ex_Target e = TargetInvalid" "ex_Key e = []" by (auto simp: selects_def)
  moreover have "ex_Path e \<in> {[], [42]}"
  proof (cases "ex_Path e")
    case (Cons c cs)
    have s: "selects e 0 0 [] t []" "selects e 0 0 [c + 1] t []" for t using all by blast+
    from s(1) [of ?t] have "ex_Path e = [42]" using Cons by (auto simp: selects_def)
    then show ?thesis by simp
  qed simp
  ultimately show "ex_RuleID e = 0 \<and> ex_Target e = TargetInvalid \<and> ex_Key e = [] \<and> ex_Path e \<in> {[], [42]}"
    by blast
next
  fix rule derived path target key
  assume "ex_RuleID e = 0 \<and> ex_Target e = TargetInvalid \<and> ex_Key e = [] \<and> ex_Path e \<in> {[], [42]}"
  then show "selects e rule derived path target key" by (auto simp: selects_def)
qed

lemma Suppresses_find: "Suppresses es rule d path tg key = find (\<lambda>e. exception_Matches e rule d path tg key) es"
  by (induction es) auto

section \<open>Properties\<close>

text \<open>C17. A ruleset is accepted exactly if its rule ids are distinct and every rule has a non-zero id
  (in the user range for a user ruleset), a valid phase, at least one target, targets that are known
  and available by its phase, an operator, no nil transform or action, and a valid severity and
  confidence; otherwise compiling returns the joined errors and no ruleset.\<close>

theorem Compile_rejects:
  "(validate rules userOnly = []) = rules_wf userOnly rules \<and>
   (rules_wf userOnly rules \<or> Compile I ords rules userOnly = Some (Inl (validate rules userOnly)))"
  using validate_loop_wf [of userOnly 0 "[]" rules] by (auto simp: validate_def rules_wf_def Compile_def)

text \<open>C16. Compiling an accepted ruleset ends, whatever the map iteration orders of the builds, and
  loses nothing: all rules in (phase, id) order, each phase's plan exactly its rules, the report's
  prefiltered and unconditional rules adding up to the total, and the target mask exactly the kinds
  the rules read.\<close>

theorem Compile_total:
  assumes "\<forall>p j. map_order_ok (ords p j)" and "rules_wf userOnly rules"
  shows "\<exists>rs. Compile I ords rules userOnly = Some (Inr rs) \<and>
    map cr_Rule (rs_all rs) = sort_key (\<lambda>r. (Phase r, ID r)) rules \<and>
    (\<forall>p \<in> {PhaseRequestHeaders, PhaseRequestBody, PhaseResponseHeaders, PhaseResponseBody, PhaseLogging}.
       map cr_Rule (PhaseRules rs p) = sort_key ID (filter (\<lambda>r. Phase r = p) rules) \<and>
       mset (concat (map g_Rules (Groups rs p))) = mset (PhaseRules rs p)) \<and>
    rep_Prefiltered (rs_report rs) + length (rep_Unconditional (rs_report rs)) = length rules \<and>
    (\<forall>k. ruleset_Reads rs k \<longleftrightarrow> k < 64 \<and> (\<exists>r \<in> set rules. \<exists>t \<in> set (Targets r). Kind t = k))"
proof -
  have "validate rules userOnly = []"
    using validate_loop_wf [of userOnly 0 "[]" rules] assms(2) by (simp add: validate_def rules_wf_def)
  then obtain rs where rs: "Compile I ords rules userOnly = Some (Inr rs)"
    "length (rs_phases rs) = 6" "\<forall>pp \<in> set (rs_phases rs). phase_ok I pp"
    "map cr_Rule (rs_all rs) = sort_key (\<lambda>r. (Phase r, ID r)) rules"
    "\<forall>p. phase_Valid p \<longrightarrow> map cr_Rule (PhaseRules rs p) = sort_key ID (filter (\<lambda>r. Phase r = p) rules)"
    "rep_Prefiltered (rs_report rs) + length (rep_Unconditional (rs_report rs)) = length rules"
    "\<forall>k. ruleset_Reads rs k \<longleftrightarrow> k < 64 \<and> (\<exists>r \<in> set rules. \<exists>t \<in> set (Targets r). Kind t = k)"
    using Compile_spec [OF assms(1), of I rules userOnly] by auto
  have "mset (concat (map g_Rules (Groups rs p))) = mset (PhaseRules rs p)" if "phase_Valid p" for p
  proof -
    have "phase_ok I (rs_phases rs ! unat p)" using rs(2,3) phase_Valid_unat [OF that] by simp
    then show ?thesis using that by (simp add: phase_ok_def Groups_def PhaseRules_def)
  qed
  moreover have "phase_Valid p" if
    "p \<in> {PhaseRequestHeaders, PhaseRequestBody, PhaseResponseHeaders, PhaseResponseBody, PhaseLogging}" for p
    using that by (auto simp: phase_Valid_def byte_simps)
  ultimately show ?thesis using rs(1,4-7) by blast
qed

lemma Compile_total_witness:
  "rules_wf False [demo_rule] \<and> (\<exists>rs. Compile builtin (\<lambda>p j s. rev) [demo_rule] False = Some (Inr rs) \<and>
     map cr_Rule (rs_all rs) = [demo_rule])"
proof -
  have wf: "rules_wf False [demo_rule]"
    using validate_loop_wf [of False 0 "[]" "[demo_rule]"] demo_valid by (simp add: validate_def rules_wf_def)
  from Compile_total [OF rev_order wf, of builtin] wf show ?thesis by auto
qed

text \<open>C31. A rule whose operator declares its literals required but gives only the empty literal - which
  every value contains - is compiled as prefiltered and then never run: it is in no group's
  unconditional list and the prefilter nominates it for no value.\<close>

theorem empty_literals_never_run:
  assumes "\<forall>p j. map_order_ok (ords p j)" and "Compile I ords rules userOnly = Some (Inr rs)"
    and "length rules \<le> 2 ^ 32" and "g \<in> set (Groups rs phase)" and "i < length (g_Rules g)"
    and "oLiterals I (rule_op (cr_Rule (g_Rules g ! i))) = ([[]], True)"
    and "bitset_inv cands" and "length (g_Rules g) \<le> Bitset_Cap cands"
  shows "i \<notin> set (g_Unconditional g) \<and>
    (\<exists>d m' ok. scan_group g data (Bitset_Reset cands) m = Some (d, m', ok) \<and> \<not> Bitset_Has d (int i))"
proof -
  note G = compiled_group [OF assms(1,2,4)]
  have "cr_unconditional (g_Rules g ! i) = (\<not> prefilterable I (cr_Rule (g_Rules g ! i)))"
    using G(2) assms(5) by (simp add: group_ok_def)
  then have "\<not> cr_unconditional (g_Rules g ! i)" using assms(6) by (simp add: prefilterable_def)
  then have "i \<notin> set (g_Unconditional g)"
    using G(2) by (auto simp: group_ok_def in_set_conv_nth)
  moreover have "length (g_Rules g) \<le> 2 ^ 32" using G(5) assms(3) by simp
  then obtain d m' ok where "scan_group g data (Bitset_Reset cands) m = Some (d, m', ok)"
    "bitset_inv d" "Bitset_elems d = nominated I g data"
    using scan_candidates [OF G(2,3), of "Bitset_Reset cands" data m] Bitset_Reset_spec [OF assms(7)] assms(8)
    by metis
  moreover have "i \<notin> nominated I g data" using assms(6) by (intro empty_literals_not_nominated) simp
  ultimately show ?thesis by (auto simp: Has_iff)
qed

lemma empty_literals_never_run_witness:
  "\<exists>rs g i. Compile builtin (\<lambda>p j s. rev)
       [demo_rule\<lparr>Op := Some (FuncOp (WithLiterals [[]] (Func [] (\<lambda>_. True))))\<rparr>] False = Some (Inr rs) \<and>
     g \<in> set (Groups rs PhaseRequestHeaders) \<and> i < length (g_Rules g) \<and> i \<notin> set (g_Unconditional g)"
proof -
  let ?r = "demo_rule\<lparr>Op := Some (FuncOp (WithLiterals [[]] (Func [] (\<lambda>_. True))))\<rparr>"
  have "validate [?r] False = []"
    by (simp add: validate_def demo_rule_def field_errors_def target_errors_def phase_Valid_def
        target_kind_Valid_def target_kind_Phase_def severity_Valid_def confidence_Valid_def byte_simps)
  then obtain rs where c: "Compile builtin (\<lambda>p j s. rev) [?r] False = Some (Inr rs)"
    using Compile_spec [OF rev_order, of builtin "[?r]" False] by auto
  have "phase_Valid PhaseRequestHeaders" "Phase ?r = PhaseRequestHeaders"
    by (simp_all add: phase_Valid_def demo_rule_def)
  then obtain g cr where g: "g \<in> set (Groups rs PhaseRequestHeaders)" "cr \<in> set (g_Rules g)" "cr_Rule cr = ?r"
    using compiled_rules [OF rev_order c, of PhaseRequestHeaders ?r] by auto
  then obtain i where i: "i < length (g_Rules g)" "g_Rules g ! i = cr" by (auto simp: in_set_conv_nth)
  have l: "oLiterals builtin (rule_op (cr_Rule (g_Rules g ! i))) = ([[]], True)"
    unfolding i(2) g(3) by (simp add: rule_op_def func_Literals_def WithLiterals_def Func_def)
  let ?b = "Bitset_Grow (int (length (g_Rules g))) Bitset_zero"
  have b: "bitset_inv ?b" "length (g_Rules g) \<le> Bitset_Cap ?b"
    using bitset_inv_zero Bitset_Grow_spec(3) [OF bitset_inv_zero, of "int (length (g_Rules g))"]
    by (simp_all add: inv_intros)
  have "length [?r] \<le> 2 ^ 32" by simp
  from empty_literals_never_run [OF rev_order c this g(1) i(1) l b] c g(1) i(1) show ?thesis by blast
qed

text \<open>C30. An exception set suppresses a hit with the first exception that selects it: every field that
  is set names the hit's rule (or the rule it mirrors), target kind, key and path, a trailing \<open>*\<close> of
  the path standing for any rest. Validation refuses exactly the exception with no rule, path, target
  or key set. It accepts every other one, and among those accepted the one whose path is just \<open>*\<close>, with
  nothing else set, still selects every hit whatsoever; no other accepted exception does.\<close>

theorem exception_reach:
  "Suppresses es rule derived path target key = find (\<lambda>e. selects e rule derived path target key) es \<and>
   (exception_Validate e = Some ErrExceptionTooBroad) =
     (ex_RuleID e = 0 \<and> ex_Path e = [] \<and> ex_Target e = TargetInvalid \<and> ex_Key e = []) \<and>
   (exception_Validate e = None \<and>
      (\<forall>rule derived path target key. exception_Matches e rule derived path target key)) =
     (ex_RuleID e = 0 \<and> ex_Path e = ascii ''*'' \<and> ex_Target e = TargetInvalid \<and> ex_Key e = [])"
  unfolding Suppresses_find exception_Matches_selects selects_everything
  by (auto simp: exception_Validate_def)

end
