(* ===== verification/Schema.thy ===== *)
theory Schema
  imports Types
begin

text \<open>
  The API description (schema/schema.go): fields, operations, the compiled schema with its two
  route indexes, and the lookups the transaction makes. The enumerations are \<open>uint8\<close> with a default
  branch, so they stay machine words. \<open>float64\<close> bounds are elements of the type variable \<open>'f\<close>; a
  nil pointer is \<open>None\<close>. Operations do not change once compiled, so a pointer to one is the
  operation itself.
\<close>

section \<open>Kinds, formats and contexts\<close>

type_synonym field_kind = "8 word"
abbreviation KindUnknown :: field_kind where "KindUnknown \<equiv> 0"
abbreviation KindString :: field_kind where "KindString \<equiv> 1"
abbreviation KindInteger :: field_kind where "KindInteger \<equiv> 2"
abbreviation KindNumber :: field_kind where "KindNumber \<equiv> 3"
abbreviation KindBoolean :: field_kind where "KindBoolean \<equiv> 4"
abbreviation KindEnum :: field_kind where "KindEnum \<equiv> 5"
abbreviation KindArray :: field_kind where "KindArray \<equiv> 6"
abbreviation KindObject :: field_kind where "KindObject \<equiv> 7"

definition field_kind_String :: "field_kind \<Rightarrow> string" where
  "field_kind_String k =
     (case map_of [(KindString, ''string''), (KindInteger, ''integer''), (KindNumber, ''number''),
        (KindBoolean, ''boolean''), (KindEnum, ''enum''), (KindArray, ''array''),
        (KindObject, ''object'')] k of
        Some s \<Rightarrow> s | None \<Rightarrow> ''unknown'')"

type_synonym format = "8 word"
abbreviation FormatNone :: format where "FormatNone \<equiv> 0"
abbreviation FormatUUID :: format where "FormatUUID \<equiv> 1"
abbreviation FormatDateTime :: format where "FormatDateTime \<equiv> 2"
abbreviation FormatDate :: format where "FormatDate \<equiv> 3"
abbreviation FormatEmail :: format where "FormatEmail \<equiv> 4"
abbreviation FormatHexadecimal :: format where "FormatHexadecimal \<equiv> 5"
abbreviation FormatBase64 :: format where "FormatBase64 \<equiv> 6"
abbreviation FormatIPv4 :: format where "FormatIPv4 \<equiv> 7"

definition format_String :: "format \<Rightarrow> string" where
  "format_String f =
     (case map_of [(FormatUUID, ''uuid''), (FormatDateTime, ''date-time''), (FormatDate, ''date''),
        (FormatEmail, ''email''), (FormatHexadecimal, ''hex''), (FormatBase64, ''base64''),
        (FormatIPv4, ''ipv4'')] f of
        Some s \<Rightarrow> s | None \<Rightarrow> ''none'')"

type_synonym value_context = "8 word"
abbreviation ContextUnknown :: value_context where "ContextUnknown \<equiv> 0"
abbreviation ContextOpaque :: value_context where "ContextOpaque \<equiv> 1"
abbreviation ContextText :: value_context where "ContextText \<equiv> 2"
abbreviation ContextHTML :: value_context where "ContextHTML \<equiv> 3"
abbreviation ContextPath :: value_context where "ContextPath \<equiv> 4"
abbreviation ContextQuery :: value_context where "ContextQuery \<equiv> 5"

definition value_context_String :: "value_context \<Rightarrow> string" where
  "value_context_String c =
     (case map_of [(ContextOpaque, ''opaque''), (ContextText, ''text''), (ContextHTML, ''html''),
        (ContextPath, ''path''), (ContextQuery, ''query'')] c of
        Some s \<Rightarrow> s | None \<Rightarrow> ''unknown'')"

section \<open>Fields and operations\<close>

record 'f field =
  f_Name :: gobytes
  f_Kind :: field_kind
  f_Format :: format
  f_Enum :: "gobytes list"
  f_Required :: bool
  f_MaxLength :: int
  f_Min :: "'f option"
  f_Max :: "'f option"
  f_Context :: value_context

definition Bound :: "'f \<Rightarrow> 'f option" where
  "Bound v = Some v"

definition field_zero :: "'f field" where
  "field_zero = \<lparr>f_Name = [], f_Kind = KindUnknown, f_Format = FormatNone, f_Enum = [],
     f_Required = False, f_MaxLength = 0, f_Min = None, f_Max = None, f_Context = ContextUnknown\<rparr>"

definition Inert :: "'f field \<Rightarrow> bool" where
  "Inert f =
     (if f_Kind f = KindInteger \<or> f_Kind f = KindNumber \<or> f_Kind f = KindBoolean then True
      else if f_Kind f = KindEnum then 0 < length (f_Enum f)
      else if f_Kind f = KindString then
        (if f_Format f \<in> set [FormatUUID, FormatDateTime, FormatDate, FormatHexadecimal, FormatIPv4]
         then True else False)
      else False)"

record 'f operation =
  op_Method :: gobytes
  op_Path :: gobytes
  op_Query :: "'f field list"
  op_Headers :: "'f field list"
  op_Body :: "'f field list"
  op_Strict :: bool
  op_NoBody :: bool

record 'f schema =
  s_ops :: "'f operation list"
  s_closed :: bool
  s_literal :: "gobytes \<rightharpoonup> 'f operation"
  s_templated :: "'f operation list"

definition Closed :: "'f schema \<Rightarrow> 'f schema" where
  "Closed s = s\<lparr>s_closed := True\<rparr>"

definition IsClosed :: "'f schema \<Rightarrow> bool" where
  "IsClosed s \<longleftrightarrow> s_closed s"

section \<open>Compilation\<close>

datatype field_error =
    EmptyEnum gobytes
  | FormatOnKind gobytes format field_kind

datatype schema_error =
    NoPath nat
  | BadField gobytes gobytes field_error

fun fields_loop :: "'f field list \<Rightarrow> field_error option" where
  "fields_loop [] = None"
| "fields_loop (f # fs) =
     (if f_Kind f = KindEnum \<and> length (f_Enum f) = 0 then Some (EmptyEnum (f_Name f))
      else if f_Format f \<noteq> FormatNone \<and> f_Kind f \<noteq> KindString \<and> f_Kind f \<noteq> KindUnknown
      then Some (FormatOnKind (f_Name f) (f_Format f) (f_Kind f))
      else fields_loop fs)"

definition validateFields :: "'f operation \<Rightarrow> field_error option" where
  "validateFields op = fields_loop (concat [op_Query op, op_Headers op, op_Body op])"

definition routeKey :: "gobytes \<Rightarrow> gobytes \<Rightarrow> gobytes" where
  "routeKey method path = method @ ascii '' '' @ path"

definition is_templated :: "gobytes \<Rightarrow> bool" where
  "is_templated path \<longleftrightarrow> list_ex (\<lambda>c. c = 123 \<or> c = 42) path"

fun New_loop :: "nat \<Rightarrow> 'f operation list \<Rightarrow> 'f schema \<Rightarrow> schema_error + 'f schema" where
  "New_loop i [] s = Inr s"
| "New_loop i (op # ops) s =
     (if op_Path op = [] then Inl (NoPath i)
      else case validateFields op of
        Some e \<Rightarrow> Inl (BadField (op_Method op) (op_Path op) e)
      | None \<Rightarrow>
          if is_templated (op_Path op)
          then New_loop (Suc i) ops (s\<lparr>s_templated := s_templated s @ [op]\<rparr>)
          else New_loop (Suc i) ops
            (s\<lparr>s_literal := (s_literal s)(routeKey (op_Method op) (op_Path op) \<mapsto> op)\<rparr>))"

definition New :: "'f operation list \<Rightarrow> schema_error + 'f schema" where
  "New ops = New_loop 0 ops
     \<lparr>s_ops = ops, s_closed = False, s_literal = Map.empty, s_templated = []\<rparr>"

definition schema_Len :: "'f schema \<Rightarrow> nat" where
  "schema_Len s = length (s_ops s)"

section \<open>Route lookup\<close>

text \<open>\<open>strings.IndexByte\<close> splits at the first occurrence: the bytes before it, and from it on.\<close>

definition nextSegment :: "gobytes \<Rightarrow> gobytes \<times> gobytes" where
  "nextSegment s =
     (let s = (case s of [] \<Rightarrow> [] | c # cs \<Rightarrow> if c = 47 then cs else s)
      in (takeWhile (\<lambda>c. c \<noteq> 47) s, dropWhile (\<lambda>c. c \<noteq> 47) s))"

lemma nextSegment_shorter: "s \<noteq> [] \<Longrightarrow> length (snd (nextSegment s)) < length s"
  by (cases s) (auto simp: nextSegment_def le_imp_less_Suc length_dropWhile_le)

definition is_param :: "gobytes \<Rightarrow> bool" where
  "is_param ts \<longleftrightarrow> 2 \<le> length ts \<and> ts ! 0 = 123 \<and> ts ! (length ts - 1) = 125"

function template_loop :: "gobytes \<Rightarrow> gobytes \<Rightarrow> bool" where
  "template_loop tpl p =
     (if tpl = [] \<or> p = [] then tpl = p
      else let (ts, trest) = nextSegment tpl; (ps, prest) = nextSegment p in
        if ts = ascii ''*'' then True
        else if is_param ts then
          (if ps = [] then False else template_loop trest prest)
        else if ts \<noteq> ps then False
        else template_loop trest prest)"
  by pat_completeness auto
termination
  by (relation "measure (\<lambda>(tpl, p). length tpl)")
    (auto dest: nextSegment_shorter simp: prod_eq_iff)

declare template_loop.simps [simp del]

definition matchTemplate :: "'f operation \<Rightarrow> gobytes \<Rightarrow> gobytes \<Rightarrow> bool" where
  "matchTemplate op method path =
     (if op_Method op \<noteq> [] \<and> op_Method op \<noteq> method then False
      else template_loop (op_Path op) path)"

fun templated_loop :: "'f operation list \<Rightarrow> gobytes \<Rightarrow> gobytes \<Rightarrow> 'f operation option" where
  "templated_loop [] method path = None"
| "templated_loop (op # ops) method path =
     (if matchTemplate op method path then Some op else templated_loop ops method path)"

definition Lookup :: "'f schema option \<Rightarrow> gobytes \<Rightarrow> gobytes \<Rightarrow> 'f operation option" where
  "Lookup so method path =
     (case so of
        None \<Rightarrow> None
      | Some s \<Rightarrow>
          (case s_literal s (routeKey method path) of
             Some op \<Rightarrow> Some op
           | None \<Rightarrow>
               (case s_literal s (routeKey [] path) of
                  Some op \<Rightarrow> Some op
                | None \<Rightarrow> templated_loop (s_templated s) method path)))"

section \<open>Field lookup\<close>

fun FieldFor_loop :: "'f field list \<Rightarrow> gobytes \<Rightarrow> 'f field option \<Rightarrow> 'f field option" where
  "FieldFor_loop [] name fallback = fallback"
| "FieldFor_loop (f # fs) name fallback =
     (if f_Name f = name then Some f
      else FieldFor_loop fs name (if f_Name f = [] then Some f else fallback))"

definition FieldFor :: "'f field list \<Rightarrow> gobytes \<Rightarrow> 'f field option" where
  "FieldFor fs name = FieldFor_loop fs name None"

fun IndexFor_loop :: "'f field list \<Rightarrow> gobytes \<Rightarrow> nat \<Rightarrow> nat option" where
  "IndexFor_loop [] name i = None"
| "IndexFor_loop (f # fs) name i = (if f_Name f = name then Some i else IndexFor_loop fs name (Suc i))"

definition IndexFor :: "'f field list \<Rightarrow> gobytes \<Rightarrow> nat option" where
  "IndexFor fs name = IndexFor_loop fs name 0"

fun MissingRequired_loop :: "'f field list \<Rightarrow> nat \<Rightarrow> nat \<Rightarrow> u64 \<Rightarrow> gobytes" where
  "MissingRequired_loop [] i n seen = []"
| "MissingRequired_loop (f # fs) i n seen =
     (if \<not> i < n then []
      else if f_Required f \<and> \<not> bit seen i then f_Name f
      else MissingRequired_loop fs (Suc i) n seen)"

definition MissingRequired :: "'f field list \<Rightarrow> u64 \<Rightarrow> gobytes" where
  "MissingRequired fs seen =
     (let n = length fs; n = (if 64 < n then 64 else n)
      in MissingRequired_loop fs 0 n seen)"

end
