(* ===== verification/SchemaValidate.thy ===== *)
theory SchemaValidate
  imports Schema
begin

text \<open>
  Value validation (schema/validate.go). The scanning loops advance an index over the value; the
  model carries the rest of the value from that index on, or the index itself where the code uses
  it. The \<open>float64\<close> operations of the machine are the fields of a \<open>float_ops\<close> record, an argument
  of the range check.
\<close>

section \<open>Violations\<close>

type_synonym violation = "8 word"
abbreviation ViolationNone :: violation where "ViolationNone \<equiv> 0"
abbreviation ViolationType :: violation where "ViolationType \<equiv> 1"
abbreviation ViolationEnum :: violation where "ViolationEnum \<equiv> 2"
abbreviation ViolationFormat :: violation where "ViolationFormat \<equiv> 3"
abbreviation ViolationLength :: violation where "ViolationLength \<equiv> 4"
abbreviation ViolationUndeclared :: violation where "ViolationUndeclared \<equiv> 5"
abbreviation ViolationMissing :: violation where "ViolationMissing \<equiv> 6"
abbreviation ViolationRange :: violation where "ViolationRange \<equiv> 7"

definition violation_String :: "violation \<Rightarrow> string" where
  "violation_String v =
     (case map_of [(ViolationType, ''type_mismatch''), (ViolationEnum, ''not_in_enum''),
        (ViolationFormat, ''format_mismatch''), (ViolationLength, ''too_long''),
        (ViolationUndeclared, ''undeclared_parameter''),
        (ViolationMissing, ''missing_required_parameter''), (ViolationRange, ''out_of_range'')] v of
        Some s \<Rightarrow> s | None \<Rightarrow> ''none'')"

section \<open>Digits, numbers, booleans, enumerations\<close>

definition dec_digit :: "byte \<Rightarrow> bool" where
  "dec_digit c \<longleftrightarrow> 48 \<le> c \<and> c \<le> 57"

definition hex_digit :: "byte \<Rightarrow> bool" where
  "hex_digit c \<longleftrightarrow> 48 \<le> c \<and> c \<le> 57 \<or> 97 \<le> c \<and> c \<le> 102 \<or> 65 \<le> c \<and> c \<le> 70"

fun digits_loop :: "gobytes \<Rightarrow> bool" where
  "digits_loop [] = True"
| "digits_loop (c # cs) = (if c < 48 \<or> 57 < c then False else digits_loop cs)"

definition isDigits :: "gobytes \<Rightarrow> bool" where
  "isDigits v \<longleftrightarrow> digits_loop v \<and> 0 < length v"

text \<open>A leading \<open>+\<close> (43) or \<open>-\<close> (45).\<close>

definition drop_sign :: "gobytes \<Rightarrow> gobytes" where
  "drop_sign v = (case v of [] \<Rightarrow> [] | c # cs \<Rightarrow> if c = 43 \<or> c = 45 then cs else v)"

definition isInteger :: "gobytes \<Rightarrow> bool" where
  "isInteger v =
     (if length v = 0 then False
      else let rest = drop_sign v
           in if length rest = 0 then False else digits_loop rest)"

text \<open>\<open>for i < len(value) && value[i] >= '0' && value[i] <= '9' { i++; digits++ }\<close>.\<close>

fun scan_digits :: "gobytes \<Rightarrow> nat \<Rightarrow> gobytes \<times> nat" where
  "scan_digits [] n = ([], n)"
| "scan_digits (c # cs) n = (if dec_digit c then scan_digits cs (n + 1) else (c # cs, n))"

definition starts_in :: "byte list \<Rightarrow> gobytes \<Rightarrow> bool" where
  "starts_in cs v = (case v of [] \<Rightarrow> False | c # _ \<Rightarrow> c \<in> set cs)"

text \<open>The optional fraction, whose digits count with those before it, and the optional exponent.\<close>

definition scan_fraction :: "gobytes \<times> nat \<Rightarrow> gobytes \<times> nat" where
  "scan_fraction = (\<lambda>(v, digits).
     if starts_in [46] v then scan_digits (tl v) digits else (v, digits))"

definition ends_exponent :: "gobytes \<Rightarrow> bool" where
  "ends_exponent v =
     (if starts_in [101, 69] v then
        (let (v, expDigits) = scan_digits (drop_sign (tl v)) 0
         in if expDigits = 0 then False else v = [])
      else v = [])"

definition isNumber :: "gobytes \<Rightarrow> bool" where
  "isNumber v =
     (if length v = 0 then False
      else let (v, digits) = scan_fraction (scan_digits (drop_sign v) 0)
           in if digits = 0 then False else ends_exponent v)"

definition isBoolean :: "gobytes \<Rightarrow> bool" where
  "isBoolean v \<longleftrightarrow>
     v \<in> set [ascii ''true'', ascii ''false'', ascii ''TRUE'', ascii ''FALSE'', ascii ''True'',
       ascii ''False'', ascii ''1'', ascii ''0'']"

fun inEnum :: "gobytes list \<Rightarrow> gobytes \<Rightarrow> bool" where
  "inEnum [] v = False"
| "inEnum (a # as) v = (if a = v then True else inEnum as v)"

section \<open>Formats\<close>

fun uuid_loop :: "nat \<Rightarrow> gobytes \<Rightarrow> bool" where
  "uuid_loop i [] = True"
| "uuid_loop i (c # cs) =
     (if i = 8 \<or> i = 13 \<or> i = 18 \<or> i = 23
      then (if c \<noteq> 45 then False else uuid_loop (Suc i) cs)
      else (if \<not> hex_digit c then False else uuid_loop (Suc i) cs))"

definition isUUID :: "gobytes \<Rightarrow> bool" where
  "isUUID v = (if length v \<noteq> 36 then False else uuid_loop 0 v)"

text \<open>\<open>v[a:b]\<close>, used only within the bounds.\<close>

definition gslice :: "nat \<Rightarrow> nat \<Rightarrow> gobytes \<Rightarrow> gobytes" where
  "gslice a b v = take (b - a) (drop a v)"

definition isDate :: "gobytes \<Rightarrow> bool" where
  "isDate v \<longleftrightarrow>
     length v = 10 \<and>
     isDigits (gslice 0 4 v) \<and> v ! 4 = 45 \<and>
     isDigits (gslice 5 7 v) \<and> v ! 7 = 45 \<and>
     isDigits (gslice 8 10 v)"

text \<open>The zone: \<open>Z\<close> or \<open>z\<close> alone, or a signed \<open>hh:mm\<close>.\<close>

definition isZone :: "gobytes \<Rightarrow> bool" where
  "isZone rest =
     (if length rest = 1 \<and> (rest ! 0 = 90 \<or> rest ! 0 = 122) then True
      else if length rest = 6 \<and> (rest ! 0 = 43 \<or> rest ! 0 = 45)
      then isDigits (gslice 1 3 rest) \<and> rest ! 3 = 58 \<and> isDigits (gslice 4 6 rest)
      else False)"

definition isDateTime :: "gobytes \<Rightarrow> bool" where
  "isDateTime v =
     (if length v < 20 then False
      else if \<not> isDate (take 10 v) \<or> v ! 10 \<noteq> 84 \<and> v ! 10 \<noteq> 116 then False
      else let rest = drop 11 v in
        if length rest < 8 \<or> \<not> isDigits (gslice 0 2 rest) \<or> rest ! 2 \<noteq> 58 \<or>
           \<not> isDigits (gslice 3 5 rest) \<or> rest ! 5 \<noteq> 58 \<or> \<not> isDigits (gslice 6 8 rest) then False
        else let rest = drop 8 rest in
          if 0 < length rest \<and> rest ! 0 = 46 then
            (let (rest', n) = scan_digits (drop 1 rest) 0
             in if n = 0 then False else isZone rest')
          else isZone rest)"

fun email_loop :: "gobytes \<Rightarrow> int \<Rightarrow> int \<Rightarrow> int option" where
  "email_loop [] i at = Some at"
| "email_loop (c # cs) i at =
     (if c = 64 then (if 0 \<le> at then None else email_loop cs (i + 1) i)
      else if 97 \<le> c \<and> c \<le> 122 \<or> 65 \<le> c \<and> c \<le> 90 \<or> 48 \<le> c \<and> c \<le> 57 then email_loop cs (i + 1) at
      else if c = 46 \<or> c = 45 \<or> c = 95 \<or> c = 43 then email_loop cs (i + 1) at
      else None)"

definition isEmail :: "gobytes \<Rightarrow> bool" where
  "isEmail v =
     (if length v < 3 \<or> 254 < length v then False
      else case email_loop v 0 (- 1) of
        None \<Rightarrow> False
      | Some at \<Rightarrow>
          if at \<le> 0 \<or> at = int (length v) - 1 then False
          else let domain = drop (nat at + 1) v
               in 3 \<le> length domain \<and>
                  (case IndexByte domain 46 of None \<Rightarrow> False | Some i \<Rightarrow> 0 < i))"

fun hex_loop :: "gobytes \<Rightarrow> bool" where
  "hex_loop [] = True"
| "hex_loop (c # cs) = (if \<not> hex_digit c then False else hex_loop cs)"

definition isHex :: "gobytes \<Rightarrow> bool" where
  "isHex v = (if length v = 0 then False else hex_loop v)"

fun sv_base64_loop :: "nat \<Rightarrow> gobytes \<Rightarrow> nat \<Rightarrow> nat \<Rightarrow> bool" where
  "sv_base64_loop n [] i pad = True"
| "sv_base64_loop n (c # cs) i pad =
     (if c = 61 then
        (if 2 < pad + 1 \<or> int i < int n - 2 then False else sv_base64_loop n cs (i + 1) (pad + 1))
      else if 65 \<le> c \<and> c \<le> 90 \<or> 97 \<le> c \<and> c \<le> 122 \<or> 48 \<le> c \<and> c \<le> 57 then
        (if 0 < pad then False else sv_base64_loop n cs (i + 1) pad)
      else if c = 43 \<or> c = 47 \<or> c = 45 \<or> c = 95 then
        (if 0 < pad then False else sv_base64_loop n cs (i + 1) pad)
      else False)"

definition isBase64 :: "gobytes \<Rightarrow> bool" where
  "isBase64 v = (if length v = 0 then False else sv_base64_loop (length v) v 0 0)"

text \<open>One octet: at most three digits and at most 255. \<open>k\<close> is \<open>i-start\<close>.\<close>

fun octet_loop :: "gobytes \<Rightarrow> nat \<Rightarrow> nat \<Rightarrow> (gobytes \<times> nat \<times> nat) option" where
  "octet_loop [] k n = Some ([], k, n)"
| "octet_loop (c # cs) k n =
     (if dec_digit c then
        (if 3 < k + 1 then None else octet_loop cs (k + 1) (n * 10 + unat (c - 48)))
      else Some (c # cs, k, n))"

fun ipv4_loop :: "nat \<Rightarrow> gobytes \<Rightarrow> bool" where
  "ipv4_loop 0 v = (v = [])"
| "ipv4_loop (Suc left) v =
     (case octet_loop v 0 0 of
        None \<Rightarrow> False
      | Some (v, k, n) \<Rightarrow>
          if k = 0 \<or> 255 < n then False
          else if 0 < left then (if \<not> starts_in [46] v then False else ipv4_loop left (tl v))
          else ipv4_loop left v)"

definition isIPv4 :: "gobytes \<Rightarrow> bool" where
  "isIPv4 v = ipv4_loop 4 v"

definition matchesFormat :: "format \<Rightarrow> gobytes \<Rightarrow> bool" where
  "matchesFormat f v =
     (if f = FormatUUID then isUUID v
      else if f = FormatDateTime then isDateTime v
      else if f = FormatDate then isDate v
      else if f = FormatEmail then isEmail v
      else if f = FormatHexadecimal then isHex v
      else if f = FormatBase64 then isBase64 v
      else if f = FormatIPv4 then isIPv4 v
      else True)"

text \<open>\<open>strings.ToLower\<close> folds ASCII letters like \<open>ascii_lower\<close>; the names are ASCII.\<close>

definition ParseFormat :: "string \<Rightarrow> format \<times> bool" where
  "ParseFormat s =
     (let t = map ascii_lower (ascii s) in
      if t = [] \<or> t = ascii ''none'' then (FormatNone, True)
      else if t = ascii ''uuid'' \<or> t = ascii ''guid'' then (FormatUUID, True)
      else if t = ascii ''date-time'' \<or> t = ascii ''datetime'' then (FormatDateTime, True)
      else if t = ascii ''date'' then (FormatDate, True)
      else if t = ascii ''email'' \<or> t = ascii ''idn-email'' then (FormatEmail, True)
      else if t = ascii ''hex'' \<or> t = ascii ''hexadecimal'' then (FormatHexadecimal, True)
      else if t = ascii ''base64'' \<or> t = ascii ''byte'' then (FormatBase64, True)
      else if t = ascii ''ipv4'' then (FormatIPv4, True)
      else (FormatNone, False))"

section \<open>Numeric bounds\<close>

record 'f float_ops =
  fl_nat :: "nat \<Rightarrow> 'f"
  fl_add :: "'f \<Rightarrow> 'f \<Rightarrow> 'f"
  fl_mul :: "'f \<Rightarrow> 'f \<Rightarrow> 'f"
  fl_div :: "'f \<Rightarrow> 'f \<Rightarrow> 'f"
  fl_neg :: "'f \<Rightarrow> 'f"
  fl_less :: "'f \<Rightarrow> 'f \<Rightarrow> bool"

fun int_part :: "'f float_ops \<Rightarrow> gobytes \<Rightarrow> 'f \<Rightarrow> nat \<Rightarrow> (gobytes \<times> 'f \<times> nat) option" where
  "int_part F [] n digits = Some ([], n, digits)"
| "int_part F (c # cs) n digits =
     (if dec_digit c then
        (let n = fl_add F (fl_mul F n (fl_nat F 10)) (fl_nat F (unat (c - 48)));
             digits = digits + 1
         in if 17 < digits then None else int_part F cs n digits)
      else Some (c # cs, n, digits))"

fun frac_part ::
  "'f float_ops \<Rightarrow> gobytes \<Rightarrow> 'f \<Rightarrow> 'f \<Rightarrow> nat \<Rightarrow> (gobytes \<times> 'f \<times> nat) option"
where
  "frac_part F [] scale n digits = Some ([], n, digits)"
| "frac_part F (c # cs) scale n digits =
     (if dec_digit c then
        (let scale = fl_div F scale (fl_nat F 10);
             n = fl_add F n (fl_mul F (fl_nat F (unat (c - 48))) scale);
             digits = digits + 1
         in if 17 < digits then None else frac_part F cs scale n digits)
      else Some (c # cs, n, digits))"

definition parseFloat :: "'f float_ops \<Rightarrow> gobytes \<Rightarrow> 'f option" where
  "parseFloat F v =
     (let neg = starts_in [45] v in
      case int_part F (drop_sign v) (fl_nat F 0) 0 of
        None \<Rightarrow> None
      | Some (v, n, digits) \<Rightarrow>
          (case (if starts_in [46] v then frac_part F (tl v) (fl_nat F 1) n digits
                 else Some (v, n, digits)) of
             None \<Rightarrow> None
           | Some (v, n, digits) \<Rightarrow>
               if starts_in [101, 69] v then None
               else if v \<noteq> [] \<or> digits = 0 then None
               else Some (if neg then fl_neg F n else n)))"

definition inRange :: "'f float_ops \<Rightarrow> 'f field \<Rightarrow> gobytes \<Rightarrow> violation" where
  "inRange F f v =
     (if f_Min f = None \<and> f_Max f = None then ViolationNone
      else case parseFloat F v of
        None \<Rightarrow> ViolationRange
      | Some n \<Rightarrow>
          if (case f_Min f of None \<Rightarrow> False | Some lo \<Rightarrow> fl_less F n lo) then ViolationRange
          else if (case f_Max f of None \<Rightarrow> False | Some hi \<Rightarrow> fl_less F hi n) then ViolationRange
          else ViolationNone)"

definition Validate :: "'f float_ops \<Rightarrow> 'f field \<Rightarrow> gobytes \<Rightarrow> violation" where
  "Validate F f v =
     (if 0 < f_MaxLength f \<and> f_MaxLength f < int (length v) then ViolationLength
      else if f_Kind f = KindInteger then (if \<not> isInteger v then ViolationType else inRange F f v)
      else if f_Kind f = KindNumber then (if \<not> isNumber v then ViolationType else inRange F f v)
      else if f_Kind f = KindBoolean then (if \<not> isBoolean v then ViolationType else ViolationNone)
      else if f_Kind f = KindEnum then
        (if \<not> inEnum (f_Enum f) v then ViolationEnum else ViolationNone)
      else if f_Kind f = KindString then
        (if \<not> matchesFormat (f_Format f) v then ViolationFormat else ViolationNone)
      else ViolationNone)"

end
