(* ===== verification/SchemaCorrect.thy ===== *)
theory SchemaCorrect
  imports SchemaValidate
begin

text \<open>
  The schema's promises: the values that pass for an inert field are exactly those spelled in one of a
  few forms, a route template matches segment by segment, and a lookup finds an operation exactly when
  one describes the request.
\<close>

section \<open>Scanners\<close>

lemma digits_loop_iff: "digits_loop v \<longleftrightarrow> (\<forall>c \<in> set v. dec_digit c)"
  by (induction v) (auto simp: dec_digit_def not_less)

lemma isDigits_iff: "isDigits v \<longleftrightarrow> v \<noteq> [] \<and> (\<forall>c \<in> set v. dec_digit c)"
  by (auto simp: isDigits_def digits_loop_iff)

lemma hex_loop_iff: "hex_loop v \<longleftrightarrow> (\<forall>c \<in> set v. hex_digit c)"
  by (induction v) auto

lemma scan_digits_eq:
  "scan_digits v n = (dropWhile dec_digit v, n + length (takeWhile dec_digit v))"
  by (induction v arbitrary: n) auto

lemma inEnum_iff: "inEnum as v \<longleftrightarrow> v \<in> set as"
  by (induction as) auto

section \<open>The spelling of inert values\<close>

definition digits :: "gobytes \<Rightarrow> bool" where
  "digits ds \<longleftrightarrow> list_all dec_digit ds"

definition sign :: "gobytes \<Rightarrow> bool" where
  "sign s \<longleftrightarrow> s = [] \<or> s = ascii ''+'' \<or> s = ascii ''-''"

text \<open>A byte for each place of a pattern.\<close>

definition fits :: "(byte \<Rightarrow> bool) list \<Rightarrow> gobytes \<Rightarrow> bool" where
  "fits pat v \<longleftrightarrow> list_all2 (\<lambda>P c. P c) pat v"

abbreviation dash :: "byte \<Rightarrow> bool" where "dash \<equiv> \<lambda>c. c = 45"
abbreviation colon :: "byte \<Rightarrow> bool" where "colon \<equiv> \<lambda>c. c = 58"

definition integer_spelled :: "gobytes \<Rightarrow> bool" where
  "integer_spelled v \<longleftrightarrow> (\<exists>s ds. v = s @ ds \<and> sign s \<and> digits ds \<and> ds \<noteq> [])"

definition number_spelled :: "gobytes \<Rightarrow> bool" where
  "number_spelled v \<longleftrightarrow> (\<exists>s ds point fs e. v = s @ ds @ point @ fs @ e \<and> sign s \<and> digits ds \<and> digits fs \<and>
     ds @ fs \<noteq> [] \<and> (point = ascii ''.'' \<or> point = [] \<and> fs = []) \<and>
     (e = [] \<or> (\<exists>c s' xs. e = c # s' @ xs \<and> c \<in> set (ascii ''eE'') \<and> sign s' \<and> digits xs \<and> xs \<noteq> [])))"

definition uuid_spelled :: "gobytes \<Rightarrow> bool" where
  "uuid_spelled v \<longleftrightarrow> length v = 36 \<and>
     (\<forall>i < 36. if i \<in> {8, 13, 18, 23} then v ! i = 45 else hex_digit (v ! i))"

definition octet_spelled :: "gobytes \<Rightarrow> bool" where
  "octet_spelled ds \<longleftrightarrow> digits ds \<and> ds \<noteq> [] \<and> length ds \<le> 3 \<and> foldl (\<lambda>n c. 10 * n + unat (c - 48)) 0 ds \<le> 255"

definition ipv4_spelled :: "gobytes \<Rightarrow> bool" where
  "ipv4_spelled v \<longleftrightarrow> (\<exists>a b c d. v = a @ 46 # b @ 46 # c @ 46 # d \<and>
     octet_spelled a \<and> octet_spelled b \<and> octet_spelled c \<and> octet_spelled d)"

definition date_spelled :: "gobytes \<Rightarrow> bool" where
  "date_spelled = fits [dec_digit, dec_digit, dec_digit, dec_digit, dash, dec_digit, dec_digit, dash, dec_digit, dec_digit]"

definition datetime_spelled :: "gobytes \<Rightarrow> bool" where
  "datetime_spelled v \<longleftrightarrow> (\<exists>d t fs z. v = d @ t @ fs @ z \<and> date_spelled d \<and>
     fits [\<lambda>c. c = 84 \<or> c = 116, dec_digit, dec_digit, colon, dec_digit, dec_digit, colon, dec_digit, dec_digit] t \<and>
     (fs = [] \<or> (\<exists>ds. fs = 46 # ds \<and> digits ds \<and> ds \<noteq> [])) \<and>
     (z = ascii ''Z'' \<or> z = ascii ''z'' \<or>
      fits [\<lambda>c. c = 43 \<or> c = 45, dec_digit, dec_digit, colon, dec_digit, dec_digit] z))"

definition inert_spelled :: "'f field \<Rightarrow> gobytes \<Rightarrow> bool" where
  "inert_spelled f v \<longleftrightarrow>
     (if f_Kind f = KindEnum then v \<in> set (f_Enum f)
      else if f_Kind f = KindInteger then integer_spelled v
      else if f_Kind f = KindNumber then number_spelled v
      else if f_Kind f = KindBoolean then v \<in> set (map ascii [''true'', ''false'', ''TRUE'', ''FALSE'', ''True'', ''False'', ''1'', ''0''])
      else if f_Format f = FormatUUID then uuid_spelled v
      else if f_Format f = FormatHexadecimal then v \<noteq> [] \<and> list_all hex_digit v
      else if f_Format f = FormatIPv4 then ipv4_spelled v
      else if f_Format f = FormatDate then date_spelled v
      else datetime_spelled v)"

text \<open>The bytes these spellings use: letters, digits, plus, minus, dot and colon.\<close>

definition plain_byte :: "byte \<Rightarrow> bool" where
  "plain_byte c \<longleftrightarrow> 48 \<le> c \<and> c \<le> 57 \<or> 65 \<le> c \<and> c \<le> 90 \<or> 97 \<le> c \<and> c \<le> 122 \<or>
     c \<in> set (ascii ''+-.:'')"

section \<open>The code accepts these spellings\<close>

lemma fits_simps [simp]:
  "fits [] v \<longleftrightarrow> v = []" "fits (P # pat) v \<longleftrightarrow> (\<exists>c w. v = c # w \<and> P c \<and> fits pat w)"
  by (auto simp: fits_def list_all2_Cons1)

lemma dec_digit_not [simp]: "\<not> dec_digit 43" "\<not> dec_digit 45" "\<not> dec_digit 46" "\<not> dec_digit 101" "\<not> dec_digit 69"
    "\<not> dec_digit 58" "\<not> dec_digit 90" "\<not> dec_digit 122"
  by (simp_all add: dec_digit_def byte_simps)

lemma drop_sign_split: obtains s where "v = s @ drop_sign v" "sign s"
  by (rule that [of "take (length v - length (drop_sign v)) v"]) (cases v; simp add: drop_sign_def sign_def)+

lemma drop_sign_append: "sign s \<Longrightarrow> w = [] \<or> hd w \<noteq> 43 \<and> hd w \<noteq> 45 \<Longrightarrow> drop_sign (s @ w) = w"
  by (cases w) (auto simp: sign_def drop_sign_def)

lemma digits_hd: "digits w \<Longrightarrow> w = [] \<or> hd w \<noteq> 43 \<and> hd w \<noteq> 45"
  by (cases w) (auto simp: digits_def)

lemma isInteger_iff: "isInteger v \<longleftrightarrow> integer_spelled v"
proof
  assume "isInteger v"
  moreover obtain s where "v = s @ drop_sign v" "sign s" by (rule drop_sign_split)
  ultimately show "integer_spelled v"
    unfolding integer_spelled_def by (intro exI [of _ s] exI [of _ "drop_sign v"])
      (auto simp: isInteger_def Let_def digits_loop_iff digits_def list_all_iff split: if_splits)
next
  assume "integer_spelled v"
  then obtain s ds where "v = s @ ds" "sign s" "digits ds" "ds \<noteq> []" by (auto simp: integer_spelled_def)
  with drop_sign_append [of s ds] digits_hd [of ds] show "isInteger v"
    by (auto simp: isInteger_def Let_def digits_loop_iff digits_def list_all_iff)
qed

lemma exponent_iff:
  "ends_exponent e \<longleftrightarrow> e = [] \<or> (\<exists>c s xs. e = c # s @ xs \<and> c \<in> set (ascii ''eE'') \<and> sign s \<and> digits xs \<and> xs \<noteq> [])"
proof (cases "starts_in [101, 69] e")
  case True
  then obtain c w where e: "e = c # w" "c \<in> set (ascii ''eE'')" by (cases e) (auto simp: starts_in_def)
  have "ends_exponent e \<longleftrightarrow> integer_spelled w"
    unfolding isInteger_iff [symmetric] using True
    by (cases w) (auto simp: e(1) ends_exponent_def isInteger_def Let_def scan_digits_eq digits_loop_iff dropWhile_eq_Nil_conv
      takeWhile_eq_Nil_iff drop_sign_def)
  then show ?thesis using e by (auto simp: integer_spelled_def)
qed (auto simp: ends_exponent_def starts_in_def split: list.splits)


lemma span_digits: "digits ds \<Longrightarrow> w = [] \<or> \<not> dec_digit (hd w) \<Longrightarrow>
    takeWhile dec_digit (ds @ w) = ds \<and> dropWhile dec_digit (ds @ w) = w"
  by (induction ds) (auto simp: digits_def dropWhile_eq_self_iff takeWhile_eq_Nil_iff)

lemma digits_takeWhile [simp]: "digits (takeWhile dec_digit v)"
  by (auto simp: digits_def list_all_iff dest: set_takeWhileD)

lemma isNumber_iff: "isNumber v \<longleftrightarrow> number_spelled v"
proof
  assume n: "isNumber v"
  obtain s where s: "v = s @ drop_sign v" "sign s" by (rule drop_sign_split)
  let ?w = "drop_sign v"
  let ?ds = "takeWhile dec_digit ?w" and ?u = "dropWhile dec_digit ?w"
  define point where "point = (if starts_in [46] ?u then [46 :: byte] else [])"
  define fs where "fs = (if starts_in [46] ?u then takeWhile dec_digit (tl ?u) else [])"
  define e where "e = (if starts_in [46] ?u then dropWhile dec_digit (tl ?u) else ?u)"
  have "u = (if starts_in [46] u then [46 :: byte] else []) @ (if starts_in [46] u then takeWhile dec_digit (tl u) else []) @
      (if starts_in [46] u then dropWhile dec_digit (tl u) else u)" for u
    by (cases u) (auto simp: starts_in_def)
  from this [of ?u] have u: "?u = point @ fs @ e" unfolding point_def fs_def e_def .
  have "v = s @ ?ds @ point @ fs @ e" using s(1) by (metis u takeWhile_dropWhile_id)
  moreover have "ends_exponent e" "?ds @ fs \<noteq> []"
    using n by (auto simp: isNumber_def Let_def scan_digits_eq scan_fraction_def e_def fs_def split: if_splits)
  moreover have "digits fs" "point = ascii ''.'' \<or> point = [] \<and> fs = []"
    by (auto simp: fs_def point_def) (simp add: digits_def)
  ultimately show "number_spelled v"
    unfolding number_spelled_def exponent_iff using s(2) digits_takeWhile by blast
next
  assume "number_spelled v"
  then obtain s ds point fs e where v: "v = s @ ds @ point @ fs @ e" "sign s" "digits ds" "digits fs" "ds @ fs \<noteq> []"
      "point = ascii ''.'' \<or> point = [] \<and> fs = []" and e: "ends_exponent e"
    unfolding number_spelled_def exponent_iff [symmetric] by blast
  have he: "e = [] \<or> \<not> dec_digit (hd e) \<and> hd e \<noteq> 43 \<and> hd e \<noteq> 45 \<and> hd e \<noteq> 46" using e unfolding exponent_iff by auto
  have d: "drop_sign v = ds @ point @ fs @ e"
    unfolding v(1) by (rule drop_sign_append [OF v(2)]) (use v(3-6) he digits_hd [of ds] in \<open>cases ds; auto\<close>)
  have "takeWhile dec_digit (drop_sign v) = ds \<and> dropWhile dec_digit (drop_sign v) = point @ fs @ e"
    unfolding d by (rule span_digits [OF v(3)]) (use v(6) he in auto)
  then have s: "scan_digits (drop_sign v) 0 = (point @ fs @ e, length ds)" by (simp add: scan_digits_eq)
  have "takeWhile dec_digit (fs @ e) = fs \<and> dropWhile dec_digit (fs @ e) = e"
    by (rule span_digits [OF v(4)]) (use he in auto)
  then have "scan_digits (fs @ e) n = (e, n + length fs)" for n by (simp add: scan_digits_eq)
  then have "scan_fraction (scan_digits (drop_sign v) 0) = (e, length ds + length fs)"
    using v(6) he by (cases e) (auto simp: s scan_fraction_def starts_in_def)
  moreover have "v \<noteq> []" using v(1,5) by auto
  ultimately show "isNumber v" using v(5) e by (auto simp: isNumber_def)
qed

definition dash_place :: "nat \<Rightarrow> bool" where
  "dash_place i \<longleftrightarrow> i = 8 \<or> i = 13 \<or> i = 18 \<or> i = 23"

lemma uuid_loop_places:
  "uuid_loop i v \<longleftrightarrow> (\<forall>j < length v. if dash_place (i + j) then v ! j = 45 else hex_digit (v ! j))"
proof (induction v arbitrary: i)
  case (Cons c cs)
  have "uuid_loop i (c # cs) \<longleftrightarrow> (if dash_place i then c = 45 else hex_digit c) \<and> uuid_loop (Suc i) cs"
    unfolding uuid_loop.simps dash_place_def by presburger
  then show ?case unfolding Cons by (simp add: All_less_Suc2)
qed simp

lemma isUUID_iff: "isUUID v \<longleftrightarrow> uuid_spelled v"
  unfolding isUUID_def uuid_loop_places uuid_spelled_def dash_place_def by auto

lemma octet_loop_eq:
  "k \<le> 3 \<Longrightarrow> octet_loop v k n = (let ds = takeWhile dec_digit v in
     if 3 < k + length ds then None else Some (dropWhile dec_digit v, k + length ds, foldl (\<lambda>n c. 10 * n + unat (c - 48)) n ds))"
  by (induction v k n rule: octet_loop.induct) (auto simp: Let_def mult.commute)

lemma ipv4_step:
  "ipv4_loop (Suc left) v \<longleftrightarrow> (\<exists>a w. v = a @ w \<and> octet_spelled a \<and>
     (if 0 < left then \<exists>w'. w = 46 # w' \<and> ipv4_loop left w' else w = []))"
proof
  obtain ds w where dw: "ds = takeWhile dec_digit v" "w = dropWhile dec_digit v" by blast
  assume "ipv4_loop (Suc left) v"
  then have "octet_spelled ds" "if 0 < left then starts_in [46] w \<and> ipv4_loop left (tl w) else w = []"
    by (auto simp: dw octet_loop_eq octet_spelled_def Let_def not_less split: if_splits)
  moreover have "v = ds @ w" by (simp add: dw)
  ultimately show "\<exists>a w. v = a @ w \<and> octet_spelled a \<and> (if 0 < left then \<exists>w'. w = 46 # w' \<and> ipv4_loop left w' else w = [])"
    by (intro exI [of _ ds] exI [of _ w]) (cases w; simp add: starts_in_def split: if_splits)
next
  assume "\<exists>a w. v = a @ w \<and> octet_spelled a \<and> (if 0 < left then \<exists>w'. w = 46 # w' \<and> ipv4_loop left w' else w = [])"
  then obtain a w where v: "v = a @ w" "octet_spelled a" "if 0 < left then \<exists>w'. w = 46 # w' \<and> ipv4_loop left w' else w = []"
    by blast
  have "takeWhile dec_digit (a @ w) = a \<and> dropWhile dec_digit (a @ w) = w"
    by (rule span_digits) (use v(2,3) in \<open>auto simp: octet_spelled_def split: if_splits\<close>)
  with v show "ipv4_loop (Suc left) v"
    by (auto simp: octet_loop_eq octet_spelled_def Let_def starts_in_def split: if_splits)
qed

lemma isIPv4_iff: "isIPv4 v \<longleftrightarrow> ipv4_spelled v"
  unfolding isIPv4_def ipv4_spelled_def by (simp add: numeral_eq_Suc ipv4_step del: ipv4_loop.simps(2)) blast

lemma isDate_iff: "isDate v \<longleftrightarrow> date_spelled v"
  by (auto simp: isDate_def date_spelled_def isDigits_iff gslice_def numeral_eq_Suc length_Suc_conv)

lemma isZone_iff: "isZone z \<longleftrightarrow> z = ascii ''Z'' \<or> z = ascii ''z'' \<or>
    fits [\<lambda>c. c = 43 \<or> c = 45, dec_digit, dec_digit, colon, dec_digit, dec_digit] z"
  by (auto simp: isZone_def isDigits_iff gslice_def numeral_eq_Suc length_Suc_conv)

definition zone_part :: "gobytes \<Rightarrow> bool" where
  "zone_part w \<longleftrightarrow> (if starts_in [46] w then takeWhile dec_digit (tl w) \<noteq> [] \<and> isZone (dropWhile dec_digit (tl w)) else isZone w)"

lemma isZone_hd: "isZone z \<Longrightarrow> z \<noteq> [] \<and> \<not> dec_digit (hd z) \<and> hd z \<noteq> 46"
  unfolding isZone_iff by auto

lemma zone_part_iff:
  "zone_part w \<longleftrightarrow> (\<exists>fs z. w = fs @ z \<and> (fs = [] \<or> (\<exists>ds. fs = 46 # ds \<and> digits ds \<and> ds \<noteq> [])) \<and> isZone z)"
proof
  assume z: "zone_part w"
  show "\<exists>fs z. w = fs @ z \<and> (fs = [] \<or> (\<exists>ds. fs = 46 # ds \<and> digits ds \<and> ds \<noteq> [])) \<and> isZone z"
  proof (cases "starts_in [46] w")
    case True
    then have "w = (46 # takeWhile dec_digit (tl w)) @ dropWhile dec_digit (tl w)"
      by (cases w) (auto simp: starts_in_def)
    with True z show ?thesis unfolding zone_part_def by (metis digits_takeWhile)
  qed (use z in \<open>auto simp: zone_part_def\<close>)
next
  assume "\<exists>fs z. w = fs @ z \<and> (fs = [] \<or> (\<exists>ds. fs = 46 # ds \<and> digits ds \<and> ds \<noteq> [])) \<and> isZone z"
  then obtain fs z where w: "w = fs @ z" "isZone z" "fs = [] \<or> (\<exists>ds. fs = 46 # ds \<and> digits ds \<and> ds \<noteq> [])" by blast
  note h = isZone_hd [OF w(2)]
  from w(3) show "zone_part w"
  proof
    assume "fs = []"
    with w h show ?thesis by (cases z) (auto simp: zone_part_def starts_in_def)
  next
    assume "\<exists>ds. fs = 46 # ds \<and> digits ds \<and> ds \<noteq> []"
    then obtain ds where "fs = 46 # ds" "digits ds" "ds \<noteq> []" by blast
    with w h span_digits [of ds z] show ?thesis by (simp add: zone_part_def starts_in_def)
  qed
qed

abbreviation time_pattern :: "(byte \<Rightarrow> bool) list" where
  "time_pattern \<equiv> [\<lambda>c. c = 84 \<or> c = 116, dec_digit, dec_digit, colon, dec_digit, dec_digit, colon, dec_digit, dec_digit]"

lemma isDateTime_parts:
  assumes "length d = 10" "length t = 9"
  shows "isDateTime (d @ t @ w) \<longleftrightarrow> isDate d \<and> fits time_pattern t \<and> zone_part w"
proof -
  obtain a b c e f g h i j where t: "t = [a, b, c, e, f, g, h, i, j]"
    using assms(2) by (auto simp: numeral_eq_Suc length_Suc_conv)
  have w: "w = [] \<Longrightarrow> \<not> zone_part w" using isZone_hd [of w] by (auto simp: zone_part_def starts_in_def)
  have s: "0 < length w \<and> w ! 0 = 46 \<longleftrightarrow> starts_in [46] w" by (cases w) (simp_all add: starts_in_def)
  have "drop 11 (d @ t @ w) = [b, c, e, f, g, h, i, j] @ w" "(d @ t @ w) ! 10 = a" "take 10 (d @ t @ w) = d"
    using assms(1) by (simp_all add: t nth_append)
  then show ?thesis
    unfolding isDateTime_def Let_def using w s assms
    by (cases w) (auto simp: t isDigits_iff gslice_def scan_digits_eq zone_part_def starts_in_def)
qed

lemma isDateTime_iff: "isDateTime v \<longleftrightarrow> datetime_spelled v"
proof
  assume v: "isDateTime v"
  then have "20 \<le> length v" by (simp add: isDateTime_def split: if_splits)
  then have "v = take 10 v @ take 9 (drop 10 v) @ drop 19 v" "length (take 10 v) = 10" "length (take 9 (drop 10 v)) = 9"
    by (simp_all flip: append_assoc take_add)
  then obtain d t w where d: "v = d @ t @ w" "length d = 10" "length t = 9" by blast
  from v have p: "isDate d" "fits time_pattern t" "zone_part w" unfolding d(1) isDateTime_parts [OF d(2,3)] by simp_all
  from p(3) obtain fs z where "w = fs @ z" "fs = [] \<or> (\<exists>ds. fs = 46 # ds \<and> digits ds \<and> ds \<noteq> [])" "isZone z"
    unfolding zone_part_iff by blast
  with d(1) p(1,2) show "datetime_spelled v"
    unfolding datetime_spelled_def isZone_iff [symmetric] isDate_iff [symmetric] by blast
next
  assume "datetime_spelled v"
  then obtain d t fs z where v: "v = d @ t @ fs @ z" "isDate d" "fits time_pattern t"
      "fs = [] \<or> (\<exists>ds. fs = 46 # ds \<and> digits ds \<and> ds \<noteq> [])" "isZone z"
    unfolding datetime_spelled_def isZone_iff [symmetric] isDate_iff [symmetric] by blast
  then have "zone_part (fs @ z)" unfolding zone_part_iff by blast
  moreover have "length d = 10" "length t = 9" using v(2,3) by (auto simp: isDate_def)
  ultimately show "isDateTime v" unfolding v(1) using isDateTime_parts v(2,3) by blast
qed

lemma matchesFormat_iff:
  "fm \<in> {FormatUUID, FormatDateTime, FormatDate, FormatHexadecimal, FormatIPv4} \<Longrightarrow> matchesFormat fm v \<longleftrightarrow>
     (if fm = FormatUUID then uuid_spelled v
      else if fm = FormatHexadecimal then v \<noteq> [] \<and> list_all hex_digit v
      else if fm = FormatIPv4 then ipv4_spelled v
      else if fm = FormatDate then date_spelled v
      else datetime_spelled v)"
  unfolding matchesFormat_def isUUID_iff isIPv4_iff isDate_iff isDateTime_iff
  by (auto simp: isHex_def hex_loop_iff list_all_iff)

lemma Validate_inert_iff:
  assumes "Inert f"
  shows "Validate F f v = ViolationNone \<longleftrightarrow> inert_spelled f v \<and>
    \<not> (0 < f_MaxLength f \<and> f_MaxLength f < int (length v)) \<and>
    (f_Kind f = KindInteger \<or> f_Kind f = KindNumber \<longrightarrow> inRange F f v = ViolationNone)"
proof -
  consider "f_Kind f = KindInteger" | "f_Kind f = KindNumber" | "f_Kind f = KindBoolean" | "f_Kind f = KindEnum"
    | "f_Kind f = KindString" "f_Format f \<in> {FormatUUID, FormatDateTime, FormatDate, FormatHexadecimal, FormatIPv4}"
    using assms by (auto simp: Inert_def split: if_splits)
  then show ?thesis
  proof cases
    case 1 then show ?thesis by (simp add: Validate_def inert_spelled_def isInteger_iff)
  next
    case 2 then show ?thesis by (simp add: Validate_def inert_spelled_def isNumber_iff)
  next
    case 3 then show ?thesis by (simp add: Validate_def inert_spelled_def isBoolean_def)
  next
    case 4 then show ?thesis by (simp add: Validate_def inert_spelled_def inEnum_iff)
  next
    case 5
    have "inert_spelled f v \<longleftrightarrow> matchesFormat (f_Format f) v"
      using 5(1) unfolding matchesFormat_iff [OF 5(2)] inert_spelled_def by simp
    with 5(1) show ?thesis by (simp add: Validate_def)
  qed
qed

lemma plain_digit: "dec_digit c \<Longrightarrow> plain_byte c" "hex_digit c \<Longrightarrow> plain_byte c"
  by (auto simp: dec_digit_def hex_digit_def plain_byte_def byte_simps)

lemma plain_bytes [simp]: "plain_byte 43" "plain_byte 45" "plain_byte 46" "plain_byte 58" "plain_byte 84" "plain_byte 90"
    "plain_byte 116" "plain_byte 122" "plain_byte 101" "plain_byte 69"
  by (simp_all add: plain_byte_def byte_simps)

lemma plain_parts:
  "digits ds \<Longrightarrow> list_all plain_byte ds" "sign s \<Longrightarrow> list_all plain_byte s" "octet_spelled ds \<Longrightarrow> list_all plain_byte ds"
  "date_spelled v \<Longrightarrow> list_all plain_byte v" "isZone v \<Longrightarrow> list_all plain_byte v"
  by (auto simp: digits_def sign_def octet_spelled_def date_spelled_def isZone_iff list_all_iff plain_digit)

lemma plain_uuid: "uuid_spelled v \<Longrightarrow> list_all plain_byte v"
  unfolding uuid_spelled_def list_all_length using plain_digit(2) plain_bytes(2) by metis

lemma inert_spelled_plain:
  assumes "inert_spelled f v" "f_Kind f \<noteq> KindEnum"
  shows "list_all plain_byte v"
proof -
  consider "integer_spelled v" | "number_spelled v"
    | "v \<in> set (map ascii [''true'', ''false'', ''TRUE'', ''FALSE'', ''True'', ''False'', ''1'', ''0''])" | "uuid_spelled v"
    | "list_all hex_digit v" | "ipv4_spelled v" | "date_spelled v" | "datetime_spelled v"
    using assms unfolding inert_spelled_def by (simp only: if_False split: if_splits)
  then show ?thesis
  proof cases
    case 1 then show ?thesis by (auto simp: integer_spelled_def plain_parts)
  next
    case 2 then show ?thesis by (auto simp: number_spelled_def plain_parts)
  next
    case 3 then show ?thesis by (auto simp: plain_byte_def)
  next
    case 5 then show ?thesis by (simp add: list_all_iff plain_digit)
  next
    case 6 then show ?thesis by (auto simp: ipv4_spelled_def plain_parts)
  next
    case 8
    then obtain d t fs z where v: "v = d @ t @ fs @ z" "date_spelled d" "fits time_pattern t"
        "fs = [] \<or> (\<exists>ds. fs = 46 # ds \<and> digits ds \<and> ds \<noteq> [])" "isZone z"
      unfolding datetime_spelled_def isZone_iff [symmetric] by blast
    have "list_all plain_byte t" using v(3) by (auto simp: plain_digit)
    with v show ?thesis by (auto simp: plain_parts)
  qed (simp_all add: plain_parts plain_uuid)
qed

text \<open>A bounded numeric field refuses every literal of more than 17 digits, whatever its value.\<close>

lemma int_part_long:
  "17 < k + length v \<Longrightarrow> k \<le> 17 \<Longrightarrow> digits_loop v \<Longrightarrow> int_part F v n k = None"
proof (induction v arbitrary: n k)
  case (Cons c cs)
  then show ?case by (cases "k = 17") (auto simp: digits_loop_iff Let_def)
qed simp

lemma long_literal_out_of_range:
  assumes "f_Kind f = KindInteger" and "f_MaxLength f = 0" and "f_Max f \<noteq> None"
    and "isInteger v" and "18 < length v"
  shows "Validate F f v = ViolationRange"
proof -
  have "length v \<le> Suc (length (drop_sign v))" by (cases v) (auto simp: drop_sign_def)
  then have "int_part F (drop_sign v) (fl_nat F 0) 0 = None"
    using assms(4,5) by (intro int_part_long) (auto simp: isInteger_def Let_def split: if_splits)
  then show ?thesis using assms by (auto simp: Validate_def inRange_def parseFloat_def)
qed

section \<open>Templates\<close>

fun split_slash :: "gobytes \<Rightarrow> gobytes list" where
  "split_slash [] = [[]]"
| "split_slash (c # cs) =
     (if c = 47 then [] # split_slash cs
      else case split_slash cs of [] \<Rightarrow> [[c]] | x # xs \<Rightarrow> (c # x) # xs)"

definition join_path :: "gobytes list \<Rightarrow> gobytes" where
  "join_path xs = concat (map (\<lambda>x. 47 # x) xs)"

lemma split_slash_nonempty [simp]: "split_slash p \<noteq> []"
  by (cases p) (auto split: list.splits)

lemma join_split: "join_path (split_slash p) = 47 # p"
proof (induction p)
  case (Cons c cs)
  then show ?case by (cases "split_slash cs") (auto simp: join_path_def)
qed (simp add: join_path_def)

lemma split_slash_free: "\<forall>x \<in> set (split_slash p). 47 \<notin> set x"
proof (induction p)
  case (Cons c cs)
  then show ?case by (cases "split_slash cs") auto
qed simp

text \<open>The segments of a path, which may or may not begin with its slash.\<close>

definition path_segments :: "gobytes \<Rightarrow> gobytes list" where
  "path_segments p = (case p of [] \<Rightarrow> [] | c # cs \<Rightarrow> split_slash (if c = 47 then cs else p))"

text \<open>A parameter segment, in braces, takes any segment that is not empty.\<close>

definition segment_ok :: "gobytes \<Rightarrow> gobytes \<Rightarrow> bool" where
  "segment_ok t p \<longleftrightarrow> (if \<exists>name. t = [123] @ name @ [125] then p \<noteq> [] else t = p)"

lemma is_param_iff: "is_param t \<longleftrightarrow> (\<exists>name. t = [123] @ name @ [125])"
proof
  assume p: "is_param t"
  then obtain c cs where t: "t = c # cs" "cs \<noteq> []" by (cases t; cases "tl t") (auto simp: is_param_def)
  then have "t = [c] @ butlast cs @ [last cs]" by simp
  moreover have "c = 123" "last cs = 125" using p t by (simp_all add: is_param_def last_conv_nth nth_Cons')
  ultimately show "\<exists>name. t = [123] @ name @ [125]" by metis
qed (auto simp: is_param_def nth_append)

fun segments_match :: "gobytes list \<Rightarrow> gobytes list \<Rightarrow> bool" where
  "segments_match (t # ts) (p # ps) \<longleftrightarrow>
     t = ascii ''*'' \<or> segment_ok t p \<and> segments_match ts ps"
| "segments_match ts ps \<longleftrightarrow> ts = [] \<and> ps = []"

lemma nextSegment_join:
  assumes "47 \<notin> set x"
  shows "nextSegment (join_path (x # xs)) = (x, join_path xs)"
proof -
  have "takeWhile (\<lambda>c. c \<noteq> 47) (x @ join_path xs) = x"
    and "dropWhile (\<lambda>c. c \<noteq> 47) (x @ join_path xs) = join_path xs"
    using assms by (induction x; cases xs; auto simp: join_path_def)+
  then show ?thesis by (simp add: nextSegment_def join_path_def)
qed

lemma join_path_Nil [simp]: "join_path [] = []"
  by (simp add: join_path_def)

lemma join_path_Nil_iff [simp]: "join_path xs = [] \<longleftrightarrow> xs = []" "[] = join_path xs \<longleftrightarrow> xs = []"
  by (cases xs; auto simp: join_path_def)+

lemma template_loop_segments:
  "\<forall>x \<in> set ts \<union> set ps. 47 \<notin> set x \<Longrightarrow>
   template_loop (join_path ts) (join_path ps) \<longleftrightarrow> segments_match ts ps"
proof (induction ts ps rule: segments_match.induct)
  case (1 t ts p ps)
  then show ?case
    by (subst template_loop.simps) (auto simp: nextSegment_join segment_ok_def is_param_iff)
qed (auto simp: template_loop.simps)

lemma template_loop_absolute: "template_loop (join_path (path_segments tpl)) (join_path (path_segments p)) = template_loop tpl p"
proof -
  have n: "nextSegment (join_path (path_segments s)) = nextSegment s" for s
    by (cases s) (auto simp: path_segments_def join_split nextSegment_def split: list.split)
  have e: "join_path (path_segments s) = [] \<longleftrightarrow> s = []" for s
    by (cases s) (auto simp: path_segments_def join_split)
  show ?thesis
    unfolding template_loop.simps [of "join_path (path_segments tpl)"] template_loop.simps [of tpl] n e
    using e [of tpl] e [of p] by (simp del: join_path_Nil_iff) metis
qed

lemma template_loop_path: "template_loop tpl p \<longleftrightarrow> segments_match (path_segments tpl) (path_segments p)"
proof -
  have "\<forall>x \<in> set (path_segments tpl) \<union> set (path_segments p). 47 \<notin> set x"
    using split_slash_free by (fastforce simp: path_segments_def split: list.splits)
  from template_loop_segments [OF this] show ?thesis by (simp only: template_loop_absolute)
qed

section \<open>Lookup\<close>

text \<open>An operation describes a request: same method or none declared, and the path is its path or, if
  that holds a brace or a star, an instance of it segment by segment.\<close>

definition literal_route :: "'f operation \<Rightarrow> bool" where
  "literal_route op \<longleftrightarrow> 123 \<notin> set (op_Path op) \<and> 42 \<notin> set (op_Path op)"

definition describes :: "'f operation \<Rightarrow> gobytes \<Rightarrow> gobytes \<Rightarrow> bool" where
  "describes op method path \<longleftrightarrow>
     (op_Method op = [] \<or> op_Method op = method) \<and>
     (if literal_route op then op_Path op = path
      else segments_match (path_segments (op_Path op)) (path_segments path))"

lemma templated_iff: "is_templated (op_Path op) \<longleftrightarrow> \<not> literal_route op"
  by (auto simp: is_templated_def literal_route_def list_ex_iff)

lemma describes_code:
  "describes op method path \<longleftrightarrow>
     (op_Method op = [] \<or> op_Method op = method) \<and>
     (if is_templated (op_Path op) then template_loop (op_Path op) path else op_Path op = path)"
  by (simp add: describes_def templated_iff template_loop_path)

definition describes_method :: "'f operation \<Rightarrow> gobytes \<Rightarrow> gobytes \<Rightarrow> bool" where
  "describes_method op method path \<longleftrightarrow>
     \<not> is_templated (op_Path op) \<and> op_Method op = method \<and> op_Path op = path"

lemma routeKey_inject:
  "32 \<notin> set m \<Longrightarrow> 32 \<notin> set m' \<Longrightarrow> routeKey m p = routeKey m' p' \<longleftrightarrow> m = m' \<and> p = p'"
proof (induction m arbitrary: m')
  case Nil
  then show ?case by (cases m') (auto simp: routeKey_def)
next
  case (Cons c m)
  then show ?case by (cases m') (auto simp: routeKey_def)
qed

lemma templated_loop_Some:
  "templated_loop ops m p = Some op \<Longrightarrow> op \<in> set ops \<and> matchTemplate op m p"
  by (induction ops) (auto split: if_splits)

lemma templated_loop_None:
  "templated_loop ops m p = None \<longleftrightarrow> (\<forall>op \<in> set ops. \<not> matchTemplate op m p)"
  by (induction ops) auto

text \<open>What the two indexes hold after compiling \<open>seen\<close>.\<close>

definition indexed :: "'f operation list \<Rightarrow> 'f schema \<Rightarrow> bool" where
  "indexed seen s \<longleftrightarrow>
     set (s_templated s) = {op \<in> set seen. is_templated (op_Path op)} \<and>
     (\<forall>m p op. 32 \<notin> set m \<longrightarrow> s_literal s (routeKey m p) = Some op \<longrightarrow>
        op \<in> set seen \<and> describes_method op m p) \<and>
     (\<forall>op \<in> set seen. \<not> is_templated (op_Path op) \<longrightarrow>
        s_literal s (routeKey (op_Method op) (op_Path op)) \<noteq> None)"

lemma indexed_templated:
  "indexed seen s \<Longrightarrow> is_templated (op_Path op) \<Longrightarrow>
   indexed (seen @ [op]) (s\<lparr>s_templated := s_templated s @ [op]\<rparr>)"
  by (auto simp: indexed_def)

lemma indexed_literal:
  assumes "indexed seen s" and "\<not> is_templated (op_Path op)" and "32 \<notin> set (op_Method op)"
  shows "indexed (seen @ [op])
    (s\<lparr>s_literal := (s_literal s)(routeKey (op_Method op) (op_Path op) \<mapsto> op)\<rparr>)"
proof -
  let ?s = "s\<lparr>s_literal := (s_literal s)(routeKey (op_Method op) (op_Path op) \<mapsto> op)\<rparr>"
  have "o' \<in> set (seen @ [op]) \<and> describes_method o' m p"
    if "32 \<notin> set m" and "s_literal ?s (routeKey m p) = Some o'" for m p o'
  proof (cases "routeKey m p = routeKey (op_Method op) (op_Path op)")
    case True
    with that assms(2,3) show ?thesis by (auto simp: routeKey_inject describes_method_def)
  next
    case False
    with that(2) have "s_literal s (routeKey m p) = Some o'" by simp
    with assms(1) that(1) have "o' \<in> set seen \<and> describes_method o' m p"
      unfolding indexed_def by blast
    then show ?thesis by simp
  qed
  moreover have "s_literal ?s (routeKey (op_Method o') (op_Path o')) \<noteq> None"
    if "o' \<in> set (seen @ [op])" and "\<not> is_templated (op_Path o')" for o'
    using that assms(1) unfolding indexed_def by (cases "o' = op") auto
  moreover have "set (s_templated ?s) = {o' \<in> set (seen @ [op]). is_templated (op_Path o')}"
    using assms(1,2) by (auto simp: indexed_def)
  ultimately show ?thesis unfolding indexed_def by blast
qed

lemma New_loop_indexed:
  "New_loop i ops s = Inr s' \<Longrightarrow> indexed seen s \<Longrightarrow> \<forall>op \<in> set ops. 32 \<notin> set (op_Method op) \<Longrightarrow>
   indexed (seen @ ops) s'"
proof (induction ops arbitrary: i s seen)
  case (Cons op ops)
  show ?case
  proof (cases "is_templated (op_Path op)")
    case True
    with Cons.prems Cons.IH [OF _ indexed_templated [OF Cons.prems(2) True]] show ?thesis
      by (auto split: if_splits option.splits)
  next
    case False
    with Cons.prems Cons.IH [OF _ indexed_literal [OF Cons.prems(2) False]] show ?thesis
      by (auto split: if_splits option.splits)
  qed
qed simp

lemma New_indexed:
  "New ops = Inr s \<Longrightarrow> \<forall>op \<in> set ops. 32 \<notin> set (op_Method op) \<Longrightarrow> indexed ops s"
  using New_loop_indexed [of 0 ops _ s "[]"]
  by (auto simp: New_def indexed_def)

lemma Lookup_indexed:
  assumes "indexed ops s" and "32 \<notin> set m"
  shows "case Lookup (Some s) m p of
      None \<Rightarrow> \<forall>op \<in> set ops. \<not> describes op m p
    | Some op \<Rightarrow> op \<in> set ops \<and> describes op m p \<and>
        (literal_route op \<longleftrightarrow> (\<exists>op' \<in> set ops. literal_route op' \<and> describes op' m p))"
proof -
  have tp: "set (s_templated s) = {op \<in> set ops. is_templated (op_Path op)}"
    and some: "s_literal s (routeKey m' p) = Some op \<Longrightarrow> op \<in> set ops \<and> describes_method op m' p"
    and none: "s_literal s (routeKey m' p) = None \<Longrightarrow> op \<in> set ops \<Longrightarrow> \<not> describes_method op m' p"
    if "32 \<notin> set m'" for m' op
    using assms(1) that by (auto simp: indexed_def describes_method_def)
  note T = tp [OF assms(2)]
  show ?thesis
  proof (cases "s_literal s (routeKey m p)")
    case (Some op)
    with some [OF assms(2), of op] show ?thesis
      by (auto simp: Lookup_def describes_code describes_method_def templated_iff)
  next
    case n1: None
    show ?thesis
    proof (cases "s_literal s (routeKey [] p)")
      case (Some op)
      with n1 some [of "[]" op] show ?thesis
        by (auto simp: Lookup_def describes_code describes_method_def templated_iff)
    next
      case n2: None
      have lit: "\<not> describes op m p" if "op \<in> set ops" "\<not> is_templated (op_Path op)" for op
        using none [OF assms(2) n1, of op] none [of "[]", OF _ n2, of op] that
        by (auto simp: describes_code describes_method_def)
      have eq: "Lookup (Some s) m p = templated_loop (s_templated s) m p"
        using n1 n2 by (simp add: Lookup_def)
      have mt: "matchTemplate op m p \<longleftrightarrow> describes op m p" if "is_templated (op_Path op)" for op
        using that by (auto simp: matchTemplate_def describes_code)
      show ?thesis
      proof (cases "templated_loop (s_templated s) m p")
        case None
        then have "\<not> describes op m p" if "op \<in> set ops" for op
          using lit [OF that] mt [of op] T that by (auto simp: templated_loop_None)
        with None eq show ?thesis by simp
      next
        case (Some op)
        with templated_loop_Some [OF Some] mt [of op] T eq lit show ?thesis by (auto simp: templated_iff)
      qed
    qed
  qed
qed

section \<open>Required fields\<close>

lemma FieldFor_loop_eq:
  "FieldFor_loop fs name fb =
     (case find (\<lambda>f. f_Name f = name) fs of Some f \<Rightarrow> Some f
      | None \<Rightarrow> (case find (\<lambda>f. f_Name f = []) (rev fs) of Some f \<Rightarrow> Some f | None \<Rightarrow> fb))"
proof (induction fs arbitrary: fb)
  case (Cons f fs)
  have app: "find P (xs @ [f]) = (case find P xs of Some y \<Rightarrow> Some y | None \<Rightarrow> if P f then Some f else None)"
    for P and xs :: "'a field list"
    by (induction xs) auto
  show ?case by (auto simp: Cons app split: option.splits)
qed simp

lemma IndexFor_loop_eq:
  "IndexFor_loop fs name i = Some j \<longleftrightarrow>
     i \<le> j \<and> j < i + length fs \<and> f_Name (fs ! (j - i)) = name \<and>
     (\<forall>k < j - i. f_Name (fs ! k) \<noteq> name)"
proof (induction fs arbitrary: i)
  case (Cons f fs)
  show ?case
  proof (cases "j = i \<or> j < i")
    case True
    then show ?thesis using Cons [of "Suc i"] by auto
  next
    case False
    then obtain d where d: "j = Suc (i + d)" by (metis less_imp_Suc_add not_less_iff_gr_or_eq)
    show ?thesis using Cons [of "Suc i"] by (auto simp: d less_Suc_eq_0_disj)
  qed
qed simp

lemma IndexFor_eq:
  "IndexFor fs name = Some j \<longleftrightarrow>
     j < length fs \<and> f_Name (fs ! j) = name \<and> (\<forall>k < j. f_Name (fs ! k) \<noteq> name)"
  by (simp add: IndexFor_def IndexFor_loop_eq)

lemma MissingRequired_loop_Nil:
  "\<forall>f \<in> set fs. f_Name f \<noteq> [] \<Longrightarrow>
   MissingRequired_loop fs i n seen = [] \<longleftrightarrow>
     (\<forall>k < length fs. i + k < n \<longrightarrow> f_Required (fs ! k) \<longrightarrow> bit seen (i + k))"
proof (induction fs arbitrary: i)
  case (Cons f fs)
  then show ?case by (auto simp: All_less_Suc2)
qed simp

lemma MissingRequired_Nil:
  "\<forall>f \<in> set fs. f_Name f \<noteq> [] \<Longrightarrow>
   MissingRequired fs seen = [] \<longleftrightarrow>
     (\<forall>k < length fs. k < 64 \<longrightarrow> f_Required (fs ! k) \<longrightarrow> bit seen k)"
  by (auto simp: MissingRequired_def MissingRequired_loop_Nil Let_def)

section \<open>Properties\<close>

text \<open>Integer arithmetic in the place of the machine's, for the concrete instances.\<close>

definition int_ops :: "int float_ops" where
  "int_ops = \<lparr>fl_nat = int, fl_add = (+), fl_mul = (*), fl_div = (div), fl_neg = uminus,
     fl_less = (<)\<rparr>"

definition demo_field :: "int field" where
  "demo_field = field_zero\<lparr>f_Name := ascii ''id'', f_Kind := KindInteger, f_Max := Bound 100\<rparr>"

text \<open>
  C32. How inert values are spelled. Whatever the machine's float arithmetic, a value that passed
  validation for a field of an inert type is one of the enumeration's listed values or one of the eight
  spellings of a boolean, a signed integer, a decimal number with optional fraction and exponent, a
  UUID, hexadecimal, four octets of at most 255, a date, or a date and time with zone; outside an
  enumeration it holds only ASCII letters, digits and plus, minus, dot and colon. Where the field sets
  no length and no range, every such spelling passes. This says exactly what the evaluator skips; it
  does not say that no rule would match such a value (an address is one: \<open>inert_address_skipped\<close>).
\<close>

theorem inert_values_spelled:
  assumes "Inert f"
  shows "(Validate F f v = ViolationNone \<longrightarrow> inert_spelled f v \<and> (f_Kind f \<noteq> KindEnum \<longrightarrow> list_all plain_byte v)) \<and>
    (inert_spelled f v \<and> f_MaxLength f \<le> 0 \<and> f_Min f = None \<and> f_Max f = None \<longrightarrow> Validate F f v = ViolationNone)"
  unfolding Validate_inert_iff [OF assms] using inert_spelled_plain [of f v] by (auto simp: inRange_def)

theorem inert_values_spelled_witness:
  "inert_spelled demo_field (ascii ''-42'') \<and> list_all plain_byte (ascii ''-42'')"
proof -
  have "Inert demo_field" "Validate int_ops demo_field (ascii ''-42'') = ViolationNone" by code_simp+
  with inert_values_spelled [of demo_field int_ops "ascii ''-42''"] show ?thesis by (simp add: demo_field_def)
qed

text \<open>
  A route template matches segment by segment. For an absolute template and an absolute path, both
  cut at their slashes: a parameter segment takes exactly one non-empty segment, a star segment takes
  one segment and everything after it, any other segment only its equal, and the lengths must agree;
  the operation's method must be the request's, or undeclared.
\<close>

theorem matchTemplate_segments:
  "matchTemplate (op\<lparr>op_Path := 47 # tpl\<rparr>) method (47 # path) \<longleftrightarrow>
     op_Method op \<in> {[], method} \<and> segments_match (split_slash tpl) (split_slash path)"
proof -
  have "template_loop (47 # tpl) (47 # path) \<longleftrightarrow> segments_match (split_slash tpl) (split_slash path)"
    using template_loop_segments [of "split_slash tpl" "split_slash path"] split_slash_free
    by (simp add: join_split ball_Un)
  then show ?thesis by (auto simp: matchTemplate_def)
qed

definition demo_operations :: "int operation list" where
  "demo_operations =
     [\<lparr>op_Method = ascii ''GET'', op_Path = ascii ''/v1/orders/{id}'', op_Query = [demo_field],
        op_Headers = [], op_Body = [], op_Strict = True, op_NoBody = True\<rparr>,
      \<lparr>op_Method = [], op_Path = ascii ''/health'', op_Query = [], op_Headers = [], op_Body = [],
        op_Strict = False, op_NoBody = False\<rparr>]"

definition demo_schema :: "int schema" where
  "demo_schema = (case New demo_operations of Inr s \<Rightarrow> s | Inl e \<Rightarrow> undefined)"

text \<open>
  C37. A lookup is exact. In a compiled schema whose methods hold no space, a request whose method
  holds none is answered with one of the schema's operations that describes it, and with no operation
  only if none describes it: the operation has the request's method or declares none, and its path is
  the request's or, if it holds a brace or a star, matches it segment by segment - a segment in braces
  takes one segment that is not empty, a star that one and everything behind it, any other only its
  equal. The answer is a literal route whenever a literal route describes the request.
\<close>

theorem Lookup_exact:
  assumes "New ops = Inr s" and "\<forall>op \<in> set ops. 32 \<notin> set (op_Method op)" and "32 \<notin> set method"
  shows "case Lookup (Some s) method path of
      None \<Rightarrow> \<not> (\<exists>op \<in> set ops. describes op method path)
    | Some op \<Rightarrow> op \<in> set ops \<and> describes op method path \<and>
        literal_route op = (\<exists>op' \<in> set ops. literal_route op' \<and> describes op' method path)"
  using Lookup_indexed [OF New_indexed [OF assms(1,2)] assms(3), of path]
  by (simp split: option.splits)

theorem Lookup_exact_witness:
  "case Lookup (Some demo_schema) (ascii ''GET'') (ascii ''/v1/orders/7'') of
      None \<Rightarrow> \<not> (\<exists>op \<in> set demo_operations. describes op (ascii ''GET'') (ascii ''/v1/orders/7''))
    | Some op \<Rightarrow> op \<in> set demo_operations \<and> describes op (ascii ''GET'') (ascii ''/v1/orders/7'') \<and>
        literal_route op = (\<exists>op' \<in> set demo_operations. literal_route op' \<and>
          describes op' (ascii ''GET'') (ascii ''/v1/orders/7''))"
proof (rule Lookup_exact)
  show "New demo_operations = Inr demo_schema"
    by (simp add: demo_schema_def demo_operations_def demo_field_def New_def validateFields_def
        is_templated_def field_zero_def)
  show "\<forall>op \<in> set demo_operations. 32 \<notin> set (op_Method op)" by (simp add: demo_operations_def)
qed simp

end
