(* ===== verification/Body.thy ===== *)
theory Body
  imports Types
begin

text \<open>
  The body parser's core and the form format (internal/body/body.go, form.go).

  A parser calls back with every leaf; the callback belongs to the transaction, which in turn may
  call the same parser again. So the parser carries its caller's state in \<open>p_client\<close>, and a
  callback is a function of the whole parser. Slices handed to a callback are only valid during the
  call, and are passed by value. Limits are Go \<open>int\<close>s; the \<open>fields\<close> counter is at most the
  number of callbacks and stays a \<open>nat\<close>.
\<close>

section \<open>Searching bytes\<close>

text \<open>\<open>bytes.Index\<close> of the Go standard library, and \<open>indexFrom\<close> on the rest of a document; \<open>None\<close> is -1.\<close>

fun bytes_Index :: "gobytes \<Rightarrow> gobytes \<Rightarrow> nat option" where
  "bytes_Index [] pat = (if pat = [] then Some 0 else None)"
| "bytes_Index (c # cs) pat =
     (if take (length pat) (c # cs) = pat then Some 0 else map_option Suc (bytes_Index cs pat))"

lemma take_length_le: "take (length p) xs = p \<Longrightarrow> length p \<le> length xs"
  by (cases "length xs < length p") auto

lemma bytes_Index_Some:
  "bytes_Index s pat = Some i \<Longrightarrow> i + length pat \<le> length s \<and> take (length pat) (drop i s) = pat"
proof (induction s arbitrary: i)
  case (Cons c cs)
  then show ?case by (auto split: if_splits dest: take_length_le)
qed (auto split: if_splits)

section \<open>Errors, limits, the parser\<close>

datatype body_error =
  ErrMalformed | ErrTooDeep | ErrTooManyFields | ErrTooLarge | ErrNoBoundary | ErrTooManyParts

record body_limits =
  MaxDepth :: int
  MaxFields :: int
  MaxKeyLen :: int
  MaxValueLen :: int
  MaxTotalSize :: int

definition body_DefaultLimits :: body_limits where
  "body_DefaultLimits = \<lparr>MaxDepth = 32, MaxFields = 1024, MaxKeyLen = 256, MaxValueLen = 65536,
     MaxTotalSize = 1048576\<rparr>"

definition withDefaults :: "body_limits \<Rightarrow> body_limits" where
  "withDefaults l =
     (let d = body_DefaultLimits;
          l = (if MaxDepth l \<le> 0 then l\<lparr>MaxDepth := MaxDepth d\<rparr> else l);
          l = (if MaxFields l \<le> 0 then l\<lparr>MaxFields := MaxFields d\<rparr> else l);
          l = (if MaxKeyLen l \<le> 0 then l\<lparr>MaxKeyLen := MaxKeyLen d\<rparr> else l);
          l = (if MaxValueLen l \<le> 0 then l\<lparr>MaxValueLen := MaxValueLen d\<rparr> else l)
      in if MaxTotalSize l \<le> 0 then l\<lparr>MaxTotalSize := MaxTotalSize d\<rparr> else l)"

datatype body_kind = LeafString | LeafNumber | LeafBool | LeafNull | LeafKey

record 's parser =
  p_path :: gobytes
  p_pathStack :: "nat list"
  p_scratch :: gobytes
  p_fields :: nat
  p_limits :: body_limits
  p_client :: 's

type_synonym 's emit = "gobytes \<Rightarrow> gobytes \<Rightarrow> body_kind \<Rightarrow> 's parser \<Rightarrow> 's parser \<times> bool"

definition Parser_Reset :: "body_limits \<Rightarrow> 's parser \<Rightarrow> 's parser" where
  "Parser_Reset l p =
     p\<lparr>p_limits := withDefaults l, p_path := [], p_pathStack := [], p_scratch := [], p_fields := 0\<rparr>"

definition Parser_Fields :: "'s parser \<Rightarrow> nat" where
  "Parser_Fields p = p_fields p"

text \<open>The path stack is kept with its top first. \<open>p.path[:n]\<close> is \<open>take n\<close>.\<close>

definition pushPath :: "gobytes \<Rightarrow> bool \<Rightarrow> 's parser \<Rightarrow> 's parser \<times> bool" where
  "pushPath name index p =
     (let p = p\<lparr>p_pathStack := length (p_path p) # p_pathStack p\<rparr>;
          p = (if index then p\<lparr>p_path := p_path p @ [91] @ name @ [93]\<rparr>
               else p\<lparr>p_path := (if 0 < length (p_path p) then p_path p @ [46] else p_path p) @ name\<rparr>)
      in (p, int (length (p_path p)) \<le> MaxKeyLen (p_limits p)))"

definition popPath :: "'s parser \<Rightarrow> 's parser" where
  "popPath p =
     (case p_pathStack p of
        [] \<Rightarrow> p
      | n # ns \<Rightarrow> p\<lparr>p_path := take n (p_path p), p_pathStack := ns\<rparr>)"

definition parser_emit ::
  "'s emit \<Rightarrow> gobytes \<Rightarrow> body_kind \<Rightarrow> 's parser \<Rightarrow> 's parser \<times> (body_error + bool)"
where
  "parser_emit fn value kind p =
     (let p = p\<lparr>p_fields := p_fields p + 1\<rparr> in
      if MaxFields (p_limits p) < int (p_fields p) then (p, Inl ErrTooManyFields)
      else if MaxValueLen (p_limits p) < int (length value) then (p, Inl ErrTooLarge)
      else case fn (p_path p) value kind p of (p, cont) \<Rightarrow> (p, Inr cont))"

text \<open>Decimal digits, most significant first; the loop runs while the number is positive, so it
  writes nothing for a negative one.\<close>

fun decimal_loop :: "nat \<Rightarrow> gobytes \<Rightarrow> gobytes" where
  "decimal_loop n acc =
     (if n = 0 then acc else decimal_loop (n div 10) ((48 + of_nat (n mod 10)) # acc))"

declare decimal_loop.simps [simp del]

definition body_itoa :: "gobytes \<Rightarrow> int \<Rightarrow> gobytes" where
  "body_itoa dst n = (if n = 0 then dst @ [48] else dst @ decimal_loop (nat n) [])"

section \<open>Forms\<close>

definition body_unhex :: "byte \<Rightarrow> byte \<times> bool" where
  "body_unhex c =
     (if 48 \<le> c \<and> c \<le> 57 then (c - 48, True)
      else if 97 \<le> c \<and> c \<le> 102 then (c - 97 + 10, True)
      else if 65 \<le> c \<and> c \<le> 70 then (c - 65 + 10, True)
      else (0, False))"

text \<open>\<open>hi<<4 | lo\<close>.\<close>

definition hex_byte :: "byte \<Rightarrow> byte \<Rightarrow> byte" where
  "hex_byte hi lo = or (push_bit 4 hi) lo"

fun formDecode :: "gobytes \<Rightarrow> gobytes \<Rightarrow> gobytes" where
  "formDecode dst [] = dst"
| "formDecode dst (c # cs) =
     (if c = 43 then formDecode (dst @ [32]) cs
      else if c = 37 \<and> 2 \<le> length cs then
        (case (body_unhex (cs ! 0), body_unhex (cs ! 1)) of
           ((hi, ok1), (lo, ok2)) \<Rightarrow>
             if ok1 \<and> ok2 then formDecode (dst @ [hex_byte hi lo]) (drop 2 cs)
             else formDecode (dst @ [c]) cs)
      else formDecode (dst @ [c]) cs)"

text \<open>\<open>pair, src = src[:i], src[i+1:]\<close> at the first separator, or the whole of \<open>src\<close> and nothing.\<close>

definition cut_at :: "byte \<Rightarrow> gobytes \<Rightarrow> gobytes \<times> gobytes" where
  "cut_at sep src =
     (case IndexByte src sep of
        Some i \<Rightarrow> (take i src, drop (i + 1) src)
      | None \<Rightarrow> (src, []))"

lemma cut_at_shorter: "(a, b) = cut_at sep src \<Longrightarrow> src \<noteq> [] \<Longrightarrow> length b < length src"
  by (cases src) (auto simp: cut_at_def split: option.splits)

text \<open>The name token and the value token of a pair; without \<open>=\<close> the token is both.\<close>

definition split_pair :: "gobytes \<Rightarrow> gobytes \<times> gobytes" where
  "split_pair pair =
     (case IndexByte pair 61 of
        Some i \<Rightarrow> (take i pair, drop (i + 1) pair)
      | None \<Rightarrow> (pair, pair))"

text \<open>One counted callback of the form and multipart parsers: the count first, then the call.\<close>

definition counted ::
  "'s emit \<Rightarrow> gobytes \<Rightarrow> gobytes \<Rightarrow> body_kind \<Rightarrow> 's parser \<Rightarrow> 's parser \<times> (body_error + bool)"
where
  "counted fn name value kind p =
     (let p = p\<lparr>p_fields := p_fields p + 1\<rparr> in
      if MaxFields (p_limits p) < int (p_fields p) then (p, Inl ErrTooManyFields)
      else case fn name value kind p of (p, cont) \<Rightarrow> (p, Inr cont))"

text \<open>\<open>emitPair\<close> returns nil both at its end and when the callback asks to stop.\<close>

definition emitPair :: "'s emit \<Rightarrow> gobytes \<Rightarrow> 's parser \<Rightarrow> 's parser \<times> body_error option" where
  "emitPair fn pair p =
     (let (rawName, rawValue) = split_pair pair in
      if MaxKeyLen (p_limits p) < int (length rawName) then (p, Some ErrTooLarge)
      else
        let p = p\<lparr>p_path := formDecode [] rawName, p_scratch := formDecode [] rawValue\<rparr> in
        if MaxValueLen (p_limits p) < int (length (p_scratch p)) then (p, Some ErrTooLarge)
        else case counted fn (p_path p) (p_path p) LeafKey p of
          (p, Inl e) \<Rightarrow> (p, Some e)
        | (p, Inr cont) \<Rightarrow>
            if \<not> cont then (p, None)
            else case counted fn (p_path p) (p_scratch p) LeafString p of
              (p, Inl e) \<Rightarrow> (p, Some e)
            | (p, Inr cont) \<Rightarrow> (p, None))"

function semicolon_loop ::
  "'s emit \<Rightarrow> gobytes \<Rightarrow> 's parser \<Rightarrow> 's parser \<times> body_error option"
where
  "semicolon_loop fn pair p =
     (if pair = [] then (p, None)
      else case cut_at 59 pair of (sub, pair) \<Rightarrow>
        if length sub = 0 then semicolon_loop fn pair p
        else case emitPair fn sub p of
          (p, Some e) \<Rightarrow> (p, Some e)
        | (p, None) \<Rightarrow> semicolon_loop fn pair p)"
  by pat_completeness auto
termination
  by (relation "measure (\<lambda>(fn, pair, p). length pair)")
    (auto dest: cut_at_shorter)

declare semicolon_loop.simps [simp del]

function form_loop :: "'s emit \<Rightarrow> gobytes \<Rightarrow> 's parser \<Rightarrow> 's parser \<times> body_error option" where
  "form_loop fn src p =
     (if src = [] then (p, None)
      else case cut_at 38 src of (pair, src) \<Rightarrow>
        if length pair = 0 then form_loop fn src p
        else case emitPair fn pair p of
          (p, Some e) \<Rightarrow> (p, Some e)
        | (p, None) \<Rightarrow>
            if IndexByte pair 59 = None then form_loop fn src p
            else case semicolon_loop fn pair p of
              (p, Some e) \<Rightarrow> (p, Some e)
            | (p, None) \<Rightarrow> form_loop fn src p)"
  by pat_completeness auto
termination
  by (relation "measure (\<lambda>(fn, src, p). length src)")
    (auto dest: cut_at_shorter)

declare form_loop.simps [simp del]

definition ParseForm :: "'s emit \<Rightarrow> gobytes \<Rightarrow> 's parser \<Rightarrow> 's parser \<times> body_error option" where
  "ParseForm fn src p =
     (if MaxTotalSize (p_limits p) < int (length src) then (p, Some ErrTooLarge)
      else form_loop fn src p)"

section \<open>Content types\<close>

datatype content_kind = ContentUnknown | ContentJSON | ContentForm | ContentXML

text \<open>\<open>trimSpaceStr\<close>: spaces and tabs at both ends.\<close>

definition is_ows :: "byte \<Rightarrow> bool" where
  "is_ows c \<longleftrightarrow> c = 32 \<or> c = 9"

definition trimSpaceStr :: "gobytes \<Rightarrow> gobytes" where
  "trimSpaceStr s = rev (dropWhile is_ows (rev (dropWhile is_ows s)))"

definition lowerStr :: "gobytes \<Rightarrow> gobytes" where
  "lowerStr s = map ascii_lower s"

definition hasSuffixStr :: "gobytes \<Rightarrow> gobytes \<Rightarrow> bool" where
  "hasSuffixStr s suf \<longleftrightarrow> length suf \<le> length s \<and> drop (length s - length suf) s = suf"

definition hasPrefixStr :: "gobytes \<Rightarrow> gobytes \<Rightarrow> bool" where
  "hasPrefixStr s pre \<longleftrightarrow> length pre \<le> length s \<and> take (length pre) s = pre"

text \<open>The media type of a header value, parameters dropped, folded and trimmed.\<close>

definition media_type :: "gobytes \<Rightarrow> gobytes" where
  "media_type ct =
     (let ct = (case IndexByte ct 59 of Some i \<Rightarrow> take i ct | None \<Rightarrow> ct)
      in trimSpaceStr (lowerStr ct))"

definition DetectContent :: "gobytes \<Rightarrow> content_kind" where
  "DetectContent contentType =
     (let ct = media_type contentType in
      if ct = ascii ''application/json'' \<or> ct = ascii ''text/json'' then ContentJSON
      else if hasSuffixStr ct (ascii ''+json'') then ContentJSON
      else if ct = ascii ''application/x-www-form-urlencoded'' then ContentForm
      else if ct = ascii ''application/xml'' \<or> ct = ascii ''text/xml'' \<or>
              ct = ascii ''application/soap+xml'' \<or> ct = ascii ''application/xhtml+xml''
      then ContentXML
      else if hasSuffixStr ct (ascii ''+xml'') then ContentXML
      else ContentUnknown)"

fun SniffJSON :: "gobytes \<Rightarrow> bool" where
  "SniffJSON [] = False"
| "SniffJSON (c # cs) =
     (if c = 32 \<or> c = 9 \<or> c = 10 \<or> c = 13 then SniffJSON cs
      else if c = 123 \<or> c = 91 then True
      else False)"

end
