(* ===== verification/BodyBinary.thy ===== *)
theory BodyBinary
  imports Body
begin

text \<open>
  Binary bodies (internal/body/binary.go): the text test, the recovery of wide (UTF-16/32) text, the
  extraction of printable runs, and base64 in its three guises. A slice into the parser's scratch
  buffer is passed by value: a nested extraction only overwrites bytes the outer one has read.
\<close>

section \<open>Text and binary\<close>

abbreviation minTextRun :: nat where "minTextRun \<equiv> 8"
abbreviation maxTextRuns :: nat where "maxTextRuns \<equiv> 256"
abbreviation wideTextMinChars :: nat where "wideTextMinChars \<equiv> 8"

definition isTextByte :: "byte \<Rightarrow> bool" where
  "isTextByte c =
     (if 32 \<le> c \<and> c < 127 then True
      else if c = 9 \<or> c = 10 \<or> c = 13 then True
      else if 128 \<le> c then True
      else False)"

text \<open>\<open>None\<close> is the early return on a NUL byte.\<close>

fun binary_loop :: "gobytes \<Rightarrow> nat \<Rightarrow> nat option" where
  "binary_loop [] nonText = Some nonText"
| "binary_loop (c # cs) nonText =
     (if c = 0 then None
      else if \<not> isTextByte c then binary_loop cs (nonText + 1)
      else binary_loop cs nonText)"

definition IsBinary :: "gobytes \<Rightarrow> bool" where
  "IsBinary data =
     (if length data = 0 then False
      else
        let sample = take 1024 data in
        case binary_loop sample 0 of
          None \<Rightarrow> True
        | Some nonText \<Rightarrow> length sample < nonText * 3)"

fun wide_loop :: "gobytes \<Rightarrow> nat \<times> nat \<times> nat \<Rightarrow> nat \<times> nat \<times> nat" where
  "wide_loop [] counts = counts"
| "wide_loop (c # cs) (nuls, printable, other) =
     (if c = 0 then wide_loop cs (nuls + 1, printable, other)
      else if 32 \<le> c \<and> c < 127 \<or> c = 9 \<or> c = 10 \<or> c = 13
      then wide_loop cs (nuls, printable + 1, other)
      else wide_loop cs (nuls, printable, other + 1))"

definition recoverWideText :: "gobytes \<Rightarrow> 's parser \<Rightarrow> 's parser \<times> gobytes option" where
  "recoverWideText data p =
     (if length data < wideTextMinChars * 2 then (p, None)
      else
        let body = (if 2 \<le> length data \<and>
               (data ! 0 = 255 \<and> data ! 1 = 254 \<or> data ! 0 = 254 \<and> data ! 1 = 255)
             then drop 2 data else data);
            sample = take 1024 body
        in case wide_loop sample (0, 0, 0) of (nuls, printable, other) \<Rightarrow>
          if printable < wideTextMinChars \<or> nuls < printable \<or> length sample < other * 8
          then (p, None)
          else let p = p\<lparr>p_scratch := filter (\<lambda>c. c \<noteq> 0) body\<rparr> in (p, Some (p_scratch p)))"

section \<open>Printable runs\<close>

definition isPrintableRun :: "byte \<Rightarrow> bool" where
  "isPrintableRun c \<longleftrightarrow> 32 \<le> c \<and> c < 127"

text \<open>
  The closure \<open>flush\<close> over \<open>start\<close> and \<open>runs\<close>; \<open>start\<close> is -1 outside a run. It resets \<open>start\<close> before
  the run is named.
\<close>

definition flush_run ::
  "'s emit \<Rightarrow> gobytes \<Rightarrow> gobytes \<Rightarrow> nat \<Rightarrow> 's parser \<times> int \<times> nat \<Rightarrow> ('s parser \<times> int \<times> nat) \<times> bool"
where
  "flush_run fn name data fin = (\<lambda>(p, start, runs).
     if start < 0 then ((p, start, runs), True)
     else
       let run = take (fin - nat start) (drop (nat start) data); start = - 1 in
       if length run < minTextRun then ((p, start, runs), True)
       else
         let runs = runs + 1 in
         if maxTextRuns < runs then ((p, start, runs), False)
         else
           let p = p\<lparr>p_fields := p_fields p + 1\<rparr> in
           if MaxFields (p_limits p) < int (p_fields p) then ((p, start, runs), False)
           else
             let p = p\<lparr>p_path := name @ [64]\<rparr>;
                 p = p\<lparr>p_path := body_itoa (p_path p) start\<rparr>
             in case fn (p_path p) run LeafString p of (p, cont) \<Rightarrow> ((p, start, runs), cont))"

fun extract_loop ::
  "'s emit \<Rightarrow> gobytes \<Rightarrow> gobytes \<Rightarrow> nat \<Rightarrow> gobytes \<Rightarrow> 's parser \<times> int \<times> nat \<Rightarrow> 's parser"
where
  "extract_loop fn name data i [] s = fst (fst (flush_run fn name data (length data) s))"
| "extract_loop fn name data i (c # cs) s =
     (if isPrintableRun c then
        (case s of (p, start, runs) \<Rightarrow>
           extract_loop fn name data (i + 1) cs (p, if start < 0 then int i else start, runs))
      else case flush_run fn name data i s of (s, cont) \<Rightarrow>
        if \<not> cont then fst s else extract_loop fn name data (i + 1) cs s)"

definition ExtractText :: "'s emit \<Rightarrow> gobytes \<Rightarrow> gobytes \<Rightarrow> 's parser \<Rightarrow> 's parser" where
  "ExtractText fn name data p =
     (case recoverWideText data p of (p, wide) \<Rightarrow>
        let data = (case wide of Some w \<Rightarrow> w | None \<Rightarrow> data)
        in extract_loop fn name data 0 data (p, - 1, 0))"

section \<open>Base64\<close>

abbreviation minBase64Run :: nat where "minBase64Run \<equiv> 64"
abbreviation minBase64Text :: nat where "minBase64Text \<equiv> 24"
abbreviation minBase64Body :: nat where "minBase64Body \<equiv> 8"

definition isBase64Byte :: "byte \<Rightarrow> bool" where
  "isBase64Byte c =
     (if 65 \<le> c \<and> c \<le> 90 \<or> 97 \<le> c \<and> c \<le> 122 \<or> 48 \<le> c \<and> c \<le> 57 then True
      else if c = 43 \<or> c = 47 \<or> c = 45 \<or> c = 95 then True
      else False)"

text \<open>Padding is stripped from the end; the list is reversed and \<open>n\<close> counts what was removed.\<close>

fun strip_padding :: "gobytes \<Rightarrow> nat \<Rightarrow> gobytes option" where
  "strip_padding [] n = Some []"
| "strip_padding (c # cs) n =
     (if c = 61 then (if 2 < n + 1 then None else strip_padding cs (n + 1))
      else Some (c # cs))"

definition isBase64Alphabet :: "gobytes \<Rightarrow> bool" where
  "isBase64Alphabet data =
     (case strip_padding (rev data) 0 of
        None \<Rightarrow> False
      | Some r \<Rightarrow> if length r = 0 then False else list_all isBase64Byte (rev r))"

definition base64Value :: "byte \<Rightarrow> byte option" where
  "base64Value c =
     (if 65 \<le> c \<and> c \<le> 90 then Some (c - 65)
      else if 97 \<le> c \<and> c \<le> 122 then Some (c - 97 + 26)
      else if 48 \<le> c \<and> c \<le> 57 then Some (c - 48 + 52)
      else if c = 43 \<or> c = 45 then Some 62
      else if c = 47 \<or> c = 95 then Some 63
      else None)"

fun decode64_loop :: "gobytes \<Rightarrow> u32 \<Rightarrow> nat \<Rightarrow> gobytes \<Rightarrow> gobytes option" where
  "decode64_loop [] acc bits dst = Some dst"
| "decode64_loop (c # cs) acc bits dst =
     (if c = 61 then Some dst
      else case base64Value c of
        None \<Rightarrow> None
      | Some v \<Rightarrow>
          let acc = or (push_bit 6 acc) (ucast v); bits = bits + 6 in
          if 8 \<le> bits
          then decode64_loop cs acc (bits - 8) (dst @ [ucast (drop_bit (bits - 8) acc)])
          else decode64_loop cs acc bits dst)"

definition DecodeBase64 :: "gobytes \<Rightarrow> gobytes option" where
  "DecodeBase64 src = decode64_loop src 0 0 []"

definition IsBase64 :: "gobytes \<Rightarrow> bool" where
  "IsBase64 data = (if length data < minBase64Run then False else isBase64Alphabet data)"

definition IsBase64Body :: "gobytes \<Rightarrow> bool" where
  "IsBase64Body data = (if length data < minBase64Body then False else isBase64Alphabet data)"

definition IsBase64Text :: "gobytes \<Rightarrow> gobytes option" where
  "IsBase64Text data =
     (if length data < minBase64Text \<or> minBase64Run \<le> length data then None
      else if length data mod 4 = 1 then None
      else if \<not> isBase64Alphabet data then None
      else case DecodeBase64 data of
        None \<Rightarrow> None
      | Some decoded \<Rightarrow>
          if length decoded = 0 then None
          else if list_all (\<lambda>c. isPrintableRun c \<or> c = 9 \<or> c = 13 \<or> c = 10) decoded
          then Some decoded else None)"

end
