(* ===== verification/BodyJSON.thy ===== *)
theory BodyJSON
  imports Body
begin

text \<open>
  The JSON parser (internal/body/json.go). An index into the document is the rest of the document
  from it on. The three mutually recursive parsing functions of the source call each other without
  a bound of their own, so the model gives them fuel; \<open>None\<close> is running out of it, and
  \<open>ParseJSON\<close> supplies enough.
\<close>

fun skipSpace :: "gobytes \<Rightarrow> gobytes" where
  "skipSpace [] = []"
| "skipSpace (c # cs) = (if c = 32 \<or> c = 9 \<or> c = 10 \<or> c = 13 then skipSpace cs else c # cs)"

section \<open>Strings\<close>

text \<open>Four hexadecimal digits.\<close>

definition json_hex :: "byte \<Rightarrow> u32 option" where
  "json_hex c =
     (if 48 \<le> c \<and> c \<le> 57 then Some (ucast (c - 48))
      else if 97 \<le> c \<and> c \<le> 102 then Some (ucast (c - 97) + 10)
      else if 65 \<le> c \<and> c \<le> 70 then Some (ucast (c - 65) + 10)
      else None)"

fun json_hex_loop :: "gobytes \<Rightarrow> u32 \<Rightarrow> u32 option" where
  "json_hex_loop [] v = Some v"
| "json_hex_loop (c # cs) v =
     (case json_hex c of None \<Rightarrow> None | Some d \<Rightarrow> json_hex_loop cs (or (push_bit 4 v) d))"

definition json_hex4 :: "gobytes \<Rightarrow> u32 option" where
  "json_hex4 src = (if length src < 4 then None else json_hex_loop (take 4 src) 0)"

text \<open>The escape after \<open>\u\<close>: the rune and how many bytes it takes.\<close>

definition parseUnicodeEscape :: "gobytes \<Rightarrow> (u32 \<times> nat) option" where
  "parseUnicodeEscape src =
     (case json_hex4 src of
        None \<Rightarrow> None
      | Some hi \<Rightarrow>
          if 0xD800 \<le> hi \<and> hi \<le> 0xDBFF then
            (if 5 < length src \<and> src ! 4 = 92 \<and> src ! 5 = 117 then
               (case json_hex4 (drop 6 src) of
                  None \<Rightarrow> Some (0xFFFD, 4)
                | Some lo \<Rightarrow>
                    if 0xDC00 \<le> lo \<and> lo \<le> 0xDFFF
                    then Some (0x10000 + push_bit 10 (hi - 0xD800) + (lo - 0xDC00), 10)
                    else Some (0xFFFD, 4))
             else Some (0xFFFD, 4))
          else if 0xDC00 \<le> hi \<and> hi \<le> 0xDFFF then Some (0xFFFD, 4)
          else Some (hi, 4))"

definition json_appendRune :: "gobytes \<Rightarrow> u32 \<Rightarrow> gobytes" where
  "json_appendRune dst r =
     (let six = (\<lambda>k. or 0x80 (and (drop_bit k r) 0x3f)) in
      if r < 0x80 then dst @ [ucast r]
      else if r < 0x800 then dst @ map ucast [or 0xc0 (drop_bit 6 r), six 0]
      else if r < 0x10000 then dst @ map ucast [or 0xe0 (drop_bit 12 r), six 6, six 0]
      else dst @ map ucast [or 0xf0 (drop_bit 18 r), six 12, six 6, six 0])"

text \<open>
  The first pass looks for the closing quote: \<open>Inr (Some ...)\<close> is a string without escapes and what
  follows it, \<open>Inr None\<close> a closing quote after an escape.
\<close>

fun string_fast :: "gobytes \<Rightarrow> gobytes \<Rightarrow> bool \<Rightarrow> body_error + (gobytes \<times> gobytes) option" where
  "string_fast [] acc escaped = Inl ErrMalformed"
| "string_fast (c # cs) acc escaped =
     (if c = 34 then (if \<not> escaped then Inr (Some (acc, cs)) else Inr None)
      else if c < 32 then Inl ErrMalformed
      else if c = 92 then
        (case cs of [] \<Rightarrow> Inl ErrMalformed | d # ds \<Rightarrow> string_fast ds (acc @ [c, d]) True)
      else string_fast cs (acc @ [c]) escaped)"

text \<open>One escape after its backslash: what it stands for and how many bytes it takes.\<close>

definition simple_escape :: "byte \<Rightarrow> byte option" where
  "simple_escape c =
     map_of [(34, 34), (92, 92), (47, 47), (98, 8), (102, 12), (110, 10), (114, 13), (116, 9)] c"

definition unescape_json :: "gobytes \<Rightarrow> gobytes \<Rightarrow> (gobytes \<times> nat) option" where
  "unescape_json scratch src =
     (case src of
        [] \<Rightarrow> None
      | c # cs \<Rightarrow>
          (case simple_escape c of
             Some b \<Rightarrow> Some (scratch @ [b], 1)
           | None \<Rightarrow>
               if c = 117 then
                 (case parseUnicodeEscape cs of
                    None \<Rightarrow> None
                  | Some (r, n) \<Rightarrow> Some (json_appendRune scratch r, 1 + n))
               else None))"

function string_slow :: "int \<Rightarrow> gobytes \<Rightarrow> gobytes \<Rightarrow> gobytes \<times> (body_error + gobytes)" where
  "string_slow lim scratch src =
     (case src of
        [] \<Rightarrow> (scratch, Inl ErrMalformed)
      | c # cs \<Rightarrow>
          if c = 34 then (scratch, Inr cs)
          else if c = 92 then
            (case unescape_json scratch cs of
               None \<Rightarrow> (scratch, Inl ErrMalformed)
             | Some (scratch, n) \<Rightarrow>
                 if lim < int (length scratch) then (scratch, Inl ErrTooLarge)
                 else string_slow lim scratch (drop n cs))
          else if c < 32 then (scratch, Inl ErrMalformed)
          else let scratch = scratch @ [c] in
            if lim < int (length scratch) then (scratch, Inl ErrTooLarge)
            else string_slow lim scratch cs)"
  by pat_completeness auto
termination
  by (relation "measure (\<lambda>(lim, scratch, src). length src)") auto

declare string_slow.simps [simp del]

definition parseString :: "gobytes \<Rightarrow> 's parser \<Rightarrow> 's parser \<times> (body_error + gobytes \<times> gobytes)" where
  "parseString src p =
     (case src of
        [] \<Rightarrow> (p, Inl ErrMalformed)
      | c # cs \<Rightarrow>
          if c \<noteq> 34 then (p, Inl ErrMalformed)
          else case string_fast cs [] False of
            Inl e \<Rightarrow> (p, Inl e)
          | Inr (Some (val, rest)) \<Rightarrow> (p, Inr (val, rest))
          | Inr None \<Rightarrow>
              (case string_slow (MaxValueLen (p_limits p)) [] cs of
                 (scratch, Inl e) \<Rightarrow> (p\<lparr>p_scratch := scratch\<rparr>, Inl e)
               | (scratch, Inr rest) \<Rightarrow> (p\<lparr>p_scratch := scratch\<rparr>, Inr (scratch, rest))))"

section \<open>Numbers and literals\<close>

definition json_digit :: "byte \<Rightarrow> bool" where
  "json_digit c \<longleftrightarrow> 48 \<le> c \<and> c \<le> 57"

text \<open>A run of digits that must not be empty.\<close>

definition some_digits :: "gobytes \<Rightarrow> gobytes option" where
  "some_digits src =
     (let rest = dropWhile json_digit src in if length rest = length src then None else Some rest)"

definition opt_byte :: "byte list \<Rightarrow> gobytes \<Rightarrow> gobytes" where
  "opt_byte bs src = (case src of [] \<Rightarrow> [] | c # cs \<Rightarrow> if c \<in> set bs then cs else src)"

definition int_digits :: "gobytes \<Rightarrow> gobytes option" where
  "int_digits src =
     (case src of
        [] \<Rightarrow> None
      | c # cs \<Rightarrow>
          if c = 48 then Some cs
          else if 49 \<le> c \<and> c \<le> 57 then Some (dropWhile json_digit src)
          else None)"

definition frac_digits :: "gobytes \<Rightarrow> gobytes option" where
  "frac_digits src =
     (case src of [] \<Rightarrow> Some [] | c # cs \<Rightarrow> if c = 46 then some_digits cs else Some src)"

definition exp_digits :: "gobytes \<Rightarrow> gobytes option" where
  "exp_digits src =
     (case src of
        [] \<Rightarrow> Some []
      | c # cs \<Rightarrow> if c = 101 \<or> c = 69 then some_digits (opt_byte [43, 45] cs) else Some src)"

definition parseNumber :: "gobytes \<Rightarrow> (gobytes \<times> gobytes) option" where
  "parseNumber src =
     (case int_digits (opt_byte [45] src) of
        None \<Rightarrow> None
      | Some r1 \<Rightarrow>
          (case frac_digits r1 of
             None \<Rightarrow> None
           | Some r2 \<Rightarrow>
               (case exp_digits r2 of
                  None \<Rightarrow> None
                | Some rest \<Rightarrow> Some (take (length src - length rest) src, rest))))"

fun literal_loop :: "gobytes list \<Rightarrow> gobytes \<Rightarrow> (gobytes \<times> gobytes) option" where
  "literal_loop [] src = None"
| "literal_loop (lit # lits) src =
     (if length lit \<le> length src \<and> take (length lit) src = lit
      then Some (lit, drop (length lit) src)
      else literal_loop lits src)"

definition parseLiteral :: "gobytes \<Rightarrow> (gobytes \<times> gobytes) option" where
  "parseLiteral src = literal_loop [ascii ''true'', ascii ''false'', ascii ''null''] src"

section \<open>Values\<close>

text \<open>A leaf: \<open>cont, err := p.emit(...); return !cont, next, err\<close>.\<close>

type_synonym 's parsed = "'s parser \<times> (body_error + bool \<times> gobytes)"

definition emit_leaf :: "'s emit \<Rightarrow> body_kind \<Rightarrow> gobytes \<times> gobytes \<Rightarrow> 's parser \<Rightarrow> 's parsed" where
  "emit_leaf fn kind = (\<lambda>(val, rest) p.
     case parser_emit fn val kind p of
       (p, Inl e) \<Rightarrow> (p, Inl e)
     | (p, Inr cont) \<Rightarrow> (p, Inr (\<not> cont, rest)))"

definition leaf_or_error ::
  "'s emit \<Rightarrow> body_kind \<Rightarrow> (gobytes \<times> gobytes) option \<Rightarrow> 's parser \<Rightarrow> 's parsed"
where
  "leaf_or_error fn kind r p =
     (case r of None \<Rightarrow> (p, Inl ErrMalformed) | Some vr \<Rightarrow> emit_leaf fn kind vr p)"

text \<open>One member up to its colon: the key emitted and pushed onto the path, and what follows the
  colon.\<close>

definition member_key :: "'s emit \<Rightarrow> gobytes \<Rightarrow> 's parser \<Rightarrow> 's parsed" where
  "member_key fn src p =
     (case skipSpace src of
        [] \<Rightarrow> (p, Inl ErrMalformed)
      | c # cs \<Rightarrow>
          if c \<noteq> 34 then (p, Inl ErrMalformed)
          else case parseString (c # cs) p of
            (p, Inl e) \<Rightarrow> (p, Inl e)
          | (p, Inr (key, rest)) \<Rightarrow>
              (case parser_emit fn key LeafKey p of
                 (p, Inl e) \<Rightarrow> (p, Inl e)
               | (p, Inr cont) \<Rightarrow>
                   if \<not> cont then (p, Inr (True, rest))
                   else case pushPath key False p of (p, ok) \<Rightarrow>
                     if \<not> ok then (p, Inl ErrTooLarge)
                     else case skipSpace rest of
                       [] \<Rightarrow> (popPath p, Inl ErrMalformed)
                     | d # ds \<Rightarrow>
                         if d \<noteq> 58 then (popPath p, Inl ErrMalformed)
                         else (p, Inr (False, skipSpace ds))))"

fun parseValue :: "nat \<Rightarrow> 's emit \<Rightarrow> gobytes \<Rightarrow> nat \<Rightarrow> 's parser \<Rightarrow> 's parsed option"
  and object_loop :: "nat \<Rightarrow> 's emit \<Rightarrow> gobytes \<Rightarrow> nat \<Rightarrow> 's parser \<Rightarrow> 's parsed option"
  and array_loop :: "nat \<Rightarrow> 's emit \<Rightarrow> nat \<Rightarrow> gobytes \<Rightarrow> nat \<Rightarrow> 's parser \<Rightarrow> 's parsed option"
where
  "parseValue 0 fn src depth p = None"
| "parseValue (Suc n) fn src depth p =
     (if MaxDepth (p_limits p) < int depth then Some (p, Inl ErrTooDeep)
      else case src of
        [] \<Rightarrow> Some (p, Inl ErrMalformed)
      | c # cs \<Rightarrow>
          if c = 123 then
            (case skipSpace cs of
               [] \<Rightarrow> object_loop n fn [] depth p
             | d # ds \<Rightarrow> if d = 125 then Some (p, Inr (False, ds)) else object_loop n fn (d # ds) depth p)
          else if c = 91 then
            (case skipSpace cs of
               [] \<Rightarrow> array_loop n fn 0 [] depth p
             | d # ds \<Rightarrow> if d = 93 then Some (p, Inr (False, ds)) else array_loop n fn 0 (d # ds) depth p)
          else if c = 34 then
            (case parseString src p of
               (p, Inl e) \<Rightarrow> Some (p, Inl e)
             | (p, Inr vr) \<Rightarrow> Some (emit_leaf fn LeafString vr p))
          else if c = 116 \<or> c = 102 then Some (leaf_or_error fn LeafBool (parseLiteral src) p)
          else if c = 110 then Some (leaf_or_error fn LeafNull (parseLiteral src) p)
          else Some (leaf_or_error fn LeafNumber (parseNumber src) p))"
| "object_loop 0 fn src depth p = None"
| "object_loop (Suc n) fn src depth p =
     (case member_key fn src p of
        (p, Inl e) \<Rightarrow> Some (p, Inl e)
      | (p, Inr (stop, rest)) \<Rightarrow>
          if stop then Some (p, Inr (True, rest))
          else case parseValue n fn rest (depth + 1) p of
            None \<Rightarrow> None
          | Some (p, Inl e) \<Rightarrow> Some (popPath p, Inl e)
          | Some (p, Inr (stop, rest)) \<Rightarrow>
              let p = popPath p in
              if stop then Some (p, Inr (True, rest))
              else case skipSpace rest of
                [] \<Rightarrow> Some (p, Inl ErrMalformed)
              | d # ds \<Rightarrow>
                  if d = 44 then object_loop n fn ds depth p
                  else if d = 125 then Some (p, Inr (False, ds))
                  else Some (p, Inl ErrMalformed))"
| "array_loop 0 fn idx src depth p = None"
| "array_loop (Suc n) fn idx src depth p =
     (case pushPath (body_itoa [] (int idx)) True p of (p, ok) \<Rightarrow>
        if \<not> ok then Some (p, Inl ErrTooLarge)
        else case parseValue n fn (skipSpace src) (depth + 1) p of
          None \<Rightarrow> None
        | Some (p, Inl e) \<Rightarrow> Some (popPath p, Inl e)
        | Some (p, Inr (stop, rest)) \<Rightarrow>
            let p = popPath p in
            if stop then Some (p, Inr (True, rest))
            else case skipSpace rest of
              [] \<Rightarrow> Some (p, Inl ErrMalformed)
            | d # ds \<Rightarrow>
                if d = 44 then array_loop n fn (idx + 1) ds depth p
                else if d = 93 then Some (p, Inr (False, ds))
                else Some (p, Inl ErrMalformed))"

definition json_fuel :: "gobytes \<Rightarrow> nat" where
  "json_fuel src = 2 * length src + 2"

definition ParseJSON :: "'s emit \<Rightarrow> gobytes \<Rightarrow> 's parser \<Rightarrow> ('s parser \<times> body_error option) option" where
  "ParseJSON fn src p =
     (if MaxTotalSize (p_limits p) < int (length src) then Some (p, Some ErrTooLarge)
      else case skipSpace src of
        [] \<Rightarrow> Some (p, Some ErrMalformed)
      | c # cs \<Rightarrow>
          (case parseValue (json_fuel src) fn (c # cs) 0 p of
             None \<Rightarrow> None
           | Some (p, Inl e) \<Rightarrow> Some (p, Some e)
           | Some (p, Inr (stop, rest)) \<Rightarrow>
               if stop then Some (p, None)
               else if skipSpace rest \<noteq> [] then Some (p, Some ErrMalformed)
               else Some (p, None)))"

end
