(* ===== verification/BodyJSONCorrect.thy ===== *)
theory BodyJSONCorrect
  imports BodyJSON
begin

text \<open>
  The JSON parser always ends, and parsing the text of a JSON value hands its caller exactly the
  value's leaves, unescaped, in document order and each under its path.
\<close>

section \<open>Termination\<close>

lemma length_skipSpace: "length (skipSpace s) \<le> length s"
  by (induction s) auto

lemma string_fast_shorter: "string_fast s acc e = Inr (Some (v, r)) \<Longrightarrow> length r \<le> length s"
  by (induction s acc e rule: string_fast.induct) (auto split: if_splits list.splits)

text \<open>What one step of the second pass does when it reaches the closing quote.\<close>

lemma string_slow_step:
  assumes "string_slow lim sc (c # cs) = (sc', Inr r)"
  shows "c = 34 \<and> r = cs \<and> sc' = sc \<or>
    c = 92 \<and> (\<exists>sc1 n. unescape_json sc cs = Some (sc1, n) \<and>
      string_slow lim sc1 (drop n cs) = (sc', Inr r)) \<or>
    c \<noteq> 34 \<and> c \<noteq> 92 \<and> string_slow lim (sc @ [c]) cs = (sc', Inr r)"
  using assms
  by (subst (asm) string_slow.simps) (auto split: if_splits option.splits prod.splits simp: Let_def)

lemma string_slow_shorter: "string_slow lim sc s = (sc', Inr r) \<Longrightarrow> length r \<le> length s"
proof (induction s arbitrary: sc rule: length_induct)
  case (1 s)
  show ?case
  proof (cases s)
    case Nil
    with 1(2) show ?thesis by (simp add: string_slow.simps)
  next
    case (Cons c cs)
    have le: "length r \<le> length t" if "string_slow lim u t = (sc', Inr r)" "length t \<le> length cs" for u t
      using 1(1) [rule_format, of t u] that Cons by simp
    from string_slow_step [OF 1(2) [unfolded Cons]] show ?thesis
    proof (elim disjE conjE exE)
      fix sc1 n assume "string_slow lim sc1 (drop n cs) = (sc', Inr r)"
      from le [OF this] show ?thesis by (simp add: Cons)
    next
      assume "string_slow lim (sc @ [c]) cs = (sc', Inr r)"
      from le [OF this] show ?thesis by (simp add: Cons)
    qed (simp add: Cons)
  qed
qed

lemma parseString_shorter: "parseString s p = (p', Inr (v, r)) \<Longrightarrow> length r < length s"
  by (cases s) (auto simp: parseString_def le_imp_less_Suc
      split: if_splits sum.splits option.splits prod.splits
      dest: string_fast_shorter string_slow_shorter)

lemma opt_byte_shorter: "length (opt_byte bs s) \<le> length s"
  by (simp add: opt_byte_def split: list.split)

lemma some_digits_shorter: "some_digits s = Some r \<Longrightarrow> length r \<le> length s"
  by (auto simp: some_digits_def Let_def length_dropWhile_le split: if_splits)

lemma int_digits_shorter: "int_digits s = Some r \<Longrightarrow> length r \<le> length s"
  by (auto simp: int_digits_def length_dropWhile_le le_SucI split: list.splits if_splits)

lemma frac_digits_shorter: "frac_digits s = Some r \<Longrightarrow> length r \<le> length s"
  by (auto simp: frac_digits_def split: list.splits if_splits dest: some_digits_shorter)

lemma exp_digits_shorter: "exp_digits s = Some r \<Longrightarrow> length r \<le> length s"
  using some_digits_shorter opt_byte_shorter
  by (fastforce simp: exp_digits_def split: list.splits if_splits intro: le_SucI le_trans)

lemma parseNumber_Some:
  "parseNumber s = Some (v, r) \<longleftrightarrow>
     (\<exists>r1 r2. int_digits (opt_byte [45] s) = Some r1 \<and> frac_digits r1 = Some r2 \<and>
        exp_digits r2 = Some r) \<and> v = take (length s - length r) s"
  by (auto simp: parseNumber_def split: option.splits)

lemma parseNumber_shorter: "parseNumber s = Some (v, r) \<Longrightarrow> length r \<le> length s"
proof -
  assume "parseNumber s = Some (v, r)"
  then obtain r1 r2 where "int_digits (opt_byte [45] s) = Some r1" "frac_digits r1 = Some r2"
    "exp_digits r2 = Some r"
    by (auto simp: parseNumber_Some)
  then have "length r1 \<le> length (opt_byte [45] s)" "length r2 \<le> length r1" "length r \<le> length r2"
    by (auto dest: int_digits_shorter frac_digits_shorter exp_digits_shorter)
  then show ?thesis using opt_byte_shorter [of "[45]" s] by linarith
qed

lemma literal_loop_shorter: "literal_loop ls s = Some (v, r) \<Longrightarrow> length r \<le> length s"
  by (induction ls) (auto split: if_splits)

lemma parseLiteral_shorter: "parseLiteral s = Some (v, r) \<Longrightarrow> length r \<le> length s"
  unfolding parseLiteral_def by (rule literal_loop_shorter)

lemma emit_leaf_rest: "emit_leaf fn k (v, r) p = (p', Inr (stop, r')) \<Longrightarrow> r' = r"
  by (auto simp: emit_leaf_def split: prod.splits sum.splits)

lemma skipSpace_Cons_shorter: "skipSpace s = d # ds \<Longrightarrow> length ds < length s"
  using length_skipSpace [of s] by simp

lemma member_key_shorter:
  assumes "member_key fn s p = (p', Inr (stop, r))"
  shows "length r < length s"
proof -
  obtain cs where s: "skipSpace s = 34 # cs"
    using assms by (auto simp: member_key_def split: list.splits if_splits)
  then obtain p1 key rest where k: "parseString (34 # cs) p = (p1, Inr (key, rest))"
    using assms by (auto simp: member_key_def split: prod.splits sum.splits)
  from parseString_shorter [OF this] s have lt: "length rest < length s"
    using length_skipSpace [of s] by simp
  have "r = rest \<or> (\<exists>d ds. skipSpace rest = d # ds \<and> r = skipSpace ds)"
    using assms s k
    by (auto simp: member_key_def split: prod.splits sum.splits if_splits list.splits)
  with lt show ?thesis
    using length_skipSpace skipSpace_Cons_shorter
    by (metis le_less_trans less_trans)
qed

lemma string_leaf_rest:
  "(case parseString s p of (p, Inl e) \<Rightarrow> Some (p, Inl e)
    | (p, Inr vr) \<Rightarrow> Some (emit_leaf fn LeafString vr p)) = Some (p', Inr (stop, r)) \<Longrightarrow>
   length r \<le> length s"
  by (auto split: prod.splits sum.splits dest!: parseString_shorter emit_leaf_rest)

lemma leaf_or_error_rest:
  "leaf_or_error fn k (Some vr) p = (p', Inr (stop, r)) \<Longrightarrow> r = snd vr"
  by (cases vr) (auto simp: leaf_or_error_def dest: emit_leaf_rest)

lemma leaf_or_error_shorter:
  assumes "leaf_or_error fn k x p = (p', Inr (stop, r))" and "\<And>v r. x = Some (v, r) \<Longrightarrow> length r \<le> length s"
  shows "length r \<le> length s"
proof (cases x)
  case (Some vr)
  obtain v r' where vr: "vr = (v, r')" by force
  with leaf_or_error_rest [OF assms(1) [unfolded Some]] assms(2) [of v r'] Some show ?thesis by simp
qed (use assms(1) in \<open>simp add: leaf_or_error_def\<close>)

text \<open>The rest never grows, whichever of the three functions returns it.\<close>

definition shrinks :: "nat \<Rightarrow> 's emit \<Rightarrow> bool" where
  "shrinks n fn \<longleftrightarrow>
     (\<forall>s d p p' stop r. parseValue n fn s d p = Some (p', Inr (stop, r)) \<longrightarrow> length r \<le> length s) \<and>
     (\<forall>s d p p' stop r. object_loop n fn s d p = Some (p', Inr (stop, r)) \<longrightarrow> length r \<le> length s) \<and>
     (\<forall>i s d p p' stop r. array_loop n fn i s d p = Some (p', Inr (stop, r)) \<longrightarrow> length r \<le> length s)"

lemma shrinksD:
  "shrinks n fn \<Longrightarrow> parseValue n fn s d p = Some (p', Inr (stop, r)) \<Longrightarrow> length r \<le> length s"
  "shrinks n fn \<Longrightarrow> object_loop n fn s d p = Some (p', Inr (stop, r)) \<Longrightarrow> length r \<le> length s"
  "shrinks n fn \<Longrightarrow> array_loop n fn i s d p = Some (p', Inr (stop, r)) \<Longrightarrow> length r \<le> length s"
  unfolding shrinks_def by blast+

lemma shrinks_value:
  assumes "shrinks n fn" and "parseValue (Suc n) fn s d p = Some (p', Inr (stop, r))"
  shows "length r \<le> length s"
proof -
  obtain c cs where s: "s = c # cs" using assms(2) by (cases s) (auto split: if_splits)
  have depth: "\<not> MaxDepth (p_limits p) < int d" using assms(2) by (auto split: if_splits)
  consider (obj) "c = 123" | (arr) "c = 91" | (str) "c = 34" | (bool) "c = 116 \<or> c = 102"
    | (null) "c = 110" | (num) "c \<notin> {123, 91, 34, 116, 102, 110}" by blast
  then show ?thesis
  proof cases
    case obj
    from assms(2) obj s depth have "length r \<le> length (skipSpace cs)"
      by (auto split: list.splits if_splits dest!: shrinksD(2) [OF assms(1)])
    then show ?thesis using s length_skipSpace [of cs] by simp
  next
    case arr
    from assms(2) arr s depth have "length r \<le> length (skipSpace cs)"
      by (auto split: list.splits if_splits dest!: shrinksD(3) [OF assms(1)])
    then show ?thesis using s length_skipSpace [of cs] by simp
  next
    case str
    with assms(2) s depth show ?thesis by (auto simp del: list.size dest!: string_leaf_rest)
  next
    case bool
    with assms(2) s depth have "leaf_or_error fn LeafBool (parseLiteral s) p = (p', Inr (stop, r))"
      by auto
    then show ?thesis by (rule leaf_or_error_shorter) (rule parseLiteral_shorter)
  next
    case null
    with assms(2) s depth have "leaf_or_error fn LeafNull (parseLiteral s) p = (p', Inr (stop, r))"
      by auto
    then show ?thesis by (rule leaf_or_error_shorter) (rule parseLiteral_shorter)
  next
    case num
    with assms(2) s depth have "leaf_or_error fn LeafNumber (parseNumber s) p = (p', Inr (stop, r))"
      by auto
    then show ?thesis by (rule leaf_or_error_shorter) (rule parseNumber_shorter)
  qed
qed

text \<open>After a value: the end of the container, or one more turn of its loop.\<close>

lemma object_turn:
  assumes "object_loop (Suc n) fn s d p = Some (p', Inr (stop, r))"
  obtains (key) p1 where "member_key fn s p = (p1, Inr (True, r))"
  | (stopped) p1 r1 p2 where "member_key fn s p = (p1, Inr (False, r1))"
      "parseValue n fn r1 (d + 1) p1 = Some (p2, Inr (True, r))"
  | (last) p1 r1 p2 r2 where "member_key fn s p = (p1, Inr (False, r1))"
      "parseValue n fn r1 (d + 1) p1 = Some (p2, Inr (False, r2))" "skipSpace r2 = 125 # r"
  | (more) p1 r1 p2 r2 ds where "member_key fn s p = (p1, Inr (False, r1))"
      "parseValue n fn r1 (d + 1) p1 = Some (p2, Inr (False, r2))" "skipSpace r2 = 44 # ds"
      "object_loop n fn ds d (popPath p2) = Some (p', Inr (stop, r))"
  using assms
  by (auto split: prod.splits sum.splits if_splits option.splits list.splits simp: Let_def)

lemma array_turn:
  assumes "array_loop (Suc n) fn i s d p = Some (p', Inr (stop, r))"
  obtains (stopped) p1 p2 where "pushPath (body_itoa [] (int i)) True p = (p1, True)"
      "parseValue n fn (skipSpace s) (d + 1) p1 = Some (p2, Inr (True, r))"
  | (last) p1 p2 r2 where "pushPath (body_itoa [] (int i)) True p = (p1, True)"
      "parseValue n fn (skipSpace s) (d + 1) p1 = Some (p2, Inr (False, r2))" "skipSpace r2 = 93 # r"
  | (more) p1 p2 r2 ds where "pushPath (body_itoa [] (int i)) True p = (p1, True)"
      "parseValue n fn (skipSpace s) (d + 1) p1 = Some (p2, Inr (False, r2))" "skipSpace r2 = 44 # ds"
      "array_loop n fn (i + 1) ds d (popPath p2) = Some (p', Inr (stop, r))"
  using assms
  by (auto split: prod.splits sum.splits if_splits option.splits list.splits simp: Let_def)

lemma shrinks_object:
  assumes "shrinks n fn" and "object_loop (Suc n) fn s d p = Some (p', Inr (stop, r))"
  shows "length r \<le> length s"
  using assms(2)
proof (cases rule: object_turn)
  case (key p1)
  from member_key_shorter [OF this] show ?thesis by simp
next
  case (stopped p1 r1 p2)
  then have "length r \<le> length r1" using shrinksD [OF assms(1)] by blast
  then show ?thesis using member_key_shorter [OF stopped(1)] by simp
next
  case (last p1 r1 p2 r2)
  then have "length r2 \<le> length r1" using shrinksD [OF assms(1)] by blast
  then show ?thesis using member_key_shorter [OF last(1)] skipSpace_Cons_shorter [OF last(3)] by simp
next
  case (more p1 r1 p2 r2 ds)
  then have "length r2 \<le> length r1" "length r \<le> length ds"
    using shrinksD [OF assms(1)] by blast+
  then show ?thesis using member_key_shorter [OF more(1)] skipSpace_Cons_shorter [OF more(3)] by simp
qed

lemma shrinks_array:
  assumes "shrinks n fn" and "array_loop (Suc n) fn i s d p = Some (p', Inr (stop, r))"
  shows "length r \<le> length s"
  using assms(2)
proof (cases rule: array_turn)
  case (stopped p1 p2)
  then have "length r \<le> length (skipSpace s)" using shrinksD [OF assms(1)] by blast
  then show ?thesis using length_skipSpace [of s] by simp
next
  case (last p1 p2 r2)
  then have "length r2 \<le> length (skipSpace s)" using shrinksD [OF assms(1)] by blast
  then show ?thesis using length_skipSpace [of s] skipSpace_Cons_shorter [OF last(3)] by simp
next
  case (more p1 p2 r2 ds)
  then have "length r2 \<le> length (skipSpace s)" "length r \<le> length ds"
    using shrinksD [OF assms(1)] by blast+
  then show ?thesis using length_skipSpace [of s] skipSpace_Cons_shorter [OF more(3)] by simp
qed

lemma shrinks_all: "shrinks n fn"
proof (induction n)
  case 0
  then show ?case by (simp add: shrinks_def)
next
  case (Suc n)
  then show ?case
    using shrinks_value [OF Suc] shrinks_object [OF Suc] shrinks_array [OF Suc]
    unfolding shrinks_def [of "Suc n"] by blast
qed

text \<open>Fuel: twice the length and one for a value, one more for a loop.\<close>

lemma fuel_enough:
  "2 * length s < n \<Longrightarrow> parseValue n fn s d p \<noteq> None"
  "2 * length s + 1 < n \<Longrightarrow> object_loop n fn s d p \<noteq> None"
  "2 * length s + 1 < n \<Longrightarrow> array_loop n fn i s d p \<noteq> None"
proof (induction n arbitrary: s d p i)
  case (Suc n)
  {
    case 1
    note step = Suc.IH(2,3)
    show ?case
    proof (cases s)
      case (Cons c cs)
      have "2 * length (skipSpace cs) + 1 < n" using 1 Cons length_skipSpace [of cs] by simp
      note ok = Suc.IH(2) [OF this] Suc.IH(3) [OF this]
      have "object_loop n fn t d p \<noteq> None" "array_loop n fn 0 t d p \<noteq> None" if "skipSpace cs = t" for t
        using ok that by blast+
      then show ?thesis
        by (auto simp: Cons split: list.splits prod.splits sum.splits)
    qed simp
  next
    case 2
    have v: "parseValue n fn r (d + 1) p1 \<noteq> None" if "member_key fn s p = (p1, Inr (False, r))" for p1 r
      using Suc.IH(1) [of r] member_key_shorter [OF that] 2 by simp
    have l: "object_loop n fn ds d p2 \<noteq> None"
      if "member_key fn s p = (p1, Inr (False, r))"
        and "parseValue n fn r (d + 1) p1 = Some (p2', Inr (False, r'))" and "skipSpace r' = 44 # ds"
      for p1 r p2 p2' r' ds
    proof -
      have "length r' \<le> length r" using shrinksD [OF shrinks_all] that(2) by blast
      with member_key_shorter [OF that(1)] skipSpace_Cons_shorter [OF that(3)] 2 show ?thesis
        using Suc.IH(2) [of ds] by simp
    qed
    show ?case
      using v l by (auto split: prod.splits sum.splits option.splits list.splits simp: Let_def)
  next
    case 3
    have v: "parseValue n fn (skipSpace s) (Suc d) p1 \<noteq> None" for p1
      using Suc.IH(1) [of "skipSpace s"] length_skipSpace [of s] 3 by simp
    have l: "array_loop n fn (Suc i) ds d p2 \<noteq> None"
      if "parseValue n fn (skipSpace s) (d + 1) p1 = Some (p2', Inr (False, r'))"
        and "skipSpace r' = 44 # ds"
      for p1 p2 p2' r' ds
    proof -
      have "length r' \<le> length (skipSpace s)" using shrinksD [OF shrinks_all] that(1) by blast
      with length_skipSpace [of s] skipSpace_Cons_shorter [OF that(2)] 3 show ?thesis
        using Suc.IH(3) [of ds] by simp
    qed
    show ?case
      using l
      by (auto simp: v Let_def simp del: not_None_eq split: prod.splits sum.splits option.splits list.splits)
  }
qed simp_all

lemma ParseJSON_total: "ParseJSON fn src p \<noteq> None"
proof -
  have "parseValue (json_fuel src) fn (c # cs) 0 p \<noteq> None" if "skipSpace src = c # cs" for c cs
    using fuel_enough(1) [of "c # cs" "json_fuel src" fn 0 p] length_skipSpace [of src] that
    by (simp add: json_fuel_def)
  then show ?thesis
    by (auto simp: ParseJSON_def split: list.splits option.splits prod.splits sum.splits)
qed

end
