(* ===== verification/BodyJSONRound.thy ===== *)
theory BodyJSONRound
  imports BodyJSONCorrect
begin

text \<open>
  JSON values and their text, and what parsing that text hands to the caller: the reference the
  parser is measured against.
\<close>

section \<open>Values, their text and their leaves\<close>

datatype json =
    JString gobytes
  | JNumber gobytes
  | JTrue
  | JFalse
  | JNull
  | JArray "json list"
  | JObject "(gobytes \<times> json) list"

definition hex_char :: "nat \<Rightarrow> byte" where
  "hex_char n = (if n < 10 then 48 + of_nat n else 87 + of_nat n)"

text \<open>Quote and backslash are escaped with a backslash, control bytes as \<open>u00XX\<close>.\<close>

definition json_escape :: "byte \<Rightarrow> gobytes" where
  "json_escape c =
     (if c = 34 \<or> c = 92 then [92, c]
      else if c < 32 then [92, 117, 48, 48, hex_char (unat c div 16), hex_char (unat c mod 16)]
      else [c])"

definition json_quote :: "gobytes \<Rightarrow> gobytes" where
  "json_quote s = [34] @ concat (map json_escape s) @ [34]"

fun render :: "json \<Rightarrow> gobytes"
  and render_elems :: "json list \<Rightarrow> gobytes"
  and render_members :: "(gobytes \<times> json) list \<Rightarrow> gobytes"
where
  "render (JString s) = json_quote s"
| "render (JNumber s) = s"
| "render JTrue = ascii ''true''"
| "render JFalse = ascii ''false''"
| "render JNull = ascii ''null''"
| "render (JArray js) = [91] @ render_elems js @ [93]"
| "render (JObject ms) = [123] @ render_members ms @ [125]"
| "render_elems [] = []"
| "render_elems (j # js) = render j @ (if js = [] then [] else [44] @ render_elems js)"
| "render_members [] = []"
| "render_members ((k, j) # ms) =
     json_quote k @ [58] @ render j @ (if ms = [] then [] else [44] @ render_members ms)"

definition elem_path :: "gobytes \<Rightarrow> nat \<Rightarrow> gobytes" where
  "elem_path path i = path @ [91] @ body_itoa [] (int i) @ [93]"

definition member_path :: "gobytes \<Rightarrow> gobytes \<Rightarrow> gobytes" where
  "member_path path k = (if path = [] then [] else path @ [46]) @ k"

type_synonym leaf = "gobytes \<times> gobytes \<times> body_kind"

fun leaves :: "gobytes \<Rightarrow> json \<Rightarrow> leaf list"
  and elem_leaves :: "gobytes \<Rightarrow> nat \<Rightarrow> json list \<Rightarrow> leaf list"
  and member_leaves :: "gobytes \<Rightarrow> (gobytes \<times> json) list \<Rightarrow> leaf list"
where
  "leaves path (JString s) = [(path, s, LeafString)]"
| "leaves path (JNumber s) = [(path, s, LeafNumber)]"
| "leaves path JTrue = [(path, ascii ''true'', LeafBool)]"
| "leaves path JFalse = [(path, ascii ''false'', LeafBool)]"
| "leaves path JNull = [(path, ascii ''null'', LeafNull)]"
| "leaves path (JArray js) = elem_leaves path 0 js"
| "leaves path (JObject ms) = member_leaves path ms"
| "elem_leaves path i [] = []"
| "elem_leaves path i (j # js) = leaves (elem_path path i) j @ elem_leaves path (Suc i) js"
| "member_leaves path [] = []"
| "member_leaves path ((k, j) # ms) =
     (path, k, LeafKey) # leaves (member_path path k) j @ member_leaves path ms"

text \<open>The value fits the limits: nesting, leaf lengths, path lengths, and numbers that are numbers.\<close>

fun fits :: "body_limits \<Rightarrow> gobytes \<Rightarrow> nat \<Rightarrow> json \<Rightarrow> bool"
  and elems_fit :: "body_limits \<Rightarrow> gobytes \<Rightarrow> nat \<Rightarrow> nat \<Rightarrow> json list \<Rightarrow> bool"
  and members_fit :: "body_limits \<Rightarrow> gobytes \<Rightarrow> nat \<Rightarrow> (gobytes \<times> json) list \<Rightarrow> bool"
where
  "fits l path d (JString s) \<longleftrightarrow> int d \<le> MaxDepth l \<and> int (length s) \<le> MaxValueLen l"
| "fits l path d (JNumber s) \<longleftrightarrow>
     int d \<le> MaxDepth l \<and> int (length s) \<le> MaxValueLen l \<and> parseNumber s = Some (s, [])"
| "fits l path d JTrue \<longleftrightarrow> int d \<le> MaxDepth l \<and> 5 \<le> MaxValueLen l"
| "fits l path d JFalse \<longleftrightarrow> int d \<le> MaxDepth l \<and> 5 \<le> MaxValueLen l"
| "fits l path d JNull \<longleftrightarrow> int d \<le> MaxDepth l \<and> 5 \<le> MaxValueLen l"
| "fits l path d (JArray js) \<longleftrightarrow> int d \<le> MaxDepth l \<and> elems_fit l path d 0 js"
| "fits l path d (JObject ms) \<longleftrightarrow> int d \<le> MaxDepth l \<and> members_fit l path d ms"
| "elems_fit l path d i [] \<longleftrightarrow> True"
| "elems_fit l path d i (j # js) \<longleftrightarrow>
     int (length (elem_path path i)) \<le> MaxKeyLen l \<and> fits l (elem_path path i) (Suc d) j \<and>
     elems_fit l path d (Suc i) js"
| "members_fit l path d [] \<longleftrightarrow> True"
| "members_fit l path d ((k, j) # ms) \<longleftrightarrow>
     int (length k) \<le> MaxValueLen l \<and> int (length (member_path path k)) \<le> MaxKeyLen l \<and>
     fits l (member_path path k) (Suc d) j \<and> members_fit l path d ms"

text \<open>A caller that keeps every leaf.\<close>

definition collect :: "leaf list emit" where
  "collect name val kind p = (p\<lparr>p_client := p_client p @ [(name, val, kind)]\<rparr>, True)"

definition collected :: "leaf list parser \<Rightarrow> leaf list \<Rightarrow> leaf list parser \<Rightarrow> bool" where
  "collected p ls p' \<longleftrightarrow>
     p_path p' = p_path p \<and> p_pathStack p' = p_pathStack p \<and> p_limits p' = p_limits p \<and>
     p_fields p' = p_fields p + length ls \<and> p_client p' = p_client p @ ls"

lemma collected_refl: "collected p [] p"
  by (simp add: collected_def)

lemma collected_trans: "collected p xs q \<Longrightarrow> collected q ys r \<Longrightarrow> collected p (xs @ ys) r"
  by (simp add: collected_def)

lemma emit_collect:
  assumes "int (p_fields p) + 1 \<le> MaxFields (p_limits p)"
    and "int (length v) \<le> MaxValueLen (p_limits p)"
  obtains p' where "parser_emit collect v k p = (p', Inr True)" "collected p [(p_path p, v, k)] p'"
  using assms by (auto simp: parser_emit_def collect_def collected_def Let_def)

section \<open>Strings\<close>

text \<open>The escape of a control byte is a backslash, and then only bytes the fast scan steps over.\<close>

lemma string_fast_plain:
  "\<forall>c \<in> set s. c \<noteq> 34 \<and> c \<noteq> 92 \<and> \<not> c < 32 \<Longrightarrow>
   string_fast (s @ rest) acc e = string_fast rest (acc @ s) e"
  by (induction s arbitrary: acc) auto

definition needs_escape :: "byte \<Rightarrow> bool" where
  "needs_escape c \<longleftrightarrow> c = 34 \<or> c = 92 \<or> c < 32"

lemma hex_char_plain:
  assumes "n < 16"
  shows "hex_char n \<noteq> 34 \<and> hex_char n \<noteq> 92 \<and> \<not> hex_char n < 32"
proof -
  have "list_all (\<lambda>n. hex_char n \<noteq> 34 \<and> hex_char n \<noteq> 92 \<and> \<not> hex_char n < 32) [0..<16]" by code_simp
  with assms show ?thesis by (simp add: list_all_iff)
qed

lemma string_fast_escape:
  "needs_escape c \<Longrightarrow> \<exists>acc'. string_fast (json_escape c @ rest) acc e = string_fast rest acc' True"
proof -
  assume c: "needs_escape c"
  show ?thesis
  proof (cases "c = 34 \<or> c = 92")
    case True
    then show ?thesis by (auto simp: json_escape_def)
  next
    case False
    let ?t = "[48, 48, hex_char (unat c div 16), hex_char (unat c mod 16)]"
    have "unat c div 16 < 16" using unat_byte_less [of c] by (simp add: less_mult_imp_div_less)
    then have "\<forall>x \<in> set ?t. x \<noteq> 34 \<and> x \<noteq> 92 \<and> \<not> x < 32"
      using hex_char_plain by (auto simp: byte_simps)
    from string_fast_plain [OF this, of rest "acc @ [92, 117]" True] False c show ?thesis
      by (auto simp: json_escape_def needs_escape_def)
  qed
qed

lemma string_fast_quoted:
  "string_fast (concat (map json_escape s) @ 34 # rest) acc e =
     (if e \<or> (\<exists>c \<in> set s. needs_escape c) then Inr None else Inr (Some (acc @ s, rest)))"
proof (induction s arbitrary: acc e)
  case (Cons c cs)
  show ?case
  proof (cases "needs_escape c")
    case True
    obtain acc' where "string_fast (json_escape c @ concat (map json_escape cs) @ 34 # rest) acc e =
        string_fast (concat (map json_escape cs) @ 34 # rest) acc' True"
      using string_fast_escape [OF True] by blast
    with True show ?thesis by (simp add: Cons)
  next
    case False
    then have "json_escape c = [c]" and "c \<noteq> 34" "c \<noteq> 92" "\<not> c < 32"
      by (auto simp: json_escape_def needs_escape_def)
    with False show ?thesis by (simp add: Cons)
  qed
qed simp

lemma control_escape:
  assumes "c < 32"
  shows "unescape_json sc ([117, 48, 48, hex_char (unat c div 16), hex_char (unat c mod 16)] @ rest) =
    Some (sc @ [c], 5)"
proof -
  have "list_all (\<lambda>c. json_hex_loop [48, 48, hex_char (unat c div 16), hex_char (unat c mod 16)] 0 =
      Some (ucast c) \<and> json_appendRune [] (ucast c) = [c] \<and> (ucast c :: u32) < 32)
    (map of_nat [0..<32])"
    by code_simp
  moreover have "c \<in> set (map of_nat [0..<32])"
    using assms by (auto simp: byte_simps image_iff intro!: bexI [of _ "unat c"])
  ultimately have h: "json_hex_loop [48, 48, hex_char (unat c div 16), hex_char (unat c mod 16)] 0 =
      Some (ucast c)" and a: "json_appendRune [] (ucast c) = [c]" and lt: "(ucast c :: u32) < 32"
    unfolding list_all_iff by blast+
  have app: "json_appendRune sc r = sc @ json_appendRune [] r" for r
    by (simp add: json_appendRune_def Let_def)
  from lt have "\<not> 0xD800 \<le> (ucast c :: u32)" "\<not> 0xDC00 \<le> (ucast c :: u32)"
    by (simp_all add: word_less_nat_alt word_le_nat_alt)
  then show ?thesis
    using h a app [of "ucast c"]
    by (simp add: unescape_json_def simple_escape_def parseUnicodeEscape_def json_hex4_def)
qed

lemma string_slow_quoted:
  "int (length (sc @ s)) \<le> lim \<Longrightarrow>
   string_slow lim sc (concat (map json_escape s) @ 34 # rest) = (sc @ s, Inr rest)"
proof (induction s arbitrary: sc)
  case Nil
  then show ?case by (simp add: string_slow.simps)
next
  case (Cons c cs)
  then have IH: "string_slow lim (sc @ [c]) (concat (map json_escape cs) @ 34 # rest) =
      (sc @ c # cs, Inr rest)" and len: "\<not> lim < int (length (sc @ [c]))" by auto
  consider "c = 34 \<or> c = 92" | "c \<noteq> 34" "c \<noteq> 92" "c < 32" | "c \<noteq> 34" "c \<noteq> 92" "\<not> c < 32" by blast
  then show ?case
  proof cases
    case 1
    then show ?thesis
      using IH len by (subst string_slow.simps)
        (auto simp: json_escape_def unescape_json_def simple_escape_def)
  next
    case 2
    then show ?thesis
      using IH len control_escape [OF 2(3), of sc "concat (map json_escape cs) @ 34 # rest"]
      by (subst string_slow.simps) (simp add: json_escape_def)
  next
    case 3
    then show ?thesis
      using IH len by (subst string_slow.simps) (simp add: json_escape_def)
  qed
qed

lemma parseString_quoted:
  assumes "int (length s) \<le> MaxValueLen (p_limits p)"
  obtains p' where "parseString (json_quote s @ rest) p = (p', Inr (s, rest))" "collected p [] p'"
  using assms string_slow_quoted [of "[]" s "MaxValueLen (p_limits p)" rest]
  by (cases "\<exists>c \<in> set s. needs_escape c")
    (auto simp: parseString_def json_quote_def string_fast_quoted collected_def)

section \<open>Numbers\<close>

definition num_end :: "gobytes \<Rightarrow> bool" where
  "num_end rest \<longleftrightarrow> rest = [] \<or> \<not> json_digit (hd rest) \<and> hd rest \<notin> {46, 101, 69}"

lemma dropWhile_digit_append:
  "num_end rest \<Longrightarrow> dropWhile json_digit (s @ rest) = dropWhile json_digit s @ rest"
  by (induction s) (cases rest; auto simp: num_end_def)+

lemma some_digits_append:
  "num_end rest \<Longrightarrow> some_digits s = Some r \<Longrightarrow> some_digits (s @ rest) = Some (r @ rest)"
  by (auto simp: some_digits_def Let_def dropWhile_digit_append split: if_splits)

lemma int_digits_append:
  "num_end rest \<Longrightarrow> int_digits s = Some r \<Longrightarrow> int_digits (s @ rest) = Some (r @ rest)"
  using dropWhile_digit_append [of rest s]
  by (auto simp: int_digits_def split: list.splits if_splits)

lemma frac_digits_append:
  "num_end rest \<Longrightarrow> frac_digits s = Some r \<Longrightarrow> frac_digits (s @ rest) = Some (r @ rest)"
  by (cases s; cases rest) (auto simp: frac_digits_def num_end_def some_digits_append split: if_splits)

lemma exp_digits_append:
  "num_end rest \<Longrightarrow> exp_digits s = Some r \<Longrightarrow> exp_digits (s @ rest) = Some (r @ rest)"
proof (cases s)
  case (Cons c cs)
  assume e: "num_end rest" "exp_digits s = Some r"
  show ?thesis
  proof (cases "c = 101 \<or> c = 69")
    case True
    with e Cons have s: "some_digits (opt_byte [43, 45] cs) = Some r" by (simp add: exp_digits_def)
    then have "cs \<noteq> []" by (auto simp: opt_byte_def some_digits_def)
    then have "opt_byte [43, 45] (cs @ rest) = opt_byte [43, 45] cs @ rest"
      by (cases cs) (auto simp: opt_byte_def)
    with some_digits_append [OF e(1) s] Cons True show ?thesis by (simp add: exp_digits_def)
  next
    case False
    with e(2) Cons have "r = s" by (simp add: exp_digits_def)
    with Cons False show ?thesis by (simp add: exp_digits_def)
  qed
qed (cases rest; auto simp: exp_digits_def num_end_def)

lemma parseNumber_append:
  assumes "parseNumber s = Some (s, [])" and "num_end rest"
  shows "parseNumber (s @ rest) = Some (s, rest)"
proof -
  from assms(1) obtain r1 r2 where r: "int_digits (opt_byte [45] s) = Some r1"
    "frac_digits r1 = Some r2" "exp_digits r2 = Some []" by (auto simp: parseNumber_Some)
  then have "s \<noteq> []" by (auto simp: opt_byte_def int_digits_def)
  then have "opt_byte [45] (s @ rest) = opt_byte [45] s @ rest" by (cases s) (auto simp: opt_byte_def)
  then show ?thesis
    using int_digits_append [OF assms(2) r(1)] frac_digits_append [OF assms(2) r(2)]
      exp_digits_append [OF assms(2) r(3)]
    by (simp add: parseNumber_Some)
qed

lemma parseNumber_head:
  assumes "parseNumber s = Some (s, [])"
  obtains c cs where "s = c # cs" "c = 45 \<or> json_digit c"
proof -
  from assms obtain r1 where "int_digits (opt_byte [45] s) = Some r1" by (auto simp: parseNumber_Some)
  then have "\<exists>c cs. s = c # cs \<and> (c = 45 \<or> json_digit c)"
    by (auto simp: int_digits_def opt_byte_def json_digit_def byte_simps split: list.splits if_splits)
  with that show thesis by blast
qed

section \<open>Paths\<close>

lemma push_elem:
  assumes "int (length (elem_path (p_path p) i)) \<le> MaxKeyLen (p_limits p)"
  obtains p1 where "pushPath (body_itoa [] (int i)) True p = (p1, True)"
    "p_path p1 = elem_path (p_path p) i" "p_limits p1 = p_limits p" "p_fields p1 = p_fields p"
    "\<And>ls p2. collected p1 ls p2 \<Longrightarrow> collected p ls (popPath p2)"
  using assms by (auto simp: pushPath_def popPath_def elem_path_def collected_def Let_def)

lemma push_member:
  assumes "int (length (member_path (p_path p) k)) \<le> MaxKeyLen (p_limits p)"
  obtains p1 where "pushPath k False p = (p1, True)"
    "p_path p1 = member_path (p_path p) k" "p_limits p1 = p_limits p" "p_fields p1 = p_fields p"
    "\<And>ls p2. collected p1 ls p2 \<Longrightarrow> collected p ls (popPath p2)"
  using assms by (auto simp: pushPath_def popPath_def member_path_def collected_def Let_def)

lemma collected_ctx:
  "collected p ls q \<Longrightarrow> p_path q = p_path p \<and> p_limits q = p_limits p \<and> p_fields q = p_fields p + length ls"
  by (simp add: collected_def)

section \<open>Values\<close>

definition ends_value :: "gobytes \<Rightarrow> bool" where
  "ends_value rest \<longleftrightarrow> rest = [] \<or> hd rest \<in> {44, 93, 125}"

lemma ends_value_num: "ends_value rest \<Longrightarrow> num_end rest"
  by (auto simp: ends_value_def num_end_def json_digit_def byte_simps)

lemma render_head:
  "fits l path d j \<Longrightarrow> \<exists>c cs. render j = c # cs \<and> c \<notin> {32, 9, 10, 13, 93, 125}"
  by (cases j) (auto simp: json_quote_def json_digit_def byte_simps elim!: parseNumber_head)

lemma skipSpace_render: "fits l path d j \<Longrightarrow> skipSpace (render j @ rest) = render j @ rest"
  using render_head [of l path d j] by auto

text \<open>What one of the parsing functions must return: everything collected, and the rest untouched.\<close>

definition parses :: "leaf list parsed option \<Rightarrow> leaf list parser \<Rightarrow> leaf list \<Rightarrow> gobytes \<Rightarrow> bool" where
  "parses res p ls rest \<longleftrightarrow>
     res = None \<or> (\<exists>p'. res = Some (p', Inr (False, rest)) \<and> collected p ls p')"

lemma parses_leaf:
  assumes "int (p_fields p) + 1 \<le> MaxFields (p_limits p)" and "int (length v) \<le> MaxValueLen (p_limits p)"
  shows "parses (Some (emit_leaf collect k (v, rest) p)) p [(p_path p, v, k)] rest"
proof -
  obtain p' where "parser_emit collect v k p = (p', Inr True)" "collected p [(p_path p, v, k)] p'"
    using emit_collect [OF assms] by blast
  then show ?thesis by (simp add: emit_leaf_def parses_def)
qed

lemma parseLiteral_word:
  "parseLiteral (ascii ''true'' @ rest) = Some (ascii ''true'', rest)"
  "parseLiteral (ascii ''false'' @ rest) = Some (ascii ''false'', rest)"
  "parseLiteral (ascii ''null'' @ rest) = Some (ascii ''null'', rest)"
  by (simp_all add: parseLiteral_def)

text \<open>A value cannot be read as the end of its container, nor dispatched as another kind.\<close>

lemma parse_number:
  assumes "fits (p_limits p) (p_path p) d (JNumber s)" and "ends_value rest"
    and "int (p_fields p) + 1 \<le> MaxFields (p_limits p)"
  shows "parses (parseValue (Suc n) collect (s @ rest) d p) p [(p_path p, s, LeafNumber)] rest"
proof -
  from assms(1) have n: "parseNumber s = Some (s, [])" and d: "\<not> MaxDepth (p_limits p) < int d"
    and v: "int (length s) \<le> MaxValueLen (p_limits p)" by auto
  obtain c cs where s: "s = c # cs" "c = 45 \<or> json_digit c" using parseNumber_head [OF n] by blast
  have "parseNumber (c # cs @ rest) = Some (s, rest)"
    using parseNumber_append [OF n ends_value_num [OF assms(2)]] s by simp
  with s d parses_leaf [OF assms(3) v, of LeafNumber rest] show ?thesis
    by (auto simp: json_digit_def byte_simps leaf_or_error_def)
qed

lemma parse_string:
  assumes "fits (p_limits p) (p_path p) d (JString s)"
    and "int (p_fields p) + 1 \<le> MaxFields (p_limits p)"
  shows "parses (parseValue (Suc n) collect (json_quote s @ rest) d p) p [(p_path p, s, LeafString)] rest"
proof -
  from assms(1) have d: "\<not> MaxDepth (p_limits p) < int d"
    and v: "int (length s) \<le> MaxValueLen (p_limits p)" by auto
  obtain p' where p': "parseString (json_quote s @ rest) p = (p', Inr (s, rest))" "collected p [] p'"
    using parseString_quoted [OF v] by blast
  have "parses (Some (emit_leaf collect LeafString (s, rest) p')) p' [(p_path p', s, LeafString)] rest"
    using assms(2) v p'(2) by (intro parses_leaf) (auto simp: collected_def)
  then have "parses (Some (emit_leaf collect LeafString (s, rest) p')) p [(p_path p, s, LeafString)] rest"
    using p'(2) collected_trans [OF p'(2)] by (auto simp: parses_def collected_def)
  with p'(1) d show ?thesis by (simp add: json_quote_def)
qed

lemma parse_word:
  assumes "int d \<le> MaxDepth (p_limits p)" and "5 \<le> MaxValueLen (p_limits p)"
    and "int (p_fields p) + 1 \<le> MaxFields (p_limits p)"
  shows "parses (parseValue (Suc n) collect (ascii ''true'' @ rest) d p) p
      [(p_path p, ascii ''true'', LeafBool)] rest"
    and "parses (parseValue (Suc n) collect (ascii ''false'' @ rest) d p) p
      [(p_path p, ascii ''false'', LeafBool)] rest"
    and "parses (parseValue (Suc n) collect (ascii ''null'' @ rest) d p) p
      [(p_path p, ascii ''null'', LeafNull)] rest"
proof -
  have d: "\<not> MaxDepth (p_limits p) < int d" using assms(1) by simp
  have t: "parses (Some (leaf_or_error collect k (Some (w, rest)) p)) p [(p_path p, w, k)] rest"
    if "length w \<le> 5" for k w
    using parses_leaf [OF assms(3), of w k rest] assms(2) that by (simp add: leaf_or_error_def)
  show "parses (parseValue (Suc n) collect (ascii ''true'' @ rest) d p) p
      [(p_path p, ascii ''true'', LeafBool)] rest"
    and "parses (parseValue (Suc n) collect (ascii ''false'' @ rest) d p) p
      [(p_path p, ascii ''false'', LeafBool)] rest"
    and "parses (parseValue (Suc n) collect (ascii ''null'' @ rest) d p) p
      [(p_path p, ascii ''null'', LeafNull)] rest"
    using t [of "ascii ''true''" LeafBool] t [of "ascii ''false''" LeafBool]
      t [of "ascii ''null''" LeafNull] d parseLiteral_word [of rest] by simp_all
qed

lemma member_key_render:
  assumes "int (length k) \<le> MaxValueLen (p_limits p)"
    and "int (length (member_path (p_path p) k)) \<le> MaxKeyLen (p_limits p)"
    and "int (p_fields p) + 1 \<le> MaxFields (p_limits p)" and "skipSpace r = r"
  obtains p1 where "member_key collect (json_quote k @ 58 # r) p = (p1, Inr (False, r))"
    "p_path p1 = member_path (p_path p) k" "p_limits p1 = p_limits p"
    "p_fields p1 = Suc (p_fields p)"
    "\<And>ls p2. collected p1 ls p2 \<Longrightarrow> collected p ((p_path p, k, LeafKey) # ls) (popPath p2)"
proof -
  obtain q where q: "parseString (json_quote k @ 58 # r) p = (q, Inr (k, 58 # r))" "collected p [] q"
    using parseString_quoted [OF assms(1)] by blast
  note cq = collected_ctx [OF q(2)]
  obtain e where e: "parser_emit collect k LeafKey q = (e, Inr True)"
    "collected q [(p_path q, k, LeafKey)] e"
    using emit_collect [of q k LeafKey] assms(1,3) cq by auto
  note ce = collected_ctx [OF e(2)]
  have "int (length (member_path (p_path e) k)) \<le> MaxKeyLen (p_limits e)" using assms(2) cq ce by simp
  then obtain p1 where p1: "pushPath k False e = (p1, True)"
    "p_path p1 = member_path (p_path e) k" "p_limits p1 = p_limits e" "p_fields p1 = p_fields e"
    "\<And>ls p2. collected p1 ls p2 \<Longrightarrow> collected e ls (popPath p2)"
    using push_member by blast
  have "member_key collect (json_quote k @ 58 # r) p = (p1, Inr (False, r))"
    using q(1) e(1) p1(1) assms(4) by (simp add: member_key_def json_quote_def)
  moreover have "collected p ((p_path p, k, LeafKey) # ls) (popPath p2)" if "collected p1 ls p2" for ls p2
    using collected_trans [OF q(2) collected_trans [OF e(2) p1(5) [OF that]]] cq by simp
  ultimately show thesis using that p1(2-4) cq ce by simp
qed

lemma ends_value_Cons: "ends_value (44 # r)" "ends_value (93 # r)" "ends_value (125 # r)"
  by (simp_all add: ends_value_def)

lemma parses_mono: "collected p ls q \<Longrightarrow> parses res q ls' rest \<Longrightarrow> parses res p (ls @ ls') rest"
  using collected_trans by (auto simp: parses_def)

lemma array_loop_render:
  assumes ok: "int (length (elem_path (p_path p) i)) \<le> MaxKeyLen (p_limits p)"
    and fit: "fits (p_limits p) (elem_path (p_path p) i) (Suc d) j"
    and value_ok: "\<And>p n rest. fits (p_limits p) (p_path p) (Suc d) j \<Longrightarrow>
      int (p_fields p + length (leaves (p_path p) j)) \<le> MaxFields (p_limits p) \<Longrightarrow> ends_value rest \<Longrightarrow>
      parses (parseValue n collect (render j @ rest) (Suc d) p) p (leaves (p_path p) j) rest"
    and count: "int (p_fields p + length (leaves (elem_path (p_path p) i) j)) \<le> MaxFields (p_limits p)"
    and tail: "c = 44 \<and> (\<forall>q n. collected p (leaves (elem_path (p_path p) i) j) q \<longrightarrow>
        parses (array_loop n collect (Suc i) t d q) q extra rest) \<or>
      c = 93 \<and> t = rest \<and> extra = []"
  shows "parses (array_loop n collect i (render j @ c # t) d p) p
    (leaves (elem_path (p_path p) i) j @ extra) rest"
proof (cases n)
  case (Suc m)
  obtain p1 where p1: "pushPath (body_itoa [] (int i)) True p = (p1, True)"
    "p_path p1 = elem_path (p_path p) i" "p_limits p1 = p_limits p" "p_fields p1 = p_fields p"
    "\<And>ls p2. collected p1 ls p2 \<Longrightarrow> collected p ls (popPath p2)"
    using push_elem [OF ok] by blast
  have "ends_value (c # t)" using tail by (auto simp: ends_value_def)
  with value_ok [of p1 "c # t" m] p1(2-4) fit count
  have v: "parses (parseValue m collect (render j @ c # t) (Suc d) p1) p1 (leaves (p_path p1) j) (c # t)"
    by simp
  show ?thesis
  proof (cases "parseValue m collect (render j @ c # t) (Suc d) p1")
    case None
    with Suc p1(1) skipSpace_render [OF fit] show ?thesis by (simp add: parses_def)
  next
    case (Some res)
    with v obtain p2 where p2: "res = (p2, Inr (False, c # t))" "collected p1 (leaves (p_path p1) j) p2"
      by (auto simp: parses_def)
    note cp = p1(5) [OF p2(2), unfolded p1(2)]
    from tail show ?thesis
    proof
      assume t: "c = 44 \<and> (\<forall>q n. collected p (leaves (elem_path (p_path p) i) j) q \<longrightarrow>
        parses (array_loop n collect (Suc i) t d q) q extra rest)"
      then have "parses (array_loop m collect (Suc i) t d (popPath p2)) (popPath p2) extra rest"
        using cp by blast
      from parses_mono [OF cp this] Suc p1(1) Some p2(1) t skipSpace_render [OF fit] show ?thesis
        by simp
    next
      assume t: "c = 93 \<and> t = rest \<and> extra = []"
      with Suc p1(1) Some p2(1) cp skipSpace_render [OF fit] show ?thesis by (simp add: parses_def)
    qed
  qed
qed (simp add: parses_def)

lemma object_loop_render:
  assumes key: "int (length k) \<le> MaxValueLen (p_limits p)"
    and ok: "int (length (member_path (p_path p) k)) \<le> MaxKeyLen (p_limits p)"
    and fit: "fits (p_limits p) (member_path (p_path p) k) (Suc d) j"
    and value_ok: "\<And>p n rest. fits (p_limits p) (p_path p) (Suc d) j \<Longrightarrow>
      int (p_fields p + length (leaves (p_path p) j)) \<le> MaxFields (p_limits p) \<Longrightarrow> ends_value rest \<Longrightarrow>
      parses (parseValue n collect (render j @ rest) (Suc d) p) p (leaves (p_path p) j) rest"
    and count: "int (Suc (p_fields p) + length (leaves (member_path (p_path p) k) j)) \<le> MaxFields (p_limits p)"
    and tail: "c = 44 \<and> (\<forall>q n. collected p ((p_path p, k, LeafKey) # leaves (member_path (p_path p) k) j) q \<longrightarrow>
        parses (object_loop n collect t d q) q extra rest) \<or>
      c = 125 \<and> t = rest \<and> extra = []"
  shows "parses (object_loop n collect (json_quote k @ 58 # render j @ c # t) d p) p
    (((p_path p, k, LeafKey) # leaves (member_path (p_path p) k) j) @ extra) rest"
proof (cases n)
  case (Suc m)
  obtain p1 where p1: "member_key collect (json_quote k @ 58 # render j @ c # t) p =
      (p1, Inr (False, render j @ c # t))"
    "p_path p1 = member_path (p_path p) k" "p_limits p1 = p_limits p" "p_fields p1 = Suc (p_fields p)"
    "\<And>ls p2. collected p1 ls p2 \<Longrightarrow> collected p ((p_path p, k, LeafKey) # ls) (popPath p2)"
    using member_key_render [OF key ok _ skipSpace_render [OF fit]] count by auto
  have "ends_value (c # t)" using tail by (auto simp: ends_value_def)
  with value_ok [of p1 "c # t" m] p1(2-4) fit count
  have v: "parses (parseValue m collect (render j @ c # t) (Suc d) p1) p1 (leaves (p_path p1) j) (c # t)"
    by simp
  show ?thesis
  proof (cases "parseValue m collect (render j @ c # t) (Suc d) p1")
    case None
    with Suc p1(1) show ?thesis by (simp add: parses_def)
  next
    case (Some res)
    with v obtain p2 where p2: "res = (p2, Inr (False, c # t))" "collected p1 (leaves (p_path p1) j) p2"
      by (auto simp: parses_def)
    note cp = p1(5) [OF p2(2), unfolded p1(2)]
    from tail show ?thesis
    proof
      assume t: "c = 44 \<and> (\<forall>q n. collected p ((p_path p, k, LeafKey) # leaves (member_path (p_path p) k) j) q \<longrightarrow>
        parses (object_loop n collect t d q) q extra rest)"
      then have "parses (object_loop m collect t d (popPath p2)) (popPath p2) extra rest" using cp by blast
      from parses_mono [OF cp this] Suc p1(1) Some p2(1) t show ?thesis by (simp add: Let_def)
    next
      assume t: "c = 125 \<and> t = rest \<and> extra = []"
      with Suc p1(1) Some p2(1) cp show ?thesis by (simp add: parses_def Let_def)
    qed
  qed
qed (simp add: parses_def)

text \<open>The three parsing functions on the three kinds of text.\<close>

lemma fits_depth: "fits l path d j \<Longrightarrow> \<not> MaxDepth l < int d"
  by (cases j) auto

lemma parse_container:
  assumes "\<not> MaxDepth (p_limits p) < int d"
  shows "parseValue (Suc n) collect (91 # 93 # rest) d p = Some (p, Inr (False, rest))"
    and "parseValue (Suc n) collect (123 # 125 # rest) d p = Some (p, Inr (False, rest))"
    and "skipSpace (c # t) = c # t \<Longrightarrow> c \<noteq> 93 \<Longrightarrow>
      parseValue (Suc n) collect (91 # c # t) d p = array_loop n collect 0 (c # t) d p"
    and "skipSpace (c # t) = c # t \<Longrightarrow> c \<noteq> 125 \<Longrightarrow>
      parseValue (Suc n) collect (123 # c # t) d p = object_loop n collect (c # t) d p"
  using assms by (auto split: if_splits)

lemma render_elems_head:
  "elems_fit l path d i (j # js) \<Longrightarrow>
   \<exists>c cs. render_elems (j # js) = c # cs \<and> c \<notin> {32, 9, 10, 13, 93, 125}"
  using render_head [of l "elem_path path i" "Suc d" j] by auto

lemma parse_render:
  "fits (p_limits p) (p_path p) d j \<Longrightarrow>
   int (p_fields p + length (leaves (p_path p) j)) \<le> MaxFields (p_limits p) \<Longrightarrow> ends_value rest \<Longrightarrow>
   parses (parseValue n collect (render j @ rest) d p) p (leaves (p_path p) j) rest"
  "js \<noteq> [] \<Longrightarrow> elems_fit (p_limits p) (p_path p) d i js \<Longrightarrow>
   int (p_fields p + length (elem_leaves (p_path p) i js)) \<le> MaxFields (p_limits p) \<Longrightarrow>
   parses (array_loop n collect i (render_elems js @ 93 # rest) d p) p (elem_leaves (p_path p) i js) rest"
  "ms \<noteq> [] \<Longrightarrow> members_fit (p_limits p) (p_path p) d ms \<Longrightarrow>
   int (p_fields p + length (member_leaves (p_path p) ms)) \<le> MaxFields (p_limits p) \<Longrightarrow>
   parses (object_loop n collect (render_members ms @ 125 # rest) d p) p (member_leaves (p_path p) ms) rest"
proof (induction j and js and ms arbitrary: n d p rest and n d p rest i and n d p rest
    rule: render_render_elems_render_members.induct)
  case (1 s)
  then show ?case by (cases n) (auto simp: parses_def [of None] intro: parse_string simp del: parseValue.simps(2))
next
  case (2 s)
  then show ?case by (cases n) (auto simp: parses_def [of None] intro: parse_number simp del: parseValue.simps(2))
next
  case 3
  then show ?case
    using parse_word(1) [of d p] by (cases n) (auto simp: parses_def [of None] simp del: parseValue.simps(2) ascii_simps)
next
  case 4
  then show ?case
    using parse_word(2) [of d p] by (cases n) (auto simp: parses_def [of None] simp del: parseValue.simps(2) ascii_simps)
next
  case 5
  then show ?case
    using parse_word(3) [of d p] by (cases n) (auto simp: parses_def [of None] simp del: parseValue.simps(2) ascii_simps)
next
  case (6 js)
  note d = fits_depth [OF 6(2)]
  show ?case
  proof (cases n)
    case (Suc m)
    show ?thesis
    proof (cases js)
      case Nil
      then show ?thesis
        using parse_container(1) [OF d] Suc
        by (simp add: parses_def collected_refl del: parseValue.simps(2))
    next
      case (Cons j' js')
      with 6(2) obtain c cs where c: "render_elems js = c # cs" "c \<notin> {32, 9, 10, 13, 93, 125}"
        using render_elems_head [of "p_limits p" "p_path p" d 0 j' js'] by auto
      have "parses (array_loop m collect 0 (render_elems js @ 93 # rest) d p) p (elem_leaves (p_path p) 0 js) rest"
        using 6 Cons by simp
      then show ?thesis
        using parse_container(3) [OF d, of c "cs @ 93 # rest" m] c Suc
        by (simp del: parseValue.simps(2))
    qed
  qed (simp add: parses_def)
next
  case (7 ms)
  note d = fits_depth [OF 7(2)]
  show ?case
  proof (cases n)
    case (Suc m)
    show ?thesis
    proof (cases ms)
      case Nil
      then show ?thesis
        using parse_container(2) [OF d] Suc
        by (simp add: parses_def collected_refl del: parseValue.simps(2))
    next
      case (Cons kj ms')
      obtain k j' where kj: "kj = (k, j')" by force
      then obtain cs where c: "render_members ms = 34 # cs" using Cons by (simp add: json_quote_def)
      have "parses (object_loop m collect (render_members ms @ 125 # rest) d p) p
          (member_leaves (p_path p) ms) rest"
        using 7 Cons by simp
      then show ?thesis
        using parse_container(4) [OF d, of 34 "cs @ 125 # rest" m] c Suc
        by (simp del: parseValue.simps(2))
    qed
  qed (simp add: parses_def)
next
  case (9 j js)
  show ?case
  proof (cases js)
    case Nil
    then show ?thesis
      using array_loop_render [where c = 93 and t = rest and extra = "[]" and rest = rest, OF _ _ 9(1)] 9(3-)
      by auto
  next
    case Cons
    have "parses (array_loop m collect (Suc i) (render_elems js @ 93 # rest) d q) q
        (elem_leaves (p_path p) (Suc i) js) rest"
      if "collected p (leaves (elem_path (p_path p) i) j) q" for q m
      using 9(2) [of q d "Suc i" m rest] 9(3-) Cons collected_ctx [OF that] by simp
    then show ?thesis
      using array_loop_render [where c = 44 and t = "render_elems js @ 93 # rest" and rest = rest
          and extra = "elem_leaves (p_path p) (Suc i) js", OF _ _ 9(1)] 9(3-) Cons
      by auto
  qed
next
  case (11 k j ms)
  show ?case
  proof (cases ms)
    case Nil
    then show ?thesis
      using object_loop_render [where c = 125 and t = rest and extra = "[]" and rest = rest, OF _ _ _ 11(1)] 11(3-)
      by auto
  next
    case Cons
    have "parses (object_loop m collect (render_members ms @ 125 # rest) d q) q
        (member_leaves (p_path p) ms) rest"
      if "collected p ((p_path p, k, LeafKey) # leaves (member_path (p_path p) k) j) q" for q m
      using 11(2) [of q d m rest] 11(3-) Cons collected_ctx [OF that] by simp
    then show ?thesis
      using object_loop_render [where c = 44 and t = "render_members ms @ 125 # rest" and rest = rest
          and extra = "member_leaves (p_path p) ms", OF _ _ _ 11(1)] 11(3-) Cons
      by auto
  qed
qed simp_all

section \<open>Properties\<close>

definition demo_json :: json where
  "demo_json = JObject [(ascii ''user'', JObject [(ascii ''name'', JString [34, 10, 92, 60])]),
     (ascii ''ids'', JArray [JNumber (ascii ''-7''), JNumber (ascii ''1.5e3'')]), (ascii ''ok'', JTrue)]"

definition demo_parser :: "leaf list parser" where
  "demo_parser = \<lparr>p_path = [], p_pathStack = [], p_scratch = [], p_fields = 0,
     p_limits = body_DefaultLimits, p_client = []\<rparr>"

definition no_limits :: body_limits where
  "no_limits = \<lparr>MaxDepth = 0, MaxFields = 0, MaxKeyLen = 0, MaxValueLen = 0, MaxTotalSize = 0\<rparr>"

text \<open>
  C33. What the application will read is what is inspected. Parsing the compact text of a JSON value that
  stays within the parser's limits always ends, without an error, and hands over exactly the
  value's leaves, keys included, each with its strings unescaped, in document order, and under the
  dotted path of its place in the document.
\<close>

theorem ParseJSON_roundtrip:
  assumes "fits (withDefaults l) [] 0 j"
    and "int (length (leaves [] j)) \<le> MaxFields (withDefaults l)"
    and "int (length (render j)) \<le> MaxTotalSize (withDefaults l)"
  shows "case ParseJSON collect (render j) (Parser_Reset l p) of
      None \<Rightarrow> False
    | Some (p', err) \<Rightarrow> err = None \<and> p_client p' = p_client p @ leaves [] j \<and> p_path p' = []"
proof -
  let ?p = "Parser_Reset l p"
  have p: "p_path ?p = []" "p_fields ?p = 0" "p_limits ?p = withDefaults l" "p_client ?p = p_client p"
    by (simp_all add: Parser_Reset_def)
  have sk: "skipSpace (render j) = render j" and ne: "render j \<noteq> []"
    using skipSpace_render [OF assms(1), of "[]"] render_head [OF assms(1)] by auto
  have "parseValue (json_fuel (render j)) collect (render j) 0 ?p \<noteq> None"
    by (rule fuel_enough) (simp add: json_fuel_def)
  moreover have "parses (parseValue (json_fuel (render j)) collect (render j @ []) 0 ?p) ?p
      (leaves (p_path ?p) j) []"
    using assms(1,2) p by (intro parse_render(1)) (simp_all add: ends_value_def)
  ultimately obtain p' where "parseValue (json_fuel (render j)) collect (render j) 0 ?p =
      Some (p', Inr (False, []))" "collected ?p (leaves [] j) p'"
    using p(1) by (auto simp: parses_def)
  with assms(3) sk ne p show ?thesis
    by (auto simp: ParseJSON_def collected_def split: list.split)
qed

theorem ParseJSON_roundtrip_witness:
  "case ParseJSON collect (render demo_json) (Parser_Reset no_limits demo_parser) of
      None \<Rightarrow> False
    | Some (p', err) \<Rightarrow> err = None \<and> p_client p' = p_client demo_parser @ leaves [] demo_json \<and> p_path p' = []"
proof -
  have "fits (withDefaults no_limits) [] 0 demo_json" by code_simp
  moreover have "int (length (leaves [] demo_json)) \<le> MaxFields (withDefaults no_limits)" by code_simp
  moreover have "int (length (render demo_json)) \<le> MaxTotalSize (withDefaults no_limits)" by code_simp
  ultimately show ?thesis by (rule ParseJSON_roundtrip)
qed

end
