(* ===== verification/BodyFrames.thy ===== *)
theory BodyFrames
  imports Body
begin

text \<open>
  Content encodings and gRPC framing (internal/body/compress.go, grpc.go). The decompressors are Go's
  standard library: the model takes, for every codec, what \<open>NewReader\<close> returns for a body, namely no
  reader at all or the successive results of its \<open>Read\<close>.
\<close>

section \<open>Encodings\<close>

datatype encoding =
  EncodingNone | EncodingGzip | EncodingDeflate | EncodingZlib | EncodingBrotli | EncodingUnknown

fun encoding_String :: "encoding \<Rightarrow> gobytes" where
  "encoding_String EncodingGzip = ascii ''gzip''"
| "encoding_String EncodingDeflate = ascii ''deflate''"
| "encoding_String EncodingZlib = ascii ''zlib''"
| "encoding_String EncodingBrotli = ascii ''br''"
| "encoding_String EncodingUnknown = ascii ''unknown''"
| "encoding_String EncodingNone = ascii ''none''"

definition Decodable :: "encoding \<Rightarrow> bool" where
  "Decodable e \<longleftrightarrow> e = EncodingGzip \<or> e = EncodingDeflate \<or> e = EncodingZlib"

text \<open>The token after the last comma.\<close>

definition last_token :: "gobytes \<Rightarrow> gobytes" where
  "last_token header = rev (takeWhile (\<lambda>c. c \<noteq> 44) (rev header))"

definition DetectEncoding :: "gobytes \<Rightarrow> encoding" where
  "DetectEncoding header =
     (if header = [] then EncodingNone
      else
        let last = trimSpaceStr (lowerStr (last_token header)) in
        if last = [] \<or> last = ascii ''identity'' then EncodingNone
        else if last = ascii ''gzip'' \<or> last = ascii ''x-gzip'' then EncodingGzip
        else if last = ascii ''deflate'' then EncodingDeflate
        else if last = ascii ''zlib'' then EncodingZlib
        else if last = ascii ''br'' \<or> last = ascii ''brotli'' then EncodingBrotli
        else EncodingUnknown)"

definition SniffGzip :: "gobytes \<Rightarrow> bool" where
  "SniffGzip data \<longleftrightarrow> 3 \<le> length data \<and> data ! 0 = 31 \<and> data ! 1 = 139 \<and> data ! 2 = 8"

section \<open>Decompression\<close>

datatype codec_error =
  ErrUnsupportedEncoding | ErrDecompressionBomb | ErrMalformedFrame | ErrCodec

text \<open>One \<open>Read\<close> returns bytes and a status; a reader that has nothing left is at its end.\<close>

datatype read_status = ReadMore | ReadEOF | ReadFailed

type_synonym reader = "(gobytes \<times> read_status) list"

record codecs =
  gzip_NewReader :: "gobytes \<Rightarrow> reader option"
  zlib_NewReader :: "gobytes \<Rightarrow> reader option"
  flate_NewReader :: "gobytes \<Rightarrow> reader"

fun readAtMost :: "gobytes \<Rightarrow> reader \<Rightarrow> nat \<Rightarrow> gobytes \<times> codec_error option" where
  "readAtMost dst [] room = (dst, None)"
| "readAtMost dst ((chunk, status) # r) room =
     (if length dst < room then
        let dst = dst @ take (room - length dst) chunk in
        case status of
          ReadEOF \<Rightarrow> (dst, None)
        | ReadFailed \<Rightarrow> (dst, Some ErrCodec)
        | ReadMore \<Rightarrow> readAtMost dst r room
      else (dst, None))"

definition Decompress :: "codecs \<Rightarrow> gobytes \<Rightarrow> encoding \<Rightarrow> int \<Rightarrow> codec_error + gobytes" where
  "Decompress C data enc limit =
     (let limit = (if limit \<le> 0 then MaxTotalSize body_DefaultLimits else limit);
          r = (case enc of
             EncodingGzip \<Rightarrow> (case gzip_NewReader C data of None \<Rightarrow> Inl ErrCodec | Some r \<Rightarrow> Inr r)
           | EncodingZlib \<Rightarrow> (case zlib_NewReader C data of None \<Rightarrow> Inl ErrCodec | Some r \<Rightarrow> Inr r)
           | EncodingDeflate \<Rightarrow>
               (case zlib_NewReader C data of
                  Some r \<Rightarrow> Inr r
                | None \<Rightarrow> Inr (flate_NewReader C data))
           | _ \<Rightarrow> Inl ErrUnsupportedEncoding)
      in case r of
        Inl e \<Rightarrow> Inl e
      | Inr r \<Rightarrow>
          (case readAtMost [] r (nat (wrap64 (limit + 1))) of
             (out, Some e) \<Rightarrow> Inl e
           | (out, None) \<Rightarrow> if limit < int (length out) then Inl ErrDecompressionBomb else Inr out))"

section \<open>gRPC frames\<close>

abbreviation maxFrames :: nat where "maxFrames \<equiv> 256"
abbreviation maxFrameLen :: int where "maxFrameLen \<equiv> 67108864"
abbreviation grpcHeaderLen :: nat where "grpcHeaderLen \<equiv> 5"

text \<open>The four bytes do not overlap, so their disjunction is their sum.\<close>

definition frameLen :: "gobytes \<Rightarrow> int" where
  "frameLen b =
     (if length b < 4 then - 1
      else uint (b ! 0) * 2 ^ 24 + uint (b ! 1) * 2 ^ 16 + uint (b ! 2) * 2 ^ 8 + uint (b ! 3))"

lemma frameLen_nonneg: "4 \<le> length b \<Longrightarrow> 0 \<le> frameLen b"
  by (simp add: frameLen_def)

function framed_loop :: "gobytes \<Rightarrow> nat \<Rightarrow> bool" where
  "framed_loop rest frames =
     (if rest = [] then 0 < frames
      else if length rest < grpcHeaderLen then False
      else if 1 < rest ! 0 then False
      else
        let n = frameLen (drop 1 rest) in
        if maxFrameLen < n \<or> int (length rest) < int grpcHeaderLen + n then False
        else
          let frames = frames + 1 in
          if maxFrames < frames then False
          else framed_loop (drop (grpcHeaderLen + nat n) rest) frames)"
  by pat_completeness auto
termination by (relation "measure (\<lambda>(rest, frames). length rest)") auto

declare framed_loop.simps [simp del]

definition IsGRPCFramed :: "gobytes \<Rightarrow> bool" where
  "IsGRPCFramed data = (if length data < grpcHeaderLen then False else framed_loop data 0)"

record GRPCFrame =
  Payload :: gobytes
  Compressed :: bool

text \<open>The first error is kept and the loop goes on; a malformed frame ends it with its own error.\<close>

definition keep_first :: "codec_error option \<Rightarrow> codec_error \<Rightarrow> codec_error option" where
  "keep_first firstErr e = (case firstErr of None \<Rightarrow> Some e | Some e' \<Rightarrow> Some e')"

definition unframe_one ::
  "codecs \<Rightarrow> encoding \<Rightarrow> int \<Rightarrow> bool \<Rightarrow> gobytes \<Rightarrow> codec_error option \<Rightarrow> GRPCFrame \<times> codec_error option"
where
  "unframe_one C enc limit compressed payload firstErr =
     (if \<not> compressed then (\<lparr>Payload = payload, Compressed = False\<rparr>, firstErr)
      else if enc = EncodingNone \<or> \<not> Decodable enc then
        (\<lparr>Payload = [], Compressed = True\<rparr>, keep_first firstErr ErrUnsupportedEncoding)
      else case Decompress C payload enc limit of
        Inl e \<Rightarrow> (\<lparr>Payload = [], Compressed = True\<rparr>, keep_first firstErr e)
      | Inr decoded \<Rightarrow> (\<lparr>Payload = decoded, Compressed = True\<rparr>, firstErr))"

function unframe_loop ::
  "codecs \<Rightarrow> encoding \<Rightarrow> int \<Rightarrow> gobytes \<Rightarrow> GRPCFrame list \<Rightarrow> codec_error option \<Rightarrow>
   GRPCFrame list \<times> codec_error option"
where
  "unframe_loop C enc limit rest out firstErr =
     (if rest = [] then (out, firstErr)
      else if length rest < grpcHeaderLen then (out, Some ErrMalformedFrame)
      else
        let compressed = (rest ! 0 = 1); n = frameLen (drop 1 rest) in
        if n < 0 \<or> maxFrameLen < n \<or> int (length rest) < int grpcHeaderLen + n
        then (out, Some ErrMalformedFrame)
        else
          let payload = take (nat n) (drop grpcHeaderLen rest) in
          case unframe_one C enc limit compressed payload firstErr of
            (frame, firstErr) \<Rightarrow>
              if maxFrames \<le> length (out @ [frame]) then (out @ [frame], firstErr)
              else unframe_loop C enc limit (drop (grpcHeaderLen + nat n) rest) (out @ [frame]) firstErr)"
  by pat_completeness auto
termination by (relation "measure (\<lambda>(C, enc, limit, rest, out, e). length rest)") auto

declare unframe_loop.simps [simp del]

definition UnframeGRPC ::
  "codecs \<Rightarrow> gobytes \<Rightarrow> encoding \<Rightarrow> int \<Rightarrow> GRPCFrame list \<times> codec_error option"
where
  "UnframeGRPC C data enc limit =
     (let limit = (if limit \<le> 0 then MaxTotalSize body_DefaultLimits else limit)
      in unframe_loop C enc limit data [] None)"

definition DetectGRPCEncoding :: "gobytes \<Rightarrow> encoding" where
  "DetectGRPCEncoding header =
     (let h = trimSpaceStr (lowerStr header) in
      if h = [] \<or> h = ascii ''identity'' then EncodingNone
      else if h = ascii ''gzip'' then EncodingGzip
      else if h = ascii ''deflate'' then EncodingDeflate
      else EncodingUnknown)"

section \<open>Decompression is bounded\<close>

lemma readAtMost_bounded:
  "length dst \<le> n \<Longrightarrow> length (fst (readAtMost dst r n)) \<le> n"
proof (induction dst r n rule: readAtMost.induct)
  case (2 dst chunk status r n)
  then show ?case by (cases status) (auto simp: Let_def)
qed simp

text \<open>A body that comes out of \<open>Decompress\<close> is within the limit: a bomb is reported, never truncated.\<close>

lemma Decompress_bounded:
  assumes "Decompress C data enc limit = Inr out" and "0 < limit"
  shows "int (length out) \<le> limit"
  using assms by (auto simp: Decompress_def Let_def split: sum.splits prod.splits option.splits if_splits)

section \<open>Framing round trip\<close>

text \<open>The wire form of a message: flag, four big-endian length bytes, payload.\<close>

definition be32 :: "nat \<Rightarrow> gobytes" where
  "be32 n = [of_nat (n div 16777216), of_nat (n div 65536 mod 256), of_nat (n div 256 mod 256), of_nat (n mod 256)]"

definition grpc_frame :: "bool \<times> gobytes \<Rightarrow> gobytes" where
  "grpc_frame m = (if fst m then 1 else 0) # be32 (length (snd m)) @ snd m"

definition frame_ok :: "bool \<times> gobytes \<Rightarrow> bool" where
  "frame_ok m \<longleftrightarrow> int (length (snd m)) \<le> maxFrameLen"

lemma uint_of_nat_byte: "n < 256 \<Longrightarrow> uint (of_nat n :: byte) = int n"
  by (simp add: uint_nat unat_of_nat)

lemma be32_digits:
  "n div 16777216 * 16777216 + n div 65536 mod 256 * 65536 + n div 256 mod 256 * 256 + n mod 256 = (n :: nat)"
proof -
  have "n div 65536 = n div 256 div 256" "n div 16777216 = n div 65536 div 256"
    by (simp_all flip: div_mult2_eq)
  moreover have "n = n div 256 * 256 + n mod 256"
    "n div 256 = n div 256 div 256 * 256 + n div 256 mod 256"
    "n div 65536 = n div 65536 div 256 * 256 + n div 65536 mod 256"
    by (rule div_mod_decomp)+
  ultimately show ?thesis by linarith
qed

lemma frameLen_be32:
  assumes "n < 2 ^ 32"
  shows "frameLen (be32 n @ r) = int n"
proof -
  have "n div 16777216 < 256" using assms by simp
  then have "frameLen (be32 n @ r) =
      int (n div 16777216 * 16777216 + n div 65536 mod 256 * 65536 + n div 256 mod 256 * 256 + n mod 256)"
    unfolding frameLen_def be32_def by (simp add: uint_of_nat_byte)
  then show ?thesis by (simp only: be32_digits)
qed

lemma grpc_frame_shape:
  assumes "frame_ok m"
  shows "\<exists>h. length h = 5 \<and> h ! 0 = (if fst m then 1 else 0) \<and> (\<forall>r. grpc_frame m @ r = h @ snd m @ r) \<and>
    (\<forall>r. frameLen (tl h @ r) = int (length (snd m)))"
proof -
  let ?h = "(if fst m then 1 else 0) # be32 (length (snd m))"
  have "length (snd m) < 2 ^ 32" using assms by (simp add: frame_ok_def)
  then have "\<forall>r. frameLen (tl ?h @ r) = int (length (snd m))" by (simp add: frameLen_be32)
  then show ?thesis by (intro exI [of _ ?h]) (simp add: grpc_frame_def be32_def)
qed

lemma framed_step:
  assumes "frame_ok m" and "k < maxFrames"
  shows "framed_loop (grpc_frame m @ r) k = framed_loop r (k + 1)"
proof -
  from assms(1) obtain h where h: "length h = 5" "h ! 0 = (if fst m then 1 else 0)"
    "\<And>r. grpc_frame m @ r = h @ snd m @ r" "\<And>r. frameLen (tl h @ r) = int (length (snd m))"
    using grpc_frame_shape by blast
  then have "h \<noteq> []" "drop (Suc 0) h = tl h" by (auto simp: drop_Suc)
  with h assms show ?thesis
    by (subst framed_loop.simps) (simp add: nth_append frame_ok_def)
qed

lemma unframe_step:
  assumes "frame_ok m"
  shows "unframe_loop C enc limit (grpc_frame m @ r) out e =
    (case unframe_one C enc limit (fst m) (snd m) e of
       (f, e) \<Rightarrow> if maxFrames \<le> length (out @ [f]) then (out @ [f], e)
                 else unframe_loop C enc limit r (out @ [f]) e)"
proof -
  from assms obtain h where h: "length h = 5" "h ! 0 = (if fst m then 1 else 0)"
    "\<And>r. grpc_frame m @ r = h @ snd m @ r" "\<And>r. frameLen (tl h @ r) = int (length (snd m))"
    using grpc_frame_shape by blast
  then have "h \<noteq> []" "drop (Suc 0) h = tl h" "(h ! 0 = 1) = fst m" by (auto simp: drop_Suc)
  with h assms show ?thesis
    by (subst unframe_loop.simps) (simp add: nth_append frame_ok_def split: prod.split)
qed

lemma framed_frames:
  "list_all frame_ok ms \<Longrightarrow> k + length ms \<le> maxFrames \<Longrightarrow>
   framed_loop (concat (map grpc_frame ms)) k \<longleftrightarrow> 0 < k + length ms"
  by (induction ms arbitrary: k) (simp_all add: framed_step framed_loop.simps [of "[]"])

lemma div_mod_byte:
  fixes a b :: nat
  assumes "b < 256"
  shows "(a * 256 + b) div 256 = a" and "(a * 256 + b) mod 256 = b"
  using assms by simp_all

lemma be32_frameLen:
  assumes "length b = 4"
  shows "b = be32 (nat (frameLen b))" and "0 \<le> frameLen b"
proof -
  from assms obtain b0 b1 b2 b3 where b: "b = [b0, b1, b2, b3]"
    by (auto simp: numeral_eq_Suc length_Suc_conv)
  have lt: "unat b0 < 256" "unat b1 < 256" "unat b2 < 256" "unat b3 < 256"
    by (rule unat_byte_less)+
  let ?n = "((unat b0 * 256 + unat b1) * 256 + unat b2) * 256 + unat b3"
  have n: "frameLen b = int ?n" unfolding frameLen_def b uint_nat by simp
  note d = div_mod_byte [OF lt(2)] div_mod_byte [OF lt(3)] div_mod_byte [OF lt(4)]
  have m: "?n mod 256 = unat b3" "?n div 256 mod 256 = unat b2"
    "?n div 256 div 256 mod 256 = unat b1" "?n div 256 div 256 div 256 = unat b0"
    by (simp_all only: d)
  have q: "k div 65536 = k div 256 div 256" "k div 16777216 = k div 256 div 256 div 256" for k :: nat
    using div_mult2_eq [of k 256 256] div_mult2_eq [of k 65536 256] by simp_all
  have "be32 ?n = b"
    unfolding be32_def b m q by simp
  with n show "b = be32 (nat (frameLen b))" by (simp only: nat_int)
  show "0 \<le> frameLen b" unfolding n by simp
qed

text \<open>What the framing check accepts is a sequence of frames.\<close>

lemma framed_loop_frames:
  "framed_loop rest k \<Longrightarrow>
   \<exists>ms. rest = concat (map grpc_frame ms) \<and> list_all frame_ok ms \<and> (ms \<noteq> [] \<longrightarrow> k + length ms \<le> maxFrames) \<and> 0 < k + length ms"
proof (induction rest k rule: framed_loop.induct)
  case (1 rest k)
  show ?case
  proof (cases "rest = []")
    case True
    with "1.prems" show ?thesis by (intro exI [of _ "[]"]) (simp add: framed_loop.simps)
  next
    case False
    let ?n = "nat (frameLen (drop 1 rest))"
    let ?m = "(rest ! 0 = 1, take ?n (drop 5 rest))"
    from False "1.prems" have len: "5 \<le> length rest" and flag: "\<not> 1 < rest ! 0"
      and n: "frameLen (drop 1 rest) \<le> maxFrameLen" "5 + frameLen (drop 1 rest) \<le> int (length rest)"
      and k: "k + 1 \<le> maxFrames" and loop: "framed_loop (drop (5 + ?n) rest) (k + 1)"
      by (auto simp: framed_loop.simps [of rest] Let_def split: if_splits)
    let ?b = "take 4 (drop 1 rest)"
    have b: "frameLen (drop 1 rest) = frameLen ?b" "length ?b = 4"
      using len by (auto simp: frameLen_def not_less)
    have ok: "frame_ok ?m" using n by (simp add: frame_ok_def)
    have pay: "length (take ?n (drop 5 rest)) = ?n" using n len by simp
    have "rest ! 0 = (if rest ! 0 = 1 then 1 else 0)" using flag by (auto simp: byte_simps word_unat_eq_iff)
    then have e1: "rest = (if fst ?m then 1 else 0) # drop 1 rest"
      using False by (cases rest) auto
    have e2: "drop 1 rest = ?b @ drop 5 rest" using append_take_drop_id [of 4 "drop 1 rest"] by simp
    have e3: "be32 (length (snd ?m)) = ?b" using be32_frameLen(1) [OF b(2)] b(1) pay by simp
    have e4: "drop 5 rest = snd ?m @ drop (5 + ?n) rest"
      using append_take_drop_id [of ?n "drop 5 rest"] by (simp add: add.commute)
    have "grpc_frame ?m @ drop (5 + ?n) rest = (if fst ?m then 1 else 0) # ?b @ drop 5 rest"
      by (simp only: grpc_frame_def e3 append_Cons append_assoc) (simp only: e4 [symmetric])
    also have "\<dots> = rest" by (simp only: e1 [symmetric] e2 [symmetric])
    finally have rest: "rest = grpc_frame ?m @ drop (5 + ?n) rest" by (rule sym)
    from "1.IH" [OF False _ flag refl _ refl] len n k loop obtain ms where
      "drop (5 + ?n) rest = concat (map grpc_frame ms)" "list_all frame_ok ms"
      "ms \<noteq> [] \<longrightarrow> k + 1 + length ms \<le> maxFrames" by auto
    with ok rest k show ?thesis by (intro exI [of _ "?m # ms"]) (cases "ms = []"; simp)
  qed
qed

lemma IsGRPCFramed_iff:
  "IsGRPCFramed data \<longleftrightarrow>
   (\<exists>ms. data = concat (map grpc_frame ms) \<and> list_all frame_ok ms \<and> 0 < length ms \<and> length ms \<le> maxFrames)"
  (is "?l \<longleftrightarrow> ?r")
proof
  assume ?l
  then show ?r using framed_loop_frames [of data 0] by (auto simp: IsGRPCFramed_def split: if_splits)
next
  assume ?r
  then obtain ms where ms: "data = concat (map grpc_frame ms)" "list_all frame_ok ms" "0 < length ms" "length ms \<le> maxFrames"
    by blast
  then have "5 \<le> length data" by (cases ms) (auto simp: grpc_frame_def be32_def)
  with ms framed_frames [of ms 0] show ?l by (simp add: IsGRPCFramed_def)
qed

text \<open>The messages one by one, the first error kept.\<close>

fun unframe_all ::
  "codecs \<Rightarrow> encoding \<Rightarrow> int \<Rightarrow> (bool \<times> gobytes) list \<Rightarrow> codec_error option \<Rightarrow> GRPCFrame list \<times> codec_error option"
where
  "unframe_all C enc limit [] e = ([], e)"
| "unframe_all C enc limit (m # ms) e =
     (case unframe_one C enc limit (fst m) (snd m) e of
        (f, e) \<Rightarrow> (case unframe_all C enc limit ms e of (fs, e) \<Rightarrow> (f # fs, e)))"

lemma unframe_frames:
  "list_all frame_ok ms \<Longrightarrow> length out + length ms \<le> maxFrames \<Longrightarrow>
   unframe_loop C enc limit (concat (map grpc_frame ms)) out e =
   (case unframe_all C enc limit ms e of (fs, e) \<Rightarrow> (out @ fs, e))"
proof (induction ms arbitrary: out e)
  case Nil
  then show ?case by (simp add: unframe_loop.simps)
next
  case (Cons m ms)
  then have "ms = []" if "maxFrames \<le> length out + 1" using that by (cases ms) auto
  with Cons show ?case
    by (auto simp: unframe_step split: prod.splits)
qed

text \<open>A message can be read when it is plain or its codec decompresses it; otherwise its payload is empty.\<close>

definition frame_readable :: "codecs \<Rightarrow> encoding \<Rightarrow> int \<Rightarrow> bool \<times> gobytes \<Rightarrow> bool" where
  "frame_readable C enc limit m \<longleftrightarrow>
     \<not> fst m \<or> Decodable enc \<and> (case Decompress C (snd m) enc limit of Inl _ \<Rightarrow> False | Inr _ \<Rightarrow> True)"

definition frame_payload :: "codecs \<Rightarrow> encoding \<Rightarrow> int \<Rightarrow> bool \<times> gobytes \<Rightarrow> gobytes" where
  "frame_payload C enc limit m =
     (if \<not> fst m then snd m
      else if frame_readable C enc limit m
      then (case Decompress C (snd m) enc limit of Inl _ \<Rightarrow> [] | Inr d \<Rightarrow> d)
      else [])"

lemma unframe_one_exact:
  "unframe_one C enc limit (fst m) (snd m) e = (f, e') \<Longrightarrow>
   f = \<lparr>Payload = frame_payload C enc limit m, Compressed = fst m\<rparr> \<and>
   (e' = None \<longleftrightarrow> e = None \<and> frame_readable C enc limit m)"
  by (auto simp: unframe_one_def frame_payload_def frame_readable_def keep_first_def Decodable_def
    split: if_splits sum.splits option.splits)

lemma unframe_all_exact:
  "unframe_all C enc limit ms e = (fs, e') \<Longrightarrow>
   fs = map (\<lambda>m. \<lparr>Payload = frame_payload C enc limit m, Compressed = fst m\<rparr>) ms \<and>
   (e' = None \<longleftrightarrow> e = None \<and> list_all (frame_readable C enc limit) ms)"
proof (induction ms arbitrary: e fs)
  case (Cons m ms)
  then show ?case by (fastforce dest: unframe_one_exact split: prod.splits)
qed auto

section \<open>Properties\<close>

text \<open>
  C36. gRPC framing hides nothing. A body passes the framing check exactly when it is a sequence of at
  least one and at most 256 length-prefixed messages that ends with the body, none longer than 64 MB;
  unframing it then yields one frame per message, in order, with the payload itself, or its
  decompressed form when the flag is set, and reports an error exactly when some compressed message
  could not be decoded.
\<close>

theorem UnframeGRPC_exact:
  "IsGRPCFramed data \<longleftrightarrow>
   (\<exists>ms. data = concat (map grpc_frame ms) \<and> list_all frame_ok ms \<and> 0 < length ms \<and> length ms \<le> maxFrames \<and>
     (let limit' = (if limit \<le> 0 then MaxTotalSize body_DefaultLimits else limit);
          (frames, err) = UnframeGRPC C data enc limit
      in frames = map (\<lambda>m. \<lparr>Payload = frame_payload C enc limit' m, Compressed = fst m\<rparr>) ms \<and>
         (err = None \<longleftrightarrow> list_all (frame_readable C enc limit') ms)))"
proof -
  let ?l = "if limit \<le> 0 then MaxTotalSize body_DefaultLimits else limit"
  have "case UnframeGRPC C (concat (map grpc_frame ms)) enc limit of (frames, err) \<Rightarrow>
      frames = map (\<lambda>m. \<lparr>Payload = frame_payload C enc ?l m, Compressed = fst m\<rparr>) ms \<and>
      (err = None \<longleftrightarrow> list_all (frame_readable C enc ?l) ms)"
    if "list_all frame_ok ms" "length ms \<le> maxFrames" for ms
  proof -
    obtain fs e where fs: "unframe_all C enc ?l ms None = (fs, e)" by (cases "unframe_all C enc ?l ms None")
    with unframe_frames [of ms "[]" C enc ?l None] that
    have "UnframeGRPC C (concat (map grpc_frame ms)) enc limit = (fs, e)"
      by (simp add: UnframeGRPC_def Let_def)
    with unframe_all_exact [OF fs] show ?thesis by simp
  qed
  note frames = this
  show ?thesis unfolding IsGRPCFramed_iff Let_def
  proof (rule iffI; elim exE conjE)
    fix ms assume "data = concat (map grpc_frame ms)" "list_all frame_ok ms" "0 < length ms" "length ms \<le> maxFrames"
    with frames [of ms] show "\<exists>ms. data = concat (map grpc_frame ms) \<and> list_all frame_ok ms \<and>
        0 < length ms \<and> length ms \<le> maxFrames \<and> (case UnframeGRPC C data enc limit of (frames, err) \<Rightarrow>
        frames = map (\<lambda>m. \<lparr>Payload = frame_payload C enc ?l m, Compressed = fst m\<rparr>) ms \<and>
        (err = None \<longleftrightarrow> list_all (frame_readable C enc ?l) ms))" by (intro exI [of _ ms]) simp
  qed (intro exI conjI; assumption)
qed

end
