(* ===== verification/BodyProto.thy ===== *)
theory BodyProto
  imports BodyBinary
begin

text \<open>
  The protobuf wire format (internal/body/protobuf.go). An index into a message is the rest of the
  message from it on. A nested message is shorter than the field that holds it, so the walk ends
  whatever the bytes say.
\<close>

abbreviation wireVarint :: u64 where "wireVarint \<equiv> 0"
abbreviation wireFixed64 :: u64 where "wireFixed64 \<equiv> 1"
abbreviation wireBytes :: u64 where "wireBytes \<equiv> 2"
abbreviation wireFixed32 :: u64 where "wireFixed32 \<equiv> 5"
abbreviation maxProtoDepth :: nat where "maxProtoDepth \<equiv> 16"
abbreviation maxProtoFields :: nat where "maxProtoFields \<equiv> 1024"
abbreviation maxVarintLen :: nat where "maxVarintLen \<equiv> 10"

text \<open>The value and its length; a length of zero is a truncated or over-long varint.\<close>

fun varint_loop :: "gobytes \<Rightarrow> nat \<Rightarrow> u64 \<Rightarrow> nat \<Rightarrow> u64 \<times> nat" where
  "varint_loop [] i v shift = (0, 0)"
| "varint_loop (c # cs) i v shift =
     (if i < maxVarintLen then
        let v = or v (push_bit shift (ucast (and c 0x7f))) in
        if and c 0x80 = 0 then (v, i + 1) else varint_loop cs (i + 1) v (shift + 7)
      else (0, 0))"

definition readVarint :: "gobytes \<Rightarrow> u64 \<times> nat" where
  "readVarint b = varint_loop b 0 0 0"

text \<open>The rest after a field that carries no payload, by wire type; \<open>None\<close> when it is not all there.\<close>

definition skip_field :: "u64 \<Rightarrow> gobytes \<Rightarrow> gobytes option" where
  "skip_field wire rest =
     (if wire = wireVarint then
        (case readVarint rest of (_, n) \<Rightarrow> if n = 0 then None else Some (drop n rest))
      else if wire = wireFixed64 then (if length rest < 8 then None else Some (drop 8 rest))
      else if wire = wireFixed32 then (if length rest < 4 then None else Some (drop 4 rest))
      else None)"

text \<open>A length-delimited field: its bytes and the rest.\<close>

definition bytes_field :: "gobytes \<Rightarrow> (gobytes \<times> gobytes) option" where
  "bytes_field rest =
     (case readVarint rest of (sz, n) \<Rightarrow>
        if n = 0 then None
        else let rest = drop n rest in
          if (of_nat (length rest) :: u64) < sz then None
          else Some (take (unat sz) rest, drop (unat sz) rest))"

definition next_field :: "u64 \<Rightarrow> gobytes \<Rightarrow> (gobytes option \<times> gobytes) option" where
  "next_field wire rest =
     (if wire = wireBytes
      then map_option (\<lambda>(value, rest). (Some value, rest)) (bytes_field rest)
      else map_option (\<lambda>rest. (None, rest)) (skip_field wire rest))"

lemma varint_loop_length: "snd (varint_loop b i v shift) \<le> length b + i"
  by (induction b i v shift rule: varint_loop.induct) (auto simp: Let_def)

lemma readVarint_length: "snd (readVarint b) \<le> length b"
  using varint_loop_length [of b 0] by (simp add: readVarint_def)

lemma bytes_field_shorter:
  "bytes_field rest = Some (value, r) \<Longrightarrow> length value + length r < length rest"
  using readVarint_length [of rest]
  by (auto simp: bytes_field_def Let_def split: prod.splits if_splits)

lemma skip_field_shorter: "skip_field wire rest = Some r \<Longrightarrow> length r < length rest"
  using readVarint_length [of rest]
  by (auto simp: skip_field_def split: prod.splits if_splits)

lemma next_field_shorter:
  "next_field wire rest = Some (value, r) \<Longrightarrow>
   length r < length rest \<and> (\<forall>v. value = Some v \<longrightarrow> length v < length rest)"
  by (auto simp: next_field_def dest: bytes_field_shorter skip_field_shorter split: if_splits)

section \<open>Validation\<close>

function proto_scan_loop :: "gobytes \<Rightarrow> nat \<Rightarrow> nat \<times> bool" where
  "proto_scan_loop data count =
     (if data = [] then (count, True)
      else case readVarint data of (key, n) \<Rightarrow>
        if n = 0 then (count, False)
        else if drop_bit 3 key = 0 then (count, False)
        else case next_field (and key 7) (drop n data) of
          None \<Rightarrow> (count, False)
        | Some (_, rest) \<Rightarrow>
            if maxProtoFields < count + 1 then (count + 1, False) else proto_scan_loop rest (count + 1))"
  by pat_completeness auto
termination
  by (relation "measure (\<lambda>(data, count). length data)")
    (auto dest!: next_field_shorter)

declare proto_scan_loop.simps [simp del]

definition scanProtobuf :: "gobytes \<Rightarrow> nat \<Rightarrow> nat \<times> bool" where
  "scanProtobuf data depth = (if maxProtoDepth < depth then (0, False) else proto_scan_loop data 0)"

definition IsProtobuf :: "gobytes \<Rightarrow> bool" where
  "IsProtobuf data = (case scanProtobuf data 0 of (n, ok) \<Rightarrow> ok \<and> 0 < n)"

section \<open>The walk\<close>

text \<open>The path of a field: no separator at the root.\<close>

definition field_path :: "gobytes \<Rightarrow> u64 \<Rightarrow> gobytes" where
  "field_path path field = body_itoa (if 0 < length path then path @ [46] else path) (uint field)"

text \<open>The path is truncated to \<open>mark\<close> on every way out of a field.\<close>

definition at_mark :: "nat \<Rightarrow> 's parser \<times> bool \<Rightarrow> 's parser \<times> bool" where
  "at_mark mark = (\<lambda>(p, cont). (p\<lparr>p_path := take mark (p_path p)\<rparr>, cont))"

function walkProtobuf :: "'s emit \<Rightarrow> gobytes \<Rightarrow> nat \<Rightarrow> 's parser \<Rightarrow> 's parser \<times> bool" where
  "walkProtobuf fn data depth p =
     (if maxProtoDepth < depth then (p, True)
      else if data = [] then (p, True)
      else case readVarint data of (key, n) \<Rightarrow>
        if n = 0 then (p, True)
        else case next_field (and key 7) (drop n data) of
          None \<Rightarrow> (p, True)
        | Some (None, rest) \<Rightarrow> walkProtobuf fn rest depth p
        | Some (Some value, rest) \<Rightarrow>
            let p = p\<lparr>p_fields := p_fields p + 1\<rparr> in
            if MaxFields (p_limits p) < int (p_fields p) then (p, False)
            else
              let mark = length (p_path p);
                  p = p\<lparr>p_path := field_path (p_path p) (drop_bit 3 key)\<rparr>;
                  nested = (depth < maxProtoDepth \<and>
                    (case scanProtobuf value (depth + 1) of (k, ok) \<Rightarrow> ok \<and> 0 < k))
              in case (if nested then walkProtobuf fn value (depth + 1) p else (p, True)) of
                (p, False) \<Rightarrow> at_mark mark (p, False)
              | (p, True) \<Rightarrow>
                  (case (if \<not> nested \<or> \<not> IsBinary value then fn (p_path p) value LeafString p
                         else (p, True)) of
                     (p, False) \<Rightarrow> at_mark mark (p, False)
                   | (p, True) \<Rightarrow> walkProtobuf fn rest depth (fst (at_mark mark (p, True)))))"
  by pat_completeness auto
termination
  by (relation "measure (\<lambda>(fn, data, depth, p). length data)")
    (auto dest!: next_field_shorter)

declare walkProtobuf.simps [simp del]

definition ParseProtobuf :: "'s emit \<Rightarrow> gobytes \<Rightarrow> gobytes \<Rightarrow> 's parser \<Rightarrow> 's parser \<times> bool" where
  "ParseProtobuf fn prefix data p =
     (if \<not> IsProtobuf data then (p, False)
      else (fst (walkProtobuf fn data 0 (p\<lparr>p_path := prefix\<rparr>)), True))"

end
