(* ===== verification/BodyXML.thy ===== *)
theory BodyXML
  imports Body "HOL-Library.Sublist"
begin

text \<open>
  The XML parser (internal/body/xml.go). An index into the document is the rest of the document from
  it on; the index -1 with which \<open>parseElement\<close> passes on a stop is \<open>None\<close>.
\<close>

definition isXMLSpace :: "byte \<Rightarrow> bool" where
  "isXMLSpace c \<longleftrightarrow> c = 32 \<or> c = 9 \<or> c = 10 \<or> c = 13"

definition isXMLNameEnd :: "byte \<Rightarrow> bool" where
  "isXMLNameEnd c \<longleftrightarrow> isXMLSpace c \<or> c = 62 \<or> c = 47 \<or> c = 61 \<or> c = 60"

definition trimXMLSpace :: "gobytes \<Rightarrow> gobytes" where
  "trimXMLSpace b = rev (dropWhile isXMLSpace (rev (dropWhile isXMLSpace b)))"

definition skipUntil :: "gobytes \<Rightarrow> gobytes \<Rightarrow> gobytes" where
  "skipUntil src pat =
     (case bytes_Index src pat of Some k \<Rightarrow> drop (k + length pat) src | None \<Rightarrow> [])"

fun skipDeclaration :: "gobytes \<Rightarrow> nat \<Rightarrow> gobytes" where
  "skipDeclaration [] bracket = []"
| "skipDeclaration (c # cs) bracket =
     (if c = 91 then skipDeclaration cs (bracket + 1)
      else if c = 93 then skipDeclaration cs (if 0 < bracket then bracket - 1 else bracket)
      else if c = 62 \<and> bracket = 0 then cs
      else skipDeclaration cs bracket)"

section \<open>Elements\<close>

text \<open>An attribute's value from behind its equals sign and white space, and what follows it.\<close>

definition attr_value :: "gobytes \<Rightarrow> gobytes \<times> gobytes" where
  "attr_value src =
     (case src of
        [] \<Rightarrow> ([], [])
      | q # cs \<Rightarrow>
          if q = 34 \<or> q = 39
          then (takeWhile (\<lambda>c. c \<noteq> q) cs, drop 1 (dropWhile (\<lambda>c. c \<noteq> q) cs))
          else (takeWhile (\<lambda>c. \<not> isXMLSpace c \<and> c \<noteq> 62) src,
                dropWhile (\<lambda>c. \<not> isXMLSpace c \<and> c \<noteq> 62) src))"

text \<open>Emit under \<open>element@attr\<close>; the path is restored on every way out.\<close>

definition emit_attr ::
  "'s emit \<Rightarrow> gobytes \<Rightarrow> gobytes \<Rightarrow> 's parser \<Rightarrow> 's parser \<times> (body_error + bool)"
where
  "emit_attr fn attr v p =
     (let mark = length (p_path p); p = p\<lparr>p_path := p_path p @ [64] @ attr\<rparr> in
      if MaxKeyLen (p_limits p) < int (length (p_path p))
      then (p\<lparr>p_path := take mark (p_path p)\<rparr>, Inl ErrTooLarge)
      else case parser_emit fn v LeafString p of
        (p, r) \<Rightarrow> (p\<lparr>p_path := take mark (p_path p)\<rparr>, r))"

text \<open>One attribute: its name, then its value if it has one. \<open>None\<close> asks to stop.\<close>

definition attr_item ::
  "'s emit \<Rightarrow> gobytes \<Rightarrow> gobytes \<Rightarrow> 's parser \<Rightarrow> 's parser \<times> (body_error + gobytes option)"
where
  "attr_item fn attr rest p =
     (if MaxKeyLen (p_limits p) < int (length attr) then (p, Inl ErrTooLarge)
      else case parser_emit fn attr LeafKey p of
        (p, Inl e) \<Rightarrow> (p, Inl e)
      | (p, Inr False) \<Rightarrow> (p, Inr None)
      | (p, Inr True) \<Rightarrow>
          (let rest = dropWhile isXMLSpace rest in
           if rest = [] \<or> rest ! 0 \<noteq> 61 then (p, Inr (Some rest))
           else case attr_value (dropWhile isXMLSpace (drop 1 rest)) of (v, rest) \<Rightarrow>
             (case emit_attr fn attr v p of
                (p, Inl e) \<Rightarrow> (p, Inl e)
              | (p, Inr False) \<Rightarrow> (p, Inr None)
              | (p, Inr True) \<Rightarrow> (p, Inr (Some rest)))))"

abbreviation attr_byte :: "byte \<Rightarrow> bool" where
  "attr_byte c \<equiv> \<not> isXMLNameEnd c \<and> c \<noteq> 61"

lemma suffix_drop_le [intro]: "suffix xs ys \<Longrightarrow> suffix (drop n xs) ys"
  by (meson suffix_drop suffix_order.trans)

lemma suffix_dropWhile_le [intro]: "suffix xs ys \<Longrightarrow> suffix (dropWhile P xs) ys"
  by (meson suffix_dropWhile suffix_order.trans)

lemma attr_value_suffix:
  assumes "attr_value src = (v, rest)"
  shows "suffix rest src"
proof (cases src)
  case (Cons q cs)
  have "suffix (drop 1 (dropWhile (\<lambda>c. c \<noteq> q) cs)) src"
    unfolding Cons by (intro suffix_ConsI suffix_drop_le suffix_dropWhile)
  moreover have "suffix (dropWhile (\<lambda>c. \<not> isXMLSpace c \<and> c \<noteq> 62) src) src" by (rule suffix_dropWhile)
  ultimately show ?thesis
    using assms Cons by (auto simp: attr_value_def simp del: dropWhile.simps takeWhile.simps split: if_splits)
qed (use assms in \<open>simp add: attr_value_def\<close>)

lemma attr_item_suffix:
  "attr_item fn attr rest p = (p', Inr (Some r)) \<Longrightarrow> suffix r rest"
  by (auto simp: attr_item_def Let_def split: if_splits prod.splits sum.splits bool.splits
    dest!: attr_value_suffix intro: suffix_order.trans suffix_dropWhile)
    (meson suffix_order.trans suffix_dropWhile suffix_drop)

text \<open>
  The attributes, up to the end of the tag: the rest of the document and whether the element closes
  itself, or \<open>None\<close> when the callback asks to stop.
\<close>

function attr_loop ::
  "'s emit \<Rightarrow> gobytes \<Rightarrow> bool \<Rightarrow> 's parser \<Rightarrow> 's parser \<times> (body_error + (gobytes \<times> bool) option)"
where
  "attr_loop fn src selfClosing p =
     (case dropWhile isXMLSpace src of
        [] \<Rightarrow> (p, Inr (Some ([], selfClosing)))
      | c # cs \<Rightarrow>
          if c = 62 then (p, Inr (Some (cs, selfClosing)))
          else if c = 47 then attr_loop fn cs True p
          else
            let attr = takeWhile attr_byte (c # cs) in
            if length attr = 0 then attr_loop fn cs selfClosing p
            else case attr_item fn attr (dropWhile attr_byte (c # cs)) p of
              (p, Inl e) \<Rightarrow> (p, Inl e)
            | (p, Inr None) \<Rightarrow> (p, Inr None)
            | (p, Inr (Some rest)) \<Rightarrow> attr_loop fn rest selfClosing p)"
  by pat_completeness auto

lemma after_space: "dropWhile isXMLSpace src = c # cs \<Longrightarrow> suffix (c # cs) src"
  by (metis suffix_dropWhile)

lemma after_space_length: "dropWhile isXMLSpace src = c # cs \<Longrightarrow> length cs < length src"
  by (auto dest: after_space [THEN suffix_length_le])

lemma attr_progress:
  assumes "takeWhile attr_byte (c # cs) \<noteq> []"
    and "attr_item fn attr (dropWhile attr_byte (c # cs)) p = (q, Inr (Some rest))"
  shows "suffix rest cs"
proof -
  have "attr_byte c" using assms(1) by (auto split: if_splits)
  then have "suffix (dropWhile attr_byte (c # cs)) cs" by (simp add: suffix_dropWhile)
  with attr_item_suffix [OF assms(2)] show ?thesis by (rule suffix_order.trans)
qed

termination attr_loop
proof (relation "measure (\<lambda>(fn, src, s, p). length src)", goal_cases)
  case (4 fn src s p c cs attr q r ro rest)
  then have "suffix rest cs" using attr_progress [of c cs fn attr p q rest] by simp
  with after_space_length [OF 4(1)] show ?case by (auto dest: suffix_length_le)
qed (auto dest: after_space_length)

declare attr_loop.simps [simp del]

lemma attr_loop_suffix:
  "attr_loop fn src s p = (p', Inr (Some (rest, s'))) \<Longrightarrow> suffix rest src"
proof (induction fn src s p arbitrary: p' rest s' rule: attr_loop.induct)
  case (1 fn src s p)
  show ?case
  proof (cases "dropWhile isXMLSpace src")
    case Nil
    with "1.prems" show ?thesis by (simp add: attr_loop.simps [of fn src])
  next
    case (Cons c cs)
    then have tl: "suffix x src" if "suffix x cs" for x
      using that after_space suffix_ConsI suffix_order.trans by metis
    note eq = "1.prems" [unfolded attr_loop.simps [of fn src], simplified Cons list.case Let_def]
    show ?thesis
    proof (cases "c = 62 \<or> c = 47 \<or> takeWhile attr_byte (c # cs) = []")
      case True
      with eq "1.IH"(1,2) [OF Cons] show ?thesis
        by (auto simp: tl simp del: takeWhile.simps dropWhile.simps split: if_splits)
    next
      case False
      with eq obtain q r where
        item: "attr_item fn (takeWhile attr_byte (c # cs)) (dropWhile attr_byte (c # cs)) p = (q, Inr (Some r))"
        and loop: "attr_loop fn r s q = (p', Inr (Some (rest, s')))"
        by (auto simp del: takeWhile.simps dropWhile.simps split: if_splits prod.splits sum.splits option.splits)
      from False "1.IH"(3) [OF Cons _ _ refl _ item [symmetric] refl refl loop]
      have "suffix rest r" by simp
      with attr_progress [OF _ item] False show ?thesis by (intro tl) (auto intro: suffix_order.trans)
    qed
  qed
qed

text \<open>A start tag, from behind its bracket. The result is the rest and the new depth.\<close>

definition parseElement ::
  "'s emit \<Rightarrow> gobytes \<Rightarrow> nat \<Rightarrow> 's parser \<Rightarrow> 's parser \<times> (body_error + (gobytes \<times> nat) option)"
where
  "parseElement fn src depth p =
     (let name = takeWhile (\<lambda>c. \<not> isXMLNameEnd c) src;
          rest = dropWhile (\<lambda>c. \<not> isXMLNameEnd c) src
      in if length name = 0 then (p, Inr (Some (src, depth)))
      else if MaxKeyLen (p_limits p) < int (length name) then (p, Inl ErrTooLarge)
      else if MaxDepth (p_limits p) \<le> int depth then (p, Inl ErrTooDeep)
      else case pushPath name False p of
        (p, False) \<Rightarrow> (p, Inl ErrTooLarge)
      | (p, True) \<Rightarrow>
          (let depth = depth + 1 in
           case parser_emit fn name LeafKey p of
             (p, Inl e) \<Rightarrow> (p, Inl e)
           | (p, Inr False) \<Rightarrow> (p, Inr None)
           | (p, Inr True) \<Rightarrow>
               (case attr_loop fn rest False p of
                  (p, Inl e) \<Rightarrow> (p, Inl e)
                | (p, Inr None) \<Rightarrow> (p, Inr None)
                | (p, Inr (Some (rest, selfClosing))) \<Rightarrow>
                    if selfClosing then (popPath p, Inr (Some (rest, depth - 1)))
                    else (p, Inr (Some (rest, depth))))))"

section \<open>Documents\<close>

text \<open>Text of the open element: nothing at depth 0 and nothing when it is empty.\<close>

definition emit_text ::
  "'s emit \<Rightarrow> gobytes \<Rightarrow> nat \<Rightarrow> 's parser \<Rightarrow> 's parser \<times> (body_error + bool)"
where
  "emit_text fn text depth p =
     (if 0 < depth \<and> 0 < length text then parser_emit fn text LeafString p else (p, Inr True))"

text \<open>One turn of the loop: the rest and the depth, an error, or \<open>None\<close> to return without one.\<close>

definition xml_step ::
  "'s emit \<Rightarrow> gobytes \<Rightarrow> nat \<Rightarrow> 's parser \<Rightarrow> 's parser \<times> (body_error + (gobytes \<times> nat) option)"
where
  "xml_step fn src depth p =
     (if src ! 0 \<noteq> 60 then
        (case emit_text fn (trimXMLSpace (takeWhile (\<lambda>c. c \<noteq> 60) src)) depth p of
           (p, Inl e) \<Rightarrow> (p, Inl e)
         | (p, Inr False) \<Rightarrow> (p, Inr None)
         | (p, Inr True) \<Rightarrow> (p, Inr (Some (dropWhile (\<lambda>c. c \<noteq> 60) src, depth))))
      else if length src \<le> 1 then (p, Inr None)
      else if hasPrefixStr src (ascii ''<!--'') then
        (p, Inr (Some (skipUntil (drop 4 src) (ascii ''-->''), depth)))
      else if hasPrefixStr src (ascii ''<![CDATA['') then
        (let body = drop 9 src;
             fin = (case bytes_Index body (ascii '']]>'') of Some k \<Rightarrow> k | None \<Rightarrow> length body)
         in case emit_text fn (take fin body) depth p of
           (p, Inl e) \<Rightarrow> (p, Inl e)
         | (p, Inr False) \<Rightarrow> (p, Inr None)
         | (p, Inr True) \<Rightarrow> (p, Inr (Some (drop (fin + 3) body, depth))))
      else if hasPrefixStr src (ascii ''<!'') then
        (p, Inr (Some (skipDeclaration (drop 2 src) 0, depth)))
      else if hasPrefixStr src (ascii ''<?'') then
        (p, Inr (Some (skipUntil (drop 2 src) (ascii ''?>''), depth)))
      else if hasPrefixStr src (ascii ''</'') then
        (let rest = drop 1 (dropWhile (\<lambda>c. c \<noteq> 62) (drop 2 src)) in
         if 0 < depth then (popPath p, Inr (Some (rest, depth - 1)))
         else (p, Inr (Some (rest, depth))))
      else parseElement fn (drop 1 src) depth p)"

function xml_loop :: "'s emit \<Rightarrow> gobytes \<Rightarrow> nat \<Rightarrow> 's parser \<Rightarrow> 's parser \<times> body_error option" where
  "xml_loop fn src depth p =
     (if src = [] then (p, None)
      else case xml_step fn src depth p of
        (p, Inl e) \<Rightarrow> (p, Some e)
      | (p, Inr None) \<Rightarrow> (p, None)
      | (p, Inr (Some (rest, depth))) \<Rightarrow> xml_loop fn rest depth p)"
  by pat_completeness auto

lemma parseElement_suffix:
  "parseElement fn src depth p = (p', Inr (Some (rest, d))) \<Longrightarrow> suffix rest src"
  unfolding parseElement_def Let_def
  by (auto split: if_splits prod.splits sum.splits bool.splits option.splits dest!: attr_loop_suffix
    intro: suffix_order.trans suffix_dropWhile)

lemma skipUntil_suffix: "suffix (skipUntil src pat) src"
  by (auto simp: skipUntil_def suffix_drop split: option.split)

lemma skipDeclaration_suffix: "suffix (skipDeclaration src n) src"
  by (induction src n rule: skipDeclaration.induct) (auto intro: suffix_ConsI)

lemma suffix_drop_Cons: "suffix x (drop n cs) \<Longrightarrow> suffix x (drop (Suc n) (c # cs))"
  by simp

lemma xml_step_suffix:
  assumes "xml_step fn (c # cs) depth p = (p', Inr (Some (rest, d)))"
  shows "suffix rest cs"
proof -
  have "suffix (drop n cs) cs" "suffix (skipUntil (drop n cs) pat) cs"
    "suffix (skipDeclaration (drop n cs) k) cs" "suffix (drop 1 (dropWhile P (drop n cs))) cs" for n pat k P
    using skipUntil_suffix skipDeclaration_suffix suffix_drop suffix_dropWhile suffix_order.trans by metis+
  moreover have "suffix (dropWhile (\<lambda>c. c \<noteq> 60) cs) cs" by (rule suffix_dropWhile)
  moreover have "4 = Suc 3" "9 = Suc 8" "2 = Suc 1" by simp_all
  ultimately show ?thesis
    using assms unfolding xml_step_def Let_def
    by (auto simp del: numeral_eq_Suc split: if_splits prod.splits sum.splits bool.splits option.splits
      dest!: parseElement_suffix)
qed

termination xml_loop
proof (relation "measure (\<lambda>(fn, src, d, p). length src)", goal_cases)
  case (2 fn src depth p q r ro rd rest d)
  then show ?case by (cases src) (auto dest!: sym [of "(_, _)"] xml_step_suffix suffix_length_le)
qed simp

declare xml_loop.simps [simp del]

definition ParseXML :: "'s emit \<Rightarrow> gobytes \<Rightarrow> 's parser \<Rightarrow> 's parser \<times> body_error option" where
  "ParseXML fn src p =
     (if MaxTotalSize (p_limits p) < int (length src) then (p, Some ErrTooLarge)
      else xml_loop fn src 0 p)"

section \<open>Sniffing\<close>

definition isXMLNameStart :: "byte \<Rightarrow> bool" where
  "isXMLNameStart c \<longleftrightarrow> c = 95 \<or> c = 58 \<or> 97 \<le> c \<and> c \<le> 122 \<or> 65 \<le> c \<and> c \<le> 90"

definition isXMLNameChar :: "byte \<Rightarrow> bool" where
  "isXMLNameChar c \<longleftrightarrow> isXMLNameStart c \<or> 48 \<le> c \<and> c \<le> 57 \<or> c = 45 \<or> c = 46"

text \<open>\<open>k\<close> is \<open>j - i\<close>, the distance from the bracket.\<close>

fun sniff_name :: "gobytes \<Rightarrow> nat \<Rightarrow> bool" where
  "sniff_name [] k = False"
| "sniff_name (c # cs) k =
     (if k \<le> 64 then
        (if isXMLNameChar c then sniff_name cs (k + 1)
         else c = 62 \<or> c = 47 \<or> isXMLSpace c)
      else False)"

definition SniffXML :: "gobytes \<Rightarrow> bool" where
  "SniffXML data =
     (case dropWhile isXMLSpace data of
        [] \<Rightarrow> False
      | c # cs \<Rightarrow>
          if c \<noteq> 60 then False
          else if hasPrefixStr (c # cs) (ascii ''<?xml'') \<or> hasPrefixStr (c # cs) (ascii ''<!DOCTYPE'')
          then True
          else if cs = [] \<or> \<not> isXMLNameStart (cs ! 0) then False
          else sniff_name cs 1)"

end
