(* ===== verification/BodyXMLCorrect.thy ===== *)
theory BodyXMLCorrect
  imports BodyXML BodyJSONRound
begin

text \<open>What the XML parser hands over: verbatim pieces of the document, within the limits.\<close>

section \<open>The invariant\<close>

definition leaf_ok :: "gobytes \<Rightarrow> body_limits \<Rightarrow> leaf \<Rightarrow> bool" where
  "leaf_ok doc lim = (\<lambda>(path, v, k). sublist v doc \<and> int (length path) \<le> MaxKeyLen lim \<and>
     int (length v) \<le> MaxValueLen lim)"

definition xml_out :: "gobytes \<Rightarrow> body_limits \<Rightarrow> leaf list \<Rightarrow> leaf list parser \<Rightarrow> bool" where
  "xml_out doc lim c p \<longleftrightarrow> p_limits p = lim \<and>
     (\<exists>ls. p_client p = c @ ls \<and> list_all (leaf_ok doc lim) ls \<and> length ls \<le> p_fields p \<and>
        int (length ls) \<le> MaxFields lim)"

definition xml_inv :: "gobytes \<Rightarrow> body_limits \<Rightarrow> leaf list \<Rightarrow> leaf list parser \<Rightarrow> bool" where
  "xml_inv doc lim c p \<longleftrightarrow> xml_out doc lim c p \<and> int (length (p_path p)) \<le> MaxKeyLen lim"

lemma xml_inv_out: "xml_inv doc lim c p \<Longrightarrow> xml_out doc lim c p"
  by (simp add: xml_inv_def)

lemma xml_inv_limits: "xml_inv doc lim c p \<Longrightarrow> p_limits p = lim"
  by (simp add: xml_inv_def xml_out_def)

lemma emit_inv:
  assumes inv: "xml_inv doc lim c p" and v: "sublist v doc" and e: "parser_emit collect v k p = (p', r)"
  shows "xml_inv doc lim c p'" and "p_path p' = p_path p"
proof -
  from inv obtain ls where ls: "p_limits p = lim" "p_client p = c @ ls" "list_all (leaf_ok doc lim) ls"
    "length ls \<le> p_fields p" "int (length ls) \<le> MaxFields lim" "int (length (p_path p)) \<le> MaxKeyLen lim"
    by (auto simp: xml_inv_def xml_out_def)
  let ?ls = "if MaxFields lim < int (p_fields p + 1) \<or> MaxValueLen lim < int (length v) then ls
    else ls @ [(p_path p, v, k)]"
  have "p_limits p' = lim" "p_client p' = c @ ?ls" "p_fields p' = p_fields p + 1" and path: "p_path p' = p_path p"
    using e ls(1,2) by (auto simp: parser_emit_def collect_def Let_def split: if_splits)
  moreover have "list_all (leaf_ok doc lim) ?ls" using ls v by (auto simp: leaf_ok_def)
  moreover have "length ?ls \<le> p_fields p + 1" "int (length ?ls) \<le> MaxFields lim" using ls by auto
  ultimately show "xml_inv doc lim c p'" and "p_path p' = p_path p"
    using ls(6) by (auto simp: xml_inv_def xml_out_def)
qed

lemma xml_out_path [simp]: "xml_out doc lim c (p\<lparr>p_path := x\<rparr>) = xml_out doc lim c p"
  "xml_out doc lim c (p\<lparr>p_pathStack := s\<rparr>) = xml_out doc lim c p"
  by (simp_all add: xml_out_def)

lemma emit_attr_inv:
  assumes "xml_inv doc lim c p" and "sublist v doc" and "emit_attr collect attr v p = (p', r)"
  shows "xml_inv doc lim c p'"
proof (cases "MaxKeyLen lim < int (length (p_path p @ [64] @ attr))")
  case True
  with assms show ?thesis by (auto simp: emit_attr_def Let_def xml_inv_def xml_out_def)
next
  case False
  let ?p = "p\<lparr>p_path := p_path p @ [64] @ attr\<rparr>"
  obtain q r' where e: "parser_emit collect v LeafString ?p = (q, r')" by fastforce
  have "xml_inv doc lim c ?p" using assms(1) False by (auto simp: xml_inv_def)
  from emit_inv [OF this assms(2) e] have "xml_inv doc lim c q" "p_path q = p_path ?p" by simp_all
  moreover have "p' = q\<lparr>p_path := take (length (p_path p)) (p_path q)\<rparr>"
    using assms(3) False e xml_inv_limits [OF assms(1)] by (auto simp: emit_attr_def Let_def)
  ultimately show ?thesis using assms(1) by (simp add: xml_inv_def)
qed

lemma popPath_inv: "xml_inv doc lim c p \<Longrightarrow> xml_inv doc lim c (popPath p)"
  by (auto simp: popPath_def xml_inv_def split: list.split)

section \<open>Every step keeps it\<close>

lemma sublist_takeWhile: "suffix xs doc \<Longrightarrow> sublist (takeWhile P xs) doc"
  by (metis prefix_imp_sublist suffix_imp_sublist sublist_order.order.trans takeWhile_is_prefix)

lemma sublist_suffix: "suffix xs doc \<Longrightarrow> sublist v xs \<Longrightarrow> sublist v doc"
  by (metis suffix_imp_sublist sublist_order.order.trans)

lemma attr_value_sublist:
  assumes "attr_value src = (v, rest)"
  shows "sublist v src"
proof (cases src)
  case (Cons q cs)
  have "suffix cs src" by (simp add: Cons suffix_ConsI)
  then have "sublist (takeWhile P cs) src" for P by (rule sublist_takeWhile)
  moreover have "sublist (takeWhile P src) src" for P by (rule sublist_takeWhile) simp
  ultimately show ?thesis
    using assms Cons by (auto simp: attr_value_def simp del: dropWhile.simps takeWhile.simps split: if_splits)
qed (use assms in \<open>simp add: attr_value_def\<close>)

lemma attr_item_inv:
  assumes inv: "xml_inv doc lim c p" and rest: "suffix rest doc" and attr: "sublist attr doc"
    and item: "attr_item collect attr rest p = (p', r)"
  shows "xml_inv doc lim c p'"
proof (cases "MaxKeyLen (p_limits p) < int (length attr)")
  case True
  with inv item show ?thesis by (simp add: attr_item_def)
next
  case False
  obtain q r1 where e: "parser_emit collect attr LeafKey p = (q, r1)" by fastforce
  note q = emit_inv(1) [OF inv attr e]
  let ?r = "dropWhile isXMLSpace rest" let ?w = "dropWhile isXMLSpace (drop 1 ?r)"
  obtain v r2 where v: "attr_value ?w = (v, r2)" by fastforce
  have "suffix ?w doc"
    using rest by (intro suffix_dropWhile_le suffix_drop_le)
  with attr_value_sublist [OF v] have sv: "sublist v doc" by (auto intro: sublist_suffix)
  obtain q2 r3 where e2: "emit_attr collect attr v q = (q2, r3)" by fastforce
  note emit_attr_inv [OF q sv e2]
  with q item False e v e2 show ?thesis
    by (auto simp: attr_item_def Let_def split: sum.splits bool.splits if_splits)
qed

lemma attr_loop_inv:
  "xml_inv doc lim c p \<Longrightarrow> suffix src doc \<Longrightarrow> attr_loop collect src s p = (p', r) \<Longrightarrow> xml_inv doc lim c p'"
proof (induction "collect :: leaf list emit" src s p arbitrary: p' r rule: attr_loop.induct)
  case (1 src s p)
  show ?case
  proof (cases "dropWhile isXMLSpace src")
    case Nil
    with "1.prems" show ?thesis by (simp add: attr_loop.simps [of collect src])
  next
    case (Cons a cs)
    have suf: "suffix (a # cs) doc" using after_space [OF Cons] "1.prems"(2) suffix_order.trans by blast
    then have tl: "suffix cs doc" by (metis suffix_ConsI suffix_order.refl suffix_order.trans)
    let ?attr = "takeWhile attr_byte (a # cs)" and ?rest = "dropWhile attr_byte (a # cs)"
    obtain q r1 where item: "attr_item collect ?attr ?rest p = (q, r1)" by fastforce
    note q = attr_item_inv [OF "1.prems"(1) suffix_dropWhile_le [OF suf] sublist_takeWhile [OF suf] item]
    note eq = "1.prems"(3) [unfolded attr_loop.simps [of collect src], simplified Cons list.case Let_def item]
    consider "a = 62" | "a = 47" | "a \<noteq> 62" "a \<noteq> 47" "?attr = []" | "a \<noteq> 62" "a \<noteq> 47" "?attr \<noteq> []" by blast
    then show ?thesis
    proof cases
      case 1
      with eq "1.prems"(1) show ?thesis by simp
    next
      case 2
      with eq "1.hyps"(1) [OF Cons] "1.prems"(1) tl show ?thesis by simp
    next
      case 3
      with eq "1.hyps"(2) [OF Cons 3(1,2) refl] "1.prems"(1) tl show ?thesis by simp
    next
      case 4
      show ?thesis
      proof (cases "\<exists>r2. r1 = Inr (Some r2)")
        case True
        then obtain r2 where r2: "r1 = Inr (Some r2)" by blast
        with eq 4 have "attr_loop collect r2 s q = (p', r)" by simp
        moreover have "suffix r2 doc"
          using attr_item_suffix [OF item [unfolded r2]] suffix_dropWhile_le [OF suf] suffix_order.trans by blast
        ultimately show ?thesis
          using "1.hyps"(3) [OF Cons 4(1,2) refl _ item [symmetric] r2 refl q] 4(3) by simp
      next
        case False
        with eq 4 q show ?thesis by (auto split: sum.splits option.splits)
      qed
    qed
  qed
qed

lemma pushPath_inv:
  assumes "xml_inv doc lim c p" and "pushPath name False p = (p', ok)"
  shows "xml_out doc lim c p'" and "ok \<Longrightarrow> xml_inv doc lim c p'"
  using assms by (auto simp: pushPath_def Let_def xml_inv_def xml_out_def)

text \<open>A result of a step: the invariant, except that the path may be too long on an error.\<close>

definition xml_res ::
  "gobytes \<Rightarrow> body_limits \<Rightarrow> leaf list \<Rightarrow> leaf list parser \<times> (body_error + (gobytes \<times> nat) option) \<Rightarrow> bool"
where
  "xml_res doc lim c = (\<lambda>(p, r).
     xml_out doc lim c p \<and> (case r of Inr (Some _) \<Rightarrow> xml_inv doc lim c p | _ \<Rightarrow> True))"

lemma xml_resI: "xml_inv doc lim c p \<Longrightarrow> xml_res doc lim c (p, r)"
  by (auto simp: xml_res_def xml_inv_out split: sum.splits option.splits)

lemma parseElement_inv:
  assumes inv: "xml_inv doc lim c p" and src: "suffix src doc"
  shows "xml_res doc lim c (parseElement collect src depth p)"
proof -
  let ?name = "takeWhile (\<lambda>c. \<not> isXMLNameEnd c) src" and ?rest = "dropWhile (\<lambda>c. \<not> isXMLNameEnd c) src"
  note self = xml_resI [OF inv]
  obtain q ok where push: "pushPath ?name False p = (q, ok)" by fastforce
  note q = pushPath_inv [OF inv push]
  obtain q2 r2 where e: "parser_emit collect ?name LeafKey q = (q2, r2)" by fastforce
  obtain q3 r3 where a: "attr_loop collect ?rest False q2 = (q3, r3)" by fastforce
  note q2 = emit_inv(1) [OF q(2) sublist_takeWhile [OF src] e]
  note q3 = attr_loop_inv [OF q2 suffix_dropWhile_le [OF src] a]
  show ?thesis
  proof (cases ok)
    case True
    with q2 q3 popPath_inv [OF q3] show ?thesis
      unfolding parseElement_def Let_def
      by (auto simp: self push e a intro!: xml_resI split: sum.splits bool.splits option.splits)
  next
    case False
    with q(1) show ?thesis
      unfolding parseElement_def Let_def
      by (auto simp: self push) (simp_all add: xml_res_def)
  qed
qed

lemma emit_text_inv:
  assumes "xml_inv doc lim c p" and "sublist v doc" and "emit_text collect v depth p = (p', r)"
  shows "xml_inv doc lim c p'"
  using assms emit_inv(1) [OF assms(1,2)] by (auto simp: emit_text_def split: if_splits)

lemma sublist_trim: "sublist (trimXMLSpace v) v"
proof -
  have "prefix (trimXMLSpace v) (dropWhile isXMLSpace v)"
    unfolding trimXMLSpace_def by (metis rev_rev_ident suffix_dropWhile suffix_to_prefix)
  then show ?thesis
    by (metis prefix_imp_sublist suffix_dropWhile sublist_suffix)
qed

lemma xml_step_inv:
  assumes inv: "xml_inv doc lim c p" and src: "suffix src doc"
  shows "xml_res doc lim c (xml_step collect src depth p)"
proof -
  note self = xml_resI [OF inv]
  have pop: "xml_res doc lim c (popPath p, r)" for r by (intro xml_resI popPath_inv inv)
  have el: "xml_res doc lim c (parseElement collect (drop 1 src) depth p)"
    by (intro parseElement_inv inv suffix_drop_le src)
  let ?t1 = "trimXMLSpace (takeWhile (\<lambda>c. c \<noteq> 60) src)"
  have s1: "sublist ?t1 doc"
    using sublist_trim sublist_takeWhile [OF src] sublist_order.order.trans by blast
  obtain q1 r1 where e1: "emit_text collect ?t1 depth p = (q1, r1)" by fastforce
  have s2: "sublist (take n (drop 9 src)) doc" for n
    using src by (meson prefix_imp_sublist sublist_suffix suffix_drop_le take_is_prefix)
  have leaf: "xml_res doc lim c (case emit_text collect v depth p of
      (p, Inl e) \<Rightarrow> (p, Inl e) | (p, Inr False) \<Rightarrow> (p, Inr None) | (p, Inr True) \<Rightarrow> (p, Inr (Some x)))"
    if "sublist v doc" for v x
  proof -
    obtain q r where e: "emit_text collect v depth p = (q, r)" by fastforce
    have "xml_inv doc lim c q" by (rule emit_text_inv [OF inv that e])
    then show ?thesis by (auto simp: e intro: xml_resI split: sum.split bool.split)
  qed
  show ?thesis
    unfolding xml_step_def Let_def
    by (auto simp: self pop el leaf s1 s2 simp del: One_nat_def split: option.split)
qed

lemma xml_loop_inv:
  "xml_inv doc lim c p \<Longrightarrow> suffix src doc \<Longrightarrow> xml_out doc lim c (fst (xml_loop collect src depth p))"
proof (induction "collect :: leaf list emit" src depth p rule: xml_loop.induct)
  case (1 src depth p)
  show ?case
  proof (cases src)
    case Nil
    with "1.prems" show ?thesis by (simp add: xml_loop.simps xml_inv_out)
  next
    case (Cons a cs)
    then have ne: "src \<noteq> []" by simp
    obtain q r where step: "xml_step collect src depth p = (q, r)" by fastforce
    with xml_step_inv [OF "1.prems"] have res: "xml_res doc lim c (q, r)" by metis
    show ?thesis
    proof (cases "\<exists>rest d. r = Inr (Some (rest, d))")
      case True
      then obtain rest d where r: "r = Inr (Some (rest, d))" by blast
      have "suffix rest doc"
        using xml_step_suffix [of collect a cs] step "1.prems"(2) unfolding r Cons
        by (meson suffix_ConsD suffix_order.trans)
      moreover have "xml_inv doc lim c q" using res by (simp add: xml_res_def r)
      moreover have "xml_loop collect src depth p = xml_loop collect rest d q"
        by (simp add: xml_loop.simps [of collect src] step r ne)
      ultimately show ?thesis
        using "1.hyps" [OF _ step [symmetric] r refl refl] Cons by simp
    next
      case False
      with res show ?thesis
        by (auto simp: xml_loop.simps [of collect src] step xml_res_def ne split: sum.splits option.splits)
    qed
  qed
qed

section \<open>Properties\<close>

text \<open>
  C35. Parsing XML never expands, decodes or invents anything, whatever the document: the parser always
  returns, and everything it hands over, element and attribute names, attribute values and text, is a
  contiguous piece of the document as it was sent. Paths, values and their number stay within the
  limits, errors and early ends included.
\<close>

theorem ParseXML_verbatim:
  "case ParseXML collect src (Parser_Reset l p) of (p', err) \<Rightarrow>
     \<exists>ls. p_client p' = p_client p @ ls \<and>
       list_all (\<lambda>(path, v, k). sublist v src \<and> int (length path) \<le> MaxKeyLen (withDefaults l) \<and>
         int (length v) \<le> MaxValueLen (withDefaults l)) ls \<and>
       int (length ls) \<le> MaxFields (withDefaults l)"
proof -
  let ?p = "Parser_Reset l p"
  have pos: "0 \<le> MaxFields (withDefaults l)" "0 \<le> MaxKeyLen (withDefaults l)"
    by (auto simp: withDefaults_def body_DefaultLimits_def Let_def)
  then have inv: "xml_inv src (withDefaults l) (p_client p) ?p"
    by (simp add: xml_inv_def xml_out_def Parser_Reset_def)
  obtain p' err where r: "ParseXML collect src ?p = (p', err)" by fastforce
  have "xml_out src (withDefaults l) (p_client p) p'"
    using xml_loop_inv [OF inv suffix_order.refl, of 0] xml_inv_out [OF inv] r
    by (auto simp: ParseXML_def split: if_splits)
  then show ?thesis by (auto simp: r xml_out_def leaf_ok_def)
qed

end
