(* ===== verification/BodyMultipart.thy ===== *)
theory BodyMultipart
  imports Body
begin

text \<open>
  Multipart bodies (internal/body/multipart.go). Delimiters are searched by position, because a
  delimiter only counts behind a line end; inside a part an index is the rest of the bytes.
\<close>

abbreviation MaxParts :: nat where "MaxParts \<equiv> 256"
abbreviation maxPartHeaderBytes :: nat where "maxPartHeaderBytes \<equiv> 8192"
abbreviation maxFileContent :: nat where "maxFileContent \<equiv> 8192"

record part_info =
  pi_Name :: gobytes
  pi_Filename :: gobytes
  pi_FilenameExt :: gobytes
  pi_ContentType :: gobytes
  pi_Charset :: gobytes
  pi_Index :: nat

type_synonym 's emit_part = "part_info \<Rightarrow> 's parser \<Rightarrow> 's parser \<times> bool"

section \<open>\<open>bytes.TrimSpace\<close>\<close>

text \<open>
  Go trims Unicode white space: the ASCII spaces, U+0085, U+00A0 and the separators, by their UTF-8
  encodings. \<open>None\<close>: the bytes do not begin with one.
\<close>

definition utf8_spaces :: "gobytes list" where
  "utf8_spaces =
     [[9], [10], [11], [12], [13], [32], [0xC2, 0x85], [0xC2, 0xA0], [0xE1, 0x9A, 0x80]] @
     map (\<lambda>b. [0xE2, 0x80, b]) [0x80, 0x81, 0x82, 0x83, 0x84, 0x85, 0x86, 0x87, 0x88, 0x89, 0x8A,
       0xA8, 0xA9, 0xAF] @
     [[0xE2, 0x81, 0x9F], [0xE3, 0x80, 0x80]]"

function trim_left :: "gobytes list \<Rightarrow> gobytes \<Rightarrow> gobytes" where
  "trim_left spaces s =
     (case find (\<lambda>sp. sp \<noteq> [] \<and> length sp \<le> length s \<and> take (length sp) s = sp) spaces of
        None \<Rightarrow> s
      | Some sp \<Rightarrow> trim_left spaces (drop (length sp) s))"
  by pat_completeness auto
termination
  by (relation "measure (\<lambda>(spaces, s). length s)") (auto simp: find_Some_iff intro!: diff_less)

declare trim_left.simps [simp del]

definition TrimSpace :: "gobytes \<Rightarrow> gobytes" where
  "TrimSpace s = rev (trim_left (map rev utf8_spaces) (rev (trim_left utf8_spaces s)))"

section \<open>Header parameters\<close>

definition mp_equalFold :: "gobytes \<Rightarrow> gobytes \<Rightarrow> bool" where
  "mp_equalFold a b \<longleftrightarrow> length a = length b \<and> map ascii_lower a = b"

text \<open>A quoted string up to its closing quote; a backslash keeps the byte after it.\<close>

fun quoted :: "gobytes \<Rightarrow> gobytes" where
  "quoted [] = []"
| "quoted (c # cs) =
     (if c = 34 then []
      else if c = 92 then (case cs of [] \<Rightarrow> [c] | d # ds \<Rightarrow> c # d # quoted ds)
      else c # quoted cs)"

text \<open>What stands behind a parameter's name: \<open>None\<close> when there is no equals sign.\<close>

definition param_value :: "gobytes \<Rightarrow> gobytes option option" where
  "param_value rest =
     (case dropWhile is_ows rest of
        [] \<Rightarrow> None
      | c # cs \<Rightarrow>
          if c \<noteq> 61 then None
          else (case dropWhile is_ows cs of
              [] \<Rightarrow> Some None
            | q # qs \<Rightarrow>
                if q = 34 then Some (Some (quoted qs))
                else Some (Some (takeWhile (\<lambda>c. c \<noteq> 59 \<and> c \<noteq> 32 \<and> c \<noteq> 9) (q # qs)))))"

text \<open>\<open>at_start\<close>: the previous byte, if there is one, lets a name begin here.\<close>

fun param_loop :: "gobytes \<Rightarrow> gobytes \<Rightarrow> bool \<Rightarrow> gobytes option" where
  "param_loop param [] at_start = None"
| "param_loop param (c # cs) at_start =
     (let next_start = (c = 59 \<or> c = 32 \<or> c = 9) in
      if length (c # cs) < length param then None
      else if \<not> at_start then param_loop param cs next_start
      else if \<not> mp_equalFold (take (length param) (c # cs)) param
      then param_loop param cs next_start
      else case param_value (drop (length param) (c # cs)) of
        None \<Rightarrow> param_loop param cs next_start
      | Some r \<Rightarrow> r)"

definition headerParam :: "gobytes \<Rightarrow> gobytes \<Rightarrow> gobytes option" where
  "headerParam v param = param_loop param v True"

fun percent_loop :: "gobytes \<Rightarrow> gobytes \<Rightarrow> gobytes" where
  "percent_loop out [] = out"
| "percent_loop out (c # cs) =
     (if c = 37 \<and> 2 \<le> length cs then
        (case (body_unhex (cs ! 0), body_unhex (cs ! 1)) of
           ((hi, ok1), (lo, ok2)) \<Rightarrow>
             if ok1 \<and> ok2 then percent_loop (out @ [hex_byte hi lo]) (drop 2 cs)
             else percent_loop (out @ [c]) cs)
      else percent_loop (out @ [c]) cs)"

definition percentDecode :: "gobytes \<Rightarrow> gobytes" where
  "percentDecode src = (if IndexByte src 37 = None then src else percent_loop [] src)"

definition headerParamExt :: "gobytes \<Rightarrow> gobytes \<Rightarrow> gobytes option" where
  "headerParamExt v param =
     (case headerParam v (param @ [42]) of
        None \<Rightarrow> None
      | Some raw \<Rightarrow>
          if length raw = 0 then None
          else
            let raw = (case IndexByte raw 39 of
                Some i \<Rightarrow>
                  (let rest = drop (i + 1) raw in
                   case IndexByte rest 39 of Some j \<Rightarrow> drop (j + 1) rest | None \<Rightarrow> raw)
              | None \<Rightarrow> raw)
            in Some (percentDecode raw))"

section \<open>One part\<close>

definition splitPartHeaders :: "gobytes \<Rightarrow> gobytes \<times> gobytes" where
  "splitPartHeaders part =
     (case bytes_Index part [13, 10, 13, 10] of
        Some i \<Rightarrow> (take i part, drop (i + 4) part)
      | None \<Rightarrow>
          (case bytes_Index part [10, 10] of
             Some i \<Rightarrow> (take i part, drop (i + 2) part)
           | None \<Rightarrow> (part, [])))"

text \<open>The first of several values wins.\<close>

definition keep_or :: "gobytes \<Rightarrow> gobytes option \<Rightarrow> gobytes" where
  "keep_or old v = (case v of Some v \<Rightarrow> if length old = 0 then v else old | None \<Rightarrow> old)"

definition part_header :: "gobytes \<Rightarrow> part_info \<Rightarrow> part_info" where
  "part_header line info =
     (let line = (if line \<noteq> [] \<and> last line = 13 then butlast line else line) in
      if length line = 0 then info
      else case IndexByte line 58 of
        None \<Rightarrow> info
      | Some colon \<Rightarrow>
          let name = TrimSpace (take colon line); v = TrimSpace (drop (colon + 1) line) in
          if mp_equalFold name (ascii ''content-disposition'') then
            info\<lparr>pi_Name := keep_or (pi_Name info) (headerParam v (ascii ''name'')),
                 pi_Filename := keep_or (pi_Filename info) (headerParam v (ascii ''filename'')),
                 pi_FilenameExt := keep_or (pi_FilenameExt info) (headerParamExt v (ascii ''filename''))\<rparr>
          else if mp_equalFold name (ascii ''content-type'') then
            (let ct = (case IndexByte v 59 of Some i \<Rightarrow> TrimSpace (take i v) | None \<Rightarrow> v);
                 info = info\<lparr>pi_ContentType := ct\<rparr>
             in case headerParam v (ascii ''charset'') of
               Some c \<Rightarrow> info\<lparr>pi_Charset := c\<rparr>
             | None \<Rightarrow> info)
          else info)"

function parsePartHeaders :: "gobytes \<Rightarrow> part_info \<Rightarrow> part_info" where
  "parsePartHeaders headers info =
     (if headers = [] then info
      else case cut_at 10 headers of (line, rest) \<Rightarrow>
        parsePartHeaders rest (part_header line info))"
  by pat_completeness auto
termination
  by (relation "measure (\<lambda>(headers, info). length headers)") (auto dest: cut_at_shorter)

declare parsePartHeaders.simps [simp del]

definition new_part :: "nat \<Rightarrow> part_info" where
  "new_part idx = \<lparr>pi_Name = [], pi_Filename = [], pi_FilenameExt = [], pi_ContentType = [],
     pi_Charset = [], pi_Index = idx\<rparr>"

definition part_name :: "part_info \<Rightarrow> nat \<Rightarrow> gobytes" where
  "part_name info idx =
     (if length (pi_Name info) = 0 then body_itoa [] (int idx) @ ascii ''.unnamed'' else pi_Name info)"

definition part_value :: "body_limits \<Rightarrow> part_info \<Rightarrow> gobytes \<Rightarrow> gobytes" where
  "part_value lim info content =
     (let v = content;
          v = (if 0 < length (pi_Filename info) \<and> maxFileContent < length v
               then take maxFileContent v else v)
      in if MaxValueLen lim < int (length v) then take (nat (MaxValueLen lim)) v else v)"

text \<open>
  Emit a file name under \<open><name>.filename\<close> unless it is empty or to be left out; \<open>Inr False\<close> leaves the
  part, without an error.
\<close>

definition emit_filename ::
  "'s emit \<Rightarrow> gobytes \<Rightarrow> gobytes \<Rightarrow> bool \<Rightarrow> 's parser \<Rightarrow> 's parser \<times> (body_error + bool)"
where
  "emit_filename fn name file wanted p =
     (if wanted then
        let p = p\<lparr>p_path := name @ ascii ''.filename''\<rparr> in counted fn (p_path p) file LeafString p
      else (p, Inr True))"

definition emit_part_fields ::
  "'s emit \<Rightarrow> gobytes \<Rightarrow> part_info \<Rightarrow> gobytes \<Rightarrow> 's parser \<Rightarrow> 's parser \<times> body_error option"
where
  "emit_part_fields fn name info content p =
     (case counted fn name name LeafKey p of
        (p, Inl e) \<Rightarrow> (p, Some e)
      | (p, Inr False) \<Rightarrow> (p, None)
      | (p, Inr True) \<Rightarrow>
          (case emit_filename fn name (pi_Filename info) (0 < length (pi_Filename info)) p of
             (p, Inl e) \<Rightarrow> (p, Some e)
           | (p, Inr False) \<Rightarrow> (p, None)
           | (p, Inr True) \<Rightarrow>
               (case emit_filename fn name (pi_FilenameExt info)
                  (0 < length (pi_FilenameExt info) \<and> pi_FilenameExt info \<noteq> pi_Filename info) p of
                  (p, Inl e) \<Rightarrow> (p, Some e)
                | (p, Inr False) \<Rightarrow> (p, None)
                | (p, Inr True) \<Rightarrow>
                    (case counted fn name (part_value (p_limits p) info content) LeafString p of
                       (p, Inl e) \<Rightarrow> (p, Some e)
                     | (p, Inr _) \<Rightarrow> (p, None)))))"

definition parsePart ::
  "'s emit_part option \<Rightarrow> 's emit \<Rightarrow> gobytes \<Rightarrow> nat \<Rightarrow> 's parser \<Rightarrow> 's parser \<times> body_error option"
where
  "parsePart onPart fn part idx p =
     (case splitPartHeaders part of (headers, content) \<Rightarrow>
        if maxPartHeaderBytes < length headers then (p, Some ErrTooLarge)
        else
          let info = parsePartHeaders headers (new_part idx) in
          case (case onPart of None \<Rightarrow> (p, True) | Some f \<Rightarrow> f info p) of
            (p, False) \<Rightarrow> (p, None)
          | (p, True) \<Rightarrow>
              let name = part_name info idx in
              if MaxKeyLen (p_limits p) < int (length name) then (p, Some ErrTooLarge)
              else emit_part_fields fn name info content p)"

section \<open>The body\<close>

function indexDelimiter :: "gobytes \<Rightarrow> nat \<Rightarrow> gobytes \<Rightarrow> nat option" where
  "indexDelimiter src i dash =
     (if i + length dash \<le> length src then
        (case bytes_Index (drop i src) dash of
           None \<Rightarrow> None
         | Some j \<Rightarrow>
             if i + j = 0 \<or> src ! (i + j - 1) = 10 then Some (i + j)
             else indexDelimiter src (i + j + 1) dash)
      else None)"
  by pat_completeness auto
termination
  by (relation "measure (\<lambda>(src, i, dash). Suc (length src) - i)") auto

declare indexDelimiter.simps [simp del]

text \<open>Past the padding and one line end; \<open>None\<close> is -1. An index into the body is kept.\<close>

definition skipLineEnd :: "gobytes \<Rightarrow> nat \<Rightarrow> nat option" where
  "skipLineEnd src i =
     (let i = i + length (takeWhile is_ows (drop i src));
          i = (if i < length src \<and> src ! i = 13 then i + 1 else i)
      in if i < length src \<and> src ! i = 10 then Some (i + 1)
      else if length src \<le> i then Some i
      else None)"

definition trimTrailingLineEnd :: "gobytes \<Rightarrow> gobytes" where
  "trimTrailingLineEnd part =
     (if part \<noteq> [] \<and> last part = 10 then
        (let part = butlast part in
         if part \<noteq> [] \<and> last part = 13 then butlast part else part)
      else part)"

definition slice_at :: "gobytes \<Rightarrow> nat \<Rightarrow> nat \<Rightarrow> gobytes" where
  "slice_at src i j = take (j - i) (drop i src)"

function multipart_loop ::
  "'s emit_part option \<Rightarrow> 's emit \<Rightarrow> gobytes \<Rightarrow> gobytes \<Rightarrow> nat \<Rightarrow> nat \<Rightarrow> 's parser \<Rightarrow>
   's parser \<times> body_error option"
where
  "multipart_loop onPart fn src dash i idx p =
     (if MaxParts \<le> idx then (p, Some ErrTooManyParts)
      else if i + 2 \<le> length src \<and> src ! i = 45 \<and> src ! (i + 1) = 45 then (p, None)
      else case skipLineEnd src i of
        None \<Rightarrow> (p, Some ErrMalformed)
      | Some i \<Rightarrow>
          (case indexDelimiter src i dash of
             None \<Rightarrow> (p, Some ErrMalformed)
           | Some nxt \<Rightarrow>
               (case parsePart onPart fn (trimTrailingLineEnd (slice_at src i nxt)) idx p of
                  (p, Some e) \<Rightarrow> (p, Some e)
                | (p, None) \<Rightarrow>
                    (let i = nxt + length dash in
                     if length src < i then (p, Some ErrMalformed)
                     else multipart_loop onPart fn src dash i (idx + 1) p))))"
  by pat_completeness auto
termination
  by (relation "measure (\<lambda>(onPart, fn, src, dash, i, idx, p). MaxParts - idx)") auto

declare multipart_loop.simps [simp del]

definition ParseMultipart ::
  "'s emit_part option \<Rightarrow> 's emit \<Rightarrow> gobytes \<Rightarrow> gobytes \<Rightarrow> 's parser \<Rightarrow> 's parser \<times> body_error option"
where
  "ParseMultipart onPart fn src boundary p =
     (if MaxTotalSize (p_limits p) < int (length src) then (p, Some ErrTooLarge)
      else if length boundary = 0 then (p, Some ErrNoBoundary)
      else
        let dash = [45, 45] @ boundary in
        case indexDelimiter src 0 dash of
          None \<Rightarrow> (p, Some ErrNoBoundary)
        | Some i \<Rightarrow> multipart_loop onPart fn src dash (i + length dash) 0 p)"

section \<open>The boundary\<close>

text \<open>\<open>None\<close> is a type that is not multipart; a missing boundary is empty.\<close>

definition Boundary :: "gobytes \<Rightarrow> gobytes option" where
  "Boundary contentType =
     (if \<not> hasPrefixStr (media_type contentType) (ascii ''multipart/'') then None
      else case headerParam contentType (ascii ''boundary'') of None \<Rightarrow> Some [] | Some b \<Rightarrow> Some b)"

definition isBoundaryByte :: "byte \<Rightarrow> bool" where
  "isBoundaryByte c \<longleftrightarrow> 97 \<le> c \<and> c \<le> 122 \<or> 65 \<le> c \<and> c \<le> 90 \<or> 48 \<le> c \<and> c \<le> 57 \<or>
     c \<in> set [39, 40, 41, 43, 95, 44, 45, 46, 47, 58, 61, 63]"

definition indexFoldBytes :: "gobytes \<Rightarrow> gobytes \<Rightarrow> nat option" where
  "indexFoldBytes haystack needle =
     (if length needle = 0 \<or> length haystack < length needle then None
      else bytes_Index (map ascii_lower haystack) needle)"

definition SniffMultipart :: "gobytes \<Rightarrow> gobytes option" where
  "SniffMultipart data =
     (if length data < 4 \<or> data ! 0 \<noteq> 45 \<or> data ! 1 \<noteq> 45 then None
      else
        let line = takeWhile (\<lambda>c. c \<noteq> 13 \<and> c \<noteq> 10) (drop 2 data) in
        if 2 + length line = length data then None
        else
          let b = rev (dropWhile (\<lambda>c. c = 32) (rev line)) in
          if length b = 0 \<or> 70 < length b then None
          else if \<not> list_all isBoundaryByte b then None
          else if indexFoldBytes (take 4096 data) (ascii ''content-disposition:'') = None then None
          else Some b)"

end
