(* ===== verification/BodyMultipartCorrect.thy ===== *)
theory BodyMultipartCorrect
  imports BodyMultipart BodyJSONRound
begin

text \<open>Every part of a multipart body is handed over, under its name, in order.\<close>

section \<open>Delimiters\<close>

lemma bytes_Index_least:
  "bytes_Index s pat = Some i \<Longrightarrow> j < i \<Longrightarrow> take (length pat) (drop j s) \<noteq> pat"
proof (induction s arbitrary: i j)
  case (Cons c cs)
  then show ?case by (cases j) (auto split: if_splits)
qed (auto split: if_splits)

lemma bytes_Index_found:
  "take (length pat) (drop k s) = pat \<Longrightarrow> \<exists>i. bytes_Index s pat = Some i \<and> i \<le> k"
proof (induction s arbitrary: k)
  case (Cons c cs)
  then show ?case
  proof (cases k)
    case (Suc m)
    with Cons.prems Cons.IH [of m] show ?thesis by auto
  qed simp
qed simp

definition is_delim :: "gobytes \<Rightarrow> gobytes \<Rightarrow> nat \<Rightarrow> bool" where
  "is_delim src dash k \<longleftrightarrow> take (length dash) (drop k src) = dash \<and> (k = 0 \<or> src ! (k - 1) = 10)"

lemma indexDelimiter_least:
  "i \<le> k \<Longrightarrow> k + length dash \<le> length src \<Longrightarrow> is_delim src dash k \<Longrightarrow>
   (\<And>j. i \<le> j \<Longrightarrow> j < k \<Longrightarrow> \<not> is_delim src dash j) \<Longrightarrow> indexDelimiter src i dash = Some k"
proof (induction src i dash rule: indexDelimiter.induct)
  case (1 src i dash)
  have "take (length dash) (drop (k - i) (drop i src)) = dash"
    using "1.prems"(1,3) by (simp add: is_delim_def)
  then obtain j where j: "bytes_Index (drop i src) dash = Some j" "j \<le> k - i"
    using bytes_Index_found by blast
  have at: "take (length dash) (drop (i + j) src) = dash"
    using bytes_Index_Some [OF j(1)] by (simp add: add.commute)
  show ?case
  proof (cases "i + j = k")
    case True
    with "1.prems" j(1) show ?thesis
      by (subst indexDelimiter.simps) (auto simp: is_delim_def)
  next
    case False
    then have lt: "i + j < k" using j(2) "1.prems"(1) by linarith
    then have "\<not> is_delim src dash (i + j)" using "1.prems"(4) by simp
    then have no: "\<not> (i + j = 0 \<or> src ! (i + j - 1) = 10)" using at by (simp add: is_delim_def)
    have "indexDelimiter src (i + j + 1) dash = Some k"
      by (rule "1.IH" [OF _ j(1) no]) (use "1.prems" lt in auto)
    then show ?thesis
      using "1.prems"(1,2) j(1) no by (subst indexDelimiter.simps) auto
  qed
qed

text \<open>No delimiter begins inside a part or its line end.\<close>

definition clean_part :: "gobytes \<Rightarrow> gobytes \<Rightarrow> bool" where
  "clean_part dash part \<longleftrightarrow>
     (let s = 10 # part @ [13, 10] @ dash in
      list_all (\<lambda>k. \<not> (s ! k = 10 \<and> take (length dash) (drop (Suc k) s) = dash)) [0..<length part + 2])"

lemma next_delimiter:
  assumes "clean_part dash part"
  shows "indexDelimiter ((pre @ [10]) @ part @ [13, 10] @ dash @ rest) (length pre + 1) dash =
    Some (length pre + length part + 3)"
proof -
  let ?s = "10 # part @ [13, 10] @ dash"
  let ?src = "pre @ ?s @ rest"
  have "indexDelimiter ?src (length pre + 1) dash = Some (length pre + length part + 3)"
  proof (rule indexDelimiter_least)
    have "?s ! (length part + 2) = 10" "drop (length part + 3) (?s @ rest) = dash @ rest"
      by (simp_all add: nth_append numeral_eq_Suc)
    then show "is_delim ?src dash (length pre + length part + 3)"
      by (simp add: is_delim_def nth_append numeral_eq_Suc)
    fix j assume j: "length pre + 1 \<le> j" "j < length pre + length part + 3"
    define k where "k = j - length pre - 1"
    have jk: "j = length pre + Suc k" "k < length part + 2" using j by (simp_all add: k_def)
    have "\<not> (?s ! k = 10 \<and> take (length dash) (drop (Suc k) ?s) = dash)"
      using assms jk(2) unfolding clean_part_def Let_def list_all_iff set_upt
      by (elim ballE [of _ _ k]) (assumption, simp only: atLeastLessThan_iff le0 simp_thms)
    moreover have "?src ! (j - 1) = (?s @ rest) ! k" by (simp add: jk(1) nth_append)
    moreover have "(?s @ rest) ! k = ?s ! k" using jk(2) by (subst nth_append) simp
    moreover have "take (length dash) (drop j ?src) = take (length dash) (drop (Suc k) (?s @ rest))"
      by (simp add: jk(1))
    moreover have "take (length dash) (drop (Suc k) (?s @ rest)) = take (length dash) (drop (Suc k) ?s)"
      using jk(2) by (simp only: drop_append take_append) simp
    ultimately show "\<not> is_delim ?src dash j" using jk(1) by (simp only: is_delim_def) auto
  qed simp_all
  then show ?thesis by simp
qed

section \<open>The fields of a part\<close>

definition part_leaves :: "body_limits \<Rightarrow> nat \<Rightarrow> gobytes \<Rightarrow> leaf list" where
  "part_leaves lim idx part =
     (case splitPartHeaders part of (headers, content) \<Rightarrow>
        let info = parsePartHeaders headers (new_part idx); name = part_name info idx;
            file = name @ ascii ''.filename''
        in [(name, name, LeafKey)] @
           (if pi_Filename info = [] then [] else [(file, pi_Filename info, LeafString)]) @
           (if pi_FilenameExt info = [] \<or> pi_FilenameExt info = pi_Filename info then []
            else [(file, pi_FilenameExt info, LeafString)]) @
           [(name, part_value lim info content, LeafString)])"

definition part_fits :: "body_limits \<Rightarrow> nat \<Rightarrow> gobytes \<Rightarrow> bool" where
  "part_fits lim idx part \<longleftrightarrow>
     (let headers = fst (splitPartHeaders part) in
      length headers \<le> maxPartHeaderBytes \<and>
      int (length (part_name (parsePartHeaders headers (new_part idx)) idx)) \<le> MaxKeyLen lim)"

lemma counted_collect:
  assumes "int (p_fields p + 1) \<le> MaxFields (p_limits p)"
  shows "counted collect name v k p =
    (p\<lparr>p_fields := p_fields p + 1, p_client := p_client p @ [(name, v, k)]\<rparr>, Inr True)"
  using assms by (simp add: counted_def collect_def)

lemma parsePart_collect:
  assumes "part_fits (p_limits p) idx part"
    and "int (p_fields p + length (part_leaves (p_limits p) idx part)) \<le> MaxFields (p_limits p)"
  shows "\<exists>p'. parsePart None collect part idx p = (p', None) \<and> p_limits p' = p_limits p \<and>
    p_fields p' = p_fields p + length (part_leaves (p_limits p) idx part) \<and>
    p_client p' = p_client p @ part_leaves (p_limits p) idx part"
proof -
  obtain headers content where s: "splitPartHeaders part = (headers, content)" by fastforce
  let ?info = "parsePartHeaders headers (new_part idx)"
  consider "pi_Filename ?info = []" "pi_FilenameExt ?info = []"
    | "pi_Filename ?info = []" "pi_FilenameExt ?info \<noteq> []"
    | "pi_Filename ?info \<noteq> []" "pi_FilenameExt ?info = []"
    | "pi_Filename ?info \<noteq> []" "pi_FilenameExt ?info \<noteq> []" "pi_FilenameExt ?info = pi_Filename ?info"
    | "pi_Filename ?info \<noteq> []" "pi_FilenameExt ?info \<noteq> []" "pi_FilenameExt ?info \<noteq> pi_Filename ?info"
    by blast
  then show ?thesis
    using assms
    by cases (simp_all add: Let_def part_leaves_def part_fits_def parsePart_def s emit_part_fields_def
      emit_filename_def counted_collect)
qed

section \<open>Form parts\<close>

text \<open>
  A part as a client writes it: a field name, a file name, a file name in the extended form of
  RFC 5987 (percent-encoded UTF-8), each of which may be missing, other headers, and the content.
\<close>

record form_part =
  fp_name :: "gobytes option"
  fp_file :: "gobytes option"
  fp_ext :: "gobytes option"
  fp_headers :: "(gobytes \<times> gobytes) list"
  fp_body :: gobytes

definition pct_digit :: "nat \<Rightarrow> byte" where
  "pct_digit n = (if n < 10 then 48 + of_nat n else 55 + of_nat n)"

definition pct_escape :: "byte \<Rightarrow> gobytes" where
  "pct_escape b = [37, pct_digit (unat b div 16), pct_digit (unat b mod 16)]"

definition disposition_params :: "form_part \<Rightarrow> gobytes" where
  "disposition_params fp =
     (case fp_name fp of None \<Rightarrow> [] | Some n \<Rightarrow> ascii ''; name='' @ [34] @ n @ [34]) @
     (case fp_file fp of None \<Rightarrow> [] | Some n \<Rightarrow> ascii ''; filename='' @ [34] @ n @ [34]) @
     (case fp_ext fp of None \<Rightarrow> []
      | Some n \<Rightarrow> ascii ''; filename*=UTF-8'' @ [39, 39] @ concat (map pct_escape n))"

definition header_line :: "gobytes \<times> gobytes \<Rightarrow> gobytes" where
  "header_line h = fst h @ ascii '': '' @ snd h"

fun crlf_lines :: "gobytes \<Rightarrow> gobytes list \<Rightarrow> gobytes" where
  "crlf_lines l [] = l"
| "crlf_lines l (m # ms) = l @ [13, 10] @ crlf_lines m ms"

definition part_headers :: "form_part \<Rightarrow> gobytes" where
  "part_headers fp = crlf_lines (ascii ''Content-Disposition: form-data'' @ disposition_params fp)
     (map header_line (fp_headers fp))"

definition render_part :: "form_part \<Rightarrow> gobytes" where
  "render_part fp = part_headers fp @ [13, 10, 13, 10] @ fp_body fp"

text \<open>Names without a quote, a backslash, a line feed or an equals sign; headers whose names are visible
  ASCII and another header's.\<close>

definition plain_name :: "gobytes option \<Rightarrow> bool" where
  "plain_name n = (case n of None \<Rightarrow> True | Some b \<Rightarrow> {10, 34, 61, 92} \<inter> set b = {})"

definition plain_header :: "gobytes \<times> gobytes \<Rightarrow> bool" where
  "plain_header h \<longleftrightarrow> fst h \<noteq> [] \<and> list_all (\<lambda>c. 33 \<le> c \<and> c \<le> 126 \<and> c \<noteq> 58) (fst h) \<and>
     map ascii_lower (fst h) \<noteq> ascii ''content-disposition'' \<and> 10 \<notin> set (snd h)"

definition plain_part :: "form_part \<Rightarrow> bool" where
  "plain_part fp \<longleftrightarrow> plain_name (fp_name fp) \<and> plain_name (fp_file fp) \<and> list_all plain_header (fp_headers fp)"

text \<open>What must be handed over: the name, the file names, and the content under the name, of which the
  first 8192 bytes if there is a file name, and never more than \<open>MaxValueLen\<close>.\<close>

fun decimal :: "nat \<Rightarrow> gobytes" where
  "decimal n = (if n < 10 then [48 + of_nat n] else decimal (n div 10) @ [48 + of_nat (n mod 10)])"

declare decimal.simps [simp del]

definition given :: "gobytes option \<Rightarrow> gobytes" where
  "given n = (case n of None \<Rightarrow> [] | Some b \<Rightarrow> b)"

definition field_name :: "nat \<Rightarrow> form_part \<Rightarrow> gobytes" where
  "field_name idx fp = (if given (fp_name fp) = [] then decimal idx @ ascii ''.unnamed'' else given (fp_name fp))"

definition form_leaves :: "body_limits \<Rightarrow> nat \<Rightarrow> form_part \<Rightarrow> leaf list" where
  "form_leaves lim idx fp =
     (let name = field_name idx fp; file = given (fp_file fp); ext = given (fp_ext fp) in
      [(name, name, LeafKey)] @
      (if file = [] then [] else [(name @ ascii ''.filename'', file, LeafString)]) @
      (if ext = [] \<or> ext = file then [] else [(name @ ascii ''.filename'', ext, LeafString)]) @
      [(name, take (nat (if file = [] then MaxValueLen lim else min 8192 (MaxValueLen lim))) (fp_body fp), LeafString)])"

section \<open>Its headers are read back\<close>

definition param_break :: "byte \<Rightarrow> bool" where "param_break c \<longleftrightarrow> c = 59 \<or> c = 32 \<or> c = 9"

lemma param_short: "length s < length q \<Longrightarrow> param_loop q s b = None"
  by (cases s) simp_all

lemma param_skip:
  "list_all (\<lambda>c. \<not> param_break c) xs \<Longrightarrow> param_loop q (xs @ ys) False = param_loop q ys False"
proof (induction xs)
  case (Cons c cs)
  then show ?case by (auto simp: param_break_def Let_def param_short)
qed simp

lemma param_mismatch:
  assumes "q \<noteq> []" "ascii_lower c \<noteq> hd q" "\<not> param_break c"
  shows "param_loop q (c # cs) True = param_loop q cs False"
  using assms by (cases q) (auto simp: mp_equalFold_def param_break_def Let_def param_short)

text \<open>A parameter name is not found inside a quoted value without an equals sign.\<close>

lemma param_quoted:
  assumes "q \<noteq> []" "34 \<notin> set q" "61 \<notin> set n"
  shows "param_loop q (n @ 34 # ys) b = param_loop q ys False"
  using assms(3)
proof (induction n arbitrary: b)
  case Nil
  have "ascii_lower 34 \<noteq> hd q" using assms(1,2) by (cases q) (auto simp: ascii_lower_def)
  then show ?case
    using param_mismatch [of q 34 ys] param_skip [of "[34]" q ys] assms(1) by (cases b) (simp_all add: param_break_def)
next
  case (Cons c cs)
  let ?s = "c # cs @ 34 # ys"
  show ?case
  proof (cases "b \<and> mp_equalFold (take (length q) ?s) q")
    case True
    then have eq: "map ascii_lower (take (length q) ?s) = q" "length q \<le> length ?s"
      by (auto simp: mp_equalFold_def)
    have short: "length q \<le> length (c # cs)"
    proof (rule ccontr)
      assume "\<not> length q \<le> length (c # cs)"
      then have "34 \<in> set (take (length q) ?s)" by (cases "length q") (auto simp: take_Cons')
      then have "ascii_lower 34 \<in> set q" using eq(1) by (metis imageI list.set_map)
      then show False using assms(2) by (simp add: ascii_lower_def)
    qed
    then obtain zs where z: "drop (length q) ?s = zs @ 34 # ys" "61 \<notin> set zs"
      using Cons.prems by (metis append_Cons drop_append diff_is_0_eq drop0 in_set_dropD)
    have "param_value (zs @ 34 # ys) = None"
    proof -
      obtain d ds where d: "dropWhile is_ows (zs @ 34 # ys) = d # ds" "d = 34 \<or> d \<in> set zs"
      proof (cases "dropWhile is_ows zs")
        case Nil
        then have "dropWhile is_ows (zs @ 34 # ys) = 34 # ys"
          by (simp add: dropWhile_append is_ows_def)
        then show ?thesis using that by blast
      next
        case (Cons d ds)
        then have "\<exists>x \<in> set zs. \<not> is_ows x" by (metis dropWhile_eq_Nil_conv list.discI)
        with Cons have "dropWhile is_ows (zs @ 34 # ys) = d # ds @ 34 # ys" by (auto simp: dropWhile_append)
        moreover have "d \<in> set zs" using Cons by (metis list.set_intros(1) set_dropWhileD)
        ultimately show ?thesis using that by blast
      qed
      then have "d \<noteq> 61" using z(2) by auto
      with d(1) show ?thesis by (simp add: param_value_def)
    qed
    with True z(1) eq(2) Cons.prems show ?thesis by (simp add: Let_def Cons.IH)
  next
    case False
    with Cons.prems show ?thesis
      using param_short [of "34 # ys" q] by (auto simp: Let_def Cons.IH param_short)
  qed
qed

lemma quoted_value: "{34, 92} \<inter> set n = {} \<Longrightarrow> quoted (n @ 34 # ys) = n"
  by (induction n) auto

text \<open>Each parameter in turn: the one that is sought is read, another is passed over.\<close>

lemma param_hit:
  assumes "q \<noteq> []" "map ascii_lower q = q" "hd q \<noteq> 32" "param_value rest = Some r"
  shows "param_loop q ([59, 32] @ q @ rest) False = r"
proof -
  obtain c cs where q: "q = c # cs" using assms(1) by (cases q) auto
  show ?thesis using assms by (simp add: q Let_def mp_equalFold_def ascii_lower_def)
qed

lemma param_found:
  assumes "q \<noteq> []" "map ascii_lower q = q" "hd q \<noteq> 32" "{34, 92} \<inter> set n = {}"
  shows "param_loop q ([59, 32] @ q @ [61, 34] @ n @ 34 # ys) False = Some n"
  by (rule param_hit [OF assms(1-3)]) (simp add: param_value_def is_ows_def quoted_value assms(4))

lemma param_begin:
  assumes "q \<noteq> []" "hd q \<noteq> 32"
  shows "param_loop q ([59, 32] @ s) False = param_loop q s True"
proof -
  have "ascii_lower 32 \<noteq> hd q" using assms(2) by (simp add: ascii_lower_def)
  then have "\<not> mp_equalFold (take (length q) (32 # s)) q"
    using assms(1) by (cases q) (auto simp: mp_equalFold_def)
  then show ?thesis by (auto simp: Let_def param_short)
qed

lemma param_no_value:
  "param_value (drop (length q) (c # cs)) = None \<Longrightarrow> \<not> param_break c \<Longrightarrow>
   param_loop q (c # cs) True = param_loop q cs False"
  by (auto simp: Let_def param_short param_break_def)

lemma param_passed:
  assumes "q \<noteq> []" "hd q \<noteq> 32" "34 \<notin> set q" "r \<noteq> []" "list_all (\<lambda>c. \<not> param_break c) r"
    and "map ascii_lower (take (length q) (r @ [61])) \<noteq> take (length r + 1) q" "61 \<notin> set n"
  shows "param_loop q ([59, 32] @ r @ [61, 34] @ n @ 34 # ys) False = param_loop q ys False"
proof -
  let ?s = "r @ [61, 34] @ n @ 34 # ys"
  have a: "param_loop q ([59, 32] @ ?s) False = param_loop q ?s True" by (rule param_begin [OF assms(1,2)])
  obtain c cs where r: "r = c # cs" using assms(4) by (cases r) auto
  have "\<not> mp_equalFold (take (length q) ?s) q"
  proof
    assume "mp_equalFold (take (length q) ?s) q"
    then have "take (length r + 1) (map ascii_lower (take (length q) ?s)) = take (length r + 1) q"
      by (simp add: mp_equalFold_def)
    moreover have "take (length r + 1) (map ascii_lower (take (length q) ?s)) = map ascii_lower (take (length q) (r @ [61]))"
      by (simp add: take_map min.commute take_Cons')
    ultimately show False using assms(6) by simp
  qed
  then have "param_loop q ?s True = param_loop q ((cs @ [61, 34]) @ n @ 34 # ys) False"
    using assms(5) by (auto simp: r Let_def param_break_def param_short)
  also have "\<dots> = param_loop q (n @ 34 # ys) False"
    using assms(5) by (intro param_skip) (simp add: r param_break_def)
  also have "\<dots> = param_loop q ys False" using assms(1,3,7) by (rule param_quoted)
  finally show ?thesis using a by simp
qed

text \<open>Text before the first parameter, and the extended parameter, which comes last.\<close>

lemma param_prefix:
  assumes "q \<noteq> []" "r \<noteq> []" "list_all (\<lambda>c. \<not> param_break c) r" "map ascii_lower (take (length q) r) \<noteq> take (length r) q"
  shows "param_loop q (r @ ys) True = param_loop q ys False"
proof -
  obtain c cs where r: "r = c # cs" using assms(2) by (cases r) auto
  have "\<not> mp_equalFold (take (length q) (r @ ys)) q"
  proof
    assume "mp_equalFold (take (length q) (r @ ys)) q"
    then have "take (length r) (map ascii_lower (take (length q) (r @ ys))) = take (length r) q"
      by (simp add: mp_equalFold_def)
    moreover have "take (length r) (map ascii_lower (take (length q) (r @ ys))) = map ascii_lower (take (length q) r)"
      by (cases "length q \<le> length r") (simp_all add: take_map)
    ultimately show False using assms(4) by simp
  qed
  then have "param_loop q (r @ ys) True = param_loop q (cs @ ys) False"
    using assms(3) by (auto simp: r Let_def param_break_def param_short)
  also have "\<dots> = param_loop q ys False" using assms(3) by (intro param_skip) (simp add: r)
  finally show ?thesis .
qed

definition ext_text :: "gobytes \<Rightarrow> gobytes" where
  "ext_text e = ascii ''UTF-8'' @ [39, 39] @ concat (map pct_escape e)"

lemma pct_digits:
  assumes "k < 16"
  shows "33 \<le> pct_digit k \<and> pct_digit k \<le> 126 \<and> pct_digit k \<noteq> 59" "body_unhex (pct_digit k) = (of_nat k, True)"
proof -
  have "\<forall>k \<in> set [0..<16]. 33 \<le> pct_digit k \<and> pct_digit k \<le> 126 \<and> pct_digit k \<noteq> 59" by code_simp
  with assms show "33 \<le> pct_digit k \<and> pct_digit k \<le> 126 \<and> pct_digit k \<noteq> 59" by simp
  have "\<forall>k \<in> set [0..<16]. body_unhex (pct_digit k) = (of_nat k, True)" by code_simp
  with assms show "body_unhex (pct_digit k) = (of_nat k, True)" by simp
qed

lemma nibble_bounds: "unat (b :: byte) div 16 < 16" "unat b mod 16 < 16"
  using unat_byte_less [of b] by auto

lemma pct_escape_plain: "list_all (\<lambda>c. 33 \<le> c \<and> c \<le> 126 \<and> c \<noteq> 59) (pct_escape b)"
  using pct_digits(1) [OF nibble_bounds(1) [of b]] pct_digits(1) [OF nibble_bounds(2) [of b]]
  by (simp add: pct_escape_def)

lemma ext_text_plain: "list_all (\<lambda>c. 33 \<le> c \<and> c \<le> 126 \<and> c \<noteq> 59) (ext_text e)" "ext_text e \<noteq> []"
proof -
  have "list_all (\<lambda>c. 33 \<le> c \<and> c \<le> 126 \<and> c \<noteq> 59) (concat (map pct_escape e))"
    using pct_escape_plain by (induction e) auto
  then show "list_all (\<lambda>c. 33 \<le> c \<and> c \<le> 126 \<and> c \<noteq> 59) (ext_text e)" by (simp add: ext_text_def)
  show "ext_text e \<noteq> []" by (simp add: ext_text_def)
qed

lemma plain_breaks: "list_all (\<lambda>c. 33 \<le> c \<and> c \<le> 126 \<and> c \<noteq> 59) s \<Longrightarrow> list_all (\<lambda>c. \<not> param_break c) s"
  by (auto simp: list_all_iff param_break_def)

lemma percent_escaped: "percent_loop out (pct_escape b @ s) = percent_loop (out @ [b]) s"
proof -
  have "\<forall>n \<in> set [0..<256]. hex_byte (of_nat (n div 16)) (of_nat (n mod 16)) = of_nat n" by code_simp
  moreover have "unat b \<in> set [0..<256]" using unat_byte_less [of b] by simp
  ultimately have "hex_byte (of_nat (unat b div 16)) (of_nat (unat b mod 16)) = of_nat (unat b)" by blast
  then have "hex_byte (of_nat (unat b div 16)) (of_nat (unat b mod 16)) = b" by simp
  then show ?thesis
    using pct_digits(2) [OF nibble_bounds(1) [of b]] pct_digits(2) [OF nibble_bounds(2) [of b]]
    by (simp add: pct_escape_def)
qed

lemma percent_decoded: "percentDecode (concat (map pct_escape e)) = e"
proof -
  have "percent_loop out (concat (map pct_escape e)) = out @ e" for out
    by (induction e arbitrary: out) (simp_all add: percent_escaped)
  moreover have "IndexByte (concat (map pct_escape e)) 37 = None \<longleftrightarrow> e = []"
    by (cases e) (simp_all add: pct_escape_def)
  ultimately show ?thesis by (auto simp: percentDecode_def)
qed

lemma ext_decoded:
  "(case IndexByte (ext_text e) 39 of
      Some i \<Rightarrow> (let rest = drop (i + 1) (ext_text e) in
        case IndexByte rest 39 of Some j \<Rightarrow> drop (j + 1) rest | None \<Rightarrow> ext_text e)
    | None \<Rightarrow> ext_text e) = concat (map pct_escape e)"
  by (simp add: ext_text_def)

text \<open>The three lookups.\<close>

abbreviation name_param :: gobytes where "name_param \<equiv> ascii ''name''"
abbreviation file_param :: gobytes where "file_param \<equiv> ascii ''filename''"
abbreviation ext_param :: gobytes where "ext_param \<equiv> ascii ''filename*''"

definition quoted_param :: "gobytes \<Rightarrow> gobytes option \<Rightarrow> gobytes" where
  "quoted_param r n = (case n of None \<Rightarrow> [] | Some v \<Rightarrow> [59, 32] @ r @ [61, 34] @ v @ [34])"

definition ext_tail :: "gobytes option \<Rightarrow> gobytes" where
  "ext_tail e = (case e of None \<Rightarrow> [] | Some v \<Rightarrow> [59, 32] @ ext_param @ [61] @ ext_text v)"

lemma disposition_split:
  "disposition_params fp = quoted_param name_param (fp_name fp) @ quoted_param file_param (fp_file fp) @ ext_tail (fp_ext fp)"
  by (simp add: disposition_params_def quoted_param_def ext_tail_def ext_text_def split: option.split)

lemma sought:
  assumes "q \<in> {name_param, file_param}" "plain_name n"
  shows "param_loop q (quoted_param q n @ ys) False = (case n of None \<Rightarrow> param_loop q ys False | Some v \<Rightarrow> Some v)"
proof (cases n)
  case (Some v)
  have "q \<noteq> []" "map ascii_lower q = q" "hd q \<noteq> 32" using assms(1) by (auto simp: ascii_lower_def)
  moreover have "{34, 92} \<inter> set v = {}" using assms(2) by (auto simp: plain_name_def Some)
  ultimately show ?thesis using param_found [of q v ys] by (simp add: quoted_param_def Some)
qed (simp add: quoted_param_def)

lemma passed:
  assumes "(q, r) \<in> {(file_param, name_param), (ext_param, name_param), (ext_param, file_param), (name_param, file_param)}"
    "plain_name n"
  shows "param_loop q (quoted_param r n @ ys) False = param_loop q ys False"
proof (cases n)
  case (Some v)
  have "q \<noteq> [] \<and> hd q \<noteq> 32 \<and> 34 \<notin> set q \<and> r \<noteq> [] \<and> list_all (\<lambda>c. \<not> param_break c) r \<and>
      map ascii_lower (take (length q) (r @ [61])) \<noteq> take (length r + 1) q"
    using assms(1) by (auto simp: ascii_lower_def param_break_def)
  moreover have "61 \<notin> set v" using assms(2) by (auto simp: plain_name_def Some)
  ultimately show ?thesis using param_passed [of q r v ys] by (simp add: quoted_param_def Some)
qed (simp add: quoted_param_def)

lemma tail_sought: "param_loop ext_param (ext_tail e) False = map_option ext_text e"
proof (cases e)
  case (Some v)
  have "takeWhile (\<lambda>c. c \<noteq> 59 \<and> c \<noteq> 32 \<and> c \<noteq> 9) (ext_text v) = ext_text v"
    using ext_text_plain(1) [of v] by (intro takeWhile_eq_all_conv [THEN iffD2]) (auto simp: list_all_iff)
  moreover obtain d ds where "ext_text v = d # ds" "d = 85" by (simp add: ext_text_def)
  ultimately have "param_value (61 # ext_text v) = Some (Some (ext_text v))"
    by (simp add: param_value_def is_ows_def)
  then have "param_loop ext_param ([59, 32] @ ext_param @ 61 # ext_text v) False = Some (ext_text v)"
    by (intro param_hit) (simp_all add: ascii_lower_def)
  then show ?thesis by (simp add: ext_tail_def Some del: ascii_simps param_loop.simps)
qed (simp add: ext_tail_def)

lemma tail_passed: "q \<in> {name_param, file_param} \<Longrightarrow> param_loop q (ext_tail e) False = None"
proof (cases e)
  case (Some v)
  assume q: "q \<in> {name_param, file_param}"
  have b: "list_all (\<lambda>c. \<not> param_break c) (ascii ''ilename*='' @ ext_text v)"
    using plain_breaks [OF ext_text_plain(1) [of v]] by (simp add: param_break_def)
  let ?t = "ascii ''ilename*='' @ ext_text v"
  have "ext_tail e = [59, 32] @ 102 # ?t" by (simp add: ext_tail_def Some)
  moreover have "q \<noteq> []" "hd q \<noteq> 32" using q by auto
  ultimately have "param_loop q (ext_tail e) False = param_loop q (102 # ?t) True" by (metis param_begin)
  also have "\<dots> = param_loop q ?t False"
    using q
  proof (elim insertE emptyE)
    assume "q = name_param"
    then show ?thesis by (simp only:) (rule param_mismatch, simp_all add: ascii_lower_def param_break_def)
  next
    assume "q = file_param"
    then show ?thesis
      by (simp only:) (rule param_no_value, simp_all add: param_value_def is_ows_def param_break_def)
  qed
  also have "\<dots> = None" using param_skip [OF b, of q "[]"] by (simp only: append_Nil2 param_loop.simps(1))
  finally show ?thesis .
qed (auto simp: ext_tail_def)

lemma form_data_prefix:
  "q \<in> {name_param, file_param, ext_param} \<Longrightarrow>
   headerParam (ascii ''form-data'' @ ys) q = param_loop q ys False"
  unfolding headerParam_def by (rule param_prefix) (auto simp: ascii_lower_def param_break_def)

lemma disposition_read:
  assumes "plain_name (fp_name fp)" "plain_name (fp_file fp)"
  defines "v \<equiv> ascii ''form-data'' @ disposition_params fp"
  shows "headerParam v name_param = fp_name fp" "headerParam v file_param = fp_file fp"
    "headerParamExt v file_param = fp_ext fp"
proof -
  let ?N = "quoted_param name_param (fp_name fp)" and ?F = "quoted_param file_param (fp_file fp)"
  let ?E = "ext_tail (fp_ext fp)"
  have v: "headerParam v q = param_loop q (?N @ ?F @ ?E) False" if "q \<in> {name_param, file_param, ext_param}" for q
    unfolding v_def disposition_split using that by (rule form_data_prefix)
  have f: "param_loop name_param (?F @ ?E) False = None"
    using passed [OF _ assms(2), of name_param file_param ?E] tail_passed [of name_param "fp_ext fp"] by simp
  show "headerParam v name_param = fp_name fp"
    using v [of name_param] sought [OF _ assms(1), of name_param "?F @ ?E"] f
    by (simp del: ascii_simps split: option.splits)
  have "headerParam v file_param = param_loop file_param (?F @ ?E) False"
    using v [of file_param] passed [OF _ assms(1), of file_param name_param "?F @ ?E"] by (simp del: ascii_simps)
  then show "headerParam v file_param = fp_file fp"
    using sought [OF _ assms(2), of file_param ?E] tail_passed [of file_param "fp_ext fp"]
    by (simp del: ascii_simps split: option.splits)
  have "headerParam v ext_param = param_loop ext_param ?E False"
    using v [of ext_param] passed [OF _ assms(1), of ext_param name_param "?F @ ?E"]
      passed [OF _ assms(2), of ext_param file_param ?E] by (simp del: ascii_simps)
  then have "headerParam v ext_param = map_option ext_text (fp_ext fp)" by (simp only: tail_sought)
  moreover have "file_param @ [42] = ext_param" by simp
  ultimately show "headerParamExt v file_param = fp_ext fp"
    using ext_text_plain(2) ext_decoded percent_decoded
    by (simp add: headerParamExt_def del: ascii_simps split: option.split)
qed

text \<open>Visible ASCII is not trimmed.\<close>

lemma trim_left_visible:
  assumes "\<forall>sp \<in> set spaces. sp \<noteq> [] \<longrightarrow> hd sp < 33 \<or> 126 < hd sp" "s \<noteq> [] \<Longrightarrow> 33 \<le> hd s \<and> hd s \<le> 126"
  shows "trim_left spaces s = s"
proof -
  have "\<not> (sp \<noteq> [] \<and> length sp \<le> length s \<and> take (length sp) s = sp)" if "sp \<in> set spaces" for sp
  proof
    assume a: "sp \<noteq> [] \<and> length sp \<le> length s \<and> take (length sp) s = sp"
    then have n: "s \<noteq> []" by auto
    have "hd (take (length sp) s) = hd s" by (rule hd_take) (use a in simp)
    then have h: "hd s = hd sp" using a by simp
    have "hd sp < 33 \<or> 126 < hd sp" using assms(1) that a by blast
    with assms(2) [OF n] show False unfolding h by (meson leD)
  qed
  then have "find (\<lambda>sp. sp \<noteq> [] \<and> length sp \<le> length s \<and> take (length sp) s = sp) spaces = None"
    by (simp add: find_None_iff)
  then show ?thesis by (subst trim_left.simps) simp
qed

lemma space_heads:
  "\<forall>sp \<in> set utf8_spaces. sp \<noteq> [] \<longrightarrow> hd sp < 33 \<or> 126 < hd sp"
  "\<forall>sp \<in> set (map rev utf8_spaces). sp \<noteq> [] \<longrightarrow> hd sp < 33 \<or> 126 < hd sp"
  by code_simp+

lemma TrimSpace_visible:
  assumes "s \<noteq> []" "33 \<le> hd s" "hd s \<le> 126" "33 \<le> last s" "last s \<le> 126"
  shows "TrimSpace s = s" "TrimSpace (32 # s) = s"
proof -
  have l: "trim_left utf8_spaces s = s" by (rule trim_left_visible [OF space_heads(1)]) (use assms in simp)
  have r: "trim_left (map rev utf8_spaces) (rev s) = rev s"
    by (rule trim_left_visible [OF space_heads(2)]) (use assms in \<open>simp add: hd_rev\<close>)
  show "TrimSpace s = s" by (simp only: TrimSpace_def l r rev_rev_ident)
  have "find (\<lambda>sp. sp \<noteq> [] \<and> length sp \<le> length (32 # s) \<and> take (length sp) (32 # s) = sp) utf8_spaces = Some [32]"
    using assms(1) by (simp add: utf8_spaces_def)
  then have "trim_left utf8_spaces (32 # s) = trim_left utf8_spaces s"
    by (subst trim_left.simps) simp
  then show "TrimSpace (32 # s) = s" by (simp only: TrimSpace_def l r rev_rev_ident)
qed

text \<open>The lines of the header block, one by one; a line that has its carriage return loses it.\<close>

lemma cut_at_line: "10 \<notin> set l \<Longrightarrow> cut_at 10 (l @ 10 # r) = (l, r)" "10 \<notin> set l \<Longrightarrow> cut_at 10 l = (l, [])"
proof -
  have "10 \<notin> set l \<Longrightarrow> IndexByte (l @ 10 # r) 10 = Some (length l)" by (induction l) auto
  then show "10 \<notin> set l \<Longrightarrow> cut_at 10 (l @ 10 # r) = (l, r)" by (simp add: cut_at_def)
  show "10 \<notin> set l \<Longrightarrow> cut_at 10 l = (l, [])" using IndexByte_None [of l 10] by (simp add: cut_at_def)
qed

definition given_names :: "part_info \<Rightarrow> gobytes \<times> gobytes \<times> gobytes" where
  "given_names info = (pi_Name info, pi_Filename info, pi_FilenameExt info)"

lemma other_header:
  assumes "plain_header (n, v)"
  shows "given_names (part_header (n @ 58 # w) info) = given_names info"
proof -
  have n: "n \<noteq> []" "\<forall>c \<in> set n. 33 \<le> c \<and> c \<le> 126" "58 \<notin> set n" "map ascii_lower n \<noteq> ascii ''content-disposition''"
    using assms by (auto simp: plain_header_def list_all_iff)
  have i: "IndexByte (n @ 58 # u) 58 = Some (length n)" for u using n(3) by (induction n) auto
  have t: "TrimSpace n = n" by (rule TrimSpace_visible) (use n(1,2) in auto)
  have d: "\<not> mp_equalFold n (ascii ''content-disposition'')" using n(4) by (simp add: mp_equalFold_def)
  have "\<exists>u. (if n @ 58 # w \<noteq> [] \<and> last (n @ 58 # w) = 13 then butlast (n @ 58 # w) else n @ 58 # w) = n @ 58 # u"
    by (cases w rule: rev_cases) (auto simp: butlast_append)
  then obtain u where u: "(if n @ 58 # w \<noteq> [] \<and> last (n @ 58 # w) = 13 then butlast (n @ 58 # w) else n @ 58 # w) = n @ 58 # u" ..
  show ?thesis
    unfolding part_header_def Let_def u
    using i [of u] t d by (simp add: given_names_def del: ascii_simps split: option.split)
qed

lemma last_params: "last (ascii ''form-data'' @ disposition_params fp) \<in> {c. 33 \<le> c \<and> c \<le> 126}"
proof (cases "fp_ext fp")
  case None
  then show ?thesis by (simp add: disposition_params_def split: option.split)
next
  case (Some e)
  have "list_all (\<lambda>c. 33 \<le> c \<and> c \<le> 126 \<and> c \<noteq> 59) (ext_text e)" "ext_text e \<noteq> []" by (rule ext_text_plain)+
  then have "33 \<le> last (ext_text e) \<and> last (ext_text e) \<le> 126" by (simp add: list_all_iff)
  then show ?thesis using ext_text_plain(2) [of e] by (simp add: disposition_split ext_tail_def Some)
qed

abbreviation disposition :: "form_part \<Rightarrow> gobytes" where
  "disposition fp \<equiv> ascii ''Content-Disposition: form-data'' @ disposition_params fp"

lemma disposition_header:
  assumes "plain_part fp" "cr \<in> {[], [13]}"
  shows "given_names (part_header (disposition fp @ cr) (new_part idx)) =
    (given (fp_name fp), given (fp_file fp), given (fp_ext fp))"
proof -
  let ?v = "ascii ''form-data'' @ disposition_params fp"
  let ?l = "ascii ''Content-Disposition:'' @ 32 # ?v"
  have l: "disposition fp = ?l" "disposition fp \<noteq> []" "last (disposition fp) \<noteq> 13"
    using last_params [of fp] by auto
  then have strip: "(if disposition fp @ cr \<noteq> [] \<and> last (disposition fp @ cr) = 13 then butlast (disposition fp @ cr)
      else disposition fp @ cr) = ?l"
    using assms(2) by auto
  have i: "IndexByte ?l 58 = Some 19" by simp
  have n: "TrimSpace (take 19 ?l) = ascii ''Content-Disposition''"
    using TrimSpace_visible(1) [of "ascii ''Content-Disposition''"] by simp
  have hd: "?v \<noteq> []" "33 \<le> hd ?v" "hd ?v \<le> 126" by simp_all
  have d: "TrimSpace (drop (19 + 1) ?l) = ?v"
    using TrimSpace_visible(2) [OF hd] last_params [of fp] by simp
  have e: "mp_equalFold (ascii ''Content-Disposition'') (ascii ''content-disposition'')"
    by (simp add: mp_equalFold_def ascii_lower_def)
  have k: "keep_or [] m = given m" for m by (simp add: keep_or_def given_def split: option.split)
  have "plain_name (fp_name fp)" "plain_name (fp_file fp)" using assms(1) by (simp_all add: plain_part_def)
  note read = disposition_read [OF this]
  have "?l \<noteq> []" by simp
  then show ?thesis
    unfolding part_header_def Let_def strip i option.case n d
    using e by (simp add: read new_part_def k given_names_def del: ascii_simps)
qed

lemma parse_other_headers:
  "list_all plain_header (h # hs) \<Longrightarrow>
   given_names (parsePartHeaders (crlf_lines (header_line h) (map header_line hs)) info) = given_names info"
proof (induction hs arbitrary: h info)
  case Nil
  obtain n v where h: "h = (n, v)" by force
  let ?l = "header_line h"
  have l: "?l \<noteq> []" "10 \<notin> set ?l" using Nil by (auto simp: header_line_def h plain_header_def list_all_iff)
  have "parsePartHeaders (crlf_lines ?l []) info = parsePartHeaders [] (part_header ?l info)"
    using l by (subst parsePartHeaders.simps) (simp add: cut_at_line)
  also have "\<dots> = part_header ?l info" by (subst parsePartHeaders.simps) simp
  finally show ?case using other_header [of n v "32 # v" info] Nil by (simp add: header_line_def h)
next
  case (Cons k ks)
  obtain n v where h: "h = (n, v)" by force
  let ?l = "header_line h @ [13]" and ?r = "crlf_lines (header_line k) (map header_line ks)"
  have l: "10 \<notin> set ?l" using Cons.prems by (auto simp: header_line_def h plain_header_def list_all_iff)
  have "crlf_lines (header_line h) (map header_line (k # ks)) = ?l @ 10 # ?r" by simp
  then have "parsePartHeaders (crlf_lines (header_line h) (map header_line (k # ks))) info =
      parsePartHeaders ?r (part_header ?l info)"
    using cut_at_line(1) [OF l, of ?r] by (subst parsePartHeaders.simps) simp
  moreover have "given_names (part_header ?l info) = given_names info"
    using other_header [of n v "32 # v @ [13]" info] Cons.prems by (simp add: header_line_def h)
  ultimately show ?case using Cons.IH [of k "part_header ?l info"] Cons.prems by simp
qed

lemma disposition_line: "plain_part fp \<Longrightarrow> 10 \<notin> set (disposition fp)"
proof -
  assume p: "plain_part fp"
  have "10 \<notin> set (quoted_param r n)" if "plain_name n" "10 \<notin> set r" for r n
    using that by (auto simp: quoted_param_def plain_name_def split: option.splits)
  then have "10 \<notin> set (quoted_param name_param (fp_name fp))" "10 \<notin> set (quoted_param file_param (fp_file fp))"
    using p by (simp_all add: plain_part_def)
  moreover have "10 \<notin> set (ext_text e)" for e
    using ext_text_plain(1) [of e] by (auto simp: list_all_iff dest: bspec [where x = 10])
  then have "10 \<notin> set (ext_tail (fp_ext fp))"
    by (simp add: ext_tail_def split: option.split)
  ultimately show ?thesis by (simp add: disposition_split)
qed

lemma part_headers_read:
  assumes "plain_part fp"
  shows "given_names (parsePartHeaders (part_headers fp) (new_part idx)) =
    (given (fp_name fp), given (fp_file fp), given (fp_ext fp))"
proof (cases "fp_headers fp")
  case Nil
  have "parsePartHeaders (disposition fp) (new_part idx) = parsePartHeaders [] (part_header (disposition fp) (new_part idx))"
    using disposition_line [OF assms] by (subst parsePartHeaders.simps) (simp add: cut_at_line del: ascii_simps, simp)
  also have "\<dots> = part_header (disposition fp) (new_part idx)" by (subst parsePartHeaders.simps) simp
  finally show ?thesis
    using disposition_header [OF assms, of "[]" idx] by (simp add: part_headers_def Nil del: ascii_simps)
next
  case (Cons h hs)
  let ?l = "disposition fp @ [13]" and ?r = "crlf_lines (header_line h) (map header_line hs)"
  have "10 \<notin> set ?l" using disposition_line [OF assms] by simp
  moreover have "part_headers fp = ?l @ 10 # ?r" by (simp add: part_headers_def Cons)
  ultimately have "parsePartHeaders (part_headers fp) (new_part idx) = parsePartHeaders ?r (part_header ?l (new_part idx))"
    using cut_at_line(1) [of ?l ?r] by (subst parsePartHeaders.simps) simp
  moreover have "list_all plain_header (h # hs)" using assms by (simp add: plain_part_def Cons)
  ultimately show ?thesis
    using parse_other_headers [of h hs "part_header ?l (new_part idx)"] disposition_header [OF assms, of "[13]" idx] by simp
qed

text \<open>The blank line behind the headers is the first one.\<close>

lemma blank_line_step:
  assumes "10 \<notin> set l"
  shows "bytes_Index (l @ [13, 10] @ r) [13, 10, 13, 10] =
    (if take 2 r = [13, 10] then Some (length l) else map_option (\<lambda>i. length l + 2 + i) (bytes_Index r [13, 10, 13, 10]))"
  using assms
proof (induction l)
  case Nil
  have "take 4 (13 # 10 # r) = 13 # 10 # take 2 r" by (simp add: numeral_eq_Suc)
  then show ?case by (cases r) (auto simp: option.map_comp comp_def)
next
  case (Cons c cs)
  have "take (length [13, 10, 13, 10 :: byte]) (c # cs @ [13, 10] @ r) \<noteq> [13, 10, 13, 10]"
    using Cons.prems by (cases cs) (auto simp: numeral_eq_Suc)
  then have "bytes_Index ((c # cs) @ [13, 10] @ r) [13, 10, 13, 10] =
      map_option Suc (bytes_Index (cs @ [13, 10] @ r) [13, 10, 13, 10])"
    by (simp only: append_Cons bytes_Index.simps if_False)
  then show ?case using Cons by (auto simp: option.map_comp comp_def)
qed

lemma blank_line:
  "list_all (\<lambda>l. 10 \<notin> set l \<and> l \<noteq> [] \<and> hd l \<noteq> 13) (l # ls) \<Longrightarrow>
   bytes_Index (crlf_lines l ls @ [13, 10, 13, 10] @ body) [13, 10, 13, 10] = Some (length (crlf_lines l ls))"
proof (induction ls arbitrary: l)
  case Nil
  then show ?case using blank_line_step [of l "[13, 10] @ body"] by simp
next
  case (Cons m ms)
  let ?r = "crlf_lines m ms @ [13, 10, 13, 10] @ body"
  obtain c cs where m: "m = c # cs" "c \<noteq> 13" using Cons.prems by (cases m) auto
  have "take 2 ?r \<noteq> [13, 10]" using m by (cases ms) (simp_all add: numeral_eq_Suc)
  then show ?case
    using blank_line_step [of l ?r] Cons.IH [of m] Cons.prems by simp
qed

lemma render_part_split:
  assumes "plain_part fp"
  shows "splitPartHeaders (render_part fp) = (part_headers fp, fp_body fp)"
proof -
  have "10 \<notin> set (header_line h) \<and> header_line h \<noteq> [] \<and> hd (header_line h) \<noteq> 13" if "h \<in> set (fp_headers fp)" for h
  proof -
    have p: "plain_header h" using assms that by (simp add: plain_part_def list_all_iff)
    then have "hd (fst h) \<in> set (fst h)" "\<forall>c \<in> set (fst h). 33 \<le> c" "10 \<notin> set (snd h)" "fst h \<noteq> []"
      by (auto simp: plain_header_def list_all_iff)
    moreover from this have "33 \<le> hd (fst h)" "10 \<notin> set (fst h)" by auto
    moreover from this have "hd (fst h) \<noteq> 13" by auto
    ultimately show ?thesis by (simp add: header_line_def)
  qed
  then have "list_all (\<lambda>l. 10 \<notin> set l \<and> l \<noteq> [] \<and> hd l \<noteq> 13) (disposition fp # map header_line (fp_headers fp))"
    using disposition_line [OF assms] by (simp add: list_all_iff)
  from blank_line [OF this, of "fp_body fp"] show ?thesis
    by (simp add: splitPartHeaders_def render_part_def part_headers_def del: ascii_simps)
qed

lemma decimal_itoa: "body_itoa [] (int n) = decimal n"
proof -
  have "decimal_loop n acc = (if n = 0 then acc else decimal n @ acc)" for acc
  proof (induction n arbitrary: acc rule: less_induct)
    case (less n)
    show ?case
    proof (cases "n < 10")
      case True
      then show ?thesis by (simp add: decimal_loop.simps [of n] decimal_loop.simps [of 0] decimal.simps [of n])
    next
      case False
      then have "n div 10 \<noteq> 0" by auto
      with False show ?thesis
        using less [of "n div 10"] by (simp add: decimal_loop.simps [of n] decimal.simps [of n])
    qed
  qed
  then show ?thesis by (simp add: body_itoa_def decimal.simps [of 0])
qed

text \<open>So the leaves of a rendered part are the ones it was made of.\<close>

lemma rendered_leaves:
  assumes "plain_part fp"
  shows "part_leaves lim idx (render_part fp) = form_leaves lim idx fp"
    and "part_fits lim idx (render_part fp) \<longleftrightarrow>
      length (part_headers fp) \<le> 8192 \<and> int (length (field_name idx fp)) \<le> MaxKeyLen lim"
proof -
  let ?info = "parsePartHeaders (part_headers fp) (new_part idx)"
  have i: "pi_Name ?info = given (fp_name fp)" "pi_Filename ?info = given (fp_file fp)" "pi_FilenameExt ?info = given (fp_ext fp)"
    using part_headers_read [OF assms, of idx] by (simp_all add: given_names_def)
  have n: "part_name ?info idx = field_name idx fp"
    by (simp add: part_name_def field_name_def i decimal_itoa del: ascii_simps)
  have v: "part_value lim ?info c = take (nat (if given (fp_file fp) = [] then MaxValueLen lim else min 8192 (MaxValueLen lim))) c" for c
    by (auto simp: part_value_def i Let_def min_def nat_le_iff)
  show "part_leaves lim idx (render_part fp) = form_leaves lim idx fp"
    by (simp add: part_leaves_def render_part_split [OF assms] n v i form_leaves_def Let_def del: ascii_simps)
  show "part_fits lim idx (render_part fp) \<longleftrightarrow>
      length (part_headers fp) \<le> 8192 \<and> int (length (field_name idx fp)) \<le> MaxKeyLen lim"
    by (simp add: part_fits_def render_part_split [OF assms] n Let_def)
qed

section \<open>The body\<close>

fun render_parts :: "gobytes \<Rightarrow> gobytes list \<Rightarrow> gobytes" where
  "render_parts dash [] = dash @ [45, 45]"
| "render_parts dash (part # parts) = dash @ [13, 10] @ part @ [13, 10] @ render_parts dash parts"

fun all_leaves :: "body_limits \<Rightarrow> nat \<Rightarrow> gobytes list \<Rightarrow> leaf list" where
  "all_leaves lim idx [] = []"
| "all_leaves lim idx (part # parts) = part_leaves lim idx part @ all_leaves lim (idx + 1) parts"

fun all_fit :: "body_limits \<Rightarrow> nat \<Rightarrow> gobytes list \<Rightarrow> bool" where
  "all_fit lim idx [] = True"
| "all_fit lim idx (part # parts) \<longleftrightarrow> part_fits lim idx part \<and> all_fit lim (idx + 1) parts"

lemma render_parts_dash: "\<exists>r. render_parts dash parts = dash @ r"
  by (cases parts) auto

lemma trim_crlf: "trimTrailingLineEnd (part @ [13, 10]) = part"
  by (simp add: trimTrailingLineEnd_def butlast_append)

lemma multipart_loop_parts:
  assumes "list_all (clean_part dash) parts" and "all_fit (p_limits p) idx parts"
    and "idx + length parts < MaxParts"
    and "int (p_fields p + length (all_leaves (p_limits p) idx parts)) \<le> MaxFields (p_limits p)"
  shows "\<exists>p'. multipart_loop None collect (pre @ render_parts dash parts @ epi) dash (length pre + length dash) idx p
      = (p', None) \<and> p_client p' = p_client p @ all_leaves (p_limits p) idx parts"
  using assms
proof (induction parts arbitrary: pre idx p)
  case Nil
  then show ?case by (subst multipart_loop.simps) (simp add: nth_append)
next
  case (Cons part parts)
  let ?src = "pre @ render_parts dash (part # parts) @ epi"
  let ?pre = "pre @ dash @ [13, 10]"
  let ?pre' = "?pre @ part @ [13, 10]"
  obtain r where r: "render_parts dash parts = dash @ r" using render_parts_dash by blast
  have src: "?src = ?pre @ part @ [13, 10] @ dash @ (r @ epi)" by (simp add: r)
  have src': "?src = ?pre' @ render_parts dash parts @ epi" by simp
  have skip: "skipLineEnd ?src (length pre + length dash) = Some (length ?pre)"
    by (simp add: skipLineEnd_def is_ows_def Let_def nth_append)
  have delim: "indexDelimiter ?src (length ?pre) dash = Some (length ?pre')"
    using next_delimiter [of dash part "pre @ dash @ [13]" "r @ epi"] Cons.prems(1) by (simp add: r)
  have part: "trimTrailingLineEnd (slice_at ?src (length ?pre) (length ?pre')) = part"
    using trim_crlf [of part] by (simp add: slice_at_def)
  from Cons.prems(2,4) have "part_fits (p_limits p) idx part"
    "int (p_fields p + length (part_leaves (p_limits p) idx part)) \<le> MaxFields (p_limits p)" by simp_all
  then obtain q where q: "parsePart None collect part idx p = (q, None)" "p_limits q = p_limits p"
    "p_fields q = p_fields p + length (part_leaves (p_limits p) idx part)"
    "p_client q = p_client p @ part_leaves (p_limits p) idx part"
    using parsePart_collect by blast
  have "multipart_loop None collect ?src dash (length pre + length dash) idx p =
      multipart_loop None collect ?src dash (length ?pre' + length dash) (idx + 1) q"
    using Cons.prems(3) skip delim part q(1)
    by (subst multipart_loop.simps) (simp add: nth_append r del: append_assoc)
  moreover have "\<exists>p'. multipart_loop None collect (?pre' @ render_parts dash parts @ epi) dash
      (length ?pre' + length dash) (idx + 1) q = (p', None) \<and>
      p_client p' = p_client q @ all_leaves (p_limits q) (idx + 1) parts"
    by (rule Cons.IH) (use Cons.prems q in auto)
  ultimately show ?case unfolding src' using q by auto
qed

section \<open>Properties\<close>

definition demo_forms :: "form_part list" where
  "demo_forms =
     [\<lparr>fp_name = Some (ascii ''up; load''), fp_file = Some (ascii ''a.php''), fp_ext = Some [0xC3, 0xA9],
        fp_headers = [(ascii ''Content-Type'', ascii ''image/png'')], fp_body = ascii ''<?''\<rparr>,
      \<lparr>fp_name = None, fp_file = None, fp_ext = None, fp_headers = [], fp_body = ascii ''t''\<rparr>]"

definition forms_leaves :: "body_limits \<Rightarrow> form_part list \<Rightarrow> leaf list" where
  "forms_leaves lim fps = concat (map (\<lambda>(i, fp). form_leaves lim i fp) (enumerate 0 fps))"

definition forms_fit :: "body_limits \<Rightarrow> form_part list \<Rightarrow> bool" where
  "forms_fit lim fps \<longleftrightarrow> list_all (\<lambda>(i, fp). length (part_headers fp) \<le> 8192 \<and>
     int (length (field_name i fp)) \<le> MaxKeyLen lim) (enumerate 0 fps)"

lemma forms_rendered:
  "list_all plain_part fps \<Longrightarrow> all_leaves lim idx (map render_part fps) =
     concat (map (\<lambda>(i, fp). form_leaves lim i fp) (enumerate idx fps))"
  "list_all plain_part fps \<Longrightarrow> all_fit lim idx (map render_part fps) \<longleftrightarrow>
     list_all (\<lambda>(i, fp). length (part_headers fp) \<le> 8192 \<and> int (length (field_name i fp)) \<le> MaxKeyLen lim) (enumerate idx fps)"
  by (induction fps arbitrary: idx) (simp_all add: rendered_leaves)

text \<open>
  C34. No part of a multipart body goes uninspected. A body is written out from up to 255 form parts:
  each has a field name, a file name and a percent-encoded extended file name, any of which may be
  missing, further headers, and a content. If no name holds a line feed, quote, backslash or equals
  sign, no delimiter begins inside a part, and header blocks (8 KiB), names, fields and the whole body
  are within the limits, then parsing ends without an error and hands over, for every part in order,
  its name (the part's number and .unnamed if it has none), its file name, its extended file name if
  that is another one, and its content under the name: all of it up to the value limit, but of a part
  with a file name the first 8192 bytes only. What follows the closing delimiter is not looked at.
\<close>

theorem ParseMultipart_every_part:
  assumes "boundary \<noteq> []" and "list_all plain_part fps" and "length fps < 256"
    and "list_all (\<lambda>fp. clean_part ([45, 45] @ boundary) (render_part fp)) fps"
    and "forms_fit (withDefaults l) fps"
    and "int (length (forms_leaves (withDefaults l) fps)) \<le> MaxFields (withDefaults l)"
    and "int (length (render_parts ([45, 45] @ boundary) (map render_part fps) @ epilogue)) \<le> MaxTotalSize (withDefaults l)"
  shows "case ParseMultipart None collect (render_parts ([45, 45] @ boundary) (map render_part fps) @ epilogue) boundary
      (Parser_Reset l p) of
    (p', err) \<Rightarrow> err = None \<and> p_client p' = p_client p @ forms_leaves (withDefaults l) fps"
proof -
  let ?p = "Parser_Reset l p" and ?dash = "[45, 45] @ boundary" and ?parts = "map render_part fps"
  let ?src = "render_parts ?dash ?parts @ epilogue"
  have p: "p_limits ?p = withDefaults l" "p_fields ?p = 0" "p_client ?p = p_client p"
    by (simp_all add: Parser_Reset_def)
  obtain r where r: "render_parts ?dash ?parts = ?dash @ r" using render_parts_dash by blast
  have first: "indexDelimiter ?src 0 ?dash = Some 0"
    unfolding r by (rule indexDelimiter_least) (simp_all add: is_delim_def)
  have leaves: "all_leaves (withDefaults l) 0 ?parts = forms_leaves (withDefaults l) fps"
    "all_fit (withDefaults l) 0 ?parts" "list_all (clean_part ?dash) ?parts"
    using assms(4,5) forms_rendered [OF assms(2), of "withDefaults l" 0]
    by (simp_all add: forms_leaves_def forms_fit_def list.pred_map comp_def)
  from multipart_loop_parts [of ?dash ?parts ?p 0 "[]" epilogue] leaves assms(3,6) p obtain p' where
    "multipart_loop None collect ?src ?dash (length ?dash) 0 ?p = (p', None)"
    "p_client p' = p_client p @ forms_leaves (withDefaults l) fps" by auto
  with first assms(1,7) p show ?thesis by (simp add: ParseMultipart_def Let_def)
qed

theorem ParseMultipart_every_part_witness:
  "case ParseMultipart None collect (render_parts ([45, 45] @ ascii ''XyZ'') (map render_part demo_forms) @ ascii ''end'')
      (ascii ''XyZ'') (Parser_Reset no_limits demo_parser) of
    (p', err) \<Rightarrow> err = None \<and> p_client p' = p_client demo_parser @
      [(ascii ''up; load'', ascii ''up; load'', LeafKey), (ascii ''up; load.filename'', ascii ''a.php'', LeafString),
       (ascii ''up; load.filename'', [0xC3, 0xA9], LeafString), (ascii ''up; load'', ascii ''<?'', LeafString),
       (ascii ''1.unnamed'', ascii ''1.unnamed'', LeafKey), (ascii ''1.unnamed'', ascii ''t'', LeafString)]"
proof -
  let ?l = "withDefaults no_limits" and ?b = "ascii ''XyZ''"
  let ?leaves = "[(ascii ''up; load'', ascii ''up; load'', LeafKey), (ascii ''up; load.filename'', ascii ''a.php'', LeafString),
       (ascii ''up; load.filename'', [0xC3, 0xA9], LeafString), (ascii ''up; load'', ascii ''<?'', LeafString),
       (ascii ''1.unnamed'', ascii ''1.unnamed'', LeafKey), (ascii ''1.unnamed'', ascii ''t'', LeafString)]"
  have leaves: "forms_leaves ?l demo_forms = ?leaves"
    by (simp add: forms_leaves_def demo_forms_def form_leaves_def field_name_def given_def decimal.simps Let_def
        withDefaults_def no_limits_def body_DefaultLimits_def)
  have "?b \<noteq> []" by simp
  moreover have "list_all plain_part demo_forms" by code_simp
  moreover have "length demo_forms < 256" by code_simp
  moreover have "list_all (\<lambda>fp. clean_part ([45, 45] @ ?b) (render_part fp)) demo_forms" by code_simp
  moreover have "forms_fit ?l demo_forms" by code_simp
  moreover have "int (length (forms_leaves ?l demo_forms)) \<le> MaxFields ?l"
    unfolding leaves by (simp add: withDefaults_def no_limits_def body_DefaultLimits_def)
  moreover have "int (length (render_parts ([45, 45] @ ?b) (map render_part demo_forms) @ ascii ''end'')) \<le> MaxTotalSize ?l"
    by code_simp
  ultimately have "case ParseMultipart None collect (render_parts ([45, 45] @ ?b) (map render_part demo_forms) @ ascii ''end'')
      ?b (Parser_Reset no_limits demo_parser) of
    (p', err) \<Rightarrow> err = None \<and> p_client p' = p_client demo_parser @ forms_leaves ?l demo_forms"
    by (rule ParseMultipart_every_part)
  then show ?thesis unfolding leaves .
qed

end
