(* ===== verification/Decision.thy ===== *)
theory Decision
  imports Engine SchemaValidate BodyFrames
begin

text \<open>
  Decisions (decision.go) and the configuration of a firewall (options.go). A decision's detail is
  kept as the value its text is formatted from. The logger only writes; the callback of
  \<open>OnDecision\<close> is recorded as present or not, and what it is told is kept by the transaction.
\<close>

section \<open>Verdicts and reasons\<close>

type_synonym verdict = "8 word"
abbreviation VerdictAllow :: verdict where "VerdictAllow \<equiv> 0"
abbreviation VerdictBlock :: verdict where "VerdictBlock \<equiv> 1"

definition verdict_String :: "verdict \<Rightarrow> gobytes" where
  "verdict_String v =
     (if v = VerdictAllow then ascii ''allow'' else if v = VerdictBlock then ascii ''block''
      else ascii ''invalid'')"

type_synonym reason = "8 word"
abbreviation ReasonNoMatch :: reason where "ReasonNoMatch \<equiv> 0"
abbreviation ReasonRule :: reason where "ReasonRule \<equiv> 1"
abbreviation ReasonThreshold :: reason where "ReasonThreshold \<equiv> 2"
abbreviation ReasonBudget :: reason where "ReasonBudget \<equiv> 3"
abbreviation ReasonLimit :: reason where "ReasonLimit \<equiv> 4"
abbreviation ReasonSchema :: reason where "ReasonSchema \<equiv> 5"
abbreviation ReasonDesync :: reason where "ReasonDesync \<equiv> 6"
abbreviation ReasonUndecidable :: reason where "ReasonUndecidable \<equiv> 7"

definition reason_String :: "reason \<Rightarrow> gobytes" where
  "reason_String r =
     (case map_of [(ReasonNoMatch, ''no_match''), (ReasonRule, ''rule''),
        (ReasonThreshold, ''threshold''), (ReasonBudget, ''budget_exhausted''),
        (ReasonLimit, ''limit_exceeded''), (ReasonSchema, ''schema_violation''),
        (ReasonDesync, ''framing_ambiguous''), (ReasonUndecidable, ''undecidable'')] r of
        Some s \<Rightarrow> ascii s | None \<Rightarrow> ascii ''invalid'')"

section \<open>Decisions\<close>

text \<open>Why a body could not be decoded: by its content encoding, or as a gRPC frame.\<close>

datatype undecodable =
    BadEncoding encoding "codec_error option"
  | BadFrame encoding codec_error

datatype detail =
    NoDetail
  | Text gobytes
  | SchemaDetail violation gobytes
  | NotStructured body_error
  | Oversized gobytes nat int
  | Undecoded undecodable

record ('t, 'o, 'a) decision =
  d_verdict :: verdict
  d_reason :: reason
  d_status :: int
  d_score :: int
  d_rule :: "('t, 'o, 'a) compiled_rule option"
  d_hit :: "rmatch option"
  d_target :: target
  d_key :: gobytes
  d_reading :: class_set
  d_detail :: detail
  d_path :: gobytes
  d_matchedBytes :: gobytes
  d_derivedFrom :: rule_id
  d_rulesEvaluated :: nat

definition decision_zero :: "('t, 'o, 'a) decision" where
  "decision_zero = \<lparr>d_verdict = 0, d_reason = 0, d_status = 0, d_score = 0, d_rule = None,
     d_hit = None, d_target = \<lparr>Kind = 0, Name = []\<rparr>, d_key = [], d_reading = 0, d_detail = NoDetail,
     d_path = [], d_matchedBytes = [], d_derivedFrom = 0, d_rulesEvaluated = 0\<rparr>"

definition Blocked :: "('t, 'o, 'a) decision \<Rightarrow> bool" where
  "Blocked d \<longleftrightarrow> d_verdict d = VerdictBlock"

definition Allowed :: "('t, 'o, 'a) decision \<Rightarrow> bool" where
  "Allowed d \<longleftrightarrow> d_verdict d = VerdictAllow"

definition decision_RuleID :: "('t, 'o, 'a) decision \<Rightarrow> rule_id" where
  "decision_RuleID d = (case d_rule d of None \<Rightarrow> 0 | Some cr \<Rightarrow> ID (cr_Rule cr))"

definition decision_Message :: "('t, 'o, 'a) decision \<Rightarrow> gobytes" where
  "decision_Message d = (case d_rule d of None \<Rightarrow> [] | Some cr \<Rightarrow> Msg (cr_Rule cr))"

definition decision_Severity :: "('t, 'o, 'a) decision \<Rightarrow> severity" where
  "decision_Severity d = (case d_rule d of None \<Rightarrow> SeverityNotice | Some cr \<Rightarrow> Severity (cr_Rule cr))"

definition decision_Confidence :: "('t, 'o, 'a) decision \<Rightarrow> confidence" where
  "decision_Confidence d = (case d_rule d of None \<Rightarrow> Heuristic | Some cr \<Rightarrow> Confidence (cr_Rule cr))"

definition MatchedSpan :: "('t, 'o, 'a) decision \<Rightarrow> span option" where
  "MatchedSpan d = map_option m_Span (d_hit d)"

definition allow :: "reason \<Rightarrow> int \<Rightarrow> nat \<Rightarrow> ('t, 'o, 'a) decision" where
  "allow reason score evaluated =
     decision_zero\<lparr>d_verdict := VerdictAllow, d_reason := reason, d_score := score,
       d_rulesEvaluated := evaluated\<rparr>"

section \<open>Configuration\<close>

type_synonym mode = "8 word"
abbreviation Blocking :: mode where "Blocking \<equiv> 0"
abbreviation DetectionOnly :: mode where "DetectionOnly \<equiv> 1"

definition mode_String :: "mode \<Rightarrow> gobytes" where
  "mode_String m = (if m = DetectionOnly then ascii ''detection_only'' else ascii ''blocking'')"

type_synonym fail_mode = "8 word"
abbreviation FailClosed :: fail_mode where "FailClosed \<equiv> 0"
abbreviation FailOpen :: fail_mode where "FailOpen \<equiv> 1"

definition fail_mode_String :: "fail_mode \<Rightarrow> gobytes" where
  "fail_mode_String f = (if f = FailOpen then ascii ''fail_open'' else ascii ''fail_closed'')"

record limits =
  MaxBodySize :: int
  MaxArgs :: int
  MaxHeaders :: int
  lim_MaxValueLen :: int
  MaxArenaSize :: int

definition DefaultLimits :: limits where
  "DefaultLimits = \<lparr>MaxBodySize = 2 ^ 20, MaxArgs = 1000, MaxHeaders = 200,
     lim_MaxValueLen = 2 * 2 ^ 20, MaxArenaSize = 4 * 2 ^ 20\<rparr>"

record ('t, 'o, 'a, 'f) config =
  cfg_mode :: mode
  cfg_failMode :: fail_mode
  cfg_limits :: limits
  cfg_fuelLimit :: fuel
  cfg_threshold :: int
  cfg_minConf :: confidence
  cfg_ruleset :: "('t, 'o, 'a) rule list"
  cfg_blockCode :: int
  cfg_onDecide :: bool
  cfg_schema :: "'f schema option"
  cfg_exceptions :: "exception list"
  cfg_origins :: "gobytes list"
  cfg_err :: "exception_error option"
  cfg_coreDisabled :: bool

definition defaultConfig :: "('t, 'o, 'a, 'f) config" where
  "defaultConfig = \<lparr>cfg_mode = Blocking, cfg_failMode = FailClosed, cfg_limits = DefaultLimits,
     cfg_fuelLimit = DefaultFuelLimit, cfg_threshold = 5, cfg_minConf = High, cfg_ruleset = [],
     cfg_blockCode = 403, cfg_onDecide = False, cfg_schema = None, cfg_exceptions = [],
     cfg_origins = [], cfg_err = None, cfg_coreDisabled = False\<rparr>"

section \<open>Options\<close>

type_synonym ('t, 'o, 'a, 'f) option_fn = "('t, 'o, 'a, 'f) config \<Rightarrow> ('t, 'o, 'a, 'f) config"

definition WithMode :: "mode \<Rightarrow> ('t, 'o, 'a, 'f) option_fn" where
  "WithMode m c = c\<lparr>cfg_mode := m\<rparr>"

definition WithFailMode :: "fail_mode \<Rightarrow> ('t, 'o, 'a, 'f) option_fn" where
  "WithFailMode f c = c\<lparr>cfg_failMode := f\<rparr>"

definition WithLimits :: "limits \<Rightarrow> ('t, 'o, 'a, 'f) option_fn" where
  "WithLimits l c =
     (let d = DefaultLimits;
          l = (if MaxBodySize l \<le> 0 then l\<lparr>MaxBodySize := MaxBodySize d\<rparr> else l);
          l = (if MaxArgs l \<le> 0 then l\<lparr>MaxArgs := MaxArgs d\<rparr> else l);
          l = (if MaxHeaders l \<le> 0 then l\<lparr>MaxHeaders := MaxHeaders d\<rparr> else l);
          l = (if lim_MaxValueLen l \<le> 0 then l\<lparr>lim_MaxValueLen := lim_MaxValueLen d\<rparr> else l);
          l = (if MaxArenaSize l \<le> 0 then l\<lparr>MaxArenaSize := MaxArenaSize d\<rparr> else l)
      in c\<lparr>cfg_limits := l\<rparr>)"

definition WithFuelLimit :: "fuel \<Rightarrow> ('t, 'o, 'a, 'f) option_fn" where
  "WithFuelLimit f c = c\<lparr>cfg_fuelLimit := f\<rparr>"

definition WithThreshold :: "int \<Rightarrow> ('t, 'o, 'a, 'f) option_fn" where
  "WithThreshold n c = c\<lparr>cfg_threshold := n\<rparr>"

definition WithMinConfidence :: "confidence \<Rightarrow> ('t, 'o, 'a, 'f) option_fn" where
  "WithMinConfidence m c = c\<lparr>cfg_minConf := m\<rparr>"

definition WithParanoiaLevel :: "int \<Rightarrow> ('t, 'o, 'a, 'f) option_fn" where
  "WithParanoiaLevel pl c = c\<lparr>cfg_minConf := ConfidenceFromParanoiaLevel pl\<rparr>"

definition WithRuleset :: "('t, 'o, 'a) rule list \<Rightarrow> ('t, 'o, 'a, 'f) option_fn" where
  "WithRuleset rset c = c\<lparr>cfg_ruleset := cfg_ruleset c @ rset\<rparr>"

definition WithSchema :: "'f schema option \<Rightarrow> ('t, 'o, 'a, 'f) option_fn" where
  "WithSchema s c = c\<lparr>cfg_schema := s\<rparr>"

definition WithoutCoreRuleset :: "('t, 'o, 'a, 'f) option_fn" where
  "WithoutCoreRuleset c = c\<lparr>cfg_coreDisabled := True\<rparr>"

definition WithBlockStatus :: "int \<Rightarrow> ('t, 'o, 'a, 'f) option_fn" where
  "WithBlockStatus code c = c\<lparr>cfg_blockCode := code\<rparr>"

definition OnDecision :: "bool \<Rightarrow> ('t, 'o, 'a, 'f) option_fn" where
  "OnDecision present c = c\<lparr>cfg_onDecide := present\<rparr>"

definition WithException :: "exception \<Rightarrow> ('t, 'o, 'a, 'f) option_fn" where
  "WithException x c =
     (case exception_Validate x of
        Some err \<Rightarrow> (if cfg_err c = None then c\<lparr>cfg_err := Some err\<rparr> else c)
      | None \<Rightarrow> c\<lparr>cfg_exceptions := cfg_exceptions c @ [x]\<rparr>)"

definition WithExceptions :: "exception list \<Rightarrow> ('t, 'o, 'a, 'f) option_fn" where
  "WithExceptions xs c = fold (\<lambda>x c. c\<lparr>cfg_exceptions := cfg_exceptions c @ [x]\<rparr>) xs c"

end
