(* ===== verification/Transaction.thy ===== *)
theory Transaction
  imports Decision Arena BodyJSONCorrect BodyXML BodyMultipart BodyProto
begin

text \<open>
  The state of a transaction and how requests become values (transaction.go). Buffers that a
  transaction only reuses (the request line, decoding, inflating, unframing, joining) are scratch
  space: what they hold is passed by value. The body parser is not scratch space, as its limits and
  its field count outlive a parse; a parser carries its caller's state, so the whole state of a
  transaction is a parser whose client is the record \<open>tx\<close>.
\<close>

section \<open>What the transaction calls\<close>

text \<open>
  The interfaces behind a transaction: rules' transforms, operators and actions, the default action,
  float64, the decompressors, and the resolvers of the embedder, each a name and the pairs its
  iterator yields.
\<close>

record ('t, 'o, 'a, 'f, 'r) env =
  e_iface :: "('t, 'o, 'a) iface"
  e_score :: 'a
  e_float :: "'f float_ops"
  e_codecs :: codecs
  e_resName :: "'r \<Rightarrow> gobytes"
  e_resolve :: "'r \<Rightarrow> (gobytes \<times> gobytes) list"

section \<open>State\<close>

record value_span =
  vs_key :: span
  vs_data :: span

text \<open>The indexes -1 stand for "not yet". \<open>tx_told\<close> is what the decision callback was given.\<close>

record ('t, 'o, 'a, 'f, 'r) tx =
  tx_cfg :: "('t, 'o, 'a, 'f) config"
  tx_rs :: "('t, 'o, 'a) ruleset"
  tx_eval :: "'t evaluator"
  tx_meter :: meter
  tx_arena :: arena
  tx_reqPath :: gobytes
  tx_values :: "eval_value list"
  tx_spans :: "value_span list"
  tx_result :: "('t, 'o, 'a) result"
  tx_score :: int
  tx_evaluated :: nat
  tx_decided :: bool
  tx_decision :: "('t, 'o, 'a) decision"
  tx_phase :: phase
  tx_headerCount :: nat
  tx_argCount :: nat
  tx_bodyLen :: nat
  tx_contentType :: gobytes
  tx_contentEncoding :: gobytes
  tx_grpcEncoding :: gobytes
  tx_op :: "'f operation option"
  tx_bodyErr :: "body_error option"
  tx_bodyParseFailed :: "body_error option"
  tx_resolvers :: "('r \<times> bool) list"
  tx_undecodable :: "undecodable option"
  tx_bodyStart :: int
  tx_queryEnd :: int
  tx_headerViewsDone :: bool
  tx_bodyViewsDone :: bool
  tx_responseStart :: int
  tx_respBodySpan :: span
  tx_respBodyLen :: nat
  tx_respTruncated :: bool
  tx_respKeySpan :: span
  tx_respDeclared :: int
  tx_reqMethod :: gobytes
  tx_contentLengths :: nat
  tx_firstLength :: gobytes
  tx_transferEncoded :: bool
  tx_framingConflict :: gobytes
  tx_oversizeKey :: gobytes
  tx_oversizeLen :: nat
  tx_violation :: violation
  tx_violatedAt :: gobytes
  tx_bodySeen :: u64
  tx_told :: "('t, 'o, 'a) decision list"

definition span_zero :: span where
  "span_zero = \<lparr>Off = 0, Len = 0\<rparr>"

definition tx_reset :: "('t, 'o, 'a) ruleset \<Rightarrow> ('t, 'o, 'a, 'f, 'r) tx \<Rightarrow> ('t, 'o, 'a, 'f, 'r) tx" where
  "tx_reset rs tx =
     tx\<lparr>tx_rs := rs,
        tx_meter := meter_Reset (cfg_fuelLimit (tx_cfg tx)) (tx_meter tx),
        tx_eval := SetOrigins (cfg_origins (tx_cfg tx)) (tx_eval tx),
        tx_arena := arena_Reset (arena_SetLimit (MaxArenaSize (cfg_limits (tx_cfg tx))) (tx_arena tx)),
        tx_values := [], tx_spans := [], tx_result := result_Reset (tx_result tx),
        tx_score := 0, tx_evaluated := 0, tx_decided := False, tx_decision := decision_zero,
        tx_phase := 0, tx_headerCount := 0, tx_argCount := 0, tx_bodyLen := 0, tx_op := None,
        tx_bodySeen := 0, tx_violation := ViolationNone, tx_violatedAt := [],
        tx_bodyErr := None, tx_bodyParseFailed := None, tx_reqPath := [],
        tx_contentType := [], tx_contentEncoding := [], tx_grpcEncoding := [],
        tx_undecodable := None, tx_reqMethod := [], tx_contentLengths := 0, tx_firstLength := [],
        tx_transferEncoded := False, tx_framingConflict := [], tx_oversizeKey := [],
        tx_oversizeLen := 0, tx_resolvers := [], tx_bodyStart := - 1, tx_queryEnd := - 1,
        tx_headerViewsDone := False, tx_bodyViewsDone := False, tx_responseStart := - 1,
        tx_respBodySpan := span_zero, tx_respBodyLen := 0, tx_respTruncated := False,
        tx_respKeySpan := span_zero, tx_respDeclared := 0\<rparr>"

definition tx_limits :: "('t, 'o, 'a, 'f, 'r) tx \<Rightarrow> limits" where
  "tx_limits tx = cfg_limits (tx_cfg tx)"

section \<open>Recording a value\<close>

definition plain_target :: "target_kind \<Rightarrow> target" where
  "plain_target k = \<lparr>Kind = k, Name = []\<rparr>"

text \<open>
  \<open>arena.Resolve\<close> with its nilness: a span that does not lie in the buffer is nil, and so is every
  slice of the nil buffer of an arena that never allocated.
\<close>

definition span_slice :: "arena \<Rightarrow> span \<Rightarrow> gobytes option" where
  "span_slice a sp =
     (if a_len a < unat (Off sp) + unat (Len sp) \<or> arena_Cap a = 0 then None
      else Some (arena_Resolve a sp))"

definition appendValue ::
  "target \<Rightarrow> span \<Rightarrow> span \<Rightarrow> bool \<Rightarrow> ('t, 'o, 'a, 'f, 'r) tx \<Rightarrow> ('t, 'o, 'a, 'f, 'r) tx"
where
  "appendValue target keySpan dataSpan inert tx =
     tx\<lparr>tx_spans := tx_spans tx @ [\<lparr>vs_key = keySpan, vs_data = dataSpan\<rparr>],
        tx_values := tx_values tx @ [\<lparr>v_Target = target, v_Key = arena_Resolve (tx_arena tx) keySpan,
          v_Data = span_slice (tx_arena tx) dataSpan, v_Inert = inert\<rparr>]\<rparr>"

definition noteOversize :: "gobytes \<Rightarrow> nat \<Rightarrow> ('t, 'o, 'a, 'f, 'r) tx \<Rightarrow> ('t, 'o, 'a, 'f, 'r) tx" where
  "noteOversize key len tx =
     (if tx_oversizeKey tx = [] then tx\<lparr>tx_oversizeKey := key, tx_oversizeLen := len\<rparr> else tx)"

definition recordString ::
  "target \<Rightarrow> gobytes \<Rightarrow> gobytes \<Rightarrow> bool \<Rightarrow> ('t, 'o, 'a, 'f, 'r) tx \<Rightarrow> ('t, 'o, 'a, 'f, 'r) tx"
where
  "recordString target key v inert tx =
     (if lim_MaxValueLen (tx_limits tx) < int (length v) then noteOversize key (length v) tx
      else case arena_Append key (tx_arena tx) of (a, keySpan, ok) \<Rightarrow>
        let tx = tx\<lparr>tx_arena := a\<rparr> in
        if \<not> ok then tx
        else case arena_Append v (tx_arena tx) of (a, dataSpan, ok) \<Rightarrow>
          let tx = tx\<lparr>tx_arena := a\<rparr> in
          if \<not> ok then tx else appendValue target keySpan dataSpan inert tx)"

text \<open>The same on byte slices, and with a target that has no name.\<close>

definition recordBytes ::
  "target \<Rightarrow> gobytes \<Rightarrow> gobytes \<Rightarrow> bool \<Rightarrow> ('t, 'o, 'a, 'f, 'r) tx \<Rightarrow> ('t, 'o, 'a, 'f, 'r) tx"
where
  "recordBytes target key v inert tx = recordString target key v inert tx"

definition recordFieldBytes ::
  "target_kind \<Rightarrow> gobytes \<Rightarrow> gobytes \<Rightarrow> bool \<Rightarrow> ('t, 'o, 'a, 'f, 'r) tx \<Rightarrow> ('t, 'o, 'a, 'f, 'r) tx"
where
  "recordFieldBytes kind key v inert tx = recordString (plain_target kind) key v inert tx"

definition addValueInert ::
  "target \<Rightarrow> gobytes \<Rightarrow> gobytes \<Rightarrow> bool \<Rightarrow> ('t, 'o, 'a, 'f, 'r) tx \<Rightarrow> ('t, 'o, 'a, 'f, 'r) tx"
where
  "addValueInert target key v inert tx = recordString target key v inert tx"

definition addValue ::
  "target \<Rightarrow> gobytes \<Rightarrow> gobytes \<Rightarrow> ('t, 'o, 'a, 'f, 'r) tx \<Rightarrow> ('t, 'o, 'a, 'f, 'r) tx"
where
  "addValue target key v tx = recordString target key v False tx"

definition addValueBytes ::
  "target \<Rightarrow> gobytes \<Rightarrow> gobytes \<Rightarrow> ('t, 'o, 'a, 'f, 'r) tx \<Rightarrow> ('t, 'o, 'a, 'f, 'r) tx"
where
  "addValueBytes target key v tx = recordBytes target key v False tx"

definition isPositionalKey :: "gobytes \<Rightarrow> bool" where
  "isPositionalKey key =
     (if length key = 9 then key = ascii ''prototype'' \<or> key = ascii ''__proto__''
      else if length key = 11 then key = ascii ''constructor''
      else False)"

definition recordArgName ::
  "gobytes \<Rightarrow> gobytes \<Rightarrow> ('t, 'o, 'a, 'f, 'r) tx \<Rightarrow> ('t, 'o, 'a, 'f, 'r) tx"
where
  "recordArgName parent key tx =
     (let tx = recordFieldBytes TargetArgNames parent key False tx in
      if length parent = 0 \<or> \<not> isPositionalKey key then tx
      else
        let total = length parent + 1 + length key in
        if lim_MaxValueLen (tx_limits tx) < int total then tx
        else case arena_Alloc (int total) (tx_arena tx) of (a, dataSpan, ok) \<Rightarrow>
          if \<not> ok then tx\<lparr>tx_arena := a\<rparr>
          else
            let tx = tx\<lparr>tx_arena := arena_write (a_len (tx_arena tx)) (parent @ [46] @ key) a\<rparr>
            in appendValue (plain_target TargetArgNames) dataSpan dataSpan False tx)"

section \<open>Arguments\<close>

definition note_violation ::
  "violation \<Rightarrow> gobytes \<Rightarrow> ('t, 'o, 'a, 'f, 'r) tx \<Rightarrow> ('t, 'o, 'a, 'f, 'r) tx"
where
  "note_violation v place tx =
     (if tx_violation tx = ViolationNone then tx\<lparr>tx_violation := v, tx_violatedAt := place\<rparr> else tx)"

definition checkSchema ::
  "('t, 'o, 'a, 'f, 'r) env \<Rightarrow> gobytes \<Rightarrow> gobytes \<Rightarrow> ('t, 'o, 'a, 'f, 'r) tx \<Rightarrow> ('t, 'o, 'a, 'f, 'r) tx \<times> bool"
where
  "checkSchema E name v tx =
     (case tx_op tx of
        None \<Rightarrow> (tx, False)
      | Some op \<Rightarrow>
          (case FieldFor (op_Query op) name of
             None \<Rightarrow> (if op_Strict op then note_violation ViolationUndeclared name tx else tx, False)
           | Some f \<Rightarrow>
               let viol = Validate (e_float E) f v in
               if viol \<noteq> ViolationNone then (note_violation viol name tx, False)
               else (tx, Inert f)))"

definition AddArgument ::
  "('t, 'o, 'a, 'f, 'r) env \<Rightarrow> gobytes \<Rightarrow> gobytes \<Rightarrow> ('t, 'o, 'a, 'f, 'r) tx \<Rightarrow> ('t, 'o, 'a, 'f, 'r) tx"
where
  "AddArgument E name v tx =
     (let tx = tx\<lparr>tx_argCount := tx_argCount tx + 1\<rparr> in
      if MaxArgs (tx_limits tx) < int (tx_argCount tx) then tx
      else case checkSchema E name v tx of (tx, inert) \<Rightarrow>
        let tx = addValueInert \<lparr>Kind = TargetArgs, Name = name\<rparr> name v inert tx
        in addValue (plain_target TargetArgNames) name name tx)"

definition addQueryPair ::
  "('t, 'o, 'a, 'f, 'r) env \<Rightarrow> gobytes \<Rightarrow> ('t, 'o, 'a, 'f, 'r) tx \<Rightarrow> ('t, 'o, 'a, 'f, 'r) tx"
where
  "addQueryPair E pair tx =
     (case IndexByte pair 61 of
        Some i \<Rightarrow> AddArgument E (take i pair) (drop (i + 1) pair) tx
      | None \<Rightarrow> AddArgument E pair pair tx)"

function query_subpairs ::
  "('t, 'o, 'a, 'f, 'r) env \<Rightarrow> gobytes \<Rightarrow> ('t, 'o, 'a, 'f, 'r) tx \<Rightarrow> ('t, 'o, 'a, 'f, 'r) tx"
where
  "query_subpairs E pair tx =
     (if pair = [] then tx
      else case cut_at 59 pair of (sub, pair) \<Rightarrow>
        query_subpairs E pair (if sub \<noteq> [] then addQueryPair E sub tx else tx))"
  by pat_completeness auto
termination
  by (relation "measure (\<lambda>(E, pair, tx). length pair)") (auto dest: cut_at_shorter)

declare query_subpairs.simps [simp del]

function query_loop ::
  "('t, 'o, 'a, 'f, 'r) env \<Rightarrow> gobytes \<Rightarrow> ('t, 'o, 'a, 'f, 'r) tx \<Rightarrow> ('t, 'o, 'a, 'f, 'r) tx"
where
  "query_loop E query tx =
     (if query = [] then tx
      else case cut_at 38 query of (pair, query) \<Rightarrow>
        if pair = [] then query_loop E query tx
        else
          let tx = addQueryPair E pair tx in
          if IndexByte pair 59 = None then query_loop E query tx
          else query_loop E query (query_subpairs E pair tx))"
  by pat_completeness auto
termination
  by (relation "measure (\<lambda>(E, query, tx). length query)") (auto dest: cut_at_shorter)

declare query_loop.simps [simp del]

section \<open>Repeated arguments\<close>

abbreviation joinArgScanLimit :: nat where "joinArgScanLimit \<equiv> 64"

definition same_arg :: "gobytes \<Rightarrow> eval_value \<Rightarrow> bool" where
  "same_arg key v \<longleftrightarrow> Kind (v_Target v) = TargetArgs \<and> v_Key v = key"

text \<open>The values under one key, joined with commas, and how many there are.\<close>

fun join_values :: "gobytes \<Rightarrow> eval_value list \<Rightarrow> gobytes \<Rightarrow> nat \<Rightarrow> gobytes \<times> nat" where
  "join_values key [] buf k = (buf, k)"
| "join_values key (v # vs) buf k =
     (if \<not> same_arg key v then join_values key vs buf k
      else join_values key vs ((if 0 < k then buf @ [44] else buf) @ v_bytes v) (k + 1))"

text \<open>\<open>vs\<close> are the values from \<open>start\<close> to the count \<open>n\<close> taken before any joined value is added.\<close>

definition join_step ::
  "eval_value list \<Rightarrow> nat \<Rightarrow> ('t, 'o, 'a, 'f, 'r) tx \<Rightarrow> ('t, 'o, 'a, 'f, 'r) tx"
where
  "join_step vs i tx =
     (let v = vs ! i; key = v_Key v in
      if Kind (v_Target v) \<noteq> TargetArgs \<or> length key = 0 then tx
      else if \<not> list_all (\<lambda>w. \<not> same_arg key w) (take i vs) then tx
      else case join_values key (drop i vs) [] 0 of (buf, k) \<Rightarrow>
        if k < 2 then tx
        else recordBytes (plain_target TargetArgs) key buf False tx)"

definition joinDuplicateArgs :: "('t, 'o, 'a, 'f, 'r) tx \<Rightarrow> ('t, 'o, 'a, 'f, 'r) tx" where
  "joinDuplicateArgs tx =
     (let start = (if tx_bodyStart tx < 0 then 0 else nat (tx_bodyStart tx));
          n = length (tx_values tx)
      in if joinArgScanLimit < n - start then tx
         else let vs = drop start (tx_values tx)
              in fold (join_step vs) [0..<length vs] tx)"

definition addQueryArguments ::
  "('t, 'o, 'a, 'f, 'r) env \<Rightarrow> gobytes \<Rightarrow> ('t, 'o, 'a, 'f, 'r) tx \<Rightarrow> ('t, 'o, 'a, 'f, 'r) tx"
where
  "addQueryArguments E query tx = joinDuplicateArgs (query_loop E query tx)"

section \<open>The request line and the headers\<close>

abbreviation maxRequestLineLen :: nat where "maxRequestLineLen \<equiv> 8192"

text \<open>\<open>path, query := target[:i], target[i+1:]\<close> at the first question mark.\<close>

definition SetRequestLine ::
  "('t, 'o, 'a, 'f, 'r) env \<Rightarrow> gobytes \<Rightarrow> gobytes \<Rightarrow> gobytes \<Rightarrow> ('t, 'o, 'a, 'f, 'r) tx \<Rightarrow>
   ('t, 'o, 'a, 'f, 'r) tx"
where
  "SetRequestLine E method target proto tx =
     (let tx = addValue (plain_target TargetRequestMethod) [] method tx;
          tx = tx\<lparr>tx_reqMethod := method\<rparr>;
          tx = addValue (plain_target TargetRequestURI) [] target tx;
          tx = addValue (plain_target TargetRequestProtocol) [] proto tx;
          tx = (if ruleset_Reads (tx_rs tx) TargetRequestLine \<and>
                   length method + length target + length proto + 2 \<le> maxRequestLineLen
                then addValueBytes (plain_target TargetRequestLine) []
                       (method @ [32] @ target @ [32] @ proto) tx
                else tx);
          (path, query) = cut_at 63 target;
          tx = addValue (plain_target TargetRequestPath) [] path tx;
          tx = tx\<lparr>tx_reqPath := path\<rparr>;
          tx = (case cfg_schema (tx_cfg tx) of
              None \<Rightarrow> tx
            | Some s \<Rightarrow>
                (case Lookup (Some s) method path of
                   Some op \<Rightarrow> tx\<lparr>tx_op := Some op\<rparr>
                 | None \<Rightarrow> if IsClosed s then note_violation ViolationUndeclared path tx else tx))
      in addQueryArguments E query tx)"

definition SetRemoteAddr :: "gobytes \<Rightarrow> ('t, 'o, 'a, 'f, 'r) tx \<Rightarrow> ('t, 'o, 'a, 'f, 'r) tx" where
  "SetRemoteAddr addr tx = addValue (plain_target TargetRemoteAddr) [] addr tx"

text \<open>\<open>trimOWS\<close> and \<open>trimSpaceStr\<close> are the same loop.\<close>

definition trimOWS :: "gobytes \<Rightarrow> gobytes" where
  "trimOWS s = trimSpaceStr s"

fun all_digits_loop :: "gobytes \<Rightarrow> bool" where
  "all_digits_loop [] = True"
| "all_digits_loop (c # cs) = (if c < 48 \<or> 57 < c then False else all_digits_loop cs)"

definition isAllDigits :: "gobytes \<Rightarrow> bool" where
  "isAllDigits s = (if s = [] then False else all_digits_loop s)"

definition setFramingConflict ::
  "gobytes \<Rightarrow> ('t, 'o, 'a, 'f, 'r) tx \<Rightarrow> ('t, 'o, 'a, 'f, 'r) tx"
where
  "setFramingConflict why tx =
     (if tx_framingConflict tx = [] then tx\<lparr>tx_framingConflict := why\<rparr> else tx)"

definition noteFraming ::
  "gobytes \<Rightarrow> gobytes \<Rightarrow> ('t, 'o, 'a, 'f, 'r) tx \<Rightarrow> ('t, 'o, 'a, 'f, 'r) tx"
where
  "noteFraming name v tx =
     (if equalFoldASCII name (ascii ''content-length'') then
        let tx = tx\<lparr>tx_contentLengths := tx_contentLengths tx + 1\<rparr>; trimmed = trimOWS v in
        if \<not> isAllDigits trimmed
        then setFramingConflict (ascii ''Content-Length is not a number: '' @ v) tx
        else if tx_contentLengths tx = 1 then tx\<lparr>tx_firstLength := trimmed\<rparr>
        else if trimmed \<noteq> tx_firstLength tx
        then setFramingConflict (ascii ''conflicting Content-Length headers: '' @
               tx_firstLength tx @ ascii '' and '' @ trimmed) tx
        else tx
      else if equalFoldASCII name (ascii ''transfer-encoding'') then
        let tx = tx\<lparr>tx_transferEncoded := True\<rparr> in
        if trimOWS v \<noteq> v
        then setFramingConflict (ascii ''Transfer-Encoding has surrounding whitespace: '' @
               [34] @ v @ [34]) tx
        else tx
      else tx)"

definition AddRequestHeader ::
  "gobytes \<Rightarrow> gobytes \<Rightarrow> ('t, 'o, 'a, 'f, 'r) tx \<Rightarrow> ('t, 'o, 'a, 'f, 'r) tx"
where
  "AddRequestHeader name v tx =
     (let tx = tx\<lparr>tx_headerCount := tx_headerCount tx + 1\<rparr> in
      if MaxHeaders (tx_limits tx) < int (tx_headerCount tx) then tx
      else
        let tx = (if length (tx_contentType tx) = 0 \<and> equalFoldASCII name (ascii ''content-type'')
              then tx\<lparr>tx_contentType := v\<rparr> else tx);
            tx = (if length (tx_contentEncoding tx) = 0 \<and> equalFoldASCII name (ascii ''content-encoding'')
              then tx\<lparr>tx_contentEncoding := v\<rparr> else tx);
            tx = (if length (tx_grpcEncoding tx) = 0 \<and> equalFoldASCII name (ascii ''grpc-encoding'')
              then tx\<lparr>tx_grpcEncoding := v\<rparr> else tx);
            tx = noteFraming name v tx;
            tx = addValue \<lparr>Kind = TargetRequestHeaders, Name = name\<rparr> name v tx
        in addValue (plain_target TargetRequestHeaderNames) name name tx)"

definition AddResolver :: "'r option \<Rightarrow> ('t, 'o, 'a, 'f, 'r) tx \<Rightarrow> ('t, 'o, 'a, 'f, 'r) tx" where
  "AddResolver r tx =
     (case r of None \<Rightarrow> tx | Some r \<Rightarrow> tx\<lparr>tx_resolvers := tx_resolvers tx @ [(r, False)]\<rparr>)"

end
