(* ===== verification/TransactionBody.thy ===== *)
theory TransactionBody
  imports Transaction
begin

text \<open>
  How a transaction reads a body (transaction.go, SetRequestBody and what it calls) and materialises
  the values of resolvers. The state is the body parser with the transaction as its client; the
  parser calls back with the whole state, as the closures of the source reach all of it.
\<close>

type_synonym ('t, 'o, 'a, 'f, 'r) txn = "('t, 'o, 'a, 'f, 'r) tx parser"

definition on_tx ::
  "(('t, 'o, 'a, 'f, 'r) tx \<Rightarrow> ('t, 'o, 'a, 'f, 'r) tx) \<Rightarrow> ('t, 'o, 'a, 'f, 'r) txn \<Rightarrow>
   ('t, 'o, 'a, 'f, 'r) txn"
where
  "on_tx f p = p\<lparr>p_client := f (p_client p)\<rparr>"

text \<open>The limits every parse of a body is reset to.\<close>

definition parse_limits :: "('t, 'o, 'a, 'f, 'r) tx \<Rightarrow> body_limits" where
  "parse_limits tx = \<lparr>MaxDepth = 0, MaxFields = MaxArgs (tx_limits tx), MaxKeyLen = 0,
     MaxValueLen = lim_MaxValueLen (tx_limits tx), MaxTotalSize = MaxBodySize (tx_limits tx)\<rparr>"

definition reset_parser :: "('t, 'o, 'a, 'f, 'r) txn \<Rightarrow> ('t, 'o, 'a, 'f, 'r) txn" where
  "reset_parser p = Parser_Reset (parse_limits (p_client p)) p"

section \<open>One decoded value\<close>

abbreviation maxBase64Depth :: nat where "maxBase64Depth \<equiv> 2"

function recordNestedBase64 ::
  "target_kind \<Rightarrow> gobytes \<Rightarrow> gobytes \<Rightarrow> nat \<Rightarrow> ('t, 'o, 'a, 'f, 'r) tx \<Rightarrow> ('t, 'o, 'a, 'f, 'r) tx"
where
  "recordNestedBase64 kind key v depth tx =
     (if maxBase64Depth \<le> depth then tx
      else case (if IsBase64 v then DecodeBase64 v else IsBase64Text v) of
        None \<Rightarrow> tx
      | Some nxt \<Rightarrow>
          if length nxt = 0 \<or> IsBinary nxt then tx
          else recordNestedBase64 kind key nxt (depth + 1) (recordFieldBytes kind key nxt False tx))"
  by pat_completeness auto
termination
  by (relation "measure (\<lambda>(kind, key, v, depth, tx). maxBase64Depth - depth)") auto

declare recordNestedBase64.simps [simp del]

text \<open>The callback that files every run of a binary value under \<open>kind\<close>.\<close>

definition file_run :: "target_kind \<Rightarrow> ('t, 'o, 'a, 'f, 'r) tx emit" where
  "file_run kind name v k p = (on_tx (recordFieldBytes kind name v False) p, True)"

definition recordValueBytes ::
  "target_kind \<Rightarrow> gobytes \<Rightarrow> gobytes \<Rightarrow> bool \<Rightarrow> ('t, 'o, 'a, 'f, 'r) txn \<Rightarrow> ('t, 'o, 'a, 'f, 'r) txn"
where
  "recordValueBytes kind key v inert p =
     (if \<not> IsBase64 v then
        let p = (case IsBase64Text v of
            None \<Rightarrow> p
          | Some decoded \<Rightarrow>
              on_tx (\<lambda>tx. recordNestedBase64 kind key decoded 1
                (recordFieldBytes kind key decoded False tx)) p)
        in on_tx (recordFieldBytes kind key v inert) p
      else case DecodeBase64 v of
        None \<Rightarrow> on_tx (recordFieldBytes kind key v inert) p
      | Some decoded \<Rightarrow>
          if IsBinary decoded then ExtractText (file_run kind) key decoded p
          else on_tx (\<lambda>tx. recordNestedBase64 kind key decoded 1
                 (recordFieldBytes kind key decoded False tx)) p)"

text \<open>\<open>1 << uint(i)\<close> for an index below 64.\<close>

definition checkBodySchema ::
  "('t, 'o, 'a, 'f, 'r) env \<Rightarrow> gobytes \<Rightarrow> gobytes \<Rightarrow> ('t, 'o, 'a, 'f, 'r) tx \<Rightarrow> ('t, 'o, 'a, 'f, 'r) tx \<times> bool"
where
  "checkBodySchema E name v tx =
     (case tx_op tx of
        None \<Rightarrow> (tx, False)
      | Some op \<Rightarrow>
          if length (op_Body op) = 0 then (tx, False)
          else case FieldFor (op_Body op) name of
            None \<Rightarrow> (if op_Strict op then note_violation ViolationUndeclared name tx else tx, False)
          | Some f \<Rightarrow>
              let tx = (case IndexFor (op_Body op) name of
                  Some i \<Rightarrow> if i < 64 then tx\<lparr>tx_bodySeen := or (tx_bodySeen tx) (push_bit i 1)\<rparr> else tx
                | None \<Rightarrow> tx);
                  viol = Validate (e_float E) f v
              in if viol \<noteq> ViolationNone then (note_violation viol name tx, False)
                 else (tx, Inert f))"

text \<open>A leaf of a structured body: checked against the schema, then recorded.\<close>

definition record_leaf ::
  "('t, 'o, 'a, 'f, 'r) env \<Rightarrow> gobytes \<Rightarrow> gobytes \<Rightarrow> ('t, 'o, 'a, 'f, 'r) txn \<Rightarrow> ('t, 'o, 'a, 'f, 'r) txn"
where
  "record_leaf E name v p =
     (case checkBodySchema E name v (p_client p) of (tx, inert) \<Rightarrow>
        recordValueBytes TargetArgs name v inert (p\<lparr>p_client := tx\<rparr>))"

section \<open>Structured bodies\<close>

definition structured_emit :: "('t, 'o, 'a, 'f, 'r) env \<Rightarrow> ('t, 'o, 'a, 'f, 'r) tx emit" where
  "structured_emit E name v kind p =
     (if kind = LeafKey then (on_tx (recordArgName name v) p, True)
      else (record_leaf E name v p, True))"

text \<open>\<open>ParseJSON\<close> always returns (\<open>ParseJSON_total\<close>).\<close>

definition parseStructuredBody ::
  "('t, 'o, 'a, 'f, 'r) env \<Rightarrow> gobytes \<Rightarrow> content_kind \<Rightarrow> ('t, 'o, 'a, 'f, 'r) txn \<Rightarrow>
   ('t, 'o, 'a, 'f, 'r) txn \<times> bool"
where
  "parseStructuredBody E b kind p =
     (let p = reset_parser p in
      case (if kind = ContentJSON then
              (case ParseJSON (structured_emit E) b p of Some r \<Rightarrow> r | None \<Rightarrow> (p, None))
            else if kind = ContentXML then ParseXML (structured_emit E) b p
            else ParseForm (structured_emit E) b p) of
        (p, Some err) \<Rightarrow> (on_tx (\<lambda>tx. tx\<lparr>tx_bodyErr := Some err\<rparr>) p, False)
      | (p, None) \<Rightarrow> (p, True))"

section \<open>Multipart bodies\<close>

definition multipart_part :: "('t, 'o, 'a, 'f, 'r) tx emit_part" where
  "multipart_part info p =
     (let p = (if 0 < length (pi_ContentType info)
            then on_tx (recordFieldBytes TargetRequestHeaders (ascii ''content-type'')
                   (pi_ContentType info) False) p else p);
          p = (if 0 < length (pi_Charset info)
            then on_tx (recordFieldBytes TargetRequestHeaders (ascii ''charset'')
                   (pi_Charset info) False) p else p)
      in (p, True))"

definition multipart_emit :: "('t, 'o, 'a, 'f, 'r) env \<Rightarrow> ('t, 'o, 'a, 'f, 'r) tx emit" where
  "multipart_emit E name v kind p =
     (if kind = LeafKey then (on_tx (recordArgName name v) p, True)
      else
        let p = (if hasSuffixStr name (ascii ''.filename'')
              then on_tx (recordFieldBytes TargetFileNames name v False) p else p)
        in if IsBinary v then (ExtractText (file_run TargetArgs) name v p, True)
           else (record_leaf E name v p, True))"

definition parseMultipartBody ::
  "('t, 'o, 'a, 'f, 'r) env \<Rightarrow> gobytes \<Rightarrow> gobytes \<Rightarrow> ('t, 'o, 'a, 'f, 'r) txn \<Rightarrow>
   ('t, 'o, 'a, 'f, 'r) txn \<times> bool"
where
  "parseMultipartBody E b boundary p =
     (case ParseMultipart (Some multipart_part) (multipart_emit E) b boundary (reset_parser p) of
        (p, Some err) \<Rightarrow> (on_tx (\<lambda>tx. tx\<lparr>tx_bodyErr := Some err\<rparr>) p, False)
      | (p, None) \<Rightarrow> (p, True))"

section \<open>Unstructured bodies\<close>

definition decompress ::
  "('t, 'o, 'a, 'f, 'r) env \<Rightarrow> gobytes \<Rightarrow> ('t, 'o, 'a, 'f, 'r) tx \<Rightarrow> ('t, 'o, 'a, 'f, 'r) tx \<times> gobytes"
where
  "decompress E b tx =
     (let enc = DetectEncoding (tx_contentEncoding tx);
          enc = (if enc = EncodingNone \<and> SniffGzip b then EncodingGzip else enc)
      in if enc = EncodingNone then (tx, b)
      else if \<not> Decodable enc then (tx\<lparr>tx_undecodable := Some (BadEncoding enc None)\<rparr>, b)
      else case Decompress (e_codecs E) b enc (MaxBodySize (tx_limits tx)) of
        Inl e \<Rightarrow> (tx\<lparr>tx_undecodable := Some (BadEncoding enc (Some e))\<rparr>, b)
      | Inr out \<Rightarrow> (tx, out))"

definition itoaBytes :: "gobytes \<Rightarrow> int \<Rightarrow> gobytes" where
  "itoaBytes dst n = (if n \<le> 0 then dst @ [48] else dst @ decimal_loop (nat n) [])"

definition proto_emit :: "('t, 'o, 'a, 'f, 'r) env \<Rightarrow> ('t, 'o, 'a, 'f, 'r) tx emit" where
  "proto_emit E name v kind p =
     (case checkBodySchema E name v (p_client p) of (tx, inert) \<Rightarrow>
        (p\<lparr>p_client := recordFieldBytes TargetArgs name v inert tx\<rparr>, True))"

definition body_emit :: "('t, 'o, 'a, 'f, 'r) tx emit" where
  "body_emit name v kind p = (recordValueBytes TargetRequestBody name v False p, True)"

definition extract_body ::
  "gobytes \<Rightarrow> gobytes \<Rightarrow> ('t, 'o, 'a, 'f, 'r) txn \<Rightarrow> ('t, 'o, 'a, 'f, 'r) txn"
where
  "extract_body name b p = ExtractText body_emit name b p"

text \<open>A message of a gRPC body, number \<open>frame\<close>.\<close>

definition record_frame ::
  "('t, 'o, 'a, 'f, 'r) env \<Rightarrow> nat \<Rightarrow> gobytes \<Rightarrow> ('t, 'o, 'a, 'f, 'r) txn \<Rightarrow> ('t, 'o, 'a, 'f, 'r) txn"
where
  "record_frame E frame b p =
     (case (if SniffJSON b then parseStructuredBody E b ContentJSON p
            else if SniffXML b then (fst (parseStructuredBody E b ContentXML p), False)
            else (p, False)) of
        (p, True) \<Rightarrow> p
      | (p, False) \<Rightarrow>
          (case ParseProtobuf (proto_emit E) [] b (reset_parser p) of
             (p, True) \<Rightarrow> p
           | (p, False) \<Rightarrow>
               extract_body (itoaBytes (ascii ''body'' @ [35]) (int frame)) b (reset_parser p)))"

text \<open>\<open>None\<close> is the frame number -1, a body that is not framed.\<close>

definition recordText ::
  "('t, 'o, 'a, 'f, 'r) env \<Rightarrow> nat option \<Rightarrow> gobytes \<Rightarrow> ('t, 'o, 'a, 'f, 'r) txn \<Rightarrow>
   ('t, 'o, 'a, 'f, 'r) txn"
where
  "recordText E frame b p =
     (case frame of
        Some i \<Rightarrow> record_frame E i b p
      | None \<Rightarrow>
          if \<not> IsBinary b then on_tx (addValueBytes (plain_target TargetRequestBody) [] b) p
          else extract_body (ascii ''body'') b (reset_parser p))"

text \<open>A frame without a payload (nil) is one that could not be decoded or decoded to nothing.\<close>

fun record_frames ::
  "('t, 'o, 'a, 'f, 'r) env \<Rightarrow> nat \<Rightarrow> GRPCFrame list \<Rightarrow> ('t, 'o, 'a, 'f, 'r) txn \<Rightarrow>
   ('t, 'o, 'a, 'f, 'r) txn"
where
  "record_frames E i [] p = p"
| "record_frames E i (f # fs) p =
     (if Compressed f \<and> Payload f = [] then record_frames E (i + 1) fs p
      else record_frames E (i + 1) fs (recordText E (Some i) (Payload f) p))"

definition recordUnframed ::
  "('t, 'o, 'a, 'f, 'r) env \<Rightarrow> gobytes \<Rightarrow> ('t, 'o, 'a, 'f, 'r) txn \<Rightarrow> ('t, 'o, 'a, 'f, 'r) txn"
where
  "recordUnframed E b p =
     (if IsGRPCFramed b then
        let enc = DetectGRPCEncoding (tx_grpcEncoding (p_client p)) in
        case UnframeGRPC (e_codecs E) b enc (MaxBodySize (tx_limits (p_client p))) of (frames, err) \<Rightarrow>
          let p = (case err of
              None \<Rightarrow> p
            | Some e \<Rightarrow> on_tx (\<lambda>tx. if tx_undecodable tx = None
                then tx\<lparr>tx_undecodable := Some (BadFrame enc e)\<rparr> else tx) p)
          in if 0 < length frames then record_frames E 0 frames p else recordText E None b p
      else recordText E None b p)"

definition recordBody ::
  "('t, 'o, 'a, 'f, 'r) env \<Rightarrow> gobytes \<Rightarrow> ('t, 'o, 'a, 'f, 'r) txn \<Rightarrow> ('t, 'o, 'a, 'f, 'r) txn"
where
  "recordBody E b p =
     (if IsBase64Body b then
        (case DecodeBase64 b of
           Some decoded \<Rightarrow>
             if 0 < length decoded
             then on_tx (addValueBytes (plain_target TargetRequestBody) [] b) (recordUnframed E decoded p)
             else recordUnframed E b p
         | None \<Rightarrow> recordUnframed E b p)
      else recordUnframed E b p)"

section \<open>The body\<close>

text \<open>The body of a request that declares no multipart type: \<open>True\<close> when a parser has read it.\<close>

definition parse_by_type ::
  "('t, 'o, 'a, 'f, 'r) env \<Rightarrow> gobytes \<Rightarrow> ('t, 'o, 'a, 'f, 'r) txn \<Rightarrow> ('t, 'o, 'a, 'f, 'r) txn \<times> bool"
where
  "parse_by_type E b p =
     (case DetectContent (tx_contentType (p_client p)) of
        ContentJSON \<Rightarrow> parseStructuredBody E b ContentJSON p
      | ContentXML \<Rightarrow> (fst (parseStructuredBody E b ContentXML p), False)
      | ContentForm \<Rightarrow>
          (case (if SniffJSON b then parseStructuredBody E b ContentJSON p else (p, False)) of
             (p, True) \<Rightarrow> (p, True)
           | (p, False) \<Rightarrow> parseStructuredBody E b ContentForm p)
      | ContentUnknown \<Rightarrow>
          (case (if SniffJSON b then parseStructuredBody E b ContentJSON p else (p, False)) of
             (p, True) \<Rightarrow> (p, True)
           | (p, False) \<Rightarrow>
               (if SniffXML b then fst (parseStructuredBody E b ContentXML p) else p, False)))"

definition SetRequestBody ::
  "('t, 'o, 'a, 'f, 'r) env \<Rightarrow> gobytes \<Rightarrow> ('t, 'o, 'a, 'f, 'r) txn \<Rightarrow> ('t, 'o, 'a, 'f, 'r) txn"
where
  "SetRequestBody E b p =
     (let p = on_tx (\<lambda>tx. if tx_bodyStart tx < 0
            then tx\<lparr>tx_bodyStart := int (length (tx_values tx))\<rparr> else tx) p;
          p = on_tx (\<lambda>tx. tx\<lparr>tx_bodyLen := length b\<rparr>) p
      in if MaxBodySize (tx_limits (p_client p)) < int (length b) then p
      else case decompress E b (p_client p) of (tx, b) \<Rightarrow>
        let p = p\<lparr>p_client := tx\<rparr> in
        case Boundary (tx_contentType (p_client p)) of
          Some boundary \<Rightarrow>
            (case (if 0 < length boundary then parseMultipartBody E b boundary p else (p, False)) of
               (p, True) \<Rightarrow> p
             | (p, False) \<Rightarrow>
                 let p = (if length boundary = 0 \<and> tx_bodyErr (p_client p) = None
                      then on_tx (\<lambda>tx. tx\<lparr>tx_bodyErr := Some ErrNoBoundary\<rparr>) p else p)
                 in on_tx (addValueBytes (plain_target TargetRequestBody) [] b) p)
        | None \<Rightarrow>
            (case (case SniffMultipart b of
                     Some sniffed \<Rightarrow> parseMultipartBody E b sniffed p
                   | None \<Rightarrow> (p, False)) of
               (p, True) \<Rightarrow> p
             | (p, False) \<Rightarrow>
                 (case parse_by_type E b p of
                    (p, True) \<Rightarrow> p
                  | (p, False) \<Rightarrow> recordBody E b p)))"

section \<open>Resolvers\<close>

text \<open>The pairs of one resolver, up to the argument limit, under its name and theirs.\<close>

definition resolved_pair ::
  "gobytes \<Rightarrow> gobytes \<times> gobytes \<Rightarrow> ('t, 'o, 'a, 'f, 'r) txn \<Rightarrow> ('t, 'o, 'a, 'f, 'r) txn"
where
  "resolved_pair name = (\<lambda>(key, v) p.
     let qualified = name @ (if key \<noteq> [] then [46] @ key else [])
     in recordValueBytes TargetResolved qualified v False p)"

definition run_resolver ::
  "('t, 'o, 'a, 'f, 'r) env \<Rightarrow> phase \<Rightarrow> nat \<Rightarrow> ('t, 'o, 'a, 'f, 'r) txn \<Rightarrow> ('t, 'o, 'a, 'f, 'r) txn"
where
  "run_resolver E phase i p =
     (let tx = p_client p; (r, finished) = tx_resolvers tx ! i; name = e_resName E r in
      if finished then p
      else if \<not> NeedsResolver (tx_rs tx) phase name then p
      else
        let p = on_tx (\<lambda>tx. tx\<lparr>tx_resolvers := (tx_resolvers tx)[i := (r, True)]\<rparr>) p
        in fold (resolved_pair name) (take (nat (MaxArgs (tx_limits tx))) (e_resolve E r)) p)"

definition runResolvers ::
  "('t, 'o, 'a, 'f, 'r) env \<Rightarrow> phase \<Rightarrow> ('t, 'o, 'a, 'f, 'r) txn \<Rightarrow> ('t, 'o, 'a, 'f, 'r) txn"
where
  "runResolvers E phase p =
     fold (run_resolver E phase) [0..<length (tx_resolvers (p_client p))] p"

end
