(* ===== verification/TransactionRun.thy ===== *)
theory TransactionRun
  imports TransactionBody
begin

text \<open>
  Deciding (transaction.go): the phases, exceptions, the verdicts, the derived views of views.go and
  the response. \<open>None\<close> in a phase is an evaluation that does not end, which no compiled ruleset has.
\<close>

section \<open>Finishing\<close>

definition finish ::
  "('t, 'o, 'a) decision \<Rightarrow> ('t, 'o, 'a, 'f, 'r) tx \<Rightarrow> ('t, 'o, 'a, 'f, 'r) tx \<times> ('t, 'o, 'a) decision"
where
  "finish d tx =
     (let d = d\<lparr>d_path := tx_reqPath tx\<rparr>;
          tx = tx\<lparr>tx_decided := True, tx_decision := d\<rparr>;
          tx = (if cfg_onDecide (tx_cfg tx) then tx\<lparr>tx_told := tx_told tx @ [d]\<rparr> else tx)
      in (tx, d))"

definition tx_Decision :: "('t, 'o, 'a, 'f, 'r) tx \<Rightarrow> ('t, 'o, 'a) decision" where
  "tx_Decision tx =
     (if tx_decided tx then tx_decision tx else allow ReasonNoMatch (tx_score tx) (tx_evaluated tx))"

text \<open>What every decision starts from: no verdict yet, the configured status, the score so far.\<close>

definition base_decision ::
  "reason \<Rightarrow> ('t, 'o, 'a, 'f, 'r) tx \<Rightarrow> ('t, 'o, 'a) decision"
where
  "base_decision why tx =
     decision_zero\<lparr>d_reason := why, d_score := tx_score tx, d_status := cfg_blockCode (tx_cfg tx),
       d_rulesEvaluated := tx_evaluated tx\<rparr>"

text \<open>Blocked when the fail mode is closed and the firewall blocks.\<close>

definition by_fail_mode ::
  "('t, 'o, 'a) decision \<Rightarrow> ('t, 'o, 'a, 'f, 'r) tx \<Rightarrow> ('t, 'o, 'a) decision"
where
  "by_fail_mode d tx =
     (if cfg_failMode (tx_cfg tx) = FailClosed \<and> cfg_mode (tx_cfg tx) = Blocking
      then d\<lparr>d_verdict := VerdictBlock\<rparr> else d)"

text \<open>Blocked unless the firewall only detects.\<close>

definition by_mode ::
  "('t, 'o, 'a) decision \<Rightarrow> ('t, 'o, 'a, 'f, 'r) tx \<Rightarrow> ('t, 'o, 'a) decision"
where
  "by_mode d tx =
     (let d = d\<lparr>d_verdict := VerdictBlock\<rparr>
      in if cfg_mode (tx_cfg tx) = DetectionOnly then d\<lparr>d_verdict := VerdictAllow\<rparr> else d)"

definition budgetExhausted ::
  "('t, 'o, 'a, 'f, 'r) tx \<Rightarrow> ('t, 'o, 'a, 'f, 'r) tx \<times> ('t, 'o, 'a) decision"
where
  "budgetExhausted tx = finish (by_fail_mode (base_decision ReasonBudget tx) tx) tx"

definition tx_undecidable_input ::
  "gobytes \<Rightarrow> ('t, 'o, 'a, 'f, 'r) tx \<Rightarrow> ('t, 'o, 'a, 'f, 'r) tx \<times> ('t, 'o, 'a) decision"
where
  "tx_undecidable_input why tx =
     finish (by_fail_mode ((base_decision ReasonUndecidable tx)\<lparr>d_detail := Text why\<rparr>) tx) tx"

definition framingAmbiguous ::
  "('t, 'o, 'a, 'f, 'r) tx \<Rightarrow> ('t, 'o, 'a, 'f, 'r) tx \<times> ('t, 'o, 'a) decision"
where
  "framingAmbiguous tx =
     finish (by_mode ((base_decision ReasonDesync tx)\<lparr>d_detail := Text (tx_framingConflict tx)\<rparr>) tx) tx"

definition undecodableBody ::
  "undecodable \<Rightarrow> ('t, 'o, 'a, 'f, 'r) tx \<Rightarrow> ('t, 'o, 'a, 'f, 'r) tx \<times> ('t, 'o, 'a) decision"
where
  "undecodableBody why tx =
     finish (by_fail_mode ((base_decision ReasonUndecidable tx)\<lparr>d_detail := Undecoded why\<rparr>) tx) tx"

definition oversizeExceeded ::
  "('t, 'o, 'a, 'f, 'r) tx \<Rightarrow> ('t, 'o, 'a, 'f, 'r) tx \<times> ('t, 'o, 'a) decision"
where
  "oversizeExceeded tx =
     finish (by_fail_mode ((base_decision ReasonLimit tx)\<lparr>d_detail :=
       Oversized (tx_oversizeKey tx) (tx_oversizeLen tx) (lim_MaxValueLen (tx_limits tx))\<rparr>) tx) tx"

definition limitExceeded ::
  "('t, 'o, 'a, 'f, 'r) tx \<Rightarrow> ('t, 'o, 'a, 'f, 'r) tx \<times> ('t, 'o, 'a) decision"
where
  "limitExceeded tx = finish (by_fail_mode (base_decision ReasonLimit tx) tx) tx"

definition schemaViolation ::
  "('t, 'o, 'a, 'f, 'r) tx \<Rightarrow> (('t, 'o, 'a, 'f, 'r) tx \<times> ('t, 'o, 'a) decision) option"
where
  "schemaViolation tx =
     (if tx_violation tx = ViolationNone then None
      else Some (finish (by_mode ((base_decision ReasonSchema tx)\<lparr>d_detail :=
        SchemaDetail (tx_violation tx) (tx_violatedAt tx)\<rparr>) tx) tx))"

section \<open>Exceptions\<close>

text \<open>The hits that remain, the score that remains, and whether the outcome is still terminal.\<close>

definition except_hit ::
  "exception list \<Rightarrow> gobytes \<Rightarrow> ('t, 'o, 'a) hit \<Rightarrow> ('t, 'o, 'a) hit list \<times> int \<times> bool \<Rightarrow>
   ('t, 'o, 'a) hit list \<times> int \<times> bool"
where
  "except_hit xs path h = (\<lambda>(kept, score, terminal).
     let r = cr_Rule (h_Rule h) in
     if Suppresses xs (ID r) (DerivedFrom r) path (h_Target h) (h_Key h) \<noteq> None then
       (kept,
        if out_Kind (h_Outcome h) = ActionScore
        then wrap64 (score - (if out_Score (h_Outcome h) = 0 then severity_Score (Severity r)
          else out_Score (h_Outcome h)))
        else score,
        if outcome_Terminal (h_Outcome h) then False else terminal)
     else (kept @ [h], score, terminal))"

definition applyExceptions ::
  "('t, 'o, 'a, 'f, 'r) tx \<Rightarrow> ('t, 'o, 'a, 'f, 'r) tx"
where
  "applyExceptions tx =
     (let xs = cfg_exceptions (tx_cfg tx); res = tx_result tx in
      if length xs = 0 \<or> length (r_Hits res) = 0 then tx
      else case fold (except_hit xs (tx_reqPath tx)) (r_Hits res) ([], r_Score res, r_Terminal res) of
        (kept, score, terminal) \<Rightarrow>
          tx\<lparr>tx_result := res\<lparr>r_Hits := kept, r_Terminal := terminal,
            r_Score := (if score < 0 then 0 else score)\<rparr>\<rparr>)"

section \<open>The verdict on a rule\<close>

fun highest_loop ::
  "('t, 'o, 'a) hit list \<Rightarrow> ('t, 'o, 'a) compiled_rule option \<Rightarrow> ('t, 'o, 'a) compiled_rule option"
where
  "highest_loop [] best = best"
| "highest_loop (h # hs) best =
     highest_loop hs
       (case best of
          None \<Rightarrow> Some (h_Rule h)
        | Some b \<Rightarrow> if Severity (cr_Rule b) < Severity (cr_Rule (h_Rule h)) then Some (h_Rule h) else best)"

definition highestHit :: "('t, 'o, 'a, 'f, 'r) tx \<Rightarrow> ('t, 'o, 'a) compiled_rule option" where
  "highestHit tx = highest_loop (r_Hits (tx_result tx)) None"

text \<open>Compiled rules are compared by identity in the source; their ids are unique in a ruleset.\<close>

definition blockDecision ::
  "reason \<Rightarrow> int \<Rightarrow> ('t, 'o, 'a) compiled_rule option \<Rightarrow> ('t, 'o, 'a, 'f, 'r) tx \<Rightarrow> ('t, 'o, 'a) decision"
where
  "blockDecision why status rule tx =
     (let d = decision_zero\<lparr>d_verdict := VerdictBlock, d_reason := why,
            d_status := (if status = 0 then cfg_blockCode (tx_cfg tx) else status),
            d_score := tx_score tx, d_rule := rule, d_rulesEvaluated := tx_evaluated tx\<rparr>;
          d = (case rule of
              None \<Rightarrow> d
            | Some r \<Rightarrow>
                (case find (\<lambda>h. h_Rule h = r) (r_Hits (tx_result tx)) of
                   None \<Rightarrow> d
                 | Some h \<Rightarrow> d\<lparr>d_hit := Some (h_Match h), d_target := h_Target h, d_key := h_Key h,
                     d_reading := h_Reading h, d_matchedBytes := h_Matched h,
                     d_derivedFrom := DerivedFrom (cr_Rule (h_Rule h))\<rparr>));
          d = (case tx_bodyParseFailed tx of
              Some e \<Rightarrow> d\<lparr>d_detail := NotStructured e\<rparr>
            | None \<Rightarrow> d)
      in if cfg_mode (tx_cfg tx) = DetectionOnly then d\<lparr>d_verdict := VerdictAllow\<rparr> else d)"

section \<open>A phase\<close>

definition refresh_value :: "arena \<Rightarrow> eval_value \<times> value_span \<Rightarrow> eval_value" where
  "refresh_value a = (\<lambda>(v, sp).
     v\<lparr>v_Key := arena_Resolve a (vs_key sp), v_Data := span_slice a (vs_data sp)\<rparr>)"

definition refreshValues :: "('t, 'o, 'a, 'f, 'r) tx \<Rightarrow> ('t, 'o, 'a, 'f, 'r) tx" where
  "refreshValues tx =
     tx\<lparr>tx_values := map (refresh_value (tx_arena tx)) (zip (tx_values tx) (tx_spans tx))\<rparr>"

text \<open>The values a phase evaluates.\<close>

definition phase_values :: "phase \<Rightarrow> ('t, 'o, 'a, 'f, 'r) tx \<Rightarrow> eval_value list" where
  "phase_values phase tx =
     (if PhaseResponseHeaders \<le> phase \<and> 0 \<le> tx_responseStart tx
      then drop (nat (tx_responseStart tx)) (tx_values tx)
      else if phase = PhaseRequestBody \<and> 0 < tx_bodyStart tx \<and> MirrorsOnly (tx_rs tx) phase
      then drop (nat (tx_bodyStart tx)) (tx_values tx)
      else tx_values tx)"

text \<open>What follows the evaluation: exceptions, the totals, and the decision.\<close>

definition decide_phase ::
  "('t, 'o, 'a, 'f, 'r) tx \<Rightarrow> ('t, 'o, 'a, 'f, 'r) tx \<times> ('t, 'o, 'a) decision"
where
  "decide_phase tx =
     (let tx = applyExceptions tx;
          res = tx_result tx;
          tx = tx\<lparr>tx_score := wrap64 (tx_score tx + r_Score res),
                  tx_evaluated := tx_evaluated tx + r_RulesEvaluated res\<rparr>
      in if r_Exhausted res then budgetExhausted tx
      else if r_Undecidable res then tx_undecidable_input (r_UndecidableReason res) tx
      else if r_Terminal res then
        (let out = r_TerminalOutcome res in
         if out_Kind out = ActionAllow then
           finish (decision_zero\<lparr>d_verdict := VerdictAllow, d_reason := ReasonRule,
             d_score := tx_score tx, d_rule := r_TerminalRule res, d_rulesEvaluated := tx_evaluated tx\<rparr>) tx
         else finish (blockDecision ReasonRule (out_Status out) (r_TerminalRule res) tx) tx)
      else if cfg_threshold (tx_cfg tx) \<le> tx_score tx
      then finish (blockDecision ReasonThreshold 0 (highestHit tx) tx) tx
      else (tx, allow ReasonNoMatch (tx_score tx) (tx_evaluated tx)))"

definition evaluate_phase ::
  "('t, 'o, 'a, 'f, 'r) env \<Rightarrow> phase \<Rightarrow> ('t, 'o, 'a, 'f, 'r) tx \<Rightarrow> ('t, 'o, 'a, 'f, 'r) tx option"
where
  "evaluate_phase E phase tx =
     map_option (\<lambda>s. tx\<lparr>tx_eval := es_ev s, tx_meter := es_meter s, tx_result := es_out s\<rparr>)
       (Eval (e_iface E) (e_score E) (tx_rs tx) phase (phase_values phase tx)
          \<lparr>es_ev = tx_eval tx, es_meter = tx_meter tx, es_out = result_Reset (tx_result tx)\<rparr>)"

type_synonym ('t, 'o, 'a, 'f, 'r) outcome_of =
  "(('t, 'o, 'a, 'f, 'r) txn \<times> ('t, 'o, 'a) decision) option"

text \<open>Run an operation of the transaction proper, whose parser stays as it is.\<close>

definition tx_returns ::
  "('t, 'o, 'a, 'f, 'r) txn \<Rightarrow> ('t, 'o, 'a, 'f, 'r) tx \<times> ('t, 'o, 'a) decision \<Rightarrow>
   ('t, 'o, 'a, 'f, 'r) outcome_of"
where
  "tx_returns p = (\<lambda>(tx, d). Some (p\<lparr>p_client := tx\<rparr>, d))"

definition runPhase ::
  "('t, 'o, 'a, 'f, 'r) env \<Rightarrow> phase \<Rightarrow> ('t, 'o, 'a, 'f, 'r) txn \<Rightarrow> ('t, 'o, 'a, 'f, 'r) outcome_of"
where
  "runPhase E phase p =
     (if tx_decided (p_client p) then Some (p, tx_decision (p_client p))
      else
        let p = runResolvers E phase (on_tx (\<lambda>tx. tx\<lparr>tx_phase := phase\<rparr>) p);
            p = on_tx refreshValues p
        in case evaluate_phase E phase (p_client p) of
          None \<Rightarrow> None
        | Some tx \<Rightarrow> tx_returns p (decide_phase tx))"

section \<open>Views of the request\<close>

definition queryCut :: "('t, 'o, 'a, 'f, 'r) tx \<Rightarrow> int" where
  "queryCut tx =
     (let fin = (if tx_queryEnd tx < 0 then int (length (tx_values tx)) else tx_queryEnd tx)
      in if 0 \<le> tx_bodyStart tx \<and> tx_bodyStart tx < fin then tx_bodyStart tx else fin)"

definition copy_arg ::
  "target_kind \<Rightarrow> nat \<Rightarrow> ('t, 'o, 'a, 'f, 'r) tx \<Rightarrow> ('t, 'o, 'a, 'f, 'r) tx"
where
  "copy_arg kind i tx =
     (let v = tx_values tx ! i; sp = tx_spans tx ! i in
      if Kind (v_Target v) \<noteq> TargetArgs then tx
      else appendValue \<lparr>Kind = kind, Name = Name (v_Target v)\<rparr> (vs_key sp) (vs_data sp) (v_Inert v) tx)"

definition copyArgs ::
  "int \<Rightarrow> int \<Rightarrow> target_kind \<Rightarrow> ('t, 'o, 'a, 'f, 'r) tx \<Rightarrow> ('t, 'o, 'a, 'f, 'r) tx"
where
  "copyArgs from fin kind tx = fold (copy_arg kind) [nat from..<nat fin] tx"

text \<open>The spans of the arguments among the first \<open>fin\<close> values.\<close>

definition arg_spans :: "nat \<Rightarrow> ('t, 'o, 'a, 'f, 'r) tx \<Rightarrow> span list" where
  "arg_spans fin tx =
     map (vs_data \<circ> snd) (filter (\<lambda>(v, sp). Kind (v_Target v) = TargetArgs)
       (take fin (zip (tx_values tx) (tx_spans tx))))"

definition joinArgs :: "nat \<Rightarrow> ('t, 'o, 'a, 'f, 'r) tx \<Rightarrow> ('t, 'o, 'a, 'f, 'r) tx" where
  "joinArgs fin tx =
     (let total = sum_list (map (unat \<circ> Len) (arg_spans fin tx)) in
      if total = 0 then tx
      else if lim_MaxValueLen (tx_limits tx) < int total
      then noteOversize (ascii (target_kind_String TargetArgsJoined)) total tx
      else case arena_Alloc (int total) (tx_arena tx) of (a, sp, ok) \<Rightarrow>
        if \<not> ok then tx\<lparr>tx_arena := a\<rparr>
        else
          let joined = concat (map (arena_Resolve a) (arg_spans fin tx));
              tx = tx\<lparr>tx_arena := arena_write (a_len (tx_arena tx)) (take total joined) a\<rparr>
          in appendValue (plain_target TargetArgsJoined) span_zero sp False tx)"

definition isCookieHeader :: "gobytes \<Rightarrow> bool" where
  "isCookieHeader name \<longleftrightarrow> length name = 6 \<and> map ascii_lower name = ascii ''cookie''"

definition trimOWSRange :: "gobytes \<Rightarrow> nat \<Rightarrow> nat \<Rightarrow> nat \<times> nat" where
  "trimOWSRange data start stop =
     (let mid = take (stop - start) (drop start data);
          start = start + length (takeWhile is_ows mid);
          stop = stop - length (takeWhile is_ows (rev (dropWhile is_ows mid)))
      in (start, stop))"

definition subSpan :: "span \<Rightarrow> nat \<Rightarrow> nat \<Rightarrow> span" where
  "subSpan base start stop = \<lparr>Off = Off base + of_nat start, Len = of_nat (stop - start)\<rparr>"

definition recordCookiePair ::
  "span \<Rightarrow> gobytes \<Rightarrow> nat \<Rightarrow> nat \<Rightarrow> ('t, 'o, 'a, 'f, 'r) tx \<times> nat \<Rightarrow>
   (('t, 'o, 'a, 'f, 'r) tx \<times> nat) \<times> bool"
where
  "recordCookiePair base data start stop = (\<lambda>(tx, k).
     case trimOWSRange data start stop of (start, stop) \<Rightarrow>
       if start = stop then ((tx, k), True)
       else if MaxArgs (tx_limits tx) < int (k + 1) then ((tx, k + 1), False)
       else
         let (nameEnd, valStart) =
               (case IndexByte (take (stop - start) (drop start data)) 61 of
                  Some j \<Rightarrow> (start + j, start + j + 1)
                | None \<Rightarrow> (stop, start));
             (nameStart, nameEnd) = trimOWSRange data start nameEnd;
             (valStart, valEnd) = trimOWSRange data valStart stop;
             name = subSpan base nameStart nameEnd;
             tx = appendValue (plain_target TargetRequestCookies) name (subSpan base valStart valEnd) False tx;
             tx = appendValue (plain_target TargetRequestCookieNames) name name False tx
         in ((tx, k + 1), True))"

text \<open>The pairs of one header, from position \<open>start\<close> on.\<close>

function cookie_loop ::
  "span \<Rightarrow> gobytes \<Rightarrow> nat \<Rightarrow> ('t, 'o, 'a, 'f, 'r) tx \<times> nat \<Rightarrow> (('t, 'o, 'a, 'f, 'r) tx \<times> nat) \<times> bool"
where
  "cookie_loop base data start s =
     (if start \<le> length data then
        let stop = start + length (takeWhile (\<lambda>c. c \<noteq> 59) (drop start data)) in
        case recordCookiePair base data start stop s of (s, ok) \<Rightarrow>
          if \<not> ok then (s, False) else cookie_loop base data (stop + 1) s
      else (s, True))"
  by pat_completeness auto
termination
  by (relation "measure (\<lambda>(base, data, start, s). Suc (length data) - start)") auto

declare cookie_loop.simps [simp del]

definition cookie_header ::
  "nat \<Rightarrow> ('t, 'o, 'a, 'f, 'r) tx \<times> nat \<Rightarrow> (('t, 'o, 'a, 'f, 'r) tx \<times> nat) \<times> bool"
where
  "cookie_header i = (\<lambda>(tx, k).
     let v = tx_values tx ! i in
     if Kind (v_Target v) \<noteq> TargetRequestHeaders \<or> \<not> isCookieHeader (v_Key v) then ((tx, k), True)
     else cookie_loop (vs_data (tx_spans tx ! i)) (v_bytes v) 0 (tx, k))"

definition recordCookies ::
  "nat \<Rightarrow> ('t, 'o, 'a, 'f, 'r) tx \<Rightarrow> ('t, 'o, 'a, 'f, 'r) tx \<times> bool"
where
  "recordCookies fin tx =
     (case iter_while cookie_header [0..<fin] (tx, 0) of ((tx, k), ok) \<Rightarrow> (tx, ok))"

definition deriveHeaderViews :: "('t, 'o, 'a, 'f, 'r) tx \<Rightarrow> ('t, 'o, 'a, 'f, 'r) tx \<times> bool" where
  "deriveHeaderViews tx =
     (if tx_headerViewsDone tx then (tx, True)
      else
        let tx = tx\<lparr>tx_headerViewsDone := True\<rparr>;
            fin = queryCut tx;
            tx = (if ruleset_Reads (tx_rs tx) TargetArgsGet then copyArgs 0 fin TargetArgsGet tx else tx)
        in if ruleset_Reads (tx_rs tx) TargetRequestCookies \<or> ruleset_Reads (tx_rs tx) TargetRequestCookieNames
           then recordCookies (nat fin) tx
           else (tx, True))"

definition deriveBodyViews :: "('t, 'o, 'a, 'f, 'r) tx \<Rightarrow> ('t, 'o, 'a, 'f, 'r) tx" where
  "deriveBodyViews tx =
     (if tx_bodyViewsDone tx then tx
      else
        let tx = tx\<lparr>tx_bodyViewsDone := True\<rparr>;
            fin = length (tx_values tx);
            tx = (if ruleset_Reads (tx_rs tx) TargetArgsPost
              then copyArgs (queryCut tx) (int fin) TargetArgsPost tx else tx)
        in if ruleset_Reads (tx_rs tx) TargetArgsJoined then joinArgs fin tx else tx)"

section \<open>The request phases\<close>

definition isZeroLength :: "gobytes \<Rightarrow> bool" where
  "isZeroLength v \<longleftrightarrow> v \<noteq> [] \<and> list_all (\<lambda>c. c = 48) v"

definition isBodylessMethod :: "gobytes \<Rightarrow> bool" where
  "isBodylessMethod m \<longleftrightarrow> equalFoldASCII m (ascii ''get'') \<or> equalFoldASCII m (ascii ''head'')"

text \<open>The conflicts that show only once all headers are in.\<close>

definition check_framing :: "('t, 'o, 'a, 'f, 'r) tx \<Rightarrow> ('t, 'o, 'a, 'f, 'r) tx" where
  "check_framing tx =
     (let tx = (if tx_transferEncoded tx \<and> 0 < tx_contentLengths tx
            then setFramingConflict (ascii ''both Content-Length and Transfer-Encoding present'') tx else tx)
      in if isBodylessMethod (tx_reqMethod tx) then
           (if tx_transferEncoded tx
            then setFramingConflict (ascii ''Transfer-Encoding on a '' @ tx_reqMethod tx @ ascii '' request'') tx
            else if 0 < tx_contentLengths tx \<and> tx_firstLength tx \<noteq> [] \<and> \<not> isZeroLength (tx_firstLength tx)
            then setFramingConflict (ascii ''Content-Length '' @ tx_firstLength tx @ ascii '' on a '' @
                   tx_reqMethod tx @ ascii '' request'') tx
            else tx)
         else tx)"

definition ProcessRequestHeaders ::
  "('t, 'o, 'a, 'f, 'r) env \<Rightarrow> ('t, 'o, 'a, 'f, 'r) txn \<Rightarrow> ('t, 'o, 'a, 'f, 'r) outcome_of"
where
  "ProcessRequestHeaders E p =
     (let tx = p_client p;
          tx = (if tx_queryEnd tx < 0 then tx\<lparr>tx_queryEnd := int (length (tx_values tx))\<rparr> else tx)
      in if MaxHeaders (tx_limits tx) < int (tx_headerCount tx) then tx_returns p (limitExceeded tx)
      else
        let tx = check_framing tx in
        if tx_framingConflict tx \<noteq> [] then tx_returns p (framingAmbiguous tx)
        else if tx_oversizeKey tx \<noteq> [] then tx_returns p (oversizeExceeded tx)
        else case schemaViolation tx of
          Some r \<Rightarrow> tx_returns p r
        | None \<Rightarrow>
            (case deriveHeaderViews tx of
               (tx, False) \<Rightarrow> tx_returns p (limitExceeded tx)
             | (tx, True) \<Rightarrow> runPhase E PhaseRequestHeaders (p\<lparr>p_client := tx\<rparr>)))"

definition body_violation :: "('t, 'o, 'a, 'f, 'r) tx \<Rightarrow> ('t, 'o, 'a, 'f, 'r) tx" where
  "body_violation tx =
     (case tx_op tx of
        None \<Rightarrow> tx
      | Some op \<Rightarrow>
          if tx_violation tx = ViolationNone then
            (let missing = MissingRequired (op_Body op) (tx_bodySeen tx) in
             if missing \<noteq> [] then tx\<lparr>tx_violation := ViolationMissing, tx_violatedAt := missing\<rparr> else tx)
          else tx)"

text \<open>A body sent to an operation that declares none is blocked in either mode.\<close>

definition unexpected_body ::
  "('t, 'o, 'a, 'f, 'r) tx \<Rightarrow> ('t, 'o, 'a, 'f, 'r) tx \<times> ('t, 'o, 'a) decision"
where
  "unexpected_body tx =
     finish (decision_zero\<lparr>d_verdict := VerdictBlock, d_reason := ReasonSchema,
       d_status := cfg_blockCode (tx_cfg tx),
       d_detail := Text (ascii ''body sent to an operation that declares none''),
       d_rulesEvaluated := tx_evaluated tx\<rparr>) tx"

definition ProcessRequestBody ::
  "('t, 'o, 'a, 'f, 'r) env \<Rightarrow> ('t, 'o, 'a, 'f, 'r) txn \<Rightarrow> ('t, 'o, 'a, 'f, 'r) outcome_of"
where
  "ProcessRequestBody E p =
     (let tx = p_client p in
      if MaxBodySize (tx_limits tx) < int (tx_bodyLen tx) then tx_returns p (limitExceeded tx)
      else if (case tx_op tx of None \<Rightarrow> False | Some op \<Rightarrow> op_NoBody op \<and> 0 < tx_bodyLen tx)
      then tx_returns p (unexpected_body tx)
      else
        let tx = body_violation tx in
        case schemaViolation tx of
          Some r \<Rightarrow> tx_returns p r
        | None \<Rightarrow>
            if MaxArgs (tx_limits tx) < int (tx_argCount tx) then tx_returns p (limitExceeded tx)
            else case deriveHeaderViews tx of
              (tx, False) \<Rightarrow> tx_returns p (limitExceeded tx)
            | (tx, True) \<Rightarrow>
                let tx = deriveBodyViews tx in
                if tx_oversizeKey tx \<noteq> [] then tx_returns p (oversizeExceeded tx)
                else case tx_undecodable tx of
                  Some why \<Rightarrow> tx_returns p (undecodableBody why tx)
                | None \<Rightarrow>
                    let tx = (case tx_bodyErr tx of
                        Some e \<Rightarrow> tx\<lparr>tx_bodyParseFailed := Some e\<rparr> | None \<Rightarrow> tx)
                    in runPhase E PhaseRequestBody (p\<lparr>p_client := tx\<rparr>))"

section \<open>The response\<close>

definition responseBodyKey :: gobytes where "responseBodyKey = ascii ''body''"

definition markResponse :: "('t, 'o, 'a, 'f, 'r) tx \<Rightarrow> ('t, 'o, 'a, 'f, 'r) tx" where
  "markResponse tx =
     (if tx_responseStart tx < 0 then tx\<lparr>tx_responseStart := int (length (tx_values tx))\<rparr> else tx)"

definition SetResponseStatus :: "int \<Rightarrow> ('t, 'o, 'a, 'f, 'r) tx \<Rightarrow> ('t, 'o, 'a, 'f, 'r) tx" where
  "SetResponseStatus status tx =
     recordString (plain_target TargetResponseStatus) [] (itoaBytes [] status) False (markResponse tx)"

fun declared_loop :: "gobytes \<Rightarrow> int \<Rightarrow> int \<Rightarrow> int" where
  "declared_loop [] lim n = n"
| "declared_loop (c # cs) lim n =
     (let n = n * 10 + uint (c - 48) in if lim < n then 0 else declared_loop cs lim n)"

definition declaredLength :: "gobytes \<Rightarrow> ('t, 'o, 'a, 'f, 'r) tx \<Rightarrow> int" where
  "declaredLength v tx =
     (let v = trimOWS v in
      if v = [] \<or> \<not> isAllDigits v then 0
      else declared_loop v (MaxBodySize (tx_limits tx)) 0)"

definition AddResponseHeader ::
  "gobytes \<Rightarrow> gobytes \<Rightarrow> ('t, 'o, 'a, 'f, 'r) tx \<Rightarrow> ('t, 'o, 'a, 'f, 'r) tx"
where
  "AddResponseHeader name v tx =
     (let tx = markResponse tx;
          tx = (if equalFoldASCII name (ascii ''content-length'')
            then tx\<lparr>tx_respDeclared := declaredLength v tx\<rparr> else tx);
          tx = addValue \<lparr>Kind = TargetResponseHeaders, Name = name\<rparr> name v tx
      in addValue (plain_target TargetResponseHeaderNames) name name tx)"

definition ProcessResponseHeaders ::
  "('t, 'o, 'a, 'f, 'r) env \<Rightarrow> ('t, 'o, 'a, 'f, 'r) txn \<Rightarrow> ('t, 'o, 'a, 'f, 'r) outcome_of"
where
  "ProcessResponseHeaders E p = runPhase E PhaseResponseHeaders (on_tx markResponse p)"

definition startResponseBody ::
  "nat \<Rightarrow> ('t, 'o, 'a, 'f, 'r) tx \<Rightarrow> ('t, 'o, 'a, 'f, 'r) tx \<times> bool"
where
  "startResponseBody first tx =
     (case arena_Append responseBodyKey (tx_arena tx) of (a, key, ok) \<Rightarrow>
        if \<not> ok then (tx\<lparr>tx_arena := a\<rparr>, False)
        else
          let tx = tx\<lparr>tx_arena := a, tx_respKeySpan := key\<rparr>
          in (tx\<lparr>tx_arena := fst (arena_Grow (max (tx_respDeclared tx) (int first)) (tx_arena tx))\<rparr>, True))"

definition appendResponseChunk ::
  "gobytes \<Rightarrow> ('t, 'o, 'a, 'f, 'r) tx \<Rightarrow> ('t, 'o, 'a, 'f, 'r) tx \<times> bool"
where
  "appendResponseChunk chunk tx =
     (let body = tx_respBodySpan tx in
      if 0 < Len body \<and> unat (span_End body) \<noteq> a_len (tx_arena tx) then
        (case arena_Alloc (int (unat (Len body) + length chunk)) (tx_arena tx) of (a, moved, ok) \<Rightarrow>
           if \<not> ok then (tx\<lparr>tx_arena := a\<rparr>, False)
           else (tx\<lparr>tx_arena := arena_write (a_len (tx_arena tx)) (arena_Resolve a body @ chunk) a,
                    tx_respBodySpan := moved\<rparr>, True))
      else
        (case arena_Append chunk (tx_arena tx) of (a, sp, ok) \<Rightarrow>
           if \<not> ok then (tx\<lparr>tx_arena := a\<rparr>, False)
           else if Len body = 0 then (tx\<lparr>tx_arena := a, tx_respBodySpan := sp\<rparr>, True)
           else (tx\<lparr>tx_arena := a, tx_respBodySpan := body\<lparr>Len := Len body + Len sp\<rparr>\<rparr>, True)))"

definition WriteResponseBody ::
  "gobytes \<Rightarrow> ('t, 'o, 'a, 'f, 'r) tx \<Rightarrow> ('t, 'o, 'a, 'f, 'r) tx \<times> ('t, 'o, 'a) decision"
where
  "WriteResponseBody chunk tx =
     (let tx = markResponse tx in
      if length chunk = 0 then (tx, tx_Decision tx)
      else
        let tx = tx\<lparr>tx_respBodyLen := tx_respBodyLen tx + length chunk\<rparr> in
        if MaxBodySize (tx_limits tx) < int (tx_respBodyLen tx)
        then limitExceeded (tx\<lparr>tx_respTruncated := True\<rparr>)
        else case (if Len (tx_respBodySpan tx) = 0 then startResponseBody (length chunk) tx else (tx, True)) of
          (tx, False) \<Rightarrow> limitExceeded (tx\<lparr>tx_respTruncated := True\<rparr>)
        | (tx, True) \<Rightarrow>
            (case appendResponseChunk chunk tx of
               (tx, False) \<Rightarrow> limitExceeded (tx\<lparr>tx_respTruncated := True\<rparr>)
             | (tx, True) \<Rightarrow> (tx, tx_Decision tx)))"

definition recordResponseBody :: "('t, 'o, 'a, 'f, 'r) tx \<Rightarrow> ('t, 'o, 'a, 'f, 'r) tx" where
  "recordResponseBody tx =
     (if lim_MaxValueLen (tx_limits tx) < uint (Len (tx_respBodySpan tx))
      then noteOversize responseBodyKey (unat (Len (tx_respBodySpan tx))) tx
      else appendValue (plain_target TargetResponseBody) (tx_respKeySpan tx) (tx_respBodySpan tx) False tx)"

definition ProcessResponseBody ::
  "('t, 'o, 'a, 'f, 'r) env \<Rightarrow> ('t, 'o, 'a, 'f, 'r) txn \<Rightarrow> ('t, 'o, 'a, 'f, 'r) outcome_of"
where
  "ProcessResponseBody E p =
     (let p = on_tx markResponse p in
      if tx_respTruncated (p_client p) then tx_returns p (limitExceeded (p_client p))
      else
        let p = (if 0 < Len (tx_respBodySpan (p_client p)) then on_tx recordResponseBody p else p)
        in runPhase E PhaseResponseBody p)"

section \<open>What a transaction reports\<close>

record reported_match =
  rm_RuleID :: rule_id
  rm_Msg :: gobytes
  rm_Severity :: severity
  rm_Confidence :: confidence
  rm_Target :: target
  rm_Key :: gobytes
  rm_Span :: span
  rm_Reading :: class_set
  rm_Score :: int

definition tx_Matches :: "('t, 'o, 'a, 'f, 'r) tx \<Rightarrow> reported_match list" where
  "tx_Matches tx =
     map (\<lambda>h. let r = cr_Rule (h_Rule h); score = out_Score (h_Outcome h) in
       \<lparr>rm_RuleID = ID r, rm_Msg = Msg r, rm_Severity = Severity r, rm_Confidence = Confidence r,
        rm_Target = h_Target h, rm_Key = h_Key h, rm_Span = m_Span (h_Match h), rm_Reading = h_Reading h,
        rm_Score = (if out_Kind (h_Outcome h) = ActionScore \<and> score = 0
          then severity_Score (Severity r) else score)\<rparr>)
       (r_Hits (tx_result tx))"

definition FuelSpent :: "('t, 'o, 'a, 'f, 'r) tx \<Rightarrow> fuel" where
  "FuelSpent tx = Spent (tx_meter tx)"

definition UndeclaredRoute :: "('t, 'o, 'a, 'f, 'r) tx \<Rightarrow> bool" where
  "UndeclaredRoute tx \<longleftrightarrow> cfg_schema (tx_cfg tx) \<noteq> None \<and> tx_op tx = None"

end
