(* ===== verification/Waf.thy ===== *)
theory Waf
  imports TransactionRun
begin

text \<open>
  A firewall (waf.go): its construction from options, its diagnostics, and where transactions come
  from. The core ruleset is an argument, as are Go's map iteration orders. The pool of transactions
  either has one that was closed or none: what it hands out is an argument too.
\<close>

section \<open>Diagnostics\<close>

record diagnostic =
  dg_ID :: rule_id
  dg_Msg :: gobytes
  dg_Reason :: string
  dg_Fix :: string

record ('t, 'o, 'a, 'f) waf =
  w_cfg :: "('t, 'o, 'a, 'f) config"
  w_ruleset :: "('t, 'o, 'a) ruleset"
  w_diags :: "diagnostic list"

definition off_origin_diagnostic :: "('t, 'o, 'a) rule \<Rightarrow> diagnostic" where
  "off_origin_diagnostic r = \<lparr>dg_ID = ID r, dg_Msg = Msg r,
     dg_Reason = ''no origins declared, so no destination can be shown to be off-origin; the request's own Host header is attacker-supplied and cannot stand in'',
     dg_Fix = ''gwaf.WithOrigins('' @ [CHR 0x22] @ ''your.host'' @ [CHR 0x22] @ '')''\<rparr>"

definition header_phase_diagnostic :: "('t, 'o, 'a) rule \<Rightarrow> diagnostic" where
  "header_phase_diagnostic r = \<lparr>dg_ID = ID r, dg_Msg = Msg r,
     dg_Reason = ''inspects arguments at the header phase only, so it sees the query string and not a form or JSON body'',
     dg_Fix = ''core.WithBodyPhase(rules.Set{...}) when adding the rule''\<rparr>"

fun readsArgValues :: "target list \<Rightarrow> bool" where
  "readsArgValues [] = False"
| "readsArgValues (t # ts) = (if Kind t = TargetArgs \<and> Name t = [] then True else readsArgValues ts)"

definition diagnose ::
  "('t, 'o, 'a) iface \<Rightarrow> ('t, 'o, 'a, 'f) config \<Rightarrow> ('t, 'o, 'a) rule list \<Rightarrow> diagnostic list"
where
  "diagnose I cfg rset =
     (let mirrored = map DerivedFrom (filter (\<lambda>r. DerivedFrom r \<noteq> 0) rset);
          off = (if length (cfg_origins cfg) = 0 then
              map off_origin_diagnostic (filter (\<lambda>r.
                oName I (rule_op r) = ascii ''off_origin_navigation_url'' \<or>
                oName I (rule_op r) = ascii ''off_origin_fetch_url'') rset)
            else [])
      in off @ map header_phase_diagnostic (filter (\<lambda>r.
           \<not> (Phase r \<noteq> PhaseRequestHeaders \<or> ID r \<in> set mirrored) \<and> readsArgValues (Targets r)) rset))"

definition Diagnostics :: "('t, 'o, 'a, 'f) waf \<Rightarrow> diagnostic list" where
  "Diagnostics w = w_diags w"

section \<open>Construction\<close>

definition selectByConfidence :: "('t, 'o, 'a) rule list \<Rightarrow> confidence \<Rightarrow> ('t, 'o, 'a) rule list" where
  "selectByConfidence rset least = filter (\<lambda>r. confidence_AtLeast (Confidence r) least) rset"

datatype new_error = BadOption exception_error | BadRuleset "rule_error list"

definition waf_New ::
  "('t, 'o, 'a) iface \<Rightarrow> (nat \<Rightarrow> nat \<Rightarrow> map_order) \<Rightarrow> ('t, 'o, 'a) rule list \<Rightarrow>
   ('t, 'o, 'a, 'f) option_fn option list \<Rightarrow> (new_error + ('t, 'o, 'a, 'f) waf) option"
where
  "waf_New I ords core opts =
     (let cfg = fold (\<lambda>opt c. case opt of None \<Rightarrow> c | Some f \<Rightarrow> f c) opts defaultConfig in
      case cfg_err cfg of
        Some e \<Rightarrow> Some (Inl (BadOption e))
      | None \<Rightarrow>
          let rset = cfg_ruleset cfg;
              rset = (if \<not> cfg_coreDisabled cfg then core @ rset else rset);
              rset = selectByConfidence rset (cfg_minConf cfg)
          in case Compile I ords rset False of
            None \<Rightarrow> None
          | Some (Inl errs) \<Rightarrow> Some (Inl (BadRuleset errs))
          | Some (Inr rs) \<Rightarrow>
              Some (Inr \<lparr>w_cfg = cfg, w_ruleset = rs, w_diags = diagnose I cfg rset\<rparr>))"

definition SwapRuleset ::
  "('t, 'o, 'a) ruleset option \<Rightarrow> ('t, 'o, 'a, 'f) waf \<Rightarrow> ('t, 'o, 'a, 'f) waf"
where
  "SwapRuleset rs w = (case rs of None \<Rightarrow> w | Some rs \<Rightarrow> w\<lparr>w_ruleset := rs\<rparr>)"

definition waf_Compile ::
  "('t, 'o, 'a) iface \<Rightarrow> (nat \<Rightarrow> nat \<Rightarrow> map_order) \<Rightarrow> ('t, 'o, 'a) rule list \<Rightarrow> ('t, 'o, 'a, 'f) waf \<Rightarrow>
   (rule_error list + ('t, 'o, 'a) ruleset) option"
where
  "waf_Compile I ords rset w = Compile I ords (selectByConfidence rset (cfg_minConf (w_cfg w))) False"

section \<open>Transactions\<close>

text \<open>The zero value of everything but the firewall and the evaluator.\<close>

definition newTransaction :: "('t, 'o, 'a, 'f) waf \<Rightarrow> ('t, 'o, 'a, 'f, 'r) txn" where
  "newTransaction w =
     \<lparr>p_path = [], p_pathStack = [], p_scratch = [], p_fields = 0,
      p_limits = \<lparr>MaxDepth = 0, MaxFields = 0, MaxKeyLen = 0, MaxValueLen = 0, MaxTotalSize = 0\<rparr>,
      p_client =
       \<lparr>tx_cfg = w_cfg w, tx_rs = w_ruleset w, tx_eval = NewEvaluator (w_ruleset w),
        tx_meter = \<lparr>remaining = 0, limit = 0, exhausted = False\<rparr>,
        tx_arena = \<lparr>a_store = [], a_len = 0, a_limit = 0\<rparr>, tx_reqPath = [],
        tx_values = [], tx_spans = [],
        tx_result = \<lparr>r_Hits = [], r_Score = 0, r_Terminal = False, r_TerminalOutcome = outcome_zero,
          r_TerminalRule = None, r_Exhausted = False, r_Undecidable = False,
          r_UndecidableReason = [], r_RulesEvaluated = 0\<rparr>,
        tx_score = 0, tx_evaluated = 0, tx_decided = False, tx_decision = decision_zero,
        tx_phase = 0, tx_headerCount = 0, tx_argCount = 0, tx_bodyLen = 0, tx_contentType = [],
        tx_contentEncoding = [], tx_grpcEncoding = [], tx_op = None, tx_bodyErr = None,
        tx_bodyParseFailed = None, tx_resolvers = [], tx_undecodable = None, tx_bodyStart = 0,
        tx_queryEnd = 0, tx_headerViewsDone = False, tx_bodyViewsDone = False, tx_responseStart = 0,
        tx_respBodySpan = span_zero, tx_respBodyLen = 0, tx_respTruncated = False,
        tx_respKeySpan = span_zero, tx_respDeclared = 0, tx_reqMethod = [], tx_contentLengths = 0,
        tx_firstLength = [], tx_transferEncoded = False, tx_framingConflict = [],
        tx_oversizeKey = [], tx_oversizeLen = 0, tx_violation = ViolationNone, tx_violatedAt = [],
        tx_bodySeen = 0, tx_told = []\<rparr>\<rparr>"

definition NewTransaction ::
  "('t, 'o, 'a, 'f, 'r) txn option \<Rightarrow> ('t, 'o, 'a, 'f) waf \<Rightarrow> ('t, 'o, 'a, 'f, 'r) txn"
where
  "NewTransaction pooled w =
     on_tx (tx_reset (w_ruleset w)) (case pooled of Some p \<Rightarrow> p | None \<Rightarrow> newTransaction w)"

text \<open>What \<open>Close\<close> leaves for the pool.\<close>

definition Close :: "('t, 'o, 'a, 'f, 'r) txn \<Rightarrow> ('t, 'o, 'a, 'f, 'r) txn" where
  "Close p = on_tx (\<lambda>tx. tx\<lparr>tx_values := [], tx_spans := [], tx_arena := arena_Reset (tx_arena tx)\<rparr>) p"

end
