(* ===== verification/BodyInvariant.thy ===== *)
theory BodyInvariant
  imports BodyJSONCorrect BodyBinary BodyXML BodyMultipart BodyProto
begin

text \<open>
  What a body parser does to its caller's state: nothing but what its callback does. An invariant of
  the state that the callback keeps is kept by every parser, however the parse ends.
\<close>

locale keeping =
  fixes P :: "'s \<Rightarrow> bool"
    and fn :: "'s emit"
  assumes emit: "P (p_client p) \<Longrightarrow> fn name v kind p = (p', cont) \<Longrightarrow> P (p_client p')"
begin

lemma pushPath_keeps: "pushPath name index p = (p', ok) \<Longrightarrow> p_client p' = p_client p"
  by (auto simp: pushPath_def Let_def)

lemma popPath_keeps: "p_client (popPath p) = p_client p"
  by (auto simp: popPath_def split: list.split)

lemma parser_emit_keeps: "P (p_client p) \<Longrightarrow> parser_emit fn v kind p = (p', r) \<Longrightarrow> P (p_client p')"
  by (auto simp: parser_emit_def Let_def split: if_splits prod.splits dest: emit [rotated])

lemma counted_keeps: "P (p_client p) \<Longrightarrow> counted fn name v kind p = (p', r) \<Longrightarrow> P (p_client p')"
  by (auto simp: counted_def Let_def split: if_splits prod.splits dest: emit [rotated])

subsection \<open>Forms\<close>

lemma emitPair_keeps: "P (p_client p) \<Longrightarrow> emitPair fn pair p = (p', r) \<Longrightarrow> P (p_client p')"
  by (auto simp: emitPair_def Let_def split: if_splits prod.splits sum.splits dest!: counted_keeps [rotated])

lemma semicolon_keeps: "P (p_client p) \<Longrightarrow> semicolon_loop fn pair p = (p', r) \<Longrightarrow> P (p_client p')"
proof (induction pair arbitrary: p rule: length_induct)
  case (1 pair)
  then show ?case
    by (subst (asm) (2) semicolon_loop.simps)
      (auto split: if_splits prod.splits option.splits dest: emitPair_keeps [rotated] cut_at_shorter [OF sym])
qed

lemma form_keeps: "P (p_client p) \<Longrightarrow> form_loop fn src p = (p', r) \<Longrightarrow> P (p_client p')"
proof (induction src arbitrary: p rule: length_induct)
  case (1 src)
  then show ?case
    by (subst (asm) (2) form_loop.simps)
      (auto split: if_splits prod.splits option.splits
        dest: emitPair_keeps [rotated] semicolon_keeps [rotated] cut_at_shorter [OF sym])
qed

lemma ParseForm_keeps: "P (p_client p) \<Longrightarrow> ParseForm fn src p = (p', r) \<Longrightarrow> P (p_client p')"
  by (auto simp: ParseForm_def split: if_splits dest: form_keeps [rotated])

subsection \<open>Text in binary\<close>

lemma flush_keeps:
  "P (p_client p) \<Longrightarrow> flush_run fn name data fin (p, start, runs) = ((p', s'), cont) \<Longrightarrow> P (p_client p')"
  by (auto simp: flush_run_def Let_def split: if_splits prod.splits dest: emit [rotated])

lemma extract_keeps: "P (p_client p) \<Longrightarrow> P (p_client (extract_loop fn name data i cs (p, start, runs)))"
proof (induction cs arbitrary: i p start runs)
  case Nil
  obtain p' s' cont where "flush_run fn name data (length data) (p, start, runs) = ((p', s'), cont)"
    by (metis prod.collapse)
  with flush_keeps [OF Nil this] show ?case by simp
next
  case (Cons c cs)
  obtain p' start' runs' cont where f: "flush_run fn name data i (p, start, runs) = ((p', start', runs'), cont)"
    by (metis prod.collapse)
  with Cons flush_keeps [OF Cons.prems f] show ?case by simp
qed

lemma ExtractText_keeps: "P (p_client p) \<Longrightarrow> P (p_client (ExtractText fn name data p))"
proof -
  assume "P (p_client p)"
  moreover have "p_client (fst (recoverWideText data p)) = p_client p"
    by (auto simp: recoverWideText_def Let_def split: prod.split)
  ultimately show ?thesis
    by (cases "recoverWideText data p") (simp add: ExtractText_def Let_def extract_keeps)
qed

subsection \<open>JSON\<close>

lemma parseString_keeps: "parseString src p = (p', r) \<Longrightarrow> p_client p' = p_client p"
  by (auto simp: parseString_def split: list.splits if_splits sum.splits option.splits prod.splits)

lemma emit_leaf_keeps: "P (p_client p) \<Longrightarrow> emit_leaf fn kind vr p = (p', r) \<Longrightarrow> P (p_client p')"
  by (auto simp: emit_leaf_def split: prod.splits sum.splits dest: parser_emit_keeps [rotated])

lemma leaf_or_error_keeps: "P (p_client p) \<Longrightarrow> leaf_or_error fn kind o' p = (p', r) \<Longrightarrow> P (p_client p')"
  by (auto simp: leaf_or_error_def split: option.splits dest: emit_leaf_keeps [rotated])

lemma member_key_keeps:
  assumes "P (p_client p)" and "member_key fn src p = (p', r)"
  shows "P (p_client p')"
proof -
  have str: "P (p_client q)" if "parseString s p0 = (q, x)" "P (p_client p0)" for s p0 q x
    using that parseString_keeps [OF that(1)] by simp
  have push: "P (p_client q)" if "pushPath k b p0 = (q, ok)" "P (p_client p0)" for k b p0 q ok
    using that pushPath_keeps [OF that(1)] by simp
  show ?thesis
    using assms unfolding member_key_def
    by (auto simp: popPath_keeps split: list.splits if_splits sum.splits prod.splits
      dest!: str parser_emit_keeps [rotated] push)
qed

lemma parse_keeps:
  "(\<forall>src depth p p' r. P (p_client p) \<longrightarrow> parseValue n fn src depth p = Some (p', r) \<longrightarrow> P (p_client p')) \<and>
   (\<forall>src depth p p' r. P (p_client p) \<longrightarrow> object_loop n fn src depth p = Some (p', r) \<longrightarrow> P (p_client p')) \<and>
   (\<forall>idx src depth p p' r. P (p_client p) \<longrightarrow> array_loop n fn idx src depth p = Some (p', r) \<longrightarrow> P (p_client p'))"
proof (induction n)
  case (Suc n)
  then have pv: "\<And>src depth p p' r. P (p_client p) \<Longrightarrow> parseValue n fn src depth p = Some (p', r) \<Longrightarrow> P (p_client p')"
    and ol: "\<And>src depth p p' r. P (p_client p) \<Longrightarrow> object_loop n fn src depth p = Some (p', r) \<Longrightarrow> P (p_client p')"
    and al: "\<And>idx src depth p p' r. P (p_client p) \<Longrightarrow> array_loop n fn idx src depth p = Some (p', r) \<Longrightarrow> P (p_client p')"
    by blast+
  have leaf: "P (p_client p')" if "parseString src p = (q, Inr vr)" "emit_leaf fn kind vr q = (p', r)" "P (p_client p)"
    for src p q vr kind p' r
    using that parseString_keeps [of src p q "Inr vr"] emit_leaf_keeps [of q kind vr p' r] by simp
  have value_: "P (p_client p')" if "P (p_client p)" "parseValue (Suc n) fn src depth p = Some (p', r)" for src depth p p' r
    using that
    by (auto split: list.splits if_splits sum.splits prod.splits
      dest: parseString_keeps leaf leaf_or_error_keeps [rotated] ol [rotated] al [rotated])
  have object_: "P (p_client p')" if "P (p_client p)" "object_loop (Suc n) fn src depth p = Some (p', r)" for src depth p p' r
    using that
    by (auto simp: Let_def popPath_keeps split: list.splits if_splits sum.splits prod.splits option.splits
      dest!: member_key_keeps [rotated] pv [rotated] ol [rotated])
  have array_: "P (p_client p')" if "P (p_client p)" "array_loop (Suc n) fn idx src depth p = Some (p', r)" for idx src depth p p' r
    using that
    by (auto simp: Let_def popPath_keeps split: list.splits if_splits sum.splits prod.splits option.splits
      dest!: pushPath_keeps pv [rotated] al [rotated])
  from value_ object_ array_ show ?case by blast
qed auto

lemma parseValue_keeps: "P (p_client p) \<Longrightarrow> parseValue n fn src depth p = Some (p', r) \<Longrightarrow> P (p_client p')"
  using parse_keeps [of n] by blast

lemma ParseJSON_keeps: "P (p_client p) \<Longrightarrow> ParseJSON fn src p = Some (p', r) \<Longrightarrow> P (p_client p')"
  unfolding ParseJSON_def
  by (auto simp del: parseValue.simps split: list.splits if_splits sum.splits prod.splits option.splits
    dest!: parseValue_keeps [rotated])

subsection \<open>XML\<close>

lemma emit_attr_keeps: "P (p_client p) \<Longrightarrow> emit_attr fn attr v p = (p', r) \<Longrightarrow> P (p_client p')"
  by (auto simp: emit_attr_def Let_def split: if_splits prod.splits dest: parser_emit_keeps [rotated])

lemma attr_item_keeps:
  assumes "P (p_client p)" and "attr_item fn attr rest p = (p', r)"
  shows "P (p_client p')"
proof (cases "MaxKeyLen (p_limits p) < int (length attr)")
  case True
  with assms show ?thesis by (simp add: attr_item_def)
next
  case False
  obtain q x where e: "parser_emit fn attr LeafKey p = (q, x)" by fastforce
  note q = parser_emit_keeps [OF assms(1) e]
  obtain v rest' where v: "attr_value (dropWhile isXMLSpace (drop (Suc 0) (dropWhile isXMLSpace rest))) = (v, rest')"
    by fastforce
  obtain q' y where e': "emit_attr fn attr v q = (q', y)" by fastforce
  note q' = emit_attr_keeps [OF q e']
  show ?thesis
    using assms(2) False e q q'
    by (auto simp: attr_item_def v e' Let_def split: sum.splits bool.splits if_splits)
qed

lemma attr_loop_keeps: "P (p_client p) \<Longrightarrow> attr_loop fn src selfClosing p = (p', r) \<Longrightarrow> P (p_client p')"
proof (induction src arbitrary: p selfClosing rule: length_induct)
  case (1 src)
  show ?case
  proof (cases "dropWhile isXMLSpace src")
    case Nil
    with 1 show ?thesis by (subst (asm) attr_loop.simps) simp
  next
    case (Cons c cs)
    then have short: "length cs < length src" by (rule after_space_length)
    have IH: "P (p_client p')" if "suffix x cs" "P (p_client q)" "attr_loop fn x s q = (p', r)" for x s q
    proof -
      have "length x < length src" using short suffix_length_le [OF that(1)] by simp
      with "1.IH" that(2,3) show ?thesis by blast
    qed
    note eq = "1.prems"(2) [unfolded attr_loop.simps [of fn src], simplified Cons list.case Let_def]
    show ?thesis
    proof (cases "takeWhile attr_byte (c # cs) = []")
      case True
      with eq "1.prems"(1) IH [OF suffix_order.refl] show ?thesis by (auto split: if_splits)
    next
      case False
      obtain q x where item: "attr_item fn (takeWhile attr_byte (c # cs)) (dropWhile attr_byte (c # cs)) p = (q, x)"
        by fastforce
      note q = attr_item_keeps [OF "1.prems"(1) item]
      from item False have "suffix rest cs" if "x = Inr (Some rest)" for rest
        using attr_progress [of c cs fn _ p q rest] that by simp
      with eq item False q "1.prems"(1) IH show ?thesis
        by (auto simp del: takeWhile.simps dropWhile.simps split: if_splits sum.splits option.splits)
    qed
  qed
qed

lemma parseElement_keeps: "P (p_client p) \<Longrightarrow> parseElement fn src depth p = (p', r) \<Longrightarrow> P (p_client p')"
  unfolding parseElement_def Let_def
  by (auto simp: popPath_keeps split: if_splits prod.splits sum.splits bool.splits option.splits
    dest!: pushPath_keeps parser_emit_keeps [rotated] attr_loop_keeps [rotated])

lemma emit_text_keeps: "P (p_client p) \<Longrightarrow> emit_text fn v depth p = (p', r) \<Longrightarrow> P (p_client p')"
  by (auto simp: emit_text_def split: if_splits dest: parser_emit_keeps [rotated])

lemma xml_step_keeps: "P (p_client p) \<Longrightarrow> xml_step fn src depth p = (p', r) \<Longrightarrow> P (p_client p')"
  unfolding xml_step_def Let_def
  by (auto simp: popPath_keeps simp del: ascii_simps split: if_splits prod.splits sum.splits bool.splits option.splits
    dest: emit_text_keeps [rotated] parseElement_keeps [rotated])

lemma xml_loop_keeps: "P (p_client p) \<Longrightarrow> xml_loop fn src depth p = (p', r) \<Longrightarrow> P (p_client p')"
proof (induction src arbitrary: p depth rule: length_induct)
  case (1 src)
  show ?case
  proof (cases src)
    case Nil
    with 1 show ?thesis by (simp add: xml_loop.simps)
  next
    case (Cons c cs)
    obtain q x where step: "xml_step fn src depth p = (q, x)" by fastforce
    note q = xml_step_keeps [OF "1.prems"(1) step]
    have short: "length rest < length src" if "x = Inr (Some (rest, d))" for rest d
      using xml_step_suffix [of fn c cs depth p q rest d] step that Cons by (auto dest: suffix_length_le)
    have IH: "P (p_client p')" if "x = Inr (Some (rest, d))" "xml_loop fn rest d q = (p', r)" for rest d
      using "1.IH" short [OF that(1)] q that(2) by blast
    show ?thesis
      using "1.prems"(2) q step Cons IH by (subst (asm) xml_loop.simps) (auto split: sum.splits option.splits)
  qed
qed

lemma ParseXML_keeps: "P (p_client p) \<Longrightarrow> ParseXML fn src p = (p', r) \<Longrightarrow> P (p_client p')"
  by (auto simp: ParseXML_def split: if_splits dest: xml_loop_keeps [rotated])

subsection \<open>Protobuf\<close>

lemma walk_keeps: "P (p_client p) \<Longrightarrow> P (p_client (fst (walkProtobuf fn data depth p)))"
proof (induction data arbitrary: depth p rule: length_induct)
  case (1 data)
  have mark: "p_client (fst (at_mark k x)) = p_client (fst x)" for k x by (simp add: at_mark_def split: prod.split)
  have IH: "P (p_client q')" if "walkProtobuf fn d k q = (q', b)" "length d < length data" "P (p_client q)" for d k q q' b
    using "1.IH" that by (metis fst_conv)
  have field: "P (p_client q')" if "fn name v kind q = (q', b)" "P (p_client q)" for name v kind q q' b
    using emit that by blast
  show ?case
  proof (cases "maxProtoDepth < depth \<or> data = []")
    case True
    with "1.prems" show ?thesis by (subst walkProtobuf.simps) auto
  next
    case False
    then have now: "\<not> maxProtoDepth < depth" "data \<noteq> []" by auto
    obtain key n where rd: "readVarint data = (key, n)" by fastforce
    show ?thesis
    proof (cases "n = 0 \<or> next_field (and key 7) (drop n data) = None")
      case True
      with "1.prems" now rd show ?thesis by (subst walkProtobuf.simps) auto
    next
      case False
      then obtain v rest where nf: "n \<noteq> 0" "next_field (and key 7) (drop n data) = Some (v, rest)" by auto
      then have short: "length rest < length data" "\<And>w. v = Some w \<Longrightarrow> length w < length data"
        using next_field_shorter [OF nf(2)] by auto
      show ?thesis
      proof (cases v)
        case None
        with nf now rd short "1.prems" "1.IH" show ?thesis
          by (subst walkProtobuf.simps) simp
      next
        case (Some w)
        let ?q = "p\<lparr>p_fields := p_fields p + 1\<rparr>"
        let ?q' = "?q\<lparr>p_path := field_path (p_path ?q) (drop_bit 3 key)\<rparr>"
        let ?nested = "depth < maxProtoDepth \<and> (case scanProtobuf w (depth + 1) of (k, ok) \<Rightarrow> ok \<and> 0 < k)"
        obtain q1 b1 where w1: "(if ?nested then walkProtobuf fn w (depth + 1) ?q' else (?q', True)) = (q1, b1)"
          by fastforce
        have P1: "P (p_client q1)"
          using w1 "1.prems" IH [of w "depth + 1" ?q' q1 b1] short(2) [OF Some] by (auto split: if_splits)
        obtain q2 b2 where w2: "(if \<not> ?nested \<or> \<not> IsBinary w then fn (p_path q1) w LeafString q1 else (q1, True)) = (q2, b2)"
          by fastforce
        have P2: "P (p_client q2)" using w2 P1 field [of "p_path q1" w LeafString q1 q2 b2] by (auto split: if_splits)
        have P3: "P (p_client (fst (walkProtobuf fn rest depth (fst (at_mark k (q2, c))))))" for k c
          using P2 short(1) "1.IH" by (simp add: mark)
        show ?thesis
        proof (cases "MaxFields (p_limits ?q) < int (p_fields ?q)")
          case True
          with nf now rd Some "1.prems" show ?thesis by (subst walkProtobuf.simps) (simp add: Let_def)
        next
          case False
          have "walkProtobuf fn data depth p =
            (case (q1, b1) of
               (p', False) \<Rightarrow> at_mark (length (p_path ?q)) (p', False)
             | (p', True) \<Rightarrow>
                 (case (if \<not> ?nested \<or> \<not> IsBinary w then fn (p_path p') w LeafString p' else (p', True)) of
                    (p', False) \<Rightarrow> at_mark (length (p_path ?q)) (p', False)
                  | (p', True) \<Rightarrow> walkProtobuf fn rest depth (fst (at_mark (length (p_path ?q)) (p', True)))))"
            unfolding w1 [symmetric]
            by (subst walkProtobuf.simps)
              (simp only: now rd nf Some False Let_def prod.case option.case if_False simp_thms)
          with w2 P1 P2 P3 show ?thesis by (auto simp: mark split: bool.splits)
        qed
      qed
    qed
  qed
qed

lemma ParseProtobuf_keeps: "P (p_client p) \<Longrightarrow> ParseProtobuf fn pre data p = (p', r) \<Longrightarrow> P (p_client p')"
  using walk_keeps [of "p\<lparr>p_path := pre\<rparr>" data 0] by (auto simp: ParseProtobuf_def split: if_splits)

subsection \<open>Multipart\<close>

lemma emit_filename_keeps: "P (p_client p) \<Longrightarrow> emit_filename fn name file wanted p = (p', r) \<Longrightarrow> P (p_client p')"
  by (auto simp: emit_filename_def Let_def simp del: ascii_simps split: if_splits dest: counted_keeps [rotated])

lemma emit_part_fields_keeps:
  "P (p_client p) \<Longrightarrow> emit_part_fields fn name info content p = (p', r) \<Longrightarrow> P (p_client p')"
  unfolding emit_part_fields_def
  by (auto split: prod.splits sum.splits bool.splits dest!: counted_keeps [rotated] emit_filename_keeps [rotated])

end

text \<open>The multipart parser has a second callback, told of every part.\<close>

locale keeping_parts = keeping P fn for P :: "'s \<Rightarrow> bool" and fn :: "'s emit" +
  fixes onPart :: "'s emit_part option"
  assumes part: "onPart = Some f \<Longrightarrow> P (p_client p) \<Longrightarrow> f info p = (p', cont) \<Longrightarrow> P (p_client p')"
begin

lemma parsePart_keeps: "P (p_client p) \<Longrightarrow> parsePart onPart fn b idx p = (p', r) \<Longrightarrow> P (p_client p')"
  unfolding parsePart_def Let_def
  by (auto split: prod.splits if_splits bool.splits option.splits
    dest: emit_part_fields_keeps [rotated] dest!: part [rotated 2])

lemma multipart_keeps: "P (p_client p) \<Longrightarrow> multipart_loop onPart fn src dash i idx p = (p', r) \<Longrightarrow> P (p_client p')"
proof (induction "MaxParts - idx" arbitrary: p i idx rule: less_induct)
  case less
  note eq = less.prems(2) [unfolded multipart_loop.simps [of onPart fn src dash i idx p]]
  have IH: "P (p_client p')" if "\<not> MaxParts \<le> idx" "P (p_client q)"
    "multipart_loop onPart fn src dash j (idx + 1) q = (p', r)" for j q
    using less.hyps [OF _ that(2,3)] that(1) by simp
  show ?case
    using eq less.prems(1)
    by (auto simp: Let_def simp del: One_nat_def add_Suc_right Suc_eq_plus1 split: if_splits option.splits prod.splits
      dest: IH [rotated 2] parsePart_keeps [rotated])
qed

lemma ParseMultipart_keeps: "P (p_client p) \<Longrightarrow> ParseMultipart onPart fn src boundary p = (p', r) \<Longrightarrow> P (p_client p')"
  by (auto simp: ParseMultipart_def Let_def split: if_splits option.splits dest: multipart_keeps [rotated])

end

end
