(* ===== verification/TransactionKeeps.thy ===== *)
theory TransactionKeeps
  imports Waf BodyInvariant
begin

text \<open>
  What the operations that fill a transaction keep: an invariant that survives the recording of a
  value, and that looks at the stored values only, survives every way a request or a response becomes
  values, whatever the bytes.
\<close>

section \<open>What recording leaves alone\<close>

text \<open>Everything a recorded value does not touch.\<close>

definition beside_values :: "('t, 'o, 'a, 'f, 'r) tx \<Rightarrow> ('t, 'o, 'a, 'f, 'r) tx" where
  "beside_values tx = tx\<lparr>tx_arena := \<lparr>a_store = [], a_len = 0, a_limit = 0\<rparr>, tx_values := [],
     tx_spans := [], tx_oversizeKey := [], tx_oversizeLen := 0\<rparr>"

lemma beside_recordString [simp]:
  "beside_values (recordString target key v inert tx) = beside_values tx"
  by (auto simp: recordString_def noteOversize_def appendValue_def beside_values_def Let_def
    split: prod.splits)

lemma beside_add [simp]:
  "beside_values (addValue target key v tx) = beside_values tx"
  "beside_values (addValueInert target key v inert tx) = beside_values tx"
  "beside_values (addValueBytes target key v tx) = beside_values tx"
  "beside_values (recordBytes target key v inert tx) = beside_values tx"
  by (simp_all add: addValue_def addValueInert_def addValueBytes_def recordBytes_def)

lemma beside_sel:
  "tx_cfg (beside_values tx) = tx_cfg tx"
  "tx_rs (beside_values tx) = tx_rs tx"
  "tx_headerCount (beside_values tx) = tx_headerCount tx"
  "tx_contentLengths (beside_values tx) = tx_contentLengths tx"
  "tx_firstLength (beside_values tx) = tx_firstLength tx"
  "tx_transferEncoded (beside_values tx) = tx_transferEncoded tx"
  "tx_framingConflict (beside_values tx) = tx_framingConflict tx"
  "tx_reqMethod (beside_values tx) = tx_reqMethod tx"
  "tx_argCount (beside_values tx) = tx_argCount tx"
  "tx_op (beside_values tx) = tx_op tx"
  "tx_bodyStart (beside_values tx) = tx_bodyStart tx"
  "tx_decided (beside_values tx) = tx_decided tx"
  "tx_queryEnd (beside_values tx) = tx_queryEnd tx"
  "tx_eval (beside_values tx) = tx_eval tx"
  by (simp_all add: beside_values_def)

lemma beside_fields:
  assumes "beside_values tx = beside_values tx'"
  shows "tx_cfg tx = tx_cfg tx'"
    and "tx_rs tx = tx_rs tx'"
    and "tx_headerCount tx = tx_headerCount tx'"
    and "tx_contentLengths tx = tx_contentLengths tx'"
    and "tx_firstLength tx = tx_firstLength tx'"
    and "tx_transferEncoded tx = tx_transferEncoded tx'"
    and "tx_framingConflict tx = tx_framingConflict tx'"
    and "tx_reqMethod tx = tx_reqMethod tx'"
    and "tx_argCount tx = tx_argCount tx'"
    and "tx_op tx = tx_op tx'"
    and "tx_bodyStart tx = tx_bodyStart tx'"
    and "tx_decided tx = tx_decided tx'"
    and "tx_queryEnd tx = tx_queryEnd tx'"
    and "tx_eval tx = tx_eval tx'"
  using assms beside_sel by metis+

lemma beside_appendValue [simp]: "beside_values (appendValue target ks ds inert tx) = beside_values tx"
  by (simp add: appendValue_def beside_values_def)

lemma beside_arena [simp]: "beside_values (tx\<lparr>tx_arena := a\<rparr>) = beside_values tx"
  by (simp add: beside_values_def)

lemma beside_recordArgName [simp]: "beside_values (recordArgName parent key tx) = beside_values tx"
  by (simp add: recordArgName_def recordFieldBytes_def Let_def split: prod.split)

lemma beside_copyArgs [simp]: "beside_values (copyArgs start fin kind tx) = beside_values tx"
  unfolding copyArgs_def
  by (rule fold_preserves [where P = "\<lambda>s. beside_values s = beside_values tx"]) (simp_all add: copy_arg_def Let_def)

lemma beside_cookie_pair:
  "recordCookiePair base data start stop (tx, k) = ((tx', k'), ok) \<Longrightarrow> beside_values tx' = beside_values tx"
  by (auto simp: recordCookiePair_def Let_def split: prod.splits if_splits option.splits)

lemma beside_cookie_loop:
  "cookie_loop base data start (tx, k) = ((tx', k'), ok) \<Longrightarrow> beside_values tx' = beside_values tx"
proof (induction "Suc (length data) - start" arbitrary: start tx k rule: less_induct)
  case less
  show ?case
  proof (cases "start \<le> length data")
    case True
    let ?stop = "start + length (takeWhile (\<lambda>c. c \<noteq> 59) (drop start data))"
    obtain tx1 k1 ok1 where pair: "recordCookiePair base data start ?stop (tx, k) = ((tx1, k1), ok1)"
      by (metis prod.collapse)
    note b = beside_cookie_pair [OF pair]
    have step: "cookie_loop base data start (tx, k) =
        (if \<not> ok1 then ((tx1, k1), False) else cookie_loop base data (?stop + 1) (tx1, k1))"
      using True by (subst cookie_loop.simps) (simp add: Let_def pair)
    show ?thesis
    proof (cases ok1)
      case True
      have "Suc (length data) - (?stop + 1) < Suc (length data) - start" using \<open>start \<le> length data\<close> by simp
      from less.hyps [OF this] less.prems step True b show ?thesis by simp
    next
      case False
      with less.prems step b show ?thesis by auto
    qed
  next
    case False
    with less.prems show ?thesis by (subst (asm) cookie_loop.simps) simp
  qed
qed

lemma beside_cookies: "recordCookies fin tx = (tx', ok) \<Longrightarrow> beside_values tx' = beside_values tx"
proof -
  have "beside_values (fst (fst (cookie_header i s))) = beside_values (fst s)" for i and s :: "('a, 'b, 'c, 'd, 'e) tx \<times> nat"
    by (cases s; cases "fst (cookie_header i s)"; cases "cookie_header i s")
      (auto simp: cookie_header_def Let_def split: if_splits dest: beside_cookie_loop)
  then have "beside_values (fst (fst (iter_while cookie_header [0..<fin] (tx, 0)))) = beside_values tx"
    using iter_while_preserves [where P = "\<lambda>s. beside_values (fst s) = beside_values tx" and f = cookie_header] by simp
  then show "recordCookies fin tx = (tx', ok) \<Longrightarrow> ?thesis"
    by (auto simp: recordCookies_def split: prod.splits)
qed

lemma decided_of_beside: "beside_values tx = beside_values tx' \<Longrightarrow> tx_decided tx = tx_decided tx'"
  by (rule beside_fields(12))

lemma views_decided: "deriveHeaderViews tx = (tx', ok) \<Longrightarrow> tx_decided tx' = tx_decided tx"
proof -
  assume eq: "deriveHeaderViews tx = (tx', ok)"
  have copied: "tx_decided (copyArgs k fin kind s) = tx_decided s" for k fin kind and s :: "('a, 'b, 'c, 'd, 'e) tx"
    by (rule decided_of_beside) simp
  show ?thesis
    using eq
    by (auto simp: deriveHeaderViews_def Let_def copied split: if_splits
      dest!: beside_cookies [THEN decided_of_beside])
qed

lemma beside_joinArgs [simp]: "beside_values (joinArgs fin tx) = beside_values tx"
  by (auto simp: joinArgs_def Let_def noteOversize_def beside_values_def appendValue_def split: prod.split)

lemma bodyViews_decided: "tx_decided (deriveBodyViews tx) = tx_decided tx"
proof -
  have joined: "tx_decided (joinArgs fin s) = tx_decided s" for fin and s :: "('a, 'b, 'c, 'd, 'e) tx"
    by (rule decided_of_beside) simp
  have copied: "tx_decided (copyArgs k fin kind s) = tx_decided s" for k fin kind and s :: "('a, 'b, 'c, 'd, 'e) tx"
    by (rule decided_of_beside) simp
  show ?thesis by (simp add: deriveBodyViews_def Let_def joined copied)
qed

section \<open>What filling a transaction keeps\<close>

text \<open>What an invariant may look at.\<close>

definition stored :: "('t, 'o, 'a, 'f, 'r) tx \<Rightarrow>
    ('t, 'o, 'a, 'f) config \<times> eval_value list \<times> value_span list \<times> arena \<times> (span \<times> span) \<times> int \<times> int \<times> int \<times>
    ('t, 'o, 'a) ruleset \<times> 't evaluator" where
  "stored tx = (tx_cfg tx, tx_values tx, tx_spans tx, tx_arena tx, (tx_respBodySpan tx, tx_respKeySpan tx),
     tx_bodyStart tx, tx_queryEnd tx, tx_responseStart tx, tx_rs tx, tx_eval tx)"

locale recording =
  fixes I :: "('t, 'o, 'a, 'f, 'r) tx \<Rightarrow> bool"
  assumes rec: "I tx \<Longrightarrow> I (recordString target key v inert tx)"
    and rec_name: "I tx \<Longrightarrow> I (recordArgName parent key tx)"
    and mark_body: "I tx \<Longrightarrow> I (tx\<lparr>tx_bodyStart := int (length (tx_values tx))\<rparr>)"
    and mark_response: "I tx \<Longrightarrow> I (tx\<lparr>tx_responseStart := int (length (tx_values tx))\<rparr>)"
    and stored_only: "stored tx = stored tx' \<Longrightarrow> I tx = I tx'"
begin

lemma update [simp]:
  "I (tx\<lparr>tx_argCount := n\<rparr>) = I tx" "I (tx\<lparr>tx_reqPath := b\<rparr>) = I tx" "I (tx\<lparr>tx_reqMethod := b\<rparr>) = I tx"
  "I (tx\<lparr>tx_op := op\<rparr>) = I tx" "I (tx\<lparr>tx_violation := viol, tx_violatedAt := b\<rparr>) = I tx"
  "I (tx\<lparr>tx_headerCount := n\<rparr>) = I tx" "I (tx\<lparr>tx_contentType := b\<rparr>) = I tx"
  "I (tx\<lparr>tx_contentEncoding := b\<rparr>) = I tx" "I (tx\<lparr>tx_grpcEncoding := b\<rparr>) = I tx"
  "I (tx\<lparr>tx_contentLengths := n\<rparr>) = I tx" "I (tx\<lparr>tx_firstLength := b\<rparr>) = I tx"
  "I (tx\<lparr>tx_transferEncoded := c\<rparr>) = I tx" "I (tx\<lparr>tx_framingConflict := b\<rparr>) = I tx"
  "I (tx\<lparr>tx_resolvers := res\<rparr>) = I tx" "I (tx\<lparr>tx_bodySeen := seen\<rparr>) = I tx" "I (tx\<lparr>tx_bodyErr := err\<rparr>) = I tx"
  "I (tx\<lparr>tx_undecodable := why\<rparr>) = I tx" "I (tx\<lparr>tx_bodyLen := n\<rparr>) = I tx"
  "I (tx\<lparr>tx_respDeclared := k\<rparr>) = I tx" "I (tx\<lparr>tx_phase := ph\<rparr>) = I tx"
  "I (tx\<lparr>tx_oversizeKey := b, tx_oversizeLen := n\<rparr>) = I tx"
  "I (tx\<lparr>tx_bodyParseFailed := err\<rparr>) = I tx" "I (tx\<lparr>tx_respBodyLen := n\<rparr>) = I tx" "I (tx\<lparr>tx_respTruncated := c\<rparr>) = I tx"
  "I (tx\<lparr>tx_headerViewsDone := c\<rparr>) = I tx" "I (tx\<lparr>tx_bodyViewsDone := c\<rparr>) = I tx"
  by (rule stored_only, simp add: stored_def)+

lemma add:
  "I tx \<Longrightarrow> I (addValue target key v tx)" "I tx \<Longrightarrow> I (addValueInert target key v inert tx)"
  "I tx \<Longrightarrow> I (addValueBytes target key v tx)" "I tx \<Longrightarrow> I (recordBytes target key v inert tx)"
  "I tx \<Longrightarrow> I (recordFieldBytes kind key v inert tx)"
  by (simp_all add: addValue_def addValueInert_def addValueBytes_def recordBytes_def recordFieldBytes_def rec)

subsection \<open>The request line, the query, the headers\<close>

lemma note_violation: "I (note_violation viol b tx) = I tx"
  by (simp add: note_violation_def)

lemma checkSchema: "checkSchema E name v tx = (tx', c) \<Longrightarrow> I tx' = I tx"
  by (auto simp: checkSchema_def Let_def note_violation split: option.splits if_splits)

lemma AddArgument: "I tx \<Longrightarrow> I (AddArgument E name v tx)"
  by (auto simp: AddArgument_def Let_def intro!: add split: prod.split dest!: checkSchema)

lemma addQueryPair: "I tx \<Longrightarrow> I (addQueryPair E pair tx)"
  by (auto simp: addQueryPair_def AddArgument split: option.split)

lemma query_subpairs: "I tx \<Longrightarrow> I (query_subpairs E pair tx)"
proof (induction pair arbitrary: tx rule: length_induct)
  case (1 pair)
  then show ?case
    by (subst query_subpairs.simps) (auto simp: addQueryPair dest: cut_at_shorter [OF sym] split: prod.split)
qed

lemma query_loop: "I tx \<Longrightarrow> I (query_loop E query tx)"
proof (induction query arbitrary: tx rule: length_induct)
  case (1 query)
  then show ?case
    by (subst query_loop.simps)
      (auto simp: Let_def addQueryPair query_subpairs dest: cut_at_shorter [OF sym] split: prod.split)
qed

lemma join: "I tx \<Longrightarrow> I (joinDuplicateArgs tx)"
proof -
  assume I: "I tx"
  have "I tx \<Longrightarrow> I (join_step vs i tx)" for vs i tx
    by (auto simp: join_step_def Let_def add split: prod.split)
  then have "I tx \<Longrightarrow> I (fold (join_step vs) is tx)" for vs "is" tx by (induction "is" arbitrary: tx) auto
  with I show ?thesis by (simp add: joinDuplicateArgs_def Let_def)
qed

lemma SetRequestLine: "I tx \<Longrightarrow> I (SetRequestLine E m target proto tx)"
  by (auto simp: SetRequestLine_def Let_def addQueryArguments_def note_violation intro!: add join query_loop
    split: prod.split option.split)

lemma SetRemoteAddr: "I tx \<Longrightarrow> I (SetRemoteAddr addr tx)"
  by (simp add: SetRemoteAddr_def add)

lemma noteFraming: "I (noteFraming name v tx) = I tx"
  by (simp add: noteFraming_def setFramingConflict_def Let_def del: ascii_simps)

lemma AddRequestHeader: "I tx \<Longrightarrow> I (AddRequestHeader name v tx)"
  unfolding AddRequestHeader_def Let_def by (simp add: noteFraming add del: ascii_simps)

lemma AddResolver: "I (AddResolver r tx) = I tx"
  by (simp add: AddResolver_def split: option.split)

subsection \<open>Decoded values\<close>

lemma nested: "I tx \<Longrightarrow> I (recordNestedBase64 kind key v depth tx)"
proof (induction "maxBase64Depth - depth" arbitrary: v depth tx rule: less_induct)
  case less
  have IH: "I (recordNestedBase64 kind key w (depth + 1) tx')" if "\<not> maxBase64Depth \<le> depth" "I tx'" for w tx'
    using less.hyps [OF _ that(2), of "depth + 1"] that(1) by simp
  show ?case
    using less.prems IH
    by (subst recordNestedBase64.simps) (auto simp: add split: option.split)
qed

lemma file_run_keeping: "keeping I (file_run kind)"
  by unfold_locales (auto simp: file_run_def on_tx_def add)

lemma recordValueBytes: "I (p_client p) \<Longrightarrow> I (p_client (recordValueBytes kind key v inert p))"
  using keeping.ExtractText_keeps [OF file_run_keeping]
  by (auto simp: recordValueBytes_def on_tx_def Let_def add nested split: option.split)

lemma checkBodySchema: "checkBodySchema E name v tx = (tx', c) \<Longrightarrow> I tx' = I tx"
  by (auto simp: checkBodySchema_def Let_def note_violation split: option.splits if_splits)

lemma record_leaf: "I (p_client p) \<Longrightarrow> I (p_client (record_leaf E name v p))"
  by (auto simp: record_leaf_def intro!: recordValueBytes split: prod.split dest: checkBodySchema)

lemma structured_keeping: "keeping I (structured_emit E)"
  by unfold_locales (auto simp: structured_emit_def on_tx_def rec_name record_leaf split: if_splits)

lemma reset_parser: "p_client (reset_parser p) = p_client p"
  by (simp add: reset_parser_def Parser_Reset_def)

lemma parseStructuredBody: "I (p_client p) \<Longrightarrow> parseStructuredBody E b kind p = (p', ok) \<Longrightarrow> I (p_client p')"
proof -
  assume I: "I (p_client p)" and eq: "parseStructuredBody E b kind p = (p', ok)"
  let ?p = "reset_parser p"
  have I': "I (p_client ?p)" using I by (simp add: reset_parser)
  obtain q r where q: "(if kind = ContentJSON then (case ParseJSON (structured_emit E) b ?p of Some r \<Rightarrow> r | None \<Rightarrow> (?p, None))
      else if kind = ContentXML then ParseXML (structured_emit E) b ?p else ParseForm (structured_emit E) b ?p) = (q, r)"
    by fastforce
  have "I (p_client q)"
    using q I' keeping.ParseJSON_keeps [OF structured_keeping I', of E b] keeping.ParseXML_keeps [OF structured_keeping I', of E b]
      keeping.ParseForm_keeps [OF structured_keeping I', of E b]
    by (auto split: if_splits option.splits)
  with eq q show ?thesis
    by (auto simp: parseStructuredBody_def Let_def on_tx_def split: option.splits)
qed

lemma multipart_keeping: "keeping_parts I (multipart_emit E) (Some multipart_part)"
proof unfold_locales
  show "I (p_client p')" if "I (p_client p)" "multipart_emit E name v kind p = (p', cont)" for p name v kind p' cont
    using that keeping.ExtractText_keeps [OF file_run_keeping]
    by (auto simp: multipart_emit_def Let_def on_tx_def rec_name add record_leaf split: if_splits)
  show "I (p_client p')" if "Some multipart_part = Some f" "I (p_client p)" "f info p = (p', cont)" for f info p p' cont
    using that by (auto simp: multipart_part_def Let_def on_tx_def add)
qed

lemma parseMultipartBody: "I (p_client p) \<Longrightarrow> parseMultipartBody E b boundary p = (p', ok) \<Longrightarrow> I (p_client p')"
  using keeping_parts.ParseMultipart_keeps [OF multipart_keeping, of "reset_parser p" E b boundary]
  by (auto simp: parseMultipartBody_def on_tx_def reset_parser split: prod.splits option.splits)

lemma proto_keeping: "keeping I (proto_emit E)"
  by unfold_locales (auto simp: proto_emit_def add split: prod.splits dest!: checkBodySchema)

lemma body_keeping: "keeping I body_emit"
  by unfold_locales (auto simp: body_emit_def recordValueBytes)

lemma extract_body: "I (p_client p) \<Longrightarrow> I (p_client (extract_body name b p))"
  by (simp add: extract_body_def keeping.ExtractText_keeps [OF body_keeping])

lemma record_frame: "I (p_client p) \<Longrightarrow> I (p_client (record_frame E i b p))"
proof -
  assume I: "I (p_client p)"
  obtain q ok where q: "(if SniffJSON b then parseStructuredBody E b ContentJSON p
      else if SniffXML b then (fst (parseStructuredBody E b ContentXML p), False) else (p, False)) = (q, ok)" by fastforce
  have Iq: "I (p_client q)" using q I parseStructuredBody [OF I, of E b] by (auto split: if_splits) (metis prod.collapse)
  obtain q' ok' where q': "ParseProtobuf (proto_emit E) [] b (reset_parser q) = (q', ok')" by fastforce
  have "I (p_client q')"
    using keeping.ParseProtobuf_keeps [OF proto_keeping _ q'] Iq by (simp add: reset_parser)
  with Iq show ?thesis
    by (auto simp: record_frame_def q q' reset_parser intro!: extract_body split: bool.split)
qed

lemma recordText: "I (p_client p) \<Longrightarrow> I (p_client (recordText E frame b p))"
  by (auto simp: recordText_def record_frame on_tx_def reset_parser intro!: add extract_body split: option.split)

lemma record_frames: "I (p_client p) \<Longrightarrow> I (p_client (record_frames E i fs p))"
  by (induction fs arbitrary: i p) (auto simp: recordText)

lemma recordUnframed: "I (p_client p) \<Longrightarrow> I (p_client (recordUnframed E b p))"
  by (auto simp: recordUnframed_def Let_def on_tx_def intro!: record_frames recordText split: prod.split option.split)

lemma recordBody: "I (p_client p) \<Longrightarrow> I (p_client (recordBody E b p))"
  by (auto simp: recordBody_def on_tx_def intro!: add recordUnframed split: option.split)

lemma parse_by_type: "I (p_client p) \<Longrightarrow> parse_by_type E b p = (p', ok) \<Longrightarrow> I (p_client p')"
proof -
  assume I: "I (p_client p)" and eq: "parse_by_type E b p = (p', ok)"
  have J: "I (p_client (fst (parseStructuredBody E b kind q)))" if "I (p_client q)" for kind q
    using parseStructuredBody [OF that, of E b kind] by (metis prod.collapse)
  have S: "I (p_client q')" if "parseStructuredBody E b kind q = (q', ok')" "I (p_client q)" for kind q q' ok'
    using parseStructuredBody that by blast
  show ?thesis
    using eq I unfolding parse_by_type_def
    by (auto split: content_kind.splits prod.splits bool.splits if_splits dest!: S intro!: J)
qed

lemma decompress: "decompress E b tx = (tx', out) \<Longrightarrow> I tx' = I tx"
  by (auto simp: decompress_def Let_def split: if_splits sum.splits)

lemma SetRequestBody: "I (p_client p) \<Longrightarrow> I (p_client (SetRequestBody E b p))"
proof -
  assume I: "I (p_client p)"
  let ?p = "on_tx (\<lambda>tx. tx\<lparr>tx_bodyLen := length b\<rparr>)
    (on_tx (\<lambda>tx. if tx_bodyStart tx < 0 then tx\<lparr>tx_bodyStart := int (length (tx_values tx))\<rparr> else tx) p)"
  have I0: "I (p_client ?p)" using I mark_body [of "p_client p"] by (simp add: on_tx_def)
  obtain tx out where dec: "decompress E b (p_client ?p) = (tx, out)" by fastforce
  let ?q = "?p\<lparr>p_client := tx\<rparr>"
  have I1: "I (p_client ?q)" using decompress [OF dec] I0 by simp
  have mp: "I (p_client q)" if "parseMultipartBody E out bd ?q = (q, ok)" for bd q ok
    using parseMultipartBody [OF I1 that] .
  have ty: "I (p_client q)" if "parse_by_type E out r = (q, ok)" "I (p_client r)" for q r ok
    using parse_by_type that by blast
  have add': "I (p_client (on_tx (addValueBytes t k v) q)) = True" if "I (p_client q)" for t k v q
    using that by (simp add: on_tx_def add)
  have err: "I (p_client (if c then on_tx (\<lambda>tx. tx\<lparr>tx_bodyErr := e\<rparr>) q else q)) = I (p_client q)" for c e q
    by (simp add: on_tx_def)
  show ?thesis
  proof (cases "MaxBodySize (tx_limits (p_client ?p)) < int (length b)")
    case True
    then show ?thesis using I0 by (simp only: SetRequestBody_def Let_def if_True)
  next
    case False
    show ?thesis
    proof (cases "Boundary (tx_contentType (p_client ?q))")
      case None
      obtain q ok where q: "(case SniffMultipart out of Some sniffed \<Rightarrow> parseMultipartBody E out sniffed ?q | None \<Rightarrow> (?q, False)) = (q, ok)"
        by fastforce
      have Iq: "I (p_client q)" using q I1 mp by (auto split: option.splits)
      obtain q' ok' where q': "parse_by_type E out q = (q', ok')" by fastforce
      have Iq': "I (p_client q')" by (rule ty [OF q' Iq])
      have "SetRequestBody E b p = (if ok then q else if ok' then q' else recordBody E out q')"
        using False by (simp only: SetRequestBody_def Let_def if_False dec prod.case None option.case q q') (simp split: bool.split)
      with Iq Iq' show ?thesis by (simp add: recordBody)
    next
      case (Some bd)
      obtain q ok where q: "(if 0 < length bd then parseMultipartBody E out bd ?q else (?q, False)) = (q, ok)" by fastforce
      have Iq: "I (p_client q)" using q I1 mp by (auto split: if_splits)
      have "SetRequestBody E b p = (if ok then q else on_tx (addValueBytes (plain_target TargetRequestBody) [] out)
          (if length bd = 0 \<and> tx_bodyErr (p_client q) = None then on_tx (\<lambda>tx. tx\<lparr>tx_bodyErr := Some ErrNoBoundary\<rparr>) q else q))"
        using False by (simp only: SetRequestBody_def Let_def if_False dec prod.case Some option.case q) (simp split: bool.split)
      with Iq show ?thesis by (simp add: add' err)
    qed
  qed
qed

subsection \<open>Resolvers\<close>

lemma resolved_pairs: "I (p_client p) \<Longrightarrow> I (p_client (fold (resolved_pair name) pairs p))"
  by (induction pairs arbitrary: p) (auto simp: resolved_pair_def Let_def recordValueBytes split: prod.split)

lemma run_resolver: "I (p_client p) \<Longrightarrow> I (p_client (run_resolver E phase i p))"
  by (auto simp: run_resolver_def Let_def on_tx_def intro!: resolved_pairs split: prod.split)

lemma runResolvers: "I (p_client p) \<Longrightarrow> I (p_client (runResolvers E phase p))"
proof -
  assume "I (p_client p)"
  then have "I (p_client (fold (run_resolver E phase) is p))" for "is"
    by (induction "is" arbitrary: p) (auto simp: run_resolver)
  then show ?thesis by (simp add: runResolvers_def)
qed

subsection \<open>The response\<close>

lemma markResponse: "I tx \<Longrightarrow> I (markResponse tx)"
  by (simp add: markResponse_def mark_response)

lemma SetResponseStatus: "I tx \<Longrightarrow> I (SetResponseStatus status tx)"
  by (simp add: SetResponseStatus_def markResponse rec)

lemma AddResponseHeader: "I tx \<Longrightarrow> I (AddResponseHeader name v tx)"
  unfolding AddResponseHeader_def Let_def by (simp add: markResponse add del: ascii_simps)

end

end
