(* ===== verification/TransactionFraming.thy ===== *)
theory TransactionFraming
  imports TransactionKeeps
begin

text \<open>
  Request smuggling: a request whose headers let two parsers place its end differently is refused,
  unless it has too many headers to be judged, and no other request is refused for that reason.
\<close>

section \<open>The framing of a transaction\<close>

text \<open>What the framing decision reads.\<close>

definition framing :: "('t, 'o, 'a, 'f, 'r) tx \<Rightarrow> nat \<times> gobytes \<times> bool \<times> gobytes" where
  "framing tx = (tx_contentLengths tx, tx_firstLength tx, tx_transferEncoded tx, tx_framingConflict tx)"

definition frame_view :: "('t, 'o, 'a, 'f, 'r) tx \<Rightarrow>
    (nat \<times> gobytes \<times> bool \<times> gobytes) \<times> nat \<times> gobytes \<times> ('t, 'o, 'a, 'f) config \<times> bool" where
  "frame_view tx = (framing tx, tx_headerCount tx, tx_reqMethod tx, tx_cfg tx, tx_decided tx)"

lemma frame_beside: "beside_values tx = beside_values tx' \<Longrightarrow> frame_view tx = frame_view tx'"
  unfolding frame_view_def framing_def by (simp only: beside_fields [of tx tx'])

lemma frame_add [simp]:
  "frame_view (recordString target key v inert tx) = frame_view tx"
  "frame_view (recordBytes target key v inert tx) = frame_view tx"
  "frame_view (addValue target key v tx) = frame_view tx"
  "frame_view (addValueBytes target key v tx) = frame_view tx"
  "frame_view (addValueInert target key v inert tx) = frame_view tx"
  by (rule frame_beside, simp)+

lemma frame_update [simp]:
  "frame_view (tx\<lparr>tx_argCount := n\<rparr>) = frame_view tx"
  "frame_view (tx\<lparr>tx_reqPath := path\<rparr>) = frame_view tx"
  "frame_view (tx\<lparr>tx_op := op\<rparr>) = frame_view tx"
  "frame_view (note_violation w place tx) = frame_view tx"
  by (simp_all add: frame_view_def framing_def note_violation_def)

lemma frame_checkSchema: "checkSchema E name v tx = (tx', b) \<Longrightarrow> frame_view tx' = frame_view tx"
  by (auto simp: checkSchema_def Let_def split: option.splits if_splits)

lemma frame_AddArgument [simp]: "frame_view (AddArgument E name v tx) = frame_view tx"
  by (auto simp: AddArgument_def Let_def split: prod.split dest!: frame_checkSchema)

lemma frame_addQueryPair [simp]: "frame_view (addQueryPair E pair tx) = frame_view tx"
  by (auto simp: addQueryPair_def split: option.split)

lemma frame_query_subpairs [simp]: "frame_view (query_subpairs E pair tx) = frame_view tx"
  by (induction E pair tx rule: query_subpairs.induct)
    (subst query_subpairs.simps, auto split: prod.split)

lemma frame_query_loop [simp]: "frame_view (query_loop E query tx) = frame_view tx"
  by (induction E query tx rule: query_loop.induct)
    (subst query_loop.simps, auto simp: Let_def split: prod.split)

lemma frame_join [simp]: "frame_view (joinDuplicateArgs tx) = frame_view tx"
proof -
  have "frame_view (join_step vs i tx) = frame_view tx" for vs i and tx :: "('a, 'b, 'c, 'd, 'e) tx"
    by (auto simp: join_step_def Let_def split: prod.split)
  then have "frame_view (fold (join_step vs) is tx) = frame_view tx" for vs "is" and tx :: "('a, 'b, 'c, 'd, 'e) tx"
    by (induction "is" arbitrary: tx) auto
  then show ?thesis by (simp add: joinDuplicateArgs_def Let_def)
qed

lemma frame_SetRequestLine:
  "frame_view (SetRequestLine E m target proto tx) = (framing tx, tx_headerCount tx, m, tx_cfg tx, tx_decided tx)"
proof -
  have m: "frame_view (tx\<lparr>tx_reqMethod := m\<rparr>) = (framing tx, tx_headerCount tx, m, tx_cfg tx, tx_decided tx)"
    for tx :: "('a, 'b, 'c, 'd, 'e) tx"
    by (simp add: frame_view_def framing_def)
  have f: "framing (addValue t k v tx) = framing tx" "tx_headerCount (addValue t k v tx) = tx_headerCount tx"
    "tx_cfg (addValue t k v tx) = tx_cfg tx" "tx_decided (addValue t k v tx) = tx_decided tx" for t k v and tx :: "('a, 'b, 'c, 'd, 'e) tx"
    using frame_add(3) [of t k v tx] by (simp_all add: frame_view_def)
  show ?thesis
    by (auto simp: SetRequestLine_def Let_def addQueryArguments_def m f split: prod.split option.split)
qed

section \<open>The headers\<close>

definition named :: "gobytes \<Rightarrow> (gobytes \<times> gobytes) list \<Rightarrow> gobytes list" where
  "named name hs = map snd (filter (\<lambda>(n, v). equalFoldASCII n name) hs)"

abbreviation content_lengths :: "(gobytes \<times> gobytes) list \<Rightarrow> gobytes list" where
  "content_lengths hs \<equiv> map trimOWS (named (ascii ''content-length'') hs)"

abbreviation transfer_encodings :: "(gobytes \<times> gobytes) list \<Rightarrow> gobytes list" where
  "transfer_encodings hs \<equiv> named (ascii ''transfer-encoding'') hs"

text \<open>A header that no two parsers are sure to read alike.\<close>

definition header_conflict :: "(gobytes \<times> gobytes) list \<Rightarrow> bool" where
  "header_conflict hs \<longleftrightarrow>
     list_ex (\<lambda>v. \<not> isAllDigits v) (content_lengths hs) \<or>
     list_ex (\<lambda>v. v \<noteq> hd (content_lengths hs)) (content_lengths hs) \<or>
     list_ex (\<lambda>v. trimOWS v \<noteq> v) (transfer_encodings hs)"

text \<open>
  Ambiguous framing: such a header, both ways of delimiting a body, or a body on a request whose
  method has none.
\<close>

definition ambiguous_framing :: "gobytes \<Rightarrow> (gobytes \<times> gobytes) list \<Rightarrow> bool" where
  "ambiguous_framing m hs \<longleftrightarrow>
     header_conflict hs \<or>
     content_lengths hs \<noteq> [] \<and> transfer_encodings hs \<noteq> [] \<or>
     isBodylessMethod m \<and> (transfer_encodings hs \<noteq> [] \<or>
       content_lengths hs \<noteq> [] \<and> \<not> isZeroLength (hd (content_lengths hs)))"

definition add_headers ::
  "(gobytes \<times> gobytes) list \<Rightarrow> ('t, 'o, 'a, 'f, 'r) tx \<Rightarrow> ('t, 'o, 'a, 'f, 'r) tx" where
  "add_headers hs tx = fold (\<lambda>(n, v). AddRequestHeader n v) hs tx"

definition framing_after :: "(gobytes \<times> gobytes) list \<Rightarrow> nat \<times> gobytes \<times> bool \<times> gobytes \<Rightarrow> bool" where
  "framing_after hs = (\<lambda>(n, first, te, conflict).
     n = length (content_lengths hs) \<and> te = (transfer_encodings hs \<noteq> []) \<and>
     first = (if content_lengths hs \<noteq> [] \<and> isAllDigits (hd (content_lengths hs))
              then hd (content_lengths hs) else []) \<and>
     (conflict \<noteq> [] \<longleftrightarrow> header_conflict hs))"

lemma isAllDigits_nonempty: "isAllDigits v \<Longrightarrow> v \<noteq> []"
  by (auto simp: isAllDigits_def)

lemma equalFold_length: "equalFoldASCII a b \<Longrightarrow> length a = length b"
  by (simp add: equalFoldASCII_def split: if_splits)

lemma not_both: "equalFoldASCII n (ascii ''content-length'') \<Longrightarrow> \<not> equalFoldASCII n (ascii ''transfer-encoding'')"
  by (auto dest!: equalFold_length)

lemma named_snoc: "named name (hs @ [(n, v)]) = named name hs @ (if equalFoldASCII n name then [v] else [])"
  by (simp add: named_def)

lemma ascii_Nil_iff [simp]: "ascii s = [] \<longleftrightarrow> s = []"
  by (simp add: ascii_def)

lemma noteFraming_length:
  assumes "equalFoldASCII n (ascii ''content-length'')" and "framing tx = (k, first, te, c)"
  shows "\<exists>c'. framing (noteFraming n v tx) =
      (k + 1, if isAllDigits (trimOWS v) \<and> k = 0 then trimOWS v else first, te, c') \<and>
    (c' \<noteq> [] \<longleftrightarrow> c \<noteq> [] \<or> \<not> isAllDigits (trimOWS v) \<or> k \<noteq> 0 \<and> trimOWS v \<noteq> first)"
  using assms
  by (auto simp: noteFraming_def framing_def setFramingConflict_def Let_def simp del: ascii_simps)

lemma noteFraming_encoding:
  assumes "equalFoldASCII n (ascii ''transfer-encoding'')" and "\<not> equalFoldASCII n (ascii ''content-length'')"
    and "framing tx = (k, first, te, c)"
  shows "\<exists>c'. framing (noteFraming n v tx) = (k, first, True, c') \<and> (c' \<noteq> [] \<longleftrightarrow> c \<noteq> [] \<or> trimOWS v \<noteq> v)"
  using assms
  by (auto simp: noteFraming_def framing_def setFramingConflict_def Let_def simp del: ascii_simps)

lemma noteFraming_other:
  assumes "\<not> equalFoldASCII n (ascii ''transfer-encoding'')" and "\<not> equalFoldASCII n (ascii ''content-length'')"
  shows "noteFraming n v tx = tx"
  using assms by (simp add: noteFraming_def del: ascii_simps)

lemma noteFraming_fields [simp]:
  "tx_headerCount (noteFraming n v tx) = tx_headerCount tx" "tx_reqMethod (noteFraming n v tx) = tx_reqMethod tx"
  "tx_cfg (noteFraming n v tx) = tx_cfg tx" "tx_decided (noteFraming n v tx) = tx_decided tx"
  by (simp_all add: noteFraming_def setFramingConflict_def Let_def del: ascii_simps)

lemma noteFraming_after:
  assumes "framing_after hs (framing tx)"
  shows "framing_after (hs @ [(n, v)]) (framing (noteFraming n v tx))"
proof -
  obtain k first te c where f: "framing tx = (k, first, te, c)" by (cases "framing tx") auto
  let ?cl = "ascii ''content-length''" and ?te = "ascii ''transfer-encoding''"
  let ?cls = "content_lengths hs"
  from assms f have st: "k = length ?cls" "te \<longleftrightarrow> transfer_encodings hs \<noteq> []"
    "first = (if ?cls \<noteq> [] \<and> isAllDigits (hd ?cls) then hd ?cls else [])" "c \<noteq> [] \<longleftrightarrow> header_conflict hs"
    by (simp_all add: framing_after_def del: ascii_simps)
  show ?thesis
  proof (cases "equalFoldASCII n ?cl")
    case True
    then have te: "transfer_encodings (hs @ [(n, v)]) = transfer_encodings hs"
      using not_both by (simp add: named_snoc del: ascii_simps)
    have cl: "content_lengths (hs @ [(n, v)]) = ?cls @ [trimOWS v]"
      using True by (simp add: named_snoc del: ascii_simps)
    from noteFraming_length [OF True f] obtain c' where
      f': "framing (noteFraming n v tx) = (k + 1, if isAllDigits (trimOWS v) \<and> k = 0 then trimOWS v else first, te, c')"
      and c': "c' \<noteq> [] \<longleftrightarrow> c \<noteq> [] \<or> \<not> isAllDigits (trimOWS v) \<or> k \<noteq> 0 \<and> trimOWS v \<noteq> first" by blast
    show ?thesis
      unfolding f' framing_after_def header_conflict_def te cl
      using st c' by (cases ?cls) (auto simp: header_conflict_def hd_append dest: isAllDigits_nonempty simp del: ascii_simps)
  next
    case ncl: False
    then have cl: "content_lengths (hs @ [(n, v)]) = ?cls" by (simp add: named_snoc del: ascii_simps)
    show ?thesis
    proof (cases "equalFoldASCII n ?te")
      case True
      then have te: "transfer_encodings (hs @ [(n, v)]) = transfer_encodings hs @ [v]"
        by (simp add: named_snoc del: ascii_simps)
      from noteFraming_encoding [OF True ncl f] obtain c' where
        f': "framing (noteFraming n v tx) = (k, first, True, c')" and c': "c' \<noteq> [] \<longleftrightarrow> c \<noteq> [] \<or> trimOWS v \<noteq> v"
        by blast
      show ?thesis
        unfolding f' framing_after_def header_conflict_def te cl
        using st c' by (auto simp: header_conflict_def simp del: ascii_simps)
    next
      case False
      then have te: "transfer_encodings (hs @ [(n, v)]) = transfer_encodings hs"
        by (simp add: named_snoc del: ascii_simps)
      show ?thesis
        unfolding noteFraming_other [OF False ncl] f framing_after_def header_conflict_def te cl
        using st by (auto simp: header_conflict_def simp del: ascii_simps)
    qed
  qed
qed

lemma noteFraming_cong:
  "framing tx = framing tx' \<Longrightarrow> framing (noteFraming n v tx) = framing (noteFraming n v tx')"
  by (simp add: framing_def noteFraming_def setFramingConflict_def Let_def del: ascii_simps)

lemma AddRequestHeader_frame:
  assumes "int (tx_headerCount tx + 1) \<le> MaxHeaders (tx_limits tx)"
  shows "frame_view (AddRequestHeader n v tx) =
    (framing (noteFraming n v tx), tx_headerCount tx + 1, tx_reqMethod tx, tx_cfg tx, tx_decided tx)"
proof -
  have key: "frame_view (noteFraming n v tx1) =
      (framing (noteFraming n v tx), Suc (tx_headerCount tx), tx_reqMethod tx, tx_cfg tx, tx_decided tx)"
    if "frame_view tx1 = (framing tx, Suc (tx_headerCount tx), tx_reqMethod tx, tx_cfg tx, tx_decided tx)" for tx1
    using that noteFraming_cong [of tx1 tx n v] by (simp add: frame_view_def)
  show ?thesis
    using assms unfolding AddRequestHeader_def Let_def
    by (simp add: tx_limits_def del: ascii_simps) (intro conjI impI; rule key; simp add: frame_view_def framing_def)
qed

lemma add_headers_frame:
  "framing_after [] (framing tx) \<Longrightarrow> int (tx_headerCount tx + length hs) \<le> MaxHeaders (tx_limits tx) \<Longrightarrow>
   \<exists>f. frame_view (add_headers hs tx) = (f, tx_headerCount tx + length hs, tx_reqMethod tx, tx_cfg tx, tx_decided tx) \<and>
     framing_after hs f"
proof (induction hs rule: rev_induct)
  case Nil
  then show ?case by (simp add: add_headers_def frame_view_def)
next
  case (snoc h hs)
  obtain n v where h: "h = (n, v)" by fastforce
  let ?tx = "add_headers hs tx"
  from snoc obtain f where f: "frame_view ?tx = (f, tx_headerCount tx + length hs, tx_reqMethod tx, tx_cfg tx, tx_decided tx)"
    "framing_after hs f" by auto
  then have e: "framing ?tx = f" "tx_headerCount ?tx = tx_headerCount tx + length hs" "tx_reqMethod ?tx = tx_reqMethod tx"
    "tx_cfg ?tx = tx_cfg tx" "tx_decided ?tx = tx_decided tx" by (simp_all add: frame_view_def)
  have "add_headers (hs @ [h]) tx = AddRequestHeader n v ?tx" by (simp add: add_headers_def h)
  moreover have "int (tx_headerCount ?tx + 1) \<le> MaxHeaders (tx_limits ?tx)"
    using snoc.prems(2) e by (simp add: tx_limits_def)
  ultimately show ?case
    using AddRequestHeader_frame [of ?tx n v] noteFraming_after [of hs ?tx n v] e f(2) h
    by (auto simp del: ascii_simps)
qed

text \<open>Every header counts, also one beyond the limit, which is not looked at.\<close>

lemma add_headers_counts:
  "tx_headerCount (add_headers hs tx) = tx_headerCount tx + length hs \<and> tx_cfg (add_headers hs tx) = tx_cfg tx"
proof (induction hs rule: rev_induct)
  case (snoc h hs)
  obtain n v where h: "h = (n, v)" by fastforce
  let ?tx = "add_headers hs tx"
  have "tx_headerCount (AddRequestHeader n v ?tx) = Suc (tx_headerCount ?tx) \<and> tx_cfg (AddRequestHeader n v ?tx) = tx_cfg ?tx"
  proof (cases "int (tx_headerCount ?tx + 1) \<le> MaxHeaders (tx_limits ?tx)")
    case True
    from AddRequestHeader_frame [OF True, of n v] show ?thesis by (simp add: frame_view_def)
  next
    case False
    then show ?thesis by (simp add: AddRequestHeader_def Let_def tx_limits_def)
  qed
  with snoc show ?case by (simp add: add_headers_def h)
qed (simp add: add_headers_def)

lemma header_limit:
  assumes "MaxHeaders (tx_limits (p_client p)) < int (tx_headerCount (p_client p))"
  shows "\<exists>p' d. ProcessRequestHeaders E p = Some (p', d) \<and> d_reason d = ReasonLimit \<and>
    Blocked d = (cfg_mode (tx_cfg (p_client p)) = Blocking \<and> cfg_failMode (tx_cfg (p_client p)) = FailClosed)"
proof -
  define tx where "tx = (if tx_queryEnd (p_client p) < 0
    then (p_client p)\<lparr>tx_queryEnd := int (length (tx_values (p_client p)))\<rparr> else p_client p)"
  have "tx_cfg tx = tx_cfg (p_client p)" "tx_headerCount tx = tx_headerCount (p_client p)" by (simp_all add: tx_def)
  then have lim: "MaxHeaders (tx_limits tx) < int (tx_headerCount tx)" and c: "tx_cfg tx = tx_cfg (p_client p)"
    using assms by (simp_all add: tx_limits_def)
  have "ProcessRequestHeaders E p = tx_returns p (limitExceeded tx)"
    using lim unfolding ProcessRequestHeaders_def Let_def tx_def [symmetric] by (simp only: if_True)
  then show ?thesis
    by (auto simp: tx_returns_def limitExceeded_def finish_def Let_def by_fail_mode_def base_decision_def
      Blocked_def decision_zero_def c split: prod.split)
qed

lemma check_framing_conflict:
  assumes "framing_after hs (framing tx)"
  shows "tx_framingConflict (check_framing tx) \<noteq> [] \<longleftrightarrow> ambiguous_framing (tx_reqMethod tx) hs"
proof -
  have st: "tx_contentLengths tx = length (content_lengths hs)" "tx_transferEncoded tx \<longleftrightarrow> transfer_encodings hs \<noteq> []"
    "tx_firstLength tx = (if content_lengths hs \<noteq> [] \<and> isAllDigits (hd (content_lengths hs)) then hd (content_lengths hs) else [])"
    "tx_framingConflict tx \<noteq> [] \<longleftrightarrow> header_conflict hs"
    using assms by (simp_all add: framing_after_def framing_def del: ascii_simps)
  have hd: "header_conflict hs" if "content_lengths hs \<noteq> []" "\<not> isAllDigits (hd (content_lengths hs))"
    using that by (cases "content_lengths hs") (auto simp: header_conflict_def)
  show ?thesis
    using st hd isAllDigits_nonempty [of "hd (content_lengths hs)"]
    by (auto simp: check_framing_def ambiguous_framing_def setFramingConflict_def Let_def simp del: ascii_simps)
qed

section \<open>Every other decision has another reason\<close>

lemma finish_reason [simp]: "finish d tx = (tx', d') \<Longrightarrow> d_reason d' = d_reason d"
  by (auto simp: finish_def Let_def)

lemma by_fail_mode_reason [simp]: "d_reason (by_fail_mode d tx) = d_reason d"
  by (simp add: by_fail_mode_def)

lemma by_mode_reason [simp]: "d_reason (by_mode d tx) = d_reason d"
  by (simp add: by_mode_def Let_def)

lemma base_reason [simp]: "d_reason (base_decision why tx) = why"
  by (simp add: base_decision_def)

lemma blockDecision_reason [simp]: "d_reason (blockDecision why status r tx) = why"
  by (auto simp: blockDecision_def Let_def split: option.split)

lemma refusal_reasons:
  "budgetExhausted tx = (tx', d) \<Longrightarrow> d_reason d = ReasonBudget"
  "tx_undecidable_input why tx = (tx', d) \<Longrightarrow> d_reason d = ReasonUndecidable"
  "undecodableBody u tx = (tx', d) \<Longrightarrow> d_reason d = ReasonUndecidable"
  "oversizeExceeded tx = (tx', d) \<Longrightarrow> d_reason d = ReasonLimit"
  "limitExceeded tx = (tx', d) \<Longrightarrow> d_reason d = ReasonLimit"
  "framingAmbiguous tx = (tx', d) \<Longrightarrow> d_reason d = ReasonDesync"
  "schemaViolation tx = Some (tx', d) \<Longrightarrow> d_reason d = ReasonSchema"
  by (auto simp: budgetExhausted_def tx_undecidable_input_def undecodableBody_def oversizeExceeded_def
    limitExceeded_def framingAmbiguous_def schemaViolation_def dest!: finish_reason split: if_splits)

lemma decide_phase_reason: "decide_phase tx = (tx', d) \<Longrightarrow> d_reason d \<noteq> ReasonDesync"
  by (auto simp: decide_phase_def Let_def allow_def split: if_splits dest: refusal_reasons dest!: finish_reason)

lemma runPhase_reason:
  assumes "runPhase E phase p = Some (p', d)" and "\<not> tx_decided (p_client p)"
  shows "d_reason d \<noteq> ReasonDesync"
  using assms
  by (auto simp: runPhase_def tx_returns_def Let_def split: option.splits prod.splits dest: decide_phase_reason)

lemma framing_blocks:
  "framingAmbiguous tx = (tx', d) \<Longrightarrow> Blocked d = (cfg_mode (tx_cfg tx) \<noteq> DetectionOnly)"
  by (auto simp: framingAmbiguous_def by_mode_def Let_def finish_def Blocked_def)

lemma check_framing_fields [simp]:
  "tx_cfg (check_framing tx) = tx_cfg tx" "tx_decided (check_framing tx) = tx_decided tx"
  "tx_headerCount (check_framing tx) = tx_headerCount tx"
  by (simp_all add: check_framing_def setFramingConflict_def Let_def del: ascii_simps)

text \<open>What the header phase does with a transaction that holds the headers \<open>hs\<close>.\<close>

lemma header_phase_framing:
  assumes "framing_after hs (framing (p_client p))" and "\<not> tx_decided (p_client p)"
    and "int (tx_headerCount (p_client p)) \<le> MaxHeaders (tx_limits (p_client p))"
  shows "ambiguous_framing (tx_reqMethod (p_client p)) hs \<Longrightarrow>
      \<exists>p' d. ProcessRequestHeaders E p = Some (p', d) \<and> d_reason d = ReasonDesync \<and>
        Blocked d = (cfg_mode (tx_cfg (p_client p)) \<noteq> DetectionOnly)"
    and "\<not> ambiguous_framing (tx_reqMethod (p_client p)) hs \<Longrightarrow>
      ProcessRequestHeaders E p = Some (p', d) \<Longrightarrow> d_reason d \<noteq> ReasonDesync"
proof -
  define tx where "tx = (if tx_queryEnd (p_client p) < 0
    then (p_client p)\<lparr>tx_queryEnd := int (length (tx_values (p_client p)))\<rparr> else p_client p)"
  have fr: "framing tx = framing (p_client p)" "tx_reqMethod tx = tx_reqMethod (p_client p)"
    "tx_cfg tx = tx_cfg (p_client p)" "tx_decided tx = tx_decided (p_client p)"
    "tx_headerCount tx = tx_headerCount (p_client p)"
    by (simp_all add: framing_def tx_def)
  then have lim: "\<not> MaxHeaders (tx_limits tx) < int (tx_headerCount tx)" using assms(3) by (simp add: tx_limits_def)
  let ?amb = "ambiguous_framing (tx_reqMethod (p_client p)) hs"
  have conflict: "tx_framingConflict (check_framing tx) \<noteq> [] \<longleftrightarrow> ?amb"
    using check_framing_conflict [of hs tx] assms(1) fr by simp
  have eq: "ProcessRequestHeaders E p =
      (if ?amb then tx_returns p (framingAmbiguous (check_framing tx))
       else if tx_oversizeKey (check_framing tx) \<noteq> [] then tx_returns p (oversizeExceeded (check_framing tx))
       else case schemaViolation (check_framing tx) of
          Some r \<Rightarrow> tx_returns p r
        | None \<Rightarrow>
            (case deriveHeaderViews (check_framing tx) of
               (tx, False) \<Rightarrow> tx_returns p (limitExceeded tx)
             | (tx, True) \<Rightarrow> runPhase E PhaseRequestHeaders (p\<lparr>p_client := tx\<rparr>)))"
    using lim unfolding ProcessRequestHeaders_def Let_def tx_def [symmetric] conflict by (simp only: if_False)
  show "\<exists>p' d. ProcessRequestHeaders E p = Some (p', d) \<and> d_reason d = ReasonDesync \<and>
        Blocked d = (cfg_mode (tx_cfg (p_client p)) \<noteq> DetectionOnly)" if ?amb
  proof -
    obtain q d where f: "framingAmbiguous (check_framing tx) = (q, d)" by fastforce
    with eq that refusal_reasons(6) [OF f] framing_blocks [OF f] fr(3) show ?thesis
      by (simp add: tx_returns_def)
  qed
  show "d_reason d \<noteq> ReasonDesync" if "\<not> ?amb" "ProcessRequestHeaders E p = Some (p', d)"
  proof -
    obtain q ok where v: "deriveHeaderViews (check_framing tx) = (q, ok)" by fastforce
    then have "\<not> tx_decided q" using views_decided [OF v] fr(4) assms(2) by simp
    with that eq v show ?thesis
      by (auto simp: tx_returns_def split: if_splits option.splits prod.splits bool.splits
        dest: refusal_reasons runPhase_reason)
  qed
qed

lemma fresh_framing:
  "framing_after [] (framing (p_client (NewTransaction pooled w)))"
  "tx_headerCount (p_client (NewTransaction pooled w)) = 0" "\<not> tx_decided (p_client (NewTransaction pooled w))"
  by (simp_all add: NewTransaction_def on_tx_def tx_reset_def framing_def framing_after_def header_conflict_def named_def
    del: ascii_simps)

section \<open>Properties\<close>

text \<open>
  C5. No request smuggling. On a fresh transaction given a request line and at most \<open>MaxHeaders\<close>
  headers, the header phase ends with the reason \<open>ReasonDesync\<close> exactly when the framing of the
  request is ambiguous: a \<open>Content-Length\<close> that is not a number or that another contradicts, a padded
  \<open>Transfer-Encoding\<close>, both headers at once, or a body announced on a request whose method has none.
  It always ends then, and the request is blocked unless the firewall only detects, whatever the fail
  mode. With more headers the framing is not judged at all: the phase ends with \<open>ReasonLimit\<close>, and a
  firewall that fails open lets the request pass, ambiguous or not.
\<close>

theorem smuggling_ambiguity_exact:
  "let p = NewTransaction pooled w; cfg = tx_cfg (p_client p);
      q = on_tx (\<lambda>tx. add_headers hs (SetRequestLine E m target proto tx)) p in
    if MaxHeaders (tx_limits (p_client p)) < int (length hs) then
      \<exists>p' d. ProcessRequestHeaders E q = Some (p', d) \<and> d_reason d = ReasonLimit \<and>
        Blocked d = (cfg_mode cfg = Blocking \<and> cfg_failMode cfg = FailClosed)
    else if ambiguous_framing m hs then
      \<exists>p' d. ProcessRequestHeaders E q = Some (p', d) \<and> d_reason d = ReasonDesync \<and>
        Blocked d = (cfg_mode cfg \<noteq> DetectionOnly)
    else \<forall>p' d. ProcessRequestHeaders E q = Some (p', d) \<longrightarrow> d_reason d \<noteq> ReasonDesync"
proof -
  define p where "p = NewTransaction pooled w"
  define tx where "tx = SetRequestLine E m target proto (p_client p)"
  define q where "q = p\<lparr>p_client := add_headers hs tx\<rparr>"
  note fresh = fresh_framing [of pooled w, folded p_def]
  have line: "framing tx = framing (p_client p)" "tx_headerCount tx = 0" "tx_reqMethod tx = m"
    "tx_cfg tx = tx_cfg (p_client p)" "\<not> tx_decided tx"
    using frame_SetRequestLine [of E m target proto "p_client p"] fresh(2,3) by (simp_all add: tx_def frame_view_def)
  have q: "on_tx (\<lambda>tx. add_headers hs (SetRequestLine E m target proto tx)) p = q"
    by (simp add: q_def tx_def on_tx_def)
  show ?thesis
  proof (cases "MaxHeaders (tx_limits (p_client p)) < int (length hs)")
    case True
    have c: "tx_headerCount (p_client q) = length hs" "tx_cfg (p_client q) = tx_cfg (p_client p)"
      using add_headers_counts [of hs tx] line by (simp_all add: q_def)
    with True have "MaxHeaders (tx_limits (p_client q)) < int (tx_headerCount (p_client q))" by (simp add: tx_limits_def)
    from header_limit [OF this, of E] True show ?thesis
      unfolding Let_def p_def [symmetric] q c by simp
  next
    case False
    obtain f where f: "frame_view (add_headers hs tx) = (f, length hs, m, tx_cfg (p_client p), False)" "framing_after hs f"
      using add_headers_frame [of tx hs] line fresh(1) False by (auto simp: p_def tx_limits_def)
    have "framing_after hs (framing (p_client q))" "\<not> tx_decided (p_client q)"
      "int (tx_headerCount (p_client q)) \<le> MaxHeaders (tx_limits (p_client q))"
      "tx_reqMethod (p_client q) = m" "tx_cfg (p_client q) = tx_cfg (p_client p)"
      using f False by (simp_all add: q_def frame_view_def tx_limits_def p_def)
    with header_phase_framing [of hs q E] False show ?thesis
      unfolding Let_def p_def [symmetric] q by simp
  qed
qed

theorem smuggling_ambiguity_exact_witness:
  "\<forall>E w. \<exists>p' d. ProcessRequestHeaders E (on_tx (\<lambda>tx. add_headers
       [(ascii ''content-length'', [53]), (ascii ''transfer-encoding'', ascii ''chunked'')]
       (SetRequestLine E (ascii ''POST'') [47] [] tx)) (NewTransaction None (w\<lparr>w_cfg := defaultConfig\<rparr>))) = Some (p', d) \<and>
     d_reason d = ReasonDesync \<and> Blocked d"
proof (intro allI)
  fix E :: "('a, 'b, 'c, 'd, 'e) env" and w :: "('a, 'b, 'c, 'd) waf"
  let ?hs = "[(ascii ''content-length'', [53]), (ascii ''transfer-encoding'', ascii ''chunked'')]"
  let ?w = "w\<lparr>w_cfg := defaultConfig\<rparr>"
  have cfg: "tx_cfg (p_client (NewTransaction None ?w :: ('a, 'b, 'c, 'd, 'e) txn)) = defaultConfig"
    by (simp add: NewTransaction_def on_tx_def tx_reset_def newTransaction_def)
  have lim: "int (length ?hs) \<le> MaxHeaders (tx_limits (p_client (NewTransaction None ?w :: ('a, 'b, 'c, 'd, 'e) txn)))"
    unfolding tx_limits_def cfg by (simp add: defaultConfig_def DefaultLimits_def)
  have amb: "ambiguous_framing (ascii ''POST'') ?hs" by code_simp
  show "\<exists>p' d. ProcessRequestHeaders E (on_tx (\<lambda>tx. add_headers ?hs
       (SetRequestLine E (ascii ''POST'') [47] [] tx)) (NewTransaction None ?w)) = Some (p', d) \<and>
     d_reason d = ReasonDesync \<and> Blocked d"
    using smuggling_ambiguity_exact [of None ?w ?hs E "ascii ''POST''" "[47]" "[]"] amb lim
    unfolding Let_def cfg by (auto simp: defaultConfig_def simp del: ascii_simps)
qed

end
