(* ===== verification/TransactionWf.thy ===== *)
theory TransactionWf
  imports TransactionKeeps
begin

text \<open>
  The storage invariant of a transaction: whatever it is given and in whatever order, every value it
  holds is the part of the arena its spans name, and refreshing the slices changes no value.
\<close>

section \<open>Growing arenas\<close>

definition in_arena :: "arena \<Rightarrow> span \<Rightarrow> bool" where
  "in_arena a sp \<longleftrightarrow> unat (Off sp) + unat (Len sp) \<le> a_len a"

definition arena_ok :: "arena \<Rightarrow> bool" where
  "arena_ok a \<longleftrightarrow> arena_inv a \<and> 0 < a_limit a \<and> a_limit a < 2 ^ 32 \<and> int (a_len a) \<le> a_limit a"

text \<open>What every use of the allocator does to an arena.\<close>

definition grows :: "arena \<Rightarrow> arena \<Rightarrow> bool" where
  "grows a a' \<longleftrightarrow> arena_ok a' \<and> a_limit a' = a_limit a \<and> (\<exists>bs. arena_Bytes a' = arena_Bytes a @ bs)"

lemma arena_ok_length: "arena_ok a \<Longrightarrow> length (arena_Bytes a) = a_len a"
  by (simp add: arena_ok_def arena_Bytes_length)

lemma grows_len: "arena_ok a \<Longrightarrow> grows a a' \<Longrightarrow> a_len a \<le> a_len a'"
proof -
  assume "arena_ok a" "grows a a'"
  then obtain bs where "arena_Bytes a' = arena_Bytes a @ bs" "arena_ok a'" by (auto simp: grows_def)
  then have "length (arena_Bytes a') = length (arena_Bytes a) + length bs" by simp
  with \<open>arena_ok a\<close> \<open>arena_ok a'\<close> show ?thesis by (simp add: arena_ok_length)
qed

lemma grows_in: "arena_ok a \<Longrightarrow> grows a a' \<Longrightarrow> in_arena a sp \<Longrightarrow> in_arena a' sp"
  using grows_len by (fastforce simp: in_arena_def)

lemma grows_resolve:
  assumes "arena_ok a" "grows a a'" "in_arena a sp"
  shows "arena_Resolve a' sp = arena_Resolve a sp"
proof -
  obtain bs where "arena_Bytes a' = arena_Bytes a @ bs" using assms(2) by (auto simp: grows_def)
  with assms show ?thesis
    by (simp add: arena_Resolve_def in_arena_def arena_ok_length span_Bytes_append)
qed

lemma grows_refl: "arena_ok a \<Longrightarrow> grows a a"
  by (simp add: grows_def)

lemma grows_trans: "grows a b \<Longrightarrow> grows b c \<Longrightarrow> grows a c"
  by (auto simp: grows_def)

lemma SpanOf_in:
  assumes "n + k < 2 ^ 32" shows "unat (Off (SpanOf n k)) = n" "unat (Len (SpanOf n k)) = k"
  using assms by (simp_all add: SpanOf_def unat_of_nat_u32)

lemma Append_grows:
  assumes "arena_ok a" "arena_Append src a = (a', sp, ok)"
  shows "grows a a'" and "ok \<Longrightarrow> in_arena a' sp" and "ok \<Longrightarrow> unat (Len sp) = length src \<and> unat (Off sp) = a_len a"
    and "ok \<Longrightarrow> a_len a' = a_len a + length src"
proof -
  have inv: "arena_inv a" using assms(1) by (simp add: arena_ok_def)
  note s = Append_spec [OF inv assms(2)]
  have len: "a_len a' = a_len a + length src" if ok
    using s(1) s(4) [OF that] arena_Bytes_length [OF s(1)] arena_Bytes_length [OF inv] by simp
  show "grows a a'"
  proof (cases ok)
    case True
    with s len assms(1) show ?thesis by (auto simp: grows_def arena_ok_def)
  next
    case False
    with s(6) assms(1) show ?thesis by (simp add: grows_refl)
  qed
  show "a_len a' = a_len a + length src" if ok by (rule len [OF that])
  have small: "a_len a + length src < 2 ^ 32" if ok
  proof -
    have "int (a_len a + length src) \<le> a_limit a" using s(3) that assms(1) by (auto simp: arena_ok_def)
    then have "int (a_len a + length src) < 2 ^ 32" using assms(1) by (simp add: arena_ok_def)
    then show ?thesis by simp
  qed
  show "unat (Len sp) = length src \<and> unat (Off sp) = a_len a" if ok
    using s(5) [OF that] SpanOf_in [OF small [OF that]] by simp
  then show "in_arena a' sp" if ok using that len by (simp add: in_arena_def)
qed

lemma Alloc_write:
  assumes "arena_Alloc (int (length bs)) a = (a', sp, True)"
  shows "arena_Append bs a = (arena_write (a_len a) bs a', sp, True)"
  using assms by (simp add: arena_Append_def)

lemma Alloc_refused: "arena_Alloc (int n) a = (a', sp, False) \<Longrightarrow> arena_ok a \<Longrightarrow> a' = a"
  using reserve_spec(7) by (auto simp: arena_Alloc_def Let_def arena_ok_def split: prod.splits if_splits)

lemma Alloc_grows:
  assumes "arena_Alloc (int n) a = (a', sp, True)" "arena_ok a"
  shows "grows a a'"
proof -
  obtain b where b: "arena_reserve n a = (b, True)" "a' = b\<lparr>a_len := a_len a + n\<rparr>"
    using assms(1) by (auto simp: arena_Alloc_def Let_def split: prod.splits if_splits)
  have inv: "arena_inv a" using assms(2) by (simp add: arena_ok_def)
  note s = reserve_spec [OF inv b(1)]
  have ok: "arena_ok a'" "a_limit a' = a_limit a"
    using s b(2) assms(2) by (auto simp: arena_ok_def arena_inv_def arena_Cap_def)
  have "arena_Bytes a' = take (a_len a + n) (a_store b)" by (simp add: arena_Bytes_def b(2))
  also have "\<dots> = arena_Bytes a @ take n (drop (a_len a) (a_store b))"
    using s(2,3) by (simp add: take_add arena_Bytes_def)
  finally show ?thesis using ok by (auto simp: grows_def)
qed

lemma Grow_grows: "arena_ok a \<Longrightarrow> grows a (fst (arena_Grow n a))"
proof -
  assume ok: "arena_ok a"
  then have inv: "arena_inv a" by (simp add: arena_ok_def)
  obtain a' b where g: "arena_Grow n a = (a', b)" by fastforce
  have "a_limit a' = a_limit a" using g by (auto simp: arena_Grow_def arena_realloc_def Let_def split: if_splits)
  with Grow_spec [OF inv g] ok g show ?thesis by (auto simp: grows_def arena_ok_def)
qed

lemma resolve_length: "arena_ok a \<Longrightarrow> in_arena a sp \<Longrightarrow> length (arena_Resolve a sp) = unat (Len sp)"
  by (simp add: arena_Resolve_def in_arena_def span_Bytes_def arena_ok_length)

section \<open>Well-formed storage\<close>

definition holds_value :: "arena \<Rightarrow> eval_value \<Rightarrow> value_span \<Rightarrow> bool" where
  "holds_value a v sp \<longleftrightarrow> in_arena a (vs_key sp) \<and> in_arena a (vs_data sp) \<and>
     v_Key v = arena_Resolve a (vs_key sp) \<and> v_bytes v = arena_Resolve a (vs_data sp)"

definition tx_wf :: "('t, 'o, 'a, 'f, 'r) tx \<Rightarrow> bool" where
  "tx_wf tx \<longleftrightarrow> arena_ok (tx_arena tx) \<and> a_limit (tx_arena tx) = MaxArenaSize (tx_limits tx) \<and>
     list_all2 (holds_value (tx_arena tx)) (tx_values tx) (tx_spans tx) \<and>
     in_arena (tx_arena tx) (tx_respBodySpan tx) \<and> in_arena (tx_arena tx) (tx_respKeySpan tx) \<and>
     tx_bodyStart tx \<le> int (length (tx_values tx)) \<and> tx_queryEnd tx \<le> int (length (tx_values tx)) \<and>
     tx_responseStart tx \<le> int (length (tx_values tx))"

lemma wf_arena: "tx_wf tx \<Longrightarrow> grows (tx_arena tx) a \<Longrightarrow> tx_wf (tx\<lparr>tx_arena := a\<rparr>)"
  using grows_in [of "tx_arena tx" a] grows_resolve [of "tx_arena tx" a]
  by (auto simp: tx_wf_def holds_value_def tx_limits_def grows_def elim!: list_all2_mono)

lemma span_slice_bytes:
  assumes "arena_ok a" "in_arena a sp"
  shows "(case span_slice a sp of None \<Rightarrow> [] | Some b \<Rightarrow> b) = arena_Resolve a sp"
proof (cases "arena_Cap a = 0")
  case True
  then have "length (arena_Resolve a sp) = 0"
    using resolve_length [OF assms] assms by (simp add: arena_ok_def arena_inv_def in_arena_def)
  with True show ?thesis by (simp add: span_slice_def)
next
  case False
  with assms show ?thesis by (simp add: span_slice_def in_arena_def)
qed

lemma wf_append:
  assumes "tx_wf tx" "in_arena (tx_arena tx) ks" "in_arena (tx_arena tx) ds"
  shows "tx_wf (appendValue target ks ds inert tx)"
  using assms span_slice_bytes [of "tx_arena tx" ds]
  by (auto simp: tx_wf_def appendValue_def holds_value_def tx_limits_def v_bytes_def intro: list_all2_appendI)

lemma wf_stored: "stored tx = stored tx' \<Longrightarrow> tx_wf tx = tx_wf tx'"
  by (simp add: stored_def tx_wf_def tx_limits_def)

lemma wf_noteOversize: "tx_wf (noteOversize key n tx) = tx_wf tx"
  by (rule wf_stored) (simp add: stored_def noteOversize_def)

lemma wf_recordString: "tx_wf tx \<Longrightarrow> tx_wf (recordString target key v inert tx)"
proof -
  assume wf: "tx_wf tx"
  obtain a ks ok where k: "arena_Append key (tx_arena tx) = (a, ks, ok)" by (metis prod_cases3)
  obtain b ds ok' where d: "arena_Append v a = (b, ds, ok')" by (metis prod_cases3)
  have ok0: "arena_ok (tx_arena tx)" using wf by (simp add: tx_wf_def)
  note kg = Append_grows [OF ok0 k]
  have oka: "arena_ok a" using kg(1) by (simp add: grows_def)
  note dg = Append_grows [OF oka d]
  have wfa: "tx_wf (tx\<lparr>tx_arena := a\<rparr>)" by (rule wf_arena [OF wf kg(1)])
  then have wfb: "tx_wf (tx\<lparr>tx_arena := b\<rparr>)" using wf_arena [OF wfa, of b] dg(1) by simp
  show ?thesis
    using wf wfa wfb wf_append [OF wfb, of ks ds target inert] kg(2) dg(2) grows_in [OF oka dg(1), of ks]
    by (simp add: recordString_def wf_noteOversize k d Let_def)
qed

lemma wf_alloc_write:
  assumes wf: "tx_wf tx" and al: "arena_Alloc (int n) (tx_arena tx) = (a, sp, ok)" and len: "length bs = n"
  shows "\<not> ok \<Longrightarrow> tx_wf (tx\<lparr>tx_arena := a\<rparr>)"
    and "ok \<Longrightarrow> tx_wf (tx\<lparr>tx_arena := arena_write (a_len (tx_arena tx)) bs a\<rparr>) \<and>
      in_arena (arena_write (a_len (tx_arena tx)) bs a) sp \<and> grows (tx_arena tx) (arena_write (a_len (tx_arena tx)) bs a)"
proof -
  have ok0: "arena_ok (tx_arena tx)" using wf by (simp add: tx_wf_def)
  show "tx_wf (tx\<lparr>tx_arena := a\<rparr>)" if "\<not> ok"
    using Alloc_refused [of n "tx_arena tx" a sp] al that ok0 wf by simp
  show "tx_wf (tx\<lparr>tx_arena := arena_write (a_len (tx_arena tx)) bs a\<rparr>) \<and>
      in_arena (arena_write (a_len (tx_arena tx)) bs a) sp \<and> grows (tx_arena tx) (arena_write (a_len (tx_arena tx)) bs a)"
    if ok
  proof -
    have "arena_Append bs (tx_arena tx) = (arena_write (a_len (tx_arena tx)) bs a, sp, True)"
      by (rule Alloc_write) (use al len that in simp)
    from Append_grows [OF ok0 this] wf_arena [OF wf] show ?thesis by blast
  qed
qed

lemma wf_recordArgName: "tx_wf tx \<Longrightarrow> tx_wf (recordArgName parent key tx)"
proof -
  assume wf: "tx_wf tx"
  let ?tx = "recordFieldBytes TargetArgNames parent key False tx"
  have wf': "tx_wf ?tx" by (simp add: recordFieldBytes_def wf wf_recordString)
  obtain a sp ok where al: "arena_Alloc (int (length parent + 1 + length key)) (tx_arena ?tx) = (a, sp, ok)"
    by (metis prod_cases3)
  note w = wf_alloc_write [OF wf' al, of "parent @ [46] @ key"]
  show ?thesis
  proof (cases ok)
    case True
    with w show ?thesis using wf' al by (auto simp: recordArgName_def Let_def intro!: wf_append)
  next
    case False
    with w show ?thesis using wf' al by (auto simp: recordArgName_def Let_def)
  qed
qed

lemma wf_marks:
  "tx_wf tx \<Longrightarrow> tx_wf (tx\<lparr>tx_bodyStart := int (length (tx_values tx))\<rparr>)"
  "tx_wf tx \<Longrightarrow> tx_wf (tx\<lparr>tx_queryEnd := int (length (tx_values tx))\<rparr>)"
  "tx_wf tx \<Longrightarrow> tx_wf (tx\<lparr>tx_responseStart := int (length (tx_values tx))\<rparr>)"
  by (simp_all add: tx_wf_def tx_limits_def)

interpretation wf: recording tx_wf
  by unfold_locales (fact wf_recordString wf_recordArgName wf_marks wf_stored)+

section \<open>Views\<close>

lemma wf_value:
  assumes "tx_wf tx" "i < length (tx_values tx)"
  shows "holds_value (tx_arena tx) (tx_values tx ! i) (tx_spans tx ! i)" and "length (tx_spans tx) = length (tx_values tx)"
  using assms by (auto simp: tx_wf_def dest: list_all2_lengthD list_all2_nthD)

text \<open>Appending values leaves the arena and the earlier values alone.\<close>

definition extends :: "('t, 'o, 'a, 'f, 'r) tx \<Rightarrow> ('t, 'o, 'a, 'f, 'r) tx \<Rightarrow> bool" where
  "extends tx tx' \<longleftrightarrow> tx_wf tx' \<and> tx_arena tx' = tx_arena tx \<and> length (tx_values tx) \<le> length (tx_values tx')"

lemma extends_append:
  assumes "extends tx tx'" "in_arena (tx_arena tx) ks" "in_arena (tx_arena tx) ds"
  shows "extends tx (appendValue target ks ds inert tx')"
  using assms wf_append [of tx' ks ds target inert] by (simp add: extends_def appendValue_def)

lemma extends_copyArgs:
  assumes "tx_wf tx" "fin \<le> int (length (tx_values tx))"
  shows "extends tx (copyArgs start fin kind tx)"
  unfolding copyArgs_def
proof (rule fold_preserves [where P = "extends tx"])
  show "extends tx tx" using assms(1) by (simp add: extends_def)
  show "extends tx (copy_arg kind i s)" if i: "i \<in> set [nat start..<nat fin]" and s: "extends tx s" for i s
  proof -
    have "i < length (tx_values s)" using i s assms(2) by (auto simp: extends_def)
    then have "holds_value (tx_arena tx) (tx_values s ! i) (tx_spans s ! i)"
      using wf_value(1) [of s i] s by (simp add: extends_def)
    with s show ?thesis by (auto simp: copy_arg_def Let_def holds_value_def intro!: extends_append)
  qed
qed

lemma subSpan_in:
  assumes "arena_ok a" "in_arena a base" "start \<le> stop" "stop \<le> unat (Len base)"
  shows "in_arena a (subSpan base start stop)"
proof -
  have "a_len a < 2 ^ 32" using assms(1) by (simp add: arena_ok_def)
  then have small: "unat (Off base) + stop < 2 ^ 32" "stop - start < 2 ^ 32" "start < 2 ^ 32"
    using assms by (auto simp: in_arena_def)
  then have "unat (Off base + of_nat start) = unat (Off base) + start" "unat (of_nat (stop - start) :: u32) = stop - start"
    using assms(3) by (simp_all add: unat_of_nat_u32 unat_word_ariths(1) del: of_nat_diff)
  with assms(2-4) show ?thesis by (simp add: subSpan_def in_arena_def)
qed

lemma trimOWSRange_bounds:
  assumes "trimOWSRange data start stop = (s, e)" "start \<le> stop" "stop \<le> length data"
  shows "start \<le> s \<and> s \<le> e \<and> e \<le> stop"
proof -
  let ?mid = "take (stop - start) (drop start data)"
  have len: "length ?mid = stop - start" using assms by simp
  have "length (takeWhile is_ows ?mid) + length (dropWhile is_ows ?mid) = length ?mid"
    by (metis length_append takeWhile_dropWhile_id)
  moreover have "length (takeWhile is_ows (rev (dropWhile is_ows ?mid))) \<le> length (dropWhile is_ows ?mid)"
    by (metis length_rev length_takeWhile_le)
  ultimately have "length (takeWhile is_ows ?mid) + length (takeWhile is_ows (rev (dropWhile is_ows ?mid))) \<le> stop - start"
    using len by linarith
  moreover have "s = start + length (takeWhile is_ows ?mid)" "e = stop - length (takeWhile is_ows (rev (dropWhile is_ows ?mid)))"
    using assms(1) by (auto simp: trimOWSRange_def Let_def)
  ultimately show ?thesis using assms(2) by linarith
qed

lemma extends_cookie_pair:
  assumes ext: "extends tx0 tx" and base: "in_arena (tx_arena tx0) base" "length data = unat (Len base)"
    and ok0: "arena_ok (tx_arena tx0)" and "start \<le> stop" "stop \<le> length data"
    and eq: "recordCookiePair base data start stop (tx, k) = ((tx', k'), ok)"
  shows "extends tx0 tx'"
proof -
  obtain s e where t: "trimOWSRange data start stop = (s, e)" by fastforce
  from trimOWSRange_bounds [OF t] assms have se: "s \<le> e" "e \<le> length data" by auto
  obtain ne vs where cut: "(case IndexByte (take (e - s) (drop s data)) 61 of
      Some j \<Rightarrow> (s + j, s + j + 1) | None \<Rightarrow> (e, s)) = (ne, vs)" by fastforce
  have nv: "s \<le> ne" "ne \<le> e" "vs \<le> e" 
    using cut se by (auto split: option.splits dest!: IndexByte_Some)
  obtain s1 e1 where t1: "trimOWSRange data s ne = (s1, e1)" by fastforce
  obtain s2 e2 where t2: "trimOWSRange data vs e = (s2, e2)" by fastforce
  have n: "in_arena (tx_arena tx0) (subSpan base s1 e1)"
    using trimOWSRange_bounds [OF t1] nv se base by (intro subSpan_in [OF ok0]) auto
  have v: "in_arena (tx_arena tx0) (subSpan base s2 e2)"
    using trimOWSRange_bounds [OF t2] nv se base by (intro subSpan_in [OF ok0]) auto
  show ?thesis
    using eq t cut t1 t2 ext n v
    by (auto simp: recordCookiePair_def Let_def split: if_splits intro!: extends_append)
qed

lemma extends_cookie_loop:
  assumes "in_arena (tx_arena tx0) base" "length data = unat (Len base)" "arena_ok (tx_arena tx0)"
  shows "extends tx0 tx \<Longrightarrow> cookie_loop base data start (tx, k) = ((tx', k'), ok) \<Longrightarrow> extends tx0 tx'"
proof (induction "Suc (length data) - start" arbitrary: start tx k rule: less_induct)
  case less
  show ?case
  proof (cases "start \<le> length data")
    case True
    let ?stop = "start + length (takeWhile (\<lambda>c. c \<noteq> 59) (drop start data))"
    obtain tx1 k1 ok1 where pair: "recordCookiePair base data start ?stop (tx, k) = ((tx1, k1), ok1)"
      by (metis prod.collapse)
    have "?stop \<le> length data" using True length_takeWhile_le [of _ "drop start data"]
      by (metis add.commute le_diff_conv2 length_drop)
    then have e: "extends tx0 tx1"
      using extends_cookie_pair [OF less.prems(1) assms _ _ pair] by simp
    have step: "cookie_loop base data start (tx, k) =
        (if \<not> ok1 then ((tx1, k1), False) else cookie_loop base data (?stop + 1) (tx1, k1))"
      using True by (subst cookie_loop.simps) (simp add: Let_def pair)
    show ?thesis
    proof (cases ok1)
      case True
      have "Suc (length data) - (?stop + 1) < Suc (length data) - start" using \<open>start \<le> length data\<close> by simp
      from less.hyps [OF this e] less.prems(2) step True show ?thesis by simp
    next
      case False
      with less.prems step e show ?thesis by auto
    qed
  next
    case False
    with less.prems show ?thesis by (subst (asm) cookie_loop.simps) simp
  qed
qed

lemma extends_cookies:
  assumes "tx_wf tx" "fin \<le> length (tx_values tx)" "recordCookies fin tx = (tx', ok)"
  shows "extends tx tx'"
proof -
  have "extends tx (fst (fst (iter_while cookie_header [0..<fin] (tx, 0))))"
  proof (rule iter_while_preserves [where P = "\<lambda>s. extends tx (fst s)"])
    show "extends tx (fst (tx, 0))" using assms(1) by (simp add: extends_def)
    show "extends tx (fst (fst (cookie_header i s)))" if i: "i \<in> set [0..<fin]" and s: "extends tx (fst s)" for i s
    proof -
      obtain t k where s': "s = (t, k)" by fastforce
      obtain t' k' b where c: "cookie_header i (t, k) = ((t', k'), b)" by (metis prod.collapse)
      have "i < length (tx_values t)" "tx_wf t" "tx_arena t = tx_arena tx"
        using i s s' assms(2) by (auto simp: extends_def)
      then have h: "holds_value (tx_arena tx) (tx_values t ! i) (tx_spans t ! i)" using wf_value(1) [of t i] by simp
      have ok0: "arena_ok (tx_arena tx)" using assms(1) by (simp add: tx_wf_def)
      have base: "in_arena (tx_arena tx) (vs_data (tx_spans t ! i))"
        "length (v_bytes (tx_values t ! i)) = unat (Len (vs_data (tx_spans t ! i)))"
        using h resolve_length [OF ok0] by (simp_all add: holds_value_def)
      have "extends tx t'"
        using c s s' extends_cookie_loop [OF base ok0, of t 0 k t' k' b]
        by (auto simp: cookie_header_def Let_def split: if_splits)
      then show ?thesis by (simp add: s' c)
    qed
  qed
  then show ?thesis using assms(3) by (auto simp: recordCookies_def split: prod.splits)
qed

lemma queryCut_bounds: "tx_wf tx \<Longrightarrow> queryCut tx \<le> int (length (tx_values tx))"
  by (auto simp: queryCut_def tx_wf_def Let_def)

lemma wf_headerViews: "tx_wf tx \<Longrightarrow> deriveHeaderViews tx = (tx', ok) \<Longrightarrow> tx_wf tx'"
proof -
  assume wf: "tx_wf tx" and eq: "deriveHeaderViews tx = (tx', ok)"
  let ?tx = "tx\<lparr>tx_headerViewsDone := True\<rparr>"
  have wf': "tx_wf ?tx" using wf by simp
  let ?fin = "queryCut ?tx"
  have fin: "?fin \<le> int (length (tx_values ?tx))" by (rule queryCut_bounds [OF wf'])
  have copied: "extends ?tx (copyArgs 0 ?fin TargetArgsGet ?tx)" by (rule extends_copyArgs [OF wf' fin])
  have cookies: "tx_wf tx'" if "recordCookies (nat ?fin) t = (tx', ok)" "extends ?tx t" for t
    using extends_cookies [OF _ _ that(1)] that(2) fin by (auto simp: extends_def)
  have self: "extends ?tx ?tx" using wf' by (simp add: extends_def)
  show ?thesis
    using eq wf wf' copied cookies self
    by (auto simp: deriveHeaderViews_def Let_def extends_def split: if_splits)
qed

lemma wf_joinArgs:
  assumes wf: "tx_wf tx"
  shows "tx_wf (joinArgs n tx)"
proof -
  let ?spans = "arg_spans n tx"
  let ?total = "sum_list (map (unat \<circ> Len) ?spans)"
  have ok0: "arena_ok (tx_arena tx)" using wf by (simp add: tx_wf_def)
  have "\<forall>(v, sp) \<in> set (zip (tx_values tx) (tx_spans tx)). holds_value (tx_arena tx) v sp"
    using wf by (auto simp: tx_wf_def list_all2_iff)
  then have sp: "\<forall>s \<in> set ?spans. in_arena (tx_arena tx) s"
    by (auto simp: arg_spans_def holds_value_def dest!: in_set_takeD)
  obtain a s ok where al: "arena_Alloc (int ?total) (tx_arena tx) = (a, s, ok)" by (metis prod_cases3)
  let ?joined = "concat (map (arena_Resolve a) ?spans)"
  show ?thesis
  proof (cases ok)
    case False
    with wf_alloc_write(1) [OF wf al, of "replicate ?total 0"] wf al show ?thesis
      by (simp add: joinArgs_def Let_def wf_noteOversize)
  next
    case True
    have "arena_ok a \<and> a_len (tx_arena tx) \<le> a_len a" using Alloc_grows [of ?total _ a s] al True ok0 grows_len by (auto simp: grows_def)
    then have "length (arena_Resolve a s) = unat (Len s)" if "s \<in> set ?spans" for s
      using sp that resolve_length [of a s] by (auto simp: in_arena_def)
    then have "length ?joined = ?total"
      by (simp add: length_concat comp_def cong: map_cong)
    then have len: "length (take ?total ?joined) = ?total" by simp
    from wf_alloc_write(2) [OF wf al len True]
    have "tx_wf (appendValue (plain_target TargetArgsJoined) span_zero s False
        (tx\<lparr>tx_arena := arena_write (a_len (tx_arena tx)) (take ?total ?joined) a\<rparr>))"
      by (intro wf_append) (auto simp: span_zero_def in_arena_def)
    with wf al True show ?thesis
      by (simp add: joinArgs_def Let_def wf_noteOversize)
  qed
qed

lemma wf_bodyViews: "tx_wf tx \<Longrightarrow> tx_wf (deriveBodyViews tx)"
proof -
  assume wf: "tx_wf tx"
  let ?tx = "tx\<lparr>tx_bodyViewsDone := True\<rparr>"
  have wf': "tx_wf ?tx" using wf by simp
  have "tx_wf (copyArgs (queryCut ?tx) (int (length (tx_values tx))) TargetArgsPost ?tx)"
    using extends_copyArgs [OF wf', of "int (length (tx_values tx))"] by (simp add: extends_def)
  with wf wf' show ?thesis by (simp add: deriveBodyViews_def Let_def wf_joinArgs)
qed

section \<open>Phases\<close>

lemma wf_finish: "tx_wf tx \<Longrightarrow> finish d tx = (tx', d') \<Longrightarrow> tx_wf tx'"
  by (auto simp: finish_def Let_def intro: wf_stored [THEN iffD1, rotated] simp: stored_def split: if_splits)

lemmas refusals = budgetExhausted_def tx_undecidable_input_def undecodableBody_def oversizeExceeded_def
  limitExceeded_def framingAmbiguous_def unexpected_body_def

lemma wf_refuse:
  "tx_wf tx \<Longrightarrow> budgetExhausted tx = (tx', d) \<Longrightarrow> tx_wf tx'"
  "tx_wf tx \<Longrightarrow> tx_undecidable_input why tx = (tx', d) \<Longrightarrow> tx_wf tx'"
  "tx_wf tx \<Longrightarrow> undecodableBody u tx = (tx', d) \<Longrightarrow> tx_wf tx'"
  "tx_wf tx \<Longrightarrow> oversizeExceeded tx = (tx', d) \<Longrightarrow> tx_wf tx'"
  "tx_wf tx \<Longrightarrow> limitExceeded tx = (tx', d) \<Longrightarrow> tx_wf tx'"
  "tx_wf tx \<Longrightarrow> framingAmbiguous tx = (tx', d) \<Longrightarrow> tx_wf tx'"
  "tx_wf tx \<Longrightarrow> unexpected_body tx = (tx', d) \<Longrightarrow> tx_wf tx'"
  "tx_wf tx \<Longrightarrow> schemaViolation tx = Some (tx', d) \<Longrightarrow> tx_wf tx'"
  by (auto simp: refusals schemaViolation_def dest: wf_finish split: if_splits)

lemma wf_refresh: "tx_wf tx \<Longrightarrow> tx_wf (refreshValues tx)"
proof -
  assume wf: "tx_wf tx"
  then have ok0: "arena_ok (tx_arena tx)" and l: "list_all2 (holds_value (tx_arena tx)) (tx_values tx) (tx_spans tx)"
    by (simp_all add: tx_wf_def)
  have "list_all2 (holds_value (tx_arena tx)) (map (refresh_value (tx_arena tx)) (zip (tx_values tx) (tx_spans tx))) (tx_spans tx)"
    using l span_slice_bytes [OF ok0]
    by (auto simp: list_all2_conv_all_nth refresh_value_def holds_value_def v_bytes_def)
  with wf show ?thesis
    using list_all2_lengthD [OF l] by (simp add: tx_wf_def refreshValues_def tx_limits_def)
qed

lemma stored_exceptions: "stored (applyExceptions tx) = stored tx"
  by (auto simp: applyExceptions_def Let_def stored_def split: prod.split)

lemma wf_decide: "tx_wf tx \<Longrightarrow> decide_phase tx = (tx', d) \<Longrightarrow> tx_wf tx'"
proof -
  assume wf: "tx_wf tx" and eq: "decide_phase tx = (tx', d)"
  have "tx_wf ((applyExceptions tx)\<lparr>tx_score := x, tx_evaluated := n\<rparr>)" for x n
    using wf wf_stored [of "(applyExceptions tx)\<lparr>tx_score := x, tx_evaluated := n\<rparr>" tx] stored_exceptions [of tx]
    by (simp add: stored_def)
  with eq show ?thesis
    by (auto simp: decide_phase_def Let_def dest: wf_refuse wf_finish [rotated] split: if_splits)
qed

lemma wf_runPhase: "tx_wf (p_client p) \<Longrightarrow> runPhase E phase p = Some (p', d) \<Longrightarrow> tx_wf (p_client p')"
proof -
  assume wf: "tx_wf (p_client p)" and eq: "runPhase E phase p = Some (p', d)"
  let ?q = "on_tx refreshValues (runResolvers E phase (on_tx (\<lambda>tx. tx\<lparr>tx_phase := phase\<rparr>) p))"
  have q: "tx_wf (p_client ?q)" using wf by (simp add: on_tx_def wf.runResolvers wf_refresh)
  have ev: "tx_wf tx" if "evaluate_phase E phase (p_client ?q) = Some tx" for tx
    using that q by (auto simp: evaluate_phase_def tx_wf_def tx_limits_def)
  show ?thesis
  proof (cases "tx_decided (p_client p)")
    case True
    with eq wf show ?thesis by (simp add: runPhase_def)
  next
    case False
    with eq obtain tx where e: "evaluate_phase E phase (p_client ?q) = Some tx"
      and r: "tx_returns ?q (decide_phase tx) = Some (p', d)"
      by (auto simp: runPhase_def Let_def split: option.splits)
    obtain tx' d' where dec: "decide_phase tx = (tx', d')" by fastforce
    from wf_decide [OF ev [OF e] dec] r dec show ?thesis by (auto simp: tx_returns_def)
  qed
qed

lemma wf_returns: "tx_returns p r = Some (p', d) \<Longrightarrow> tx_wf (fst r) \<Longrightarrow> tx_wf (p_client p')"
  by (auto simp: tx_returns_def split: prod.splits)

lemma stored_check_framing: "stored (check_framing tx) = stored tx"
  by (simp add: check_framing_def setFramingConflict_def Let_def stored_def del: ascii_simps)

lemma wf_refuse_fst:
  "tx_wf tx \<Longrightarrow> tx_wf (fst (oversizeExceeded tx))" "tx_wf tx \<Longrightarrow> tx_wf (fst (limitExceeded tx))"
  "tx_wf tx \<Longrightarrow> tx_wf (fst (framingAmbiguous tx))" "tx_wf tx \<Longrightarrow> tx_wf (fst (unexpected_body tx))"
  "tx_wf tx \<Longrightarrow> tx_wf (fst (undecodableBody u tx))"
  "tx_wf tx \<Longrightarrow> schemaViolation tx = Some r \<Longrightarrow> tx_wf (fst r)"
  by (metis wf_refuse prod.collapse)+

lemma wf_ProcessRequestHeaders:
  assumes wf: "tx_wf (p_client p)" and eq: "ProcessRequestHeaders E p = Some (p', d)"
  shows "tx_wf (p_client p')"
proof -
  let ?tx = "if tx_queryEnd (p_client p) < 0
    then (p_client p)\<lparr>tx_queryEnd := int (length (tx_values (p_client p)))\<rparr> else p_client p"
  have w1: "tx_wf ?tx" using wf by (simp add: wf_marks(2))
  have w2: "tx_wf (check_framing ?tx)" using w1 wf_stored [OF stored_check_framing] by blast
  obtain q ok where v: "deriveHeaderViews (check_framing ?tx) = (q, ok)" by fastforce
  have w3: "tx_wf q" by (rule wf_headerViews [OF w2 v])
  have run: "tx_wf (p_client p')" if "runPhase E PhaseRequestHeaders (p\<lparr>p_client := q\<rparr>) = Some (p', d)"
    using wf_runPhase [OF _ that] w3 by simp
  show ?thesis
    using eq w1 w2 w3 v run unfolding ProcessRequestHeaders_def Let_def
    by (auto split: if_split_asm option.splits bool.splits dest!: wf_returns intro: wf_refuse_fst)
qed

lemma wf_body_violation: "tx_wf (body_violation tx) = tx_wf tx"
  by (rule wf_stored) (auto simp: body_violation_def stored_def Let_def split: option.split)

lemma wf_ProcessRequestBody:
  assumes wf: "tx_wf (p_client p)" and eq: "ProcessRequestBody E p = Some (p', d)"
  shows "tx_wf (p_client p')"
proof -
  let ?tx = "body_violation (p_client p)"
  have w1: "tx_wf ?tx" using wf by (simp add: wf_body_violation)
  obtain q ok where v: "deriveHeaderViews ?tx = (q, ok)" by fastforce
  have w2: "tx_wf q" by (rule wf_headerViews [OF w1 v])
  then have w3: "tx_wf (deriveBodyViews q)" by (rule wf_bodyViews)
  have run: "tx_wf (p_client p')" if "runPhase E PhaseRequestBody (p\<lparr>p_client := t\<rparr>) = Some (p', d)" "tx_wf t" for t
    using wf_runPhase [OF _ that(1)] that(2) by simp
  show ?thesis
    using eq wf w1 w2 w3 v run unfolding ProcessRequestBody_def Let_def
    by (auto split: if_split_asm option.splits bool.splits dest!: wf_returns intro: wf_refuse_fst)
qed

section \<open>The response\<close>

lemma wf_respSpan: "tx_wf tx \<Longrightarrow> in_arena (tx_arena tx) sp \<Longrightarrow> tx_wf (tx\<lparr>tx_respBodySpan := sp\<rparr>)"
  "tx_wf tx \<Longrightarrow> in_arena (tx_arena tx) sp \<Longrightarrow> tx_wf (tx\<lparr>tx_respKeySpan := sp\<rparr>)"
  by (simp_all add: tx_wf_def tx_limits_def)

lemma wf_startResponseBody:
  assumes wf: "tx_wf tx" and eq: "startResponseBody n tx = (tx', ok)"
  shows "tx_wf tx'"
proof -
  obtain a key ok1 where k: "arena_Append responseBodyKey (tx_arena tx) = (a, key, ok1)" by (metis prod_cases3)
  have ok0: "arena_ok (tx_arena tx)" using wf by (simp add: tx_wf_def)
  note g = Append_grows [OF ok0 k]
  have w1: "tx_wf (tx\<lparr>tx_arena := a\<rparr>)" by (rule wf_arena [OF wf g(1)])
  have oka: "arena_ok a" using g(1) by (simp add: grows_def)
  have w2: "tx_wf (tx\<lparr>tx_arena := a, tx_respKeySpan := key\<rparr>)" if ok1
    using wf_respSpan(2) [OF w1, of key] g(2) that by simp
  have w3: "tx_wf (tx\<lparr>tx_arena := a, tx_respKeySpan := key\<rparr>\<lparr>tx_arena := fst (arena_Grow k a)\<rparr>)" if ok1 for k
    using wf_arena [OF w2 [OF that], of "fst (arena_Grow k a)"] Grow_grows [OF oka, of k] by simp
  show ?thesis using eq k w1 w3 by (auto simp: startResponseBody_def Let_def split: if_splits)
qed

text \<open>The chunk is added to the part of the arena the body has, or the body moves to the end.\<close>

lemma appendResponseChunk_bytes:
  assumes wf: "tx_wf tx" and eq: "appendResponseChunk chunk tx = (tx', ok)"
  shows "tx_wf tx'" and "ok \<Longrightarrow> arena_Resolve (tx_arena tx') (tx_respBodySpan tx') =
    arena_Resolve (tx_arena tx) (tx_respBodySpan tx) @ chunk"
proof -
  let ?a = "tx_arena tx" and ?body = "tx_respBodySpan tx"
  have ok0: "arena_ok ?a" and body: "in_arena ?a ?body" using wf by (simp_all add: tx_wf_def)
  have small: "a_len ?a < 2 ^ 32" using ok0 by (simp add: arena_ok_def)
  have "tx_wf tx' \<and> (ok \<longrightarrow> arena_Resolve (tx_arena tx') (tx_respBodySpan tx') = arena_Resolve ?a ?body @ chunk)"
  proof (cases "0 < Len ?body \<and> unat (span_End ?body) \<noteq> a_len ?a")
    case True
    let ?bs = "arena_Resolve ?a ?body @ chunk"
    obtain a moved ok1 where al: "arena_Alloc (int (unat (Len ?body) + length chunk)) ?a = (a, moved, ok1)"
      by (metis prod_cases3)
    have len: "length ?bs = unat (Len ?body) + length chunk" using resolve_length [OF ok0 body] by simp
    note w = wf_alloc_write [OF wf al len]
    show ?thesis
    proof (cases ok1)
      case True
      then have ap: "arena_Append ?bs ?a = (arena_write (a_len ?a) ?bs a, moved, True)"
        using Alloc_write [of ?bs ?a a moved] al len by simp
      have inv: "arena_inv ?a" using ok0 by (simp add: arena_ok_def)
      have "a_len ?a + length ?bs < 2 ^ 32"
        using Append_grows [OF ok0 ap] by (auto simp: grows_def arena_ok_def)
      then have "arena_Resolve (arena_write (a_len ?a) ?bs a) moved = ?bs"
        using ba.appended_resolves(1) [OF inv ap] arena_ok_length [OF ok0] by (simp add: arena_Resolve_def)
      moreover have "arena_Resolve a ?body = arena_Resolve ?a ?body"
      proof -
        from al True have "arena_Alloc (int (unat (Len ?body) + length chunk)) ?a = (a, moved, True)" by simp
        from grows_resolve [OF ok0 Alloc_grows [OF this ok0] body] show ?thesis .
      qed
      ultimately show ?thesis
        using w(2) [OF True] eq al True \<open>0 < Len ?body \<and> _\<close> wf_respSpan(1) [of "tx\<lparr>tx_arena := arena_write (a_len ?a) ?bs a\<rparr>" moved]
        by (auto simp: appendResponseChunk_def Let_def)
    next
      case False
      with w(1) eq al \<open>0 < Len ?body \<and> _\<close> show ?thesis by (auto simp: appendResponseChunk_def Let_def)
    qed
  next
    case False
    obtain a sp ok1 where ap: "arena_Append chunk ?a = (a, sp, ok1)" by (metis prod_cases3)
    note g = Append_grows [OF ok0 ap]
    have w1: "tx_wf (tx\<lparr>tx_arena := a\<rparr>)" by (rule wf_arena [OF wf g(1)])
    have inv: "arena_inv ?a" and oka: "arena_ok a" using ok0 g(1) by (simp_all add: arena_ok_def grows_def)
    show ?thesis
    proof (cases ok1)
      case nok: False
      with eq ap w1 False show ?thesis by (auto simp: appendResponseChunk_def Let_def)
    next
      case ok1: True
      have sp: "in_arena a sp" "unat (Len sp) = length chunk" "unat (Off sp) = a_len ?a" "a_len a = a_len ?a + length chunk"
        using g ok1 by auto
      have smalla: "a_len a < 2 ^ 32" using oka by (simp add: arena_ok_def)
      have bytes: "arena_Bytes a = arena_Bytes ?a @ chunk" using Append_spec(4) [OF inv ap ok1] .
      show ?thesis
      proof (cases "Len ?body = 0")
        case zero: True
        have "arena_Resolve a sp = chunk"
          using ba.appended_resolves(1) [OF inv, of chunk a sp] ap ok1 smalla sp(4) arena_ok_length [OF ok0]
          by (simp add: arena_Resolve_def)
        moreover have "arena_Resolve ?a ?body = []" using zero by (simp add: arena_Resolve_def span_Bytes_def)
        ultimately show ?thesis
          using eq ap ok1 False zero wf_respSpan(1) [OF w1, of sp] sp(1)
          by (auto simp: appendResponseChunk_def Let_def)
      next
        case pos: False
        then have "0 < Len ?body" by (simp add: word_gt_0)
        with False have e: "unat (span_End ?body) = a_len ?a" by simp
        have at_end: "unat (Off ?body) + unat (Len ?body) = a_len ?a"
          using e body small by (simp add: span_End_def in_arena_def unat_word_ariths(1))
        let ?sp = "?body\<lparr>Len := Len ?body + Len sp\<rparr>"
        have l: "unat (Len ?body + Len sp) = unat (Len ?body) + length chunk"
          using sp at_end smalla by (simp add: unat_word_ariths(1))
        have in': "in_arena a ?sp" using l sp at_end by (simp add: in_arena_def)
        have "arena_Resolve a ?sp = arena_Resolve ?a ?body @ chunk"
          using at_end l arena_ok_length [OF ok0] oka
          by (simp add: arena_Resolve_def span_Bytes_def bytes)
        then show ?thesis
          using eq ap ok1 False pos wf_respSpan(1) [OF w1, of ?sp] in'
          by (auto simp: appendResponseChunk_def Let_def)
      qed
    qed
  qed
  then show "tx_wf tx'" "ok \<Longrightarrow> arena_Resolve (tx_arena tx') (tx_respBodySpan tx') = arena_Resolve ?a ?body @ chunk"
    by blast+
qed

lemma wf_WriteResponseBody:
  assumes wf: "tx_wf tx"
  shows "tx_wf (fst (WriteResponseBody chunk tx))"
proof -
  define t where "t = (markResponse tx)\<lparr>tx_respBodyLen := tx_respBodyLen (markResponse tx) + length chunk\<rparr>"
  have w0: "tx_wf (markResponse tx)" by (rule wf.markResponse [OF wf])
  then have w1: "tx_wf t" by (simp add: t_def)
  have lim: "tx_wf (fst (limitExceeded (s\<lparr>tx_respTruncated := True\<rparr>)))" if "tx_wf s" for s :: "('a, 'b, 'c, 'd, 'e) tx"
    using that by (simp add: wf_refuse_fst)
  obtain q ok where s: "(if Len (tx_respBodySpan t) = 0 then startResponseBody (length chunk) t else (t, True)) = (q, ok)"
    by fastforce
  have wq: "tx_wf q" using s w1 wf_startResponseBody [OF w1] by (auto split: if_splits)
  obtain r ok' where c: "appendResponseChunk chunk q = (r, ok')" by fastforce
  note wr = appendResponseChunk_bytes(1) [OF wq c]
  show ?thesis
    using w0 lim [OF w1] lim [OF wq] lim [OF wr] wr
    unfolding WriteResponseBody_def Let_def t_def [symmetric] s
    by (cases ok; cases ok') (simp_all add: c)
qed

lemma wf_recordResponseBody: "tx_wf tx \<Longrightarrow> tx_wf (recordResponseBody tx)"
  unfolding recordResponseBody_def
  by (auto simp: wf_noteOversize tx_wf_def [of tx] intro!: wf_append)

lemma wf_ProcessResponseHeaders:
  "tx_wf (p_client p) \<Longrightarrow> ProcessResponseHeaders E p = Some (p', d) \<Longrightarrow> tx_wf (p_client p')"
  unfolding ProcessResponseHeaders_def by (rule wf_runPhase) (simp_all add: on_tx_def wf.markResponse)

lemma wf_ProcessResponseBody:
  assumes wf: "tx_wf (p_client p)" and eq: "ProcessResponseBody E p = Some (p', d)"
  shows "tx_wf (p_client p')"
proof -
  define q where "q = on_tx markResponse p"
  have w1: "tx_wf (p_client q)" using wf by (simp add: q_def on_tx_def wf.markResponse)
  then have w2: "tx_wf (p_client (on_tx recordResponseBody q))" by (simp add: on_tx_def wf_recordResponseBody)
  show ?thesis
    using eq w1 wf_refuse_fst(2) [OF w1] wf_runPhase [OF w1] wf_runPhase [OF w2]
    unfolding ProcessResponseBody_def Let_def q_def [symmetric]
    by (auto split: if_splits dest!: wf_returns)
qed

section \<open>Reachable transactions\<close>

text \<open>
  What an embedder can do to a transaction. Closing it hands it to the pool, from which the same
  firewall, with whatever ruleset it has by then, may start the next one.
\<close>

inductive tx_step :: "('t, 'o, 'a, 'f, 'r) env \<Rightarrow> ('t, 'o, 'a, 'f, 'r) txn \<Rightarrow> ('t, 'o, 'a, 'f, 'r) txn \<Rightarrow> bool"
  for E where
  "tx_step E p (on_tx (SetRequestLine E method target proto) p)"
| "tx_step E p (on_tx (SetRemoteAddr addr) p)"
| "tx_step E p (on_tx (AddArgument E name v) p)"
| "tx_step E p (on_tx (AddRequestHeader name v) p)"
| "tx_step E p (on_tx (AddResolver r) p)"
| "tx_step E p (SetRequestBody E b p)"
| "ProcessRequestHeaders E p = Some (p', d) \<Longrightarrow> tx_step E p p'"
| "ProcessRequestBody E p = Some (p', d) \<Longrightarrow> tx_step E p p'"
| "tx_step E p (on_tx (SetResponseStatus status) p)"
| "tx_step E p (on_tx (AddResponseHeader name v) p)"
| "ProcessResponseHeaders E p = Some (p', d) \<Longrightarrow> tx_step E p p'"
| "tx_step E p (on_tx (fst \<circ> WriteResponseBody chunk) p)"
| "ProcessResponseBody E p = Some (p', d) \<Longrightarrow> tx_step E p p'"

inductive tx_reachable :: "('t, 'o, 'a, 'f, 'r) env \<Rightarrow> ('t, 'o, 'a, 'f) waf \<Rightarrow> ('t, 'o, 'a, 'f, 'r) txn \<Rightarrow> bool"
  for E w where
  new_tx: "tx_reachable E w (NewTransaction None (SwapRuleset rs w))"
| pooled_tx: "tx_reachable E w p \<Longrightarrow> tx_reachable E w (NewTransaction (Some (Close p)) (SwapRuleset rs w))"
| step_tx: "tx_reachable E w p \<Longrightarrow> tx_step E p p' \<Longrightarrow> tx_reachable E w p'"

lemma wf_step: "tx_step E p p' \<Longrightarrow> tx_wf (p_client p) \<Longrightarrow> tx_wf (p_client p')"
  by (induction rule: tx_step.induct)
    (simp_all add: on_tx_def wf.SetRequestLine wf.SetRemoteAddr wf.AddArgument wf.AddRequestHeader wf.AddResolver
      wf.SetRequestBody wf.SetResponseStatus wf.AddResponseHeader wf_WriteResponseBody,
      (blast intro: wf_ProcessRequestHeaders wf_ProcessRequestBody wf_ProcessResponseHeaders wf_ProcessResponseBody)+)

lemma wf_reset:
  assumes "0 < MaxArenaSize (tx_limits tx)" "MaxArenaSize (tx_limits tx) < 2 ^ 32"
  shows "tx_wf (tx_reset rs tx)"
  using assms Reset_spec(1) [of "arena_SetLimit (MaxArenaSize (tx_limits tx)) (tx_arena tx)"]
  by (auto simp: tx_wf_def tx_reset_def arena_ok_def tx_limits_def in_arena_def span_zero_def arena_Reset_def arena_SetLimit_def)

text \<open>The configuration a transaction was made with stays.\<close>

lemma cfg_reset [simp]: "tx_cfg (tx_reset rs tx) = tx_cfg tx"
  by (simp add: tx_reset_def)

lemma wf_new:
  assumes "0 < MaxArenaSize (cfg_limits (w_cfg w))" "MaxArenaSize (cfg_limits (w_cfg w)) < 2 ^ 32"
  shows "tx_wf (p_client (NewTransaction None (SwapRuleset rs w)))"
proof -
  have "w_cfg (SwapRuleset rs w) = w_cfg w" by (simp add: SwapRuleset_def split: option.split)
  then show ?thesis
    using assms by (simp add: NewTransaction_def on_tx_def wf_reset tx_limits_def newTransaction_def)
qed

lemma wf_pooled:
  assumes "tx_wf (p_client p)"
  shows "tx_wf (p_client (NewTransaction (Some (Close p)) w))"
proof -
  have "0 < MaxArenaSize (tx_limits (p_client p))" "MaxArenaSize (tx_limits (p_client p)) < 2 ^ 32"
    using assms by (simp_all add: tx_wf_def arena_ok_def)
  then show ?thesis by (simp add: NewTransaction_def on_tx_def Close_def wf_reset tx_limits_def)
qed

lemma reachable_wf:
  assumes "tx_reachable E w p" "0 < MaxArenaSize (cfg_limits (w_cfg w))" "MaxArenaSize (cfg_limits (w_cfg w)) < 2 ^ 32"
  shows "tx_wf (p_client p)"
  using assms(1) by (induction rule: tx_reachable.induct) (simp_all add: wf_new [OF assms(2,3)] wf_pooled wf_step)

lemma refresh_same:
  assumes "tx_wf tx"
  shows "map v_Key (tx_values (refreshValues tx)) = map v_Key (tx_values tx)"
    and "map v_bytes (tx_values (refreshValues tx)) = map v_bytes (tx_values tx)"
proof -
  have l: "list_all2 (holds_value (tx_arena tx)) (tx_values tx) (tx_spans tx)"
    and l': "list_all2 (holds_value (tx_arena tx)) (tx_values (refreshValues tx)) (tx_spans tx)"
    using assms wf_refresh [OF assms] by (simp_all add: tx_wf_def refreshValues_def)
  then have "list_all2 (\<lambda>v v'. v_Key v' = v_Key v \<and> v_bytes v' = v_bytes v) (tx_values tx) (tx_values (refreshValues tx))"
    by (auto simp: list_all2_conv_all_nth holds_value_def)
  then show "map v_Key (tx_values (refreshValues tx)) = map v_Key (tx_values tx)"
    "map v_bytes (tx_values (refreshValues tx)) = map v_bytes (tx_values tx)"
    by (auto simp: list_all2_conv_all_nth intro: nth_equalityI)
qed

text \<open>Writing one chunk, in terms of the bytes of the body.\<close>

definition response_bytes :: "('t, 'o, 'a, 'f, 'r) tx \<Rightarrow> gobytes" where
  "response_bytes tx = arena_Resolve (tx_arena tx) (tx_respBodySpan tx)"

lemma limitExceeded_truncated: "tx_respTruncated (fst (limitExceeded tx)) = tx_respTruncated tx"
  by (simp add: limitExceeded_def finish_def Let_def)

lemma startResponseBody_bytes:
  "startResponseBody n tx = (tx', ok) \<Longrightarrow> Len (tx_respBodySpan tx) = 0 \<Longrightarrow>
   response_bytes tx' = [] \<and> tx_respTruncated tx' = tx_respTruncated tx \<and> response_bytes tx = []"
  by (auto simp: startResponseBody_def Let_def response_bytes_def arena_Resolve_def span_Bytes_def split: prod.splits if_splits)

lemma write_bytes:
  assumes wf: "tx_wf tx" and w: "WriteResponseBody chunk tx = (tx', d)" and open_: "\<not> tx_respTruncated tx'"
  shows "response_bytes tx' = response_bytes tx @ chunk" and "\<not> tx_respTruncated tx"
proof -
  define t where "t = (markResponse tx)\<lparr>tx_respBodyLen := tx_respBodyLen (markResponse tx) + length chunk\<rparr>"
  have w1: "tx_wf t" using wf.markResponse [OF wf] by (simp add: t_def)
  have t: "response_bytes t = response_bytes tx" "tx_respTruncated t = tx_respTruncated tx"
    "response_bytes (markResponse tx) = response_bytes tx" "tx_respTruncated (markResponse tx) = tx_respTruncated tx"
    by (simp_all add: t_def markResponse_def response_bytes_def)
  have lim: "\<not> limitExceeded (s\<lparr>tx_respTruncated := True\<rparr>) = (tx', d)" for s :: "('a, 'b, 'c, 'd, 'e) tx"
    using open_ limitExceeded_truncated [of "s\<lparr>tx_respTruncated := True\<rparr>"] by auto
  obtain q ok where s: "(if Len (tx_respBodySpan t) = 0 then startResponseBody (length chunk) t else (t, True)) = (q, ok)"
    by fastforce
  have q: "tx_wf q" "response_bytes q = response_bytes t" "tx_respTruncated q = tx_respTruncated t"
    using s w1 wf_startResponseBody [OF w1] startResponseBody_bytes [of "length chunk" t q ok] by (auto split: if_splits)
  obtain r ok' where c: "appendResponseChunk chunk q = (r, ok')" by fastforce
  have r: "tx_respTruncated r = tx_respTruncated q"
    using c by (auto simp: appendResponseChunk_def Let_def split: prod.splits if_splits)
  have "response_bytes tx' = response_bytes tx @ chunk \<and> \<not> tx_respTruncated tx"
  proof (cases "chunk = []")
    case True
    with w open_ t show ?thesis by (auto simp: WriteResponseBody_def Let_def)
  next
    case False
    then have "(if MaxBodySize (tx_limits t) < int (tx_respBodyLen t) then limitExceeded (t\<lparr>tx_respTruncated := True\<rparr>)
        else case (q, ok) of
          (s, False) \<Rightarrow> limitExceeded (s\<lparr>tx_respTruncated := True\<rparr>)
        | (s, True) \<Rightarrow> (case appendResponseChunk chunk s of
               (s, False) \<Rightarrow> limitExceeded (s\<lparr>tx_respTruncated := True\<rparr>)
             | (s, True) \<Rightarrow> (s, tx_Decision s))) = (tx', d)"
      using w unfolding WriteResponseBody_def Let_def t_def [symmetric] s by simp
    with lim have "ok" "ok'" "r = tx'" by (cases ok; cases ok'; auto simp: c split: if_splits)+
    with appendResponseChunk_bytes(2) [OF q(1) c] open_ q t r show ?thesis by (simp add: response_bytes_def)
  qed
  then show "response_bytes tx' = response_bytes tx @ chunk" "\<not> tx_respTruncated tx" by simp_all
qed

text \<open>A chunk that fits the body limit and the arena is not refused.\<close>

lemma Append_ok: "arena_ok a \<Longrightarrow> int (a_len a + length src) \<le> a_limit a \<Longrightarrow> snd (snd (arena_Append src a))"
  using Append_spec(3) [of a src] by (cases "arena_Append src a") (auto simp: arena_ok_def)

lemma write_fits:
  assumes wf: "tx_wf tx" and "\<not> tx_respTruncated tx" and "Len (tx_respBodySpan tx) = 0"
    and "int (tx_respBodyLen tx + length chunk) \<le> MaxBodySize (tx_limits tx)"
    and "int (a_len (tx_arena tx) + 4 + length chunk) \<le> MaxArenaSize (tx_limits tx)"
  shows "\<not> tx_respTruncated (fst (WriteResponseBody chunk tx))"
proof (cases "chunk = []")
  case True
  with assms(2) show ?thesis by (simp add: WriteResponseBody_def Let_def markResponse_def)
next
  case False
  define t where "t = (markResponse tx)\<lparr>tx_respBodyLen := tx_respBodyLen (markResponse tx) + length chunk\<rparr>"
  have t: "tx_wf t" "tx_respTruncated t = tx_respTruncated tx" "tx_respBodySpan t = tx_respBodySpan tx"
    "tx_arena t = tx_arena tx" "tx_cfg t = tx_cfg tx" "tx_respBodyLen t = tx_respBodyLen tx + length chunk"
    using wf.markResponse [OF wf] by (simp_all add: t_def) (simp_all add: markResponse_def)
  have ok0: "arena_ok (tx_arena tx)" and lim: "a_limit (tx_arena tx) = MaxArenaSize (tx_limits tx)"
    using wf by (simp_all add: tx_wf_def)
  have key: "length responseBodyKey = 4" by (simp add: responseBodyKey_def)
  obtain a ks ok where k: "arena_Append responseBodyKey (tx_arena tx) = (a, ks, ok)" by (metis prod_cases3)
  note g = Append_grows [OF ok0 k]
  have ok using Append_ok [OF ok0, of responseBodyKey] assms(5) k key lim by simp
  define b where "b = fst (arena_Grow (max (tx_respDeclared t) (int (length chunk))) a)"
  have oka: "arena_ok a" using g(1) by (simp add: grows_def)
  have "a_len (fst (arena_Grow n a)) = a_len a" for n
    using Grow_spec(3) [of a n "fst (arena_Grow n a)" "snd (arena_Grow n a)"] oka by (simp add: arena_ok_def)
  then have gb: "arena_ok b" "a_limit b = MaxArenaSize (tx_limits tx)" "a_len b = a_len (tx_arena tx) + 4"
    using Grow_grows [OF oka, folded b_def] g(1) g(4) [OF \<open>ok\<close>] lim key by (auto simp: grows_def b_def)
  obtain c sp ok' where c: "arena_Append chunk b = (c, sp, ok')" by (metis prod_cases3)
  have ok' using Append_ok [OF gb(1), of chunk] gb(2,3) assms(5) c by simp
  let ?q = "t\<lparr>tx_arena := b, tx_respKeySpan := ks\<rparr>"
  have s: "startResponseBody (length chunk) t = (?q, True)"
    using k \<open>ok\<close> t(4) by (simp add: startResponseBody_def Let_def b_def)
  have ch: "appendResponseChunk chunk ?q = (?q\<lparr>tx_arena := c, tx_respBodySpan := sp\<rparr>, True)"
    using c \<open>ok'\<close> t(3) assms(3) by (simp add: appendResponseChunk_def Let_def)
  have "\<not> MaxBodySize (tx_limits t) < int (tx_respBodyLen t)" using assms(4) t by (simp add: tx_limits_def)
  then show ?thesis
    using False assms(2,3) s ch t unfolding WriteResponseBody_def Let_def t_def [symmetric] by simp
qed

definition write_chunks :: "gobytes list \<Rightarrow> ('t, 'o, 'a, 'f, 'r) tx \<Rightarrow> ('t, 'o, 'a, 'f, 'r) tx" where
  "write_chunks chunks tx = fold (\<lambda>chunk tx. fst (WriteResponseBody chunk tx)) chunks tx"

lemma write_chunks_bytes:
  "tx_wf tx \<Longrightarrow> \<not> tx_respTruncated (write_chunks chunks tx) \<Longrightarrow>
   response_bytes (write_chunks chunks tx) = response_bytes tx @ concat chunks \<and> \<not> tx_respTruncated tx"
proof (induction chunks arbitrary: tx)
  case Nil
  then show ?case by (simp add: write_chunks_def)
next
  case (Cons c cs)
  obtain tx' d where w: "WriteResponseBody c tx = (tx', d)" by fastforce
  have wf': "tx_wf tx'" using wf_WriteResponseBody [OF Cons.prems(1), of c] w by simp
  have eq: "write_chunks (c # cs) tx = write_chunks cs tx'" by (simp add: write_chunks_def w)
  with Cons.IH [OF wf'] Cons.prems(2) have "response_bytes (write_chunks cs tx') = response_bytes tx' @ concat cs"
    "\<not> tx_respTruncated tx'" by auto
  with write_bytes [OF Cons.prems(1) w] eq show ?case by simp
qed

section \<open>Properties\<close>

text \<open>
  C4. Storage is typed. In every transaction that can be reached from a firewall whose arena limit is
  between 1 and 4 GiB, by any sequence of calls, whatever they are given, with reuse of closed
  transactions: values and spans are in step, every span lies inside the arena, the key and the bytes of
  every value are what its spans name however often the arena was reallocated since, and the marks that
  separate query, body and response values lie within the values. So refreshing the slices before a
  phase changes no value.
\<close>

theorem reachable_well_formed:
  assumes "0 < MaxArenaSize (cfg_limits (w_cfg w))" and "MaxArenaSize (cfg_limits (w_cfg w)) < 2 ^ 32"
    and "tx_reachable E w p"
  shows "let tx = p_client p in tx_wf tx \<and>
    map v_Key (tx_values (refreshValues tx)) = map v_Key (tx_values tx) \<and>
    map v_bytes (tx_values (refreshValues tx)) = map v_bytes (tx_values tx)"
  using reachable_wf [OF assms(3,1,2)] refresh_same [OF reachable_wf [OF assms(3,1,2)]] by (simp add: Let_def)

theorem reachable_well_formed_witness:
  "\<forall>E w. tx_wf (p_client (NewTransaction (Some (Close (on_tx (SetRequestLine E (ascii ''GET'') (ascii ''/?a=1'') [])
     (NewTransaction None (w\<lparr>w_cfg := defaultConfig\<rparr>))))) (w\<lparr>w_cfg := defaultConfig\<rparr>)))"
proof (intro allI)
  fix E :: "('a, 'b, 'c, 'd, 'e) env" and w :: "('a, 'b, 'c, 'd) waf"
  let ?w = "w\<lparr>w_cfg := defaultConfig\<rparr>"
  have "SwapRuleset None ?w = ?w" by (simp add: SwapRuleset_def)
  then have "tx_reachable E ?w (NewTransaction (Some (Close (on_tx (SetRequestLine E (ascii ''GET'') (ascii ''/?a=1'') [])
     (NewTransaction None ?w)))) ?w)"
    by (metis tx_reachable.intros tx_step.intros(1))
  from reachable_well_formed [OF _ _ this]
  show "tx_wf (p_client (NewTransaction (Some (Close (on_tx (SetRequestLine E (ascii ''GET'') (ascii ''/?a=1'') [])
     (NewTransaction None ?w)))) ?w))"
    by (simp add: Let_def defaultConfig_def DefaultLimits_def del: ascii_simps)
qed

text \<open>
  C38. A response body is seen whole. However a reachable transaction's response is cut into chunks, and
  whether the body could grow in place or had to move, the bytes it holds after they were written are
  those it held before followed by all the chunks, unless it says that the body was truncated.
\<close>

theorem response_chunks_whole:
  assumes "0 < MaxArenaSize (cfg_limits (w_cfg w))" and "MaxArenaSize (cfg_limits (w_cfg w)) < 2 ^ 32"
    and "tx_reachable E w p" and "\<not> tx_respTruncated (write_chunks chunks (p_client p))"
  shows "response_bytes (write_chunks chunks (p_client p)) = response_bytes (p_client p) @ concat chunks"
  using write_chunks_bytes [OF reachable_wf [OF assms(3,1,2)] assms(4)] by simp

theorem response_chunks_whole_witness:
  "\<forall>w. response_bytes (write_chunks [[104, 105]]
     (p_client (NewTransaction None (w\<lparr>w_cfg := defaultConfig\<rparr>) :: ('t, 'o, 'a, 'f, 'r) txn))) = [104, 105]"
proof
  fix w :: "('t, 'o, 'a, 'f) waf"
  let ?w = "w\<lparr>w_cfg := defaultConfig\<rparr>"
  let ?p = "NewTransaction None ?w :: ('t, 'o, 'a, 'f, 'r) txn"
  have "SwapRuleset None ?w = ?w" by (simp add: SwapRuleset_def)
  then have r: "tx_reachable E ?w ?p" for E using tx_reachable.new_tx [of E ?w None] by simp
  have lim: "0 < MaxArenaSize (cfg_limits (w_cfg ?w))" "MaxArenaSize (cfg_limits (w_cfg ?w)) < 2 ^ 32"
    by (simp_all add: defaultConfig_def DefaultLimits_def)
  have fresh: "tx_respBodySpan (p_client ?p) = span_zero" "tx_respBodyLen (p_client ?p) = 0"
    "\<not> tx_respTruncated (p_client ?p)" "a_len (tx_arena (p_client ?p)) = 0"
    "tx_limits (p_client ?p) = DefaultLimits"
    by (simp_all add: NewTransaction_def on_tx_def tx_reset_def newTransaction_def arena_Reset_def arena_SetLimit_def
      tx_limits_def defaultConfig_def)
  have "\<not> tx_respTruncated (write_chunks [[104, 105]] (p_client ?p))"
    using write_fits [OF reachable_wf [OF r lim], of "[104, 105]"] fresh
    by (simp add: write_chunks_def span_zero_def DefaultLimits_def)
  from response_chunks_whole [OF lim r this] show
    "response_bytes (write_chunks [[104, 105]] (p_client ?p)) = [104, 105]"
    by (simp add: response_bytes_def fresh span_zero_def arena_Resolve_def span_Bytes_def)
qed

end
