(* ===== verification/EngineState.thy ===== *)
theory EngineState
  imports EvalProps
begin

text \<open>
  What an evaluation leaves in the evaluator, however it ends: the candidate set stays well formed, so
  the evaluator can be used for the next phase, and the next transaction. The rest of the engine's
  lemmas speak of evaluations that were not cut short.
\<close>

abbreviation candidates_inv :: "('t, 'o, 'a) eval_state \<Rightarrow> bool" where
  "candidates_inv s \<equiv> bitset_inv (ev_candidates (es_ev s))"

lemma add_outputs_inv: "bitset_inv dst \<Longrightarrow> bitset_inv (fold (\<lambda>r. Bitset_Add (int (unat r))) rs dst)"
  by (induction rs arbitrary: dst) (simp_all add: bitset_inv_Add)

lemma emit_loop_inv: "emit_loop a s dst = Some d \<Longrightarrow> bitset_inv dst \<Longrightarrow> bitset_inv d"
proof (induction rule: emit_loop.raw_induct [rotated, consumes 1])
  case (1 f a s dst d)
  show ?case
  proof (cases "s = 0")
    case True
    with 1(2,3) show ?thesis by simp
  next
    case False
    from 1(1) [OF 1(2) [unfolded if_not_P [OF False]] add_outputs_inv [OF 1(3)]] show ?thesis .
  qed
qed

lemma scan_loop_inv: "scan_loop a xs s dst = Some d \<Longrightarrow> bitset_inv dst \<Longrightarrow> bitset_inv d"
proof (induction a xs s dst rule: scan_loop.induct)
  case (1 a state dst)
  then show ?case by (simp add: scan_loop.simps)
next
  case (2 a x xs state dst)
  from "2.prems" "2.IH" show ?case
    by (subst (asm) scan_loop.simps)
      (auto simp del: root_spin.simps split: if_splits prod.splits option.splits intro: emit_loop_inv)
qed

lemma scan_group_inv: "scan_group g data c m = Some (d, m', ok) \<Longrightarrow> bitset_inv c \<Longrightarrow> bitset_inv d"
  by (auto simp: scan_group_def Scan_def split: if_splits option.splits intro: scan_loop_inv)

lemma materialise_candidates [simp]: "ev_candidates (materialise v e) = ev_candidates e"
  by (simp add: materialise_def Let_def)

lemma evalRule_inv: "candidates_inv s \<Longrightarrow> candidates_inv (fst (evalRule I score cr v data t k s))"
  by (auto simp: evalRule_def Let_def split: prod.split)

lemma run_group_inv:
  assumes "candidates_inv s" "bitset_inv cands"
  shows "candidates_inv (fst (run_group I score v r k g data t cands s))"
proof -
  have u: "candidates_inv (fst (unconditional_step I score g v data t k idx s))" if "candidates_inv s" for idx s
    using evalRule_inv [OF that, of I score "g_Rules g ! idx" v data t k] by (auto simp: unconditional_step_def split: prod.splits)
  have c: "candidates_inv (fst (candidate_step I score g v data t k idx s))" if "candidates_inv s" for idx s
    using evalRule_inv [OF that, of I score "g_Rules g ! idx" v data t k] that
    by (auto simp: candidate_step_def Let_def split: prod.splits)
  obtain s1 go where s1: "(if r = 0 then iter_while (unconditional_step I score g v data t k) (g_Unconditional g) s else (s, True)) = (s1, go)"
    by fastforce
  have "candidates_inv (fst (iter_while (unconditional_step I score g v data t k) (g_Unconditional g) s))"
    by (rule iter_while_preserves [where P = candidates_inv, OF u assms(1)])
  with s1 assms(1) have i1: "candidates_inv s1" by (auto split: if_splits)
  have "candidates_inv (fst (Bitset_All (candidate_step I score g v data t k) cands s1))"
    unfolding Bitset_All_iter [OF assms(2)] by (rule iter_while_preserves [where P = candidates_inv, OF c i1])
  with i1 s1 show ?thesis by (simp add: run_group_def)
qed

lemma iter_opt_preserves:
  "iter_opt f xs s = Some (s', go) \<Longrightarrow> P s \<Longrightarrow>
   (\<And>x s s' go. P s \<Longrightarrow> f x s = Some (s', go) \<Longrightarrow> P s') \<Longrightarrow> P s'"
  by (induction xs arbitrary: s) (auto split: option.splits if_splits)

lemma eval_group_inv: "candidates_inv s \<Longrightarrow> eval_group I score v r rd g s = Some (s', go) \<Longrightarrow> candidates_inv s'"
proof -
  assume inv: "candidates_inv s" and eq: "eval_group I score v r rd g s = Some (s', go)"
  have run: "candidates_inv s'" if "run_group I score v r k g data t cands s1 = (s', go)" "candidates_inv s1" "bitset_inv cands"
    for k data t cands s1
    using run_group_inv [OF that(2,3), of I score v r k g data t] that(1) by simp
  show ?thesis
    using eq inv
    by (auto simp: eval_group_def Let_def out_of_fuel_def bitset_inv_Reset split: if_splits prod.splits option.splits
      dest!: scan_group_inv intro: run)
qed

lemma eval_reading_inv: "candidates_inv s \<Longrightarrow> eval_reading I score gs v rd s = Some (s', go) \<Longrightarrow> candidates_inv s'"
  unfolding eval_reading_def case_prod_beta
  by (erule iter_opt_preserves [where P = candidates_inv]) (simp, erule (1) eval_group_inv)

lemma readings_inv:
  "iter_opt (eval_reading I score gs v) rds s = Some (s', go) \<Longrightarrow> candidates_inv s \<Longrightarrow> candidates_inv s'"
  by (erule (1) iter_opt_preserves [where P = candidates_inv]) (erule (1) eval_reading_inv)

lemma eval_one_value_inv: "candidates_inv s \<Longrightarrow> eval_one_value I score gs v s = Some (s', go) \<Longrightarrow> candidates_inv s'"
  by (auto simp: eval_one_value_def Let_def out_of_fuel_def split: if_splits prod.splits dest!: readings_inv)

lemma values_inv:
  "iter_opt (eval_one_value I score gs) vs s = Some (s', go) \<Longrightarrow> candidates_inv s \<Longrightarrow> candidates_inv s'"
  by (erule (1) iter_opt_preserves [where P = candidates_inv]) (erule (1) eval_one_value_inv)

lemma Eval_inv:
  assumes "candidates_inv s" and "Eval I score rs phase vs s = Some s'"
  shows "candidates_inv s'"
proof (cases "Groups rs phase = []")
  case True
  with assms show ?thesis by (simp add: Eval_def)
next
  case False
  let ?s = "s\<lparr>es_ev := bindRequest vs (sizeFor rs (es_ev s))\<rparr>"
  have "candidates_inv ?s"
    using assms(1) by (simp add: bindRequest_frame sizeFor_def Let_def bitset_inv_Grow)
  with assms(2) False show ?thesis by (auto simp: Eval_def Let_def dest!: values_inv)
qed

section \<open>Rulesets in use\<close>

text \<open>A ruleset as the compiler makes it, of at most 2^32 rules.\<close>

definition compiled_ruleset :: "('t, 'o, 'a) iface \<Rightarrow> ('t, 'o, 'a) ruleset \<Rightarrow> bool" where
  "compiled_ruleset I rs \<longleftrightarrow> (\<exists>ords rules uo. (\<forall>p j. map_order_ok (ords p j)) \<and>
     Compile I ords rules uo = Some (Inr rs) \<and> length rules \<le> 2 ^ 32)"

lemma compiled_rulesetI:
  "\<forall>p j. map_order_ok (ords p j) \<Longrightarrow> Compile I ords rules uo = Some (Inr rs) \<Longrightarrow> length rules \<le> 2 ^ 32 \<Longrightarrow>
   compiled_ruleset I rs"
  unfolding compiled_ruleset_def by blast

lemma Eval_ruleset:
  assumes "compiled_ruleset I rs" "candidates_inv s" "\<not> r_Terminal (es_out s)" "\<not> r_Exhausted (es_out s)"
  shows "\<exists>s'. Eval I score rs phase vs s = Some s' \<and> candidates_inv s' \<and>
    (r_Exhausted (es_out s') \<and> \<not> free (es_meter s) \<or>
     uncounted (es_out s') = uncounted (record_hits (phase_hits I score rs phase vs (es_ev s)) (es_out s)))"
proof -
  obtain ords rules uo where c: "\<forall>p j. map_order_ok (ords p j)" "Compile I ords rules uo = Some (Inr rs)"
    "length rules \<le> 2 ^ 32"
    using assms(1) by (auto simp: compiled_ruleset_def)
  from Eval_compiled [OF c assms(2-4), of score phase vs] Eval_inv [OF assms(2)] show ?thesis by blast
qed

end
