(* ===== verification/TransactionVerdict.thy ===== *)
theory TransactionVerdict
  imports TransactionWf EngineState
begin

text \<open>
  What a phase ends with: it always returns, an allowed body went through the checks and a full
  evaluation of the recorded values, and exceptions leave nothing of a suppressed hit behind.
\<close>

section \<open>The engine of a transaction\<close>

text \<open>Recording leaves the ruleset, the evaluator and the configuration alone.\<close>

definition engine_of ::
  "('t, 'o, 'a, 'f, 'r) tx \<Rightarrow> ('t, 'o, 'a) ruleset \<times> 't evaluator \<times> ('t, 'o, 'a, 'f) config"
where
  "engine_of tx = (tx_rs tx, tx_eval tx, tx_cfg tx)"

lemma engine_beside: "beside_values tx = beside_values tx' \<Longrightarrow> engine_of tx = engine_of tx'"
  unfolding engine_of_def by (simp only: beside_fields(1,2,14) [of tx tx'])

lemma engine_recorded [simp]:
  "engine_of (recordString target key v inert tx) = engine_of tx"
  "engine_of (recordArgName parent key tx) = engine_of tx"
  "engine_of (appendValue target ks ds inert tx) = engine_of tx"
  "engine_of (copyArgs start fin kind tx) = engine_of tx"
  by (rule engine_beside, simp)+

interpretation engine: recording "\<lambda>tx. engine_of tx = x" for x
proof unfold_locales
  show "(engine_of tx = x) = (engine_of tx' = x)" if "stored tx = stored tx'" for tx tx'
    using that by (simp add: stored_def engine_of_def)
qed (simp_all, simp_all add: engine_of_def)

lemma engine_finish [simp]: "engine_of (fst (finish d tx)) = engine_of tx"
  by (simp add: finish_def Let_def engine_of_def)

lemma engine_finished: "finish d tx = (tx', d') \<Longrightarrow> engine_of tx' = engine_of tx"
  using engine_finish [of d tx] by simp

lemma engine_refused:
  "oversizeExceeded tx = (tx', d) \<Longrightarrow> engine_of tx' = engine_of tx" "limitExceeded tx = (tx', d) \<Longrightarrow> engine_of tx' = engine_of tx"
  "framingAmbiguous tx = (tx', d) \<Longrightarrow> engine_of tx' = engine_of tx" "unexpected_body tx = (tx', d) \<Longrightarrow> engine_of tx' = engine_of tx"
  "undecodableBody u tx = (tx', d) \<Longrightarrow> engine_of tx' = engine_of tx" "budgetExhausted tx = (tx', d) \<Longrightarrow> engine_of tx' = engine_of tx"
  "tx_undecidable_input why tx = (tx', d) \<Longrightarrow> engine_of tx' = engine_of tx"
  "schemaViolation tx = Some (tx', d) \<Longrightarrow> engine_of tx' = engine_of tx"
  by (auto simp: refusals schemaViolation_def dest!: engine_finished split: if_splits)

lemma engine_headerViews: "deriveHeaderViews tx = (tx', ok) \<Longrightarrow> engine_of tx' = engine_of tx"
proof -
  have v: "engine_of (s\<lparr>tx_headerViewsDone := True\<rparr>) = engine_of s" for s :: "('a, 'b, 'c, 'd, 'e) tx"
    by (simp add: engine_of_def)
  show "deriveHeaderViews tx = (tx', ok) \<Longrightarrow> ?thesis"
    by (auto simp: deriveHeaderViews_def Let_def v split: if_splits dest!: beside_cookies [THEN engine_beside])
qed

lemma engine_joinArgs [simp]: "engine_of (joinArgs fin tx) = engine_of tx"
  by (rule engine_beside) simp

lemma engine_bodyViews [simp]: "engine_of (deriveBodyViews tx) = engine_of tx"
proof -
  have v: "engine_of (s\<lparr>tx_bodyViewsDone := True\<rparr>) = engine_of s" for s :: "('a, 'b, 'c, 'd, 'e) tx"
    by (simp add: engine_of_def)
  show ?thesis by (simp add: deriveBodyViews_def Let_def v)
qed

lemma engine_exceptions [simp]: "engine_of (applyExceptions tx) = engine_of tx"
  by (auto simp: applyExceptions_def Let_def engine_of_def split: prod.split)

lemma engine_decide: "decide_phase tx = (tx', d) \<Longrightarrow> engine_of tx' = engine_of tx"
proof -
  have s: "engine_of ((applyExceptions tx)\<lparr>tx_score := x, tx_evaluated := n\<rparr>) = engine_of tx" for x n
    using engine_exceptions [of tx] by (simp add: engine_of_def)
  show "decide_phase tx = (tx', d) \<Longrightarrow> ?thesis"
    by (auto simp: decide_phase_def Let_def s split: if_splits dest!: engine_refused engine_finished)
qed

section \<open>Every phase returns\<close>

definition evaluator_ready :: "('t, 'o, 'a, 'f, 'r) tx \<Rightarrow> bool" where
  "evaluator_ready tx \<longleftrightarrow> bitset_inv (ev_candidates (tx_eval tx))"

lemma ready_engine: "engine_of tx = engine_of tx' \<Longrightarrow> evaluator_ready tx = evaluator_ready tx'"
  by (simp add: engine_of_def evaluator_ready_def)

text \<open>The transaction a phase evaluates.\<close>

definition phase_input :: "('t, 'o, 'a, 'f, 'r) env \<Rightarrow> phase \<Rightarrow> ('t, 'o, 'a, 'f, 'r) txn \<Rightarrow> ('t, 'o, 'a, 'f, 'r) txn" where
  "phase_input E phase p = on_tx refreshValues (runResolvers E phase (on_tx (\<lambda>tx. tx\<lparr>tx_phase := phase\<rparr>) p))"

lemma engine_input: "engine_of (p_client (phase_input E phase p)) = engine_of (p_client p)"
proof -
  have "engine_of (refreshValues s) = engine_of s" for s :: "('a, 'b, 'c, 'd, 'e) tx"
    by (simp add: refreshValues_def engine_of_def)
  moreover have "engine_of (p_client (runResolvers E phase (on_tx (\<lambda>tx. tx\<lparr>tx_phase := phase\<rparr>) p))) = engine_of (p_client p)"
    by (rule engine.runResolvers) (simp add: on_tx_def)
  ultimately show ?thesis by (simp add: phase_input_def on_tx_def)
qed

lemma runPhase_eq:
  "runPhase E phase p =
     (if tx_decided (p_client p) then Some (p, tx_decision (p_client p))
      else case evaluate_phase E phase (p_client (phase_input E phase p)) of
        None \<Rightarrow> None
      | Some tx \<Rightarrow> tx_returns (phase_input E phase p) (decide_phase tx))"
  unfolding runPhase_def phase_input_def Let_def by (rule refl)

lemma evaluate_ready:
  "evaluate_phase E phase tx = Some tx' \<Longrightarrow> evaluator_ready tx \<Longrightarrow> evaluator_ready tx' \<and> tx_rs tx' = tx_rs tx"
  by (auto simp: evaluate_phase_def evaluator_ready_def dest!: Eval_inv [rotated])

lemma runPhase_ready:
  assumes "runPhase E phase p = Some (p', d)" "evaluator_ready (p_client p)"
  shows "evaluator_ready (p_client p') \<and> tx_rs (p_client p') = tx_rs (p_client p)"
proof (cases "tx_decided (p_client p)")
  case True
  with assms show ?thesis by (simp add: runPhase_eq)
next
  case False
  with assms(1) obtain tx where tx: "evaluate_phase E phase (p_client (phase_input E phase p)) = Some tx"
    and r: "tx_returns (phase_input E phase p) (decide_phase tx) = Some (p', d)"
    by (auto simp: runPhase_eq split: option.splits)
  have "evaluator_ready (p_client (phase_input E phase p))" "tx_rs (p_client (phase_input E phase p)) = tx_rs (p_client p)"
    using assms(2) ready_engine [OF engine_input, of E phase p] engine_input [of E phase p] by (simp_all add: engine_of_def)
  with evaluate_ready [OF tx] have e: "evaluator_ready tx" "tx_rs tx = tx_rs (p_client p)" by simp_all
  obtain tx' d' where dec: "decide_phase tx = (tx', d')" by fastforce
  with r have p': "p_client p' = tx'" by (auto simp: tx_returns_def)
  from engine_decide [OF dec] e show ?thesis
    unfolding p' by (auto simp: engine_of_def evaluator_ready_def)
qed

lemma evaluate_returns:
  assumes "compiled_ruleset (e_iface E) (tx_rs tx)" "evaluator_ready tx"
  shows "\<exists>tx'. evaluate_phase E phase tx = Some tx'"
proof -
  let ?s = "\<lparr>es_ev = tx_eval tx, es_meter = tx_meter tx, es_out = result_Reset (tx_result tx)\<rparr>"
  have "candidates_inv ?s" "\<not> r_Terminal (es_out ?s)" "\<not> r_Exhausted (es_out ?s)"
    using assms(2) by (simp_all add: evaluator_ready_def result_Reset_def)
  from Eval_ruleset [OF assms(1) this, of "e_score E" phase "phase_values phase tx"]
  show ?thesis by (auto simp: evaluate_phase_def)
qed


text \<open>The four phases, each as what comes before its evaluation.\<close>

lemma ready_refused_fst:
  "engine_of (fst (oversizeExceeded tx)) = engine_of tx" "engine_of (fst (limitExceeded tx)) = engine_of tx"
  "engine_of (fst (framingAmbiguous tx)) = engine_of tx" "engine_of (fst (unexpected_body tx)) = engine_of tx"
  "engine_of (fst (undecodableBody u tx)) = engine_of tx" "schemaViolation tx = Some r \<Longrightarrow> engine_of (fst r) = engine_of tx"
  by (metis engine_refused prod.collapse)+

lemma engine_returns:
  "tx_returns p r = Some (p', d) \<Longrightarrow> engine_of (p_client p') = engine_of (fst r)"
  "\<exists>p' d. tx_returns p r = Some (p', d)"
  by (auto simp: tx_returns_def split: prod.splits)

definition same_rules :: "('t, 'o, 'a, 'f, 'r) tx \<Rightarrow> ('t, 'o, 'a, 'f, 'r) tx \<Rightarrow> bool" where
  "same_rules tx tx' \<longleftrightarrow> tx_rs tx' = tx_rs tx \<and> evaluator_ready tx'"

text \<open>A phase either refuses before it evaluates, or evaluates a transaction with the same engine.\<close>

definition refuses_or_runs ::
  "('t, 'o, 'a, 'f, 'r) env \<Rightarrow> phase \<Rightarrow> ('t, 'o, 'a, 'f, 'r) txn \<Rightarrow> ('t, 'o, 'a, 'f, 'r) outcome_of \<Rightarrow> bool"
where
  "refuses_or_runs E phase p out \<longleftrightarrow>
     (\<exists>q r. out = tx_returns q r \<and> engine_of (fst r) = engine_of (p_client p)) \<or>
     (\<exists>q. out = runPhase E phase q \<and> engine_of (p_client q) = engine_of (p_client p))"

lemma refuses: "engine_of (fst r) = engine_of (p_client p) \<Longrightarrow> refuses_or_runs E phase p (tx_returns q r)"
  unfolding refuses_or_runs_def by blast

lemma runs: "engine_of (p_client q) = engine_of (p_client p) \<Longrightarrow> refuses_or_runs E phase p (runPhase E phase q)"
  unfolding refuses_or_runs_def by blast

lemma shape_if: "(c \<Longrightarrow> refuses_or_runs E phase p x) \<Longrightarrow> (\<not> c \<Longrightarrow> refuses_or_runs E phase p y) \<Longrightarrow>
   refuses_or_runs E phase p (if c then x else y)"
  by simp

lemma shape_option: "(opt = None \<Longrightarrow> refuses_or_runs E phase p x) \<Longrightarrow>
   (\<And>v. opt = Some v \<Longrightarrow> refuses_or_runs E phase p (f v)) \<Longrightarrow>
   refuses_or_runs E phase p (case opt of None \<Rightarrow> x | Some v \<Rightarrow> f v)"
  by (simp split: option.split)

lemma shape_bool: "(b \<Longrightarrow> refuses_or_runs E phase p x) \<Longrightarrow> (\<not> b \<Longrightarrow> refuses_or_runs E phase p y) \<Longrightarrow>
   refuses_or_runs E phase p (case b of True \<Rightarrow> x | False \<Rightarrow> y)"
  by (simp split: bool.split)

lemmas shapes = shape_if shape_option shape_bool refuses runs

lemma phase_same:
  assumes "refuses_or_runs E phase p (Some (p', d))" "evaluator_ready (p_client p)"
  shows "same_rules (p_client p) (p_client p')"
  using assms unfolding refuses_or_runs_def
proof (elim disjE exE conjE)
  fix q r assume r: "Some (p', d) = tx_returns q r" "engine_of (fst r) = engine_of (p_client p)"
  then have "engine_of (p_client p') = engine_of (p_client p)" using engine_returns(1) [of q r p' d] by simp
  then show ?thesis using assms(2) ready_engine by (auto simp: same_rules_def engine_of_def evaluator_ready_def)
next
  fix q assume q: "Some (p', d) = runPhase E phase q" "engine_of (p_client q) = engine_of (p_client p)"
  then have "evaluator_ready (p_client q)" using assms(2) ready_engine by blast
  from runPhase_ready [OF q(1) [symmetric] this] q(2) show ?thesis by (simp add: same_rules_def engine_of_def)
qed


lemma headers_refuse_or_run: "refuses_or_runs E PhaseRequestHeaders p (ProcessRequestHeaders E p)"
proof -
  define t where "t = (if tx_queryEnd (p_client p) < 0
    then (p_client p)\<lparr>tx_queryEnd := int (length (tx_values (p_client p)))\<rparr> else p_client p)"
  define c where "c = check_framing t"
  have e1: "engine_of t = engine_of (p_client p)" by (simp add: t_def engine_of_def)
  then have e2: "engine_of c = engine_of (p_client p)"
    by (simp add: c_def check_framing_def setFramingConflict_def Let_def engine_of_def del: ascii_simps)
  obtain q ok where v: "deriveHeaderViews c = (q, ok)" by fastforce
  have e3: "engine_of q = engine_of (p_client p)" using engine_headerViews [OF v] e2 by simp
  show ?thesis
    unfolding ProcessRequestHeaders_def Let_def t_def [symmetric] c_def [symmetric] v prod.case
    by (intro shapes) (simp_all add: ready_refused_fst e1 e2 e3)
qed

lemma body_refuse_or_run: "refuses_or_runs E PhaseRequestBody p (ProcessRequestBody E p)"
proof -
  define t where "t = body_violation (p_client p)"
  have e1: "engine_of t = engine_of (p_client p)"
    by (auto simp: t_def body_violation_def engine_of_def Let_def split: option.split)
  obtain q ok where v: "deriveHeaderViews t = (q, ok)" by fastforce
  have e2: "engine_of q = engine_of (p_client p)" using engine_headerViews [OF v] e1 by simp
  define b where "b = deriveBodyViews q"
  have e3: "engine_of b = engine_of (p_client p)" using e2 by (simp add: b_def)
  have e4: "engine_of (b\<lparr>tx_bodyParseFailed := x\<rparr>) = engine_of (p_client p)" for x
    using e3 by (simp add: engine_of_def)
  show ?thesis
    unfolding ProcessRequestBody_def Let_def t_def [symmetric] v prod.case
      b_def [symmetric]
    by (intro shapes) (simp_all add: ready_refused_fst e1 e2 e3 e4 split: option.split)
qed

lemma respHeaders_refuse_or_run: "refuses_or_runs E PhaseResponseHeaders p (ProcessResponseHeaders E p)"
  unfolding ProcessResponseHeaders_def by (rule runs) (simp add: on_tx_def engine_of_def markResponse_def)

lemma respBody_refuse_or_run: "refuses_or_runs E PhaseResponseBody p (ProcessResponseBody E p)"
proof -
  define q where "q = on_tx markResponse p"
  have e1: "engine_of (p_client q) = engine_of (p_client p)" by (simp add: q_def on_tx_def engine_of_def markResponse_def)
  have e2: "engine_of (p_client (on_tx recordResponseBody q)) = engine_of (p_client p)"
    using e1 by (simp add: on_tx_def recordResponseBody_def noteOversize_def engine_of_def appendValue_def)
  show ?thesis
    unfolding ProcessResponseBody_def Let_def q_def [symmetric]
    by (intro shapes) (simp_all add: ready_refused_fst e1 e2 runs)
qed


lemma ready_WriteResponseBody: "engine_of (fst (WriteResponseBody chunk tx)) = engine_of tx"
proof -
  have u: "engine_of (s\<lparr>tx_respTruncated := True\<rparr>) = engine_of s" for s :: "('a, 'b, 'c, 'd, 'e) tx"
    by (simp add: engine_of_def)
  define t where "t = (markResponse tx)\<lparr>tx_respBodyLen := tx_respBodyLen (markResponse tx) + length chunk\<rparr>"
  have t: "engine_of t = engine_of tx" "engine_of (markResponse tx) = engine_of tx"
    by (simp_all add: t_def engine_of_def markResponse_def)
  obtain q ok where s: "(if Len (tx_respBodySpan t) = 0 then startResponseBody (length chunk) t else (t, True)) = (q, ok)"
    by fastforce
  have q: "engine_of q = engine_of t"
    using s by (auto simp: startResponseBody_def Let_def engine_of_def split: if_splits prod.splits)
  obtain r ok' where c: "appendResponseChunk chunk q = (r, ok')" by fastforce
  have r: "engine_of r = engine_of q"
    using c by (auto simp: appendResponseChunk_def Let_def engine_of_def split: if_splits prod.splits)
  show ?thesis
    unfolding WriteResponseBody_def Let_def t_def [symmetric] s
    using t q r by (cases ok; cases ok') (simp_all add: c ready_refused_fst u)
qed

lemma step_engine:
  "tx_step E p p' \<Longrightarrow> engine_of (p_client p') = engine_of (p_client p) \<or>
     (\<exists>phase d. refuses_or_runs E phase p (Some (p', d)))"
proof (induction rule: tx_step.induct)
  case (7 p p' d)
  then show ?case using headers_refuse_or_run [of E p] by auto
next
  case (8 p p' d)
  then show ?case using body_refuse_or_run [of E p] by auto
next
  case (11 p p' d)
  then show ?case using respHeaders_refuse_or_run [of E p] by auto
next
  case (13 p p' d)
  then show ?case using respBody_refuse_or_run [of E p] by auto
qed (simp_all add: on_tx_def engine.SetRequestLine engine.SetRemoteAddr engine.AddArgument engine.AddRequestHeader
    engine.AddResolver engine.SetRequestBody engine.SetResponseStatus engine.AddResponseHeader ready_WriteResponseBody)

lemma step_ready: "tx_step E p p' \<Longrightarrow> evaluator_ready (p_client p) \<Longrightarrow> same_rules (p_client p) (p_client p')"
  using step_engine [of E p p'] phase_same [of E _ p p'] ready_engine [of "p_client p'" "p_client p"]
  by (auto simp: same_rules_def engine_of_def)

lemma fresh_ready:
  "evaluator_ready (p_client (NewTransaction None w))"
  "evaluator_ready (p_client p) \<Longrightarrow> evaluator_ready (p_client (NewTransaction (Some (Close p)) w))"
  by (simp_all add: evaluator_ready_def NewTransaction_def on_tx_def tx_reset_def newTransaction_def SetOrigins_def
    Close_def NewEvaluator_def sizeFor_def Let_def evaluator_zero_def bitset_inv_Grow bitset_inv_zero)

lemma reachable_ready: "tx_reachable E w p \<Longrightarrow> evaluator_ready (p_client p)"
  by (induction rule: tx_reachable.induct) (auto simp: fresh_ready same_rules_def dest: step_ready)

section \<open>Exceptions\<close>

definition suppressed :: "exception list \<Rightarrow> gobytes \<Rightarrow> ('t, 'o, 'a) hit \<Rightarrow> bool" where
  "suppressed xs path h \<longleftrightarrow>
     Suppresses xs (ID (cr_Rule (h_Rule h))) (DerivedFrom (cr_Rule (h_Rule h))) path (h_Target h) (h_Key h) \<noteq> None"

text \<open>What a hit adds to the score.\<close>

definition hit_score :: "('t, 'o, 'a) hit \<Rightarrow> int" where
  "hit_score h =
     (if out_Kind (h_Outcome h) = ActionScore
      then (if out_Score (h_Outcome h) = 0 then severity_Score (Severity (cr_Rule (h_Rule h))) else out_Score (h_Outcome h))
      else 0)"

lemma wrap64_wrap64 [simp]:
  "wrap64 (wrap64 x - y) = wrap64 (x - y)" "wrap64 (wrap64 x + y) = wrap64 (x + y)" "wrap64 (wrap64 x) = wrap64 x"
  "wrap64 (y + wrap64 x) = wrap64 (y + x)"
  by (simp_all add: wrap64_def mod_simps algebra_simps)

lemma fold_except:
  "fold (except_hit xs path) hs (kept, wrap64 score, terminal) =
     (kept @ filter (\<lambda>h. \<not> suppressed xs path h) hs,
      wrap64 (score - sum_list (map hit_score (filter (suppressed xs path) hs))),
      terminal \<and> (\<forall>h \<in> set hs. suppressed xs path h \<longrightarrow> \<not> terminal_hit h))"
proof (induction hs arbitrary: kept score terminal)
  case (Cons h hs)
  have "except_hit xs path h (kept, wrap64 score, terminal) =
      (if suppressed xs path h then (kept, wrap64 (score - hit_score h), terminal \<and> \<not> terminal_hit h)
       else (kept @ [h], wrap64 score, terminal))"
    by (simp add: except_hit_def Let_def suppressed_def hit_score_def terminal_hit_def)
  with Cons.IH show ?case by (auto simp: algebra_simps)
qed simp

lemma record_score: "r_Score (fold record_hit hs out) = wrap64 (r_Score out + sum_list (map hit_score hs))" if "r_Score out = wrap64 (r_Score out)"
  using that
proof (induction hs arbitrary: out)
  case (Cons h hs)
  have s: "r_Score (record_hit h out) = wrap64 (r_Score out + hit_score h)"
    using Cons.prems by (simp add: record_hit_def Let_def hit_score_def)
  then have "r_Score (record_hit h out) = wrap64 (r_Score (record_hit h out))" by simp
  from Cons.IH [OF this] show ?case by (simp add: s algebra_simps)
qed simp

text \<open>The result of an evaluation that was not cut short.\<close>

definition phase_evaluation :: "('t, 'o, 'a, 'f, 'r) env \<Rightarrow> phase \<Rightarrow> ('t, 'o, 'a, 'f, 'r) tx \<Rightarrow> ('t, 'o, 'a) hit list" where
  "phase_evaluation E phase tx =
     phase_hits (e_iface E) (e_score E) (tx_rs tx) phase (phase_values phase tx) (tx_eval tx)"

lemma evaluated_result:
  assumes "compiled_ruleset (e_iface E) (tx_rs tx)" "evaluator_ready tx"
    and "evaluate_phase E phase tx = Some tx'" "\<not> r_Exhausted (tx_result tx')"
  shows "r_Hits (tx_result tx') = upto_terminal (phase_evaluation E phase tx)"
    and "r_Score (tx_result tx') = wrap64 (sum_list (map hit_score (r_Hits (tx_result tx'))))"
    and "r_Terminal (tx_result tx') \<longleftrightarrow> (\<exists>h \<in> set (r_Hits (tx_result tx')). terminal_hit h)"
    and "\<not> r_Undecidable (tx_result tx')"
proof -
  let ?s = "\<lparr>es_ev = tx_eval tx, es_meter = tx_meter tx, es_out = result_Reset (tx_result tx)\<rparr>"
  let ?hits = "phase_evaluation E phase tx"
  have pre: "candidates_inv ?s" "\<not> r_Terminal (es_out ?s)" "\<not> r_Exhausted (es_out ?s)"
    using assms(2) by (simp_all add: evaluator_ready_def result_Reset_def)
  from assms(3) obtain s' where s': "Eval (e_iface E) (e_score E) (tx_rs tx) phase (phase_values phase tx) ?s = Some s'"
    "tx_result tx' = es_out s'"
    by (auto simp: evaluate_phase_def)
  with Eval_ruleset [OF assms(1) pre, of "e_score E" phase "phase_values phase tx"] assms(4)
  have u: "uncounted (tx_result tx') = uncounted (record_hits ?hits (es_out ?s))"
    by (auto simp: phase_evaluation_def)
  note f = arg_cong [OF u, of r_Hits] arg_cong [OF u, of r_Score] arg_cong [OF u, of r_Terminal] arg_cong [OF u, of r_Undecidable]
  show hits: "r_Hits (tx_result tx') = upto_terminal ?hits"
    using f(1) by (simp add: frame_simps result_Reset_def)
  show "r_Score (tx_result tx') = wrap64 (sum_list (map hit_score (r_Hits (tx_result tx'))))"
    using f(2) record_score [of "result_Reset (tx_result tx)" "upto_terminal ?hits"]
    by (simp add: hits record_hits_def result_Reset_def wrap64_id)
  show "r_Terminal (tx_result tx') \<longleftrightarrow> (\<exists>h \<in> set (r_Hits (tx_result tx')). terminal_hit h)"
    using f(3) by (simp add: hits frame_simps result_Reset_def upto_terminal_has)
  show "\<not> r_Undecidable (tx_result tx')"
    using f(4) by (simp add: frame_simps result_Reset_def)
qed

text \<open>Without a fuel limit no evaluation is cut short.\<close>

lemma free_evaluation:
  assumes "compiled_ruleset (e_iface E) (tx_rs tx)" "evaluator_ready tx" "free (tx_meter tx)"
    and "evaluate_phase E phase tx = Some tx'"
  shows "\<not> r_Exhausted (tx_result tx')"
proof -
  let ?s = "\<lparr>es_ev = tx_eval tx, es_meter = tx_meter tx, es_out = result_Reset (tx_result tx)\<rparr>"
  have pre: "candidates_inv ?s" "\<not> r_Terminal (es_out ?s)" "\<not> r_Exhausted (es_out ?s)"
    using assms(2) by (simp_all add: evaluator_ready_def result_Reset_def)
  from assms(4) obtain s' where s': "Eval (e_iface E) (e_score E) (tx_rs tx) phase (phase_values phase tx) ?s = Some s'"
    "tx_result tx' = es_out s'"
    by (auto simp: evaluate_phase_def)
  with Eval_ruleset [OF assms(1) pre, of "e_score E" phase "phase_values phase tx"] assms(3)
  have u: "uncounted (tx_result tx') = uncounted (record_hits (phase_evaluation E phase tx) (es_out ?s))"
    by (auto simp: phase_evaluation_def)
  from arg_cong [OF u, of r_Exhausted] show ?thesis by (simp add: frame_simps result_Reset_def)
qed

text \<open>At most one hit is terminal, so a terminal hit that is kept is not a suppressed one.\<close>

lemma one_terminal:
  "h \<in> set (upto_terminal hs) \<Longrightarrow> terminal_hit h \<Longrightarrow> k \<in> set (upto_terminal hs) \<Longrightarrow> terminal_hit k \<Longrightarrow> h = k"
  by (induction hs) (auto split: if_splits)

lemma sum_filter:
  "sum_list (map f xs) = sum_list (map f (filter P xs)) + sum_list (map f (filter (\<lambda>x. \<not> P x) xs))"
  for f :: "'x \<Rightarrow> int"
  by (induction xs) auto

lemma applyExceptions_result:
  assumes hits: "r_Hits (tx_result tx) = upto_terminal hs"
    and score: "r_Score (tx_result tx) = wrap64 (sum_list (map hit_score (r_Hits (tx_result tx))))"
    and fatal: "r_Terminal (tx_result tx) \<longleftrightarrow> (\<exists>h \<in> set (r_Hits (tx_result tx)). terminal_hit h)"
  shows "let res = tx_result (applyExceptions tx);
      kept = filter (\<lambda>h. \<not> suppressed (cfg_exceptions (tx_cfg tx)) (tx_reqPath tx) h) (r_Hits (tx_result tx));
      s = wrap64 (sum_list (map hit_score kept)) in
    r_Hits res = kept \<and> (r_Terminal res \<longleftrightarrow> (\<exists>h \<in> set kept. terminal_hit h)) \<and>
    r_Score res = (if cfg_exceptions (tx_cfg tx) \<noteq> [] \<and> r_Hits (tx_result tx) \<noteq> [] \<and> s < 0 then 0 else s)"
proof (cases "cfg_exceptions (tx_cfg tx) = [] \<or> r_Hits (tx_result tx) = []")
  case True
  have none: "\<not> suppressed [] path h" for path and h :: "('a, 'b, 'c) hit"
    by (simp add: suppressed_def)
  from True show ?thesis
  proof
    assume "cfg_exceptions (tx_cfg tx) = []"
    with score fatal show ?thesis by (simp add: applyExceptions_def Let_def none)
  next
    assume "r_Hits (tx_result tx) = []"
    with score fatal show ?thesis by (simp add: applyExceptions_def Let_def)
  qed
next
  case False
  let ?sup = "suppressed (cfg_exceptions (tx_cfg tx)) (tx_reqPath tx)"
  let ?hits = "r_Hits (tx_result tx)"
  let ?kept = "filter (\<lambda>h. \<not> ?sup h) ?hits"
  have sum: "sum_list (map hit_score ?hits) = sum_list (map hit_score (filter ?sup ?hits)) + sum_list (map hit_score ?kept)"
    by (rule sum_filter)
  have "fold (except_hit (cfg_exceptions (tx_cfg tx)) (tx_reqPath tx)) ?hits ([], r_Score (tx_result tx), r_Terminal (tx_result tx)) =
      (?kept, wrap64 (sum_list (map hit_score ?kept)), r_Terminal (tx_result tx) \<and> (\<forall>h \<in> set ?hits. ?sup h \<longrightarrow> \<not> terminal_hit h))"
    unfolding score fold_except by (simp add: sum)
  moreover have "(r_Terminal (tx_result tx) \<and> (\<forall>h \<in> set ?hits. ?sup h \<longrightarrow> \<not> terminal_hit h)) \<longleftrightarrow> (\<exists>h \<in> set ?kept. terminal_hit h)"
    using fatal one_terminal [of _ hs] unfolding hits by (metis (mono_tags, lifting) mem_Collect_eq set_filter)
  ultimately show ?thesis
    using False by (auto simp: applyExceptions_def Let_def)
qed

lemma upto_terminal_Nil [simp]: "upto_terminal hs = [] \<longleftrightarrow> hs = []"
  by (cases hs) simp_all

section \<open>What an allowed body went through\<close>

lemma phase_values_cong:
  "tx_values tx' = tx_values tx \<Longrightarrow> tx_responseStart tx' = tx_responseStart tx \<Longrightarrow> tx_bodyStart tx' = tx_bodyStart tx \<Longrightarrow>
   tx_rs tx' = tx_rs tx \<Longrightarrow> phase_values ph tx' = phase_values ph tx"
  by (simp only: phase_values_def)

lemma finish_keeps:
  "finish d tx = (tx', d') \<Longrightarrow> tx_result tx' = tx_result tx \<and> tx_score tx' = tx_score tx \<and>
     (\<forall>ph. phase_values ph tx' = phase_values ph tx)"
  by (auto simp: finish_def Let_def intro!: phase_values_cong)

lemma finish_verdict: "finish d tx = (tx', d') \<Longrightarrow> d_verdict d' = d_verdict d"
  by (auto simp: finish_def Let_def)

lemma closed_blocks:
  assumes "cfg_mode (tx_cfg tx) = Blocking" "cfg_failMode (tx_cfg tx) = FailClosed"
  shows "budgetExhausted tx = (tx', d) \<Longrightarrow> \<not> Allowed d" "tx_undecidable_input why tx = (tx', d) \<Longrightarrow> \<not> Allowed d"
    "undecodableBody u tx = (tx', d) \<Longrightarrow> \<not> Allowed d" "oversizeExceeded tx = (tx', d) \<Longrightarrow> \<not> Allowed d"
    "limitExceeded tx = (tx', d) \<Longrightarrow> \<not> Allowed d" "unexpected_body tx = (tx', d) \<Longrightarrow> \<not> Allowed d"
    "schemaViolation tx = Some (tx', d) \<Longrightarrow> \<not> Allowed d"
    "finish (blockDecision why' status r tx) tx = (tx', d) \<Longrightarrow> \<not> Allowed d"
  using assms
  by (auto simp: refusals schemaViolation_def Allowed_def by_fail_mode_def by_mode_def blockDecision_def Let_def
    dest!: finish_verdict split: if_splits option.splits)

lemma exceptions_frame:
  "tx_values (applyExceptions tx) = tx_values tx" "tx_responseStart (applyExceptions tx) = tx_responseStart tx"
  "tx_bodyStart (applyExceptions tx) = tx_bodyStart tx" "tx_rs (applyExceptions tx) = tx_rs tx"
  "tx_reqPath (applyExceptions tx) = tx_reqPath tx"
  "r_Exhausted (tx_result (applyExceptions tx)) = r_Exhausted (tx_result tx)"
  by (simp_all add: applyExceptions_def Let_def split: prod.split)

text \<open>The verdict of an evaluated phase, when it allows.\<close>

lemma decide_allows:
  assumes "cfg_mode (tx_cfg tx) = Blocking" "cfg_failMode (tx_cfg tx) = FailClosed"
    and "decide_phase tx = (tx', d)" "Allowed d"
  shows "tx_result tx' = tx_result (applyExceptions tx) \<and> phase_values ph tx' = phase_values ph tx \<and>
    \<not> r_Exhausted (tx_result tx') \<and> \<not> r_Undecidable (tx_result tx') \<and>
    (if r_Terminal (tx_result tx')
     then d_reason d = ReasonRule \<and> out_Kind (r_TerminalOutcome (tx_result tx')) = ActionAllow
     else d_reason d = ReasonNoMatch \<and> tx_score tx' < cfg_threshold (tx_cfg tx))"
proof -
  define x where "x = applyExceptions tx"
  define s where "s = x\<lparr>tx_score := wrap64 (tx_score x + r_Score (tx_result x)),
    tx_evaluated := tx_evaluated x + r_RulesEvaluated (tx_result x)\<rparr>"
  have cfg: "tx_cfg s = tx_cfg tx" using engine_exceptions [of tx] by (simp add: s_def x_def engine_of_def)
  have vals: "phase_values ph s = phase_values ph tx"
    by (rule phase_values_cong) (simp_all add: s_def x_def exceptions_frame)
  have res: "tx_result s = tx_result x" by (simp add: s_def)
  note nb = closed_blocks [of s, unfolded cfg, OF assms(1,2)]
  have allowed: "finish dd s = (tx', d) \<Longrightarrow> tx_result tx' = tx_result x \<and> phase_values ph tx' = phase_values ph tx" for dd
    using finish_keeps [of dd s tx' d] res vals by simp
  have eq: "(if r_Exhausted (tx_result s) then budgetExhausted s
      else if r_Undecidable (tx_result s) then tx_undecidable_input (r_UndecidableReason (tx_result s)) s
      else if r_Terminal (tx_result s) then
        (if out_Kind (r_TerminalOutcome (tx_result s)) = ActionAllow then
           finish (decision_zero\<lparr>d_verdict := VerdictAllow, d_reason := ReasonRule,
             d_score := tx_score s, d_rule := r_TerminalRule (tx_result s), d_rulesEvaluated := tx_evaluated s\<rparr>) s
         else finish (blockDecision ReasonRule (out_Status (r_TerminalOutcome (tx_result s))) (r_TerminalRule (tx_result s)) s) s)
      else if cfg_threshold (tx_cfg s) \<le> tx_score s
      then finish (blockDecision ReasonThreshold 0 (highestHit s) s) s
      else (s, allow ReasonNoMatch (tx_score s) (tx_evaluated s))) = (tx', d)"
    using assms(3) unfolding decide_phase_def Let_def x_def [symmetric] s_def [symmetric] res .
  consider "r_Exhausted (tx_result s)" | "\<not> r_Exhausted (tx_result s)" "r_Undecidable (tx_result s)"
    | "\<not> r_Exhausted (tx_result s)" "\<not> r_Undecidable (tx_result s)" "r_Terminal (tx_result s)"
    | "\<not> r_Exhausted (tx_result s)" "\<not> r_Undecidable (tx_result s)" "\<not> r_Terminal (tx_result s)" by blast
  then show ?thesis
  proof cases
    case 1
    with eq nb(1) assms(4) show ?thesis by simp
  next
    case 2
    with eq nb(2) assms(4) show ?thesis by simp
  next
    case 3
    then have k: "out_Kind (r_TerminalOutcome (tx_result s)) = ActionAllow" using eq nb(8) assms(4) by (auto split: if_splits)
    with eq 3 have f: "finish (decision_zero\<lparr>d_verdict := VerdictAllow, d_reason := ReasonRule,
        d_score := tx_score s, d_rule := r_TerminalRule (tx_result s), d_rulesEvaluated := tx_evaluated s\<rparr>) s = (tx', d)"
      by simp
    have "d_reason d = ReasonRule" using f by (auto simp: finish_def Let_def)
    with 3 k allowed [OF f] res show ?thesis by (simp add: x_def)
  next
    case 4
    then have "\<not> cfg_threshold (tx_cfg s) \<le> tx_score s" using eq nb(8) assms(4) by auto
    with eq 4 have "tx' = s" "d = allow ReasonNoMatch (tx_score s) (tx_evaluated s)" "tx_score s < cfg_threshold (tx_cfg s)" by auto
    with 4 res vals cfg show ?thesis by (simp add: x_def allow_def)
  qed
qed

text \<open>What a phase evaluates is what its values are when it ends, and the engine is the one it began with.\<close>

lemma runPhase_allows:
  assumes "compiled_ruleset (e_iface E) (tx_rs (p_client p))" "evaluator_ready (p_client p)"
    and mode: "cfg_mode (tx_cfg (p_client p)) = Blocking" "cfg_failMode (tx_cfg (p_client p)) = FailClosed"
    and "\<not> tx_decided (p_client p)" "runPhase E phase p = Some (p', d)" "Allowed d"
  shows "let tx = p_client p; tx' = p_client p';
      hits = upto_terminal (phase_hits (e_iface E) (e_score E) (tx_rs tx) phase (phase_values phase tx') (tx_eval tx));
      kept = filter (\<lambda>h. \<not> suppressed (cfg_exceptions (tx_cfg tx)) (tx_reqPath tx') h) hits in
    r_Hits (tx_result tx') = kept \<and> \<not> r_Exhausted (tx_result tx') \<and>
    (d_reason d = ReasonRule \<and> (\<exists>h \<in> set kept. terminal_hit h) \<and> out_Kind (r_TerminalOutcome (tx_result tx')) = ActionAllow \<or>
     d_reason d = ReasonNoMatch \<and> (\<forall>h \<in> set kept. \<not> terminal_hit h) \<and> tx_score tx' < cfg_threshold (tx_cfg tx))"
proof -
  define q where "q = phase_input E phase p"
  have eng: "engine_of (p_client q) = engine_of (p_client p)" by (simp add: q_def engine_input)
  then have same: "tx_rs (p_client q) = tx_rs (p_client p)" "tx_eval (p_client q) = tx_eval (p_client p)"
    "tx_cfg (p_client q) = tx_cfg (p_client p)" by (simp_all add: engine_of_def)
  from assms(5,6) obtain tx where ev: "evaluate_phase E phase (p_client q) = Some tx"
    and ret: "tx_returns q (decide_phase tx) = Some (p', d)"
    by (auto simp: runPhase_eq q_def split: option.splits)
  obtain tx' where dec: "decide_phase tx = (tx', d)" and p': "p_client p' = tx'"
    using ret by (auto simp: tx_returns_def split: prod.splits)
  have tx: "tx_cfg tx = tx_cfg (p_client p)" "\<And>ph. phase_values ph tx = phase_values ph (p_client q)"
    using ev same by (auto simp: evaluate_phase_def phase_values_def)
  note D = decide_allows [OF mode [folded tx(1)] dec assms(7), of phase]
  have path: "tx_reqPath tx' = tx_reqPath tx"
    using dec exceptions_frame(5) [of tx] by (auto simp: decide_phase_def Let_def refusals finish_def split: if_splits)
  have nex: "\<not> r_Exhausted (tx_result tx)" using D exceptions_frame(6) [of tx] by metis
  have pre: "compiled_ruleset (e_iface E) (tx_rs (p_client q))" "evaluator_ready (p_client q)"
    using assms(1,2) same ready_engine [OF eng] by simp_all
  note R = evaluated_result [OF pre ev nex]
  have hits: "phase_evaluation E phase (p_client q) =
      phase_hits (e_iface E) (e_score E) (tx_rs (p_client p)) phase (phase_values phase tx') (tx_eval (p_client p))"
    using D tx(2) by (simp add: phase_evaluation_def same)
  note X = applyExceptions_result [OF R(1-3), unfolded R(1) hits Let_def]
  show ?thesis
    using D X unfolding Let_def p' tx(1) path by (auto split: if_splits)
qed

section \<open>Properties\<close>




text \<open>
  C6. What an allowed body went through. A firewall with a compiled ruleset that blocks and fails closed
  lets an undecided body phase pass only if the raw body and the argument count were within their
  limits, the body could be decoded, nothing recorded violated the schema, and no value had been dropped
  for its size under a key that is not empty; and only after the evaluation of all the values the phase
  holds ran to its end within its fuel: the recorded hits are those of the reference evaluation, up to a
  terminal one and less the excepted ones, and they hold either an explicit allow, or no terminal hit
  and the score is below the threshold. It says nothing of a value that was never recorded: one over its
  limit under the empty key, one the arena refused, or one a resolver added after the size check.
\<close>

theorem allowed_body_inspected:
  assumes "tx_reachable E w p" and "compiled_ruleset (e_iface E) (tx_rs (p_client p))"
    and "cfg_mode (tx_cfg (p_client p)) = Blocking" and "cfg_failMode (tx_cfg (p_client p)) = FailClosed"
    and "\<not> tx_decided (p_client p)" and "ProcessRequestBody E p = Some (p', d)" and "Allowed d"
  shows "let tx = p_client p; tx' = p_client p'; seen = deriveBodyViews (fst (deriveHeaderViews (body_violation tx)));
      hits = upto_terminal (phase_hits (e_iface E) (e_score E) (tx_rs tx) PhaseRequestBody
        (phase_values PhaseRequestBody tx') (tx_eval tx));
      kept = filter (\<lambda>h. \<not> suppressed (cfg_exceptions (tx_cfg tx)) (tx_reqPath tx') h) hits in
    int (tx_bodyLen tx) \<le> MaxBodySize (tx_limits tx) \<and> int (tx_argCount (body_violation tx)) \<le> MaxArgs (tx_limits tx) \<and>
    tx_violation (body_violation tx) = ViolationNone \<and> tx_oversizeKey seen = [] \<and> tx_undecodable seen = None \<and>
    r_Hits (tx_result tx') = kept \<and> \<not> r_Exhausted (tx_result tx') \<and>
    (d_reason d = ReasonRule \<and> (\<exists>h \<in> set kept. terminal_hit h) \<and> out_Kind (r_TerminalOutcome (tx_result tx')) = ActionAllow \<or>
     d_reason d = ReasonNoMatch \<and> (\<forall>h \<in> set kept. \<not> terminal_hit h) \<and> tx_score tx' < cfg_threshold (tx_cfg tx))"
proof -
  define t where "t = body_violation (p_client p)"
  obtain q ok where v: "deriveHeaderViews t = (q, ok)" by fastforce
  define b where "b = deriveBodyViews q"
  define c where "c = (case tx_bodyErr b of Some e \<Rightarrow> b\<lparr>tx_bodyParseFailed := Some e\<rparr> | None \<Rightarrow> b)"
  have e1: "engine_of t = engine_of (p_client p)"
    by (auto simp: t_def body_violation_def engine_of_def Let_def split: option.split)
  have e2: "engine_of q = engine_of (p_client p)" using engine_headerViews [OF v] e1 by simp
  have e3: "engine_of b = engine_of (p_client p)" using e2 by (simp add: b_def)
  have e4: "engine_of c = engine_of (p_client p)" using e3 by (simp add: c_def engine_of_def split: option.split)
  have "tx_decided t = tx_decided (p_client p)"
    by (auto simp: t_def body_violation_def Let_def split: option.split)
  then have dec: "\<not> tx_decided c"
    using views_decided [OF v] bodyViews_decided [of q] assms(5) by (simp add: c_def b_def split: option.split)
  have mode: "cfg_mode (tx_cfg s) = Blocking" "cfg_failMode (tx_cfg s) = FailClosed" if "engine_of s = engine_of (p_client p)" for s
    using that assms(3,4) by (simp_all add: engine_of_def)
  have blocks: "\<not> Allowed (snd (limitExceeded s))" "\<not> Allowed (snd (unexpected_body s))" "\<not> Allowed (snd (oversizeExceeded s))"
    "\<not> Allowed (snd (undecodableBody u s))" "schemaViolation s = Some r \<Longrightarrow> \<not> Allowed (snd r)"
    if "engine_of s = engine_of (p_client p)" for s u r
    using closed_blocks [OF mode(1) [OF that] mode(2) [OF that]] by (metis prod.collapse)+
  have no: "tx_returns p0 r \<noteq> Some (p', d)" if "\<not> Allowed (snd r)" for p0 r
    using that assms(7) by (auto simp: tx_returns_def split: prod.splits)
  let ?run = "runPhase E PhaseRequestBody (p\<lparr>p_client := c\<rparr>)"
  have eq: "(if MaxBodySize (tx_limits (p_client p)) < int (tx_bodyLen (p_client p)) then tx_returns p (limitExceeded (p_client p))
      else if (case tx_op (p_client p) of None \<Rightarrow> False | Some op \<Rightarrow> op_NoBody op \<and> 0 < tx_bodyLen (p_client p))
      then tx_returns p (unexpected_body (p_client p))
      else case schemaViolation t of
          Some r \<Rightarrow> tx_returns p r
        | None \<Rightarrow> if MaxArgs (tx_limits t) < int (tx_argCount t) then tx_returns p (limitExceeded t)
            else case ok of False \<Rightarrow> tx_returns p (limitExceeded q)
            | True \<Rightarrow> if tx_oversizeKey b \<noteq> [] then tx_returns p (oversizeExceeded b)
                else case tx_undecodable b of Some why \<Rightarrow> tx_returns p (undecodableBody why b) | None \<Rightarrow> ?run) = Some (p', d)"
    using assms(6) unfolding ProcessRequestBody_def Let_def t_def [symmetric] v prod.case b_def [symmetric] c_def [symmetric] .
  have n1: "\<not> MaxBodySize (tx_limits (p_client p)) < int (tx_bodyLen (p_client p))"
    using eq no [OF blocks(1) [OF refl]] by (auto split: if_splits)
  have n2: "schemaViolation t = None" "\<not> MaxArgs (tx_limits t) < int (tx_argCount t)" ok "tx_oversizeKey b = []"
      "tx_undecodable b = None" "?run = Some (p', d)"
    using eq n1 no [OF blocks(2) [OF refl]] no [OF blocks(5) [OF e1]] no [OF blocks(1) [OF e1]] no [OF blocks(1) [OF e2]]
      no [OF blocks(3) [OF e3]] no [OF blocks(4) [OF e3]]
    by (auto split: if_split_asm option.splits bool.splits)
  have viol: "tx_violation t = ViolationNone" using n2(1) by (simp add: schemaViolation_def split: if_splits)
  have same: "tx_rs c = tx_rs (p_client p)" "tx_eval c = tx_eval (p_client p)" "tx_cfg c = tx_cfg (p_client p)"
    "tx_cfg t = tx_cfg (p_client p)" using e4 e1 by (simp_all add: engine_of_def)
  have "evaluator_ready c" using reachable_ready [OF assms(1)] ready_engine [OF e4] by simp
  from runPhase_allows [of E "p\<lparr>p_client := c\<rparr>", OF _ _ _ _ _ n2(6) assms(7)] this assms(2-4) dec same
  show ?thesis
    using n1 n2 viol
    unfolding t_def [symmetric] v fst_conv b_def [symmetric] Let_def
    by (simp add: tx_limits_def not_less)
qed

text \<open>
  The witness: a rule that blocks on \<open>select\<close> in the body, unmetered, and the body \<open>hi\<close>, which the phase
  evaluates as one value and lets pass.
\<close>

definition body_demo_rule :: "(builtin_transform, builtin_op, fixed_action) rule" where
  "body_demo_rule = demo_rule\<lparr>Phase := PhaseRequestBody, Targets := [\<lparr>Kind = TargetRequestBody, Name = []\<rparr>],
     Actions := [Some Block_action]\<rparr>"

definition body_demo_value :: eval_value where
  "body_demo_value = \<lparr>v_Target = plain_target TargetRequestBody, v_Key = [], v_Data = Some (ascii ''hi''), v_Inert = False\<rparr>"

lemma body_demo_compiles: "\<exists>rs. Compile builtin (\<lambda>p j s. rev) [body_demo_rule] False = Some (Inr rs) \<and>
    compiled_ruleset builtin rs \<and> (\<forall>k. ruleset_Reads rs k \<longleftrightarrow> k = TargetRequestBody)"
proof -
  have v: "validate [body_demo_rule] False = []"
    by (simp add: validate_def body_demo_rule_def demo_rule_def field_errors_def target_errors_def phase_Valid_def
      target_kind_Valid_def target_kind_Phase_def severity_Valid_def confidence_Valid_def byte_simps)
  obtain rs where c: "Compile builtin (\<lambda>p j s. rev) [body_demo_rule] False = Some (Inr rs)"
      "\<forall>k. ruleset_Reads rs k \<longleftrightarrow> k < 64 \<and> (\<exists>r \<in> set [body_demo_rule]. \<exists>t \<in> set (Targets r). Kind t = k)"
    using Compile_spec [OF rev_order, of builtin "[body_demo_rule]" False] v by auto
  have k: "compiled_ruleset builtin rs" by (rule compiled_rulesetI [OF rev_order c(1)]) simp
  have "ruleset_Reads rs k \<longleftrightarrow> k = TargetRequestBody" for k
    unfolding c(2) [rule_format] by (auto simp: body_demo_rule_def)
  with c(1) k show ?thesis by blast
qed

lemma body_demo_facts:
  "DetectEncoding [] = EncodingNone" "\<not> SniffGzip [104, 105]" "Boundary [] = None" "SniffMultipart [104, 105] = None"
  "DetectContent [] = ContentUnknown" "\<not> SniffJSON [104, 105]" "\<not> SniffXML [104, 105]" "\<not> IsBase64Body [104, 105]"
  "\<not> IsGRPCFramed [104, 105]" "\<not> IsBinary [104, 105]"
  by code_simp+

text \<open>A value appended to an empty arena that has room for it.\<close>

lemma recorded_first:
  assumes "arena_inv (tx_arena tx)" "a_len (tx_arena tx) = 0" "tx_values tx = []" "tx_spans tx = []"
    and "int (length v) \<le> lim_MaxValueLen (tx_limits tx)" "int (length v) \<le> a_limit (tx_arena tx)"
    and "v \<noteq> []" "length v < 2 ^ 32"
  obtains a sp where "recordString t [] v False tx =
      tx\<lparr>tx_arena := a, tx_spans := [sp], tx_values := [\<lparr>v_Target = t, v_Key = [], v_Data = Some v, v_Inert = False\<rparr>]\<rparr>"
    "arena_Resolve a (vs_key sp) = []" "span_slice a (vs_data sp) = Some v"
proof -
  obtain b k ok where k: "arena_Append [] (tx_arena tx) = (b, k, ok)" by (metis prod_cases3)
  note K = Append_spec [OF assms(1) k]
  have ok: "ok" using K(3) assms(2,6,7) by auto
  have b: "arena_inv b" "a_len b = 0" "a_limit b = a_limit (tx_arena tx)" "k = SpanOf 0 0"
    using K ok assms(2) arena_Bytes_length [OF K(1)] arena_Bytes_length [OF assms(1)] by auto
  obtain a d ok' where d: "arena_Append v b = (a, d, ok')" by (metis prod_cases3)
  note D = Append_spec [OF b(1) d]
  have ok': "ok'" using D(3) assms(6) b by auto
  have bytes: "arena_Bytes a = v" "d = SpanOf 0 (length v)"
    using D(4,5) ok' b arena_Bytes_length [OF b(1)] by auto
  have "a_len a = length v" using arena_Bytes_length [OF D(1)] bytes(1) by simp
  moreover have "arena_Cap a \<noteq> 0" using bytes(1) assms(7) by (auto simp: arena_Bytes_def arena_Cap_def)
  moreover have r: "arena_Resolve a d = v" "arena_Resolve c k = []" for c
    using bytes assms(8) b(4) unat_of_nat_u32 [OF assms(8)] by (simp_all add: arena_Resolve_def span_Bytes_def SpanOf_def)
  moreover have u: "unat (Off d) + unat (Len d) = length v" using bytes(2) assms(8)
    by (simp add: SpanOf_def unat_of_nat_u32)
  ultimately have s: "span_slice a d = Some v" by (simp add: span_slice_def)
  show thesis
    by (rule that [where a = a and sp = "\<lparr>vs_key = k, vs_data = d\<rparr>"])
      (use k d ok ok' r s assms(3-5) in \<open>simp_all add: recordString_def appendValue_def Let_def\<close>)
qed

lemma body_demo_no_hits:
  assumes "Compile builtin (\<lambda>p j s. rev) [body_demo_rule] False = Some (Inr rs)"
  shows "phase_hits builtin score rs PhaseRequestBody [body_demo_value] e = []"
proof (rule ccontr)
  assume "phase_hits builtin score rs PhaseRequestBody [body_demo_value] e \<noteq> []"
  then obtain h where "h \<in> set (phase_hits builtin score rs PhaseRequestBody [body_demo_value] e)"
    by (cases "phase_hits builtin score rs PhaseRequestBody [body_demo_value] e") auto
  then obtain i rd g cr where h: "(i, rd) \<in> set (value_readings body_demo_value)" "g \<in> set (Groups rs PhaseRequestBody)"
      "cr \<in> set (g_Rules g)" "h \<in> set (rule_hits builtin score (request_ctx [body_demo_value] (sizeFor rs e)) body_demo_value
        (rd_Class rd) (chain_value builtin (g_Transforms g) (rd_Bytes rd)) cr)"
    unfolding phase_hits_iff by (auto simp: Let_def)
  have p: "phase_Valid PhaseRequestBody" by (simp add: phase_Valid_def)
  have cr: "cr_Rule cr = body_demo_rule" using compiled_rules [OF rev_order assms p, of "cr_Rule cr"] h(2,3) by auto
  have g: "g_Transforms g = [URLDecode]"
    using distinct_chain [OF rev_order assms builtin_chains_distinct h(2,3)]
    by (simp add: cr rule_chain_def body_demo_rule_def demo_rule_def)
  have "value_readings body_demo_value = [(0, \<lparr>rd_Bytes = ascii ''hi'', rd_Class = 0\<rparr>)]" by code_simp
  then have rd: "rd_Bytes rd = ascii ''hi''" using h(1) by simp
  have d: "fst (chain_value builtin [URLDecode] (ascii ''hi'')) = ascii ''hi''" by code_simp
  have "\<not> snd (contains_loop [toLower (ascii ''select'')] (ascii ''hi''))" by code_simp
  then have "\<not> snd (op_Eval (ContainsAnyOp (Contains (ascii ''select''))) c' (ascii ''hi''))" for c'
    by (simp only: op_Eval.simps containsAny_Eval_def Contains_def contains_any.simps not_False_eq_True)
  moreover have "rule_op body_demo_rule = ContainsAnyOp (Contains (ascii ''select''))"
    by (simp add: rule_op_def body_demo_rule_def demo_rule_def del: ascii_simps)
  ultimately have "\<not> snd (oEval builtin (rule_op (cr_Rule cr)) c' (fst (chain_value builtin (g_Transforms g) (rd_Bytes rd))))" for c'
    by (simp only: cr g rd d builtin_simps not_False_eq_True)
  then show False using rule_hits_set h(4) by metis
qed

lemma body_demo_recorded:
  fixes E :: "(builtin_transform, builtin_op, fixed_action, 'f, 'r) env"
  assumes "E' = E\<lparr>e_iface := builtin\<rparr>" "w' = w\<lparr>w_cfg := defaultConfig\<lparr>cfg_fuelLimit := 0\<rparr>, w_ruleset := rs\<rparr>"
  obtains a sp where "p_client (SetRequestBody E' (ascii ''hi'') (NewTransaction None w')) =
      (p_client (NewTransaction None w'))\<lparr>tx_bodyStart := 0, tx_bodyLen := length (ascii ''hi''), tx_arena := a, tx_spans := [sp],
        tx_values := [body_demo_value]\<rparr>"
    "arena_Resolve a (vs_key sp) = []" "span_slice a (vs_data sp) = Some (ascii ''hi'')"
proof -
  define tx :: "(builtin_transform, builtin_op, fixed_action, 'f, 'r) tx" where "tx = (p_client (NewTransaction None w'))\<lparr>tx_bodyStart := 0, tx_bodyLen := length (ascii ''hi'')\<rparr>"
  have "arena_inv (tx_arena tx)" "a_len (tx_arena tx) = 0" "tx_values tx = []" "tx_spans tx = []"
    "int (length (ascii ''hi'')) \<le> lim_MaxValueLen (tx_limits tx)" "int (length (ascii ''hi'')) \<le> a_limit (tx_arena tx)"
    by (simp_all add: tx_def assms NewTransaction_def newTransaction_def on_tx_def tx_reset_def tx_limits_def
      defaultConfig_def DefaultLimits_def arena_Reset_def arena_SetLimit_def arena_inv_def arena_Cap_def)
  moreover have "ascii ''hi'' \<noteq> []" "length (ascii ''hi'') < 2 ^ 32" by simp_all
  ultimately obtain a sp where a: "recordString (plain_target TargetRequestBody) [] (ascii ''hi'') False tx =
      tx\<lparr>tx_arena := a, tx_spans := [sp], tx_values := [body_demo_value]\<rparr>"
    "arena_Resolve a (vs_key sp) = []" "span_slice a (vs_data sp) = Some (ascii ''hi'')"
    unfolding body_demo_value_def by (rule recorded_first)
  have "p_client (SetRequestBody E' (ascii ''hi'') (NewTransaction None w')) =
      recordString (plain_target TargetRequestBody) [] (ascii ''hi'') False tx"
    by (simp add: tx_def assms NewTransaction_def newTransaction_def on_tx_def tx_reset_def SetRequestBody_def Let_def
     tx_limits_def defaultConfig_def DefaultLimits_def decompress_def body_demo_facts parse_by_type_def recordBody_def recordUnframed_def
     recordText_def addValueBytes_def recordBytes_def)
  with a show thesis by (intro that [where a = a and sp = sp]) (simp_all add: tx_def)
qed

lemma body_demo_allowed:
  fixes E :: "(builtin_transform, builtin_op, fixed_action, 'f, 'r) env" and p :: "(builtin_transform, builtin_op, fixed_action, 'f, 'r) txn"
  assumes E'_def: "E' = E\<lparr>e_iface := builtin\<rparr>"
    and w'_def: "w' = w\<lparr>w_cfg := defaultConfig\<lparr>cfg_fuelLimit := 0\<rparr>, w_ruleset := rs\<rparr>"
    and p_def: "p = SetRequestBody E' (ascii ''hi'') (NewTransaction None w')"
    and rs: "Compile builtin (\<lambda>p j s. rev) [body_demo_rule] False = Some (Inr rs)" "compiled_ruleset builtin rs"
      "\<forall>k. ruleset_Reads rs k \<longleftrightarrow> k = TargetRequestBody"
  shows "tx_reachable E' w' p" "tx_rs (p_client p) = rs" "tx_cfg (p_client p) = defaultConfig\<lparr>cfg_fuelLimit := 0\<rparr>"
    "\<not> tx_decided (p_client p)"
    "\<exists>p' d. ProcessRequestBody E' p = Some (p', d) \<and> Allowed d \<and> d_reason d = ReasonNoMatch \<and>
      phase_values PhaseRequestBody (p_client p') = [body_demo_value]"
proof -
  obtain a sp where tx: "p_client p = (p_client (NewTransaction None w'))\<lparr>tx_bodyStart := 0, tx_bodyLen := length (ascii ''hi''),
      tx_arena := a, tx_spans := [sp], tx_values := [body_demo_value]\<rparr>"
    "arena_Resolve a (vs_key sp) = []" "span_slice a (vs_data sp) = Some (ascii ''hi'')"
    using body_demo_recorded [OF E'_def w'_def] unfolding p_def by metis
  have "SwapRuleset None w' = w'" by (simp add: SwapRuleset_def w'_def)
  then have "tx_reachable E' w' (NewTransaction None w')" using tx_reachable.new_tx [of E' w' None] by simp
  then have r: "tx_reachable E' w' p" unfolding p_def by (rule step_tx) (rule tx_step.intros)
  define c where "c = (p_client p)\<lparr>tx_headerViewsDone := True, tx_bodyViewsDone := True\<rparr>"
  note fields = tx(1) NewTransaction_def newTransaction_def on_tx_def tx_reset_def w'_def tx_limits_def defaultConfig_def DefaultLimits_def
  have run: "ProcessRequestBody E' p = runPhase E' PhaseRequestBody (p\<lparr>p_client := c\<rparr>)"
    using rs(3) by (simp add: fields c_def ProcessRequestBody_def Let_def body_violation_def schemaViolation_def
        deriveHeaderViews_def deriveBodyViews_def)
  define X where "X = p_client (phase_input E' PhaseRequestBody (p\<lparr>p_client := c\<rparr>))"
  have X: "X = c\<lparr>tx_phase := PhaseRequestBody\<rparr>"
    using tx(2,3) by (simp add: X_def c_def phase_input_def fields runResolvers_def refreshValues_def refresh_value_def body_demo_value_def)
  have "engine_of X = engine_of (p_client p)" by (simp add: X c_def engine_of_def)
  then have ready: "evaluator_ready X" using ready_engine reachable_ready [OF r] by metis
  have comp: "compiled_ruleset (e_iface E') (tx_rs X)" using rs(2) by (simp add: X c_def fields E'_def)
  have free: "free (tx_meter X)" by (simp add: X c_def fields meter_Reset_def free_def Unmetered_def)
  obtain Y where Y: "evaluate_phase E' PhaseRequestBody X = Some Y" using evaluate_returns [OF comp ready] by blast
  have nex: "\<not> r_Exhausted (tx_result Y)" by (rule free_evaluation [OF comp ready free Y])
  have vals: "phase_values PhaseRequestBody X = [body_demo_value]" by (simp add: phase_values_def X c_def fields)
  have "phase_evaluation E' PhaseRequestBody X = []"
    using body_demo_no_hits [OF rs(1)] vals by (simp add: phase_evaluation_def E'_def X c_def fields)
  with evaluated_result [OF comp ready Y nex]
  have none: "r_Hits (tx_result Y) = []" "r_Score (tx_result Y) = 0" "\<not> r_Terminal (tx_result Y)" "\<not> r_Undecidable (tx_result Y)"
    by (simp_all add: wrap64_def)
  have same: "tx_cfg Y = tx_cfg X" "tx_score Y = tx_score X" "phase_values PhaseRequestBody Y = phase_values PhaseRequestBody X"
    using Y by (auto simp: evaluate_phase_def phase_values_def)
  have score: "tx_cfg X = cfg_fuelLimit_update (\<lambda>_. 0) defaultConfig" "tx_score X = 0" by (simp_all add: X c_def fields)
  have dec: "decide_phase Y = (Y\<lparr>tx_score := 0, tx_evaluated := tx_evaluated Y + r_RulesEvaluated (tx_result Y)\<rparr>,
      allow ReasonNoMatch 0 (tx_evaluated Y + r_RulesEvaluated (tx_result Y)))"
    using none nex same score by (simp add: decide_phase_def applyExceptions_def Let_def wrap64_def defaultConfig_def)
  have "\<not> tx_decided c" by (simp add: c_def fields)
  then have "runPhase E' PhaseRequestBody (p\<lparr>p_client := c\<rparr>) =
      tx_returns (phase_input E' PhaseRequestBody (p\<lparr>p_client := c\<rparr>)) (decide_phase Y)"
    unfolding runPhase_eq X_def [symmetric] by (simp add: Y)
  with run obtain p' d where d: "ProcessRequestBody E' p = Some (p', d)" "Allowed d" "d_reason d = ReasonNoMatch"
      "tx_values (p_client p') = tx_values Y" "tx_bodyStart (p_client p') = tx_bodyStart Y" "tx_rs (p_client p') = tx_rs Y"
    by (auto simp: dec tx_returns_def allow_def Allowed_def)
  then have "phase_values PhaseRequestBody (p_client p') = phase_values PhaseRequestBody Y"
    by (simp add: phase_values_def)
  then have v: "phase_values PhaseRequestBody (p_client p') = [body_demo_value]" using same(3) vals by simp
  with d(1-3) show "\<exists>p' d. ProcessRequestBody E' p = Some (p', d) \<and> Allowed d \<and> d_reason d = ReasonNoMatch \<and>
      phase_values PhaseRequestBody (p_client p') = [body_demo_value]" by blast
  show "tx_reachable E' w' p" by (rule r)
  show "tx_rs (p_client p) = rs" "tx_cfg (p_client p) = defaultConfig\<lparr>cfg_fuelLimit := 0\<rparr>" "\<not> tx_decided (p_client p)"
    by (simp_all add: fields)
qed

theorem allowed_body_inspected_witness:
  "\<exists>rs. Compile builtin (\<lambda>p j s. rev) [body_demo_rule] False = Some (Inr rs) \<and>
     (\<forall>(E :: (builtin_transform, builtin_op, fixed_action, 'f, 'r) env) w. \<exists>p' d.
        ProcessRequestBody (E\<lparr>e_iface := builtin\<rparr>) (SetRequestBody (E\<lparr>e_iface := builtin\<rparr>) (ascii ''hi'')
          (NewTransaction None (w\<lparr>w_cfg := defaultConfig\<lparr>cfg_fuelLimit := 0\<rparr>, w_ruleset := rs\<rparr>))) = Some (p', d) \<and>
        Allowed d \<and> phase_values PhaseRequestBody (p_client p') = [body_demo_value] \<and>
        r_Hits (tx_result (p_client p')) = [] \<and> d_reason d = ReasonNoMatch)"
proof -
  obtain rs where rs: "Compile builtin (\<lambda>p j s. rev) [body_demo_rule] False = Some (Inr rs)" "compiled_ruleset builtin rs"
    "\<forall>k. ruleset_Reads rs k \<longleftrightarrow> k = TargetRequestBody" using body_demo_compiles by blast
  have "\<exists>p' d. ProcessRequestBody E' (SetRequestBody E' (ascii ''hi'') (NewTransaction None w')) = Some (p', d) \<and>
        Allowed d \<and> phase_values PhaseRequestBody (p_client p') = [body_demo_value] \<and>
        r_Hits (tx_result (p_client p')) = [] \<and> d_reason d = ReasonNoMatch"
    if "E' = E\<lparr>e_iface := builtin\<rparr>" "w' = w\<lparr>w_cfg := defaultConfig\<lparr>cfg_fuelLimit := 0\<rparr>, w_ruleset := rs\<rparr>"
    for E :: "(builtin_transform, builtin_op, fixed_action, 'f, 'r) env" and w E' w'
  proof -
    note P = body_demo_allowed [OF that refl rs]
    obtain p' d where d: "ProcessRequestBody E' (SetRequestBody E' (ascii ''hi'') (NewTransaction None w')) = Some (p', d)"
        "Allowed d" "d_reason d = ReasonNoMatch" "phase_values PhaseRequestBody (p_client p') = [body_demo_value]"
      using P(5) by blast
    have "e_iface E' = builtin" using that by simp
    moreover have "compiled_ruleset (e_iface E') (tx_rs (p_client (SetRequestBody E' (ascii ''hi'') (NewTransaction None w'))))"
      using that rs(2) P(2) by simp
    moreover note allowed_body_inspected [OF P(1) this _ _ P(4) d(1,2)]
    ultimately have "r_Hits (tx_result (p_client p')) = []"
      using P(2,3) d(4) by (simp add: Let_def defaultConfig_def body_demo_no_hits [OF rs(1)])
    with d show ?thesis by blast
  qed
  with rs(1) show ?thesis by blast
qed

text \<open>
  C8. Exceptions leave no trace. After the evaluation of a phase of a compiled ruleset that was not cut
  short, the exceptions keep exactly the hits none of them suppresses, in order; the score is the sum of
  the kept hits' scores at the signed 64-bit width, replaced by zero exactly if it is negative, there are
  exceptions and there was a hit; and the phase is still terminal exactly if the terminal hit was kept.
\<close>

theorem exceptions_leave_no_trace:
  assumes "compiled_ruleset (e_iface E) (tx_rs tx)" and "evaluator_ready tx"
    and "evaluate_phase E phase tx = Some tx'" and "\<not> r_Exhausted (tx_result tx')"
  shows "let res = tx_result (applyExceptions tx');
      kept = filter (\<lambda>h. \<not> suppressed (cfg_exceptions (tx_cfg tx')) (tx_reqPath tx') h)
        (upto_terminal (phase_evaluation E phase tx));
      s = wrap64 (sum_list (map hit_score kept)) in
    r_Hits res = kept \<and> (r_Terminal res \<longleftrightarrow> (\<exists>h \<in> set kept. terminal_hit h)) \<and>
    r_Score res = (if cfg_exceptions (tx_cfg tx') \<noteq> [] \<and> phase_evaluation E phase tx \<noteq> [] \<and> s < 0 then 0 else s)"
  using applyExceptions_result [OF evaluated_result(1-3) [OF assms]] evaluated_result(1) [OF assms] by simp

text \<open>The witness: the rule of the demonstration on an argument it fires on.\<close>

theorem exceptions_leave_no_trace_witness:
  "\<exists>rs. Compile builtin (\<lambda>p j s. rev) [demo_rule] False = Some (Inr rs) \<and>
     (\<forall>E w. let tx = (p_client (NewTransaction None (w\<lparr>w_cfg := defaultConfig\<lparr>cfg_fuelLimit := 0\<rparr>, w_ruleset := rs\<rparr>)))
          \<lparr>tx_values := [demo_value]\<rparr> in
        \<exists>tx'. evaluate_phase (E\<lparr>e_iface := builtin\<rparr>) PhaseRequestHeaders tx = Some tx' \<and>
          r_Hits (tx_result (applyExceptions tx')) =
            filter (\<lambda>h. \<not> suppressed (cfg_exceptions (tx_cfg tx')) (tx_reqPath tx') h)
              (upto_terminal (phase_evaluation (E\<lparr>e_iface := builtin\<rparr>) PhaseRequestHeaders tx)))"
proof -
  obtain rs where c: "Compile builtin (\<lambda>p j s. rev) [demo_rule] False = Some (Inr rs)"
    using demo_compiles by blast
  have comp: "compiled_ruleset builtin rs"
    by (rule compiled_rulesetI [OF rev_order c demo_hypotheses(1)])
  have "\<exists>tx'. evaluate_phase (E\<lparr>e_iface := builtin\<rparr>) PhaseRequestHeaders tx = Some tx' \<and>
          r_Hits (tx_result (applyExceptions tx')) =
            filter (\<lambda>h. \<not> suppressed (cfg_exceptions (tx_cfg tx')) (tx_reqPath tx') h)
              (upto_terminal (phase_evaluation (E\<lparr>e_iface := builtin\<rparr>) PhaseRequestHeaders tx))"
    if tx: "tx = (p_client (NewTransaction None (w\<lparr>w_cfg := defaultConfig\<lparr>cfg_fuelLimit := 0\<rparr>, w_ruleset := rs\<rparr>)))
          \<lparr>tx_values := [demo_value]\<rparr>" for E w tx
  proof -
    let ?E = "E\<lparr>e_iface := builtin\<rparr>"
    have c': "compiled_ruleset (e_iface ?E) (tx_rs tx)"
      using comp by (simp add: tx NewTransaction_def newTransaction_def on_tx_def tx_reset_def)
    have ready: "evaluator_ready tx"
      using fresh_ready(1) [of "w\<lparr>w_cfg := defaultConfig\<lparr>cfg_fuelLimit := 0\<rparr>, w_ruleset := rs\<rparr>"]
      by (simp add: tx evaluator_ready_def)
    have free: "free (tx_meter tx)"
      by (simp add: tx NewTransaction_def newTransaction_def on_tx_def tx_reset_def meter_Reset_def free_def Unmetered_def)
    obtain tx' where ev: "evaluate_phase ?E PhaseRequestHeaders tx = Some tx'"
      using evaluate_returns [OF c' ready] by blast
    have "\<not> r_Exhausted (tx_result tx')" by (rule free_evaluation [OF c' ready free ev])
    from exceptions_leave_no_trace [OF c' ready ev this] ev show ?thesis by (simp add: Let_def)
  qed
  with c show ?thesis unfolding Let_def by blast
qed

end
