(* ===== verification/Explain.thy ===== *)
theory Explain
  imports TransactionVerdict
begin

text \<open>
  The anatomy of a decision (explain.go): what a decision explains, and the narrowest exception that
  would have let the request pass. The text rendering is left out, as it rests on Go's quoting of
  arbitrary bytes. An explanation copies what it holds, so it is a value here.
\<close>

section \<open>Explanations\<close>

record explanation =
  xp_ruleID :: rule_id
  xp_message :: gobytes
  xp_severity :: severity
  xp_confidence :: confidence
  xp_tags :: "gobytes list"
  xp_target :: target
  xp_key :: gobytes
  xp_span :: span
  xp_hasSpan :: bool
  xp_matched :: gobytes
  xp_transform :: "gobytes list"
  xp_reading :: string
  xp_path :: gobytes
  xp_derivedFrom :: rule_id
  xp_verdict :: verdict
  xp_reason :: reason
  xp_score :: int
  xp_evaluated :: nat

text \<open>\<open>explanation_MatchedSpan\<close> returns two values.\<close>

definition explanation_MatchedSpan :: "explanation \<Rightarrow> span \<times> bool" where
  "explanation_MatchedSpan e = (xp_span e, xp_hasSpan e)"

definition explain_base :: "('t, 'o, 'a) decision \<Rightarrow> explanation" where
  "explain_base d =
     \<lparr>xp_ruleID = 0, xp_message = [], xp_severity = 0, xp_confidence = 0, xp_tags = [],
      xp_target = d_target d, xp_key = d_key d, xp_span = span_zero, xp_hasSpan = False, xp_matched = [],
      xp_transform = [], xp_reading = class_String (d_reading d), xp_path = d_path d,
      xp_derivedFrom = d_derivedFrom d, xp_verdict = d_verdict d, xp_reason = d_reason d,
      xp_score = d_score d, xp_evaluated = d_rulesEvaluated d\<rparr>"

definition Explain :: "('t, 'o, 'a) iface \<Rightarrow> ('t, 'o, 'a) decision \<Rightarrow> explanation" where
  "Explain I d =
     (let e = explain_base d in
      case d_rule d of
        None \<Rightarrow> e
      | Some cr \<Rightarrow>
          let r = cr_Rule cr;
              e = e\<lparr>xp_ruleID := ID r, xp_message := Msg r, xp_severity := Severity r,
                xp_confidence := Confidence r, xp_tags := Tags r,
                xp_transform := map (\<lambda>t. tName I (the t)) (Transforms r)\<rparr>
          in case d_hit d of
               None \<Rightarrow> e
             | Some m \<Rightarrow>
                 if 0 < Len (m_Span m)
                 then e\<lparr>xp_span := m_Span m, xp_hasSpan := True, xp_matched := d_matchedBytes d\<rparr>
                 else e)"

definition NarrowestException :: "explanation \<Rightarrow> exception option" where
  "NarrowestException e =
     (if xp_ruleID e = 0 then None
      else
        let i = (if xp_derivedFrom e \<noteq> 0 then xp_derivedFrom e else xp_ruleID e)
        in Some \<lparr>ex_RuleID = i, ex_Path = xp_path e, ex_Target = Kind (xp_target e), ex_Key = xp_key e,
             ex_Note = ascii ''suppresses '' @ xp_message e @ ascii '' for this route and field only''\<rparr>)"

section \<open>The suggested exception\<close>

definition authored :: "('t, 'o, 'a) compiled_rule \<Rightarrow> rule_id" where
  "authored cr = (if DerivedFrom (cr_Rule cr) \<noteq> 0 then DerivedFrom (cr_Rule cr) else ID (cr_Rule cr))"

lemma Explain_fields:
  assumes "d_rule d = Some cr"
  shows "xp_ruleID (Explain I d) = ID (cr_Rule cr)" "xp_derivedFrom (Explain I d) = d_derivedFrom d"
    "xp_path (Explain I d) = d_path d" "xp_target (Explain I d) = d_target d" "xp_key (Explain I d) = d_key d"
  using assms by (auto simp: Explain_def explain_base_def Let_def split: option.split)

lemma narrowest:
  assumes "d_rule d = Some cr" "ID (cr_Rule cr) \<noteq> 0" "d_derivedFrom d = DerivedFrom (cr_Rule cr)"
  shows "\<exists>x. NarrowestException (Explain I d) = Some x \<and> ex_RuleID x = authored cr \<and> ex_Path x = d_path d \<and>
    ex_Target x = Kind (d_target d) \<and> ex_Key x = d_key d"
  using assms Explain_fields [OF assms(1), of I] by (simp add: NarrowestException_def authored_def Let_def)

text \<open>What it matches: the authored rule and its mirrors, there and only there.\<close>

lemma narrowest_matches:
  assumes "ex_RuleID x = authored cr" "authored cr \<noteq> 0"
  shows "exception_Matches x rule derived path tg key \<longleftrightarrow>
    (rule = authored cr \<or> derived = authored cr) \<and> (ex_Target x = TargetInvalid \<or> ex_Target x = Kind tg) \<and>
    (ex_Key x = [] \<or> ex_Key x = key) \<and> (ex_Path x = [] \<or> matchPath (ex_Path x) path)"
  using assms by (auto simp: exception_Matches_def)

lemma matchPath_self: "matchPath path path"
  by (simp add: matchPath_def Let_def)

section \<open>The decision it answers\<close>

lemma record_terminal:
  "h \<in> set (upto_terminal hs) \<Longrightarrow> terminal_hit h \<Longrightarrow>
     r_TerminalRule (fold record_hit (upto_terminal hs) out) = Some (h_Rule h) \<and>
     r_TerminalOutcome (fold record_hit (upto_terminal hs) out) = h_Outcome h"
proof (induction hs arbitrary: out)
  case (Cons k hs)
  show ?case
  proof (cases "terminal_hit k")
    case True
    with Cons.prems show ?thesis by (simp add: record_hit_def Let_def)
  next
    case False
    with Cons show ?thesis by (cases "h = k") auto
  qed
qed simp

lemma evaluated_terminal_rule:
  assumes "compiled_ruleset (e_iface E) (tx_rs tx)" "evaluator_ready tx"
    and "evaluate_phase E phase tx = Some tx'" "\<not> r_Exhausted (tx_result tx')"
    and "h \<in> set (r_Hits (tx_result tx'))" "terminal_hit h"
  shows "r_TerminalRule (tx_result tx') = Some (h_Rule h)" "r_TerminalOutcome (tx_result tx') = h_Outcome h"
proof -
  let ?s = "\<lparr>es_ev = tx_eval tx, es_meter = tx_meter tx, es_out = result_Reset (tx_result tx)\<rparr>"
  have pre: "candidates_inv ?s" "\<not> r_Terminal (es_out ?s)" "\<not> r_Exhausted (es_out ?s)"
    using assms(2) by (simp_all add: evaluator_ready_def result_Reset_def)
  from assms(3) obtain s' where s': "Eval (e_iface E) (e_score E) (tx_rs tx) phase (phase_values phase tx) ?s = Some s'"
    "tx_result tx' = es_out s'"
    by (auto simp: evaluate_phase_def)
  with Eval_ruleset [OF assms(1) pre, of "e_score E" phase "phase_values phase tx"] assms(4)
  have u: "uncounted (tx_result tx') = uncounted (record_hits (phase_evaluation E phase tx) (es_out ?s))"
    by (auto simp: phase_evaluation_def)
  from arg_cong [OF u, of r_TerminalRule] arg_cong [OF u, of r_TerminalOutcome] evaluated_result(1) [OF assms(1-4)] assms(5,6)
  show "r_TerminalRule (tx_result tx') = Some (h_Rule h)" "r_TerminalOutcome (tx_result tx') = h_Outcome h"
    by (simp_all add: record_hits_def record_terminal)
qed

lemma blockDecision_fields:
  "d_reason (blockDecision why status r s) = why" "d_rule (blockDecision why status r s) = r"
  "d_verdict (blockDecision why status r s) = (if cfg_mode (tx_cfg s) = DetectionOnly then VerdictAllow else VerdictBlock)"
  by (auto simp: blockDecision_def Let_def decision_zero_def split: option.split)

text \<open>The place a block names is that of the first hit of the rule.\<close>

lemma blockDecision_place:
  assumes "h \<in> set (r_Hits (tx_result s))" "h_Rule h = cr"
  obtains k where "k \<in> set (r_Hits (tx_result s))" "h_Rule k = cr"
    "d_derivedFrom (blockDecision why status (Some cr) s) = DerivedFrom (cr_Rule cr)"
    "d_target (blockDecision why status (Some cr) s) = h_Target k" "d_key (blockDecision why status (Some cr) s) = h_Key k"
proof -
  have "find (\<lambda>h. h_Rule h = cr) (r_Hits (tx_result s)) \<noteq> None" using assms by (auto simp: find_None_iff)
  then obtain k where k: "find (\<lambda>h. h_Rule h = cr) (r_Hits (tx_result s)) = Some k" by blast
  then have "h_Rule k = cr" "k \<in> set (r_Hits (tx_result s))" by (auto simp: find_Some_iff)
  then show thesis
    using k by (intro that [of k]) (simp_all add: blockDecision_def Let_def split: option.split)
qed

text \<open>The decision of an evaluated phase, by its cases.\<close>

definition scored :: "('t, 'o, 'a, 'f, 'r) tx \<Rightarrow> ('t, 'o, 'a, 'f, 'r) tx" where
  "scored tx = (let x = applyExceptions tx in
     x\<lparr>tx_score := wrap64 (tx_score x + r_Score (tx_result x)),
       tx_evaluated := tx_evaluated x + r_RulesEvaluated (tx_result x)\<rparr>)"

lemma scored_fields: "tx_result (scored tx) = tx_result (applyExceptions tx)" "tx_reqPath (scored tx) = tx_reqPath tx"
  using exceptions_frame(5) [of tx] by (simp_all add: scored_def Let_def)

lemma decide_phase_cases:
  "decide_phase tx =
     (if r_Exhausted (tx_result (scored tx)) then budgetExhausted (scored tx)
      else if r_Undecidable (tx_result (scored tx))
      then tx_undecidable_input (r_UndecidableReason (tx_result (scored tx))) (scored tx)
      else if r_Terminal (tx_result (scored tx)) then
        (if out_Kind (r_TerminalOutcome (tx_result (scored tx))) = ActionAllow then
           finish (decision_zero\<lparr>d_verdict := VerdictAllow, d_reason := ReasonRule,
             d_score := tx_score (scored tx), d_rule := r_TerminalRule (tx_result (scored tx)),
             d_rulesEvaluated := tx_evaluated (scored tx)\<rparr>) (scored tx)
         else finish (blockDecision ReasonRule (out_Status (r_TerminalOutcome (tx_result (scored tx))))
           (r_TerminalRule (tx_result (scored tx))) (scored tx)) (scored tx))
      else if cfg_threshold (tx_cfg (scored tx)) \<le> tx_score (scored tx)
      then finish (blockDecision ReasonThreshold 0 (highestHit (scored tx)) (scored tx)) (scored tx)
      else (scored tx, allow ReasonNoMatch (tx_score (scored tx)) (tx_evaluated (scored tx))))"
proof -
  define x where "x = applyExceptions tx"
  define s where "s = x\<lparr>tx_score := wrap64 (tx_score x + r_Score (tx_result x)),
    tx_evaluated := tx_evaluated x + r_RulesEvaluated (tx_result x)\<rparr>"
  have s: "scored tx = s" by (simp add: scored_def Let_def s_def x_def)
  have res: "tx_result s = tx_result x" by (simp add: s_def)
  show ?thesis unfolding decide_phase_def Let_def x_def [symmetric] s_def [symmetric] s res by (rule refl)
qed

lemma finish_fields: "d_reason (snd (finish d tx)) = d_reason d" "d_verdict (snd (finish d tx)) = d_verdict d"
  "d_rule (snd (finish d tx)) = d_rule d" "d_derivedFrom (snd (finish d tx)) = d_derivedFrom d"
  "d_path (snd (finish d tx)) = tx_reqPath tx" "d_target (snd (finish d tx)) = d_target d" "d_key (snd (finish d tx)) = d_key d"
  by (simp_all add: finish_def Let_def)

lemma other_reasons:
  "d_reason (snd (budgetExhausted tx)) = ReasonBudget" "d_reason (snd (tx_undecidable_input why tx)) = ReasonUndecidable"
  by (simp_all add: budgetExhausted_def tx_undecidable_input_def finish_fields by_fail_mode_def base_decision_def)

lemma decision_for_rule:
  assumes "d_reason (snd (decide_phase tx)) = ReasonRule" "Blocked (snd (decide_phase tx))"
  shows "\<not> r_Exhausted (tx_result tx)" "r_Terminal (tx_result (applyExceptions tx))"
    "snd (decide_phase tx) = snd (finish (blockDecision ReasonRule (out_Status (r_TerminalOutcome (tx_result (applyExceptions tx))))
       (r_TerminalRule (tx_result (applyExceptions tx))) (scored tx)) (scored tx))"
proof -
  have e: "r_Exhausted (tx_result (scored tx)) = r_Exhausted (tx_result tx)"
    using exceptions_frame(6) [of tx] by (simp add: scored_fields)
  have "\<not> r_Exhausted (tx_result (scored tx)) \<and> \<not> r_Undecidable (tx_result (scored tx)) \<and> r_Terminal (tx_result (scored tx)) \<and>
      out_Kind (r_TerminalOutcome (tx_result (scored tx))) \<noteq> ActionAllow"
    using assms unfolding decide_phase_cases
    by (auto simp: other_reasons finish_fields blockDecision_fields Blocked_def allow_def decision_zero_def split: if_splits)
  then show "\<not> r_Exhausted (tx_result tx)" "r_Terminal (tx_result (applyExceptions tx))"
    "snd (decide_phase tx) = snd (finish (blockDecision ReasonRule (out_Status (r_TerminalOutcome (tx_result (applyExceptions tx))))
       (r_TerminalRule (tx_result (applyExceptions tx))) (scored tx)) (scored tx))"
    using e by (simp_all add: decide_phase_cases scored_fields)
qed

section \<open>Properties\<close>

text \<open>
  C10. The suggested exception answers the decision. When a rule blocks after an evaluation that was
  not cut short, and that rule has an id and hit in one place only (one target and key), an exception
  is suggested, and with it added to the configured ones the same evaluation is no longer decided by a
  rule: only the score can still block. The suggestion covers the authored rule and its mirrors alone,
  the target kind of the finding, its key if it has one (every key otherwise), and of the paths only
  the finding's own, unless that is empty (then every path) or ends in an asterisk (then every path
  with what stands before it as a prefix): in those cases it is wider than the finding.
\<close>

theorem suggested_exception_answers:
  assumes "compiled_ruleset (e_iface E) (tx_rs tx)" "evaluator_ready tx" "evaluate_phase E phase tx = Some tx'"
    and "decide_phase tx' = (tx2, d)" "d_reason d = ReasonRule" "Blocked d" "d_rule d = Some cr" "ID (cr_Rule cr) \<noteq> 0"
    and "\<forall>h \<in> set (r_Hits (tx_result tx')). h_Rule h = cr \<longrightarrow> h_Target h = d_target d \<and> h_Key h = d_key d"
  shows "\<exists>x. NarrowestException (Explain I d) = Some x \<and>
    d_reason (snd (decide_phase (tx'\<lparr>tx_cfg := (tx_cfg tx')\<lparr>cfg_exceptions := cfg_exceptions (tx_cfg tx') @ [x]\<rparr>\<rparr>)))
      \<in> {ReasonThreshold, ReasonNoMatch} \<and>
    (\<forall>rule derived path tg key. exception_Matches x rule derived path tg key =
      ((rule = authored cr \<or> derived = authored cr) \<and> (Kind (d_target d) = TargetInvalid \<or> Kind (d_target d) = Kind tg) \<and>
       (d_key d = [] \<or> d_key d = key) \<and>
       (if d_path d = [] then True
        else if last (d_path d) = 42 then \<exists>rest. path = butlast (d_path d) @ rest
        else path = d_path d)))"
proof -
  have d: "snd (decide_phase tx') = d" using assms(4) by simp
  note R = decision_for_rule [of tx', unfolded d, OF assms(5,6)]
  note X = applyExceptions_result [OF evaluated_result(1-3) [OF assms(1-3) R(1)]]
  obtain h where h: "h \<in> set (r_Hits (tx_result (applyExceptions tx')))" "terminal_hit h" "h \<in> set (r_Hits (tx_result tx'))"
    using X R(2) by (auto simp: Let_def)
  have "r_TerminalRule (tx_result (applyExceptions tx')) = r_TerminalRule (tx_result tx')"
    by (simp add: applyExceptions_def Let_def split: prod.split)
  then have term_rule: "r_TerminalRule (tx_result (applyExceptions tx')) = Some (h_Rule h)"
    using evaluated_terminal_rule(1) [OF assms(1-3) R(1) h(3,2)] by simp
  then have cr: "h_Rule h = cr" using R(3) assms(7) by (simp add: finish_fields blockDecision_fields)
  have path: "d_path d = tx_reqPath tx'" using R(3) by (simp add: finish_fields scored_fields)
  have "h \<in> set (r_Hits (tx_result (scored tx')))" using h(1) by (simp add: scored_fields)
  then have derived: "d_derivedFrom d = DerivedFrom (cr_Rule cr)"
    using R(3) term_rule cr by (metis blockDecision_place finish_fields(4))
  obtain x where x: "NarrowestException (Explain I d) = Some x" "ex_RuleID x = authored cr" "ex_Path x = d_path d"
    "ex_Target x = Kind (d_target d)" "ex_Key x = d_key d"
    using narrowest [OF assms(7,8) derived] by blast
  have a0: "authored cr \<noteq> 0" using assms(8) by (simp add: authored_def)
  note M = narrowest_matches [OF x(2) a0, unfolded x(3-5)]
  have paths: "(d_path d = [] \<or> matchPath (d_path d) path) =
      (if d_path d = [] then True
       else if last (d_path d) = 42 then \<exists>rest. path = butlast (d_path d) @ rest
       else path = d_path d)" for path
    by (cases "d_path d" rule: rev_cases) (auto simp: matchPath_iff)
  let ?tx = "tx'\<lparr>tx_cfg := (tx_cfg tx')\<lparr>cfg_exceptions := cfg_exceptions (tx_cfg tx') @ [x]\<rparr>\<rparr>"
  have "h_Target h = d_target d" "h_Key h = d_key d" using assms(9) h(3) cr by auto
  then have "exception_Matches x (ID (cr_Rule cr)) (DerivedFrom (cr_Rule cr)) (tx_reqPath tx') (h_Target h) (h_Key h)"
    unfolding M path by (simp add: authored_def matchPath_self)
  then have sup: "suppressed (cfg_exceptions (tx_cfg tx') @ [x]) (tx_reqPath tx') h"
    unfolding suppressed_def cr Suppresses_iff by auto
  have res: "tx_result ?tx = tx_result tx'" "tx_reqPath ?tx = tx_reqPath tx'" by simp_all
  note X2 = applyExceptions_result [of ?tx, unfolded res, OF evaluated_result(1-3) [OF assms(1-3) R(1)]]
  from X2 [unfolded Let_def, THEN conjunct2, THEN conjunct1]
  have "r_Terminal (tx_result (applyExceptions ?tx)) \<longleftrightarrow> (\<exists>k \<in> set (r_Hits (tx_result tx')).
      \<not> suppressed (cfg_exceptions (tx_cfg tx') @ [x]) (tx_reqPath tx') k \<and> terminal_hit k)" by simp blast
  moreover have "k = h" if "k \<in> set (r_Hits (tx_result tx'))" "terminal_hit k" for k
    using one_terminal [of k _ h] that h(2,3) unfolding evaluated_result(1) [OF assms(1-3) R(1)] by blast
  ultimately have "\<not> r_Terminal (tx_result (applyExceptions ?tx))" using sup by blast
  moreover have "\<not> r_Exhausted (tx_result (applyExceptions ?tx))" using exceptions_frame(6) [of ?tx] R(1) by simp
  moreover have "\<not> r_Undecidable (tx_result (applyExceptions ?tx))"
    using evaluated_result(4) [OF assms(1-3) R(1)] by (simp add: applyExceptions_def Let_def split: prod.split)
  ultimately have "d_reason (snd (decide_phase ?tx)) \<in> {ReasonThreshold, ReasonNoMatch}"
    by (simp add: decide_phase_cases scored_fields finish_fields blockDecision_fields allow_def decision_zero_def)
  with x(1) M [unfolded paths] show ?thesis by (intro exI [of _ x]) blast
qed

text \<open>The witness: the demonstration's rule, made to block.\<close>

definition block_rule :: "(builtin_transform, builtin_op, fixed_action) rule" where
  "block_rule = demo_rule\<lparr>Actions := [Some Block_action]\<rparr>"

lemma block_valid: "validate [block_rule] False = []"
  by (simp add: validate_def block_rule_def demo_rule_def field_errors_def target_errors_def phase_Valid_def
      target_kind_Valid_def target_kind_Phase_def severity_Valid_def confidence_Valid_def byte_simps)

lemma block_compiled:
  obtains rs where "Compile builtin (\<lambda>p j s. rev) [block_rule] False = Some (Inr rs)" "compiled_ruleset builtin rs"
proof -
  obtain rs where c: "Compile builtin (\<lambda>p j s. rev) [block_rule] False = Some (Inr rs)"
    using Compile_spec [OF rev_order, of builtin "[block_rule]" False] block_valid by auto
  have "compiled_ruleset builtin rs"
    by (rule compiled_rulesetI [OF rev_order c])
      simp
  with c that show thesis by blast
qed

lemma block_hits:
  assumes "Compile builtin (\<lambda>p j s. rev) [block_rule] False = Some (Inr rs)"
  shows "phase_hits builtin score rs PhaseRequestHeaders [demo_value] e \<noteq> []"
    and "h \<in> set (phase_hits builtin score rs PhaseRequestHeaders [demo_value] e) \<Longrightarrow>
      terminal_hit h \<and> h_Outcome h = outcome_zero\<lparr>out_Kind := ActionBlock\<rparr> \<and> h_Target h = v_Target demo_value \<and>
      h_Key h = v_Key demo_value \<and> ID (cr_Rule (h_Rule h)) = 1000001"
proof -
  let ?c = "request_ctx [demo_value] (sizeFor rs e)"
  have ph: "phase_Valid PhaseRequestHeaders" by (simp add: phase_Valid_def)
  note rules = compiled_rules [OF rev_order assms ph]
  have "Phase block_rule = PhaseRequestHeaders" by (simp add: block_rule_def demo_rule_def)
  then obtain g cr where g: "g \<in> set (Groups rs PhaseRequestHeaders)" "cr \<in> set (g_Rules g)" "cr_Rule cr = block_rule"
    using rules by (metis list.set_intros(1))
  define b where "b = \<lparr>rd_Bytes = ascii ''1+SEL%65CT'', rd_Class = 0\<rparr>"
  have v: "(0, b) \<in> set (value_readings demo_value)" unfolding b_def by (rule demo_verbatim)
  have same: "Targets block_rule = Targets demo_rule" "rule_op block_rule = rule_op demo_rule"
    "rule_chain block_rule = rule_chain demo_rule" by (simp_all add: block_rule_def rule_op_def rule_chain_def)
  have "rule_fires builtin ?c block_rule demo_value = rule_fires builtin ?c demo_rule demo_value"
    "rule_reached builtin block_rule = rule_reached builtin demo_rule"
    by (simp_all add: rule_fires_def rule_reached_def same prefilterable_def nominates_def)
  then have fires: "rule_fires builtin ?c (cr_Rule cr) demo_value (0, b)" "rule_reached builtin (cr_Rule cr) (0, b)"
    unfolding g(3) b_def by (simp_all only: demo_fires demo_reached)
  have n: "demo_value \<in> set [demo_value]" "\<not> v_Inert demo_value" by (simp_all add: demo_value_def)
  obtain k where "k \<in> set (phase_hits builtin score rs PhaseRequestHeaders [demo_value] e)"
    by (rule reached_hits [OF g(1,2) distinct_chain [OF rev_order assms builtin_chains_distinct g(1,2)]
          group_unconditional [OF rev_order assms g(1,2)] n v fires(2,1)])
  then show "phase_hits builtin score rs PhaseRequestHeaders [demo_value] e \<noteq> []" by (metis empty_iff empty_set)
  assume "h \<in> set (phase_hits builtin score rs PhaseRequestHeaders [demo_value] e)"
  then obtain rd :: reading and g' cr' where w: "g' \<in> set (Groups rs PhaseRequestHeaders)" "cr' \<in> set (g_Rules g')"
    "h \<in> set (rule_hits builtin score ?c demo_value (rd_Class rd) (chain_value builtin (g_Transforms g') (rd_Bytes rd)) cr')"
    unfolding phase_hits_iff split_beta list.set Let_def by blast
  then have cr': "cr_Rule cr' = block_rule" using rules [of "cr_Rule cr'"] by auto
  obtain data tr where dt: "chain_value builtin (g_Transforms g') (rd_Bytes rd) = (data, tr)" by force
  have acts: "cr_Actions score cr' = [Some Block_action]"
    by (simp add: cr_Actions_def effectiveActions_def cr' block_rule_def)
  have "h_Outcome h = fa_out Block_action \<and> h_Target h = v_Target demo_value \<and> h_Key h = v_Key demo_value \<and> h_Rule h = cr'"
    using w(3) unfolding dt by (auto simp: rule_hits_def acts fa_Run_def split: prod.splits if_splits)
  then show "terminal_hit h \<and> h_Outcome h = outcome_zero\<lparr>out_Kind := ActionBlock\<rparr> \<and> h_Target h = v_Target demo_value \<and>
      h_Key h = v_Key demo_value \<and> ID (cr_Rule (h_Rule h)) = 1000001"
    by (simp add: terminal_hit_def Block_action_def cr' block_rule_def demo_rule_def outcome_Terminal_def outcome_zero_def)
qed

theorem suggested_exception_answers_witness:
  "\<exists>rs. Compile builtin (\<lambda>p j s. rev) [block_rule] False = Some (Inr rs) \<and>
     (\<forall>E w. let tx = (p_client (NewTransaction None (w\<lparr>w_cfg := defaultConfig\<lparr>cfg_fuelLimit := 0\<rparr>, w_ruleset := rs\<rparr>)))
          \<lparr>tx_values := [demo_value], tx_reqPath := ascii ''/search''\<rparr> in
        \<exists>tx' d x. evaluate_phase (E\<lparr>e_iface := builtin\<rparr>) PhaseRequestHeaders tx = Some tx' \<and> d = snd (decide_phase tx') \<and>
          Blocked d \<and> NarrowestException (Explain builtin d) = Some x \<and>
          d_reason (snd (decide_phase (tx'\<lparr>tx_cfg := (tx_cfg tx')\<lparr>cfg_exceptions := cfg_exceptions (tx_cfg tx') @ [x]\<rparr>\<rparr>)))
            \<in> {ReasonThreshold, ReasonNoMatch})"
proof -
  obtain rs where c: "Compile builtin (\<lambda>p j s. rev) [block_rule] False = Some (Inr rs)" and comp: "compiled_ruleset builtin rs"
    by (rule block_compiled)
  have "\<exists>tx' d x. evaluate_phase (E\<lparr>e_iface := builtin\<rparr>) PhaseRequestHeaders tx = Some tx' \<and> d = snd (decide_phase tx') \<and>
          Blocked d \<and> NarrowestException (Explain builtin d) = Some x \<and>
          d_reason (snd (decide_phase (tx'\<lparr>tx_cfg := (tx_cfg tx')\<lparr>cfg_exceptions := cfg_exceptions (tx_cfg tx') @ [x]\<rparr>\<rparr>)))
            \<in> {ReasonThreshold, ReasonNoMatch}"
    if tx: "tx = (p_client (NewTransaction None (w\<lparr>w_cfg := defaultConfig\<lparr>cfg_fuelLimit := 0\<rparr>, w_ruleset := rs\<rparr>)))
          \<lparr>tx_values := [demo_value], tx_reqPath := ascii ''/search''\<rparr>" for E w tx
  proof -
    let ?E = "E\<lparr>e_iface := builtin\<rparr>"
    note fresh = tx NewTransaction_def newTransaction_def on_tx_def tx_reset_def
    have c': "compiled_ruleset (e_iface ?E) (tx_rs tx)" using comp by (simp add: fresh)
    have ready: "evaluator_ready tx"
      using fresh_ready(1) [of "w\<lparr>w_cfg := defaultConfig\<lparr>cfg_fuelLimit := 0\<rparr>, w_ruleset := rs\<rparr>"]
      by (simp add: tx evaluator_ready_def)
    have free: "free (tx_meter tx)" by (simp add: fresh meter_Reset_def free_def Unmetered_def)
    obtain tx' where ev: "evaluate_phase ?E PhaseRequestHeaders tx = Some tx'" using evaluate_returns [OF c' ready] by blast
    have nex: "\<not> r_Exhausted (tx_result tx')" by (rule free_evaluation [OF c' ready free ev])
    note R = evaluated_result [OF c' ready ev nex]
    have vals: "phase_values PhaseRequestHeaders tx = [demo_value]" by (simp add: phase_values_def fresh)
    have hits: "phase_evaluation ?E PhaseRequestHeaders tx =
        phase_hits builtin (e_score ?E) rs PhaseRequestHeaders [demo_value] (tx_eval tx)"
      unfolding phase_evaluation_def vals by (simp add: fresh)
    have cfg: "tx_cfg tx' = defaultConfig\<lparr>cfg_fuelLimit := 0\<rparr>" using ev by (auto simp: evaluate_phase_def fresh)
    then have same: "applyExceptions tx' = tx'" by (simp add: applyExceptions_def defaultConfig_def)
    have "r_Hits (tx_result tx') \<noteq> []"
      using R(1) block_hits(1) [OF c, of "e_score ?E" "tx_eval tx"] unfolding hits
      by (cases "phase_hits builtin (e_score ?E) rs PhaseRequestHeaders [demo_value] (tx_eval tx)") (simp_all split: if_split)
    then obtain h where h: "h \<in> set (r_Hits (tx_result tx'))" using last_in_set by blast
    have all: "terminal_hit k \<and> h_Outcome k = outcome_zero\<lparr>out_Kind := ActionBlock\<rparr> \<and> h_Target k = v_Target demo_value \<and>
        h_Key k = v_Key demo_value \<and> ID (cr_Rule (h_Rule k)) = 1000001" if "k \<in> set (r_Hits (tx_result tx'))" for k
      using block_hits(2) [OF c] that upto_terminal_subset unfolding R(1) hits by blast
    have term_hit: "terminal_hit h" using all [OF h] by blast
    note T = evaluated_terminal_rule [OF c' ready ev nex h term_hit]
    define d where "d = blockDecision ReasonRule (out_Status (h_Outcome h)) (Some (h_Rule h)) (scored tx')"
    have scored: "tx_result (scored tx') = tx_result tx'" "tx_cfg (scored tx') = tx_cfg tx'"
      by (simp_all add: scored_def Let_def same)
    have dec: "decide_phase tx' = finish d (scored tx')"
      unfolding decide_phase_cases scored T d_def using nex R(3,4) h term_hit all [OF h] by (auto simp: outcome_zero_def)
    obtain k where k: "k \<in> set (r_Hits (tx_result tx'))" "d_target d = h_Target k" "d_key d = h_Key k"
      unfolding d_def using blockDecision_place [of h "scored tx'" "h_Rule h"] h scored(1) by metis
    have place: "\<forall>m \<in> set (r_Hits (tx_result tx')). h_Rule m = h_Rule h \<longrightarrow>
        h_Target m = d_target (snd (decide_phase tx')) \<and> h_Key m = d_key (snd (decide_phase tx'))"
      unfolding dec finish_fields k(2,3) using all k(1) by metis
    have D: "d_reason (snd (decide_phase tx')) = ReasonRule" "Blocked (snd (decide_phase tx'))"
      "d_rule (snd (decide_phase tx')) = Some (h_Rule h)"
      unfolding dec finish_fields Blocked_def d_def blockDecision_fields scored(2) cfg by (simp_all add: defaultConfig_def)
    have i0: "ID (cr_Rule (h_Rule h)) \<noteq> 0" using all [OF h] by simp
    obtain tx2 d2 where "decide_phase tx' = (tx2, d2)" by force
    with suggested_exception_answers [OF c' ready ev this _ _ _ i0, of builtin] D place
    obtain x where "NarrowestException (Explain builtin (snd (decide_phase tx'))) = Some x"
      "d_reason (snd (decide_phase (tx'\<lparr>tx_cfg := (tx_cfg tx')\<lparr>cfg_exceptions := cfg_exceptions (tx_cfg tx') @ [x]\<rparr>\<rparr>)))
            \<in> {ReasonThreshold, ReasonNoMatch}" by fastforce
    with ev D(2) show ?thesis by blast
  qed
  with c show ?thesis unfolding Let_def by blast
qed

end
