(* ===== verification/Detect.thy ===== *)
theory Detect
  imports Windows Ops
begin

text \<open>
  What the attack detectors share (detect/ldapi, detect/nosqli): a bit mask of signals, a weight for
  each signal, a score that sums the weights of the bits that are set, and an operator that analyses
  a value window by window and reports the first window that reaches the threshold.
\<close>

section \<open>Signals and scores\<close>

type_synonym signal = "8 word"

record verdict_of =
  dv_Signals :: signal
  dv_Score :: int
  dv_Span :: span

definition verdict_zero :: verdict_of where
  "verdict_zero = \<lparr>dv_Signals = 0, dv_Score = 0, dv_Span = \<lparr>Off = 0, Len = 0\<rparr>\<rparr>"

text \<open>\<open>for bit := Signal(1); bit != 0; bit <<= 1\<close> runs over the eight bits of the mask.\<close>

definition signal_bits :: "signal list" where
  "signal_bits = map (\<lambda>k. push_bit k 1) [0..<8]"

definition score_of :: "(signal \<Rightarrow> int) \<Rightarrow> signal \<Rightarrow> int" where
  "score_of weight sigs =
     fold (\<lambda>bit total. if sigs AND bit \<noteq> 0 then total + weight bit else total) signal_bits 0"

text \<open>A mask as text: the names of its signals joined by plus signs.\<close>

definition add_name :: "signal \<Rightarrow> signal \<Rightarrow> string \<Rightarrow> string \<Rightarrow> string" where
  "add_name s flag n out =
     (if s AND flag \<noteq> 0 then (if length out > 0 then out @ ''+'' else out) @ n else out)"

text \<open>A detector keeps the span of its first signal.\<close>

definition mark_span :: "nat \<Rightarrow> nat \<Rightarrow> span option \<Rightarrow> span option" where
  "mark_span off n hit = (case hit of None \<Rightarrow> Some (SpanOf off n) | Some sp \<Rightarrow> Some sp)"

definition span_or_zero :: "span option \<Rightarrow> span" where
  "span_or_zero hit = (case hit of None \<Rightarrow> \<lparr>Off = 0, Len = 0\<rparr> | Some sp \<Rightarrow> sp)"

section \<open>Windowed operators\<close>

definition scan_step ::
  "(gobytes \<Rightarrow> verdict_of) \<Rightarrow> int \<Rightarrow> nat \<Rightarrow> gobytes \<Rightarrow> rmatch \<times> bool \<Rightarrow> bool \<times> (rmatch \<times> bool)"
where
  "scan_step analyze threshold off w s =
     (let v = analyze w in
      if \<not> threshold \<le> dv_Score v then (True, s)
      else (False, (\<lparr>m_Span = SpanOf (off + unat (Off (dv_Span v))) (unat (Len (dv_Span v)))\<rparr>, True)))"

definition scan_Eval ::
  "(gobytes \<Rightarrow> verdict_of) \<Rightarrow> int \<Rightarrow> int \<Rightarrow> gobytes \<Rightarrow> rmatch \<times> bool"
where
  "scan_Eval analyze threshold window v =
     Windows v window (scan_step analyze threshold) (rmatch_zero, False)"

section \<open>The windows of a value\<close>

lemma score_of_bits:
  "score_of weight s = sum_list (map (\<lambda>k. if bit s k then weight (push_bit k 1) else 0) [0..<8])"
proof -
  have "fold (\<lambda>bit total. if s AND bit \<noteq> 0 then total + weight bit else total) (map (\<lambda>k. push_bit k 1) ks) t =
      t + sum_list (map (\<lambda>k. if bit s k then weight (push_bit k 1) else 0) ks)" for ks t
    by (induction ks arbitrary: t) (simp_all add: bit_iff_and_push_bit_not_eq_0)
  from this [of "[0..<8]" 0] show ?thesis by (simp only: score_of_def signal_bits_def add_0)
qed

lemma windows_loop_inside:
  "(off, w) \<in> set (windows_loop src k step o1 visit []) \<Longrightarrow>
     off + length w \<le> length src \<and> w = take (length w) (drop off src) \<and> length w \<le> k"
proof (induction "length src - o1" arbitrary: o1 rule: less_induct)
  case less
  show ?case
  proof (cases "length src \<le> o1 \<or> step = 0")
    case False
    let ?fin = "if length src < o1 + k then length src else o1 + k"
    have e: "windows_loop src k step o1 visit [] = (o1, take (?fin - o1) (drop o1 src)) #
        (if ?fin = length src then [] else windows_loop src k step (o1 + step) visit [])"
      using False by (subst windows_loop.simps) (simp add: visit_def Let_def windows_loop_visit [where acc = "[x]" for x])
    from less.prems have "off = o1 \<and> w = take (?fin - o1) (drop o1 src) \<or>
        (off, w) \<in> set (windows_loop src k step (o1 + step) visit [])"
      by (subst (asm) e) (auto split: if_splits)
    then show ?thesis
    proof
      assume "off = o1 \<and> w = take (?fin - o1) (drop o1 src)"
      then show ?thesis using False by (auto simp: min_def)
    next
      assume "(off, w) \<in> set (windows_loop src k step (o1 + step) visit [])"
      then show ?thesis using less.hyps [of "o1 + step"] False by auto
    qed
  qed (use less.prems in \<open>simp add: windows_loop.simps\<close>)
qed

lemma window_list_inside:
  assumes "(off, w) \<in> set (window_list src k)"
  shows "off + length w \<le> length src" "w = take (length w) (drop off src)" "sublist w src"
proof -
  have "off + length w \<le> length src \<and> w = take (length w) (drop off src)"
    using assms windows_loop_inside [of off w src "nat k"]
    by (auto simp: window_list_def Windows_def visit_def split: if_splits)
  then show a: "off + length w \<le> length src" "w = take (length w) (drop off src)" by blast+
  have "sublist (take (length w) (drop off src)) src"
    by (metis append_take_drop_id sublist_appendI)
  with a(2) show "sublist w src" by simp
qed

lemma window_list_width:
  assumes "(off, w) \<in> set (window_list src k)" "0 < k"
  shows "int (length w) \<le> k"
  using assms windows_loop_inside [of off w src "nat k" "nat (window_step k)" 0]
  by (auto simp: window_list_def Windows_def visit_def split: if_splits)

lemma window_list_short: "int (length src) \<le> k \<Longrightarrow> window_list src k = [(0, src)]"
  by (simp add: window_list_def Windows_def visit_def)

text \<open>The operator hits exactly if some window reaches the threshold; the match is the first one's.\<close>

lemma run_scan:
  "run_until (scan_step A t) ws (m, False) =
     (case find (\<lambda>(off, w). t \<le> dv_Score (A w)) ws of
        None \<Rightarrow> (m, False)
      | Some (off, w) \<Rightarrow> (\<lparr>m_Span = SpanOf (off + unat (Off (dv_Span (A w)))) (unat (Len (dv_Span (A w))))\<rparr>, True))"
  by (induction ws) (auto simp: scan_step_def Let_def)

lemma scan_Eval_eq:
  "scan_Eval A t k v =
     (case find (\<lambda>(off, w). t \<le> dv_Score (A w)) (window_list v k) of
        None \<Rightarrow> (rmatch_zero, False)
      | Some (off, w) \<Rightarrow> (\<lparr>m_Span = SpanOf (off + unat (Off (dv_Span (A w)))) (unat (Len (dv_Span (A w))))\<rparr>, True))"
  by (simp add: scan_Eval_def Windows_run run_scan)

lemma scan_Eval_hits:
  "snd (scan_Eval A t k v) \<longleftrightarrow> (\<exists>(off, w) \<in> set (window_list v k). t \<le> dv_Score (A w))"
proof -
  have "snd (scan_Eval A t k v) \<longleftrightarrow> find (\<lambda>(off, w). t \<le> dv_Score (A w)) (window_list v k) \<noteq> None"
    by (auto simp: scan_Eval_eq split: option.split)
  then show ?thesis by (auto simp: find_None_iff)
qed

lemma literal_occurs_window: "literal_occurs l w \<Longrightarrow> sublist w v \<Longrightarrow> literal_occurs l v"
proof -
  assume "literal_occurs l w" "sublist w v"
  moreover then have "sublist (map fold_byte w) (map fold_byte v)" by (simp add: map_mono_sublist)
  ultimately show ?thesis unfolding literal_occurs_def using sublist_order.order_trans by blast
qed

lemma literal_occurs_self: "l \<noteq> [] \<Longrightarrow> sublist l v \<Longrightarrow> literal_occurs l v"
  by (simp add: literal_occurs_def map_mono_sublist)

lemma sublist_take_drop: "sublist (take n (drop i s)) s"
  by (metis append_take_drop_id sublist_appendI)

lemma take_drop_eq:
  assumes "take n (drop k w) = xs" "length xs = n" "0 < n"
  shows "k + n \<le> length w \<and> (\<forall>i < n. w ! (k + i) = xs ! i)"
proof -
  have "min (length w - k) n = n" using arg_cong [OF assms(1), of length] assms(2) by simp
  with assms(3) have "k + n \<le> length w" by linarith
  moreover from this have "xs ! i = w ! (k + i)" if "i < n" for i
    using that unfolding assms(1) [symmetric] by simp
  ultimately show ?thesis by simp
qed

lemma sublist_one: "i < length s \<Longrightarrow> sublist [s ! i] s"
  using sublist_take_drop [of 1 i s] by (simp add: take_Suc_conv_app_nth [of 0, simplified])

lemma sublist_two: "Suc i < length s \<Longrightarrow> sublist [s ! i, s ! Suc i] s"
  using sublist_take_drop [of 2 i s] by (simp add: numeral_2_eq_2 take_Suc_conv_app_nth)

lemma sublist_three: "i + 2 < length s \<Longrightarrow> sublist [s ! i, s ! (i + 1), s ! (i + 2)] s"
  using sublist_take_drop [of 3 i s] by (simp add: numeral_3_eq_3 take_Suc_conv_app_nth)

text \<open>The contract of a windowed operator follows from that of the analysis of one window.\<close>

definition span_in :: "gobytes \<Rightarrow> span \<Rightarrow> bool" where
  "span_in w s \<longleftrightarrow> unat (Off s) + unat (Len s) \<le> length w"

lemma scan_contract:
  assumes lits: "\<And>w. t \<le> dv_Score (A w) \<Longrightarrow> \<exists>l \<in> set ls. literal_occurs l w"
    and span: "\<And>w. t \<le> dv_Score (A w) \<Longrightarrow> length w < 2 ^ 32 \<Longrightarrow> span_in w (dv_Span (A w))"
  shows "operator_contract (\<lambda>c. scan_Eval A t k) (ls, True)"
proof
  fix ls' c v m
  assume "(ls, True) = (ls', True)" "scan_Eval A t k v = (m, True)"
  moreover from this obtain off w where "(off, w) \<in> set (window_list v k)" "t \<le> dv_Score (A w)"
    using scan_Eval_hits [of A t k v] by auto
  ultimately show "\<exists>l \<in> set ls'. literal_occurs l v"
    using lits window_list_inside(3) literal_occurs_window by blast
next
  fix c v m
  assume e: "scan_Eval A t k v = (m, True)" and v: "length v < 2 ^ 32"
  then obtain off w where f: "find (\<lambda>(off, w). t \<le> dv_Score (A w)) (window_list v k) = Some (off, w)"
    and m: "m = \<lparr>m_Span = SpanOf (off + unat (Off (dv_Span (A w)))) (unat (Len (dv_Span (A w))))\<rparr>"
    by (auto simp: scan_Eval_eq split: option.splits)
  from f have w: "(off, w) \<in> set (window_list v k)" "t \<le> dv_Score (A w)"
    unfolding find_Some_iff by (metis nth_mem, auto)
  note i = window_list_inside [OF w(1)]
  have "span_in w (dv_Span (A w))" using span [OF w(2)] i(1) v by simp
  then have "off + unat (Off (dv_Span (A w))) + unat (Len (dv_Span (A w))) \<le> length v"
    using i(1) by (simp add: span_in_def)
  then show "unat (Off (m_Span m)) + unat (Len (m_Span m)) \<le> length v"
    unfolding m using SpanOf_inside [OF _ v] by simp
qed

end
