(* ===== verification/Ldapi.thy ===== *)
theory Ldapi
  imports Detect
begin

text \<open>
  LDAP filter injection (detect/ldapi/ldapi.go): one pass over a value with one byte of lookahead,
  a running parenthesis depth, and four signals. The detector has no state.
\<close>

section \<open>Signals\<close>

abbreviation SignalUnbalancedParen :: signal where "SignalUnbalancedParen \<equiv> 1"
abbreviation SignalInjectedClause :: signal where "SignalInjectedClause \<equiv> 2"
abbreviation SignalAlwaysTrueFilter :: signal where "SignalAlwaysTrueFilter \<equiv> 4"
abbreviation SignalNullByte :: signal where "SignalNullByte \<equiv> 8"

definition ldapi_Signal_String :: "signal \<Rightarrow> string" where
  "ldapi_Signal_String s =
     (let out = add_name s SignalUnbalancedParen ''unbalanced_paren'' [];
          out = add_name s SignalInjectedClause ''injected_clause'' out;
          out = add_name s SignalAlwaysTrueFilter ''always_true_filter'' out;
          out = add_name s SignalNullByte ''null_byte'' out
      in if length out = 0 then ''none'' else out)"

abbreviation ldapi_Threshold :: int where "ldapi_Threshold \<equiv> 5"

definition ldapi_weightOf :: "signal \<Rightarrow> int" where
  "ldapi_weightOf s =
     (if s = SignalNullByte then 5 else if s = SignalInjectedClause then 3
      else if s = SignalUnbalancedParen then 2 else if s = SignalAlwaysTrueFilter then 1 else 0)"

definition ldapi_Detected :: "verdict_of \<Rightarrow> bool" where
  "ldapi_Detected v \<longleftrightarrow> ldapi_Threshold \<le> dv_Score v"

abbreviation ldapi_maxScan :: int where "ldapi_maxScan \<equiv> 8192"

section \<open>The analysis\<close>

record ldapi_state =
  li_sigs :: signal
  li_span :: "span option"
  li_depth :: int
  li_min :: int

definition ldapi_mark :: "signal \<Rightarrow> nat \<Rightarrow> nat \<Rightarrow> ldapi_state \<Rightarrow> ldapi_state" where
  "ldapi_mark s off n st =
     (let st = st\<lparr>li_sigs := li_sigs st OR s\<rparr>
      in if ldapi_weightOf s > 0 then st\<lparr>li_span := mark_span off n (li_span st)\<rparr> else st)"

definition isLogicalOp :: "byte \<Rightarrow> bool" where
  "isLogicalOp c \<longleftrightarrow> c = 38 \<or> c = 124 \<or> c = 33"

definition ldapi_step :: "gobytes \<Rightarrow> nat \<Rightarrow> ldapi_state \<Rightarrow> ldapi_state" where
  "ldapi_step src i st =
     (let c = src ! i in
      if c = 40 then
        let st = st\<lparr>li_depth := li_depth st + 1\<rparr>
        in if i + 1 < length src \<and> isLogicalOp (src ! (i + 1)) then ldapi_mark SignalInjectedClause i 2 st else st
      else if c = 41 then
        let st = st\<lparr>li_depth := li_depth st - 1\<rparr>;
            st = (if li_depth st < li_min st then st\<lparr>li_min := li_depth st\<rparr> else st);
            st = (if i + 1 < length src \<and> src ! (i + 1) = 40 then ldapi_mark SignalInjectedClause i 2 st else st)
        in if 0 < i \<and> src ! (i - 1) = 42 then ldapi_mark SignalAlwaysTrueFilter (i - 1) 2 st else st
      else if c = 0 then ldapi_mark SignalNullByte i 1 st
      else if c = 92 then
        (if i + 2 < length src \<and> src ! (i + 1) = 48 \<and> src ! (i + 2) = 48
         then ldapi_mark SignalNullByte i 3 st else st)
      else if c = 61 then
        (if i + 1 < length src \<and> src ! (i + 1) = 42 then ldapi_mark SignalAlwaysTrueFilter i 2 st else st)
      else st)"

definition ldapi_Analyze :: "gobytes \<Rightarrow> verdict_of" where
  "ldapi_Analyze v =
     (if length v = 0 then verdict_zero
      else
        let src = (if ldapi_maxScan < int (length v) then take (nat ldapi_maxScan) v else v);
            st = fold (ldapi_step src) [0..<length src] \<lparr>li_sigs = 0, li_span = None, li_depth = 0, li_min = 0\<rparr>;
            st = (if li_depth st \<noteq> 0 \<or> li_min st < 0
              then ldapi_mark SignalUnbalancedParen 0 (length src) st else st)
        in \<lparr>dv_Signals = li_sigs st, dv_Score = score_of ldapi_weightOf (li_sigs st),
            dv_Span = span_or_zero (li_span st)\<rparr>)"

section \<open>The operator\<close>

definition ldapi_Name :: gobytes where "ldapi_Name = ascii ''detect_ldapi''"

definition ldapi_Eval :: "eval_ctx \<Rightarrow> gobytes \<Rightarrow> rmatch \<times> bool" where
  "ldapi_Eval c v = scan_Eval ldapi_Analyze ldapi_Threshold ldapi_maxScan v"

definition ldapi_Literals :: "gobytes list \<times> bool" where
  "ldapi_Literals = ([ascii '')('', ascii ''(|'', ascii ''(&'', ascii ''(!'', [0], [92, 48, 48]], True)"

definition ldapi_Cost :: fuel where "ldapi_Cost = CostLiteralMatch * 2"

section \<open>What the analysis sees\<close>

text \<open>The depth after a prefix, and the four shapes the signals stand for.\<close>

definition paren_depth :: "gobytes \<Rightarrow> int" where
  "paren_depth s = int (count_list s 40) - int (count_list s 41)"

definition unbalanced :: "gobytes \<Rightarrow> bool" where
  "unbalanced s \<longleftrightarrow> paren_depth s \<noteq> 0 \<or> (\<exists>i \<le> length s. paren_depth (take i s) < 0)"

definition opens_clause :: "gobytes \<Rightarrow> nat \<Rightarrow> bool" where
  "opens_clause s i \<longleftrightarrow> Suc i < length s \<and>
     (s ! i = 41 \<and> s ! Suc i = 40 \<or> s ! i = 40 \<and> isLogicalOp (s ! Suc i))"

definition has_nul :: "gobytes \<Rightarrow> nat \<Rightarrow> bool" where
  "has_nul s i \<longleftrightarrow> i < length s \<and>
     (s ! i = 0 \<or> i + 2 < length s \<and> s ! i = 92 \<and> s ! (i + 1) = 48 \<and> s ! (i + 2) = 48)"

definition always_true :: "gobytes \<Rightarrow> nat \<Rightarrow> bool" where
  "always_true s i \<longleftrightarrow> i < length s \<and>
     (s ! i = 41 \<and> 0 < i \<and> s ! (i - 1) = 42 \<or> s ! i = 61 \<and> Suc i < length s \<and> s ! Suc i = 42)"

definition inside :: "gobytes \<Rightarrow> span option \<Rightarrow> bool" where
  "inside src hit \<longleftrightarrow> (case hit of None \<Rightarrow> True | Some sp \<Rightarrow> \<exists>off n. sp = SpanOf off n \<and> off + n \<le> length src)"

lemma inside_mark: "inside src hit \<Longrightarrow> off + n \<le> length src \<Longrightarrow> inside src (mark_span off n hit)"
  by (auto simp: inside_def mark_span_def split: option.splits)

text \<open>What is known of the state after \<open>i\<close> bytes.\<close>

definition ldapi_seen :: "gobytes \<Rightarrow> nat \<Rightarrow> ldapi_state \<Rightarrow> bool" where
  "ldapi_seen src i st \<longleftrightarrow>
     li_depth st = paren_depth (take i src) \<and>
     (\<forall>j \<le> i. li_min st \<le> paren_depth (take j src)) \<and> (\<exists>j \<le> i. li_min st = paren_depth (take j src)) \<and>
     (bit (li_sigs st) 1 \<longleftrightarrow> (\<exists>j < i. opens_clause src j)) \<and>
     (bit (li_sigs st) 3 \<longleftrightarrow> (\<exists>j < i. has_nul src j)) \<and> \<not> bit (li_sigs st) 0 \<and>
     inside src (li_span st)"

lemma paren_depth_Suc:
  "i < length s \<Longrightarrow> paren_depth (take (Suc i) s) =
     paren_depth (take i s) + (if s ! i = 40 then 1 else if s ! i = 41 then - 1 else 0)"
  by (simp add: paren_depth_def take_Suc_conv_app_nth)

lemma mark_fields [simp]:
  "li_sigs (ldapi_mark s off n st) = li_sigs st OR s" "li_depth (ldapi_mark s off n st) = li_depth st"
  "li_min (ldapi_mark s off n st) = li_min st"
  "inside src (li_span st) \<Longrightarrow> off + n \<le> length src \<Longrightarrow> inside src (li_span (ldapi_mark s off n st))"
  by (auto simp: ldapi_mark_def Let_def intro: inside_mark)

lemma all_Suc_le: "(\<forall>j \<le> Suc i. P j) \<longleftrightarrow> (\<forall>j \<le> i. P j) \<and> P (Suc i)"
  by (auto simp: le_Suc_eq)

lemma ex_Suc_le: "(\<exists>j \<le> Suc i. P j) \<longleftrightarrow> (\<exists>j \<le> i. P j) \<or> P (Suc i)"
  by (auto simp: le_Suc_eq)

lemma ex_Suc_less: "(\<exists>j < Suc i. P j) \<longleftrightarrow> (\<exists>j < i. P j) \<or> P i"
  by (auto simp: less_Suc_eq)

lemma running_min:
  assumes "\<forall>j \<le> i. m \<le> D j" "\<exists>j \<le> i. m = D j" "\<not> c \<Longrightarrow> D i \<le> D (Suc i)"
  shows "\<forall>j \<le> Suc i. (if c then min m (D (Suc i)) else m) \<le> (D j :: int)"
    and "\<exists>j \<le> Suc i. (if c then min m (D (Suc i)) else m) = D j"
proof -
  show "\<forall>j \<le> Suc i. (if c then min m (D (Suc i)) else m) \<le> D j"
  proof (intro allI impI)
    fix j assume "j \<le> Suc i"
    then consider "j \<le> i" | "j = Suc i" by (auto simp: le_Suc_eq)
    then show "(if c then min m (D (Suc i)) else m) \<le> D j"
    proof cases
      case 1
      then have "m \<le> D j" using assms(1) by blast
      then show ?thesis by (simp add: min_le_iff_disj)
    next
      case 2
      have "m \<le> D i" using assms(1) by blast
      with 2 assms(3) show ?thesis by (cases c) auto
    qed
  qed
  obtain j where "j \<le> i" "m = D j" using assms(2) by blast
  then show "\<exists>j \<le> Suc i. (if c then min m (D (Suc i)) else m) = D j"
    by (cases "c \<and> D (Suc i) < m") (auto simp: min_def intro: exI [of _ "Suc i"] exI [of _ j])
qed

lemma ldapi_byte:
  obtains "c = 40" | "c = 41" | "c = 0" | "c = 92" | "c = 61"
  | "c \<noteq> 40" "c \<noteq> 41" "c \<noteq> 0" "c \<noteq> 92" "c \<noteq> (61 :: byte)"
  by blast

lemma ldapi_step_seen:
  assumes seen: "ldapi_seen src i st" and i: "i < length src"
  shows "ldapi_seen src (Suc i) (ldapi_step src i st)"
proof -
  let ?st = "ldapi_step src i st" and ?c = "src ! i"
  have s: "li_depth st = paren_depth (take i src)" "inside src (li_span st)"
    using seen by (simp_all add: ldapi_seen_def)
  have d: "li_depth ?st = paren_depth (take (Suc i) src)"
    by (cases rule: ldapi_byte [of ?c]; simp add: s ldapi_step_def Let_def paren_depth_Suc i)
  have m: "li_min ?st = (if ?c = 41 then min (li_min st) (li_depth ?st) else li_min st)"
    by (cases rule: ldapi_byte [of ?c]; simp add: ldapi_step_def Let_def min_def)
  have up: "?c \<noteq> 41 \<Longrightarrow> paren_depth (take i src) \<le> paren_depth (take (Suc i) src)"
    using i by (simp add: paren_depth_Suc)
  have least: "(\<forall>j \<le> Suc i. li_min ?st \<le> paren_depth (take j src)) \<and> (\<exists>j \<le> Suc i. li_min ?st = paren_depth (take j src))"
    unfolding m d using seen up
    by (intro conjI running_min [where D = "\<lambda>j. paren_depth (take j src)"]) (simp_all add: ldapi_seen_def)
  have sigs: "li_sigs ?st = li_sigs st OR (if opens_clause src i then SignalInjectedClause else 0) OR
      (if has_nul src i then SignalNullByte else 0) OR (if always_true src i then SignalAlwaysTrueFilter else 0)"
    and span: "inside src (li_span ?st)"
    using s(2) i by (cases rule: ldapi_byte [of ?c]; simp add: ldapi_step_def Let_def opens_clause_def has_nul_def
        always_true_def or.assoc)+
  then have clause: "bit (li_sigs ?st) 1 \<longleftrightarrow> bit (li_sigs st) 1 \<or> opens_clause src i"
    and nul: "bit (li_sigs ?st) 3 \<longleftrightarrow> bit (li_sigs st) 3 \<or> has_nul src i"
    and balance: "bit (li_sigs ?st) 0 \<longleftrightarrow> bit (li_sigs st) 0"
    by (simp_all add: bit_or_iff)
  show ?thesis
    using seen d least clause nul balance span unfolding ldapi_seen_def by (simp add: ex_Suc_less)
qed

text \<open>What the whole value shows.\<close>

definition ldapi_attack :: "gobytes \<Rightarrow> bool" where
  "ldapi_attack s \<longleftrightarrow> (\<exists>j. has_nul s j) \<or> (\<exists>j. opens_clause s j) \<and> unbalanced s"

lemma ldapi_fold_seen:
  "i \<le> length src \<Longrightarrow>
     ldapi_seen src i (fold (ldapi_step src) [0..<i] \<lparr>li_sigs = 0, li_span = None, li_depth = 0, li_min = 0\<rparr>)"
proof (induction i)
  case 0
  then show ?case by (simp add: ldapi_seen_def paren_depth_def inside_def)
next
  case (Suc i)
  then show ?case by (simp add: ldapi_step_seen)
qed

lemma ldapi_score:
  "ldapi_Threshold \<le> score_of ldapi_weightOf s \<longleftrightarrow> bit s 3 \<or> bit s 1 \<and> bit s 0"
proof -
  have "[0..<8] = [0, 1, 2, 3, 4, 5, 6, 7 :: nat]" by (simp add: upt_rec)
  then show ?thesis by (simp add: score_of_bits ldapi_weightOf_def)
qed

definition ldapi_scanned :: "gobytes \<Rightarrow> gobytes" where
  "ldapi_scanned v = (if ldapi_maxScan < int (length v) then take (nat ldapi_maxScan) v else v)"

lemma seen_anywhere:
  "(\<exists>j < length s. opens_clause s j) \<longleftrightarrow> (\<exists>j. opens_clause s j)" "(\<exists>j < length s. has_nul s j) \<longleftrightarrow> (\<exists>j. has_nul s j)"
  unfolding opens_clause_def has_nul_def by (auto dest: Suc_lessD)

lemma ldapi_Analyze_spec:
  shows "ldapi_Threshold \<le> dv_Score (ldapi_Analyze v) \<longleftrightarrow> ldapi_attack (ldapi_scanned v)" (is ?score)
    and "length v < 2 ^ 32 \<Longrightarrow> span_in v (dv_Span (ldapi_Analyze v))"
proof -
  let ?src = "ldapi_scanned v"
  let ?st = "fold (ldapi_step ?src) [0..<length ?src] \<lparr>li_sigs = 0, li_span = None, li_depth = 0, li_min = 0\<rparr>"
  let ?fin = "if li_depth ?st \<noteq> 0 \<or> li_min ?st < 0 then ldapi_mark SignalUnbalancedParen 0 (length ?src) ?st else ?st"
  have seen: "ldapi_seen ?src (length ?src) ?st" by (rule ldapi_fold_seen) simp
  have unb: "li_depth ?st \<noteq> 0 \<or> li_min ?st < 0 \<longleftrightarrow> unbalanced ?src"
    using seen unfolding ldapi_seen_def unbalanced_def by (metis take_all_iff order.refl order.strict_trans1)
  have sigs: "bit (li_sigs ?fin) 0 \<longleftrightarrow> unbalanced ?src"
    "bit (li_sigs ?fin) 1 \<longleftrightarrow> (\<exists>j. opens_clause ?src j)" "bit (li_sigs ?fin) 3 \<longleftrightarrow> (\<exists>j. has_nul ?src j)"
    using seen unb seen_anywhere [of ?src] by (simp_all add: ldapi_seen_def bit_or_iff)
  have inside_end: "inside ?src (li_span ?fin)" using seen by (simp add: ldapi_seen_def)
  have len: "length ?src \<le> length v" by (simp add: ldapi_scanned_def)
  have A: "v \<noteq> [] \<Longrightarrow> ldapi_Analyze v = \<lparr>dv_Signals = li_sigs ?fin, dv_Score = score_of ldapi_weightOf (li_sigs ?fin),
      dv_Span = span_or_zero (li_span ?fin)\<rparr>"
    unfolding ldapi_Analyze_def ldapi_scanned_def [symmetric] by (simp add: Let_def)
  show ?score
  proof (cases "v = []")
    case True
    then show ?thesis
      by (simp add: ldapi_Analyze_def verdict_zero_def ldapi_attack_def ldapi_scanned_def has_nul_def opens_clause_def)
  next
    case False
    then show ?thesis using A sigs by (simp add: ldapi_score ldapi_attack_def)
  qed
  assume v: "length v < 2 ^ 32"
  show "span_in v (dv_Span (ldapi_Analyze v))"
  proof (cases "v = []")
    case True
    then show ?thesis by (simp add: ldapi_Analyze_def verdict_zero_def span_in_def)
  next
    case False
    show ?thesis
    proof (cases "li_span ?fin")
      case None
      then show ?thesis using A [OF False] by (simp add: span_or_zero_def span_in_def)
    next
      case (Some sp)
      with inside_end obtain off n where "sp = SpanOf off n" "off + n \<le> length ?src" by (auto simp: inside_def)
      then show ?thesis using A [OF False] Some SpanOf_inside [of off n v] v len
        by (simp add: span_or_zero_def span_in_def)
    qed
  qed
qed

section \<open>The contract of the operator\<close>

lemma ldapi_attack_literals: "ldapi_attack s \<Longrightarrow> \<exists>l \<in> set (fst ldapi_Literals). literal_occurs l s"
proof -
  assume "ldapi_attack s"
  then consider j where "has_nul s j" | j where "opens_clause s j" by (auto simp: ldapi_attack_def)
  then show ?thesis
  proof cases
    case 1
    then have "sublist [0] s \<or> sublist [92, 48, 48] s"
      using sublist_one [of j s] sublist_three [of j s] by (auto simp: has_nul_def)
    then show ?thesis by (auto simp: ldapi_Literals_def intro: literal_occurs_self)
  next
    case 2
    then have "sublist [41, 40] s \<or> sublist [40, 124] s \<or> sublist [40, 38] s \<or> sublist [40, 33] s"
      using sublist_two [of j s] by (auto simp: opens_clause_def isLogicalOp_def)
    then show ?thesis by (auto simp: ldapi_Literals_def intro: literal_occurs_self)
  qed
qed

lemma ldapi_attack_scanned: "ldapi_attack (ldapi_scanned v) \<Longrightarrow> \<exists>l \<in> set (fst ldapi_Literals). literal_occurs l v"
  using ldapi_attack_literals [of "ldapi_scanned v"] literal_occurs_window [of _ "ldapi_scanned v" v]
  by (auto simp: ldapi_scanned_def split: if_splits)

interpretation ldapi: operator_contract ldapi_Eval ldapi_Literals
proof -
  have "operator_contract (\<lambda>c. scan_Eval ldapi_Analyze ldapi_Threshold ldapi_maxScan) (fst ldapi_Literals, True)"
    by (rule scan_contract) (use ldapi_Analyze_spec ldapi_attack_scanned in auto)
  then show "operator_contract ldapi_Eval ldapi_Literals"
    by (simp add: ldapi_Eval_def [abs_def] ldapi_Literals_def)
qed

section \<open>Properties\<close>

lemma ldapi_hits: "snd (ldapi_Eval c v) \<longleftrightarrow> (\<exists>(off, w) \<in> set (window_list v ldapi_maxScan). ldapi_attack (ldapi_scanned w))"
  by (simp add: ldapi_Eval_def scan_Eval_hits ldapi_Analyze_spec)

lemma all_less_Suc3: "(\<forall>i < 3. P i) \<longleftrightarrow> P 0 \<and> P (1 :: nat) \<and> P 2"
  by (auto simp: numeral_3_eq_3 numeral_2_eq_2 less_Suc_eq)

lemma has_nul_within:
  assumes "has_nul s j"
  shows "\<exists>n. 0 < n \<and> n \<le> 3 \<and> j + n \<le> length s \<and> (\<forall>w k. take n (drop k w) = take n (drop j s) \<longrightarrow> has_nul w k)"
proof -
  from assms consider "j < length s" "s ! j = 0"
    | "j + 2 < length s" "s ! j = 92" "s ! (j + 1) = 48" "s ! (j + 2) = 48" by (auto simp: has_nul_def)
  then show ?thesis
  proof cases
    case 1
    then have "has_nul w k" if "take 1 (drop k w) = take 1 (drop j s)" for w k
    proof -
      have e: "take 1 (drop k w) = [0]" using that 1 by (simp add: take_Suc_conv_app_nth)
      from take_drop_eq [OF e] show ?thesis by (simp add: has_nul_def)
    qed
    with 1 show ?thesis by (intro exI [of _ 1]) simp
  next
    case 2
    then have "has_nul w k" if "take 3 (drop k w) = take 3 (drop j s)" for w k
    proof -
      have "take 3 (drop j s) = [92, 48, 48]" using 2 by (simp add: numeral_3_eq_3 take_Suc_conv_app_nth)
      then have e: "take 3 (drop k w) = [92, 48, 48]" using that by simp
      from take_drop_eq [OF e] show ?thesis by (simp add: has_nul_def all_less_Suc3)
    qed
    with 2 show ?thesis by (intro exI [of _ 3]) simp
  qed
qed

text \<open>
  C39. The LDAP detector reports exactly broken filters. A value within one window is reported exactly
  if it holds a NUL byte or its escape, or if it opens a clause (")(" or a parenthesis before a logical
  operator) and its parentheses do not balance; so no balanced filter without a NUL is reported. And
  padding hides no NUL: a value that holds one is reported whatever stands before and after it.
\<close>

theorem ldapi_reports_exactly:
  assumes "length v \<le> 8192"
  shows "(snd (ldapi_Eval c v) \<longleftrightarrow> (\<exists>j. has_nul v j) \<or> (\<exists>j. opens_clause v j) \<and> unbalanced v) \<and>
    ((\<exists>j. has_nul v j) \<longrightarrow> (\<forall>pre post. snd (ldapi_Eval c (pre @ v @ post))))"
proof
  show "snd (ldapi_Eval c v) \<longleftrightarrow> (\<exists>j. has_nul v j) \<or> (\<exists>j. opens_clause v j) \<and> unbalanced v"
    using assms by (simp add: ldapi_hits window_list_short ldapi_scanned_def ldapi_attack_def)
  show "(\<exists>j. has_nul v j) \<longrightarrow> (\<forall>pre post. snd (ldapi_Eval c (pre @ v @ post)))"
  proof (intro impI allI)
    fix pre post assume "\<exists>j. has_nul v j"
    then obtain j n where n: "n \<le> 3" "j + n \<le> length v"
      "\<And>w k. take n (drop k w) = take n (drop j v) \<Longrightarrow> has_nul w k" using has_nul_within by blast
    let ?s = "pre @ v @ post"
    obtain off w where w: "(off, w) \<in> set (window_list ?s ldapi_maxScan)"
      "take n (drop (length pre + j - off) w) = take n (drop (length pre + j) ?s)"
      by (rule window_list_covers [of "length pre + j" n ?s ldapi_maxScan]) (use n in \<open>auto simp: overlapFor_def Let_def\<close>)
    have "take n (drop (length pre + j) ?s) = take n (drop j v)" using n(2) by simp
    then have "has_nul w (length pre + j - off)" using n(3) w(2) by simp
    moreover have "int (length w) \<le> ldapi_maxScan" by (rule window_list_width [OF w(1)]) simp
    ultimately have "ldapi_attack (ldapi_scanned w)" by (auto simp: ldapi_attack_def ldapi_scanned_def)
    with w(1) show "snd (ldapi_Eval c ?s)" by (auto simp: ldapi_hits)
  qed
qed

lemma has_nul_list: "(\<exists>j. has_nul s j) \<longleftrightarrow> list_ex (has_nul s) [0..<length s]"
proof -
  have "has_nul s j \<Longrightarrow> j < length s" for j by (simp add: has_nul_def)
  then show ?thesis by (auto simp: list_ex_iff)
qed

lemma unbalanced_list:
  "unbalanced s \<longleftrightarrow> paren_depth s \<noteq> 0 \<or> list_ex (\<lambda>i. paren_depth (take i s) < 0) [0..<Suc (length s)]"
  by (auto simp: list_ex_iff unbalanced_def less_Suc_eq_le simp del: upt_Suc)

theorem ldapi_reports_exactly_witness:
  "\<forall>c. snd (ldapi_Eval c (ascii ''*)(uid=*))(|(uid=*'')) \<and> \<not> snd (ldapi_Eval c (ascii ''(&(uid=*)(!(a=b)))'')) \<and>
   snd (ldapi_Eval c (replicate 100000 32 @ [97, 0] @ replicate 100000 32))"
proof (intro allI conjI)
  fix c
  let ?bad = "ascii ''*)(uid=*))(|(uid=*''" and ?good = "ascii ''(&(uid=*)(!(a=b)))''"
  have bad: "opens_clause ?bad 1" "paren_depth (take 2 ?bad) < 0" by (simp_all add: opens_clause_def paren_depth_def)
  then have "unbalanced ?bad" unfolding unbalanced_def by (intro disjI2 exI [of _ 2]) simp
  show "snd (ldapi_Eval c ?bad)"
    using ldapi_reports_exactly [of ?bad c] bad(1) \<open>unbalanced ?bad\<close> by (auto simp del: ascii_simps)
  have good: "\<not> (\<exists>j. has_nul ?good j)" "\<not> unbalanced ?good"
    unfolding has_nul_list unbalanced_list by code_simp+
  show "\<not> snd (ldapi_Eval c ?good)"
    using ldapi_reports_exactly [of ?good c] good by (simp del: ascii_simps)
  have "has_nul [97, 0] 1" by (simp add: has_nul_def)
  then show "snd (ldapi_Eval c (replicate 100000 32 @ [97, 0] @ replicate 100000 32))"
    using ldapi_reports_exactly [of "[97, 0]" c] by auto
qed

end
