(* ===== verification/Nosqli.thy ===== *)
theory Nosqli
  imports Detect "HOL-Library.List_Lexorder"
begin

text \<open>
  NoSQL injection by parameter name (detect/nosqli/nosqli.go): the operator tokens of MongoDB's query
  language found in a name. The detector reads the first 1024 bytes and has no state. The table of
  tokens is a Go map that is only looked up and, for the literals, collected and sorted.
\<close>

section \<open>Signals and tables\<close>

abbreviation SignalQueryOperator :: signal where "SignalQueryOperator \<equiv> 1"
abbreviation SignalEvalOperator :: signal where "SignalEvalOperator \<equiv> 2"
abbreviation SignalUpdateOperator :: signal where "SignalUpdateOperator \<equiv> 4"
abbreviation SignalAmbiguousOperator :: signal where "SignalAmbiguousOperator \<equiv> 8"
abbreviation SignalPipelineWrite :: signal where "SignalPipelineWrite \<equiv> 16"

definition nosqli_Signal_String :: "signal \<Rightarrow> string" where
  "nosqli_Signal_String s =
     (let out = add_name s SignalQueryOperator ''query_operator'' [];
          out = add_name s SignalEvalOperator ''eval_operator'' out;
          out = add_name s SignalUpdateOperator ''update_operator'' out;
          out = add_name s SignalAmbiguousOperator ''ambiguous_operator'' out;
          out = add_name s SignalPipelineWrite ''pipeline_write'' out
      in if length out = 0 then ''none'' else out)"

abbreviation nosqli_Threshold :: int where "nosqli_Threshold \<equiv> 5"

definition nosqli_weightOf :: "signal \<Rightarrow> int" where
  "nosqli_weightOf s =
     (if s = SignalQueryOperator \<or> s = SignalEvalOperator \<or> s = SignalPipelineWrite then 5
      else if s = SignalUpdateOperator then 3 else if s = SignalAmbiguousOperator then 2 else 0)"

definition operatorTokens :: "(gobytes \<times> signal) list" where
  "operatorTokens = [
     (ascii ''$where'', SignalEvalOperator), (ascii ''$function'', SignalEvalOperator),
     (ascii ''$accumulator'', SignalEvalOperator), (ascii ''$expr'', SignalEvalOperator),
     (ascii ''$ne'', SignalQueryOperator), (ascii ''$eq'', SignalQueryOperator),
     (ascii ''$gt'', SignalQueryOperator), (ascii ''$gte'', SignalQueryOperator),
     (ascii ''$lt'', SignalQueryOperator), (ascii ''$lte'', SignalQueryOperator),
     (ascii ''$in'', SignalQueryOperator), (ascii ''$nin'', SignalQueryOperator),
     (ascii ''$regex'', SignalQueryOperator), (ascii ''$options'', SignalQueryOperator),
     (ascii ''$exists'', SignalQueryOperator), (ascii ''$mod'', SignalQueryOperator),
     (ascii ''$all'', SignalQueryOperator), (ascii ''$size'', SignalQueryOperator),
     (ascii ''$elemMatch'', SignalQueryOperator), (ascii ''$not'', SignalQueryOperator),
     (ascii ''$or'', SignalQueryOperator), (ascii ''$and'', SignalQueryOperator),
     (ascii ''$nor'', SignalQueryOperator), (ascii ''$jsonSchema'', SignalQueryOperator),
     (ascii ''$bitsAllSet'', SignalQueryOperator), (ascii ''$bitsAnySet'', SignalQueryOperator),
     (ascii ''$bitsAllClear'', SignalQueryOperator), (ascii ''$bitsAnyClear'', SignalQueryOperator),
     (ascii ''$geoWithin'', SignalQueryOperator), (ascii ''$geoIntersects'', SignalQueryOperator),
     (ascii ''$near'', SignalQueryOperator), (ascii ''$nearSphere'', SignalQueryOperator),
     (ascii ''$set'', SignalUpdateOperator), (ascii ''$unset'', SignalUpdateOperator),
     (ascii ''$inc'', SignalUpdateOperator), (ascii ''$mul'', SignalUpdateOperator),
     (ascii ''$rename'', SignalUpdateOperator), (ascii ''$push'', SignalUpdateOperator),
     (ascii ''$pull'', SignalUpdateOperator), (ascii ''$pullAll'', SignalUpdateOperator),
     (ascii ''$addToSet'', SignalUpdateOperator), (ascii ''$pop'', SignalUpdateOperator),
     (ascii ''$each'', SignalUpdateOperator), (ascii ''$position'', SignalUpdateOperator),
     (ascii ''$slice'', SignalUpdateOperator), (ascii ''$sort'', SignalUpdateOperator),
     (ascii ''$currentDate'', SignalUpdateOperator), (ascii ''$setOnInsert'', SignalUpdateOperator),
     (ascii ''$bit'', SignalUpdateOperator), (ascii ''$out'', SignalPipelineWrite),
     (ascii ''$merge'', SignalPipelineWrite), (ascii ''$lookup'', SignalQueryOperator),
     (ascii ''$graphLookup'', SignalQueryOperator), (ascii ''$unionWith'', SignalQueryOperator),
     (ascii ''$facet'', SignalQueryOperator), (ascii ''$replaceWith'', SignalQueryOperator),
     (ascii ''$replaceRoot'', SignalQueryOperator), (ascii ''$type'', SignalAmbiguousOperator)]"

definition nosqli_classify :: "gobytes \<Rightarrow> signal" where
  "nosqli_classify tok = (case map_of operatorTokens tok of Some s \<Rightarrow> s | None \<Rightarrow> 0)"

definition nosqli_benign :: "gobytes list" where
  "nosqli_benign = [
     ascii ''$schema'', ascii ''$ref'', ascii ''$id'', ascii ''$defs'', ascii ''$comment'',
     ascii ''$anchor'', ascii ''$vocabulary'', ascii ''$dynamicRef'', ascii ''$dynamicAnchor'',
     ascii ''$recursiveRef'', ascii ''$recursiveAnchor'', ascii ''$filter'', ascii ''$select'',
     ascii ''$top'', ascii ''$skip'', ascii ''$orderby'', ascii ''$expand'', ascii ''$count'',
     ascii ''$format'', ascii ''$search'', ascii ''$apply'', ascii ''$compute'', ascii ''$levels'',
     ascii ''$inlinecount'', ascii ''$skiptoken'', ascii ''$deltatoken'', ascii ''$index'',
     ascii ''$schemaversion'', ascii ''$value'', ascii ''$batch'', ascii ''$metadata'', ascii ''$root'',
     ascii ''$it'', ascii ''$this'', ascii ''$values'', ascii ''$$hashKey'', ascii ''$async'',
     ascii ''$meta'']"

definition nosqli_Detected :: "verdict_of \<Rightarrow> bool" where
  "nosqli_Detected v \<longleftrightarrow> nosqli_Threshold \<le> dv_Score v"

abbreviation nosqli_maxScan :: nat where "nosqli_maxScan \<equiv> 1024"
abbreviation maxTokenLen :: nat where "maxTokenLen \<equiv> 24"

section \<open>The analysis\<close>

definition isNameByte :: "byte \<Rightarrow> bool" where
  "isNameByte c \<longleftrightarrow> 97 \<le> c \<and> c \<le> 122 \<or> 65 \<le> c \<and> c \<le> 90"

text \<open>The token a dollar sign starts: a second dollar sign is taken only here, then name bytes.\<close>

definition nosqli_token :: "gobytes \<Rightarrow> gobytes" where
  "nosqli_token rest =
     (case rest of
        [] \<Rightarrow> []
      | c # cs \<Rightarrow>
          if cs \<noteq> [] \<and> hd cs = 36 then c # 36 # takeWhile isNameByte (tl cs)
          else c # takeWhile isNameByte cs)"

definition nosqli_record :: "nat \<Rightarrow> gobytes \<Rightarrow> signal \<times> span option \<Rightarrow> signal \<times> span option" where
  "nosqli_record i tok = (\<lambda>(sigs, span).
     if length tok > maxTokenLen then (sigs, span)
     else if tok \<in> set nosqli_benign then (sigs, span)
     else if nosqli_classify tok \<noteq> 0 then (sigs OR nosqli_classify tok, mark_span i (length tok) span)
     else (sigs, span))"

text \<open>The loop from position \<open>i\<close>, where \<open>rest\<close> is what is left of the name.\<close>

function nosqli_loop :: "nat \<Rightarrow> gobytes \<Rightarrow> signal \<times> span option \<Rightarrow> signal \<times> span option" where
  "nosqli_loop i [] st = st"
| "nosqli_loop i (c # cs) st =
     (if c \<noteq> 36 then nosqli_loop (i + 1) cs st
      else let tok = nosqli_token (c # cs)
        in nosqli_loop (i + length tok) (drop (length tok) (c # cs)) (nosqli_record i tok st))"
  by pat_completeness auto
termination
  by (relation "measure (\<lambda>(i, rest, st). length rest)") (auto simp: nosqli_token_def)

definition nosqli_Analyze :: "gobytes \<Rightarrow> verdict_of" where
  "nosqli_Analyze name =
     (if length name = 0 then verdict_zero
      else
        let src = (if nosqli_maxScan < length name then take nosqli_maxScan name else name)
        in case nosqli_loop 0 src (0, None) of (sigs, span) \<Rightarrow>
          \<lparr>dv_Signals = sigs, dv_Score = score_of nosqli_weightOf sigs, dv_Span = span_or_zero span\<rparr>)"

section \<open>The operator\<close>

definition nosqli_Operator_literals :: "signal \<Rightarrow> gobytes list" where
  "nosqli_Operator_literals accept =
     sort (map fst (filter (\<lambda>(tok, sig). sig AND accept \<noteq> 0) operatorTokens))"

definition nosqli_Name :: gobytes where "nosqli_Name = ascii ''detect_nosqli''"

definition nosqli_Eval :: "signal \<Rightarrow> eval_ctx \<Rightarrow> gobytes \<Rightarrow> rmatch \<times> bool" where
  "nosqli_Eval accept c v =
     (let d = nosqli_Analyze v in
      if \<not> nosqli_Detected d \<or> dv_Signals d AND accept = 0 then (rmatch_zero, False)
      else (\<lparr>m_Span = dv_Span d\<rparr>, True))"

definition nosqli_Literals :: "signal \<Rightarrow> gobytes list \<times> bool" where
  "nosqli_Literals accept = (nosqli_Operator_literals accept, True)"

definition nosqli_Cost :: fuel where "nosqli_Cost = CostLiteralMatch * 2"

section \<open>The tokens of a name\<close>

text \<open>
  An operator stands in a name as a dollar sign and all the letters that follow it; a dollar sign that
  an earlier one takes with it, so one after an odd run of them, starts none.
\<close>

definition operator_in :: "gobytes \<Rightarrow> gobytes \<Rightarrow> bool" where
  "operator_in s tok \<longleftrightarrow> (\<exists>pre name post. s = pre @ 36 # name @ post \<and> tok = 36 # name \<and> name \<noteq> [] \<and>
     list_all isNameByte name \<and> (post = [] \<or> \<not> isNameByte (hd post)) \<and>
     even (length (takeWhile (\<lambda>c. c = 36) (rev pre))))"

abbreviation dollars :: "gobytes \<Rightarrow> nat" where
  "dollars s \<equiv> length (takeWhile (\<lambda>c. c = 36) s)"

lemma dollars_append: "dollars (xs @ ys) = (if set xs \<subseteq> {36} then length xs + dollars ys else dollars xs)"
  by (induction xs) auto

lemma dollars_all: "set xs \<subseteq> {36} \<Longrightarrow> dollars xs = length xs"
  by (induction xs) auto

lemma not_name_dollar: "isNameByte c \<Longrightarrow> c \<noteq> 36"
  by (auto simp: isNameByte_def byte_simps)

lemma operator_in_Nil [simp]: "\<not> operator_in [] tok"
  by (simp add: operator_in_def)

lemma operator_in_prepend:
  assumes "\<not> set us \<subseteq> {36} \<or> even (length us)" and "\<not> set us \<subseteq> {36} \<Longrightarrow> s = [] \<or> hd s \<noteq> 36 \<or> last us \<noteq> 36"
    and "operator_in s tok"
  shows "operator_in (us @ s) tok"
proof -
  from assms(3) obtain pre name post where s: "s = pre @ 36 # name @ post" "tok = 36 # name" "name \<noteq> []"
    "list_all isNameByte name" "post = [] \<or> \<not> isNameByte (hd post)" "even (dollars (rev pre))"
    by (auto simp: operator_in_def)
  have "even (dollars (rev (us @ pre)))"
  proof (cases "set pre \<subseteq> {36}")
    case True
    show ?thesis
    proof (cases "set us \<subseteq> {36}")
      case all: True
      then show ?thesis using True s(6) assms(1) dollars_append [of "rev pre" "rev us"] dollars_append [of "rev pre" "[]"]
          dollars_append [of "rev us" "[]"] by simp
    next
      case False
      have "hd s = 36" using True s(1) by (cases pre) auto
      with assms(2) [OF False] s(1) have "last us \<noteq> 36" by auto
      then have "dollars (rev us) = 0" using False by (cases us rule: rev_cases) auto
      then show ?thesis using True s(6) dollars_append [of "rev pre" "rev us"] dollars_append [of "rev pre" "[]"] by simp
    qed
  next
    case False
    then show ?thesis using s(6) by (simp add: dollars_append)
  qed
  with s show ?thesis unfolding operator_in_def by (intro exI [of _ "us @ pre"] exI [of _ name] exI [of _ post]) simp
qed

text \<open>What the operators of a name are, one step of the loop at a time.\<close>

lemma operator_in_other:
  assumes "c \<noteq> 36"
  shows "operator_in (c # cs) tok \<longleftrightarrow> operator_in cs tok"
proof
  assume "operator_in (c # cs) tok"
  then obtain pre name post where s: "c # cs = pre @ 36 # name @ post" "tok = 36 # name" "name \<noteq> []"
    "list_all isNameByte name" "post = [] \<or> \<not> isNameByte (hd post)" "even (dollars (rev pre))"
    by (auto simp: operator_in_def)
  with assms obtain pre' where p: "pre = c # pre'" "cs = pre' @ 36 # name @ post" by (cases pre) auto
  have "dollars (rev pre) = dollars (rev pre')" using assms p(1) by (simp add: dollars_append dollars_all)
  with s p show "operator_in cs tok" by (auto simp: operator_in_def)
next
  assume "operator_in cs tok"
  with assms show "operator_in (c # cs) tok" using operator_in_prepend [of "[c]" cs tok] by simp
qed

text \<open>The token at a dollar sign, and what is left.\<close>

lemma takeWhile_exact: "list_all P xs \<Longrightarrow> ys = [] \<or> \<not> P (hd ys) \<Longrightarrow> takeWhile P (xs @ ys) = xs"
  by (induction xs) (cases ys; auto)+

lemma name_run:
  obtains name rest where "xs = name @ rest" "takeWhile isNameByte xs = name" "list_all isNameByte name"
    "rest = [] \<or> \<not> isNameByte (hd rest)"
  using that [of "takeWhile isNameByte xs" "dropWhile isNameByte xs"] hd_dropWhile [of isNameByte xs]
  by (auto simp: list_all_iff dest: set_takeWhileD)

lemma token_shape:
  obtains us name rest where "us = [36] \<or> us = [36, 36]" "list_all isNameByte name"
    "36 # cs = us @ name @ rest" "nosqli_token (36 # cs) = us @ name" "drop (length (nosqli_token (36 # cs))) (36 # cs) = rest"
    "rest = [] \<or> \<not> isNameByte (hd rest)" "us = [36] \<Longrightarrow> name @ rest = [] \<or> hd (name @ rest) \<noteq> 36"
proof (cases "cs \<noteq> [] \<and> hd cs = 36")
  case True
  then obtain ds where cs: "cs = 36 # ds" by (cases cs) auto
  obtain name rest where "ds = name @ rest" "takeWhile isNameByte ds = name" "list_all isNameByte name"
    "rest = [] \<or> \<not> isNameByte (hd rest)" by (rule name_run)
  then show thesis using cs by (intro that [of "[36, 36]" name rest]) (simp_all add: nosqli_token_def)
next
  case False
  obtain name rest where "cs = name @ rest" "takeWhile isNameByte cs = name" "list_all isNameByte name"
    "rest = [] \<or> \<not> isNameByte (hd rest)" by (rule name_run)
  then show thesis using False by (intro that [of "[36]" name rest]) (auto simp: nosqli_token_def)
qed

lemma operator_in_token:
  "operator_in (36 # cs) t \<longleftrightarrow>
     t = nosqli_token (36 # cs) \<and> length t > 1 \<and> t ! 1 \<noteq> 36 \<or>
     operator_in (drop (length (nosqli_token (36 # cs))) (36 # cs)) t"
proof (rule token_shape [of cs])
  fix us name rest
  assume us: "us = [36] \<or> us = [36, 36]" and name: "list_all isNameByte name"
    and split: "36 # cs = us @ name @ rest" and tok: "nosqli_token (36 # cs) = us @ name"
    and left: "drop (length (nosqli_token (36 # cs))) (36 # cs) = rest"
    and stop: "rest = [] \<or> \<not> isNameByte (hd rest)" and one: "us = [36] \<Longrightarrow> name @ rest = [] \<or> hd (name @ rest) \<noteq> 36"
  have name36: "c \<noteq> 36" if "c \<in> set name" for c using that name not_name_dollar by (auto simp: list_all_iff)
  show ?thesis unfolding left unfolding tok
  proof
    assume "operator_in (36 # cs) t"
    then obtain pre n post where s: "us @ name @ rest = pre @ 36 # n @ post" "t = 36 # n" "n \<noteq> []"
      "list_all isNameByte n" "post = [] \<or> \<not> isNameByte (hd post)" "even (dollars (rev pre))"
      unfolding operator_in_def split by blast
    consider "pre = []" | pre' where "pre = us @ name @ pre'" | "pre \<noteq> []" "length pre < length (us @ name)"
    proof -
      from s(1) have "(us @ name) @ rest = pre @ 36 # n @ post" by simp
      then obtain l where "us @ name = pre @ l \<or> (us @ name) @ l = pre" unfolding append_eq_append_conv2 by blast
      then show thesis
      proof
        assume l: "us @ name = pre @ l"
        then show thesis using that(1) that(2) [of "[]"] that(3) by (cases "l = []"; cases "pre = []") (simp_all add: arg_cong [OF l, of length])
      next
        assume "(us @ name) @ l = pre"
        then show thesis using that(2) [of l] by simp
      qed
    qed
    then show "t = us @ name \<and> 1 < length t \<and> t ! 1 \<noteq> 36 \<or> operator_in rest t"
    proof cases
      case 1
      have "us = [36]"
        using us s(1,3,4) 1 not_name_dollar by (cases n) auto
      with 1 s(1) have e: "name @ rest = n @ post" by simp
      from takeWhile_exact [OF name stop] takeWhile_exact [OF s(4,5)] e have "name = n" by simp
      moreover have "t ! 1 \<noteq> 36" using s(2-4) not_name_dollar by (cases n) auto
      ultimately show ?thesis using s(2,3) \<open>us = [36]\<close> by simp
    next
      case (2 pre')
      have r: "rest = pre' @ 36 # n @ post" using s(1) 2 by simp
      have "even (dollars (rev pre'))"
      proof (cases "set pre' \<subseteq> {36}")
        case all: True
        then have h: "hd rest = 36" using r by (cases pre') auto
        show ?thesis
        proof (cases "name = []")
          case True
          then have "us = [36, 36]" using us one h r by auto
          with True all s(6) 2 show ?thesis by (simp add: dollars_append dollars_all)
        next
          case False
          then have "dollars (rev name @ rev us) = 0" using name36 by (cases name rule: rev_cases) auto
          with all s(6) 2 show ?thesis by (simp add: dollars_append dollars_all)
        qed
      next
        case False
        then show ?thesis using s(6) 2 by (simp add: dollars_append)
      qed
      with r s show ?thesis unfolding operator_in_def by blast
    next
      case 3
      have "(us @ name @ rest) ! length pre = 36" using s(1) by simp
      then have "(us @ name) ! length pre = 36" using 3(2) by (simp add: nth_append split: if_splits)
      then have "length pre < length us" using 3(2) name36 nth_mem [of "length pre - length us" name]
        by (auto simp: nth_append split: if_splits)
      then have "us = [36, 36]" "length pre = 1" using us 3(1) by (auto simp: length_Suc_conv less_Suc_eq)
      then have "pre = [36]" using s(1) by (cases pre) auto
      with s(6) show ?thesis by simp
    qed
  next
    assume "t = us @ name \<and> 1 < length t \<and> t ! 1 \<noteq> 36 \<or> operator_in rest t"
    then show "operator_in (36 # cs) t"
    proof
      assume t: "t = us @ name \<and> 1 < length t \<and> t ! 1 \<noteq> 36"
      then have "us = [36]" "name \<noteq> []" using us by auto
      then show ?thesis using t name stop unfolding split operator_in_def
        by (intro exI [of _ "[]"] exI [of _ name] exI [of _ rest]) simp
    next
      assume op: "operator_in rest t"
      show ?thesis
      proof (cases "us = [36] \<and> name = []")
        case True
        then obtain c r where r: "rest = c # r" "c \<noteq> 36" using op one by (cases rest) auto
        then have "operator_in r t" using op by (simp add: operator_in_other)
        with r(2) have "operator_in ([36, c] @ r) t" by (intro operator_in_prepend) auto
        with True r(1) split show ?thesis by simp
      next
        case False
        then have "operator_in ((us @ name) @ rest) t"
          using us name36 op by (intro operator_in_prepend) (cases name rule: rev_cases; auto)+
        with split show ?thesis by simp
      qed
    qed
  qed
qed

section \<open>What the loop collects\<close>

lemma token_table:
  "list_all (\<lambda>(tok, s). length tok \<le> maxTokenLen \<and> length tok > 1 \<and> tok ! 1 \<noteq> 36 \<and> s \<in> set [1, 2, 4, 8, 16]) operatorTokens"
  by (simp add: operatorTokens_def)

lemma token_not_benign: "list_all (\<lambda>(tok, s). tok \<notin> set nosqli_benign) operatorTokens"
  by (simp add: operatorTokens_def nosqli_benign_def)

lemma classify_known:
  assumes "nosqli_classify tok \<noteq> 0"
  shows "length tok \<le> maxTokenLen" "tok \<notin> set nosqli_benign" "length tok > 1" "tok ! 1 \<noteq> 36"
    "nosqli_classify tok \<in> {1, 2, 4, 8, 16}" "(tok, nosqli_classify tok) \<in> set operatorTokens"
proof -
  have e: "(tok, nosqli_classify tok) \<in> set operatorTokens"
    using assms map_of_SomeD by (fastforce simp: nosqli_classify_def split: option.splits)
  then show "(tok, nosqli_classify tok) \<in> set operatorTokens" .
  from bspec [OF token_table [unfolded list_all_iff] e] bspec [OF token_not_benign [unfolded list_all_iff] e]
  show "length tok \<le> maxTokenLen" "tok \<notin> set nosqli_benign" "length tok > 1" "tok ! 1 \<noteq> 36"
    "nosqli_classify tok \<in> {1, 2, 4, 8, 16}" by simp_all
qed

lemma record_bits:
  "bit (fst (nosqli_record i tok st)) k \<longleftrightarrow> bit (fst st) k \<or> bit (nosqli_classify tok) k"
proof (cases "nosqli_classify tok = 0")
  case True
  then show ?thesis by (cases st) (auto simp: nosqli_record_def)
next
  case False
  then show ?thesis using classify_known(1,2) [OF False] by (cases st) (simp add: nosqli_record_def bit_or_iff)
qed

lemma loop_bits:
  "bit (fst (nosqli_loop i s st)) k \<longleftrightarrow>
     bit (fst st) k \<or> (\<exists>tok. operator_in s tok \<and> bit (nosqli_classify tok) k)"
proof (induction i s st rule: nosqli_loop.induct)
  case (2 i c cs st)
  show ?case
  proof (cases "c = 36")
    case True
    let ?tok = "nosqli_token (c # cs)"
    have "bit (nosqli_classify ?tok) k \<Longrightarrow> length ?tok > 1 \<and> ?tok ! 1 \<noteq> 36"
      using classify_known(3,4) [of ?tok] by (cases "nosqli_classify ?tok = 0") auto
    then show ?thesis using True 2(2) [OF _ refl] operator_in_token [of cs] by (auto simp: record_bits Let_def)
  next
    case False
    then show ?thesis using 2(1) by (simp add: operator_in_other)
  qed
qed simp

definition span_at :: "nat \<Rightarrow> span option \<Rightarrow> bool" where
  "span_at n hit \<longleftrightarrow> (\<forall>sp. hit = Some sp \<longrightarrow> (\<exists>off len. sp = SpanOf off len \<and> off + len \<le> n))"

lemma token_length: "length (nosqli_token (36 # cs)) \<le> Suc (length cs)"
  using length_takeWhile_le [of isNameByte cs] length_takeWhile_le [of isNameByte "tl cs"]
  by (cases cs) (auto simp: nosqli_token_def)

lemma record_span:
  assumes "i + length tok \<le> n" "span_at n (snd st)"
  shows "span_at n (snd (nosqli_record i tok st))"
proof -
  have "span_at n (mark_span i (length tok) (snd st))"
    using assms by (cases "snd st") (auto simp: span_at_def mark_span_def)
  with assms(2) show ?thesis by (cases st) (simp add: nosqli_record_def)
qed

lemma loop_span: "i + length s \<le> n \<Longrightarrow> span_at n (snd st) \<Longrightarrow> span_at n (snd (nosqli_loop i s st))"
proof (induction i s st rule: nosqli_loop.induct)
  case (2 i c cs st)
  show ?case
  proof (cases "c = 36")
    case True
    have len: "length (nosqli_token (c # cs)) \<le> Suc (length cs)" using token_length True by simp
    then have "span_at n (snd (nosqli_record i (nosqli_token (c # cs)) st))"
      using 2(3,4) by (intro record_span) simp_all
    with 2(2) [OF _ refl] True len 2(3) show ?thesis by (simp add: Let_def)
  next
    case False
    with 2(1,3,4) show ?thesis by simp
  qed
qed simp

section \<open>What is reported\<close>

definition operator_signals :: "gobytes \<Rightarrow> signal set" where
  "operator_signals s = {nosqli_classify tok | tok. operator_in s tok}"

lemma nosqli_score:
  "nosqli_Threshold \<le> score_of nosqli_weightOf s \<longleftrightarrow> bit s 0 \<or> bit s 1 \<or> bit s 4 \<or> bit s 2 \<and> bit s 3"
proof -
  have "[0..<8] = [0, 1, 2, 3, 4, 5, 6, 7 :: nat]" by (simp add: upt_rec)
  then show ?thesis by (simp add: score_of_bits nosqli_weightOf_def)
qed

lemma nosqli_Analyze_eq:
  "nosqli_Analyze v = (let st = nosqli_loop 0 (take nosqli_maxScan v) (0, None) in
     \<lparr>dv_Signals = fst st, dv_Score = score_of nosqli_weightOf (fst st), dv_Span = span_or_zero (snd st)\<rparr>)"
proof -
  have "score_of nosqli_weightOf 0 = 0" by (simp add: score_of_bits)
  then show ?thesis
    by (cases "v = []") (auto simp: nosqli_Analyze_def verdict_zero_def span_or_zero_def Let_def split: prod.split)
qed

lemma sigs_bit:
  "bit (dv_Signals (nosqli_Analyze v)) k \<longleftrightarrow> (\<exists>s \<in> operator_signals (take nosqli_maxScan v). bit s k)"
  by (auto simp: nosqli_Analyze_eq Let_def loop_bits operator_signals_def)

lemma signals_cases: "s \<in> operator_signals v \<Longrightarrow> s \<in> {0, 1, 2, 4, 8, 16}"
  using classify_known(5) by (auto simp: operator_signals_def)

lemma signals_bit:
  "(\<exists>s \<in> operator_signals v. bit s 0) \<longleftrightarrow> 1 \<in> operator_signals v"
  "(\<exists>s \<in> operator_signals v. bit s 1) \<longleftrightarrow> 2 \<in> operator_signals v"
  "(\<exists>s \<in> operator_signals v. bit s 2) \<longleftrightarrow> 4 \<in> operator_signals v"
  "(\<exists>s \<in> operator_signals v. bit s 3) \<longleftrightarrow> 8 \<in> operator_signals v"
  "(\<exists>s \<in> operator_signals v. bit s 4) \<longleftrightarrow> 16 \<in> operator_signals v"
proof -
  have "(bit s 0 \<longleftrightarrow> s = 1) \<and> (bit s 1 \<longleftrightarrow> s = 2) \<and> (bit s 2 \<longleftrightarrow> s = 4) \<and> (bit s 3 \<longleftrightarrow> s = 8) \<and> (bit s 4 \<longleftrightarrow> s = 16)"
    if "s \<in> operator_signals v" for s using signals_cases [OF that] by auto
  then show "(\<exists>s \<in> operator_signals v. bit s 0) \<longleftrightarrow> 1 \<in> operator_signals v"
    "(\<exists>s \<in> operator_signals v. bit s 1) \<longleftrightarrow> 2 \<in> operator_signals v"
    "(\<exists>s \<in> operator_signals v. bit s 2) \<longleftrightarrow> 4 \<in> operator_signals v"
    "(\<exists>s \<in> operator_signals v. bit s 3) \<longleftrightarrow> 8 \<in> operator_signals v"
    "(\<exists>s \<in> operator_signals v. bit s 4) \<longleftrightarrow> 16 \<in> operator_signals v" by metis+
qed

lemma and_nonzero: "s AND accept \<noteq> 0 \<longleftrightarrow> (\<exists>k. bit s k \<and> bit accept (k :: nat))" for s :: signal
proof -
  have "k < 8" if "bit s k" for k using bit_imp_le_length [OF that] by simp
  then show ?thesis by (auto simp: bit_eq_iff bit_and_iff)
qed

lemma sigs_accepted:
  "dv_Signals (nosqli_Analyze v) AND accept \<noteq> 0 \<longleftrightarrow>
     (\<exists>s \<in> operator_signals (take nosqli_maxScan v). s AND accept \<noteq> 0)"
  unfolding and_nonzero sigs_bit by blast

interpretation nosqli: operator_contract "nosqli_Eval accept" "nosqli_Literals accept" for accept
proof
  fix ls c v m
  assume "nosqli_Literals accept = (ls, True)" "nosqli_Eval accept c v = (m, True)"
  then have ls: "ls = nosqli_Operator_literals accept" and "dv_Signals (nosqli_Analyze v) AND accept \<noteq> 0"
    by (auto simp: nosqli_Literals_def nosqli_Eval_def Let_def split: if_splits)
  then obtain tok where tok: "operator_in (take nosqli_maxScan v) tok" "nosqli_classify tok AND accept \<noteq> 0"
    by (auto simp: sigs_accepted operator_signals_def)
  then have "nosqli_classify tok \<noteq> 0" by auto
  then have "(tok, nosqli_classify tok) \<in> set operatorTokens" by (rule classify_known)
  then have "tok \<in> set ls" using tok(2) by (force simp: ls nosqli_Operator_literals_def)
  moreover obtain pre name post where "take nosqli_maxScan v = pre @ 36 # name @ post" "tok = 36 # name"
    using tok(1) by (auto simp: operator_in_def)
  then have "sublist tok (take nosqli_maxScan v)" using sublist_appendI [of tok pre post] by simp
  then have "sublist tok v" using sublist_take sublist_order.order_trans by blast
  moreover have "tok \<noteq> []" using tok(1) by (auto simp: operator_in_def)
  ultimately show "\<exists>l \<in> set ls. literal_occurs l v" using literal_occurs_self by blast
next
  fix c v m
  assume e: "nosqli_Eval accept c v = (m, True)" and v: "length (v :: gobytes) < 2 ^ 32"
  let ?st = "nosqli_loop 0 (take nosqli_maxScan v) (0, None)"
  have "span_at (length v) (snd ?st)" by (rule loop_span) (simp_all add: span_at_def)
  moreover have "m = \<lparr>m_Span = span_or_zero (snd ?st)\<rparr>"
    using e by (auto simp: nosqli_Eval_def Let_def nosqli_Analyze_eq split: if_splits)
  ultimately show "unat (Off (m_Span m)) + unat (Len (m_Span m)) \<le> length v"
    using SpanOf_inside [OF _ v] by (cases "snd ?st") (auto simp: span_or_zero_def span_at_def)
qed

section \<open>Properties\<close>

text \<open>
  C40. The NoSQL detector reports exactly the operators of the first 1024 bytes of a name. It hits
  exactly if they hold a comparison, code or pipeline-write operator, or an update operator together
  with an ambiguous one, and one of the operators is of an accepted kind. An operator is a dollar sign
  with all the letters after it, not preceded by an odd number of dollar signs; the exclusion of benign
  names and the length limit change nothing.
\<close>

theorem nosqli_reports_exactly:
  "snd (nosqli_Eval accept c v) \<longleftrightarrow>
     (let seen = {nosqli_classify tok | tok. operator_in (take 1024 v) tok} in
        (SignalQueryOperator \<in> seen \<or> SignalEvalOperator \<in> seen \<or> SignalPipelineWrite \<in> seen \<or>
         SignalUpdateOperator \<in> seen \<and> SignalAmbiguousOperator \<in> seen) \<and>
        (\<exists>s \<in> seen. s AND accept \<noteq> 0))"
proof -
  have "nosqli_Detected (nosqli_Analyze v) \<longleftrightarrow>
      1 \<in> operator_signals (take 1024 v) \<or> 2 \<in> operator_signals (take 1024 v) \<or> 16 \<in> operator_signals (take 1024 v) \<or>
      4 \<in> operator_signals (take 1024 v) \<and> 8 \<in> operator_signals (take 1024 v)"
    unfolding nosqli_Detected_def using sigs_bit [of v] signals_bit [of "take 1024 v"]
    by (simp add: nosqli_Analyze_eq Let_def nosqli_score)
  then show ?thesis
    unfolding nosqli_Eval_def Let_def operator_signals_def [symmetric] sigs_accepted [symmetric] by auto
qed

end
