(* ===== verification/CoreText.thy ===== *)
theory CoreText
  imports Detect
begin

text \<open>
  The byte helpers the core ruleset's operators share (ruleset/core/core.go, offorigin.go, sqlsink.go):
  case-insensitive search, suffixes, character classes. Needles are lower-case where the search folds.
\<close>

section \<open>Classes\<close>

definition core_foldByte :: "byte \<Rightarrow> byte" where
  "core_foldByte c = (if 65 \<le> c \<and> c \<le> 90 then c + (97 - 65) else c)"

definition core_isWordByte :: "byte \<Rightarrow> bool" where
  "core_isWordByte b \<longleftrightarrow> 97 \<le> b \<and> b \<le> 122 \<or> 65 \<le> b \<and> b \<le> 90 \<or> 48 \<le> b \<and> b \<le> 57 \<or> b = 95"

definition core_isWordish :: "byte \<Rightarrow> bool" where
  "core_isWordish c \<longleftrightarrow> 97 \<le> c \<and> c \<le> 122 \<or> 65 \<le> c \<and> c \<le> 90 \<or> 48 \<le> c \<and> c \<le> 57 \<or> c = 95"

definition core_isSpaceByte :: "byte \<Rightarrow> bool" where
  "core_isSpaceByte c \<longleftrightarrow> c = 32 \<or> c = 9 \<or> c = 10 \<or> c = 13 \<or> c = 11 \<or> c = 12"

definition core_lowerASCII :: "gobytes \<Rightarrow> gobytes" where
  "core_lowerASCII s =
     (if list_ex (\<lambda>c. 65 \<le> c \<and> c \<le> 90) s
      then map (\<lambda>c. if 65 \<le> c \<and> c \<le> 90 then c + (97 - 65) else c) s else s)"

definition core_equalFoldASCII :: "gobytes \<Rightarrow> gobytes \<Rightarrow> bool" where
  "core_equalFoldASCII a b =
     (if length a \<noteq> length b then False
      else list_all (\<lambda>(c, d). (if 65 \<le> c \<and> c \<le> 90 then c + (97 - 65) else c) = d) (zip a b))"

section \<open>Search\<close>

definition core_indexOf :: "gobytes \<Rightarrow> gobytes \<Rightarrow> nat option" where
  "core_indexOf hay needle =
     (if length needle = 0 \<or> length hay < length needle then None
      else find (\<lambda>i. if hay ! i \<noteq> needle ! 0 then False else take (length needle) (drop i hay) = needle)
        [0..<length hay + 1 - length needle])"

text \<open>The comparison at one position: the first byte, then the rest up to the first difference.\<close>

definition fold_matches_at :: "gobytes \<Rightarrow> gobytes \<Rightarrow> nat \<Rightarrow> bool" where
  "fold_matches_at hay needle i =
     (if core_foldByte (hay ! i) \<noteq> needle ! 0 then False
      else list_all (\<lambda>j. core_foldByte (hay ! (i + j)) = needle ! j) [1..<length needle])"

definition core_indexOfFold :: "gobytes \<Rightarrow> gobytes \<Rightarrow> nat option" where
  "core_indexOfFold hay needle =
     (if length needle = 0 \<or> length hay < length needle then None
      else find (fold_matches_at hay needle) [0..<length hay + 1 - length needle])"

abbreviation holds :: "gobytes \<Rightarrow> gobytes \<Rightarrow> bool" where
  "holds v s \<equiv> core_indexOfFold v s \<noteq> None"

definition core_hasSuffixBytes :: "gobytes \<Rightarrow> gobytes \<Rightarrow> bool" where
  "core_hasSuffixBytes b suf \<longleftrightarrow> length suf \<le> length b \<and> drop (length b - length suf) b = suf"

definition core_hasAnySuffix :: "gobytes \<Rightarrow> gobytes list \<Rightarrow> bool" where
  "core_hasAnySuffix b sufs = list_ex (core_hasSuffixBytes b) sufs"

definition core_hasSuffixFold :: "gobytes \<Rightarrow> gobytes \<Rightarrow> bool" where
  "core_hasSuffixFold b suf =
     (if length b < length suf then False
      else list_all (\<lambda>(c, d). core_foldByte c = d) (zip (drop (length b - length suf) b) suf))"

section \<open>What a search shows\<close>

lemma core_foldByte_eq: "core_foldByte = fold_byte"
  by (simp add: fun_eq_iff core_foldByte_def fold_byte_def)

lemma find_upt: "find P [0..<n] = Some i \<Longrightarrow> i < n \<and> P i"
  by (auto simp: find_Some_iff)

lemma core_indexOfFold_bounds: "core_indexOfFold hay needle = Some i \<Longrightarrow> i + length needle \<le> length hay \<and> 0 < length needle"
  by (auto simp: core_indexOfFold_def dest!: find_upt split: if_splits)

lemma core_indexOfFold_advances: "core_indexOfFold (drop i v) s = Some k \<Longrightarrow> length v - Suc (i + k) < length v - i"
  using core_indexOfFold_bounds [of "drop i v" s k] by (cases s) auto

lemma core_indexOfFold_Some:
  assumes "core_indexOfFold hay needle = Some i"
  shows "map fold_byte (take (length needle) (drop i hay)) = needle" "i + length needle \<le> length hay" "needle \<noteq> []"
proof -
  note b = core_indexOfFold_bounds [OF assms]
  then show "i + length needle \<le> length hay" "needle \<noteq> []" by auto
  have m: "fold_matches_at hay needle i" using assms by (auto simp: core_indexOfFold_def dest!: find_upt split: if_splits)
  have "fold_byte (hay ! (i + j)) = needle ! j" if "j < length needle" for j
    using m that by (cases "j = 0") (simp_all add: fold_matches_at_def core_foldByte_eq list_all_iff split: if_splits)
  then show "map fold_byte (take (length needle) (drop i hay)) = needle"
    using b by (intro nth_equalityI) auto
qed

lemma map_fold_id: "map fold_byte s = t \<Longrightarrow> map fold_byte t = t"
  by auto

lemma holds_literal: "core_indexOfFold v s = Some i \<Longrightarrow> literal_occurs s v"
proof -
  assume a: "core_indexOfFold v s = Some i"
  note s = core_indexOfFold_Some [OF a]
  have "sublist (map fold_byte s) (map fold_byte v)"
    using s(1) map_fold_id [OF s(1)] sublist_take_drop [of "length s" i "map fold_byte v"] by (simp add: take_map drop_map)
  with s(3) show ?thesis by (simp add: literal_occurs_def)
qed

lemma indexOf_literal: "core_indexOf v s = Some i \<Longrightarrow> literal_occurs s v"
proof -
  assume "core_indexOf v s = Some i"
  then have "s \<noteq> []" "take (length s) (drop i v) = s"
    by (auto simp: core_indexOf_def dest!: find_upt split: if_splits)
  then show ?thesis using literal_occurs_self sublist_take_drop by metis
qed

lemma suffix_literal: "core_hasSuffixBytes v s \<Longrightarrow> s \<noteq> [] \<Longrightarrow> literal_occurs s v"
  unfolding core_hasSuffixBytes_def using literal_occurs_self [of s v] by (metis suffix_drop suffix_imp_sublist)

text \<open>A literal of the list stands in every text that a string of the operator stands in.\<close>

definition covered :: "gobytes list \<Rightarrow> gobytes \<Rightarrow> bool" where
  "covered ls s = list_ex (\<lambda>l. l \<noteq> [] \<and> list_ex (\<lambda>i. take (length l) (drop i s) = l) [0..<Suc (length s)]) ls"

lemma covered_literal: "covered ls s \<Longrightarrow> literal_occurs s v \<Longrightarrow> \<exists>l \<in> set ls. literal_occurs l v"
proof -
  assume "covered ls s" and s: "literal_occurs s v"
  then obtain l i where l: "l \<in> set ls" "l \<noteq> []" "take (length l) (drop i s) = l" by (auto simp: covered_def list_ex_iff)
  then have "sublist (map fold_byte l) (map fold_byte s)" by (metis map_mono_sublist sublist_take_drop)
  with s l(2) have "literal_occurs l v" unfolding literal_occurs_def using sublist_order.order_trans by blast
  with l(1) show ?thesis by blast
qed

lemma holds_covered:
  "list_all (covered ls) ss \<Longrightarrow> list_ex (holds v) ss \<Longrightarrow> \<exists>l \<in> set ls. literal_occurs l v"
  by (auto simp: list_all_iff list_ex_iff dest!: holds_literal intro: covered_literal)

lemma literal_occurs_part:
  "literal_occurs l (drop i v) \<Longrightarrow> literal_occurs l v" "literal_occurs l (take i v) \<Longrightarrow> literal_occurs l v"
  using literal_occurs_window sublist_drop sublist_take by blast+

end
