(* ===== verification/CoreFunc.thy ===== *)
theory CoreFunc
  imports CoreText
begin

text \<open>
  The operators of the core ruleset that are a predicate with declared literals (ruleset/core: core.go,
  xxe.go, codeexec.go, nodei.go, procspawn.go, jsinject.go, yamltag.go). Each is a \<open>Func\<close> of rules/op.
  An operator's lists are those of its source.
\<close>

section \<open>XML and XSLT\<close>

definition xml_declarations :: "gobytes list" where
  "xml_declarations = [
     ascii ''<!entity'', ascii ''<!element'', ascii ''%remote;'', ascii ''<!attlist'']"

definition xml_schemes :: "gobytes list" where
  "xml_schemes = [
     ascii ''http://'', ascii ''https://'', ascii ''ftp://'', ascii ''file://'', ascii ''jar:'',
     ascii ''netdoc:'']"

definition xml_literals :: "gobytes list" where
  "xml_literals = [
     ascii ''<!entity'', ascii ''<!element'', ascii ''%remote;'', ascii ''<!attlist'', ascii ''<!doctype'']"

definition xml_entity_or_external_dtd :: "gobytes \<Rightarrow> bool" where
  "xml_entity_or_external_dtd v =
     (if list_ex (holds v) xml_declarations then True
      else case core_indexOfFold v (ascii ''<!doctype'') of
        None \<Rightarrow> False
      | Some i \<Rightarrow>
          let rest = drop i v in
          if \<not> holds rest (ascii ''system'') then False else list_ex (holds rest) xml_schemes)"

definition xmlEntityOrExternalDTD :: func_op where
  "xmlEntityOrExternalDTD =
     WithLiterals xml_literals (Func (ascii ''xml_entity_or_external_dtd'') xml_entity_or_external_dtd)"

definition xslt_elements :: "gobytes list" where
  "xslt_elements = [
     ascii ''<xsl:include'', ascii ''<xsl:import'']"

definition xslt_schemes :: "gobytes list" where
  "xslt_schemes = [
     ascii ''http://'', ascii ''https://'', ascii ''ftp://'', ascii ''jar:'', ascii ''netdoc:'']"

definition xslt_literals :: "gobytes list" where
  "xslt_literals = [
     ascii ''<xsl:include'', ascii ''<xsl:import'']"

definition xslt_remote_include :: "gobytes \<Rightarrow> bool" where
  "xslt_remote_include v = list_ex (\<lambda>el.
     case core_indexOfFold v el of
       None \<Rightarrow> False
     | Some i \<Rightarrow>
         let rest = drop (i + length el) v;
             rest = (case core_indexOfFold rest (ascii ''>'') of Some stop \<Rightarrow> take stop rest | None \<Rightarrow> rest)
         in list_ex (holds rest) xslt_schemes) xslt_elements"

definition xsltRemoteInclude :: func_op where
  "xsltRemoteInclude = WithLiterals xslt_literals (Func (ascii ''xslt_remote_include'') xslt_remote_include)"

section \<open>Text that becomes code\<close>

definition code_escapes :: "gobytes list" where
  "code_escapes = [
     ascii ''constructor.constructor'', ascii ''['' @ [39] @ ascii ''constructor'' @ [39] @ ascii '']'',
     ascii ''['' @ [34] @ ascii ''constructor'' @ [34] @ ascii '']'', ascii ''globalthis['',
     ascii ''globalthis.eval'', ascii ''self['' @ [39] @ ascii ''eval'' @ [39] @ ascii '']'',
     ascii ''window['' @ [39] @ ascii ''eval'' @ [39] @ ascii '']'']"

definition code_compilers :: "gobytes list" where
  "code_compilers = [
     ascii ''function('' @ [39], ascii ''function('' @ [34], ascii ''function('' @ [96],
     ascii ''settimeout('' @ [39], ascii ''settimeout('' @ [34], ascii ''setinterval('' @ [39],
     ascii ''setinterval('' @ [34], ascii ''setimmediate('' @ [39], ascii ''execscript('']"

definition code_decodeEval :: "gobytes list" where
  "code_decodeEval = [
     ascii ''eval(atob'', ascii ''eval(unescape'', ascii ''eval(decodeuri'', ascii ''eval(atob('',
     ascii ''eval(string.fromcharcode'', ascii ''eval(base64'', ascii ''eval(window.atob'']"

definition code_invokers :: "gobytes list" where
  "code_invokers = [
     ascii ''call_user_func'', ascii ''call_user_func_array'', ascii ''array_map('', ascii ''usort('',
     ascii ''array_filter('', ascii ''preg_replace_callback('', ascii ''register_shutdown_function('',
     ascii ''array_walk('', ascii ''forward_static_call'']"

definition code_spawnNames :: "gobytes list" where
  "code_spawnNames = [
     [39] @ ascii ''system'' @ [39], [34] @ ascii ''system'' @ [34], [39] @ ascii ''passthru'' @ [39],
     [34] @ ascii ''passthru'' @ [34], [39] @ ascii ''shell_exec'' @ [39], [34] @ ascii ''shell_exec'' @ [34],
     [39] @ ascii ''exec'' @ [39], [34] @ ascii ''exec'' @ [34], [39] @ ascii ''popen'' @ [39],
     [34] @ ascii ''popen'' @ [34], [39] @ ascii ''proc_open'' @ [39], [34] @ ascii ''proc_open'' @ [34],
     [39] @ ascii ''assert'' @ [39], [34] @ ascii ''assert'' @ [34], [39] @ ascii ''eval'' @ [39],
     [34] @ ascii ''eval'' @ [34]]"

definition code_indirect :: "gobytes list" where
  "code_indirect = [
     ascii ''system'', ascii ''exec'', ascii ''passthru'', ascii ''shell_exec'', ascii ''popen'',
     ascii ''proc_open'', ascii ''eval'', ascii ''assert'', ascii ''alert'', ascii ''confirm'',
     ascii ''prompt'', ascii ''require'', ascii ''include'']"

definition code_openers :: "gobytes list" where
  "code_openers = [
     ascii ''('', ascii ''['', [34], [39], [96]]"

definition code_literals :: "gobytes list" where
  "code_literals = [
     ascii ''(system'', ascii ''[system'', [34] @ ascii ''system'', [39] @ ascii ''system'', ascii ''(exec'',
     ascii ''[exec'', ascii ''(eval'', ascii ''[eval'', [34] @ ascii ''eval'', [39] @ ascii ''eval'',
     ascii ''(assert'', ascii ''(alert'', ascii ''[alert'', ascii ''(passthru'', ascii ''(shell_exec'',
     ascii ''(popen'', ascii ''(proc_open'', ascii ''(require'', ascii ''(include'', ascii ''(confirm'',
     ascii ''(prompt'', ascii ''[confirm'', ascii ''[prompt'', [34] @ ascii ''exec'', [39] @ ascii ''exec'',
     [34] @ ascii ''passthru'', [39] @ ascii ''passthru'', [34] @ ascii ''shell_exec'',
     [39] @ ascii ''shell_exec'', [34] @ ascii ''popen'', [39] @ ascii ''popen'', [34] @ ascii ''proc_open'',
     [39] @ ascii ''proc_open'', [34] @ ascii ''assert'', [39] @ ascii ''assert'', [34] @ ascii ''alert'',
     [39] @ ascii ''alert'', [34] @ ascii ''confirm'', [39] @ ascii ''confirm'', [34] @ ascii ''prompt'',
     [39] @ ascii ''prompt'', [34] @ ascii ''require'', [39] @ ascii ''require'', [34] @ ascii ''include'',
     [39] @ ascii ''include'', ascii ''[passthru'', ascii ''[shell_exec'', ascii ''[popen'',
     ascii ''[proc_open'', ascii ''[assert'', ascii ''[require'', ascii ''[include'',
     ascii ''constructor.constructor'', ascii ''['' @ [39] @ ascii ''constructor'' @ [39] @ ascii '']'',
     ascii ''['' @ [34] @ ascii ''constructor'' @ [34] @ ascii '']'', ascii ''globalthis['',
     ascii ''globalthis.eval'', ascii ''self['' @ [39] @ ascii ''eval'' @ [39] @ ascii '']'',
     ascii ''window['' @ [39] @ ascii ''eval'' @ [39] @ ascii '']'', ascii ''function('' @ [39],
     ascii ''function('' @ [34], ascii ''function('' @ [96], ascii ''settimeout('' @ [39],
     ascii ''settimeout('' @ [34], ascii ''setinterval('' @ [39], ascii ''setinterval('' @ [34],
     ascii ''setimmediate('' @ [39], ascii ''execscript('', ascii ''eval(atob'', ascii ''eval(unescape'',
     ascii ''eval(decodeuri'', ascii ''eval(string.fromcharcode'', ascii ''eval(base64'',
     ascii ''eval(window.atob'', ascii ''call_user_func'', ascii ''call_user_func_array'',
     ascii ''array_map('', ascii ''usort('', ascii ''array_filter('', ascii ''preg_replace_callback('',
     ascii ''register_shutdown_function('', ascii ''array_walk('', ascii ''forward_static_call'']"

definition isCloserFor :: "byte \<Rightarrow> byte \<Rightarrow> bool" where
  "isCloserFor opener c =
     (if opener = 40 then c = 41 else if opener = 91 then c = 93
      else if opener = 34 \<or> opener = 39 \<or> opener = 96 then c = opener else False)"

text \<open>A name in brackets or quotes, called: \<open>[system](\<close>.\<close>

definition calls_indirectly :: "gobytes \<Rightarrow> gobytes \<Rightarrow> gobytes \<Rightarrow> bool" where
  "calls_indirectly v name opener =
     (case core_indexOfFold v (opener @ name) of
        None \<Rightarrow> False
      | Some k \<Rightarrow>
          let rest = drop (k + length opener + length name) v in
          if length rest < 2 then False
          else if \<not> isCloserFor (opener ! 0) (rest ! 0) then False
          else rest ! 1 = 40)"

definition string_to_code :: "gobytes \<Rightarrow> bool" where
  "string_to_code v =
     (if list_ex (\<lambda>name. list_ex (calls_indirectly v name) code_openers) code_indirect then True
      else if list_ex (holds v) code_escapes then True
      else if list_ex (holds v) code_compilers then True
      else if list_ex (holds v) code_decodeEval then True
      else if \<not> list_ex (holds v) code_invokers then False
      else list_ex (holds v) code_spawnNames)"

definition stringToCode :: func_op where
  "stringToCode = WithLiterals code_literals (Func (ascii ''string_to_code'') string_to_code)"

definition node_escapes :: "gobytes list" where
  "node_escapes = [
     ascii ''constructor._load'', ascii ''process.binding('', ascii ''mainmodule.require'',
     ascii ''constructor.constructor('', ascii ''process.mainmodule'']"

definition node_modules :: "gobytes list" where
  "node_modules = [
     ascii ''child_process'', ascii ''node:child_process'']"

definition node_sinks :: "gobytes list" where
  "node_sinks = [
     ascii ''execsync('', ascii ''exec('', ascii ''spawnsync('', ascii ''spawn('', ascii ''execfile('',
     ascii ''fork('']"

definition node_literals :: "gobytes list" where
  "node_literals = [
     ascii ''child_process'', ascii ''constructor._load'', ascii ''process.binding('',
     ascii ''mainmodule.require'', ascii ''constructor.constructor('', ascii ''process.mainmodule'']"

definition node_code_injection :: "gobytes \<Rightarrow> bool" where
  "node_code_injection v =
     (if list_ex (holds v) node_escapes then True
      else if \<not> list_ex (holds v) node_modules then False
      else list_ex (holds v) node_sinks)"

definition nodeCodeInjection :: func_op where
  "nodeCodeInjection = WithLiterals node_literals (Func (ascii ''node_code_injection'') node_code_injection)"

definition spawn_strong :: "gobytes list" where
  "spawn_strong = [
     ascii ''passthru('', ascii ''shell_exec('', ascii ''proc_open('', ascii ''pcntl_exec('', ascii ''popen('',
     ascii ''os.system('', ascii ''os.popen('', ascii ''os.execv'', ascii ''commands.getoutput('',
     ascii ''getruntime().exec'', ascii ''processbuilder('', ascii ''.execute()'', ascii ''shellexecute('',
     ascii ''createprocess('', ascii ''posix_spawn('', ascii ''subprocess.run('', ascii ''subprocess.call('',
     ascii ''subprocess.popen('', ascii ''subprocess.check_output('', ascii ''subprocess.check_call('',
     ascii ''subprocess.getoutput('', ascii ''win32process.create'']"

definition spawn_literals :: "gobytes list" where
  "spawn_literals = [
     ascii ''passthru('', ascii ''shell_exec('', ascii ''proc_open('', ascii ''pcntl_exec('', ascii ''popen('',
     ascii ''os.system('', ascii ''os.popen('', ascii ''os.execv'', ascii ''commands.getoutput('',
     ascii ''getruntime().exec'', ascii ''processbuilder('', ascii ''.execute()'', ascii ''shellexecute('',
     ascii ''createprocess('', ascii ''posix_spawn('', ascii ''subprocess.run('', ascii ''subprocess.call('',
     ascii ''subprocess.popen('', ascii ''subprocess.check_output('', ascii ''subprocess.check_call('',
     ascii ''subprocess.getoutput('', ascii ''win32process.create'']"

definition process_spawn :: "gobytes \<Rightarrow> bool" where
  "process_spawn v = list_ex (holds v) spawn_strong"

definition processSpawn :: func_op where
  "processSpawn = WithLiterals spawn_literals (Func (ascii ''process_spawn'') process_spawn)"

definition is_call_byte :: "byte \<Rightarrow> bool" where
  "is_call_byte c \<longleftrightarrow> 97 \<le> c \<and> c \<le> 122 \<or> 65 \<le> c \<and> c \<le> 90 \<or> 48 \<le> c \<and> c \<le> 57 \<or> c = 95 \<or> c = 46"

definition nestedCallAt :: "gobytes \<Rightarrow> bool" where
  "nestedCallAt v =
     (let rest = dropWhile core_isSpaceByte v;
          name = takeWhile is_call_byte rest;
          rest = dropWhile is_call_byte rest
      in if name = [] then False
         else let rest = dropWhile core_isSpaceByte rest in rest \<noteq> [] \<and> hd rest = 40)"

definition quotedArgumentAt :: "gobytes \<Rightarrow> bool" where
  "quotedArgumentAt v =
     (let rest = dropWhile core_isSpaceByte v;
          rest = (if rest \<noteq> [] \<and> hd rest = 92 then tl rest else rest)
      in case rest of
           [] \<Rightarrow> False
         | q # rest \<Rightarrow>
             if q \<noteq> 39 \<and> q \<noteq> 34 \<and> q \<noteq> 96 then False
             else let rest = (if rest \<noteq> [] \<and> hd rest = 92 then tl rest else rest)
               in rest \<noteq> [] \<and> hd rest \<noteq> q)"

definition spawn_weak :: "gobytes list" where
  "spawn_weak = [
     ascii ''system('', ascii ''exec('', ascii ''spawn('']"

definition spawn_weak_literals :: "gobytes list" where
  "spawn_weak_literals = [
     ascii ''system('', ascii ''exec('', ascii ''spawn('']"

definition process_spawn_suspicious :: "gobytes \<Rightarrow> bool" where
  "process_spawn_suspicious v = list_ex (\<lambda>s.
     case core_indexOfFold v s of
       None \<Rightarrow> False
     | Some i \<Rightarrow>
         let rest = drop (i + length s) v in quotedArgumentAt rest \<or> nestedCallAt rest) spawn_weak"

definition processSpawnSuspicious :: func_op where
  "processSpawnSuspicious =
     WithLiterals spawn_weak_literals (Func (ascii ''process_spawn_suspicious'') process_spawn_suspicious)"

section \<open>Scripts in a page\<close>

definition js_sinks :: "gobytes list" where
  "js_sinks = [
     ascii ''alert('', ascii ''confirm('', ascii ''prompt('']"

definition js_identity :: "gobytes list" where
  "js_identity = [
     ascii ''document.domain'', ascii ''document.cookie'']"

definition js_selfEvident :: "gobytes list" where
  "js_selfEvident = [
     ascii ''import('' @ [39] @ ascii ''data:'', ascii ''import('' @ [34] @ ascii ''data:'',
     ascii ''import('' @ [96] @ ascii ''data:'', ascii ''alert'' @ [96], ascii ''confirm'' @ [96],
     ascii ''prompt'' @ [96], ascii ''eval'' @ [96]]"

definition js_exfilSources :: "gobytes list" where
  "js_exfilSources = [
     ascii ''document.cookie'', ascii ''localstorage.'', ascii ''sessionstorage.'']"

definition js_exfilSinks :: "gobytes list" where
  "js_exfilSinks = [
     ascii ''fetch('', ascii ''xmlhttprequest'', ascii ''sendbeacon('', ascii ''new image'', ascii ''.src='',
     ascii ''location='']"

definition js_literals :: "gobytes list" where
  "js_literals = [
     ascii ''alert('', ascii ''confirm('', ascii ''prompt('', ascii ''import('' @ [39] @ ascii ''data:'',
     ascii ''import('' @ [34] @ ascii ''data:'', ascii ''import('' @ [96] @ ascii ''data:'',
     ascii ''alert'' @ [96], ascii ''confirm'' @ [96], ascii ''prompt'' @ [96], ascii ''eval'' @ [96],
     ascii ''document.cookie'', ascii ''localstorage.'', ascii ''sessionstorage.'']"

definition isHandlerNameByte :: "byte \<Rightarrow> bool" where
  "isHandlerNameByte c \<longleftrightarrow> 97 \<le> c \<and> c \<le> 122 \<or> 65 \<le> c \<and> c \<le> 90 \<or> 48 \<le> c \<and> c \<le> 57"

definition core_isLetter :: "byte \<Rightarrow> bool" where
  "core_isLetter c \<longleftrightarrow> 97 \<le> c \<and> c \<le> 122 \<or> 65 \<le> c \<and> c \<le> 90"

text \<open>Whether the text ends with the name of an event handler.\<close>

definition endsWithEventHandler :: "gobytes \<Rightarrow> bool" where
  "endsWithEventHandler s =
     (let name = rev (takeWhile isHandlerNameByte (rev s));
          before = rev (dropWhile isHandlerNameByte (rev s))
      in if length name < 4 \<or> 40 < length name then False
         else if \<not> (name ! 0 = 111 \<or> name ! 0 = 79) \<or> \<not> (name ! 1 = 110 \<or> name ! 1 = 78) then False
         else if \<not> list_all core_isLetter (drop 2 name) then False
         else before = [] \<or> last before \<in> {32, 9, 10, 13, 34, 39, 47, 59, 60, 40, 38})"

definition is_hex_digit :: "byte \<Rightarrow> bool" where
  "is_hex_digit c \<longleftrightarrow> 48 \<le> c \<and> c \<le> 57 \<or> 97 \<le> c \<and> c \<le> 102 \<or> 65 \<le> c \<and> c \<le> 70"

definition is_digit :: "byte \<Rightarrow> bool" where
  "is_digit c \<longleftrightarrow> 48 \<le> c \<and> c \<le> 57"

definition reference_body :: "gobytes \<Rightarrow> bool" where
  "reference_body body =
     (if body = [] then False
      else if body ! 0 = 35 then
        let digits = tl body in
        if 1 < length digits \<and> (digits ! 0 = 120 \<or> digits ! 0 = 88)
        then list_all is_hex_digit (tl digits) \<and> 0 < length (tl digits)
        else list_all is_digit digits \<and> 0 < length digits
      else list_all isHandlerNameByte body)"

fun reference_back :: "gobytes \<Rightarrow> nat \<Rightarrow> nat \<Rightarrow> nat \<Rightarrow> bool" where
  "reference_back v i lo 0 = False"
| "reference_back v i lo (Suc j) =
     (if j < lo then False
      else if v ! j = 38 then reference_body (take (i - (j + 1)) (drop (j + 1) v))
      else if v ! j = 59 \<or> v ! j = 32 \<or> v ! j = 60 \<or> v ! j = 62 then False
      else reference_back v i lo j)"

text \<open>Whether the semicolon at \<open>i\<close> closes a character reference.\<close>

definition closesCharReference :: "gobytes \<Rightarrow> nat \<Rightarrow> bool" where
  "closesCharReference v i =
     (if i = 0 \<or> v ! i \<noteq> 59 then False else reference_back v i (i - 34) i)"

text \<open>The byte before a call, blanks skipped: its position.\<close>

definition before_call :: "gobytes \<Rightarrow> nat \<Rightarrow> nat option" where
  "before_call v at1 =
     (let left = dropWhile (\<lambda>c. c = 32 \<or> c = 9 \<or> c = 10 \<or> c = 13) (rev (take at1 v))
      in if left = [] then None else Some (length left - 1))"

definition js_breaks_out :: "gobytes \<Rightarrow> nat \<Rightarrow> bool" where
  "js_breaks_out v at1 =
     (case before_call v at1 of
        None \<Rightarrow> False
      | Some j \<Rightarrow>
          (if list_ex (\<lambda>b. v ! j = b \<and> \<not> (b = 59 \<and> closesCharReference v j)) [59, 125, 41] then True
           else v ! j = 61 \<and> endsWithEventHandler (take j v)))"

function js_sink_loop :: "gobytes \<Rightarrow> gobytes \<Rightarrow> nat \<Rightarrow> bool" where
  "js_sink_loop v s i =
     (case core_indexOfFold (drop i v) s of
        None \<Rightarrow> False
      | Some k \<Rightarrow>
          let at1 = i + k; rest = drop (at1 + length s) v in
          if list_ex (\<lambda>n. case core_indexOfFold rest n of None \<Rightarrow> False | Some j \<Rightarrow> j \<le> 2) js_identity then True
          else if js_breaks_out v at1 then True
          else js_sink_loop v s (at1 + 1))"
  by pat_completeness auto
termination
  by (relation "measure (\<lambda>(v, s, i). length v - i)") (simp_all add: core_indexOfFold_advances)

declare js_sink_loop.simps [simp del]

definition js_context_injection :: "gobytes \<Rightarrow> bool" where
  "js_context_injection v =
     (if list_ex (holds v) js_selfEvident then True
      else if list_ex (holds v) js_exfilSources \<and> list_ex (holds v) js_exfilSinks then True
      else list_ex (\<lambda>s. js_sink_loop v s 0) js_sinks)"

definition jsContextInjection :: func_op where
  "jsContextInjection = WithLiterals js_literals (Func (ascii ''js_context_injection'') js_context_injection)"

definition uri_schemes :: "gobytes list" where
  "uri_schemes = [
     ascii ''javascript:'', ascii ''vbscript:'', ascii ''livescript:'', ascii ''mocha:'',
     ascii ''data:text/html'']"

definition uri_literals :: "gobytes list" where
  "uri_literals = [
     ascii ''javascript'', ascii ''vbscript'', ascii ''livescript'', ascii ''mocha:'', ascii ''text/html'']"

definition is_ignorable :: "byte \<Rightarrow> bool" where
  "is_ignorable c \<longleftrightarrow> c \<le> 32 \<or> c = 127"

definition skipIgnorable :: "gobytes \<Rightarrow> gobytes" where
  "skipIgnorable v = dropWhile is_ignorable v"

text \<open>A position of the source is the rest of the value from there.\<close>

fun matchFoldSkipping :: "gobytes \<Rightarrow> gobytes \<Rightarrow> gobytes option" where
  "matchFoldSkipping v [] = Some v"
| "matchFoldSkipping v (n # ns) =
     (let v = skipIgnorable v in
      if v = [] \<or> core_foldByte (hd v) \<noteq> n then None else matchFoldSkipping (tl v) ns)"

function skip_slashes :: "gobytes \<Rightarrow> gobytes" where
  "skip_slashes v = (if v \<noteq> [] \<and> hd v = 47 then skip_slashes (skipIgnorable (tl v)) else v)"
  by pat_completeness auto
termination
proof (relation "measure length", goal_cases)
  case (2 v)
  then show ?case using length_dropWhile_le [of is_ignorable "tl v"] by (cases v) (auto simp: skipIgnorable_def)
qed simp

declare skip_slashes.simps [simp del]

definition is_script_byte :: "byte \<Rightarrow> bool" where
  "is_script_byte c \<longleftrightarrow> (let c = core_foldByte c in
     c = 95 \<or> c = 36 \<or> c = 46 \<or> 97 \<le> c \<and> c \<le> 122 \<or> 48 \<le> c \<and> c \<le> 57)"

definition script_at :: "gobytes \<Rightarrow> gobytes \<Rightarrow> bool" where
  "script_at sc v =
     (case matchFoldSkipping v sc of
        None \<Rightarrow> False
      | Some rest \<Rightarrow>
          if sc ! 0 = 100 then True
          else
            let rest = skip_slashes (skipIgnorable rest);
                name = takeWhile is_script_byte rest;
                after = skipIgnorable (dropWhile is_script_byte rest)
            in if name = [] then False
               else if after = [] then False
               else hd after \<in> {40, 96, 61})"

definition script_uri :: "gobytes \<Rightarrow> bool" where
  "script_uri v = list_ex (\<lambda>sc. list_ex (\<lambda>i. script_at sc (drop i v)) [0..<length v]) uri_schemes"

definition scriptURI :: func_op where
  "scriptURI = WithLiterals uri_literals (Func (ascii ''script_uri'') script_uri)"

section \<open>Files and paths\<close>

definition sensitive_files :: "gobytes list" where
  "sensitive_files = [
     ascii ''etc/passwd'', ascii ''etc/shadow'', ascii ''etc/group'', ascii ''etc/gshadow'',
     ascii ''etc/hosts'', ascii ''etc/hostname'', ascii ''etc/os-release'', ascii ''etc/crontab'',
     ascii ''proc/self/environ'', ascii ''proc/self/cmdline'', ascii ''proc/self/cwd'', ascii ''proc/version'',
     ascii ''windows/win.ini'', ascii ''winnt/win.ini'', ascii ''windows/system.ini'',
     ascii ''windows/system32/config'', ascii ''windows/system32/drivers/etc/hosts'', ascii ''boot.ini'',
     ascii ''.ssh/id_rsa'', ascii ''.ssh/id_dsa'', ascii ''.ssh/id_ecdsa'', ascii ''.ssh/id_ed25519'',
     ascii ''.ssh/authorized_keys'', ascii ''.aws/credentials'', ascii ''.docker/config.json'']"

definition sensitiveFileOp :: contains_any where
  "sensitiveFileOp = ContainsAny sensitive_files"

text \<open>The width of the separator at the head of the text, and 0 if there is none.\<close>

definition traversalSep :: "gobytes \<Rightarrow> nat \<Rightarrow> nat" where
  "traversalSep v i =
     (if i < length v \<and> (v ! i = 47 \<or> v ! i = 92) then 1
      else if i + 2 < length v \<and> v ! i = 37 \<and> v ! (i + 1) = 50 \<and> v ! (i + 2) = 102 then 3
      else if i + 2 < length v \<and> v ! i = 37 \<and> v ! (i + 1) = 53 \<and> v ! (i + 2) = 99 then 3
      else if i < length v \<and> v ! i = 59 then
        (let param = takeWhile (\<lambda>c. c \<noteq> 47 \<and> c \<noteq> 92 \<and> c \<noteq> 59) (drop (i + 1) v); j = i + 1 + length param
         in if j < length v \<and> (v ! j = 47 \<or> v ! j = 92) then j + 1 - i else 0)
      else 0)"

function traversal_loop :: "gobytes \<Rightarrow> nat \<Rightarrow> nat \<Rightarrow> bool" where
  "traversal_loop v i runs =
     (if i + 1 < length v then
        if v ! i = 46 \<and> v ! (i + 1) = 46 then
          let n = traversalSep v (i + 2) in
          if 0 < n then (if 2 \<le> runs + 1 then True else traversal_loop v (i + 2 + n) (runs + 1))
          else if i + 2 = length v \<and> (i = 0 \<or> 0 < traversalSep v (i - 1)) then 2 \<le> runs + 1
          else traversal_loop v (i + 1) 0
        else traversal_loop v (i + 1) 0
      else False)"
  by pat_completeness auto
termination by (relation "measure (\<lambda>(v, i, runs). length v - i)") auto

declare traversal_loop.simps [simp del]

definition repeated_traversal :: "gobytes \<Rightarrow> bool" where
  "repeated_traversal v = traversal_loop v 0 0"

definition traversal_literals :: "gobytes list" where
  "traversal_literals = [
     ascii ''../..'', ascii ''..'' @ [92] @ ascii ''..'', ascii ''..%2f..'', ascii ''..%5c..'', ascii ''..;'']"

definition repeatedTraversal :: func_op where
  "repeatedTraversal = WithLiterals traversal_literals (Func (ascii ''repeated_traversal'') repeated_traversal)"

definition rfi_schemes :: "gobytes list" where
  "rfi_schemes = [
     ascii ''http://'', ascii ''https://'', ascii ''ftp://'', ascii ''ftps://'']"

definition rfi_extensions :: "gobytes list" where
  "rfi_extensions = [
     ascii ''.php'', ascii ''.phtml'', ascii ''.php3'', ascii ''.php4'', ascii ''.php5'', ascii ''.php7'',
     ascii ''.phps'', ascii ''.inc'', ascii ''.jsp'', ascii ''.jspx'', ascii ''.asp'', ascii ''.aspx'',
     ascii ''.cfm'', ascii ''.cgi'']"

definition rfi_scheme :: "gobytes \<Rightarrow> bool" where
  "rfi_scheme v = list_ex (\<lambda>s. length s \<le> length v \<and> take (length s) v = s) rfi_schemes"

definition remote_file_inclusion :: "gobytes \<Rightarrow> bool" where
  "remote_file_inclusion v = list_ex (\<lambda>start.
     if 0 < start \<and> v ! (start - 1) \<noteq> 61 \<and> v ! (start - 1) \<noteq> 44 then False
     else if \<not> rfi_scheme (drop start v) then False
     else
       let path = takeWhile (\<lambda>c. c \<noteq> 63 \<and> c \<noteq> 0 \<and> c \<noteq> 35) (drop start v)
       in core_hasAnySuffix path rfi_extensions) [0..<length v]"

definition remoteFileInclusion :: func_op where
  "remoteFileInclusion = WithLiterals rfi_extensions (Func (ascii ''remote_file_inclusion'') remote_file_inclusion)"

definition config_names :: "gobytes list" where
  "config_names = [
     ascii ''wp-config.php'', ascii ''configuration.php'', ascii ''config.php'', ascii ''settings.php'',
     ascii ''config.inc.php'', ascii ''database.php'', ascii ''local.xml'', ascii ''parameters.yml'',
     ascii ''.env'', ascii ''web.config'', ascii ''app.config'', ascii ''settings.py'', ascii ''secrets.yml'']"

definition dot_dot_slash :: "gobytes \<Rightarrow> nat \<Rightarrow> bool" where
  "dot_dot_slash v i \<longleftrightarrow> v ! i = 46 \<and> v ! (i + 1) = 46 \<and> (v ! (i + 2) = 47 \<or> v ! (i + 2) = 92)"

definition config_file_traversal :: "gobytes \<Rightarrow> bool" where
  "config_file_traversal v =
     (if \<not> list_ex (dot_dot_slash v) [0..<length v - 2] then False
      else list_ex (\<lambda>n. core_indexOf v n \<noteq> None) config_names)"

definition configFileTraversal :: func_op where
  "configFileTraversal = WithLiterals config_names (Func (ascii ''config_file_traversal'') config_file_traversal)"

text \<open>The path before a query or fragment, and without trailing dots and blanks.\<close>

definition before_query :: "gobytes \<Rightarrow> gobytes" where
  "before_query v = takeWhile (\<lambda>c. c \<noteq> 63 \<and> c \<noteq> 35) v"

definition trim_dots :: "gobytes \<Rightarrow> gobytes" where
  "trim_dots path = rev (dropWhile (\<lambda>c. c = 46 \<or> c = 32) (rev path))"

definition runs_as :: "gobytes list \<Rightarrow> gobytes \<Rightarrow> bool" where
  "runs_as exts path = list_ex (\<lambda>e. core_hasSuffixBytes path e \<or> core_indexOf path (e @ [47]) \<noteq> None) exts"

definition upload_dirs :: "gobytes list" where
  "upload_dirs = [
     ascii ''/wp-content/uploads/'', ascii ''/wp-content/upgrade/'', ascii ''/wp-content/cache/'',
     ascii ''/uploads/'', ascii ''/upload/'', ascii ''/userfiles/'', ascii ''/media/uploads/'',
     ascii ''/sites/default/files/'', ascii ''/assets/uploads/'', ascii ''/storage/uploads/'',
     ascii ''/public/uploads/'', ascii ''/static/uploads/'', ascii ''/attachments/'', ascii ''/avatars/'']"

definition upload_exts :: "gobytes list" where
  "upload_exts = [
     ascii ''.php'', ascii ''.php3'', ascii ''.php4'', ascii ''.php5'', ascii ''.php7'', ascii ''.php8'',
     ascii ''.phps'', ascii ''.phtml'', ascii ''.pht'', ascii ''.phar'', ascii ''.inc'', ascii ''.jsp'',
     ascii ''.jspx'', ascii ''.jsw'', ascii ''.asp'', ascii ''.aspx'', ascii ''.ashx'', ascii ''.asmx'',
     ascii ''.cgi'', ascii ''.pl'', ascii ''.py'', ascii ''.rb'', ascii ''.sh'']"

definition script_in_upload_path :: "gobytes \<Rightarrow> bool" where
  "script_in_upload_path v =
     (if \<not> list_ex (\<lambda>d. core_indexOf v d \<noteq> None) upload_dirs then False
      else runs_as upload_exts (trim_dots (before_query v)))"

definition scriptInUploadPath :: func_op where
  "scriptInUploadPath = WithLiterals upload_dirs (Func (ascii ''script_in_upload_path'') script_in_upload_path)"

definition wp_exts :: "gobytes list" where
  "wp_exts = [
     ascii ''.php'', ascii ''.php3'', ascii ''.php4'', ascii ''.php5'', ascii ''.php7'', ascii ''.php8'',
     ascii ''.phps'', ascii ''.phtml'', ascii ''.pht'', ascii ''.phar'', ascii ''.inc'']"

definition php_under_wp_content :: "gobytes \<Rightarrow> bool" where
  "php_under_wp_content v =
     (if core_indexOf v (ascii ''/wp-content/'') = None then False
      else runs_as wp_exts (trim_dots (before_query v)))"

definition phpUnderWPContent :: func_op where
  "phpUnderWPContent =
     WithLiterals [ascii ''/wp-content/''] (Func (ascii ''php_under_wp_content'') php_under_wp_content)"

definition backup_suffixes :: "gobytes list" where
  "backup_suffixes = [
     ascii ''.bak'', ascii ''.backup'', ascii ''.old'', ascii ''.orig'', ascii ''.save'', ascii ''.swp'',
     ascii ''.swo'', ascii ''.tmp'', ascii ''.copy'', ascii ''.rej'', ascii ''.dist'']"

definition backup_source :: "gobytes list" where
  "backup_source = [
     ascii ''.php'', ascii ''.phtml'', ascii ''.asp'', ascii ''.aspx'', ascii ''.jsp'', ascii ''.js'',
     ascii ''.ts'', ascii ''.py'', ascii ''.rb'', ascii ''.pl'', ascii ''.sh'', ascii ''.go'', ascii ''.java'',
     ascii ''.cs'', ascii ''.c'', ascii ''.cpp'', ascii ''.sql'', ascii ''.conf'', ascii ''.config'',
     ascii ''.cfg'', ascii ''.ini'', ascii ''.env'', ascii ''.yml'', ascii ''.yaml'', ascii ''.toml'',
     ascii ''.json'', ascii ''.xml'', ascii ''.properties'', ascii ''.htaccess'', ascii ''.htpasswd'',
     ascii ''.pem'', ascii ''.key'']"

definition backup_dumpDirs :: "gobytes list" where
  "backup_dumpDirs = [
     ascii ''/backup/'', ascii ''/backups/'', ascii ''/dump/'', ascii ''/dumps/'', ascii ''/db/'',
     ascii ''/database/'', ascii ''/sql/'', ascii ''/_backup/'', ascii ''/old/'', ascii ''/archive/'']"

fun backup_suffix_loop :: "gobytes list \<Rightarrow> gobytes \<Rightarrow> bool option" where
  "backup_suffix_loop [] path = None"
| "backup_suffix_loop (suf # sufs) path =
     (if \<not> core_hasSuffixBytes path suf then backup_suffix_loop sufs path
      else Some (core_hasAnySuffix (take (length path - length suf) path) backup_source))"

definition backup_artifact :: "gobytes \<Rightarrow> bool" where
  "backup_artifact v =
     (let path = before_query v in
      if path \<noteq> [] \<and> last path = 126 then core_hasAnySuffix (butlast path) backup_source
      else case backup_suffix_loop backup_suffixes path of
        Some answer \<Rightarrow> answer
      | None \<Rightarrow>
          (core_hasSuffixBytes path (ascii ''.sql'') \<or> core_hasSuffixBytes path (ascii ''.sql.gz'') \<or>
           core_hasSuffixBytes path (ascii ''.dump'') \<or> core_hasSuffixBytes path (ascii ''.mdb'')) \<and>
          list_ex (\<lambda>d. core_indexOf path d \<noteq> None) backup_dumpDirs)"

definition backup_literals :: "gobytes list" where
  "backup_literals = backup_suffixes @ [ascii ''.sql'', ascii ''.dump'', ascii ''.mdb'', ascii ''~'']"

definition backupArtifact :: func_op where
  "backupArtifact = WithLiterals backup_literals (Func (ascii ''backup_artifact'') backup_artifact)"

definition double_exec :: "gobytes list" where
  "double_exec = [
     ascii ''.php'', ascii ''.php3'', ascii ''.php4'', ascii ''.php5'', ascii ''.php7'', ascii ''.php8'',
     ascii ''.phps'', ascii ''.phtml'', ascii ''.pht'', ascii ''.phar'', ascii ''.inc'', ascii ''.asp'',
     ascii ''.aspx'', ascii ''.asa'', ascii ''.asax'', ascii ''.ashx'', ascii ''.asmx'', ascii ''.cer'',
     ascii ''.jsp'', ascii ''.jspx'', ascii ''.jsw'', ascii ''.jsv'', ascii ''.jspf'', ascii ''.cgi'',
     ascii ''.pl'', ascii ''.py'', ascii ''.rb'', ascii ''.sh'', ascii ''.bash'', ascii ''.exe'',
     ascii ''.dll'', ascii ''.so'', ascii ''.shtml'', ascii ''.swf'', ascii ''.htaccess'']"

definition streamOrExtensionFollows :: "gobytes \<Rightarrow> bool" where
  "streamOrExtensionFollows rest =
     (if length rest = 0 then False
      else if rest ! 0 = 46 then True
      else if rest ! 0 = 36 then True
      else if rest ! 0 = 58 then 1 < length rest \<and> rest ! 1 = 36
      else False)"

fun extension_loop :: "gobytes \<Rightarrow> nat \<Rightarrow> bool option" where
  "extension_loop [] i = None"
| "extension_loop (c # cs) i =
     (if c = 46 \<or> c = 47 \<or> c = 92 then Some True
      else if 5 \<le> i then Some False
      else if \<not> isHandlerNameByte c then Some True
      else extension_loop cs (Suc i))"

definition looksLikeExtension :: "gobytes \<Rightarrow> bool" where
  "looksLikeExtension rest = (case extension_loop rest 0 of Some b \<Rightarrow> b | None \<Rightarrow> length rest \<le> 5)"

text \<open>The digits loop of the source: it stops at a dot or a slash.\<close>

definition version_digits :: "gobytes \<Rightarrow> bool" where
  "version_digits rest = list_all is_digit (takeWhile (\<lambda>c. c \<noteq> 46 \<and> c \<noteq> 47) rest)"

datatype extension_step = Executes | Harmless | Another

text \<open>What the byte behind an executable extension says: an answer, or to look for the next one.\<close>

definition after_extension :: "gobytes \<Rightarrow> nat \<Rightarrow> extension_step" where
  "after_extension path stop =
     (if length path \<le> stop then Another
      else
        let c = core_foldByte (path ! stop); rest = drop (stop + 1) path in
        if c = 92 \<or> c = 37 \<or> c = 0 then Executes
        else if c = 59 \<or> c = 32 \<or> c = 9 \<or> c = 58 \<or> c = 44 then
          (if streamOrExtensionFollows rest then Executes else Another)
        else if c = 47 then Executes
        else if c = 46 then
          (if length rest = 0 then Executes
           else if version_digits rest then Another
           else if list_ex (core_hasSuffixFold path) double_exec then Harmless
           else if \<not> looksLikeExtension rest then Another
           else Executes)
        else Another)"

function extension_search :: "gobytes \<Rightarrow> gobytes \<Rightarrow> nat \<Rightarrow> extension_step" where
  "extension_search path e from1 =
     (case core_indexOfFold (drop from1 path) e of
        None \<Rightarrow> Another
      | Some j \<Rightarrow>
          (case after_extension path (from1 + j + length e) of
             Another \<Rightarrow> extension_search path e (from1 + j + 1)
           | Executes \<Rightarrow> Executes
           | Harmless \<Rightarrow> Harmless))"
  by pat_completeness auto
termination
  by (relation "measure (\<lambda>(path, e, i). length path - i)") (simp_all add: core_indexOfFold_advances)

declare extension_search.simps [simp del]

fun extension_scan :: "gobytes \<Rightarrow> gobytes list \<Rightarrow> bool" where
  "extension_scan path [] = False"
| "extension_scan path (e # es) =
     (case extension_search path e 0 of
        Another \<Rightarrow> extension_scan path es
      | Executes \<Rightarrow> True
      | Harmless \<Rightarrow> False)"

definition double_extension :: "gobytes \<Rightarrow> bool" where
  "double_extension v = extension_scan (before_query v) double_exec"

definition execWithDelimiter :: "gobytes list \<Rightarrow> gobytes list" where
  "execWithDelimiter exec =
     concat (map (\<lambda>e. map (\<lambda>d. e @ [d]) [46, 59, 47, 92, 32, 9, 37, 0, 58, 44]) exec)"

definition doubleExtension :: func_op where
  "doubleExtension = WithLiterals (execWithDelimiter double_exec) (Func (ascii ''double_extension'') double_extension)"

section \<open>Serialized data, headers, formulas\<close>

definition php_object_at :: "gobytes \<Rightarrow> nat \<Rightarrow> bool" where
  "php_object_at v i =
     (if v ! i = 111 \<or> v ! i = 99 then
        if 0 < i \<and> core_isWordByte (v ! (i - 1)) then False
        else if v ! (i + 1) \<noteq> 58 then False
        else
          let digits = takeWhile is_digit (drop (i + 2) v); j = i + 2 + length digits in
          if digits = [] \<or> length v \<le> j \<or> v ! j \<noteq> 58 then False
          else if length v \<le> j + 1 then False
          else v ! (j + 1) = 34
      else False)"

definition php_serialized_object :: "gobytes \<Rightarrow> bool" where
  "php_serialized_object v = list_ex (php_object_at v) [0..<length v - 3]"

definition php_literals :: "gobytes list" where
  "php_literals = [
     ascii '';s:'', ascii '';i:'', ascii '';b:'', ascii '';d:'', ascii ''{s:'', ascii ''{i:'', ascii '':{s:'']"

definition phpSerializedObject :: func_op where
  "phpSerializedObject = WithLiterals php_literals (Func (ascii ''php_serialized_object'') php_serialized_object)"

definition header_after_break :: "gobytes \<Rightarrow> nat \<Rightarrow> bool" where
  "header_after_break v i =
     (if v ! i \<noteq> 13 \<and> v ! i \<noteq> 10 then False
      else
        let rest = dropWhile (\<lambda>c. c = 13 \<or> c = 10) (drop i v);
            rest = dropWhile (\<lambda>c. c = 32 \<or> c = 9) rest;
            name = takeWhile (\<lambda>c. 97 \<le> c \<and> c \<le> 122 \<or> c = 45) rest;
            rest = dropWhile (\<lambda>c. 97 \<le> c \<and> c \<le> 122 \<or> c = 45) rest
        in name \<noteq> [] \<and> rest \<noteq> [] \<and> hd rest = 58)"

definition crlf_header_injection :: "gobytes \<Rightarrow> bool" where
  "crlf_header_injection v = list_ex (header_after_break v) [0..<length v]"

definition crlf_literals :: "gobytes list" where
  "crlf_literals = [
     [10] @ ascii ''set-cookie:'', [13] @ ascii ''set-cookie:'', [10] @ ascii ''location:'',
     [13] @ ascii ''location:'', [10] @ ascii ''content-type:'', [13] @ ascii ''content-type:'',
     [10] @ ascii ''content-length:'', [13] @ ascii ''content-length:'', [10] @ ascii ''refresh:'',
     [10] @ ascii ''link:'', [10] @ ascii ''transfer-encoding:'', [13] @ ascii ''transfer-encoding:'',
     [10] @ ascii ''content-encoding:'', [13] @ ascii ''content-encoding:'', [10] @ ascii ''authorization:'',
     [13] @ ascii ''authorization:'', [10] @ ascii ''www-authenticate:'', [10] @ ascii ''host:'',
     [13] @ ascii ''host:'', [10] @ ascii ''x-forwarded-for:'', [10] @ ascii ''x-forwarded-host:'',
     [10] @ ascii ''x-forwarded-proto:'']"

definition crlfHeaderInjection :: func_op where
  "crlfHeaderInjection = WithLiterals crlf_literals (Func (ascii ''crlf_header_injection'') crlf_header_injection)"

definition formula_strong :: "gobytes list" where
  "formula_strong = [
     ascii ''cmd|'', ascii ''msexcel|'', ascii ''=hyperlink('', ascii ''=webservice('', ascii ''=importxml('',
     ascii ''=importdata('', ascii ''=importhtml('', ascii ''=dde('', ascii ''=rtd('',
     ascii ''|'' @ [39] @ ascii ''/c '', ascii ''!a0'', [39] @ ascii ''!a1'']"

definition formula_weak :: "gobytes list" where
  "formula_weak = [
     ascii ''powershell'', ascii ''cmd/c'', ascii ''cmd /c'', ascii ''=exec('', ascii ''=shell('']"

definition formula_literals :: "gobytes list" where
  "formula_literals = [
     ascii ''cmd|'', ascii ''msexcel|'', ascii ''hyperlink('', ascii ''webservice('', ascii ''importxml('',
     ascii ''importdata('', ascii ''importhtml('', ascii ''dde('', ascii ''rtd('', ascii ''powershell'',
     ascii ''cmd/c'', ascii ''cmd /c'', ascii ''exec('', ascii ''shell('', ascii ''!a0'', ascii ''!a1'']"

definition formula_injection :: "gobytes \<Rightarrow> bool" where
  "formula_injection v =
     (if list_ex (holds v) formula_strong then True
      else
        let rest = dropWhile (\<lambda>c. c = 32 \<or> c = 9 \<or> c = 13 \<or> c = 10 \<or> c = 34 \<or> c = 39) v in
        if rest = [] then False
        else if core_foldByte (hd rest) \<in> {61, 43, 45, 64} then list_ex (holds v) formula_weak
        else False)"

definition formulaInjection :: func_op where
  "formulaInjection = WithLiterals formula_literals (Func (ascii ''formula_injection'') formula_injection)"

definition yaml_handles :: "gobytes list" where
  "yaml_handles = [
     ascii ''!!python/object'', ascii ''!!python/name'', ascii ''!!python/module'', ascii ''!!ruby/object'',
     ascii ''!!ruby/hash'', ascii ''!!ruby/struct'', ascii ''!!ruby/marshal'', ascii ''!!ruby/array'']"

definition yaml_literals :: "gobytes list" where
  "yaml_literals = [
     ascii ''!!python/'', ascii ''!!ruby/'']"

definition yaml_unsafe_constructor :: "gobytes \<Rightarrow> bool" where
  "yaml_unsafe_constructor v = list_ex (holds v) yaml_handles"

definition yamlUnsafeConstructor :: func_op where
  "yamlUnsafeConstructor = WithLiterals yaml_literals (Func (ascii ''yaml_unsafe_constructor'') yaml_unsafe_constructor)"

end
