(* ===== verification/CoreSinks.thy ===== *)
theory CoreSinks
  imports CoreFunc NumericHost
begin

unbundle bit_operations_syntax

text \<open>
  The operators of the core ruleset that read more than the value (ruleset/core: offorigin.go,
  pathsink.go, sqlsink.go, typemarker.go, splitpath.go, nulname.go, addressop.go): the key, the
  declared origins, the sibling arguments. The engine always passes a context, so the nil test of
  the source has no counterpart. A set of names is the list of its members.
\<close>

section \<open>Parameter names\<close>

definition navigationParamNames :: "gobytes list" where
  "navigationParamNames = [
     ascii ''redirect'', ascii ''redirect_to'', ascii ''redirecturl'', ascii ''redirect_url'',
     ascii ''redirect_uri'', ascii ''redirection'', ascii ''redirectionurl'', ascii ''redir'',
     ascii ''return'', ascii ''return_url'', ascii ''returnurl'', ascii ''return_to'', ascii ''returnto'',
     ascii ''next'', ascii ''next_url'', ascii ''continue'', ascii ''goto'', ascii ''destination'',
     ascii ''dest'', ascii ''target_url'', ascii ''forward'', ascii ''forwardurl'', ascii ''checkout_url'',
     ascii ''success_url'', ascii ''cancel_url'', ascii ''login_redirect'', ascii ''logout_redirect'']"

definition fetchParamNames :: "gobytes list" where
  "fetchParamNames = [
     ascii ''url'', ascii ''uri'', ascii ''link'', ascii ''fetch'', ascii ''load'', ascii ''proxy'',
     ascii ''feed'', ascii ''endpoint'', ascii ''api_url'', ascii ''source_url'', ascii ''remote'',
     ascii ''remote_url'', ascii ''webhook'', ascii ''image_url'', ascii ''img_url'', ascii ''avatar_url'',
     ascii ''media_url'', ascii ''file_url'', ascii ''download_url'', ascii ''import_url'']"

definition pathSinkParams :: "gobytes list" where
  "pathSinkParams = [
     ascii ''path'', ascii ''filepath'', ascii ''file_path'', ascii ''fpath'', ascii ''filename'',
     ascii ''file_name'', ascii ''file'', ascii ''dir'', ascii ''directory'', ascii ''folder'',
     ascii ''resourcepath'', ascii ''resource_path'', ascii ''template'', ascii ''include'', ascii ''doc'',
     ascii ''docpath'', ascii ''savepath'', ascii ''save_path'', ascii ''uploadpath'', ascii ''upload_path'',
     ascii ''downloadpath'', ascii ''download_path'', ascii ''source'', ascii ''src'', ascii ''load'',
     ascii ''read'', ascii ''attachment'', ascii ''mailattach'']"

definition sqlSinkParams :: "gobytes list" where
  "sqlSinkParams = [
     ascii ''sql'', ascii ''sqlquery'', ascii ''sql_query'', ascii ''rawsql'', ascii ''raw_sql'',
     ascii ''sqlstring'', ascii ''stmt'', ascii ''statement'', ascii ''sqlstatement'', ascii ''sql_statement'',
     ascii ''querysql'']"

definition sqlStatementKeywords :: "gobytes list" where
  "sqlStatementKeywords = [
     ascii ''select'', ascii ''insert'', ascii ''update'', ascii ''delete'', ascii ''drop'', ascii ''create'',
     ascii ''alter'', ascii ''truncate'', ascii ''copy'', ascii ''with'', ascii ''merge'', ascii ''grant'',
     ascii ''exec'']"

definition sensitiveDirs :: "gobytes list" where
  "sensitiveDirs = [
     ascii ''etc/'', ascii ''proc/self/'', ascii ''windows/system32/'', ascii ''root/.ssh/'', ascii ''/.ssh/'',
     ascii ''/.aws/'']"

definition maxParamNameLen :: nat where "maxParamNameLen = 64"

definition core_is_sep :: "byte \<Rightarrow> bool" where
  "core_is_sep c \<longleftrightarrow> c = 95 \<or> c = 45"

text \<open>Every suffix behind a separator, and every segment between two.\<close>

fun segment_loop :: "gobytes \<Rightarrow> gobytes list \<Rightarrow> bool" where
  "segment_loop [] names = False"
| "segment_loop (c # key) names =
     (if \<not> core_is_sep c then segment_loop key names
      else if key \<in> set names then True
      else if list_ex core_is_sep key \<and> takeWhile (\<lambda>c. \<not> core_is_sep c) key \<in> set names then True
      else segment_loop key names)"

definition matchesParam :: "gobytes \<Rightarrow> gobytes list \<Rightarrow> bool" where
  "matchesParam key names =
     (if key = [] \<or> maxParamNameLen < length key then False
      else
        let key = core_lowerASCII key;
            n = length key;
            key = (if 2 < n \<and> key ! (n - 2) = 91 \<and> key ! (n - 1) = 93 then take (n - 2) key else key)
        in if key \<in> set names then True else segment_loop key names)"

section \<open>Absolute destinations\<close>

definition url_norm :: "byte \<Rightarrow> byte" where
  "url_norm c = (if c = 92 then 47 else c)"

definition isSchemeByte :: "byte \<Rightarrow> bool" where
  "isSchemeByte c \<longleftrightarrow> 97 \<le> c \<and> c \<le> 122 \<or> 65 \<le> c \<and> c \<le> 90 \<or> 48 \<le> c \<and> c \<le> 57 \<or> c = 43 \<or> c = 45 \<or> c = 46"

text \<open>A position of the source is the rest of the value from there.\<close>

definition hostAfter :: "gobytes \<Rightarrow> gobytes option" where
  "hostAfter v =
     (let auth = takeWhile (\<lambda>c. \<not> (url_norm c = 47 \<or> url_norm c = 63 \<or> url_norm c = 35)) v in
      if length auth = 0 then None
      else
        let auth = rev (takeWhile (\<lambda>c. c \<noteq> 64) (rev auth)) in
        if length auth = 0 then None else Some auth)"

definition slash_pair :: "gobytes \<Rightarrow> bool" where
  "slash_pair v \<longleftrightarrow> 1 < length v \<and> url_norm (v ! 0) = 47 \<and> url_norm (v ! 1) = 47"

definition absoluteHostOf :: "gobytes \<Rightarrow> gobytes option" where
  "absoluteHostOf v =
     (let v = dropWhile core_isSpaceByte v;
          rest = dropWhile isSchemeByte v
      in if rest \<noteq> [] \<and> hd rest = 58 \<and> slash_pair (tl rest) then hostAfter (drop 3 rest)
         else if slash_pair v then hostAfter (drop 2 v)
         else None)"

definition core_lowerBytes :: "gobytes \<Rightarrow> gobytes" where
  "core_lowerBytes b =
     (if list_ex (\<lambda>c. 65 \<le> c \<and> c \<le> 90) b
      then map (\<lambda>c. if 65 \<le> c \<and> c \<le> 90 then c + (97 - 65) else c) b else b)"

definition core_stripPort :: "gobytes \<Rightarrow> gobytes" where
  "core_stripPort h =
     (if 0 < length h \<and> h ! (length h - 1) = 93 then h
      else case dropWhile (\<lambda>c. c \<noteq> 58 \<and> c \<noteq> 93) (rev h) of
        [] \<Rightarrow> h
      | c # before \<Rightarrow> if c = 58 then rev before else h)"

definition isDeclaredOrigin :: "gobytes \<Rightarrow> gobytes list \<Rightarrow> bool" where
  "isDeclaredOrigin dest origins =
     (if length dest = 0 then False
      else
        let d = core_stripPort (core_lowerBytes dest) in
        list_ex (\<lambda>orig.
          if d = orig then True
          else length d > length orig + 1 \<and> d ! (length d - length orig - 1) = 46 \<and>
            drop (length d - length orig) d = orig) origins)"

record off_origin_op =
  oo_fetch :: bool

definition offOriginURL :: off_origin_op where
  "offOriginURL = \<lparr>oo_fetch = False\<rparr>"

definition offOriginFetchURL :: off_origin_op where
  "offOriginFetchURL = \<lparr>oo_fetch = True\<rparr>"

definition offOrigin_Name :: "off_origin_op \<Rightarrow> gobytes" where
  "offOrigin_Name op =
     (if oo_fetch op then ascii ''off_origin_fetch_url'' else ascii ''off_origin_navigation_url'')"

definition offOrigin_Eval :: "off_origin_op \<Rightarrow> eval_ctx \<Rightarrow> gobytes \<Rightarrow> rmatch \<times> bool" where
  "offOrigin_Eval op c v =
     (if Kind (ctx_Target c) = TargetArgNames then (rmatch_zero, False)
      else
        let names = (if oo_fetch op then fetchParamNames else navigationParamNames) in
        if \<not> matchesParam (ctx_Key c) names then (rmatch_zero, False)
        else if length (ctx_Origins c) = 0 then (rmatch_zero, False)
        else case absoluteHostOf v of
          None \<Rightarrow> (rmatch_zero, False)
        | Some host \<Rightarrow>
            if isDeclaredOrigin host (ctx_Origins c) then (rmatch_zero, False)
            else (WholeValue v, True))"

definition offOrigin_Literals :: "gobytes list \<times> bool" where
  "offOrigin_Literals = ([[47, 47], [47, 92], [92, 47], [92, 92]], True)"

definition offOrigin_Cost :: fuel where
  "offOrigin_Cost = CostLiteralMatch * 2"

section \<open>Paths and statements\<close>

definition isPathSep :: "byte \<Rightarrow> bool" where
  "isPathSep c \<longleftrightarrow> c = 47 \<or> c = 92"

definition dotdot_at :: "gobytes \<Rightarrow> nat \<Rightarrow> bool" where
  "dotdot_at v i =
     (if v ! i \<noteq> 46 \<or> v ! (i + 1) \<noteq> 46 then False
      else if 0 < i \<and> \<not> isPathSep (v ! (i - 1)) then False
      else if i + 2 < length v \<and> \<not> isPathSep (v ! (i + 2)) then False
      else True)"

definition hasDotDotSegment :: "gobytes \<Rightarrow> bool" where
  "hasDotDotSegment v = list_ex (dotdot_at v) [0..<length v - 1]"

definition pathSink_Name :: gobytes where "pathSink_Name = ascii ''path_sink_traversal''"

definition pathSink_Eval :: "eval_ctx \<Rightarrow> gobytes \<Rightarrow> rmatch \<times> bool" where
  "pathSink_Eval c v =
     (if Kind (ctx_Target c) = TargetArgNames then (rmatch_zero, False)
      else if \<not> matchesParam (ctx_Key c) pathSinkParams then (rmatch_zero, False)
      else if holds v (ascii ''file://'') then (WholeValue v, True)
      else if hasDotDotSegment v then (WholeValue v, True)
      else (rmatch_zero, False))"

definition pathSink_Literals :: "gobytes list \<times> bool" where
  "pathSink_Literals = ([ascii ''..'', ascii ''file://''], True)"

definition pathSink_Cost :: fuel where "pathSink_Cost = CostLiteralMatch"

definition sqlSink_Name :: gobytes where "sqlSink_Name = ascii ''sql_sink_statement''"

definition begins_statement :: "gobytes \<Rightarrow> gobytes \<Rightarrow> bool" where
  "begins_statement rest kw =
     (if length rest < length kw \<or> \<not> core_equalFoldASCII (take (length kw) rest) kw then False
      else if length kw < length rest \<and> core_isWordish (rest ! length kw) then False
      else True)"

definition sqlSink_Eval :: "eval_ctx \<Rightarrow> gobytes \<Rightarrow> rmatch \<times> bool" where
  "sqlSink_Eval c v =
     (if Kind (ctx_Target c) = TargetArgNames then (rmatch_zero, False)
      else if \<not> matchesParam (ctx_Key c) sqlSinkParams then (rmatch_zero, False)
      else if list_ex (begins_statement (dropWhile (\<lambda>b. core_isSpaceByte b \<or> b = 40) v)) sqlStatementKeywords
      then (WholeValue v, True)
      else (rmatch_zero, False))"

definition sqlSink_Literals :: "gobytes list \<times> bool" where
  "sqlSink_Literals = ([
     ascii ''select'', ascii ''insert'', ascii ''update'', ascii ''delete'', ascii ''drop'', ascii ''create'',
     ascii ''alter'', ascii ''truncate'', ascii ''copy'', ascii ''with'', ascii ''merge'', ascii ''grant'',
     ascii ''exec''], True)"

definition sqlSink_Cost :: fuel where "sqlSink_Cost = CostLiteralMatch"

definition nulFilename_Name :: gobytes where "nulFilename_Name = ascii ''raw_null_in_filename''"

definition nulFilename_Eval :: "eval_ctx \<Rightarrow> gobytes \<Rightarrow> rmatch \<times> bool" where
  "nulFilename_Eval c v =
     (case find (\<lambda>i. v ! i = 0) [0..<length v] of
        None \<Rightarrow> (rmatch_zero, False)
      | Some i \<Rightarrow> (\<lparr>m_Span = SpanOf i 1\<rparr>, True))"

definition nulFilename_Literals :: "gobytes list \<times> bool" where
  "nulFilename_Literals = ([[0]], True)"

definition nulFilename_Cost :: fuel where "nulFilename_Cost = CostLiteralMatch"

section \<open>Type markers\<close>

definition typeMarkerKeys :: "(gobytes \<times> bool) list" where
  "typeMarkerKeys =
     [(ascii ''__class'', True), (ascii ''@class'', True), (ascii ''javaclass'', True),
      (ascii ''py/object'', True), (ascii ''rb/object'', True), (ascii ''__type'', True),
      (ascii ''class'', False), (ascii ''@type'', False), (ascii ''$type'', False)]"

definition lastKeySegment :: "gobytes \<Rightarrow> gobytes" where
  "lastKeySegment key =
     (if maxParamNameLen < length key then []
      else core_lowerASCII (rev (takeWhile (\<lambda>c. \<not> (c = 46 \<or> c = 93 \<or> c = 91)) (rev key))))"

definition maxClassNameLen :: nat where "maxClassNameLen = 256"

definition class_segment :: "gobytes \<Rightarrow> bool" where
  "class_segment seg =
     (if length seg = 0 then False
      else let c = seg ! 0 in
        if \<not> (97 \<le> c \<and> c \<le> 122 \<or> 65 \<le> c \<and> c \<le> 90 \<or> c = 95) then False
        else list_all (\<lambda>b. 97 \<le> b \<and> b \<le> 122 \<or> 65 \<le> b \<and> b \<le> 90 \<or> 48 \<le> b \<and> b \<le> 57 \<or>
          b = 95 \<or> b = 36 \<or> b = 45) seg)"

text \<open>The scan over the segments: the bytes of the open segment, the count, and if a backslash was seen.\<close>

fun qualified_loop :: "gobytes \<Rightarrow> gobytes \<Rightarrow> nat \<Rightarrow> bool \<Rightarrow> (nat \<times> bool) option" where
  "qualified_loop [] seg segments backslash =
     (if class_segment seg then Some (segments + 1, backslash) else None)"
| "qualified_loop (c # v) seg segments backslash =
     (if c = 92 \<or> c = 46 then
        (if class_segment seg then qualified_loop v [] (segments + 1) (backslash \<or> c = 92) else None)
      else qualified_loop v (seg @ [c]) segments backslash)"

definition before_comma :: "gobytes \<Rightarrow> gobytes" where
  "before_comma v = takeWhile (\<lambda>c. c \<noteq> 44) v"

definition isQualifiedClassName :: "gobytes \<Rightarrow> bool \<Rightarrow> bool" where
  "isQualifiedClassName v unambiguous =
     (if maxClassNameLen < length v then False
      else
        let v = before_comma v in
        if length v < 3 then False
        else case qualified_loop v [] 0 False of
          None \<Rightarrow> False
        | Some (segments, backslash) \<Rightarrow>
            if segments < 2 \<or> \<not> backslash then False
            else unambiguous \<or> 2 \<le> segments)"

definition typeMarker_Name :: gobytes where "typeMarker_Name = ascii ''type_marker''"

definition typeMarker_Eval :: "eval_ctx \<Rightarrow> gobytes \<Rightarrow> rmatch \<times> bool" where
  "typeMarker_Eval c v =
     (if Kind (ctx_Target c) = TargetArgNames then (rmatch_zero, False)
      else case map_of typeMarkerKeys (lastKeySegment (ctx_Key c)) of
        None \<Rightarrow> (rmatch_zero, False)
      | Some plain \<Rightarrow>
          if isQualifiedClassName v plain then (WholeValue v, True) else (rmatch_zero, False))"

definition typeMarker_Literals :: "gobytes list \<times> bool" where
  "typeMarker_Literals = ([[92]], True)"

definition typeMarker_Cost :: fuel where "typeMarker_Cost = CostLiteralMatch * 2"

definition dottedMarkerKeys :: "gobytes list" where
  "dottedMarkerKeys = [ascii ''py/object'', ascii ''rb/object'']"

fun dotted_loop :: "gobytes \<Rightarrow> gobytes \<Rightarrow> nat \<Rightarrow> nat option" where
  "dotted_loop [] seg segments = (if class_segment seg then Some (segments + 1) else None)"
| "dotted_loop (c # v) seg segments =
     (if c = 46 \<or> c = 92 then
        (if class_segment seg then dotted_loop v [] (segments + 1) else None)
      else if c = 58 then
        (case v of
           [] \<Rightarrow> None
         | d # v \<Rightarrow>
             if d \<noteq> 58 then None
             else if class_segment seg then dotted_loop v [] (segments + 1) else None)
      else dotted_loop v (seg @ [c]) segments)"

definition isDottedClassName :: "gobytes \<Rightarrow> bool" where
  "isDottedClassName v =
     (if maxClassNameLen < length v then False
      else
        let v = before_comma v in
        if length v < 3 then False
        else case dotted_loop v [] 0 of None \<Rightarrow> False | Some segments \<Rightarrow> 2 \<le> segments)"

definition siblingClassValue :: "eval_ctx \<Rightarrow> gobytes \<Rightarrow> gobytes \<Rightarrow> gobytes option" where
  "siblingClassValue c name leaf =
     (case SiblingValue c name of
        Some v \<Rightarrow> Some v
      | None \<Rightarrow> map_option snd (find (\<lambda>(n, v). lastKeySegment n = leaf)
          (zip (arg_Names (ctx_Siblings c)) (arg_Values (ctx_Siblings c)))))"

definition typeMarkerDotted_Name :: gobytes where "typeMarkerDotted_Name = ascii ''type_marker_dotted''"

definition typeMarkerDotted_Eval :: "eval_ctx \<Rightarrow> gobytes \<Rightarrow> rmatch \<times> bool" where
  "typeMarkerDotted_Eval c v =
     (let leaf = lastKeySegment v in
      if leaf \<notin> set dottedMarkerKeys then (rmatch_zero, False)
      else case siblingClassValue c v leaf of
        None \<Rightarrow> (rmatch_zero, False)
      | Some class_val \<Rightarrow>
          if isDottedClassName class_val then (WholeValue v, True) else (rmatch_zero, False))"

definition typeMarkerDotted_Literals :: "gobytes list \<times> bool" where
  "typeMarkerDotted_Literals = ([ascii ''py/object'', ascii ''rb/object''], True)"

definition typeMarkerDotted_Cost :: fuel where "typeMarkerDotted_Cost = CostLiteralMatch * 2"

section \<open>Paths in two parameters\<close>

definition maxJoinLen :: nat where "maxJoinLen = 512"

definition ends_with_dir :: "gobytes \<Rightarrow> gobytes \<Rightarrow> bool" where
  "ends_with_dir v d =
     (if length v < length d then False
      else if drop (length v - length d) v = d then True
      else d ! (length d - 1) = 47 \<and> drop (length v - length d + 1) v = take (length d - 1) d)"

definition endsWithSensitiveDir :: "gobytes \<Rightarrow> bool" where
  "endsWithSensitiveDir v =
     (if length v = 0 \<or> maxJoinLen < length v then False else list_ex (ends_with_dir v) sensitiveDirs)"

definition emptyCtx :: eval_ctx where
  "emptyCtx = \<lparr>ctx_Target = \<lparr>Kind = 0, Name = []\<rparr>, ctx_Key = [], ctx_Method = None, ctx_RequestURI = None,
     ctx_Host = None, ctx_Origins = [], ctx_Siblings = \<lparr>arg_Names = [], arg_Values = []\<rparr>\<rparr>"

definition joined_path :: "gobytes \<Rightarrow> gobytes \<Rightarrow> gobytes" where
  "joined_path v other = (if last v \<noteq> 47 then v @ [47] @ other else v @ other)"

definition splitPath_Name :: gobytes where "splitPath_Name = ascii ''split_path''"

definition splitPath_Eval :: "eval_ctx \<Rightarrow> gobytes \<Rightarrow> rmatch \<times> bool" where
  "splitPath_Eval c v =
     (if Kind (ctx_Target c) = TargetArgNames \<or> length (arg_Names (ctx_Siblings c)) < 2 then (rmatch_zero, False)
      else if \<not> endsWithSensitiveDir v then (rmatch_zero, False)
      else if list_ex (\<lambda>(name, other).
          if name = ctx_Key c then False
          else if length other = 0 \<or> maxJoinLen < length v + length other + 1 then False
          else snd (containsAny_Eval sensitiveFileOp emptyCtx (joined_path v other)))
        (zip (arg_Names (ctx_Siblings c)) (arg_Values (ctx_Siblings c)))
      then (WholeValue v, True)
      else (rmatch_zero, False))"

definition splitPath_Literals :: "gobytes list \<times> bool" where
  "splitPath_Literals = ([[47]], True)"

definition splitPath_Cost :: fuel where "splitPath_Cost = CostLiteralMatch * 4"

section \<open>Addresses\<close>

text \<open>\<open>part\<close> is a 64-bit Go int and wraps; \<open>out\<close> is the address so far.\<close>

fun quad_loop :: "gobytes \<Rightarrow> u32 \<Rightarrow> 64 word \<Rightarrow> nat \<Rightarrow> nat \<Rightarrow> (u32 \<times> nat) option" where
  "quad_loop [] out part digits seen =
     (if digits = 0 \<or> sint part > 255 then None else Some (push_bit 8 out OR ucast part, seen + 1))"
| "quad_loop (c # s) out part digits seen =
     (if c = 46 then
        (if digits = 0 \<or> sint part > 255 then None
         else quad_loop s (push_bit 8 out OR ucast part) 0 0 (seen + 1))
      else if c < 48 \<or> 57 < c then None
      else quad_loop s out (part * 10 + ucast (c - 48)) (digits + 1) seen)"

definition parseDottedQuad :: "gobytes \<Rightarrow> u32 \<times> bool" where
  "parseDottedQuad s =
     (case quad_loop s 0 0 0 0 of None \<Rightarrow> (0, False) | Some (out, seen) \<Rightarrow> (out, seen = 4))"

definition itoa_digit :: "u64 \<Rightarrow> byte" where
  "itoa_digit d = (if d < 10 then ucast d + 48 else ucast d + 87)"

text \<open>The buffer has room for 24 digits; 22 are enough in base 8.\<close>

fun itoa_loop :: "nat \<Rightarrow> u64 \<Rightarrow> u64 \<Rightarrow> gobytes \<Rightarrow> gobytes" where
  "itoa_loop 0 v base buf = buf"
| "itoa_loop (Suc i) v base buf =
     (if 0 < v then itoa_loop i (v div base) base (itoa_digit (v mod base) # buf) else buf)"

definition itoaBase :: "u64 \<Rightarrow> u64 \<Rightarrow> gobytes" where
  "itoaBase v base = (if v = 0 then [48] else itoa_loop 24 v base [])"

definition addressLeads :: "gobytes \<Rightarrow> gobytes list" where
  "addressLeads needle =
     (case parseDottedQuad needle of
        (a, False) \<Rightarrow> []
      | (a, True) \<Rightarrow>
          let first = ucast (drop_bit 24 a) :: u64 in
          [itoaBase first 10 @ [46],
           [48, 120] @ itoaBase first 16,
           [48] @ itoaBase first 8 @ [46],
           itoaBase (ucast a) 10,
           [48, 120] @ itoaBase (ucast a) 16,
           [48] @ itoaBase (ucast a) 8])"

record address_op =
  ad_inner :: contains_any
  ad_literals :: "gobytes list"

definition addressContains :: "gobytes list \<Rightarrow> address_op" where
  "addressContains needles =
     (let inner = ContainsAny needles in
      \<lparr>ad_inner = inner,
       ad_literals = fst (containsAny_Literals inner) @ concat (map addressLeads needles)\<rparr>)"

definition address_Name :: gobytes where "address_Name = ascii ''address_contains''"

definition address_Literals :: "address_op \<Rightarrow> gobytes list \<times> bool" where
  "address_Literals op = (ad_literals op, True)"

definition address_Cost :: fuel where "address_Cost = CostLiteralMatch * 3"

definition address_Eval :: "address_op \<Rightarrow> eval_ctx \<Rightarrow> gobytes \<Rightarrow> rmatch \<times> bool" where
  "address_Eval op c v =
     (case containsAny_Eval (ad_inner op) c v of
        (m, True) \<Rightarrow> (m, True)
      | (m, False) \<Rightarrow>
          (case numericHost_Apply v of
             (canon, changed) \<Rightarrow>
               if \<not> changed then (rmatch_zero, False)
               else containsAny_Eval (ad_inner op) c canon))"

end
