(* ===== verification/CoreLiterals.thy ===== *)
theory CoreLiterals
  imports CoreFunc
begin

text \<open>
  What the declared literals of the core ruleset's operators promise: a value the operator matches
  contains one of them. The prefilter leaves a rule out of a request with none of its literals, so an
  operator without this property has a hole. Each operator that keeps the promise is an interpretation
  of \<open>operator_contract\<close>; the others come last, each with a value it matches and the prefilter drops.
\<close>

section \<open>Operators that search for strings\<close>

lemma list_ex_holds_literal: "list_ex (holds v) ss \<Longrightarrow> set ss \<subseteq> set ls \<Longrightarrow> \<exists>l \<in> set ls. literal_occurs l v"
  by (auto simp: list_ex_iff dest!: holds_literal)

lemma list_ex_indexOf_literal:
  "list_ex (\<lambda>s. core_indexOf v s \<noteq> None) ss \<Longrightarrow> \<exists>l \<in> set ss. literal_occurs l v"
  by (auto simp: list_ex_iff dest!: indexOf_literal)

lemma suffix_literals:
  "core_hasAnySuffix p ss \<Longrightarrow> [] \<notin> set ss \<Longrightarrow> sublist p v \<Longrightarrow> \<exists>l \<in> set ss. literal_occurs l v"
  by (fastforce simp: core_hasAnySuffix_def list_ex_iff intro: literal_occurs_window dest: suffix_literal)

lemma sublist_takeWhile_drop: "sublist (takeWhile P (drop i v)) v"
  by (metis sublist_order.order_trans sublist_drop sublist_takeWhile)

lemma list_ex_exists: "list_ex P xs \<longleftrightarrow> (\<exists>x \<in> set xs. P x)"
  by (simp add: list_ex_iff)

lemma xml_required: "xml_entity_or_external_dtd v \<Longrightarrow> \<exists>l \<in> set xml_literals. literal_occurs l v"
proof -
  assume a: "xml_entity_or_external_dtd v"
  show ?thesis
  proof (cases "list_ex (holds v) xml_declarations")
    case True
    then show ?thesis by (rule list_ex_holds_literal) (auto simp: xml_declarations_def xml_literals_def)
  next
    case False
    with a obtain i where "core_indexOfFold v (ascii ''<!doctype'') = Some i"
      by (auto simp: xml_entity_or_external_dtd_def split: option.splits)
    then show ?thesis using holds_literal by (auto simp: xml_literals_def simp del: ascii_simps)
  qed
qed

interpretation xml: operator_contract "func_Eval xmlEntityOrExternalDTD" "func_Literals xmlEntityOrExternalDTD"
  unfolding xmlEntityOrExternalDTD_def by (rule func_contract [OF xml_required])

lemma xslt_required: "xslt_remote_include v \<Longrightarrow> \<exists>l \<in> set xslt_literals. literal_occurs l v"
proof -
  assume "xslt_remote_include v"
  then have "list_ex (holds v) xslt_elements"
    by (auto simp: xslt_remote_include_def list_ex_exists split: option.splits)
  then show ?thesis by (rule list_ex_holds_literal) (simp add: xslt_elements_def xslt_literals_def)
qed

interpretation xslt: operator_contract "func_Eval xsltRemoteInclude" "func_Literals xsltRemoteInclude"
  unfolding xsltRemoteInclude_def by (rule func_contract [OF xslt_required])

lemma node_required: "node_code_injection v \<Longrightarrow> \<exists>l \<in> set node_literals. literal_occurs l v"
proof -
  assume a: "node_code_injection v"
  consider "list_ex (holds v) node_escapes" | "list_ex (holds v) node_modules"
    using a by (auto simp: node_code_injection_def split: if_splits)
  then show ?thesis
  proof cases
    case 1
    then show ?thesis by (rule list_ex_holds_literal) (simp add: node_escapes_def node_literals_def del: ascii_simps)
  next
    case 2
    have "list_all (covered [ascii ''child_process'']) node_modules" by code_simp
    from holds_covered [OF this 2] show ?thesis by (simp add: node_literals_def del: ascii_simps)
  qed
qed

interpretation node: operator_contract "func_Eval nodeCodeInjection" "func_Literals nodeCodeInjection"
  unfolding nodeCodeInjection_def by (rule func_contract [OF node_required])

lemma spawn_required: "process_spawn v \<Longrightarrow> \<exists>l \<in> set spawn_literals. literal_occurs l v"
  unfolding process_spawn_def by (erule list_ex_holds_literal) (simp add: spawn_strong_def spawn_literals_def)

interpretation spawn: operator_contract "func_Eval processSpawn" "func_Literals processSpawn"
  unfolding processSpawn_def by (rule func_contract [OF spawn_required])

lemma suspicious_required: "process_spawn_suspicious v \<Longrightarrow> \<exists>l \<in> set spawn_weak_literals. literal_occurs l v"
proof -
  assume "process_spawn_suspicious v"
  then have "list_ex (holds v) spawn_weak"
    by (auto simp: process_spawn_suspicious_def list_ex_exists split: option.splits)
  then show ?thesis by (rule list_ex_holds_literal) (simp add: spawn_weak_def spawn_weak_literals_def)
qed

interpretation suspicious: operator_contract "func_Eval processSpawnSuspicious" "func_Literals processSpawnSuspicious"
  unfolding processSpawnSuspicious_def by (rule func_contract [OF suspicious_required])

lemma yaml_required: "yaml_unsafe_constructor v \<Longrightarrow> \<exists>l \<in> set yaml_literals. literal_occurs l v"
  unfolding yaml_unsafe_constructor_def by (erule holds_covered [rotated]) code_simp

interpretation yaml: operator_contract "func_Eval yamlUnsafeConstructor" "func_Literals yamlUnsafeConstructor"
  unfolding yamlUnsafeConstructor_def by (rule func_contract [OF yaml_required])

section \<open>Scripts in a page\<close>

lemma js_sink_loop_holds: "js_sink_loop v s i \<Longrightarrow> holds (drop i v) s"
  by (subst (asm) js_sink_loop.simps) (auto split: option.splits)

lemma js_required: "js_context_injection v \<Longrightarrow> \<exists>l \<in> set js_literals. literal_occurs l v"
proof -
  assume a: "js_context_injection v"
  consider "list_ex (holds v) (js_selfEvident @ js_exfilSources)" | s where "s \<in> set js_sinks" "js_sink_loop v s 0"
    using a by (auto simp: js_context_injection_def list_ex_exists split: if_splits)
  then show ?thesis
  proof cases
    case 1
    then show ?thesis
      by (rule list_ex_holds_literal) (simp add: js_selfEvident_def js_exfilSources_def js_literals_def del: ascii_simps)
  next
    case 2
    then have "list_ex (holds v) js_sinks" using js_sink_loop_holds [of v s 0] by (auto simp: list_ex_exists)
    then show ?thesis by (rule list_ex_holds_literal) (simp add: js_sinks_def js_literals_def)
  qed
qed

interpretation js: operator_contract "func_Eval jsContextInjection" "func_Literals jsContextInjection"
  unfolding jsContextInjection_def by (rule func_contract [OF js_required])

section \<open>Files and paths\<close>

lemma rfi_required: "remote_file_inclusion v \<Longrightarrow> \<exists>l \<in> set rfi_extensions. literal_occurs l v"
proof -
  assume "remote_file_inclusion v"
  then obtain i where "core_hasAnySuffix (takeWhile (\<lambda>c. c \<noteq> 63 \<and> c \<noteq> 0 \<and> c \<noteq> 35) (drop i v)) rfi_extensions"
    by (auto simp: remote_file_inclusion_def list_ex_exists Let_def split: if_splits)
  moreover have "[] \<notin> set rfi_extensions" by (simp add: rfi_extensions_def)
  ultimately show ?thesis using suffix_literals sublist_takeWhile_drop by blast
qed

interpretation rfi: operator_contract "func_Eval remoteFileInclusion" "func_Literals remoteFileInclusion"
  unfolding remoteFileInclusion_def by (rule func_contract [OF rfi_required])

lemma config_required: "config_file_traversal v \<Longrightarrow> \<exists>l \<in> set config_names. literal_occurs l v"
  using list_ex_indexOf_literal [of v config_names] by (simp add: config_file_traversal_def split: if_splits)

interpretation config: operator_contract "func_Eval configFileTraversal" "func_Literals configFileTraversal"
  unfolding configFileTraversal_def by (rule func_contract [OF config_required])

lemma upload_required: "script_in_upload_path v \<Longrightarrow> \<exists>l \<in> set upload_dirs. literal_occurs l v"
  using list_ex_indexOf_literal [of v upload_dirs] by (simp add: script_in_upload_path_def split: if_splits)

interpretation upload: operator_contract "func_Eval scriptInUploadPath" "func_Literals scriptInUploadPath"
  unfolding scriptInUploadPath_def by (rule func_contract [OF upload_required])

lemma wp_required: "php_under_wp_content v \<Longrightarrow> \<exists>l \<in> set [ascii ''/wp-content/'']. literal_occurs l v"
  using indexOf_literal [of v "ascii ''/wp-content/''"]
  by (auto simp: php_under_wp_content_def simp del: ascii_simps split: if_splits)

interpretation wp: operator_contract "func_Eval phpUnderWPContent" "func_Literals phpUnderWPContent"
  unfolding phpUnderWPContent_def by (rule func_contract [OF wp_required])

lemma backup_suffix_loop_literal:
  "backup_suffix_loop ss path = Some b \<Longrightarrow> [] \<notin> set ss \<Longrightarrow> \<exists>l \<in> set ss. literal_occurs l path"
  by (induction ss path rule: backup_suffix_loop.induct) (auto dest: suffix_literal split: if_splits)

lemma sublist_before_query: "sublist (before_query v) v"
  using sublist_takeWhile_drop [of _ 0 v] by (simp add: before_query_def)

lemma covered_suffixes:
  "list_all (covered ls) ss \<Longrightarrow> core_hasAnySuffix p ss \<Longrightarrow> [] \<notin> set ss \<Longrightarrow> \<exists>l \<in> set ls. literal_occurs l p"
  using suffix_literals [of p ss p] covered_literal by (auto simp: list_all_iff)

lemma backup_required: "backup_artifact v \<Longrightarrow> \<exists>l \<in> set backup_literals. literal_occurs l v"
proof -
  assume a: "backup_artifact v"
  let ?p = "before_query v"
  have n: "[] \<notin> set backup_suffixes" by (simp add: backup_suffixes_def)
  let ?dumps = "[ascii ''.sql'', ascii ''.sql.gz'', ascii ''.dump'', ascii ''.mdb'']"
  have c: "list_all (covered backup_literals) ?dumps" by code_simp
  consider "?p \<noteq> []" "last ?p = 126" | b where "backup_suffix_loop backup_suffixes ?p = Some b"
    | "core_hasAnySuffix ?p ?dumps"
    using a by (auto simp: backup_artifact_def core_hasAnySuffix_def Let_def simp del: ascii_simps split: if_splits option.splits)
  then have "\<exists>l \<in> set backup_literals. literal_occurs l ?p"
  proof cases
    case 1
    then have "core_hasSuffixBytes ?p [126]" by (cases ?p rule: rev_cases) (auto simp: core_hasSuffixBytes_def)
    then show ?thesis using suffix_literal [of ?p "[126]"] by (auto simp: backup_literals_def)
  next
    case 2
    then show ?thesis using backup_suffix_loop_literal [OF 2 n] by (auto simp: backup_literals_def)
  next
    case 3
    then show ?thesis using covered_suffixes [OF c] by simp
  qed
  then show ?thesis using literal_occurs_window sublist_before_query by blast
qed

interpretation backup: operator_contract "func_Eval backupArtifact" "func_Literals backupArtifact"
  unfolding backupArtifact_def by (rule func_contract [OF backup_required])

lemma literal_occurs_fold: "map fold_byte (take n (drop i v)) = l \<Longrightarrow> l \<noteq> [] \<Longrightarrow> literal_occurs l v"
  using sublist_take_drop [of n i "map fold_byte v"] map_fold_id [of "take n (drop i v)" l]
  by (simp add: literal_occurs_def take_map drop_map)

text \<open>An executable extension is answered for only when one of the ten delimiters follows it.\<close>

lemma after_extension_delimiter:
  "after_extension p k \<noteq> Another \<Longrightarrow>
     k < length p \<and> fold_byte (p ! k) \<in> {46, 59, 47, 92, 32, 9, 37, 0, 58, 44}"
  by (auto simp: after_extension_def core_foldByte_eq Let_def split: if_splits)

lemma extension_search_literal:
  "extension_search p e i \<noteq> Another \<Longrightarrow>
     \<exists>d \<in> {46, 59, 47, 92, 32, 9, 37, 0, 58, 44}. literal_occurs (e @ [d]) p"
proof (induction p e i rule: extension_search.induct)
  case (1 p e i)
  from 1(2) obtain j where j: "core_indexOfFold (drop i p) e = Some j"
    by (subst (asm) extension_search.simps) (auto split: option.splits)
  show ?case
  proof (cases "after_extension p (i + j + length e) = Another")
    case True
    with 1(2) j have "extension_search p e (i + j + 1) \<noteq> Another"
      by (subst (asm) extension_search.simps) simp
    with 1(1) [OF j True] show ?thesis by blast
  next
    case False
    let ?k = "i + j + length e"
    let ?d = "fold_byte (p ! ?k)"
    from after_extension_delimiter [OF False]
    have k: "?k < length p" and d: "?d \<in> {46, 59, 47, 92, 32, 9, 37, 0, 58, 44}" by auto
    note s = core_indexOfFold_Some [OF j]
    have "map fold_byte (take (Suc (length e)) (drop (i + j) p)) = e @ [?d]"
      using s(1) k by (simp add: take_Suc_conv_app_nth add.commute add.left_commute)
    then have "literal_occurs (e @ [?d]) p" by (rule literal_occurs_fold) simp
    with d show ?thesis by blast
  qed
qed

lemma double_required:
  "double_extension v \<Longrightarrow> \<exists>l \<in> set (execWithDelimiter double_exec). literal_occurs l v"
proof -
  assume a: "double_extension v"
  have "extension_scan p es \<Longrightarrow> \<exists>e \<in> set es. extension_search p e 0 \<noteq> Another" for p es
    by (induction es) (auto split: extension_step.splits)
  with a obtain e d where e: "e \<in> set double_exec"
    and d: "d \<in> {46, 59, 47, 92, 32, 9, 37, 0, 58, 44}" "literal_occurs (e @ [d]) (before_query v)"
    unfolding double_extension_def using extension_search_literal by blast
  then have "e @ [d] \<in> set (execWithDelimiter double_exec)" by (auto simp: execWithDelimiter_def)
  with d(2) show ?thesis using literal_occurs_window sublist_before_query by blast
qed

interpretation double: operator_contract "func_Eval doubleExtension" "func_Literals doubleExtension"
  unfolding doubleExtension_def by (rule func_contract [OF double_required])

text \<open>Two dots and a separator end where the next step looks.\<close>

definition traversed :: "gobytes \<Rightarrow> nat \<Rightarrow> bool" where
  "traversed v i \<longleftrightarrow> (\<exists>j n. i = j + 2 + n \<and> 0 < n \<and> n = traversalSep v (j + 2) \<and> v ! j = 46 \<and> v ! (j + 1) = 46)"

lemma literal_at:
  assumes "i + length l \<le> length v" "l \<noteq> []" "list_all (\<lambda>k. v ! (i + k) = l ! k) [0..<length l]"
  shows "literal_occurs l v"
proof -
  have "take (length l) (drop i v) = l" using assms by (intro nth_equalityI) (auto simp: list_all_iff)
  with assms(2) show ?thesis using literal_occurs_self sublist_take_drop by metis
qed

lemma traversalSep_forms:
  "0 < traversalSep v i \<Longrightarrow>
     traversalSep v i = 1 \<and> (v ! i = 47 \<or> v ! i = 92) \<or>
     traversalSep v i = 3 \<and> v ! i = 37 \<and>
       (v ! (i + 1) = 50 \<and> v ! (i + 2) = 102 \<or> v ! (i + 1) = 53 \<and> v ! (i + 2) = 99) \<or>
     v ! i = 59"
  by (auto simp: traversalSep_def Let_def split: if_splits)

lemma traversed_literal:
  assumes "traversed v i" "i + 1 < length v" "v ! i = 46" "v ! (i + 1) = 46"
  shows "\<exists>l \<in> set traversal_literals. literal_occurs l v"
proof -
  obtain j n where j: "i = j + 2 + n" "0 < n" "n = traversalSep v (j + 2)" "v ! j = 46" "v ! (j + 1) = 46"
    using assms(1) unfolding traversed_def by blast
  consider "n = 1" "v ! (j + 2) = 47 \<or> v ! (j + 2) = 92"
    | "n = 3" "v ! (j + 2) = 37" "v ! (j + 3) = 50 \<and> v ! (j + 4) = 102 \<or> v ! (j + 3) = 53 \<and> v ! (j + 4) = 99"
    | "v ! (j + 2) = 59"
    using traversalSep_forms [of v "j + 2"] j(2) unfolding j(3) add.assoc by force
  then have "\<exists>l \<in> {[46, 46, 47, 46, 46], [46, 46, 92, 46, 46], [46, 46, 37, 50, 102, 46, 46],
      [46, 46, 37, 53, 99, 46, 46], [46, 46, 59]}. literal_occurs l v"
  proof cases
    case 1
    then show ?thesis using j assms literal_at [of j "[46, 46, v ! (j + 2), 46, 46]" v]
      by (auto simp: add.commute upt_rec)
  next
    case 2
    then show ?thesis using j assms literal_at [of j "[46, 46, 37, v ! (j + 3), v ! (j + 4), 46, 46]" v]
      by (auto simp: upt_rec eval_nat_numeral)
  next
    case 3
    then show ?thesis using j assms literal_at [of j "[46, 46, 59]" v]
      by (auto simp: add.commute upt_rec)
  qed
  then show ?thesis by (auto simp: traversal_literals_def)
qed

lemma traversal_loop_literal:
  "traversal_loop v i runs \<Longrightarrow> (0 < runs \<longrightarrow> traversed v i) \<Longrightarrow> \<exists>l \<in> set traversal_literals. literal_occurs l v"
proof (induction v i runs rule: traversal_loop.induct)
  case (1 v i runs)
  let ?n = "traversalSep v (i + 2)"
  from 1(4) have i: "i + 1 < length v" by (subst (asm) traversal_loop.simps) (simp split: if_splits)
  show ?case
  proof (cases "v ! i = 46 \<and> v ! (i + 1) = 46")
    case False
    with i 1(4) have "traversal_loop v (i + 1) 0" by (subst (asm) traversal_loop.simps) (simp split: if_splits)
    with 1(3) i False show ?thesis by simp
  next
    case dots: True
    show ?thesis
    proof (cases "0 < runs")
      case True
      with traversed_literal 1(5) i dots show ?thesis by blast
    next
      case no_run: False
      show ?thesis
      proof (cases "0 < ?n")
        case True
        with i 1(4) dots no_run have "traversal_loop v (i + 2 + ?n) (runs + 1)"
          by (subst (asm) traversal_loop.simps) (simp add: Let_def split: if_splits)
        moreover have "traversed v (i + 2 + ?n)" using True dots by (auto simp: traversed_def)
        ultimately show ?thesis using 1(1) [OF i dots refl True] no_run by simp
      next
        case False
        with i 1(4) dots no_run have "\<not> (i + 2 = length v \<and> (i = 0 \<or> 0 < traversalSep v (i - 1)))"
          "traversal_loop v (i + 1) 0"
          by (subst (asm) traversal_loop.simps, simp add: Let_def split: if_splits)+
        with 1(2) [OF i dots refl False] show ?thesis by simp
      qed
    qed
  qed
qed

lemma traversal_required: "repeated_traversal v \<Longrightarrow> \<exists>l \<in> set traversal_literals. literal_occurs l v"
  unfolding repeated_traversal_def by (erule traversal_loop_literal) simp

interpretation traversal: operator_contract "func_Eval repeatedTraversal" "func_Literals repeatedTraversal"
  unfolding repeatedTraversal_def by (rule func_contract [OF traversal_required])

section \<open>Operators whose literals leave something out\<close>

definition slips_past :: "func_op \<Rightarrow> gobytes \<Rightarrow> bool" where
  "slips_past op v \<longleftrightarrow> fo_fn op v \<and> \<not> list_ex (\<lambda>l. literal_occurs l v) (fo_literals op)"

text \<open>A call through a name in backquotes.\<close>

lemma string_to_code_gap: "slips_past stringToCode ([96] @ ascii ''system'' @ [96, 40])"
proof -
  let ?v = "[96] @ ascii ''system'' @ [96, 40]"
  have "calls_indirectly ?v (ascii ''system'') [96]" by code_simp
  moreover have "ascii ''system'' \<in> set code_indirect" "[96] \<in> set code_openers"
    by (simp_all add: code_indirect_def code_openers_def)
  ultimately have "string_to_code ?v" by (auto simp: string_to_code_def list_ex_exists simp del: ascii_simps)
  moreover have "\<not> list_ex (\<lambda>l. literal_occurs l ?v) code_literals" by code_simp
  ultimately show ?thesis by (simp add: slips_past_def stringToCode_def WithLiterals_def Func_def)
qed

text \<open>A serialized object without properties.\<close>

lemma php_object_gap: "slips_past phpSerializedObject (ascii ''o:8:'' @ [34] @ ascii ''stdclass'' @ [34] @ ascii '':0:{}'')"
  by code_simp

text \<open>A header that is not one of the listed ones, and a listed one behind a blank.\<close>

lemma crlf_gaps: "slips_past crlfHeaderInjection ([10] @ ascii ''foo: x'')"
    "slips_past crlfHeaderInjection ([13, 10, 32] @ ascii ''set-cookie: a'')"
  by code_simp+

lemma formula_gap: "slips_past formulaInjection (ascii ''=|'' @ [39] @ ascii ''/c calc'')"
  by code_simp

text \<open>A scheme with a control byte inside.\<close>

lemma script_uri_gap: "slips_past scriptURI (ascii ''java'' @ [1] @ ascii ''script:alert(1)'')"
  by code_simp

section \<open>Properties\<close>

definition searching_operators :: "func_op list" where
  "searching_operators =
     [xmlEntityOrExternalDTD, xsltRemoteInclude, nodeCodeInjection, processSpawn, processSpawnSuspicious,
      jsContextInjection, repeatedTraversal, remoteFileInclusion, configFileTraversal, scriptInUploadPath,
      phpUnderWPContent, backupArtifact, doubleExtension, yamlUnsafeConstructor]"

lemma searching_contract:
  "op \<in> set searching_operators \<Longrightarrow> operator_contract (func_Eval op) (func_Literals op)"
  unfolding searching_operators_def using xml.operator_contract_axioms xslt.operator_contract_axioms
    node.operator_contract_axioms spawn.operator_contract_axioms suspicious.operator_contract_axioms
    js.operator_contract_axioms traversal.operator_contract_axioms rfi.operator_contract_axioms
    config.operator_contract_axioms upload.operator_contract_axioms wp.operator_contract_axioms
    backup.operator_contract_axioms double.operator_contract_axioms yaml.operator_contract_axioms
  by auto

lemma searching_declares: "op \<in> set searching_operators \<Longrightarrow> func_Literals op = (fo_literals op, True)"
proof -
  have "list_all (\<lambda>op. fo_literals op \<noteq> []) searching_operators"
    by (simp add: searching_operators_def WithLiterals_def Func_def
        xmlEntityOrExternalDTD_def xml_literals_def xsltRemoteInclude_def xslt_literals_def
        nodeCodeInjection_def node_literals_def processSpawn_def spawn_literals_def
        processSpawnSuspicious_def spawn_weak_literals_def jsContextInjection_def js_literals_def
        repeatedTraversal_def traversal_literals_def remoteFileInclusion_def rfi_extensions_def
        configFileTraversal_def config_names_def scriptInUploadPath_def upload_dirs_def phpUnderWPContent_def
        backupArtifact_def backup_literals_def doubleExtension_def execWithDelimiter_def double_exec_def
        yamlUnsafeConstructor_def yaml_literals_def del: ascii_simps)
  then show "op \<in> set searching_operators \<Longrightarrow> ?thesis" by (auto simp: list_all_iff func_Literals_def)
qed

text \<open>C9. A value one of the fourteen operators matches contains one of the literals the operator
  declares, up to ASCII case: the prefilter never leaves out a request such an operator would have hit.\<close>

theorem core_literals_required:
  assumes "op \<in> set searching_operators" "snd (func_Eval op c v)"
  shows "\<exists>l \<in> set (fst (func_Literals op)). literal_occurs l v"
  using operator_contract.required [OF searching_contract [OF assms(1)] searching_declares [OF assms(1)]] assms(2)
  by (simp add: searching_declares [OF assms(1)]) (metis prod.collapse)

theorem core_literals_required_witness:
  "\<exists>l \<in> set (fst (func_Literals repeatedTraversal)). literal_occurs l (ascii ''/a/../../etc'')"
proof (rule core_literals_required)
  show "repeatedTraversal \<in> set searching_operators" by (simp add: searching_operators_def)
  show "snd (func_Eval repeatedTraversal undefined (ascii ''/a/../../etc''))"
  proof -
    have "fo_fn repeatedTraversal (ascii ''/a/../../etc'')" by code_simp
    then show ?thesis by (simp add: func_Eval_def)
  qed
qed

end
