(* ===== verification/CoreSinksCorrect.thy ===== *)
theory CoreSinksCorrect
  imports CoreSinks CoreLiterals HostCorrect
begin

unbundle bit_operations_syntax

text \<open>
  What the context-reading operators of the core ruleset report. The declared literals are required,
  except for two operators whose gaps are shown; the off-origin operator reads the host of a
  destination wherever the URL hides it; the address operator finds every spelling of an address.
\<close>

section \<open>Declared literals\<close>

lemma whole_contract:
  assumes "\<And>c v. eval c v = (if P c v then (WholeValue v, True) else (rmatch_zero, False))"
    and "\<And>c v. P c v \<Longrightarrow> \<exists>l \<in> set ls. literal_occurs l v"
  shows "operator_contract eval (ls, True)"
  using assms WholeValue_inside by unfold_locales (auto split: if_splits)

lemma slash_pair_literal:
  "slash_pair v \<Longrightarrow> \<exists>l \<in> set [[47, 47], [47, 92], [92, 47], [92, 92]]. literal_occurs l v"
  using literal_at [of 0 "[v ! 0, v ! 1]" v]
  by (auto simp: slash_pair_def url_norm_def upt_rec split: if_splits)

lemma absoluteHostOf_literal:
  assumes "absoluteHostOf v = Some h"
  shows "\<exists>l \<in> set [[47, 47], [47, 92], [92, 47], [92, 92]]. literal_occurs l v"
proof -
  let ?v = "dropWhile core_isSpaceByte v"
  let ?rest = "dropWhile isSchemeByte ?v"
  have s: "sublist (dropWhile P w) w" for P and w :: gobytes
    by (metis suffix_dropWhile suffix_imp_sublist)
  have "sublist (tl ?rest) ?rest" by (simp add: sublist_tl)
  then have "sublist (tl ?rest) v" "sublist ?v v"
    using s [of isSchemeByte ?v] s [of core_isSpaceByte v] sublist_order.order_trans by blast+
  moreover have "slash_pair (tl ?rest) \<or> slash_pair ?v"
    using assms by (auto simp: absoluteHostOf_def Let_def split: if_splits)
  ultimately show ?thesis using slash_pair_literal literal_occurs_window by blast
qed

definition off_origin_hit :: "off_origin_op \<Rightarrow> eval_ctx \<Rightarrow> gobytes \<Rightarrow> bool" where
  "off_origin_hit op c v \<longleftrightarrow> Kind (ctx_Target c) \<noteq> TargetArgNames \<and>
     matchesParam (ctx_Key c) (if oo_fetch op then fetchParamNames else navigationParamNames) \<and>
     ctx_Origins c \<noteq> [] \<and> (\<exists>h. absoluteHostOf v = Some h \<and> \<not> isDeclaredOrigin h (ctx_Origins c))"

lemma offOrigin_Eval_eq:
  "offOrigin_Eval op c v = (if off_origin_hit op c v then (WholeValue v, True) else (rmatch_zero, False))"
  by (auto simp: offOrigin_Eval_def off_origin_hit_def Let_def split: option.splits)

interpretation off_origin: operator_contract "offOrigin_Eval op" offOrigin_Literals for op
  unfolding offOrigin_Literals_def
  by (rule whole_contract [OF offOrigin_Eval_eq]) (use absoluteHostOf_literal in \<open>unfold off_origin_hit_def, blast\<close>)

lemma dotdot_literal: "hasDotDotSegment v \<Longrightarrow> literal_occurs (ascii ''..'') v"
proof -
  assume "hasDotDotSegment v"
  then obtain i where "i + 1 < length v" "v ! i = 46" "v ! (i + 1) = 46"
    by (auto simp: hasDotDotSegment_def list_ex_exists dotdot_at_def less_diff_conv split: if_splits)
  then show ?thesis using literal_at [of i "[46, 46]" v] by (simp add: upt_rec)
qed

interpretation path_sink: operator_contract pathSink_Eval pathSink_Literals
  unfolding pathSink_Literals_def
proof (rule whole_contract)
  fix c v
  show "pathSink_Eval c v =
      (if Kind (ctx_Target c) \<noteq> TargetArgNames \<and> matchesParam (ctx_Key c) pathSinkParams \<and>
        (holds v (ascii ''file://'') \<or> hasDotDotSegment v)
       then (WholeValue v, True) else (rmatch_zero, False))"
    by (simp add: pathSink_Eval_def)
qed (use dotdot_literal holds_literal in \<open>fastforce simp del: ascii_simps\<close>)

lemma equalFold_literal:
  "core_equalFoldASCII (take (length k) w) k \<Longrightarrow> k \<noteq> [] \<Longrightarrow> literal_occurs k w"
proof -
  assume a: "core_equalFoldASCII (take (length k) w) k" and k: "k \<noteq> []"
  then have "length (take (length k) w) = length k" by (simp add: core_equalFoldASCII_def split: if_splits)
  with a have "map fold_byte (take (length k) (drop 0 w)) = k"
    by (intro nth_equalityI) (auto simp: core_equalFoldASCII_def list_all_length fold_byte_def split: if_splits)
  then show ?thesis using k by (rule literal_occurs_fold)
qed

interpretation sql_sink: operator_contract sqlSink_Eval sqlSink_Literals
  unfolding sqlSink_Literals_def sqlStatementKeywords_def [symmetric]
proof (rule whole_contract)
  fix c v
  let ?rest = "dropWhile (\<lambda>b. core_isSpaceByte b \<or> b = 40) v"
  let ?hit = "\<lambda>c v. Kind (ctx_Target c) \<noteq> TargetArgNames \<and> matchesParam (ctx_Key c) sqlSinkParams \<and>
      list_ex (begins_statement (dropWhile (\<lambda>b. core_isSpaceByte b \<or> b = 40) v)) sqlStatementKeywords"
  show "sqlSink_Eval c v = (if ?hit c v then (WholeValue v, True) else (rmatch_zero, False))"
    by (simp add: sqlSink_Eval_def)
  assume "?hit c v"
  then obtain k where k: "k \<in> set sqlStatementKeywords" "core_equalFoldASCII (take (length k) ?rest) k"
    by (auto simp: list_ex_exists begins_statement_def split: if_splits)
  moreover have "[] \<notin> set sqlStatementKeywords" by (simp add: sqlStatementKeywords_def)
  ultimately have "literal_occurs k ?rest" using equalFold_literal by metis
  then show "\<exists>l \<in> set sqlStatementKeywords. literal_occurs l v"
    using k(1) literal_occurs_window suffix_dropWhile suffix_imp_sublist by blast
qed

interpretation nul_filename: operator_contract nulFilename_Eval nulFilename_Literals
proof
  fix ls c v m
  assume "nulFilename_Literals = (ls, True)" "nulFilename_Eval c v = (m, True)"
  then obtain i where "i < length v" "v ! i = 0" "ls = [[0]]"
    by (auto simp: nulFilename_Eval_def nulFilename_Literals_def dest!: find_upt split: option.splits)
  then show "\<exists>l \<in> set ls. literal_occurs l v" by (auto intro!: literal_at [of i])
next
  fix c v m
  assume "nulFilename_Eval c v = (m, True)" "length v < 2 ^ 32"
  then show "unat (Off (m_Span m)) + unat (Len (m_Span m)) \<le> length v"
    by (auto simp: nulFilename_Eval_def intro!: SpanOf_inside dest!: find_upt split: option.splits)
qed

lemma core_lowerASCII_eq: "core_lowerASCII s = map fold_byte s"
proof -
  have "\<not> list_ex (\<lambda>c. 65 \<le> c \<and> c \<le> 90) s \<Longrightarrow> map fold_byte s = s"
    by (induction s) (auto simp: fold_byte_def)
  moreover have "map fold_byte s = map (\<lambda>c. if 65 \<le> c \<and> c \<le> 90 then c + (97 - 65) else c) s"
    by (simp add: fold_byte_def)
  ultimately show ?thesis unfolding core_lowerASCII_def by presburger
qed

lemma lastKeySegment_literal: "lastKeySegment key = l \<Longrightarrow> l \<noteq> [] \<Longrightarrow> literal_occurs l key"
proof -
  assume l: "lastKeySegment key = l" "l \<noteq> []"
  let ?w = "rev (takeWhile (\<lambda>c. \<not> (c = 46 \<or> c = 93 \<or> c = 91)) (rev key))"
  from l have "map fold_byte (take (length ?w) (drop 0 ?w)) = l"
    by (simp add: lastKeySegment_def core_lowerASCII_eq split: if_splits)
  then have "literal_occurs l ?w" using l(2) by (rule literal_occurs_fold)
  moreover have "sublist ?w key"
    by (simp add: suffix_imp_sublist suffix_to_prefix takeWhile_is_prefix)
  ultimately show ?thesis by (rule literal_occurs_window)
qed

lemma qualified_loop_backslash:
  "qualified_loop v seg n b = Some (m, True) \<Longrightarrow> b \<or> 92 \<in> set v"
  by (induction v seg n b rule: qualified_loop.induct) (auto split: if_splits)

lemma qualified_literal: "isQualifiedClassName v u \<Longrightarrow> literal_occurs [92] v"
proof -
  assume "isQualifiedClassName v u"
  then have "92 \<in> set (before_comma v)"
    by (auto simp: isQualifiedClassName_def Let_def dest!: qualified_loop_backslash split: if_splits option.splits)
  then have "92 \<in> set v" unfolding before_comma_def by (rule set_takeWhileD [THEN conjunct1])
  then obtain i where "i < length v" "v ! i = 92" by (auto simp: in_set_conv_nth)
  then show ?thesis using literal_at [of i "[92]" v] by simp
qed

interpretation type_marker: operator_contract typeMarker_Eval typeMarker_Literals
  unfolding typeMarker_Literals_def
proof (rule whole_contract)
  fix c v
  show "typeMarker_Eval c v =
      (if Kind (ctx_Target c) \<noteq> TargetArgNames \<and>
        (\<exists>u. map_of typeMarkerKeys (lastKeySegment (ctx_Key c)) = Some u \<and> isQualifiedClassName v u)
       then (WholeValue v, True) else (rmatch_zero, False))"
    by (cases "map_of typeMarkerKeys (lastKeySegment (ctx_Key c))") (simp_all add: typeMarker_Eval_def)
qed (use qualified_literal in auto)

interpretation type_marker_dotted: operator_contract typeMarkerDotted_Eval typeMarkerDotted_Literals
  unfolding typeMarkerDotted_Literals_def dottedMarkerKeys_def [symmetric]
proof (rule whole_contract)
  fix c v
  let ?hit = "\<lambda>c v. lastKeySegment v \<in> set dottedMarkerKeys \<and>
      (\<exists>w. siblingClassValue c v (lastKeySegment v) = Some w \<and> isDottedClassName w)"
  show "typeMarkerDotted_Eval c v = (if ?hit c v then (WholeValue v, True) else (rmatch_zero, False))"
    by (cases "siblingClassValue c v (lastKeySegment v)") (simp_all add: typeMarkerDotted_Eval_def Let_def)
  assume "?hit c v"
  moreover have "[] \<notin> set dottedMarkerKeys" by (simp add: dottedMarkerKeys_def)
  ultimately show "\<exists>l \<in> set dottedMarkerKeys. literal_occurs l v" using lastKeySegment_literal by metis
qed

section \<open>Two operators the prefilter can leave out\<close>

definition two_args :: eval_ctx where
  "two_args = emptyCtx\<lparr>ctx_Target := \<lparr>Kind = TargetArgs, Name = []\<rparr>, ctx_Key := ascii ''dir'',
     ctx_Siblings := \<lparr>arg_Names = [ascii ''dir'', ascii ''file''], arg_Values = [ascii ''xetc'', ascii ''passwd'']\<rparr>\<rparr>"

text \<open>A directory without a slash.\<close>

lemma split_path_gap:
  "snd (splitPath_Eval two_args (ascii ''xetc''))"
  "\<not> (\<exists>l \<in> set (fst splitPath_Literals). literal_occurs l (ascii ''xetc''))"
proof -
  show "snd (splitPath_Eval two_args (ascii ''xetc''))" by code_simp
  have "list_all (\<lambda>l. \<not> literal_occurs l (ascii ''xetc'')) (fst splitPath_Literals)" by code_simp
  then show "\<not> (\<exists>l \<in> set (fst splitPath_Literals). literal_occurs l (ascii ''xetc''))" by (simp add: list_all_iff)
qed

text \<open>A hexadecimal address behind a redundant zero.\<close>

definition metadata_op :: address_op where
  "metadata_op = addressContains [ascii ''169.254.169.254'']"

lemma address_gap:
  "snd (address_Eval metadata_op emptyCtx (ascii ''0x0a9fea9fe''))"
  "\<not> (\<exists>l \<in> set (fst (address_Literals metadata_op)). literal_occurs l (ascii ''0x0a9fea9fe''))"
proof -
  show "snd (address_Eval metadata_op emptyCtx (ascii ''0x0a9fea9fe''))" by code_simp
  have "list_all (\<lambda>l. \<not> literal_occurs l (ascii ''0x0a9fea9fe'')) (fst (address_Literals metadata_op))" by code_simp
  then show "\<not> (\<exists>l \<in> set (fst (address_Literals metadata_op)). literal_occurs l (ascii ''0x0a9fea9fe''))"
    by (simp add: list_all_iff)
qed

text \<open>More than two slashes hide the host, though a browser skips them all; so the spelling with two
  pairs of a backslash and a slash that the source names is not reported either.\<close>

lemma slash_run_gap:
  "\<not> snd (offOrigin_Eval op c (ascii ''https:///evil.tld''))"
  "\<not> snd (offOrigin_Eval op c ([92, 47, 92, 47] @ ascii ''evil.tld''))"
proof -
  have "absoluteHostOf (ascii ''https:///evil.tld'') = None" "absoluteHostOf ([92, 47, 92, 47] @ ascii ''evil.tld'') = None"
    by code_simp+
  then show "\<not> snd (offOrigin_Eval op c (ascii ''https:///evil.tld''))"
    "\<not> snd (offOrigin_Eval op c ([92, 47, 92, 47] @ ascii ''evil.tld''))"
    by (simp_all add: offOrigin_Eval_eq off_origin_hit_def del: ascii_simps append.simps)
qed

section \<open>Off-origin destinations\<close>

text \<open>A destination as a browser reads it: blanks, an optional scheme, two slashes of either kind,
  optional credentials, the host, an optional port, the path.\<close>

record destination =
  d_blank :: gobytes
  d_scheme :: "gobytes option"
  d_slashes :: "byte \<times> byte"
  d_user :: "gobytes option"
  d_host :: gobytes
  d_port :: "gobytes option"
  d_tail :: gobytes

definition stops_host :: "byte \<Rightarrow> bool" where
  "stops_host c \<longleftrightarrow> c \<in> {47, 92, 63, 35}"

definition host_text :: "gobytes \<Rightarrow> bool" where
  "host_text s \<longleftrightarrow> list_all (\<lambda>c. \<not> stops_host c \<and> c \<notin> {64, 58, 93}) s"

definition well_formed_destination :: "destination \<Rightarrow> bool" where
  "well_formed_destination d \<longleftrightarrow>
     list_all core_isSpaceByte (d_blank d) \<and>
     (case d_scheme d of None \<Rightarrow> True | Some s \<Rightarrow> list_all isSchemeByte s) \<and>
     fst (d_slashes d) \<in> {47, 92} \<and> snd (d_slashes d) \<in> {47, 92} \<and>
     (case d_user d of None \<Rightarrow> True | Some u \<Rightarrow> list_all (\<lambda>c. \<not> stops_host c) u) \<and>
     d_host d \<noteq> [] \<and> host_text (d_host d) \<and>
     (case d_port d of None \<Rightarrow> True | Some p \<Rightarrow> host_text p) \<and>
     (d_tail d = [] \<or> stops_host (hd (d_tail d)))"

definition authority :: "destination \<Rightarrow> gobytes" where
  "authority d = d_host d @ (case d_port d of None \<Rightarrow> [] | Some p \<Rightarrow> [58] @ p)"

definition destination_url :: "destination \<Rightarrow> gobytes" where
  "destination_url d =
     d_blank d @ (case d_scheme d of None \<Rightarrow> [] | Some s \<Rightarrow> s @ [58]) @
     [fst (d_slashes d), snd (d_slashes d)] @
     (case d_user d of None \<Rightarrow> [] | Some u \<Rightarrow> u @ [64]) @ authority d @ d_tail d"

lemma stops_host_norm: "stops_host c \<longleftrightarrow> url_norm c = 47 \<or> url_norm c = 63 \<or> url_norm c = 35"
  by (auto simp: stops_host_def url_norm_def)

lemma takeWhile_until:
  "list_all (\<lambda>c. \<not> P c) xs \<Longrightarrow> ys = [] \<or> P (hd ys) \<Longrightarrow> takeWhile (\<lambda>c. \<not> P c) (xs @ ys) = xs"
  by (induction xs) (auto simp: takeWhile_eq_Nil_iff)

lemma hostAfter_authority:
  assumes "list_all (\<lambda>c. \<not> stops_host c) (user @ auth)" "auth \<noteq> []" "64 \<notin> set auth"
    and "tail = [] \<or> stops_host (hd tail)" "user = [] \<or> last user = 64"
  shows "hostAfter (user @ auth @ tail) = Some auth"
proof -
  have t: "takeWhile (\<lambda>c. \<not> stops_host c) (user @ auth @ tail) = user @ auth"
    using takeWhile_until [OF assms(1,4)] by simp
  have "takeWhile (\<lambda>c. c \<noteq> 64) (rev auth @ rev user) = rev auth"
    using assms(3,5) takeWhile_until [of "\<lambda>c. c = 64" "rev auth" "rev user"]
    by (auto simp: list_all_iff hd_rev)
  with t assms(2) show ?thesis by (simp add: hostAfter_def stops_host_norm [symmetric])
qed

lemma absoluteHostOf_destination:
  assumes w: "well_formed_destination d"
  shows "absoluteHostOf (destination_url d) = Some (authority d)"
proof -
  obtain a b where s: "d_slashes d = (a, b)" by force
  define user where "user = (case d_user d of None \<Rightarrow> [] | Some u \<Rightarrow> u @ [64])"
  define rest where "rest = user @ authority d @ d_tail d"
  have st: "\<not> stops_host 64" "\<not> stops_host 58" by (simp_all add: stops_host_def)
  have "list_all (\<lambda>c. \<not> stops_host c) user"
    using w st by (cases "d_user d") (simp_all add: well_formed_destination_def user_def)
  moreover have "list_all (\<lambda>c. \<not> stops_host c \<and> c \<noteq> 64) (authority d)" "authority d \<noteq> []"
    using w st by (cases "d_port d"; auto simp: well_formed_destination_def authority_def host_text_def list_all_iff)+
  ultimately have "list_all (\<lambda>c. \<not> stops_host c) (user @ authority d)" "authority d \<noteq> []" "64 \<notin> set (authority d)"
    by (auto simp: list_all_iff)
  moreover have "user = [] \<or> last user = 64" by (simp add: user_def split: option.split)
  moreover have "d_tail d = [] \<or> stops_host (hd (d_tail d))" using w by (simp add: well_formed_destination_def)
  ultimately have h: "hostAfter rest = Some (authority d)" unfolding rest_def by (intro hostAfter_authority)
  have ab: "a \<in> {47, 92}" "b \<in> {47, 92}" using w s by (auto simp: well_formed_destination_def)
  then have p: "slash_pair (a # b # rest)" by (auto simp: slash_pair_def url_norm_def)
  have n: "\<not> core_isSpaceByte a" "\<not> isSchemeByte a" "a \<noteq> 58" using ab by (auto simp: core_isSpaceByte_def isSchemeByte_def)
  have blank: "dropWhile core_isSpaceByte (d_blank d @ xs) = xs" if "\<not> core_isSpaceByte (hd xs)" "xs \<noteq> []" for xs
    using w that by (cases xs) (auto simp: well_formed_destination_def list_all_iff)
  show ?thesis
  proof (cases "d_scheme d")
    case None
    then have "destination_url d = d_blank d @ a # b # rest" by (simp add: destination_url_def s rest_def user_def)
    with n p h blank [of "a # b # rest"] show ?thesis by (simp add: absoluteHostOf_def Let_def)
  next
    case (Some sch)
    then have sch: "list_all isSchemeByte sch" using w by (simp add: well_formed_destination_def)
    have u: "destination_url d = d_blank d @ sch @ 58 # a # b # rest" using Some by (simp add: destination_url_def s rest_def user_def)
    have "\<not> core_isSpaceByte c" if "isSchemeByte c" for c using that by (auto simp: core_isSpaceByte_def isSchemeByte_def)
    then have "\<not> core_isSpaceByte (hd (sch @ 58 # a # b # rest))"
      using sch by (cases sch) (simp_all add: core_isSpaceByte_def)
    then have "dropWhile core_isSpaceByte (destination_url d) = sch @ 58 # a # b # rest" unfolding u by (rule blank) simp
    moreover have "dropWhile isSchemeByte (sch @ 58 # a # b # rest) = 58 # a # b # rest"
      using sch by (simp add: dropWhile_append list_all_iff isSchemeByte_def)
    moreover have "\<not> isSchemeByte 58" by (simp add: isSchemeByte_def)
    ultimately show ?thesis using p h by (simp add: absoluteHostOf_def Let_def)
  qed
qed

lemma fold_byte_special: "k < 65 \<or> 91 \<le> k \<and> k < 97 \<Longrightarrow> fold_byte c = k \<longleftrightarrow> c = k"
proof -
  assume k: "k < 65 \<or> 91 \<le> k \<and> k < 97"
  have "97 \<le> c + 32" "c + 32 \<le> 122" if "65 \<le> c" "c \<le> 90"
    using that by (simp_all add: word_le_nat_alt unat_word_ariths)
  then show ?thesis using k by (auto simp: fold_byte_def word_le_nat_alt word_less_nat_alt)
qed

lemma stripPort_scan:
  assumes "h \<noteq> []" "last h \<noteq> 93" "dropWhile (\<lambda>c. c \<noteq> 58 \<and> c \<noteq> 93) (rev h) = xs"
  shows "core_stripPort h = (case xs of [] \<Rightarrow> h | c # before \<Rightarrow> if c = 58 then rev before else h)"
  using assms unfolding core_stripPort_def by (auto simp: last_conv_nth)

lemma stripPort_authority:
  assumes "well_formed_destination d"
  shows "core_stripPort (map fold_byte (authority d)) = map fold_byte (d_host d)"
proof -
  have f: "fold_byte c = 58 \<longleftrightarrow> c = 58" "fold_byte c = 93 \<longleftrightarrow> c = 93" for c
    by (rule fold_byte_special, simp)+
  have h: "host_text (d_host d)" "d_host d \<noteq> []" using assms by (simp_all add: well_formed_destination_def)
  show ?thesis
  proof (cases "d_port d")
    case None
    have "last (d_host d) \<noteq> 93" "list_all (\<lambda>c. c \<noteq> 58 \<and> c \<noteq> 93) (d_host d)"
      using h by (auto simp: host_text_def list_all_iff)
    moreover from this(2) have "dropWhile (\<lambda>c. c \<noteq> 58 \<and> c \<noteq> 93) (rev (map fold_byte (d_host d))) = []"
      by (auto simp: list_all_iff f)
    moreover have "last (map fold_byte (d_host d)) = fold_byte (last (d_host d))" using h(2) by (simp add: last_map)
    ultimately have "core_stripPort (map fold_byte (d_host d)) = map fold_byte (d_host d)"
      using h(2) f stripPort_scan [of "map fold_byte (d_host d)" "[]"] by simp
    with None show ?thesis by (simp add: authority_def)
  next
    case (Some p)
    then have p: "list_all (\<lambda>c. c \<noteq> 58 \<and> c \<noteq> 93) p"
      using assms by (auto simp: well_formed_destination_def host_text_def list_all_iff)
    let ?h = "map fold_byte (d_host d)"
    have a: "map fold_byte (authority d) = ?h @ 58 # map fold_byte p" using Some by (simp add: authority_def fold_byte_def)
    have "last (map fold_byte (authority d)) \<noteq> 93" using p by (cases p rule: rev_cases) (auto simp: a f)
    moreover have "dropWhile (\<lambda>c. c \<noteq> 58 \<and> c \<noteq> 93) (rev (map fold_byte p) @ 58 # rev ?h) = 58 # rev ?h"
      using p by (simp add: dropWhile_append list_all_iff f)
    ultimately show ?thesis
      using stripPort_scan [of "map fold_byte (authority d)" "58 # rev ?h"] by (simp add: a)
  qed
qed

lemma core_lowerBytes_eq: "core_lowerBytes s = map fold_byte s"
  using core_lowerASCII_eq [of s] by (simp add: core_lowerBytes_def core_lowerASCII_def)

lemma subdomain_iff:
  "length d > length orig + 1 \<and> d ! (length d - length orig - 1) = 46 \<and> drop (length d - length orig) d = orig \<longleftrightarrow>
     (\<exists>label. label \<noteq> [] \<and> d = label @ [46] @ orig)" for d :: gobytes
proof
  assume a: "length d > length orig + 1 \<and> d ! (length d - length orig - 1) = 46 \<and> drop (length d - length orig) d = orig"
  let ?k = "length d - length orig - 1"
  have "d = take ?k d @ d ! ?k # drop (Suc ?k) d" using a by (intro id_take_nth_drop) linarith
  moreover have "Suc ?k = length d - length orig" using a by linarith
  ultimately have "d = take ?k d @ [46] @ orig" using a by simp
  moreover have "take ?k d \<noteq> []" using a by auto
  ultimately show "\<exists>label. label \<noteq> [] \<and> d = label @ [46] @ orig" by blast
qed auto

lemma isDeclaredOrigin_iff:
  assumes "dest \<noteq> []" "core_stripPort (map fold_byte dest) = d"
  shows "isDeclaredOrigin dest origins \<longleftrightarrow>
    (\<exists>orig \<in> set origins. d = orig \<or> (\<exists>label. label \<noteq> [] \<and> d = label @ [46] @ orig))"
proof -
  have "isDeclaredOrigin dest origins \<longleftrightarrow> list_ex (\<lambda>orig. if d = orig then True
      else length d > length orig + 1 \<and> d ! (length d - length orig - 1) = 46 \<and>
        drop (length d - length orig) d = orig) origins"
    using assms by (simp add: isDeclaredOrigin_def core_lowerBytes_eq Let_def)
  then show ?thesis unfolding subdomain_iff list_ex_exists by (metis (full_types))
qed

text \<open>C12. In a parameter of the operator's list (not in an argument name), and with at least one origin
  configured - with none the operator reports nothing - a destination is reported exactly if its host is
  none of the declared origins and no subdomain of one. The destination may have blanks before it, any
  scheme or none, exactly two slashes, each of either kind, credentials, a port and a path; host and
  port are without slash, question mark, hash, at sign, colon and closing bracket, so a bracketed IPv6
  host is not covered.\<close>

theorem off_origin_reports_foreign:
  assumes "well_formed_destination d" and "Kind (ctx_Target c) \<noteq> TargetArgNames" "ctx_Origins c \<noteq> []"
    and "matchesParam (ctx_Key c) (if oo_fetch op then fetchParamNames else navigationParamNames)"
  shows "snd (offOrigin_Eval op c (destination_url d)) \<longleftrightarrow>
    \<not> (\<exists>orig \<in> set (ctx_Origins c). map fold_byte (d_host d) = orig \<or>
        (\<exists>label. label \<noteq> [] \<and> map fold_byte (d_host d) = label @ [46] @ orig))"
proof -
  have "authority d \<noteq> []" using assms(1) by (simp add: well_formed_destination_def authority_def)
  then show ?thesis
    using assms(2-4) absoluteHostOf_destination [OF assms(1)]
    by (simp add: offOrigin_Eval_eq off_origin_hit_def
        isDeclaredOrigin_iff [OF _ stripPort_authority [OF assms(1)]])
qed

definition own_site :: eval_ctx where
  "own_site = emptyCtx\<lparr>ctx_Target := \<lparr>Kind = TargetArgs, Name = []\<rparr>, ctx_Key := ascii ''login_redirect_to'',
     ctx_Origins := [ascii ''example.com'']\<rparr>"

theorem off_origin_reports_foreign_witness:
  "snd (offOrigin_Eval offOriginURL own_site (ascii ''https://example.com@evil.tld:443/x'')) \<and>
   \<not> snd (offOrigin_Eval offOriginURL own_site (ascii ''//WWW.example.com''))"
proof
  let ?d = "\<lparr>d_blank = [], d_scheme = Some (ascii ''https''), d_slashes = (47, 47), d_user = Some (ascii ''example.com''),
    d_host = ascii ''evil.tld'', d_port = Some (ascii ''443''), d_tail = ascii ''/x''\<rparr>"
  let ?e = "\<lparr>d_blank = [], d_scheme = None, d_slashes = (47, 47), d_user = None,
    d_host = ascii ''WWW.example.com'', d_port = None, d_tail = []\<rparr>"
  have c: "Kind (ctx_Target own_site) \<noteq> TargetArgNames" "ctx_Origins own_site \<noteq> []"
    "matchesParam (ctx_Key own_site) (if oo_fetch offOriginURL then fetchParamNames else navigationParamNames)"
    by code_simp+
  have d: "well_formed_destination ?d" "destination_url ?d = ascii ''https://example.com@evil.tld:443/x''" by code_simp+
  have "map fold_byte (d_host ?d) = ascii ''evil.tld''" by code_simp
  moreover have "ctx_Origins own_site = [ascii ''example.com'']" by (simp add: own_site_def)
  ultimately have "\<not> (\<exists>orig \<in> set (ctx_Origins own_site). map fold_byte (d_host ?d) = orig \<or>
      (\<exists>label. label \<noteq> [] \<and> map fold_byte (d_host ?d) = label @ [46] @ orig))"
    by (auto simp del: list.map dest: arg_cong [where f = length])
  then show "snd (offOrigin_Eval offOriginURL own_site (ascii ''https://example.com@evil.tld:443/x''))"
    unfolding d(2) [symmetric] by (simp only: off_origin_reports_foreign [OF d(1) c] not_False_eq_True)
  have e: "well_formed_destination ?e" "destination_url ?e = ascii ''//WWW.example.com''" by code_simp+
  have "map fold_byte (d_host ?e) = ascii ''www'' @ [46] @ ascii ''example.com''" by code_simp
  moreover have "ascii ''example.com'' \<in> set (ctx_Origins own_site)" "ascii ''www'' \<noteq> []" by (simp_all add: own_site_def)
  ultimately have "\<exists>orig \<in> set (ctx_Origins own_site). map fold_byte (d_host ?e) = orig \<or>
      (\<exists>label. label \<noteq> [] \<and> map fold_byte (d_host ?e) = label @ [46] @ orig)" by blast
  then show "\<not> snd (offOrigin_Eval offOriginURL own_site (ascii ''//WWW.example.com''))"
    unfolding e(2) [symmetric] by (simp only: off_origin_reports_foreign [OF e(1) c] simp_thms)
qed

end
