(* ===== verification/CoreAddress.thy ===== *)
theory CoreAddress
  imports CoreSinks CoreLiterals HostCorrect
begin

unbundle bit_operations_syntax

text \<open>
  The address operator of the core ruleset (ruleset/core/addressop.go) against the spellings of
  HostCorrect: one to four parts in three bases. The literals derived from a needle are where the
  spellings of the address begin, so the prefilter nominates the rule for each of them, and the
  canonical form then hits.
\<close>

section \<open>Printing in a base\<close>

lemma itoa_digit_char: "unat d < 16 \<Longrightarrow> itoa_digit d = digit_char (unat d)"
proof -
  have "\<forall>k \<in> set [0..<16]. itoa_digit (of_nat k) = digit_char k" by code_simp
  moreover have "of_nat (unat d) = d" by simp
  ultimately show "unat d < 16 \<Longrightarrow> ?thesis" by (metis atLeastLessThan_iff le0 set_upt)
qed

lemma itoa_loop_digits:
  assumes "2 \<le> b" "b \<le> 16" "unat v < b ^ i"
  shows "itoa_loop i v (of_nat b) buf = digits b (unat v) @ buf"
  using assms(3)
proof (induction i arbitrary: v buf)
  case 0
  then show ?case by (simp add: digits.simps)
next
  case (Suc i)
  have b: "unat (of_nat b :: u64) = b" using assms by (simp add: unat_of_nat)
  show ?case
  proof (cases "v = 0")
    case True
    then show ?thesis by (simp add: digits.simps)
  next
    case False
    have q: "unat (v div of_nat b) = unat v div b" and m: "unat (v mod of_nat b) = unat v mod b"
      by (simp_all add: unat_div unat_mod b)
    have "unat v div b < b ^ i" using Suc(2) assms(1) by (simp add: less_mult_imp_div_less mult.commute)
    then have "itoa_loop i (v div of_nat b) (of_nat b) (itoa_digit (v mod of_nat b) # buf) =
        digits b (unat v div b) @ itoa_digit (v mod of_nat b) # buf" using Suc(1) [of "v div of_nat b"] by (simp add: q)
    moreover have "itoa_digit (v mod of_nat b) = digit_char (unat v mod b)"
      using assms itoa_digit_char [of "v mod of_nat b"] by (simp add: m order_less_le_trans [OF mod_less_divisor])
    moreover have "digits b (unat v) = digits b (unat v div b) @ [digit_char (unat v mod b)]"
      using False assms(1) by (subst digits.simps) (simp add: unat_eq_0)
    moreover have "0 < v" using False by (simp add: word_gt_0)
    ultimately show ?thesis by simp
  qed
qed

lemma itoaBase_digits:
  assumes "8 \<le> b" "b \<le> 16"
  shows "itoaBase v (of_nat b) = (if v = 0 then [48] else digits b (unat v))"
proof -
  have "(8 :: nat) ^ 24 \<le> b ^ 24" using assms(1) by (intro power_mono) simp_all
  moreover have "unat v < 2 ^ LENGTH(64)" by (rule unsigned_less)
  ultimately have "unat v < b ^ 24" by simp
  then show ?thesis using assms itoa_loop_digits [of b v 24 "[]"] by (simp add: itoaBase_def)
qed

lemmas itoa_bases = itoaBase_digits [of 8, simplified] itoaBase_digits [of 10, simplified] itoaBase_digits [of 16, simplified]

section \<open>Reading a dotted quad\<close>

lemma quad_loop_digits:
  "quad_loop (digits 10 n @ rest) out 0 k seen =
   quad_loop rest out (of_nat n) (k + length (digits 10 n)) seen"
proof (induction n arbitrary: rest k rule: less_induct)
  case (less n)
  show ?case
  proof (cases "n = 0")
    case True
    then show ?thesis by (simp add: digits.simps)
  next
    case False
    have "\<forall>d \<in> set [0..<10]. \<not> (digit_char d = 46 \<or> digit_char d < 48 \<or> 57 < digit_char d) \<and>
        ucast (digit_char d - 48) = (of_nat d :: 64 word)" by code_simp
    then have d: "\<not> (digit_char (n mod 10) = 46 \<or> digit_char (n mod 10) < 48 \<or> 57 < digit_char (n mod 10))"
      "ucast (digit_char (n mod 10) - 48) = (of_nat (n mod 10) :: 64 word)" by simp_all
    have n: "of_nat (n div 10) * 10 + of_nat (n mod 10) = (of_nat n :: 64 word)"
      by (metis div_mult_mod_eq of_nat_add of_nat_mult of_nat_numeral)
    have rd: "digits 10 n = digits 10 (n div 10) @ [digit_char (n mod 10)]"
      using False by (subst digits.simps) simp
    have "quad_loop (digits 10 n @ rest) out 0 k seen =
        quad_loop (digits 10 (n div 10) @ digit_char (n mod 10) # rest) out 0 k seen" by (simp add: rd)
    also have "\<dots> = quad_loop (digit_char (n mod 10) # rest) out (of_nat (n div 10)) (k + length (digits 10 (n div 10))) seen"
      using False by (intro less) simp
    also have "\<dots> = quad_loop rest out (of_nat n) (k + length (digits 10 n)) seen" using d(1) by (simp add: d(2) n rd)
    finally show ?thesis .
  qed
qed

lemma sint_part: "n < 256 \<Longrightarrow> \<not> sint (of_nat n :: 64 word) > 255"
  by (simp add: signed_of_nat signed_take_bit_int_eq_self)

lemma quad_loop_part:
  assumes "n < 256"
  shows "quad_loop (spell_part (Dec, n) @ 46 # s) out 0 0 seen = quad_loop s (push_bit 8 out OR of_nat n) 0 0 (seen + 1)"
    "quad_loop (spell_part (Dec, n)) out 0 0 seen = Some (push_bit 8 out OR of_nat n, seen + 1)"
proof -
  have d: "digits 10 n \<noteq> []" if "n \<noteq> 0" using that by (subst digits.simps) simp
  have c: "(ucast (of_nat n :: 64 word) :: u32) = of_nat n" using assms by (simp add: ucast_of_nat_u64)
  have s: "quad_loop (spell_part (Dec, n) @ rest) out 0 0 seen = quad_loop rest out (of_nat n) (if n = 0 then 1 else length (digits 10 n)) seen"
    for rest using quad_loop_digits [of n rest out 0 seen] by simp
  have k: "\<not> ((if n = 0 then 1 else length (digits 10 n)) = 0 \<or> sint (of_nat n :: 64 word) > 255)"
    using d sint_part [OF assms] by simp
  show "quad_loop (spell_part (Dec, n) @ 46 # s) out 0 0 seen = quad_loop s (push_bit 8 out OR of_nat n) 0 0 (seen + 1)"
    unfolding s quad_loop.simps c if_not_P [OF k] by simp
  show "quad_loop (spell_part (Dec, n)) out 0 0 seen = Some (push_bit 8 out OR of_nat n, seen + 1)"
    using s [of "[]"] unfolding quad_loop.simps c if_not_P [OF k] append_Nil2 .
qed

lemma push_or: "y < 256 \<Longrightarrow> push_bit 8 (of_nat x) OR of_nat y = (of_nat (x * 256 + y) :: u32)"
  using or_shift [of y 8 x] by simp

lemma parseDottedQuad_quad: "parseDottedQuad (appendDottedQuad [] a) = (a, True)"
proof -
  define q where "q i = unat a div 256 ^ i mod 256" for i
  have l: "q i < 256" for i by (simp add: q_def)
  have "appendDottedQuad [] a = spell_part (Dec, q 3) @ 46 # spell_part (Dec, q 2) @ 46 # spell_part (Dec, q 1) @ 46 #
      spell_part (Dec, q 0)"
    by (simp add: appendDottedQuad_eq quad_parts_def q_def del: spell_part.simps)
  moreover have "of_nat (((q 3 * 256 + q 2) * 256 + q 1) * 256 + q 0) = a"
  proof -
    have "address (quad_parts a) = ((q 3 * 256 + q 2) * 256 + q 1) * 256 + q 0"
      by (simp add: address_def quad_parts_def q_def)
    moreover have "of_nat (unat a) = a" by simp
    ultimately show ?thesis using quad_in_range(3) [of a] by metis
  qed
  ultimately show ?thesis
    using push_or [OF l, of 0 3]
    by (simp add: parseDottedQuad_def quad_loop_part [OF l] push_or [OF l] del: spell_part.simps of_nat_add of_nat_mult)
qed

section \<open>Where a spelling begins\<close>

lemma address_first:
  assumes "in_range ((r, n) # q # qs)"
  shows "address ((r, n) # q # qs) div 256 ^ 3 = n"
proof -
  have "(r, n) # q # qs \<noteq> []" "length ((r, n) # q # qs) \<le> 4" using assms by (simp_all add: in_range_def)
  then show ?thesis by (cases rule: parts_cases) (use assms in \<open>auto simp: in_range_def address_def\<close>)
qed

lemma address_less:
  assumes "in_range ps"
  shows "address ps < 2 ^ 32"
proof -
  have "ps \<noteq> []" "length ps \<le> 4" using assms by (simp_all add: in_range_def)
  then show ?thesis by (cases rule: parts_cases) (use assms in \<open>auto simp: in_range_def address_def\<close>)
qed

lemma first_byte: "unat (ucast (drop_bit 24 a) :: u64) = unat (a :: u32) div 256 ^ 3"
proof -
  have s: "unat (drop_bit 24 a) = unat a div 2 ^ 24"
    using take_bit_nat_eq_self [OF unsigned_less [of a]] by (subst unsigned_drop_bit_eq) (simp add: drop_bit_eq_div)
  have "unat a < 2 ^ LENGTH(32)" by (rule unsigned_less)
  then have "unat a div 2 ^ 24 < 2 ^ 64" by (intro order_le_less_trans [OF div_le_dividend]) simp
  then show ?thesis by (simp add: unsigned_ucast_eq s take_bit_nat_eq_self)
qed

lemma unat_whole: "unat (ucast a :: u64) = unat (a :: u32)"
proof -
  have "unat a < 2 ^ LENGTH(32)" by (rule unsigned_less)
  then show ?thesis by (simp add: unsigned_ucast_eq take_bit_nat_eq_self)
qed

text \<open>The leads, as spellings.\<close>

lemma itoa_spell:
  "itoaBase v 10 = spell_part (Dec, unat v)" "[48, 120] @ itoaBase v 16 = spell_part (Hex, unat v)"
  "v \<noteq> 0 \<Longrightarrow> [48] @ itoaBase v 8 = spell_part (Oct, unat v)"
  by (simp_all add: itoa_bases unat_eq_0)

lemma addressLeads_eq:
  "addressLeads (appendDottedQuad [] a) =
     (let first = ucast (drop_bit 24 a) :: u64 in
      [spell_part (Dec, unat first) @ [46], spell_part (Hex, unat first), ([48] @ itoaBase first 8) @ [46],
       spell_part (Dec, unat (ucast a :: u64)), spell_part (Hex, unat (ucast a :: u64)), [48] @ itoaBase (ucast a) 8])"
  unfolding addressLeads_def parseDottedQuad_quad by (simp only: prod.case bool.case Let_def itoa_spell append_assoc)

lemma addressLeads_spell:
  fixes a :: u32
  defines "f \<equiv> unat a div 256 ^ 3"
  shows "spell_part (Dec, f) @ [46] \<in> set (addressLeads (appendDottedQuad [] a))"
    "spell_part (Hex, f) \<in> set (addressLeads (appendDottedQuad [] a))"
    "f \<noteq> 0 \<Longrightarrow> spell_part (Oct, f) @ [46] \<in> set (addressLeads (appendDottedQuad [] a))"
    "spell_part (Hex, unat a) \<in> set (addressLeads (appendDottedQuad [] a))"
proof -
  let ?first = "ucast (drop_bit 24 a) :: u64"
  have f: "unat ?first = f" unfolding f_def by (rule first_byte)
  note e = addressLeads_eq [of a, unfolded Let_def f unat_whole [of a]]
  show "spell_part (Dec, f) @ [46] \<in> set (addressLeads (appendDottedQuad [] a))"
    "spell_part (Hex, f) \<in> set (addressLeads (appendDottedQuad [] a))"
    "spell_part (Hex, unat a) \<in> set (addressLeads (appendDottedQuad [] a))"
    unfolding e by (simp_all only: list.set insert_iff simp_thms)
  assume "f \<noteq> 0"
  then have "?first \<noteq> 0" using f by (metis unat_0)
  then have "[48] @ itoaBase ?first 8 = spell_part (Oct, f)" using itoa_spell(3) f by metis
  then show "spell_part (Oct, f) @ [46] \<in> set (addressLeads (appendDottedQuad [] a))"
    unfolding e by (simp only: list.set insert_iff simp_thms)
qed

lemma spelling_begins:
  assumes r: "in_range ps" and m: "1 < length ps \<or> has_hex ps"
  shows "\<exists>l \<in> set (addressLeads (appendDottedQuad [] (of_nat (address ps)))). l \<noteq> [] \<and> (\<exists>rest. spell ps = l @ rest)"
proof -
  let ?a = "of_nat (address ps) :: u32"
  obtain r n qs where ps: "ps = (r, n) # qs" using r by (cases ps) (auto simp: in_range_def)
  have a: "unat ?a = address ps" using address_less [OF r] by (simp add: unat_of_nat)
  show ?thesis
  proof (cases qs)
    case Nil
    then have "r = Hex" using m ps by (cases r) (auto simp: has_hex_def)
    moreover have "address ps = n" using ps Nil by (simp add: address_def)
    ultimately show ?thesis using addressLeads_spell(4) [of ?a] a ps Nil spell_part_ends by (metis append_Nil2 spell.simps(2))
  next
    case (Cons q qs')
    then have f: "unat ?a div 256 ^ 3 = n" using address_first [of r n q qs'] r ps a by simp
    have s: "spell ps = spell_part (r, n) @ [46] @ spell qs" using ps Cons by simp
    note l = addressLeads_spell [of ?a, unfolded f]
    show ?thesis
    proof (cases r)
      case Dec
      with l(1) s show ?thesis by (metis append.assoc snoc_eq_iff_butlast)
    next
      case Hex
      with l(2) s spell_part_ends show ?thesis by metis
    next
      case Oct
      show ?thesis
      proof (cases "n = 0")
        case True
        then have "spell_part (r, n) = spell_part (Dec, n)" using Oct by (simp add: digits.simps)
        with l(1) s show ?thesis by (metis append.assoc snoc_eq_iff_butlast)
      next
        case False
        with l(3) s Oct show ?thesis by (metis append.assoc snoc_eq_iff_butlast)
      qed
    qed
  qed
qed

lemma containsAny_hit: "snd (containsAny_Eval (ContainsAny ns) c v) \<longleftrightarrow> (\<exists>n \<in> set ns. literal_occurs n v)"
  using contains_loop_spec [OF ContainsAny_fields(1) [of ns], of v]
  by (auto simp: containsAny_Eval_def literal_occurs_def)

text \<open>C13. An address needle is found in the spellings of the address a client library reads: one to
  four parts, each in decimal, octal or hexadecimal without redundant leading zeros, at most 24 bytes in
  all, and not a bare decimal or octal number. The operator hits a value that is such a spelling, and one
  of the literals it declares stands in it, so the prefilter does not leave the rule out.\<close>

theorem address_spellings_found:
  assumes "in_range ps" "length (spell ps) \<le> 24" "1 < length ps \<or> has_hex ps"
    and "appendDottedQuad [] (of_nat (address ps)) \<in> set needles"
  shows "snd (address_Eval (addressContains needles) c (spell ps)) \<and>
    (\<exists>l \<in> set (fst (address_Literals (addressContains needles))). literal_occurs l (spell ps))"
proof
  let ?q = "appendDottedQuad [] (of_nat (address ps) :: u32)"
  let ?op = "addressContains needles"
  have q: "?q \<noteq> []" using spell_ends [of "quad_parts (of_nat (address ps))"]
    by (simp add: appendDottedQuad_eq quad_parts_def)
  have hit: "snd (containsAny_Eval (ad_inner ?op) c ?q)"
    using assms(4) q by (auto simp: addressContains_def Let_def containsAny_hit intro!: bexI [of _ ?q] literal_occurs_self)
  have "numericHost_Apply (spell ps) = (?q, ?q \<noteq> spell ps)"
    using numericHost_Apply_spell [OF assms(1) _ assms(3)] assms(2) by (simp add: maxHostToken_def appendDottedQuad_eq)
  then show "snd (address_Eval ?op c (spell ps))"
    using hit by (auto simp: address_Eval_def split: prod.split bool.split)
  obtain l rest where l: "l \<in> set (addressLeads ?q)" "l \<noteq> []" "spell ps = l @ rest"
    using spelling_begins [OF assms(1,3)] by blast
  then have "literal_occurs l (spell ps)" by (intro literal_occurs_self) simp_all
  moreover have "l \<in> set (fst (address_Literals ?op))"
    using l(1) assms(4) by (auto simp: address_Literals_def addressContains_def Let_def)
  ultimately show "\<exists>l \<in> set (fst (address_Literals ?op)). literal_occurs l (spell ps)" by blast
qed

theorem address_spellings_found_witness:
  "snd (address_Eval (addressContains [ascii ''169.254.169.254'']) emptyCtx (ascii ''0xa9.0376.43518'')) \<and>
   (\<exists>l \<in> set (fst (address_Literals (addressContains [ascii ''169.254.169.254'']))). literal_occurs l (ascii ''0xa9.0376.43518''))"
proof -
  let ?ps = "[(Hex, 169), (Oct, 254), (Dec, 43518)]"
  have "address ?ps = 2852039166" by (simp add: address_def)
  moreover have "appendDottedQuad [] 2852039166 = ascii ''169.254.169.254''"
    by (simp add: appendDottedQuad_eq quad_parts_def digits.simps digit_char_def)
  ultimately have n: "appendDottedQuad [] (of_nat (address ?ps)) \<in> set [ascii ''169.254.169.254'']" by simp
  have s: "spell ?ps = ascii ''0xa9.0376.43518''" by (simp add: digits.simps digit_char_def)
  have "in_range ?ps" "length (spell ?ps) \<le> 24" "1 < length ?ps \<or> has_hex ?ps"
    unfolding s by (simp_all add: in_range_def)
  from address_spellings_found [OF this n, of emptyCtx] show ?thesis unfolding s .
qed

end
