(* ===== verification/CoreBody.thy ===== *)
theory CoreBody
  imports Rules
begin

text \<open>
  The generated half of the core ruleset (ruleset/core/core.go): every rule of the request-headers
  phase that reads arguments gets a counterpart for the request body, and every rule of the
  response-headers phase one for the response body. A rule's operator, transforms and severity are
  shared, so the ruleset itself is a parameter here.
\<close>

section \<open>Definitions\<close>

definition bodyPhaseOffset :: rule_id where "bodyPhaseOffset = 900"

definition bodyTargetsFor :: "target list \<Rightarrow> target list" where
  "bodyTargetsFor src =
     (let (readsValues, readsNames) =
        fold (\<lambda>t (values, names).
          if Kind t = TargetArgs then (if Name t = [] then True else values, names)
          else if Kind t = TargetArgNames then (values, True)
          else (values, names)) src (False, False)
      in (if readsValues then [\<lparr>Kind = TargetArgs, Name = []\<rparr>, \<lparr>Kind = TargetRequestBody, Name = []\<rparr>] else []) @
         (if readsNames then [\<lparr>Kind = TargetArgNames, Name = []\<rparr>] else []))"

definition mirrorToBody :: "('t, 'o, 'a) rule \<Rightarrow> ('t, 'o, 'a) rule" where
  "mirrorToBody r =
     r\<lparr>ID := ID r + bodyPhaseOffset, DerivedFrom := ID r, Phase := PhaseRequestBody,
       Targets := bodyTargetsFor (Targets r), Msg := Msg r @ ascii '' (body)''\<rparr>"

fun reads_loop :: "target list \<Rightarrow> bool" where
  "reads_loop [] = False"
| "reads_loop (t # ts) =
     (if Kind t = TargetArgs then (if Name t = [] then True else reads_loop ts)
      else if Kind t = TargetArgNames then True
      else reads_loop ts)"

definition readsArgs :: "('t, 'o, 'a) rule \<Rightarrow> bool" where
  "readsArgs r = reads_loop (Targets r)"

definition withBodyPhase :: "('t, 'o, 'a) rule list \<Rightarrow> ('t, 'o, 'a) rule list" where
  "withBodyPhase rs =
     fold (\<lambda>r out.
       if Phase r \<noteq> PhaseRequestHeaders then out
       else if \<not> readsArgs r then out
       else out @ [mirrorToBody r]) rs rs"

definition WithBodyPhase :: "('t, 'o, 'a) rule list \<Rightarrow> ('t, 'o, 'a) rule list" where
  "WithBodyPhase rs = withBodyPhase rs"

definition responsePhaseOffset :: rule_id where "responsePhaseOffset = 100"

definition responseBodyTargets :: "target list" where
  "responseBodyTargets = [\<lparr>Kind = TargetResponseHeaders, Name = []\<rparr>, \<lparr>Kind = TargetResponseBody, Name = []\<rparr>]"

definition response_mirror :: "('t, 'o, 'a) rule \<Rightarrow> ('t, 'o, 'a) rule" where
  "response_mirror r =
     r\<lparr>ID := ID r + responsePhaseOffset, Phase := PhaseResponseBody, Targets := responseBodyTargets,
       Msg := Msg r @ ascii '' (body)''\<rparr>"

definition withResponsePhase :: "('t, 'o, 'a) rule list \<Rightarrow> ('t, 'o, 'a) rule list" where
  "withResponsePhase rs =
     fold (\<lambda>r out. if Phase r \<noteq> PhaseResponseHeaders then out else out @ [response_mirror r]) rs rs"

text \<open>\<open>Default\<close> over the authored rules.\<close>

definition core_Default :: "('t, 'o, 'a) rule list \<Rightarrow> ('t, 'o, 'a) rule list" where
  "core_Default requestRules = withResponsePhase (withBodyPhase requestRules)"

section \<open>Counterparts\<close>

lemma reads_loop_iff:
  "reads_loop ts \<longleftrightarrow> (\<exists>t \<in> set ts. Kind t = TargetArgs \<and> Name t = [] \<or> Kind t = TargetArgNames)"
  by (induction ts) auto

lemma bodyTargetsFor_eq:
  "bodyTargetsFor ts =
     (if \<exists>t \<in> set ts. Kind t = TargetArgs \<and> Name t = []
      then [\<lparr>Kind = TargetArgs, Name = []\<rparr>, \<lparr>Kind = TargetRequestBody, Name = []\<rparr>] else []) @
     (if \<exists>t \<in> set ts. Kind t = TargetArgNames then [\<lparr>Kind = TargetArgNames, Name = []\<rparr>] else [])"
proof -
  have "fold (\<lambda>t (values, names).
      if Kind t = TargetArgs then (if Name t = [] then True else values, names)
      else if Kind t = TargetArgNames then (values, True)
      else (values, names)) ts (a, b) =
    (a \<or> (\<exists>t \<in> set ts. Kind t = TargetArgs \<and> Name t = []), b \<or> (\<exists>t \<in> set ts. Kind t = TargetArgNames))" for a b
    by (induction ts arbitrary: a b) auto
  then show ?thesis by (simp add: bodyTargetsFor_def)
qed

definition has_mirror :: "('t, 'o, 'a) rule \<Rightarrow> bool" where
  "has_mirror r \<longleftrightarrow> Phase r = PhaseRequestHeaders \<and> readsArgs r"

lemma withBodyPhase_eq: "withBodyPhase rs = rs @ map mirrorToBody (filter has_mirror rs)"
proof -
  have "fold (\<lambda>r out. if Phase r \<noteq> PhaseRequestHeaders then out else if \<not> readsArgs r then out
      else out @ [mirrorToBody r]) rs out = out @ map mirrorToBody (filter has_mirror rs)" for out
    by (induction rs arbitrary: out) (auto simp: has_mirror_def)
  then show ?thesis by (simp add: withBodyPhase_def)
qed

lemma withResponsePhase_eq:
  "withResponsePhase rs = rs @ map response_mirror (filter (\<lambda>r. Phase r = PhaseResponseHeaders) rs)"
proof -
  have "fold (\<lambda>r out. if Phase r \<noteq> PhaseResponseHeaders then out else out @ [response_mirror r]) rs out =
      out @ map response_mirror (filter (\<lambda>r. Phase r = PhaseResponseHeaders) rs)" for out
    by (induction rs arbitrary: out) auto
  then show ?thesis by (simp add: withResponsePhase_def)
qed

lemma core_Default_eq:
  "core_Default rs = rs @ map mirrorToBody (filter has_mirror rs) @
     map response_mirror (filter (\<lambda>r. Phase r = PhaseResponseHeaders) rs)"
  by (simp add: core_Default_def withBodyPhase_eq withResponsePhase_eq filter_empty_conv mirrorToBody_def)

text \<open>The target a body counterpart reads for one of the original.\<close>

definition body_reads :: "target \<Rightarrow> target list" where
  "body_reads t =
     (if Kind t = TargetArgs \<and> Name t = [] then [\<lparr>Kind = TargetArgs, Name = []\<rparr>, \<lparr>Kind = TargetRequestBody, Name = []\<rparr>]
      else if Kind t = TargetArgNames then [\<lparr>Kind = TargetArgNames, Name = []\<rparr>]
      else [])"

lemma bodyTargetsFor_set: "set (bodyTargetsFor ts) = (\<Union>t \<in> set ts. set (body_reads t))"
proof -
  have u: "(\<Union>t \<in> T. if A t then {a, b} else if B t then {c} else {}) =
      (if \<exists>t \<in> T. A t then {a, b} else {}) \<union> (if \<exists>t \<in> T. B t then {c} else {})"
    if "\<And>t. A t \<Longrightarrow> \<not> B t" for A B :: "target \<Rightarrow> bool" and T and a b c :: target
    using that by auto
  have s: "set (body_reads t) =
      (if Kind t = TargetArgs \<and> Name t = [] then {\<lparr>Kind = TargetArgs, Name = []\<rparr>, \<lparr>Kind = TargetRequestBody, Name = []\<rparr>}
       else if Kind t = TargetArgNames then {\<lparr>Kind = TargetArgNames, Name = []\<rparr>} else {})" for t
    by (simp add: body_reads_def)
  have x: "Kind t = TargetArgs \<and> Name t = [] \<Longrightarrow> \<not> Kind t = TargetArgNames" for t by simp
  show ?thesis by (simp only: s u [OF x] bodyTargetsFor_eq set_append if_distrib [of set] list.set)
qed

text \<open>An exception that names a rule covers its request-body counterpart.\<close>

lemma mirror_excepted:
  assumes "Suppresses es (ID r) d path t key = Some e" "ex_RuleID e = ID r" "ID r \<noteq> 0"
  shows "Suppresses es (ID (mirrorToBody r)) (DerivedFrom (mirrorToBody r)) path t key \<noteq> None"
proof -
  have "e \<in> set es \<and> exception_Matches e (ID r) d path t key"
    using assms(1) by (induction es) (auto split: if_splits)
  then have "e \<in> set es" "exception_Matches e (ID (mirrorToBody r)) (DerivedFrom (mirrorToBody r)) path t key"
    using assms(2,3) by (auto simp: exception_Matches_def mirrorToBody_def split: if_splits)
  then show ?thesis by (induction es) auto
qed

text \<open>It does not cover the response-body counterpart, which records no origin.\<close>

lemma response_mirror_not_excepted:
  fixes r :: "('t, 'o, 'a) rule"
  assumes "ID r \<noteq> 0" "DerivedFrom r = 0"
  shows "Suppresses [\<lparr>ex_RuleID = ID r, ex_Path = [], ex_Target = TargetInvalid, ex_Key = [], ex_Note = []\<rparr>]
      (ID r) (DerivedFrom r) path t key \<noteq> None"
    "Suppresses [\<lparr>ex_RuleID = ID r, ex_Path = [], ex_Target = TargetInvalid, ex_Key = [], ex_Note = []\<rparr>]
      (ID (response_mirror r)) (DerivedFrom (response_mirror r)) path t key = None"
proof -
  have "(100 :: rule_id) \<noteq> 0" by simp
  then have "ID r \<noteq> ID r + 100" by (metis add_cancel_left_right)
  then show "Suppresses [\<lparr>ex_RuleID = ID r, ex_Path = [], ex_Target = TargetInvalid, ex_Key = [], ex_Note = []\<rparr>]
      (ID (response_mirror r)) (DerivedFrom (response_mirror r)) path t key = None"
    using assms by (simp add: exception_Matches_def response_mirror_def responsePhaseOffset_def)
qed (simp add: exception_Matches_def)

text \<open>A rule that reads one named argument gets no counterpart: the body is not searched for it.\<close>

lemma named_argument_unmirrored:
  assumes "Targets r = [\<lparr>Kind = TargetArgs, Name = n\<rparr>]" "n \<noteq> []"
  shows "withBodyPhase [r] = [r]"
  using assms by (simp add: withBodyPhase_eq has_mirror_def readsArgs_def)

section \<open>Properties\<close>

text \<open>C11. \<open>Default\<close> keeps each authored rule that runs on the request headers and reads arguments, and
  adds for it a rule with the same operator, transforms and actions: its ID is 900 higher,
  it runs on the body, it records its origin, and it reads the body's arguments, names and raw bytes
  exactly where the original reads argument values and names, and never more. An exception that names
  the original covers it. A rule on one named argument would get none; the default set has no such rule
  on the request headers.\<close>

theorem body_counterparts:
  fixes rs :: "('t, 'o, 'a) rule list"
  assumes "r \<in> set rs" "Phase r = PhaseRequestHeaders"
    and "t \<in> set (Targets r)" "Kind t = TargetArgs \<and> Name t = [] \<or> Kind t = TargetArgNames"
  shows "r \<in> set (core_Default rs) \<and> (\<exists>m \<in> set (core_Default rs).
     ID m = ID r + 900 \<and> DerivedFrom m = ID r \<and> Phase m = PhaseRequestBody \<and>
     Op m = Op r \<and> Transforms m = Transforms r \<and> Actions m = Actions r \<and>
     set (Targets m) = (\<Union>t \<in> set (Targets r). set (body_reads t)) \<and>
     (\<forall>es e path tgt key. ID r \<noteq> 0 \<longrightarrow> ex_RuleID e = ID r \<longrightarrow>
        Suppresses es (ID r) (DerivedFrom r) path tgt key = Some e \<longrightarrow>
        Suppresses es (ID m) (DerivedFrom m) path tgt key \<noteq> None))"
proof (intro bexI [of _ "mirrorToBody r"] conjI)
  show "r \<in> set (core_Default rs)" using assms(1) by (simp add: core_Default_eq)
  have "has_mirror r" using assms(2-4) by (auto simp: has_mirror_def readsArgs_def reads_loop_iff)
  then show "mirrorToBody r \<in> set (core_Default rs)" using assms(1) by (simp add: core_Default_eq)
  show "set (Targets (mirrorToBody r)) = (\<Union>t \<in> set (Targets r). set (body_reads t))"
    by (simp add: mirrorToBody_def bodyTargetsFor_set)
qed (auto simp: mirrorToBody_def bodyPhaseOffset_def dest: mirror_excepted [unfolded mirrorToBody_def bodyPhaseOffset_def])

definition names_rule :: "(unit, unit, unit) rule" where
  "names_rule = \<lparr>DerivedFrom = 0, ID = 3012, Phase = PhaseRequestHeaders,
     Targets = [\<lparr>Kind = TargetRequestURI, Name = []\<rparr>, \<lparr>Kind = TargetArgNames, Name = []\<rparr>],
     Transforms = [], Op = Some (), Actions = [], Severity = 0, Confidence = 0, Msg = [], Tags = []\<rparr>"

theorem body_counterparts_witness:
  "\<exists>m \<in> set (core_Default [names_rule]).
     ID m = 3912 \<and> Phase m = PhaseRequestBody \<and> set (Targets m) = {\<lparr>Kind = TargetArgNames, Name = []\<rparr>} \<and>
     Suppresses [\<lparr>ex_RuleID = 3012, ex_Path = [], ex_Target = TargetInvalid, ex_Key = [], ex_Note = []\<rparr>]
       (ID m) (DerivedFrom m) (ascii ''/login'') \<lparr>Kind = TargetArgNames, Name = []\<rparr> (ascii ''user'') \<noteq> None"
proof -
  let ?t = "\<lparr>Kind = TargetArgNames, Name = []\<rparr> :: target"
  have "names_rule \<in> set [names_rule]" "Phase names_rule = PhaseRequestHeaders" "?t \<in> set (Targets names_rule)"
    "Kind ?t = TargetArgs \<and> Name ?t = [] \<or> Kind ?t = TargetArgNames"
    by (simp_all add: names_rule_def)
  from body_counterparts [OF this]
  obtain m where m: "m \<in> set (core_Default [names_rule])" "ID m = ID names_rule + 900" "Phase m = PhaseRequestBody"
      "set (Targets m) = (\<Union>t \<in> set (Targets names_rule). set (body_reads t))"
    and ex: "\<And>es e path tgt key. ID names_rule \<noteq> 0 \<Longrightarrow> ex_RuleID e = ID names_rule \<Longrightarrow>
      Suppresses es (ID names_rule) (DerivedFrom names_rule) path tgt key = Some e \<Longrightarrow>
      Suppresses es (ID m) (DerivedFrom m) path tgt key \<noteq> None"
    by auto
  have "Suppresses [\<lparr>ex_RuleID = 3012, ex_Path = [], ex_Target = TargetInvalid, ex_Key = [], ex_Note = []\<rparr>]
      (ID m) (DerivedFrom m) (ascii ''/login'') ?t (ascii ''user'') \<noteq> None"
    by (rule ex) (auto simp: names_rule_def exception_Matches_def)
  with m show ?thesis by (intro bexI [OF _ m(1)]) (simp add: names_rule_def body_reads_def)
qed

end
