(* ===== verification/Spec2Isabelle.thy ===== *)
theory Spec2Isabelle
  imports Types Budget Bitset Arena Windows PrefilterCorrect RuleCompileCorrect Readings EngineCorrect
    Ops TransformsCorrect EvalProps CompileProps SchemaCorrect BodyBinary BodyJSONRound BodyFrames BodyProto BodyXMLCorrect BodyMultipartCorrect
    TransactionFraming Explain Ldapi Nosqli CoreSinksCorrect CoreAddress CoreBody
begin

text \<open>
  A verification library for gwaf, an embeddable web application firewall in Go.

  \<^bold>\<open>The program.\<close> A request enters a transaction, which frames it into values (a target such as an
  argument or a header, a key, the bytes). For every value the engine computes the plausible readings
  of its bytes (internal/interpret), and for every reading and every group of rules that share a
  transform chain it applies the chain once, scans the result with the group's multi-pattern
  automaton to find the rules whose required literals occur, and calls the operators of just these
  rules, plus those of the rules without literals on the verbatim reading. Matches run the rules'
  actions; a block or an allow ends the phase. All work is charged to a fuel meter. The rules come
  from a compiler that validates, sorts and groups them. Around the engine, the transaction parses
  bodies by content type, checks them against the positive schema, derives the views rules read,
  applies the exceptions and turns the result of each phase into a decision, which can be explained.

  \<^bold>\<open>Theories and sources.\<close> Each theory models the files it names, in the order of the code.
  \<^item> Prelude: bytes and strings, the signed 64-bit wrap-around \<open>wrap64\<close>, loops that may stop early
    (\<open>iter_while\<close>, \<open>iter_opt\<close>), \<open>bytes.IndexByte\<close>.
  \<^item> Types (types/): severities, confidences, phases, rule ids, spans, targets and key matching.
  \<^item> Budget (internal/budget/fuel.go): the meter. A granted run of charges is exactly one whose sum is
    within the limit; an exhausted meter refuses for ever.
  \<^item> Bitset (internal/bitset/bitset.go): the candidate set on 64-bit words with its dirty range; locale
    \<open>candidate_set\<close> is what the engine relies on.
  \<^item> Arena (internal/memz/arena.go): the bump allocator; spans handed out stay valid until Reset.
  \<^item> Windows (internal/scan/window.go): overlapping windows lose no occurrence up to the overlap.
  \<^item> Prefilter (internal/prefilter/automaton.go), with SuffixWords, PrefilterTrie, PrefilterLinks and
    PrefilterCorrect: the builder's trie, the flattening, the breadth-first failure and dictionary
    links, Scan and MatchAny. The reference is occurrence of a literal up to ASCII case.
  \<^item> Rules (rules/action.go, operator.go, transform.go, rule.go, except.go, errors.go), RuleCompile and
    RuleCompileCorrect (rules/compile.go): validation, grouping by chain key, the plan and its report.
    CompileProps holds the properties.
  \<^item> Interpret, InterpretCorrect, Readings (internal/interpret/interpret.go): Detect, the eleven decoders
    (locale \<open>decoder\<close>, interpreted for each) and Set.Build.
  \<^item> Engine and EngineCorrect (internal/engine/stages.go, eval.go): staged chains, request context, one
    rule, one group, one reading, one value, one phase. EngineCorrect relates every loop to the hits
    the plain loops yield (\<open>follows\<close>); EvalProps draws the properties: nothing missed, nothing
    invented, and equality with the reference when unmetered. The reference says what is evaluated: no
    inert value, a rule without required literals on the verbatim reading only, any other rule where one
    of its literals occurs (\<open>nominates\<close>). So it holds of rulesets whose operators match values without
    their literals, as some of the core ruleset do; only \<open>Eval_detects\<close> asks that of the rule it is about.
  \<^item> Ops (rules/op/op.go): the built-in operators and their contract (locale \<open>operator_contract\<close>).
  \<^item> Transforms, NumericHost (rules/transform/): the thirteen transforms; PathCorrect, HostCorrect and
    TransformsCorrect prove the contract of the interface (locales \<open>transform\<close>, \<open>shrinking\<close>), round
    trips with encoders, and normal forms.
  \<^item> Schema, SchemaValidate and SchemaCorrect (schema/): compiled operations, route and field lookup,
    validation of values; lookup is exact, and the values that pass for an inert field are exactly those
    of a few spellings. \<open>inert_address_skipped\<close> below shows an address among them that a core rule matches.
  \<^item> Body, BodyBinary, BodyJSON, BodyFrames, BodyXML, BodyMultipart, BodyProto (internal/body/): the
    parser core and every format. BodyJSONCorrect, BodyJSONRound, BodyXMLCorrect and
    BodyMultipartCorrect show that parsing returns and hands over what was sent; the multipart reference
    is written on form parts (names, headers, content) that are rendered to text.
  \<^item> Decision (decision.go), Transaction, TransactionBody and TransactionRun (transaction.go, views.go),
    Waf (waf.go, options.go): the whole transaction and where it comes from. BodyInvariant and
    TransactionKeeps hold what each operation leaves alone; TransactionWf the well-formedness of every
    reachable transaction; TransactionFraming the exactness of the smuggling check, which a request
    with too many headers never reaches; EngineState and
    TransactionVerdict that every phase returns, what an allowed body went through, and what an
    exception removes.
  \<^item> Explain (explain.go): the explanation of a decision and the exception it suggests.
  \<^item> Detect, Ldapi and Nosqli (detect/ldapi, detect/nosqli): signals, scores, windows, and the two
    detectors, which report exactly the shapes they are written for.
  \<^item> CoreText, CoreFunc and CoreSinks (ruleset/core/): the operators written for the core ruleset.
    CoreLiterals and CoreSinksCorrect interpret \<open>operator_contract\<close> for those that require the
    literals they declare, show the values that slip past the others, and that the off-origin operator
    finds the host behind two slashes; CoreAddress does so for the spellings of an address. CoreBody has the generated
    body and response counterparts of the rules.

  \<^bold>\<open>Correspondence.\<close> A struct is a record, a tagged value a datatype or, where the code compares
  numbers, a word with named abbreviations. A method that changes its receiver returns it changed. A
  Go interface that third parties implement is a type variable whose methods are the fields of the
  record \<open>iface\<close>, an argument of the definitions; what the code relies on (a transform is pure, a rule's
  required literals are required) is a hypothesis of the theorems that need it, proved for the built-in
  values. Scratch
  buffers are left out, their contents kept. The iteration order of a Go map is a parameter
  (\<open>map_order\<close>); theorems hold for every order. The machine integers that can wrap are words or use
  \<open>wrap64\<close>; indices into slices are natural numbers, and so are the state numbers and output offsets of
  the automaton, \<open>int32\<close> in the code: the model is the code's behaviour for automata of fewer than 2^31
  states, transitions and outputs.

  \<^bold>\<open>Termination.\<close> Loops over the input are structural or have a measure. The automaton's loops follow
  links of the data, so they are partial functions returning options; the theorems show that they
  return for every automaton the builder makes. The mutually recursive JSON parsers take a fuel argument,
  which \<open>ParseJSON\<close> sets from the length of the body; \<open>ParseJSON_total\<close> proves it enough for every body. Apart
  from this the model uses none; the code's own fuel is the meter, and the theorems say what happens when
  it runs out.

  \<^bold>\<open>Not modelled.\<close> The other attack detectors (SQL, XSS, shell, template, prompt, GraphQL, PHP, Java)
  and the SecLang importer: hand-written scanners of about 7,000 lines that nothing above depends on,
  since an operator is a parameter of the engine. The rules of the core ruleset and the profiles are
  data over the operators modelled here. Schema front ends, middleware, adapters, proxy, audit,
  telemetry, calibration and the command line are I/O around the library; the regular-expression
  operator rests on Go's regexp package. Texts of errors, decisions and explanations are the values
  they are formatted from. WithLogger is left out, and the reuse of scratch buffers across calls.
\<close>

section \<open>Schema and rules\<close>

text \<open>
  A field of format \<open>ipv4\<close> is inert and admits the address of the cloud metadata service, which the
  address operator of the core ruleset reports; the evaluator skips an inert value in every group.
\<close>

lemma inert_address_skipped:
  fixes host defines "host \<equiv> field_zero\<lparr>f_Name := ascii ''host'', f_Kind := KindString, f_Format := FormatIPv4\<rparr>"
  shows "Inert host" "Validate int_ops host (ascii ''169.254.169.254'') = ViolationNone"
    and "snd (address_Eval metadata_op emptyCtx (ascii ''169.254.169.254''))"
    and "v_Inert v \<Longrightarrow> value_hits I score c groups v = []"
  unfolding host_def by code_simp+ (simp add: value_hits_def)

end
